(* ===== verification/Oculus_Prelude.thy ===== *)
theory Oculus_Prelude
  imports Main "HOL-Library.Word"
begin

unbundle bit_operations_syntax

text \<open>
  What every component shares: the names of the machine integer types, the
  collections of rewrite rules the component proofs use, the lemmas on masked
  ring-buffer indices (a counter that wraps at 2^32 used as an index by
  \<open>counter & (size - 1)\<close>) and on cyclic probe sequences, and the C representation of
  truth values.
\<close>

section \<open>Types\<close>

type_synonym u8 = "8 word"
type_synonym u16 = "16 word"
type_synonym u32 = "32 word"
type_synonym u64 = "64 word"

text \<open>An address; 0 is the null pointer.\<close>

type_synonym ptr = nat

abbreviation (input) NULL :: ptr where
  "NULL \<equiv> 0"

section \<open>Collections of rules\<close>

named_theorems state_simps \<open>record and state projections of the operations\<close>
named_theorems inv_intros \<open>introduction rules for component invariants\<close>
named_theorems word_index \<open>indices computed from masked or wrapped counters\<close>

section \<open>Masked counters\<close>

text \<open>\<open>x & (n - 1)\<close> is \<open>x mod n\<close> when \<open>n\<close> is a power of two.\<close>

lemma unat_and_mask [word_index]:
  fixes x n :: "'a::len word"
  assumes "unat n = 2 ^ k"
  shows "unat (x AND (n - 1)) = unat x mod 2 ^ k"
proof -
  have k: "k < LENGTH('a)"
  proof (rule ccontr)
    assume "\<not> k < LENGTH('a)"
    then have "(2::nat) ^ LENGTH('a) \<le> 2 ^ k" by (simp add: power_increasing)
    moreover have "unat n < 2 ^ LENGTH('a)" by simp
    ultimately show False using assms by simp
  qed
  have "n = of_nat (unat n)" by simp
  then have "n = 2 ^ k" using assms by simp
  then have "n - 1 = mask k" by (simp add: mask_eq_decr_exp)
  then have "x AND (n - 1) = take_bit k x" by (simp add: take_bit_eq_mask)
  then have "unat (x AND (n - 1)) = take_bit k (unat x)" by (simp add: unsigned_take_bit_eq)
  then show ?thesis by (simp add: take_bit_eq_mod)
qed

lemma unat_add_eq_mod: "unat (a + b :: 'a::len word) = (unat a + unat b) mod 2 ^ LENGTH('a)"
  by (simp add: unat_word_ariths)

lemma unat_add_small:
  fixes a b :: "'a::len word"
  assumes "unat a + unat b < 2 ^ LENGTH('a)"
  shows "unat (a + b) = unat a + unat b"
  using assms by (simp add: unat_add_eq_mod)

lemma unat_diff_Suc:
  fixes a b :: "'a::len word"
  assumes "a \<noteq> b"
  shows "unat (a - (b + 1)) = unat (a - b) - 1"
proof -
  have "a - b \<noteq> 0" using assms by simp
  then have "unat ((a - b) - 1) = unat (a - b) - 1" by (rule unat_minus_one)
  moreover have "a - (b + 1) = (a - b) - 1" by simp
  ultimately show ?thesis by (simp only:)
qed

lemma unat_Suc_diff:
  fixes a b :: "'a::len word"
  assumes "unat (a - b) < 2 ^ LENGTH('a) - 1"
  shows "unat ((a + 1) - b) = Suc (unat (a - b))"
proof -
  have "(a + 1) - b = (a - b) + 1" by simp
  moreover have "unat ((a - b) + 1) = unat (a - b) + unat (1 :: 'a word)"
    by (rule unat_add_small) (use assms in simp)
  ultimately show ?thesis by (simp only: unat_1)
qed

lemma mod_mod_pow2_le:
  assumes "k \<le> (n::nat)"
  shows "a mod 2 ^ n mod 2 ^ k = a mod (2::nat) ^ k"
  using assms by (simp add: mod_mod_cancel le_imp_power_dvd)

text \<open>Two offsets below a size fall on different places of a ring of that size.\<close>

lemma ring_index_inj:
  fixes a :: nat
  assumes "i < n" "j < n" "(a + i) mod n = (a + j) mod n"
  shows "i = j"
proof -
  have "i = j" if le: "i \<le> j" and ij: "i < n" "j < n" and eq: "(a + j) mod n = (a + i) mod n"
    for i j :: nat
  proof -
    from le have "a + i \<le> a + j" by simp
    with eq obtain q where "a + j = (a + i) + n * q" by (rule mod_eq_nat1E)
    with ij show ?thesis by (cases q) auto
  qed
  with assms show ?thesis by (metis nat_le_linear)
qed

text \<open>The bit trick \<open>i && !(i & (i - 1))\<close> recognises the powers of two.\<close>

lemma nat_pow2_double: "(\<exists>k. 2 * (j::nat) = 2 ^ k) \<longleftrightarrow> (\<exists>k. j = 2 ^ k)"
proof
  assume "\<exists>k. 2 * j = 2 ^ k"
  then obtain k where k: "2 * j = 2 ^ k" ..
  then obtain l where "k = Suc l" by (cases k) auto
  with k have "j = 2 ^ l" by simp
  then show "\<exists>k. j = 2 ^ k" ..
next
  assume "\<exists>k. j = 2 ^ k"
  then obtain k where "j = 2 ^ k" ..
  then have "2 * j = 2 ^ Suc k" by simp
  then show "\<exists>k. 2 * j = 2 ^ k" ..
qed

lemma nat_pow2_odd: "(\<exists>k. 2 * (j::nat) + 1 = 2 ^ k) \<longleftrightarrow> j = 0"
proof
  assume "\<exists>k. 2 * j + 1 = 2 ^ k"
  then obtain k where k: "2 * j + 1 = 2 ^ k" ..
  show "j = 0"
  proof (cases k)
    case 0
    with k show ?thesis by simp
  next
    case (Suc l)
    with k have "2 * j + 1 = 2 * 2 ^ l" by simp
    then show ?thesis by presburger
  qed
next
  assume "j = 0"
  then have "2 * j + 1 = 2 ^ 0" by simp
  then show "\<exists>k. 2 * j + 1 = 2 ^ k" ..
qed

lemma nat_pow2_bits: "0 < (m::nat) \<Longrightarrow> m AND (m - 1) = 0 \<longleftrightarrow> (\<exists>k. m = 2 ^ k)"
proof (induction m rule: less_induct)
  case (less m)
  have rec: "m AND (m - 1) = of_bool (odd m \<and> odd (m - 1)) + 2 * ((m div 2) AND ((m - 1) div 2))"
    by (rule and_rec)
  show ?case
  proof (cases "even m")
    case True
    then obtain j where j: "m = 2 * j" by (elim evenE)
    with less.prems have "0 < j" by simp
    with j have "j < m" by simp
    have halves: "m div 2 = j" "(m - 1) div 2 = j - 1" using j \<open>0 < j\<close> by presburger+
    have "m AND (m - 1) = 2 * (j AND (j - 1))"
      by (simp only: rec halves True) simp
    then have "m AND (m - 1) = 0 \<longleftrightarrow> j AND (j - 1) = 0" by (simp only: mult_eq_0_iff) simp
    also have "\<dots> \<longleftrightarrow> (\<exists>k. j = 2 ^ k)" by (rule less.IH [OF \<open>j < m\<close> \<open>0 < j\<close>])
    finally show ?thesis unfolding j nat_pow2_double .
  next
    case False
    then obtain j where j: "m = 2 * j + 1" by (elim oddE)
    have halves: "m div 2 = j" "(m - 1) div 2 = j" "even (m - 1)" using j by presburger+
    have "m AND (m - 1) = 2 * j"
      by (simp only: rec halves) simp
    then have "m AND (m - 1) = 0 \<longleftrightarrow> j = 0" by (simp only: mult_eq_0_iff) simp
    also have "\<dots> \<longleftrightarrow> (\<exists>k. m = 2 ^ k)" unfolding j nat_pow2_odd ..
    finally show ?thesis .
  qed
qed

lemma word_pow2_bits:
  fixes i :: "'a::len word"
  assumes "i \<noteq> 0"
  shows "i AND (i - 1) = 0 \<longleftrightarrow> (\<exists>k. unat i = 2 ^ k)"
proof -
  have "0 < unat i" using assms by (simp add: unat_gt_0)
  have "i AND (i - 1) = 0 \<longleftrightarrow> unat (i AND (i - 1)) = 0" by (simp add: unat_eq_zero)
  also have "unat (i AND (i - 1)) = unat i AND (unat i - 1)"
    using unat_minus_one [OF assms] by (simp add: unsigned_and_eq)
  finally show ?thesis using nat_pow2_bits [OF \<open>0 < unat i\<close>] by simp
qed

section \<open>C truth values and lists\<close>

lemma map_nth_update_other:
  assumes "\<And>x. x \<in> set is \<Longrightarrow> f x \<noteq> j"
  shows "map (\<lambda>i. (xs[j := v]) ! f i) is = map (\<lambda>i. xs ! f i) is"
  using assms by (auto intro!: map_cong nth_list_update_neq)

lemma length_filter_update:
  assumes "h < length xs"
  shows "length (filter P (xs[h := x])) + of_bool (P (xs ! h)) = length (filter P xs) + of_bool (P x)"
  using assms
proof (induction xs arbitrary: h)
  case Nil
  then show ?case by simp
next
  case (Cons y ys)
  then show ?case by (cases h) auto
qed

lemma distinct_map_filter_nth:
  assumes "\<And>i j. i < length xs \<Longrightarrow> j < length xs \<Longrightarrow> P (xs ! i) \<Longrightarrow> P (xs ! j) \<Longrightarrow>
    f (xs ! i) = f (xs ! j) \<Longrightarrow> i = j"
  shows "distinct (map f (filter P xs))"
  using assms
proof (induction xs)
  case Nil
  then show ?case by simp
next
  case (Cons x xs)
  have "distinct (map f (filter P xs))"
  proof (rule Cons.IH)
    fix i j
    assume "i < length xs" "j < length xs" "P (xs ! i)" "P (xs ! j)" "f (xs ! i) = f (xs ! j)"
    then show "i = j" using Cons.prems [of "Suc i" "Suc j"] by simp
  qed
  moreover have "f x \<noteq> f y" if "P x" "y \<in> set xs" "P y" for y
  proof -
    from that(2) obtain j where "j < length xs" "xs ! j = y" by (auto simp: in_set_conv_nth)
    then show ?thesis using Cons.prems [of 0 "Suc j"] that by auto
  qed
  ultimately show ?case by (auto simp: image_iff)
qed

lemma filter_partition3:
  assumes "\<And>x. x \<in> set xs \<Longrightarrow> P x \<or> Q x \<or> R x"
    and "\<And>x. \<not> (P x \<and> Q x)" "\<And>x. \<not> (P x \<and> R x)" "\<And>x. \<not> (Q x \<and> R x)"
  shows "length (filter P xs) + length (filter Q xs) + length (filter R xs) = length xs"
  using assms(1)
proof (induction xs)
  case Nil
  then show ?case by simp
next
  case (Cons x xs)
  then have "P x \<or> Q x \<or> R x" and "length (filter P xs) + length (filter Q xs) + length (filter R xs) = length xs"
    by auto
  then show ?case using assms(2-4) [of x] by auto
qed

section \<open>Fallible code\<close>

lemma bind_SomeE:
  assumes "Option.bind m f = Some y"
  obtains x where "m = Some x" "f x = Some y"
  using assms by (auto simp: bind_eq_Some_conv)

end
