(* ===== verification/Oculus_Sched.thy ===== *)
theory Oculus_Sched
  imports Oculus_Prelude
begin

text \<open>
  The blocking primitives of the Linux emulation (circle/addon/linux: semaphore.cpp,
  mutex.cpp) that the VCHIQ and VCOS code runs on. The emulation is cooperative: every
  task runs on core 0 until it calls \<open>Yield\<close>, and the only yields are the loops of
  \<open>down\<close> and \<open>mutex_lock\<close>. A blocking call is therefore a function of the schedule:
  the list of what the other tasks do at each yield, one state transformer per yield.
  The result \<open>None\<close> means that the task is still blocked when the given schedule ends.
\<close>

section \<open>Waiting\<close>

type_synonym 's sched = "('s \<Rightarrow> 's) list"

fun wait_until :: "('s \<Rightarrow> bool) \<Rightarrow> 's sched \<Rightarrow> 's \<Rightarrow> ('s \<times> 's sched) option" where
  "wait_until P fs s =
     (if P s then Some (s, fs)
      else case fs of [] \<Rightarrow> None | f # fs' \<Rightarrow> wait_until P fs' (f s))"

declare wait_until.simps [simp del]

lemma wait_until_now [simp]: "P s \<Longrightarrow> wait_until P fs s = Some (s, fs)"
  by (subst wait_until.simps) simp

lemma wait_until_Nil [simp]: "\<not> P s \<Longrightarrow> wait_until P [] s = None"
  by (subst wait_until.simps) simp

lemma wait_until_Cons [simp]: "\<not> P s \<Longrightarrow> wait_until P (f # fs) s = wait_until P fs (f s)"
  by (subst wait_until.simps) simp

lemma wait_until_SomeD: "wait_until P fs s = Some (t, gs) \<Longrightarrow> P t"
proof (induction fs arbitrary: s)
  case Nil
  then show ?case by (cases "P s") auto
next
  case (Cons f fs)
  then show ?case by (cases "P s") auto
qed

text \<open>The states in which a wait looks\<close>

definition state_after :: "nat \<Rightarrow> 's sched \<Rightarrow> 's \<Rightarrow> 's" where
  "state_after n fs s = fold (\<lambda>f. f) (take n fs) s"

lemma wait_until_iff:
  "(case wait_until P fs s of None \<Rightarrow> \<forall>n \<le> List.length fs. \<not> P (state_after n fs s)
    | Some (t, gs) \<Rightarrow> \<exists>n \<le> List.length fs. t = state_after n fs s \<and> gs = drop n fs \<and> P t \<and> (\<forall>i < n. \<not> P (state_after i fs s)))"
proof (induction fs arbitrary: s)
  case Nil
  show ?case by (cases "P s") (auto simp: state_after_def)
next
  case (Cons f fs)
  have step: "state_after (Suc n) (f # fs) s = state_after n fs (f s)" "state_after 0 (f # fs) s = s" for n by (simp_all add: state_after_def)
  show ?case
  proof (cases "P s")
    case True
    then show ?thesis by (auto simp: step intro: exI [of _ 0])
  next
    case False
    show ?thesis
    proof (cases "wait_until P fs (f s)")
      case None
      then have "\<not> P (state_after n fs (f s))" if "n \<le> List.length fs" for n using Cons.IH [of "f s"] that by simp
      then have "\<not> P (state_after n (f # fs) s)" if "n \<le> List.length (f # fs)" for n using that False by (cases n) (auto simp: step)
      then show ?thesis using None False by simp
    next
      case (Some r)
      then obtain n where n: "n \<le> List.length fs" "fst r = state_after n fs (f s)" "snd r = drop n fs" "P (fst r)" "\<forall>i < n. \<not> P (state_after i fs (f s))"
        using Cons.IH [of "f s"] by (auto split: prod.splits)
      have "\<not> P (state_after i (f # fs) s)" if "i < Suc n" for i using that n(5) False by (cases i) (auto simp: step)
      then show ?thesis using n Some False by (auto simp: step split: prod.splits intro!: exI [of _ "Suc n"])
    qed
  qed
qed

text \<open>A wait keeps every property of the state that the other tasks keep.\<close>

lemma wait_until_inv:
  assumes "wait_until P fs s = Some (t, gs)" and "I s"
    and "\<And>f x. f \<in> set fs \<Longrightarrow> I x \<Longrightarrow> I (f x)"
  shows "I t \<and> set gs \<subseteq> set fs"
  using assms
proof (induction fs arbitrary: s)
  case Nil
  then show ?case by (cases "P s") auto
next
  case (Cons f fs)
  show ?case
  proof (cases "P s")
    case True
    with Cons.prems show ?thesis by auto
  next
    case False
    with Cons.prems have "wait_until P fs (f s) = Some (t, gs)" and "I (f s)" by auto
    then have "I t \<and> set gs \<subseteq> set fs"
      by (rule Cons.IH) (use Cons.prems(3) in auto)
    then show ?thesis by auto
  qed
qed

section \<open>Semaphores\<close>

text \<open>
  \<open>struct semaphore\<close> holds a count. \<open>down\<close> yields while the count is 0 and then takes
  one; \<open>up\<close> adds one; \<open>down_trylock\<close> returns 1, without effect, where \<open>down\<close> would
  yield, and 0 after taking one. A semaphore is a field of a larger state, so the
  operations take its getter and its updater.
\<close>

type_synonym semaphore = nat

definition sem_up :: "semaphore \<Rightarrow> semaphore" where
  "sem_up c = c + 1"

definition sem_trylock :: "semaphore \<Rightarrow> nat \<times> semaphore" where
  "sem_trylock c = (if c = 0 then (1, c) else (0, c - 1))"

definition sem_down ::
  "('s \<Rightarrow> semaphore) \<Rightarrow> ((semaphore \<Rightarrow> semaphore) \<Rightarrow> 's \<Rightarrow> 's) \<Rightarrow> 's sched \<Rightarrow> 's \<Rightarrow> ('s \<times> 's sched) option"
where
  "sem_down get upd fs s =
     map_option (\<lambda>(t, gs). (upd (\<lambda>c. c - 1) t, gs)) (wait_until (\<lambda>t. get t \<noteq> 0) fs s)"

lemma sem_trylock_up [simp]: "sem_trylock (sem_up c) = (0, c)"
  by (simp add: sem_trylock_def sem_up_def)

lemma sem_down_now:
  "get s \<noteq> 0 \<Longrightarrow> sem_down get upd fs s = Some (upd (\<lambda>c. c - 1) s, fs)"
  by (simp add: sem_down_def)

section \<open>Mutexes\<close>

text \<open>\<open>mutex_lock\<close> yields while the lock is taken and takes it; \<open>mutex_unlock\<close> clears it.\<close>

definition mutex_acquire ::
  "('s \<Rightarrow> bool) \<Rightarrow> ((bool \<Rightarrow> bool) \<Rightarrow> 's \<Rightarrow> 's) \<Rightarrow> 's sched \<Rightarrow> 's \<Rightarrow> ('s \<times> 's sched) option"
where
  "mutex_acquire held upd fs s =
     map_option (\<lambda>(t, gs). (upd (\<lambda>_. True) t, gs)) (wait_until (\<lambda>t. \<not> held t) fs s)"

definition mutex_release :: "((bool \<Rightarrow> bool) \<Rightarrow> 's \<Rightarrow> 's) \<Rightarrow> 's \<Rightarrow> 's" where
  "mutex_release upd s = upd (\<lambda>_. False) s"

lemma mutex_acquire_now:
  "\<not> held s \<Longrightarrow> mutex_acquire held upd fs s = Some (upd (\<lambda>_. True) s, fs)"
  by (simp add: mutex_acquire_def)

section \<open>Invariants across a wait\<close>

lemma sem_down_inv:
  assumes "sem_down get upd fs s = Some (t, gs)" "I s"
    and "\<And>f x. f \<in> set fs \<Longrightarrow> I x \<Longrightarrow> I (f x)" "\<And>g x. I x \<Longrightarrow> I (upd g x)"
  shows "I t \<and> set gs \<subseteq> set fs"
proof -
  obtain u where u: "wait_until (\<lambda>t. get t \<noteq> 0) fs s = Some (u, gs)" "t = upd (\<lambda>c. c - 1) u"
    using assms(1) by (auto simp: sem_down_def)
  have "I u \<and> set gs \<subseteq> set fs" using wait_until_inv [where I = I, OF u(1) assms(2)] assms(3) by blast
  then show ?thesis using assms(4) u(2) by blast
qed

lemma mutex_acquire_inv:
  assumes "mutex_acquire held upd fs s = Some (t, gs)" "I s"
    and "\<And>f x. f \<in> set fs \<Longrightarrow> I x \<Longrightarrow> I (f x)" "\<And>g x. I x \<Longrightarrow> I (upd g x)"
  shows "I t \<and> set gs \<subseteq> set fs \<and> (\<exists>u. t = upd (\<lambda>_. True) u)"
proof -
  obtain u where u: "wait_until (\<lambda>t. \<not> held t) fs s = Some (u, gs)" "t = upd (\<lambda>_. True) u"
    using assms(1) by (auto simp: mutex_acquire_def)
  have "I u \<and> set gs \<subseteq> set fs" using wait_until_inv [where I = I, OF u(1) assms(2)] assms(3) by blast
  then show ?thesis using assms(4) u(2) by blast
qed

end
