(* ===== verification/Oculus_Memory.thy ===== *)
theory Oculus_Memory
  imports Oculus_Prelude
begin

text \<open>
  Byte memory as the little-endian processor sees it: loads and stores of 16- and 32-bit words
  and \<open>memcpy\<close>, with the lemmas on their bytes and bits that the slot memory of VCHIQ and the
  hash of the Khronos client share.
\<close>

type_synonym memory = "nat \<Rightarrow> u8"

definition load32 :: "memory \<Rightarrow> nat \<Rightarrow> u32" where
  "load32 m a = ucast (m a) OR push_bit 8 (ucast (m (a + 1))) OR
     push_bit 16 (ucast (m (a + 2))) OR push_bit 24 (ucast (m (a + 3)))"

definition store32 :: "nat \<Rightarrow> u32 \<Rightarrow> memory \<Rightarrow> memory" where
  "store32 a w m = m(a := ucast w, a + 1 := ucast (drop_bit 8 w),
     a + 2 := ucast (drop_bit 16 w), a + 3 := ucast (drop_bit 24 w))"

definition load16 :: "memory \<Rightarrow> nat \<Rightarrow> u16" where
  "load16 m a = ucast (m a) OR push_bit 8 (ucast (m (a + 1)))"

definition memcpy :: "nat \<Rightarrow> (nat \<Rightarrow> u8) \<Rightarrow> nat \<Rightarrow> memory \<Rightarrow> memory" where
  "memcpy dst src n m = (\<lambda>a. if dst \<le> a \<and> a < dst + n then src (a - dst) else m a)"

lemma bit_nat_less:
  assumes "bit p n" "p < (2::nat) ^ k"
  shows "n < k"
proof (rule ccontr)
  assume "\<not> n < k"
  then have "(2::nat) ^ k \<le> 2 ^ n" by (intro power_increasing) auto
  then have "p < 2 ^ n" using assms(2) by (rule less_le_trans [rotated])
  then show False using assms(1) by (simp add: bit_iff_odd)
qed

lemma bit_word_less:
  assumes "bit (t :: 'a::len word) n" "unat t < 2 ^ k"
  shows "n < k"
  using bit_nat_less [of "unat t" n k] assms bit_imp_le_length [OF assms(1)] by (simp add: bit_unsigned_iff)

lemma load32_store32_same: "load32 (store32 a w m) a = w"
proof (rule bit_word_eqI)
  fix n assume "n < LENGTH(32)"
  then consider "n < 8" | "8 \<le> n" "n < 16" | "16 \<le> n" "n < 24" | "24 \<le> n" "n < 32" by fastforce
  then show "bit (load32 (store32 a w m) a) n = bit w n"
    by cases (auto simp: load32_def store32_def bit_simps)
qed

lemma load32_cong:
  assumes "\<And>i. i < 4 \<Longrightarrow> m (a + i) = m' (a + i)"
  shows "load32 m a = load32 m' a"
  using assms [of 0] assms [of 1] assms [of 2] assms [of 3] by (simp add: load32_def)

lemma store32_other: "b < a \<or> a + 4 \<le> b \<Longrightarrow> store32 a w m b = m b"
  by (auto simp: store32_def)

lemma memcpy_other: "b < a \<or> a + n \<le> b \<Longrightarrow> memcpy a f n m b = m b"
  by (auto simp: memcpy_def)

lemma memcpy_inside: "i < n \<Longrightarrow> memcpy a f n m (a + i) = f i"
  by (simp add: memcpy_def)

end
