(* ===== verification/Vchiu_Queue.thy ===== *)
theory Vchiu_Queue
  imports Oculus_Sched
begin

text \<open>
  circle/addon/vc4/vchiq/vchiq_util.c: the bounded queue of message headers between the
  slot handler and the VCHI shim. A ring of a power-of-two size with two free-running
  32-bit counters and two semaphores. The first half is the ring as a FIFO (it implements
  the locale \<open>fifo\<close>, across the wrap of the counters); the second half is the system of
  tasks that push and pop, and shows that no wake-up is lost.
\<close>

section \<open>The FIFO interface\<close>

fun drain :: "('q \<Rightarrow> 'a \<times> 'q) \<Rightarrow> nat \<Rightarrow> 'q \<Rightarrow> 'a list \<times> 'q" where
  "drain deq 0 q = ([], q)"
| "drain deq (Suc n) q = (let (x, q') = deq q; (xs, q'') = drain deq n q' in (x # xs, q''))"

locale fifo =
  fixes enq :: "'a \<Rightarrow> 'q \<Rightarrow> 'q"
    and deq :: "'q \<Rightarrow> 'a \<times> 'q"
    and room :: "'q \<Rightarrow> nat"
    and contents :: "'q \<Rightarrow> 'a list"
    and inv :: "'q \<Rightarrow> bool"
  assumes enq_contents: "inv q \<Longrightarrow> 0 < room q \<Longrightarrow> contents (enq x q) = contents q @ [x]"
    and enq_inv: "inv q \<Longrightarrow> 0 < room q \<Longrightarrow> inv (enq x q)"
    and enq_room: "inv q \<Longrightarrow> 0 < room q \<Longrightarrow> room (enq x q) = room q - 1"
    and deq_contents: "inv q \<Longrightarrow> contents q \<noteq> [] \<Longrightarrow> contents q = fst (deq q) # contents (snd (deq q))"
    and deq_inv: "inv q \<Longrightarrow> contents q \<noteq> [] \<Longrightarrow> inv (snd (deq q))"
begin

lemma enq_all:
  assumes "inv q" and "length xs \<le> room q"
  shows "contents (fold enq xs q) = contents q @ xs \<and> inv (fold enq xs q)"
  using assms
proof (induction xs arbitrary: q)
  case Nil
  then show ?case by simp
next
  case (Cons x xs)
  then have "0 < room q" by simp
  with Cons.prems have "contents (enq x q) = contents q @ [x]" and "inv (enq x q)"
    and "length xs \<le> room (enq x q)"
    by (simp_all add: enq_contents enq_inv enq_room)
  with Cons.IH show ?case by simp
qed

lemma drain_contents:
  assumes "inv q" and "n \<le> length (contents q)"
  shows "fst (drain deq n q) = take n (contents q) \<and>
         contents (snd (drain deq n q)) = drop n (contents q) \<and> inv (snd (drain deq n q))"
  using assms
proof (induction n arbitrary: q)
  case 0
  then show ?case by simp
next
  case (Suc n)
  then have ne: "contents q \<noteq> []" by auto
  with Suc.prems have c: "contents q = fst (deq q) # contents (snd (deq q))"
    and i: "inv (snd (deq q))"
    using deq_contents deq_inv by blast+
  then have "n \<le> length (contents (snd (deq q)))"
    using Suc.prems(2) by (metis Suc_le_mono length_Cons)
  with i Suc.IH have "fst (drain deq n (snd (deq q))) = take n (contents (snd (deq q))) \<and>
      contents (snd (drain deq n (snd (deq q)))) = drop n (contents (snd (deq q))) \<and>
      inv (snd (drain deq n (snd (deq q))))" by blast
  moreover have "take (Suc n) (contents q) = fst (deq q) # take n (contents (snd (deq q)))"
    and "drop (Suc n) (contents q) = drop n (contents (snd (deq q)))"
    by (metis c take_Suc_Cons) (metis c drop_Suc_Cons)
  ultimately show ?case by (simp add: Let_def split_beta)
qed

text \<open>What goes in comes out, in the same order.\<close>

lemma fill_then_drain:
  assumes "inv q" and "contents q = []" and "length xs \<le> room q"
  shows "fst (drain deq (length xs) (fold enq xs q)) = xs"
  using enq_all [OF assms(1,3)] drain_contents [of "fold enq xs q" "length xs"] assms(2) by simp

end

section \<open>The ring\<close>

record vchiu_queue =
  q_size :: u32
  q_read :: u32
  q_write :: u32
  q_initialized :: bool
  q_pop :: semaphore
  q_push :: semaphore
  q_storage :: "ptr list option"

definition is_pow2 :: "u32 \<Rightarrow> bool" where
  "is_pow2 i \<longleftrightarrow> i \<noteq> 0 \<and> i AND (i - 1) = 0"

text \<open>
  \<open>vchiu_queue_init\<close>: \<open>mem\<close> says whether \<open>kzalloc\<close> succeeds; the storage it returns is
  zeroed. On failure \<open>vchiu_queue_delete\<close> (its value is the block passed to \<open>kfree\<close>, if
  any; the queue is left as it is) finds no storage to free and 0 is returned.
  (\<open>WARN_ON (!is_pow2 (size))\<close> only logs.)
\<close>

definition vchiu_queue_delete :: "vchiu_queue \<Rightarrow> ptr list option" where
  "vchiu_queue_delete q = q_storage q"

definition vchiu_queue_init :: "bool \<Rightarrow> u32 \<Rightarrow> vchiu_queue \<times> nat" where
  "vchiu_queue_init mem sz =
     (let q = \<lparr>q_size = sz, q_read = 0, q_write = 0, q_initialized = True,
               q_pop = 0, q_push = 0,
               q_storage = (if mem then Some (replicate (unat sz) NULL) else None)\<rparr>
      in if q_storage q = None then (q, 0) else (q, 1))"

definition vchiu_queue_is_empty :: "vchiu_queue \<Rightarrow> bool" where
  "vchiu_queue_is_empty q \<longleftrightarrow> q_read q = q_write q"

definition vchiu_queue_is_full :: "vchiu_queue \<Rightarrow> bool" where
  "vchiu_queue_is_full q \<longleftrightarrow> q_write q = q_read q + q_size q"

text \<open>
  The bodies of push and pop after their wait loops. \<open>storage\<close> is written and read at
  \<open>counter & (size - 1)\<close>.
\<close>

definition queue_store :: "ptr \<Rightarrow> vchiu_queue \<Rightarrow> vchiu_queue" where
  "queue_store header q =
     q\<lparr>q_storage := map_option (\<lambda>st. st[unat (q_write q AND (q_size q - 1)) := header]) (q_storage q),
       q_write := q_write q + 1,
       q_push := sem_up (q_push q)\<rparr>"

definition queue_head :: "vchiu_queue \<Rightarrow> ptr" where
  "queue_head q = the (q_storage q) ! unat (q_read q AND (q_size q - 1))"

definition queue_take :: "vchiu_queue \<Rightarrow> ptr \<times> vchiu_queue" where
  "queue_take q = (queue_head q, q\<lparr>q_read := q_read q + 1, q_pop := sem_up (q_pop q)\<rparr>)"

lemma sem_down_decreases:
  assumes "sem_down get upd fs s = Some (t, gs)"
  shows "length gs < length fs \<or> gs = fs \<and> get s \<noteq> 0 \<and> t = upd (\<lambda>c. c - 1) s"
proof -
  have "length gs < length fs \<or> gs = fs \<and> P s \<and> t = s"
    if "wait_until P fs s = Some (t, gs)" for P :: "'a \<Rightarrow> bool" and fs s t gs
    using that
  proof (induction fs arbitrary: s)
    case Nil
    then show ?case by (cases "P s") auto
  next
    case (Cons f fs)
    then show ?case by (cases "P s") fastforce+
  qed
  with assms show ?thesis by (fastforce simp: sem_down_def)
qed

text \<open>
  The wait loops. \<open>down_interruptible\<close> never fails in this configuration
  (vchiq_killable.h), so each iteration waits for the semaphore and tests again.
\<close>

function push_wait :: "vchiu_queue sched \<Rightarrow> vchiu_queue \<Rightarrow> (vchiu_queue \<times> vchiu_queue sched) option" where
  "push_wait fs q =
     (if vchiu_queue_is_full q
      then case sem_down q_pop q_pop_update fs q of
             None \<Rightarrow> None
           | Some (q', fs') \<Rightarrow> push_wait fs' q'
      else Some (q, fs))"
  by pat_completeness auto
termination
proof (relation "measures [\<lambda>(fs, q). length fs, \<lambda>(fs, q). q_pop q]", goal_cases)
  case 1
  show ?case by simp
next
  case (2 fs q z q' fs')
  then have "sem_down q_pop q_pop_update fs q = Some (q', fs')" by simp
  from sem_down_decreases [OF this] show ?case by auto
qed

function pop_wait :: "vchiu_queue sched \<Rightarrow> vchiu_queue \<Rightarrow> (vchiu_queue \<times> vchiu_queue sched) option" where
  "pop_wait fs q =
     (if vchiu_queue_is_empty q
      then case sem_down q_push q_push_update fs q of
             None \<Rightarrow> None
           | Some (q', fs') \<Rightarrow> pop_wait fs' q'
      else Some (q, fs))"
  by pat_completeness auto
termination
proof (relation "measures [\<lambda>(fs, q). length fs, \<lambda>(fs, q). q_push q]", goal_cases)
  case 1
  show ?case by simp
next
  case (2 fs q z q' fs')
  then have "sem_down q_push q_push_update fs q = Some (q', fs')" by simp
  from sem_down_decreases [OF this] show ?case by auto
qed

declare push_wait.simps [simp del] pop_wait.simps [simp del]

definition vchiu_queue_push ::
  "ptr \<Rightarrow> vchiu_queue sched \<Rightarrow> vchiu_queue \<Rightarrow> (vchiu_queue \<times> vchiu_queue sched) option" where
  "vchiu_queue_push header fs q =
     (if \<not> q_initialized q then Some (q, fs)
      else map_option (\<lambda>(q', fs'). (queue_store header q', fs')) (push_wait fs q))"

definition vchiu_queue_peek ::
  "vchiu_queue sched \<Rightarrow> vchiu_queue \<Rightarrow> (ptr \<times> vchiu_queue \<times> vchiu_queue sched) option" where
  "vchiu_queue_peek fs q =
     map_option (\<lambda>(q', fs'). (queue_head q', q'\<lparr>q_push := sem_up (q_push q')\<rparr>, fs')) (pop_wait fs q)"

definition vchiu_queue_pop ::
  "vchiu_queue sched \<Rightarrow> vchiu_queue \<Rightarrow> (ptr \<times> vchiu_queue \<times> vchiu_queue sched) option" where
  "vchiu_queue_pop fs q =
     map_option (\<lambda>(q', fs'). (fst (queue_take q'), snd (queue_take q'), fs')) (pop_wait fs q)"

section \<open>The ring implements the interface\<close>

definition queue_contents :: "vchiu_queue \<Rightarrow> ptr list" where
  "queue_contents q =
     map (\<lambda>i. the (q_storage q) ! unat ((q_read q + of_nat i) AND (q_size q - 1)))
       [0..<unat (q_write q - q_read q)]"

definition queue_inv :: "vchiu_queue \<Rightarrow> bool" where
  "queue_inv q \<longleftrightarrow>
     is_pow2 (q_size q) \<and> q_initialized q \<and>
     (case q_storage q of None \<Rightarrow> False | Some st \<Rightarrow> length st = unat (q_size q)) \<and>
     unat (q_write q - q_read q) \<le> unat (q_size q)"

definition queue_room :: "vchiu_queue \<Rightarrow> nat" where
  "queue_room q = unat (q_size q) - unat (q_write q - q_read q)"

lemma queue_invE:
  assumes "queue_inv q"
  obtains k st where "unat (q_size q) = 2 ^ k" "q_storage q = Some st" "length st = 2 ^ k"
    "unat (q_write q - q_read q) \<le> 2 ^ k" "q_initialized q" "is_pow2 (q_size q)"
  using assms word_pow2_bits [of "q_size q"]
  by (auto simp: queue_inv_def is_pow2_def split: option.splits)

lemma ring_slot:
  assumes "unat (sz :: u32) = 2 ^ k"
  shows "unat ((r + of_nat i) AND (sz - 1)) = (unat r + i) mod 2 ^ k"
proof -
  have "(2::nat) ^ k < 2 ^ 32" using unsigned_less [of sz, where ?'a = nat] assms by simp
  then have "k < 32" by (rule nat_power_less_imp_less [rotated]) simp
  then have "k \<le> 32" by simp
  have "unat ((r + of_nat i) AND (sz - 1)) = unat (r + of_nat i) mod 2 ^ k"
    using assms by (rule unat_and_mask)
  also have "unat (r + of_nat i) = (unat r + i) mod 2 ^ 32"
    by (simp add: unat_add_eq_mod unat_of_nat mod_add_right_eq)
  also have "\<dots> mod 2 ^ k = (unat r + i) mod 2 ^ k"
    using \<open>k \<le> 32\<close> by (rule mod_mod_pow2_le)
  finally show ?thesis .
qed

lemma queue_full_iff:
  assumes "queue_inv q"
  shows "vchiu_queue_is_full q \<longleftrightarrow> queue_room q = 0"
proof -
  have "vchiu_queue_is_full q \<longleftrightarrow> q_write q - q_read q = q_size q"
    by (auto simp: vchiu_queue_is_full_def algebra_simps)
  also have "\<dots> \<longleftrightarrow> unat (q_write q - q_read q) = unat (q_size q)"
    by (simp add: word_unat_eq_iff)
  finally show ?thesis using assms by (auto simp: queue_room_def queue_inv_def)
qed

lemma queue_empty_iff: "vchiu_queue_is_empty q \<longleftrightarrow> queue_contents q = []"
  by (auto simp: vchiu_queue_is_empty_def queue_contents_def unat_eq_zero)

lemma write_slot:
  assumes "unat (q_size q) = 2 ^ k"
  shows "unat (q_write q AND (q_size q - 1)) = (unat (q_read q) + unat (q_write q - q_read q)) mod 2 ^ k"
  using ring_slot [OF assms, of "q_read q" "unat (q_write q - q_read q)"] by simp

lemma queue_store_count:
  assumes "queue_inv q" "0 < queue_room q"
  shows "unat (q_write q + 1 - q_read q) = Suc (unat (q_write q - q_read q))"
proof (rule unat_Suc_diff)
  have "unat (q_write q - q_read q) < unat (q_size q)"
    using assms by (auto simp: queue_room_def)
  moreover have "unat (q_size q) < 2 ^ LENGTH(32)" by (rule unsigned_less)
  ultimately show "unat (q_write q - q_read q) < 2 ^ LENGTH(32) - 1" by linarith
qed

lemma queue_store_contents:
  assumes "queue_inv q" "0 < queue_room q"
  shows "queue_contents (queue_store h q) = queue_contents q @ [h]"
proof -
  obtain k st where q: "unat (q_size q) = 2 ^ k" "q_storage q = Some st" "length st = 2 ^ k"
    using assms(1) by (rule queue_invE)
  let ?n = "unat (q_write q - q_read q)" and ?r = "unat (q_read q)"
  have n: "?n < 2 ^ k" using assms(2) q by (simp add: queue_room_def)
  let ?st = "st[(?r + ?n) mod 2 ^ k := h]"
  have "queue_contents (queue_store h q) = map (\<lambda>i. ?st ! ((?r + i) mod 2 ^ k)) [0..<Suc ?n]"
    using q queue_store_count [OF assms]
    by (simp add: queue_contents_def queue_store_def write_slot ring_slot)
  also have "\<dots> = map (\<lambda>i. ?st ! ((?r + i) mod 2 ^ k)) [0..<?n] @ [h]"
    using q by simp
  also have "map (\<lambda>i. ?st ! ((?r + i) mod 2 ^ k)) [0..<?n] = map (\<lambda>i. st ! ((?r + i) mod 2 ^ k)) [0..<?n]"
    by (rule map_nth_update_other) (use n in \<open>auto dest: ring_index_inj [rotated -1]\<close>)
  also have "\<dots> = queue_contents q"
    using q by (simp add: queue_contents_def ring_slot)
  finally show ?thesis .
qed

lemma queue_store_inv:
  assumes "queue_inv q" "0 < queue_room q"
  shows "queue_inv (queue_store h q) \<and> queue_room (queue_store h q) = queue_room q - 1"
  using assms queue_store_count [OF assms]
  by (auto simp: queue_inv_def queue_room_def queue_store_def split: option.splits)

lemma queue_take_count:
  assumes "queue_contents q \<noteq> []"
  shows "unat (q_write q - q_read q) = Suc (unat (q_write q - (q_read q + 1)))"
proof -
  have "q_write q \<noteq> q_read q" using assms by (auto simp: queue_contents_def)
  then have "unat (q_write q - (q_read q + 1)) = unat (q_write q - q_read q) - 1"
    and "0 < unat (q_write q - q_read q)"
    by (auto simp: unat_diff_Suc unat_gt_0)
  then show ?thesis by simp
qed

lemma queue_take_contents:
  assumes "queue_inv q" "queue_contents q \<noteq> []"
  shows "queue_contents q = fst (queue_take q) # queue_contents (snd (queue_take q))"
proof -
  let ?f = "\<lambda>r i. the (q_storage q) ! unat ((r + of_nat i) AND (q_size q - 1))"
  have "queue_contents q = map (?f (q_read q)) [0..<Suc (unat (q_write q - (q_read q + 1)))]"
    unfolding queue_contents_def queue_take_count [OF assms(2)] ..
  also have "\<dots> = ?f (q_read q) 0 # map (\<lambda>i. ?f (q_read q) (Suc i)) [0..<unat (q_write q - (q_read q + 1))]"
    by (simp only: map_upt_Suc)
  also have "\<dots> = fst (queue_take q) # queue_contents (snd (queue_take q))"
    by (simp add: queue_take_def queue_head_def queue_contents_def ac_simps)
  finally show ?thesis .
qed

lemma queue_take_inv:
  assumes "queue_inv q" "queue_contents q \<noteq> []"
  shows "queue_inv (snd (queue_take q))"
  using assms queue_take_count [OF assms(2)]
  by (auto simp: queue_inv_def queue_take_def split: option.splits)

interpretation vchiu: fifo queue_store queue_take queue_room queue_contents queue_inv
  by unfold_locales
    (simp_all add: queue_store_contents queue_store_inv queue_take_contents [symmetric] queue_take_inv)

text \<open>The calls themselves, when they do not have to wait.\<close>

lemma push_wait_now: "\<not> vchiu_queue_is_full q \<Longrightarrow> push_wait fs q = Some (q, fs)"
  by (subst push_wait.simps) simp

lemma pop_wait_now: "\<not> vchiu_queue_is_empty q \<Longrightarrow> pop_wait fs q = Some (q, fs)"
  by (subst pop_wait.simps) simp

lemma push_now:
  assumes "queue_inv q" "0 < queue_room q"
  shows "vchiu_queue_push h fs q = Some (queue_store h q, fs)"
  using assms by (auto simp: vchiu_queue_push_def push_wait_now queue_full_iff elim: queue_invE)

lemma pop_now:
  assumes "queue_contents q \<noteq> []"
  shows "vchiu_queue_pop fs q = Some (fst (queue_take q), snd (queue_take q), fs)"
  using assms by (simp add: vchiu_queue_pop_def pop_wait_now queue_empty_iff)

lemma init_inv:
  assumes "is_pow2 sz"
  shows "queue_inv (fst (vchiu_queue_init True sz)) \<and>
         queue_contents (fst (vchiu_queue_init True sz)) = [] \<and>
         queue_room (fst (vchiu_queue_init True sz)) = unat sz"
  using assms by (simp add: vchiu_queue_init_def queue_inv_def queue_contents_def queue_room_def)

section \<open>The tasks\<close>

text \<open>
  A task that calls \<open>vchiu_queue_push\<close> on a full queue, or pop or peek on an empty one, is
  inside \<open>down\<close>; it runs again only when the semaphore is positive. Between two yields a
  task runs alone, so a step is one such run: a call up to its return or its first yield,
  or the iteration of the wait loop after a \<open>down\<close>. \<open>sent\<close> and \<open>got\<close> record the headers
  pushed and popped so far.
\<close>

datatype qtask = Running | Pushing ptr | Popping | Peeking

record qsys =
  qs_queue :: vchiu_queue
  qs_task :: "nat \<Rightarrow> qtask"
  sent :: "ptr list"
  got :: "ptr list"

definition push_body :: "nat \<Rightarrow> ptr \<Rightarrow> vchiu_queue \<Rightarrow> qsys \<Rightarrow> qsys" where
  "push_body i h q s =
     (if vchiu_queue_is_full q
      then s\<lparr>qs_queue := q, qs_task := (qs_task s)(i := Pushing h)\<rparr>
      else s\<lparr>qs_queue := queue_store h q, qs_task := (qs_task s)(i := Running), sent := sent s @ [h]\<rparr>)"

definition pop_body :: "nat \<Rightarrow> vchiu_queue \<Rightarrow> qsys \<Rightarrow> qsys" where
  "pop_body i q s =
     (if vchiu_queue_is_empty q
      then s\<lparr>qs_queue := q, qs_task := (qs_task s)(i := Popping)\<rparr>
      else s\<lparr>qs_queue := snd (queue_take q), qs_task := (qs_task s)(i := Running),
             got := got s @ [fst (queue_take q)]\<rparr>)"

definition peek_body :: "nat \<Rightarrow> vchiu_queue \<Rightarrow> qsys \<Rightarrow> qsys" where
  "peek_body i q s =
     (if vchiu_queue_is_empty q
      then s\<lparr>qs_queue := q, qs_task := (qs_task s)(i := Peeking)\<rparr>
      else s\<lparr>qs_queue := q\<lparr>q_push := sem_up (q_push q)\<rparr>, qs_task := (qs_task s)(i := Running)\<rparr>)"

inductive qstep :: "qsys \<Rightarrow> qsys \<Rightarrow> bool" where
  call_push: "qs_task s i = Running \<Longrightarrow> qstep s (push_body i h (qs_queue s) s)"
| call_pop: "qs_task s i = Running \<Longrightarrow> qstep s (pop_body i (qs_queue s) s)"
| call_peek: "qs_task s i = Running \<Longrightarrow> qstep s (peek_body i (qs_queue s) s)"
| resume_push: "qs_task s i = Pushing h \<Longrightarrow> q = qs_queue s \<Longrightarrow> q_pop q \<noteq> 0 \<Longrightarrow>
    qstep s (push_body i h (q\<lparr>q_pop := q_pop q - 1\<rparr>) s)"
| resume_pop: "qs_task s i = Popping \<Longrightarrow> q = qs_queue s \<Longrightarrow> q_push q \<noteq> 0 \<Longrightarrow>
    qstep s (pop_body i (q\<lparr>q_push := q_push q - 1\<rparr>) s)"
| resume_peek: "qs_task s i = Peeking \<Longrightarrow> q = qs_queue s \<Longrightarrow> q_push q \<noteq> 0 \<Longrightarrow>
    qstep s (peek_body i (q\<lparr>q_push := q_push q - 1\<rparr>) s)"

inductive qreachable :: "u32 \<Rightarrow> qsys \<Rightarrow> bool" for sz where
  start: "qreachable sz \<lparr>qs_queue = fst (vchiu_queue_init True sz), qs_task = (\<lambda>_. Running), sent = [], got = []\<rparr>"
| step: "qreachable sz s \<Longrightarrow> qstep s t \<Longrightarrow> qreachable sz t"

text \<open>
  The invariant: \<open>push\<close> counts at least the headers in the queue, and while a task is
  blocked in push, \<open>pop\<close> counts at least the free places.
\<close>

definition qsys_inv :: "qsys \<Rightarrow> bool" where
  "qsys_inv s \<longleftrightarrow>
     queue_inv (qs_queue s) \<and>
     length (queue_contents (qs_queue s)) \<le> q_push (qs_queue s) \<and>
     (\<forall>i h. qs_task s i = Pushing h \<longrightarrow> queue_room (qs_queue s) \<le> q_pop (qs_queue s)) \<and>
     sent s = got s @ queue_contents (qs_queue s)"

lemma queue_sems [state_simps]:
  "queue_inv (q\<lparr>q_pop := p\<rparr>) = queue_inv q" "queue_inv (q\<lparr>q_push := p\<rparr>) = queue_inv q"
  "queue_room (q\<lparr>q_pop := p\<rparr>) = queue_room q" "queue_room (q\<lparr>q_push := p\<rparr>) = queue_room q"
  "queue_contents (q\<lparr>q_pop := p\<rparr>) = queue_contents q"
  "queue_contents (q\<lparr>q_push := p\<rparr>) = queue_contents q"
  "q_pop (queue_store h q) = q_pop q" "q_push (queue_store h q) = Suc (q_push q)"
  "q_push (snd (queue_take q)) = q_push q" "q_pop (snd (queue_take q)) = Suc (q_pop q)"
  by (simp_all add: queue_inv_def queue_room_def queue_contents_def queue_store_def queue_take_def sem_up_def
      split: option.splits)

lemma take_room:
  assumes "queue_inv q" "queue_contents q \<noteq> []"
  shows "queue_room (snd (queue_take q)) = Suc (queue_room q)"
  using assms queue_take_count [OF assms(2)]
  by (auto simp: queue_room_def queue_take_def queue_inv_def)

lemma push_body_inv:
  assumes "queue_inv q" "length (queue_contents q) \<le> q_push q"
    and "\<And>j h'. j \<noteq> i \<Longrightarrow> qs_task s j = Pushing h' \<Longrightarrow> 0 < queue_room q \<Longrightarrow> queue_room q \<le> Suc (q_pop q)"
    and "sent s = got s @ queue_contents q"
  shows "qsys_inv (push_body i h q s)"
proof (cases "vchiu_queue_is_full q")
  case True
  with assms show ?thesis
    by (auto simp: push_body_def qsys_inv_def queue_full_iff)
next
  case False
  with assms(1) have "0 < queue_room q" by (simp add: queue_full_iff)
  with False assms show ?thesis
    by (auto simp: push_body_def qsys_inv_def state_simps queue_store_contents queue_store_inv le_diff_conv)
qed

lemma pop_body_inv:
  assumes "queue_inv q" "queue_contents q = [] \<or> length (queue_contents q) \<le> Suc (q_push q)"
    and "\<And>j h'. qs_task s j = Pushing h' \<Longrightarrow> queue_room q \<le> q_pop q"
    and "sent s = got s @ queue_contents q"
  shows "qsys_inv (pop_body i q s)"
proof (cases "queue_contents q = []")
  case True
  with assms show ?thesis
    by (auto simp: pop_body_def qsys_inv_def queue_empty_iff split: if_splits)
next
  case False
  note c = queue_take_contents [OF assms(1) False]
  then have "length (queue_contents q) = Suc (length (queue_contents (snd (queue_take q))))"
    by (metis length_Cons)
  with False assms c show ?thesis
    by (auto simp: pop_body_def qsys_inv_def queue_empty_iff state_simps queue_take_inv take_room split: if_splits)
qed

lemma peek_body_inv:
  assumes "queue_inv q" "queue_contents q = [] \<or> length (queue_contents q) \<le> Suc (q_push q)"
    and "\<And>j h'. qs_task s j = Pushing h' \<Longrightarrow> queue_room q \<le> q_pop q"
    and "sent s = got s @ queue_contents q"
  shows "qsys_inv (peek_body i q s)"
  using assms
  by (auto simp: peek_body_def qsys_inv_def queue_empty_iff state_simps sem_up_def split: if_splits)

lemma qstep_inv: "qstep s t \<Longrightarrow> qsys_inv s \<Longrightarrow> qsys_inv t"
proof (induction rule: qstep.induct)
  case (call_push s i h)
  then show ?case by (intro push_body_inv) (auto simp: qsys_inv_def)
next
  case (call_pop s i)
  then show ?case by (intro pop_body_inv) (auto simp: qsys_inv_def)
next
  case (call_peek s i)
  then show ?case by (intro peek_body_inv) (auto simp: qsys_inv_def)
next
  case (resume_push s i h q)
  then show ?case by (intro push_body_inv) (auto simp: qsys_inv_def state_simps)
next
  case (resume_pop s i q)
  then show ?case by (intro pop_body_inv) (auto simp: qsys_inv_def state_simps)
next
  case (resume_peek s i q)
  then show ?case by (intro peek_body_inv) (auto simp: qsys_inv_def state_simps)
qed

lemma qreachable_inv:
  assumes "is_pow2 sz"
  shows "qreachable sz s \<Longrightarrow> qsys_inv s"
proof (induction rule: qreachable.induct)
  case start
  show ?case using init_inv [OF assms] by (simp add: qsys_inv_def)
next
  case (step s t)
  then show ?case by (blast intro: qstep_inv)
qed

section \<open>Properties\<close>

text \<open>
  C1.
\<close>

theorem vchiu_queue_fifo:
  assumes "queue_inv q" "queue_contents q = []" "length hs \<le> unat (q_size q)"
  shows "vchiu_queue_is_empty q \<and>
    fst (drain queue_take (length hs) (fold queue_store hs q)) = hs \<and>
    (\<forall>h fs. hs \<noteq> [] \<longrightarrow> vchiu_queue_push h fs q = Some (queue_store h q, fs)) \<and>
    (\<forall>fs. hs \<noteq> [] \<longrightarrow> vchiu_queue_pop fs (fold queue_store hs q) =
       Some (hd hs, snd (queue_take (fold queue_store hs q)), fs))"
proof -
  let ?q = "fold queue_store hs q"
  have room: "queue_room q = unat (q_size q)"
    using assms(2) by (simp add: queue_room_def queue_contents_def unat_eq_zero)
  then have fit: "length hs \<le> queue_room q" using assms(3) by simp
  have c: "queue_contents ?q = hs" and i: "queue_inv ?q"
    using vchiu.enq_all [OF assms(1) fit] assms(2) by simp_all
  have "vchiu_queue_pop fs ?q = Some (hd hs, snd (queue_take ?q), fs)" if "hs \<noteq> []" for fs
    using that c queue_take_contents [OF i] by (auto simp: pop_now) (metis list.sel(1))
  moreover have "vchiu_queue_push h fs q = Some (queue_store h q, fs)" if "hs \<noteq> []" for h fs
    using that assms(1) fit by (intro push_now) (cases hs; simp)+
  ultimately show ?thesis
    using vchiu.fill_then_drain [OF assms(1,2) fit] assms(2) by (simp add: queue_empty_iff)
qed

definition wrap_queue :: vchiu_queue where
  "wrap_queue = \<lparr>q_size = 4, q_read = 0xFFFFFFFE, q_write = 0xFFFFFFFE, q_initialized = True,
     q_pop = 0, q_push = 0, q_storage = Some [0, 0, 0, 0]\<rparr>"

theorem vchiu_queue_fifo_witness:
  "fst (drain queue_take 3 (fold queue_store [11, 12, 13] wrap_queue)) = [11, 12, 13]"
  using vchiu_queue_fifo [of wrap_queue "[11, 12, 13]"]
  by (simp add: wrap_queue_def queue_inv_def queue_contents_def is_pow2_def numeral_3_eq_3)

text \<open>
  C2. The headers popped so far followed by those still
  in the queue are the headers pushed so far.
\<close>

theorem vchiu_no_lost_wakeup:
  assumes "is_pow2 sz" "qreachable sz s"
  shows "sent s = got s @ queue_contents (qs_queue s) \<and>
    (\<forall>i h. qs_task s i = Pushing h \<and> \<not> vchiu_queue_is_full (qs_queue s) \<longrightarrow> q_pop (qs_queue s) \<noteq> 0) \<and>
    (\<forall>i. qs_task s i \<in> {Popping, Peeking} \<and> \<not> vchiu_queue_is_empty (qs_queue s) \<longrightarrow>
       q_push (qs_queue s) \<noteq> 0) \<and>
    (\<forall>i j h. qs_task s i = Pushing h \<and> qs_task s j \<in> {Popping, Peeking} \<longrightarrow> (\<exists>t. qstep s t))"
proof -
  have inv: "qsys_inv s" using assms by (rule qreachable_inv)
  then have qi: "queue_inv (qs_queue s)" by (simp add: qsys_inv_def)
  have push: "q_pop (qs_queue s) \<noteq> 0"
    if "qs_task s i = Pushing h" "\<not> vchiu_queue_is_full (qs_queue s)" for i h
    using that inv queue_full_iff [OF qi] by (fastforce simp: qsys_inv_def)
  have pop: "q_push (qs_queue s) \<noteq> 0" if "\<not> vchiu_queue_is_empty (qs_queue s)"
    using that inv by (cases "queue_contents (qs_queue s)") (auto simp: qsys_inv_def queue_empty_iff)
  have "vchiu_queue_is_empty (qs_queue s) \<Longrightarrow> \<not> vchiu_queue_is_full (qs_queue s)"
    using queue_invE [OF qi] by (auto simp: vchiu_queue_is_empty_def vchiu_queue_is_full_def is_pow2_def)
  then have "\<exists>t. qstep s t"
    if "qs_task s i = Pushing h" "qs_task s j \<in> {Popping, Peeking}" for i j h
    using that push [OF that(1)] pop by (blast intro: qstep.intros)
  with inv push pop show ?thesis unfolding qsys_inv_def by blast
qed

theorem vchiu_no_lost_wakeup_witness:
  "\<exists>s. qreachable 1 s \<and> qs_task s 0 = Popping \<and> sent s = got s @ queue_contents (qs_queue s)"
proof -
  let ?s = "\<lparr>qs_queue = fst (vchiu_queue_init True 1), qs_task = (\<lambda>_. Running), sent = [], got = []\<rparr>"
  let ?t = "pop_body 0 (qs_queue ?s) ?s"
  have r: "qreachable 1 ?t"
    by (rule qreachable.step [OF qreachable.start call_pop]) simp
  have t: "qs_task ?t 0 = Popping"
    by (simp add: pop_body_def vchiu_queue_is_empty_def vchiu_queue_init_def)
  have "is_pow2 1" by (simp add: is_pow2_def)
  from vchiu_no_lost_wakeup [OF this r] r t show ?thesis by blast
qed

end
