(* ===== verification/Vcos_Blockpool.thy ===== *)
theory Vcos_Blockpool
  imports Oculus_Memory "HOL-Library.Monad_Syntax"
begin

text \<open>
  circle/addon/vc4/interface/vcos/vcos_generic_blockpool.c and .h: an allocator of blocks of one
  size. A pool has up to eight subpools; each is an area of memory divided into blocks behind a
  one-word header, which names the next free block of the subpool or, while the block is
  allocated, the subpool itself. A pool that has been extended takes further subpools from
  \<open>vcos_malloc\<close> when all are full. The code is for the 32-bit target: a pointer and a \<open>size_t\<close>
  have four bytes, sizes wrap at 2^32, pointer sums do not. The mutex of the pool is left out: no
  operation yields while it holds it. \<open>None\<close> is a failing \<open>vcos_demand\<close> or \<open>vcos_assert\<close>, a read
  through a pointer to no subpool of the pool, or a loop that does not end.
\<close>

section \<open>Sizes and handles\<close>

datatype vcos_status = VCOS_SUCCESS | VCOS_EAGAIN | VCOS_ENOENT | VCOS_ENOSPC | VCOS_EINVAL | VCOS_EACCESS |
  VCOS_ENOMEM | VCOS_ENOSYS | VCOS_EEXIST | VCOS_ENXIO | VCOS_EINTR

definition BLOCKPOOL_MAGIC :: u32 where "BLOCKPOOL_MAGIC = 0x6c706276"

definition SUBPOOL_MAGIC :: u32 where "SUBPOOL_MAGIC = 0x6c707376"

definition FLAG_OWNS_MEM :: u32 where "FLAG_OWNS_MEM = 1"

definition FLAG_EXTENSION :: u32 where "FLAG_EXTENSION = 2"

definition MAX_SUBPOOLS :: nat where "MAX_SUBPOOLS = 8"

definition HDR_SIZE :: nat where "HDR_SIZE = 4"

definition SUBPOOL_SIZE :: nat where "SUBPOOL_SIZE = 36"

definition ALIGN_DEFAULT :: u32 where "ALIGN_DEFAULT = 4"

definition DEBUG_MEMSET_MAX :: u32 where "DEBUG_MEMSET_MAX = 0x200000"

definition pool_round_up :: "u32 \<Rightarrow> u32 \<Rightarrow> u32" where
  "pool_round_up x s = (x + (s - 1)) AND NOT (s - 1)"

definition block_bytes :: "u32 \<Rightarrow> u32 \<Rightarrow> u32" where
  "block_bytes block_size align =
     pool_round_up (block_size + (if align \<ge> 4096 then 32 else 0) + of_nat HDR_SIZE) align"

definition pool_bytes :: "u32 \<Rightarrow> u32 \<Rightarrow> u32 \<Rightarrow> u32" where
  "pool_bytes num_blocks block_size align = block_bytes block_size align * num_blocks + align"

definition handle_index :: "u32 \<Rightarrow> u32" where
  "handle_index h = drop_bit 3 h - 1"

definition handle_subpool :: "u32 \<Rightarrow> u32" where
  "handle_subpool h = h AND (push_bit 3 1 - 1)"

definition handle_create :: "u32 \<Rightarrow> u32 \<Rightarrow> u32" where
  "handle_create i s = push_bit 3 (i + 1) OR s"

definition handle_format_ok :: "u32 \<Rightarrow> u32 \<Rightarrow> bool" where
  "handle_format_ok h max_blocks \<longleftrightarrow> h \<noteq> 0 \<and> handle_index h < max_blocks"

section \<open>State\<close>

record subpool =
  sp_magic :: u32
  sp_free_list :: ptr
  sp_mem :: ptr
  sp_start :: ptr
  sp_end :: ptr
  sp_num :: u32
  sp_available :: u32
  sp_owner :: ptr
  sp_flags :: u32

record blockpool =
  bp_magic :: u32
  bp_align :: u32
  bp_data_size :: u32
  bp_block_size :: u32
  bp_num_subpools :: u32
  bp_extension_blocks :: u32
  bp_subpools :: "subpool list"

text \<open>
  A pool at its address, the address of its array of subpools, the memory, and the areas that were
  given back by \<open>vcos_free\<close>.
\<close>

record pool_state =
  pool :: blockpool
  pool_at :: ptr
  subpools_at :: ptr
  heap :: memory
  freed :: "ptr list"

definition subpool_at :: "pool_state \<Rightarrow> nat \<Rightarrow> ptr" where
  "subpool_at s i = subpools_at s + i * SUBPOOL_SIZE"

text \<open>The subpool that a pointer names.\<close>

definition subpool_of :: "pool_state \<Rightarrow> ptr \<Rightarrow> nat option" where
  "subpool_of s p = find (\<lambda>i. subpool_at s i = p) [0..<MAX_SUBPOOLS]"

definition sub :: "pool_state \<Rightarrow> nat \<Rightarrow> subpool" where
  "sub s i = bp_subpools (pool s) ! i"

definition set_sub :: "nat \<Rightarrow> subpool \<Rightarrow> pool_state \<Rightarrow> pool_state" where
  "set_sub i sp s = s\<lparr>pool := (pool s)\<lparr>bp_subpools := (bp_subpools (pool s))[i := sp]\<rparr>\<rparr>"

definition zero_subpool :: subpool where
  "zero_subpool = \<lparr>sp_magic = 0, sp_free_list = 0, sp_mem = 0, sp_start = 0, sp_end = 0, sp_num = 0, sp_available = 0,
     sp_owner = 0, sp_flags = 0\<rparr>"

definition pool_ok :: "pool_state \<Rightarrow> bool" where
  "pool_ok s \<longleftrightarrow> bp_magic (pool s) = BLOCKPOOL_MAGIC"

definition subpool_ok :: "subpool \<Rightarrow> bool" where
  "subpool_ok sp \<longleftrightarrow> sp_magic sp = SUBPOOL_MAGIC \<and> sp_mem sp \<le> sp_start sp"

definition check :: "bool \<Rightarrow> unit option" where
  "check b = (if b then Some () else None)"

definition get_ptr :: "memory \<Rightarrow> ptr \<Rightarrow> ptr" where
  "get_ptr m a = unat (load32 m a)"

definition put_ptr :: "ptr \<Rightarrow> ptr \<Rightarrow> memory \<Rightarrow> memory" where
  "put_ptr a p m = store32 a (of_nat p) m"

section \<open>Initialisation\<close>

text \<open>The loop that links the blocks of a new subpool; a block size of zero would never end it.\<close>

partial_function (option) link_blocks :: "nat \<Rightarrow> ptr \<Rightarrow> ptr \<Rightarrow> ptr \<Rightarrow> memory \<Rightarrow> (ptr \<times> memory) option" where
  [code]: "link_blocks stride block end_at free_list m =
     (if block < end_at then link_blocks stride (block + stride) end_at block (put_ptr block free_list m)
      else Some (free_list, m))"

definition first_header :: "ptr \<Rightarrow> u32 \<Rightarrow> ptr" where
  "first_header mem align = unat (pool_round_up (of_nat (mem + HDR_SIZE)) align - of_nat HDR_SIZE)"

definition subpool_init :: "nat \<Rightarrow> ptr \<Rightarrow> u32 \<Rightarrow> u32 \<Rightarrow> u32 \<Rightarrow> pool_state \<Rightarrow> pool_state option" where
  "subpool_init i mem pool_size num_blocks align s =
     (let start = first_header mem align;
          stride = bp_block_size (pool s);
          end_at = start + unat (stride * num_blocks);
          m = (if pool_size < DEBUG_MEMSET_MAX then memcpy mem (\<lambda>_. 0xBC) (unat pool_size) (heap s) else heap s)
      in do {
        check (mem \<le> start);
        (free_list, m) \<leftarrow> link_blocks (unat stride) start end_at NULL m;
        Some (set_sub i ((sub s i)\<lparr>sp_magic := SUBPOOL_MAGIC, sp_mem := mem, sp_start := start, sp_end := end_at,
            sp_num := num_blocks, sp_available := num_blocks, sp_free_list := free_list, sp_owner := pool_at s\<rparr>) (s\<lparr>heap := m\<rparr>))
      })"

definition blockpool_init :: "u32 \<Rightarrow> u32 \<Rightarrow> ptr \<Rightarrow> u32 \<Rightarrow> u32 \<Rightarrow> pool_state \<Rightarrow> (vcos_status \<times> pool_state) option" where
  "blockpool_init num_blocks block_size start pool_size align s = do {
     check (start \<noteq> NULL \<and> block_size > 0 \<and> num_blocks > 0);
     let align = (if align = 0 then ALIGN_DEFAULT else align);
     if align AND 3 \<noteq> 0 then Some (VCOS_EINVAL, s)
     else if pool_bytes num_blocks block_size align > pool_size then Some (VCOS_ENOMEM, s)
     else do {
       let s = s\<lparr>pool := \<lparr>bp_magic = BLOCKPOOL_MAGIC, bp_align = align, bp_data_size = block_size,
         bp_block_size = block_bytes block_size align, bp_num_subpools = 1, bp_extension_blocks = 0,
         bp_subpools = replicate MAX_SUBPOOLS zero_subpool\<rparr>\<rparr>;
       s \<leftarrow> subpool_init 0 start pool_size num_blocks align s;
       Some (VCOS_SUCCESS, s)
     }
   }"

text \<open>\<open>mem\<close> is what \<open>vcos_malloc\<close> returns.\<close>

definition blockpool_create_on_heap :: "ptr \<Rightarrow> u32 \<Rightarrow> u32 \<Rightarrow> u32 \<Rightarrow> pool_state \<Rightarrow> (vcos_status \<times> pool_state) option" where
  "blockpool_create_on_heap mem num_blocks block_size align s =
     (let size = pool_bytes num_blocks block_size align
      in if mem = NULL then Some (VCOS_ENOMEM, s)
         else do {
           (status, s) \<leftarrow> blockpool_init num_blocks block_size mem size align s;
           if status \<noteq> VCOS_SUCCESS then Some (status, s\<lparr>freed := mem # freed s\<rparr>)
           else Some (status, set_sub 0 ((sub s 0)\<lparr>sp_flags := sp_flags (sub s 0) OR FLAG_OWNS_MEM\<rparr>) s)
         })"

definition mark_extension :: "nat \<Rightarrow> pool_state \<Rightarrow> pool_state" where
  "mark_extension i s = set_sub i ((sub s i)\<lparr>sp_magic := SUBPOOL_MAGIC, sp_start := NULL, sp_mem := NULL\<rparr>) s"

definition blockpool_extend :: "u32 \<Rightarrow> u32 \<Rightarrow> pool_state \<Rightarrow> (vcos_status \<times> pool_state) option" where
  "blockpool_extend num_extensions num_blocks s = do {
     check (pool_ok s);
     if bp_num_subpools (pool s) > 1 then Some (VCOS_EACCESS, s)
     else if num_extensions < 1 \<or> num_extensions > of_nat MAX_SUBPOOLS - 1 then Some (VCOS_EINVAL, s)
     else if num_blocks < 1 then Some (VCOS_EINVAL, s)
     else
       let n = bp_num_subpools (pool s) + num_extensions;
           s = s\<lparr>pool := (pool s)\<lparr>bp_num_subpools := n, bp_extension_blocks := num_blocks\<rparr>\<rparr>
       in Some (VCOS_SUCCESS, fold mark_extension [1..<unat n] s)
   }"

section \<open>Allocating and freeing\<close>

definition has_free :: "pool_state \<Rightarrow> nat \<Rightarrow> bool" where
  "has_free s i \<longleftrightarrow> sp_start (sub s i) \<noteq> NULL \<and> sp_available (sub s i) > 0"

text \<open>
  The first subpool with a free block; failing that, the first unallocated subpool for which
  \<open>vcos_malloc\<close> gives memory. \<open>mem_for i\<close> is what it returns when it is called for subpool \<open>i\<close>.
\<close>

fun extend_from :: "(nat \<Rightarrow> ptr) \<Rightarrow> nat list \<Rightarrow> pool_state \<Rightarrow> (nat option \<times> pool_state) option" where
  "extend_from mem_for [] s = Some (None, s)"
| "extend_from mem_for (i # is) s =
     (if sp_start (sub s i) = NULL \<and> mem_for i \<noteq> NULL
      then let n = bp_extension_blocks (pool s); align = bp_align (pool s)
           in do {
             s \<leftarrow> subpool_init i (mem_for i) (pool_bytes n (bp_data_size (pool s)) align) n align s;
             Some (Some i, s)
           }
      else extend_from mem_for is s)"

definition select_subpool :: "(nat \<Rightarrow> ptr) \<Rightarrow> pool_state \<Rightarrow> (nat option \<times> pool_state) option" where
  "select_subpool mem_for s =
     (case find (has_free s) [0..<unat (bp_num_subpools (pool s))] of
        Some i \<Rightarrow> Some (Some i, s)
      | None \<Rightarrow> extend_from mem_for [1..<unat (bp_num_subpools (pool s))] s)"

definition take_block :: "nat \<Rightarrow> pool_state \<Rightarrow> (ptr \<times> pool_state) option" where
  "take_block i s =
     (let sp = sub s i; nb = sp_free_list sp; next = get_ptr (heap s) nb; ret = nb + HDR_SIZE
      in do {
        check (nb \<noteq> NULL);
        check (ret > sp_start sp \<and> ret < sp_end sp);
        Some (ret, set_sub i (sp\<lparr>sp_free_list := next, sp_available := sp_available sp - 1\<rparr>)
                     (s\<lparr>heap := put_ptr nb (subpool_at s i) (heap s)\<rparr>))
      })"

definition blockpool_alloc :: "(nat \<Rightarrow> ptr) \<Rightarrow> pool_state \<Rightarrow> (ptr \<times> pool_state) option" where
  "blockpool_alloc mem_for s = do {
     check (pool_ok s);
     (found, s) \<leftarrow> select_subpool mem_for s;
     (case found of None \<Rightarrow> Some (NULL, s) | Some i \<Rightarrow> take_block i s)
   }"

definition blockpool_calloc :: "(nat \<Rightarrow> ptr) \<Rightarrow> pool_state \<Rightarrow> (ptr \<times> pool_state) option" where
  "blockpool_calloc mem_for s = do {
     (ret, s) \<leftarrow> blockpool_alloc mem_for s;
     Some (ret, if ret \<noteq> NULL then s\<lparr>heap := memcpy ret (\<lambda>_. 0) (unat (bp_data_size (pool s))) (heap s)\<rparr> else s)
   }"

text \<open>The subpool that the header of a block names.\<close>

definition owner_of :: "pool_state \<Rightarrow> ptr \<Rightarrow> nat option" where
  "owner_of s block = do {
     i \<leftarrow> subpool_of s (get_ptr (heap s) (block - HDR_SIZE));
     check (subpool_ok (sub s i) \<and> sp_owner (sub s i) = pool_at s \<and> pool_ok s);
     Some i
   }"

definition release_if_empty :: "nat \<Rightarrow> pool_state \<Rightarrow> pool_state" where
  "release_if_empty i s =
     (let sp = sub s i
      in if sp_flags sp AND FLAG_EXTENSION \<noteq> 0 \<and> sp_available sp = sp_num sp
         then set_sub i (sp\<lparr>sp_mem := NULL, sp_start := NULL\<rparr>) (s\<lparr>freed := sp_mem sp # freed s\<rparr>)
         else s)"

definition blockpool_free :: "ptr \<Rightarrow> pool_state \<Rightarrow> pool_state option" where
  "blockpool_free block s =
     (if block = NULL then Some s
      else let hdr = block - HDR_SIZE
           in do {
             i \<leftarrow> owner_of s block;
             check (sp_available (sub s i) < sp_num (sub s i));
             let sp = sub s i;
             Some (release_if_empty i (set_sub i (sp\<lparr>sp_free_list := hdr, sp_available := sp_available sp + 1\<rparr>)
               (s\<lparr>heap := put_ptr hdr (sp_free_list sp) (heap s)\<rparr>)))
           })"

section \<open>Counts, handles, deletion\<close>

definition pool_subpools :: "pool_state \<Rightarrow> nat list" where
  "pool_subpools s = [0..<unat (bp_num_subpools (pool s))]"

definition blockpool_available_count :: "pool_state \<Rightarrow> u32 option" where
  "blockpool_available_count s = do {
     check (pool_ok s \<and> list_all (\<lambda>i. subpool_ok (sub s i)) (pool_subpools s));
     Some (fold (\<lambda>i ret. if sp_start (sub s i) \<noteq> NULL then ret + sp_available (sub s i)
                         else ret + bp_extension_blocks (pool s)) (pool_subpools s) 0)
   }"

definition blockpool_used_count :: "pool_state \<Rightarrow> u32 option" where
  "blockpool_used_count s = do {
     check (pool_ok s \<and> list_all (\<lambda>i. subpool_ok (sub s i)) (pool_subpools s));
     Some (fold (\<lambda>i ret. if sp_start (sub s i) \<noteq> NULL then ret + (sp_num (sub s i) - sp_available (sub s i))
                         else ret) (pool_subpools s) 0)
   }"

definition delete_subpool :: "nat \<Rightarrow> pool_state \<Rightarrow> pool_state option" where
  "delete_subpool i s =
     (let sp = sub s i
      in do {
        check (subpool_ok sp);
        Some (if sp_mem sp \<noteq> NULL
              then set_sub i (sp\<lparr>sp_mem := NULL, sp_start := NULL\<rparr>)
                (s\<lparr>heap := memcpy (sp_mem sp) (\<lambda>_. 0xBE) (unat (pool_bytes (sp_num sp) (bp_data_size (pool s)) (bp_align (pool s)))) (heap s),
                   freed := (if sp_flags sp AND FLAG_OWNS_MEM \<noteq> 0 then sp_mem sp # freed s else freed s)\<rparr>)
              else s)
      })"

fun delete_subpools :: "nat list \<Rightarrow> pool_state \<Rightarrow> pool_state option" where
  "delete_subpools [] s = Some s"
| "delete_subpools (i # is) s = delete_subpool i s \<bind> delete_subpools is"

definition dead_word :: u32 where "dead_word = 0xBEBEBEBE"

definition dead_pool :: blockpool where
  "dead_pool =
     (let sp = \<lparr>sp_magic = dead_word, sp_free_list = unat dead_word, sp_mem = unat dead_word, sp_start = unat dead_word,
            sp_end = unat dead_word, sp_num = dead_word, sp_available = dead_word, sp_owner = unat dead_word, sp_flags = dead_word\<rparr>
      in \<lparr>bp_magic = dead_word, bp_align = dead_word, bp_data_size = dead_word, bp_block_size = dead_word,
          bp_num_subpools = dead_word, bp_extension_blocks = dead_word, bp_subpools = replicate MAX_SUBPOOLS sp\<rparr>)"

definition blockpool_delete :: "pool_state \<Rightarrow> pool_state option" where
  "blockpool_delete s = do {
     check (pool_ok s);
     s \<leftarrow> delete_subpools (pool_subpools s) s;
     Some (s\<lparr>pool := dead_pool\<rparr>)
   }"

definition elem_to_handle :: "ptr \<Rightarrow> pool_state \<Rightarrow> u32 option" where
  "elem_to_handle block s = do {
     check (block \<noteq> NULL);
     i \<leftarrow> owner_of s block;
     let index = of_nat (block - HDR_SIZE - sp_start (sub s i)) div bp_block_size (pool s);
     check (index < sp_num (sub s i));
     check (i < unat (bp_num_subpools (pool s)));
     Some (handle_create index (of_nat i))
   }"

definition elem_from_handle :: "u32 \<Rightarrow> pool_state \<Rightarrow> ptr option" where
  "elem_from_handle h s = do {
     check (pool_ok s);
     let id = unat (handle_subpool h);
     let index = handle_index h;
     let sp = sub s id;
     let hdr = sp_start sp + unat (index * bp_block_size (pool s));
     Some (if id < unat (bp_num_subpools (pool s)) \<and> sp_magic sp = SUBPOOL_MAGIC \<and> sp_mem sp \<noteq> NULL \<and> index < sp_num sp \<and>
              get_ptr (heap s) hdr = subpool_at s id
           then hdr + HDR_SIZE else NULL)
   }"

definition block_within :: "ptr \<Rightarrow> pool_state \<Rightarrow> nat \<Rightarrow> bool" where
  "block_within block s i \<longleftrightarrow>
     (let sp = sub s i
      in sp_mem sp \<noteq> NULL \<and> sp_start sp \<noteq> NULL \<and> block > sp_start sp \<and> block < sp_start sp + unat (sp_num sp * bp_block_size (pool s)))"

definition is_valid_elem :: "ptr \<Rightarrow> pool_state \<Rightarrow> bool option" where
  "is_valid_elem block s = do {
     check (pool_ok s);
     if block AND 3 \<noteq> 0 then Some False
     else do {
       check (list_all (\<lambda>i. subpool_ok (sub s i)) (takeWhile (\<lambda>i. \<not> block_within block s i) (pool_subpools s)));
       (case find (block_within block s) (pool_subpools s) of
          None \<Rightarrow> Some False
        | Some i \<Rightarrow> do {
            check (subpool_ok (sub s i));
            Some (get_ptr (heap s) (block - HDR_SIZE) = subpool_at s i \<and> sp_owner (sub s i) = pool_at s)
          })
     }
   }"

end
