(* ===== verification/Vcos_Pool.thy ===== *)
theory Vcos_Pool
  imports Vcos_Blockpool
begin

text \<open>
  What the block pool (Vcos_Blockpool) promises. A block is out when its header names its subpool;
  the invariant says that the free list of every subpool is a chain through exactly the other
  blocks. \<open>pool_run\<close> collects every history of a pool, with writes of its clients to everything
  but the headers.
\<close>

section \<open>Rounding\<close>

lemma and_not_add: "(y :: 'a::len word) AND NOT m = y - (y AND m)"
proof -
  have "(y AND NOT m) + (y AND m) = (y AND NOT m) OR (y AND m)"
    by (rule disjunctive_add) (auto simp: bit_simps)
  also have "\<dots> = y" by (rule bit_word_eqI) (auto simp: bit_simps)
  finally show ?thesis by (simp add: eq_diff_eq)
qed

lemma pool_round_up_bounds:
  assumes "unat x + unat s \<le> 2 ^ 32" "s \<noteq> 0"
  shows "unat x \<le> unat (pool_round_up x s) \<and> unat (pool_round_up x s) < unat x + unat s"
proof -
  let ?y = "x + (s - 1)" and ?m = "s - 1"
  have s: "0 < unat s" using assms(2) by (simp add: unat_gt_0)
  have m: "unat ?m = unat s - 1" using assms(2) by (rule unat_minus_one)
  have y: "unat ?y = unat x + (unat s - 1)" unfolding m [symmetric] by (rule unat_add_small) (use assms(1) m s in simp)
  have le: "unat (?y AND ?m) \<le> unat ?m" "unat (?y AND ?m) \<le> unat ?y"
    by (simp_all add: word_and_le1 word_and_le2 word_le_nat_alt [symmetric])
  have "unat (pool_round_up x s) = unat ?y - unat (?y AND ?m)"
    unfolding pool_round_up_def and_not_add by (rule unat_sub) (simp add: word_and_le2)
  then show ?thesis using le y m s by linarith
qed

lemma pool_round_up_aligned:
  assumes "s = 2 ^ n" "n < 32"
  shows "unat s dvd unat (pool_round_up x s)"
proof -
  have "s - 1 = mask n" by (simp add: assms(1) mask_eq_exp_minus_1)
  then have "take_bit n (pool_round_up x s) = 0"
    by (auto intro!: bit_word_eqI simp: pool_round_up_def bit_simps)
  then have "unat (take_bit n (pool_round_up x s)) = 0" by simp
  then have "unat (pool_round_up x s) mod 2 ^ n = 0" unfolding unsigned_take_bit_eq unfolding take_bit_eq_mod .
  moreover have "unat s = 2 ^ n"
  proof -
    have "(2 :: nat) ^ n < 2 ^ 32" using assms(2) by (intro power_strict_increasing) simp_all
    then have "unat (of_nat (2 ^ n) :: u32) = 2 ^ n" using assms(2) unfolding unsigned_of_nat by (simp add: take_bit_nat_eq_self_iff)
    then show ?thesis by (simp add: assms(1))
  qed
  ultimately show ?thesis by presburger
qed

lemma pred_mod4: 
  assumes "m mod 4 = 0" "0 < (m :: nat)"
  shows "(m - 1) mod 4 = 3"
proof -
  have "4 dvd m" using assms(1) by (simp only: dvd_eq_mod_eq_0)
  then obtain q where q: "m = 4 * q" by (rule dvdE)
  then obtain r where r: "q = Suc r" using assms(2) by (cases q) simp_all
  have "m - 1 = 3 + 4 * r" unfolding q r by simp
  then show ?thesis by simp
qed

lemma pool_round_up_mod4:
  assumes "s AND 3 = 0" "s \<noteq> 0"
  shows "4 dvd unat (pool_round_up x s)"
proof -
  have three: "mask 2 = (3 :: u32)" by (simp add: mask_eq_exp_minus_1)
  have mod4: "unat (take_bit 2 w) = unat w mod 4" for w :: u32 unfolding unsigned_take_bit_eq unfolding take_bit_eq_mod by simp
  have "take_bit 2 s = 0" using assms(1) by (simp add: take_bit_eq_mask three)
  then have "unat s mod 4 = 0" using mod4 [of s] by simp
  moreover have "0 < unat s" using assms(2) by (simp add: unat_gt_0)
  ultimately have "(unat s - 1) mod 4 = 3" by (rule pred_mod4)
  then have "unat (take_bit 2 (s - 1)) = unat (mask 2 :: u32)" unfolding mod4 unat_minus_one [OF assms(2)] three by simp
  then have t: "take_bit 2 (s - 1) = mask 2" by (simp only: word_unat_eq_iff)
  have "bit (s - 1) n" if "n < 2" for n
  proof -
    have "bit (take_bit 2 (s - 1)) n" unfolding t using that by (simp add: bit_mask_iff)
    then show ?thesis by (simp only: bit_take_bit_iff)
  qed
  then have "take_bit 2 (y AND NOT (s - 1)) = 0" for y
    by (intro bit_word_eqI) (simp add: bit_take_bit_iff bit_and_iff bit_not_iff)
  then have "take_bit 2 (pool_round_up x s) = 0" unfolding pool_round_up_def .
  then have "unat (pool_round_up x s) mod 4 = 0" using mod4 [of "pool_round_up x s"] by simp
  then show ?thesis by (simp add: dvd_eq_mod_eq_0)
qed

text \<open>The sizes for which nothing wraps.\<close>

definition sizes_fit :: "u32 \<Rightarrow> u32 \<Rightarrow> u32 \<Rightarrow> bool" where
  "sizes_fit n bs align \<longleftrightarrow> align \<noteq> 0 \<and> 0 < n \<and> unat bs + 36 + unat align < 2 ^ 32 \<and>
     unat (block_bytes bs align) * unat n + unat align < 2 ^ 32"

lemma sizes_fitD:
  assumes "sizes_fit n bs align"
  shows "HDR_SIZE + unat bs \<le> unat (block_bytes bs align)"
    "unat (pool_bytes n bs align) = unat (block_bytes bs align) * unat n + unat align"
    "unat (block_bytes bs align * n) = unat (block_bytes bs align) * unat n"
proof -
  let ?e = "if align \<ge> 4096 then 32 else 0 :: u32" and ?t = "block_bytes bs align"
  have fit: "unat ?t * unat n + unat align < 2 ^ 32" and small: "unat bs + 36 + unat align < 2 ^ 32" and al: "align \<noteq> 0"
    using assms by (auto simp: sizes_fit_def)
  have e: "unat ?e \<le> 32" by simp
  have 1: "unat (bs + ?e) = unat bs + unat ?e" by (rule unat_add_small) (use small e in simp)
  have h: "unat (of_nat HDR_SIZE :: u32) = HDR_SIZE" by (simp add: HDR_SIZE_def)
  have "unat ((bs + ?e) + of_nat HDR_SIZE) = unat (bs + ?e) + unat (of_nat HDR_SIZE :: u32)"
    by (rule unat_add_small) (use small e 1 h in \<open>simp add: HDR_SIZE_def\<close>)
  then have 2: "unat (bs + ?e + of_nat HDR_SIZE) = unat bs + unat ?e + HDR_SIZE" using 1 h by linarith
  have "unat (bs + ?e + of_nat HDR_SIZE) + unat align \<le> 2 ^ 32" using small e 2 unfolding HDR_SIZE_def by linarith
  from pool_round_up_bounds [OF this al] show "HDR_SIZE + unat bs \<le> unat ?t"
    using 2 unfolding block_bytes_def by linarith
  show 3: "unat (?t * n) = unat ?t * unat n" using fit by (simp add: unat_mult_lem [THEN iffD1])
  show "unat (pool_bytes n bs align) = unat ?t * unat n + unat align"
    unfolding pool_bytes_def 3 [symmetric] by (rule unat_add_small) (use fit 3 in simp)
qed

section \<open>Pointers in memory\<close>

lemma get_put_same: "p < 2 ^ 32 \<Longrightarrow> get_ptr (put_ptr a p m) a = p"
  unfolding get_ptr_def put_ptr_def load32_store32_same by (simp add: unsigned_of_nat take_bit_nat_eq_self_iff)

lemma put_ptr_other: "x < a \<or> a + 4 \<le> x \<Longrightarrow> put_ptr a p m x = m x"
  by (simp add: put_ptr_def store32_other)

lemma get_put_other: "b + 4 \<le> a \<or> a + 4 \<le> b \<Longrightarrow> get_ptr (put_ptr a p m) b = get_ptr m b"
  unfolding get_ptr_def by (rule arg_cong [OF load32_cong]) (auto intro: put_ptr_other)

lemma get_ptr_cong: "(\<And>x. b \<le> x \<Longrightarrow> x < b + 4 \<Longrightarrow> m' x = m x) \<Longrightarrow> get_ptr m' b = get_ptr m b"
  unfolding get_ptr_def by (rule arg_cong [OF load32_cong]) simp

lemma get_ptr_less: "get_ptr m a < 2 ^ 32"
  using unsigned_less [of "load32 m a"] by (simp add: get_ptr_def)

text \<open>A chain of block headers, each naming the next.\<close>

fun chain :: "memory \<Rightarrow> ptr \<Rightarrow> ptr list \<Rightarrow> bool" where
  "chain m p [] \<longleftrightarrow> p = NULL"
| "chain m p (q # qs) \<longleftrightarrow> p = q \<and> q \<noteq> NULL \<and> chain m (get_ptr m q) qs"

lemma chain_cong:
  assumes "chain m p qs" "\<And>q. q \<in> set qs \<Longrightarrow> get_ptr m' q = get_ptr m q"
  shows "chain m' p qs"
  using assms by (induction qs arbitrary: p) auto

lemma chain_head: "chain m p qs \<Longrightarrow> p = (if qs = [] then NULL else hd qs)"
  by (cases qs) auto

lemma chain_next:
  assumes "chain m p qs" "q \<in> set qs"
  shows "get_ptr m q = NULL \<or> get_ptr m q \<in> set qs"
  using assms
proof (induction qs arbitrary: p)
  case (Cons x qs)
  show ?case
  proof (cases "q = x")
    case True
    then show ?thesis using Cons.prems(1) chain_head [of m "get_ptr m x" qs] by (cases qs) auto
  next
    case False
    then show ?thesis using Cons.IH [of "get_ptr m x"] Cons.prems by auto
  qed
qed simp

text \<open>The headers of an area, \<open>stride\<close> bytes apart.\<close>

lemma headers_apart:
  assumes "j \<noteq> (k :: nat)" "4 \<le> stride"
  shows "a + j * stride + 4 \<le> a + k * stride \<or> a + k * stride + 4 \<le> a + j * stride"
proof (cases "j < k")
  case True
  then have "Suc j * stride \<le> k * stride" by (intro mult_le_mono1) simp
  then show ?thesis using assms(2) by simp
next
  case False
  then have "Suc k * stride \<le> j * stride" using assms(1) by (intro mult_le_mono1) simp
  then show ?thesis using assms(2) by simp
qed

lemma header_inside:
  assumes "k < (n :: nat)"
  shows "a + k * stride + stride \<le> a + n * stride"
proof -
  have "Suc k * stride \<le> n * stride" using assms by (intro mult_le_mono1) simp
  then show ?thesis by simp
qed

lemma link_blocks_chain:
  assumes "4 \<le> stride" "0 < a" "a + n * stride < 2 ^ 32" "j \<le> n"
    and "chain m p (map (\<lambda>k. a + k * stride) (rev [0..<j]))"
  shows "\<exists>p' m'. link_blocks stride (a + j * stride) (a + n * stride) p m = Some (p', m') \<and>
    chain m' p' (map (\<lambda>k. a + k * stride) (rev [0..<n])) \<and> (\<forall>x. x < a \<or> a + n * stride \<le> x \<longrightarrow> m' x = m x)"
  using assms(4,5)
proof (induction "n - j" arbitrary: j p m)
  case 0
  then have "j = n" by simp
  then show ?case using 0 by (subst link_blocks.simps) simp
next
  case (Suc d)
  let ?f = "\<lambda>k. a + k * stride" and ?m = "put_ptr (a + j * stride) p m"
  have j: "j < n" using Suc.hyps by simp
  then have less: "?f j < ?f n" using assms(1) by simp
  have p: "p < 2 ^ 32"
  proof (cases j)
    case 0
    then show ?thesis using Suc.prems(2) by simp
  next
    case (Suc i)
    then have "p = ?f i" "i < n" using chain_head [OF Suc.prems(2)] j by simp_all
    then show ?thesis using assms(3) header_inside [of i n a stride] by simp
  qed
  have "chain ?m p (map ?f (rev [0..<j]))"
  proof (rule chain_cong [OF Suc.prems(2)])
    fix q assume "q \<in> set (map ?f (rev [0..<j]))"
    then obtain k where "k < j" "q = ?f k" by auto
    then show "get_ptr ?m q = get_ptr m q" using headers_apart [of k j stride a] assms(1) by (intro get_put_other) auto
  qed
  then have c: "chain ?m (?f j) (map ?f (rev [0..<Suc j]))" using assms(2) p by (simp add: get_put_same)
  have d: "d = n - Suc j" using Suc.hyps(2) by simp
  obtain p' m' where *: "link_blocks stride (?f (Suc j)) (?f n) (?f j) ?m = Some (p', m')"
    "chain m' p' (map ?f (rev [0..<n]))" "\<forall>x. x < a \<or> ?f n \<le> x \<longrightarrow> m' x = ?m x"
    using Suc.hyps(1) [OF d Suc_leI [OF j] c] by blast
  have "link_blocks stride (?f j) (?f n) p m = Some (p', m')"
    using less *(1) by (subst link_blocks.simps) (simp add: ac_simps)
  moreover have "m' x = m x" if x: "x < a \<or> ?f n \<le> x" for x
  proof -
    have "x < ?f j \<or> ?f j + 4 \<le> x" using x header_inside [OF j, of a stride] assms(1) by linarith
    then show ?thesis using *(3) x put_ptr_other by auto
  qed
  ultimately show ?case using *(2) by blast
qed

section \<open>One subpool\<close>

definition head_at :: "nat \<Rightarrow> subpool \<Rightarrow> nat \<Rightarrow> ptr" where
  "head_at st sp k = sp_start sp + k * st"

definition sub_end :: "nat \<Rightarrow> subpool \<Rightarrow> ptr" where
  "sub_end st sp = sp_start sp + unat (sp_num sp) * st"

text \<open>
  \<open>free_ok\<close>: the free list is a chain through exactly the blocks that do not name the subpool
  \<open>tag\<close>. \<open>sub_good\<close> adds the place of the blocks in the memory of the subpool.
\<close>

definition free_ok :: "nat \<Rightarrow> ptr \<Rightarrow> subpool \<Rightarrow> memory \<Rightarrow> nat list \<Rightarrow> bool" where
  "free_ok st tag sp m ks \<longleftrightarrow> distinct ks \<and> chain m (sp_free_list sp) (map (head_at st sp) ks) \<and>
     set ks = {k. k < unat (sp_num sp) \<and> get_ptr m (head_at st sp k) \<noteq> tag} \<and> length ks = unat (sp_available sp)"

definition sub_place :: "nat \<Rightarrow> u32 \<Rightarrow> u32 \<Rightarrow> subpool \<Rightarrow> bool" where
  "sub_place st data align sp \<longleftrightarrow> sp_mem sp \<noteq> NULL \<and> sp_mem sp \<le> sp_start sp \<and> sub_end st sp < 2 ^ 32 \<and>
     sp_end sp = sub_end st sp \<and> sub_end st sp \<le> sp_mem sp + unat (pool_bytes (sp_num sp) data align) \<and>
     ((\<exists>n < 32. align = 2 ^ n) \<longrightarrow> unat align dvd sp_start sp + HDR_SIZE)"

definition sub_good :: "nat \<Rightarrow> u32 \<Rightarrow> u32 \<Rightarrow> ptr \<Rightarrow> subpool \<Rightarrow> memory \<Rightarrow> bool" where
  "sub_good st data align tag sp m \<longleftrightarrow> sub_place st data align sp \<and> tag \<noteq> NULL \<and> tag < 2 ^ 32 \<and>
     \<not> (sp_start sp \<le> tag \<and> tag < sub_end st sp) \<and> (\<exists>ks. free_ok st tag sp m ks)"

lemma head_apart: "j \<noteq> k \<Longrightarrow> 4 \<le> st \<Longrightarrow> head_at st sp j + 4 \<le> head_at st sp k \<or> head_at st sp k + 4 \<le> head_at st sp j"
  unfolding head_at_def by (rule headers_apart)

lemma head_inside: "k < unat (sp_num sp) \<Longrightarrow> sp_start sp \<le> head_at st sp k \<and> head_at st sp k + st \<le> sub_end st sp"
  unfolding head_at_def sub_end_def using header_inside [of k "unat (sp_num sp)" "sp_start sp" st] by simp

lemma head_step: "j < k \<Longrightarrow> head_at st sp j + st \<le> head_at st sp k"
  unfolding head_at_def by (rule header_inside)

lemma head_inj: "4 \<le> st \<Longrightarrow> head_at st sp j = head_at st sp k \<longleftrightarrow> j = k"
  using head_apart [of j k st sp] by force

lemma free_ok_cong:
  assumes "free_ok st tag sp m ks" "\<And>k. k < unat (sp_num sp) \<Longrightarrow> get_ptr m' (head_at st sp k) = get_ptr m (head_at st sp k)"
  shows "free_ok st tag sp m' ks"
proof -
  have ks: "set ks = {k. k < unat (sp_num sp) \<and> get_ptr m (head_at st sp k) \<noteq> tag}"
    and c: "chain m (sp_free_list sp) (map (head_at st sp) ks)" using assms(1) by (simp_all add: free_ok_def)
  have "chain m' (sp_free_list sp) (map (head_at st sp) ks)" by (rule chain_cong [OF c]) (use ks assms(2) in auto)
  moreover have "set ks = {k. k < unat (sp_num sp) \<and> get_ptr m' (head_at st sp k) \<noteq> tag}" using ks assms(2) by auto
  ultimately show ?thesis using assms(1) by (simp add: free_ok_def)
qed

lemma sub_good_cong:
  assumes "sub_good st data align tag sp m" "\<And>k. k < unat (sp_num sp) \<Longrightarrow> get_ptr m' (head_at st sp k) = get_ptr m (head_at st sp k)"
  shows "sub_good st data align tag sp m'"
  using assms free_ok_cong [of st tag sp m _ m'] unfolding sub_good_def by blast

lemma link_free_ok:
  assumes "4 \<le> st" "0 < a" "a + unat n * st < 2 ^ 32" "tag \<noteq> NULL" "\<not> (a \<le> tag \<and> tag < a + unat n * st)"
    and "link_blocks st a (a + unat n * st) NULL m = Some (p, m')"
    and "sp_start sp = a" "sp_num sp = n" "sp_available sp = n" "sp_free_list sp = p"
  shows "free_ok st tag sp m' (rev [0..<unat n])"
proof -
  have h: "head_at st sp = (\<lambda>k. a + k * st)" by (rule ext) (simp add: head_at_def assms(7))
  have c: "chain m' p (map (\<lambda>k. a + k * st) (rev [0..<unat n]))"
    using link_blocks_chain [OF assms(1-3), of 0 m NULL] assms(6) by simp
  have tags: "get_ptr m' (a + k * st) \<noteq> tag" if "k < unat n" for k
  proof -
    have "a + k * st \<in> set (map (\<lambda>k. a + k * st) (rev [0..<unat n]))" using that by auto
    from chain_next [OF c this] have "get_ptr m' (a + k * st) = NULL \<or> (\<exists>j < unat n. get_ptr m' (a + k * st) = a + j * st)" by auto
    then show ?thesis using assms(1,4,5) header_inside [of _ "unat n" a st] by fastforce
  qed
  have "{k. k < unat n \<and> get_ptr m' (a + k * st) \<noteq> tag} = {k. k < unat n}" using tags by blast
  moreover have "set (rev [0..<unat n]) = {k. k < unat n}" by auto
  ultimately have "set (rev [0..<unat n]) = {k. k < unat n \<and> get_ptr m' (a + k * st) \<noteq> tag}" by (simp only:)
  then show ?thesis unfolding free_ok_def h assms(8-10) using c by simp
qed

lemma free_ok_take:
  assumes "free_ok st tag sp m ks" "sp_available sp > 0" "4 \<le> st" "tag < 2 ^ 32"
  obtains k where "k < unat (sp_num sp)" "sp_free_list sp = head_at st sp k" "sp_free_list sp \<noteq> NULL" "get_ptr m (head_at st sp k) \<noteq> tag"
    "free_ok st tag (sp\<lparr>sp_free_list := get_ptr m (sp_free_list sp), sp_available := sp_available sp - 1\<rparr>)
      (put_ptr (sp_free_list sp) tag m) (tl ks)"
proof -
  have ks: "distinct ks" "chain m (sp_free_list sp) (map (head_at st sp) ks)" "length ks = unat (sp_available sp)"
    "set ks = {k. k < unat (sp_num sp) \<and> get_ptr m (head_at st sp k) \<noteq> tag}"
    using assms(1) by (simp_all add: free_ok_def)
  have "ks \<noteq> []" using ks(3) assms(2) by (auto simp: word_less_nat_alt)
  then obtain k qs where q: "ks = k # qs" by (cases ks) auto
  let ?a = "sp_free_list sp" and ?m = "put_ptr (sp_free_list sp) tag m"
  have a: "?a = head_at st sp k" "?a \<noteq> NULL" "chain m (get_ptr m ?a) (map (head_at st sp) qs)" using ks(2) by (auto simp: q)
  have other: "get_ptr ?m (head_at st sp j) = (if j = k then tag else get_ptr m (head_at st sp j))" for j
    unfolding a(1) using head_apart [OF _ assms(3), of j k sp] assms(4) by (auto simp: get_put_same intro: get_put_other)
  have "k \<notin> set qs" using ks(1) by (simp add: q)
  then have "chain ?m (get_ptr m ?a) (map (head_at st sp) qs)" by (intro chain_cong [OF a(3)]) (auto simp: other)
  moreover have "set qs = {j. j < unat (sp_num sp) \<and> get_ptr ?m (head_at st sp j) \<noteq> tag}"
    using ks(1,4) unfolding other q by auto
  moreover have "length qs = unat (sp_available sp - 1)"
    using ks(3) assms(2) by (subst unat_minus_one) (auto simp: q)
  moreover have "head_at st (sp\<lparr>sp_free_list := x, sp_available := y\<rparr>) = head_at st sp" for x y
    by (rule ext) (simp add: head_at_def)
  ultimately have "free_ok st tag (sp\<lparr>sp_free_list := get_ptr m ?a, sp_available := sp_available sp - 1\<rparr>) ?m (tl ks)"
    using ks(1) by (simp add: free_ok_def q)
  then show ?thesis using that [of k] a(1,2) ks(4) by (auto simp: q)
qed

lemma free_ok_give:
  assumes "free_ok st tag sp m ks" "k < unat (sp_num sp)" "get_ptr m (head_at st sp k) = tag" "4 \<le> st" "head_at st sp k \<noteq> NULL"
    and "sub_end st sp < 2 ^ 32" "\<not> (sp_start sp \<le> tag \<and> tag < sub_end st sp)" "tag \<noteq> NULL"
  shows "sp_available sp < sp_num sp \<and>
    free_ok st tag (sp\<lparr>sp_free_list := head_at st sp k, sp_available := sp_available sp + 1\<rparr>)
      (put_ptr (head_at st sp k) (sp_free_list sp) m) (k # ks)"
proof -
  have ks: "distinct ks" "chain m (sp_free_list sp) (map (head_at st sp) ks)" "length ks = unat (sp_available sp)"
    "set ks = {k. k < unat (sp_num sp) \<and> get_ptr m (head_at st sp k) \<noteq> tag}"
    using assms(1) by (simp_all add: free_ok_def)
  let ?h = "head_at st sp k" and ?m = "put_ptr (head_at st sp k) (sp_free_list sp) m"
  have k: "k \<notin> set ks" using ks(4) assms(3) by simp
  have "set (k # ks) \<subseteq> {..<unat (sp_num sp)}" using ks(4) assms(2) by auto
  then have "card (set (k # ks)) \<le> unat (sp_num sp)" using card_mono [of "{..<unat (sp_num sp)}"] by fastforce
  then have len: "length ks < unat (sp_num sp)" using distinct_card [OF ks(1)] k by simp
  then have less: "sp_available sp < sp_num sp" using ks(3) by (simp add: word_less_nat_alt)
  have inc: "unat (sp_available sp + 1) = unat (sp_available sp) + 1"
  proof -
    have "unat (sp_num sp) < 2 ^ 32" using unsigned_less [of "sp_num sp"] by simp
    then show ?thesis using less by (subst unat_add_small) (simp_all add: word_less_nat_alt)
  qed
  have free: "sp_free_list sp = NULL \<or> (\<exists>j < unat (sp_num sp). sp_free_list sp = head_at st sp j)"
    using chain_head [OF ks(2)] ks(4) by (cases ks) auto
  then have free': "sp_free_list sp < 2 ^ 32" "sp_free_list sp \<noteq> tag"
    using assms(4,6-8) head_inside [of _ sp st] by fastforce+
  have other: "get_ptr ?m (head_at st sp j) = (if j = k then sp_free_list sp else get_ptr m (head_at st sp j))" for j
    using head_apart [OF _ assms(4), of j k sp] free'(1) by (auto simp: get_put_same intro: get_put_other)
  have "chain ?m (sp_free_list sp) (map (head_at st sp) ks)" by (intro chain_cong [OF ks(2)]) (use k other in auto)
  then have "chain ?m ?h (map (head_at st sp) (k # ks))" using assms(5) other [of k] by simp
  moreover have "set (k # ks) = {j. j < unat (sp_num sp) \<and> get_ptr ?m (head_at st sp j) \<noteq> tag}"
    using ks(4) assms(2) free'(2) unfolding other by auto
  moreover have "length (k # ks) = unat (sp_available sp + 1)"
    using ks(3) inc by simp
  moreover have "head_at st (sp\<lparr>sp_free_list := x, sp_available := y\<rparr>) = head_at st sp" for x y
    by (rule ext) (simp add: head_at_def)
  ultimately show ?thesis using less ks(1) k by (simp add: free_ok_def)
qed

section \<open>A new subpool\<close>

lemma first_header_place:
  assumes "sizes_fit n bs align" "mem \<noteq> NULL" "mem + unat (pool_bytes n bs align) < 2 ^ 32"
  shows "mem \<le> first_header mem align"
    "first_header mem align + unat n * unat (block_bytes bs align) \<le> mem + unat (pool_bytes n bs align)"
    "(\<exists>k < 32. align = 2 ^ k) \<Longrightarrow> unat align dvd first_header mem align + HDR_SIZE"
proof -
  let ?x = "of_nat (mem + HDR_SIZE) :: u32" and ?st = "unat (block_bytes bs align)"
  let ?r = "pool_round_up ?x align"
  note fit = sizes_fitD [OF assms(1)]
  have n: "0 < unat n" "align \<noteq> 0" using assms(1) by (auto simp: sizes_fit_def unat_gt_0)
  have "?st \<le> ?st * unat n" using n(1) by simp
  then have room: "mem + HDR_SIZE + unat align \<le> mem + unat (pool_bytes n bs align)" using fit(1,2) by linarith
  then have x: "unat ?x = mem + HDR_SIZE" using assms(3) unfolding unsigned_of_nat by (simp add: take_bit_nat_eq_self_iff)
  have r: "mem + HDR_SIZE \<le> unat ?r" "unat ?r < mem + HDR_SIZE + unat align"
    using pool_round_up_bounds [of ?x align] n(2) x room assms(3) by simp_all
  have "unat (?r - of_nat HDR_SIZE) = unat ?r - unat (of_nat HDR_SIZE :: u32)"
    by (rule unat_sub) (use r(1) in \<open>simp add: word_le_nat_alt HDR_SIZE_def\<close>)
  then have h: "first_header mem align = unat ?r - HDR_SIZE" by (simp add: first_header_def HDR_SIZE_def)
  show "mem \<le> first_header mem align" using r(1) h by simp
  show "first_header mem align + unat n * ?st \<le> mem + unat (pool_bytes n bs align)"
    using r h fit(2) by (simp add: mult.commute)
  show "unat align dvd first_header mem align + HDR_SIZE" if "\<exists>k < 32. align = 2 ^ k"
    using that pool_round_up_aligned [of align _ ?x] r(1) h by auto
qed

definition same_outside :: "ptr \<Rightarrow> nat \<Rightarrow> memory \<Rightarrow> memory \<Rightarrow> bool" where
  "same_outside a n m m' \<longleftrightarrow> (\<forall>x. x < a \<or> a + n \<le> x \<longrightarrow> m' x = m x)"

lemma subpool_init_spec:
  assumes "sizes_fit n bs align" "bp_block_size (pool s) = block_bytes bs align" "mem \<noteq> NULL"
    and "pool_bytes n bs align \<le> psize" "mem + unat psize < 2 ^ 32"
    and "subpool_at s i \<noteq> NULL" "subpool_at s i < 2 ^ 32" "subpool_at s i < mem \<or> mem + unat psize \<le> subpool_at s i"
  shows "\<exists>sp m. subpool_init i mem psize n align s = Some (set_sub i sp (s\<lparr>heap := m\<rparr>)) \<and>
    sub_good (unat (block_bytes bs align)) bs align (subpool_at s i) sp m \<and>
    (\<forall>k < unat n. get_ptr m (head_at (unat (block_bytes bs align)) sp k) \<noteq> subpool_at s i) \<and>
    sp_magic sp = SUBPOOL_MAGIC \<and> sp_owner sp = pool_at s \<and> sp_flags sp = sp_flags (sub s i) \<and> sp_num sp = n \<and>
    sp_available sp = n \<and> sp_mem sp = mem \<and> sp_start sp \<noteq> NULL \<and> same_outside mem (unat psize) (heap s) m"
proof -
  let ?st = "unat (block_bytes bs align)" and ?a = "first_header mem align" and ?t = "subpool_at s i"
  have size_le: "unat (pool_bytes n bs align) \<le> unat psize" using assms(4) by (simp add: word_le_nat_alt)
  then have fits: "mem + unat (pool_bytes n bs align) < 2 ^ 32" using assms(5) by linarith
  note place = first_header_place [OF assms(1,3) fits] and fit = sizes_fitD [OF assms(1)]
  have st: "4 \<le> ?st" using fit(1) by (simp add: HDR_SIZE_def)
  have a: "0 < ?a" "?a + unat n * ?st < 2 ^ 32" using place(1,2) assms(3) fits by linarith+
  have tag: "\<not> (?a \<le> ?t \<and> ?t < ?a + unat n * ?st)" using assms(8) place(1,2) size_le by linarith
  let ?m0 = "if psize < DEBUG_MEMSET_MAX then memcpy mem (\<lambda>_. 0xBC) (unat psize) (heap s) else heap s"
  obtain p m where l: "link_blocks ?st ?a (?a + unat n * ?st) NULL ?m0 = Some (p, m)"
    "\<forall>x. x < ?a \<or> ?a + unat n * ?st \<le> x \<longrightarrow> m x = ?m0 x"
    using link_blocks_chain [OF st a, of 0 ?m0 NULL] by auto
  define sp where "sp = (sub s i)\<lparr>sp_magic := SUBPOOL_MAGIC, sp_mem := mem, sp_start := ?a, sp_end := ?a + unat n * ?st,
    sp_num := n, sp_available := n, sp_free_list := p, sp_owner := pool_at s\<rparr>"
  have end_at: "?a + unat (block_bytes bs align * n) = ?a + unat n * ?st" using fit(3) by (simp add: mult.commute)
  have init: "subpool_init i mem psize n align s = Some (set_sub i sp (s\<lparr>heap := m\<rparr>))"
    unfolding subpool_init_def Let_def assms(2) end_at l(1) using place(1) by (simp add: check_def sp_def)
  have free: "free_ok ?st ?t sp m (rev [0..<unat n])"
    by (rule link_free_ok [OF st a assms(6) tag l(1)]) (simp_all add: sp_def)
  then have tags: "\<forall>k < unat n. get_ptr m (head_at ?st sp k) \<noteq> ?t"
  proof -
    have "set (rev [0..<unat n]) = {k. k < unat (sp_num sp) \<and> get_ptr m (head_at ?st sp k) \<noteq> ?t}"
      using free unfolding free_ok_def by blast
    then show ?thesis by (auto simp: set_eq_iff)
  qed
  have e: "sub_end ?st sp = ?a + unat n * ?st" by (simp add: sub_end_def sp_def)
  have "sub_place ?st bs align sp"
    unfolding sub_place_def e using assms(3) place a(2) by (simp add: sp_def)
  then have good: "sub_good ?st bs align ?t sp m"
    unfolding sub_good_def e using assms(6,7) tag free by (auto simp: sp_def)
  have "m x = heap s x" if "x < mem \<or> mem + unat psize \<le> x" for x
  proof -
    have "m x = ?m0 x" using l(2) that place(1,2) size_le by auto
    then show ?thesis using that by (auto simp: memcpy_other)
  qed
  then show ?thesis using init good tags a(1) by (intro exI [of _ sp] exI [of _ m]) (simp add: sp_def same_outside_def)
qed

section \<open>The pool\<close>

definition stride :: "pool_state \<Rightarrow> nat" where
  "stride s = unat (bp_block_size (pool s))"

definition in_use :: "pool_state \<Rightarrow> nat \<Rightarrow> bool" where
  "in_use s i \<longleftrightarrow> i < unat (bp_num_subpools (pool s)) \<and> sp_start (sub s i) \<noteq> NULL"

text \<open>The blocks that are out, as pairs of subpool and index, and the address a client has.\<close>

definition out_blocks :: "pool_state \<Rightarrow> (nat \<times> nat) set" where
  "out_blocks s = {(i, k). in_use s i \<and> k < unat (sp_num (sub s i)) \<and>
     get_ptr (heap s) (head_at (stride s) (sub s i) k) = subpool_at s i}"

definition block_at :: "pool_state \<Rightarrow> nat \<times> nat \<Rightarrow> ptr" where
  "block_at s b = head_at (stride s) (sub s (fst b)) (snd b) + HDR_SIZE"

definition STRUCT_SIZE :: nat where "STRUCT_SIZE = MAX_SUBPOOLS * SUBPOOL_SIZE"

definition sub_inv :: "pool_state \<Rightarrow> nat \<Rightarrow> bool" where
  "sub_inv s i \<longleftrightarrow> sp_owner (sub s i) = pool_at s \<and>
     sub_good (stride s) (bp_data_size (pool s)) (bp_align (pool s)) (subpool_at s i) (sub s i) (heap s) \<and>
     (subpools_at s + STRUCT_SIZE \<le> sp_start (sub s i) \<or> sub_end (stride s) (sub s i) \<le> subpools_at s)"

definition pool_frame :: "pool_state \<Rightarrow> bool" where
  "pool_frame s \<longleftrightarrow> pool_ok s \<and> length (bp_subpools (pool s)) = MAX_SUBPOOLS \<and>
     1 \<le> unat (bp_num_subpools (pool s)) \<and> unat (bp_num_subpools (pool s)) \<le> MAX_SUBPOOLS \<and>
     bp_block_size (pool s) = block_bytes (bp_data_size (pool s)) (bp_align (pool s)) \<and>
     HDR_SIZE + unat (bp_data_size (pool s)) \<le> stride s \<and>
     (1 < unat (bp_num_subpools (pool s)) \<longrightarrow> sizes_fit (bp_extension_blocks (pool s)) (bp_data_size (pool s)) (bp_align (pool s))) \<and>
     subpools_at s \<noteq> NULL \<and> subpools_at s + STRUCT_SIZE < 2 ^ 32 \<and> 0 < unat (bp_data_size (pool s)) \<and> 4 dvd stride s"

definition pool_inv :: "pool_state \<Rightarrow> bool" where
  "pool_inv s \<longleftrightarrow> pool_frame s \<and> in_use s 0 \<and>
     (\<forall>i < MAX_SUBPOOLS. sp_flags (sub s i) AND FLAG_EXTENSION = 0 \<and> (0 < i \<longrightarrow> sp_flags (sub s i) = 0)) \<and>
     (\<forall>i < unat (bp_num_subpools (pool s)). sp_magic (sub s i) = SUBPOOL_MAGIC \<and> (sp_start (sub s i) = NULL \<longrightarrow> sp_mem (sub s i) = NULL)) \<and>
     (\<forall>i. in_use s i \<longrightarrow> sub_inv s i) \<and>
     (\<forall>i j. in_use s i \<longrightarrow> in_use s j \<longrightarrow> i \<noteq> j \<longrightarrow>
        sub_end (stride s) (sub s i) \<le> sp_start (sub s j) \<or> sub_end (stride s) (sub s j) \<le> sp_start (sub s i))"

lemma pool_frameD:
  assumes "pool_frame s"
  shows "pool_ok s" "length (bp_subpools (pool s)) = MAX_SUBPOOLS" "1 \<le> unat (bp_num_subpools (pool s))"
    "unat (bp_num_subpools (pool s)) \<le> MAX_SUBPOOLS" "bp_block_size (pool s) = block_bytes (bp_data_size (pool s)) (bp_align (pool s))"
    "HDR_SIZE + unat (bp_data_size (pool s)) \<le> stride s" "4 \<le> stride s"
    "1 < unat (bp_num_subpools (pool s)) \<Longrightarrow> sizes_fit (bp_extension_blocks (pool s)) (bp_data_size (pool s)) (bp_align (pool s))"
    "subpools_at s \<noteq> NULL" "subpools_at s + STRUCT_SIZE < 2 ^ 32" "0 < unat (bp_data_size (pool s))" "4 dvd stride s"
  using assms by (auto simp: pool_frame_def HDR_SIZE_def)

lemma pool_invD:
  assumes "pool_inv s"
  shows "pool_frame s" "in_use s 0"
    "i < MAX_SUBPOOLS \<Longrightarrow> sp_flags (sub s i) AND FLAG_EXTENSION = 0" "0 < i \<Longrightarrow> i < MAX_SUBPOOLS \<Longrightarrow> sp_flags (sub s i) = 0"
    "i < unat (bp_num_subpools (pool s)) \<Longrightarrow> sp_magic (sub s i) = SUBPOOL_MAGIC"
    "i < unat (bp_num_subpools (pool s)) \<Longrightarrow> sp_start (sub s i) = NULL \<Longrightarrow> sp_mem (sub s i) = NULL"
    "in_use s i \<Longrightarrow> sub_inv s i"
    "in_use s i \<Longrightarrow> in_use s j \<Longrightarrow> i \<noteq> j \<Longrightarrow>
       sub_end (stride s) (sub s i) \<le> sp_start (sub s j) \<or> sub_end (stride s) (sub s j) \<le> sp_start (sub s i)"
  using assms unfolding pool_inv_def by blast+

lemma sub_invD:
  assumes "sub_inv s i"
  shows "sp_owner (sub s i) = pool_at s"
    "sub_good (stride s) (bp_data_size (pool s)) (bp_align (pool s)) (subpool_at s i) (sub s i) (heap s)"
    "subpools_at s + STRUCT_SIZE \<le> sp_start (sub s i) \<or> sub_end (stride s) (sub s i) \<le> subpools_at s"
  using assms unfolding sub_inv_def by blast+

lemma subpool_at_place:
  assumes "i < MAX_SUBPOOLS"
  shows "subpools_at s \<le> subpool_at s i" "subpool_at s i < subpools_at s + STRUCT_SIZE"
  using assms by (simp_all add: subpool_at_def STRUCT_SIZE_def SUBPOOL_SIZE_def)

lemma subpool_of_at: "i < MAX_SUBPOOLS \<Longrightarrow> subpool_of s (subpool_at s i) = Some i"
  unfolding subpool_of_def find_Some_iff by (intro exI [of _ i]) (auto simp: subpool_at_def SUBPOOL_SIZE_def)

lemma set_sub_simps [simp]:
  "heap (set_sub i sp s) = heap s" "pool_at (set_sub i sp s) = pool_at s" "subpools_at (set_sub i sp s) = subpools_at s"
  "freed (set_sub i sp s) = freed s" "stride (set_sub i sp s) = stride s" "subpool_at (set_sub i sp s) j = subpool_at s j"
  "bp_num_subpools (pool (set_sub i sp s)) = bp_num_subpools (pool s)" "bp_data_size (pool (set_sub i sp s)) = bp_data_size (pool s)"
  "bp_align (pool (set_sub i sp s)) = bp_align (pool s)" "bp_extension_blocks (pool (set_sub i sp s)) = bp_extension_blocks (pool s)"
  "bp_block_size (pool (set_sub i sp s)) = bp_block_size (pool s)" "pool_ok (set_sub i sp s) = pool_ok s"
  "length (bp_subpools (pool (set_sub i sp s))) = length (bp_subpools (pool s))"
  by (simp_all add: set_sub_def stride_def subpool_at_def pool_ok_def)

lemma set_sub_frame [simp]: "pool_frame (set_sub i sp s) = pool_frame s"
  by (simp only: pool_frame_def set_sub_simps)

lemma sub_set_sub: "i < length (bp_subpools (pool s)) \<Longrightarrow> sub (set_sub i sp s) j = (if j = i then sp else sub s j)"
  by (auto simp: set_sub_def sub_def)

lemma freed_upd_simps [simp]: "sub (s\<lparr>freed := x\<rparr>) i = sub s i" "sub (s\<lparr>heap := m, freed := x\<rparr>) i = sub s i"
  by (simp_all add: sub_def)

lemma heap_upd_simps [simp]:
  "sub (s\<lparr>heap := m\<rparr>) i = sub s i" "stride (s\<lparr>heap := m\<rparr>) = stride s" "subpool_at (s\<lparr>heap := m\<rparr>) i = subpool_at s i"
  "in_use (s\<lparr>heap := m\<rparr>) i = in_use s i" "pool_ok (s\<lparr>heap := m\<rparr>) = pool_ok s" "pool_frame (s\<lparr>heap := m\<rparr>) = pool_frame s"
  by (simp_all add: sub_def stride_def subpool_at_def in_use_def pool_ok_def pool_frame_def)

text \<open>Changing one subpool, in its own memory, leaves the others as they are.\<close>

lemma headers_same:
  assumes "in_use s j" "k < unat (sp_num (sub s j))" "4 \<le> stride s"
    and "hi \<le> sp_start (sub s j) \<or> sub_end (stride s) (sub s j) \<le> lo" "same_outside lo (hi - lo) (heap s) m" "lo \<le> hi"
  shows "get_ptr m (head_at (stride s) (sub s j) k) = get_ptr (heap s) (head_at (stride s) (sub s j) k)"
proof (rule get_ptr_cong)
  fix x assume x: "head_at (stride s) (sub s j) k \<le> x" "x < head_at (stride s) (sub s j) k + 4"
  have "x < lo \<or> lo + (hi - lo) \<le> x" using x head_inside [OF assms(2), of "stride s"] assms(3,4,6) by linarith
  then show "m x = heap s x" using assms(5) unfolding same_outside_def by blast
qed

lemma pool_update:
  assumes "pool_inv s" "i < unat (bp_num_subpools (pool s))"
    and good: "sub_good (stride s) (bp_data_size (pool s)) (bp_align (pool s)) (subpool_at s i) sp m"
    and sp: "sp_magic sp = SUBPOOL_MAGIC" "sp_owner sp = pool_at s" "sp_flags sp = sp_flags (sub s i)" "sp_start sp \<noteq> NULL"
    and lo: "lo \<le> sp_start sp" "sub_end (stride s) sp \<le> hi" "lo \<le> hi"
    and same: "same_outside lo (hi - lo) (heap s) m"
    and apart: "\<And>j. in_use s j \<Longrightarrow> j \<noteq> i \<Longrightarrow> hi \<le> sp_start (sub s j) \<or> sub_end (stride s) (sub s j) \<le> lo"
      "hi \<le> subpools_at s \<or> subpools_at s + STRUCT_SIZE \<le> lo"
  shows "pool_inv (set_sub i sp (s\<lparr>heap := m\<rparr>))"
    "out_blocks (set_sub i sp (s\<lparr>heap := m\<rparr>)) = {b \<in> out_blocks s. fst b \<noteq> i} \<union>
       {(j, k). j = i \<and> k < unat (sp_num sp) \<and> get_ptr m (head_at (stride s) sp k) = subpool_at s i}"
proof -
  let ?t = "set_sub i sp (s\<lparr>heap := m\<rparr>)"
  note d = pool_invD [OF assms(1)]
  note f = pool_frameD [OF d(1)]
  have i: "i < length (bp_subpools (pool (s\<lparr>heap := m\<rparr>)))" using assms(2) f(2,4) by simp
  have subs: "sub ?t j = (if j = i then sp else sub s j)" for j using sub_set_sub [OF i] by simp
  have use: "in_use ?t j \<longleftrightarrow> j = i \<or> in_use s j" for j using assms(2) sp(4) by (auto simp: in_use_def subs)
  have hd: "get_ptr m (head_at (stride s) (sub s j) k) = get_ptr (heap s) (head_at (stride s) (sub s j) k)"
    if "in_use s j" "j \<noteq> i" "k < unat (sp_num (sub s j))" for j k
    by (rule headers_same [OF that(1,3) f(7) apart(1) [OF that(1,2)] same lo(3)])
  have "sub_inv ?t j" if "in_use ?t j" for j
  proof (cases "j = i")
    case True
    then show ?thesis using good sp(2) apart(2) lo by (auto simp: sub_inv_def subs)
  next
    case False
    then have j: "in_use s j" using that use by blast
    have "sub_good (stride s) (bp_data_size (pool s)) (bp_align (pool s)) (subpool_at s j) (sub s j) m"
      by (rule sub_good_cong [OF sub_invD(2) [OF d(7) [OF j]]]) (rule hd [OF j False])
    then show ?thesis using sub_invD(1,3) [OF d(7) [OF j]] False by (simp add: sub_inv_def subs)
  qed
  moreover have "sub_end (stride s) (sub ?t j) \<le> sp_start (sub ?t k) \<or> sub_end (stride s) (sub ?t k) \<le> sp_start (sub ?t j)"
    if "in_use ?t j" "in_use ?t k" "j \<noteq> k" for j k
    using that d(8) [of j k] apart(1) [of j] apart(1) [of k] lo by (auto simp: use subs)
  moreover have "pool_frame ?t" using d(1) by simp
  ultimately show "pool_inv ?t"
    unfolding pool_inv_def using d(2-6) sp(1,3) use by (auto simp: subs sp(4))
  show "out_blocks ?t = {b \<in> out_blocks s. fst b \<noteq> i} \<union>
       {(j, k). j = i \<and> k < unat (sp_num sp) \<and> get_ptr m (head_at (stride s) sp k) = subpool_at s i}"
  proof (rule set_eqI)
    fix x :: "nat \<times> nat"
    obtain a b where x: "x = (a, b)" by (cases x)
    show "x \<in> out_blocks ?t \<longleftrightarrow> x \<in> {b \<in> out_blocks s. fst b \<noteq> i} \<union>
       {(j, k). j = i \<and> k < unat (sp_num sp) \<and> get_ptr m (head_at (stride s) sp k) = subpool_at s i}"
      using hd [of a b] by (cases "a = i") (auto simp: x out_blocks_def use subs)
  qed
qed

section \<open>The operations\<close>

definition data_of :: "pool_state \<Rightarrow> nat \<times> nat \<Rightarrow> nat set" where
  "data_of s b = {block_at s b ..< block_at s b + unat (bp_data_size (pool s))}"

text \<open>What every operation leaves alone: the place of the blocks in use and the data of those that are out.\<close>

definition keeps :: "pool_state \<Rightarrow> pool_state \<Rightarrow> bool" where
  "keeps s t \<longleftrightarrow> bp_data_size (pool t) = bp_data_size (pool s) \<and> bp_align (pool t) = bp_align (pool s) \<and>
     (\<forall>i. in_use s i \<longrightarrow> in_use t i \<and> sp_num (sub t i) = sp_num (sub s i) \<and> (\<forall>k. block_at t (i, k) = block_at s (i, k))) \<and>
     (\<forall>b \<in> out_blocks s. \<forall>x \<in> data_of s b. heap t x = heap s x)"

text \<open>What \<open>vcos_malloc\<close> promises: an area away from the pool and from everything its blocks occupy.\<close>

definition malloc_ok :: "pool_state \<Rightarrow> (nat \<Rightarrow> ptr) \<Rightarrow> bool" where
  "malloc_ok s mem_for \<longleftrightarrow>
     (let n = unat (pool_bytes (bp_extension_blocks (pool s)) (bp_data_size (pool s)) (bp_align (pool s)))
      in \<forall>i < MAX_SUBPOOLS. mem_for i \<noteq> NULL \<longrightarrow> mem_for i + n < 2 ^ 32 \<and>
           (mem_for i + n \<le> subpools_at s \<or> subpools_at s + STRUCT_SIZE \<le> mem_for i) \<and>
           (\<forall>j < MAX_SUBPOOLS. in_use s j \<longrightarrow> mem_for i + n \<le> sp_start (sub s j) \<or> sub_end (stride s) (sub s j) \<le> mem_for i))"

lemma in_use_less: "pool_inv s \<Longrightarrow> in_use s i \<Longrightarrow> i < unat (bp_num_subpools (pool s)) \<and> i < MAX_SUBPOOLS"
  using pool_frameD(4) [OF pool_invD(1)] unfolding in_use_def by fastforce

lemma out_blocksD:
  assumes "b \<in> out_blocks s"
  shows "in_use s (fst b)" "snd b < unat (sp_num (sub s (fst b)))"
    "get_ptr (heap s) (head_at (stride s) (sub s (fst b)) (snd b)) = subpool_at s (fst b)"
  using assms by (auto simp: out_blocks_def)

lemma data_place:
  assumes "pool_inv s" "b \<in> out_blocks s" "x \<in> data_of s b"
  shows "head_at (stride s) (sub s (fst b)) (snd b) + 4 \<le> x" "x < head_at (stride s) (sub s (fst b)) (snd b) + stride s"
    "sp_start (sub s (fst b)) \<le> x" "x < sub_end (stride s) (sub s (fst b))"
proof -
  note f = pool_frameD [OF pool_invD(1) [OF assms(1)]]
  show 1: "head_at (stride s) (sub s (fst b)) (snd b) + 4 \<le> x" "x < head_at (stride s) (sub s (fst b)) (snd b) + stride s"
    using assms(3) f(6) by (simp_all add: data_of_def block_at_def HDR_SIZE_def)
  show "sp_start (sub s (fst b)) \<le> x" "x < sub_end (stride s) (sub s (fst b))"
    using 1 head_inside [OF out_blocksD(2) [OF assms(2)], of "stride s"] by linarith+
qed

lemma extend_from_spec:
  assumes "pool_inv s" "malloc_ok s mem_for" "\<And>i. i \<in> set is \<Longrightarrow> 0 < i \<and> i < unat (bp_num_subpools (pool s))"
  shows "\<exists>r t. extend_from mem_for is s = Some (r, t) \<and> pool_inv t \<and> out_blocks t = out_blocks s \<and> keeps s t \<and> freed t = freed s \<and>
    (case r of None \<Rightarrow> t = s \<and> (\<forall>i \<in> set is. sp_start (sub s i) = NULL \<longrightarrow> mem_for i = NULL)
     | Some i \<Rightarrow> in_use t i \<and> sp_available (sub t i) > 0)"
  using assms(3)
proof (induction "is")
  case Nil
  then show ?case using assms(1) by (simp add: keeps_def)
next
  case (Cons i "is")
  show ?case
  proof (cases "sp_start (sub s i) = NULL \<and> mem_for i \<noteq> NULL")
    case False
    then have e: "extend_from mem_for (i # is) s = extend_from mem_for is s" by (simp only: extend_from.simps if_False)
    obtain r t where "extend_from mem_for is s = Some (r, t)" "pool_inv t" "out_blocks t = out_blocks s" "keeps s t" "freed t = freed s"
      "case r of None \<Rightarrow> t = s \<and> (\<forall>i \<in> set is. sp_start (sub s i) = NULL \<longrightarrow> mem_for i = NULL)
        | Some i \<Rightarrow> in_use t i \<and> sp_available (sub t i) > 0"
      using Cons by auto
    then show ?thesis unfolding e using False by (cases r) auto
  next
    case True
    let ?n = "bp_extension_blocks (pool s)" and ?d = "bp_data_size (pool s)" and ?al = "bp_align (pool s)"
    let ?size = "pool_bytes ?n ?d ?al" and ?mem = "mem_for i"
    note d = pool_invD [OF assms(1)]
    note f = pool_frameD [OF d(1)]
    have i: "0 < i" "i < unat (bp_num_subpools (pool s))" "i < MAX_SUBPOOLS" using Cons.prems [of i] f(4) by auto
    have fit: "sizes_fit ?n ?d ?al" using f(8) i by linarith
    have ok: "?mem + unat ?size < 2 ^ 32" "?mem + unat ?size \<le> subpools_at s \<or> subpools_at s + STRUCT_SIZE \<le> ?mem"
      "\<And>j. in_use s j \<Longrightarrow> ?mem + unat ?size \<le> sp_start (sub s j) \<or> sub_end (stride s) (sub s j) \<le> ?mem"
      using assms(2) True i(3) in_use_less [OF assms(1)] unfolding malloc_ok_def Let_def by blast+
    note at = subpool_at_place [OF i(3), of s]
    have st: "unat (block_bytes ?d ?al) = stride s" by (simp add: stride_def f(5))
    obtain sp m where sp: "subpool_init i ?mem ?size ?n ?al s = Some (set_sub i sp (s\<lparr>heap := m\<rparr>))"
      "sub_good (stride s) ?d ?al (subpool_at s i) sp m" "\<forall>k < unat ?n. get_ptr m (head_at (stride s) sp k) \<noteq> subpool_at s i"
      "sp_magic sp = SUBPOOL_MAGIC" "sp_owner sp = pool_at s" "sp_flags sp = sp_flags (sub s i)" "sp_num sp = ?n"
      "sp_available sp = ?n" "sp_mem sp = ?mem" "sp_start sp \<noteq> NULL" "same_outside ?mem (unat ?size) (heap s) m"
      using subpool_init_spec [OF fit f(5) _ order_refl ok(1), of i, unfolded st] True ok(2) at f(9,10) by auto
    let ?t = "set_sub i sp (s\<lparr>heap := m\<rparr>)"
    have place: "?mem \<le> sp_start sp" "sub_end (stride s) sp \<le> ?mem + unat ?size"
      using sp(2,7,9) by (auto simp: sub_good_def sub_place_def)
    have same: "same_outside ?mem (?mem + unat ?size - ?mem) (heap s) m" using sp(11) by simp
    note up = pool_update [OF assms(1) i(2) sp(2,4-6,10) place(1,2) _ same ok(3,2)]
    have il: "i < length (bp_subpools (pool (s\<lparr>heap := m\<rparr>)))" using i(3) f(2) by simp
    have subs: "sub ?t j = (if j = i then sp else sub s j)" for j using sub_set_sub [OF il] by simp
    have notin: "\<not> in_use s i" using True by (simp add: in_use_def)
    have out: "out_blocks ?t = out_blocks s"
      using up(2) sp(3,7) notin by (auto simp: out_blocks_def)
    have use: "in_use ?t j \<longleftrightarrow> j = i \<or> in_use s j" for j using i(2) sp(10) by (auto simp: in_use_def subs)
    have "m x = heap s x" if "b \<in> out_blocks s" "x \<in> data_of s b" for b x
    proof -
      have "x < ?mem \<or> ?mem + unat ?size \<le> x"
        using data_place(3,4) [OF assms(1) that] ok(3) [OF out_blocksD(1) [OF that(1)]] by linarith
      then show ?thesis using sp(11) unfolding same_outside_def by blast
    qed
    then have keeps: "keeps s ?t" unfolding keeps_def using notin by (auto simp: use block_at_def subs)
    have e: "extend_from mem_for (i # is) s = Some (Some i, ?t)" using True sp(1) by (simp add: Let_def)
    have pos: "?n > 0" using fit by (simp add: sizes_fit_def)
    have "in_use ?t i \<and> sp_available (sub ?t i) > 0" using use subs sp(8) pos by simp
    then show ?thesis using e up(1) out keeps by (intro exI [of _ "Some i"] exI [of _ ?t]) simp
  qed
qed

lemma select_subpool_spec:
  assumes "pool_inv s" "malloc_ok s mem_for"
  shows "\<exists>r t. select_subpool mem_for s = Some (r, t) \<and> pool_inv t \<and> out_blocks t = out_blocks s \<and> keeps s t \<and> freed t = freed s \<and>
    (case r of None \<Rightarrow> t = s \<and> (\<forall>i < unat (bp_num_subpools (pool s)). \<not> has_free s i \<and> (sp_start (sub s i) = NULL \<longrightarrow> mem_for i = NULL))
     | Some i \<Rightarrow> in_use t i \<and> sp_available (sub t i) > 0)"
proof (cases "find (has_free s) [0..<unat (bp_num_subpools (pool s))]")
  case (Some i)
  then have "in_use s i" "sp_available (sub s i) > 0" by (auto simp: find_Some_iff has_free_def in_use_def)
  then show ?thesis unfolding select_subpool_def Some using assms(1) by (simp add: keeps_def)
next
  case None
  then have none: "\<not> has_free s i" if "i < unat (bp_num_subpools (pool s))" for i using that by (auto simp: find_None_iff)
  have zero: "sp_start (sub s 0) \<noteq> NULL" using pool_invD(2) [OF assms(1)] by (simp add: in_use_def)
  obtain r t where *: "extend_from mem_for [1..<unat (bp_num_subpools (pool s))] s = Some (r, t)" "pool_inv t"
    "out_blocks t = out_blocks s" "keeps s t" "freed t = freed s"
    "case r of None \<Rightarrow> t = s \<and> (\<forall>i \<in> set [1..<unat (bp_num_subpools (pool s))]. sp_start (sub s i) = NULL \<longrightarrow> mem_for i = NULL)
     | Some i \<Rightarrow> in_use t i \<and> sp_available (sub t i) > 0"
    using extend_from_spec [OF assms, of "[1..<unat (bp_num_subpools (pool s))]"] by auto
  have "mem_for i = NULL" if "r = None" "i < unat (bp_num_subpools (pool s))" "sp_start (sub s i) = NULL" for i
    using * that zero by (cases "i = 0") auto
  then show ?thesis unfolding select_subpool_def None using * none by (cases r) auto
qed

text \<open>Taking or giving back block \<open>k\<close> of subpool \<open>i\<close> writes its header and the record of the subpool.\<close>

lemma header_update:
  assumes "pool_inv s" "in_use s i" "k < unat (sp_num (sub s i))" "p < 2 ^ 32"
    and sp': "sp' = (sub s i)\<lparr>sp_free_list := x, sp_available := y\<rparr>"
    and m': "m = put_ptr (head_at (stride s) (sub s i) k) p (heap s)"
    and free: "free_ok (stride s) (subpool_at s i) sp' m ks"
  shows "pool_inv (set_sub i sp' (s\<lparr>heap := m\<rparr>))" "keeps s (set_sub i sp' (s\<lparr>heap := m\<rparr>))"
    "out_blocks (set_sub i sp' (s\<lparr>heap := m\<rparr>)) = out_blocks s - {(i, k)} \<union> (if p = subpool_at s i then {(i, k)} else {})"
proof -
  let ?sp = "sub s i" and ?st = "stride s" and ?t = "subpool_at s i" and ?s = "set_sub i sp' (s\<lparr>heap := m\<rparr>)"
  let ?h = "head_at ?st ?sp k"
  note d = pool_invD [OF assms(1)]
  note f = pool_frameD [OF d(1)]
  note g = sub_invD [OF d(7) [OF assms(2)]]
  note i = in_use_less [OF assms(1,2)]
  have ends: "sub_end ?st sp' = sub_end ?st ?sp" "head_at ?st sp' = head_at ?st ?sp" "sp_num sp' = sp_num ?sp"
    by (simp_all add: sub_end_def head_at_def fun_eq_iff sp')
  have good: "sub_good ?st (bp_data_size (pool s)) (bp_align (pool s)) ?t sp' m"
    using g(2) free unfolding sub_good_def sub_place_def ends by (auto simp: sp')
  note inside = head_inside [OF assms(3), of ?st]
  have m: "m x = heap s x" if "x < ?h \<or> ?h + 4 \<le> x" for x unfolding m' using that by (rule put_ptr_other)
  have same: "same_outside (sp_start ?sp) (sub_end ?st ?sp - sp_start ?sp) (heap s) m"
    unfolding same_outside_def using m inside f(7) by auto
  note up = pool_update [OF assms(1) conjunct1 [OF i] good, where lo = "sp_start ?sp" and hi = "sub_end ?st ?sp"]
  have up: "pool_inv ?s" "out_blocks ?s = {b \<in> out_blocks s. fst b \<noteq> i} \<union>
       {(j, k). j = i \<and> k < unat (sp_num sp') \<and> get_ptr m (head_at ?st sp' k) = ?t}"
    using up [OF _ _ _ _ _ _ _ same] d(5) [OF conjunct1 [OF i]] g(1,3) d(8) [OF assms(2)] assms(2) inside ends
    by (auto simp: in_use_def sp')
  then show "pool_inv ?s" by blast
  have hd: "get_ptr m (head_at ?st ?sp j) = (if j = k then p else get_ptr (heap s) (head_at ?st ?sp j))" for j
    unfolding m' using head_apart [OF _ f(7), of j k ?sp] assms(4) by (auto simp: get_put_same intro: get_put_other)
  show "out_blocks ?s = out_blocks s - {(i, k)} \<union> (if p = ?t then {(i, k)} else {})"
    unfolding up(2) ends hd using assms(2,3) by (auto simp: out_blocks_def split: if_splits)
  have il: "i < length (bp_subpools (pool (s\<lparr>heap := m\<rparr>)))" using i f(2) by simp
  have subs: "sub ?s j = (if j = i then sp' else sub s j)" for j using sub_set_sub [OF il] by simp
  have "m x = heap s x" if "b \<in> out_blocks s" "x \<in> data_of s b" for b x
  proof (cases "fst b = i")
    case True
    then have "head_at ?st ?sp (snd b) + 4 \<le> x" "x < head_at ?st ?sp (snd b) + ?st"
      using data_place(1,2) [OF assms(1) that] by simp_all
    then have "x < ?h \<or> ?h + 4 \<le> x"
      using head_step [of "snd b" k ?st ?sp] head_step [of k "snd b" ?st ?sp] f(7)
      by (cases "snd b" k rule: linorder_cases) auto
    then show ?thesis by (rule m)
  next
    case False
    then show ?thesis using m [of x] data_place(3,4) [OF assms(1) that] d(8) [OF assms(2) out_blocksD(1) [OF that(1)]] inside f(7) by fastforce
  qed
  then show "keeps s ?s"
    using i assms(2) by (auto simp: keeps_def in_use_def subs block_at_def ends) (simp_all add: sp')
qed

lemma take_block_spec:
  assumes "pool_inv s" "in_use s i" "sp_available (sub s i) > 0"
  shows "\<exists>k t. take_block i s = Some (block_at s (i, k), t) \<and> (i, k) \<notin> out_blocks s \<and> pool_inv t \<and> out_blocks t = insert (i, k) (out_blocks s) \<and>
    keeps s t \<and> freed t = freed s"
proof -
  let ?sp = "sub s i" and ?st = "stride s" and ?t = "subpool_at s i"
  note d = pool_invD [OF assms(1)]
  note f = pool_frameD [OF d(1)] and g = sub_invD(2) [OF d(7) [OF assms(2)]]
  have good: "sp_end ?sp = sub_end ?st ?sp" "?t < 2 ^ 32" using g unfolding sub_good_def sub_place_def by blast+
  obtain ks where "free_ok ?st ?t ?sp (heap s) ks" using g unfolding sub_good_def by blast
  then obtain k where k: "k < unat (sp_num ?sp)" "sp_free_list ?sp = head_at ?st ?sp k" "sp_free_list ?sp \<noteq> NULL"
    "get_ptr (heap s) (head_at ?st ?sp k) \<noteq> ?t"
    "free_ok ?st ?t (?sp\<lparr>sp_free_list := get_ptr (heap s) (sp_free_list ?sp), sp_available := sp_available ?sp - 1\<rparr>)
      (put_ptr (sp_free_list ?sp) ?t (heap s)) (tl ks)"
    using free_ok_take [OF _ assms(3) f(7) good(2)] by blast
  note up = header_update [OF assms(1,2) k(1) good(2) refl refl k(5) [unfolded k(2)], unfolded k(2) [symmetric]]
  let ?s = "set_sub i (?sp\<lparr>sp_free_list := get_ptr (heap s) (sp_free_list ?sp), sp_available := sp_available ?sp - 1\<rparr>)
    (s\<lparr>heap := put_ptr (sp_free_list ?sp) ?t (heap s)\<rparr>)"
  have "head_at ?st ?sp k + HDR_SIZE > sp_start ?sp \<and> head_at ?st ?sp k + HDR_SIZE < sp_end ?sp"
    using head_inside [OF k(1), of ?st] f(6,11) good(1) by (simp add: HDR_SIZE_def)
  then have "take_block i s = Some (block_at s (i, k), ?s)"
    unfolding take_block_def Let_def using k(2,3) by (simp add: check_def block_at_def)
  moreover have "(i, k) \<notin> out_blocks s" using k(4) by (simp add: out_blocks_def)
  ultimately show ?thesis using up by (intro exI [of _ k] exI [of _ ?s]) simp
qed

lemma blockpool_alloc_spec:
  assumes "pool_inv s" "malloc_ok s mem_for"
  shows "\<exists>a t. blockpool_alloc mem_for s = Some (a, t) \<and> pool_inv t \<and> keeps s t \<and> freed t = freed s \<and>
    (a = NULL \<and> out_blocks t = out_blocks s \<and>
       (\<forall>i < unat (bp_num_subpools (pool s)). \<not> has_free s i \<and> (sp_start (sub s i) = NULL \<longrightarrow> mem_for i = NULL)) \<or>
     (\<exists>b. b \<notin> out_blocks s \<and> a = block_at t b \<and> a \<noteq> NULL \<and> out_blocks t = insert b (out_blocks s)))"
proof -
  have ok: "pool_ok s" by (rule pool_frameD(1) [OF pool_invD(1) [OF assms(1)]])
  obtain r t where *: "select_subpool mem_for s = Some (r, t)" "pool_inv t" "out_blocks t = out_blocks s" "keeps s t" "freed t = freed s"
    "case r of None \<Rightarrow> t = s \<and> (\<forall>i < unat (bp_num_subpools (pool s)). \<not> has_free s i \<and> (sp_start (sub s i) = NULL \<longrightarrow> mem_for i = NULL))
     | Some i \<Rightarrow> in_use t i \<and> sp_available (sub t i) > 0"
    using select_subpool_spec [OF assms] by blast
  show ?thesis
  proof (cases r)
    case None
    then have "blockpool_alloc mem_for s = Some (NULL, t)" unfolding blockpool_alloc_def using ok *(1) by (simp add: check_def)
    then show ?thesis using * None by auto
  next
    case (Some i)
    then have i: "in_use t i" "sp_available (sub t i) > 0" using *(6) by simp_all
    obtain k u where u: "take_block i t = Some (block_at t (i, k), u)" "(i, k) \<notin> out_blocks t" "pool_inv u"
      "out_blocks u = insert (i, k) (out_blocks t)" "keeps t u" "freed u = freed t"
      using take_block_spec [OF *(2) i] by blast
    have e: "blockpool_alloc mem_for s = Some (block_at t (i, k), u)"
      unfolding blockpool_alloc_def using ok *(1) Some u(1) by (simp add: check_def)
    have at: "block_at u (i, k) = block_at t (i, k)" using u(5) i(1) by (simp add: keeps_def)
    have "data_of t b = data_of s b" if "b \<in> out_blocks s" for b
      using *(4) out_blocksD(1) [OF that] by (cases b) (simp add: keeps_def data_of_def)
    then have "keeps s u" using *(3,4) u(5) unfolding keeps_def by (auto simp: data_of_def)
    moreover have "block_at t (i, k) \<noteq> NULL" by (simp add: block_at_def HDR_SIZE_def)
    moreover have "\<exists>b. b \<notin> out_blocks s \<and> block_at t (i, k) = block_at u b \<and> block_at t (i, k) \<noteq> NULL \<and> out_blocks u = insert b (out_blocks s)"
      using u(2,4) *(3) at calculation(2) by (intro exI [of _ "(i, k)"]) simp
    ultimately show ?thesis using e u * by (intro exI [of _ "block_at t (i, k)"] exI [of _ u]) auto
  qed
qed

text \<open>The subpool that the header of a block that is out names.\<close>

lemma owner_of_out:
  assumes "pool_inv s" "b \<in> out_blocks s"
  shows "owner_of s (block_at s b) = Some (fst b)"
proof -
  note d = pool_invD [OF assms(1)] and o = out_blocksD [OF assms(2)]
  note i = in_use_less [OF assms(1) o(1)]
  have "block_at s b - HDR_SIZE = head_at (stride s) (sub s (fst b)) (snd b)" by (simp add: block_at_def)
  moreover have "subpool_ok (sub s (fst b))"
    using d(5) [OF conjunct1 [OF i]] sub_invD(2) [OF d(7) [OF o(1)]] by (simp add: subpool_ok_def sub_good_def sub_place_def)
  ultimately show ?thesis
    unfolding owner_of_def using o(3) subpool_of_at [OF conjunct2 [OF i], of s] sub_invD(1) [OF d(7) [OF o(1)]] pool_frameD(1) [OF d(1)]
    by (simp add: check_def)
qed

lemma blockpool_free_spec:
  assumes "pool_inv s" "b \<in> out_blocks s"
  shows "\<exists>t. blockpool_free (block_at s b) s = Some t \<and> pool_inv t \<and> keeps s t \<and> freed t = freed s \<and>
    out_blocks t = out_blocks s - {b}"
proof -
  obtain i k where b: "b = (i, k)" by (cases b)
  note o = out_blocksD [OF assms(2), unfolded b fst_conv snd_conv]
  let ?sp = "sub s i" and ?st = "stride s" and ?t = "subpool_at s i"
  let ?h = "head_at ?st ?sp k"
  note d = pool_invD [OF assms(1)] and i = in_use_less [OF assms(1) o(1)]
  note f = pool_frameD [OF d(1)] and g = sub_invD(2) [OF d(7) [OF o(1)]]
  have good: "sub_end ?st ?sp < 2 ^ 32" "\<not> (sp_start ?sp \<le> ?t \<and> ?t < sub_end ?st ?sp)" "?t \<noteq> NULL" "sp_mem ?sp \<le> sp_start ?sp" "sp_mem ?sp \<noteq> NULL"
    using g unfolding sub_good_def sub_place_def by blast+
  obtain ks where ks: "free_ok ?st ?t ?sp (heap s) ks" using g unfolding sub_good_def by blast
  have h: "?h \<noteq> NULL" "?h < sub_end ?st ?sp" "sp_start ?sp \<le> ?h" using head_inside [OF o(2), of ?st] good(4,5) f(7) by linarith+
  note give = free_ok_give [OF ks o(2,3) f(7) h(1) good(1-3)]
  have p: "sp_free_list ?sp < 2 ^ 32" "sp_free_list ?sp \<noteq> ?t"
  proof -
    have c: "chain (heap s) (sp_free_list ?sp) (map (head_at ?st ?sp) ks)" "set ks \<subseteq> {k. k < unat (sp_num ?sp)}"
      using ks unfolding free_ok_def by blast+
    have "sp_free_list ?sp = NULL \<or> (\<exists>j < unat (sp_num ?sp). sp_free_list ?sp = head_at ?st ?sp j)"
      using chain_head [OF c(1)] c(2) by (cases ks) auto
    then show "sp_free_list ?sp < 2 ^ 32" "sp_free_list ?sp \<noteq> ?t"
      using good(1-3) head_inside [of _ ?sp ?st] f(7) by fastforce+
  qed
  note up = header_update [OF assms(1) o(1,2) p(1) refl refl conjunct2 [OF give]]
  let ?s = "set_sub i (?sp\<lparr>sp_free_list := ?h, sp_available := sp_available ?sp + 1\<rparr>) (s\<lparr>heap := put_ptr ?h (sp_free_list ?sp) (heap s)\<rparr>)"
  have at: "block_at s (i, k) - HDR_SIZE = ?h" "block_at s (i, k) \<noteq> NULL" by (simp_all add: block_at_def HDR_SIZE_def)
  have "sp_flags (sub ?s i) AND FLAG_EXTENSION = 0" by (rule pool_invD(3) [OF up(1) conjunct2 [OF i]])
  then have r: "release_if_empty i ?s = ?s" by (simp add: release_if_empty_def)
  have "blockpool_free (block_at s b) s = Some ?s"
    unfolding blockpool_free_def Let_def b at(1) using at(2) owner_of_out [OF assms, unfolded b] give r by (simp add: check_def)
  then show ?thesis using up p(2) by (intro exI [of _ ?s]) (simp add: b)
qed

section \<open>Setting a pool up\<close>

definition place_ok :: "pool_state \<Rightarrow> ptr \<Rightarrow> nat \<Rightarrow> bool" where
  "place_ok s mem n \<longleftrightarrow> subpools_at s \<noteq> NULL \<and> subpools_at s + STRUCT_SIZE < 2 ^ 32 \<and> mem + n < 2 ^ 32 \<and>
     (mem + n \<le> subpools_at s \<or> subpools_at s + STRUCT_SIZE \<le> mem)"

definition real_align :: "u32 \<Rightarrow> u32" where
  "real_align align = (if align = 0 then ALIGN_DEFAULT else align)"

lemma blockpool_init_spec:
  assumes "blockpool_init n bs mem psize align s0 = Some (VCOS_SUCCESS, s)" "sizes_fit n bs (real_align align)"
    and "place_ok s0 mem (unat psize)"
  shows "pool_inv s" "out_blocks s = {}" "sp_num (sub s 0) = n" "has_free s 0"
proof -
  let ?al = "real_align align"
  let ?s1 = "s0\<lparr>pool := \<lparr>bp_magic = BLOCKPOOL_MAGIC, bp_align = ?al, bp_data_size = bs,
         bp_block_size = block_bytes bs ?al, bp_num_subpools = 1, bp_extension_blocks = 0,
         bp_subpools = replicate MAX_SUBPOOLS zero_subpool\<rparr>\<rparr>"
  have pre: "mem \<noteq> NULL" "bs > 0" "pool_bytes n bs ?al \<le> psize" "?al AND 3 = 0" and init: "subpool_init 0 mem psize n ?al ?s1 = Some s"
    using assms(1) unfolding blockpool_init_def check_def real_align_def [symmetric]
    by (auto split: if_splits simp: Let_def Option.bind_eq_Some_conv)
  note p = assms(3) [unfolded place_ok_def]
  have al0: "?al \<noteq> 0" using assms(2) by (simp add: sizes_fit_def)
  have at: "subpool_at ?s1 0 = subpools_at s0" by (simp add: subpool_at_def)
  have zeros: "sub ?s1 i = zero_subpool" if "i < MAX_SUBPOOLS" for i using that by (simp add: sub_def)
  have max: "0 < MAX_SUBPOOLS" "0 < STRUCT_SIZE" by (simp_all add: MAX_SUBPOOLS_def STRUCT_SIZE_def SUBPOOL_SIZE_def)
  have flags0: "sp_flags (sub ?s1 0) = 0" unfolding zeros [OF max(1)] by (simp add: zero_subpool_def)
  have size: "bp_block_size (pool ?s1) = block_bytes bs ?al" by simp
  note spec = subpool_init_spec [OF assms(2) size pre(1,3), of 0, unfolded at init]
  obtain sp m where sp: "s = set_sub 0 sp (?s1\<lparr>heap := m\<rparr>)"
    "sub_good (unat (block_bytes bs ?al)) bs ?al (subpools_at s0) sp m"
    "\<forall>k < unat n. get_ptr m (head_at (unat (block_bytes bs ?al)) sp k) \<noteq> subpools_at s0"
    "sp_magic sp = SUBPOOL_MAGIC" "sp_owner sp = pool_at s0" "sp_flags sp = 0" "sp_num sp = n" "sp_mem sp = mem" "sp_start sp \<noteq> NULL" "sp_available sp = n"
    using spec p max flags0 by auto
  have subs: "sub s j = (if j = 0 then sp else sub ?s1 j)" for j unfolding sp(1) by (subst sub_set_sub) (use max in simp_all)
  have num: "bp_num_subpools (pool s) = 1" "stride s = unat (block_bytes bs ?al)" by (simp_all add: sp(1) stride_def)
  have use: "in_use s i \<longleftrightarrow> i = 0" for i using sp(9) by (auto simp: in_use_def num subs)
  have place: "mem \<le> sp_start sp" "sub_end (stride s) sp \<le> mem + unat (pool_bytes n bs ?al)"
    using sp(2,7,8) by (auto simp: sub_good_def sub_place_def num)
  have "unat (pool_bytes n bs ?al) \<le> unat psize" using pre(3) by (simp add: word_le_nat_alt)
  then have away: "subpools_at s + STRUCT_SIZE \<le> sp_start sp \<or> sub_end (stride s) sp \<le> subpools_at s"
    using place p by (auto simp: sp(1))
  have "sub_inv s 0"
    unfolding sub_inv_def using sp(2,5) away by (simp add: subs num(2)) (simp add: sp(1) at)
  moreover have "pool_frame s"
    using p pre(2) sizes_fitD(1) [OF assms(2)] max pool_round_up_mod4 [OF pre(4) al0] unfolding pool_frame_def num pool_ok_def
    by (simp add: sp(1) set_sub_def unat_gt_0 MAX_SUBPOOLS_def block_bytes_def)
  ultimately show "pool_inv s"
    unfolding pool_inv_def using sp(4,6,9) zeros max by (auto simp: use num subs zero_subpool_def)
  show "sp_num (sub s 0) = n" "has_free s 0" using assms(2) by (simp_all add: subs sp(7,9,10) has_free_def sizes_fit_def)
  have "heap s = m" "subpool_at s 0 = subpools_at s0" by (simp_all add: sp(1) at)
  then show "out_blocks s = {}" using sp(3,7) by (auto simp: out_blocks_def use num subs)
qed

lemma flags_inv:
  assumes "pool_inv s"
  shows "pool_inv (set_sub 0 ((sub s 0)\<lparr>sp_flags := sp_flags (sub s 0) OR FLAG_OWNS_MEM\<rparr>) s)"
    "out_blocks (set_sub 0 ((sub s 0)\<lparr>sp_flags := sp_flags (sub s 0) OR FLAG_OWNS_MEM\<rparr>) s) = out_blocks s"
proof -
  let ?sp = "(sub s 0)\<lparr>sp_flags := sp_flags (sub s 0) OR FLAG_OWNS_MEM\<rparr>"
  let ?t = "set_sub 0 ?sp s"
  note d = pool_invD [OF assms]
  note f = pool_frameD [OF d(1)]
  have max: "0 < length (bp_subpools (pool s))" using f(2) by (simp add: MAX_SUBPOOLS_def)
  have subs: "sub ?t j = (if j = 0 then ?sp else sub s j)" for j by (rule sub_set_sub [OF max])
  have ends: "sub_end st ?sp = sub_end st (sub s 0)" "head_at st ?sp = head_at st (sub s 0)" for st
    by (simp_all add: sub_end_def head_at_def fun_eq_iff)
  have good: "sub_good st da al tag ?sp m = sub_good st da al tag (sub s 0) m" for st da al tag m
    by (simp add: sub_good_def sub_place_def free_ok_def ends)
  have use: "in_use ?t j = in_use s j" for j by (simp add: in_use_def subs)
  have inv: "sub_inv ?t j" if "in_use s j" for j using d(7) [OF that] by (auto simp: sub_inv_def subs good ends)
  have "sp_flags (sub s 0) AND FLAG_EXTENSION = 0" by (rule d(3)) (simp add: MAX_SUBPOOLS_def)
  then have fl: "(sp_flags (sub s 0) OR FLAG_OWNS_MEM) AND FLAG_EXTENSION = 0"
    by (simp add: bit.conj_disj_distrib2 FLAG_OWNS_MEM_def FLAG_EXTENSION_def)
  have flags: "sp_flags (sub ?t i) AND FLAG_EXTENSION = 0 \<and> (0 < i \<longrightarrow> sp_flags (sub ?t i) = 0)" if "i < MAX_SUBPOOLS" for i
    using d(3,4) that fl by (simp add: subs)
  have mag: "sp_magic (sub ?t i) = SUBPOOL_MAGIC \<and> (sp_start (sub ?t i) = NULL \<longrightarrow> sp_mem (sub ?t i) = NULL)"
    if "i < unat (bp_num_subpools (pool s))" for i using d(5,6) that by (simp add: subs)
  have apart: "sub_end (stride s) (sub ?t i) \<le> sp_start (sub ?t j) \<or> sub_end (stride s) (sub ?t j) \<le> sp_start (sub ?t i)"
    if "in_use s i" "in_use s j" "i \<noteq> j" for i j using d(8) [OF that] that(3) by (auto simp: subs ends)
  show "pool_inv ?t" unfolding pool_inv_def using d(1,2) flags mag inv apart by (simp add: use)
  have "sp_num (sub ?t j) = sp_num (sub s j)" "head_at st (sub ?t j) = head_at st (sub s j)" for j st by (simp_all add: subs ends)
  then show "out_blocks ?t = out_blocks s" by (simp add: out_blocks_def use)
qed

abbreviation marked :: "subpool \<Rightarrow> subpool" where
  "marked sp \<equiv> sp\<lparr>sp_magic := SUBPOOL_MAGIC, sp_start := NULL, sp_mem := NULL\<rparr>"

lemma mark_fold_frame [simp]:
  "heap (fold mark_extension is s) = heap s" "pool_at (fold mark_extension is s) = pool_at s"
  "subpools_at (fold mark_extension is s) = subpools_at s" "freed (fold mark_extension is s) = freed s"
  "stride (fold mark_extension is s) = stride s" "pool_frame (fold mark_extension is s) = pool_frame s"
  "subpool_at (fold mark_extension is s) i = subpool_at s i"
  "bp_num_subpools (pool (fold mark_extension is s)) = bp_num_subpools (pool s)"
  "bp_data_size (pool (fold mark_extension is s)) = bp_data_size (pool s)"
  "bp_align (pool (fold mark_extension is s)) = bp_align (pool s)"
  by (induction "is" arbitrary: s) (simp_all add: mark_extension_def)

lemma mark_fold_sub:
  assumes "\<And>i. i \<in> set is \<Longrightarrow> i < length (bp_subpools (pool s))"
  shows "sub (fold mark_extension is s) j = (if j \<in> set is then marked (sub s j) else sub s j)"
  using assms
proof (induction "is" arbitrary: s)
  case (Cons i "is")
  have "sub (fold mark_extension is (mark_extension i s)) j =
    (if j \<in> set is then marked (sub (mark_extension i s) j) else sub (mark_extension i s) j)"
    by (rule Cons.IH) (use Cons.prems in \<open>simp add: mark_extension_def\<close>)
  moreover have "sub (mark_extension i s) j = (if j = i then marked (sub s j) else sub s j)"
    using Cons.prems [of i] by (simp add: mark_extension_def sub_set_sub)
  ultimately show ?case by auto
qed simp

lemma blockpool_extend_spec:
  assumes "pool_inv s" "blockpool_extend e n s = Some (st, t)" "sizes_fit n (bp_data_size (pool s)) (bp_align (pool s))"
  shows "pool_inv t \<and> out_blocks t = out_blocks s \<and> keeps s t \<and> freed t = freed s"
proof (cases "bp_num_subpools (pool s) > 1 \<or> e < 1 \<or> e > of_nat MAX_SUBPOOLS - 1 \<or> n < 1")
  case True
  then have "t = s" using assms(2) unfolding blockpool_extend_def check_def by (auto split: if_splits)
  then show ?thesis using assms(1) by (simp add: keeps_def)
next
  case False
  note d = pool_invD [OF assms(1)]
  note f = pool_frameD [OF d(1)]
  let ?s1 = "s\<lparr>pool := (pool s)\<lparr>bp_num_subpools := bp_num_subpools (pool s) + e, bp_extension_blocks := n\<rparr>\<rparr>"
  let ?is = "[1..<unat (bp_num_subpools (pool s) + e)]"
  have "unat (bp_num_subpools (pool s)) = 1" using False f(3) by (simp add: word_less_nat_alt not_less)
  then have one: "bp_num_subpools (pool s) = 1" by (metis unat_1 word_unat_eq_iff)
  have e: "1 \<le> unat e" "unat e \<le> 7" using False by (simp_all add: word_less_nat_alt not_less MAX_SUBPOOLS_def)
  then have num: "unat (bp_num_subpools (pool s) + e) = 1 + unat e" unfolding one by (subst unat_add_small) simp_all
  have t: "t = fold mark_extension ?is ?s1"
    using assms(2) False f(1) unfolding blockpool_extend_def check_def by (simp add: Let_def)
  have len: "length (bp_subpools (pool ?s1)) = MAX_SUBPOOLS" using f(2) by simp
  have subs1: "sub ?s1 j = sub s j" for j by (simp add: sub_def)
  have subs: "sub t j = (if 1 \<le> j \<and> j < 1 + unat e then marked (sub s j) else sub s j)" for j
    unfolding t by (subst mark_fold_sub) (use len e in \<open>auto simp: MAX_SUBPOOLS_def num subs1\<close>)
  have st: "stride t = stride s" unfolding t mark_fold_frame by (simp add: stride_def)
  have at: "subpool_at t i = subpool_at s i" for i unfolding t mark_fold_frame by (simp add: subpool_at_def)
  have use: "in_use s i \<longleftrightarrow> i = 0" for i using d(2) one by (auto simp: in_use_def)
  have use': "in_use t i \<longleftrightarrow> i = 0" for i using d(2) num by (auto simp: in_use_def subs one) (simp_all add: t num)
  have "sub_inv t 0" using d(7) [of 0] use unfolding sub_inv_def st at by (simp add: subs) (simp add: t)
  moreover have "pool_frame t"
    unfolding t mark_fold_frame using f assms(3) num e by (simp add: pool_frame_def pool_ok_def MAX_SUBPOOLS_def) (simp add: stride_def)
  moreover have "sp_flags (sub t i) AND FLAG_EXTENSION = 0 \<and> (0 < i \<longrightarrow> sp_flags (sub t i) = 0)" if "i < MAX_SUBPOOLS" for i
    using d(3,4) that by (simp add: subs)
  moreover have "sp_magic (sub t i) = SUBPOOL_MAGIC \<and> (sp_start (sub t i) = NULL \<longrightarrow> sp_mem (sub t i) = NULL)"
    if "i < unat (bp_num_subpools (pool t))" for i
  proof -
    have "i < 1 + unat e" using that by (simp add: t num)
    then show ?thesis using d(5,6) [of 0] by (cases i) (simp_all add: subs one)
  qed
  ultimately have "pool_inv t" unfolding pool_inv_def by (auto simp: use')
  moreover have "out_blocks t = out_blocks s" by (auto simp: out_blocks_def use use' st at subs) (simp_all add: t)
  moreover have "keeps s t" by (auto simp: keeps_def use use' block_at_def st subs) (simp_all add: t)
  ultimately show ?thesis by (simp add: t)
qed

section \<open>Every history of a pool\<close>

text \<open>Clients write anything but the headers of the blocks.\<close>

definition header_bytes :: "pool_state \<Rightarrow> nat set" where
  "header_bytes s = {x. \<exists>i k. in_use s i \<and> k < unat (sp_num (sub s i)) \<and> head_at (stride s) (sub s i) k \<le> x \<and>
     x < head_at (stride s) (sub s i) k + HDR_SIZE}"

inductive pool_run :: "pool_state \<Rightarrow> bool" where
  init: "blockpool_init n bs mem psize align s0 = Some (VCOS_SUCCESS, s) \<Longrightarrow> sizes_fit n bs (real_align align) \<Longrightarrow>
    place_ok s0 mem (unat psize) \<Longrightarrow> pool_run s"
| on_heap: "blockpool_create_on_heap mem n bs align s0 = Some (VCOS_SUCCESS, s) \<Longrightarrow> sizes_fit n bs (real_align align) \<Longrightarrow>
    place_ok s0 mem (unat (pool_bytes n bs align)) \<Longrightarrow> pool_run s"
| extend: "pool_run s \<Longrightarrow> blockpool_extend e n s = Some (st, t) \<Longrightarrow> sizes_fit n (bp_data_size (pool s)) (bp_align (pool s)) \<Longrightarrow> pool_run t"
| alloc: "pool_run s \<Longrightarrow> malloc_ok s mem_for \<Longrightarrow> blockpool_alloc mem_for s = Some (a, t) \<Longrightarrow> pool_run t"
| calloc: "pool_run s \<Longrightarrow> malloc_ok s mem_for \<Longrightarrow> blockpool_calloc mem_for s = Some (a, t) \<Longrightarrow> pool_run t"
| free: "pool_run s \<Longrightarrow> b \<in> out_blocks s \<Longrightarrow> blockpool_free (block_at s b) s = Some t \<Longrightarrow> pool_run t"
| client_writes: "pool_run s \<Longrightarrow> (\<And>x. x \<in> header_bytes s \<Longrightarrow> m x = heap s x) \<Longrightarrow> pool_run (s\<lparr>heap := m\<rparr>)"

lemma heap_write:
  assumes "pool_inv s" "\<And>x. x \<in> header_bytes s \<Longrightarrow> m x = heap s x"
  shows "pool_inv (s\<lparr>heap := m\<rparr>)" "out_blocks (s\<lparr>heap := m\<rparr>) = out_blocks s"
proof -
  note d = pool_invD [OF assms(1)]
  have hd: "get_ptr m (head_at (stride s) (sub s i) k) = get_ptr (heap s) (head_at (stride s) (sub s i) k)"
    if "in_use s i" "k < unat (sp_num (sub s i))" for i k
    by (rule get_ptr_cong) (use that assms(2) in \<open>auto simp: header_bytes_def HDR_SIZE_def\<close>)
  have "sub_inv (s\<lparr>heap := m\<rparr>) i" if "in_use s i" for i
  proof -
    have "sub_good (stride s) (bp_data_size (pool s)) (bp_align (pool s)) (subpool_at s i) (sub s i) m"
      by (rule sub_good_cong [OF sub_invD(2) [OF d(7) [OF that]]]) (rule hd [OF that])
    then show ?thesis using sub_invD(1,3) [OF d(7) [OF that]] by (simp add: sub_inv_def)
  qed
  then show "pool_inv (s\<lparr>heap := m\<rparr>)" using assms(1) unfolding pool_inv_def by simp
  show "out_blocks (s\<lparr>heap := m\<rparr>) = out_blocks s" using hd by (auto simp: out_blocks_def)
qed

lemma data_not_header:
  assumes "pool_inv s" "b \<in> out_blocks s" "x \<in> data_of s b"
  shows "x \<notin> header_bytes s"
proof
  assume "x \<in> header_bytes s"
  then obtain i k where h: "in_use s i" "k < unat (sp_num (sub s i))" "head_at (stride s) (sub s i) k \<le> x"
    "x < head_at (stride s) (sub s i) k + 4" by (auto simp: header_bytes_def HDR_SIZE_def)
  note d = pool_invD [OF assms(1)] and p = data_place [OF assms] and o = out_blocksD [OF assms(2)]
  note st = pool_frameD(7) [OF d(1)]
  show False
  proof (cases "i = fst b")
    case True
    then show False
      using h(3,4) p(1,2) st head_step [of k "snd b" "stride s" "sub s i"] head_step [of "snd b" k "stride s" "sub s i"]
      by (cases k "snd b" rule: linorder_cases) auto
  next
    case False
    then show False using d(8) [OF h(1) o(1)] p(3,4) h(3,4) head_inside [OF h(2), of "stride s"] st by linarith
  qed
qed

lemma pool_run_inv: "pool_run s \<Longrightarrow> pool_inv s"
proof (induction rule: pool_run.induct)
  case (init n bs mem psize align s0 s)
  then show ?case by (rule blockpool_init_spec(1))
next
  case (on_heap mem n bs align s0 s)
  then obtain s1 where s1: "blockpool_init n bs mem (pool_bytes n bs align) align s0 = Some (VCOS_SUCCESS, s1)"
    "s = set_sub 0 ((sub s1 0)\<lparr>sp_flags := sp_flags (sub s1 0) OR FLAG_OWNS_MEM\<rparr>) s1"
    unfolding blockpool_create_on_heap_def by (auto simp: Let_def Option.bind_eq_Some_conv split: if_splits)
  show ?case unfolding s1(2) by (rule flags_inv(1) [OF blockpool_init_spec(1) [OF s1(1) on_heap(2,3)]])
next
  case (extend s e n st t)
  then show ?case using blockpool_extend_spec by blast
next
  case (alloc s mem_for a t)
  then show ?case using blockpool_alloc_spec [of s mem_for] by auto
next
  case (calloc s mem_for a t)
  obtain a' u where u: "blockpool_alloc mem_for s = Some (a', u)" "pool_inv u"
    "a' = NULL \<or> (\<exists>b. a' = block_at u b \<and> b \<in> out_blocks u)" using blockpool_alloc_spec [OF calloc.IH calloc.hyps(2)] by blast
  have t: "t = (if a' \<noteq> NULL then u\<lparr>heap := memcpy a' (\<lambda>_. 0) (unat (bp_data_size (pool u))) (heap u)\<rparr> else u)"
    using calloc.hyps(3) u(1) by (auto simp: blockpool_calloc_def)
  show ?case
  proof (cases "a' = NULL")
    case True
    then show ?thesis using t u(2) by simp
  next
    case False
    then obtain b where b: "a' = block_at u b" "b \<in> out_blocks u" using u(3) by blast
    have "memcpy a' (\<lambda>_. 0) (unat (bp_data_size (pool u))) (heap u) x = heap u x" if "x \<in> header_bytes u" for x
      using data_not_header [OF u(2) b(2)] that by (auto simp: memcpy_def data_of_def b(1))
    then show ?thesis using False t heap_write(1) [OF u(2)] by simp
  qed
next
  case (free s b t)
  then show ?case using blockpool_free_spec [of s b] by auto
next
  case (client_writes s m)
  then show ?case using heap_write(1) by blast
qed

section \<open>Handles\<close>

lemma handle_subpool_take: "handle_subpool h = take_bit 3 h"
  unfolding handle_subpool_def take_bit_eq_mask by (simp add: mask_eq_exp_minus_1)

lemma handle_of_parts: "handle_create (handle_index h) (handle_subpool h) = h"
proof (rule bit_word_eqI)
  fix n assume "n < LENGTH(32)"
  then show "bit (handle_create (handle_index h) (handle_subpool h)) n = bit h n"
    by (cases "n < 3") (simp_all add: handle_create_def handle_index_def handle_subpool_take bit_simps)
qed

lemma parts_of_handle:
  assumes "unat k + 1 < 2 ^ 29" "unat i < 8"
  shows "handle_index (handle_create k i) = k" "handle_subpool (handle_create k i) = i"
proof -
  have k: "unat (k + 1) < 2 ^ 29" using assms(1) by (subst unat_add_small) simp_all
  have i: "bit i n \<Longrightarrow> n < 3" for n by (rule bit_word_less) (use assms(2) in simp_all)
  have "drop_bit 3 (handle_create k i) = k + 1"
  proof (rule bit_word_eqI)
    fix n assume "n < LENGTH(32)"
    then show "bit (drop_bit 3 (handle_create k i)) n = bit (k + 1) n"
      using i [of "n + 3"] bit_word_less [OF _ k, of n] by (auto simp: handle_create_def bit_drop_bit_eq bit_or_iff bit_push_bit_iff add.commute)
  qed
  then show "handle_index (handle_create k i) = k" by (simp add: handle_index_def)
  show "handle_subpool (handle_create k i) = i"
  proof (rule bit_word_eqI)
    fix n assume "n < LENGTH(32)"
    then show "bit (handle_subpool (handle_create k i)) n = bit i n"
      using i [of n] by (auto simp: handle_subpool_take handle_create_def bit_take_bit_iff bit_or_iff bit_push_bit_iff)
  qed
qed

lemma index_small:
  assumes "pool_inv s" "in_use s i" "k < unat (sp_num (sub s i))"
  shows "k * stride s < 2 ^ 32" "k + 1 < 2 ^ 29"
proof -
  note d = pool_invD [OF assms(1)]
  note f = pool_frameD [OF d(1)]
  have "sub_end (stride s) (sub s i) < 2 ^ 32" using sub_invD(2) [OF d(7) [OF assms(2)]] by (simp add: sub_good_def sub_place_def)
  then have e: "head_at (stride s) (sub s i) k + stride s < 2 ^ 32" using head_inside [OF assms(3), of "stride s"] by linarith
  then show "k * stride s < 2 ^ 32" by (simp add: head_at_def)
  have "stride s \<noteq> 4" using f(6,11) by (simp add: HDR_SIZE_def)
  then have "8 \<le> stride s" using f(7,12) by (auto elim!: dvdE)
  then have "(k + 1) * 8 \<le> (k + 1) * stride s" by (intro mult_le_mono2)
  also have "\<dots> < 2 ^ 32" using e by (simp add: head_at_def)
  finally show "k + 1 < 2 ^ 29" by simp
qed

lemma elem_to_handle_spec:
  assumes "pool_inv s" "b \<in> out_blocks s"
  shows "elem_to_handle (block_at s b) s = Some (handle_create (of_nat (snd b)) (of_nat (fst b)))"
proof -
  note d = pool_invD [OF assms(1)] and o = out_blocksD [OF assms(2)]
  note i = in_use_less [OF assms(1) o(1)] and small = index_small [OF assms(1) o(1,2)]
  have k: "unat (of_nat (snd b) :: u32) = snd b" "unat (of_nat (snd b * stride s) :: u32) = snd b * stride s"
    using small unfolding unsigned_of_nat by (simp_all add: take_bit_nat_eq_self_iff)
  have st: "0 < stride s" using pool_frameD(7) [OF d(1)] by simp
  have "unat (of_nat (snd b * stride s) div bp_block_size (pool s)) = snd b"
    using st unfolding unat_div k(2) by (simp add: stride_def)
  then have "of_nat (snd b * stride s) div bp_block_size (pool s) = (of_nat (snd b) :: u32)" by (simp add: word_unat_eq_iff k(1))
  moreover have "block_at s b - HDR_SIZE - sp_start (sub s (fst b)) = snd b * stride s" by (simp add: block_at_def head_at_def)
  moreover have "(of_nat (snd b) :: u32) < sp_num (sub s (fst b))" using o(2) k(1) by (simp add: word_less_nat_alt)
  moreover have "block_at s b \<noteq> NULL" by (simp add: block_at_def HDR_SIZE_def)
  ultimately show ?thesis unfolding elem_to_handle_def using owner_of_out [OF assms] i by (simp add: check_def)
qed

lemma elem_from_handle_spec:
  assumes "pool_inv s"
  shows "\<exists>a. elem_from_handle h s = Some a \<and> (a \<noteq> NULL \<longrightarrow>
    (\<exists>b \<in> out_blocks s. a = block_at s b \<and> handle_subpool h = of_nat (fst b) \<and> handle_index h = of_nat (snd b)))"
proof -
  let ?i = "unat (handle_subpool h)" and ?k = "unat (handle_index h)"
  let ?hdr = "sp_start (sub s ?i) + unat (handle_index h * bp_block_size (pool s))"
  note d = pool_invD [OF assms]
  have e: "elem_from_handle h s = Some (if ?i < unat (bp_num_subpools (pool s)) \<and> sp_magic (sub s ?i) = SUBPOOL_MAGIC \<and>
    sp_mem (sub s ?i) \<noteq> NULL \<and> handle_index h < sp_num (sub s ?i) \<and> get_ptr (heap s) ?hdr = subpool_at s ?i then ?hdr + HDR_SIZE else NULL)"
    unfolding elem_from_handle_def Let_def using pool_frameD(1) [OF d(1)] by (simp add: check_def)
  have "\<exists>b \<in> out_blocks s. ?hdr + HDR_SIZE = block_at s b \<and> handle_subpool h = of_nat (fst b) \<and> handle_index h = of_nat (snd b)"
    if "?i < unat (bp_num_subpools (pool s))" "sp_mem (sub s ?i) \<noteq> NULL" "handle_index h < sp_num (sub s ?i)"
      "get_ptr (heap s) ?hdr = subpool_at s ?i"
  proof -
    have "sp_start (sub s ?i) \<noteq> NULL" by (rule notI) (use d(6) [OF that(1)] that(2) in simp)
    then have use: "in_use s ?i" using that(1) by (simp add: in_use_def)
    have k: "?k < unat (sp_num (sub s ?i))" using that(3) by (simp add: word_less_nat_alt)
    have "unat (handle_index h * bp_block_size (pool s)) = ?k * stride s"
      using index_small(1) [OF assms use k] by (simp add: stride_def unat_mult_lem [THEN iffD1])
    then have "?hdr = head_at (stride s) (sub s ?i) ?k" by (simp add: head_at_def)
    then have "(?i, ?k) \<in> out_blocks s" "?hdr + HDR_SIZE = block_at s (?i, ?k)" using use k that(4) by (simp_all add: out_blocks_def block_at_def)
    then show ?thesis by (intro bexI [of _ "(?i, ?k)"]) simp_all
  qed
  then show ?thesis unfolding e by auto
qed

lemma elem_from_handle_of:
  assumes "pool_inv s" "b \<in> out_blocks s"
  shows "elem_from_handle (handle_create (of_nat (snd b)) (of_nat (fst b))) s = Some (block_at s b)"
proof -
  note d = pool_invD [OF assms(1)] and o = out_blocksD [OF assms(2)]
  note i = in_use_less [OF assms(1) o(1)] and small = index_small [OF assms(1) o(1,2)]
  have k: "unat (of_nat (snd b) :: u32) = snd b" using small unfolding unsigned_of_nat by (simp add: take_bit_nat_eq_self_iff)
  have i8: "unat (of_nat (fst b) :: u32) = fst b" using i unfolding unsigned_of_nat by (simp add: take_bit_nat_eq_self_iff MAX_SUBPOOLS_def)
  have parts: "handle_index (handle_create (of_nat (snd b)) (of_nat (fst b))) = of_nat (snd b)"
    "handle_subpool (handle_create (of_nat (snd b)) (of_nat (fst b))) = of_nat (fst b)"
    using parts_of_handle [of "of_nat (snd b)" "of_nat (fst b)"] small(2) i unfolding k i8 by (simp_all add: MAX_SUBPOOLS_def)
  have "unat (of_nat (snd b) * bp_block_size (pool s)) = snd b * stride s"
    using small(1) by (simp add: stride_def unat_mult_lem [THEN iffD1] k)
  moreover have "sp_mem (sub s (fst b)) \<noteq> NULL" using sub_invD(2) [OF d(7) [OF o(1)]] by (simp add: sub_good_def sub_place_def)
  moreover have "(of_nat (snd b) :: u32) < sp_num (sub s (fst b))" using o(2) k by (simp add: word_less_nat_alt)
  ultimately show ?thesis
    unfolding elem_from_handle_def Let_def parts i8 using i d(5) o(3) pool_frameD(1) [OF d(1)]
    by (simp add: check_def block_at_def head_at_def)
qed

section \<open>Counting and deleting\<close>

definition outs :: "pool_state \<Rightarrow> nat \<Rightarrow> nat set" where
  "outs s i = {k. in_use s i \<and> k < unat (sp_num (sub s i)) \<and> get_ptr (heap s) (head_at (stride s) (sub s i) k) = subpool_at s i}"

lemma out_blocks_Sigma: "pool_inv s \<Longrightarrow> out_blocks s = Sigma {..<unat (bp_num_subpools (pool s))} (outs s)"
  using in_use_less by (auto simp: out_blocks_def outs_def)

lemma outs_card:
  assumes "pool_inv s" "in_use s i"
  shows "card (outs s i) + unat (sp_available (sub s i)) = unat (sp_num (sub s i))"
proof -
  let ?n = "unat (sp_num (sub s i))" and ?P = "\<lambda>k. get_ptr (heap s) (head_at (stride s) (sub s i) k) = subpool_at s i"
  obtain ks where "free_ok (stride s) (subpool_at s i) (sub s i) (heap s) ks"
    using sub_invD(2) [OF pool_invD(7) [OF assms]] unfolding sub_good_def by blast
  then have ks: "distinct ks" "set ks = {k. k < ?n \<and> \<not> ?P k}" "length ks = unat (sp_available (sub s i))" unfolding free_ok_def by blast+
  have "card {k. k < ?n \<and> \<not> ?P k} = unat (sp_available (sub s i))" using distinct_card [OF ks(1)] ks(2,3) by simp
  moreover have "outs s i = {k. k < ?n \<and> ?P k}" using assms(2) by (auto simp: outs_def)
  moreover have "card {k. k < ?n \<and> ?P k} + card {k. k < ?n \<and> \<not> ?P k} = card ({k. k < ?n \<and> ?P k} \<union> {k. k < ?n \<and> \<not> ?P k})"
    by (rule card_Un_disjoint [symmetric]) auto
  moreover have "{k. k < ?n \<and> ?P k} \<union> {k. k < ?n \<and> \<not> ?P k} = {..<?n}" by auto
  ultimately show ?thesis by simp
qed

lemma all_out:
  assumes "pool_inv s" "in_use s i" "\<not> has_free s i" "k < unat (sp_num (sub s i))"
  shows "(i, k) \<in> out_blocks s"
proof -
  have "sp_available (sub s i) = 0" using assms(2,3) by (simp add: has_free_def in_use_def word_gt_0)
  then have "card (outs s i) = unat (sp_num (sub s i))" using outs_card [OF assms(1,2)] by simp
  moreover have "outs s i \<subseteq> {..<unat (sp_num (sub s i))}" by (auto simp: outs_def)
  ultimately have "outs s i = {..<unat (sp_num (sub s i))}" by (intro card_subset_eq) simp_all
  then show ?thesis using assms(4) by (auto simp: outs_def out_blocks_def)
qed

lemma subpools_ok: "pool_inv s \<Longrightarrow> list_all (\<lambda>i. subpool_ok (sub s i)) (pool_subpools s)"
proof -
  assume inv: "pool_inv s"
  note d = pool_invD [OF inv]
  have "subpool_ok (sub s i)" if i: "i < unat (bp_num_subpools (pool s))" for i
  proof (cases "sp_start (sub s i) = NULL")
    case True
    then show ?thesis using d(5,6) [OF i] by (simp add: subpool_ok_def)
  next
    case False
    then have "in_use s i" using i by (simp add: in_use_def)
    then show ?thesis using d(5) [OF i] sub_invD(2) [OF d(7)] by (simp add: subpool_ok_def sub_good_def sub_place_def)
  qed
  then show ?thesis by (simp add: list_all_iff pool_subpools_def)
qed

lemma used_count_card:
  assumes "pool_inv s"
  shows "blockpool_used_count s = Some (of_nat (card (out_blocks s)))"
proof -
  let ?step = "\<lambda>i ret. if sp_start (sub s i) \<noteq> NULL then ret + (sp_num (sub s i) - sp_available (sub s i)) else ret"
  have step: "?step i r = r + of_nat (card (outs s i))" if "i < unat (bp_num_subpools (pool s))" for i r
  proof (cases "in_use s i")
    case True
    note c = outs_card [OF assms True]
    have "sp_num (sub s i) = of_nat (card (outs s i) + unat (sp_available (sub s i)))" unfolding c by simp
    then have "sp_num (sub s i) - sp_available (sub s i) = of_nat (card (outs s i))" by simp
    then show ?thesis using True by (simp add: in_use_def)
  next
    case False
    then have "outs s i = {}" by (simp add: outs_def)
    then show ?thesis using False that by (simp add: in_use_def)
  qed
  have "fold ?step [0..<n] 0 = of_nat (\<Sum>i<n. card (outs s i))" if "n \<le> unat (bp_num_subpools (pool s))" for n
    using that
  proof (induction n)
    case (Suc n)
    have "fold ?step [0..<Suc n] 0 = ?step n (fold ?step [0..<n] 0)" by simp
    also have "\<dots> = fold ?step [0..<n] 0 + of_nat (card (outs s n))" by (rule step) (use Suc.prems in simp)
    finally show ?case using Suc by simp
  qed simp
  then have "fold ?step (pool_subpools s) 0 = of_nat (\<Sum>i<unat (bp_num_subpools (pool s)). card (outs s i))"
    by (simp add: pool_subpools_def)
  also have "(\<Sum>i<unat (bp_num_subpools (pool s)). card (outs s i)) = card (out_blocks s)"
    unfolding out_blocks_Sigma [OF assms] by (subst card_SigmaI) (auto simp: outs_def)
  finally show ?thesis
    unfolding blockpool_used_count_def using subpools_ok [OF assms] pool_frameD(1) [OF pool_invD(1) [OF assms]] by (simp add: check_def)
qed

lemma delete_subpools_spec:
  assumes "distinct is" "\<And>i. i \<in> set is \<Longrightarrow> i < length (bp_subpools (pool s)) \<and> subpool_ok (sub s i) \<and> (0 < i \<longrightarrow> sp_flags (sub s i) = 0)"
  shows "\<exists>t. delete_subpools is s = Some t \<and>
    freed t = (if 0 \<in> set is \<and> sp_mem (sub s 0) \<noteq> NULL \<and> sp_flags (sub s 0) AND FLAG_OWNS_MEM \<noteq> 0 then sp_mem (sub s 0) # freed s else freed s)"
  using assms
proof (induction "is" arbitrary: s)
  case (Cons i "is")
  have i: "i < length (bp_subpools (pool s))" "subpool_ok (sub s i)" "0 < i \<longrightarrow> sp_flags (sub s i) = 0" using Cons.prems(2) by auto
  obtain u where u: "delete_subpool i s = Some u" "length (bp_subpools (pool u)) = length (bp_subpools (pool s))"
    "\<And>j. j \<noteq> i \<Longrightarrow> sub u j = sub s j"
    "freed u = (if sp_mem (sub s i) \<noteq> NULL \<and> sp_flags (sub s i) AND FLAG_OWNS_MEM \<noteq> 0 then sp_mem (sub s i) # freed s else freed s)"
    using i(1,2) by (simp add: delete_subpool_def check_def Let_def sub_set_sub split: if_splits)
  have "\<exists>t. delete_subpools is u = Some t \<and>
    freed t = (if 0 \<in> set is \<and> sp_mem (sub u 0) \<noteq> NULL \<and> sp_flags (sub u 0) AND FLAG_OWNS_MEM \<noteq> 0 then sp_mem (sub u 0) # freed u else freed u)"
  proof (rule Cons.IH)
    show "distinct is" using Cons.prems(1) by simp
    fix j assume j: "j \<in> set is"
    then have "j \<noteq> i" using Cons.prems(1) by auto
    then show "j < length (bp_subpools (pool u)) \<and> subpool_ok (sub u j) \<and> (0 < j \<longrightarrow> sp_flags (sub u j) = 0)"
      using Cons.prems(2) [of j] j u(2,3) by simp
  qed
  then obtain t where t: "delete_subpools is u = Some t"
    "freed t = (if 0 \<in> set is \<and> sp_mem (sub u 0) \<noteq> NULL \<and> sp_flags (sub u 0) AND FLAG_OWNS_MEM \<noteq> 0 then sp_mem (sub u 0) # freed u else freed u)"
    by blast
  have "delete_subpools (i # is) s = Some t" using u(1) t(1) by simp
  moreover have "freed t = (if 0 \<in> set (i # is) \<and> sp_mem (sub s 0) \<noteq> NULL \<and> sp_flags (sub s 0) AND FLAG_OWNS_MEM \<noteq> 0
      then sp_mem (sub s 0) # freed s else freed s)"
  proof (cases "i = 0")
    case True
    then show ?thesis using t(2) u(4) Cons.prems(1) by auto
  next
    case False
    then show ?thesis using t(2) u(3) [of 0] u(4) i(3) by auto
  qed
  ultimately show ?case by blast
qed simp

section \<open>A small pool\<close>

lemma blockpool_init_ok:
  assumes "sizes_fit n bs (real_align align)" "place_ok s0 mem (unat psize)" "mem \<noteq> NULL" "bs > 0" "real_align align AND 3 = 0"
    and "pool_bytes n bs (real_align align) \<le> psize"
  shows "\<exists>s. blockpool_init n bs mem psize align s0 = Some (VCOS_SUCCESS, s)"
proof -
  let ?al = "real_align align"
  let ?s1 = "s0\<lparr>pool := \<lparr>bp_magic = BLOCKPOOL_MAGIC, bp_align = ?al, bp_data_size = bs,
         bp_block_size = block_bytes bs ?al, bp_num_subpools = 1, bp_extension_blocks = 0,
         bp_subpools = replicate MAX_SUBPOOLS zero_subpool\<rparr>\<rparr>"
  have at: "subpool_at ?s1 0 = subpools_at s0" by (simp add: subpool_at_def)
  have pos: "n > 0" "0 < STRUCT_SIZE" using assms(1) by (simp_all add: sizes_fit_def STRUCT_SIZE_def MAX_SUBPOOLS_def SUBPOOL_SIZE_def)
  have bsz: "bp_block_size (pool ?s1) = block_bytes bs ?al" by simp
  obtain s where "subpool_init 0 mem psize n ?al ?s1 = Some s"
    using subpool_init_spec [OF assms(1) bsz assms(3,6), of 0, unfolded at] assms(2) pos(2) unfolding place_ok_def by auto
  moreover have "\<not> pool_bytes n bs ?al > psize" using assms(6) by simp
  ultimately show ?thesis
    unfolding blockpool_init_def real_align_def [symmetric] using assms(3-5) pos(1) by (simp add: check_def Let_def)
qed

definition blank_pool :: pool_state where
  "blank_pool = \<lparr>pool = dead_pool, pool_at = 900, subpools_at = 1000, heap = (\<lambda>_. 0), freed = []\<rparr>"

definition demo_pool :: pool_state where
  "demo_pool = snd (the (blockpool_init 2 8 5000 64 0 blank_pool))"

definition demo_pool1 :: pool_state where
  "demo_pool1 = snd (the (blockpool_alloc (\<lambda>_. NULL) demo_pool))"

definition demo_pool2 :: pool_state where
  "demo_pool2 = snd (the (blockpool_alloc (\<lambda>_. NULL) demo_pool1))"

lemma demo_sizes: "sizes_fit 2 8 (real_align 0)" "place_ok blank_pool 5000 (unat (64 :: u32))"
  "pool_bytes 2 8 (real_align 0) \<le> 64" "real_align 0 AND 3 = 0"
  by (simp_all add: sizes_fit_def block_bytes_def pool_round_up_def HDR_SIZE_def real_align_def ALIGN_DEFAULT_def place_ok_def
    blank_pool_def STRUCT_SIZE_def MAX_SUBPOOLS_def SUBPOOL_SIZE_def pool_bytes_def)

lemma demo_init: "blockpool_init 2 8 5000 64 0 blank_pool = Some (VCOS_SUCCESS, demo_pool)"
  using blockpool_init_ok [OF demo_sizes(1,2) _ _ demo_sizes(4,3)] by (auto simp: demo_pool_def)

lemma demo_pool_run: "pool_run demo_pool" "out_blocks demo_pool = {}" "sp_num (sub demo_pool 0) = 2" "has_free demo_pool 0"
  using pool_run.init [OF demo_init demo_sizes(1,2)] blockpool_init_spec [OF demo_init demo_sizes(1,2)] by blast+

lemma no_malloc: "malloc_ok s (\<lambda>_. NULL)"
  by (simp add: malloc_ok_def)

lemma alloc_free_block:
  assumes "pool_run s" "in_use s i" "has_free s i"
  obtains b t where "blockpool_alloc (\<lambda>_. NULL) s = Some (block_at t b, t)" "b \<notin> out_blocks s" "out_blocks t = insert b (out_blocks s)"
    "pool_run t" "keeps s t"
proof -
  have inv: "pool_inv s" by (rule pool_run_inv [OF assms(1)])
  obtain a t where t: "blockpool_alloc (\<lambda>_. NULL) s = Some (a, t)" "keeps s t"
    "(\<forall>i < unat (bp_num_subpools (pool s)). \<not> has_free s i) \<or>
     (\<exists>b. b \<notin> out_blocks s \<and> a = block_at t b \<and> a \<noteq> NULL \<and> out_blocks t = insert b (out_blocks s))"
    using blockpool_alloc_spec [OF inv no_malloc] by blast
  then show ?thesis using that pool_run.alloc [OF assms(1) no_malloc t(1)] assms(2,3) by (auto simp: in_use_def)
qed

lemma demo_pools: "pool_run demo_pool2" "\<exists>b c. b \<noteq> c \<and> out_blocks demo_pool2 = {b, c}" "pool_run demo_pool1" "\<exists>b. out_blocks demo_pool1 = {b}"
proof -
  have use: "in_use demo_pool 0" by (rule pool_invD(2) [OF pool_run_inv [OF demo_pool_run(1)]])
  obtain b t where b: "blockpool_alloc (\<lambda>_. NULL) demo_pool = Some (block_at t b, t)" "out_blocks t = {b}" "pool_run t" "keeps demo_pool t"
    by (rule alloc_free_block [OF demo_pool_run(1) use demo_pool_run(4)]) (simp add: demo_pool_run(2))
  have t: "t = demo_pool1" by (simp add: demo_pool1_def b(1))
  have 1: "in_use t 0" "sp_num (sub t 0) = 2" using b(4) use demo_pool_run(3) by (auto simp: keeps_def)
  have "has_free t 0"
  proof (rule ccontr)
    assume "\<not> has_free t 0"
    then have "{(0, 0), (0, 1)} \<subseteq> out_blocks t" using all_out [OF pool_run_inv [OF b(3)] 1(1), of 0] all_out [OF pool_run_inv [OF b(3)] 1(1), of 1] 1(2) by simp
    then show False using b(2) by auto
  qed
  then obtain c u where c: "blockpool_alloc (\<lambda>_. NULL) t = Some (block_at u c, u)" "c \<notin> out_blocks t" "out_blocks u = insert c (out_blocks t)" "pool_run u"
    by (rule alloc_free_block [OF b(3) 1(1)])
  have u: "u = demo_pool2" by (simp add: demo_pool2_def t [symmetric] c(1))
  show "pool_run demo_pool2" using c(4) unfolding u .
  show "\<exists>b c. b \<noteq> c \<and> out_blocks demo_pool2 = {b, c}"
    using c(2,3) b(2) unfolding u by (intro exI [of _ c] exI [of _ b]) simp
  show "pool_run demo_pool1" using b(3) unfolding t .
  show "\<exists>b. out_blocks demo_pool1 = {b}" using b(2) unfolding t by blast
qed

section \<open>Sizes the code does not check\<close>

text \<open>
  VCOS_BLOCKPOOL_SIZE wraps: 2^29 blocks of four bytes fit any memory of four bytes, and the first
  allocation finds an empty free list. With the default alignment 0 the size that
  \<open>create_on_heap\<close> computes is 0, so that it always fails.
\<close>

lemma pool_size_wraps:
  "\<exists>s. blockpool_init 0x20000000 4 5000 100 4 blank_pool = Some (VCOS_SUCCESS, s) \<and> sp_available (sub s 0) = 0x20000000 \<and>
     blockpool_alloc (\<lambda>_. NULL) s = None"
proof -
  have sizes: "block_bytes 4 4 = 8" "pool_bytes 0x20000000 4 4 = 4" "first_header 5000 4 = 5000"
    by (simp_all add: pool_bytes_def block_bytes_def pool_round_up_def HDR_SIZE_def first_header_def)
  let ?sp = "\<lparr>sp_magic = SUBPOOL_MAGIC, sp_free_list = NULL, sp_mem = 5000, sp_start = 5000, sp_end = 5000, sp_num = 0x20000000,
    sp_available = 0x20000000, sp_owner = 900, sp_flags = 0\<rparr>"
  let ?s = "\<lparr>pool = \<lparr>bp_magic = BLOCKPOOL_MAGIC, bp_align = 4, bp_data_size = 4, bp_block_size = 8, bp_num_subpools = 1,
    bp_extension_blocks = 0, bp_subpools = (replicate MAX_SUBPOOLS zero_subpool)[0 := ?sp]\<rparr>, pool_at = 900, subpools_at = 1000,
    heap = memcpy 5000 (\<lambda>_. 0xBC) 100 (\<lambda>_. 0), freed = []\<rparr>"
  have "blockpool_init 0x20000000 4 5000 100 4 blank_pool = Some (VCOS_SUCCESS, ?s)"
    by (simp add: blockpool_init_def check_def sizes subpool_init_def blank_pool_def link_blocks.simps DEBUG_MEMSET_MAX_def set_sub_def sub_def
      zero_subpool_def MAX_SUBPOOLS_def)
  moreover have sub: "sub ?s 0 = ?sp" by (simp add: sub_def MAX_SUBPOOLS_def)
  moreover have "blockpool_alloc (\<lambda>_. NULL) ?s = None"
  proof -
    have "has_free ?s 0" unfolding has_free_def sub by simp
    then have "select_subpool (\<lambda>_. NULL) ?s = Some (Some 0, ?s)" by (simp add: select_subpool_def)
    moreover have "take_block 0 ?s = None" unfolding take_block_def Let_def sub by (simp add: check_def)
    ultimately show ?thesis by (simp add: blockpool_alloc_def check_def pool_ok_def)
  qed
  ultimately show ?thesis by (intro exI [of _ ?s]) simp
qed

lemma on_heap_default_alignment:
  assumes "sizes_fit n bs ALIGN_DEFAULT" "bs > 0"
  shows "\<exists>t. blockpool_create_on_heap mem n bs 0 s = Some (VCOS_ENOMEM, t)"
proof -
  have zero: "pool_bytes n bs 0 = 0" by (simp add: pool_bytes_def block_bytes_def pool_round_up_def)
  have "unat (pool_bytes n bs ALIGN_DEFAULT) > 0" unfolding sizes_fitD(2) [OF assms(1)] by (simp add: ALIGN_DEFAULT_def)
  then have "pool_bytes n bs ALIGN_DEFAULT > 0" by (simp add: word_less_nat_alt)
  moreover have "n > 0" using assms(1) by (simp add: sizes_fit_def)
  moreover have "ALIGN_DEFAULT AND 3 = 0" by (simp add: ALIGN_DEFAULT_def)
  ultimately show ?thesis
    using assms(2) unfolding blockpool_create_on_heap_def zero Let_def by (cases "mem = NULL") (simp_all add: blockpool_init_def check_def)
qed

section \<open>Properties\<close>

text \<open>
  C23. In every history of a block pool (initialised where sizes do not wrap, extended, with blocks
  allocated and freed and clients writing to everything but the headers) two blocks that are out do
  not overlap, every block lies within the memory its subpool was given, and its address has the
  alignment asked for when that is a power of two.
\<close>

theorem pool_blocks_apart:
  assumes "pool_run s" "b \<in> out_blocks s"
  shows "(\<forall>c \<in> out_blocks s. b \<noteq> c \<longrightarrow> data_of s b \<inter> data_of s c = {}) \<and>
    data_of s b \<subseteq> {sp_mem (sub s (fst b)) ..<
      sp_mem (sub s (fst b)) + unat (pool_bytes (sp_num (sub s (fst b))) (bp_data_size (pool s)) (bp_align (pool s)))} \<and>
    ((\<exists>n < 32. bp_align (pool s) = 2 ^ n) \<longrightarrow> unat (bp_align (pool s)) dvd block_at s b)"
proof -
  have inv: "pool_inv s" by (rule pool_run_inv [OF assms(1)])
  note d = pool_invD [OF inv] and o = out_blocksD [OF assms(2)]
  note place = conjunct1 [OF sub_invD(2) [OF d(7) [OF o(1)], unfolded sub_good_def], unfolded sub_place_def]
  have "data_of s b \<inter> data_of s c = {}" if c: "c \<in> out_blocks s" "b \<noteq> c" for c
  proof (rule ccontr)
    assume "data_of s b \<inter> data_of s c \<noteq> {}"
    then obtain x where x: "x \<in> data_of s b" "x \<in> data_of s c" by blast
    note p = data_place [OF inv assms(2) x(1)] and q = data_place [OF inv c(1) x(2)]
    have eq: "fst b = fst c" using d(8) [OF o(1) out_blocksD(1) [OF c(1)]] p(3,4) q(3,4) by linarith
    then have "snd b \<noteq> snd c" using c(2) by (auto simp: prod_eq_iff)
    then show False
      using p(1,2) q(1,2) head_step [of "snd b" "snd c" "stride s" "sub s (fst b)"] head_step [of "snd c" "snd b" "stride s" "sub s (fst b)"]
      unfolding eq by linarith
  qed
  moreover have "data_of s b \<subseteq> {sp_mem (sub s (fst b)) ..<
      sp_mem (sub s (fst b)) + unat (pool_bytes (sp_num (sub s (fst b))) (bp_data_size (pool s)) (bp_align (pool s)))}"
    using data_place(3,4) [OF inv assms(2)] place by fastforce
  moreover have "unat (bp_align (pool s)) dvd block_at s b" if pow: "\<exists>n < 32. bp_align (pool s) = 2 ^ n"
  proof -
    have "unat (bp_align (pool s)) dvd stride s"
      using pow pool_round_up_aligned unfolding stride_def pool_frameD(5) [OF d(1)] block_bytes_def by metis
    then have "unat (bp_align (pool s)) dvd (sp_start (sub s (fst b)) + HDR_SIZE) + snd b * stride s" using pow place by simp
    then show ?thesis by (simp add: block_at_def head_at_def ac_simps)
  qed
  ultimately show ?thesis by blast
qed

lemma pool_blocks_apart_witness:
  "\<exists>b c. b \<noteq> c \<and> out_blocks demo_pool2 = {b, c} \<and> data_of demo_pool2 b \<inter> data_of demo_pool2 c = {}"
proof -
  obtain b c where bc: "b \<noteq> c" "out_blocks demo_pool2 = {b, c}" using demo_pools(2) by blast
  have b: "b \<in> out_blocks demo_pool2" by (simp add: bc(2))
  then show ?thesis using pool_blocks_apart [OF demo_pools(1) b] bc by blast
qed

text \<open>
  C24. In every history of a block pool an allocation returns, keeps the data of all blocks that are
  out, and gives a block that was not out, or NULL only when no subpool has a free block and
  vcos_malloc fails for every subpool not yet allocated; freeing a block that is out returns,
  keeps all data and takes out that block alone; and the count of used blocks is the number of
  blocks out.
\<close>

theorem pool_alloc_free:
  assumes "pool_run s"
  shows "(\<forall>mem_for. malloc_ok s mem_for \<longrightarrow> (\<exists>a t. blockpool_alloc mem_for s = Some (a, t) \<and> keeps s t \<and>
      (if a = NULL then out_blocks t = out_blocks s \<and>
         (\<forall>i < unat (bp_num_subpools (pool s)). \<not> has_free s i \<and> (sp_start (sub s i) = NULL \<longrightarrow> mem_for i = NULL))
       else \<exists>b. b \<notin> out_blocks s \<and> a = block_at t b \<and> out_blocks t = insert b (out_blocks s)))) \<and>
    (\<forall>b \<in> out_blocks s. \<exists>t. blockpool_free (block_at s b) s = Some t \<and> keeps s t \<and> out_blocks t = out_blocks s - {b}) \<and>
    blockpool_used_count s = Some (of_nat (card (out_blocks s)))"
proof -
  have inv: "pool_inv s" by (rule pool_run_inv [OF assms])
  have alloc: "\<exists>a t. blockpool_alloc mem_for s = Some (a, t) \<and> keeps s t \<and>
      (if a = NULL then out_blocks t = out_blocks s \<and>
         (\<forall>i < unat (bp_num_subpools (pool s)). \<not> has_free s i \<and> (sp_start (sub s i) = NULL \<longrightarrow> mem_for i = NULL))
       else \<exists>b. b \<notin> out_blocks s \<and> a = block_at t b \<and> out_blocks t = insert b (out_blocks s))"
    if ok: "malloc_ok s mem_for" for mem_for
  proof -
    obtain a t where t: "blockpool_alloc mem_for s = Some (a, t)" "keeps s t"
      "a = NULL \<and> out_blocks t = out_blocks s \<and>
         (\<forall>i < unat (bp_num_subpools (pool s)). \<not> has_free s i \<and> (sp_start (sub s i) = NULL \<longrightarrow> mem_for i = NULL)) \<or>
       (\<exists>b. b \<notin> out_blocks s \<and> a = block_at t b \<and> a \<noteq> NULL \<and> out_blocks t = insert b (out_blocks s))"
      using blockpool_alloc_spec [OF inv ok] by blast
    then show ?thesis by (intro exI [of _ a] exI [of _ t]) auto
  qed
  show ?thesis using alloc blockpool_free_spec [OF inv] used_count_card [OF inv] by blast
qed

lemma pool_alloc_free_witness:
  "\<exists>b t. out_blocks demo_pool1 = {b} \<and> blockpool_free (block_at demo_pool1 b) demo_pool1 = Some t \<and> out_blocks t = {} \<and>
     blockpool_used_count demo_pool1 = Some 1"
proof -
  obtain b where b: "out_blocks demo_pool1 = {b}" using demo_pools(4) by blast
  then show ?thesis using pool_alloc_free [OF demo_pools(3)] by auto
qed

text \<open>
  In every history of a block pool each block that is out has a handle from which
  elem_from_handle gives it back, and whatever word is taken for a handle, elem_from_handle gives
  NULL or a block that is out and whose handle is that word.
\<close>

theorem pool_handles:
  assumes "pool_run s"
  shows "(\<forall>b \<in> out_blocks s. \<exists>h. elem_to_handle (block_at s b) s = Some h \<and> elem_from_handle h s = Some (block_at s b)) \<and>
    (\<forall>h. \<exists>a. elem_from_handle h s = Some a \<and>
       (a = NULL \<or> (\<exists>b \<in> out_blocks s. a = block_at s b \<and> elem_to_handle a s = Some h)))"
proof -
  have inv: "pool_inv s" by (rule pool_run_inv [OF assms])
  have "\<exists>a. elem_from_handle h s = Some a \<and> (a = NULL \<or> (\<exists>b \<in> out_blocks s. a = block_at s b \<and> elem_to_handle a s = Some h))" for h
  proof -
    obtain a where a: "elem_from_handle h s = Some a" "a \<noteq> NULL \<longrightarrow>
      (\<exists>b \<in> out_blocks s. a = block_at s b \<and> handle_subpool h = of_nat (fst b) \<and> handle_index h = of_nat (snd b))"
      using elem_from_handle_spec [OF inv] by blast
    then show ?thesis using elem_to_handle_spec [OF inv] handle_of_parts [of h] by metis
  qed
  then show ?thesis using elem_to_handle_spec [OF inv] elem_from_handle_of [OF inv] by blast
qed

lemma pool_handles_witness:
  "\<exists>b h. out_blocks demo_pool1 = {b} \<and> elem_to_handle (block_at demo_pool1 b) demo_pool1 = Some h \<and>
     elem_from_handle h demo_pool1 = Some (block_at demo_pool1 b)"
proof -
  obtain b where b: "out_blocks demo_pool1 = {b}" using demo_pools(4) by blast
  then show ?thesis using pool_handles [OF demo_pools(3)] by auto
qed

text \<open>
  The memory of extension subpools is never given back: freeing a block never calls vcos_free
  and vcos_generic_blockpool_delete passes at most the memory of the first subpool to it, because
  vcos_generic_blockpool_subpool_init ignores its flags.
\<close>

theorem pool_extension_leaks:
  assumes "pool_run s"
  shows "(\<forall>b \<in> out_blocks s. \<forall>t. blockpool_free (block_at s b) s = Some t \<longrightarrow> freed t = freed s) \<and>
    (\<exists>t. blockpool_delete s = Some t \<and> freed t \<in> {freed s, sp_mem (sub s 0) # freed s})"
proof -
  have inv: "pool_inv s" by (rule pool_run_inv [OF assms])
  note d = pool_invD [OF inv]
  note f = pool_frameD [OF d(1)]
  have "i < length (bp_subpools (pool s)) \<and> subpool_ok (sub s i) \<and> (0 < i \<longrightarrow> sp_flags (sub s i) = 0)" if "i \<in> set (pool_subpools s)" for i
    using that subpools_ok [OF inv] d(4) f(2,4) by (auto simp: pool_subpools_def list_all_iff)
  then obtain u where "delete_subpools (pool_subpools s) s = Some u" "freed u \<in> {freed s, sp_mem (sub s 0) # freed s}"
    using delete_subpools_spec [of "pool_subpools s" s] by (auto simp: pool_subpools_def split: if_splits)
  then have "blockpool_delete s = Some (u\<lparr>pool := dead_pool\<rparr>)" "freed (u\<lparr>pool := dead_pool\<rparr>) \<in> {freed s, sp_mem (sub s 0) # freed s}"
    using f(1) by (simp_all add: blockpool_delete_def check_def)
  then show ?thesis using blockpool_free_spec [OF inv] by fastforce
qed

lemma pool_extension_leaks_witness:
  "\<exists>t. blockpool_delete demo_pool2 = Some t \<and> freed t \<in> {freed demo_pool2, sp_mem (sub demo_pool2 0) # freed demo_pool2}"
  using pool_extension_leaks [OF demo_pools(1)] by blast

end
