(* ===== verification/Vcos_Event_Flags.thy ===== *)
theory Vcos_Event_Flags
  imports Oculus_Sched Vcos_Blockpool
begin

text \<open>
  circle/addon/vc4/interface/vcos/vcos_generic_event_flags.c: a word of event flags on which threads
  wait. A thread whose request is not satisfied appends a record on its own stack to the list of
  waiters and sleeps on its semaphore, with a timer if it gave a time; \<open>set\<close> walks the list, wakes
  every waiter whose request the new flags satisfy and then clears the flags that the woken
  waiters consume; an expired timer takes its waiter off the list. The mutex is not modelled: no
  call yields while it holds it. \<open>None\<close> is a failing assertion or a loop that does not end.
\<close>

section \<open>State\<close>

definition VCOS_OR :: u32 where "VCOS_OR = 1"
definition VCOS_AND :: u32 where "VCOS_AND = 2"
definition VCOS_CONSUME :: u32 where "VCOS_CONSUME = 4"
definition EVENT_FLAG_OP_MASK :: u32 where "EVENT_FLAG_OP_MASK = VCOS_OR OR VCOS_AND"
definition SUSPEND_FOREVER :: u32 where "SUSPEND_FOREVER = - 1"

record event_waiter =
  requested_events :: u32
  actual_events :: u32
  wait_op :: u32
  return_status :: vcos_status
  wait_thread :: nat
  wait_next :: ptr

text \<open>
  The flags, the list of waiters, the waiter records by address, and for each thread its semaphore
  and the context of its task timer while that is running.
\<close>

record event_flags =
  ef_events :: u32
  ef_head :: ptr
  ef_tail :: ptr
  ef_waiter :: "ptr \<Rightarrow> event_waiter"
  ef_suspend :: "nat \<Rightarrow> semaphore"
  ef_timer :: "nat \<Rightarrow> ptr option"

definition event_flags_create :: "event_flags \<Rightarrow> event_flags" where
  "event_flags_create s = s\<lparr>ef_events := 0, ef_head := NULL, ef_tail := NULL\<rparr>"

definition upd_waiter :: "ptr \<Rightarrow> (event_waiter \<Rightarrow> event_waiter) \<Rightarrow> event_flags \<Rightarrow> event_flags" where
  "upd_waiter w f s = s\<lparr>ef_waiter := (ef_waiter s)(w := f (ef_waiter s w))\<rparr>"

definition thread_sem_post :: "nat \<Rightarrow> event_flags \<Rightarrow> event_flags" where
  "thread_sem_post t s = s\<lparr>ef_suspend := (ef_suspend s)(t := sem_up (ef_suspend s t))\<rparr>"

text \<open>\<open>waiter_list_valid\<close>\<close>

definition waiter_list_valid :: "event_flags \<Rightarrow> bool" where
  "waiter_list_valid s =
     (let valid = (if ef_head s = NULL then ef_tail s = NULL else ef_tail s \<noteq> NULL)
      in if ef_head s \<noteq> NULL \<and> ef_head s = ef_tail s then wait_next (ef_waiter s (ef_head s)) = NULL else valid)"

text \<open>The pointer that leads to the current waiter: the head, or \<open>next\<close> of the waiter before it.\<close>

definition get_link :: "ptr \<Rightarrow> event_flags \<Rightarrow> ptr" where
  "get_link prev s = (if prev = NULL then ef_head s else wait_next (ef_waiter s prev))"

definition set_link :: "ptr \<Rightarrow> ptr \<Rightarrow> event_flags \<Rightarrow> event_flags" where
  "set_link prev p s = (if prev = NULL then s\<lparr>ef_head := p\<rparr> else upd_waiter prev (wait_next_update (\<lambda>_. p)) s)"

definition unlink :: "ptr \<Rightarrow> ptr \<Rightarrow> event_flags \<Rightarrow> event_flags" where
  "unlink prev cur s =
     (let next = wait_next (ef_waiter s cur); s = set_link prev next s
      in if next = NULL then s\<lparr>ef_tail := prev\<rparr> else s)"

definition append_tail :: "ptr \<Rightarrow> event_flags \<Rightarrow> event_flags" where
  "append_tail w s =
     (let s = upd_waiter w (wait_next_update (\<lambda>_. NULL)) s
      in if ef_head s = NULL then s\<lparr>ef_head := w, ef_tail := w\<rparr>
         else (upd_waiter (ef_tail s) (wait_next_update (\<lambda>_. w)) s)\<lparr>ef_tail := w\<rparr>)"

section \<open>Setting flags\<close>

definition waiter_satisfied :: "u32 \<Rightarrow> event_waiter \<Rightarrow> bool" where
  "waiter_satisfied events w =
     (let common = events AND requested_events w
      in if wait_op w AND VCOS_AND \<noteq> 0 then common = requested_events w else common \<noteq> 0)"

definition wake :: "ptr \<Rightarrow> ptr \<Rightarrow> event_flags \<Rightarrow> event_flags option" where
  "wake prev cur s =
     (let s = unlink prev cur s
      in do {
        check (waiter_list_valid s);
        Some (thread_sem_post (wait_thread (ef_waiter s cur))
          (upd_waiter cur (\<lambda>w. w\<lparr>return_status := VCOS_SUCCESS, actual_events := ef_events s\<rparr>) s))
      })"

partial_function (option) walk_waiters :: "ptr \<Rightarrow> u32 \<Rightarrow> event_flags \<Rightarrow> (u32 \<times> event_flags) option" where
  [code]: "walk_waiters prev consumed s =
     (let cur = get_link prev s
      in if cur = NULL then Some (consumed, s)
         else if waiter_satisfied (ef_events s) (ef_waiter s cur)
         then wake prev cur s \<bind>
           walk_waiters prev (if wait_op (ef_waiter s cur) AND VCOS_CONSUME \<noteq> 0
             then consumed OR requested_events (ef_waiter s cur) else consumed)
         else walk_waiters cur consumed s)"

definition set_events :: "u32 \<Rightarrow> u32 \<Rightarrow> u32 \<Rightarrow> u32 option" where
  "set_events bitmask op events =
     (if op = VCOS_OR then Some (events OR bitmask) else if op = VCOS_AND then Some (events AND bitmask) else None)"

definition event_flags_set :: "u32 \<Rightarrow> u32 \<Rightarrow> event_flags \<Rightarrow> event_flags option" where
  "event_flags_set bitmask op s = do {
     events \<leftarrow> set_events bitmask op (ef_events s);
     let s = s\<lparr>ef_events := events\<rparr>;
     if ef_head s \<noteq> NULL then do {
       (consumed, s) \<leftarrow> walk_waiters NULL 0 s;
       Some (s\<lparr>ef_events := ef_events s AND NOT consumed\<rparr>)
     }
     else Some s
   }"

section \<open>Getting flags\<close>

text \<open>\<open>get\<close> up to its return or its sleep; the third case is the sleep, with the waiter's record at \<open>w\<close>.\<close>

datatype get_result = Got vcos_status u32 | Sleeping ptr

definition get_satisfied :: "u32 \<Rightarrow> u32 \<Rightarrow> u32 \<Rightarrow> bool option" where
  "get_satisfied bitmask op events =
     (if op AND EVENT_FLAG_OP_MASK = VCOS_AND then Some (events AND bitmask = bitmask)
      else if op AND EVENT_FLAG_OP_MASK = VCOS_OR then Some (events AND bitmask \<noteq> 0)
      else None)"

text \<open>\<open>_vcos_task_timer_set\<close> asserts that the timer of the thread is not running.\<close>

definition timer_set :: "nat \<Rightarrow> ptr \<Rightarrow> event_flags \<Rightarrow> event_flags option" where
  "timer_set t w s = do {
     check (ef_timer s t = None);
     Some (s\<lparr>ef_timer := (ef_timer s)(t := Some w)\<rparr>)
   }"

definition event_flags_get :: "nat \<Rightarrow> ptr \<Rightarrow> u32 \<Rightarrow> u32 \<Rightarrow> u32 \<Rightarrow> event_flags \<Rightarrow> (get_result \<times> event_flags) option" where
  "event_flags_get t w bitmask op suspend s = do {
     satisfied \<leftarrow> get_satisfied bitmask op (ef_events s);
     if satisfied
     then Some (Got VCOS_SUCCESS (ef_events s),
                if op AND VCOS_CONSUME \<noteq> 0 then s\<lparr>ef_events := ef_events s AND NOT bitmask\<rparr> else s)
     else if suspend \<noteq> 0
     then do {
       let s = append_tail w (upd_waiter w (\<lambda>_. \<lparr>requested_events = bitmask, actual_events = 0, wait_op = op,
         return_status = VCOS_EAGAIN, wait_thread = t, wait_next = NULL\<rparr>) s);
       s \<leftarrow> (if suspend \<noteq> SUSPEND_FOREVER then timer_set t w s else Some s);
       Some (Sleeping w, s)
     }
     else Some (Got VCOS_EAGAIN 0, s)
   }"

text \<open>
  The rest of \<open>get\<close>, once the semaphore of the thread has a count: the status and the flags that
  the waker left. After this the timer is cancelled, which does nothing if none was set.
\<close>

definition event_flags_wakeup :: "nat \<Rightarrow> ptr \<Rightarrow> event_flags \<Rightarrow> vcos_status \<times> u32 \<times> event_flags" where
  "event_flags_wakeup t w s =
     (return_status (ef_waiter s w), actual_events (ef_waiter s w), s\<lparr>ef_suspend := (ef_suspend s)(t := ef_suspend s t - 1)\<rparr>)"

definition timer_cancel :: "nat \<Rightarrow> event_flags \<Rightarrow> event_flags" where
  "timer_cancel t s = s\<lparr>ef_timer := (ef_timer s)(t := None)\<rparr>"

text \<open>The expiry of the timer of thread \<open>t\<close>.\<close>

partial_function (option) find_waiter :: "ptr \<Rightarrow> ptr \<Rightarrow> event_flags \<Rightarrow> (ptr option) option" where
  [code]: "find_waiter w prev s =
     (let cur = get_link prev s
      in if cur = NULL then Some None
         else if cur = w then Some (Some prev)
         else find_waiter w cur s)"

definition event_flags_timer_expired :: "ptr \<Rightarrow> event_flags \<Rightarrow> event_flags option" where
  "event_flags_timer_expired w s = do {
     found \<leftarrow> find_waiter w NULL s;
     let t = (case found of Some prev \<Rightarrow> unlink prev w s | None \<Rightarrow> s);
     check (waiter_list_valid t);
     Some (if found \<noteq> None then thread_sem_post (wait_thread (ef_waiter s w)) t else t)
   }"

definition task_timer_expires :: "nat \<Rightarrow> event_flags \<Rightarrow> event_flags option" where
  "task_timer_expires t s = do {
     w \<leftarrow> ef_timer s t;
     s \<leftarrow> event_flags_timer_expired w s;
     Some (s\<lparr>ef_timer := (ef_timer s)(t := None)\<rparr>)
   }"

end
