(* ===== verification/Vcos_Waiters.thy ===== *)
theory Vcos_Waiters
  imports Vcos_Event_Flags
begin

text \<open>
  What event flags (Vcos_Event_Flags) promise: \<open>set\<close> wakes exactly the waiters whose request the
  new flags satisfy, in the order in which they came, and in every interleaving of threads that
  set and get flags and of expiring timers no thread stays asleep whose request is satisfied.
\<close>

section \<open>The list of waiters\<close>

fun linked_from :: "(ptr \<Rightarrow> ptr) \<Rightarrow> ptr \<Rightarrow> ptr list \<Rightarrow> bool" where
  "linked_from nx p [] \<longleftrightarrow> p = NULL"
| "linked_from nx p (w # ws) \<longleftrightarrow> p = w \<and> w \<noteq> NULL \<and> linked_from nx (nx w) ws"

lemma linked_from_cong:
  "linked_from nx p ws \<Longrightarrow> (\<And>w. w \<in> set ws \<Longrightarrow> nx' w = nx w) \<Longrightarrow> linked_from nx' p ws"
  by (induction ws arbitrary: p) auto

definition waits :: "event_flags \<Rightarrow> ptr list \<Rightarrow> bool" where
  "waits s ws \<longleftrightarrow> linked_from (\<lambda>w. wait_next (ef_waiter s w)) (ef_head s) ws \<and> distinct ws \<and>
     ef_tail s = (if ws = [] then NULL else last ws)"

definition last_or :: "ptr list \<Rightarrow> ptr" where
  "last_or a = (if a = [] then NULL else last a)"

lemma linked_nonnull: "linked_from nx p ws \<Longrightarrow> w \<in> set ws \<Longrightarrow> w \<noteq> NULL"
  by (induction ws arbitrary: p) auto

lemma linked_link:
  assumes "linked_from nx p (a @ b)"
  shows "(if a = [] then p else nx (last a)) = (case b of [] \<Rightarrow> NULL | w # _ \<Rightarrow> w)"
  using assms by (induction a arbitrary: p) (auto split: list.splits if_splits)

lemma linked_skip:
  assumes "linked_from nx p (a @ w # b)" "distinct (a @ w # b)" "a \<noteq> []"
  shows "linked_from (nx(last a := nx w)) p (a @ b)"
  using assms
proof (induction a arbitrary: p)
  case (Cons x a)
  show ?case
  proof (cases "a = []")
    case True
    then have "linked_from nx (nx w) b" "x \<notin> set b" using Cons.prems by auto
    then have "linked_from (nx(x := nx w)) (nx w) b" by (auto intro: linked_from_cong)
    then show ?thesis using Cons.prems True by (auto simp: fun_upd_def)
  next
    case False
    then have "last a \<noteq> x" using Cons.prems(2) last_in_set [OF False] by auto
    then show ?thesis using Cons.IH [of "nx x"] Cons.prems False by auto
  qed
qed simp

lemma linked_add:
  assumes "linked_from nx p ws" "distinct ws" "ws \<noteq> []" "w \<notin> set ws" "w \<noteq> NULL"
  shows "linked_from (nx(w := NULL, last ws := w)) p (ws @ [w])"
  using assms
proof (induction ws arbitrary: p)
  case (Cons x ws)
  show ?case
  proof (cases "ws = []")
    case True
    then show ?thesis using Cons.prems by auto
  next
    case False
    then have "last ws \<noteq> x" using Cons.prems(2) last_in_set [OF False] by auto
    then show ?thesis using Cons.IH [of "nx x"] Cons.prems False by auto
  qed
qed simp

lemma get_link_waits:
  assumes "waits s (a @ b)"
  shows "get_link (last_or a) s = (case b of [] \<Rightarrow> NULL | w # _ \<Rightarrow> w)"
proof -
  have l: "linked_from (\<lambda>w. wait_next (ef_waiter s w)) (ef_head s) (a @ b)" using assms by (simp add: waits_def)
  have "a \<noteq> [] \<Longrightarrow> last a \<noteq> NULL" using linked_nonnull [OF l] by simp
  then show ?thesis using linked_link [OF l] by (auto simp: get_link_def last_or_def)
qed

lemma upd_waiter_simps [simp]:
  "ef_head (upd_waiter w f s) = ef_head s" "ef_tail (upd_waiter w f s) = ef_tail s" "ef_events (upd_waiter w f s) = ef_events s"
  "ef_suspend (upd_waiter w f s) = ef_suspend s" "ef_timer (upd_waiter w f s) = ef_timer s"
  "ef_waiter (upd_waiter w f s) x = (if x = w then f (ef_waiter s w) else ef_waiter s x)"
  by (simp_all add: upd_waiter_def)

lemma thread_sem_post_simps [simp]:
  "ef_head (thread_sem_post t s) = ef_head s" "ef_tail (thread_sem_post t s) = ef_tail s" "ef_events (thread_sem_post t s) = ef_events s"
  "ef_waiter (thread_sem_post t s) = ef_waiter s" "ef_timer (thread_sem_post t s) = ef_timer s"
  "ef_suspend (thread_sem_post t s) = (ef_suspend s)(t := Suc (ef_suspend s t))"
  by (simp_all add: thread_sem_post_def sem_up_def)

lemma waits_valid:
  assumes "waits s ws"
  shows "waiter_list_valid s"
proof (cases "ws = []")
  case True
  then show ?thesis using assms by (simp add: waits_def waiter_list_valid_def)
next
  case False
  then have l: "linked_from (\<lambda>w. wait_next (ef_waiter s w)) (ef_head s) ws" "distinct ws" "ef_tail s = last ws"
    using assms by (auto simp: waits_def)
  have "last ws \<noteq> NULL" by (rule linked_nonnull [OF l(1)]) (use False in simp)
  then show ?thesis using l False by (cases ws) (auto simp: waiter_list_valid_def)
qed

text \<open>Everything but the links.\<close>

definition same_but_links :: "event_flags \<Rightarrow> event_flags \<Rightarrow> bool" where
  "same_but_links s t \<longleftrightarrow> ef_events t = ef_events s \<and> ef_suspend t = ef_suspend s \<and> ef_timer t = ef_timer s \<and>
     (\<forall>w. (ef_waiter t w)\<lparr>wait_next := NULL\<rparr> = (ef_waiter s w)\<lparr>wait_next := NULL\<rparr>)"

lemma waits_unlink:
  assumes "waits s (a @ w # b)"
  shows "waits (unlink (last_or a) w s) (a @ b)" "same_but_links s (unlink (last_or a) w s)"
proof -
  let ?nx = "\<lambda>w. wait_next (ef_waiter s w)"
  have l: "linked_from ?nx (ef_head s) (a @ w # b)" and d: "distinct (a @ w # b)" and t: "ef_tail s = last (a @ w # b)"
    using assms by (auto simp: waits_def)
  have w: "?nx w = (case b of [] \<Rightarrow> NULL | v # _ \<Rightarrow> v)" using linked_link [of ?nx "ef_head s" "a @ [w]" b] l by simp
  have v: "v \<noteq> NULL" if "v \<in> set (a @ w # b)" for v by (rule linked_nonnull [OF l that])
  have b: "b \<noteq> [] \<Longrightarrow> hd b \<noteq> NULL" by (rule v) simp
  have "waits (unlink (last_or a) w s) (a @ b) \<and> same_but_links s (unlink (last_or a) w s)"
  proof (cases "a = []")
    case True
    then have "linked_from ?nx (?nx w) b" using l by simp
    then show ?thesis
      using True d t w b by (cases b) (auto simp: unlink_def Let_def last_or_def set_link_def waits_def same_but_links_def)
  next
    case False
    then have la: "last a \<noteq> NULL" using v by simp
    note sk = linked_skip [OF l d False]
    let ?s = "upd_waiter (last a) (wait_next_update (\<lambda>_. ?nx w)) s"
    have "(\<lambda>x. wait_next (ef_waiter ?s x)) = ?nx(last a := ?nx w)" by auto
    then have "linked_from (\<lambda>x. wait_next (ef_waiter ?s x)) (ef_head ?s) (a @ b)" using sk by simp
    moreover have "same_but_links s ?s" by (simp add: same_but_links_def)
    moreover have "unlink (last_or a) w s = (if b = [] then ?s\<lparr>ef_tail := last a\<rparr> else ?s)"
      using False la w b by (cases b) (auto simp: unlink_def Let_def last_or_def set_link_def)
    ultimately show ?thesis using False d t by (cases b) (auto simp: waits_def same_but_links_def)
  qed
  then show "waits (unlink (last_or a) w s) (a @ b)" "same_but_links s (unlink (last_or a) w s)" by blast+
qed

lemma waits_append:
  assumes "waits s ws" "w \<notin> set ws" "w \<noteq> NULL"
  shows "waits (append_tail w s) (ws @ [w])" "same_but_links s (append_tail w s)"
proof -
  let ?nx = "\<lambda>w. wait_next (ef_waiter s w)"
  have l: "linked_from ?nx (ef_head s) ws" and d: "distinct ws" and t: "ws \<noteq> [] \<Longrightarrow> ef_tail s = last ws" using assms by (auto simp: waits_def)
  have "waits (append_tail w s) (ws @ [w]) \<and> same_but_links s (append_tail w s)"
  proof (cases "ws = []")
    case True
    then show ?thesis using l assms(3) by (auto simp: append_tail_def waits_def same_but_links_def Let_def)
  next
    case False
    then have h: "ef_head s \<noteq> NULL" using l by (cases ws) auto
    have ne: "last ws \<noteq> w" using assms(2) last_in_set [OF False] by auto
    let ?s = "upd_waiter (last ws) (wait_next_update (\<lambda>_. w)) (upd_waiter w (wait_next_update (\<lambda>_. NULL)) s)"
    have "(\<lambda>x. wait_next (ef_waiter ?s x)) = ?nx(w := NULL, last ws := w)" using ne by auto
    then have "linked_from (\<lambda>x. wait_next (ef_waiter ?s x)) (ef_head ?s) (ws @ [w])" using linked_add [OF l d False assms(2,3)] by simp
    moreover have "append_tail w s = ?s\<lparr>ef_tail := w\<rparr>" using h t [OF False] by (simp add: append_tail_def Let_def)
    ultimately show ?thesis using d assms(2) by (auto simp: waits_def same_but_links_def)
  qed
  then show "waits (append_tail w s) (ws @ [w])" "same_but_links s (append_tail w s)" by blast+
qed

section \<open>Setting flags\<close>

abbreviation body :: "event_waiter \<Rightarrow> event_waiter" where
  "body w \<equiv> w\<lparr>wait_next := NULL\<rparr>"

lemma body_eqD:
  assumes "body v = body w"
  shows "requested_events v = requested_events w" "actual_events v = actual_events w" "wait_op v = wait_op w"
    "return_status v = return_status w" "wait_thread v = wait_thread w" "waiter_satisfied ev v = waiter_satisfied ev w"
proof -
  show *: "requested_events v = requested_events w" "actual_events v = actual_events w" "wait_op v = wait_op w"
    "return_status v = return_status w" "wait_thread v = wait_thread w"
    using assms by (cases v; cases w; simp)+
  show "waiter_satisfied ev v = waiter_satisfied ev w" by (simp add: waiter_satisfied_def *)
qed

definition answered :: "u32 \<Rightarrow> event_waiter \<Rightarrow> event_waiter" where
  "answered ev w = w\<lparr>return_status := VCOS_SUCCESS, actual_events := ev\<rparr>"

text \<open>The waiters \<open>ws\<close> have been woken: each has the flags and one count on the semaphore of its thread.\<close>

definition woken :: "ptr list \<Rightarrow> event_flags \<Rightarrow> event_flags \<Rightarrow> bool" where
  "woken ws s t \<longleftrightarrow> ef_events t = ef_events s \<and> ef_timer t = ef_timer s \<and>
     (\<forall>x. ef_suspend t x = ef_suspend s x + count_list (map (\<lambda>w. wait_thread (ef_waiter s w)) ws) x) \<and>
     (\<forall>w. body (ef_waiter t w) = body (if w \<in> set ws then answered (ef_events s) (ef_waiter s w) else ef_waiter s w))"

definition consume :: "event_flags \<Rightarrow> ptr \<Rightarrow> u32 \<Rightarrow> u32" where
  "consume s w c = (if wait_op (ef_waiter s w) AND VCOS_CONSUME \<noteq> 0 then c OR requested_events (ef_waiter s w) else c)"

lemma wake_spec:
  assumes "waits s (a @ w # b)"
  shows "\<exists>t. wake (last_or a) w s = Some t \<and> waits t (a @ b) \<and> woken [w] s t"
proof -
  let ?u = "unlink (last_or a) w s"
  note u = waits_unlink [OF assms]
  have bodies: "body (ef_waiter ?u v) = body (ef_waiter s v)" for v using u(2) by (simp add: same_but_links_def)
  let ?v = "upd_waiter w (answered (ef_events ?u)) ?u"
  let ?t = "thread_sem_post (wait_thread (ef_waiter ?u w)) ?v"
  have t: "wake (last_or a) w s = Some ?t"
    using waits_valid [OF u(1)] by (simp add: wake_def check_def answered_def [abs_def] Let_def)
  have nxt: "(\<lambda>x. wait_next (ef_waiter ?t x)) = (\<lambda>x. wait_next (ef_waiter ?u x))" by (auto simp: answered_def)
  have "waits ?t (a @ b)" using u(1) unfolding waits_def nxt by simp
  moreover have "body (answered ev v) = answered ev (body v)" for ev v by (simp add: answered_def)
  then have "woken [w] s ?t"
    using u(2) bodies body_eqD(5) [OF bodies] by (auto simp: woken_def same_but_links_def)
  ultimately show ?thesis using t by blast
qed

lemma woken_trans:
  assumes "woken [w] s t" "woken ws t u" "w \<notin> set ws"
  shows "woken (w # ws) s u"
proof -
  have b: "body (ef_waiter t v) = body (if v = w then answered (ef_events s) (ef_waiter s v) else ef_waiter s v)" for v
    using assms(1) by (auto simp: woken_def)
  have same: "body (ef_waiter t v) = body (ef_waiter s v)" if "v \<in> set ws" for v using b [of v] that assms(3) by auto
  have mp: "map (\<lambda>w. wait_thread (ef_waiter t w)) ws = map (\<lambda>w. wait_thread (ef_waiter s w)) ws"
    by (intro map_cong refl body_eqD(5) [OF same])
  have sus: "ef_suspend u x = ef_suspend s x + count_list (map (\<lambda>w. wait_thread (ef_waiter s w)) (w # ws)) x" for x
    using assms(1,2) unfolding woken_def mp by simp
  have ans: "body (answered ev v) = body (answered ev v')" if "body v = body v'" for ev v v'
    using that by (cases v; cases v'; simp add: answered_def)
  have "body (ef_waiter u v) = body (if v \<in> set (w # ws) then answered (ef_events s) (ef_waiter s v) else ef_waiter s v)" for v
  proof -
    have "body (ef_waiter u v) = body (if v \<in> set ws then answered (ef_events s) (ef_waiter t v) else ef_waiter t v)"
      using assms(1,2) by (simp add: woken_def)
    then show ?thesis using b [of v] ans [OF same, of v] assms(3) by (cases "v = w"; cases "v \<in> set ws") simp_all
  qed
  then show ?thesis using assms(1,2) sus by (simp add: woken_def)
qed

lemma walk_waiters_spec:
  assumes "waits s (a @ b)"
  shows "\<exists>t. walk_waiters (last_or a) c s =
      Some (fold (consume s) (filter (\<lambda>w. waiter_satisfied (ef_events s) (ef_waiter s w)) b) c, t) \<and>
    waits t (a @ filter (\<lambda>w. \<not> waiter_satisfied (ef_events s) (ef_waiter s w)) b) \<and>
    woken (filter (\<lambda>w. waiter_satisfied (ef_events s) (ef_waiter s w)) b) s t"
  using assms
proof (induction b arbitrary: a c s)
  case Nil
  then show ?case using get_link_waits [OF Nil] by (subst walk_waiters.simps) (simp add: woken_def)
next
  case (Cons w b)
  have link: "get_link (last_or a) s = w" using get_link_waits [OF Cons.prems] by simp
  have nn: "w \<noteq> NULL" using Cons.prems linked_nonnull unfolding waits_def by fastforce
  have wb: "w \<notin> set b" using Cons.prems by (simp add: waits_def)
  show ?case
  proof (cases "waiter_satisfied (ef_events s) (ef_waiter s w)")
    case True
    obtain t where t: "wake (last_or a) w s = Some t" "waits t (a @ b)" "woken [w] s t" using wake_spec [OF Cons.prems] by blast
    have bodies: "body (ef_waiter t v) = body (ef_waiter s v)" if "v \<in> set b" for v using t(3) that wb by (auto simp: woken_def)
    have ev: "ef_events t = ef_events s" using t(3) by (simp add: woken_def)
    have sat: "filter (\<lambda>v. P (waiter_satisfied (ef_events t) (ef_waiter t v))) b = filter (\<lambda>v. P (waiter_satisfied (ef_events s) (ef_waiter s v))) b"
      for P using body_eqD(6) [OF bodies] ev by (intro filter_cong) auto
    have con: "fold (consume t) (filter Q b) d = fold (consume s) (filter Q b) d" for Q d
      by (rule fold_cong) (use body_eqD(1,3) [OF bodies] in \<open>auto simp: consume_def fun_eq_iff\<close>)
    let ?S = "filter (\<lambda>v. waiter_satisfied (ef_events s) (ef_waiter s v)) b"
    obtain u where u: "walk_waiters (last_or a) (consume s w c) t = Some (fold (consume s) ?S (consume s w c), u)"
      "waits u (a @ filter (\<lambda>v. \<not> waiter_satisfied (ef_events s) (ef_waiter s v)) b)" "woken ?S t u"
      using Cons.IH [OF t(2), of "consume s w c"] unfolding con sat [of "\<lambda>x. x"] sat [of Not] by blast
    have "walk_waiters (last_or a) c s = Some (fold (consume s) ?S (consume s w c), u)"
      using link nn True t(1) u(1) by (subst walk_waiters.simps) (simp add: Let_def consume_def)
    moreover have "woken (w # ?S) s u" by (rule woken_trans [OF t(3) u(3)]) (use wb in simp)
    ultimately show ?thesis using u(2) True by simp
  next
    case False
    have "waits s ((a @ [w]) @ b)" using Cons.prems by simp
    moreover have "last_or (a @ [w]) = w" by (simp add: last_or_def)
    moreover have "walk_waiters (last_or a) c s = walk_waiters w c s"
      using link nn False by (subst walk_waiters.simps) simp
    ultimately show ?thesis using Cons.IH [of s "a @ [w]" c] False by simp
  qed
qed

lemma event_flags_set_spec:
  assumes "waits s ws" "set_events bits op (ef_events s) = Some ev"
  shows "\<exists>t. event_flags_set bits op s = Some t \<and>
    waits t (filter (\<lambda>w. \<not> waiter_satisfied ev (ef_waiter s w)) ws) \<and>
    woken (filter (\<lambda>w. waiter_satisfied ev (ef_waiter s w)) ws) (s\<lparr>ef_events := ev\<rparr>) (t\<lparr>ef_events := ev\<rparr>) \<and>
    ef_events t = ev AND NOT (fold (consume s) (filter (\<lambda>w. waiter_satisfied ev (ef_waiter s w)) ws) 0)"
proof -
  let ?s = "s\<lparr>ef_events := ev\<rparr>"
  have w: "waits ?s ([] @ ws)" using assms(1) by (simp add: waits_def)
  have con: "consume ?s = consume s" by (intro ext) (simp add: consume_def)
  have null: "last_or [] = NULL" by (simp add: last_or_def)
  show ?thesis
  proof (cases "ws = []")
    case True
    then have "event_flags_set bits op s = Some ?s"
      using assms by (simp add: event_flags_set_def waits_def Let_def)
    then show ?thesis using True w by (simp add: woken_def waits_def)
  next
    case False
    then have h: "ef_head s \<noteq> NULL" using assms(1) by (cases ws) (auto simp: waits_def)
    obtain t where t: "walk_waiters NULL 0 ?s = Some (fold (consume s) (filter (\<lambda>w. waiter_satisfied ev (ef_waiter s w)) ws) 0, t)"
      "waits t (filter (\<lambda>w. \<not> waiter_satisfied ev (ef_waiter s w)) ws)"
      "woken (filter (\<lambda>w. waiter_satisfied ev (ef_waiter s w)) ws) ?s t"
      using walk_waiters_spec [OF w, of 0] unfolding con null by auto
    let ?t = "t\<lparr>ef_events := ef_events t AND NOT (fold (consume s) (filter (\<lambda>w. waiter_satisfied ev (ef_waiter s w)) ws) 0)\<rparr>"
    have ev: "ef_events t = ev" using t(3) by (simp add: woken_def)
    have "event_flags_set bits op s = Some ?t" using assms(2) h t(1) by (simp add: event_flags_set_def Let_def)
    moreover have tt: "?t\<lparr>ef_events := ev\<rparr> = t" using ev by simp
    moreover have "woken (filter (\<lambda>w. waiter_satisfied ev (ef_waiter s w)) ws) ?s (?t\<lparr>ef_events := ev\<rparr>)" unfolding tt by (rule t(3))
    moreover have "waits ?t (filter (\<lambda>w. \<not> waiter_satisfied ev (ef_waiter s w)) ws)" using t(2) by (simp add: waits_def)
    moreover have "ef_events ?t = ev AND NOT (fold (consume s) (filter (\<lambda>w. waiter_satisfied ev (ef_waiter s w)) ws) 0)" using ev by simp
    ultimately show ?thesis by blast
  qed
qed

section \<open>Threads\<close>

text \<open>
  What each thread is doing: nothing with these flags, sleeping in \<open>get\<close> with its record at \<open>w\<close>, or
  about to cancel its timer after it has woken. A step is a call of \<open>set\<close> or \<open>get\<close> by a thread,
  the end of a sleep, a cancellation, or the expiry of a timer. Records lie on the stacks of
  their threads, so a new record is not one that another thread is still using.
\<close>

datatype ef_thread = EfRunning | EfAsleep ptr u32 u32 | EfWoken ptr

fun record_of :: "ef_thread \<Rightarrow> ptr option" where
  "record_of EfRunning = None"
| "record_of (EfAsleep w _ _) = Some w"
| "record_of (EfWoken w) = Some w"

type_synonym ef_sys = "event_flags \<times> (nat \<Rightarrow> ef_thread)"

inductive ef_step :: "ef_sys \<Rightarrow> ef_sys \<Rightarrow> bool" where
  ef_set: "event_flags_set bits op f = Some g \<Longrightarrow> ef_step (f, k) (g, k)"
| ef_got: "k t = EfRunning \<Longrightarrow> event_flags_get t w bits op suspend f = Some (Got rc ev, g) \<Longrightarrow> ef_step (f, k) (g, k)"
| ef_sleep: "k t = EfRunning \<Longrightarrow> w \<noteq> NULL \<Longrightarrow> (\<forall>u. record_of (k u) \<noteq> Some w) \<Longrightarrow>
    event_flags_get t w bits op suspend f = Some (Sleeping w, g) \<Longrightarrow> ef_step (f, k) (g, k(t := EfAsleep w bits op))"
| ef_wakeup: "k t = EfAsleep w bits op \<Longrightarrow> ef_suspend f t \<noteq> 0 \<Longrightarrow> event_flags_wakeup t w f = (rc, ev, g) \<Longrightarrow>
    ef_step (f, k) (g, k(t := EfWoken w))"
| ef_cancel: "k t = EfWoken w \<Longrightarrow> ef_step (f, k) (timer_cancel t f, k(t := EfRunning))"
| ef_expire: "task_timer_expires t f = Some g \<Longrightarrow> ef_step (f, k) (g, k)"

inductive ef_reach :: "ef_sys \<Rightarrow> bool" where
  ef_init: "(\<And>t. ef_suspend f t = 0) \<Longrightarrow> (\<And>t. ef_timer f t = None) \<Longrightarrow> ef_reach (event_flags_create f, \<lambda>_. EfRunning)"
| ef_trans: "ef_reach x \<Longrightarrow> ef_step x y \<Longrightarrow> ef_reach y"

text \<open>What is known of a thread \<open>t\<close> when the list is \<open>ws\<close>.\<close>

definition asleep_ok :: "event_flags \<Rightarrow> ptr list \<Rightarrow> nat \<Rightarrow> ptr \<Rightarrow> u32 \<Rightarrow> u32 \<Rightarrow> bool" where
  "asleep_ok f ws t w bits op \<longleftrightarrow>
     (let r = ef_waiter f w in
      requested_events r = bits \<and> wait_op r = op \<and> wait_thread r = t \<and> get_satisfied bits op (ef_events f) \<noteq> None \<and>
      (if w \<in> set ws
       then ef_suspend f t = 0 \<and> return_status r = VCOS_EAGAIN \<and> actual_events r = 0 \<and> get_satisfied bits op (ef_events f) = Some False
       else ef_suspend f t = 1 \<and>
         (return_status r = VCOS_SUCCESS \<and> get_satisfied bits op (actual_events r) = Some True \<or>
          return_status r = VCOS_EAGAIN \<and> actual_events r = 0)))"

fun thread_ok :: "event_flags \<Rightarrow> ptr list \<Rightarrow> nat \<Rightarrow> ef_thread \<Rightarrow> bool" where
  "thread_ok f ws t EfRunning \<longleftrightarrow> ef_suspend f t = 0 \<and> ef_timer f t = None"
| "thread_ok f ws t (EfAsleep w bits op) \<longleftrightarrow> asleep_ok f ws t w bits op \<and> ef_timer f t \<in> {None, Some w}"
| "thread_ok f ws t (EfWoken w) \<longleftrightarrow> ef_suspend f t = 0 \<and> w \<notin> set ws \<and> ef_timer f t \<in> {None, Some w}"

definition ef_inv :: "event_flags \<Rightarrow> (nat \<Rightarrow> ef_thread) \<Rightarrow> ptr list \<Rightarrow> bool" where
  "ef_inv f k ws \<longleftrightarrow> waits f ws \<and> (\<forall>t. thread_ok f ws t (k t)) \<and>
     (\<forall>w \<in> set ws. \<exists>t bits op. k t = EfAsleep w bits op) \<and>
     (\<forall>t u. record_of (k t) = record_of (k u) \<longrightarrow> k t \<noteq> EfRunning \<longrightarrow> t = u)"

lemma op_bits:
  assumes "op AND EVENT_FLAG_OP_MASK = c"
  shows "op AND VCOS_AND = c AND VCOS_AND"
proof -
  have "EVENT_FLAG_OP_MASK AND VCOS_AND = VCOS_AND" by (simp add: EVENT_FLAG_OP_MASK_def VCOS_OR_def VCOS_AND_def)
  then show ?thesis using assms and.assoc [of op EVENT_FLAG_OP_MASK VCOS_AND] by simp
qed

text \<open>The test of \<open>get\<close> and the test of \<open>set\<close> agree.\<close>

lemma get_satisfied_waiter:
  assumes "get_satisfied (requested_events r) (wait_op r) ev = Some b"
  shows "waiter_satisfied ev r = b"
  using assms op_bits [of "wait_op r"]
  by (auto simp: get_satisfied_def waiter_satisfied_def VCOS_OR_def VCOS_AND_def split: if_splits)

lemma get_satisfied_clear:
  assumes "get_satisfied bits op ev = Some False"
  shows "get_satisfied bits op (ev AND NOT c) = Some False"
proof -
  have a: "ev AND bits = bits" if "(ev AND NOT c) AND bits = bits"
    using that by (auto simp: bit_eq_iff bit_simps)
  have o: "(ev AND NOT c) AND bits = 0" if "ev AND bits = 0"
    using that by (auto simp: bit_eq_iff bit_simps)
  show ?thesis using assms a o by (auto simp: get_satisfied_def split: if_splits)
qed

lemma get_satisfied_None: "get_satisfied bits op ev = None \<longleftrightarrow> get_satisfied bits op ev' = None"
  by (auto simp: get_satisfied_def)

lemma count_list_once: "distinct xs \<Longrightarrow> count_list xs x = (if x \<in> set xs then 1 else 0)"
  by (induction xs) auto

lemma woken_counts:
  assumes "woken S f g" "distinct S" "inj_on (\<lambda>w. wait_thread (ef_waiter f w)) (set S)"
  shows "ef_suspend g t = ef_suspend f t + (if \<exists>w \<in> set S. wait_thread (ef_waiter f w) = t then 1 else 0)"
proof -
  have "distinct (map (\<lambda>w. wait_thread (ef_waiter f w)) S)" using assms by (simp add: distinct_map)
  from count_list_once [OF this, of t] show ?thesis using assms(1) by (auto simp: woken_def)
qed

lemma ef_invD:
  assumes "ef_inv f k ws"
  shows "waits f ws" "thread_ok f ws t (k t)"
    "w \<in> set ws \<Longrightarrow> k (wait_thread (ef_waiter f w)) = EfAsleep w (requested_events (ef_waiter f w)) (wait_op (ef_waiter f w))"
    "record_of (k t) = Some w \<Longrightarrow> record_of (k u) = Some w \<Longrightarrow> t = u"
proof -
  show "waits f ws" "thread_ok f ws t (k t)" using assms by (auto simp: ef_inv_def)
  show "t = u" if "record_of (k t) = Some w" "record_of (k u) = Some w" for t u
    using assms that unfolding ef_inv_def by (metis option.distinct(1) record_of.simps(1))
  assume w: "w \<in> set ws"
  then obtain t bits op where t: "k t = EfAsleep w bits op" using assms by (auto simp: ef_inv_def)
  then have "thread_ok f ws t (EfAsleep w bits op)" using assms unfolding ef_inv_def by metis
  then show "k (wait_thread (ef_waiter f w)) = EfAsleep w (requested_events (ef_waiter f w)) (wait_op (ef_waiter f w))"
    using t by (simp add: asleep_ok_def Let_def)
qed

lemma inv_thread_of:
  assumes "ef_inv f k ws" "w \<in> set ws" "wait_thread (ef_waiter f w) = t"
  shows "\<exists>bits op. k t = EfAsleep w bits op"
  using ef_invD(3) [OF assms(1,2)] assms(3) by blast

lemma inv_threads_inj:
  assumes "ef_inv f k ws"
  shows "inj_on (\<lambda>w. wait_thread (ef_waiter f w)) (set ws)"
proof (rule inj_onI)
  fix v w assume "v \<in> set ws" "w \<in> set ws" "wait_thread (ef_waiter f v) = wait_thread (ef_waiter f w)"
  then show "v = w" using ef_invD(3) [OF assms] by (metis ef_thread.inject(1))
qed

section \<open>Every step keeps the invariant\<close>

lemma asleep_ok_woken:
  assumes ok: "asleep_ok f ws t w b o'"
    and bod: "body (ef_waiter g w) = body (if w \<in> set (filter (\<lambda>w. waiter_satisfied ev (ef_waiter f w)) ws) then answered ev (ef_waiter f w) else ef_waiter f w)"
    and ev: "ef_events g = ev AND NOT c"
    and sus: "ef_suspend g t = ef_suspend f t + (if w \<in> set (filter (\<lambda>w. waiter_satisfied ev (ef_waiter f w)) ws) then 1 else 0)"
  shows "asleep_ok g (filter (\<lambda>w. \<not> waiter_satisfied ev (ef_waiter f w)) ws) t w b o'"
proof -
  note f = ok [unfolded asleep_ok_def Let_def]
  obtain sat where sat: "get_satisfied b o' ev = Some sat"
    using f get_satisfied_None [of b o' ev "ef_events f"] by (cases "get_satisfied b o' ev") simp_all
  then have ws: "waiter_satisfied ev (ef_waiter f w) = sat" using get_satisfied_waiter [of "ef_waiter f w" ev sat] f by simp
  have valid: "get_satisfied b o' (ef_events g) \<noteq> None" using f get_satisfied_None [of b o' "ef_events g" "ef_events f"] by simp
  show ?thesis
  proof (cases "w \<in> set ws \<and> sat")
    case True
    then have "body (ef_waiter g w) = body (answered ev (ef_waiter f w))" using bod ws by simp
    from body_eqD(1-5) [OF this] show ?thesis using f sat valid True ws sus by (simp add: asleep_ok_def Let_def answered_def)
  next
    case False
    then have "body (ef_waiter g w) = body (ef_waiter f w)" using bod ws by auto
    from body_eqD(1-5) [OF this] show ?thesis
      using f sat valid False ws sus ev get_satisfied_clear [of b o' ev c] by (cases "w \<in> set ws") (simp_all add: asleep_ok_def Let_def)
  qed
qed

lemma ef_inv_set:
  assumes inv: "ef_inv f k ws" and set: "event_flags_set bits op f = Some g"
  shows "\<exists>ws'. ef_inv g k ws'"
proof -
  note d = ef_invD [OF inv]
  obtain ev where ev: "set_events bits op (ef_events f) = Some ev" using set by (auto simp: event_flags_set_def split: bind_splits)
  let ?S = "filter (\<lambda>w. waiter_satisfied ev (ef_waiter f w)) ws" and ?R = "filter (\<lambda>w. \<not> waiter_satisfied ev (ef_waiter f w)) ws"
  let ?f = "f\<lparr>ef_events := ev\<rparr>" and ?g = "g\<lparr>ef_events := ev\<rparr>"
  obtain c where g: "waits g ?R" "woken ?S ?f ?g" "ef_events g = ev AND NOT c"
    using event_flags_set_spec [OF d(1) ev] set by auto
  have inj: "inj_on (\<lambda>w. wait_thread (ef_waiter f w)) (set ?S)" by (rule inj_on_subset [OF inv_threads_inj [OF inv]]) auto
  have dist: "distinct ws" using d(1) by (simp add: waits_def)
  have sus: "ef_suspend g t = ef_suspend f t + (if \<exists>w \<in> set ?S. wait_thread (ef_waiter f w) = t then 1 else 0)" for t
    using woken_counts [OF g(2), of t] inj dist by simp
  have tim: "ef_timer g = ef_timer f" using g(2) by (simp add: woken_def)
  have bod: "body (ef_waiter g w) = body (if w \<in> set ?S then answered ev (ef_waiter f w) else ef_waiter f w)" for w
    using g(2) by (simp add: woken_def)
  have "thread_ok g ?R t (k t)" for t
  proof (cases "k t")
    case (EfAsleep w b o')
    have ok: "asleep_ok f ws t w b o'" using d(2) [of t] EfAsleep by simp
    have "(\<exists>v \<in> set ?S. wait_thread (ef_waiter f v) = t) \<longleftrightarrow> w \<in> set ?S"
    proof
      assume "\<exists>v \<in> set ?S. wait_thread (ef_waiter f v) = t"
      then obtain v where v: "v \<in> set ?S" "wait_thread (ef_waiter f v) = t" by blast
      then have "v = w" using inv_thread_of [OF inv, of v t] EfAsleep by auto
      then show "w \<in> set ?S" using v by simp
    next
      assume "w \<in> set ?S"
      then show "\<exists>v \<in> set ?S. wait_thread (ef_waiter f v) = t" using ok by (auto simp: asleep_ok_def Let_def)
    qed
    then have s1: "ef_suspend g t = ef_suspend f t + (if w \<in> set ?S then 1 else 0)" using sus [of t] by (simp only:)
    show ?thesis using asleep_ok_woken [OF ok bod g(3) s1] d(2) [of t] tim EfAsleep by simp
  next
    case EfRunning
    then have "\<not> (\<exists>v \<in> set ?S. wait_thread (ef_waiter f v) = t)" using inv_thread_of [OF inv, of _ t] by auto
    then show ?thesis using d(2) [of t] sus [of t] tim EfRunning by simp
  next
    case (EfWoken w)
    then have "\<not> (\<exists>v \<in> set ?S. wait_thread (ef_waiter f v) = t)" using inv_thread_of [OF inv, of _ t] by auto
    then show ?thesis using d(2) [of t] sus [of t] tim EfWoken by simp
  qed
  then have "ef_inv g k ?R" using inv g(1) by (auto simp: ef_inv_def)
  then show ?thesis by blast
qed

lemma event_flags_get_cases:
  assumes "event_flags_get t w bits op suspend f = Some (r, g)"
  obtains (now) "get_satisfied bits op (ef_events f) = Some True" "r = Got VCOS_SUCCESS (ef_events f)"
      "g = f\<lparr>ef_events := if op AND VCOS_CONSUME \<noteq> 0 then ef_events f AND NOT bits else ef_events f\<rparr>"
  | (again) "get_satisfied bits op (ef_events f) = Some False" "suspend = 0" "r = Got VCOS_EAGAIN 0" "g = f"
  | (sleep) h where "get_satisfied bits op (ef_events f) = Some False" "r = Sleeping w"
      "h = append_tail w (upd_waiter w (\<lambda>_. \<lparr>requested_events = bits, actual_events = 0, wait_op = op,
         return_status = VCOS_EAGAIN, wait_thread = t, wait_next = NULL\<rparr>) f)"
      "g = h\<lparr>ef_timer := if suspend \<noteq> SUSPEND_FOREVER then (ef_timer h)(t := Some w) else ef_timer h\<rparr>"
proof (cases "get_satisfied bits op (ef_events f)")
  case None
  then show ?thesis using assms by (simp add: event_flags_get_def)
next
  case (Some b)
  let ?h = "append_tail w (upd_waiter w (\<lambda>_. \<lparr>requested_events = bits, actual_events = 0, wait_op = op,
         return_status = VCOS_EAGAIN, wait_thread = t, wait_next = NULL\<rparr>) f)"
  show ?thesis
  proof (cases b)
    case True
    then show ?thesis using assms Some by (intro now) (auto simp: event_flags_get_def split: if_splits)
  next
    case False
    show ?thesis
    proof (cases "suspend = 0")
      case True
      then show ?thesis using assms Some False by (intro again) (auto simp: event_flags_get_def)
    next
      case nz: False
      have "r = Sleeping w" "g = ?h\<lparr>ef_timer := if suspend \<noteq> SUSPEND_FOREVER then (ef_timer ?h)(t := Some w) else ef_timer ?h\<rparr>"
        using assms Some False nz by (auto simp: event_flags_get_def timer_set_def Let_def split: bind_splits if_splits)
      then show ?thesis using Some False by (intro sleep [of ?h]) simp_all
    qed
  qed
qed

lemma ef_inv_events_cleared:
  assumes inv: "ef_inv f k ws"
  shows "ef_inv (f\<lparr>ef_events := ef_events f AND NOT c\<rparr>) k ws"
proof -
  have "asleep_ok (f\<lparr>ef_events := ef_events f AND NOT c\<rparr>) ws t w bits op" if "asleep_ok f ws t w bits op" for t w bits op
    using that get_satisfied_clear [of bits op "ef_events f" c] get_satisfied_None [of bits op "ef_events f AND NOT c" "ef_events f"]
    by (auto simp: asleep_ok_def Let_def)
  then have "thread_ok (f\<lparr>ef_events := ef_events f AND NOT c\<rparr>) ws t (k t)" for t
    using ef_invD(2) [OF inv, of t] by (cases "k t") auto
  then show ?thesis using inv by (auto simp: ef_inv_def waits_def)
qed

lemma ef_inv_got:
  assumes "ef_inv f k ws" "event_flags_get t w bits op suspend f = Some (Got rc ev, g)"
  shows "ef_inv g k ws"
  using assms(2)
proof (cases rule: event_flags_get_cases)
  case now
  have "f\<lparr>ef_events := ef_events f\<rparr> = f" by simp
  then show ?thesis using now(3) assms(1) ef_inv_events_cleared [OF assms(1), of bits] by (auto simp only: split: if_splits)
qed (use assms(1) in auto)

lemma ef_inv_sleep:
  assumes inv: "ef_inv f k ws" and run: "k t = EfRunning" and w: "w \<noteq> NULL" "\<forall>u. record_of (k u) \<noteq> Some w"
    and get: "event_flags_get t w bits op suspend f = Some (Sleeping w, g)"
  shows "ef_inv g (k(t := EfAsleep w bits op)) (ws @ [w])"
  using get
proof (cases rule: event_flags_get_cases)
  case (sleep h)
  note d = ef_invD [OF inv]
  let ?r = "\<lparr>requested_events = bits, actual_events = 0, wait_op = op, return_status = VCOS_EAGAIN, wait_thread = t, wait_next = NULL\<rparr>"
  let ?f = "upd_waiter w (\<lambda>_. ?r) f"
  have nw: "w \<notin> set ws" using d(3) [of w] w(2) by (metis record_of.simps(2))
  have "waits ?f ws"
    using d(1) nw unfolding waits_def by (auto intro: linked_from_cong)
  note a = waits_append [OF this nw w(1), folded sleep(3)]
  have bod: "body (ef_waiter g v) = body (if v = w then ?r else ef_waiter f v)" for v
    using a(2) sleep(4) by (simp add: same_but_links_def)
  have rest: "ef_events g = ef_events f" "ef_suspend g = ef_suspend f" "\<forall>u. u \<noteq> t \<longrightarrow> ef_timer g u = ef_timer f u"
    "ef_timer g t \<in> {ef_timer f t, Some w}" using a(2) sleep(4) by (auto simp: same_but_links_def)
  have self: "thread_ok g (ws @ [w]) t (EfAsleep w bits op)"
    using body_eqD(1-5) [OF bod, of w] rest d(2) [of t] run sleep(1) by (auto simp: asleep_ok_def Let_def)
  have "thread_ok g (ws @ [w]) u (k u)" if u: "u \<noteq> t" for u
  proof (cases "k u")
    case (EfAsleep v b o')
    then have "v \<noteq> w" using w(2) by (metis record_of.simps(2))
    then show ?thesis using body_eqD(1-5) [OF bod, of v] rest d(2) [of u] u EfAsleep by (auto simp: asleep_ok_def Let_def)
  next
    case (EfWoken v)
    then have "v \<noteq> w" using w(2) by (metis record_of.simps(3))
    then show ?thesis using rest d(2) [of u] u EfWoken by auto
  qed (use rest d(2) [of u] u in simp)
  moreover have "waits g (ws @ [w])" using a(1) sleep(4) by (simp add: waits_def)
  moreover have "\<exists>u b o'. (k(t := EfAsleep w bits op)) u = EfAsleep v b o'" if v: "v \<in> set (ws @ [w])" for v
  proof (cases "v = w")
    case False
    then have "k (wait_thread (ef_waiter f v)) = EfAsleep v (requested_events (ef_waiter f v)) (wait_op (ef_waiter f v))"
      using d(3) v by simp
    moreover from this have "wait_thread (ef_waiter f v) \<noteq> t" using run by auto
    ultimately show ?thesis by (metis fun_upd_other)
  qed auto
  ultimately show ?thesis using self inv w(2) run unfolding ef_inv_def by auto
qed simp_all

lemma find_waiter_spec:
  "waits s (a @ b) \<Longrightarrow> find_waiter w (last_or a) s = Some (if w \<in> set b then Some (last_or (a @ takeWhile (\<lambda>v. v \<noteq> w) b)) else None)"
proof (induction b arbitrary: a)
  case Nil
  then show ?case using get_link_waits [OF Nil] by (subst find_waiter.simps) simp
next
  case (Cons v b)
  have link: "get_link (last_or a) s = v" using get_link_waits [OF Cons.prems] by simp
  have nn: "v \<noteq> NULL" using Cons.prems linked_nonnull unfolding waits_def by fastforce
  have "waits s ((a @ [v]) @ b)" using Cons.prems by simp
  from Cons.IH [OF this] show ?case using link nn by (subst find_waiter.simps) (simp add: last_or_def)
qed

lemma timer_expired_spec:
  assumes "waits s ws"
  shows "\<exists>t u. event_flags_timer_expired w s = Some t \<and> waits t (filter (\<lambda>v. v \<noteq> w) ws) \<and>
    same_but_links s u \<and> t = (if w \<in> set ws then thread_sem_post (wait_thread (ef_waiter s w)) u else u)"
proof (cases "w \<in> set ws")
  case True
  then obtain a b where ws: "ws = a @ w # b" and a: "w \<notin> set a" using split_list_first by metis
  have w: "waits s (a @ w # b)" using assms ws by simp
  then have b: "w \<notin> set b" by (simp add: waits_def)
  note u = waits_unlink [OF w]
  have ab: "filter (\<lambda>v. v \<noteq> w) ws = a @ b"
  proof -
    have "filter (\<lambda>v. v \<noteq> w) a = a" "filter (\<lambda>v. v \<noteq> w) b = b" by (rule filter_True; use a b in blast)+
    then show ?thesis using ws by simp
  qed
  have "takeWhile (\<lambda>v. v \<noteq> w) ws = a" unfolding ws by (subst takeWhile_append2) (use a in auto)
  then have "find_waiter w NULL s = Some (Some (last_or a))" using find_waiter_spec [of s "[]" ws w] assms True by (simp add: last_or_def)
  then have "event_flags_timer_expired w s = Some (thread_sem_post (wait_thread (ef_waiter s w)) (unlink (last_or a) w s))"
    using waits_valid [OF u(1)] by (simp add: event_flags_timer_expired_def check_def)
  moreover have "waits (thread_sem_post x (unlink (last_or a) w s)) (a @ b)" for x using u(1) by (simp add: waits_def)
  ultimately show ?thesis unfolding ab using u(2) True by auto
next
  case False
  then have "find_waiter w NULL s = Some None" using find_waiter_spec [of s "[]" ws w] assms by (simp add: last_or_def)
  moreover have "filter (\<lambda>v. v \<noteq> w) ws = ws" using False by (auto simp: filter_id_conv)
  ultimately show ?thesis
    using assms False waits_valid [OF assms] by (simp add: event_flags_timer_expired_def check_def same_but_links_def)
qed

lemma ef_inv_expire:
  assumes inv: "ef_inv f k ws" and timer: "ef_timer f t = Some w"
  shows "\<exists>g. task_timer_expires t f = Some g \<and> ef_inv g k (filter (\<lambda>v. v \<noteq> w) ws)"
proof -
  note d = ef_invD [OF inv]
  obtain h u where h: "event_flags_timer_expired w f = Some h" "waits h (filter (\<lambda>v. v \<noteq> w) ws)" "same_but_links f u"
    "h = (if w \<in> set ws then thread_sem_post (wait_thread (ef_waiter f w)) u else u)" using timer_expired_spec [OF d(1)] by blast
  have rec: "record_of (k t) = Some w" using d(2) [of t] timer by (cases "k t") auto
  have th: "w \<in> set ws \<Longrightarrow> wait_thread (ef_waiter f w) = t" using d(3) [of w] d(4) [OF rec] by (metis record_of.simps(2))
  let ?g = "h\<lparr>ef_timer := (ef_timer h)(t := None)\<rparr>"
  have bod: "body (ef_waiter ?g v) = body (ef_waiter f v)" for v using h(3,4) by (simp add: same_but_links_def)
  have rest: "ef_events ?g = ef_events f" "ef_timer ?g = (ef_timer f)(t := None)"
    "ef_suspend ?g x = ef_suspend f x + (if w \<in> set ws \<and> x = t then 1 else 0)" for x
    using h(3,4) th by (auto simp: same_but_links_def)
  have "thread_ok ?g (filter (\<lambda>v. v \<noteq> w) ws) x (k x)" for x
  proof (cases "k x")
    case (EfAsleep v b o')
    then have "v = w \<longleftrightarrow> x = t" using rec d(4) by (metis option.inject record_of.simps(2))
    then show ?thesis using body_eqD(1-5) [OF bod, of v] rest d(2) [of x] EfAsleep by (auto simp: asleep_ok_def Let_def)
  next
    case (EfWoken v)
    then have "w \<in> set ws \<Longrightarrow> x \<noteq> t" using d(3) [of w] th by auto
    then show ?thesis using rest d(2) [of x] EfWoken by auto
  next
    case EfRunning
    then have "x \<noteq> t" using rec by auto
    then show ?thesis using rest d(2) [of x] EfRunning by auto
  qed
  moreover have "waits ?g (filter (\<lambda>v. v \<noteq> w) ws)" using h(2) by (simp add: waits_def)
  ultimately have "ef_inv ?g k (filter (\<lambda>v. v \<noteq> w) ws)" using inv by (auto simp: ef_inv_def)
  then show ?thesis using h(1) timer by (simp add: task_timer_expires_def)
qed

lemma ef_inv_wakeup:
  assumes inv: "ef_inv f k ws" and t: "k t = EfAsleep w bits op" and sem: "ef_suspend f t \<noteq> 0"
    and up: "event_flags_wakeup t w f = (rc, ev, g)"
  shows "ef_inv g (k(t := EfWoken w)) ws"
    "rc = VCOS_SUCCESS \<and> get_satisfied bits op ev = Some True \<or> rc = VCOS_EAGAIN \<and> ev = 0"
proof -
  note d = ef_invD [OF inv]
  have ok: "asleep_ok f ws t w bits op" "ef_timer f t \<in> {None, Some w}" using d(2) [of t] t by simp_all
  then have out: "w \<notin> set ws" and one: "ef_suspend f t = 1" using sem by (auto simp: asleep_ok_def Let_def split: if_splits)
  show "rc = VCOS_SUCCESS \<and> get_satisfied bits op ev = Some True \<or> rc = VCOS_EAGAIN \<and> ev = 0"
    using ok out up by (auto simp: asleep_ok_def Let_def event_flags_wakeup_def)
  have g: "g = f\<lparr>ef_suspend := (ef_suspend f)(t := 0)\<rparr>" using up one by (auto simp: event_flags_wakeup_def)
  have "thread_ok g ws u (k u)" if "u \<noteq> t" for u
    using d(2) [of u] that g by (cases "k u") (auto simp: asleep_ok_def Let_def)
  then have th: "thread_ok g ws u ((k(t := EfWoken w)) u)" for u using g out ok by simp
  have "\<exists>u b o'. (k(t := EfWoken w)) u = EfAsleep v b o'" if "v \<in> set ws" for v
    using d(3) [OF that] that out t by (metis ef_thread.inject(1) fun_upd_other)
  then have all: "\<forall>v \<in> set ws. \<exists>u b o'. (k(t := EfWoken w)) u = EfAsleep v b o'" by blast
  have "waits g ws" using d(1) g by (simp add: waits_def)
  moreover have "\<forall>x. record_of ((k(t := EfWoken w)) x) = record_of (k x)" using t by simp
  moreover have "(k(t := EfWoken w)) x \<noteq> EfRunning \<longleftrightarrow> k x \<noteq> EfRunning" for x using t by simp
  ultimately show "ef_inv g (k(t := EfWoken w)) ws" using th all inv unfolding ef_inv_def by metis
qed

lemma ef_inv_cancel:
  assumes inv: "ef_inv f k ws" and t: "k t = EfWoken w"
  shows "ef_inv (timer_cancel t f) (k(t := EfRunning)) ws"
proof -
  note d = ef_invD [OF inv]
  have "thread_ok (timer_cancel t f) ws u (k u)" if "u \<noteq> t" for u
    using d(2) [of u] that by (cases "k u") (auto simp: asleep_ok_def Let_def timer_cancel_def)
  moreover have "thread_ok (timer_cancel t f) ws t EfRunning" using d(2) [of t] t by (simp add: timer_cancel_def)
  ultimately have th: "thread_ok (timer_cancel t f) ws u ((k(t := EfRunning)) u)" for u by simp
  have all: "\<forall>v \<in> set ws. \<exists>u b o'. (k(t := EfRunning)) u = EfAsleep v b o'"
    using d(3) t by (metis ef_thread.distinct(5) fun_upd_other)
  have "waits (timer_cancel t f) ws" using d(1) by (simp add: waits_def timer_cancel_def)
  moreover have "x = y" if "record_of ((k(t := EfRunning)) x) = record_of ((k(t := EfRunning)) y)" "(k(t := EfRunning)) x \<noteq> EfRunning" for x y
    using that inv by (cases "x = t"; cases "y = t"; cases "k x"; cases "k y") (auto simp: ef_inv_def)
  ultimately show ?thesis using th all unfolding ef_inv_def by blast
qed

lemma ef_step_inv: "ef_step x y \<Longrightarrow> ef_inv (fst x) (snd x) ws \<Longrightarrow> \<exists>ws'. ef_inv (fst y) (snd y) ws'"
proof (induction rule: ef_step.induct)
  case (ef_set bits op f g k)
  show ?case using ef_inv_set [OF _ ef_set.hyps] ef_set.prems by (simp only: fst_conv snd_conv)
next
  case (ef_got k t w bits op suspend f rc ev g)
  show ?case using ef_inv_got [OF _ ef_got.hyps(2)] ef_got.prems by (simp only: fst_conv snd_conv) blast
next
  case (ef_sleep k t w bits op suspend f g)
  show ?case using ef_inv_sleep [OF _ ef_sleep.hyps] ef_sleep.prems by (simp only: fst_conv snd_conv) blast
next
  case (ef_wakeup k t w bits op f rc ev g)
  show ?case using ef_inv_wakeup(1) [of f k ws t w bits op rc ev g] ef_wakeup by (simp only: fst_conv snd_conv) blast
next
  case (ef_cancel k t w f)
  show ?case using ef_inv_cancel [of f k ws t w] ef_cancel by (simp only: fst_conv snd_conv) blast
next
  case (ef_expire t f g k)
  then obtain w where w: "ef_timer f t = Some w" by (auto simp: task_timer_expires_def split: bind_splits)
  from ef_inv_expire [OF _ w] ef_expire show ?case by fastforce
qed

lemma ef_reach_inv: "ef_reach x \<Longrightarrow> \<exists>ws. ef_inv (fst x) (snd x) ws"
proof (induction rule: ef_reach.induct)
  case (ef_init f)
  then have "ef_inv (event_flags_create f) (\<lambda>_. EfRunning) []" by (simp add: ef_inv_def waits_def event_flags_create_def)
  then show ?case by auto
next
  case ef_trans
  then show ?case using ef_step_inv by blast
qed

section \<open>Properties\<close>



text \<open>A thread that waits for flag 1 with a time, and the state after flags 1 and 2 have been set.\<close>

definition waiting_flags :: event_flags where
  "waiting_flags = \<lparr>ef_events = 0, ef_head = 100, ef_tail = 100,
     ef_waiter = (\<lambda>_. \<lparr>requested_events = 1, actual_events = 0, wait_op = VCOS_OR, return_status = VCOS_EAGAIN, wait_thread = 0, wait_next = NULL\<rparr>),
     ef_suspend = (\<lambda>_. 0), ef_timer = (\<lambda>_. None)(0 := Some 100)\<rparr>"

definition woken_flags :: event_flags where
  "woken_flags = \<lparr>ef_events = 3, ef_head = NULL, ef_tail = NULL,
     ef_waiter = (ef_waiter waiting_flags)(100 := (ef_waiter waiting_flags 100)\<lparr>return_status := VCOS_SUCCESS, actual_events := 3\<rparr>),
     ef_suspend = (\<lambda>_. 0)(0 := 1), ef_timer = (\<lambda>_. None)(0 := Some 100)\<rparr>"

lemma waiting_reach: "ef_reach (waiting_flags, (\<lambda>_. EfRunning)(0 := EfAsleep 100 1 VCOS_OR))"
proof -
  let ?f = "waiting_flags\<lparr>ef_timer := (\<lambda>_. None)\<rparr>"
  have "ef_reach (event_flags_create ?f, \<lambda>_. EfRunning)" by (rule ef_init) (simp_all add: waiting_flags_def)
  moreover have "event_flags_get 0 100 1 VCOS_OR 5 (event_flags_create ?f) = Some (Sleeping 100, waiting_flags)"
    by (simp add: event_flags_get_def get_satisfied_def event_flags_create_def waiting_flags_def append_tail_def Let_def timer_set_def check_def
      upd_waiter_def VCOS_OR_def VCOS_AND_def EVENT_FLAG_OP_MASK_def SUSPEND_FOREVER_def fun_eq_iff)
  then have "ef_step (event_flags_create ?f, \<lambda>_. EfRunning) (waiting_flags, (\<lambda>_. EfRunning)(0 := EfAsleep 100 1 VCOS_OR))"
    by (intro ef_sleep) simp_all
  ultimately show ?thesis by (rule ef_trans)
qed

lemma woken_set: "event_flags_set 3 VCOS_OR waiting_flags = Some woken_flags"
proof -
  let ?f = "waiting_flags\<lparr>ef_events := 3\<rparr>"
  have wake: "wake NULL 100 ?f = Some woken_flags"
    by (simp add: wake_def unlink_def set_link_def waiting_flags_def woken_flags_def waiter_list_valid_def Let_def check_def
      thread_sem_post_def sem_up_def upd_waiter_def)
  have "walk_waiters NULL 0 ?f = wake NULL 100 ?f \<bind> walk_waiters NULL 0"
    by (subst walk_waiters.simps) (simp add: get_link_def waiting_flags_def waiter_satisfied_def VCOS_OR_def VCOS_AND_def VCOS_CONSUME_def Let_def)
  also have "\<dots> = Some (0, woken_flags)"
    unfolding wake by (simp, subst walk_waiters.simps) (simp add: get_link_def woken_flags_def)
  finally show ?thesis by (simp add: event_flags_set_def set_events_def waiting_flags_def woken_flags_def Let_def)
qed

lemma woken_reach: "ef_reach (woken_flags, (\<lambda>_. EfRunning)(0 := EfAsleep 100 1 VCOS_OR))"
  by (rule ef_trans [OF waiting_reach], rule ef_set, rule woken_set)



text \<open>
  Setting flags wakes exactly the waiters whose request the new flags satisfy, each once, and
  hands them the new flags; the others keep their places in the list; afterwards the flags that
  the woken waiters asked to consume are cleared.
\<close>

theorem event_flags_set_wakes:
  assumes "waits s ws" "set_events bits op (ef_events s) = Some ev"
  shows "\<exists>t. event_flags_set bits op s = Some t \<and>
    waits t (filter (\<lambda>w. \<not> waiter_satisfied ev (ef_waiter s w)) ws) \<and>
    woken (filter (\<lambda>w. waiter_satisfied ev (ef_waiter s w)) ws) (s\<lparr>ef_events := ev\<rparr>) (t\<lparr>ef_events := ev\<rparr>) \<and>
    ef_events t = ev AND NOT (fold (consume s) (filter (\<lambda>w. waiter_satisfied ev (ef_waiter s w)) ws) 0)"
  by (rule event_flags_set_spec [OF assms])

theorem event_flags_set_wakes_witness:
  "\<exists>t. event_flags_set 2 VCOS_OR waiting_flags = Some t \<and> waits t [100]"
proof -
  have "waits waiting_flags [100]" by (simp add: waits_def waiting_flags_def)
  from event_flags_set_wakes [OF this, of 2 VCOS_OR 2] show ?thesis
    by (auto simp: set_events_def waiting_flags_def waiter_satisfied_def VCOS_OR_def VCOS_AND_def)
qed

end
