(* ===== verification/Vcos_Block_Store.thy ===== *)
theory Vcos_Block_Store
  imports Vcos_Pool
begin

text \<open>
  What the clients of a block pool without extensions rely on, as the locale \<open>block_store\<close>: allocation
  gives a block that nobody has while fewer than \<open>capacity\<close> blocks are out, and freeing takes one
  back. Inside the locale: a client that counts the free blocks with a semaphore, as message pools do.
  The pool of Vcos_Pool implements it (interpretation \<open>blockpool\<close>).
\<close>

locale block_store =
  fixes alloc :: "'s \<Rightarrow> (ptr \<times> 's) option"
    and free :: "ptr \<Rightarrow> 's \<Rightarrow> 's option"
    and live :: "'s \<Rightarrow> ptr set"
    and capacity :: "'s \<Rightarrow> nat"
    and ok :: "'s \<Rightarrow> bool"
  assumes live_bound: "ok s \<Longrightarrow> finite (live s) \<and> card (live s) \<le> capacity s \<and> NULL \<notin> live s"
    and alloc_room: "ok s \<Longrightarrow> card (live s) < capacity s \<Longrightarrow>
      \<exists>a t. alloc s = Some (a, t) \<and> a \<noteq> NULL \<and> a \<notin> live s \<and> live t = insert a (live s) \<and> capacity t = capacity s \<and> ok t"
    and free_live: "ok s \<Longrightarrow> a \<in> live s \<Longrightarrow>
      \<exists>t. free a s = Some t \<and> live t = live s - {a} \<and> capacity t = capacity s \<and> ok t"
begin

definition counted :: "nat \<Rightarrow> 's \<Rightarrow> bool" where
  "counted sem s \<longleftrightarrow> ok s \<and> sem + card (live s) = capacity s"

text \<open>A client that takes the semaphore before it allocates gets a block.\<close>

lemma counted_take:
  assumes "counted (Suc sem) s"
  shows "\<exists>a t. alloc s = Some (a, t) \<and> a \<noteq> NULL \<and> a \<notin> live s \<and> live t = insert a (live s) \<and> counted sem t \<and> capacity t = capacity s"
proof -
  have s: "ok s" "card (live s) < capacity s" using assms by (auto simp: counted_def)
  obtain a t where t: "alloc s = Some (a, t)" "a \<noteq> NULL" "a \<notin> live s" "live t = insert a (live s)" "capacity t = capacity s" "ok t"
    using alloc_room [OF s] by blast
  have "finite (live s)" using live_bound [OF s(1)] by blast
  then have "counted sem t" using assms t by (simp add: counted_def)
  then show ?thesis using t by blast
qed

lemma counted_give:
  assumes "counted sem s" "a \<in> live s"
  shows "\<exists>t. free a s = Some t \<and> live t = live s - {a} \<and> counted (Suc sem) t \<and> capacity t = capacity s"
proof -
  have s: "ok s" using assms(1) by (simp add: counted_def)
  obtain t where t: "free a s = Some t" "live t = live s - {a}" "capacity t = capacity s" "ok t" using free_live [OF s assms(2)] by blast
  have "finite (live s)" using live_bound [OF s] by blast
  then have "Suc (card (live t)) = card (live s)" unfolding t(2) using assms(2) by (rule card_Suc_Diff1)
  then have "counted (Suc sem) t" using assms(1) t by (simp add: counted_def)
  then show ?thesis using t by blast
qed

text \<open>The semaphore is at zero exactly when every block is out.\<close>

lemma counted_empty: "counted sem s \<Longrightarrow> sem = 0 \<longleftrightarrow> card (live s) = capacity s"
  by (auto simp: counted_def)

end

section \<open>A pool of one subpool\<close>

definition no_memory :: "nat \<Rightarrow> ptr" where "no_memory i = NULL"

definition live_blocks :: "pool_state \<Rightarrow> ptr set" where
  "live_blocks s = block_at s ` out_blocks s"

definition pool_capacity :: "pool_state \<Rightarrow> nat" where
  "pool_capacity s = unat (sp_num (sub s 0))"

definition single_pool :: "pool_state \<Rightarrow> bool" where
  "single_pool s \<longleftrightarrow> pool_inv s \<and> bp_num_subpools (pool s) = 1"

lemma single_out:
  assumes "single_pool s"
  shows "out_blocks s = {0} \<times> outs s 0" "card (live_blocks s) = card (outs s 0)" "finite (live_blocks s)"
    "card (live_blocks s) + unat (sp_available (sub s 0)) = pool_capacity s" "inj_on (block_at s) (out_blocks s)"
proof -
  have inv: "pool_inv s" and n: "bp_num_subpools (pool s) = 1" using assms by (auto simp: single_pool_def)
  show out: "out_blocks s = {0} \<times> outs s 0" using out_blocks_Sigma [OF inv] n by (auto simp: lessThan_Suc)
  have st: "4 \<le> stride s" by (rule pool_frameD(7) [OF pool_invD(1) [OF inv]])
  show inj: "inj_on (block_at s) (out_blocks s)"
    unfolding out using head_inj [OF st] by (auto simp: inj_on_def block_at_def)
  have fin: "finite (outs s 0)" by (rule finite_subset [of _ "{..<unat (sp_num (sub s 0))}"]) (auto simp: outs_def)
  show card: "card (live_blocks s) = card (outs s 0)"
    unfolding live_blocks_def using card_image [OF inj] out by (simp add: card_cartesian_product)
  show "finite (live_blocks s)" unfolding live_blocks_def out using fin by simp
  show "card (live_blocks s) + unat (sp_available (sub s 0)) = pool_capacity s"
    unfolding card pool_capacity_def by (rule outs_card [OF inv pool_invD(2) [OF inv]])
qed

text \<open>Neither operation touches the number of subpools.\<close>

lemma extend_from_none: "extend_from no_memory is s = Some (None, s)"
  by (induction "is") (simp_all add: no_memory_def)

lemma select_keeps: "select_subpool no_memory s = Some (r, t) \<Longrightarrow> t = s"
  by (auto simp: select_subpool_def extend_from_none split: option.splits)

lemma take_block_pool: "take_block i s = Some (a, t) \<Longrightarrow> bp_num_subpools (pool t) = bp_num_subpools (pool s)"
  by (auto simp: take_block_def Let_def split: bind_splits)

lemma release_pool: "bp_num_subpools (pool (release_if_empty i s)) = bp_num_subpools (pool s)"
  by (simp add: release_if_empty_def Let_def)

lemma alloc_pool: "blockpool_alloc no_memory s = Some (a, t) \<Longrightarrow> bp_num_subpools (pool t) = bp_num_subpools (pool s)"
  using take_block_pool select_keeps by (fastforce simp: blockpool_alloc_def split: bind_splits option.splits)

lemma free_pool: "blockpool_free a s = Some t \<Longrightarrow> bp_num_subpools (pool t) = bp_num_subpools (pool s)"
  by (auto simp: blockpool_free_def Let_def release_pool split: bind_splits if_splits)

lemma zeroed_block:
  assumes "pool_inv u" "b \<in> out_blocks u"
  shows "pool_inv (u\<lparr>heap := memcpy (block_at u b) (\<lambda>_. 0) (unat (bp_data_size (pool u))) (heap u)\<rparr>)"
    "out_blocks (u\<lparr>heap := memcpy (block_at u b) (\<lambda>_. 0) (unat (bp_data_size (pool u))) (heap u)\<rparr>) = out_blocks u"
proof -
  have m: "memcpy (block_at u b) (\<lambda>_. 0) (unat (bp_data_size (pool u))) (heap u) x = heap u x" if "x \<in> header_bytes u" for x
    using data_not_header [OF assms] that by (auto simp: memcpy_def data_of_def)
  show "pool_inv (u\<lparr>heap := memcpy (block_at u b) (\<lambda>_. 0) (unat (bp_data_size (pool u))) (heap u)\<rparr>)"
    "out_blocks (u\<lparr>heap := memcpy (block_at u b) (\<lambda>_. 0) (unat (bp_data_size (pool u))) (heap u)\<rparr>) = out_blocks u"
    using heap_write [OF assms(1) m] by simp_all
qed

lemma kept_blocks:
  assumes "keeps s t" "pool_inv s"
  shows "b \<in> out_blocks s \<Longrightarrow> block_at t b = block_at s b" "pool_capacity t = pool_capacity s"
  using assms(1) out_blocksD(1) [of b s] pool_invD(2) [OF assms(2)] unfolding keeps_def pool_capacity_def by (cases b; simp)+

lemma calloc_room:
  assumes "single_pool s" "card (live_blocks s) < pool_capacity s"
  shows "\<exists>a t. blockpool_calloc no_memory s = Some (a, t) \<and> a \<noteq> NULL \<and> a \<notin> live_blocks s \<and> live_blocks t = insert a (live_blocks s) \<and>
    pool_capacity t = pool_capacity s \<and> single_pool t"
proof -
  have inv: "pool_inv s" and n: "bp_num_subpools (pool s) = 1" using assms(1) by (auto simp: single_pool_def)
  have "sp_available (sub s 0) > 0" using assms single_out(4) [OF assms(1)] by (auto simp: word_gt_0)
  then have free: "has_free s 0" using pool_invD(2) [OF inv] by (simp add: has_free_def in_use_def)
  have "malloc_ok s no_memory" by (simp add: malloc_ok_def no_memory_def Let_def)
  then obtain a u where u: "blockpool_alloc no_memory s = Some (a, u)" "pool_inv u" "keeps s u"
    "a = NULL \<and> (\<forall>i < unat (bp_num_subpools (pool s)). \<not> has_free s i) \<or>
     (\<exists>b. b \<notin> out_blocks s \<and> a = block_at u b \<and> a \<noteq> NULL \<and> out_blocks u = insert b (out_blocks s))"
    using blockpool_alloc_spec [OF inv] by blast
  then obtain b where b: "b \<notin> out_blocks s" "a = block_at u b" "a \<noteq> NULL" "out_blocks u = insert b (out_blocks s)"
    using free n by auto
  let ?t = "u\<lparr>heap := memcpy a (\<lambda>_. 0) (unat (bp_data_size (pool u))) (heap u)\<rparr>"
  have t: "blockpool_calloc no_memory s = Some (a, ?t)" using u(1) b(3) by (simp add: blockpool_calloc_def)
  note z = zeroed_block [OF u(2), of b, folded b(2)]
  have bu: "b \<in> out_blocks u" using b(4) by simp
  have su: "single_pool u" using u(2) alloc_pool [OF u(1)] n by (simp add: single_pool_def)
  have st: "single_pool ?t" using z(1) [OF bu] su by (simp add: single_pool_def)
  have at: "block_at ?t c = block_at u c" for c by (simp add: block_at_def)
  have old: "block_at u ` out_blocks s = live_blocks s" using kept_blocks(1) [OF u(3) inv] by (simp add: live_blocks_def)
  have "live_blocks ?t = insert a (live_blocks s)" using z(2) [OF bu] b(2,4) old unfolding live_blocks_def [of ?t] at by simp
  moreover have "a \<notin> live_blocks s"
    unfolding old [symmetric] b(2) using single_out(5) [OF su] b(1,4) by (simp add: inj_on_insert)
  moreover have "pool_capacity ?t = pool_capacity s" using kept_blocks(2) [OF u(3) inv] by (simp add: pool_capacity_def)
  ultimately show ?thesis using t b(3) st by blast
qed

lemma free_live_block:
  assumes "single_pool s" "a \<in> live_blocks s"
  shows "\<exists>t. blockpool_free a s = Some t \<and> live_blocks t = live_blocks s - {a} \<and> pool_capacity t = pool_capacity s \<and> single_pool t"
proof -
  have inv: "pool_inv s" and n: "bp_num_subpools (pool s) = 1" using assms(1) by (auto simp: single_pool_def)
  obtain b where b: "b \<in> out_blocks s" "a = block_at s b" using assms(2) by (auto simp: live_blocks_def)
  obtain t where t: "blockpool_free a s = Some t" "pool_inv t" "keeps s t" "out_blocks t = out_blocks s - {b}"
    using blockpool_free_spec [OF inv b(1)] b(2) by blast
  have "block_at t ` (out_blocks s - {b}) = block_at s ` (out_blocks s - {b})" using kept_blocks(1) [OF t(3) inv] by auto
  also have "\<dots> = block_at s ` out_blocks s - {block_at s b}"
    using inj_on_image_set_diff [OF single_out(5) [OF assms(1)], of "out_blocks s" "{b}"] b(1) by simp
  finally have "live_blocks t = live_blocks s - {a}" using t(4) b(2) by (simp add: live_blocks_def)
  then show ?thesis using t(1,2) kept_blocks(2) [OF t(3) inv] free_pool [OF t(1)] n by (simp add: single_pool_def)
qed

interpretation blockpool: block_store "blockpool_calloc no_memory" blockpool_free live_blocks pool_capacity single_pool
proof unfold_locales
  fix s assume "single_pool s"
  then show "finite (live_blocks s) \<and> card (live_blocks s) \<le> pool_capacity s \<and> NULL \<notin> live_blocks s"
    using single_out(3,4) [of s] by (auto simp: live_blocks_def block_at_def HDR_SIZE_def)
qed (use calloc_room free_live_block in blast)+

end
