(* ===== verification/Vcos_Msgqueue.thy ===== *)
theory Vcos_Msgqueue
  imports Oculus_Sched Vcos_Block_Store
begin

text \<open>
  circle/addon/vc4/interface/vcos/vcos_msgqueue.c: message queues, replies and pools of messages. A
  message is linked into a queue through its own \<open>next\<close> field; the semaphore of a queue counts its
  messages and the semaphore of a pool its free blocks. The fields of messages are kept by the address of
  the message, next to the block pools that own the memory of some of them. The mutexes are left out:
  nothing yields while one is held. \<open>None\<close> is a failing assertion, or a wait that does not end.
\<close>

section \<open>State\<close>

definition MSGQ_MAGIC :: u32 where "MSGQ_MAGIC = 0x5147534D"

definition MSG_REPLY_BIT :: u32 where "MSG_REPLY_BIT = push_bit 31 1"

definition MSG_SIZE :: u32 where "MSG_SIZE = 24"

text \<open>A \<open>VCOS_MSG_WAITER_T\<close> by what its \<open>on_reply\<close> is, and the structure that contains it.\<close>

datatype msg_waiter = QueueWaiter ptr | PoolWaiter ptr | SimpleWaiter ptr

record vcos_msg =
  m_magic :: u32
  m_code :: u32
  m_next :: ptr
  m_src_thread :: nat
  m_waiter :: "msg_waiter option"
  m_pool :: ptr

record msgqueue =
  mq_head :: ptr
  mq_tail :: ptr
  mq_sem :: semaphore

record msg_pool =
  mp_blockpool :: pool_state
  mp_sem :: semaphore
  mp_magic :: u32

record msg_state =
  msgs :: "ptr \<Rightarrow> vcos_msg"
  mqueues :: "ptr \<Rightarrow> msgqueue"
  mpools :: "ptr \<Rightarrow> msg_pool"
  simple_sem :: "ptr \<Rightarrow> semaphore"

definition upd_msg :: "ptr \<Rightarrow> (vcos_msg \<Rightarrow> vcos_msg) \<Rightarrow> msg_state \<Rightarrow> msg_state" where
  "upd_msg m f s = s\<lparr>msgs := (msgs s)(m := f (msgs s m))\<rparr>"

definition upd_mqueue :: "ptr \<Rightarrow> (msgqueue \<Rightarrow> msgqueue) \<Rightarrow> msg_state \<Rightarrow> msg_state" where
  "upd_mqueue q f s = s\<lparr>mqueues := (mqueues s)(q := f (mqueues s q))\<rparr>"

definition upd_mpool :: "ptr \<Rightarrow> (msg_pool \<Rightarrow> msg_pool) \<Rightarrow> msg_state \<Rightarrow> msg_state" where
  "upd_mpool p f s = s\<lparr>mpools := (mpools s)(p := f (mpools s p))\<rparr>"

definition upd_simple :: "ptr \<Rightarrow> (semaphore \<Rightarrow> semaphore) \<Rightarrow> msg_state \<Rightarrow> msg_state" where
  "upd_simple w f s = s\<lparr>simple_sem := (simple_sem s)(w := f (simple_sem s w))\<rparr>"

section \<open>Queues\<close>

text \<open>\<open>sem_st\<close> and \<open>mtx_st\<close> are the results of creating the semaphore and the mutex.\<close>

definition vcos_msgq_create :: "vcos_status \<Rightarrow> vcos_status \<Rightarrow> ptr \<Rightarrow> msg_state \<Rightarrow> vcos_status \<times> msg_state" where
  "vcos_msgq_create sem_st mtx_st q s =
     (let s = upd_mqueue q (\<lambda>_. \<lparr>mq_head = NULL, mq_tail = NULL, mq_sem = 0\<rparr>) s
      in if sem_st \<noteq> VCOS_SUCCESS then (sem_st, s) else (mtx_st, s))"

definition msgq_append :: "ptr \<Rightarrow> ptr \<Rightarrow> msg_state \<Rightarrow> msg_state" where
  "msgq_append q m s =
     (if mq_head (mqueues s q) = NULL
      then upd_mqueue q (\<lambda>mq. mq\<lparr>mq_head := m, mq_tail := m\<rparr>) s
      else upd_mqueue q (mq_tail_update (\<lambda>_. m)) (upd_msg (mq_tail (mqueues s q)) (m_next_update (\<lambda>_. m)) s))"

definition queue_on_reply :: "ptr \<Rightarrow> ptr \<Rightarrow> msg_state \<Rightarrow> msg_state" where
  "queue_on_reply q m s = upd_mqueue q (mq_sem_update sem_up) (msgq_append q m s)"

text \<open>\<open>t\<close> is the calling thread.\<close>

definition vcos_msg_send_helper :: "nat \<Rightarrow> msg_waiter option \<Rightarrow> ptr \<Rightarrow> u32 \<Rightarrow> ptr \<Rightarrow> msg_state \<Rightarrow> msg_state option" where
  "vcos_msg_send_helper t waiter dest code m s = do {
     check (m \<noteq> NULL \<and> dest \<noteq> NULL);
     let s = upd_msg m (\<lambda>x. x\<lparr>m_code := code, m_waiter := (if waiter \<noteq> None then waiter else m_waiter x),
               m_next := NULL, m_src_thread := t\<rparr>) s;
     Some (upd_mqueue dest (mq_sem_update sem_up) (msgq_append dest m s))
   }"

text \<open>Take the first message off.\<close>

definition msgq_unlink :: "ptr \<Rightarrow> msg_state \<Rightarrow> msg_state" where
  "msgq_unlink q s =
     (let next = m_next (msgs s (mq_head (mqueues s q)))
      in upd_mqueue q (\<lambda>mq. mq\<lparr>mq_head := next, mq_tail := (if next = NULL then NULL else mq_tail mq)\<rparr>) s)"

definition vcos_msg_wait :: "ptr \<Rightarrow> msg_state sched \<Rightarrow> msg_state \<Rightarrow> (ptr \<times> msg_state \<times> msg_state sched) option" where
  "vcos_msg_wait q ws s = do {
     (s, ws) \<leftarrow> sem_down (\<lambda>s. mq_sem (mqueues s q)) (\<lambda>f. upd_mqueue q (mq_sem_update f)) ws s;
     check (mq_head (mqueues s q) \<noteq> NULL);
     Some (mq_head (mqueues s q), msgq_unlink q s, ws)
   }"

definition vcos_msg_peek :: "ptr \<Rightarrow> msg_state sched \<Rightarrow> msg_state \<Rightarrow> (ptr \<times> msg_state \<times> msg_state sched) option" where
  "vcos_msg_peek q ws s =
     (let m = mq_head (mqueues s q)
      in if m \<noteq> NULL
         then do {
           (s, ws) \<leftarrow> sem_down (\<lambda>s. mq_sem (mqueues s q)) (\<lambda>f. upd_mqueue q (mq_sem_update f)) ws (msgq_unlink q s);
           Some (m, s, ws)
         }
         else Some (NULL, s, ws))"

definition vcos_msg_send :: "nat \<Rightarrow> ptr \<Rightarrow> u32 \<Rightarrow> ptr \<Rightarrow> msg_state \<Rightarrow> msg_state option" where
  "vcos_msg_send t dest code m s = do {
     check (m_magic (msgs s m) = MSGQ_MAGIC);
     vcos_msg_send_helper t None dest code m s
   }"

text \<open>The waiter is at \<open>w\<close> on the stack of the caller; \<open>sem_st\<close> is the result of creating its semaphore.\<close>

definition vcos_msg_sendwait ::
  "nat \<Rightarrow> ptr \<Rightarrow> vcos_status \<Rightarrow> ptr \<Rightarrow> u32 \<Rightarrow> ptr \<Rightarrow> msg_state sched \<Rightarrow> msg_state
    \<Rightarrow> (vcos_status \<times> msg_state \<times> msg_state sched) option" where
  "vcos_msg_sendwait t w sem_st dest code m ws s = do {
     check (m_magic (msgs s m) = MSGQ_MAGIC);
     check (m_waiter (msgs s m) = None);
     if sem_st \<noteq> VCOS_SUCCESS then Some (sem_st, s, ws)
     else do {
       s \<leftarrow> vcos_msg_send_helper t (Some (SimpleWaiter w)) dest code m (upd_simple w (\<lambda>_. 0) s);
       (s, ws) \<leftarrow> sem_down (\<lambda>s. simple_sem s w) (\<lambda>f. upd_simple w f) ws s;
       Some (VCOS_SUCCESS, s, ws)
     }
   }"

section \<open>Pools\<close>

text \<open>\<open>mem\<close> is what \<open>vcos_malloc\<close> returns for the blocks.\<close>

definition vcos_msgq_pool_create ::
  "ptr \<Rightarrow> vcos_status \<Rightarrow> u32 \<Rightarrow> u32 \<Rightarrow> ptr \<Rightarrow> msg_state \<Rightarrow> (vcos_status \<times> msg_state) option" where
  "vcos_msgq_pool_create mem sem_st count payload_size p s = do {
     (status, bp) \<leftarrow> blockpool_create_on_heap mem count (payload_size + MSG_SIZE) ALIGN_DEFAULT (mp_blockpool (mpools s p));
     if status \<noteq> VCOS_SUCCESS then Some (status, upd_mpool p (mp_blockpool_update (\<lambda>_. bp)) s)
     else if sem_st \<noteq> VCOS_SUCCESS
     then do {
       bp \<leftarrow> blockpool_delete bp;
       Some (sem_st, upd_mpool p (mp_blockpool_update (\<lambda>_. bp)) s)
     }
     else Some (VCOS_SUCCESS, upd_mpool p (\<lambda>_. \<lparr>mp_blockpool = bp, mp_sem = unat count, mp_magic = MSGQ_MAGIC\<rparr>) s)
   }"

definition vcos_msgq_pool_delete :: "ptr \<Rightarrow> msg_state \<Rightarrow> msg_state option" where
  "vcos_msgq_pool_delete p s = do {
     bp \<leftarrow> blockpool_delete (mp_blockpool (mpools s p));
     Some (upd_mpool p (mp_blockpool_update (\<lambda>_. bp)) s)
   }"

text \<open>A zeroed block becomes a message of the pool.\<close>

definition take_message :: "ptr \<Rightarrow> msg_state \<Rightarrow> (ptr \<times> msg_state) option" where
  "take_message p s = do {
     (m, bp) \<leftarrow> blockpool_calloc no_memory (mp_blockpool (mpools s p));
     check (m \<noteq> NULL);
     Some (m, upd_msg m (\<lambda>_. \<lparr>m_magic = MSGQ_MAGIC, m_code = 0, m_next = NULL, m_src_thread = 0,
                m_waiter = Some (PoolWaiter p), m_pool = p\<rparr>)
              (upd_mpool p (mp_blockpool_update (\<lambda>_. bp)) s))
   }"

definition vcos_msgq_pool_alloc :: "ptr \<Rightarrow> msg_state \<Rightarrow> (ptr \<times> msg_state) option" where
  "vcos_msgq_pool_alloc p s =
     (let (busy, n) = sem_trylock (mp_sem (mpools s p))
      in if busy = 0 then take_message p (upd_mpool p (mp_sem_update (\<lambda>_. n)) s) else Some (NULL, s))"

definition vcos_msgq_pool_free :: "ptr \<Rightarrow> msg_state \<Rightarrow> msg_state option" where
  "vcos_msgq_pool_free m s =
     (if m = NULL then Some s
      else do {
        check (m_pool (msgs s m) \<noteq> NULL);
        let p = m_pool (msgs s m);
        check (mp_magic (mpools s p) = MSGQ_MAGIC);
        bp \<leftarrow> blockpool_free m (mp_blockpool (mpools s p));
        Some (upd_mpool p (\<lambda>mp. mp\<lparr>mp_blockpool := bp, mp_sem := sem_up (mp_sem mp)\<rparr>) s)
      })"

definition vcos_msgq_pool_wait :: "ptr \<Rightarrow> msg_state sched \<Rightarrow> msg_state \<Rightarrow> (ptr \<times> msg_state \<times> msg_state sched) option" where
  "vcos_msgq_pool_wait p ws s = do {
     (s, ws) \<leftarrow> sem_down (\<lambda>s. mp_sem (mpools s p)) (\<lambda>f. upd_mpool p (mp_sem_update f)) ws s;
     (m, s) \<leftarrow> take_message p s;
     Some (m, s, ws)
   }"

section \<open>Replies\<close>

definition pool_on_reply :: "ptr \<Rightarrow> msg_state \<Rightarrow> msg_state option" where
  "pool_on_reply m s = do {
     check (m_magic (msgs s m) = MSGQ_MAGIC);
     vcos_msgq_pool_free m s
   }"

definition vcos_msg_reply :: "ptr \<Rightarrow> msg_state \<Rightarrow> msg_state option" where
  "vcos_msg_reply m s = do {
     check (m_magic (msgs s m) = MSGQ_MAGIC);
     let s = upd_msg m (m_code_update (\<lambda>c. c OR MSG_REPLY_BIT)) s;
     (case m_waiter (msgs s m) of
        None \<Rightarrow> None
      | Some (QueueWaiter q) \<Rightarrow> Some (queue_on_reply q m s)
      | Some (PoolWaiter p) \<Rightarrow> pool_on_reply m s
      | Some (SimpleWaiter w) \<Rightarrow> Some (upd_simple w sem_up s))
   }"

definition vcos_msg_set_source :: "ptr \<Rightarrow> ptr \<Rightarrow> msg_state \<Rightarrow> msg_state option" where
  "vcos_msg_set_source m q s = do {
     check (m \<noteq> NULL \<and> m_magic (msgs s m) = MSGQ_MAGIC \<and> q \<noteq> NULL);
     Some (upd_msg m (m_waiter_update (\<lambda>_. Some (QueueWaiter q))) s)
   }"

definition vcos_msg_init :: "ptr \<Rightarrow> msg_state \<Rightarrow> msg_state" where
  "vcos_msg_init m = upd_msg m (\<lambda>x. x\<lparr>m_magic := MSGQ_MAGIC, m_next := NULL, m_waiter := None, m_pool := NULL\<rparr>)"

end
