(* ===== verification/Vcos_Messages.thy ===== *)
theory Vcos_Messages
  imports Vcos_Waiters Vcos_Msgqueue
begin

text \<open>
  What the message queues of Vcos_Msgqueue promise: in every history of sends, waits, peeks and replies
  each queue is the list of the messages that were delivered and not yet taken, its semaphore is the
  length of that list, and a wait ends as soon as there is a message. Replies are part of the histories
  only for messages whose \<open>next\<close> field is NULL; the last theorems show what happens otherwise.
\<close>

section \<open>The list of a queue\<close>

lemma msg_state_simps [simp]:
  "msgs (upd_msg m f s) = (msgs s)(m := f (msgs s m))" "mqueues (upd_msg m f s) = mqueues s" "mpools (upd_msg m f s) = mpools s"
  "simple_sem (upd_msg m f s) = simple_sem s"
  "mqueues (upd_mqueue q g s) = (mqueues s)(q := g (mqueues s q))" "msgs (upd_mqueue q g s) = msgs s" "mpools (upd_mqueue q g s) = mpools s"
  "simple_sem (upd_mqueue q g s) = simple_sem s"
  "mpools (upd_mpool p h s) = (mpools s)(p := h (mpools s p))" "msgs (upd_mpool p h s) = msgs s" "mqueues (upd_mpool p h s) = mqueues s"
  "simple_sem (upd_mpool p h s) = simple_sem s"
  "simple_sem (upd_simple w k s) = (simple_sem s)(w := k (simple_sem s w))" "msgs (upd_simple w k s) = msgs s"
  "mqueues (upd_simple w k s) = mqueues s" "mpools (upd_simple w k s) = mpools s"
  by (simp_all add: upd_msg_def upd_mqueue_def upd_mpool_def upd_simple_def)

definition queue_holds :: "msg_state \<Rightarrow> ptr \<Rightarrow> ptr list \<Rightarrow> bool" where
  "queue_holds s q ms \<longleftrightarrow> linked_from (\<lambda>m. m_next (msgs s m)) (mq_head (mqueues s q)) ms \<and> distinct ms \<and>
     mq_tail (mqueues s q) = last_or ms \<and> mq_sem (mqueues s q) = List.length ms"

lemma queue_holds_cong:
  assumes "queue_holds s q ms" "mqueues t q = mqueues s q" "\<And>m. m \<in> set ms \<Longrightarrow> m_next (msgs t m) = m_next (msgs s m)"
  shows "queue_holds t q ms"
  using assms(1,2) linked_from_cong [OF _ assms(3)] by (simp add: queue_holds_def)

lemma queue_holds_head: "queue_holds s q ms \<Longrightarrow> mq_head (mqueues s q) = (case ms of [] \<Rightarrow> NULL | m # _ \<Rightarrow> m)"
  by (cases ms) (auto simp: queue_holds_def)

lemma queue_holds_nonnull: "queue_holds s q ms \<Longrightarrow> m \<in> set ms \<Longrightarrow> m \<noteq> NULL"
  using linked_nonnull by (auto simp: queue_holds_def)

text \<open>Appending a message whose \<open>next\<close> is NULL, then counting it\<close>

lemma append_holds:
  assumes "queue_holds s q ms" "m \<notin> set ms" "m \<noteq> NULL" "m_next (msgs s m) = NULL"
  shows "queue_holds (upd_mqueue q (mq_sem_update sem_up) (msgq_append q m s)) q (ms @ [m])"
proof (cases "ms = []")
  case True
  then show ?thesis using assms by (simp add: queue_holds_def msgq_append_def last_or_def sem_up_def)
next
  case False
  let ?nx = "\<lambda>x. m_next (msgs s x)"
  have h: "linked_from ?nx (mq_head (mqueues s q)) ms" "distinct ms" "mq_tail (mqueues s q) = last ms" "mq_sem (mqueues s q) = List.length ms"
    using assms(1) False by (simp_all add: queue_holds_def last_or_def)
  have "?nx(m := NULL) = ?nx" using assms(4) by (simp add: fun_eq_iff)
  then have "linked_from (?nx(last ms := m)) (mq_head (mqueues s q)) (ms @ [m])"
    using linked_add [OF h(1,2) False assms(2,3)] by simp
  moreover have "mq_head (mqueues s q) \<noteq> NULL" using queue_holds_head [OF assms(1)] queue_holds_nonnull [OF assms(1)] False by (cases ms) auto
  moreover have "(\<lambda>x. m_next (((msgs s)(last ms := m_next_update (\<lambda>_. m) (msgs s (last ms)))) x)) = ?nx(last ms := m)" by (simp add: fun_eq_iff)
  ultimately show ?thesis
    unfolding queue_holds_def using h assms(2) False by (simp add: msgq_append_def last_or_def sem_up_def)
qed

text \<open>Appending changes no other queue, and no other \<open>next\<close> than the one of the last message.\<close>

lemma append_elsewhere:
  "r \<noteq> q \<Longrightarrow> mqueues (msgq_append q m s) r = mqueues s r"
  "x \<noteq> mq_tail (mqueues s q) \<Longrightarrow> m_next (msgs (msgq_append q m s) x) = m_next (msgs s x)"
  "mq_head (mqueues s q) = NULL \<Longrightarrow> msgs (msgq_append q m s) = msgs s"
  by (simp_all add: msgq_append_def)

lemma append_others:
  assumes "queue_holds s q ms" "queue_holds s r ns" "r \<noteq> q" "set ms \<inter> set ns = {}"
  shows "queue_holds (upd_mqueue q (mq_sem_update sem_up) (msgq_append q m s)) r ns"
proof (rule queue_holds_cong [OF assms(2)])
  show "mqueues (upd_mqueue q (mq_sem_update sem_up) (msgq_append q m s)) r = mqueues s r" using assms(3) append_elsewhere(1) by simp
  fix x assume x: "x \<in> set ns"
  show "m_next (msgs (upd_mqueue q (mq_sem_update sem_up) (msgq_append q m s)) x) = m_next (msgs s x)"
  proof (cases "ms = []")
    case True
    then show ?thesis using append_elsewhere(3) queue_holds_head [OF assms(1)] by simp
  next
    case False
    then have "x \<noteq> mq_tail (mqueues s q)" using assms(1,4) x last_in_set [OF False] unfolding disjoint_iff by (auto simp: queue_holds_def last_or_def)
    then show ?thesis using append_elsewhere(2) by simp
  qed
qed

text \<open>Taking the first message\<close>

lemma unlink_holds:
  assumes "queue_holds s q (m # ms)"
  shows "queue_holds (upd_mqueue q (mq_sem_update (\<lambda>c. c - 1)) (msgq_unlink q s)) q ms"
proof -
  have h: "mq_head (mqueues s q) = m" "linked_from (\<lambda>x. m_next (msgs s x)) (m_next (msgs s m)) ms" "distinct ms"
    "mq_tail (mqueues s q) = last (m # ms)" "mq_sem (mqueues s q) = Suc (List.length ms)"
    using assms by (auto simp: queue_holds_def last_or_def)
  have "m_next (msgs s m) = NULL \<longleftrightarrow> ms = []" using h(2) by (cases ms) auto
  then show ?thesis using h by (auto simp: queue_holds_def msgq_unlink_def last_or_def Let_def)
qed

definition dequeued :: "ptr \<Rightarrow> msg_state \<Rightarrow> msg_state" where
  "dequeued q s = upd_mqueue q (mq_sem_update (\<lambda>c. c - 1)) (msgq_unlink q s)"

lemma dequeued_elsewhere [simp]: "msgs (dequeued q s) = msgs s" "r \<noteq> q \<Longrightarrow> mqueues (dequeued q s) r = mqueues s r"
  by (simp_all add: dequeued_def msgq_unlink_def Let_def)

text \<open>A wait and a peek on a queue that holds \<open>ms\<close>\<close>

lemma wait_now:
  assumes "queue_holds s q (m # ms)"
  shows "vcos_msg_wait q ws s = Some (m, dequeued q s, ws)"
proof -
  have "mq_sem (mqueues s q) \<noteq> 0" "mq_head (mqueues s q) = m" "m \<noteq> NULL" using assms by (auto simp: queue_holds_def)
  moreover have "msgq_unlink q (upd_mqueue q (mq_sem_update (\<lambda>c. c - 1)) s) = dequeued q s"
    by (cases "mqueues s q") (simp add: msgq_unlink_def dequeued_def upd_mqueue_def Let_def)
  ultimately show ?thesis by (simp add: vcos_msg_wait_def sem_down_now check_def)
qed

lemma peek_now:
  assumes "queue_holds s q ms"
  shows "vcos_msg_peek q ws s = Some (case ms of [] \<Rightarrow> (NULL, s, ws) | m # _ \<Rightarrow> (m, dequeued q s, ws))"
proof (cases ms)
  case Nil
  then show ?thesis using queue_holds_head [OF assms] by (simp add: vcos_msg_peek_def)
next
  case (Cons m ns)
  then have "mq_head (mqueues s q) = m" "m \<noteq> NULL" "mq_sem (mqueues (msgq_unlink q s) q) \<noteq> 0"
    using assms by (auto simp: queue_holds_def msgq_unlink_def Let_def)
  then show ?thesis using Cons by (simp add: vcos_msg_peek_def sem_down_now dequeued_def)
qed

lemma wait_blocks: "queue_holds s q [] \<Longrightarrow> vcos_msg_wait q [] s = None"
  by (simp add: vcos_msg_wait_def sem_down_def queue_holds_def)

section \<open>Histories\<close>

text \<open>
  The messages delivered to each queue and those taken from it, in order. A message is not sent while
  a queue holds it; two threads that wait for the same queue are two \<open>take\<close> steps.
\<close>

definition pending :: "(ptr \<Rightarrow> ptr list) \<Rightarrow> (ptr \<Rightarrow> ptr list) \<Rightarrow> ptr \<Rightarrow> ptr list" where
  "pending d k q = drop (List.length (k q)) (d q)"

definition queued :: "ptr set \<Rightarrow> (ptr \<Rightarrow> ptr list) \<Rightarrow> (ptr \<Rightarrow> ptr list) \<Rightarrow> ptr set" where
  "queued Q d k = (\<Union>q \<in> Q. set (pending d k q))"

definition add_last :: "ptr \<Rightarrow> ptr \<Rightarrow> (ptr \<Rightarrow> ptr list) \<Rightarrow> ptr \<Rightarrow> ptr list" where
  "add_last q m d = d(q := d q @ [m])"

inductive msgq_run :: "msg_state \<Rightarrow> ptr set \<Rightarrow> (ptr \<Rightarrow> ptr list) \<Rightarrow> (ptr \<Rightarrow> ptr list) \<Rightarrow> bool" where
  start: "msgq_run s {} (\<lambda>_. []) (\<lambda>_. [])"
| create: "msgq_run s Q d k \<Longrightarrow> q \<notin> Q \<Longrightarrow> q \<noteq> NULL \<Longrightarrow> vcos_msgq_create VCOS_SUCCESS VCOS_SUCCESS q s = (VCOS_SUCCESS, t) \<Longrightarrow>
    msgq_run t (insert q Q) (d(q := [])) (k(q := []))"
| send: "msgq_run s Q d k \<Longrightarrow> q \<in> Q \<Longrightarrow> m \<notin> queued Q d k \<Longrightarrow> vcos_msg_send th q code m s = Some t \<Longrightarrow>
    msgq_run t Q (add_last q m d) k"
| send_waiting: "msgq_run s Q d k \<Longrightarrow> q \<in> Q \<Longrightarrow> m \<notin> queued Q d k \<Longrightarrow>
    vcos_msg_send_helper th (Some (SimpleWaiter w)) q code m (upd_simple w (\<lambda>_. 0) s) = Some t \<Longrightarrow> msgq_run t Q (add_last q m d) k"
| take: "msgq_run s Q d k \<Longrightarrow> q \<in> Q \<Longrightarrow> vcos_msg_wait q [] s = Some (m, t, ws) \<Longrightarrow> msgq_run t Q d (add_last q m k)"
| peek: "msgq_run s Q d k \<Longrightarrow> q \<in> Q \<Longrightarrow> vcos_msg_peek q [] s = Some (m, t, ws) \<Longrightarrow>
    msgq_run t Q d (if m = NULL then k else add_last q m k)"
| reply: "msgq_run s Q d k \<Longrightarrow> q \<in> Q \<Longrightarrow> m \<notin> queued Q d k \<Longrightarrow> m \<noteq> NULL \<Longrightarrow> m_waiter (msgs s m) = Some (QueueWaiter q) \<Longrightarrow>
    m_next (msgs s m) = NULL \<Longrightarrow> vcos_msg_reply m s = Some t \<Longrightarrow> msgq_run t Q (add_last q m d) k"
| other: "msgq_run s Q d k \<Longrightarrow> (\<And>q. q \<in> Q \<Longrightarrow> mqueues t q = mqueues s q) \<Longrightarrow>
    (\<And>m. m \<in> queued Q d k \<Longrightarrow> m_next (msgs t m) = m_next (msgs s m)) \<Longrightarrow> msgq_run t Q d k"

definition msgq_inv :: "msg_state \<Rightarrow> ptr set \<Rightarrow> (ptr \<Rightarrow> ptr list) \<Rightarrow> (ptr \<Rightarrow> ptr list) \<Rightarrow> bool" where
  "msgq_inv s Q d k \<longleftrightarrow> NULL \<notin> Q \<and> (\<forall>q \<in> Q. queue_holds s q (pending d k q) \<and> d q = k q @ pending d k q) \<and>
     (\<forall>q \<in> Q. \<forall>r \<in> Q. q \<noteq> r \<longrightarrow> set (pending d k q) \<inter> set (pending d k r) = {})"

lemma msgq_invD:
  assumes "msgq_inv s Q d k" "q \<in> Q"
  shows "queue_holds s q (pending d k q)" "d q = k q @ pending d k q" "q \<noteq> NULL"
    "r \<in> Q \<Longrightarrow> q \<noteq> r \<Longrightarrow> set (pending d k q) \<inter> set (pending d k r) = {}"
proof -
  show "queue_holds s q (pending d k q)" "d q = k q @ pending d k q" using assms unfolding msgq_inv_def by auto
  show "q \<noteq> NULL" using assms unfolding msgq_inv_def by metis
  show "r \<in> Q \<Longrightarrow> q \<noteq> r \<Longrightarrow> set (pending d k q) \<inter> set (pending d k r) = {}" using assms unfolding msgq_inv_def by blast
qed

lemma pending_deliver:
  assumes "d q = k q @ pending d k q"
  shows "pending (add_last q m d) k q = pending d k q @ [m]" "r \<noteq> q \<Longrightarrow> pending (add_last q m d) k r = pending d k r"
    "add_last q m d q = k q @ pending (add_last q m d) k q"
proof -
  have "List.length (k q) \<le> List.length (d q)" by (subst assms) simp
  then show "pending (add_last q m d) k q = pending d k q @ [m]" by (simp add: pending_def add_last_def)
  then show "add_last q m d q = k q @ pending (add_last q m d) k q" using assms by (simp add: add_last_def)
qed (simp add: pending_def add_last_def)

lemma pending_take:
  assumes "d q = k q @ pending d k q" "pending d k q = m # ms"
  shows "pending d (add_last q m k) q = ms" "r \<noteq> q \<Longrightarrow> pending d (add_last q m k) r = pending d k r"
    "d q = add_last q m k q @ pending d (add_last q m k) q"
proof -
  have dq: "d q = k q @ m # ms" using assms by simp
  show p: "pending d (add_last q m k) q = ms" unfolding pending_def dq by (simp add: add_last_def)
  show "d q = add_last q m k q @ pending d (add_last q m k) q" unfolding p dq by (simp add: add_last_def)
qed (simp add: pending_def add_last_def)

lemma deliver_inv:
  assumes inv: "msgq_inv s Q d k" and q: "q \<in> Q" and m: "m \<notin> queued Q d k" "m \<noteq> NULL" "m_next (msgs s m) = NULL"
  shows "msgq_inv (upd_mqueue q (mq_sem_update sem_up) (msgq_append q m s)) Q (add_last q m d) k" (is "msgq_inv ?t Q ?d k")
proof -
  note iq = msgq_invD [OF inv q] and p = pending_deliver [where d = d and q = q and k = k and m = m, OF msgq_invD(2) [OF inv q]]
  have "queue_holds ?t r (pending ?d k r)" "?d r = k r @ pending ?d k r" if r: "r \<in> Q" for r
  proof -
    have "m \<notin> set (pending d k q)" using m(1) q by (auto simp: queued_def)
    note here = append_holds [OF iq(1) this m(2,3)]
    show "queue_holds ?t r (pending ?d k r)"
      using here p(1) p(2) [of r] append_others [OF iq(1) msgq_invD(1) [OF inv r]] iq(4) [OF r] by (cases "r = q") auto
    show "?d r = k r @ pending ?d k r"
      using p(3) p(2) [of r] msgq_invD(2) [OF inv r] by (cases "r = q") (simp_all add: add_last_def)
  qed
  moreover have "set (pending ?d k a) \<inter> set (pending ?d k b) = {}" if "a \<in> Q" "b \<in> Q" "a \<noteq> b" for a b
    using msgq_invD(4) [OF inv that(1) that(2,3)] p(1) p(2) [of a] p(2) [of b] m(1) that by (cases "a = q"; cases "b = q") (auto simp: queued_def)
  ultimately show ?thesis using iq(3) inv by (simp add: msgq_inv_def)
qed

lemma take_inv:
  assumes inv: "msgq_inv s Q d k" and q: "q \<in> Q" and m: "pending d k q = m # ms"
  shows "msgq_inv (dequeued q s) Q d (add_last q m k)"
proof -
  note iq = msgq_invD [OF inv q] and p = pending_take [where d = d and q = q and k = k and m = m, OF msgq_invD(2) [OF inv q] m]
  have "queue_holds (dequeued q s) r (pending d (add_last q m k) r)" "d r = add_last q m k r @ pending d (add_last q m k) r" if r: "r \<in> Q" for r
  proof -
    show "queue_holds (dequeued q s) r (pending d (add_last q m k) r)"
    proof (cases "r = q")
      case True
      then show ?thesis using unlink_holds [of s q m ms] iq(1) m p(1) by (simp add: dequeued_def)
    next
      case False
      then show ?thesis using queue_holds_cong [OF msgq_invD(1) [OF inv r], of "dequeued q s"] p(2) by simp
    qed
    show "d r = add_last q m k r @ pending d (add_last q m k) r"
      using p(3) p(2) [of r] msgq_invD(2) [OF inv r] by (cases "r = q") (simp_all add: add_last_def)
  qed
  moreover have "set (pending d (add_last q m k) a) \<inter> set (pending d (add_last q m k) b) = {}" if "a \<in> Q" "b \<in> Q" "a \<noteq> b" for a b
    using msgq_invD(4) [OF inv that(1) that(2,3)] p(1) p(2) [of a] p(2) [of b] m that by (cases "a = q"; cases "b = q") auto
  ultimately show ?thesis using iq(3) inv by (simp add: msgq_inv_def)
qed

lemma msgq_inv_cong:
  assumes "msgq_inv s Q d k" "\<And>q. q \<in> Q \<Longrightarrow> mqueues t q = mqueues s q"
    "\<And>m. m \<in> queued Q d k \<Longrightarrow> m_next (msgs t m) = m_next (msgs s m)"
  shows "msgq_inv t Q d k"
proof -
  have "queue_holds t q (pending d k q)" if "q \<in> Q" for q
    by (rule queue_holds_cong [OF msgq_invD(1) [OF assms(1) that] assms(2) [OF that]]) (use assms(3) that in \<open>auto simp: queued_def\<close>)
  then show ?thesis using assms(1) by (simp add: msgq_inv_def)
qed

lemma send_helper_inv:
  assumes inv: "msgq_inv s Q d k" "q \<in> Q" "m \<notin> queued Q d k" and t: "vcos_msg_send_helper th w q code m s = Some t"
  shows "msgq_inv t Q (add_last q m d) k"
proof -
  let ?s = "upd_msg m (\<lambda>x. x\<lparr>m_code := code, m_waiter := (if w \<noteq> None then w else m_waiter x), m_next := NULL, m_src_thread := th\<rparr>) s"
  have m: "m \<noteq> NULL" "t = upd_mqueue q (mq_sem_update sem_up) (msgq_append q m ?s)"
    using t by (simp_all add: vcos_msg_send_helper_def check_def Let_def split: bind_splits if_splits)
  have "msgq_inv ?s Q d k" by (rule msgq_inv_cong [OF inv(1)]) (use inv(3) in auto)
  then show ?thesis unfolding m(2) by (rule deliver_inv [OF _ inv(2,3) m(1)]) simp
qed

lemma create_inv:
  assumes inv: "msgq_inv s Q d k" "q \<notin> Q" "q \<noteq> NULL" and t: "vcos_msgq_create VCOS_SUCCESS VCOS_SUCCESS q s = (VCOS_SUCCESS, t)"
  shows "msgq_inv t (insert q Q) (d(q := [])) (k(q := []))"
proof -
  have mq: "mqueues t = (mqueues s)(q := \<lparr>mq_head = NULL, mq_tail = NULL, mq_sem = 0\<rparr>)" "msgs t = msgs s"
    using t by (auto simp: vcos_msgq_create_def Let_def)
  have p: "pending (d(q := [])) (k(q := [])) r = (if r = q then [] else pending d k r)" for r by (simp add: pending_def)
  have "queue_holds t q []" by (simp add: queue_holds_def mq last_or_def)
  moreover have "queue_holds t r (pending d k r)" if "r \<in> Q" for r
    by (rule queue_holds_cong [OF msgq_invD(1) [OF inv(1) that]]) (use inv(2) that in \<open>auto simp: mq\<close>)
  ultimately show ?thesis using inv unfolding msgq_inv_def p by auto
qed

lemma take_cases:
  assumes inv: "msgq_inv s Q d k" "q \<in> Q"
  shows "vcos_msg_wait q [] s = Some (m, t, ws) \<Longrightarrow> msgq_inv t Q d (add_last q m k)"
    "vcos_msg_peek q [] s = Some (m, t, ws) \<Longrightarrow> msgq_inv t Q d (if m = NULL then k else add_last q m k)"
proof -
  note h = msgq_invD(1) [OF inv]
  show "msgq_inv t Q d (add_last q m k)" if "vcos_msg_wait q [] s = Some (m, t, ws)"
  proof (cases "pending d k q")
    case Nil
    then show ?thesis using wait_blocks [of s q] h that by simp
  next
    case (Cons n ns)
    then show ?thesis using wait_now [of s q n ns "[]"] h that take_inv [OF inv Cons] by simp
  qed
  show "msgq_inv t Q d (if m = NULL then k else add_last q m k)" if "vcos_msg_peek q [] s = Some (m, t, ws)"
  proof (cases "pending d k q")
    case Nil
    then show ?thesis using peek_now [OF h, of "[]"] that inv(1) by simp
  next
    case (Cons n ns)
    have "n \<noteq> NULL" using queue_holds_nonnull [OF h] Cons by simp
    then show ?thesis using Cons peek_now [OF h, of "[]"] that take_inv [OF inv Cons] by simp
  qed
qed

lemma reply_queue:
  assumes "m_waiter (msgs s m) = Some (QueueWaiter q)" "vcos_msg_reply m s = Some t"
  shows "t = upd_mqueue q (mq_sem_update sem_up) (msgq_append q m (upd_msg m (m_code_update (\<lambda>c. c OR MSG_REPLY_BIT)) s))"
  using assms by (simp add: vcos_msg_reply_def queue_on_reply_def check_def Let_def split: bind_splits if_splits)

lemma msgq_run_inv: "msgq_run s Q d k \<Longrightarrow> msgq_inv s Q d k"
proof (induction rule: msgq_run.induct)
  case start
  show ?case by (simp add: msgq_inv_def)
next
  case create
  then show ?case using create_inv by blast
next
  case send
  then show ?case using send_helper_inv by (fastforce simp: vcos_msg_send_def split: bind_splits)
next
  case (send_waiting s Q d k q m th w code t)
  have "msgq_inv (upd_simple w (\<lambda>_. 0) s) Q d k" by (rule msgq_inv_cong [OF send_waiting.IH]) simp_all
  from send_helper_inv [OF this] show ?case using send_waiting.hyps by blast
next
  case take
  then show ?case using take_cases(1) by blast
next
  case peek
  then show ?case using take_cases(2) by blast
next
  case (reply s Q d k q m t)
  let ?s = "upd_msg m (m_code_update (\<lambda>c. c OR MSG_REPLY_BIT)) s"
  have "msgq_inv ?s Q d k" by (rule msgq_inv_cong [OF reply.IH]) auto
  then have "msgq_inv (upd_mqueue q (mq_sem_update sem_up) (msgq_append q m ?s)) Q (add_last q m d) k"
    by (rule deliver_inv) (use reply.hyps in simp_all)
  then show ?case using reply_queue reply.hyps by simp
next
  case (other s Q d k t)
  show ?case by (rule msgq_inv_cong [OF other.IH]) (use other.hyps in auto)
qed

section \<open>Properties\<close>



text \<open>
  C32. The restriction on replies in the histories is needed. A reply appends the message without
  clearing its \<open>next\<close>, which a wait leaves pointing to the message behind: after a reply to a message that was
  taken while another one waited behind it, the queue of the replies leads on into the queue of the
  requests with its semaphore at 0, so that both have the same head and a peek, which should return NULL,
  blocks with the lock of the queue held.
\<close>

theorem reply_mixes_queues:
  assumes "msgq_run s Q d k" "q \<in> Q" "r \<in> Q" "q \<noteq> r" "pending d k q = m # n # ms" "pending d k r = []"
    and "m_magic (msgs s m) = MSGQ_MAGIC" "m_waiter (msgs s m) = Some (QueueWaiter r)"
  shows "\<exists>t u v. vcos_msg_wait q [] s = Some (m, t, []) \<and> vcos_msg_reply m t = Some u \<and> vcos_msg_wait r [] u = Some (m, v, []) \<and>
    mq_sem (mqueues v r) = 0 \<and> mq_head (mqueues v r) = n \<and> mq_head (mqueues v q) = n \<and> vcos_msg_peek r [] v = None"
proof -
  have inv: "msgq_inv s Q d k" by (rule msgq_run_inv [OF assms(1)])
  note hq = msgq_invD(1) [OF inv assms(2), unfolded assms(5)] and hr = msgq_invD(1) [OF inv assms(3), unfolded assms(6)]
  have m: "m \<noteq> NULL" "n \<noteq> NULL" "m_next (msgs s m) = n" "mq_head (mqueues s q) = m" using hq by (auto simp: queue_holds_def)
  have r: "mq_head (mqueues s r) = NULL" "mq_sem (mqueues s r) = 0" using hr by (simp_all add: queue_holds_def)
  let ?t = "dequeued q s"
  let ?t' = "upd_msg m (m_code_update (\<lambda>c. c OR MSG_REPLY_BIT)) ?t"
  let ?u = "upd_mqueue r (mq_sem_update sem_up) (msgq_append r m ?t')"
  let ?v = "upd_mqueue r (\<lambda>mq. mq\<lparr>mq_head := n, mq_tail := m, mq_sem := 0\<rparr>) ?t'"
  have t: "vcos_msg_wait q [] s = Some (m, ?t, [])" by (rule wait_now [OF hq])
  have "vcos_msg_reply m ?t = Some ?u" using assms(7,8) by (simp add: vcos_msg_reply_def queue_on_reply_def check_def Let_def)
  moreover have u: "mqueues ?u r = (mqueues s r)\<lparr>mq_head := m, mq_tail := m, mq_sem := 1\<rparr>" "m_next (msgs ?u m) = n"
    using r m(3) assms(4) by (simp_all add: msgq_append_def sem_up_def)
  have "vcos_msg_wait r [] ?u = Some (m, msgq_unlink r (upd_mqueue r (mq_sem_update (\<lambda>c. c - 1)) ?u), [])"
    using u m(1) unfolding vcos_msg_wait_def by (subst sem_down_now) (simp_all add: check_def)
  moreover have "mqueues (msgq_unlink r (upd_mqueue r (mq_sem_update (\<lambda>c. c - 1)) ?u)) r = (mqueues s r)\<lparr>mq_head := n, mq_tail := m, mq_sem := 0\<rparr>"
    (is "mqueues ?v r = _")
    using u m(2) by (simp add: msgq_unlink_def Let_def)
  moreover have "mqueues ?v q = mqueues ?t q" using assms(4) by (simp add: msgq_unlink_def msgq_append_def Let_def)
  moreover have "mq_head (mqueues ?t q) = n" using m(3,4) by (simp add: dequeued_def msgq_unlink_def Let_def)
  ultimately show ?thesis
    using t m(2) by (intro exI [of _ ?t] exI [of _ ?u] exI [of _ ?v]) (simp add: vcos_msg_peek_def sem_down_def msgq_unlink_def Let_def)
qed

text \<open>
  A message can be used for \<open>vcos_msg_sendwait\<close> only once: after the call has returned the message still
  names the waiter, which was on the stack of the call, so that a second call fails its assertion.
\<close>

theorem sendwait_only_once:
  assumes "vcos_msg_sendwait th w VCOS_SUCCESS q code m ws s = Some (VCOS_SUCCESS, t, vs)"
    and "\<forall>f \<in> set ws. \<forall>x. m_waiter (msgs (f x) m) = m_waiter (msgs x m)"
  shows "m_waiter (msgs t m) = Some (SimpleWaiter w) \<and> vcos_msg_sendwait th' w' st q' code' m us t = None"
proof -
  obtain u where u: "vcos_msg_send_helper th (Some (SimpleWaiter w)) q code m (upd_simple w (\<lambda>_. 0) s) = Some u"
    "sem_down (\<lambda>s. simple_sem s w) (\<lambda>f. upd_simple w f) ws u = Some (t, vs)"
    using assms(1) by (auto simp: vcos_msg_sendwait_def split: bind_splits)
  have "m_waiter (msgs u m) = Some (SimpleWaiter w)"
    using u(1) by (auto simp: vcos_msg_send_helper_def msgq_append_def Let_def split: bind_splits if_splits)
  then have "m_waiter (msgs t m) = Some (SimpleWaiter w)"
    using sem_down_inv [OF u(2), of "\<lambda>x. m_waiter (msgs x m) = Some (SimpleWaiter w)"] assms(2) by simp
  then show ?thesis by (simp add: vcos_msg_sendwait_def check_def)
qed

section \<open>Two queues\<close>

text \<open>Queues at 100 and 200; the requests 10, to be answered to 200, and 20 in the first.\<close>

definition idle_msgs :: msg_state where
  "idle_msgs = \<lparr>msgs = (\<lambda>_. \<lparr>m_magic = MSGQ_MAGIC, m_code = 0, m_next = NULL, m_src_thread = 0, m_waiter = None, m_pool = NULL\<rparr>),
     mqueues = (\<lambda>_. \<lparr>mq_head = NULL, mq_tail = NULL, mq_sem = 0\<rparr>),
     mpools = (\<lambda>_. \<lparr>mp_blockpool = blank_pool, mp_sem = 0, mp_magic = 0\<rparr>), simple_sem = (\<lambda>_. 0)\<rparr>"

definition first_request :: "msg_state \<Rightarrow> msg_state" where
  "first_request s = the (vcos_msg_set_source 10 200 s \<bind> vcos_msg_send 1 100 7 10)"

definition requests :: msg_state where
  "requests = the (vcos_msg_send 1 100 8 20 (first_request idle_msgs))"

lemmas send_defs = vcos_msg_send_def vcos_msg_send_helper_def vcos_msg_set_source_def check_def msgq_append_def Let_def

lemma idle_run: "msgq_run idle_msgs {100, 200} (\<lambda>_. []) (\<lambda>_. [])"
proof -
  have c: "vcos_msgq_create VCOS_SUCCESS VCOS_SUCCESS q idle_msgs = (VCOS_SUCCESS, idle_msgs)" for q
    by (simp add: vcos_msgq_create_def idle_msgs_def upd_mqueue_def fun_upd_idem)
  have "msgq_run idle_msgs {200} ((\<lambda>_. [])(200 := [])) ((\<lambda>_. [])(200 := []))" by (rule msgq_run.create [OF msgq_run.start _ _ c]) simp_all
  then have r: "msgq_run idle_msgs {200} (\<lambda>_. []) (\<lambda>_. [])" by (simp add: fun_upd_idem)
  have "msgq_run idle_msgs {100, 200} ((\<lambda>_. [])(100 := [])) ((\<lambda>_. [])(100 := []))" by (rule msgq_run.create [OF r _ _ c]) simp_all
  then show ?thesis by (simp add: fun_upd_idem)
qed

lemma first_request_run: "msgq_run (first_request idle_msgs) {100, 200} (add_last 100 10 (\<lambda>_. [])) (\<lambda>_. [])"
proof -
  obtain s where s: "vcos_msg_set_source 10 200 idle_msgs = Some s" by (simp add: vcos_msg_set_source_def idle_msgs_def check_def)
  have "msgq_run s {100, 200} (\<lambda>_. []) (\<lambda>_. [])"
    by (rule msgq_run.other [OF idle_run]) (use s in \<open>auto simp: vcos_msg_set_source_def queued_def pending_def split: bind_splits\<close>)
  moreover have "vcos_msg_send 1 100 7 10 s = Some (first_request idle_msgs)"
    using s by (simp add: first_request_def) (auto simp: send_defs idle_msgs_def split: bind_splits)
  ultimately show ?thesis by (intro msgq_run.send) (auto simp: queued_def pending_def)
qed

lemma requests_run: "msgq_run requests {100, 200} (add_last 100 20 (add_last 100 10 (\<lambda>_. []))) (\<lambda>_. [])"
proof (rule msgq_run.send [OF first_request_run])
  show "vcos_msg_send 1 100 8 20 (first_request idle_msgs) = Some requests"
    by (simp add: requests_def) (simp add: send_defs first_request_def idle_msgs_def)
qed (auto simp: queued_def pending_def add_last_def)

lemma requests_pending: "pending (add_last 100 20 (add_last 100 10 (\<lambda>_. []))) (\<lambda>_. []) q = (if q = 100 then [10, 20] else [])"
  by (simp add: pending_def add_last_def)



theorem reply_mixes_queues_witness:
  "\<exists>t u v. vcos_msg_wait 100 [] requests = Some (10, t, []) \<and> vcos_msg_reply 10 t = Some u \<and> vcos_msg_wait 200 [] u = Some (10, v, []) \<and>
    mq_sem (mqueues v 200) = 0 \<and> mq_head (mqueues v 200) = 20 \<and> vcos_msg_peek 200 [] v = None"
proof -
  have "m_magic (msgs requests 10) = MSGQ_MAGIC" "m_waiter (msgs requests 10) = Some (QueueWaiter 200)"
    by (simp_all add: requests_def first_request_def idle_msgs_def send_defs)
  from reply_mixes_queues [OF requests_run _ _ _ _ _ this, of 100 20 "[]"] show ?thesis by (auto simp: requests_pending)
qed

theorem sendwait_only_once_witness:
  "\<exists>t. vcos_msg_sendwait 1 50 VCOS_SUCCESS 100 7 10 [upd_simple 50 sem_up] idle_msgs = Some (VCOS_SUCCESS, t, []) \<and>
     vcos_msg_sendwait 1 60 VCOS_SUCCESS 100 7 10 [] t = None"
proof -
  obtain t where t: "vcos_msg_sendwait 1 50 VCOS_SUCCESS 100 7 10 [upd_simple 50 sem_up] idle_msgs = Some (VCOS_SUCCESS, t, [])"
    by (simp add: vcos_msg_sendwait_def idle_msgs_def send_defs sem_down_def sem_up_def)
  from sendwait_only_once [OF this] show ?thesis using t by simp
qed

end
