(* ===== verification/Vcos_Message_Pools.thy ===== *)
theory Vcos_Message_Pools
  imports Vcos_Messages
begin

text \<open>
  What the message pools of Vcos_Msgqueue promise: the semaphore of a pool and the messages that are out
  always add up to the size of the pool, so that the assertions after an allocation never fail. The
  proofs see the block pool only through the locale \<open>block_store\<close> (interpretation \<open>blockpool\<close>).
\<close>

section \<open>The invariant of a pool\<close>

definition msgpool_inv :: "ptr \<Rightarrow> nat \<Rightarrow> msg_state \<Rightarrow> ptr set \<Rightarrow> bool" where
  "msgpool_inv p n s U \<longleftrightarrow> p \<noteq> NULL \<and> blockpool.counted (mp_sem (mpools s p)) (mp_blockpool (mpools s p)) \<and>
     live_blocks (mp_blockpool (mpools s p)) = U \<and> pool_capacity (mp_blockpool (mpools s p)) = n \<and> mp_magic (mpools s p) = MSGQ_MAGIC \<and>
     (\<forall>m \<in> U. m_magic (msgs s m) = MSGQ_MAGIC \<and> m_pool (msgs s m) = p)"

lemma msgpool_out:
  assumes "msgpool_inv p n s U"
  shows "finite U" "NULL \<notin> U" "mp_sem (mpools s p) + card U = n"
proof -
  have ok: "single_pool (mp_blockpool (mpools s p))" "mp_sem (mpools s p) + card U = n" "U = live_blocks (mp_blockpool (mpools s p))"
    using assms by (auto simp: msgpool_inv_def blockpool.counted_def)
  show "finite U" "NULL \<notin> U" "mp_sem (mpools s p) + card U = n" using blockpool.live_bound [OF ok(1)] ok(2,3) by auto
qed

text \<open>After the semaphore has been taken there is a block.\<close>

lemma take_message_spec:
  assumes inv: "msgpool_inv p n s U" and c: "mp_sem (mpools s p) = Suc c"
  shows "\<exists>m t. take_message p (upd_mpool p (mp_sem_update (\<lambda>_. c)) s) = Some (m, t) \<and> m \<noteq> NULL \<and> m \<notin> U \<and> msgpool_inv p n t (insert m U) \<and>
    m_waiter (msgs t m) = Some (PoolWaiter p)"
proof -
  let ?bp = "mp_blockpool (mpools s p)"
  have i: "blockpool.counted (Suc c) ?bp" "live_blocks ?bp = U" "pool_capacity ?bp = n" "mp_magic (mpools s p) = MSGQ_MAGIC" "p \<noteq> NULL"
    "\<And>m. m \<in> U \<Longrightarrow> m_magic (msgs s m) = MSGQ_MAGIC \<and> m_pool (msgs s m) = p"
    using inv c unfolding msgpool_inv_def by metis+
  obtain m bp where m: "blockpool_calloc no_memory ?bp = Some (m, bp)" "m \<noteq> NULL" "m \<notin> U" "live_blocks bp = insert m U"
    "blockpool.counted c bp" "pool_capacity bp = n" using blockpool.counted_take [OF i(1)] i(2,3) by auto
  let ?t = "upd_msg m (\<lambda>_. \<lparr>m_magic = MSGQ_MAGIC, m_code = 0, m_next = NULL, m_src_thread = 0, m_waiter = Some (PoolWaiter p), m_pool = p\<rparr>)
     (upd_mpool p (mp_blockpool_update (\<lambda>_. bp)) (upd_mpool p (mp_sem_update (\<lambda>_. c)) s))"
  have "take_message p (upd_mpool p (mp_sem_update (\<lambda>_. c)) s) = Some (m, ?t)" using m(1,2) by (simp add: take_message_def check_def)
  moreover have "msgpool_inv p n ?t (insert m U)" unfolding msgpool_inv_def using i m by simp
  ultimately show ?thesis using m(2,3) by (intro exI [of _ m] exI [of _ ?t]) simp
qed

lemma pool_alloc_spec:
  assumes inv: "msgpool_inv p n s U"
  shows "if card U = n then vcos_msgq_pool_alloc p s = Some (NULL, s) \<and> vcos_msgq_pool_wait p [] s = None
    else \<exists>m t. vcos_msgq_pool_alloc p s = Some (m, t) \<and> (\<forall>ws. vcos_msgq_pool_wait p ws s = Some (m, t, ws)) \<and> m \<noteq> NULL \<and> m \<notin> U \<and>
      msgpool_inv p n t (insert m U) \<and> m_waiter (msgs t m) = Some (PoolWaiter p)"
proof (cases "mp_sem (mpools s p)")
  case 0
  then show ?thesis
    using msgpool_out(3) [OF inv] by (simp add: vcos_msgq_pool_alloc_def vcos_msgq_pool_wait_def sem_trylock_def sem_down_def)
next
  case (Suc c)
  then have "card U \<noteq> n" using msgpool_out(3) [OF inv] by simp
  moreover have down: "upd_mpool p (mp_sem_update (\<lambda>c. c - 1)) s = upd_mpool p (mp_sem_update (\<lambda>_. c)) s"
    using Suc by (cases "mpools s p") (simp add: upd_mpool_def)
  obtain m t where m: "take_message p (upd_mpool p (mp_sem_update (\<lambda>_. c)) s) = Some (m, t)" "m \<noteq> NULL" "m \<notin> U" "msgpool_inv p n t (insert m U)"
    "m_waiter (msgs t m) = Some (PoolWaiter p)" using take_message_spec [OF inv Suc] by blast
  moreover have "vcos_msgq_pool_alloc p s = Some (m, t)" using Suc m(1) by (simp add: vcos_msgq_pool_alloc_def sem_trylock_def)
  moreover have "vcos_msgq_pool_wait p ws s = Some (m, t, ws)" for ws
    using Suc m(1) down unfolding vcos_msgq_pool_wait_def by (subst sem_down_now) simp_all
  ultimately show ?thesis by auto
qed

lemma pool_free_spec:
  assumes inv: "msgpool_inv p n s U" and m: "m \<in> U"
  shows "\<exists>t. vcos_msgq_pool_free m s = Some t \<and> msgpool_inv p n t (U - {m}) \<and> msgs t = msgs s"
proof -
  let ?bp = "mp_blockpool (mpools s p)"
  have i: "blockpool.counted (mp_sem (mpools s p)) ?bp" "live_blocks ?bp = U" "pool_capacity ?bp = n" "mp_magic (mpools s p) = MSGQ_MAGIC" "p \<noteq> NULL"
    "\<And>m. m \<in> U \<Longrightarrow> m_magic (msgs s m) = MSGQ_MAGIC \<and> m_pool (msgs s m) = p"
    using inv unfolding msgpool_inv_def by metis+
  have "m \<noteq> NULL" using msgpool_out(2) [OF inv] m by metis
  obtain bp where bp: "blockpool_free m ?bp = Some bp" "live_blocks bp = U - {m}" "blockpool.counted (Suc (mp_sem (mpools s p))) bp" "pool_capacity bp = n"
    using blockpool.counted_give [OF i(1)] m i(2,3) by auto
  let ?t = "upd_mpool p (\<lambda>mp. mp\<lparr>mp_blockpool := bp, mp_sem := sem_up (mp_sem mp)\<rparr>) s"
  have "vcos_msgq_pool_free m s = Some ?t" using i(4-6) m bp(1) \<open>m \<noteq> NULL\<close> by (simp add: vcos_msgq_pool_free_def check_def Let_def)
  moreover have "msgpool_inv p n ?t (U - {m})" unfolding msgpool_inv_def using i bp by (simp add: sem_up_def)
  ultimately show ?thesis by simp
qed

text \<open>A reply to a message of the pool whose waiter is still the pool frees it.\<close>

lemma pool_reply_spec:
  assumes inv: "msgpool_inv p n s U" and m: "m \<in> U" "m_waiter (msgs s m) = Some (PoolWaiter p)"
  shows "\<exists>t. vcos_msg_reply m s = Some t \<and> msgpool_inv p n t (U - {m})"
proof -
  let ?s = "upd_msg m (m_code_update (\<lambda>c. c OR MSG_REPLY_BIT)) s"
  have magic: "m_magic (msgs s m) = MSGQ_MAGIC" using inv m(1) by (simp add: msgpool_inv_def)
  have "msgpool_inv p n ?s U" using inv by (simp add: msgpool_inv_def)
  then obtain t where "vcos_msgq_pool_free m ?s = Some t" "msgpool_inv p n t (U - {m})" using pool_free_spec m(1) by blast
  then show ?thesis using m(2) magic by (simp add: vcos_msg_reply_def pool_on_reply_def check_def Let_def)
qed

section \<open>Creation\<close>

lemma pool_create_inv:
  assumes "vcos_msgq_pool_create mem VCOS_SUCCESS n payload p s = Some (VCOS_SUCCESS, t)" "p \<noteq> NULL"
    "sizes_fit n (payload + MSG_SIZE) ALIGN_DEFAULT" "place_ok (mp_blockpool (mpools s p)) mem (unat (pool_bytes n (payload + MSG_SIZE) ALIGN_DEFAULT))"
  shows "msgpool_inv p (unat n) t {}"
proof -
  let ?bs = "payload + MSG_SIZE"
  obtain bp where bp: "blockpool_create_on_heap mem n ?bs ALIGN_DEFAULT (mp_blockpool (mpools s p)) = Some (VCOS_SUCCESS, bp)"
    and t: "t = upd_mpool p (\<lambda>_. \<lparr>mp_blockpool = bp, mp_sem = unat n, mp_magic = MSGQ_MAGIC\<rparr>) s"
    using assms(1) by (auto simp: vcos_msgq_pool_create_def split: bind_splits if_splits)
  obtain b1 where b1: "blockpool_init n ?bs mem (pool_bytes n ?bs ALIGN_DEFAULT) ALIGN_DEFAULT (mp_blockpool (mpools s p)) = Some (VCOS_SUCCESS, b1)"
    "bp = set_sub 0 ((sub b1 0)\<lparr>sp_flags := sp_flags (sub b1 0) OR FLAG_OWNS_MEM\<rparr>) b1"
    using bp unfolding blockpool_create_on_heap_def by (auto simp: Let_def Option.bind_eq_Some_conv split: if_splits)
  have al: "real_align ALIGN_DEFAULT = ALIGN_DEFAULT" by (simp add: real_align_def)
  note init = blockpool_init_spec [OF b1(1), unfolded al, OF assms(3,4)]
  have one: "bp_num_subpools (pool b1) = 1"
    using b1(1) by (auto simp: blockpool_init_def subpool_init_def Let_def split: bind_splits if_splits)
  have max: "0 < List.length (bp_subpools (pool b1))"
    using pool_frameD(2) [OF pool_invD(1) [OF init(1)]] by (simp add: MAX_SUBPOOLS_def)
  have "pool_capacity bp = unat n" unfolding b1(2) pool_capacity_def by (subst sub_set_sub [OF max]) (simp add: init(3))
  moreover have "single_pool bp" "live_blocks bp = {}"
    using flags_inv [OF init(1), folded b1(2)] init(2) one unfolding single_pool_def live_blocks_def by (simp_all add: b1(2))
  ultimately show ?thesis using assms(2) by (simp add: msgpool_inv_def blockpool.counted_def t)
qed

section \<open>Histories\<close>

text \<open>
  Histories of the pool at \<open>p\<close>, with its size and the messages that are out. Everything else that happens keeps the
  pool but for the contents of its blocks, and the magic and pool fields of the messages that are out.
\<close>

inductive msgpool_run :: "ptr \<Rightarrow> nat \<Rightarrow> msg_state \<Rightarrow> ptr set \<Rightarrow> bool" where
  pool_create: "vcos_msgq_pool_create mem VCOS_SUCCESS n payload p s = Some (VCOS_SUCCESS, t) \<Longrightarrow> p \<noteq> NULL \<Longrightarrow>
    sizes_fit n (payload + MSG_SIZE) ALIGN_DEFAULT \<Longrightarrow>
    place_ok (mp_blockpool (mpools s p)) mem (unat (pool_bytes n (payload + MSG_SIZE) ALIGN_DEFAULT)) \<Longrightarrow> msgpool_run p (unat n) t {}"
| pool_alloc: "msgpool_run p n s U \<Longrightarrow> vcos_msgq_pool_alloc p s = Some (m, t) \<Longrightarrow> msgpool_run p n t (if m = NULL then U else insert m U)"
| pool_wait: "msgpool_run p n s U \<Longrightarrow> vcos_msgq_pool_wait p [] s = Some (m, t, ws) \<Longrightarrow> msgpool_run p n t (insert m U)"
| pool_free: "msgpool_run p n s U \<Longrightarrow> m \<in> U \<Longrightarrow> vcos_msgq_pool_free m s = Some t \<Longrightarrow> msgpool_run p n t (U - {m})"
| pool_reply: "msgpool_run p n s U \<Longrightarrow> m \<in> U \<Longrightarrow> m_waiter (msgs s m) = Some (PoolWaiter p) \<Longrightarrow> vcos_msg_reply m s = Some t \<Longrightarrow>
    msgpool_run p n t (U - {m})"
| pool_other: "msgpool_run p n s U \<Longrightarrow> mpools t p = mp_blockpool_update (heap_update (\<lambda>_. h)) (mpools s p) \<Longrightarrow>
    (\<And>x. x \<in> header_bytes (mp_blockpool (mpools s p)) \<Longrightarrow> h x = heap (mp_blockpool (mpools s p)) x) \<Longrightarrow>
    (\<And>m. m \<in> U \<Longrightarrow> m_magic (msgs t m) = m_magic (msgs s m) \<and> m_pool (msgs t m) = m_pool (msgs s m)) \<Longrightarrow> msgpool_run p n t U"

lemma pool_other_inv:
  assumes inv: "msgpool_inv p n s U" and t: "mpools t p = mp_blockpool_update (heap_update (\<lambda>_. h)) (mpools s p)"
    and h: "\<And>x. x \<in> header_bytes (mp_blockpool (mpools s p)) \<Longrightarrow> h x = heap (mp_blockpool (mpools s p)) x"
    and m: "\<And>m. m \<in> U \<Longrightarrow> m_magic (msgs t m) = m_magic (msgs s m) \<and> m_pool (msgs t m) = m_pool (msgs s m)"
  shows "msgpool_inv p n t U"
proof -
  let ?bp = "mp_blockpool (mpools s p)"
  have bp: "mp_blockpool (mpools t p) = ?bp\<lparr>heap := h\<rparr>" "mp_sem (mpools t p) = mp_sem (mpools s p)" "mp_magic (mpools t p) = mp_magic (mpools s p)"
    by (simp_all add: t)
  have single: "single_pool ?bp" using inv by (simp add: msgpool_inv_def blockpool.counted_def)
  then have "pool_inv ?bp" by (simp add: single_pool_def)
  note w = heap_write [OF this h]
  have at: "block_at (?bp\<lparr>heap := h\<rparr>) = block_at ?bp" by (simp add: block_at_def fun_eq_iff)
  have "single_pool (?bp\<lparr>heap := h\<rparr>)" "live_blocks (?bp\<lparr>heap := h\<rparr>) = live_blocks ?bp" "pool_capacity (?bp\<lparr>heap := h\<rparr>) = pool_capacity ?bp"
    using w single unfolding live_blocks_def at by (simp_all add: single_pool_def pool_capacity_def)
  then show ?thesis using inv m msgpool_out(3) [OF inv] by (simp add: msgpool_inv_def blockpool.counted_def bp)
qed

lemma msgpool_run_inv: "msgpool_run p n s U \<Longrightarrow> msgpool_inv p n s U"
proof (induction rule: msgpool_run.induct)
  case pool_create
  then show ?case by (rule pool_create_inv)
next
  case (pool_alloc p n s U m t)
  then show ?case using pool_alloc_spec [OF pool_alloc.IH] by (cases "card U = n") auto
next
  case (pool_wait p n s U m t ws)
  then show ?case using pool_alloc_spec [OF pool_wait.IH] by (cases "card U = n") auto
next
  case pool_free
  then show ?case using pool_free_spec by fastforce
next
  case pool_reply
  then show ?case using pool_reply_spec by fastforce
next
  case (pool_other p n s U t h)
  show ?case by (rule pool_other_inv [OF pool_other.IH pool_other.hyps(2-4)])
qed

section \<open>Properties\<close>


text \<open>A pool of two messages of eight bytes, one of them out\<close>

definition pool_of_two :: msg_state where
  "pool_of_two = snd (the (vcos_msgq_pool_create 5000 VCOS_SUCCESS 2 8 300 idle_msgs))"

lemma two_fit:
  "sizes_fit 2 (8 + MSG_SIZE) ALIGN_DEFAULT" "place_ok blank_pool 5000 (unat (pool_bytes 2 (8 + MSG_SIZE) ALIGN_DEFAULT))"
  by (simp_all add: sizes_fit_def block_bytes_def pool_round_up_def HDR_SIZE_def ALIGN_DEFAULT_def place_ok_def MSG_SIZE_def
    blank_pool_def STRUCT_SIZE_def MAX_SUBPOOLS_def SUBPOOL_SIZE_def pool_bytes_def)

lemma pool_of_two_run: "msgpool_run 300 2 pool_of_two {}"
proof -
  have al: "real_align ALIGN_DEFAULT = ALIGN_DEFAULT" "ALIGN_DEFAULT AND 3 = 0" by (simp_all add: real_align_def ALIGN_DEFAULT_def)
  obtain b where "blockpool_init 2 (8 + MSG_SIZE) 5000 (pool_bytes 2 (8 + MSG_SIZE) ALIGN_DEFAULT) ALIGN_DEFAULT blank_pool = Some (VCOS_SUCCESS, b)"
    using blockpool_init_ok [of 2 "8 + MSG_SIZE" ALIGN_DEFAULT, unfolded al(1), OF two_fit _ _ al(2) order_refl] by (auto simp: MSG_SIZE_def)
  then have "vcos_msgq_pool_create 5000 VCOS_SUCCESS 2 8 300 idle_msgs = Some (VCOS_SUCCESS, pool_of_two)"
    by (simp add: pool_of_two_def vcos_msgq_pool_create_def blockpool_create_on_heap_def Let_def idle_msgs_def)
  from msgpool_run.pool_create [OF this] two_fit show ?thesis by (simp add: idle_msgs_def)
qed


end
