(* ===== verification/Khrn_Map.thy ===== *)
theory Khrn_Map
  imports Oculus_Prelude
begin

text \<open>
  circle/addon/vc4/interface/khronos/common/khrn_int_generic_map.c: the open-addressing
  hash map behind khrn_pointer_map (khrn_client_pointermap.c) and khrn_global_image_map
  (khrn_client_global_image_map.c), in its non-relocatable configuration. Deleted entries
  are kept as tombstones; the table is rebuilt when it holds too many entries or
  tombstones. The theory shows that probing terminates, that every operation refines a
  finite map (the locale \<open>assoc_store\<close>) under any pattern of allocation failures, and that
  the map holds exactly one reference per stored value.
\<close>

section \<open>Data\<close>

text \<open>A value slot: \<open>KHRN_GENERIC_MAP_VALUE_NONE\<close>, \<open>..._DELETED\<close>, or a value.\<close>

datatype 'v mval = is_VNone: VNone | is_VDeleted: VDeleted | is_Val: Val (the_val: 'v)

record 'v mentry =
  e_key :: u32
  e_value :: "'v mval"

text \<open>
  \<open>m_refs\<close> counts, per value, the calls of \<open>KHRN_GENERIC_MAP_ACQUIRE_VALUE\<close> minus those of
  \<open>KHRN_GENERIC_MAP_RELEASE_VALUE\<close> (the pointer map defines neither).
\<close>

record 'v gmap =
  m_entries :: nat
  m_deletes :: nat
  m_storage :: "'v mentry list"
  m_capacity :: nat
  m_refs :: "'v \<Rightarrow> int"

text \<open>
  \<open>KHRN_GENERIC_MAP_ALLOC\<close>: given the capacity, \<open>None\<close> when it fails, else the
  uninitialised keys found in the new storage.
\<close>

type_synonym map_alloc = "nat \<Rightarrow> (nat \<Rightarrow> u32) option"

definition acquire_value :: "'v \<Rightarrow> 'v gmap \<Rightarrow> 'v gmap" where
  "acquire_value v m = m\<lparr>m_refs := (m_refs m)(v := m_refs m v + 1)\<rparr>"

definition release_value :: "'v \<Rightarrow> 'v gmap \<Rightarrow> 'v gmap" where
  "release_value v m = m\<lparr>m_refs := (m_refs m)(v := m_refs m v - 1)\<rparr>"

definition map_hash :: "u32 \<Rightarrow> nat \<Rightarrow> nat" where
  "map_hash key capacity = unat (key AND (of_nat capacity - 1))"

section \<open>Probing\<close>

text \<open>
  Both loops run until they find their slot; \<open>None\<close> is a loop that does not end. The
  result of \<open>get_entry\<close> is the index of the entry, if there is one.
\<close>

partial_function (option) get_entry_from ::
  "'v mentry list \<Rightarrow> nat \<Rightarrow> u32 \<Rightarrow> nat \<Rightarrow> nat option option" where
  "get_entry_from base capacity key h =
     (if \<not> is_VNone (e_value (base ! h))
      then if e_key (base ! h) = key
           then Some (if is_VDeleted (e_value (base ! h)) then None else Some h)
           else get_entry_from base capacity key (if h + 1 = capacity then 0 else h + 1)
      else Some None)"

definition get_entry :: "'v mentry list \<Rightarrow> nat \<Rightarrow> u32 \<Rightarrow> nat option option" where
  "get_entry base capacity key = get_entry_from base capacity key (map_hash key capacity)"

partial_function (option) get_free_entry_from :: "'v mentry list \<Rightarrow> nat \<Rightarrow> nat \<Rightarrow> nat option" where
  "get_free_entry_from base capacity h =
     (if \<not> is_VDeleted (e_value (base ! h)) \<and> \<not> is_VNone (e_value (base ! h))
      then get_free_entry_from base capacity (if h + 1 = capacity then 0 else h + 1)
      else Some h)"

definition get_free_entry :: "'v mentry list \<Rightarrow> nat \<Rightarrow> u32 \<Rightarrow> nat option" where
  "get_free_entry base capacity key = get_free_entry_from base capacity (map_hash key capacity)"

section \<open>Operations\<close>

definition khrn_map_init :: "map_alloc \<Rightarrow> nat \<Rightarrow> 'v gmap \<Rightarrow> bool \<times> 'v gmap" where
  "khrn_map_init alloc capacity m =
     (case alloc capacity of
        None \<Rightarrow> (False, m)
      | Some junk \<Rightarrow>
          (True, m\<lparr>m_entries := 0, m_deletes := 0,
                   m_storage := map (\<lambda>i. \<lparr>e_key = junk i, e_value = VNone\<rparr>) [0..<capacity],
                   m_capacity := capacity\<rparr>))"

fun copy_entries ::
  "('v gmap \<Rightarrow> u32 \<Rightarrow> 'v \<Rightarrow> (bool \<times> 'v gmap) option) \<Rightarrow> 'v mentry list \<Rightarrow> 'v gmap \<Rightarrow> 'v gmap option" where
  "copy_entries ins [] m = Some m"
| "copy_entries ins (e # es) m =
     (case e_value e of
        Val v \<Rightarrow> (case ins m (e_key e) v of
                    None \<Rightarrow> None
                  | Some (_, m') \<Rightarrow> copy_entries ins es (release_value v m'))
      | _ \<Rightarrow> copy_entries ins es m)"

definition realloc_storage ::
  "('v gmap \<Rightarrow> u32 \<Rightarrow> 'v \<Rightarrow> (bool \<times> 'v gmap) option) \<Rightarrow> map_alloc \<Rightarrow> 'v gmap \<Rightarrow> nat
    \<Rightarrow> (bool \<times> 'v gmap) option" where
  "realloc_storage ins alloc m new_capacity =
     (let base = m_storage m in
      case khrn_map_init alloc new_capacity m of
        (False, _) \<Rightarrow> Some (False, m)
      | (True, m') \<Rightarrow> map_option (\<lambda>m''. (True, m'')) (copy_entries ins base m'))"

definition place_entry :: "'v gmap \<Rightarrow> nat \<Rightarrow> u32 \<Rightarrow> 'v \<Rightarrow> (bool \<times> 'v gmap) option" where
  "place_entry m capacity key value =
     (let m = acquire_value value m in
      case get_free_entry (m_storage m) capacity key of
        None \<Rightarrow> None
      | Some h \<Rightarrow>
          let m = (if is_VDeleted (e_value (m_storage m ! h)) then m\<lparr>m_deletes := m_deletes m - 1\<rparr> else m)
          in Some (True, m\<lparr>m_storage := (m_storage m)[h := \<lparr>e_key = key, e_value = Val value\<rparr>],
                           m_entries := m_entries m + 1\<rparr>))"

text \<open>
  \<open>khrn_generic_map(insert)\<close> and \<open>realloc_storage\<close> call each other; the first argument bounds
  the depth of that recursion. A table that satisfies the invariant never needs more than
  one level (\<open>insert_depth_enough\<close>), so \<open>khrn_map_insert\<close> uses depth 2.
\<close>

fun insert_depth :: "nat \<Rightarrow> map_alloc \<Rightarrow> 'v gmap \<Rightarrow> u32 \<Rightarrow> 'v \<Rightarrow> (bool \<times> 'v gmap) option" where
  "insert_depth 0 alloc m key value = None"
| "insert_depth (Suc d) alloc m key value =
     (let capacity = m_capacity m in
      case get_entry (m_storage m) capacity key of
        None \<Rightarrow> None
      | Some (Some h) \<Rightarrow>
          let old = e_value (m_storage m ! h);
              m' = release_value (the_val old) (acquire_value value m)
          in Some (True, m'\<lparr>m_storage := (m_storage m')[h := (m_storage m' ! h)\<lparr>e_value := Val value\<rparr>]\<rparr>)
      | Some None \<Rightarrow>
          if m_entries m > capacity div 2 then
            (case realloc_storage (insert_depth d alloc) alloc m (capacity * 2) of
               None \<Rightarrow> None
             | Some (False, m') \<Rightarrow> Some (False, m')
             | Some (True, m') \<Rightarrow> place_entry m' (capacity * 2) key value)
          else if m_entries m + m_deletes m > 3 * capacity div 4 then
            (case realloc_storage (insert_depth d alloc) alloc m capacity of
               None \<Rightarrow> None
             | Some (False, m') \<Rightarrow> Some (False, m')
             | Some (True, m') \<Rightarrow> place_entry m' capacity key value)
          else place_entry m capacity key value)"

definition khrn_map_insert :: "map_alloc \<Rightarrow> 'v gmap \<Rightarrow> u32 \<Rightarrow> 'v \<Rightarrow> (bool \<times> 'v gmap) option" where
  "khrn_map_insert = insert_depth 2"

definition khrn_map_delete :: "'v gmap \<Rightarrow> u32 \<Rightarrow> (bool \<times> 'v gmap) option" where
  "khrn_map_delete m key =
     (case get_entry (m_storage m) (m_capacity m) key of
        None \<Rightarrow> None
      | Some None \<Rightarrow> Some (False, m)
      | Some (Some h) \<Rightarrow>
          let m' = release_value (the_val (e_value (m_storage m ! h))) m
          in Some (True, m'\<lparr>m_storage := (m_storage m')[h := (m_storage m' ! h)\<lparr>e_value := VDeleted\<rparr>],
                            m_deletes := m_deletes m' + 1,
                            m_entries := m_entries m' - 1\<rparr>))"

definition khrn_map_get_count :: "'v gmap \<Rightarrow> nat" where
  "khrn_map_get_count m = m_entries m"

definition khrn_map_lookup :: "'v gmap \<Rightarrow> u32 \<Rightarrow> 'v mval option" where
  "khrn_map_lookup m key =
     (case get_entry (m_storage m) (m_capacity m) key of
        None \<Rightarrow> None
      | Some None \<Rightarrow> Some VNone
      | Some (Some h) \<Rightarrow> Some (e_value (m_storage m ! h)))"

text \<open>
  \<open>khrn_generic_map(term)\<close> releases every value; the storage is then freed. \<open>iterate\<close> calls
  back with each entry in turn; it reads the storage and the capacity afresh each time, so
  that the entry just visited may be changed or deleted by the callback (which must not
  make the table reallocate, as the interface says).
\<close>

fun release_all :: "'v mentry list \<Rightarrow> 'v gmap \<Rightarrow> 'v gmap" where
  "release_all [] m = m"
| "release_all (e # es) m =
     release_all es (case e_value e of Val v \<Rightarrow> release_value v m | _ \<Rightarrow> m)"

definition khrn_map_term :: "'v gmap \<Rightarrow> 'v gmap" where
  "khrn_map_term m = release_all (m_storage m) m"

function iterate_from ::
  "('v gmap \<Rightarrow> u32 \<Rightarrow> 'v \<Rightarrow> 'd \<Rightarrow> ('v gmap \<times> 'd)) \<Rightarrow> nat \<Rightarrow> nat \<Rightarrow> 'v gmap \<Rightarrow> 'd \<Rightarrow> 'v gmap \<times> 'd" where
  "iterate_from func capacity i m data =
     (if i < capacity
      then case e_value (m_storage m ! i) of
             Val v \<Rightarrow> (let (m', data') = func m (e_key (m_storage m ! i)) v data
                       in iterate_from func capacity (i + 1) m' data')
           | _ \<Rightarrow> iterate_from func capacity (i + 1) m data
      else (m, data))"
  by pat_completeness auto
termination
  by (relation "measure (\<lambda>(func, capacity, i, m, data). capacity - i)") auto

declare iterate_from.simps [simp del]

definition khrn_map_iterate ::
  "('v gmap \<Rightarrow> u32 \<Rightarrow> 'v \<Rightarrow> 'd \<Rightarrow> ('v gmap \<times> 'd)) \<Rightarrow> 'v gmap \<Rightarrow> 'd \<Rightarrow> 'v gmap \<times> 'd" where
  "khrn_map_iterate func m data = iterate_from func (m_capacity m) 0 m data"

section \<open>Probe sequences\<close>

definition probe :: "nat \<Rightarrow> nat \<Rightarrow> nat \<Rightarrow> nat" where
  "probe capacity h i = (h + i) mod capacity"

lemma probe_less [simp]: "0 < capacity \<Longrightarrow> probe capacity h i < capacity"
  by (simp add: probe_def)

lemma probe_0 [simp]: "h < capacity \<Longrightarrow> probe capacity h 0 = h"
  by (simp add: probe_def)

lemma probe_next:
  "h < capacity \<Longrightarrow> probe capacity (if h + 1 = capacity then 0 else h + 1) i = probe capacity h (Suc i)"
proof (cases "h + 1 = capacity")
  case True
  then have "(h + Suc i) mod capacity = i mod capacity"
    using mod_add_self2 [of i capacity] by (metis add.commute add_Suc_shift Suc_eq_plus1)
  then show ?thesis unfolding probe_def if_P [OF True] add_0 by (rule sym)
next
  case False
  then show ?thesis by (simp add: probe_def)
qed

lemma probe_inj: "i < capacity \<Longrightarrow> j < capacity \<Longrightarrow> probe capacity h i = probe capacity h j \<Longrightarrow> i = j"
  unfolding probe_def by (rule ring_index_inj)

lemma probe_onto:
  assumes "h < capacity" "j < capacity"
  shows "\<exists>i<capacity. probe capacity h i = j"
proof (cases "h \<le> j")
  case True
  with assms show ?thesis by (intro exI [of _ "j - h"]) (auto simp: probe_def)
next
  case False
  with assms show ?thesis by (intro exI [of _ "capacity - h + j"]) (auto simp: probe_def)
qed

definition skips :: "'v mentry list \<Rightarrow> nat \<Rightarrow> u32 \<Rightarrow> nat \<Rightarrow> nat \<Rightarrow> bool" where
  "skips base capacity key h i \<longleftrightarrow>
     (\<forall>l<i. \<not> is_VNone (e_value (base ! probe capacity h l)) \<and> e_key (base ! probe capacity h l) \<noteq> key)"

lemma skips_Suc:
  assumes "h < capacity"
  shows "skips base capacity key h (Suc i) \<longleftrightarrow>
    \<not> is_VNone (e_value (base ! h)) \<and> e_key (base ! h) \<noteq> key \<and>
    skips base capacity key (if h + 1 = capacity then 0 else h + 1) i"
proof -
  have "probe capacity (if h + 1 = capacity then 0 else h + 1) l = probe capacity h (Suc l)" for l
    using assms by (rule probe_next)
  moreover have "probe capacity h 0 = h" using assms by simp
  ultimately show ?thesis
    unfolding skips_def by (metis (no_types, lifting) Suc_less_eq less_Suc_eq_0_disj zero_less_Suc)
qed

lemma get_entry_from_skips:
  assumes "h < capacity" "skips base capacity key h i"
  shows "get_entry_from base capacity key h = get_entry_from base capacity key (probe capacity h i)"
  using assms
proof (induction i arbitrary: h)
  case 0
  then show ?case by simp
next
  case (Suc i)
  let ?h = "if h + 1 = capacity then 0 else h + 1"
  have "?h < capacity" using Suc.prems(1) by auto
  moreover have "skips base capacity key ?h i"
    and here: "\<not> is_VNone (e_value (base ! h))" "e_key (base ! h) \<noteq> key"
    using Suc.prems(2) unfolding skips_Suc [OF Suc.prems(1)] by blast+
  ultimately have "get_entry_from base capacity key ?h = get_entry_from base capacity key (probe capacity ?h i)"
    using Suc.IH by blast
  then show ?case
    using here probe_next [OF Suc.prems(1)] by (subst get_entry_from.simps) simp
qed

lemma get_free_entry_from_skips:
  assumes "h < capacity" "\<And>l. l < i \<Longrightarrow> is_Val (e_value (base ! probe capacity h l))"
  shows "get_free_entry_from base capacity h = get_free_entry_from base capacity (probe capacity h i)"
  using assms
proof (induction i arbitrary: h)
  case 0
  then show ?case by simp
next
  case (Suc i)
  let ?h = "if h + 1 = capacity then 0 else h + 1"
  have "?h < capacity" using Suc.prems(1) by auto
  moreover have "is_Val (e_value (base ! probe capacity ?h l))" if "l < i" for l
    using Suc.prems(2) [of "Suc l"] that probe_next [OF Suc.prems(1)] by simp
  ultimately have "get_free_entry_from base capacity ?h = get_free_entry_from base capacity (probe capacity ?h i)"
    by (rule Suc.IH)
  moreover have "is_Val (e_value (base ! h))" using Suc.prems(2) [of 0] Suc.prems(1) by simp
  then have "\<not> is_VDeleted (e_value (base ! h)) \<and> \<not> is_VNone (e_value (base ! h))"
    by (cases "e_value (base ! h)") auto
  ultimately show ?case
    using probe_next [OF Suc.prems(1)] by (subst get_free_entry_from.simps) simp
qed

section \<open>The invariant\<close>

abbreviation live :: "'v mentry \<Rightarrow> bool" where
  "live e \<equiv> is_Val (e_value e)"

text \<open>A live entry lies on the probe sequence of its key, behind no unused slot and behind
  no other slot with the same key.\<close>

definition reachable_slot :: "'v mentry list \<Rightarrow> nat \<Rightarrow> nat \<Rightarrow> bool" where
  "reachable_slot base capacity j \<longleftrightarrow>
     (\<exists>i<capacity. probe capacity (map_hash (e_key (base ! j)) capacity) i = j \<and>
        skips base capacity (e_key (base ! j)) (map_hash (e_key (base ! j)) capacity) i)"

definition shape :: "'v mentry list \<Rightarrow> nat \<Rightarrow> bool" where
  "shape base capacity \<longleftrightarrow>
     8 \<le> capacity \<and> (\<exists>n. capacity = 2 ^ n) \<and> length base = capacity \<and>
     (\<forall>j<capacity. live (base ! j) \<longrightarrow> reachable_slot base capacity j)"

definition n_live :: "'v mentry list \<Rightarrow> nat" where
  "n_live base = length (filter live base)"

definition n_deleted :: "'v mentry list \<Rightarrow> nat" where
  "n_deleted base = length (filter (\<lambda>e. is_VDeleted (e_value e)) base)"

definition n_value :: "'v \<Rightarrow> 'v mentry list \<Rightarrow> nat" where
  "n_value v base = length (filter (\<lambda>e. e_value e = Val v) base)"

definition table_ok :: "'v gmap \<Rightarrow> nat \<Rightarrow> bool" where
  "table_ok m capacity \<longleftrightarrow>
     m_capacity m = capacity \<and> shape (m_storage m) capacity \<and>
     m_entries m = n_live (m_storage m) \<and> m_deletes m = n_deleted (m_storage m)"

definition gmap_inv :: "'v gmap \<Rightarrow> bool" where
  "gmap_inv m \<longleftrightarrow>
     table_ok m (m_capacity m) \<and>
     m_entries m \<le> m_capacity m div 2 + 1 \<and>
     m_entries m + m_deletes m \<le> 3 * m_capacity m div 4 + 1"

lemma map_hash_less:
  assumes "capacity = 2 ^ n"
  shows "map_hash key capacity < capacity"
proof (cases "n < 32")
  case True
  have "unat (of_nat capacity :: u32) = capacity mod 2 ^ LENGTH(32)" by (rule unat_of_nat)
  moreover have "capacity < 2 ^ LENGTH(32)"
    using True unfolding assms by (intro power_strict_increasing) auto
  ultimately have "unat (of_nat capacity :: u32) = 2 ^ n" using assms by simp
  then have "map_hash key capacity = unat key mod 2 ^ n"
    unfolding map_hash_def by (rule unat_and_mask)
  then show ?thesis using assms by simp
next
  case False
  have "unat (key AND (of_nat capacity - 1)) < 2 ^ LENGTH(32)" by (rule unsigned_less)
  also have "(2::nat) ^ LENGTH(32) \<le> 2 ^ n" using False by (intro power_increasing) auto
  finally show ?thesis using assms by (simp add: map_hash_def)
qed

lemma shape_hash: "shape base capacity \<Longrightarrow> map_hash key capacity < capacity"
  by (auto simp: shape_def intro: map_hash_less)

text \<open>Where a slot is unused, both probe loops stop.\<close>

lemma get_entry_found:
  assumes "shape base capacity" "j < capacity" "live (base ! j)" "e_key (base ! j) = key"
  shows "get_entry base capacity key = Some (Some j)"
proof -
  have "reachable_slot base capacity j" using assms by (auto simp: shape_def)
  then obtain i where i: "probe capacity (map_hash key capacity) i = j"
    and s: "skips base capacity key (map_hash key capacity) i"
    using assms(4) by (auto simp: reachable_slot_def)
  have "get_entry base capacity key = get_entry_from base capacity key j"
    unfolding get_entry_def
    using get_entry_from_skips [OF shape_hash [OF assms(1)] s] i by simp
  also have "\<dots> = Some (Some j)"
    using assms(3,4) by (subst get_entry_from.simps) (cases "e_value (base ! j)"; simp)
  finally show ?thesis .
qed

lemma get_entry_absent:
  assumes "shape base capacity" "u < capacity" "is_VNone (e_value (base ! u))"
    and "\<And>j. j < capacity \<Longrightarrow> live (base ! j) \<Longrightarrow> e_key (base ! j) \<noteq> key"
  shows "get_entry base capacity key = Some None"
proof -
  let ?h = "map_hash key capacity"
  let ?stop = "\<lambda>i. is_VNone (e_value (base ! probe capacity ?h i)) \<or> e_key (base ! probe capacity ?h i) = key"
  have h: "?h < capacity" using assms(1) by (rule shape_hash)
  obtain i0 where "probe capacity ?h i0 = u" using probe_onto [OF h assms(2)] by blast
  then have "?stop i0" using assms(3) by simp
  then have stop: "?stop (LEAST i. ?stop i)" by (rule LeastI)
  let ?i = "LEAST i. ?stop i"
  let ?p = "probe capacity ?h ?i"
  have "skips base capacity key ?h ?i"
    unfolding skips_def using not_less_Least by blast
  then have "get_entry base capacity key = get_entry_from base capacity key ?p"
    unfolding get_entry_def by (rule get_entry_from_skips [OF h])
  also have "\<dots> = Some None"
  proof (cases "is_VNone (e_value (base ! ?p))")
    case True
    then show ?thesis by (subst get_entry_from.simps) simp
  next
    case False
    then have "e_key (base ! ?p) = key" using stop by blast
    moreover have "?p < capacity" using h by simp
    ultimately have "\<not> live (base ! ?p)" using assms(4) by blast
    then have "is_VDeleted (e_value (base ! ?p))"
      using False by (cases "e_value (base ! ?p)") auto
    then show ?thesis
      using False \<open>e_key (base ! ?p) = key\<close> by (subst get_entry_from.simps) simp
  qed
  finally show ?thesis .
qed

lemma get_free_entry_found:
  assumes "shape base capacity" "u < capacity" "\<not> live (base ! u)"
  obtains i where "i < capacity"
    "get_free_entry base capacity key = Some (probe capacity (map_hash key capacity) i)"
    "\<not> live (base ! probe capacity (map_hash key capacity) i)"
    "\<And>l. l < i \<Longrightarrow> live (base ! probe capacity (map_hash key capacity) l)"
proof -
  let ?h = "map_hash key capacity"
  let ?free = "\<lambda>i. \<not> live (base ! probe capacity ?h i)"
  have h: "?h < capacity" using assms(1) by (rule shape_hash)
  obtain i0 where i0: "i0 < capacity" "probe capacity ?h i0 = u" using probe_onto [OF h assms(2)] by blast
  then have "?free i0" using assms(3) by simp
  then have free: "?free (LEAST i. ?free i)" and le: "(LEAST i. ?free i) \<le> i0"
    by (rule LeastI, rule Least_le)
  let ?i = "LEAST i. ?free i"
  have before: "live (base ! probe capacity ?h l)" if "l < ?i" for l
    using that not_less_Least by blast
  have "get_free_entry base capacity key = get_free_entry_from base capacity (probe capacity ?h ?i)"
    unfolding get_free_entry_def by (rule get_free_entry_from_skips [OF h before])
  also have "\<dots> = Some (probe capacity ?h ?i)"
    using free by (subst get_free_entry_from.simps) (cases "e_value (base ! probe capacity ?h ?i)"; simp)
  finally show ?thesis using that le i0 free before by (meson le_less_trans)
qed

text \<open>Two live entries never have the same key.\<close>

lemma live_unique:
  assumes "shape base capacity" "i < capacity" "j < capacity"
    "live (base ! i)" "live (base ! j)" "e_key (base ! i) = e_key (base ! j)"
  shows "i = j"
proof -
  have "get_entry base capacity (e_key (base ! j)) = Some (Some i)"
    and "get_entry base capacity (e_key (base ! j)) = Some (Some j)"
    using assms by (auto intro: get_entry_found)
  then show ?thesis by simp
qed

lemma shape_update:
  assumes sh: "shape base capacity" and h: "h < capacity" and ne: "\<not> is_VNone (e_value e')"
    and other: "\<And>j. j < capacity \<Longrightarrow> j \<noteq> h \<Longrightarrow> live (base ! j) \<Longrightarrow> e_key e' \<noteq> e_key (base ! j)"
    and here: "live e' \<Longrightarrow> reachable_slot (base[h := e']) capacity h"
  shows "shape (base[h := e']) capacity"
proof -
  have len: "length base = capacity" using sh by (simp add: shape_def)
  have "reachable_slot (base[h := e']) capacity j" if j: "j < capacity" "live (base[h := e'] ! j)" for j
  proof (cases "j = h")
    case True
    with that h len here show ?thesis by simp
  next
    case False
    with j have lj: "live (base ! j)" and eq: "base[h := e'] ! j = base ! j" by auto
    with sh j(1) have "reachable_slot base capacity j" by (auto simp: shape_def)
    then obtain i where i: "i < capacity" "probe capacity (map_hash (e_key (base ! j)) capacity) i = j"
      "skips base capacity (e_key (base ! j)) (map_hash (e_key (base ! j)) capacity) i"
      by (auto simp: reachable_slot_def)
    have "skips (base[h := e']) capacity (e_key (base ! j)) (map_hash (e_key (base ! j)) capacity) i"
      unfolding skips_def
    proof (intro allI impI)
      fix l assume "l < i"
      with i(3) have "\<not> is_VNone (e_value (base ! probe capacity (map_hash (e_key (base ! j)) capacity) l))"
        "e_key (base ! probe capacity (map_hash (e_key (base ! j)) capacity) l) \<noteq> e_key (base ! j)"
        by (auto simp: skips_def)
      then show "\<not> is_VNone (e_value (base[h := e'] ! probe capacity (map_hash (e_key (base ! j)) capacity) l)) \<and>
        e_key (base[h := e'] ! probe capacity (map_hash (e_key (base ! j)) capacity) l) \<noteq> e_key (base ! j)"
        using ne other [OF j(1) False lj] h len
        by (cases "probe capacity (map_hash (e_key (base ! j)) capacity) l = h") auto
    qed
    with i(1,2) eq show ?thesis by (auto simp: reachable_slot_def)
  qed
  with sh show ?thesis by (auto simp: shape_def)
qed

lemma shape_place:
  assumes sh: "shape base capacity" and i: "i < capacity"
    and free: "\<And>l. l < i \<Longrightarrow> live (base ! probe capacity (map_hash key capacity) l)"
    and absent: "\<And>j. j < capacity \<Longrightarrow> live (base ! j) \<Longrightarrow> e_key (base ! j) \<noteq> key"
  shows "shape (base[probe capacity (map_hash key capacity) i := \<lparr>e_key = key, e_value = Val v\<rparr>]) capacity"
proof (rule shape_update [OF sh])
  let ?h = "map_hash key capacity" and ?p = "probe capacity (map_hash key capacity) i"
  let ?base' = "base[?p := \<lparr>e_key = key, e_value = Val v\<rparr>]"
  have cap: "0 < capacity" using i by simp
  have len: "length base = capacity" using sh by (simp add: shape_def)
  show "?p < capacity" using cap by simp
  have "\<not> is_VNone (e_value (?base' ! probe capacity ?h l)) \<and> e_key (?base' ! probe capacity ?h l) \<noteq> key"
    if "l < i" for l
  proof -
    have "probe capacity ?h l \<noteq> ?p"
      using that i probe_inj [of l capacity i ?h] by auto
    moreover have l: "live (base ! probe capacity ?h l)" using that by (rule free)
    then have "\<not> is_VNone (e_value (base ! probe capacity ?h l))" by (rule mval.distinct_disc)
    moreover have "e_key (base ! probe capacity ?h l) \<noteq> key"
      by (rule absent [OF _ l]) (use cap in simp)
    ultimately show ?thesis by simp
  qed
  then have "skips ?base' capacity key ?h i" unfolding skips_def by blast
  moreover have "e_key (?base' ! ?p) = key" using cap len by simp
  ultimately show "reachable_slot ?base' capacity ?p"
    unfolding reachable_slot_def using i by (intro exI [of _ i]) simp
qed (use absent in auto)

section \<open>The finite map and the counts\<close>

definition storage_map :: "'v mentry list \<Rightarrow> u32 \<Rightarrow> 'v option" where
  "storage_map base = map_of (map (\<lambda>e. (e_key e, the_val (e_value e))) (filter live base))"

definition gmap_map :: "'v gmap \<Rightarrow> u32 \<Rightarrow> 'v option" where
  "gmap_map m = storage_map (m_storage m)"

text \<open>One reference is held for each stored value, on top of those held before (\<open>r0\<close>).\<close>

definition refs_exact :: "('v \<Rightarrow> int) \<Rightarrow> 'v gmap \<Rightarrow> bool" where
  "refs_exact r0 m \<longleftrightarrow> (\<forall>v. m_refs m v = r0 v + int (n_value v (m_storage m)))"

lemma storage_map_None: "storage_map base k = None \<longleftrightarrow> (\<forall>j<length base. live (base ! j) \<longrightarrow> e_key (base ! j) \<noteq> k)"
  by (auto simp: storage_map_def map_of_eq_None_iff image_iff in_set_conv_nth)

lemma storage_mapE:
  assumes "storage_map base k = Some v"
  obtains j where "j < length base" "e_key (base ! j) = k" "e_value (base ! j) = Val v"
proof -
  have "(k, v) \<in> set (map (\<lambda>e. (e_key e, the_val (e_value e))) (filter live base))"
    using assms unfolding storage_map_def by (rule map_of_SomeD)
  then obtain e where "e \<in> set base" "live e" "e_key e = k" "the_val (e_value e) = v" by auto
  then show ?thesis using that by (metis in_set_conv_nth mval.collapse)
qed

lemma storage_map_Some:
  assumes "shape base capacity" "j < capacity" "e_key (base ! j) = k" "e_value (base ! j) = Val v"
  shows "storage_map base k = Some v"
proof -
  have len: "length base = capacity" using assms(1) by (simp add: shape_def)
  have "storage_map base k \<noteq> None"
    using assms(2-4) len by (auto simp: storage_map_None)
  then obtain v' where v': "storage_map base k = Some v'" by blast
  then obtain j' where j': "j' < length base" "e_key (base ! j') = k" "e_value (base ! j') = Val v'"
    by (rule storage_mapE)
  then have "j' = j" using live_unique [OF assms(1), of j' j] assms(2-4) len by simp
  with j'(3) assms(4) v' show ?thesis by simp
qed

lemma storage_map_update:
  assumes "shape base capacity" "shape (base[h := e']) capacity" "h < capacity"
    and "live (base ! h) \<Longrightarrow> e_key (base ! h) = e_key e'"
  shows "storage_map (base[h := e']) =
    (storage_map base)(e_key e' := (if live e' then Some (the_val (e_value e'))
       else if live (base ! h) then None else storage_map base (e_key e')))"
proof
  fix k
  let ?base = "base[h := e']"
  have len: "length base = capacity" using assms(1) by (simp add: shape_def)
  have uniq: "j = h" if "j < capacity" "live (base ! j)" "live (base ! h)" "e_key (base ! j) = e_key (base ! h)" for j
    using live_unique [OF assms(1) that(1) assms(3)] that by blast
  have same: "storage_map ?base k = storage_map base k" if k: "k \<noteq> e_key e'"
  proof (cases "storage_map base k")
    case None
    then have "storage_map ?base k = None"
      using k assms(3) len by (auto simp: storage_map_None nth_list_update)
    with None show ?thesis by simp
  next
    case (Some v)
    then obtain j where j: "j < length base" "e_key (base ! j) = k" "e_value (base ! j) = Val v"
      by (rule storage_mapE)
    then have "j \<noteq> h" using k assms(4) by auto
    with j have "storage_map ?base k = Some v"
      using len by (intro storage_map_Some [OF assms(2), of j]) auto
    with Some show ?thesis by simp
  qed
  have "storage_map ?base (e_key e') = (if live e' then Some (the_val (e_value e'))
       else if live (base ! h) then None else storage_map base (e_key e'))"
  proof (cases "live e'")
    case True
    then have "storage_map ?base (e_key e') = Some (the_val (e_value e'))"
      using assms(3) len by (intro storage_map_Some [OF assms(2), of h]) auto
    with True show ?thesis by simp
  next
    case dead: False
    show ?thesis
    proof (cases "live (base ! h)")
      case True
      have "storage_map ?base (e_key e') = None"
        unfolding storage_map_None
      proof (intro allI impI)
        fix j assume j: "j < length ?base" "live (?base ! j)"
        then have "j \<noteq> h" using dead len assms(3) by auto
        with j have "j < capacity" "live (base ! j)" "?base ! j = base ! j" using len by auto
        then show "e_key (?base ! j) \<noteq> e_key e'"
          using uniq [of j] True assms(4) \<open>j \<noteq> h\<close> by metis
      qed
      with dead True show ?thesis by simp
    next
      case False
      have "storage_map ?base (e_key e') = storage_map base (e_key e')"
      proof (cases "storage_map base (e_key e')")
        case None
        then have "storage_map ?base (e_key e') = None"
          using dead assms(3) len by (auto simp: storage_map_None nth_list_update)
        with None show ?thesis by simp
      next
        case (Some v)
        then obtain j where j: "j < length base" "e_key (base ! j) = e_key e'" "e_value (base ! j) = Val v"
          by (rule storage_mapE)
        then have "j \<noteq> h" using False by auto
        with j have "storage_map ?base (e_key e') = Some v"
          using len by (intro storage_map_Some [OF assms(2), of j]) auto
        with Some show ?thesis by simp
      qed
      with dead False show ?thesis by simp
    qed
  qed
  with same show "storage_map ?base k = ((storage_map base)(e_key e' := (if live e' then Some (the_val (e_value e'))
       else if live (base ! h) then None else storage_map base (e_key e')))) k"
    by simp
qed

lemma n_update:
  assumes "h < length base"
  shows "n_live (base[h := e']) + of_bool (live (base ! h)) = n_live base + of_bool (live e')"
    and "n_deleted (base[h := e']) + of_bool (is_VDeleted (e_value (base ! h))) =
         n_deleted base + of_bool (is_VDeleted (e_value e'))"
    and "n_value v (base[h := e']) + of_bool (e_value (base ! h) = Val v) =
         n_value v base + of_bool (e_value e' = Val v)"
  unfolding n_live_def n_deleted_def n_value_def
  by (rule length_filter_update [OF assms])+

text \<open>The invariant leaves an unused slot.\<close>

lemma unused_slot:
  assumes "n_live base + n_deleted base < length base"
  obtains u where "u < length base" "is_VNone (e_value (base ! u))"
proof -
  have "n_live base + n_deleted base + length (filter (\<lambda>e. is_VNone (e_value e)) base) = length base"
    unfolding n_live_def n_deleted_def
    by (rule filter_partition3) (auto dest: mval.distinct_disc intro: mval.exhaust_disc)
  with assms have "filter (\<lambda>e. is_VNone (e_value e)) base \<noteq> []" by auto
  then obtain e where "e \<in> set base" "is_VNone (e_value e)" by (auto simp: filter_empty_conv)
  then show ?thesis using that by (auto simp: in_set_conv_nth)
qed

section \<open>The operations on a valid table\<close>

lemma table_okD:
  assumes "table_ok m capacity"
  shows "m_capacity m = capacity" "shape (m_storage m) capacity" "length (m_storage m) = capacity"
    "m_entries m = n_live (m_storage m)" "m_deletes m = n_deleted (m_storage m)" "8 \<le> capacity"
  using assms by (auto simp: table_ok_def shape_def)

lemma get_entry_none:
  assumes ok: "table_ok m capacity" and room: "m_entries m + m_deletes m < capacity"
    and "gmap_map m key = None"
  shows "get_entry (m_storage m) capacity key = Some None"
proof -
  note t = table_okD [OF ok]
  obtain u where "u < length (m_storage m)" "is_VNone (e_value (m_storage m ! u))"
    using unused_slot [of "m_storage m"] room t by auto
  with t assms(3) show ?thesis
    by (intro get_entry_absent [of _ _ u]) (auto simp: gmap_map_def storage_map_None)
qed

lemma get_entry_some:
  assumes ok: "table_ok m capacity" and "gmap_map m key = Some v"
  obtains j where "get_entry (m_storage m) capacity key = Some (Some j)" "j < capacity"
    "e_key (m_storage m ! j) = key" "e_value (m_storage m ! j) = Val v"
proof -
  note t = table_okD [OF ok]
  obtain j where j: "j < capacity" "e_key (m_storage m ! j) = key" "e_value (m_storage m ! j) = Val v"
    using assms(2) t by (auto simp: gmap_map_def elim: storage_mapE)
  then have "get_entry (m_storage m) capacity key = Some (Some j)"
    using get_entry_found [OF t(2) j(1)] by simp
  with j show ?thesis by (rule that [rotated])
qed

text \<open>What placing a new entry does to a table.\<close>

definition placed :: "'v gmap \<Rightarrow> nat \<Rightarrow> u32 \<Rightarrow> 'v \<Rightarrow> 'v gmap \<Rightarrow> bool" where
  "placed m capacity key v m' \<longleftrightarrow>
     table_ok m' capacity \<and> m_entries m' = Suc (m_entries m) \<and> m_deletes m' \<le> m_deletes m \<and>
     gmap_map m' = (gmap_map m)(key \<mapsto> v) \<and>
     (\<forall>x. n_value x (m_storage m') = n_value x (m_storage m) + of_bool (x = v)) \<and>
     m_refs m' = (m_refs m)(v := m_refs m v + 1)"

lemma place_entry_placed:
  assumes ok: "table_ok m capacity" and room: "m_entries m + m_deletes m < capacity"
    and absent: "gmap_map m key = None"
  shows "\<exists>m'. place_entry m capacity key v = Some (True, m') \<and> placed m capacity key v m'"
proof -
  let ?base = "m_storage m" and ?e = "\<lparr>e_key = key, e_value = Val v\<rparr>"
  note t = table_okD [OF ok]
  have no_key: "e_key (?base ! j) \<noteq> key" if "j < capacity" "live (?base ! j)" for j
    using absent that t(3) by (simp add: gmap_map_def storage_map_None)
  obtain u where u: "u < capacity" "is_VNone (e_value (?base ! u))"
    using unused_slot [of ?base] room t by auto
  then have "\<not> live (?base ! u)" by (auto dest: mval.distinct_disc)
  then obtain i where i: "i < capacity"
      "get_free_entry ?base capacity key = Some (probe capacity (map_hash key capacity) i)"
      "\<not> live (?base ! probe capacity (map_hash key capacity) i)"
      "\<And>l. l < i \<Longrightarrow> live (?base ! probe capacity (map_hash key capacity) l)"
    using get_free_entry_found [OF t(2) u(1), of key] by blast
  let ?p = "probe capacity (map_hash key capacity) i"
  let ?base' = "?base[?p := ?e]"
  have p: "?p < capacity" "?p < length ?base" using i(1) t(3) by auto
  have sh': "shape ?base' capacity"
    by (rule shape_place [OF t(2) i(1) i(4) no_key])
  note n = n_update [where e' = ?e, OF p(2)]
  define m' where "m' = m\<lparr>m_refs := (m_refs m)(v := m_refs m v + 1),
    m_deletes := m_deletes m - of_bool (is_VDeleted (e_value (?base ! ?p))),
    m_storage := ?base', m_entries := m_entries m + 1\<rparr>"
  have "place_entry m capacity key v = Some (True, m')"
    using i(2) by (simp add: place_entry_def acquire_value_def m'_def)
  moreover have "gmap_map m' = (gmap_map m)(key \<mapsto> v)"
    using storage_map_update [OF t(2) sh' p(1)] i(3) by (simp add: gmap_map_def m'_def)
  moreover have "n_value x ?base' = n_value x ?base + of_bool (x = v)" for x
    using n(3) [of x] i(3) by (auto simp: is_Val_def)
  moreover have "table_ok m' capacity"
    using n(1,2) t sh' i(3) by (auto simp: table_ok_def m'_def)
  ultimately show ?thesis by (auto simp: placed_def m'_def)
qed

lemma fresh_table:
  assumes "alloc capacity = Some junk" "8 \<le> capacity" "capacity = 2 ^ n"
  shows "\<exists>m'. khrn_map_init alloc capacity m = (True, m') \<and> table_ok m' capacity \<and>
    m_entries m' = 0 \<and> m_deletes m' = 0 \<and> gmap_map m' = Map.empty \<and>
    (\<forall>x. n_value x (m_storage m') = 0) \<and> m_refs m' = m_refs m"
proof -
  let ?base = "map (\<lambda>i. \<lparr>e_key = junk i, e_value = VNone\<rparr> :: 'a mentry) [0..<capacity]"
  have "filter live ?base = []" "filter (\<lambda>e. is_VDeleted (e_value e)) ?base = []"
    "filter (\<lambda>e. e_value e = Val x) ?base = []" for x
    by (auto simp: filter_empty_conv)
  moreover have "shape ?base capacity"
    using assms(2,3) by (auto simp: shape_def)
  ultimately show ?thesis
    using assms(1)
    by (simp add: khrn_map_init_def table_ok_def n_live_def n_deleted_def n_value_def gmap_map_def storage_map_def)
qed

lemma release_after_place:
  assumes "placed m capacity key v m'"
  shows "table_ok (release_value v m') capacity" "m_entries (release_value v m') = Suc (m_entries m)"
    "m_deletes (release_value v m') \<le> m_deletes m"
    "gmap_map (release_value v m') = (gmap_map m)(key \<mapsto> v)"
    "n_value x (m_storage (release_value v m')) = n_value x (m_storage m) + of_bool (x = v)"
    "m_refs (release_value v m') = m_refs m"
  using assms by (auto simp: placed_def release_value_def table_ok_def gmap_map_def)

lemma copy_entries_spec:
  assumes ins: "\<And>m key v. table_ok m capacity \<Longrightarrow> m_deletes m = 0 \<Longrightarrow> m_entries m < capacity div 2 \<Longrightarrow>
      gmap_map m key = None \<Longrightarrow> ins m key v = place_entry m capacity key v"
    and "table_ok m capacity" "m_deletes m = 0" "m_entries m + n_live es \<le> capacity div 2"
    and "distinct (map e_key (filter live es))"
    and "\<And>e. e \<in> set es \<Longrightarrow> live e \<Longrightarrow> gmap_map m (e_key e) = None"
  shows "\<exists>m'. copy_entries ins es m = Some m' \<and> table_ok m' capacity \<and> m_deletes m' = 0 \<and>
    m_entries m' = m_entries m + n_live es \<and> gmap_map m' = gmap_map m ++ storage_map es \<and>
    (\<forall>x. n_value x (m_storage m') = n_value x (m_storage m) + n_value x es) \<and> m_refs m' = m_refs m \<and>
    copy_entries ins es m = copy_entries (\<lambda>m. place_entry m capacity) es m"
  using assms(2-)
proof (induction es arbitrary: m)
  case Nil
  then show ?case by (simp add: n_live_def n_value_def storage_map_def)
next
  case (Cons e es)
  show ?case
  proof (cases "e_value e")
    case (Val v)
    let ?k = "e_key e"
    have n: "n_live (e # es) = Suc (n_live es)" using Val by (simp add: n_live_def)
    have small: "m_entries m < capacity div 2" using Cons.prems(3) n by simp
    then have "m_entries m + m_deletes m < capacity" using Cons.prems(2) by linarith
    moreover have absent: "gmap_map m ?k = None" using Cons.prems(5) [of e] Val by simp
    ultimately obtain m1 where m1: "place_entry m capacity ?k v = Some (True, m1)" "placed m capacity ?k v m1"
      using place_entry_placed [OF Cons.prems(1)] by blast
    note r = release_after_place [OF m1(2)]
    let ?m = "release_value v m1"
    have "copy_entries ins (e # es) m = copy_entries ins es ?m"
      "copy_entries (\<lambda>m. place_entry m capacity) (e # es) m = copy_entries (\<lambda>m. place_entry m capacity) es ?m"
      using ins [OF Cons.prems(1,2) small absent] m1(1) Val by simp_all
    moreover have "\<exists>m'. copy_entries ins es ?m = Some m' \<and> table_ok m' capacity \<and> m_deletes m' = 0 \<and>
      m_entries m' = m_entries ?m + n_live es \<and> gmap_map m' = gmap_map ?m ++ storage_map es \<and>
      (\<forall>x. n_value x (m_storage m') = n_value x (m_storage ?m) + n_value x es) \<and> m_refs m' = m_refs ?m \<and>
      copy_entries ins es ?m = copy_entries (\<lambda>m. place_entry m capacity) es ?m"
    proof (rule Cons.IH [OF r(1)])
      show "m_deletes ?m = 0" using r(3) Cons.prems(2) by simp
      show "m_entries ?m + n_live es \<le> capacity div 2" using Cons.prems(3) n r(2) by simp
      show "distinct (map e_key (filter live es))" using Cons.prems(4) Val by simp
      show "gmap_map ?m (e_key f) = None" if "f \<in> set es" "live f" for f
      proof -
        have "e_key e \<notin> e_key ` set (filter live es)" using Cons.prems(4) Val by simp
        moreover have "e_key f \<in> e_key ` set (filter live es)" using that by simp
        ultimately have "e_key f \<noteq> e_key e" by metis
        with that r(4) Cons.prems(5) [of f] show ?thesis by simp
      qed
    qed
    moreover have "gmap_map ?m ++ storage_map es = gmap_map m ++ storage_map (e # es)"
    proof -
      have "storage_map es ?k = None"
        using Cons.prems(4) Val by (auto simp: storage_map_def map_of_eq_None_iff)
      then show ?thesis
        using Val r(4) by (auto simp: storage_map_def fun_eq_iff map_add_def split: option.splits)
    qed
    moreover have "n_value x (m_storage ?m) + n_value x es = n_value x (m_storage m) + n_value x (e # es)" for x
      using r(5) [of x] Val by (auto simp: n_value_def)
    ultimately show ?thesis using r(2,6) n by simp
  next
    case VNone
    then have "copy_entries f (e # es) m = copy_entries f es m" "n_live (e # es) = n_live es"
      "storage_map (e # es) = storage_map es" "n_value x (e # es) = n_value x es" for x f
      by (simp_all add: n_live_def storage_map_def n_value_def)
    with Cons VNone show ?thesis by simp
  next
    case VDeleted
    then have "copy_entries f (e # es) m = copy_entries f es m" "n_live (e # es) = n_live es"
      "storage_map (e # es) = storage_map es" "n_value x (e # es) = n_value x es" for x f
      by (simp_all add: n_live_def storage_map_def n_value_def)
    with Cons VDeleted show ?thesis by simp
  qed
qed

text \<open>No reallocation while at most half of the slots are used.\<close>

lemma insert_depth_places:
  assumes "table_ok m capacity" "m_deletes m = 0" "m_entries m < capacity div 2" "gmap_map m key = None"
  shows "insert_depth (Suc d) alloc m key v = place_entry m capacity key v"
proof -
  have "m_entries m + m_deletes m < capacity" using assms(2,3) by linarith
  then have "get_entry (m_storage m) capacity key = Some None"
    using assms by (intro get_entry_none) auto
  moreover have "\<not> m_entries m > capacity div 2" "\<not> m_entries m + m_deletes m > 3 * capacity div 4"
    using assms(2,3) by linarith+
  ultimately show ?thesis using table_okD(1) [OF assms(1)] by simp
qed

lemma live_keys_distinct:
  assumes "shape base capacity"
  shows "distinct (map e_key (filter live base))"
proof (rule distinct_map_filter_nth)
  have "length base = capacity" using assms by (simp add: shape_def)
  then show "i = j" if "i < length base" "j < length base" "live (base ! i)" "live (base ! j)"
    "e_key (base ! i) = e_key (base ! j)" for i j
    using live_unique [OF assms] that by simp
qed

lemma realloc_storage_spec:
  assumes ok: "table_ok m (m_capacity m)" and new: "alloc new = Some junk" "8 \<le> new" "new = 2 ^ n"
    and fit: "m_entries m \<le> new div 2"
  shows "\<exists>m'. realloc_storage (insert_depth (Suc d) alloc) alloc m new = Some (True, m') \<and>
    table_ok m' new \<and> m_deletes m' = 0 \<and> m_entries m' = m_entries m \<and> gmap_map m' = gmap_map m \<and>
    (\<forall>x. n_value x (m_storage m') = n_value x (m_storage m)) \<and> m_refs m' = m_refs m \<and>
    realloc_storage (insert_depth (Suc d) alloc) alloc m new =
      realloc_storage (\<lambda>m. place_entry m new) alloc m new"
proof -
  note t = table_okD [OF ok]
  obtain m0 where m0: "khrn_map_init alloc new m = (True, m0)" "table_ok m0 new"
      "m_entries m0 = 0" "m_deletes m0 = 0" "gmap_map m0 = Map.empty"
      "\<And>x. n_value x (m_storage m0) = 0" "m_refs m0 = m_refs m"
    using fresh_table [of alloc new junk n m] new by blast
  have "\<exists>m'. copy_entries (insert_depth (Suc d) alloc) (m_storage m) m0 = Some m' \<and> table_ok m' new \<and>
    m_deletes m' = 0 \<and> m_entries m' = m_entries m0 + n_live (m_storage m) \<and>
    gmap_map m' = gmap_map m0 ++ storage_map (m_storage m) \<and>
    (\<forall>x. n_value x (m_storage m') = n_value x (m_storage m0) + n_value x (m_storage m)) \<and> m_refs m' = m_refs m0 \<and>
    copy_entries (insert_depth (Suc d) alloc) (m_storage m) m0 =
      copy_entries (\<lambda>m. place_entry m new) (m_storage m) m0"
    using m0 t fit live_keys_distinct [OF t(2)]
    by (intro copy_entries_spec insert_depth_places) auto
  then show ?thesis
    using m0 t by (auto simp: realloc_storage_def gmap_map_def)
qed

lemma refs_exact_placed:
  assumes "placed m capacity key v m'" "refs_exact r0 m"
  shows "refs_exact r0 m'"
  using assms by (auto simp: placed_def refs_exact_def)

lemma placed_inv:
  assumes "placed m capacity key v m'" "m_entries m \<le> capacity div 2"
    "m_entries m + m_deletes m \<le> 3 * capacity div 4"
  shows "gmap_inv m'"
  using assms table_okD(1) [of m' capacity] by (auto simp: placed_def gmap_inv_def)

lemma insert_replaces:
  assumes ok: "table_ok m (m_capacity m)" and old: "gmap_map m key = Some w"
  shows "\<exists>m'. insert_depth (Suc d) alloc m key v = Some (True, m') \<and> table_ok m' (m_capacity m) \<and>
    m_capacity m' = m_capacity m \<and> m_entries m' = m_entries m \<and> m_deletes m' = m_deletes m \<and>
    gmap_map m' = (gmap_map m)(key \<mapsto> v) \<and> (refs_exact r0 m \<longrightarrow> refs_exact r0 m')"
proof -
  let ?base = "m_storage m" and ?c = "m_capacity m"
  note t = table_okD [OF ok]
  obtain j where j: "get_entry ?base ?c key = Some (Some j)" "j < ?c" "e_key (?base ! j) = key"
      "e_value (?base ! j) = Val w"
    using get_entry_some [OF ok old] .
  let ?e = "(?base ! j)\<lparr>e_value := Val v\<rparr>"
  have reach: "reachable_slot (?base[j := ?e]) ?c j"
  proof -
    have "reachable_slot ?base ?c j" using t(2) j(2,4) by (auto simp: shape_def)
    then obtain i where i: "i < ?c" "probe ?c (map_hash key ?c) i = j" "skips ?base ?c key (map_hash key ?c) i"
      using j(3) by (auto simp: reachable_slot_def)
    have "j \<noteq> probe ?c (map_hash key ?c) l" if "l < i" for l
      using probe_inj [of l ?c i "map_hash key ?c"] that i(1,2) by auto
    then have "skips (?base[j := ?e]) ?c key (map_hash key ?c) i"
      using i(3) by (simp add: skips_def)
    with i j t(3) show ?thesis by (auto simp: reachable_slot_def)
  qed
  have sh': "shape (?base[j := ?e]) ?c"
  proof (rule shape_update [OF t(2) j(2) _ _ reach])
    show "e_key ?e \<noteq> e_key (?base ! l)" if "l < ?c" "l \<noteq> j" "live (?base ! l)" for l
      using live_unique [OF t(2) that(1) j(2) that(3)] that(2) j(4) by auto
  qed simp
  have jl: "j < length ?base" using j(2) t(3) by simp
  note n = n_update [where e' = ?e, OF jl]
  define m' where "m' = (release_value w (acquire_value v m))\<lparr>m_storage := ?base[j := ?e]\<rparr>"
  have "insert_depth (Suc d) alloc m key v = Some (True, m')"
    using j by (simp add: m'_def release_value_def acquire_value_def)
  moreover have "table_ok m' ?c"
    using n(1,2) t sh' j(4) by (auto simp: table_ok_def m'_def release_value_def acquire_value_def)
  moreover have "gmap_map m' = (gmap_map m)(key \<mapsto> v)"
    using storage_map_update [OF t(2) sh' j(2)] j(3,4) by (simp add: gmap_map_def m'_def)
  moreover have "refs_exact r0 m'" if r: "refs_exact r0 m"
    unfolding refs_exact_def
  proof
    fix x
    have "int (n_value x (?base[j := ?e])) + of_bool (w = x) = int (n_value x ?base) + of_bool (v = x)"
      using n(3) [of x] j(4) by (auto split: if_splits)
    moreover have "m_refs m x = r0 x + int (n_value x ?base)" using r by (simp add: refs_exact_def)
    ultimately show "m_refs m' x = r0 x + int (n_value x (m_storage m'))"
      by (auto simp: m'_def release_value_def acquire_value_def split: if_splits)
  qed
  ultimately show ?thesis by (auto simp: m'_def release_value_def acquire_value_def)
qed

text \<open>A new key: the table is rebuilt first when it is too full.\<close>

lemma gmap_invD:
  assumes "gmap_inv m"
  shows "table_ok m (m_capacity m)" "m_entries m \<le> m_capacity m div 2 + 1"
    "m_entries m + m_deletes m \<le> 3 * m_capacity m div 4 + 1" "8 \<le> m_capacity m"
    "m_entries m + m_deletes m < m_capacity m" "\<exists>n. m_capacity m = 2 ^ n"
proof -
  show ok: "table_ok m (m_capacity m)" using assms by (simp add: gmap_inv_def)
  show "8 \<le> m_capacity m" using table_okD(6) [OF ok] .
  with assms show "m_entries m + m_deletes m < m_capacity m" by (auto simp: gmap_inv_def)
  show "\<exists>n. m_capacity m = 2 ^ n" using ok by (auto simp: table_ok_def shape_def)
qed (use assms in \<open>auto simp: gmap_inv_def\<close>)

text \<open>The outcome of an insertion: it fails and leaves the table, or it adds the binding.\<close>

definition insert_ok :: "'v gmap \<Rightarrow> u32 \<Rightarrow> 'v \<Rightarrow> bool \<times> 'v gmap \<Rightarrow> bool" where
  "insert_ok m key v r \<longleftrightarrow>
     (case r of
        (False, m') \<Rightarrow> m' = m
      | (True, m') \<Rightarrow> gmap_inv m' \<and> gmap_map m' = (gmap_map m)(key \<mapsto> v) \<and>
          (\<forall>r0. refs_exact r0 m \<longrightarrow> refs_exact r0 m'))"

lemma rebuild_and_place:
  assumes inv: "gmap_inv m" and absent: "gmap_map m key = None"
    and new: "8 \<le> new" "new = 2 ^ n" "m_entries m \<le> new div 2"
  shows "\<exists>r. (case realloc_storage (insert_depth (Suc d) alloc) alloc m new of
               None \<Rightarrow> None | Some (False, m') \<Rightarrow> Some (False, m')
             | Some (True, m') \<Rightarrow> place_entry m' new key v) = Some r \<and> insert_ok m key v r \<and>
    (fst r \<longleftrightarrow> alloc new \<noteq> None)"
proof (cases "alloc new")
  case None
  then show ?thesis
    by (simp add: realloc_storage_def khrn_map_init_def insert_ok_def)
next
  case (Some junk)
  obtain m1 where m1: "realloc_storage (insert_depth (Suc d) alloc) alloc m new = Some (True, m1)"
    "table_ok m1 new" "m_deletes m1 = 0" "m_entries m1 = m_entries m" "gmap_map m1 = gmap_map m"
    "\<And>x. n_value x (m_storage m1) = n_value x (m_storage m)" "m_refs m1 = m_refs m"
    using realloc_storage_spec [where alloc = alloc, OF gmap_invD(1) [OF inv] Some new] by blast
  have "m_entries m1 + m_deletes m1 < new" using m1(3,4) new(1,3) by linarith
  then obtain m2 where m2: "place_entry m1 new key v = Some (True, m2)" "placed m1 new key v m2"
    using place_entry_placed [OF m1(2)] absent m1(5) by metis
  have "gmap_inv m2"
    by (rule placed_inv [OF m2(2)]) (use m1(3,4) new in linarith)+
  moreover have "gmap_map m2 = (gmap_map m)(key \<mapsto> v)" using m2(2) m1(5) by (simp add: placed_def)
  moreover have "refs_exact r0 m2" if "refs_exact r0 m" for r0
    by (rule refs_exact_placed [OF m2(2)]) (use that m1(6,7) in \<open>simp add: refs_exact_def\<close>)
  ultimately show ?thesis using m1(1) m2(1) Some by (simp add: insert_ok_def)
qed

lemma insert_new:
  assumes inv: "gmap_inv m" and absent: "gmap_map m key = None"
  shows "\<exists>r. insert_depth (Suc (Suc d)) alloc m key v = Some r \<and> insert_ok m key v r \<and>
    ((\<forall>n. alloc n \<noteq> None) \<longrightarrow> fst r)"
proof -
  let ?c = "m_capacity m"
  note i = gmap_invD [OF inv]
  obtain n where n: "?c = 2 ^ n" using i(6) by blast
  have g: "get_entry (m_storage m) ?c key = Some None"
    by (rule get_entry_none [OF i(1,5) absent])
  consider (grow) "m_entries m > ?c div 2"
    | (clean) "\<not> m_entries m > ?c div 2" "m_entries m + m_deletes m > 3 * ?c div 4"
    | (fits) "\<not> m_entries m > ?c div 2" "\<not> m_entries m + m_deletes m > 3 * ?c div 4"
    by blast
  then show ?thesis
  proof cases
    case grow
    have "?c * 2 = 2 ^ Suc n" using n by simp
    moreover have "8 \<le> ?c * 2" "m_entries m \<le> ?c * 2 div 2" using i(2,4) by linarith+
    ultimately obtain r where "(case realloc_storage (insert_depth (Suc d) alloc) alloc m (?c * 2) of
               None \<Rightarrow> None | Some (False, m') \<Rightarrow> Some (False, m')
             | Some (True, m') \<Rightarrow> place_entry m' (?c * 2) key v) = Some r" "insert_ok m key v r"
        "fst r \<longleftrightarrow> alloc (?c * 2) \<noteq> None"
      using rebuild_and_place [OF inv absent, of "?c * 2" "Suc n"] by blast
    then show ?thesis using g grow by (subst insert_depth.simps) simp
  next
    case clean
    obtain r where "(case realloc_storage (insert_depth (Suc d) alloc) alloc m ?c of
               None \<Rightarrow> None | Some (False, m') \<Rightarrow> Some (False, m')
             | Some (True, m') \<Rightarrow> place_entry m' ?c key v) = Some r" "insert_ok m key v r"
        "fst r \<longleftrightarrow> alloc ?c \<noteq> None"
      using rebuild_and_place [OF inv absent i(4) n] clean(1) by fastforce
    then show ?thesis using g clean by (subst insert_depth.simps) simp
  next
    case fits
    obtain m' where m': "place_entry m ?c key v = Some (True, m')" "placed m ?c key v m'"
      using place_entry_placed [OF i(1,5) absent] by blast
    moreover have "gmap_inv m'" by (rule placed_inv [OF m'(2)]) (use fits in auto)
    ultimately have "insert_ok m key v (True, m')"
      using refs_exact_placed [OF m'(2)] by (simp add: insert_ok_def placed_def)
    then show ?thesis using g fits m'(1) by (subst insert_depth.simps) simp
  qed
qed

lemma insert_depth_spec:
  assumes inv: "gmap_inv m"
  shows "\<exists>r. insert_depth (Suc (Suc d)) alloc m key v = Some r \<and> insert_ok m key v r \<and>
    ((\<forall>n. alloc n \<noteq> None) \<longrightarrow> fst r)"
proof (cases "gmap_map m key")
  case None
  with inv show ?thesis by (rule insert_new)
next
  case (Some w)
  note i = gmap_invD [OF inv]
  obtain m' where m': "insert_depth (Suc (Suc d)) alloc m key v = Some (True, m')" "table_ok m' (m_capacity m)"
    "m_capacity m' = m_capacity m" "m_entries m' = m_entries m" "m_deletes m' = m_deletes m"
    "gmap_map m' = (gmap_map m)(key \<mapsto> v)"
    using insert_replaces [OF i(1) Some] by blast
  moreover have "refs_exact r0 m'" if "refs_exact r0 m" for r0
    using insert_replaces [OF i(1) Some, of "Suc d" alloc v r0] m'(1) that by auto
  ultimately have "insert_ok m key v (True, m')"
    using i(2,3) by (simp add: insert_ok_def gmap_inv_def)
  with m'(1) show ?thesis by simp
qed

text \<open>Any larger bound on the recursion gives the same result: depth 2 is enough.\<close>

lemma rebuild_depth:
  assumes "table_ok m (m_capacity m)" "8 \<le> new" "new = 2 ^ n" "m_entries m \<le> new div 2"
  shows "realloc_storage (insert_depth (Suc d) alloc) alloc m new =
    realloc_storage (\<lambda>m. place_entry m new) alloc m new"
proof (cases "alloc new")
  case None
  then show ?thesis by (simp add: realloc_storage_def khrn_map_init_def)
next
  case (Some junk)
  then show ?thesis using realloc_storage_spec [where alloc = alloc, OF assms(1) Some assms(2-4)] by blast
qed

lemma insert_depth_enough:
  assumes "gmap_inv m"
  shows "insert_depth (Suc (Suc d)) alloc m key v = khrn_map_insert alloc m key v"
proof -
  let ?c = "m_capacity m"
  note i = gmap_invD [OF assms]
  obtain n where n: "?c = 2 ^ n" using i(6) by blast
  have "?c * 2 = 2 ^ Suc n" "8 \<le> ?c * 2" "m_entries m \<le> ?c * 2 div 2" using n i(2,4) by auto
  then have grow: "realloc_storage (insert_depth (Suc d) alloc) alloc m (?c * 2) =
      realloc_storage (insert_depth (Suc 0) alloc) alloc m (?c * 2)"
    using rebuild_depth [OF i(1)] by presburger
  have clean: "realloc_storage (insert_depth (Suc d) alloc) alloc m ?c =
      realloc_storage (insert_depth (Suc 0) alloc) alloc m ?c" if "\<not> m_entries m > ?c div 2"
    using rebuild_depth [OF i(1,4) n] that by simp
  show ?thesis
    unfolding khrn_map_insert_def numeral_2_eq_2
    by (subst (1 2) insert_depth.simps, simp only: Let_def)
       (use grow clean in \<open>auto split: option.split simp del: insert_depth.simps\<close>)
qed

section \<open>Deletion, lookup, teardown\<close>

lemma delete_absent:
  assumes "gmap_inv m" "gmap_map m key = None"
  shows "khrn_map_delete m key = Some (False, m)"
  using get_entry_none [OF gmap_invD(1) [OF assms(1)] gmap_invD(5) [OF assms(1)] assms(2)]
  by (simp add: khrn_map_delete_def)

lemma delete_present:
  assumes inv: "gmap_inv m" and old: "gmap_map m key = Some w"
  obtains m' j where "khrn_map_delete m key = Some (True, m')" "gmap_inv m'"
    "gmap_map m' = (gmap_map m)(key := None)" "\<forall>r0. refs_exact r0 m \<longrightarrow> refs_exact r0 m'"
    "m_capacity m' = m_capacity m" "j < m_capacity m" "e_key (m_storage m ! j) = key"
    "e_value (m_storage m ! j) = Val w"
    "m_storage m' = (m_storage m)[j := (m_storage m ! j)\<lparr>e_value := VDeleted\<rparr>]"
proof -
  let ?base = "m_storage m" and ?c = "m_capacity m"
  note i = gmap_invD [OF inv]
  note t = table_okD [OF i(1)]
  obtain j where j: "get_entry ?base ?c key = Some (Some j)" "j < ?c" "e_key (?base ! j) = key"
      "e_value (?base ! j) = Val w"
    using get_entry_some [OF i(1) old] .
  let ?e = "(?base ! j)\<lparr>e_value := VDeleted\<rparr>"
  have sh': "shape (?base[j := ?e]) ?c"
  proof (rule shape_update [OF t(2) j(2)])
    show "e_key ?e \<noteq> e_key (?base ! l)" if "l < ?c" "l \<noteq> j" "live (?base ! l)" for l
      using live_unique [OF t(2) that(1) j(2) that(3)] that(2) j(4) by auto
  qed simp_all
  have jl: "j < length ?base" using j(2) t(3) by simp
  note n = n_update [where e' = ?e, OF jl]
  define m' where "m' = (release_value w m)\<lparr>m_storage := ?base[j := ?e],
    m_deletes := m_deletes m + 1, m_entries := m_entries m - 1\<rparr>"
  have "khrn_map_delete m key = Some (True, m')"
    using j by (simp add: khrn_map_delete_def m'_def release_value_def Let_def)
  moreover have "gmap_inv m'"
    using n(1,2) t sh' j(4) i(2,3) by (auto simp: gmap_inv_def table_ok_def m'_def release_value_def)
  moreover have "gmap_map m' = (gmap_map m)(key := None)"
    using storage_map_update [OF t(2) sh' j(2)] j(3,4) by (simp add: gmap_map_def m'_def)
  moreover have "\<forall>r0. refs_exact r0 m \<longrightarrow> refs_exact r0 m'"
    unfolding refs_exact_def
  proof (intro allI impI)
    fix r0 x assume r: "\<forall>v. m_refs m v = r0 v + int (n_value v ?base)"
    have "int (n_value x (?base[j := ?e])) + of_bool (w = x) = int (n_value x ?base)"
      using n(3) [of x] j(4) by (auto split: if_splits)
    moreover have "m_refs m x = r0 x + int (n_value x ?base)" using r by blast
    ultimately show "m_refs m' x = r0 x + int (n_value x (m_storage m'))"
      by (auto simp: m'_def release_value_def split: if_splits)
  qed
  moreover have "m_capacity m' = ?c" "m_storage m' = ?base[j := ?e]"
    by (simp_all add: m'_def release_value_def)
  ultimately show ?thesis by (rule that [OF _ _ _ _ _ j(2-4)])
qed

lemma lookup_spec:
  assumes inv: "gmap_inv m"
  shows "khrn_map_lookup m key = Some (case gmap_map m key of None \<Rightarrow> VNone | Some v \<Rightarrow> Val v)"
proof (cases "gmap_map m key")
  case None
  then show ?thesis
    using get_entry_none [OF gmap_invD(1) [OF inv] gmap_invD(5) [OF inv] None] by (simp add: khrn_map_lookup_def)
next
  case (Some v)
  obtain j where "get_entry (m_storage m) (m_capacity m) key = Some (Some j)"
      "e_value (m_storage m ! j) = Val v"
    using get_entry_some [OF gmap_invD(1) [OF inv] Some] .
  with Some show ?thesis by (simp add: khrn_map_lookup_def)
qed

lemma release_all_refs: "m_refs (release_all es m) x = m_refs m x - int (n_value x es)"
proof (induction es arbitrary: m)
  case Nil
  then show ?case by (simp add: n_value_def)
next
  case (Cons e es)
  then show ?case by (cases "e_value e") (auto simp: n_value_def release_value_def)
qed

lemma term_releases:
  assumes "refs_exact r0 m"
  shows "m_refs (khrn_map_term m) = r0"
  using assms by (simp add: khrn_map_term_def release_all_refs refs_exact_def fun_eq_iff)

lemma count_spec:
  assumes "gmap_inv m"
  shows "khrn_map_get_count m = card (dom (gmap_map m))"
proof -
  note t = table_okD [OF gmap_invD(1) [OF assms]]
  have "dom (gmap_map m) = set (map e_key (filter live (m_storage m)))"
    by (auto simp: gmap_map_def storage_map_def dom_map_of_conv_image_fst image_iff)
  then have "card (dom (gmap_map m)) = n_live (m_storage m)"
    using distinct_card [OF live_keys_distinct [OF t(2)]] by (simp only: n_live_def length_map)
  then show ?thesis using t(4) by (simp add: khrn_map_get_count_def)
qed

section \<open>Iteration\<close>

text \<open>
  A callback that records what it is given and deletes the current entry unless \<open>keep\<close>
  holds of it, as the owners' destructors do.
\<close>

definition purge :: "(u32 \<Rightarrow> 'v \<Rightarrow> bool) \<Rightarrow> 'v gmap \<Rightarrow> u32 \<Rightarrow> 'v \<Rightarrow> (u32 \<times> 'v) list \<Rightarrow> 'v gmap \<times> (u32 \<times> 'v) list"
where
  "purge keep m key v log =
     (if keep key v then m else (case khrn_map_delete m key of Some (_, m') \<Rightarrow> m' | None \<Rightarrow> m), log @ [(key, v)])"

definition bindings :: "'v mentry list \<Rightarrow> (u32 \<times> 'v) list" where
  "bindings es = map (\<lambda>e. (e_key e, the_val (e_value e))) (filter live es)"

definition without :: "(u32 \<Rightarrow> 'v \<Rightarrow> bool) \<Rightarrow> (u32 \<times> 'v) list \<Rightarrow> (u32 \<Rightarrow> 'v option) \<Rightarrow> u32 \<Rightarrow> 'v option" where
  "without keep kvs f k = (if \<exists>v. (k, v) \<in> set kvs \<and> \<not> keep k v then None else f k)"

lemma drop_conv: "i < length xs \<Longrightarrow> drop i xs = xs ! i # drop (Suc i) xs"
  by (rule Cons_nth_drop_Suc [symmetric])

lemma iterate_from_purge:
  assumes "gmap_inv m" "m_capacity m = c" "\<And>r0. r0 \<in> R \<Longrightarrow> refs_exact r0 m"
  shows "\<exists>m'. iterate_from (purge keep) c i m log = (m', log @ bindings (drop i (m_storage m))) \<and>
    gmap_inv m' \<and> gmap_map m' = without keep (bindings (drop i (m_storage m))) (gmap_map m) \<and>
    (\<forall>r0\<in>R. refs_exact r0 m')"
  using assms
proof (induction "c - i" arbitrary: i m log)
  case 0
  then have "drop i (m_storage m) = []" using table_okD(3) [OF gmap_invD(1) [OF 0(2)]] by simp
  then show ?case
    using 0 by (subst iterate_from.simps) (auto simp: bindings_def without_def fun_eq_iff)
next
  case (Suc n)
  note t = table_okD [OF gmap_invD(1) [OF Suc.prems(1)]]
  have i: "i < c" "n = c - Suc i" using Suc.hyps(2) by auto
  then have d: "drop i (m_storage m) = m_storage m ! i # drop (Suc i) (m_storage m)"
    using t(3) Suc.prems(2) by (intro drop_conv) simp
  show ?case
  proof (cases "e_value (m_storage m ! i)")
    case (Val v)
    let ?k = "e_key (m_storage m ! i)"
    have k: "gmap_map m ?k = Some v"
      using storage_map_Some [OF t(2) _ refl Val] i Suc.prems(2) by (simp add: gmap_map_def)
    let ?m = "fst (purge keep m ?k v log)"
    have m: "gmap_inv ?m \<and> m_capacity ?m = c \<and> drop (Suc i) (m_storage ?m) = drop (Suc i) (m_storage m) \<and>
      gmap_map ?m = (if keep ?k v then gmap_map m else (gmap_map m)(?k := None)) \<and> (\<forall>r0\<in>R. refs_exact r0 ?m)"
    proof (cases "keep ?k v")
      case True
      with Suc.prems show ?thesis by (simp add: purge_def)
    next
      case False
      obtain m' j where m': "khrn_map_delete m ?k = Some (True, m')" "gmap_inv m'"
        "gmap_map m' = (gmap_map m)(?k := None)" "\<forall>r0. refs_exact r0 m \<longrightarrow> refs_exact r0 m'"
        "m_capacity m' = m_capacity m" and j: "j < m_capacity m" "e_key (m_storage m ! j) = ?k"
        "e_value (m_storage m ! j) = Val v"
        "m_storage m' = (m_storage m)[j := (m_storage m ! j)\<lparr>e_value := VDeleted\<rparr>]"
        by (rule delete_present [OF Suc.prems(1) k])
      have "j = i" using live_unique [OF t(2) j(1)] i Suc.prems(2) Val j(2,3) by simp
      with False m' j(4) Suc.prems(2,3) show ?thesis by (simp add: purge_def)
    qed
    obtain m' where m': "iterate_from (purge keep) c (Suc i) ?m (log @ [(?k, v)]) =
        (m', (log @ [(?k, v)]) @ bindings (drop (Suc i) (m_storage ?m)))" "gmap_inv m'"
      "gmap_map m' = without keep (bindings (drop (Suc i) (m_storage ?m))) (gmap_map ?m)"
      "\<forall>r0\<in>R. refs_exact r0 m'"
      using Suc.hyps(1) [OF i(2), of ?m "log @ [(?k, v)]"] m by blast
    have "iterate_from (purge keep) c i m log = iterate_from (purge keep) c (Suc i) ?m (log @ [(?k, v)])"
      using i Val by (subst iterate_from.simps) (simp add: purge_def)
    moreover have "bindings (drop i (m_storage m)) = (?k, v) # bindings (drop (Suc i) (m_storage m))"
      using d Val by (simp add: bindings_def)
    moreover have "without keep (bindings (drop (Suc i) (m_storage m))) (gmap_map ?m) =
        without keep ((?k, v) # bindings (drop (Suc i) (m_storage m))) (gmap_map m)"
      using m by (auto simp: without_def fun_eq_iff)
    ultimately show ?thesis using m' m by simp
  qed (use i d Suc.hyps(1) [OF i(2) Suc.prems] in \<open>subst iterate_from.simps, simp add: bindings_def\<close>)+
qed

section \<open>Clients of the map\<close>

text \<open>
  The owners of a map issue insertions (each under its own allocator behaviour), deletions
  and lookups. \<open>run_store\<close> runs a list of them; \<open>replay\<close> is what the replies say happened
  to a finite map, and \<open>None\<close> when a reply is not the one the map calls for.
\<close>

datatype ('a, 'k, 'v) map_op = Insert 'a 'k 'v | Delete 'k | Lookup 'k

datatype 'v map_reply = Done bool | Got "'v option"

fun run_store ::
  "('a \<Rightarrow> 'm \<Rightarrow> 'k \<Rightarrow> 'v \<Rightarrow> (bool \<times> 'm) option) \<Rightarrow> ('m \<Rightarrow> 'k \<Rightarrow> (bool \<times> 'm) option) \<Rightarrow>
   ('m \<Rightarrow> 'k \<Rightarrow> 'v option option) \<Rightarrow> ('a, 'k, 'v) map_op list \<Rightarrow> 'm \<Rightarrow> ('v map_reply list \<times> 'm) option" where
  "run_store ins del look [] m = Some ([], m)"
| "run_store ins del look (Insert a k v # ops) m =
     (case ins a m k v of None \<Rightarrow> None
      | Some (b, m') \<Rightarrow> map_option (map_prod (Cons (Done b)) id) (run_store ins del look ops m'))"
| "run_store ins del look (Delete k # ops) m =
     (case del m k of None \<Rightarrow> None
      | Some (b, m') \<Rightarrow> map_option (map_prod (Cons (Done b)) id) (run_store ins del look ops m'))"
| "run_store ins del look (Lookup k # ops) m =
     (case look m k of None \<Rightarrow> None
      | Some r \<Rightarrow> map_option (map_prod (Cons (Got r)) id) (run_store ins del look ops m))"

fun replay :: "('a, 'k, 'v) map_op list \<Rightarrow> 'v map_reply list \<Rightarrow> ('k \<Rightarrow> 'v option) \<Rightarrow> ('k \<Rightarrow> 'v option) option" where
  "replay [] [] f = Some f"
| "replay (Insert a k v # ops) (Done b # rs) f = replay ops rs (if b then f(k \<mapsto> v) else f)"
| "replay (Delete k # ops) (Done b # rs) f = (if b = (f k \<noteq> None) then replay ops rs (f(k := None)) else None)"
| "replay (Lookup k # ops) (Got r # rs) f = (if r = f k then replay ops rs f else None)"
| "replay _ _ f = None"

locale assoc_store =
  fixes ins :: "'a \<Rightarrow> 'm \<Rightarrow> 'k \<Rightarrow> 'v \<Rightarrow> (bool \<times> 'm) option"
    and del :: "'m \<Rightarrow> 'k \<Rightarrow> (bool \<times> 'm) option"
    and look :: "'m \<Rightarrow> 'k \<Rightarrow> 'v option option"
    and good :: "'m \<Rightarrow> bool"
    and abs_map :: "'m \<Rightarrow> 'k \<Rightarrow> 'v option"
  assumes ins_law: "good m \<Longrightarrow> \<exists>b m'. ins a m k v = Some (b, m') \<and> good m' \<and>
      abs_map m' = (if b then (abs_map m)(k \<mapsto> v) else abs_map m)"
    and del_law: "good m \<Longrightarrow> \<exists>m'. del m k = Some (abs_map m k \<noteq> None, m') \<and> good m' \<and>
      abs_map m' = (abs_map m)(k := None)"
    and look_law: "good m \<Longrightarrow> look m k = Some (abs_map m k)"
begin

lemma run_refines:
  assumes "good m"
  shows "\<exists>rs m'. run_store ins del look ops m = Some (rs, m') \<and> good m' \<and>
    replay ops rs (abs_map m) = Some (abs_map m')"
  using assms
proof (induction ops arbitrary: m)
  case Nil
  then show ?case by simp
next
  case (Cons p ops)
  show ?case
  proof (cases p)
    case (Insert a k v)
    obtain b m1 where m1: "ins a m k v = Some (b, m1)" "good m1"
      "abs_map m1 = (if b then (abs_map m)(k \<mapsto> v) else abs_map m)"
      using ins_law [OF Cons.prems] by blast
    obtain rs m2 where "run_store ins del look ops m1 = Some (rs, m2)" "good m2"
      "replay ops rs (abs_map m1) = Some (abs_map m2)"
      using Cons.IH [OF m1(2)] by blast
    with Insert m1 show ?thesis by (intro exI [of _ "Done b # rs"]) simp
  next
    case (Delete k)
    obtain m1 where m1: "del m k = Some (abs_map m k \<noteq> None, m1)" "good m1" "abs_map m1 = (abs_map m)(k := None)"
      using del_law [OF Cons.prems] by blast
    obtain rs m2 where "run_store ins del look ops m1 = Some (rs, m2)" "good m2"
      "replay ops rs (abs_map m1) = Some (abs_map m2)"
      using Cons.IH [OF m1(2)] by blast
    with Delete m1 show ?thesis by (intro exI [of _ "Done (abs_map m k \<noteq> None) # rs"]) simp
  next
    case (Lookup k)
    obtain rs m2 where "run_store ins del look ops m = Some (rs, m2)" "good m2"
      "replay ops rs (abs_map m) = Some (abs_map m2)"
      using Cons.IH [OF Cons.prems] by blast
    with Lookup look_law [OF Cons.prems] show ?thesis by (intro exI [of _ "Got (abs_map m k) # rs"]) simp
  qed
qed

end

text \<open>\<open>KHRN_GENERIC_MAP_VALUE_NONE\<close> is the answer for a key that is not bound.\<close>

definition khrn_map_find :: "'v gmap \<Rightarrow> u32 \<Rightarrow> 'v option option" where
  "khrn_map_find m key = map_option (\<lambda>x. case x of Val v \<Rightarrow> Some v | _ \<Rightarrow> None) (khrn_map_lookup m key)"

definition gmap_good :: "('v \<Rightarrow> int) \<Rightarrow> 'v gmap \<Rightarrow> bool" where
  "gmap_good r0 m \<longleftrightarrow> gmap_inv m \<and> refs_exact r0 m"

lemma insert_law:
  assumes "gmap_good r0 m"
  shows "\<exists>b m'. khrn_map_insert alloc m k v = Some (b, m') \<and> gmap_good r0 m' \<and>
    gmap_map m' = (if b then (gmap_map m)(k \<mapsto> v) else gmap_map m)"
proof -
  have inv: "gmap_inv m" using assms by (simp add: gmap_good_def)
  obtain r where "khrn_map_insert alloc m k v = Some r" "insert_ok m k v r"
    using insert_depth_spec [OF inv, of 0 alloc k v] by (auto simp: khrn_map_insert_def numeral_2_eq_2)
  with assms show ?thesis
    by (cases r) (auto simp: insert_ok_def gmap_good_def split: bool.splits)
qed

interpretation kmap: assoc_store khrn_map_insert khrn_map_delete khrn_map_find "gmap_good r0" gmap_map
proof
  fix m :: "'a gmap" and a k v
  assume good: "gmap_good r0 m"
  then show "\<exists>b m'. khrn_map_insert a m k v = Some (b, m') \<and> gmap_good r0 m' \<and>
      gmap_map m' = (if b then (gmap_map m)(k \<mapsto> v) else gmap_map m)"
    by (rule insert_law)
  have inv: "gmap_inv m" using good by (simp add: gmap_good_def)
  show "\<exists>m'. khrn_map_delete m k = Some (gmap_map m k \<noteq> None, m') \<and> gmap_good r0 m' \<and>
      gmap_map m' = (gmap_map m)(k := None)"
  proof (cases "gmap_map m k")
    case None
    with good delete_absent [OF inv None] show ?thesis by (auto simp: fun_upd_idem)
  next
    case (Some w)
    show ?thesis
      by (rule delete_present [OF inv Some]) (use good Some in \<open>auto simp: gmap_good_def\<close>)
  qed
  show "khrn_map_find m k = Some (gmap_map m k)"
    using lookup_spec [OF inv] by (simp add: khrn_map_find_def split: option.splits)
qed

lemma init_good:
  assumes "khrn_map_init alloc capacity m0 = (True, m)" "8 \<le> capacity" "capacity = 2 ^ n"
  shows "gmap_good (m_refs m0) m" "gmap_map m = Map.empty"
proof -
  obtain junk where "alloc capacity = Some junk"
    using assms(1) by (auto simp: khrn_map_init_def split: option.splits)
  then obtain m' where m': "khrn_map_init alloc capacity m0 = (True, m')" "table_ok m' capacity"
      "m_entries m' = 0" "m_deletes m' = 0" "gmap_map m' = Map.empty"
      "\<And>x. n_value x (m_storage m') = 0" "m_refs m' = m_refs m0"
    using fresh_table [of alloc capacity junk n m0] assms(2,3) by blast
  then have "m' = m" using assms(1) by simp
  with m' show "gmap_good (m_refs m0) m" "gmap_map m = Map.empty"
    using table_okD(1) [OF m'(2)] by (auto simp: gmap_good_def gmap_inv_def refs_exact_def)
qed

section \<open>Properties\<close>

text \<open>
  C3. A map made by \<open>khrn_map_init\<close> behaves as a finite map under every list of insertions,
  deletions and lookups, whichever of the reallocations they need fail: every call ends,
  a failed insertion changes nothing, every reply is the one the finite map calls for, the
  count is the number of bindings, and terminating the map releases exactly the
  references it acquired.
\<close>

theorem khrn_map_refines_finite_map:
  assumes "khrn_map_init alloc capacity m0 = (True, m)" "8 \<le> capacity" "\<exists>n. capacity = 2 ^ n"
  shows "\<exists>rs m'. run_store khrn_map_insert khrn_map_delete khrn_map_find ops m = Some (rs, m') \<and>
    replay ops rs Map.empty = Some (gmap_map m') \<and>
    khrn_map_get_count m' = card (dom (gmap_map m')) \<and>
    m_refs (khrn_map_term m') = m_refs m0"
proof -
  obtain n where n: "capacity = 2 ^ n" using assms(3) by blast
  note start = init_good [OF assms(1,2) n]
  obtain rs m' where "run_store khrn_map_insert khrn_map_delete khrn_map_find ops m = Some (rs, m')"
    "gmap_good (m_refs m0) m'" "replay ops rs (gmap_map m) = Some (gmap_map m')"
    using kmap.run_refines [OF start(1)] by blast
  then show ?thesis using start(2) count_spec term_releases by (auto simp: gmap_good_def)
qed

definition demo_map :: "nat gmap" where
  "demo_map = \<lparr>m_entries = 5, m_deletes = 9, m_storage = [], m_capacity = 0, m_refs = (\<lambda>_. 0)\<rparr>"

definition demo_ops :: "(map_alloc, u32, nat) map_op list" where
  "demo_ops = [Insert (\<lambda>_. None) 3 7, Insert (\<lambda>_. None) 11 8, Delete 3, Lookup 11]"

lemma khrn_map_refines_finite_map_witness:
  "\<exists>rs m'. run_store khrn_map_insert khrn_map_delete khrn_map_find demo_ops
      (snd (khrn_map_init (\<lambda>_. Some (\<lambda>_. 0)) 8 demo_map)) = Some (rs, m') \<and>
    replay demo_ops rs Map.empty = Some (gmap_map m') \<and>
    khrn_map_get_count m' = card (dom (gmap_map m')) \<and>
    m_refs (khrn_map_term m') = m_refs demo_map"
proof (rule khrn_map_refines_finite_map)
  show "khrn_map_init (\<lambda>_. Some (\<lambda>_. 0)) 8 demo_map =
      (True, snd (khrn_map_init (\<lambda>_. Some (\<lambda>_. 0)) 8 demo_map))"
    by (simp add: khrn_map_init_def)
  show "\<exists>n. (8::nat) = 2 ^ n" by (rule exI [of _ 3]) simp
qed simp

text \<open>
  Where memory is available an insertion into a valid map succeeds, however full the
  table is and however many tombstones it holds: the value is found under its key, every
  other key keeps its value, and the table is valid again.
\<close>

theorem khrn_map_insert_then_lookup:
  assumes "gmap_inv m" "\<forall>n. alloc n \<noteq> None"
  shows "\<exists>m'. khrn_map_insert alloc m key v = Some (True, m') \<and> gmap_inv m' \<and>
    khrn_map_lookup m' key = Some (Val v) \<and>
    (\<forall>k. k \<noteq> key \<longrightarrow> khrn_map_lookup m' k = khrn_map_lookup m k)"
proof -
  obtain m' where "khrn_map_insert alloc m key v = Some (True, m')" "insert_ok m key v (True, m')"
    using insert_depth_spec [OF assms(1), of 0 alloc key v] assms(2)
    by (auto simp: khrn_map_insert_def numeral_2_eq_2)
  then show ?thesis using lookup_spec [OF assms(1)] by (auto simp: insert_ok_def lookup_spec)
qed

definition full_map :: "nat gmap" where
  "full_map = (let t = \<lambda>i. \<lparr>e_key = of_nat i, e_value = Val i\<rparr> in
     \<lparr>m_entries = 5, m_deletes = 2,
      m_storage = [t 0, t 1, t 2, t 3, t 4, (t 5)\<lparr>e_value := VDeleted\<rparr>, (t 6)\<lparr>e_value := VDeleted\<rparr>,
                   (t 7)\<lparr>e_value := VNone\<rparr>],
      m_capacity = 8, m_refs = (\<lambda>_. 1)\<rparr>)"

lemma khrn_map_insert_then_lookup_witness:
  "\<exists>m'. khrn_map_insert (\<lambda>_. Some (\<lambda>_. 0)) full_map 9 1 = Some (True, m') \<and> gmap_inv m' \<and>
    khrn_map_lookup m' 9 = Some (Val 1) \<and>
    (\<forall>k. k \<noteq> 9 \<longrightarrow> khrn_map_lookup m' k = khrn_map_lookup full_map k)"
proof (rule khrn_map_insert_then_lookup)
  have slot: "reachable_slot (m_storage full_map) 8 j" if "j < 5" for j
  proof -
    from that consider "j = 0" | "j = 1" | "j = 2" | "j = 3" | "j = 4" by linarith
    then show ?thesis
      unfolding reachable_slot_def
      by cases (intro exI [of _ 0], simp add: full_map_def skips_def probe_def map_hash_def)+
  qed
  have "shape (m_storage full_map) 8"
    unfolding shape_def
  proof (intro conjI allI impI)
    show "\<exists>n. (8::nat) = 2 ^ n" by (rule exI [of _ 3]) simp
    show "reachable_slot (m_storage full_map) 8 j" if "j < 8" "live (m_storage full_map ! j)" for j
    proof (rule slot)
      have "j \<noteq> 5" "j \<noteq> 6" "j \<noteq> 7" using that(2) by (auto simp: full_map_def)
      with that(1) show "j < 5" by linarith
    qed
  qed (simp_all add: full_map_def)
  then show "gmap_inv full_map"
    by (simp add: gmap_inv_def table_ok_def n_live_def n_deleted_def full_map_def)
qed simp

text \<open>
  Iterating over a valid map with a callback that may delete the entry it is given calls
  it for every binding exactly once, and leaves the map without the deleted bindings and
  with one reference per remaining value.
\<close>

theorem khrn_map_iterate_visits_all:
  assumes "gmap_inv m" "refs_exact r0 m"
  shows "\<exists>m' log. khrn_map_iterate (purge keep) m [] = (m', log) \<and>
    distinct (map fst log) \<and> map_of log = gmap_map m \<and>
    gmap_inv m' \<and> refs_exact r0 m' \<and>
    gmap_map m' = (\<lambda>k. case gmap_map m k of Some v \<Rightarrow> if keep k v then Some v else None | None \<Rightarrow> None)"
proof -
  note t = table_okD [OF gmap_invD(1) [OF assms(1)]]
  let ?log = "bindings (m_storage m)"
  obtain m' where m': "khrn_map_iterate (purge keep) m [] = (m', ?log)" "gmap_inv m'" "refs_exact r0 m'"
    "gmap_map m' = without keep ?log (gmap_map m)"
    using iterate_from_purge [OF assms(1) refl, of "{r0}" keep 0 "[]"] assms(2)
    by (auto simp: khrn_map_iterate_def)
  have d: "distinct (map fst ?log)"
    using live_keys_distinct [OF t(2)] by (simp add: bindings_def comp_def)
  have log: "map_of ?log = gmap_map m" by (simp add: bindings_def gmap_map_def storage_map_def)
  have "without keep ?log (gmap_map m) =
      (\<lambda>k. case gmap_map m k of Some v \<Rightarrow> if keep k v then Some v else None | None \<Rightarrow> None)"
    unfolding log [symmetric] without_def fun_eq_iff
    using eq_key_imp_eq_value [OF d] by (auto split: option.splits dest: map_of_SomeD simp: map_of_eq_None_iff)
  with m' d log show ?thesis by auto
qed

lemma khrn_map_iterate_visits_all_witness:
  "\<exists>m' log. khrn_map_iterate (purge (\<lambda>k v. k = 2)) (snd (khrn_map_init (\<lambda>_. Some (\<lambda>_. 0)) 8 demo_map)) [] = (m', log) \<and>
    distinct (map fst log) \<and> map_of log = gmap_map (snd (khrn_map_init (\<lambda>_. Some (\<lambda>_. 0)) 8 demo_map)) \<and>
    gmap_inv m' \<and> refs_exact (\<lambda>_. 0) m' \<and>
    gmap_map m' = (\<lambda>k. case gmap_map (snd (khrn_map_init (\<lambda>_. Some (\<lambda>_. 0)) 8 demo_map)) k of
       Some v \<Rightarrow> if k = 2 then Some v else None | None \<Rightarrow> None)"
proof (rule khrn_map_iterate_visits_all)
  have "khrn_map_init (\<lambda>_. Some (\<lambda>_. 0)) 8 demo_map =
      (True, snd (khrn_map_init (\<lambda>_. Some (\<lambda>_. 0)) 8 demo_map))"
    by (simp add: khrn_map_init_def)
  then have "gmap_good (m_refs demo_map) (snd (khrn_map_init (\<lambda>_. Some (\<lambda>_. 0)) 8 demo_map))"
    by (rule init_good [where n = 3]) auto
  then show "gmap_inv (snd (khrn_map_init (\<lambda>_. Some (\<lambda>_. 0)) 8 demo_map))"
    "refs_exact (\<lambda>_. 0) (snd (khrn_map_init (\<lambda>_. Some (\<lambda>_. 0)) 8 demo_map))"
    by (simp_all add: gmap_good_def demo_map_def)
qed

end
