(* ===== verification/Khrn_Util.thy ===== *)
theory Khrn_Util
  imports Oculus_Prelude
begin

text \<open>
  circle/addon/vc4/interface/khronos/common/khrn_int_util.h and khrn_int_util.c: the integer
  helpers of the Khronos client (the portable C bodies that GCC compiles) and the clipping of
  ranges and rectangles. An \<open>int32_t\<close> is a 32-bit word read by \<open>sint\<close>; signed sums and
  differences wrap, which the saturating helpers rely on. The theory shows that the helpers
  saturate, that both forms of \<open>_msb\<close> agree, and that clipping gives exactly the common part
  whatever overflows on the way.
\<close>

section \<open>Integer helpers\<close>

definition c_min :: "u32 \<Rightarrow> u32 \<Rightarrow> u32" where
  "c_min x y = (if sint x < sint y then x else y)"

definition c_max :: "u32 \<Rightarrow> u32 \<Rightarrow> u32" where
  "c_max x y = (if sint x > sint y then x else y)"

definition bmask :: "u32 \<Rightarrow> u32 \<Rightarrow> u32" where
  "bmask x y = x AND (push_bit (unat (y AND 0x1f)) 1 - 1)"

text \<open>\<open>__builtin_clz\<close> of GCC: the zeros above the highest one of a word that is not zero.\<close>

definition clz :: "u32 \<Rightarrow> int" where
  "clz x = int (length (takeWhile (\<lambda>i. \<not> bit x i) (rev [0..<32])))"

definition msb :: "u32 \<Rightarrow> int" where
  "msb x = (if x \<noteq> 0 then 31 - clz x else - 1)"

text \<open>The loop that other compilers get.\<close>

function msb_loop :: "int \<Rightarrow> u32 \<Rightarrow> int" where
  "msb_loop m x = (if x \<noteq> 0 then msb_loop (m + 1) (drop_bit 1 x) else m)"
  by auto

function count_loop :: "u32 \<Rightarrow> u32 \<Rightarrow> u32" where
  "count_loop c x = (if x \<noteq> 0 then count_loop (c + 1) (x AND (x - 1)) else c)"
  by auto

definition bit_count :: "u32 \<Rightarrow> u32" where
  "bit_count x = count_loop 0 x"

definition bitrev :: "u32 \<Rightarrow> u32 \<Rightarrow> u32" where
  "bitrev x y = fold (\<lambda>i r. r OR push_bit (unat y - i - 1) (drop_bit i x AND 1)) [0..<unat y] 0"

definition adds :: "u32 \<Rightarrow> u32 \<Rightarrow> u32" where
  "adds x y =
     (let z = x + y
      in if sint y > 0 then (if sint z < sint x then 0x7fffffff else z)
         else (if sint z > sint x then 0x80000000 else z))"

definition subs :: "u32 \<Rightarrow> u32 \<Rightarrow> u32" where
  "subs x y =
     (let z = x - y
      in if sint y > 0 then (if sint z > sint x then 0x80000000 else z)
         else (if sint z < sint x then 0x7fffffff else z))"

definition c_abs :: "u32 \<Rightarrow> u32" where
  "c_abs x = (if sint x > 0 then x else - x)"

text \<open>\<open>(int16_t)(x - 0x4000)\<close> keeps the low 16 bits, sign-extended.\<close>

definition s_ext_off16 :: "u32 \<Rightarrow> u32" where
  "s_ext_off16 x = scast (ucast (x - 0x4000) :: u16) + 0x4000"

definition is_power_of_2 :: "u32 \<Rightarrow> bool" where
  "is_power_of_2 x \<longleftrightarrow> x \<noteq> 0 \<and> x AND (x - 1) = 0"

definition next_power_of_2 :: "u32 \<Rightarrow> u32" where
  "next_power_of_2 x = (if is_power_of_2 x then x else push_bit (nat (msb x + 1)) 1)"

definition round_up :: "u32 \<Rightarrow> u32 \<Rightarrow> u32" where
  "round_up x y = (x + (y - 1)) AND NOT (y - 1)"

text \<open>\<open>x % y\<close> of C takes the sign of \<open>x\<close>.\<close>

definition c_mod :: "int \<Rightarrow> int \<Rightarrow> int" where
  "c_mod x y = (let m = sgn x * (\<bar>x\<bar> mod \<bar>y\<bar>) in if m < 0 then m + y else m)"

text \<open>\<open>find_max\<close> over the indices read as bytes or half-words.\<close>

definition find_max :: "nat list \<Rightarrow> u32" where
  "find_max indices = fold (\<lambda>i m. c_max m (of_nat i)) indices (- 1)"

section \<open>Clipping\<close>

definition ranges_intersect :: "u32 \<Rightarrow> u32 \<Rightarrow> u32 \<Rightarrow> u32 \<Rightarrow> bool" where
  "ranges_intersect x0 l0 x1 l1 \<longleftrightarrow> sint x0 < sint (x1 + l1) \<and> sint x1 < sint (x0 + l0)"

definition rects_intersect :: "u32 \<Rightarrow> u32 \<Rightarrow> u32 \<Rightarrow> u32 \<Rightarrow> u32 \<Rightarrow> u32 \<Rightarrow> u32 \<Rightarrow> u32 \<Rightarrow> bool" where
  "rects_intersect x0 y0 w0 h0 x1 y1 w1 h1 \<longleftrightarrow> ranges_intersect x0 w0 x1 w1 \<and> ranges_intersect y0 h0 y1 h1"

text \<open>The clipped range, its start and length.\<close>

definition khrn_clip_range :: "u32 \<Rightarrow> u32 \<Rightarrow> u32 \<Rightarrow> u32 \<Rightarrow> u32 \<times> u32" where
  "khrn_clip_range x0 l0 x1 l1 =
     (let max_x0 = adds x0 l0;
          max_x1 = x1 + l1;
          min_x0 = (if sint x0 < sint x1 then x1 else x0);
          max_x0 = (if sint max_x0 > sint max_x1 then max_x1 else max_x0);
          l = c_max (subs max_x0 min_x0) 0
      in (if l = 0 then x1 else min_x0, l))"

text \<open>Two ranges of one length, each clipped by its own range; the result moves both starts.\<close>

definition khrn_clip_range2 :: "u32 \<Rightarrow> u32 \<Rightarrow> u32 \<Rightarrow> u32 \<Rightarrow> u32 \<Rightarrow> u32 \<Rightarrow> u32 \<Rightarrow> u32 \<times> u32 \<times> u32" where
  "khrn_clip_range2 ax0 bx0 l0 ax1 al1 bx1 bl1 =
     (let l0 = adds (c_max ax0 bx0) l0 - c_max ax0 bx0;
          max_a = ax0 + l0; max_b = bx0 + l0;
          max_ax1 = ax1 + al1; max_bx1 = bx1 + bl1;
          (a, b) = (if sint ax0 < sint ax1 then (ax1, adds bx0 (subs ax1 ax0)) else (ax0, bx0));
          (max_a, max_b) = (if sint max_a > sint max_ax1 then (max_ax1, subs max_b (subs max_a max_ax1)) else (max_a, max_b));
          (a, b) = (if sint b < sint bx1 then (adds a (subs bx1 b), bx1) else (a, b));
          (max_a, max_b) = (if sint max_b > sint max_bx1 then (subs max_a (subs max_b max_bx1), max_bx1) else (max_a, max_b));
          l = c_max (subs max_a a) 0
      in (if l = 0 then ax1 else a, if l = 0 then bx1 else b, l))"

definition khrn_clip_rect ::
  "u32 \<times> u32 \<times> u32 \<times> u32 \<Rightarrow> u32 \<times> u32 \<times> u32 \<times> u32 \<Rightarrow> u32 \<times> u32 \<times> u32 \<times> u32" where
  "khrn_clip_rect r0 r1 =
     (let (x0, y0, w0, h0) = r0; (x1, y1, w1, h1) = r1;
          (x, w) = khrn_clip_range x0 w0 x1 w1;
          (y, h) = khrn_clip_range y0 h0 y1 h1
      in (x, y, w, h))"

definition khrn_clip_rect2 ::
  "u32 \<times> u32 \<times> u32 \<times> u32 \<times> u32 \<times> u32 \<Rightarrow> u32 \<times> u32 \<times> u32 \<times> u32 \<Rightarrow> u32 \<times> u32 \<times> u32 \<times> u32
    \<Rightarrow> u32 \<times> u32 \<times> u32 \<times> u32 \<times> u32 \<times> u32" where
  "khrn_clip_rect2 r0 ra rb =
     (let (ax0, ay0, bx0, by0, w0, h0) = r0; (ax1, ay1, aw1, ah1) = ra; (bx1, by1, bw1, bh1) = rb;
          (ax, bx, w) = khrn_clip_range2 ax0 bx0 w0 ax1 aw1 bx1 bw1;
          (ay, by, h) = khrn_clip_range2 ay0 by0 h0 ay1 ah1 by1 bh1
      in (ax, ay, bx, by, w, h))"

text \<open>\<open>khrn_get_type_size\<close>, by the constants of GLES/gl.h and GLES2/gl2ext.h; any other type is
  unreachable code that returns 0.\<close>

definition GL_BYTE :: u32 where "GL_BYTE = 0x1400"
definition GL_UNSIGNED_BYTE :: u32 where "GL_UNSIGNED_BYTE = 0x1401"
definition GL_SHORT :: u32 where "GL_SHORT = 0x1402"
definition GL_UNSIGNED_SHORT :: u32 where "GL_UNSIGNED_SHORT = 0x1403"
definition GL_FLOAT :: u32 where "GL_FLOAT = 0x1406"
definition GL_FIXED :: u32 where "GL_FIXED = 0x140C"
definition GL_HALF_FLOAT_OES :: u32 where "GL_HALF_FLOAT_OES = 0x8D61"

definition khrn_get_type_size :: "u32 \<Rightarrow> u32" where
  "khrn_get_type_size type =
     (if type = GL_BYTE \<or> type = GL_UNSIGNED_BYTE then 1
      else if type = GL_SHORT \<or> type = GL_UNSIGNED_SHORT \<or> type = GL_HALF_FLOAT_OES then 2
      else if type = GL_FIXED \<or> type = GL_FLOAT then 4
      else 0)"

section \<open>Termination\<close>

termination msb_loop
proof (relation "measure (\<lambda>(m, x). unat x)")
  fix m :: int and x :: u32
  assume "x \<noteq> 0"
  then have "unat x div 2 < unat x" by (simp add: unat_gt_0)
  then show "((m + 1, drop_bit 1 x), (m, x)) \<in> measure (\<lambda>(m, x). unat x)"
    by (simp add: unat_div drop_bit_eq_div)
qed simp

termination count_loop
proof (relation "measure (\<lambda>(c, x). unat x)")
  fix c x :: u32
  assume "x \<noteq> 0"
  have "unat (x AND (x - 1)) \<le> unat (x - 1)" using word_and_le1 [of x "x - 1"] by (simp only: word_le_nat_alt)
  also have "\<dots> = unat x - 1" using unat_minus_one [OF \<open>x \<noteq> 0\<close>] .
  also have "\<dots> < unat x" using \<open>x \<noteq> 0\<close> by (simp add: unat_gt_0)
  finally show "((c + 1, x AND (x - 1)), (c, x)) \<in> measure (\<lambda>(c, x). unat x)" by simp
qed simp

declare msb_loop.simps [simp del] count_loop.simps [simp del]

section \<open>Saturation\<close>

abbreviation (input) INT32_MAX :: int where "INT32_MAX \<equiv> 2147483647"
abbreviation (input) INT32_MIN :: int where "INT32_MIN \<equiv> - 2147483648"

definition clamp :: "int \<Rightarrow> int" where
  "clamp v = max INT32_MIN (min INT32_MAX v)"

lemma sint_range: "INT32_MIN \<le> sint (x :: u32)" "sint (x :: u32) \<le> INT32_MAX"
  using sint_greater_eq [of x] sint_lt [of x] by simp_all

lemma signed_wrap:
  fixes k :: int
  assumes "- 4294967296 \<le> k" "k < 4294967296"
  shows "signed_take_bit 31 k = k \<and> INT32_MIN \<le> k \<and> k \<le> INT32_MAX \<or>
    signed_take_bit 31 k = k - 4294967296 \<and> INT32_MAX < k \<or>
    signed_take_bit 31 k = k + 4294967296 \<and> k < INT32_MIN"
proof -
  have shift: "signed_take_bit 31 k = signed_take_bit 31 (k + 4294967296 * i)" for i :: int
    by (simp add: signed_take_bit_eq_iff_take_bit_eq take_bit_eq_mod)
  have exact: "signed_take_bit 31 j = j" if "INT32_MIN \<le> j" "j \<le> INT32_MAX" for j :: int
    using that by (simp add: signed_take_bit_int_eq_self)
  consider "INT32_MIN \<le> k" "k \<le> INT32_MAX" | "INT32_MAX < k" | "k < INT32_MIN" by linarith
  then show ?thesis
    by cases (use exact [of k] shift [of "-1"] exact [of "k - 4294967296"] shift [of 1] exact [of "k + 4294967296"] assms in auto)
qed

lemma sint_add_wrap:
  "sint (x + y :: u32) = sint x + sint y \<and> INT32_MIN \<le> sint x + sint y \<and> sint x + sint y \<le> INT32_MAX \<or>
   sint (x + y) = sint x + sint y - 4294967296 \<and> INT32_MAX < sint x + sint y \<or>
   sint (x + y) = sint x + sint y + 4294967296 \<and> sint x + sint y < INT32_MIN"
  using signed_wrap [of "sint x + sint y"] sint_range [of x] sint_range [of y]
  by (simp add: sint_word_ariths)

lemma sint_sub_wrap:
  "sint (x - y :: u32) = sint x - sint y \<and> INT32_MIN \<le> sint x - sint y \<and> sint x - sint y \<le> INT32_MAX \<or>
   sint (x - y) = sint x - sint y - 4294967296 \<and> INT32_MAX < sint x - sint y \<or>
   sint (x - y) = sint x - sint y + 4294967296 \<and> sint x - sint y < INT32_MIN"
  using signed_wrap [of "sint x - sint y"] sint_range [of x] sint_range [of y]
  by (simp add: sint_word_ariths)

lemma clampE:
  obtains "clamp v = v" "INT32_MIN \<le> v" "v \<le> INT32_MAX"
  | "clamp v = INT32_MAX" "v > INT32_MAX" | "clamp v = INT32_MIN" "v < INT32_MIN"
  unfolding clamp_def by linarith

text \<open>Raising a start, and with it the other one, which may saturate; lowering an end alike.\<close>

lemma clamp_raise:
  assumes "0 < d" "INT32_MIN \<le> x" "x \<le> INT32_MAX"
  shows "x \<le> clamp (x + clamp d) \<and> clamp (x + clamp d) \<le> INT32_MAX"
  using assms by (cases rule: clampE [of d]; cases rule: clampE [of "x + clamp d"]; auto)

lemma clamp_raise_exact:
  assumes "0 < d" "INT32_MIN \<le> x" "x \<le> INT32_MAX" "a \<le> x" "l \<le> INT32_MAX" "a + l \<le> INT32_MAX"
  shows "clamp (x + clamp d) = x + d \<or> l < (x + d) - a \<and> a + l \<le> clamp (x + clamp d)"
  using assms by (cases rule: clampE [of d]; cases rule: clampE [of "x + clamp d"]; auto)

lemma clamp_lower:
  assumes "0 < d" "INT32_MIN \<le> x" "x \<le> INT32_MAX"
  shows "clamp (x - clamp d) \<le> x \<and> INT32_MIN \<le> clamp (x - clamp d)"
  using assms by (cases rule: clampE [of d]; cases rule: clampE [of "x - clamp d"]; auto)

lemma clamp_lower_exact:
  assumes "0 < d" "INT32_MIN \<le> x" "x \<le> INT32_MAX" "x \<le> a + l" "l \<le> INT32_MAX" "INT32_MIN \<le> a"
  shows "clamp (x - clamp d) = x - d \<or> (x - d) - a \<le> 0 \<and> clamp (x - clamp d) \<le> a"
  using assms by (cases rule: clampE [of d]; cases rule: clampE [of "x - clamp d"]; auto)

lemma clip_starts:
  fixes a b l a1 b1 :: int
  assumes r: "INT32_MIN \<le> a" "INT32_MIN \<le> b" "a1 \<le> INT32_MAX" "b1 \<le> INT32_MAX"
    "0 \<le> l" "l \<le> INT32_MAX" "a + l \<le> INT32_MAX" "b + l \<le> INT32_MAX"
    and xy: "(x, y) = (if a < a1 then (a1, clamp (b + clamp (a1 - a))) else (a, b))"
    and xy': "(x', y') = (if y < b1 then (clamp (x + clamp (b1 - y)), b1) else (x, y))"
    and o: "o1 = max (max 0 (a1 - a)) (b1 - b)"
  shows "a \<le> x' \<and> x' \<le> INT32_MAX \<and> (x' = a + o1 \<and> y' = b + o1 \<or> l < o1 \<and> a + l \<le> x')"
proof -
  define p where "p = max 0 (a1 - a)"
  have p: "0 \<le> p" "a + p \<le> INT32_MAX" "o1 = max p (b1 - b)" using r o by (auto simp: p_def)
  have x: "x = a + p" using xy by (auto simp: p_def split: if_splits)
  have y: "b \<le> y \<and> y \<le> INT32_MAX \<and> (y = b + p \<or> l < p)"
  proof (cases "a < a1")
    case True
    then have y: "y = clamp (b + clamp (a1 - a))" using xy by simp
    have d: "0 < a1 - a" and b: "b \<le> INT32_MAX" using True r by simp_all
    note up = clamp_raise [OF d r(2) b] clamp_raise_exact [OF d r(2) b order.refl r(6) r(8)]
    have m: "p = a1 - a" using d by (simp add: p_def)
    from up(2) show ?thesis unfolding m y
      using up(1) by (elim disjE) auto
  qed (use xy r in \<open>simp add: p_def\<close>)
  show ?thesis
  proof (cases "y < b1")
    case False
    then have "x' = x" "y' = y" using xy' by simp_all
    with y show ?thesis using x p r(5,7) False by (elim conjE disjE) (simp_all add: max_def)
  next
    case True
    then have x': "x' = clamp (x + clamp (b1 - y))" "y' = b1" using xy' by auto
    have d: "0 < b1 - y" "INT32_MIN \<le> x" "x \<le> INT32_MAX" "a \<le> x" using True x p r by simp_all
    note up = clamp_raise [OF d(1-3), folded x'(1)] clamp_raise_exact [OF d r(6,7), folded x'(1)]
    from y have "y = b + p \<or> l < p" by simp
    then show ?thesis
    proof
      assume "y = b + p"
      then have "o1 = b1 - b" "x + (b1 - y) = a + o1" using p \<open>y < b1\<close> x by auto
      then show ?thesis using up d(4) x'(2) by (elim disjE) auto
    next
      assume "l < p"
      then show ?thesis using up(1) x p d(4) by (simp add: max_def)
    qed
  qed
qed

lemma clip_ends:
  fixes a b l A1 B1 :: int
  assumes r: "INT32_MIN \<le> a" "INT32_MIN \<le> b" "INT32_MIN \<le> A1" "INT32_MIN \<le> B1"
    "0 \<le> l" "l \<le> INT32_MAX" "a + l \<le> INT32_MAX" "b + l \<le> INT32_MAX"
    and XY: "(X, Y) = (if a + l > A1 then (A1, clamp ((b + l) - clamp (a + l - A1))) else (a + l, b + l))"
    and XY': "(X', Y') = (if Y > B1 then (clamp (X - clamp (Y - B1)), B1) else (X, Y))"
    and h: "h = min (min l (A1 - a)) (B1 - b)"
  shows "INT32_MIN \<le> X' \<and> X' \<le> a + l \<and> (X' = a + h \<or> h \<le> 0 \<and> X' \<le> a)"
proof -
  define q where "q = min l (A1 - a)"
  have q: "q \<le> l" "INT32_MIN \<le> a + q" "h = min q (B1 - b)" using r h by (auto simp: q_def)
  have X: "X = a + q" using XY by (auto simp: q_def split: if_splits)
  have Y: "INT32_MIN \<le> Y \<and> Y \<le> b + l \<and> (Y = b + q \<or> q \<le> 0)"
  proof (cases "a + l > A1")
    case True
    then have Y: "Y = clamp (b + l - clamp (a + l - A1))" using XY by simp
    have d: "0 < a + l - A1" and b: "INT32_MIN \<le> b + l" using True r by simp_all
    note dn = clamp_lower [OF d b r(8)] clamp_lower_exact [OF d b r(8) order.refl r(6) r(2)]
    have m: "q = A1 - a" using d by (simp add: q_def)
    from dn(2) show ?thesis unfolding m Y
      using dn(1) by (elim disjE) auto
  qed (use XY r in \<open>simp add: q_def\<close>)
  show ?thesis
  proof (cases "Y > B1")
    case False
    then have "X' = X" using XY' by simp
    with Y show ?thesis using X q False by (elim conjE disjE) (simp_all add: min_def)
  next
    case True
    then have X': "X' = clamp (X - clamp (Y - B1))" using XY' by auto
    have d: "0 < Y - B1" "INT32_MIN \<le> X" "X \<le> INT32_MAX" "X \<le> a + l" using True X q r by simp_all
    note dn = clamp_lower [OF d(1-3), folded X'] clamp_lower_exact [OF d r(6,1), folded X']
    from Y have "Y = b + q \<or> q \<le> 0" by simp
    then show ?thesis
    proof
      assume "Y = b + q"
      then have "h = B1 - b" "X - (Y - B1) = a + h" using q \<open>Y > B1\<close> X by auto
      then show ?thesis using dn d(4) by (elim disjE) auto
    next
      assume "q \<le> 0"
      then show ?thesis using dn(1) X q d(4) by (simp add: min_def)
    qed
  qed
qed

text \<open>The words are these integers.\<close>

lemma sint_adds: "sint (adds x y) = clamp (sint x + sint y)"
  using sint_add_wrap [of x y] sint_range [of x] sint_range [of y] sint_range [of "x + y"]
  by (elim disjE conjE) (auto simp: adds_def Let_def clamp_def)

lemma sint_subs: "sint (subs x y) = clamp (sint x - sint y)"
  using sint_sub_wrap [of x y] sint_range [of x] sint_range [of y] sint_range [of "x - y"]
  by (elim disjE conjE) (auto simp: subs_def Let_def clamp_def)

lemma sint_c_max: "sint (c_max x y) = max (sint x) (sint y)"
  by (simp add: c_max_def)

lemma sint_add_exact: "INT32_MIN \<le> sint x + sint y \<Longrightarrow> sint x + sint y \<le> INT32_MAX \<Longrightarrow> sint (x + y :: u32) = sint x + sint y"
  using sint_add_wrap [of x y] by auto

lemma sint_sub_exact: "INT32_MIN \<le> sint x - sint y \<Longrightarrow> sint x - sint y \<le> INT32_MAX \<Longrightarrow> sint (x - y :: u32) = sint x - sint y"
  using sint_sub_wrap [of x y] by auto

lemma clip_length:
  assumes "0 \<le> sint l"
  shows "sint (adds m l - m) = min (sint l) (INT32_MAX - sint m)"
proof -
  have "sint (adds m l) = min INT32_MAX (sint m + sint l)"
    using assms sint_range(1) [of m] by (simp add: sint_adds clamp_def)
  moreover from this have "sint (adds m l - m) = sint (adds m l) - sint m"
    using assms sint_range [of m] sint_range [of l] by (intro sint_sub_exact) auto
  ultimately show ?thesis by auto
qed

lemma clamp_pos: "v \<le> INT32_MAX \<Longrightarrow> max (clamp v) 0 = max 0 v"
  by (auto simp: clamp_def)

lemma khrn_clip_range_exact:
  assumes "0 \<le> sint l0" "0 \<le> sint l1" "sint x1 + sint l1 \<le> INT32_MAX"
    and "khrn_clip_range x0 l0 x1 l1 = (x, l)"
  shows "{sint x ..< sint x + sint l} = {sint x0 ..< sint x0 + sint l0} \<inter> {sint x1 ..< sint x1 + sint l1}"
proof -
  have e: "sint (x1 + l1) = sint x1 + sint l1" using assms(2,3) sint_range(1) [of x1] by (intro sint_add_exact) auto
  have m: "min (sint (adds x0 l0)) (sint x1 + sint l1) = min (sint x0 + sint l0) (sint x1 + sint l1)"
    using assms(1,3) sint_range(1) [of x0] by (simp add: sint_adds clamp_def min_def)
  have l: "sint l = max (clamp (min (sint x0 + sint l0) (sint x1 + sint l1) - max (sint x0) (sint x1))) 0"
    and x: "x = (if l = 0 then x1 else if sint x0 < sint x1 then x1 else x0)"
    using assms(4) unfolding m [symmetric]
    by (auto simp: khrn_clip_range_def Let_def sint_c_max sint_subs e min_def max_def)
  have pos: "sint l = max 0 (min (sint x0 + sint l0) (sint x1 + sint l1) - max (sint x0) (sint x1))"
    unfolding l using assms(1-3) sint_range [of l1] by (intro clamp_pos) auto
  show ?thesis
  proof (cases "l = 0")
    case True
    then show ?thesis using pos by auto
  next
    case False
    then have "sint l \<noteq> 0" by (simp only: signed_eq_0_iff not_False_eq_True)
    then have "sint x = max (sint x0) (sint x1)" "sint l = min (sint x0 + sint l0) (sint x1 + sint l1) - max (sint x0) (sint x1)"
      using x pos False by (auto simp: max_def)
    then show ?thesis by auto
  qed
qed

text \<open>
  \<open>khrn_clip_range2\<close> is exact: the pairs of points it keeps are exactly the pairs of the
  original ranges whose first point lies in the first clip range and whose second point lies in
  the second one, for every position of the ranges, those where the sums on the way overflow
  included, as long as the clip ranges themselves end within an \<open>int32_t\<close>.
\<close>

theorem khrn_clip_range2_exact:
  assumes "0 \<le> sint l0" "0 \<le> sint al1" "0 \<le> sint bl1"
    and "sint ax1 + sint al1 \<le> 2147483647" "sint bx1 + sint bl1 \<le> 2147483647"
    and "khrn_clip_range2 ax0 bx0 l0 ax1 al1 bx1 bl1 = (a, b, l)"
  shows "(\<lambda>i. (sint a + i, sint b + i)) ` {0 ..< sint l} =
    (\<lambda>i. (sint ax0 + i, sint bx0 + i)) ` {0 ..< sint l0} \<inter>
      {sint ax1 ..< sint ax1 + sint al1} \<times> {sint bx1 ..< sint bx1 + sint bl1}"
proof -
  let ?A = "sint ax0" and ?B = "sint bx0" and ?A1 = "sint ax1 + sint al1" and ?B1 = "sint bx1 + sint bl1"
  define k where "k = adds (c_max ax0 bx0) l0 - c_max ax0 bx0"
  have k: "sint k = min (sint l0) (INT32_MAX - max ?A ?B)"
    using clip_length [OF assms(1)] by (simp add: k_def sint_c_max)
  have kr: "0 \<le> sint k" "sint k \<le> INT32_MAX" "?A + sint k \<le> INT32_MAX" "?B + sint k \<le> INT32_MAX"
    unfolding k using assms(1) sint_range [of ax0] sint_range [of bx0] sint_range [of l0] by auto
  have low: "INT32_MIN \<le> ?A1" "INT32_MIN \<le> ?B1" using assms(2,3) sint_range(1) [of ax1] sint_range(1) [of bx1] by auto
  have e: "sint (ax1 + al1) = ?A1" "sint (bx1 + bl1) = ?B1" "sint (ax0 + k) = ?A + sint k" "sint (bx0 + k) = ?B + sint k"
    using assms(2-5) kr sint_range [of ax0] sint_range [of bx0] sint_range [of ax1] sint_range [of bx1]
    by (auto intro!: sint_add_exact)
  obtain x y where xy: "(x, y) = (if ?A < sint ax1 then (ax1, adds bx0 (subs ax1 ax0)) else (ax0, bx0))"
    by (cases "?A < sint ax1") auto
  obtain X Y where XY: "(X, Y) = (if sint (ax0 + k) > sint (ax1 + al1)
      then (ax1 + al1, subs (bx0 + k) (subs (ax0 + k) (ax1 + al1))) else (ax0 + k, bx0 + k))"
    by (cases "sint (ax0 + k) > sint (ax1 + al1)") auto
  obtain x' y' where xy': "(x', y') = (if sint y < sint bx1 then (adds x (subs bx1 y), bx1) else (x, y))"
    by (cases "sint y < sint bx1") auto
  obtain X' Y' where XY': "(X', Y') = (if sint Y > sint (bx1 + bl1) then (subs X (subs Y (bx1 + bl1)), bx1 + bl1) else (X, Y))"
    by (cases "sint Y > sint (bx1 + bl1)") auto
  have res: "l = c_max (subs X' x') 0" "a = (if l = 0 then ax1 else x')" "b = (if l = 0 then bx1 else y')"
    using assms(6) unfolding khrn_clip_range2_def Let_def k_def [symmetric] xy [symmetric] XY [symmetric]
      prod.case xy' [symmetric] XY' [symmetric] by auto
  let ?o = "max (max 0 (sint ax1 - ?A)) (sint bx1 - ?B)" and ?h = "min (min (sint k) (?A1 - ?A)) (?B1 - ?B)"
  have st: "?A \<le> sint x' \<and> sint x' \<le> INT32_MAX \<and> (sint x' = ?A + ?o \<and> sint y' = ?B + ?o \<or> sint k < ?o \<and> ?A + sint k \<le> sint x')"
    by (rule clip_starts [of _ _ "sint ax1" "sint bx1" _ "sint x" "sint y"])
      (use xy xy' kr sint_range in \<open>auto simp: sint_adds sint_subs split: if_splits\<close>)
  have en: "INT32_MIN \<le> sint X' \<and> sint X' \<le> ?A + sint k \<and> (sint X' = ?A + ?h \<or> ?h \<le> 0 \<and> sint X' \<le> ?A)"
    by (rule clip_ends [of _ _ ?A1 ?B1 _ "sint X" "sint Y" _ "sint Y'"])
      (use XY XY' kr sint_range e low in \<open>auto simp: sint_adds sint_subs split: if_splits\<close>)
  have len: "sint l = max 0 (?h - ?o)"
  proof -
    have "sint l = max (clamp (sint X' - sint x')) 0" by (simp add: res sint_c_max sint_subs)
    also have "\<dots> = max 0 (sint X' - sint x')" using st en kr(2) by (intro clamp_pos) auto
    also have "\<dots> = max 0 (?h - ?o)" using st en by (elim conjE disjE) auto
    finally show ?thesis .
  qed
  have start: "sint a = ?A + ?o \<and> sint b = ?B + ?o" if "0 < sint l"
  proof -
    have "?o < ?h" using len that by linarith
    moreover have "?h \<le> sint k" by (simp only: min.assoc min.cobounded1)
    ultimately have "\<not> sint k < ?o" by linarith
    then have "sint x' = ?A + ?o" "sint y' = ?B + ?o" using st by blast+
    moreover have "l \<noteq> 0" using that by (auto simp only: signed_0)
    ultimately show ?thesis by (simp only: res(2,3) if_False)
  qed
  have "(\<lambda>i. (sint a + i, sint b + i)) ` {0 ..< sint l} = (\<lambda>i. (?A + i, ?B + i)) ` {?o ..< ?h}"
  proof (cases "0 < sint l")
    case True
    then have "sint l = ?h - ?o" using len by linarith
    then have "{?o ..< ?h} = (\<lambda>i. ?o + i) ` {0 ..< sint l}" by simp
    then show ?thesis using start [OF True] by (simp only: image_image add.assoc)
  next
    case False
    then have "sint l \<le> 0" "?h \<le> ?o" using len by linarith+
    then show ?thesis by (simp only: atLeastLessThan_empty image_empty)
  qed
  also have "\<dots> = (\<lambda>i. (?A + i, ?B + i)) ` {0 ..< sint l0} \<inter> {sint ax1 ..< ?A1} \<times> {sint bx1 ..< ?B1}"
    using k assms(4,5) by auto
  finally show ?thesis .
qed
lemma khrn_clip_range2_exact_witness:
  "(\<lambda>i. (sint (100 :: u32) + i, sint (10 :: u32) + i)) ` {0 ..< sint (20 :: u32)} =
    (\<lambda>i. (sint (80 :: u32) + i, sint (- 10 :: u32) + i)) ` {0 ..< sint (0x7fffffff :: u32)} \<inter>
      {sint (0 :: u32) ..< sint (0 :: u32) + sint (120 :: u32)} \<times> {sint (10 :: u32) ..< sint (10 :: u32) + sint (50 :: u32)}"
  by (rule khrn_clip_range2_exact) code_simp+

section \<open>The highest bit\<close>

lemma log2_exists:
  assumes "0 < (n :: nat)"
  obtains k where "2 ^ k \<le> n" "n < 2 ^ Suc k"
proof -
  have "\<exists>k. 2 ^ k \<le> n \<and> n < 2 ^ Suc k"
    using assms
  proof (induction n rule: less_induct)
    case (less n)
    show ?case
    proof (cases "n = 1")
      case True
      then show ?thesis by (intro exI [of _ 0]) simp
    next
      case False
      with less.prems have "0 < n div 2" "n div 2 < n" by auto
      then obtain k where "2 ^ k \<le> n div 2" "n div 2 < 2 ^ Suc k" using less.IH by blast
      then show ?thesis by (intro exI [of _ "Suc k"]) auto
    qed
  qed
  then show ?thesis using that by blast
qed

lemma clz_eq:
  assumes "2 ^ k \<le> unat (x :: u32)" "unat x < 2 ^ Suc k"
  shows "clz x = 31 - int k" "k < 32"
proof -
  have "(2::nat) ^ k < 2 ^ 32" using assms(1) unsigned_less [of x, where 'a = nat] by simp
  then show k: "k < 32" by (rule power_less_imp_less_exp [rotated]) simp
  have top: "bit x k"
  proof -
    have "unat x div 2 ^ k = 1" using assms by (intro Euclidean_Rings.div_nat_eqI) auto
    then have "bit (unat x) k" by (simp add: bit_iff_odd [of "unat x"])
    then show ?thesis by (simp add: bit_unsigned_iff)
  qed
  have above: "\<not> bit x j" if "k < j" for j
  proof -
    have "(2::nat) ^ Suc k \<le> 2 ^ j" using that by (intro power_increasing) auto
    then have "unat x div 2 ^ j = 0" using assms(2) by simp
    then have "\<not> bit (unat x) j" by (simp add: bit_iff_odd [of "unat x"])
    then show ?thesis by (simp add: bit_unsigned_iff)
  qed
  have "[0..<32] = [0..<k] @ k # [Suc k..<32]"
    using k by (metis le_add_diff_inverse less_imp_le_nat upt_add_eq_append upt_conv_Cons zero_le)
  then have "rev [0..<32] = rev [Suc k..<32] @ k # rev [0..<k]" by simp
  moreover have "takeWhile (\<lambda>i. \<not> bit x i) (rev [Suc k..<32] @ k # rev [0..<k]) = rev [Suc k..<32]"
    using top above by (subst takeWhile_append2) auto
  ultimately have "takeWhile (\<lambda>i. \<not> bit x i) (rev [0..<32]) = rev [Suc k..<32]" by (simp only:)
  then show "clz x = 31 - int k" using k by (simp add: clz_def)
qed

lemma msb_eq: "2 ^ k \<le> unat x \<Longrightarrow> unat x < 2 ^ Suc k \<Longrightarrow> msb x = int k"
  using clz_eq [of k x] by (auto simp: msb_def)

lemma msb_bounds:
  assumes "x \<noteq> 0"
  shows "2 ^ nat (msb x) \<le> unat x \<and> unat x < 2 ^ Suc (nat (msb x)) \<and> 0 \<le> msb x \<and> msb x < 32"
proof -
  have "0 < unat x" using assms by (simp add: unat_gt_0)
  then obtain k where k: "2 ^ k \<le> unat x" "unat x < 2 ^ Suc k" by (rule log2_exists)
  then show ?thesis using clz_eq(2) [OF k] by (simp add: msb_eq)
qed

lemma msb_loop_eq: "2 ^ k \<le> unat x \<Longrightarrow> unat x < 2 ^ Suc k \<Longrightarrow> msb_loop m x = m + int k + 1"
proof (induction k arbitrary: m x)
  case 0
  then have "unat x = 1" by simp
  then have "x = 1" by (metis unat_1 word_unat_eq_iff)
  then show ?case by (simp add: msb_loop.simps)
next
  case (Suc k)
  have "x \<noteq> 0" using Suc.prems(1) by auto
  moreover have "unat (drop_bit 1 x) = unat x div 2" by (simp add: unat_div drop_bit_eq_div)
  ultimately show ?case using Suc.IH [of "drop_bit 1 x" "m + 1"] Suc.prems
    by (subst msb_loop.simps) auto
qed

text \<open>
  The two bodies of \<open>_msb\<close> that the header selects by compiler, the count of leading zeros
  and the shifting loop, agree on every word.
\<close>

lemma msb_forms_agree: "msb x = msb_loop (- 1) x"
proof (cases "x = 0")
  case True
  then show ?thesis by (simp add: msb_def msb_loop.simps)
next
  case False
  then show ?thesis using msb_bounds [OF False] by (simp add: msb_loop_eq [of "nat (msb x)"])
qed

lemma is_power_of_2_iff: "is_power_of_2 x \<longleftrightarrow> (\<exists>k. unat x = 2 ^ k)"
proof (cases "x = 0")
  case True
  then show ?thesis by (simp add: is_power_of_2_def)
next
  case False
  then show ?thesis using word_pow2_bits [OF False] by (simp add: is_power_of_2_def)
qed

lemma next_power_of_2_least:
  assumes "0 < unat x" "unat x \<le> 2 ^ 31"
  shows "(\<exists>k. unat (next_power_of_2 x) = 2 ^ k) \<and> unat x \<le> unat (next_power_of_2 x) \<and>
    (\<forall>k. unat x \<le> 2 ^ k \<longrightarrow> unat (next_power_of_2 x) \<le> 2 ^ k)"
proof (cases "is_power_of_2 x")
  case True
  then show ?thesis by (auto simp: next_power_of_2_def is_power_of_2_iff)
next
  case False
  have "x \<noteq> 0" using assms(1) by auto
  note b = msb_bounds [OF this]
  let ?k = "nat (msb x)"
  have "unat x \<noteq> 2 ^ ?k" using False is_power_of_2_iff by blast
  with b have lt: "2 ^ ?k < unat x" by simp
  with assms(2) have "(2::nat) ^ ?k < 2 ^ 31" by simp
  then have "?k < 31" by (rule power_less_imp_less_exp [rotated]) simp
  then have "unat (push_bit (Suc ?k) (1 :: u32)) = 2 ^ Suc ?k"
    by (subst unsigned_push_bit_eq) (simp add: push_bit_nat_def take_bit_nat_eq_self_iff del: power_Suc)
  moreover have "nat (msb x + 1) = Suc ?k" using b by (simp add: nat_add_distrib)
  ultimately have n: "unat (next_power_of_2 x) = 2 ^ Suc ?k" using False by (simp only: next_power_of_2_def if_False)
  have "2 ^ Suc ?k \<le> (2::nat) ^ j" if "unat x \<le> 2 ^ j" for j
  proof -
    have "(2::nat) ^ ?k < 2 ^ j" using lt that by linarith
    then have "?k < j" by (rule power_less_imp_less_exp [rotated]) simp
    then show ?thesis by (intro power_increasing) auto
  qed
  then show ?thesis unfolding n using b by (metis less_imp_le_nat)
qed

end
