(* ===== verification/Khrn_Hash.thy ===== *)
theory Khrn_Hash
  imports Oculus_Memory
begin

text \<open>
  circle/addon/vc4/interface/khronos/common/khrn_int_hash.c and khrn_int_hash.h: Jenkins'
  hash of words and of bytes. \<open>khrn_hashlittle\<close> reads its key by words, half-words or bytes,
  as the address allows; the theory shows that the result is one function of the bytes, that
  the bytes read beyond the key do not matter, and that \<open>khrn_hashword\<close> is the same function.
  The key is an address in memory; a length is a signed \<open>int\<close>.
\<close>

section \<open>Mixing\<close>

type_synonym hash_state = "u32 \<times> u32 \<times> u32"

definition rot :: "u32 \<Rightarrow> nat \<Rightarrow> u32" where
  "rot x k = push_bit k x OR drop_bit (32 - k) x"

definition hash_mix :: "hash_state \<Rightarrow> hash_state" where
  "hash_mix s =
     (let (a, b, c) = s;
          a = a - c; a = a XOR rot c 4; c = c + b;
          b = b - a; b = b XOR rot a 6; a = a + c;
          c = c - b; c = c XOR rot b 8; b = b + a;
          a = a - c; a = a XOR rot c 16; c = c + b;
          b = b - a; b = b XOR rot a 19; a = a + c;
          c = c - b; c = c XOR rot b 4; b = b + a
      in (a, b, c))"

definition hash_final :: "hash_state \<Rightarrow> hash_state" where
  "hash_final s =
     (let (a, b, c) = s;
          c = c XOR b; c = c - rot b 14;
          a = a XOR c; a = a - rot c 11;
          b = b XOR a; b = b - rot a 25;
          c = c XOR b; c = c - rot b 16;
          a = a XOR c; a = a - rot c 4;
          b = b XOR a; b = b - rot a 14;
          c = c XOR b; c = c - rot b 24
      in (a, b, c))"

definition hash_start :: "u32 \<Rightarrow> u32 \<Rightarrow> hash_state" where
  "hash_start len initval = (let a = 0xdeadbeef + len + initval in (a, a, a))"

section \<open>Words\<close>

function hashword_blocks :: "memory \<Rightarrow> nat \<Rightarrow> int \<Rightarrow> hash_state \<Rightarrow> nat \<times> int \<times> hash_state" where
  "hashword_blocks m k len (a, b, c) =
     (if len > 3
      then hashword_blocks m (k + 12) (len - 3) (hash_mix (a + load32 m k, b + load32 m (k + 4), c + load32 m (k + 8)))
      else (k, len, a, b, c))"
  by pat_completeness auto
termination by (relation "measure (\<lambda>(m, k, len, s). nat len)") auto

text \<open>The switch falls through from its case to \<open>final\<close>; every other length adds nothing.\<close>

definition hashword_last :: "memory \<Rightarrow> nat \<Rightarrow> int \<Rightarrow> hash_state \<Rightarrow> hash_state" where
  "hashword_last m k len s =
     (let (a, b, c) = s;
          c = (if len = 3 then c + load32 m (k + 8) else c);
          b = (if len = 3 \<or> len = 2 then b + load32 m (k + 4) else b);
          a = (if len = 3 \<or> len = 2 \<or> len = 1 then a + load32 m k else a)
      in if len = 3 \<or> len = 2 \<or> len = 1 then hash_final (a, b, c) else (a, b, c))"

definition khrn_hashword :: "memory \<Rightarrow> nat \<Rightarrow> int \<Rightarrow> u32 \<Rightarrow> u32" where
  "khrn_hashword m k len initval =
     (let (k, len, s) = hashword_blocks m k len (hash_start (push_bit 2 (word_of_int len)) initval)
      in snd (snd (hashword_last m k len s)))"

section \<open>Bytes\<close>

definition byte_at :: "memory \<Rightarrow> nat \<Rightarrow> u32" where
  "byte_at m k = ucast (m k)"

definition half_at :: "memory \<Rightarrow> nat \<Rightarrow> u32" where
  "half_at m k = ucast (load16 m k)"

text \<open>How each of the three branches adds the word at an address.\<close>

definition add_word :: "memory \<Rightarrow> nat \<Rightarrow> u32 \<Rightarrow> u32" where
  "add_word m k x = x + load32 m k"

definition add_halves :: "memory \<Rightarrow> nat \<Rightarrow> u32 \<Rightarrow> u32" where
  "add_halves m k x = x + (half_at m k + push_bit 16 (half_at m (k + 2)))"

definition add_bytes :: "memory \<Rightarrow> nat \<Rightarrow> u32 \<Rightarrow> u32" where
  "add_bytes m k x = x + byte_at m k + push_bit 8 (byte_at m (k + 1)) + push_bit 16 (byte_at m (k + 2)) + push_bit 24 (byte_at m (k + 3))"

function hash_blocks :: "(nat \<Rightarrow> u32 \<Rightarrow> u32) \<Rightarrow> nat \<Rightarrow> int \<Rightarrow> hash_state \<Rightarrow> nat \<times> int \<times> hash_state" where
  "hash_blocks add k len (a, b, c) =
     (if len > 12
      then hash_blocks add (k + 12) (len - 12) (hash_mix (add k a, add (k + 4) b, add (k + 8) c))
      else (k, len, a, b, c))"
  by pat_completeness auto
termination by (relation "measure (\<lambda>(add, k, len, s). nat len)") auto

text \<open>The last block of the aligned branch: words, masked to the bytes of the key.\<close>

definition last_words :: "memory \<Rightarrow> nat \<Rightarrow> int \<Rightarrow> hash_state \<Rightarrow> hash_state" where
  "last_words m k len s =
     (let (a, b, c) = s; k0 = load32 m k; k1 = load32 m (k + 4); k2 = load32 m (k + 8)
      in if len = 12 then (a + k0, b + k1, c + k2)
         else if len = 11 then (a + k0, b + k1, c + (k2 AND 0xffffff))
         else if len = 10 then (a + k0, b + k1, c + (k2 AND 0xffff))
         else if len = 9 then (a + k0, b + k1, c + (k2 AND 0xff))
         else if len = 8 then (a + k0, b + k1, c)
         else if len = 7 then (a + k0, b + (k1 AND 0xffffff), c)
         else if len = 6 then (a + k0, b + (k1 AND 0xffff), c)
         else if len = 5 then (a + k0, b + (k1 AND 0xff), c)
         else if len = 4 then (a + k0, b, c)
         else if len = 3 then (a + (k0 AND 0xffffff), b, c)
         else if len = 2 then (a + (k0 AND 0xffff), b, c)
         else if len = 1 then (a + (k0 AND 0xff), b, c)
         else (a, b, c))"

text \<open>The last block read by half-words.\<close>

definition last_halves :: "memory \<Rightarrow> nat \<Rightarrow> int \<Rightarrow> hash_state \<Rightarrow> hash_state" where
  "last_halves m k len s =
     (let (a, b, c) = s; w = (\<lambda>i. half_at m (k + 2 * i)); k8 = (\<lambda>i. byte_at m (k + i));
          k01 = w 0 + push_bit 16 (w 1); k23 = w 2 + push_bit 16 (w 3)
      in if len = 12 then (a + k01, b + k23, c + (w 4 + push_bit 16 (w 5)))
         else if len = 11 then (a + k01, b + k23, c + push_bit 16 (k8 10) + w 4)
         else if len = 10 then (a + k01, b + k23, c + w 4)
         else if len = 9 then (a + k01, b + k23, c + k8 8)
         else if len = 8 then (a + k01, b + k23, c)
         else if len = 7 then (a + k01, b + push_bit 16 (k8 6) + w 2, c)
         else if len = 6 then (a + k01, b + w 2, c)
         else if len = 5 then (a + k01, b + k8 4, c)
         else if len = 4 then (a + k01, b, c)
         else if len = 3 then (a + push_bit 16 (k8 2) + w 0, b, c)
         else if len = 2 then (a + w 0, b, c)
         else if len = 1 then (a + k8 0, b, c)
         else (a, b, c))"

text \<open>The last block read by bytes: every case falls through to the next one.\<close>

definition last_bytes :: "memory \<Rightarrow> nat \<Rightarrow> int \<Rightarrow> hash_state \<Rightarrow> hash_state" where
  "last_bytes m k len s =
     (if len < 1 \<or> len > 12 then s
      else let (a, b, c) = s; k8 = (\<lambda>i. byte_at m (k + i));
               c = (if len \<ge> 12 then c + push_bit 24 (k8 11) else c);
               c = (if len \<ge> 11 then c + push_bit 16 (k8 10) else c);
               c = (if len \<ge> 10 then c + push_bit 8 (k8 9) else c);
               c = (if len \<ge> 9 then c + k8 8 else c);
               b = (if len \<ge> 8 then b + push_bit 24 (k8 7) else b);
               b = (if len \<ge> 7 then b + push_bit 16 (k8 6) else b);
               b = (if len \<ge> 6 then b + push_bit 8 (k8 5) else b);
               b = (if len \<ge> 5 then b + k8 4 else b);
               a = (if len \<ge> 4 then a + push_bit 24 (k8 3) else a);
               a = (if len \<ge> 3 then a + push_bit 16 (k8 2) else a);
               a = (if len \<ge> 2 then a + push_bit 8 (k8 1) else a);
               a = a + k8 0
           in (a, b, c))"

text \<open>\<open>case 0\<close> returns before \<open>final\<close>.\<close>

definition khrn_hashlittle :: "memory \<Rightarrow> nat \<Rightarrow> int \<Rightarrow> u32 \<Rightarrow> u32" where
  "khrn_hashlittle m key len initval =
     (let start = hash_start (word_of_int len) initval;
          (len, s) =
            (if key mod 4 = 0
             then let (k, len, s) = hash_blocks (add_word m) key len start in (len, last_words m k len s)
             else if key mod 2 = 0
             then let (k, len, s) = hash_blocks (add_halves m) key len start in (len, last_halves m k len s)
             else let (k, len, s) = hash_blocks (add_bytes m) key len start in (len, last_bytes m k len s))
      in snd (snd (if len = 0 then s else hash_final s)))"

declare hashword_blocks.simps [simp del] hash_blocks.simps [simp del]

section \<open>One function of the bytes\<close>

text \<open>Words put together from bytes, whose bits do not meet.\<close>

lemma or_bytes:
  fixes p q r t :: u8
  shows "ucast p OR push_bit 8 (ucast q) = (ucast p + push_bit 8 (ucast q) :: u32)"
    "ucast p OR push_bit 8 (ucast q) OR push_bit 16 (ucast r) = (ucast p + push_bit 8 (ucast q) + push_bit 16 (ucast r) :: u32)"
    "ucast p OR push_bit 8 (ucast q) OR push_bit 16 (ucast r) OR push_bit 24 (ucast t) =
      (ucast p + push_bit 8 (ucast q) + push_bit 16 (ucast r) + push_bit 24 (ucast t) :: u32)"
proof -
  have "ucast p AND push_bit 8 (ucast q) = (0 :: u32)"
    by (rule bit_word_eqI) (auto simp: bit_simps dest: bit_imp_le_length)
  then show 1: "ucast p OR push_bit 8 (ucast q) = (ucast p + push_bit 8 (ucast q) :: u32)"
    by (simp only: disjunctive_add_eq_or)
  have "(ucast p OR push_bit 8 (ucast q)) AND push_bit 16 (ucast r) = (0 :: u32)"
    by (rule bit_word_eqI) (auto simp: bit_simps dest: bit_imp_le_length)
  then show 2: "ucast p OR push_bit 8 (ucast q) OR push_bit 16 (ucast r) = (ucast p + push_bit 8 (ucast q) + push_bit 16 (ucast r) :: u32)"
    unfolding 1 [symmetric] by (simp only: disjunctive_add_eq_or or.assoc)
  have "(ucast p OR push_bit 8 (ucast q) OR push_bit 16 (ucast r)) AND push_bit 24 (ucast t) = (0 :: u32)"
    by (rule bit_word_eqI) (auto simp: bit_simps dest: bit_imp_le_length)
  then show "ucast p OR push_bit 8 (ucast q) OR push_bit 16 (ucast r) OR push_bit 24 (ucast t) =
      (ucast p + push_bit 8 (ucast q) + push_bit 16 (ucast r) + push_bit 24 (ucast t) :: u32)"
    unfolding 2 [symmetric] by (simp only: disjunctive_add_eq_or or.assoc)
qed

lemma mask_bytes:
  fixes p q r t :: u8
  shows "(ucast p OR push_bit 8 (ucast q) OR push_bit 16 (ucast r) OR push_bit 24 (ucast t)) AND 0xff = (ucast p :: u32)"
    "(ucast p OR push_bit 8 (ucast q) OR push_bit 16 (ucast r) OR push_bit 24 (ucast t)) AND 0xffff =
      (ucast p OR push_bit 8 (ucast q) :: u32)"
    "(ucast p OR push_bit 8 (ucast q) OR push_bit 16 (ucast r) OR push_bit 24 (ucast t)) AND 0xffffff =
      (ucast p OR push_bit 8 (ucast q) OR push_bit 16 (ucast r) :: u32)"
proof -
  have m: "(0xff :: u32) = mask 8" "(0xffff :: u32) = mask 16" "(0xffffff :: u32) = mask 24"
    by (simp_all add: mask_eq_exp_minus_1)
  show "(ucast p OR push_bit 8 (ucast q) OR push_bit 16 (ucast r) OR push_bit 24 (ucast t)) AND 0xff = (ucast p :: u32)"
    "(ucast p OR push_bit 8 (ucast q) OR push_bit 16 (ucast r) OR push_bit 24 (ucast t)) AND 0xffff =
      (ucast p OR push_bit 8 (ucast q) :: u32)"
    "(ucast p OR push_bit 8 (ucast q) OR push_bit 16 (ucast r) OR push_bit 24 (ucast t)) AND 0xffffff =
      (ucast p OR push_bit 8 (ucast q) OR push_bit 16 (ucast r) :: u32)"
    unfolding m by (rule bit_word_eqI, auto simp: bit_simps dest: bit_imp_le_length)+
qed

lemma half_bytes: "half_at m k = byte_at m k + push_bit 8 (byte_at m (k + 1))"
proof -
  have "half_at m k = ucast (m k) OR push_bit 8 (ucast (m (k + 1)))"
    unfolding half_at_def load16_def by (rule bit_word_eqI) (auto simp: bit_simps dest: bit_imp_le_length)
  then show ?thesis by (simp only: byte_at_def or_bytes)
qed

lemma load32_bytes:
  "load32 m k = byte_at m k + push_bit 8 (byte_at m (k + 1)) + push_bit 16 (byte_at m (k + 2)) + push_bit 24 (byte_at m (k + 3))"
  by (simp only: load32_def byte_at_def or_bytes)

lemma load32_masked:
  "load32 m k AND 0xff = byte_at m k"
  "load32 m k AND 0xffff = byte_at m k + push_bit 8 (byte_at m (k + 1))"
  "load32 m k AND 0xffffff = byte_at m k + push_bit 8 (byte_at m (k + 1)) + push_bit 16 (byte_at m (k + 2))"
  unfolding load32_def byte_at_def unfolding mask_bytes unfolding or_bytes by (rule refl)+

lemma push_bit_add32: "push_bit n (x + y :: u32) = push_bit n x + push_bit n y"
  by (simp add: push_bit_eq_mult ring_distribs)

lemma push_bit_twice: "push_bit 16 (push_bit 8 x) = push_bit 24 (x :: u32)"
  by (simp add: push_bit_push_bit)

lemmas to_bytes = half_bytes load32_bytes load32_masked push_bit_add32 push_bit_twice

lemma adders: "add_word m = add_bytes m" "add_halves m = add_bytes m"
  unfolding fun_eq_iff add_word_def add_halves_def add_bytes_def to_bytes
  by (simp_all add: numeral_eq_Suc ac_simps)

lemma last_words_bytes:
  assumes "0 \<le> len" "len \<le> 12"
  shows "last_words m k len s = last_bytes m k len s"
proof -
  have "len \<in> {0,1,2,3,4,5,6,7,8,9,10,11,12}" using assms by simp presburger
  then show ?thesis
    unfolding last_words_def last_bytes_def Let_def load32_masked unfolding load32_bytes
    by (cases s; elim insertE emptyE; simp add: add.assoc add.commute add.left_commute)
qed

lemma Suc3: "Suc (Suc (Suc k)) = k + 3"
  by simp

lemma last_halves_bytes:
  assumes "0 \<le> len" "len \<le> 12"
  shows "last_halves m k len s = last_bytes m k len s"
proof -
  have "len \<in> {0,1,2,3,4,5,6,7,8,9,10,11,12}" using assms by simp presburger
  then show ?thesis
    unfolding last_halves_def last_bytes_def Let_def half_bytes push_bit_add32 push_bit_twice
    by (cases s; elim insertE emptyE; simp add: Suc3 add.assoc add.commute add.left_commute)
qed

lemma last_bytes_above: "len \<notin> {0..12} \<Longrightarrow> last_words m k len s = s \<and> last_halves m k len s = s \<and> last_bytes m k len s = s"
  by (cases s) (auto simp: last_words_def last_halves_def last_bytes_def Let_def)

lemma last_block:
  "last_words m k len s = last_bytes m k len s" "last_halves m k len s = last_bytes m k len s"
  using last_words_bytes [of len m k s] last_halves_bytes [of len m k s] last_bytes_above [of len m k s]
  by (cases "0 \<le> len \<and> len \<le> 12"; simp)+

text \<open>Whatever the branch, the hash is the one that reads bytes.\<close>

lemma khrn_hashlittle_bytes:
  "khrn_hashlittle m key len initval =
     (let (k, len, s) = hash_blocks (add_bytes m) key len (hash_start (word_of_int len) initval)
      in snd (snd (if len = 0 then s else hash_final (last_bytes m k len s))))"
proof -
  have "last_bytes m k 0 s = s" for k s by (simp add: last_bytes_def)
  then show ?thesis
    by (simp add: khrn_hashlittle_def Let_def adders last_block split: prod.splits)
qed

text \<open>Blocks and the last block look at the bytes of the key only.\<close>

definition same_bytes :: "memory \<Rightarrow> nat \<Rightarrow> memory \<Rightarrow> nat \<Rightarrow> int \<Rightarrow> bool" where
  "same_bytes m k m' k' len \<longleftrightarrow> (\<forall>i < nat len. m (k + i) = m' (k' + i))"

lemma same_bytes_at: "same_bytes m k m' k' len \<Longrightarrow> int i < len \<Longrightarrow> byte_at m (k + i) = byte_at m' (k' + i)"
  by (simp add: same_bytes_def byte_at_def)

lemma same_bytes_drop: "same_bytes m k m' k' len \<Longrightarrow> same_bytes m (k + j) m' (k' + j) (len - int j)"
  unfolding same_bytes_def
proof (intro allI impI)
  fix i assume all: "\<forall>i < nat len. m (k + i) = m' (k' + i)" and i: "i < nat (len - int j)"
  have "j + i < nat len" using i by linarith
  then show "m (k + j + i) = m' (k' + j + i)" using all by (simp only: add.assoc)
qed

lemma add_bytes_same:
  assumes "same_bytes m k m' k' len" "int j + 4 \<le> len"
  shows "add_bytes m (k + j) x = add_bytes m' (k' + j) x"
proof -
  have "byte_at m (k + j + i) = byte_at m' (k' + j + i)" if "i < 4" for i
    using same_bytes_at [OF assms(1), of "j + i"] assms(2) that by (simp add: add.assoc)
  from this [of 0] this [of 1] this [of 2] this [of 3] show ?thesis by (simp add: add_bytes_def)
qed

lemma hash_blocks_same:
  assumes "same_bytes m k m' k' len" "hash_blocks (add_bytes m) k len s = (j, n, t)"
  shows "\<exists>j'. hash_blocks (add_bytes m') k' len s = (j', n, t) \<and> same_bytes m j m' j' n"
  using assms
proof (induction "add_bytes m" k len s arbitrary: k' rule: hash_blocks.induct)
  case (1 k len a b c)
  show ?case
  proof (cases "len > 12")
    case True
    have w: "add_bytes m k a = add_bytes m' k' a" "add_bytes m (k + 4) b = add_bytes m' (k' + 4) b"
      "add_bytes m (k + 8) c = add_bytes m' (k' + 8) c"
      using add_bytes_same [OF 1(2), of 0] add_bytes_same [OF 1(2), of 4] add_bytes_same [OF 1(2), of 8] True by simp_all
    have "same_bytes m (k + 12) m' (k' + 12) (len - 12)" using same_bytes_drop [OF 1(2), of 12] by simp
    from 1(1) [OF True this] 1(3) show ?thesis
      using True by (simp add: hash_blocks.simps [of _ k len] hash_blocks.simps [of _ k' len] w)
  next
    case False
    then have "hash_blocks add i len (a, b, c) = (i, len, a, b, c)" for add i by (simp add: hash_blocks.simps)
    then show ?thesis using 1(2,3) by auto
  qed
qed

lemma last_bytes_same:
  assumes "same_bytes m k m' k' len"
  shows "last_bytes m k len s = last_bytes m' k' len s"
proof -
  have b: "byte_at m (k + i) = byte_at m' (k' + i)" if "len \<ge> 1 + int i" for i
    using same_bytes_at [OF assms] that by simp
  show ?thesis
    using b [of 0] b [of 1] b [of 2] b [of 3] b [of 4] b [of 5] b [of 6] b [of 7] b [of 8] b [of 9] b [of 10] b [of 11]
    unfolding last_bytes_def Let_def by (cases s) (simp del: One_nat_def cong: if_cong)
qed

lemma hashword_blocks_bytes:
  assumes "hashword_blocks m k len s = (j, n, t)" "0 \<le> len"
  shows "hash_blocks (add_bytes m) k (4 * len) s = (j, 4 * n, t) \<and> 0 \<le> n \<and> n \<le> 3"
  using assms
proof (induction m k len s rule: hashword_blocks.induct)
  case (1 m k len a b c)
  show ?case
  proof (cases "len > 3")
    case True
    have "add_bytes m i x = x + load32 m i" for i x by (simp flip: adders(1) add: add_word_def)
    with 1 True show ?thesis
      by (simp add: hashword_blocks.simps [of m k len] hash_blocks.simps [of _ k "4 * len"] right_diff_distrib)
  next
    case False
    then have "hash_blocks (add_bytes m) k (4 * len) (a, b, c) = (k, 4 * len, a, b, c)" by (simp add: hash_blocks.simps)
    moreover have "hashword_blocks m k len (a, b, c) = (k, len, a, b, c)" using False by (simp add: hashword_blocks.simps)
    ultimately show ?thesis using 1(2,3) False by auto
  qed
qed

lemma hashword_last_bytes:
  assumes "0 \<le> n" "n \<le> 3"
  shows "hashword_last m j n t = (if n = 0 then t else hash_final (last_bytes m j (4 * n) t))"
proof -
  have "n \<in> {0, 1, 2, 3}" using assms by auto
  then show ?thesis
    unfolding last_block(1) [symmetric] by (cases t) (auto simp: hashword_last_def last_words_def Let_def)
qed

text \<open>
  C19. The hash of a key is one function of its bytes. \<open>khrn_hashlittle\<close> gives the same value for
  the same bytes at any two addresses, whichever of its three branches reads them and whatever
  lies beyond the key, although the aligned branch reads up to three bytes past it; and
  \<open>khrn_hashword\<close> on words is \<open>khrn_hashlittle\<close> on their bytes, at any alignment.
\<close>

theorem khrn_hash_of_bytes:
  "(same_bytes m k m' k' len \<longrightarrow> khrn_hashlittle m k len initval = khrn_hashlittle m' k' len initval) \<and>
   (0 \<le> len \<longrightarrow> same_bytes m k m' k' (4 * len) \<longrightarrow> khrn_hashword m k len initval = khrn_hashlittle m' k' (4 * len) initval)"
proof (intro conjI impI)
  assume "same_bytes m k m' k' len"
  moreover obtain j n t where b: "hash_blocks (add_bytes m) k len (hash_start (word_of_int len) initval) = (j, n, t)"
    by (metis prod_cases3)
  ultimately obtain j' where "hash_blocks (add_bytes m') k' len (hash_start (word_of_int len) initval) = (j', n, t)"
    "same_bytes m j m' j' n"
    using hash_blocks_same by blast
  then show "khrn_hashlittle m k len initval = khrn_hashlittle m' k' len initval"
    using b by (simp add: khrn_hashlittle_bytes last_bytes_same)
next
  assume len: "0 \<le> len" and same: "same_bytes m k m' k' (4 * len)"
  let ?s = "hash_start (word_of_int (4 * len)) initval"
  have start: "push_bit 2 (word_of_int len) = (word_of_int (4 * len) :: u32)" by (simp add: push_bit_eq_mult)
  obtain j n t where w: "hashword_blocks m k len ?s = (j, n, t)" by (metis prod_cases3)
  note b = hashword_blocks_bytes [OF w len]
  then obtain j' where j': "hash_blocks (add_bytes m') k' (4 * len) ?s = (j', 4 * n, t)" "same_bytes m j m' j' (4 * n)"
    using hash_blocks_same [OF same] by blast
  show "khrn_hashword m k len initval = khrn_hashlittle m' k' (4 * len) initval"
    using w j'(1) b by (simp add: khrn_hashword_def start khrn_hashlittle_bytes hashword_last_bytes last_bytes_same [OF j'(2)])
qed

lemma khrn_hash_of_bytes_witness:
  "khrn_hashlittle of_nat 4 7 0 = khrn_hashlittle (\<lambda>a. of_nat (a - 1)) 5 7 0 \<and>
   khrn_hashword of_nat 4 5 1 = khrn_hashlittle (\<lambda>a. of_nat (a - 2)) 6 (4 * 5) 1"
  using khrn_hash_of_bytes [of of_nat 4 "\<lambda>a. of_nat (a - 1)" 5 7 0] khrn_hash_of_bytes [of of_nat 4 "\<lambda>a. of_nat (a - 2)" 6 5 1]
    khrn_hash_of_bytes [of of_nat 4 "\<lambda>a. of_nat (a - 2)" 6 "4 * 5" 1]
  by (simp add: same_bytes_def)

end
