(* ===== verification/Khrn_Buddy.thy ===== *)
theory Khrn_Buddy
  imports Khrn_Util "HOL-Library.Monad_Syntax"
begin

text \<open>
  circle/addon/vc4/interface/khronos/common/khrn_client_cache.c, the heap of the client cache:
  \<open>tree_init\<close>, \<open>heap_avail\<close>, \<open>heap_alloc\<close>, \<open>heap_free\<close> and the copy of the tree in \<open>grow\<close>.
  It is a buddy allocator in an array of bytes: node 1 is the root, nodes \<open>2 * i\<close> and
  \<open>2 * i + 1\<close> the halves of node \<open>i\<close>, and each byte holds the size class of the largest free
  block below its node (\<open>0\<close> if there is none), with \<open>tree[0]\<close> as a sentinel. The bytes never
  exceed the depth of the tree plus one, at most 17, and are natural numbers here. The theory
  gives the invariant of a node and shows that the loops that repair the path to the root end
  and restore it.
\<close>

section \<open>The code\<close>

definition tree_init :: "nat list \<Rightarrow> nat \<Rightarrow> nat list" where
  "tree_init tree depth =
     fold (\<lambda>i t. t[i := t ! (i div 2) - 1]) [1..<2 ^ depth] (tree[0 := depth + 1])"

definition heap_avail :: "nat list option \<Rightarrow> nat \<Rightarrow> bool" where
  "heap_avail tree n = (case tree of None \<Rightarrow> False | Some t \<Rightarrow> t ! 1 \<ge> n)"

primrec heap_descend :: "nat list \<Rightarrow> nat \<Rightarrow> nat \<Rightarrow> nat \<Rightarrow> nat" where
  "heap_descend t n 0 node = node"
| "heap_descend t n (Suc k) node =
     (let node = 2 * node
      in heap_descend t n k
           (if t ! (node + 1) \<ge> n \<and> (t ! node < n \<or> t ! node > t ! (node + 1)) then node + 1 else node))"

partial_function (option) alloc_fixup :: "nat list \<Rightarrow> nat \<Rightarrow> nat list option" where
  "alloc_fixup t fixup =
     (if t ! (fixup XOR 1) < t ! (fixup div 2)
      then alloc_fixup (t[fixup div 2 := max (t ! fixup) (t ! (fixup XOR 1))]) (fixup div 2)
      else Some t)"

text \<open>The block and the new tree; \<open>None\<close> if the loop did not end.\<close>

definition heap_alloc :: "nat list \<Rightarrow> nat \<Rightarrow> nat \<Rightarrow> (nat \<times> nat list) option" where
  "heap_alloc t depth n = do {
     let node = heap_descend t n (depth - n) 1;
     t \<leftarrow> alloc_fixup (t[node := 0]) node;
     Some (node * 2 ^ (n - 1) - 2 ^ (depth - 1), t)
   }"

partial_function (option) free_find :: "nat list \<Rightarrow> nat \<Rightarrow> nat \<Rightarrow> (nat \<times> nat) option" where
  "free_find t node reset = (if t ! node > 0 then free_find t (node div 2) (reset + 1) else Some (node, reset))"

partial_function (option) free_merge :: "nat list \<Rightarrow> nat \<Rightarrow> (nat \<times> nat list) option" where
  "free_merge t node =
     (if t ! node = t ! (node XOR 1)
      then let node = node div 2 in free_merge (t[node := t ! node + 1]) node
      else Some (node, t))"

partial_function (option) free_raise :: "nat list \<Rightarrow> nat \<Rightarrow> nat list option" where
  "free_raise t node =
     (if t ! node > t ! (node div 2)
      then free_raise (t[node div 2 := t ! node]) (node div 2)
      else Some t)"

definition heap_free :: "nat list \<Rightarrow> nat \<Rightarrow> nat \<Rightarrow> nat list option" where
  "heap_free t depth block = do {
     (node, reset) \<leftarrow> free_find t (block + 2 ^ (depth - 1)) 1;
     (node, t) \<leftarrow> free_merge (t[node := reset]) node;
     free_raise t node
   }"

text \<open>\<open>grow\<close>: the old tree becomes the left half of a tree of one more level.\<close>

definition grow_tree :: "nat list \<Rightarrow> nat list \<Rightarrow> nat \<Rightarrow> nat list" where
  "grow_tree raw old depth =
     (let t = tree_init raw (depth + 1)
      in if depth = 0 then t
         else let t = fold (\<lambda>i t. t[i XOR push_bit (nat (msb (of_nat i))) 3 := old ! i]) [1..<2 ^ depth] t
              in t[1 := t ! 3 + of_bool (t ! 2 = t ! 3)])"

declare alloc_fixup.simps [code] free_find.simps [code] free_merge.simps [code] free_raise.simps [code]

section \<open>Nodes\<close>

fun level :: "nat \<Rightarrow> nat" where
  "level i = (if i < 2 then 0 else Suc (level (i div 2)))"

declare level.simps [simp del]

lemma level_1 [simp]: "level (Suc 0) = 0"
  by (simp add: level.simps)

lemma level_half: "1 < i \<Longrightarrow> level i = Suc (level (i div 2))"
  by (subst level.simps) simp

lemma level_children [simp]: "0 < i \<Longrightarrow> level (2 * i) = Suc (level i)" "0 < i \<Longrightarrow> level (Suc (2 * i)) = Suc (level i)"
  by (simp_all add: level_half)

lemma level_less_iff: "0 < i \<Longrightarrow> level i < d \<longleftrightarrow> i < 2 ^ d"
proof (induction i arbitrary: d rule: level.induct)
  case (1 i)
  show ?case
  proof (cases "i < 2")
    case True
    with 1 have "i = 1" by simp
    moreover have "(1::nat) < 2 ^ d" if "0 < d" using that by (intro one_less_power) simp_all
    ultimately show ?thesis by (cases "d = 0") auto
  next
    case False
    show ?thesis
    proof (cases d)
      case 0
      then show ?thesis using False by simp
    next
      case (Suc e)
      have "i < 2 ^ Suc e \<longleftrightarrow> i div 2 < 2 ^ e" by auto
      then show ?thesis using 1 False Suc by (simp add: level_half)
    qed
  qed
qed

lemma level_bounds: "0 < i \<Longrightarrow> 2 ^ level i \<le> i \<and> i < 2 ^ Suc (level i)"
  using level_less_iff [of i "Suc (level i)"] level_less_iff [of i "level i"] by auto

text \<open>The sibling of a node.\<close>

lemma sibling:
  fixes i :: nat
  shows "i XOR 1 = (if even i then i + 1 else i - 1)" "(i XOR 1) div 2 = i div 2"
proof -
  show *: "i XOR 1 = (if even i then i + 1 else i - 1)" by (simp add: xor_Suc_0_eq)
  show "(i XOR 1) div 2 = i div 2" unfolding * by (auto elim!: oddE)
qed

lemma children_cases:
  fixes i :: nat
  shows "(2 * (i div 2) = i \<and> Suc (2 * (i div 2)) = i XOR 1) \<or> (Suc (2 * (i div 2)) = i \<and> 2 * (i div 2) = i XOR 1)"
  by (cases "even i") (simp_all add: xor_Suc_0_eq)

section \<open>The invariant of a node\<close>

text \<open>
  Where both halves of a node are free as a whole, the node is free as a whole or allocated;
  otherwise it holds the larger of its halves. A node of size class 1 has no halves.
\<close>

definition node_ok :: "nat list \<Rightarrow> nat \<Rightarrow> nat \<Rightarrow> bool" where
  "node_ok t h i \<longleftrightarrow>
     (if h = 1 then t ! i \<le> 1
      else if t ! (2 * i) = h - 1 \<and> t ! Suc (2 * i) = h - 1 then t ! i = h \<or> t ! i = 0
      else t ! i = max (t ! (2 * i)) (t ! Suc (2 * i)))"

definition heap_ok :: "nat list \<Rightarrow> nat \<Rightarrow> bool" where
  "heap_ok t d \<longleftrightarrow> 0 < d \<and> length t = 2 ^ d \<and> t ! 0 = d + 1 \<and> (\<forall>i. 0 < i \<longrightarrow> level i < d \<longrightarrow> node_ok t (d - level i) i)"

definition allocated :: "nat list \<Rightarrow> nat \<Rightarrow> nat \<Rightarrow> bool" where
  "allocated t d i \<longleftrightarrow> 0 < i \<and> level i < d \<and> t ! i = 0 \<and>
     (Suc (level i) = d \<or> t ! (2 * i) = d - level i - 1 \<and> t ! Suc (2 * i) = d - level i - 1)"

text \<open>What holds while the path above \<open>f\<close> is being repaired: only the parent of \<open>f\<close> may be wrong, and
  it was right when \<open>f\<close> still had the value \<open>v\<close>.\<close>

definition path_ok :: "nat list \<Rightarrow> nat \<Rightarrow> nat \<Rightarrow> nat \<Rightarrow> bool" where
  "path_ok t d f v \<longleftrightarrow> 0 < d \<and> length t = 2 ^ d \<and> t ! 0 = d + 1 \<and> 0 < f \<and> level f < d \<and> t ! f \<le> d - level f \<and> v \<le> d - level f \<and>
     (\<forall>i. 0 < i \<longrightarrow> level i < d \<longrightarrow> (t ! i \<le> d - level i) \<and> (i \<noteq> f div 2 \<longrightarrow> node_ok t (d - level i) i)) \<and>
     (1 < f \<longrightarrow> node_ok (t[f := v]) (d - level (f div 2)) (f div 2))"

lemma node_bound:
  assumes "heap_ok t d" "0 < i" "level i < d"
  shows "t ! i \<le> d - level i"
  using assms(2,3)
proof (induction "d - level i" arbitrary: i)
  case 0
  then show ?case by simp
next
  case (Suc n)
  have ok: "node_ok t (d - level i) i" using assms(1) Suc.prems by (simp add: heap_ok_def)
  show ?case
  proof (cases "d - level i = 1")
    case True
    then show ?thesis using ok by (simp add: node_ok_def)
  next
    case False
    then have "level (2 * i) < d" using Suc.prems by simp
    then have "t ! (2 * i) \<le> d - level (2 * i)" "t ! Suc (2 * i) \<le> d - level (Suc (2 * i))"
      using Suc.hyps(1) [of "2 * i"] Suc.hyps(1) [of "Suc (2 * i)"] Suc.hyps(2) Suc.prems by simp_all
    then show ?thesis using ok False Suc.prems by (auto simp: node_ok_def split: if_splits)
  qed
qed

text \<open>A node that changes matters to itself and to its parent only.\<close>

lemma node_ok_update:
  assumes "0 < i" "0 < f" "i \<noteq> f" "i \<noteq> f div 2"
  shows "node_ok (t[f := v]) h i = node_ok t h i"
proof -
  have "2 * i \<noteq> f" "Suc (2 * i) \<noteq> f" using assms(4) by auto
  then show ?thesis using assms(3) by (simp add: node_ok_def)
qed

lemma path_start:
  assumes "heap_ok t d" "0 < f" "level f < d" "v \<le> d - level f" "node_ok (t[f := v]) (d - level f) f"
  shows "path_ok (t[f := v]) d f (t ! f)"
  unfolding path_ok_def
proof (intro conjI allI impI)
  have len: "f < length t" using assms(1-3) level_less_iff [OF assms(2)] by (simp add: heap_ok_def)
  show "0 < d" "length (t[f := v]) = 2 ^ d" using assms(1) by (simp_all add: heap_ok_def)
  show "t[f := v] ! 0 = d + 1" using assms(1,2) by (simp add: heap_ok_def)
  show "0 < f" "level f < d" using assms by simp_all
  show "t[f := v] ! f \<le> d - level f" using assms(4) len by simp
  show "t ! f \<le> d - level f" by (rule node_bound [OF assms(1-3)])
  fix i assume i: "0 < i" "level i < d"
  show "t[f := v] ! i \<le> d - level i" using node_bound [OF assms(1) i] assms(4) len by (cases "i = f") simp_all
  assume "i \<noteq> f div 2"
  then show "node_ok (t[f := v]) (d - level i) i"
    using i assms node_ok_update [of i f t v] by (cases "i = f") (auto simp: heap_ok_def)
next
  assume "1 < f"
  then have "0 < f div 2" "level (f div 2) < d" using assms(3) level_half [of f] by auto
  then show "node_ok (t[f := v, f := t ! f]) (d - level (f div 2)) (f div 2)" using assms(1) by (simp add: heap_ok_def)
qed

lemma path_end:
  assumes "path_ok t d f v" "1 < f \<Longrightarrow> node_ok t (d - level (f div 2)) (f div 2)"
  shows "heap_ok t d"
proof -
  have "node_ok t (d - level i) i" if i: "0 < i" "level i < d" for i
  proof (cases "i = f div 2")
    case True
    then have "1 < f" using i by auto
    then show ?thesis using assms(2) True by simp
  next
    case False
    then show ?thesis using assms(1) i by (simp add: path_ok_def)
  qed
  then show ?thesis using assms(1) by (simp add: heap_ok_def path_ok_def)
qed

text \<open>The invariant of a parent, seen from a child.\<close>

lemma node_ok_parent:
  assumes "1 < f" "level f < d"
  shows "node_ok t (d - level (f div 2)) (f div 2) \<longleftrightarrow>
    (if t ! f = d - level f \<and> t ! (f XOR 1) = d - level f then t ! (f div 2) = Suc (d - level f) \<or> t ! (f div 2) = 0
     else t ! (f div 2) = max (t ! f) (t ! (f XOR 1)))"
proof -
  have h: "d - level (f div 2) = Suc (d - level f)" "d - level f \<noteq> 0" using assms level_half [of f] by auto
  from children_cases [of f] show ?thesis
    unfolding node_ok_def h using assms(2) by (elim disjE conjE) (simp_all add: max.commute conj_commute)
qed

lemma node_index: "0 < i \<Longrightarrow> level i < d \<Longrightarrow> length t = 2 ^ d \<Longrightarrow> i < length t"
  by (simp add: level_less_iff)

lemma sibling_neq: "(i :: nat) XOR 1 \<noteq> i" "1 < (i :: nat) \<Longrightarrow> i XOR 1 \<noteq> i div 2" "1 < (i :: nat) \<Longrightarrow> i div 2 \<noteq> i" "1 < (i :: nat) \<Longrightarrow> 0 < i XOR 1"
  by (auto simp: xor_Suc_0_eq elim!: evenE oddE)

lemma sibling_level: "1 < i \<Longrightarrow> level (i XOR 1) = level i"
  using sibling_neq(4) [of i] sibling(2) [of i] level_half [of i] level_half [of "i XOR 1"] sibling(1) [of i]
  by (cases "1 < i XOR 1") (auto split: if_splits elim!: oddE)

lemma path_parent:
  assumes "path_ok t d f v" "1 < f"
  shows "if v = d - level f \<and> t ! (f XOR 1) = d - level f then t ! (f div 2) = Suc (d - level f) \<or> t ! (f div 2) = 0
     else t ! (f div 2) = max v (t ! (f XOR 1))"
    "t ! (f XOR 1) \<le> d - level f" "level f = Suc (level (f div 2))" "0 < f div 2" "f div 2 < length t" "level (f div 2) < d"
proof -
  have f: "level f < d" "f < length t" using assms node_index [of f d t] by (simp_all add: path_ok_def)
  have "node_ok (t[f := v]) (d - level (f div 2)) (f div 2)" using assms by (simp add: path_ok_def)
  moreover have "t[f := v] ! f = v" "t[f := v] ! (f div 2) = t ! (f div 2)" "t[f := v] ! (f XOR 1) = t ! (f XOR 1)"
    by (rule nth_list_update_eq [OF f(2)], rule nth_list_update_neq, metis sibling_neq(3) assms(2),
        rule nth_list_update_neq, metis sibling_neq(1))
  ultimately show "if v = d - level f \<and> t ! (f XOR 1) = d - level f then t ! (f div 2) = Suc (d - level f) \<or> t ! (f div 2) = 0
     else t ! (f div 2) = max v (t ! (f XOR 1))"
    unfolding node_ok_parent [OF assms(2) f(1)] by (simp only:)
  show "t ! (f XOR 1) \<le> d - level f"
    using assms sibling_level [OF assms(2)] sibling_neq(4) [OF assms(2)] f unfolding path_ok_def by metis
  show l: "level f = Suc (level (f div 2))" "0 < f div 2" using assms(2) level_half by auto
  show "f div 2 < length t" "level (f div 2) < d" using f l by auto
qed

text \<open>Repairing the parent moves the one place that may be wrong up.\<close>

lemma path_step:
  assumes p: "path_ok t d f v" "1 < f"
    and w: "w \<le> Suc (d - level f)"
    and ok: "if t ! f = d - level f \<and> t ! (f XOR 1) = d - level f then w = Suc (d - level f) \<or> w = 0 else w = max (t ! f) (t ! (f XOR 1))"
  shows "path_ok (t[f div 2 := w]) d (f div 2) (t ! (f div 2))"
  unfolding path_ok_def
proof (intro conjI allI impI)
  note q = path_parent [OF p]
  have f: "level f < d" using p by (simp add: path_ok_def)
  have bound: "t ! i \<le> d - level i" if "0 < i" "level i < d" for i using p(1) that by (simp add: path_ok_def)
  have h: "d - level (f div 2) = Suc (d - level f)" using q(3) f by simp
  show "0 < d" "length (t[f div 2 := w]) = 2 ^ d" using p(1) by (simp_all add: path_ok_def)
  show "t[f div 2 := w] ! 0 = d + 1" using p(1) q(4) by (simp add: path_ok_def)
  show "0 < f div 2" "level (f div 2) < d" by fact+
  show "t[f div 2 := w] ! (f div 2) \<le> d - level (f div 2)" using w h q(5) by simp
  show "t ! (f div 2) \<le> d - level (f div 2)" using bound q(4,6) by blast
  fix i assume i: "0 < i" "level i < d"
  show "t[f div 2 := w] ! i \<le> d - level i" using bound [OF i] w h q(5) by (cases "i = f div 2") simp_all
  assume other: "i \<noteq> f div 2 div 2"
  show "node_ok (t[f div 2 := w]) (d - level i) i"
  proof (cases "i = f div 2")
    case True
    then show ?thesis
      using ok sibling_neq(2,3) [OF p(2)] q(5) unfolding True node_ok_parent [OF p(2) f] by simp
  next
    case False
    then have "node_ok t (d - level i) i" using p(1) i by (simp add: path_ok_def)
    then show ?thesis using node_ok_update [OF i(1) q(4) False other] by simp
  qed
next
  note q = path_parent [OF p]
  assume "1 < f div 2"
  then have g: "f div 2 div 2 \<noteq> f div 2" "0 < f div 2 div 2" "level (f div 2 div 2) < d"
    using level_half [of "f div 2"] q(6) by auto
  then show "node_ok (t[f div 2 := w, f div 2 := t ! (f div 2)]) (d - level (f div 2 div 2)) (f div 2 div 2)"
    using p(1) by (simp add: path_ok_def)
qed

section \<open>Allocating\<close>

lemma allocated_update:
  assumes "0 < p" "i \<noteq> p" "i \<noteq> p div 2"
  shows "allocated (t[p := w]) d i = allocated t d i"
proof -
  have "2 * i \<noteq> p" "Suc (2 * i) \<noteq> p" using assms(3) by auto
  then show ?thesis using assms(2) by (simp add: allocated_def)
qed

lemma allocated_child:
  assumes "allocated t d (c div 2)" "1 < c" "level c < d"
  shows "t ! c = d - level c"
proof -
  have l: "level c = Suc (level (c div 2))" by (rule level_half [OF assms(2)])
  then have "t ! (2 * (c div 2)) = d - level c" "t ! Suc (2 * (c div 2)) = d - level c"
    using assms(1,3) by (simp_all add: allocated_def)
  with children_cases [of c] show ?thesis by (elim disjE conjE) (simp_all only:)
qed

text \<open>Along the path nothing is allocated, neither before nor after.\<close>

lemma allocated_step:
  assumes "path_ok t d f v" "1 < f"
    and "\<not> allocated t d (f div 2)" "\<not> allocated (t[f div 2 := w]) d (f div 2)"
    and "1 < f div 2 \<Longrightarrow> \<not> allocated t d (f div 2 div 2) \<and> \<not> allocated (t[f div 2 := w]) d (f div 2 div 2)"
  shows "allocated (t[f div 2 := w]) d i = allocated t d i"
proof (cases "i = f div 2 div 2 \<and> 1 < f div 2")
  case False
  have "0 < f div 2" using assms(2) by simp
  moreover have "\<not> allocated u d 0" for u by (simp add: allocated_def)
  ultimately show ?thesis using assms(3,4) False allocated_update [of "f div 2" i t w d]
    by (cases "i = 0"; cases "i = f div 2") auto
qed (use assms(5) in auto)

lemma ancestor_positive:
  assumes "\<forall>k. 0 < k \<longrightarrow> 0 < f div 2 ^ k \<longrightarrow> 0 < t ! (f div 2 ^ k)"
  shows "0 < f div 2 \<Longrightarrow> 0 < t ! (f div 2)" "0 < f div 2 div 2 \<Longrightarrow> 0 < t ! (f div 2 div 2)"
    "0 < k \<Longrightarrow> 0 < f div 2 div 2 ^ k \<Longrightarrow> 0 < t ! (f div 2 div 2 ^ k)"
  using assms [rule_format, of 1] assms [rule_format, of 2] assms [rule_format, of "Suc k"]
  by (simp_all add: div_mult2_eq [symmetric])

lemma alloc_fixup_ok:
  assumes "path_ok t d f v" "t ! f < v" "\<forall>k. 0 < k \<longrightarrow> 0 < f div 2 ^ k \<longrightarrow> 0 < t ! (f div 2 ^ k)"
  shows "\<exists>t'. alloc_fixup t f = Some t' \<and> heap_ok t' d \<and> (\<forall>i. allocated t' d i = allocated t d i)"
  using assms
proof (induction f arbitrary: t v rule: less_induct)
  case (less f)
  show ?case
  proof (cases "1 < f")
    case False
    then have "f = 1" using less.prems(1) by (simp add: path_ok_def)
    then have "alloc_fixup t f = Some t" by (subst alloc_fixup.simps) simp
    moreover have "heap_ok t d" using False by (intro path_end [OF less.prems(1)]) simp
    ultimately show ?thesis by auto
  next
    case True
    note p = path_parent [OF less.prems(1) True]
    note pos = ancestor_positive [OF less.prems(3)]
    have v: "v \<le> d - level f" "level f < d" using less.prems(1) by (simp_all add: path_ok_def)
    show ?thesis
    proof (cases "t ! (f XOR 1) < t ! (f div 2)")
      case False
      then have fin: "alloc_fixup t f = Some t" by (subst alloc_fixup.simps) simp
      have "t ! (f div 2) = max (t ! f) (t ! (f XOR 1))" using p(1,2) pos(1) p(4) False less.prems(2) v by (auto split: if_splits)
      then have "heap_ok t d"
        using less.prems(1,2) v by (intro path_end) (auto simp: node_ok_parent [OF True v(2)])
      then show ?thesis using fin by auto
    next
      case True': True
      let ?w = "max (t ! f) (t ! (f XOR 1))"
      let ?t = "t[f div 2 := ?w]"
      have step: "path_ok ?t d (f div 2) (t ! (f div 2))"
        by (rule path_step [OF less.prems(1) True]) (use less.prems(2) p(2) v in auto)
      have lt: "?w < t ! (f div 2)" using p(1) pos(1) p(4) True' less.prems(2) v by (auto split: if_splits)
      have full: "?t ! f \<noteq> d - level f" using sibling_neq(3) [OF True] less.prems(2) v by simp
      have "\<not> allocated t d (f div 2)" using pos(1) p(4) by (simp add: allocated_def)
      moreover have "\<not> allocated ?t d (f div 2)" using allocated_child [OF _ True v(2)] full by blast
      moreover have "\<not> allocated t d (f div 2 div 2) \<and> \<not> allocated ?t d (f div 2 div 2)" if "1 < f div 2"
        using pos(2) that sibling_neq(3) [OF that] by (simp add: allocated_def)
      ultimately have same: "allocated ?t d i = allocated t d i" for i by (rule allocated_step [OF less.prems(1) True])
      have "\<forall>k. 0 < k \<longrightarrow> 0 < f div 2 div 2 ^ k \<longrightarrow> 0 < ?t ! (f div 2 div 2 ^ k)"
      proof (intro allI impI)
        fix k :: nat assume k: "0 < k" "0 < f div 2 div 2 ^ k"
        have "(1::nat) < 2 ^ k" by (rule one_less_power) (simp_all add: k)
        then have "f div 2 div 2 ^ k < f div 2" using p(4) by (rule div_less_dividend)
        then show "0 < ?t ! (f div 2 div 2 ^ k)" using pos(3) [OF k] by simp
      qed
      moreover have "?t ! (f div 2) < t ! (f div 2)" using lt p(5) by simp
      moreover have "f div 2 < f" using True by simp
      ultimately obtain t' where "alloc_fixup ?t (f div 2) = Some t'" "heap_ok t' d" "\<forall>i. allocated t' d i = allocated ?t d i"
        using less.IH [OF _ step] by blast
      moreover have "alloc_fixup t f = alloc_fixup ?t (f div 2)" using True' by (subst alloc_fixup.simps) simp
      ultimately show ?thesis using same by auto
    qed
  qed
qed

text \<open>The descent ends at a free block of the size asked for.\<close>

lemma heap_descend_ok:
  assumes "heap_ok t d" "0 < n" "0 < i" "level i + k + n = d" "n \<le> t ! i"
    and "\<forall>j. 0 < i div 2 ^ j \<longrightarrow> 0 < t ! (i div 2 ^ j)"
  shows "let r = heap_descend t n k i in 0 < r \<and> level r + n = d \<and> n \<le> t ! r \<and> (\<forall>j. 0 < r div 2 ^ j \<longrightarrow> 0 < t ! (r div 2 ^ j))"
  using assms(3-6)
proof (induction k arbitrary: i)
  case 0
  then show ?case by simp
next
  case (Suc k)
  let ?c = "if t ! (2 * i + 1) \<ge> n \<and> (t ! (2 * i) < n \<or> t ! (2 * i) > t ! (2 * i + 1)) then 2 * i + 1 else 2 * i"
  have "level i < d" using Suc.prems(2) by simp
  then have ok: "node_ok t (d - level i) i" using assms(1) Suc.prems(1) by (simp add: heap_ok_def)
  have "n \<le> t ! (2 * i) \<or> n \<le> t ! Suc (2 * i)"
    using ok Suc.prems(2,3) assms(2) by (auto simp: node_ok_def split: if_splits)
  then have c: "n \<le> t ! ?c" by auto
  have half: "?c div 2 = i" by auto
  have "0 < t ! (?c div 2 ^ j)" if "0 < ?c div 2 ^ j" for j
  proof (cases j)
    case 0
    then show ?thesis using c assms(2) by simp
  next
    case (Suc j')
    then have "?c div 2 ^ j = i div 2 ^ j'" using half by (metis div_mult2_eq power_Suc)
    then show ?thesis using Suc.prems(4) that by metis
  qed
  moreover have "0 < ?c" "level ?c + k + n = d" using Suc.prems(1,2) by simp_all
  ultimately show ?case using Suc.IH [of ?c] c by (simp only: heap_descend.simps Let_def) blast
qed

text \<open>Below a node that is free as a whole every node is.\<close>

lemma full_halves:
  assumes "heap_ok t d" "0 < i" "Suc (level i) < d" "t ! i = d - level i"
  shows "t ! (2 * i) = d - level i - 1" "t ! Suc (2 * i) = d - level i - 1"
proof -
  have "node_ok t (d - level i) i" using assms by (simp add: heap_ok_def)
  moreover have "t ! (2 * i) \<le> d - level i - 1" "t ! Suc (2 * i) \<le> d - level i - 1"
    using node_bound [OF assms(1), of "2 * i"] node_bound [OF assms(1), of "Suc (2 * i)"] assms by simp_all
  ultimately show "t ! (2 * i) = d - level i - 1" "t ! Suc (2 * i) = d - level i - 1"
    using assms(3,4) by (auto simp: node_ok_def split: if_splits)
qed

lemma free_node_ok:
  assumes "heap_ok t d" "0 < i" "level i < d" "t ! i = d - level i"
  shows "node_ok (t[i := 0]) (d - level i) i" "allocated (t[i := 0]) d i"
proof -
  have i: "i < length t" using assms(1-3) node_index [of i d t] by (simp add: heap_ok_def)
  have h: "2 * i \<noteq> i" "Suc (2 * i) \<noteq> i" using assms(2) by auto
  show "node_ok (t[i := 0]) (d - level i) i" "allocated (t[i := 0]) d i"
    using full_halves [OF assms(1,2)] assms i h by (auto simp: node_ok_def allocated_def)
qed

lemma alloc_node:
  assumes "heap_ok t d" "0 < n" "n \<le> d" "n \<le> t ! 1"
  obtains r t' where "heap_descend t n (d - n) 1 = r" "alloc_fixup (t[r := 0]) r = Some t'" "heap_ok t' d"
    "0 < r" "level r + n = d" "\<forall>i. allocated t' d i \<longleftrightarrow> i = r \<or> allocated t d i" "\<not> allocated t d r"
proof -
  define r where "r = heap_descend t n (d - n) 1"
  have pos: "0 < t ! (1 div 2 ^ j)" if "0 < (1 :: nat) div 2 ^ j" for j
  proof -
    have "j = 0"
    proof (rule ccontr)
      assume "j \<noteq> 0"
      then have "(1::nat) < 2 ^ j" by (intro one_less_power) simp_all
      then show False using that by simp
    qed
    then show ?thesis using assms(2,4) by simp
  qed
  then have r: "0 < r" "level r + n = d" "n \<le> t ! r" "\<And>j. 0 < r div 2 ^ j \<Longrightarrow> 0 < t ! (r div 2 ^ j)"
    using heap_descend_ok [of t d n 1 "d - n"] assms unfolding r_def Let_def by auto
  have lr: "level r < d" "r < length t" using r(1,2) assms node_index [of r d t] by (auto simp: heap_ok_def)
  have n: "t ! r = d - level r" "n = d - level r" using node_bound [OF assms(1) r(1) lr(1)] r(2,3) by auto
  note free = free_node_ok [OF assms(1) r(1) lr(1) n(1)]
  have path: "path_ok (t[r := 0]) d r (t ! r)" by (rule path_start [OF assms(1) r(1) lr(1) _ free(1)]) simp
  have up: "\<forall>k. 0 < k \<longrightarrow> 0 < r div 2 ^ k \<longrightarrow> 0 < t[r := 0] ! (r div 2 ^ k)"
  proof (intro allI impI)
    fix k :: nat assume k: "0 < k" "0 < r div 2 ^ k"
    have "(1::nat) < 2 ^ k" by (rule one_less_power) (simp_all add: k)
    then have "r div 2 ^ k < r" using r(1) by (rule div_less_dividend)
    then show "0 < t[r := 0] ! (r div 2 ^ k)" using r(4) [OF k(2)] by simp
  qed
  have "t[r := 0] ! r < t ! r" using n assms(2) lr(2) by simp
  then obtain t' where t': "alloc_fixup (t[r := 0]) r = Some t'" "heap_ok t' d" "\<forall>i. allocated t' d i = allocated (t[r := 0]) d i"
    using alloc_fixup_ok [OF path _ up] by blast
  have one: "allocated (t[r := 0]) d i \<longleftrightarrow> i = r \<or> allocated t d i" for i
  proof (cases "i = r")
    case False
    have "\<not> allocated t d (r div 2)" "\<not> allocated (t[r := 0]) d (r div 2)" if "1 < r"
      using up [rule_format, of 1] r(4) [of 1] that sibling_neq(3) [OF that] by (auto simp: allocated_def)
    moreover have "\<not> allocated u d 0" for u by (simp add: allocated_def)
    moreover have "r div 2 = 0" if "\<not> 1 < r" using that by simp
    ultimately show ?thesis using False allocated_update [of r i t 0 d] r(1) by (cases "i = r div 2"; cases "1 < r") auto
  qed (use free(2) in simp)
  have "\<not> allocated t d r" using n assms(2) by (simp add: allocated_def)
  then show thesis
    by (rule that [OF r_def [symmetric] t'(1,2) r(1,2), rotated]) (simp add: t'(3) one)
qed

section \<open>Freeing\<close>

lemma level_shift: "0 < i \<Longrightarrow> level (i * 2 ^ j) = level i + j"
proof (induction j)
  case (Suc j)
  then show ?case using level_children(1) [of "i * 2 ^ j"] by (simp add: mult.left_commute)
qed simp

lemma full_below:
  assumes "heap_ok t d" "0 < i" "level i < d" "t ! i = d - level i" "0 < x" "x div 2 ^ j = i" "level x < d"
  shows "t ! x = d - level x"
  using assms(5-7)
proof (induction j arbitrary: x)
  case 0
  then show ?case using assms(4) by simp
next
  case (Suc j)
  have h: "x div 2 div 2 ^ j = i" using Suc.prems(2) by (simp add: div_mult2_eq)
  have x: "1 < x" using h Suc.prems(1) assms(2) by (cases "x = 1") auto
  then have l: "level x = Suc (level (x div 2))" "0 < x div 2" using level_half by auto
  then have "t ! (x div 2) = d - level (x div 2)" using Suc.IH [OF _ h] Suc.prems(3) by simp
  then have "t ! (2 * (x div 2)) = d - level x" "t ! Suc (2 * (x div 2)) = d - level x"
    using full_halves [OF assms(1) l(2)] l(1) Suc.prems(3) by simp_all
  with children_cases [of x] show ?case by (elim disjE conjE) (simp_all only:)
qed

lemma below_allocated:
  assumes "heap_ok t d" "allocated t d i" "0 < x" "x div 2 ^ Suc j = i" "level x < d"
  shows "t ! x = d - level x"
proof -
  define c where "c = x div 2 ^ j"
  have c: "c div 2 = i" using assms(4) unfolding c_def by (metis div_mult2_eq power_Suc2)
  have i: "0 < i" "level i < d" using assms(2) by (auto simp: allocated_def)
  then have c1: "1 < c" using c by (cases "c = 1"; cases "c = 0") auto
  have lv: "level x = level (x div 2 ^ j) + j" if "0 < x div 2 ^ j" for j
    using that
  proof (induction j)
    case (Suc j)
    have *: "x div 2 ^ Suc j = x div 2 ^ j div 2" by (metis div_mult2_eq power_Suc2)
    then have "1 < x div 2 ^ j" using Suc.prems by (cases "x div 2 ^ j = 1"; cases "x div 2 ^ j = 0") auto
    then show ?case using Suc.IH level_half [of "x div 2 ^ j"] * by simp
  qed simp
  have "level c \<le> level x" using lv [of j] c1 by (simp add: c_def)
  then have lc: "level c < d" using assms(5) by simp
  have "t ! c = d - level c" using allocated_child [of t d c] assms(2) c c1 lc by simp
  then show ?thesis using full_below [OF assms(1) _ lc _ assms(3) _ assms(5)] c1 c_def by auto
qed

lemma free_find_ok:
  assumes "x div 2 ^ k = a" "t ! a = 0" "\<And>j. j < k \<Longrightarrow> 0 < t ! (x div 2 ^ j)"
  shows "free_find t x r = Some (a, r + k)"
  using assms
proof (induction k arbitrary: x r)
  case 0
  then show ?case by (subst free_find.simps) simp
next
  case (Suc k)
  have "free_find t (x div 2) (r + 1) = Some (a, r + 1 + k)"
  proof (rule Suc.IH)
    show "x div 2 div 2 ^ k = a" using Suc.prems(1) by (simp add: div_mult2_eq)
    show "0 < t ! (x div 2 div 2 ^ j)" if "j < k" for j
      using Suc.prems(3) [of "Suc j"] that by (simp add: div_mult2_eq)
  qed fact
  moreover have "0 < t ! x" using Suc.prems(3) [of 0] by simp
  ultimately show ?case by (subst free_find.simps) simp
qed

lemma free_merge_ok:
  assumes "path_ok t d f v" "v < t ! f" "t ! f = d - level f"
  shows "\<exists>f' t' v'. free_merge t f = Some (f', t') \<and> path_ok t' d f' v' \<and> v' < t' ! f' \<and>
    (1 < f' \<longrightarrow> t' ! f' \<noteq> t' ! (f' XOR 1)) \<and> t' ! f' = d - level f' \<and> (\<forall>i. allocated t' d i = allocated t d i)"
  using assms
proof (induction f arbitrary: t v rule: less_induct)
  case (less f)
  have v: "v \<le> d - level f" "level f < d" using less.prems(1) by (simp_all add: path_ok_def)
  show ?case
  proof (cases "t ! f = t ! (f XOR 1)")
    case False
    then have "free_merge t f = Some (f, t)" by (subst free_merge.simps) simp
    then show ?thesis using less.prems False by auto
  next
    case True
    have f: "1 < f"
    proof (rule ccontr)
      assume "\<not> 1 < f"
      then have "f = 1" using less.prems(1) by (simp add: path_ok_def)
      then show False using True less.prems(1,3) by (simp add: path_ok_def)
    qed
    note p = path_parent [OF less.prems(1) f]
    let ?p = "f div 2"
    have tp: "t ! ?p = t ! f" using p(1) True less.prems(2,3) v by (auto split: if_splits)
    let ?t = "t[?p := t ! ?p + 1]"
    have step: "path_ok ?t d ?p (t ! ?p)"
      by (rule path_step [OF less.prems(1) f]) (use tp less.prems(3) True in auto)
    have t1: "?t ! ?p = d - level ?p" using tp less.prems(3) p(3,5) v Suc_diff_Suc [OF p(6)] by simp
    have "d - level f < d - level ?p" using p(3) v by linarith
    then have full: "t ! ?p \<noteq> d - level ?p" "0 < t ! ?p" using tp less.prems(2,3) by linarith+
    have "\<not> allocated t d ?p" "\<not> allocated ?t d ?p" using full t1 p(5) by (auto simp: allocated_def)
    moreover have "\<not> allocated t d (?p div 2) \<and> \<not> allocated ?t d (?p div 2)" if g: "1 < ?p"
    proof -
      have l: "level ?p < d" "0 < ?p div 2" using p(6) g by auto
      have "\<not> allocated t d (?p div 2)" using allocated_child [OF _ g l(1)] full by blast
      moreover have "0 < t ! (?p div 2)"
      proof -
        have "?p div 2 \<noteq> ?p" using g by simp
        then have "node_ok t (d - level (?p div 2)) (?p div 2)"
          using less.prems(1) l level_half [OF g] by (simp add: path_ok_def)
        then show ?thesis using full unfolding node_ok_parent [OF g l(1)] by (auto simp: less_max_iff_disj split: if_splits)
      qed
      moreover have "?t ! (?p div 2) = t ! (?p div 2)" using g by simp
      ultimately show ?thesis by (simp add: allocated_def)
    qed
    ultimately have same: "allocated ?t d i = allocated t d i" for i by (rule allocated_step [OF less.prems(1) f])
    have "?p < f" "t ! ?p < ?t ! ?p" using f p(5) by simp_all
    then obtain f' t' v' where "free_merge ?t ?p = Some (f', t')" "path_ok t' d f' v'" "v' < t' ! f'"
      "1 < f' \<longrightarrow> t' ! f' \<noteq> t' ! (f' XOR 1)" "t' ! f' = d - level f'" "\<forall>i. allocated t' d i = allocated ?t d i"
      using less.IH [OF _ step _ t1] by blast
    moreover have "free_merge t f = free_merge ?t ?p" using True by (subst free_merge.simps) (simp add: Let_def)
    ultimately show ?thesis unfolding same by metis
  qed
qed

lemma free_raise_ok:
  assumes "path_ok t d f v" "v < t ! f" "1 < f \<Longrightarrow> t ! f \<noteq> d - level f \<or> t ! (f XOR 1) \<noteq> d - level f"
  shows "\<exists>t'. free_raise t f = Some t' \<and> heap_ok t' d \<and> (\<forall>i. allocated t' d i = allocated t d i)"
  using assms
proof (induction f arbitrary: t v rule: less_induct)
  case (less f)
  show ?case
  proof (cases "1 < f")
    case False
    then have "f = 1" using less.prems(1) by (simp add: path_ok_def)
    then have "\<not> t ! f > t ! (f div 2)" using less.prems(1) by (auto simp: path_ok_def)
    then have "free_raise t f = Some t" by (subst free_raise.simps) simp
    moreover have "heap_ok t d" using False by (intro path_end [OF less.prems(1)]) simp
    ultimately show ?thesis by auto
  next
    case f: True
    note p = path_parent [OF less.prems(1) f]
    let ?p = "f div 2"
    have v: "v \<le> d - level f" "level f < d" "t ! f \<le> d - level f" using less.prems(1) by (simp_all add: path_ok_def)
    have tp: "t ! ?p = max v (t ! (f XOR 1))" using p(1) less.prems(2) v by (auto split: if_splits)
    show ?thesis
    proof (cases "t ! f > t ! ?p")
      case False
      then have fin: "free_raise t f = Some t" by (subst free_raise.simps) simp
      have "t ! ?p = max (t ! f) (t ! (f XOR 1))" using False tp less.prems(2) by auto
      then have "heap_ok t d"
        using less.prems(1,3) f by (intro path_end) (auto simp: node_ok_parent [OF f v(2)])
      then show ?thesis using fin by auto
    next
      case True
      let ?t = "t[?p := t ! f]"
      have step: "path_ok ?t d ?p (t ! ?p)"
        by (rule path_step [OF less.prems(1) f]) (use True tp less.prems(3) [OF f] v in auto)
      have lt: "t ! ?p < ?t ! ?p" using True p(5) by simp
      have np: "?t ! ?p \<noteq> d - level ?p" "t ! ?p \<noteq> d - level ?p" using True v p(3,5) by auto
      have "\<not> allocated t d ?p"
      proof
        assume a: "allocated t d ?p"
        have "t ! f = d - level f" by (rule allocated_child [OF a f v(2)])
        moreover have "t ! (f XOR 1) = d - level f"
          using allocated_child [of t d "f XOR 1"] a sibling(2) [of f] sibling_level [OF f] v(2) sibling_neq(4) [OF f] p(4)
          by (cases "1 < f XOR 1") (auto simp: less_Suc_eq)
        ultimately show False using less.prems(3) f by simp
      qed
      moreover have "\<not> allocated ?t d ?p" using lt by (simp add: allocated_def)
      moreover have "\<not> allocated t d (?p div 2) \<and> \<not> allocated ?t d (?p div 2)" if g: "1 < ?p"
        using allocated_child [OF _ g p(6)] np by blast
      ultimately have same: "allocated ?t d i = allocated t d i" for i by (rule allocated_step [OF less.prems(1) f])
      have "?p < f" using f by simp
      then obtain t' where "free_raise ?t ?p = Some t'" "heap_ok t' d" "\<forall>i. allocated t' d i = allocated ?t d i"
        using less.IH [OF _ step lt] np by blast
      moreover have "free_raise t f = free_raise ?t ?p" using True by (subst free_raise.simps) simp
      ultimately show ?thesis using same by auto
    qed
  qed
qed

end
