(* ===== verification/Khrn_Heap.thy ===== *)
theory Khrn_Heap
  imports Khrn_Buddy
begin

text \<open>
  The heap of the client cache (\<open>heap_avail\<close>, \<open>heap_alloc\<close>, \<open>heap_free\<close>, \<open>grow\<close> of
  khrn_client_cache.c) as a set of blocks: the locale \<open>block_heap\<close> states the laws the cache
  relies on, its interpretation proves them for the tree of bytes, and \<open>heap_run\<close> collects every
  history of the heap.
\<close>

section \<open>Blocks\<close>

text \<open>The node of a block, its first leaf, and the blocks in use as pairs of place and size class.\<close>

definition node_block :: "nat \<Rightarrow> nat \<Rightarrow> nat" where
  "node_block d i = i * 2 ^ (d - level i - 1) - 2 ^ (d - 1)"

definition used_blocks :: "nat list \<Rightarrow> nat \<Rightarrow> (nat \<times> nat) set" where
  "used_blocks t d = (\<lambda>i. (node_block d i, d - level i)) ` {i. allocated t d i}"

lemma node_leaf:
  assumes "0 < i" "level i < d"
  shows "node_block d i + 2 ^ (d - 1) = i * 2 ^ (d - level i - 1)"
    "node_block d i + 2 ^ (d - level i - 1) \<le> 2 ^ (d - 1)" "2 ^ (d - level i - 1) dvd node_block d i"
proof -
  define k where "k = d - level i - 1"
  have d: "d - 1 = level i + k" using assms(2) by (simp add: k_def)
  have b: "2 ^ level i \<le> i" "i + 1 \<le> 2 * 2 ^ level i" using level_bounds [OF assms(1)] by auto
  have lo: "2 ^ (level i + k) \<le> i * 2 ^ k" using mult_right_mono [OF b(1), of "2 ^ k"] by (simp add: power_add)
  then show 1: "node_block d i + 2 ^ (d - 1) = i * 2 ^ (d - level i - 1)"
    unfolding node_block_def d k_def [symmetric] by simp
  have "(i + 1) * 2 ^ k \<le> 2 * 2 ^ level i * 2 ^ k" using b(2) by (rule mult_right_mono) simp
  then have "i * 2 ^ k + 2 ^ k \<le> 2 * 2 ^ (level i + k)" by (simp add: power_add)
  then show "node_block d i + 2 ^ (d - level i - 1) \<le> 2 ^ (d - 1)"
    using 1 lo unfolding d k_def [symmetric] by linarith
  show "2 ^ (d - level i - 1) dvd node_block d i"
    unfolding node_block_def d k_def [symmetric] by (intro dvd_diff_nat) (simp_all add: le_imp_power_dvd)
qed

lemma node_of_block:
  assumes "0 < i" "level i < d" "0 < j" "level j < d" "node_block d i = node_block d j" "d - level i = d - level j"
  shows "i = j"
proof -
  have "level i = level j" using assms(2,4,6) by simp
  then have "i * 2 ^ (d - level i - 1) = j * 2 ^ (d - level i - 1)"
    using node_leaf(1) [OF assms(1,2)] node_leaf(1) [OF assms(3,4)] assms(5) by simp
  then show ?thesis by simp
qed

lemma heap_free_node:
  assumes "heap_ok t d" "allocated t d a"
  shows "\<exists>t'. heap_free t d (node_block d a) = Some t' \<and> heap_ok t' d \<and> (\<forall>i. allocated t' d i \<longleftrightarrow> i \<noteq> a \<and> allocated t d i)"
proof -
  have a: "0 < a" "level a < d" "t ! a = 0" using assms(2) by (simp_all add: allocated_def)
  define k where "k = d - level a - 1"
  have d: "d - level a = Suc k" "1 + k = d - level a" using a by (simp_all add: k_def)
  have al: "a < length t" using assms(1) a node_index [of a d t] by (simp add: heap_ok_def)
  have leaf: "node_block d a + 2 ^ (d - 1) = a * 2 ^ k" using node_leaf(1) [OF a(1,2)] by (simp add: k_def)
  have find: "free_find t (a * 2 ^ k) 1 = Some (a, 1 + k)"
  proof (rule free_find_ok)
    fix j assume j: "j < k"
    have "a * 2 ^ k = a * 2 ^ (k - j) * 2 ^ j" using j by (simp flip: power_add)
    then have x: "a * 2 ^ k div 2 ^ j = a * 2 ^ (k - j)"
      by (metis nonzero_mult_div_cancel_right power_not_zero zero_neq_numeral)
    have "level (a * 2 ^ (k - j)) < d" using d j a by (simp add: level_shift)
    moreover have "Suc (k - j - 1) = k - j" using j by simp
    then have "a * 2 ^ (k - j) div 2 ^ Suc (k - j - 1) = a" by (simp only:) simp
    ultimately have "t ! (a * 2 ^ (k - j)) = d - level (a * 2 ^ (k - j))"
      using below_allocated [OF assms, of "a * 2 ^ (k - j)" "k - j - 1"] a(1) by simp
    then show "0 < t ! (a * 2 ^ k div 2 ^ j)" using x d j a by (simp add: level_shift)
  qed (use a in simp_all)
  let ?t = "t[a := 1 + k]"
  have ok: "node_ok ?t (d - level a) a"
  proof -
    have "2 * a \<noteq> a" "Suc (2 * a) \<noteq> a" using a(1) by auto
    then show ?thesis using assms(2) al d by (auto simp: node_ok_def allocated_def)
  qed
  have path: "path_ok ?t d a (t ! a)" by (rule path_start [OF assms(1) a(1,2) _ ok]) (simp add: d)
  have one: "allocated ?t d i \<longleftrightarrow> i \<noteq> a \<and> allocated t d i" for i
  proof (cases "i = a")
    case True
    then show ?thesis using al by (simp add: allocated_def)
  next
    case False
    have "\<not> allocated t d (a div 2) \<and> \<not> allocated ?t d (a div 2)" if g: "1 < a"
    proof
      show "\<not> allocated t d (a div 2)" using allocated_child [OF _ g a(2)] a d by auto
      have p: "0 < a div 2" "level (a div 2) < d" "a div 2 \<noteq> a" using g a(2) level_half [OF g] by auto
      have "node_ok t (d - level (a div 2)) (a div 2)" using assms(1) p by (simp add: heap_ok_def)
      then have "t ! (a div 2) = t ! (a XOR 1)" using a d unfolding node_ok_parent [OF g a(2)] by auto
      moreover have "t ! (a XOR 1) = d - level a" if "allocated ?t d (a div 2)"
      proof -
        have s: "1 < a XOR 1" "level (a XOR 1) < d" using g a(2) sibling_level [OF g] by (auto simp: xor_Suc_0_eq elim!: oddE evenE)
        then have "?t ! (a XOR 1) = d - level (a XOR 1)"
          using that by (intro allocated_child) (simp_all only: sibling(2))
        then show ?thesis using sibling_neq(1) [of a] sibling_level [OF g] by (metis nth_list_update_neq)
      qed
      ultimately show "\<not> allocated ?t d (a div 2)" using d p by (auto simp: allocated_def)
    qed
    moreover have "\<not> allocated u d 0" for u by (simp add: allocated_def)
    moreover have "a div 2 = 0" if "\<not> 1 < a" using that by simp
    ultimately show ?thesis using False allocated_update [of a i t "1 + k" d] a(1) by (cases "i = a div 2"; cases "1 < a") auto
  qed
  have "t ! a < ?t ! a" "?t ! a = d - level a" using a al d by simp_all
  then obtain f t' v where m: "free_merge ?t a = Some (f, t')" "path_ok t' d f v" "v < t' ! f"
    "1 < f \<longrightarrow> t' ! f \<noteq> t' ! (f XOR 1)" "t' ! f = d - level f" "\<forall>i. allocated t' d i = allocated ?t d i"
    using free_merge_ok [OF path] by blast
  obtain t'' where r: "free_raise t' f = Some t''" "heap_ok t'' d" "\<forall>i. allocated t'' d i = allocated t' d i"
    using free_raise_ok [OF m(2,3)] m(4,5) by metis
  have "heap_free t d (node_block d a) = Some t''"
    by (simp only: heap_free_def leaf find bind.bind_lunit prod.case m(1) r(1))
  then show ?thesis using r(2,3) m(6) one by auto
qed

section \<open>What the blocks determine\<close>

lemma level_ancestor: "0 < x div 2 ^ j \<Longrightarrow> level x = level (x div 2 ^ j) + j"
proof (induction j)
  case (Suc j)
  have *: "x div 2 ^ Suc j = x div 2 ^ j div 2" by (metis div_mult2_eq power_Suc2)
  then have "1 < x div 2 ^ j" using Suc.prems by (cases "x div 2 ^ j = 1"; cases "x div 2 ^ j = 0") auto
  then show ?case using Suc.IH level_half [of "x div 2 ^ j"] * by simp
qed simp

text \<open>An allocated node has no allocated node below it.\<close>

lemma allocated_above:
  assumes "heap_ok t d" "allocated t d i" "allocated t d x" "x div 2 ^ j = i"
  shows "x = i"
proof (cases j)
  case 0
  then show ?thesis using assms(4) by simp
next
  case (Suc j')
  then have "t ! x = d - level x" using below_allocated [OF assms(1,2)] assms(3,4) by (auto simp: allocated_def)
  then show ?thesis using assms(3) by (simp add: allocated_def)
qed

definition disjoint_blocks :: "nat \<times> nat \<Rightarrow> nat \<times> nat \<Rightarrow> bool" where
  "disjoint_blocks p q \<longleftrightarrow> fst p + 2 ^ (snd p - 1) \<le> fst q \<or> fst q + 2 ^ (snd q - 1) \<le> fst p"

lemma leaf_node:
  assumes "0 < i" "level i < d" "node_block d i \<le> x" "x < node_block d i + 2 ^ (d - level i - 1)"
  shows "(x + 2 ^ (d - 1)) div 2 ^ (d - level i - 1) = i"
  using node_leaf(1) [OF assms(1,2)] assms(3,4) by (intro div_nat_eqI) (simp_all add: ac_simps)

lemma common_leaf:
  assumes i: "0 < i" "level i < d" and j: "0 < j" "level j < d" and le: "level i \<le> level j"
    and "\<not> disjoint_blocks (node_block d i, d - level i) (node_block d j, d - level j)"
  shows "j div 2 ^ (level j - level i) = i"
proof -
  define x where "x = max (node_block d i) (node_block d j)"
  have lt: "node_block d j < node_block d i + 2 ^ (d - level i - 1)" "node_block d i < node_block d j + 2 ^ (d - level j - 1)"
    using assms(6) by (simp_all add: disjoint_blocks_def)
  have x: "(x + 2 ^ (d - 1)) div 2 ^ (d - level i - 1) = i" "(x + 2 ^ (d - 1)) div 2 ^ (d - level j - 1) = j"
    by (rule leaf_node [OF i] leaf_node [OF j], (use lt in \<open>simp_all add: x_def max_def\<close>)[2])+
  have "d - level i - 1 = (d - level j - 1) + (level j - level i)" using le j by simp
  then have "i = (x + 2 ^ (d - 1)) div 2 ^ (d - level j - 1) div 2 ^ (level j - level i)"
    using x(1) by (simp only: power_add div_mult2_eq)
  then show ?thesis using x(2) by simp
qed

lemma used_blocks_disjoint:
  assumes "heap_ok t d" "p \<in> used_blocks t d" "q \<in> used_blocks t d" "p \<noteq> q"
  shows "disjoint_blocks p q"
proof (rule ccontr)
  assume n: "\<not> disjoint_blocks p q"
  have wlog: False if a: "allocated t d i" "allocated t d j" and le: "level i \<le> level j" and ne: "i \<noteq> j"
    and nd: "\<not> disjoint_blocks (node_block d i, d - level i) (node_block d j, d - level j)" for i j
    using common_leaf [of i d j] allocated_above [OF assms(1) a] a le ne nd by (auto simp: allocated_def)
  obtain i j where ij: "allocated t d i" "allocated t d j" "p = (node_block d i, d - level i)" "q = (node_block d j, d - level j)"
    using assms(2,3) by (auto simp: used_blocks_def)
  have "i \<noteq> j" using ij assms(4) by auto
  moreover have "\<not> disjoint_blocks q p" using n by (auto simp: disjoint_blocks_def)
  ultimately show False using wlog [OF ij(1,2)] wlog [OF ij(2,1)] n ij(3,4) by (metis nat_le_linear)
qed

lemma used_blocks_aligned:
  assumes "heap_ok t d" "(b, n) \<in> used_blocks t d"
  shows "0 < n" "n \<le> d" "2 ^ (n - 1) dvd b" "b + 2 ^ (n - 1) \<le> 2 ^ (d - 1)"
proof -
  obtain i where i: "0 < i" "level i < d" "b = node_block d i" "n = d - level i"
    using assms(2) by (auto simp: used_blocks_def allocated_def)
  show "0 < n" "n \<le> d" using i by simp_all
  show "2 ^ (n - 1) dvd b" "b + 2 ^ (n - 1) \<le> 2 ^ (d - 1)" unfolding i(3,4) by (rule node_leaf(2,3) [OF i(1,2)])+
qed

lemma heap_unique:
  assumes "heap_ok t d" "heap_ok u d" "\<And>i. allocated t d i = allocated u d i"
  shows "t = u"
proof -
  have "t ! i = u ! i" if "0 < i" "level i < d" for i
    using that
  proof (induction "d - level i" arbitrary: i)
    case 0
    then show ?case by simp
  next
    case (Suc n)
    have ok: "node_ok t (d - level i) i" "node_ok u (d - level i) i" using assms(1,2) Suc.prems by (simp_all add: heap_ok_def)
    have al: "allocated t d i = allocated u d i" by (rule assms(3))
    show ?case
    proof (cases "Suc (level i) = d")
      case True
      then have "d - level i = 1" by simp
      then have "t ! i \<le> 1" "u ! i \<le> 1" using ok by (simp_all add: node_ok_def)
      then show ?thesis using al Suc.prems True by (auto simp: allocated_def)
    next
      case False
      then have c: "t ! (2 * i) = u ! (2 * i)" "t ! Suc (2 * i) = u ! Suc (2 * i)"
        using Suc.hyps(1) [of "2 * i"] Suc.hyps(1) [of "Suc (2 * i)"] Suc.hyps(2) Suc.prems by simp_all
      show ?thesis using ok c al False Suc.prems by (auto simp: node_ok_def allocated_def split: if_splits)
    qed
  qed
  moreover have "length t = length u" "t ! 0 = u ! 0" using assms(1,2) by (simp_all add: heap_ok_def)
  moreover have "0 < i \<and> level i < d" if "i < length t" "i \<noteq> 0" for i
    using that assms(1) level_less_iff [of i d] by (simp add: heap_ok_def)
  ultimately show ?thesis by (metis nth_equalityI)
qed

text \<open>A free run of blocks shows in the root.\<close>

lemma nested_blocks:
  assumes "0 < i" "level x < d" "x div 2 ^ k = i"
  shows "\<not> disjoint_blocks (node_block d i, d - level i) (node_block d x, d - level x)"
proof -
  have lx: "level x = level i + k" "0 < x" using level_ancestor [of x k] assms by (auto intro: gr0I)
  define h where "h = d - level x - 1"
  have h: "d - level i - 1 = h + k" using lx assms(2) by (simp add: h_def)
  have "i * 2 ^ k \<le> x" "x < (i + 1) * 2 ^ k"
    using assms(3) by (auto simp: div_nat_eqI dest: sym intro: dividend_less_div_times)
  then have "i * 2 ^ k * 2 ^ h \<le> x * 2 ^ h" "x * 2 ^ h < (i + 1) * 2 ^ k * 2 ^ h" by (simp_all only: mult_le_mono1 mult_less_mono1 zero_less_power zero_less_numeral)
  then have "i * 2 ^ (h + k) \<le> x * 2 ^ h" "x * 2 ^ h < i * 2 ^ (h + k) + 2 ^ (h + k)" by (simp_all add: power_add algebra_simps)
  then have "node_block d i \<le> node_block d x" "node_block d x < node_block d i + 2 ^ (h + k)"
    using node_leaf(1) [of i d] node_leaf(1) [of x d] assms lx h by (simp_all add: h_def)
  moreover have "node_block d i < node_block d x + 2 ^ h" using calculation(1) zero_less_power [of "2 :: nat" h] by linarith
  ultimately show ?thesis unfolding disjoint_blocks_def fst_conv snd_conv h h_def [symmetric] by linarith
qed

lemma free_is_full:
  assumes "heap_ok t d" "0 < i" "level i < d" "\<And>x k. allocated t d x \<Longrightarrow> x div 2 ^ k \<noteq> i"
  shows "t ! i = d - level i"
  using assms(2-4)
proof (induction "d - level i" arbitrary: i)
  case 0
  then show ?case by simp
next
  case (Suc n)
  have ok: "node_ok t (d - level i) i" using assms(1) Suc.prems by (simp add: heap_ok_def)
  have na: "\<not> allocated t d i" using Suc.prems(3) [of i 0] by auto
  show ?case
  proof (cases "Suc (level i) = d")
    case True
    then have h: "d - level i = 1" by simp
    then have "t ! i \<le> 1" using ok by (simp add: node_ok_def)
    moreover have "t ! i \<noteq> 0" using na Suc.prems True by (simp add: allocated_def)
    ultimately show ?thesis using h by simp
  next
    case False
    have below: "x div 2 ^ k \<noteq> c" if "allocated t d x" "c div 2 = i" for x k c
      using Suc.prems(3) [OF that(1), of "Suc k"] that(2) by (metis div_mult2_eq power_Suc2)
    have "t ! (2 * i) = d - level i - 1" "t ! Suc (2 * i) = d - level i - 1"
      using Suc.hyps(1) [of "2 * i"] Suc.hyps(1) [of "Suc (2 * i)"] Suc.hyps(2) Suc.prems(1,2) below False by simp_all
    moreover have "d - level i \<noteq> 1" using False Suc.prems(2) by simp
    ultimately have "t ! i = d - level i \<or> t ! i = 0" using ok by (simp add: node_ok_def)
    moreover have "t ! i \<noteq> 0" using na \<open>t ! (2 * i) = _\<close> \<open>t ! Suc (2 * i) = _\<close> Suc.prems by (auto simp: allocated_def)
    ultimately show ?thesis by simp
  qed
qed

lemma parent_ge:
  assumes "heap_ok t d" "1 < c" "level c < d" "\<not> allocated t d (c div 2)"
  shows "t ! c \<le> t ! (c div 2)"
proof -
  have p: "0 < c div 2" "level (c div 2) < d" "level c = Suc (level (c div 2))" using assms(2,3) level_half [of c] by auto
  have "node_ok t (d - level (c div 2)) (c div 2)" using assms(1) p by (simp add: heap_ok_def)
  then have ok: "if t ! c = d - level c \<and> t ! (c XOR 1) = d - level c then t ! (c div 2) = Suc (d - level c) \<or> t ! (c div 2) = 0
     else t ! (c div 2) = max (t ! c) (t ! (c XOR 1))" by (simp only: node_ok_parent [OF assms(2,3)])
  show ?thesis
  proof (cases "t ! c = d - level c \<and> t ! (c XOR 1) = d - level c")
    case True
    have "t ! (2 * (c div 2)) = d - level c \<and> t ! Suc (2 * (c div 2)) = d - level c"
      using children_cases [of c] True by (elim disjE conjE) (simp_all only:)
    then have "t ! (c div 2) \<noteq> 0" using assms(4) p by (auto simp: allocated_def)
    then show ?thesis using ok True by simp
  qed (use ok in simp)
qed

lemma block_node:
  assumes "0 < n" "n \<le> d" "2 ^ (n - 1) dvd b" "b + 2 ^ (n - 1) \<le> 2 ^ (d - 1)"
  obtains i where "0 < i" "level i + n = d" "node_block d i = b"
proof -
  obtain c where c: "b = 2 ^ (n - 1) * c" using assms(3) by (elim dvdE)
  define i where "i = c + 2 ^ (d - n)"
  have p: "(2::nat) ^ (d - 1) = 2 ^ (n - 1) * 2 ^ (d - n)" using assms(1,2) by (simp flip: power_add)
  have "2 ^ (n - 1) * (c + 1) \<le> 2 ^ (n - 1) * 2 ^ (d - n)" using assms(4) unfolding c p by simp
  then have "c + 1 \<le> 2 ^ (d - n)" by (simp only: mult_le_cancel1) simp
  then have b: "2 ^ (d - n) \<le> i" "i < 2 ^ Suc (d - n)" by (simp_all add: i_def)
  then have i: "0 < i" by (metis gr0I not_le zero_less_numeral zero_less_power)
  then have "level i < Suc (d - n)" "\<not> level i < d - n" using b level_less_iff [OF i] by simp_all
  then have l: "level i + n = d" using assms(2) by simp
  have e: "d - level i - 1 = n - 1" using l by simp
  have "i * 2 ^ (n - 1) = b + 2 ^ (d - 1)" unfolding i_def c p by (simp add: algebra_simps)
  then have "node_block d i = b" unfolding node_block_def e by simp
  then show thesis using that i l by blast
qed

lemma avail_of_free:
  assumes ok: "heap_ok t d" and b: "0 < n" "n \<le> d" "2 ^ (n - 1) dvd b" "b + 2 ^ (n - 1) \<le> 2 ^ (d - 1)"
    and free: "\<And>q. q \<in> used_blocks t d \<Longrightarrow> disjoint_blocks (b, n) q"
  shows "n \<le> t ! 1"
proof -
  obtain i where i: "0 < i" "level i + n = d" "node_block d i = b" by (rule block_node [OF b])
  have n: "n = d - level i" "level i < d" using i(2) b(1) by auto
  have sep: "disjoint_blocks (node_block d i, d - level i) (node_block d x, d - level x)" if "allocated t d x" for x
    using free that i n by (auto simp: used_blocks_def)
  have "t ! i = d - level i"
    by (rule free_is_full [OF ok i(1) n(2)]) (use nested_blocks [OF i(1)] sep in \<open>auto simp: allocated_def\<close>)
  have up: "n \<le> t ! (i div 2 ^ j)" if "0 < i div 2 ^ j" for j
    using that
  proof (induction j)
    case 0
    then show ?case using \<open>t ! i = d - level i\<close> n by simp
  next
    case (Suc j)
    let ?c = "i div 2 ^ j"
    have *: "i div 2 ^ Suc j = ?c div 2" by (metis div_mult2_eq power_Suc2)
    then have c: "1 < ?c" using Suc.prems by (cases "?c = 1"; cases "?c = 0") auto
    have lc: "level i = level ?c + j" "level ?c < d" "0 < ?c div 2" "level (?c div 2) < d"
      using level_ancestor [of i j] c n(2) level_half [OF c] by auto
    have "\<not> disjoint_blocks (node_block d (?c div 2), d - level (?c div 2)) (node_block d i, d - level i)"
      by (rule nested_blocks [OF lc(3) n(2) *])
    then have "\<not> allocated t d (?c div 2)" using sep [of "?c div 2"] by (auto simp: disjoint_blocks_def)
    then have "t ! ?c \<le> t ! (?c div 2)" by (rule parent_ge [OF ok c lc(2)])
    then show ?case using Suc.IH c * by auto
  qed
  have "i div 2 ^ level i = 1" using level_bounds [OF i(1)] by (intro div_nat_eqI) auto
  then show ?thesis using up [of "level i"] by simp
qed

section \<open>Growing\<close>

lemma tree_init_prefix:
  assumes "length raw = 2 ^ d" "1 \<le> m" "m \<le> 2 ^ d"
  shows "let t = fold (\<lambda>i t. t[i := t ! (i div 2) - 1]) [1..<m] (raw[0 := d + 1])
    in length t = 2 ^ d \<and> (\<forall>i < m. t ! i = (if i = 0 then d + 1 else d - level i))"
  using assms(2,3)
proof (induction m rule: dec_induct)
  case base
  then show ?case using assms(1) by simp
next
  case (step m)
  let ?t = "fold (\<lambda>i t. t[i := t ! (i div 2) - 1]) [1..<m] (raw[0 := d + 1])"
  have t: "length ?t = 2 ^ d" "\<And>i. i < m \<Longrightarrow> ?t ! i = (if i = 0 then d + 1 else d - level i)"
    using step.IH step.prems by (simp_all add: Let_def)
  have fold_Suc: "fold (\<lambda>i t. t[i := t ! (i div 2) - 1]) [1..<Suc m] (raw[0 := d + 1]) = ?t[m := ?t ! (m div 2) - 1]"
    using step.hyps by simp
  have "m div 2 < m" using step.hyps by simp
  then have "?t ! (m div 2) - 1 = d - level m"
    using t(2) [of "m div 2"] step.hyps level_half [of m] by (cases "m = 1") auto
  then show ?case unfolding fold_Suc Let_def using t step.hyps step.prems by (auto simp: less_Suc_eq nth_list_update)
qed

lemma tree_init_nth:
  assumes "length raw = 2 ^ d"
  shows "length (tree_init raw d) = 2 ^ d" "tree_init raw d ! 0 = d + 1"
    "0 < i \<Longrightarrow> level i < d \<Longrightarrow> tree_init raw d ! i = d - level i"
  using tree_init_prefix [OF assms, of "2 ^ d"] level_less_iff [of i d] by (simp_all add: tree_init_def Let_def)

definition left :: "nat \<Rightarrow> nat" where
  "left i = i + 2 ^ level i"

lemma left_xor:
  assumes "0 < i"
  shows "i XOR push_bit (level i) 3 = left i"
proof -
  define r where "r = i - 2 ^ level i"
  have r: "r < 2 ^ level i" "i = 2 ^ level i + r" using level_bounds [OF assms] by (auto simp: r_def)
  have bits: "bit r n \<Longrightarrow> n < level i" for n
    using r(1) by (metis bit_take_bit_iff take_bit_nat_eq_self)
  have or_sum: "2 ^ L + r = push_bit L 1 OR r" if "level i \<le> L" for L
  proof -
    have "push_bit L 1 AND r = 0" by (rule bit_eqI) (use bits [of L] that in \<open>auto simp: bit_simps bit_1_iff\<close>)
    then show ?thesis by (simp add: disjunctive_add_eq_or [symmetric] push_bit_eq_mult)
  qed
  have "left i = push_bit (Suc (level i)) 1 OR r" using or_sum [of "Suc (level i)"] r(2) by (simp add: left_def)
  moreover have "i = push_bit (level i) 1 OR r" using or_sum [of "level i"] r(2) by simp
  moreover have "(push_bit (level i) 1 OR r) XOR push_bit (level i) 3 = push_bit (Suc (level i)) 1 OR r"
  proof -
    have three: "(3 :: nat) = mask 2" by (simp add: mask_eq_exp_minus_1)
    show ?thesis unfolding three
      by (rule bit_eqI) (use bits in \<open>auto simp: bit_simps bit_1_iff dest: bits\<close>)
  qed
  ultimately show ?thesis by metis
qed

lemma left_simps:
  assumes "0 < i"
  shows "level (left i) = Suc (level i)" "left (2 * i) = 2 * left i" "left (Suc (2 * i)) = Suc (2 * left i)" "1 < left i"
proof -
  have b: "2 ^ level i \<le> i" "i < 2 ^ Suc (level i)" using level_bounds [OF assms] by simp_all
  have "0 < left i" using assms by (simp add: left_def)
  moreover have "left i < 2 ^ Suc (Suc (level i))" "\<not> left i < 2 ^ Suc (level i)" using b by (simp_all add: left_def)
  ultimately have "level (left i) < Suc (Suc (level i))" "\<not> level (left i) < Suc (level i)"
    using level_less_iff [of "left i"] by blast+
  then show "level (left i) = Suc (level i)" by simp
  show "left (2 * i) = 2 * left i" "left (Suc (2 * i)) = Suc (2 * left i)" using assms by (simp_all add: left_def)
  show "1 < left i" using assms zero_less_power [of "2 :: nat" "level i"] unfolding left_def by linarith
qed

lemma left_inj: "0 < i \<Longrightarrow> 0 < j \<Longrightarrow> left i = left j \<Longrightarrow> i = j"
  using left_simps(1) [of i] left_simps(1) [of j] by (simp add: left_def)

lemma left_of_child: "0 < j \<Longrightarrow> left j div 2 = x \<Longrightarrow> 1 < x \<Longrightarrow> \<exists>i > 0. x = left i"
proof -
  assume j: "0 < j" "left j div 2 = x" "1 < x"
  have "j \<noteq> 1" using j by (auto simp: left_def)
  with j(1) have "0 < j div 2" by simp
  moreover have "x = left (j div 2)"
    using left_simps(2,3) [OF \<open>0 < j div 2\<close>] j(2) by (cases "even j") (auto elim!: evenE oddE)
  ultimately show ?thesis by blast
qed

lemma copy_prefix:
  assumes "length t = 2 ^ Suc d" "1 \<le> m" "m \<le> 2 ^ d"
  shows "let u = fold (\<lambda>i t. t[left i := old ! i]) [1..<m] t
    in length u = 2 ^ Suc d \<and> (\<forall>i. 0 < i \<longrightarrow> i < m \<longrightarrow> u ! left i = old ! i) \<and> (\<forall>x. (\<forall>i. 0 < i \<longrightarrow> i < m \<longrightarrow> x \<noteq> left i) \<longrightarrow> u ! x = t ! x)"
  using assms(2,3)
proof (induction m rule: dec_induct)
  case base
  then show ?case using assms(1) by simp
next
  case (step m)
  let ?u = "fold (\<lambda>i t. t[left i := old ! i]) [1..<m] t"
  have u: "length ?u = 2 ^ Suc d" "\<And>i. 0 < i \<Longrightarrow> i < m \<Longrightarrow> ?u ! left i = old ! i"
    "\<And>x. (\<And>i. 0 < i \<Longrightarrow> i < m \<Longrightarrow> x \<noteq> left i) \<Longrightarrow> ?u ! x = t ! x"
    using step.IH step.prems by (simp_all add: Let_def)
  have fold_Suc: "fold (\<lambda>i t. t[left i := old ! i]) [1..<Suc m] t = ?u[left m := old ! m]" using step.hyps by simp
  have m: "0 < m" "left m < 2 ^ Suc d"
    using step.hyps step.prems left_simps(1) [of m] left_simps(4) [of m] level_less_iff [of "left m" "Suc d"] level_less_iff [of m d] by auto
  have "?u[left m := old ! m] ! left i = old ! i" if "0 < i" "i < Suc m" for i
  proof (cases "i = m")
    case True
    then show ?thesis using u(1) m by simp
  next
    case False
    then have "left m \<noteq> left i" using left_inj [of i m] that m by metis
    then show ?thesis using u(2) [of i] that False by simp
  qed
  moreover have "?u[left m := old ! m] ! x = t ! x" if "\<forall>i. 0 < i \<longrightarrow> i < Suc m \<longrightarrow> x \<noteq> left i" for x
    using u(3) [of x] that m by (metis less_SucI lessI nth_list_update_neq)
  ultimately show ?case unfolding fold_Suc Let_def using u(1) by simp
qed

lemma msb_level:
  assumes "0 < i" "i < 2 ^ 32"
  shows "nat (msb (of_nat i)) = level i"
proof -
  have u: "unat (of_nat i :: u32) = i" using assms(2) by (simp add: unsigned_of_nat take_bit_nat_eq_self)
  then show ?thesis using level_bounds [OF assms(1)] msb_eq [of "level i" "of_nat i"] by (simp only: nat_int)
qed

lemma left_exists:
  assumes "1 < x" "x < 2 ^ level x + 2 ^ (level x - 1)"
  shows "\<exists>i > 0. x = left i"
proof -
  obtain L where L: "level x = Suc L" using level_half [OF assms(1)] by auto
  have b: "2 ^ Suc L \<le> x" "x < 2 ^ Suc L + 2 ^ L" using level_bounds [of x] assms L by auto
  define i where "i = x - 2 ^ L"
  have i: "2 ^ L \<le> i" "i < 2 ^ Suc L" using b by (auto simp: i_def)
  then have "0 < i" by (metis gr0I not_le zero_less_numeral zero_less_power)
  moreover from this have "level i = L" using i level_less_iff [of i "Suc L"] level_less_iff [of i L] by auto
  moreover have "x = i + 2 ^ L" using b by (simp add: i_def)
  ultimately show ?thesis by (auto simp: left_def)
qed

lemma grow_tree_nth:
  assumes "length raw = 2 ^ Suc d" "0 < d" "heap_ok old d" "d < 32"
  shows "length (grow_tree raw old d) = 2 ^ Suc d" "grow_tree raw old d ! 0 = Suc d + 1"
    "0 < i \<Longrightarrow> level i < d \<Longrightarrow> grow_tree raw old d ! left i = old ! i"
    "1 < x \<Longrightarrow> level x < Suc d \<Longrightarrow> (\<And>i. 0 < i \<Longrightarrow> x \<noteq> left i) \<Longrightarrow> grow_tree raw old d ! x = Suc d - level x"
    "grow_tree raw old d ! 1 = d + of_bool (old ! 1 = d)"
proof -
  let ?t = "tree_init raw (Suc d)"
  note t = tree_init_nth [OF assms(1)]
  define u where "u = fold (\<lambda>i t. t[left i := old ! i]) [1..<2 ^ d] ?t"
  have "fold (\<lambda>i t. t[i XOR push_bit (nat (msb (of_nat i))) 3 := old ! i]) [1..<2 ^ d] ?t = u"
    unfolding u_def
  proof (rule fold_cong [OF refl refl])
    fix i assume "i \<in> set [1..<2 ^ d]"
    then have i: "0 < i" "i < 2 ^ d" by simp_all
    have "(2 :: nat) ^ d \<le> 2 ^ 32" using assms(4) by (intro power_increasing) simp_all
    then have "i < 2 ^ 32" using i(2) by linarith
    then show "(\<lambda>t. t[i XOR push_bit (nat (msb (of_nat i))) 3 := old ! i]) = (\<lambda>t. t[left i := old ! i])"
      using left_xor [OF i(1)] msb_level [OF i(1)] by simp
  qed
  then have g: "grow_tree raw old d = u[1 := u ! 3 + of_bool (u ! 2 = u ! 3)]"
    using assms(2) by (simp add: grow_tree_def Let_def)
  have u: "length u = 2 ^ Suc d" "\<And>i. 0 < i \<Longrightarrow> i < 2 ^ d \<Longrightarrow> u ! left i = old ! i"
    "\<And>x. (\<And>i. 0 < i \<Longrightarrow> i < 2 ^ d \<Longrightarrow> x \<noteq> left i) \<Longrightarrow> u ! x = ?t ! x"
    using copy_prefix [OF t(1), of "2 ^ d" old] by (simp_all add: u_def Let_def)
  show "length (grow_tree raw old d) = 2 ^ Suc d" using u(1) by (simp add: g)
  have "0 \<noteq> left i" "1 \<noteq> left i" if "0 < i" for i using left_simps(4) [OF that] by auto
  then show "grow_tree raw old d ! 0 = Suc d + 1" using u(3) [of 0] t(2) by (simp add: g)
  show "grow_tree raw old d ! left i = old ! i" if "0 < i" "level i < d"
    using that u(2) [of i] left_simps(4) [of i] level_less_iff [of i d] by (simp add: g)
  show right: "grow_tree raw old d ! x = Suc d - level x" if x: "1 < x" "level x < Suc d" and "\<And>i. 0 < i \<Longrightarrow> x \<noteq> left i" for x
    using u(3) [of x] t(3) [of x] that by (simp add: g)
  have "3 \<noteq> left i" if "0 < i" for i
  proof
    assume e: "3 = left i"
    have "level 3 = 1" using level_children(2) [of 1] by (simp add: numeral_3_eq_3)
    then have "level i = 0" using left_simps(1) [OF that] e by simp
    then show False using e level_bounds [OF that] by (simp add: left_def)
  qed
  then have "u ! 3 = d" using u(3) [of 3] t(3) [of 3] assms(2) level_children(2) [of 1] by (simp add: numeral_3_eq_3)
  moreover have "u ! 2 = old ! 1"
  proof -
    have "left 1 = 2" by (simp add: left_def)
    moreover have "(1 :: nat) < 2 ^ d" using assms(2) by (intro one_less_power) simp_all
    ultimately show ?thesis using u(2) [of 1] by simp
  qed
  moreover have "(1 :: nat) < 2 ^ Suc d" by (rule one_less_power) simp_all
  then have "1 < length u" by (simp only: u(1))
  ultimately show "grow_tree raw old d ! 1 = d + of_bool (old ! 1 = d)" by (simp add: g)
qed

lemma grow_tree_ok:
  assumes "length raw = 2 ^ Suc d" "0 < d \<Longrightarrow> heap_ok old d" "d < 32"
  shows "heap_ok (grow_tree raw old d) (Suc d) \<and> used_blocks (grow_tree raw old d) (Suc d) = used_blocks old d"
proof (cases "d = 0")
  case True
  note t = tree_init_nth [OF assms(1)]
  let ?t = "tree_init raw 1"
  have root: "i = 1" if "0 < i" "level i < 1" for i using that level_less_iff [of i 1] by simp
  have v: "length ?t = 2" "?t ! 0 = 2" "?t ! 1 = 1" using t(1,2) t(3) [of 1] True by simp_all
  have "node_ok ?t (1 - level i) i" if i: "0 < i" "level i < 1" for i
  proof -
    have "i = 1" by (rule root [OF i])
    then show ?thesis using v(3) by (simp add: node_ok_def)
  qed
  then have "heap_ok ?t 1" using v by (simp add: heap_ok_def)
  moreover have "\<not> allocated ?t 1 i" for i
  proof
    assume "allocated ?t 1 i"
    then have "0 < i" "level i < 1" "?t ! i = 0" by (simp_all add: allocated_def)
    with root v(3) show False by force
  qed
  then have "used_blocks ?t 1 = {}" by (simp add: used_blocks_def)
  ultimately show ?thesis using True by (auto simp: grow_tree_def used_blocks_def allocated_def)
next
  case False
  then have d: "0 < d" by simp
  let ?g = "grow_tree raw old d"
  note ok = assms(2) [OF d]
  note g = grow_tree_nth [OF assms(1) d ok assms(3)]
  have top: "old ! 1 \<le> d" using node_bound [OF ok, of 1] d by simp
  have lefts: "node_ok ?g (d - level i) (left i) = node_ok old (d - level i) i"
    "allocated ?g (Suc d) (left i) = allocated old d i" if i: "0 < i" "level i < d" for i
  proof -
    have c: "?g ! (2 * left i) = old ! (2 * i)" "?g ! Suc (2 * left i) = old ! Suc (2 * i)" if "Suc (level i) < d"
      using g(3) [of "2 * i"] g(3) [of "Suc (2 * i)"] that i left_simps(2,3) [OF i(1)] by simp_all
    show "node_ok ?g (d - level i) (left i) = node_ok old (d - level i) i"
      using c g(3) [OF i] i by (auto simp: node_ok_def)
    show "allocated ?g (Suc d) (left i) = allocated old d i"
      using c g(3) [OF i] i left_simps(1,4) [OF i(1)] by (auto simp: allocated_def)
  qed
  have rights: "node_ok ?g (Suc d - level x) x" "\<not> allocated ?g (Suc d) x"
    if x: "1 < x" "level x < Suc d" and nl: "\<And>i. 0 < i \<Longrightarrow> x \<noteq> left i" for x
  proof -
    have v: "?g ! x = Suc d - level x" by (rule g(4) [OF x nl])
    have "?g ! c = Suc d - Suc (level x)" if "c div 2 = x" "Suc (level x) < Suc d" for c
    proof -
      have c: "1 < c" "level c = Suc (level x)" using that(1) x level_half [of c] by auto
      have "c \<noteq> left i" if "0 < i" for i using left_of_child [OF that _ x(1)] nl \<open>c div 2 = x\<close> by blast
      then show ?thesis using g(4) [of c] c that(2) by simp
    qed
    then have "?g ! (2 * x) = d - level x" "?g ! Suc (2 * x) = d - level x" if "level x < d" using that by simp_all
    then show "node_ok ?g (Suc d - level x) x" "\<not> allocated ?g (Suc d) x"
      using v x by (auto simp: node_ok_def allocated_def)
  qed
  have root: "node_ok ?g (Suc d) 1" "\<not> allocated ?g (Suc d) 1"
  proof -
    have "left 1 = 2" by (simp add: left_def)
    then have "?g ! 2 = old ! 1" using g(3) [of 1] d by simp
    moreover have "?g ! 3 = d"
    proof -
      have l3: "level 3 = 1" using level_children(2) [of 1] by (simp add: numeral_3_eq_3)
      have "3 \<noteq> left i" if "0 < i" for i
        using left_simps(1) [OF that] l3 level_bounds [OF that] by (auto simp: left_def)
      then show ?thesis using g(4) [of 3] l3 d by simp
    qed
    ultimately show "node_ok ?g (Suc d) 1" "\<not> allocated ?g (Suc d) 1"
      using g(5) top d by (auto simp: node_ok_def allocated_def numeral_3_eq_3 numeral_2_eq_2)
  qed
  have every: "x = 1 \<or> (\<exists>i>0. x = left i) \<or> (1 < x \<and> (\<forall>i>0. x \<noteq> left i))" if "0 < x" for x
    using that by auto
  have "node_ok ?g (Suc d - level x) x" if "0 < x" "level x < Suc d" for x
    using every [OF that(1)] root(1) rights(1) [of x] lefts(1) ok that left_simps(1)
    by (auto simp: heap_ok_def)
  then have "heap_ok ?g (Suc d)" using g(1,2) by (simp add: heap_ok_def)
  moreover have "used_blocks ?g (Suc d) = used_blocks old d"
  proof -
    have "allocated ?g (Suc d) x \<longleftrightarrow> (\<exists>i. allocated old d i \<and> x = left i)" for x
    proof
      assume a: "allocated ?g (Suc d) x"
      then have x: "0 < x" "level x < Suc d" by (simp_all add: allocated_def)
      from every [OF x(1)] show "\<exists>i. allocated old d i \<and> x = left i"
      proof (elim disjE exE conjE)
        assume "x = 1"
        then show ?thesis using a root(2) by simp
      next
        fix i assume i: "0 < i" "x = left i"
        then have "level i < d" using x(2) left_simps(1) [OF i(1)] by simp
        then show ?thesis using a lefts(2) [OF i(1)] i(2) by blast
      next
        assume "1 < x" "\<forall>i>0. x \<noteq> left i"
        then show ?thesis using a rights(2) [of x] x(2) by blast
      qed
    next
      assume "\<exists>i. allocated old d i \<and> x = left i"
      then show "allocated ?g (Suc d) x" using lefts(2) by (auto simp: allocated_def [of old])
    qed
    then have nodes: "{x. allocated ?g (Suc d) x} = left ` {i. allocated old d i}" by auto
    have block: "node_block (Suc d) (left i) = node_block d i" if "0 < i" "level i < d" for i
    proof -
      have "2 ^ level i * 2 ^ (d - level i - 1) = (2 :: nat) ^ (d - 1)" using that by (simp flip: power_add)
      moreover have "(2 :: nat) ^ d = 2 ^ (d - 1) + 2 ^ (d - 1)" using d by (cases d) simp_all
      ultimately show ?thesis using left_simps(1) [OF that(1)] by (simp add: node_block_def left_def add_mult_distrib)
    qed
    show ?thesis unfolding used_blocks_def nodes image_image
    proof (rule image_cong [OF refl])
      fix i assume "i \<in> {i. allocated old d i}"
      then have "0 < i" "level i < d" by (simp_all add: allocated_def)
      then show "(node_block (Suc d) (left i), Suc d - level (left i)) = (node_block d i, d - level i)"
        using block left_simps(1) by simp
    qed
  qed
  ultimately show ?thesis by blast
qed

section \<open>The heap as a set of blocks\<close>

text \<open>What the cache relies on: the laws of a heap of blocks, each a place and a size class.\<close>

locale block_heap =
  fixes ok :: "'t \<Rightarrow> nat \<Rightarrow> bool"
    and used :: "'t \<Rightarrow> nat \<Rightarrow> (nat \<times> nat) set"
    and avail :: "'t \<Rightarrow> nat \<Rightarrow> bool"
    and alloc :: "'t \<Rightarrow> nat \<Rightarrow> nat \<Rightarrow> (nat \<times> 't) option"
    and free :: "'t \<Rightarrow> nat \<Rightarrow> nat \<Rightarrow> 't option"
  assumes alloc_ok: "ok t d \<Longrightarrow> 0 < n \<Longrightarrow> avail t n \<Longrightarrow>
      \<exists>b t'. alloc t d n = Some (b, t') \<and> ok t' d \<and> used t' d = insert (b, n) (used t d) \<and> (b, n) \<notin> used t d"
    and free_ok: "ok t d \<Longrightarrow> (b, n) \<in> used t d \<Longrightarrow> \<exists>t'. free t d b = Some t' \<and> ok t' d \<and> used t' d = used t d - {(b, n)}"
    and used_disjoint: "ok t d \<Longrightarrow> p \<in> used t d \<Longrightarrow> q \<in> used t d \<Longrightarrow> p \<noteq> q \<Longrightarrow> disjoint_blocks p q"
    and used_unique: "ok t d \<Longrightarrow> ok t' d \<Longrightarrow> used t d = used t' d \<Longrightarrow> t = t'"
begin

lemma alloc_cases:
  assumes "ok t d" "0 < n" "avail t n" "alloc t d n = Some (b, t')"
  shows "ok t' d" "used t' d = insert (b, n) (used t d)" "(b, n) \<notin> used t d"
  using alloc_ok [OF assms(1-3)] assms(4) by auto

lemma free_cases:
  assumes "ok t d" "(b, n) \<in> used t d" "free t d b = Some t'"
  shows "ok t' d" "used t' d = used t d - {(b, n)}"
  using free_ok [OF assms(1,2)] assms(3) by auto

text \<open>A new block meets none of those in use, and freeing it again restores the very same heap.\<close>

lemma alloc_apart:
  assumes "ok t d" "0 < n" "avail t n" "alloc t d n = Some (b, t')" "q \<in> used t d"
  shows "disjoint_blocks (b, n) q"
  using alloc_cases [OF assms(1-4)] used_disjoint [of t' d "(b, n)" q] assms(5) by auto

lemma free_alloc:
  assumes "ok t d" "0 < n" "avail t n" "alloc t d n = Some (b, t')"
  shows "free t' d b = Some t"
proof -
  note a = alloc_cases [OF assms]
  obtain u where u: "free t' d b = Some u" "ok u d" "used u d = used t' d - {(b, n)}"
    using free_ok [OF a(1), of b n] a(2) by auto
  then have "used u d = used t d" using a by auto
  then show ?thesis using used_unique [OF u(2) assms(1)] u(1) by simp
qed

end

lemma heap_alloc_used:
  assumes "heap_ok t d" "0 < n" "heap_avail (Some t) n"
  shows "\<exists>b t'. heap_alloc t d n = Some (b, t') \<and> heap_ok t' d \<and> used_blocks t' d = insert (b, n) (used_blocks t d) \<and>
    (b, n) \<notin> used_blocks t d"
proof -
  have av: "n \<le> t ! 1" using assms(3) by (simp add: heap_avail_def)
  have "0 < d" using assms(1) by (simp add: heap_ok_def)
  then have n: "n \<le> d" using av node_bound [OF assms(1), of 1] by simp
  obtain r t' where r: "heap_descend t n (d - n) 1 = r" "alloc_fixup (t[r := 0]) r = Some t'" "heap_ok t' d"
    "0 < r" "level r + n = d" "\<forall>i. allocated t' d i \<longleftrightarrow> i = r \<or> allocated t d i" "\<not> allocated t d r"
    using alloc_node [OF assms(1,2) n av] by blast
  have l: "d - level r = n" "level r < d" using r(5) assms(2) by auto
  have al: "heap_alloc t d n = Some (node_block d r, t')"
    unfolding heap_alloc_def Let_def r(1) by (simp add: r(2) node_block_def l(1))
  have "{i. allocated t' d i} = insert r {i. allocated t d i}" using r(6) by auto
  then have "used_blocks t' d = insert (node_block d r, n) (used_blocks t d)" by (simp add: used_blocks_def l(1))
  moreover have "(node_block d r, n) \<notin> used_blocks t d"
  proof
    assume "(node_block d r, n) \<in> used_blocks t d"
    then obtain i where i: "allocated t d i" "node_block d r = node_block d i" "n = d - level i" by (auto simp: used_blocks_def)
    then have "r = i" using node_of_block [of r d i] r(4) l by (simp add: allocated_def)
    then show False using i(1) r(7) by simp
  qed
  ultimately show ?thesis using al r(3) by blast
qed

lemma heap_free_used:
  assumes "heap_ok t d" "(b, n) \<in> used_blocks t d"
  shows "\<exists>t'. heap_free t d b = Some t' \<and> heap_ok t' d \<and> used_blocks t' d = used_blocks t d - {(b, n)}"
proof -
  obtain a where a: "allocated t d a" "b = node_block d a" "n = d - level a" using assms(2) by (auto simp: used_blocks_def)
  obtain t' where t': "heap_free t d b = Some t'" "heap_ok t' d" "\<forall>i. allocated t' d i \<longleftrightarrow> i \<noteq> a \<and> allocated t d i"
    using heap_free_node [OF assms(1) a(1)] a(2) by blast
  have inj: "inj_on (\<lambda>i. (node_block d i, d - level i)) {i. allocated t d i}"
    using node_of_block by (auto simp: inj_on_def allocated_def)
  have "{i. allocated t' d i} = {i. allocated t d i} - {a}" using t'(3) by auto
  then have "used_blocks t' d = (\<lambda>i. (node_block d i, d - level i)) ` ({i. allocated t d i} - {a})" by (simp add: used_blocks_def)
  also have "\<dots> = used_blocks t d - {(b, n)}"
    using inj_on_image_set_diff [OF inj, of "{i. allocated t d i}" "{a}"] a by (simp add: used_blocks_def)
  finally show ?thesis using t'(1,2) by blast
qed

lemma heap_unique_used:
  assumes "heap_ok t d" "heap_ok u d" "used_blocks t d = used_blocks u d"
  shows "t = u"
proof (rule heap_unique [OF assms(1,2)])
  have one: "allocated v d i" if "allocated w d i" "used_blocks w d = used_blocks v d" for v w i
  proof -
    have "(node_block d i, d - level i) \<in> used_blocks v d" using that by (auto simp: used_blocks_def)
    then obtain j where "allocated v d j" "node_block d i = node_block d j" "d - level i = d - level j" by (auto simp: used_blocks_def)
    then show ?thesis using node_of_block [of i d j] that(1) by (auto simp: allocated_def)
  qed
  show "allocated t d i = allocated u d i" for i using one [of t i u] one [of u i t] assms(3) by auto
qed

interpretation buddy: block_heap heap_ok used_blocks "\<lambda>t. heap_avail (Some t)" heap_alloc heap_free
  by unfold_locales (fact heap_alloc_used heap_free_used used_blocks_disjoint heap_unique_used)+

text \<open>Every history of a heap: it grows from nothing, blocks are taken and given back.
  The last argument is the set of blocks handed out and not given back.\<close>

inductive heap_run :: "nat list \<Rightarrow> nat \<Rightarrow> (nat \<times> nat) set \<Rightarrow> bool" where
  start: "length raw = 2 \<Longrightarrow> heap_run (grow_tree raw [] 0) 1 {}"
| alloc: "heap_run t d B \<Longrightarrow> 0 < n \<Longrightarrow> heap_avail (Some t) n \<Longrightarrow> heap_alloc t d n = Some (b, t') \<Longrightarrow> heap_run t' d (insert (b, n) B)"
| free: "heap_run t d B \<Longrightarrow> (b, n) \<in> B \<Longrightarrow> heap_free t d b = Some t' \<Longrightarrow> heap_run t' d (B - {(b, n)})"
| grow: "heap_run t d B \<Longrightarrow> d < 16 \<Longrightarrow> length raw = 2 ^ Suc d \<Longrightarrow> heap_run (grow_tree raw t d) (Suc d) B"

lemma heap_run_ok: "heap_run t d B \<Longrightarrow> heap_ok t d \<and> used_blocks t d = B"
proof (induction rule: heap_run.induct)
  case (start raw)
  then show ?case using grow_tree_ok [of raw 0 "[]"] by (simp add: used_blocks_def allocated_def)
next
  case (alloc t d B n b t')
  then show ?case using buddy.alloc_cases [of t d n b t'] by auto
next
  case (free t d B b n t')
  then show ?case using buddy.free_cases [of t d b n t'] by auto
next
  case (grow t d B raw)
  then show ?case using grow_tree_ok [of raw d t] by simp
qed

text \<open>
  C20. The heap of the cache hands out disjoint blocks. In every history of growing, allocating
  and freeing, the blocks that are out lie within the data, aligned to their size and apart from
  each other; an allocation of a size that is available and the freeing of a block that is out
  always return; the new block is none of the others.
\<close>

theorem heap_blocks_disjoint:
  assumes "heap_run t d B"
  shows "(\<forall>(b, n) \<in> B. 0 < n \<and> 2 ^ (n - 1) dvd b \<and> b + 2 ^ (n - 1) \<le> 2 ^ (d - 1)) \<and>
    (\<forall>p \<in> B. \<forall>q \<in> B. p \<noteq> q \<longrightarrow> disjoint_blocks p q) \<and>
    (\<forall>n. 0 < n \<longrightarrow> heap_avail (Some t) n \<longrightarrow>
      (\<exists>b t'. heap_alloc t d n = Some (b, t') \<and> heap_run t' d (insert (b, n) B) \<and> (\<forall>q \<in> B. disjoint_blocks (b, n) q))) \<and>
    (\<forall>(b, n) \<in> B. \<exists>t'. heap_free t d b = Some t' \<and> heap_run t' d (B - {(b, n)}))"
proof (intro conjI allI impI)
  have ok: "heap_ok t d" and B: "used_blocks t d = B" using heap_run_ok [OF assms] by simp_all
  show "\<forall>(b, n) \<in> B. 0 < n \<and> 2 ^ (n - 1) dvd b \<and> b + 2 ^ (n - 1) \<le> 2 ^ (d - 1)"
    using used_blocks_aligned [OF ok] B by blast
  show "\<forall>p \<in> B. \<forall>q \<in> B. p \<noteq> q \<longrightarrow> disjoint_blocks p q" using buddy.used_disjoint [OF ok] B by blast
  show "\<exists>b t'. heap_alloc t d n = Some (b, t') \<and> heap_run t' d (insert (b, n) B) \<and> (\<forall>q \<in> B. disjoint_blocks (b, n) q)"
    if "0 < n" "heap_avail (Some t) n" for n
    using buddy.alloc_ok [OF ok that] buddy.alloc_apart [OF ok that] heap_run.alloc [OF assms that] B by blast
  show "\<forall>(b, n) \<in> B. \<exists>t'. heap_free t d b = Some t' \<and> heap_run t' d (B - {(b, n)})"
    using buddy.free_ok [OF ok] heap_run.free [OF assms] B by blast
qed

text \<open>
  The heap refuses an allocation only when it must: a block of size class \<open>n\<close> is available
  exactly when some aligned run of that size within the data meets no block that is out.
\<close>

theorem heap_avail_complete:
  assumes "heap_run t d B" "0 < n" "n \<le> d"
  shows "heap_avail (Some t) n \<longleftrightarrow>
    (\<exists>b. 2 ^ (n - 1) dvd b \<and> b + 2 ^ (n - 1) \<le> 2 ^ (d - 1) \<and> (\<forall>q \<in> B. disjoint_blocks (b, n) q))"
proof
  have ok: "heap_ok t d" and B: "used_blocks t d = B" using heap_run_ok [OF assms(1)] by simp_all
  assume av: "heap_avail (Some t) n"
  obtain b t' where a: "heap_alloc t d n = Some (b, t')" using buddy.alloc_ok [OF ok assms(2) av] by blast
  note new = buddy.alloc_cases [OF ok assms(2) av a]
  have "(b, n) \<in> used_blocks t' d" using new(2) by simp
  note al = used_blocks_aligned(3,4) [OF new(1) this]
  have "\<forall>q \<in> B. disjoint_blocks (b, n) q" using buddy.alloc_apart [OF ok assms(2) av a] B by simp
  with al show "\<exists>b. 2 ^ (n - 1) dvd b \<and> b + 2 ^ (n - 1) \<le> 2 ^ (d - 1) \<and> (\<forall>q \<in> B. disjoint_blocks (b, n) q)"
    by (intro exI conjI)
next
  have ok: "heap_ok t d" and B: "used_blocks t d = B" using heap_run_ok [OF assms(1)] by simp_all
  assume "\<exists>b. 2 ^ (n - 1) dvd b \<and> b + 2 ^ (n - 1) \<le> 2 ^ (d - 1) \<and> (\<forall>q \<in> B. disjoint_blocks (b, n) q)"
  then obtain b where b: "2 ^ (n - 1) dvd b" "b + 2 ^ (n - 1) \<le> 2 ^ (d - 1)" "\<forall>q \<in> B. disjoint_blocks (b, n) q" by blast
  have "n \<le> t ! 1" by (rule avail_of_free [OF ok assms(2,3) b(1,2)]) (use b(3) B in simp)
  then show "heap_avail (Some t) n" by (simp add: heap_avail_def)
qed

text \<open>
  Freeing undoes allocating: after any history, giving back a block just taken restores every
  byte of the tree, splits of larger blocks included.
\<close>

theorem heap_free_undoes_alloc:
  assumes "heap_run t d B" "0 < n" "heap_avail (Some t) n" "heap_alloc t d n = Some (b, t')"
  shows "heap_free t' d b = Some t"
  using buddy.free_alloc heap_run_ok [OF assms(1)] assms(2-4) by blast

text \<open>A heap of eight blocks with one block of size class 1 taken.\<close>

definition small_heap :: "nat list" where
  "small_heap = grow_tree (replicate 16 0) (grow_tree (replicate 8 0) (grow_tree (replicate 4 0) (grow_tree [0, 0] [] 0) 1) 2) 3"

lemma small_heap_run: "heap_run small_heap 4 {}"
proof -
  have "heap_run (grow_tree [0, 0] [] 0) 1 {}" by (rule heap_run.start) simp
  from heap_run.grow [OF this, of "replicate 4 0"]
  have "heap_run (grow_tree (replicate 4 0) (grow_tree [0, 0] [] 0) 1) 2 {}" by (simp add: numeral_2_eq_2)
  from heap_run.grow [OF this, of "replicate 8 0"]
  have "heap_run (grow_tree (replicate 8 0) (grow_tree (replicate 4 0) (grow_tree [0, 0] [] 0) 1) 2) 3 {}" by (simp add: numeral_3_eq_3)
  from heap_run.grow [OF this, of "replicate 16 0"] show ?thesis by (simp add: small_heap_def)
qed

lemma small_heap_eval: "small_heap = [5, 4, 3, 3, 2, 2, 2, 2, 1, 1, 1, 1, 1, 1, 1, 1]"
  unfolding small_heap_def by code_simp

lemma small_heap_alloc: "heap_alloc small_heap 4 1 = Some (0, [5, 3, 2, 3, 1, 2, 2, 2, 0, 1, 1, 1, 1, 1, 1, 1])"
  unfolding small_heap_eval by code_simp

lemma heap_blocks_disjoint_witness:
  "heap_avail (Some small_heap) 1 \<and> (\<exists>b t'. heap_alloc small_heap 4 1 = Some (b, t') \<and> heap_run t' 4 {(b, 1)})"
  using heap_blocks_disjoint [OF small_heap_run] by (auto simp: heap_avail_def small_heap_eval)

lemma heap_avail_complete_witness:
  "\<exists>b. (2 :: nat) ^ (3 - 1) dvd b \<and> b + 2 ^ (3 - 1) \<le> 2 ^ (4 - 1) \<and> (\<forall>q \<in> {}. disjoint_blocks (b, 3) q)"
  using heap_avail_complete [OF small_heap_run, of 3] by (simp add: heap_avail_def small_heap_eval)

lemma heap_free_undoes_alloc_witness:
  "heap_free [5, 3, 2, 3, 1, 2, 2, 2, 0, 1, 1, 1, 1, 1, 1, 1] 4 0 = Some small_heap"
  using heap_free_undoes_alloc [OF small_heap_run _ _ small_heap_alloc] by (simp add: heap_avail_def small_heap_eval)

end
