(* ===== verification/Khrn_Cache.thy ===== *)
theory Khrn_Cache
  imports Khrn_Heap Khrn_Hash Khrn_Map
begin

text \<open>
  circle/addon/vc4/interface/khronos/common/khrn_client_cache.c: the cache of vertex and index
  data that the client shares with the VideoCore. \<open>khrn_cache_lookup\<close> finds the data by its
  hash in the pointer map, or takes a block of the heap for it, growing the heap and then
  discarding the least recently used entries until one is available, and tells the server by
  remote calls. Pointers into \<open>cache->data\<close> are offsets here, so that \<open>relocate\<close> and the
  \<open>callback\<close> that \<open>grow\<close> runs over the map have nothing to change. The header of an
  entry (40 bytes: links, length, key, padding) is kept by its fields, its data as bytes of
  the memory; sizes are those of the 32-bit target. What the server answers and what
  \<open>khrn_platform_malloc\<close> returns are arguments.
\<close>

section \<open>State\<close>

text \<open>The address of a \<open>CACHE_LINK_T\<close>: \<open>cache->start\<close>, \<open>cache->end\<close>, or the entry at an offset.\<close>

datatype cache_link = LStart | LEnd | LEntry nat

text \<open>The remote calls made.\<close>

datatype cache_call = CacheCreate nat | CacheDelete nat | CacheGrow bool | CacheData nat "u8 list"

record kcache =
  c_tree :: "nat list option"
  c_data :: memory
  client_depth :: nat
  server_depth :: nat
  c_prev :: "cache_link \<Rightarrow> cache_link option"
  c_next :: "cache_link \<Rightarrow> cache_link option"
  c_len :: "nat \<Rightarrow> nat"
  c_key :: "nat \<Rightarrow> u32"
  c_map :: "nat gmap"
  c_sent :: "cache_call list"

text \<open>\<open>CACHE_LOG2_BLOCK_SIZE\<close> is 6, \<open>CACHE_MAX_DEPTH\<close> 16; \<open>sizeof(CACHE_ENTRY_T)\<close> and the
  offset of its data.\<close>

definition CACHE_MAX_DEPTH :: nat where "CACHE_MAX_DEPTH = 16"
definition ENTRY_SIZE :: nat where "ENTRY_SIZE = 44"
definition ENTRY_DATA :: nat where "ENTRY_DATA = 40"

section \<open>Links\<close>

definition link_insert :: "cache_link \<Rightarrow> cache_link \<Rightarrow> cache_link \<Rightarrow> kcache \<Rightarrow> kcache" where
  "link_insert link prev nxt c =
     c\<lparr>c_prev := (c_prev c)(link := Some prev, nxt := Some link),
       c_next := (c_next c)(link := Some nxt, prev := Some link)\<rparr>"

definition link_remove :: "cache_link \<Rightarrow> kcache \<Rightarrow> kcache" where
  "link_remove link c =
     (let n = the (c_next c link); p = the (c_prev c link)
      in c\<lparr>c_prev := (c_prev c)(n := Some p), c_next := (c_next c)(p := Some n)\<rparr>)"

section \<open>Remote calls\<close>

definition send_call :: "cache_call \<Rightarrow> kcache \<Rightarrow> kcache" where
  "send_call x c = c\<lparr>c_sent := c_sent c @ [x]\<rparr>"

text \<open>A chunk is what the merge buffer takes: \<open>MERGE_BUFFER_SIZE - CLIENT_MAKE_CURRENT_SIZE - 12 - 8\<close>.\<close>

definition CHUNK_MAX :: nat where "CHUNK_MAX = 4080 - 36 - 12 - 8"

function send_data :: "nat \<Rightarrow> nat \<Rightarrow> u8 list \<Rightarrow> kcache \<Rightarrow> kcache" where
  "send_data base off bytes c =
     (if bytes = [] then c
      else let chunk = min (length bytes) CHUNK_MAX
           in send_data base (off + chunk) (drop chunk bytes) (send_call (CacheData (base + off) (take chunk bytes)) c))"
  by auto
termination by (relation "measure (\<lambda>(base, off, bytes, c). length bytes)") (auto simp: CHUNK_MAX_def)

declare send_data.simps [simp del]

section \<open>The cache\<close>

definition cache_hash :: "memory \<Rightarrow> nat \<Rightarrow> nat \<Rightarrow> u32 \<Rightarrow> u32" where
  "cache_hash m k len sig =
     (let h = (if k mod 4 = 0 \<and> len mod 4 = 0 then khrn_hashword m k (int (len div 4)) 0
               else khrn_hashlittle m k (int len) 0)
      in (h AND NOT 0xf) OR sig)"

definition khrn_cache_init :: "map_alloc \<Rightarrow> kcache \<Rightarrow> bool \<times> kcache" where
  "khrn_cache_init alloc c =
     (let c = c\<lparr>c_tree := None, client_depth := 0, server_depth := 0,
                c_prev := (c_prev c)(LStart := None, LEnd := Some LStart),
                c_next := (c_next c)(LStart := Some LEnd, LEnd := None)\<rparr>;
          (ok, t) = khrn_map_init alloc 64 (c_map c)
      in (ok, c\<lparr>c_map := t\<rparr>))"

definition khrn_cache_term :: "kcache \<Rightarrow> kcache" where
  "khrn_cache_term c = c\<lparr>c_map := khrn_map_term (c_map c)\<rparr>"

definition discard :: "nat \<Rightarrow> kcache \<Rightarrow> kcache option" where
  "discard off c = do {
     t \<leftarrow> heap_free (the (c_tree c)) (client_depth c) (off div 2 ^ 6);
     let c = c\<lparr>c_tree := Some t\<rparr>;
     (_, t) \<leftarrow> khrn_map_delete (c_map c) (c_key c off);
     let c = link_remove (LEntry off) (c\<lparr>c_map := t\<rparr>);
     Some (send_call (CacheDelete off) c)
   }"

text \<open>What the environment does at a call of \<open>grow\<close>: the answer of the server, and what the two
  allocations return, with the bytes they happen to hold.\<close>

record grow_env =
  ge_server :: bool
  ge_tree :: "(nat \<Rightarrow> nat) option"
  ge_data :: "memory option"

definition grow_server :: "grow_env \<Rightarrow> kcache \<Rightarrow> bool \<times> kcache" where
  "grow_server e c =
     (if server_depth c = client_depth c
      then if server_depth c < CACHE_MAX_DEPTH
           then let c = send_call (CacheGrow (ge_server e)) c
                in if ge_server e then (True, c\<lparr>server_depth := server_depth c + 1\<rparr>) else (False, c)
           else (False, c)
      else (True, c))"

definition grow :: "grow_env \<Rightarrow> kcache \<Rightarrow> bool \<times> kcache" where
  "grow e c =
     (let (go, c) = grow_server e c
      in if \<not> go then (False, c)
         else case (ge_tree e, ge_data e) of
           (Some raw, Some fresh) \<Rightarrow>
             let d = client_depth c;
                 t = grow_tree (map raw [0..<2 ^ (d + 1)]) (case c_tree c of Some t \<Rightarrow> t | None \<Rightarrow> []) d
             in (True, c\<lparr>c_tree := Some t,
                   c_data := (\<lambda>a. if c_tree c \<noteq> None \<and> a < 2 ^ (d + 6 - 1) then c_data c a else fresh a),
                   client_depth := d + 1\<rparr>)
         | _ \<Rightarrow> (False, c))"

text \<open>The two loops of a miss. A call of \<open>grow\<close> that succeeds raises \<open>client_depth\<close> and one that
  fails ends the loop, so the depth tells the calls of one lookup apart.\<close>

partial_function (option) grow_loop :: "(nat \<Rightarrow> grow_env) \<Rightarrow> nat \<Rightarrow> kcache \<Rightarrow> kcache option" where
  "grow_loop env n c =
     (if \<not> heap_avail (c_tree c) n
      then (let (grown, c) = grow (env (client_depth c)) c in if grown then grow_loop env n c else Some c)
      else Some c)"

partial_function (option) evict_loop :: "nat \<Rightarrow> cache_link option \<Rightarrow> kcache \<Rightarrow> kcache option" where
  "evict_loop n link c =
     (case link of
        Some (LEntry off) \<Rightarrow>
          if heap_avail (c_tree c) n then Some c
          else do { c \<leftarrow> discard off c; evict_loop n (c_next c (LEntry off)) c }
      | Some LEnd \<Rightarrow> Some c
      | _ \<Rightarrow> None)"

definition block_class :: "nat \<Rightarrow> nat" where
  "block_class len = nat (max (msb (of_nat (len + ENTRY_SIZE - 1)) + 2 - 6) 1)"

definition entry_matches :: "nat \<Rightarrow> memory \<Rightarrow> nat \<Rightarrow> nat \<Rightarrow> kcache \<Rightarrow> bool" where
  "entry_matches off m k len c \<longleftrightarrow>
     c_len c off \<ge> len \<and> (\<forall>i \<in> set [0..<len]. c_data c (off + ENTRY_DATA + i) = m (k + i))"

definition cache_fill :: "map_alloc \<Rightarrow> memory \<Rightarrow> nat \<Rightarrow> nat \<Rightarrow> u32 \<Rightarrow> nat \<Rightarrow> kcache \<Rightarrow> (int \<times> kcache) option" where
  "cache_fill alloc m k len key n c = do {
     (block, t) \<leftarrow> heap_alloc (the (c_tree c)) (client_depth c) n;
     let off = block * 2 ^ 6;
     let c = c\<lparr>c_tree := Some t, c_len := (c_len c)(off := len), c_key := (c_key c)(off := key),
               c_data := memcpy (off + ENTRY_DATA) (\<lambda>i. m (k + i)) len (c_data c)\<rparr>;
     (ok, t) \<leftarrow> khrn_map_insert alloc (c_map c) key off;
     let c = c\<lparr>c_map := t\<rparr>;
     if \<not> ok
     then do { t \<leftarrow> heap_free (the (c_tree c)) (client_depth c) block; Some (- 1, c\<lparr>c_tree := Some t\<rparr>) }
     else let c = link_insert (LEntry off) (the (c_prev c LEnd)) LEnd c;
              c = send_call (CacheCreate off) c;
              c = send_data (off + ENTRY_DATA) 0 (map (\<lambda>i. m (k + i)) [0..<len]) c
          in Some (int off, c)
   }"

definition cache_miss ::
  "(nat \<Rightarrow> grow_env) \<Rightarrow> map_alloc \<Rightarrow> memory \<Rightarrow> nat \<Rightarrow> nat \<Rightarrow> u32 \<Rightarrow> kcache \<Rightarrow> (int \<times> kcache) option" where
  "cache_miss env alloc m k len key c = do {
     let n = block_class len;
     c \<leftarrow> grow_loop env n c;
     c \<leftarrow> evict_loop n (c_next c LStart) c;
     if \<not> heap_avail (c_tree c) n then Some (- 1, c) else cache_fill alloc m k len key n c
   }"

text \<open>The offset of the data's entry, or -1. The recording mode of the simulator
  (\<open>SIMPENROSE_RECORD_OUTPUT\<close>) is left out.\<close>

definition khrn_cache_lookup ::
  "(nat \<Rightarrow> grow_env) \<Rightarrow> map_alloc \<Rightarrow> memory \<Rightarrow> nat \<Rightarrow> nat \<Rightarrow> u32 \<Rightarrow> kcache \<Rightarrow> (int \<times> kcache) option" where
  "khrn_cache_lookup env alloc m k len sig c = do {
     let key = cache_hash m k len sig;
     entry \<leftarrow> khrn_map_find (c_map c) key;
     case entry of
       Some off \<Rightarrow>
         if entry_matches off m k len c
         then let c = link_remove (LEntry off) c
              in Some (int off, link_insert (LEntry off) (the (c_prev c LEnd)) LEnd c)
         else do { c \<leftarrow> discard off c; cache_miss env alloc m k len key c }
     | None \<Rightarrow> cache_miss env alloc m k len key c
   }"

definition khrn_cache_get_entries :: "kcache \<Rightarrow> nat" where
  "khrn_cache_get_entries c = khrn_map_get_count (c_map c)"

declare grow_loop.simps [code] evict_loop.simps [code] get_entry_from.simps [code] get_free_entry_from.simps [code]

section \<open>The discard queue\<close>

text \<open>The links hold a list of entries, the least recently used one first.\<close>

fun linked :: "kcache \<Rightarrow> cache_link list \<Rightarrow> bool" where
  "linked c (x # y # zs) \<longleftrightarrow> c_next c x = Some y \<and> c_prev c y = Some x \<and> linked c (y # zs)"
| "linked c _ \<longleftrightarrow> True"

definition queue_path :: "nat list \<Rightarrow> cache_link list" where
  "queue_path offs = LStart # map LEntry offs @ [LEnd]"

lemma linked_join: "linked c (xs @ y # zs) \<longleftrightarrow> linked c (xs @ [y]) \<and> linked c (y # zs)"
proof (induction xs)
  case (Cons x xs)
  then show ?case by (cases xs) auto
qed simp

lemma linked_cong:
  assumes "\<And>x. x \<in> set (butlast xs) \<Longrightarrow> c_next c x = c_next c' x" "\<And>x. x \<in> set (tl xs) \<Longrightarrow> c_prev c x = c_prev c' x"
  shows "linked c xs = linked c' xs"
  using assms
proof (induction xs rule: induct_list012)
  case (3 x y zs)
  have "linked c (y # zs) = linked c' (y # zs)"
  proof (rule "3.IH"(2))
    show "c_next c z = c_next c' z" if "z \<in> set (butlast (y # zs))" for z
      using "3.prems"(1) [of z] that by simp
    show "c_prev c z = c_prev c' z" if "z \<in> set (tl (y # zs))" for z
      using "3.prems"(2) [of z] that by simp
  qed
  then show ?case using "3.prems"(1) [of x] "3.prems"(2) [of y] by simp
qed simp_all

lemma linked_fields: "c_next c' = c_next c \<Longrightarrow> c_prev c' = c_prev c \<Longrightarrow> linked c' xs = linked c xs"
  by (rule linked_cong) simp_all

lemma link_remove_path:
  assumes "linked c (xs @ [p, l, n] @ ys)" "distinct (xs @ [p, l, n] @ ys)"
  shows "linked (link_remove l c) (xs @ [p, n] @ ys)"
proof -
  have c: "linked c (xs @ [p])" "c_next c p = Some l" "c_prev c l = Some p" "c_next c l = Some n" "c_prev c n = Some l" "linked c (n # ys)"
    using assms(1) linked_join [of c xs p "l # n # ys"] by simp_all
  let ?c = "link_remove l c"
  have r: "c_next ?c = (c_next c)(p := Some n)" "c_prev ?c = (c_prev c)(n := Some p)" using c by (simp_all add: link_remove_def Let_def)
  have "linked ?c (xs @ [p]) = linked c (xs @ [p])"
    by (rule linked_cong) (use assms(2) in \<open>cases xs; auto simp: r butlast_append\<close>)+
  then have "linked ?c (xs @ [p])" using c(1) by simp
  moreover have "linked ?c (n # ys)"
  proof -
    have "linked ?c (n # ys) = linked c (n # ys)"
      by (rule linked_cong) (use assms(2) in \<open>auto simp: r dest: in_set_butlastD split: if_splits\<close>)
    then show ?thesis using c(6) by simp
  qed
  moreover have "c_next ?c p = Some n" "c_prev ?c n = Some p" by (simp_all add: r)
  ultimately show ?thesis using linked_join [of ?c xs p "n # ys"] by simp
qed

lemma queue_remove:
  assumes "linked c (queue_path offs)" "distinct offs" "off \<in> set offs"
  shows "linked (link_remove (LEntry off) c) (queue_path (remove1 off offs))"
    "c_next (link_remove (LEntry off) c) (LEntry off) = c_next c (LEntry off)"
proof -
  obtain us vs where offs: "offs = us @ off # vs" by (metis assms(3) split_list)
  have no: "off \<notin> set us" using offs assms(2) by simp
  obtain xs p where p: "LStart # map LEntry us = xs @ [p]" by (metis list.discI rev_exhaust)
  obtain n ys where n: "map LEntry vs @ [LEnd] = n # ys" by (metis Nil_is_append_conv list.exhaust list.distinct(1))
  have path: "queue_path offs = xs @ [p, LEntry off, n] @ ys" using p n by (simp add: queue_path_def offs)
  have "distinct (queue_path offs)" using assms(2) by (auto simp: queue_path_def distinct_map inj_on_def)
  then have d: "distinct (xs @ [p, LEntry off, n] @ ys)" by (simp only: path)
  have "queue_path (remove1 off offs) = xs @ [p, n] @ ys"
    using p n no by (simp add: queue_path_def offs remove1_append)
  then show "linked (link_remove (LEntry off) c) (queue_path (remove1 off offs))"
    using link_remove_path [OF _ d] assms(1) path by simp
  have "c_prev c (LEntry off) = Some p" using assms(1) path linked_join [of c xs p "LEntry off # n # ys"] by simp
  then show "c_next (link_remove (LEntry off) c) (LEntry off) = c_next c (LEntry off)"
    using d by (auto simp: link_remove_def Let_def)
qed

lemma queue_insert:
  assumes "linked c (queue_path offs)" "off \<notin> set offs" "distinct offs"
  shows "linked (link_insert (LEntry off) (the (c_prev c LEnd)) LEnd c) (queue_path (offs @ [off]))"
proof -
  obtain xs p where p: "LStart # map LEntry offs = xs @ [p]" by (metis list.discI rev_exhaust)
  have path: "queue_path offs = xs @ [p, LEnd]" "queue_path (offs @ [off]) = xs @ [p, LEntry off, LEnd]"
    using p by (simp_all add: queue_path_def)
  have c: "linked c (xs @ [p])" "c_prev c LEnd = Some p" using assms(1) path linked_join [of c xs p "[LEnd]"] by simp_all
  let ?c = "link_insert (LEntry off) (the (c_prev c LEnd)) LEnd c"
  have r: "c_next ?c = (c_next c)(LEntry off := Some LEnd, p := Some (LEntry off))" "c_prev ?c = (c_prev c)(LEntry off := Some p, LEnd := Some (LEntry off))"
    using c by (simp_all add: link_insert_def)
  have mem: "set xs \<union> {p} = insert LStart (LEntry ` set offs)" using arg_cong [OF p, of set] by auto
  have d: "distinct (xs @ [p])" unfolding p [symmetric] using assms(3) by (auto simp: distinct_map inj_on_def)
  have e: "p \<noteq> LEnd" "LEnd \<notin> set xs" "p \<noteq> LEntry off" "LEntry off \<notin> set xs" using mem assms(2) by blast+
  have "linked ?c (xs @ [p]) = linked c (xs @ [p])"
    by (rule linked_cong) (use d e in \<open>auto simp: r butlast_append dest: in_set_butlastD list.set_sel(2) [rotated]\<close>)
  moreover have "c_next ?c p = Some (LEntry off)" "c_prev ?c (LEntry off) = Some p" "c_next ?c (LEntry off) = Some LEnd" "c_prev ?c LEnd = Some (LEntry off)"
    using e by (auto simp: r)
  ultimately show ?thesis using c(1) linked_join [of ?c xs p "[LEntry off, LEnd]"] by (simp add: path)
qed

end
