(* ===== verification/Khrn_Lookup.thy ===== *)
theory Khrn_Lookup
  imports Khrn_Cache
begin

text \<open>
  What \<open>khrn_cache_lookup\<close> (Khrn_Cache) promises. The invariant \<open>cache_inv\<close> ties the four parts
  of a cache together: the blocks of the heap, the links of the discard queue, the pointer map
  and the entries are the same set. Every operation keeps it, by the laws of the heap
  (\<open>block_heap\<close>) and of the map (\<open>assoc_store\<close>); \<open>cache_run\<close> collects every history of lookups.
\<close>

section \<open>The invariant\<close>

text \<open>The last byte sent to the server for an address.\<close>

fun last_sent :: "cache_call list \<Rightarrow> nat \<Rightarrow> u8 option" where
  "last_sent [] a = None"
| "last_sent (x # xs) a =
     (case last_sent xs a of
        Some b \<Rightarrow> Some b
      | None \<Rightarrow> (case x of CacheData base bs \<Rightarrow> if base \<le> a \<and> a < base + length bs then Some (bs ! (a - base)) else None | _ \<Rightarrow> None))"

definition cache_blocks :: "kcache \<Rightarrow> (nat \<times> nat) set" where
  "cache_blocks c = (case c_tree c of None \<Rightarrow> {} | Some t \<Rightarrow> used_blocks t (client_depth c))"

definition heap_good :: "kcache \<Rightarrow> bool" where
  "heap_good c \<longleftrightarrow> client_depth c \<le> server_depth c \<and> server_depth c \<le> CACHE_MAX_DEPTH \<and>
     (case c_tree c of None \<Rightarrow> client_depth c = 0 | Some t \<Rightarrow> heap_ok t (client_depth c))"

definition entry_block :: "kcache \<Rightarrow> nat \<Rightarrow> nat \<times> nat" where
  "entry_block c off = (off div 2 ^ 6, block_class (c_len c off))"

definition mirrored :: "kcache \<Rightarrow> nat \<Rightarrow> bool" where
  "mirrored c off \<longleftrightarrow> (\<forall>i < c_len c off. last_sent (c_sent c) (off + ENTRY_DATA + i) = Some (c_data c (off + ENTRY_DATA + i)))"

definition cache_inv :: "kcache \<Rightarrow> nat list \<Rightarrow> bool" where
  "cache_inv c offs \<longleftrightarrow> heap_good c \<and> distinct offs \<and> linked c (queue_path offs) \<and> gmap_good (\<lambda>_. 0) (c_map c) \<and>
     (\<forall>key off. gmap_map (c_map c) key = Some off \<longleftrightarrow> off \<in> set offs \<and> c_key c off = key) \<and>
     cache_blocks c = entry_block c ` set offs \<and>
     (\<forall>off \<in> set offs. 2 ^ 6 dvd off \<and> c_len c off < 2 ^ 31 \<and> mirrored c off)"

lemma block_class_fits:
  assumes "len < 2 ^ 31"
  shows "ENTRY_DATA + len < 2 ^ (block_class len + 5)" "0 < block_class len"
proof -
  let ?x = "of_nat (len + ENTRY_SIZE - 1) :: u32"
  have small: "unat (of_nat j :: u32) = j" if "j < 2 ^ 32" for j
    using that by (simp add: unsigned_of_nat take_bit_nat_eq_self)
  have "len + ENTRY_SIZE - 1 = len + 43" "len + 43 < 2 ^ 32" using assms by (simp_all add: ENTRY_SIZE_def)
  then have u: "unat ?x = len + 43" using small by metis
  then have nz: "?x \<noteq> 0" by (metis add_is_0 unat_0 zero_neq_numeral)
  note b = msb_bounds [OF nz, unfolded u]
  have "5 \<le> nat (msb ?x)"
  proof (rule ccontr)
    assume "\<not> 5 \<le> nat (msb ?x)"
    then have "(2 :: nat) ^ Suc (nat (msb ?x)) \<le> 2 ^ 5" by (intro power_increasing) auto
    then show False using b by simp
  qed
  then have M: "5 \<le> msb ?x" by linarith
  then have "block_class len = nat (msb ?x - 4)" unfolding block_class_def by (simp add: max_def)
  then have s: "block_class len + 5 = Suc (nat (msb ?x))" using M by linarith
  show "ENTRY_DATA + len < 2 ^ (block_class len + 5)" unfolding s ENTRY_DATA_def using b by linarith
  show "0 < block_class len" by (simp add: block_class_def)
qed

lemma cache_invD:
  assumes "cache_inv c offs"
  shows "heap_good c" "distinct offs" "linked c (queue_path offs)" "gmap_good (\<lambda>_. 0) (c_map c)"
    "gmap_map (c_map c) key = Some off \<longleftrightarrow> off \<in> set offs \<and> c_key c off = key"
    "cache_blocks c = entry_block c ` set offs"
    "off \<in> set offs \<Longrightarrow> 2 ^ 6 dvd off" "off \<in> set offs \<Longrightarrow> c_len c off < 2 ^ 31" "off \<in> set offs \<Longrightarrow> mirrored c off"
  using assms by (simp_all add: cache_inv_def)

text \<open>The data of an entry, within its block and away from that of the others.\<close>

definition entry_bytes :: "kcache \<Rightarrow> nat \<Rightarrow> nat set" where
  "entry_bytes c off = {off + ENTRY_DATA ..< off + ENTRY_DATA + c_len c off}"

lemma entry_in_block:
  assumes "len < 2 ^ 31" "off = b * 2 ^ 6" "off + ENTRY_DATA \<le> a" "a < off + ENTRY_DATA + len"
  shows "b * 2 ^ 6 \<le> a \<and> a < (b + 2 ^ (block_class len - 1)) * 2 ^ 6"
proof -
  note f = block_class_fits [OF assms(1)]
  have "(2 :: nat) ^ (block_class len + 5) = 2 ^ (block_class len - 1) * 2 ^ 6"
  proof -
    have "block_class len + 5 = (block_class len - 1) + 6" using f(2) by simp
    then show ?thesis by (simp only: power_add)
  qed
  then show ?thesis using f(1) assms(2-4) by (simp add: add_mult_distrib)
qed

lemma blocks_apart:
  fixes a b b' x y :: nat
  assumes "disjoint_blocks (b, n) (b', n')" "b * 2 ^ 6 \<le> a" "a < (b + 2 ^ (n - 1)) * 2 ^ 6" "b' * 2 ^ 6 \<le> a" "a < (b' + 2 ^ (n' - 1)) * 2 ^ 6"
  shows False
proof -
  define x where "x = a div 2 ^ 6"
  have "b \<le> x" "x < b + 2 ^ (n - 1)" "b' \<le> x" "x < b' + 2 ^ (n' - 1)"
    using assms(2-5) by (simp_all add: x_def less_eq_div_iff_mult_less_eq div_less_iff_less_mult)
  then show False using assms(1) by (auto simp: disjoint_blocks_def)
qed

lemma heap_good_blocks:
  assumes "heap_good c" "p \<in> cache_blocks c"
  obtains t where "c_tree c = Some t" "heap_ok t (client_depth c)" "cache_blocks c = used_blocks t (client_depth c)" "p \<in> used_blocks t (client_depth c)"
  using assms by (auto simp: heap_good_def cache_blocks_def split: option.splits)

lemma entry_block_off: "2 ^ 6 dvd off \<Longrightarrow> off = fst (entry_block c off) * 2 ^ 6"
  by (simp add: entry_block_def)

lemma entries_apart:
  assumes inv: "cache_inv c offs" and o: "off \<in> set offs" "off' \<in> set offs" "off \<noteq> off'"
  shows "entry_bytes c off \<inter> entry_bytes c off' = {}"
proof (rule ccontr)
  assume "entry_bytes c off \<inter> entry_bytes c off' \<noteq> {}"
  then obtain a where a: "a \<in> entry_bytes c off" "a \<in> entry_bytes c off'" by blast
  note d = cache_invD [OF inv]
  have e: "off = off div 2 ^ 6 * 2 ^ 6" "off' = off' div 2 ^ 6 * 2 ^ 6" using d(7) o by auto
  have mem: "entry_block c off \<in> cache_blocks c" "entry_block c off' \<in> cache_blocks c" using d(6) o by auto
  obtain t where t: "heap_ok t (client_depth c)" "cache_blocks c = used_blocks t (client_depth c)"
    using heap_good_blocks [OF d(1) mem(1)] by metis
  have "entry_block c off \<noteq> entry_block c off'" using e o(3) by (auto simp: entry_block_def)
  then have "disjoint_blocks (entry_block c off) (entry_block c off')"
    using buddy.used_disjoint [OF t(1)] mem unfolding t(2) by blast
  then show False
    using blocks_apart entry_in_block [OF d(8) [OF o(1)] e(1), of a] entry_in_block [OF d(8) [OF o(2)] e(2), of a] a
    unfolding entry_block_def entry_bytes_def by (metis atLeastLessThan_iff)
qed

section \<open>The operations keep the invariant\<close>

lemma last_sent_append:
  "last_sent (xs @ ys) a = (case last_sent ys a of Some b \<Rightarrow> Some b | None \<Rightarrow> last_sent xs a)"
  by (induction xs) (auto split: option.splits cache_call.splits)

text \<open>What is left of the entries: their fields and their data.\<close>

definition kept :: "kcache \<Rightarrow> kcache \<Rightarrow> nat list \<Rightarrow> bool" where
  "kept c c' offs \<longleftrightarrow> (\<forall>off \<in> set offs. c_len c' off = c_len c off \<and> c_key c' off = c_key c off \<and>
     (\<forall>a \<in> entry_bytes c off. c_data c' a = c_data c a))"

lemma kept_refl [simp]: "kept c c offs"
  by (simp add: kept_def)

lemma kept_trans: "kept c c' offs \<Longrightarrow> kept c' c'' offs' \<Longrightarrow> set offs' \<subseteq> set offs \<Longrightarrow> kept c c'' offs'"
  unfolding kept_def entry_bytes_def by (metis (no_types, lifting) subsetD)

lemma kept_subset: "kept c c' offs \<Longrightarrow> set offs' \<subseteq> set offs \<Longrightarrow> kept c c' offs'"
  unfolding kept_def by blast

lemma mirrored_cong:
  assumes "mirrored c off" "c_len c' off = c_len c off" "\<And>a. a \<in> entry_bytes c off \<Longrightarrow> c_data c' a = c_data c a"
    "\<And>a. a \<in> entry_bytes c off \<Longrightarrow> last_sent (c_sent c') a = last_sent (c_sent c) a"
  shows "mirrored c' off"
  using assms by (simp add: mirrored_def entry_bytes_def)

lemma queue_fields:
  "heap_good c' = heap_good c" "cache_blocks c' = cache_blocks c" if "c_tree c' = c_tree c" "client_depth c' = client_depth c" "server_depth c' = server_depth c"
  using that by (simp_all add: heap_good_def cache_blocks_def split: option.splits)

lemma entry_block_inj: "\<forall>off \<in> A. 2 ^ 6 dvd off \<Longrightarrow> inj_on (entry_block c) A"
  by (rule inj_onI) (metis entry_block_off)

lemma entry_inside:
  assumes "cache_inv c offs" "off \<in> set offs"
  obtains t where "c_tree c = Some t" "heap_ok t (client_depth c)" "cache_blocks c = used_blocks t (client_depth c)"
    "entry_block c off \<in> used_blocks t (client_depth c)" "off + ENTRY_DATA + c_len c off < 2 ^ (client_depth c + 5)"
proof -
  note d = cache_invD [OF assms(1)]
  have "entry_block c off \<in> cache_blocks c" using d(6) assms(2) by simp
  then obtain t where t: "c_tree c = Some t" "heap_ok t (client_depth c)" "cache_blocks c = used_blocks t (client_depth c)"
    "entry_block c off \<in> used_blocks t (client_depth c)"
    using heap_good_blocks [OF d(1)] by metis
  let ?n = "block_class (c_len c off)" and ?b = "off div 2 ^ 6"
  have n: "0 < ?n" "?b + 2 ^ (?n - 1) \<le> 2 ^ (client_depth c - 1)" and dp: "0 < client_depth c"
    using used_blocks_aligned [OF t(2), of ?b ?n] t(2,4) by (simp_all add: entry_block_def heap_ok_def)
  have "(?b + 2 ^ (?n - 1)) * 2 ^ 6 \<le> 2 ^ (client_depth c - 1) * 2 ^ 6" using n(2) by (rule mult_le_mono1)
  moreover have "?n - 1 + 6 = ?n + 5" "client_depth c - 1 + 6 = client_depth c + 5" using n(1) dp by simp_all
  ultimately have "?b * 2 ^ 6 + 2 ^ (?n + 5) \<le> 2 ^ (client_depth c + 5)"
    by (simp only: add_mult_distrib power_add [symmetric])
  moreover have "?b * 2 ^ 6 = off" using d(7) [OF assms(2)] by simp
  ultimately have "off + ENTRY_DATA + c_len c off < 2 ^ (client_depth c + 5)"
    using block_class_fits(1) [OF d(8) [OF assms(2)]] by linarith
  with t show thesis using that by blast
qed

lemma discard_ok:
  assumes inv: "cache_inv c offs" and off: "off \<in> set offs"
  shows "\<exists>c'. discard off c = Some c' \<and> cache_inv c' (remove1 off offs) \<and> kept c c' offs \<and>
    c_next c' (LEntry off) = c_next c (LEntry off) \<and> client_depth c' = client_depth c"
proof -
  note d = cache_invD [OF inv]
  obtain t where t: "c_tree c = Some t" "heap_ok t (client_depth c)" "cache_blocks c = used_blocks t (client_depth c)"
    "entry_block c off \<in> used_blocks t (client_depth c)" by (rule entry_inside [OF inv off])
  obtain t' where t': "heap_free t (client_depth c) (off div 2 ^ 6) = Some t'" "heap_ok t' (client_depth c)"
    "used_blocks t' (client_depth c) = used_blocks t (client_depth c) - {entry_block c off}"
    using buddy.free_ok [OF t(2), of "off div 2 ^ 6" "block_class (c_len c off)"] t(4) by (auto simp: entry_block_def)
  obtain b g where g: "khrn_map_delete (c_map c) (c_key c off) = Some (b, g)" "gmap_good (\<lambda>_. 0) g"
    "gmap_map g = (gmap_map (c_map c))(c_key c off := None)"
    using kmap.del_law [OF d(4)] by blast
  define c1 where "c1 = c\<lparr>c_tree := Some t', c_map := g\<rparr>"
  define c' where "c' = send_call (CacheDelete off) (link_remove (LEntry off) c1)"
  have ev: "discard off c = Some c'" by (simp add: discard_def t(1) t'(1) [simplified] g(1) c'_def c1_def)
  have f: "c_tree c' = Some t'" "c_map c' = g" "c_data c' = c_data c" "c_len c' = c_len c" "c_key c' = c_key c"
    "client_depth c' = client_depth c" "server_depth c' = server_depth c" "c_sent c' = c_sent c @ [CacheDelete off]"
    by (simp_all add: c'_def c1_def send_call_def link_remove_def Let_def)
  have "linked c1 (queue_path offs)" using d(3) linked_fields [of c1 c] by (simp add: c1_def)
  note q = queue_remove [OF this d(2) off]
  have nx: "c_next c' (LEntry off) = c_next c (LEntry off)" using q(2) by (simp add: c'_def send_call_def c1_def)
  have lk: "linked c' (queue_path (remove1 off offs))" using q(1) linked_fields [of c' "link_remove (LEntry off) c1"] by (simp add: c'_def send_call_def)
  have rest: "set (remove1 off offs) = set offs - {off}" using d(2) by (rule set_remove1_eq)
  have inj: "inj_on (entry_block c) (set offs)" using d(7) by (intro entry_block_inj) blast
  have blk: "cache_blocks c' = entry_block c' ` (set offs - {off})"
  proof -
    have "cache_blocks c' = cache_blocks c - {entry_block c off}" using t'(3) t(3) by (simp add: cache_blocks_def f)
    also have "\<dots> = entry_block c ` (set offs - {off})"
      unfolding d(6) using inj_on_image_set_diff [OF inj, of "set offs" "{off}"] off by simp
    finally show ?thesis by (simp add: entry_block_def [abs_def] f)
  qed
  have mir: "mirrored c' o'" if "o' \<in> set offs" for o'
    by (rule mirrored_cong [OF d(9) [OF that]]) (simp_all add: f last_sent_append)
  have "cache_inv c' (remove1 off offs)"
    unfolding cache_inv_def rest
  proof (intro conjI allI ballI)
    show "heap_good c'" using d(1) t'(2) by (simp add: heap_good_def f)
    show "distinct (remove1 off offs)" using d(2) by simp
    show "linked c' (queue_path (remove1 off offs))" by (rule lk)
    show "gmap_good (\<lambda>_. 0) (c_map c')" using g(2) by (simp add: f)
    show "gmap_map (c_map c') key = Some o' \<longleftrightarrow> o' \<in> set offs - {off} \<and> c_key c' o' = key" for key o'
    proof -
      have "gmap_map (c_map c) (c_key c off) = Some off" using d(5) off by blast
      then show ?thesis using d(5) [of key o'] by (auto simp: f g(3))
    qed
    show "cache_blocks c' = entry_block c' ` (set offs - {off})" by (rule blk)
    fix o' assume "o' \<in> set offs - {off}"
    then show "2 ^ 6 dvd o'" "c_len c' o' < 2 ^ 31" "mirrored c' o'" using d(7,8) mir f(4) by auto
  qed
  then show ?thesis using ev nx f by (auto simp: kept_def)
qed

lemma grow_server_cases:
  assumes "grow_server e c = (b, c')"
  shows "\<exists>calls sd. c' = c\<lparr>c_sent := c_sent c @ calls, server_depth := sd\<rparr> \<and> (\<forall>a. last_sent calls a = None) \<and>
    (client_depth c \<le> server_depth c \<longrightarrow> server_depth c \<le> CACHE_MAX_DEPTH \<longrightarrow>
      sd \<le> CACHE_MAX_DEPTH \<and> server_depth c \<le> sd \<and> (b \<longrightarrow> client_depth c < sd))"
proof (cases "server_depth c = client_depth c \<and> server_depth c < CACHE_MAX_DEPTH")
  case True
  then show ?thesis using assms
    by (auto simp: grow_server_def send_call_def Let_def split: if_splits
        intro!: exI [of _ "[CacheGrow (ge_server e)]"] exI [of _ "server_depth c'"])
next
  case False
  then show ?thesis using assms
    by (auto simp: grow_server_def split: if_splits intro!: exI [of _ "[]"] exI [of _ "server_depth c"])
qed

lemma grow_ok:
  assumes inv: "cache_inv c offs" and g: "grow e c = (b, c')"
  shows "cache_inv c' offs" "kept c c' offs" "b \<Longrightarrow> client_depth c' = Suc (client_depth c) \<and> client_depth c' \<le> CACHE_MAX_DEPTH"
proof -
  note d = cache_invD [OF inv]
  obtain go s where s: "grow_server e c = (go, s)" by fastforce
  obtain calls sd where sv: "s = c\<lparr>c_sent := c_sent c @ calls, server_depth := sd\<rparr>" "\<forall>a. last_sent calls a = None"
    "sd \<le> CACHE_MAX_DEPTH" "server_depth c \<le> sd" "go \<longrightarrow> client_depth c < sd"
    using grow_server_cases [OF s] d(1) by (auto simp: heap_good_def)
  have keep: "cache_inv c2 offs \<and> kept c c2 offs"
    if f: "c_prev c2 = c_prev c" "c_next c2 = c_next c" "c_map c2 = c_map c" "c_len c2 = c_len c" "c_key c2 = c_key c"
      "c_sent c2 = c_sent c @ calls" and h: "heap_good c2" "cache_blocks c2 = cache_blocks c"
      and da: "\<And>off a. off \<in> set offs \<Longrightarrow> a \<in> entry_bytes c off \<Longrightarrow> c_data c2 a = c_data c a" for c2
  proof
    have "mirrored c2 off" if "off \<in> set offs" for off
      by (rule mirrored_cong [OF d(9) [OF that]]) (use f da [OF that] sv(2) in \<open>simp_all add: last_sent_append\<close>)
    then show "cache_inv c2 offs"
      using d h f linked_fields [of c2 c] by (simp add: cache_inv_def entry_block_def [abs_def])
    show "kept c c2 offs" using f da by (simp add: kept_def)
  qed
  have same: "cache_inv s offs \<and> kept c s offs"
    by (rule keep) (use d(1) sv in \<open>auto simp: heap_good_def cache_blocks_def split: option.splits\<close>)
  show "cache_inv c' offs" "kept c c' offs" "b \<Longrightarrow> client_depth c' = Suc (client_depth c) \<and> client_depth c' \<le> CACHE_MAX_DEPTH"
  proof -
    have "cache_inv c' offs \<and> kept c c' offs \<and> (b \<longrightarrow> client_depth c' = Suc (client_depth c) \<and> client_depth c' \<le> CACHE_MAX_DEPTH)"
    proof (cases "go \<and> ge_tree e \<noteq> None \<and> ge_data e \<noteq> None")
      case False
      then have "\<not> b" "c' = s" using g s by (auto simp: grow_def split: option.splits)
      then show ?thesis using same by simp
    next
      case True
      then obtain raw fresh where e: "ge_tree e = Some raw" "ge_data e = Some fresh" by auto
      let ?d = "client_depth c"
      let ?old = "case c_tree c of Some t \<Rightarrow> t | None \<Rightarrow> []"
      let ?t = "grow_tree (map raw [0..<2 ^ (?d + 1)]) ?old ?d"
      have c': "b" "c' = s\<lparr>c_tree := Some ?t, c_data := (\<lambda>a. if c_tree c \<noteq> None \<and> a < 2 ^ (?d + 6 - 1) then c_data s a else fresh a),
          client_depth := ?d + 1\<rparr>"
        using g s e True sv(1) by (auto simp: grow_def Let_def)
      have old: "0 < ?d \<Longrightarrow> heap_ok ?old ?d" "?d < 32"
        using d(1) by (auto simp: heap_good_def CACHE_MAX_DEPTH_def split: option.splits)
      have "length (map raw [0..<2 ^ (?d + 1)]) = 2 ^ Suc ?d" by simp
      note t = grow_tree_ok [OF this old]
      have lt: "?d < sd" using sv(5) True by simp
      have "cache_inv c' offs \<and> kept c c' offs"
      proof (rule keep)
        show "heap_good c'" using t lt sv(3) by (simp add: c'(2) sv(1) heap_good_def)
        have "used_blocks ?old ?d = cache_blocks c"
          using d(1) by (auto simp: cache_blocks_def heap_good_def used_blocks_def allocated_def split: option.splits)
        then show "cache_blocks c' = cache_blocks c" using t by (simp add: cache_blocks_def c'(2) sv(1))
        fix off a assume o: "off \<in> set offs" "a \<in> entry_bytes c off"
        obtain u where "c_tree c = Some u" "off + ENTRY_DATA + c_len c off < 2 ^ (?d + 5)" by (rule entry_inside [OF inv o(1)])
        then show "c_data c' a = c_data c a" using o(2) by (simp add: c'(2) sv(1) entry_bytes_def add.commute [of 5])
      qed (simp_all add: c'(2) sv(1))
      then show ?thesis using lt sv(3) by (simp add: c'(2) sv(1))
    qed
    then show "cache_inv c' offs" "kept c c' offs" "b \<Longrightarrow> client_depth c' = Suc (client_depth c) \<and> client_depth c' \<le> CACHE_MAX_DEPTH" by blast+
  qed
qed

lemma grow_loop_ok:
  assumes "cache_inv c offs"
  shows "\<exists>c'. grow_loop env n c = Some c' \<and> cache_inv c' offs \<and> kept c c' offs"
  using assms
proof (induction "CACHE_MAX_DEPTH - client_depth c" arbitrary: c rule: less_induct)
  case less
  show ?case
  proof (cases "heap_avail (c_tree c) n")
    case True
    then show ?thesis using less.prems by (subst grow_loop.simps) simp
  next
    case False
    obtain b c1 where g: "grow (env (client_depth c)) c = (b, c1)" by fastforce
    note ok = grow_ok [OF less.prems g]
    show ?thesis
    proof (cases b)
      case True
      then have "CACHE_MAX_DEPTH - client_depth c1 < CACHE_MAX_DEPTH - client_depth c" using ok(3) by linarith
      then obtain c' where "grow_loop env n c1 = Some c'" "cache_inv c' offs" "kept c1 c' offs"
        using less.hyps ok(1) by blast
      moreover have "grow_loop env n c = grow_loop env n c1" using False g True by (subst grow_loop.simps) simp
      ultimately show ?thesis using kept_trans [OF ok(2)] by auto
    next
      case b: False
      then have "grow_loop env n c = Some c1" using False g by (subst grow_loop.simps) simp
      then show ?thesis using ok by auto
    qed
  qed
qed

lemma first_link: "cache_inv c offs \<Longrightarrow> c_next c LStart = Some (hd (map LEntry offs @ [LEnd]))"
  using cache_invD(3) [of c offs] by (cases offs) (auto simp: queue_path_def)

lemma evict_loop_ok:
  assumes "cache_inv c offs"
  shows "\<exists>c' j. evict_loop n (Some (hd (map LEntry offs @ [LEnd]))) c = Some c' \<and> cache_inv c' (drop j offs) \<and> kept c c' (drop j offs) \<and>
    (heap_avail (c_tree c') n \<or> drop j offs = [])"
  using assms
proof (induction offs arbitrary: c)
  case Nil
  then show ?case by (subst evict_loop.simps) (auto intro!: exI [of _ 0])
next
  case (Cons off offs)
  show ?case
  proof (cases "heap_avail (c_tree c) n")
    case True
    then have "evict_loop n (Some (hd (map LEntry (off # offs) @ [LEnd]))) c = Some c" by (subst evict_loop.simps) simp
    then show ?thesis using True Cons.prems by (intro exI [of _ c] exI [of _ 0]) simp
  next
    case False
    obtain c1 where c1: "discard off c = Some c1" "cache_inv c1 offs" "kept c c1 (off # offs)" "c_next c1 (LEntry off) = c_next c (LEntry off)"
      using discard_ok [OF Cons.prems, of off] by auto
    have "c_next c (LEntry off) = Some (hd (map LEntry offs @ [LEnd]))"
      using cache_invD(3) [OF Cons.prems] by (cases offs) (auto simp: queue_path_def)
    then have ev: "evict_loop n (Some (hd (map LEntry (off # offs) @ [LEnd]))) c = evict_loop n (Some (hd (map LEntry offs @ [LEnd]))) c1"
      using False c1(1,4) by (subst evict_loop.simps) simp
    obtain c' j where j: "evict_loop n (Some (hd (map LEntry offs @ [LEnd]))) c1 = Some c'" "cache_inv c' (drop j offs)" "kept c1 c' (drop j offs)"
      "heap_avail (c_tree c') n \<or> drop j offs = []" using Cons.IH [OF c1(2)] by blast
    have "kept c c' (drop j offs)"
      by (rule kept_trans [OF c1(3) j(3)]) (meson set_drop_subset set_subset_Cons subset_trans)
    then show ?thesis using ev j by (intro exI [of _ c'] exI [of _ "Suc j"]) simp
  qed
qed

lemma send_data_calls:
  "\<exists>calls. send_data base off bs c = c\<lparr>c_sent := c_sent c @ calls\<rparr> \<and>
    (\<forall>a. last_sent calls a = (if base + off \<le> a \<and> a < base + off + length bs then Some (bs ! (a - (base + off))) else None))"
proof (induction base off bs c rule: send_data.induct)
  case (1 base off bs c)
  show ?case
  proof (cases "bs = []")
    case True
    then show ?thesis by (subst send_data.simps) (auto intro!: exI [of _ "[]"])
  next
    case False
    let ?k = "min (length bs) CHUNK_MAX"
    let ?x = "CacheData (base + off) (take ?k bs)"
    obtain calls where calls: "send_data base (off + ?k) (drop ?k bs) (send_call ?x c) = (send_call ?x c)\<lparr>c_sent := c_sent (send_call ?x c) @ calls\<rparr>"
      "\<And>a. last_sent calls a = (if base + (off + ?k) \<le> a \<and> a < base + (off + ?k) + length (drop ?k bs)
        then Some (drop ?k bs ! (a - (base + (off + ?k)))) else None)"
      using 1 [OF False refl] by blast
    have "send_data base off bs c = c\<lparr>c_sent := c_sent c @ ?x # calls\<rparr>"
      using False calls(1) by (subst send_data.simps) (simp add: Let_def send_call_def)
    moreover have "last_sent (?x # calls) a = (if base + off \<le> a \<and> a < base + off + length bs then Some (bs ! (a - (base + off))) else None)" for a
      unfolding last_sent.simps calls(2) by (auto simp: nth_append min_def add.assoc)
    ultimately show ?thesis by blast
  qed
qed

lemma cache_fill_ok:
  assumes inv: "cache_inv c offs" and len: "len < 2 ^ 31" and av: "heap_avail (c_tree c) (block_class len)"
    and fresh: "\<And>off. off \<in> set offs \<Longrightarrow> c_key c off \<noteq> key"
  shows "\<exists>r c'. cache_fill alloc m k len key (block_class len) c = Some (r, c') \<and>
    ((r = - 1 \<and> cache_inv c' offs \<and> kept c c' offs) \<or>
     (\<exists>off. r = int off \<and> off \<notin> set offs \<and> cache_inv c' (offs @ [off]) \<and> kept c c' offs \<and> entry_matches off m k len c'))"
proof -
  note d = cache_invD [OF inv]
  let ?n = "block_class len" and ?d = "client_depth c"
  have n: "0 < ?n" using block_class_fits(2) [OF len] .
  obtain t where t: "c_tree c = Some t" using av by (auto simp: heap_avail_def split: option.splits)
  then have ok: "heap_ok t ?d" and used: "cache_blocks c = used_blocks t ?d" using d(1) by (simp_all add: heap_good_def cache_blocks_def)
  have avt: "heap_avail (Some t) ?n" using av t by simp
  obtain b t' where al: "heap_alloc t ?d ?n = Some (b, t')" using buddy.alloc_ok [OF ok n avt] by blast
  note a = buddy.alloc_cases [OF ok n avt al]
  define off where "off = b * 2 ^ 6"
  define c1 where "c1 = c\<lparr>c_tree := Some t', c_len := (c_len c)(off := len), c_key := (c_key c)(off := key),
    c_data := memcpy (off + ENTRY_DATA) (\<lambda>i. m (k + i)) len (c_data c)\<rparr>"
  obtain done' g where g: "khrn_map_insert alloc (c_map c) key off = Some (done', g)" "gmap_good (\<lambda>_. 0) g"
    "gmap_map g = (if done' then (gmap_map (c_map c))(key \<mapsto> off) else gmap_map (c_map c))"
    using kmap.ins_law [OF d(4)] by blast
  have apart: "disjoint_blocks (b, ?n) (entry_block c o')" if "o' \<in> set offs" for o'
    using buddy.alloc_apart [OF ok n avt al] d(6) used that by blast
  have e': "o' = o' div 2 ^ 6 * 2 ^ 6" if "o' \<in> set offs" for o' using d(7) [OF that] by simp
  have new: "off \<notin> set offs"
  proof
    assume o: "off \<in> set offs"
    have "disjoint_blocks (b, ?n) (b, block_class (c_len c off))" using apart [OF o] by (simp add: entry_block_def off_def)
    then show False by (simp add: disjoint_blocks_def)
  qed
  have sep: "a \<notin> {off + ENTRY_DATA ..< off + ENTRY_DATA + len}" if "o' \<in> set offs" "a \<in> entry_bytes c o'" for a o'
  proof
    assume "a \<in> {off + ENTRY_DATA ..< off + ENTRY_DATA + len}"
    then have 1: "b * 2 ^ 6 \<le> a \<and> a < (b + 2 ^ (?n - 1)) * 2 ^ 6" using entry_in_block [OF len off_def, of a] by simp
    have 2: "o' div 2 ^ 6 * 2 ^ 6 \<le> a \<and> a < (o' div 2 ^ 6 + 2 ^ (block_class (c_len c o') - 1)) * 2 ^ 6"
      using entry_in_block [OF d(8) [OF that(1)] e' [OF that(1)], of a] that(2) by (simp add: entry_bytes_def)
    show False using blocks_apart [of b ?n _ _ a] apart [OF that(1)] 1 2 unfolding entry_block_def by blast
  qed
  have data1: "c_data c1 a = c_data c a" if "o' \<in> set offs" "a \<in> entry_bytes c o'" for a o'
    using sep [OF that] by (auto simp: c1_def memcpy_def)
  have f1: "c_len c1 o' = c_len c o'" "c_key c1 o' = c_key c o'" if "o' \<in> set offs" for o'
    using that new by (auto simp: c1_def)
  have fill: "cache_fill alloc m k len key ?n c =
     (let c = c1\<lparr>c_map := g\<rparr> in
      if \<not> done' then do { t \<leftarrow> heap_free t' ?d b; Some (- 1, c\<lparr>c_tree := Some t\<rparr>) }
      else let c = link_insert (LEntry off) (the (c_prev c LEnd)) LEnd c;
              c = send_call (CacheCreate off) c;
              c = send_data (off + ENTRY_DATA) 0 (map (\<lambda>i. m (k + i)) [0..<len]) c
          in Some (int off, c))"
    unfolding cache_fill_def t option.sel al bind.bind_lunit prod.case Let_def off_def [symmetric] c1_def [symmetric]
    using g(1) by (simp add: c1_def)
  have img: "entry_block c' ` set offs = entry_block c ` set offs" if "c_len c' = c_len c1" for c'
    using f1(1) that by (intro image_cong) (simp_all add: entry_block_def)
  show ?thesis
  proof (cases done')
    case False
    define c' where "c' = c1\<lparr>c_map := g, c_tree := Some t\<rparr>"
    have f: "c_len c' = c_len c1" "c_key c' = c_key c1" "c_data c' = c_data c1" "c_map c' = g" "c_tree c' = c_tree c"
      "client_depth c' = client_depth c" "server_depth c' = server_depth c" "c_sent c' = c_sent c" "c_next c' = c_next c" "c_prev c' = c_prev c"
      by (simp_all add: c'_def c1_def t)
    have "heap_free t' ?d b = Some t" by (rule buddy.free_alloc [OF ok n avt al])
    then have "cache_fill alloc m k len key ?n c = Some (- 1, c')" unfolding fill using False by (simp add: c'_def Let_def)
    moreover have "cache_inv c' offs"
      unfolding cache_inv_def
    proof (intro conjI allI ballI)
      show "heap_good c'" "distinct offs" "linked c' (queue_path offs)" "gmap_good (\<lambda>_. 0) (c_map c')"
        using d(1-3) g(2) queue_fields(1) [of c' c] linked_fields [of c' c] by (simp_all add: f)
      show "gmap_map (c_map c') key' = Some o' \<longleftrightarrow> o' \<in> set offs \<and> c_key c' o' = key'" for key' o'
        using d(5) [of key' o'] f1(2) [of o'] g(3) False by (auto simp: f)
      show "cache_blocks c' = entry_block c' ` set offs" using d(6) img [OF f(1)] queue_fields(2) [of c' c] by (simp add: f)
      fix o' assume o: "o' \<in> set offs"
      show "2 ^ 6 dvd o'" "c_len c' o' < 2 ^ 31" using d(7,8) o f1(1) [OF o] by (simp_all add: f)
      show "mirrored c' o'" by (rule mirrored_cong [OF d(9) [OF o]]) (simp_all add: f f1 [OF o] data1 [OF o])
    qed
    moreover have "kept c c' offs" using f1 data1 by (simp add: kept_def f)
    ultimately show ?thesis by blast
  next
    case True
    define c2 where "c2 = c1\<lparr>c_map := g\<rparr>"
    define c3 where "c3 = send_call (CacheCreate off) (link_insert (LEntry off) (the (c_prev c2 LEnd)) LEnd c2)"
    define bs where "bs = map (\<lambda>i. m (k + i)) [0..<len]"
    obtain calls where calls: "send_data (off + ENTRY_DATA) 0 bs c3 = c3\<lparr>c_sent := c_sent c3 @ calls\<rparr>"
      "\<And>a. last_sent calls a = (if off + ENTRY_DATA \<le> a \<and> a < off + ENTRY_DATA + len then Some (bs ! (a - (off + ENTRY_DATA))) else None)"
      using send_data_calls [of "off + ENTRY_DATA" 0 bs c3] by (auto simp: bs_def)
    define c' where "c' = c3\<lparr>c_sent := c_sent c3 @ calls\<rparr>"
    have ev: "cache_fill alloc m k len key ?n c = Some (int off, c')"
      unfolding fill using True calls(1) by (simp add: Let_def c2_def [symmetric] c3_def [symmetric] bs_def [symmetric] c'_def)
    have f: "c_len c' = c_len c1" "c_key c' = c_key c1" "c_data c' = c_data c1" "c_map c' = g" "c_tree c' = Some t'"
      "client_depth c' = client_depth c" "server_depth c' = server_depth c" "c_sent c' = c_sent c @ CacheCreate off # calls"
      by (simp_all add: c'_def c3_def c2_def c1_def send_call_def link_insert_def)
    have "linked c2 (queue_path offs)" using d(3) linked_fields [of c2 c] by (simp add: c2_def c1_def)
    from queue_insert [OF this new d(2)]
    have lk: "linked c' (queue_path (offs @ [off]))"
      using linked_fields [of c' "link_insert (LEntry off) (the (c_prev c2 LEnd)) LEnd c2"] by (simp add: c'_def c3_def send_call_def)
    have at: "c_len c1 off = len" "c_key c1 off = key" by (simp_all add: c1_def)
    have bytes: "c_data c' (off + ENTRY_DATA + i) = m (k + i)" if "i < len" for i
      unfolding f(3) using memcpy_inside [OF that, of "off + ENTRY_DATA"] by (simp add: c1_def)
    have "cache_inv c' (offs @ [off])"
      unfolding cache_inv_def
    proof (intro conjI allI ballI)
      show "heap_good c'" using d(1) a(1) by (simp add: heap_good_def f)
      show "distinct (offs @ [off])" using d(2) new by simp
      show "linked c' (queue_path (offs @ [off]))" by (rule lk)
      show "gmap_good (\<lambda>_. 0) (c_map c')" using g(2) by (simp add: f)
      show "gmap_map (c_map c') key' = Some o' \<longleftrightarrow> o' \<in> set (offs @ [off]) \<and> c_key c' o' = key'" for key' o'
        using d(5) [of key' o'] f1(2) [of o'] g(3) True at fresh [of o'] new by (auto simp: f)
      have "cache_blocks c' = insert (b, ?n) (cache_blocks c)" using a(2) used by (simp add: cache_blocks_def f)
      moreover have "entry_block c' off = (b, ?n)" using at by (simp add: entry_block_def f) (simp add: off_def)
      ultimately show "cache_blocks c' = entry_block c' ` set (offs @ [off])" using d(6) img [OF f(1)] by simp
      fix o' assume o: "o' \<in> set (offs @ [off])"
      show "2 ^ 6 dvd o'" "c_len c' o' < 2 ^ 31" using d(7,8) o f1(1) at(1) len by (auto simp: f off_def)
      show "mirrored c' o'"
      proof (cases "o' = off")
        case True
        then show ?thesis using bytes at(1) calls(2) by (simp add: mirrored_def f last_sent_append bs_def)
      next
        case False
        then have o: "o' \<in> set offs" using o by simp
        have "last_sent calls a = None" if "a \<in> entry_bytes c o'" for a using sep [OF o that] calls(2) by auto
        then show ?thesis
          by (intro mirrored_cong [OF d(9) [OF o]]) (simp_all add: f f1 [OF o] data1 [OF o] last_sent_append)
      qed
    qed
    moreover have "kept c c' offs" using f1 data1 by (simp add: kept_def f)
    moreover have "entry_matches off m k len c'" using bytes at(1) by (simp add: entry_matches_def f)
    ultimately show ?thesis using ev new by blast
  qed
qed

lemma cache_miss_ok:
  assumes inv: "cache_inv c offs" and len: "len < 2 ^ 31" and fresh: "\<And>off. off \<in> set offs \<Longrightarrow> c_key c off \<noteq> key"
  shows "\<exists>r c' j. cache_miss env alloc m k len key c = Some (r, c') \<and> kept c c' (drop j offs) \<and>
    ((r = - 1 \<and> cache_inv c' (drop j offs)) \<or>
     (\<exists>off. r = int off \<and> off \<notin> set (drop j offs) \<and> cache_inv c' (drop j offs @ [off]) \<and> entry_matches off m k len c'))"
proof -
  let ?n = "block_class len"
  obtain c1 where c1: "grow_loop env ?n c = Some c1" "cache_inv c1 offs" "kept c c1 offs" using grow_loop_ok [OF inv] by blast
  obtain c2 j where c2: "evict_loop ?n (c_next c1 LStart) c1 = Some c2" "cache_inv c2 (drop j offs)" "kept c1 c2 (drop j offs)"
    using evict_loop_ok [OF c1(2), of ?n] unfolding first_link [OF c1(2)] by blast
  have sub: "set (drop j offs) \<subseteq> set offs" by (rule set_drop_subset)
  have k2: "kept c c2 (drop j offs)" by (rule kept_trans [OF c1(3) c2(3) sub])
  have start: "cache_miss env alloc m k len key c =
      (if \<not> heap_avail (c_tree c2) ?n then Some (- 1, c2) else cache_fill alloc m k len key ?n c2)"
    by (simp add: cache_miss_def c1(1) c2(1) Let_def)
  show ?thesis
  proof (cases "heap_avail (c_tree c2) ?n")
    case False
    then show ?thesis using start k2 c2(2) by auto
  next
    case True
    have "c_key c2 off \<noteq> key" if "off \<in> set (drop j offs)" for off using k2 fresh sub that by (auto simp: kept_def)
    from cache_fill_ok [OF c2(2) len True this, of alloc m k]
    obtain r c' where r: "cache_fill alloc m k len key ?n c2 = Some (r, c')" "kept c2 c' (drop j offs)"
      "(r = - 1 \<and> cache_inv c' (drop j offs)) \<or>
       (\<exists>off. r = int off \<and> off \<notin> set (drop j offs) \<and> cache_inv c' (drop j offs @ [off]) \<and> entry_matches off m k len c')"
      by blast
    have "kept c c' (drop j offs)" by (rule kept_trans [OF k2 r(2)]) simp
    then show ?thesis using start True r(1,3) by auto
  qed
qed

section \<open>Every history of a cache\<close>

inductive cache_run :: "kcache \<Rightarrow> bool" where
  init: "khrn_cache_init alloc c0 = (True, c) \<Longrightarrow> m_refs (c_map c0) = (\<lambda>_. 0) \<Longrightarrow> cache_run c"
| lookup: "cache_run c \<Longrightarrow> len < 2 ^ 31 \<Longrightarrow> khrn_cache_lookup env alloc m k len sig c = Some (r, c') \<Longrightarrow> cache_run c'"

text \<open>What one lookup does to the entries: the one it answers comes last, the others are some of
  those before, unchanged.\<close>

definition lookup_result :: "kcache \<Rightarrow> nat list \<Rightarrow> memory \<Rightarrow> nat \<Rightarrow> nat \<Rightarrow> int \<Rightarrow> kcache \<Rightarrow> bool" where
  "lookup_result c offs m k len r c' \<longleftrightarrow> (\<exists>rest. set rest \<subseteq> set offs \<and> kept c c' rest \<and>
     (r = - 1 \<and> cache_inv c' rest \<or>
      (\<exists>off. r = int off \<and> off \<notin> set rest \<and> cache_inv c' (rest @ [off]) \<and> entry_matches off m k len c')))"

lemma hit_ok:
  assumes inv: "cache_inv c offs" and off: "off \<in> set offs" and hit: "entry_matches off m k len c"
  shows "lookup_result c offs m k len (int off)
    (link_insert (LEntry off) (the (c_prev (link_remove (LEntry off) c) LEnd)) LEnd (link_remove (LEntry off) c))"
proof -
  note d = cache_invD [OF inv]
  let ?c1 = "link_remove (LEntry off) c"
  let ?c' = "link_insert (LEntry off) (the (c_prev ?c1 LEnd)) LEnd ?c1"
  have l: "linked ?c' (queue_path (remove1 off offs @ [off]))"
    by (rule queue_insert [OF queue_remove(1) [OF d(3,2) off]]) (use d(2) in \<open>simp_all add: set_remove1_eq\<close>)
  have f: "c_len ?c' = c_len c" "c_key ?c' = c_key c" "c_data ?c' = c_data c" "c_map ?c' = c_map c" "c_tree ?c' = c_tree c"
    "client_depth ?c' = client_depth c" "server_depth ?c' = server_depth c" "c_sent ?c' = c_sent c"
    by (simp_all add: link_insert_def link_remove_def Let_def)
  have s: "set (remove1 off offs @ [off]) = set offs" "distinct (remove1 off offs @ [off])" using d(2) off by (auto simp: set_remove1_eq)
  have "cache_inv ?c' (remove1 off offs @ [off])"
    unfolding cache_inv_def s(1) using d l s(2) f queue_fields [of ?c' c]
    by (auto simp: mirrored_def entry_block_def [abs_def])
  moreover have "kept c ?c' (remove1 off offs)" using f by (simp add: kept_def)
  moreover have "entry_matches off m k len ?c'" using hit f by (simp add: entry_matches_def)
  ultimately show ?thesis unfolding lookup_result_def using s d(2)
    by (intro exI [of _ "remove1 off offs"]) (auto simp: set_remove1_eq)
qed

lemma lookup_ok:
  assumes inv: "cache_inv c offs" and len: "len < 2 ^ 31"
  shows "\<exists>r c'. khrn_cache_lookup env alloc m k len sig c = Some (r, c') \<and> lookup_result c offs m k len r c'"
proof -
  note d = cache_invD [OF inv]
  let ?key = "cache_hash m k len sig"
  have look: "khrn_map_find (c_map c) ?key = Some (gmap_map (c_map c) ?key)" by (rule kmap.look_law [OF d(4)])
  have miss: "\<exists>r c'. cache_miss env alloc m k len ?key c1 = Some (r, c') \<and> lookup_result c offs m k len r c'"
    if c1: "cache_inv c1 offs1" "kept c c1 offs1" "set offs1 \<subseteq> set offs" "\<And>off. off \<in> set offs1 \<Longrightarrow> c_key c1 off \<noteq> ?key" for c1 offs1
  proof -
    obtain r c' j where r: "cache_miss env alloc m k len ?key c1 = Some (r, c')" "kept c1 c' (drop j offs1)"
      "(r = - 1 \<and> cache_inv c' (drop j offs1)) \<or>
       (\<exists>off. r = int off \<and> off \<notin> set (drop j offs1) \<and> cache_inv c' (drop j offs1 @ [off]) \<and> entry_matches off m k len c')"
      using cache_miss_ok [OF c1(1) len c1(4), of env alloc m k] by blast
    have "kept c c' (drop j offs1)" by (rule kept_trans [OF c1(2) r(2) set_drop_subset])
    moreover have "set (drop j offs1) \<subseteq> set offs" by (rule subset_trans [OF set_drop_subset c1(3)])
    ultimately have "lookup_result c offs m k len r c'" unfolding lookup_result_def using r(3) by (intro exI [of _ "drop j offs1"]) simp
    then show ?thesis using r(1) by (intro exI conjI)
  qed
  show ?thesis
  proof (cases "gmap_map (c_map c) ?key")
    case None
    then have "c_key c off \<noteq> ?key" if "off \<in> set offs" for off using d(5) [of ?key off] that by auto
    then obtain r c' where "cache_miss env alloc m k len ?key c = Some (r, c')" "lookup_result c offs m k len r c'"
      using miss [OF inv kept_refl subset_refl] by blast
    moreover have "khrn_cache_lookup env alloc m k len sig c = cache_miss env alloc m k len ?key c"
      by (simp only: khrn_cache_lookup_def Let_def look None bind.bind_lunit option.case)
    ultimately show ?thesis by simp
  next
    case (Some off)
    then have off: "off \<in> set offs" "c_key c off = ?key" using d(5) by auto
    show ?thesis
    proof (cases "entry_matches off m k len c")
      case True
      then have "khrn_cache_lookup env alloc m k len sig c =
          Some (int off, link_insert (LEntry off) (the (c_prev (link_remove (LEntry off) c) LEnd)) LEnd (link_remove (LEntry off) c))"
        by (simp only: khrn_cache_lookup_def Let_def look Some bind.bind_lunit option.case if_True)
      then show ?thesis using hit_ok [OF inv off(1) True] by blast
    next
      case False
      obtain c1 where c1: "discard off c = Some c1" "cache_inv c1 (remove1 off offs)" "kept c c1 offs"
        using discard_ok [OF inv off(1)] by blast
      have s: "set (remove1 off offs) = set offs - {off}" using d(2) by (rule set_remove1_eq)
      have "c_key c1 o' \<noteq> ?key" if "o' \<in> set (remove1 off offs)" for o'
        using that s c1(3) d(5) [of ?key o'] Some by (auto simp: kept_def)
      moreover have "set (remove1 off offs) \<subseteq> set offs" using s by blast
      ultimately obtain r c' where "cache_miss env alloc m k len ?key c1 = Some (r, c')" "lookup_result c offs m k len r c'"
        using miss [OF c1(2) kept_subset [OF c1(3)]] by blast
      moreover have "khrn_cache_lookup env alloc m k len sig c = cache_miss env alloc m k len ?key c1"
        by (simp only: khrn_cache_lookup_def Let_def look Some bind.bind_lunit option.case False if_False c1(1))
      ultimately show ?thesis by simp
    qed
  qed
qed

lemma cache_init_inv:
  assumes "khrn_cache_init alloc c0 = (True, c)" "m_refs (c_map c0) = (\<lambda>_. 0)"
  shows "cache_inv c []"
proof -
  obtain g where g: "khrn_map_init alloc 64 (c_map c0) = (True, g)" "c_map c = g" "c_tree c = None"
    "client_depth c = 0" "server_depth c = 0" "c_next c LStart = Some LEnd" "c_prev c LEnd = Some LStart"
    using assms(1) by (auto simp: khrn_cache_init_def Let_def split: prod.splits)
  have "gmap_good (m_refs (c_map c0)) g" "gmap_map g = Map.empty"
    by (rule init_good [OF g(1), of 6]; simp)+
  then show ?thesis using g(2-7) assms(2)
    by (simp add: cache_inv_def heap_good_def queue_path_def cache_blocks_def)
qed

lemma cache_run_inv: "cache_run c \<Longrightarrow> \<exists>offs. cache_inv c offs"
proof (induction rule: cache_run.induct)
  case (init alloc c0 c)
  then show ?case using cache_init_inv by blast
next
  case (lookup c len env alloc m k sig r c')
  then obtain offs where "cache_inv c offs" by blast
  from lookup_ok [OF this lookup.hyps(2), of env alloc m k sig] lookup.hyps(3) have "lookup_result c offs m k len r c'" by simp
  then show ?case by (auto simp: lookup_result_def)
qed

text \<open>A request of 2 MB or more is larger than the largest block.\<close>

lemma too_big_class: "2 ^ 21 \<le> len \<Longrightarrow> len < 2 ^ 31 \<Longrightarrow> CACHE_MAX_DEPTH < block_class len"
proof (rule ccontr)
  assume len: "2 ^ 21 \<le> len" "len < 2 ^ 31" and "\<not> CACHE_MAX_DEPTH < block_class len"
  then have "(2 :: nat) ^ (block_class len + 5) \<le> 2 ^ 21" by (intro power_increasing) (simp_all add: CACHE_MAX_DEPTH_def)
  then show False using block_class_fits(1) [OF len(2)] len(1) by linarith
qed

lemma not_avail_above:
  assumes "cache_inv c offs" "CACHE_MAX_DEPTH < n"
  shows "\<not> heap_avail (c_tree c) n"
proof (cases "c_tree c")
  case (Some t)
  then have t: "heap_ok t (client_depth c)" "client_depth c \<le> CACHE_MAX_DEPTH"
    using cache_invD(1) [OF assms(1)] by (simp_all add: heap_good_def)
  then have "t ! 1 \<le> client_depth c" using node_bound [OF t(1), of 1] by (simp add: heap_ok_def)
  then show ?thesis using Some t(2) assms(2) by (simp add: heap_avail_def)
qed (simp add: heap_avail_def)

lemma too_big_miss:
  assumes inv: "cache_inv c offs" and big: "CACHE_MAX_DEPTH < block_class len"
  shows "\<exists>c'. cache_miss env alloc m k len key c = Some (- 1, c') \<and> cache_inv c' []"
proof -
  let ?n = "block_class len"
  obtain c1 where c1: "grow_loop env ?n c = Some c1" "cache_inv c1 offs" using grow_loop_ok [OF inv] by blast
  obtain c2 j where c2: "evict_loop ?n (c_next c1 LStart) c1 = Some c2" "cache_inv c2 (drop j offs)"
    "heap_avail (c_tree c2) ?n \<or> drop j offs = []"
    using evict_loop_ok [OF c1(2), of ?n] unfolding first_link [OF c1(2)] by blast
  note no = not_avail_above [OF c2(2) big]
  then have "cache_miss env alloc m k len key c = Some (- 1, c2)" by (simp add: cache_miss_def c1(1) c2(1) Let_def)
  then show ?thesis using c2(2,3) no by auto
qed

lemma empty_inv: "cache_inv c [] \<Longrightarrow> gmap_map (c_map c) = Map.empty \<and> khrn_cache_get_entries c = 0"
proof -
  assume inv: "cache_inv c []"
  have e: "gmap_map (c_map c) = Map.empty"
  proof
    fix key
    show "gmap_map (c_map c) key = None" using cache_invD(5) [OF inv, of key] by (cases "gmap_map (c_map c) key") auto
  qed
  have "gmap_inv (c_map c)" using cache_invD(4) [OF inv] by (simp add: gmap_good_def)
  then show ?thesis using e count_spec [of "c_map c"] by (simp add: khrn_cache_get_entries_def)
qed

text \<open>
  C21. A lookup in the client cache always returns, after any history of lookups, whatever the
  allocations and the server answer. It gives -1, or the offset of an entry that lies within the
  cache and begins with the bytes asked for; and every other entry it leaves was there before,
  under the same key and with the same bytes.
\<close>

theorem cache_lookup_finds:
  assumes "cache_run c" "len < 2 ^ 31"
  shows "\<exists>r c'. khrn_cache_lookup env alloc m k len sig c = Some (r, c') \<and>
    (r = - 1 \<or> (\<exists>off. r = int off \<and> entry_matches off m k len c' \<and> off + ENTRY_DATA + len < 2 ^ (client_depth c' + 5))) \<and>
    (\<forall>key off. gmap_map (c_map c') key = Some off \<longrightarrow> r \<noteq> int off \<longrightarrow>
      gmap_map (c_map c) key = Some off \<and> c_len c' off = c_len c off \<and> (\<forall>a \<in> entry_bytes c off. c_data c' a = c_data c a))"
proof -
  obtain offs where inv: "cache_inv c offs" using cache_run_inv [OF assms(1)] by blast
  obtain r c' where l: "khrn_cache_lookup env alloc m k len sig c = Some (r, c')" "lookup_result c offs m k len r c'"
    using lookup_ok [OF inv assms(2)] by blast
  from l(2) obtain rest where rest: "set rest \<subseteq> set offs" "kept c c' rest"
    "r = - 1 \<and> cache_inv c' rest \<or>
      (\<exists>off. r = int off \<and> off \<notin> set rest \<and> cache_inv c' (rest @ [off]) \<and> entry_matches off m k len c')"
    unfolding lookup_result_def by blast
  have others: "gmap_map (c_map c) key = Some off \<and> c_len c' off = c_len c off \<and> (\<forall>a \<in> entry_bytes c off. c_data c' a = c_data c a)"
    if "gmap_map (c_map c') key = Some off" "r \<noteq> int off" for key off
  proof -
    have "off \<in> set rest \<and> c_key c' off = key" using rest(3) cache_invD(5) that by fastforce
    then show ?thesis using rest(1,2) cache_invD(5) [OF inv, of key off] by (auto simp: kept_def)
  qed
  have "r = - 1 \<or> (\<exists>off. r = int off \<and> entry_matches off m k len c' \<and> off + ENTRY_DATA + len < 2 ^ (client_depth c' + 5))"
    using rest(3)
  proof (elim disjE conjE exE)
    fix off assume o: "r = int off" "cache_inv c' (rest @ [off])" "entry_matches off m k len c'"
    have "off + ENTRY_DATA + c_len c' off < 2 ^ (client_depth c' + 5)" by (rule entry_inside [OF o(2), of off]) simp_all
    then show ?thesis using o by (auto simp: entry_matches_def)
  qed simp
  with l(1) others show ?thesis by blast
qed

text \<open>
  C22. What the server was sent is what the client keeps. After any history of lookups, for every
  byte of every live entry the last byte sent to the server for its address is the one in the
  client's memory, and the data of two entries never overlap.
\<close>

theorem cache_entries_mirrored:
  assumes "cache_run c" "gmap_map (c_map c) key = Some off"
  shows "(\<forall>a \<in> entry_bytes c off. last_sent (c_sent c) a = Some (c_data c a)) \<and>
    (\<forall>key' off'. gmap_map (c_map c) key' = Some off' \<longrightarrow> key' \<noteq> key \<longrightarrow> entry_bytes c off \<inter> entry_bytes c off' = {})"
proof -
  obtain offs where inv: "cache_inv c offs" using cache_run_inv [OF assms(1)] by blast
  note d = cache_invD [OF inv]
  have off: "off \<in> set offs" "c_key c off = key" using d(5) assms(2) by auto
  have "last_sent (c_sent c) a = Some (c_data c a)" if "a \<in> entry_bytes c off" for a
  proof -
    have "a = off + ENTRY_DATA + (a - (off + ENTRY_DATA))" "a - (off + ENTRY_DATA) < c_len c off"
      using that by (auto simp: entry_bytes_def)
    then show ?thesis using d(9) [OF off(1)] unfolding mirrored_def by metis
  qed
  moreover have "entry_bytes c off \<inter> entry_bytes c off' = {}" if "gmap_map (c_map c) key' = Some off'" "key' \<noteq> key" for key' off'
    using entries_apart [OF inv off(1), of off'] d(5) [of key' off'] that off(2) by auto
  ultimately show ?thesis by blast
qed

text \<open>
  A lookup that can never succeed empties the cache: for data of 2 MB or more, which no block
  holds, \<open>khrn_cache_lookup\<close> gives -1, but only after it has discarded every entry.
\<close>

theorem cache_lookup_too_big:
  assumes "cache_run c" "2 ^ 21 \<le> len" "len < 2 ^ 31"
  shows "\<exists>c'. khrn_cache_lookup env alloc m k len sig c = Some (- 1, c') \<and> gmap_map (c_map c') = Map.empty \<and>
    khrn_cache_get_entries c' = 0"
proof -
  obtain offs where inv: "cache_inv c offs" using cache_run_inv [OF assms(1)] by blast
  note d = cache_invD [OF inv]
  let ?key = "cache_hash m k len sig"
  note big = too_big_class [OF assms(2,3)]
  have look: "khrn_map_find (c_map c) ?key = Some (gmap_map (c_map c) ?key)" by (rule kmap.look_law [OF d(4)])
  have "\<exists>c'. khrn_cache_lookup env alloc m k len sig c = Some (- 1, c') \<and> cache_inv c' []"
  proof (cases "gmap_map (c_map c) ?key")
    case None
    then have "khrn_cache_lookup env alloc m k len sig c = cache_miss env alloc m k len ?key c"
      by (simp only: khrn_cache_lookup_def Let_def look bind.bind_lunit option.case)
    then show ?thesis using too_big_miss [OF inv big] by simp
  next
    case (Some off)
    then have off: "off \<in> set offs" using d(5) by blast
    have "c_len c off < 2 ^ (client_depth c + 5)" by (rule entry_inside [OF inv off]) simp
    also have "(2 :: nat) ^ (client_depth c + 5) \<le> 2 ^ 21"
      using d(1) by (intro power_increasing) (simp_all add: heap_good_def CACHE_MAX_DEPTH_def)
    finally have no: "\<not> entry_matches off m k len c" using assms(2) by (simp add: entry_matches_def)
    obtain c1 where c1: "discard off c = Some c1" "cache_inv c1 (remove1 off offs)" using discard_ok [OF inv off] by blast
    have "khrn_cache_lookup env alloc m k len sig c = cache_miss env alloc m k len ?key c1"
      by (simp only: khrn_cache_lookup_def Let_def look Some bind.bind_lunit option.case no if_False c1(1))
    then show ?thesis using too_big_miss [OF c1(2) big] by simp
  qed
  then show ?thesis using empty_inv by blast
qed

section \<open>A cache with one entry\<close>

definition blank_cache :: kcache where
  "blank_cache = \<lparr>c_tree = None, c_data = (\<lambda>_. 0), client_depth = 0, server_depth = 0, c_prev = (\<lambda>_. None), c_next = (\<lambda>_. None),
     c_len = (\<lambda>_. 0), c_key = (\<lambda>_. 0),
     c_map = \<lparr>m_entries = 0, m_deletes = 0, m_storage = [], m_capacity = 0, m_refs = (\<lambda>_. 0)\<rparr>, c_sent = []\<rparr>"

definition demo_cache :: kcache where
  "demo_cache = snd (khrn_cache_init (\<lambda>_. Some (\<lambda>_. 0)) blank_cache)"

definition demo_env :: "nat \<Rightarrow> grow_env" where
  "demo_env d = \<lparr>ge_server = True, ge_tree = Some (\<lambda>_. 0), ge_data = Some (\<lambda>_. 0)\<rparr>"

lemma demo_cache_run: "cache_run demo_cache"
  by (rule cache_run.init [of "\<lambda>_. Some (\<lambda>_. 0)" blank_cache])
    (simp_all add: demo_cache_def khrn_cache_init_def khrn_map_init_def blank_cache_def Let_def)

text \<open>Four bytes are looked up: the heap grows, and the entry takes the first block.\<close>

definition demo_lookup :: "(int \<times> kcache) option" where
  "demo_lookup = khrn_cache_lookup demo_env (\<lambda>_. Some (\<lambda>_. 0)) of_nat 0 4 8 demo_cache"

lemma demo_lookup_eval: "map_option fst demo_lookup = Some 0"
  unfolding demo_lookup_def by code_simp

lemma cache_lookup_finds_witness:
  "\<exists>r c'. demo_lookup = Some (r, c') \<and> r = 0 \<and> entry_matches 0 of_nat 0 4 c'"
proof -
  obtain r c' where r: "demo_lookup = Some (r, c')"
    "r = - 1 \<or> (\<exists>off. r = int off \<and> entry_matches off of_nat 0 4 c' \<and> off + ENTRY_DATA + 4 < 2 ^ (client_depth c' + 5))"
    using cache_lookup_finds [OF demo_cache_run, of 4 demo_env "\<lambda>_. Some (\<lambda>_. 0)" of_nat 0 8, folded demo_lookup_def] by auto
  then have "map_option fst (Some (r, c')) = Some 0" using demo_lookup_eval by metis
  then have "r = 0" by simp
  with r show ?thesis by auto
qed

definition demo_cache1 :: kcache where
  "demo_cache1 = snd (the demo_lookup)"

lemma demo_cache1_run: "cache_run demo_cache1" "gmap_map (c_map demo_cache1) (c_key demo_cache1 0) = Some 0"
  "entry_matches 0 of_nat 0 4 demo_cache1"
proof -
  have start: "cache_inv demo_cache []"
    by (rule cache_init_inv [of "\<lambda>_. Some (\<lambda>_. 0)" blank_cache])
      (simp_all add: demo_cache_def khrn_cache_init_def khrn_map_init_def blank_cache_def Let_def)
  obtain r c where c: "demo_lookup = Some (r, c)" "lookup_result demo_cache [] of_nat 0 4 r c"
    using lookup_ok [OF start, of 4 demo_env "\<lambda>_. Some (\<lambda>_. 0)" of_nat 0 8, folded demo_lookup_def] by auto
  have "map_option fst (Some (r, c)) = Some 0" using c(1) demo_lookup_eval by metis
  then have "r = 0" by simp
  then have inv: "cache_inv c [0]" using c(2) by (auto simp: lookup_result_def)
  have d: "demo_cache1 = c" by (simp add: demo_cache1_def c(1))
  show "cache_run demo_cache1" using cache_run.lookup [OF demo_cache_run, of 4] c(1) by (simp add: d demo_lookup_def)
  show "gmap_map (c_map demo_cache1) (c_key demo_cache1 0) = Some 0" using cache_invD(5) [OF inv] by (simp add: d)
  show "entry_matches 0 of_nat 0 4 demo_cache1" using c(2) \<open>r = 0\<close> by (auto simp: d lookup_result_def)
qed

lemma cache_entries_mirrored_witness:
  "last_sent (c_sent demo_cache1) (ENTRY_DATA + 3) = Some 3"
proof -
  note e = demo_cache1_run(3)
  have "ENTRY_DATA + 3 \<in> entry_bytes demo_cache1 0" using e by (simp add: entry_matches_def entry_bytes_def)
  moreover have "c_data demo_cache1 (ENTRY_DATA + 3) = 3" using e by (simp add: entry_matches_def)
  ultimately show ?thesis using cache_entries_mirrored [OF demo_cache1_run(1,2)] by metis
qed

lemma cache_lookup_too_big_witness:
  "\<exists>c'. khrn_cache_lookup demo_env (\<lambda>_. None) of_nat 0 (2 ^ 21) 8 demo_cache1 = Some (- 1, c') \<and> khrn_cache_get_entries c' = 0"
  using cache_lookup_too_big [OF demo_cache1_run(1), of "2 ^ 21" demo_env "\<lambda>_. None" of_nat 0 8] by auto

end
