(* ===== verification/Vchiq_Slots.thy ===== *)
theory Vchiq_Slots
  imports Vchiq_Types
begin

text \<open>
  vchiq_core.c: the remote events, the reservation of message space in the transmit
  stream, and the life of a slot: claimed while its messages are in use, released to its
  owner's recycle queue, returned to the pool of free slots.
\<close>

section \<open>Remote events\<close>

text \<open>Signalling the other side: \<open>remote_event_signal\<close> rings the doorbell if it is waiting.\<close>

definition signal_event :: "remote_event \<Rightarrow> remote_event" where
  "signal_event e = e\<lparr>fired := True\<rparr>"

definition remote_event_signal ::
  "(shared_state \<Rightarrow> remote_event) \<Rightarrow> ((remote_event \<Rightarrow> remote_event) \<Rightarrow> shared_state \<Rightarrow> shared_state)
    \<Rightarrow> 'p vchiq \<Rightarrow> 'p vchiq" where
  "remote_event_signal get upd s =
     s\<lparr>remote := upd signal_event (remote s),
       doorbells := (if armed (get (remote s)) then doorbells s + 1 else doorbells s)\<rparr>"

definition remote_event_create :: "remote_event \<Rightarrow> remote_event" where
  "remote_event_create e = e\<lparr>armed := False, event := 0\<rparr>"

definition remote_event_signal_local :: "remote_event \<Rightarrow> remote_event" where
  "remote_event_signal_local e = e\<lparr>armed := False, event := sem_up (event e)\<rparr>"

definition remote_event_poll :: "remote_event \<Rightarrow> remote_event" where
  "remote_event_poll e = (if fired e \<and> armed e then remote_event_signal_local e else e)"

definition remote_event_pollall :: "'p vchiq \<Rightarrow> 'p vchiq" where
  "remote_event_pollall s =
     s\<lparr>local := (recycle_update remote_event_poll \<circ> trigger_update remote_event_poll \<circ>
                 sync_release_update remote_event_poll \<circ> sync_trigger_update remote_event_poll) (local s)\<rparr>"

definition remote_event_wait ::
  "(shared_state \<Rightarrow> remote_event) \<Rightarrow> ((remote_event \<Rightarrow> remote_event) \<Rightarrow> shared_state \<Rightarrow> shared_state)
    \<Rightarrow> 'p vchiq sched \<Rightarrow> 'p vchiq \<Rightarrow> ('p vchiq \<times> 'p vchiq sched) option" where
  "remote_event_wait get upd fs s = do {
     (s, fs) \<leftarrow>
       (if \<not> fired (get (local s)) then do {
          let s = local_update (upd (armed_update (\<lambda>_. True))) s;
          (s, fs) \<leftarrow>
            (if \<not> fired (get (local s))
             then sem_down (\<lambda>s. event (get (local s))) (\<lambda>f. local_update (upd (event_update f))) fs s
             else Some (s, fs));
          Some (local_update (upd (armed_update (\<lambda>_. False))) s, fs)
        } else Some (s, fs));
     Some (local_update (upd (fired_update (\<lambda>_. False))) s, fs)
   }"

text \<open>\<open>request_poll\<close>: note the poll for a service, and make the slot handler run.\<close>

definition poll_bit :: "poll_type \<Rightarrow> u32" where
  "poll_bit t = push_bit (case t of POLL_TERMINATE \<Rightarrow> 0 | POLL_REMOVE \<Rightarrow> 1 | POLL_TXNOTIFY \<Rightarrow> 2 | POLL_RXNOTIFY \<Rightarrow> 3) 1"

definition request_poll :: "nat option \<Rightarrow> poll_type \<Rightarrow> 'p vchiq \<Rightarrow> 'p vchiq" where
  "request_poll service t s =
     (let s = (case service of
                 None \<Rightarrow> s
               | Some p \<Rightarrow>
                   let s = upd_service p (poll_flags_update (\<lambda>v. v OR poll_bit t)) s
                   in s\<lparr>poll_services := (poll_services s)(p div 32 := poll_services s (p div 32) OR push_bit (p mod 32) 1)\<rparr>)
      in s\<lparr>poll_needed := True, local := trigger_update remote_event_signal_local (local s)\<rparr>)"

section \<open>Reserving message space\<close>

text \<open>Fill the rest of the current slot with a padding message if the message does not fit.\<close>

definition reserve_pad :: "u32 \<Rightarrow> 'p vchiq \<Rightarrow> u32 \<times> 'p vchiq" where
  "reserve_pad space s =
     (let pos = local_tx_pos s;
          slot_space = 4096 - (pos AND 4095)
      in if sint space > sint slot_space
         then let header = the (tx_data s) + slot_offset pos
              in (pos + slot_space,
                  s\<lparr>mem := set_hdr_size header (slot_space - 8) (set_hdr_msgid header MSGID_PADDING (mem s))\<rparr>)
         else (pos, s))"

text \<open>Take a free slot, waiting for one if that is allowed; \<open>False\<close> when there is none.\<close>

definition reserve_slot :: "u32 \<Rightarrow> bool \<Rightarrow> 'p vchiq sched \<Rightarrow> 'p vchiq \<Rightarrow> (bool \<times> 'p vchiq \<times> 'p vchiq sched) option" where
  "reserve_slot pos is_blocking fs s = do {
     (got, s, fs) \<leftarrow>
       (case sem_trylock (slot_available_event s) of
          (0, c) \<Rightarrow> Some (True, s\<lparr>slot_available_event := c\<rparr>, fs)
        | (_, _) \<Rightarrow>
            let s = s\<lparr>st_stats := st_slot_stalls_update (\<lambda>n. n + 1) (st_stats s), local_tx_pos := pos\<rparr>;
                s = local_update (tx_pos_update (\<lambda>_. pos)) s;
                s = remote_event_signal trigger trigger_update s
            in if \<not> is_blocking then Some (False, s, fs)
               else map_option (\<lambda>(s, fs). (True, s, fs))
                      (sem_down slot_available_event slot_available_event_update fs s));
     if \<not> got then Some (False, s, fs)
     else if pos = slot_queue_available s * 4096 then None
     else Some (True, s\<lparr>tx_data := Some (slot_data (slot_at (local s) (slot_queue_index pos)))\<rparr>, fs)
   }"

definition reserve_space :: "u32 \<Rightarrow> bool \<Rightarrow> 'p vchiq sched \<Rightarrow> 'p vchiq \<Rightarrow> (nat option \<times> 'p vchiq \<times> 'p vchiq sched) option" where
  "reserve_space space is_blocking fs s = do {
     let (pos, s) = reserve_pad space s;
     (got, s, fs) \<leftarrow>
       (if pos AND 4095 = 0 then reserve_slot pos is_blocking fs s else Some (True, s, fs));
     if \<not> got then Some (None, s, fs)
     else Some (Some (the (tx_data s) + slot_offset pos), s\<lparr>local_tx_pos := pos + space\<rparr>, fs)
   }"

section \<open>Recycling slots\<close>

text \<open>
  \<open>process_free_queue\<close> (the recycle thread) returns the credit of each message of a slot
  that the other side has freed, and then the slot. A loop over a slot whose headers are
  corrupt need not end: its result is then \<open>None\<close>.
\<close>

definition pfq_message_credit :: "nat \<Rightarrow> 'p vchiq \<Rightarrow> 'p vchiq" where
  "pfq_message_credit port s =
     (let q = service_quotas s port;
          count = message_use_count q;
          s = (if count > 0 then upd_quota port (message_use_count_update (\<lambda>_. count - 1)) s else s)
      in if count = message_quota q then upd_quota port (quota_event_update sem_up) s else s)"

definition pfq_slot_credit :: "nat \<Rightarrow> 'p vchiq \<Rightarrow> 'p vchiq" where
  "pfq_slot_credit port s =
     (let count = slot_use_count (service_quotas s port)
      in if count > 0
         then upd_quota port (quota_event_update sem_up)
                (upd_quota port (slot_use_count_update (\<lambda>_. count - 1)) s)
         else s)"

definition pfq_header :: "nat \<Rightarrow> (nat \<Rightarrow> bool) \<Rightarrow> bool \<Rightarrow> 'p vchiq \<Rightarrow> (nat \<Rightarrow> bool) \<times> bool \<times> 'p vchiq" where
  "pfq_header header service_found data_found s =
     (let msgid = hdr_msgid (mem s) header
      in if msg_type msgid = MSG_DATA
         then let port = msg_srcport msgid;
                  s = pfq_message_credit port s
              in if \<not> service_found port
                 then (service_found(port := True), True, pfq_slot_credit port s)
                 else (service_found, True, s)
         else (service_found, data_found, s))"

partial_function (option) pfq_messages ::
  "nat \<Rightarrow> u32 \<Rightarrow> (nat \<Rightarrow> bool) \<Rightarrow> bool \<Rightarrow> 'p vchiq \<Rightarrow> (bool \<times> 'p vchiq) option" where
  "pfq_messages data pos service_found data_found s =
     (if pos < 4096
      then let header = data + unat pos;
               (service_found, data_found, s) = pfq_header header service_found data_found s
           in pfq_messages data (pos + calc_stride (hdr_size (mem s) header)) service_found data_found s
      else Some (data_found, s))"

definition pfq_data_credit :: "bool \<Rightarrow> 'p vchiq \<Rightarrow> 'p vchiq" where
  "pfq_data_credit data_found s =
     (if data_found
      then let count = data_use_count s;
               s = (if count > 0 then s\<lparr>data_use_count := count - 1\<rparr> else s)
           in if count = data_quota s then s\<lparr>data_quota_event := sem_up (data_quota_event s)\<rparr> else s
      else s)"

partial_function (option) pfq_slots :: "u32 \<Rightarrow> 'p vchiq \<Rightarrow> 'p vchiq option" where
  "pfq_slots available s =
     (if available \<noteq> slot_queue_recycle (local s)
      then do {
        let data = slot_data (slot_at (local s) available);
        (data_found, s) \<leftarrow> pfq_messages data 0 (\<lambda>_. False) False s;
        let s = pfq_data_credit data_found s;
        pfq_slots (available + 1)
          (s\<lparr>slot_queue_available := available + 1, slot_available_event := sem_up (slot_available_event s)\<rparr>)
      }
      else Some s)"

definition process_free_queue :: "'p vchiq \<Rightarrow> 'p vchiq option" where
  "process_free_queue s = pfq_slots (slot_queue_available s) s"

section \<open>Claiming and releasing slots\<close>

definition upd_slot_info :: "nat \<Rightarrow> (slot_info \<Rightarrow> slot_info) \<Rightarrow> 'p vchiq \<Rightarrow> 'p vchiq" where
  "upd_slot_info i f s = s\<lparr>slot_infos := (slot_infos s)(i := f (slot_infos s i))\<rparr>"

definition claim_slot :: "nat \<Rightarrow> 'p vchiq \<Rightarrow> 'p vchiq" where
  "claim_slot i = upd_slot_info i (use_count_update (\<lambda>n. n + 1))"

text \<open>The part of \<open>release_slot\<close> after the header check: count the release, and hand the slot
  back to its owner when every claim has been released.\<close>

definition recycle_slot :: "nat \<Rightarrow> 'p vchiq \<Rightarrow> 'p vchiq" where
  "recycle_slot i s =
     (let r = slot_queue_recycle (remote s);
          s = remote_update (slot_queue_update (\<lambda>q. q(unat (r AND 63) := i))) s;
          s = remote_update (slot_queue_recycle_update (\<lambda>_. r + 1)) s
      in remote_event_signal recycle recycle_update s)"

definition release_count_up :: "nat \<Rightarrow> 'p vchiq \<Rightarrow> 'p vchiq" where
  "release_count_up i s =
     (let r = sint (release_count (slot_infos s i)) + 1;
          s = upd_slot_info i (release_count_update (\<lambda>_. word_of_int r)) s
      in if r = sint (use_count (slot_infos s i)) then recycle_slot i s else s)"

text \<open>\<open>is_closing\<close> is \<open>service && service->closing\<close>.\<close>

definition release_slot_body :: "nat \<Rightarrow> nat option \<Rightarrow> bool \<Rightarrow> 'p vchiq \<Rightarrow> 'p vchiq" where
  "release_slot_body i header is_closing s =
     (case header of
        None \<Rightarrow> release_count_up i s
      | Some h \<Rightarrow>
          let msgid = hdr_msgid (mem s) h
          in if msgid AND MSGID_CLAIMED = 0 \<or> is_closing then s
             else release_count_up i (s\<lparr>mem := set_hdr_msgid h (msgid AND NOT MSGID_CLAIMED) (mem s)\<rparr>))"

definition service_closing :: "nat option \<Rightarrow> 'p vchiq \<Rightarrow> bool" where
  "service_closing service s = (case service of None \<Rightarrow> False | Some p \<Rightarrow> closing (the (services s p)))"

definition release_slot ::
  "nat \<Rightarrow> nat option \<Rightarrow> nat option \<Rightarrow> 'p vchiq sched \<Rightarrow> 'p vchiq \<Rightarrow> ('p vchiq \<times> 'p vchiq sched) option" where
  "release_slot i header service fs s = do {
     (s, fs) \<leftarrow> mutex_acquire recycle_mutex recycle_mutex_update fs s;
     Some (mutex_release recycle_mutex_update (release_slot_body i header (service_closing service s) s), fs)
   }"

text \<open>\<open>release_message_sync\<close>\<close>

definition release_message_sync :: "nat \<Rightarrow> 'p vchiq \<Rightarrow> 'p vchiq" where
  "release_message_sync header s =
     remote_event_signal sync_release sync_release_update (s\<lparr>mem := set_hdr_msgid header MSGID_PADDING (mem s)\<rparr>)"

end
