(* ===== verification/Vchiq_Send.thy ===== *)
theory Vchiq_Send
  imports Vchiq_Slots
begin

text \<open>
  vchiq_core.c: \<open>queue_message\<close>, which appends a message to the transmit stream under the
  quotas of its service, and \<open>queue_message_sync\<close>, which passes a message through the
  synchronous slot. Both are called by the slot handler and by application threads.
\<close>

section \<open>Elements\<close>

text \<open>\<open>VCHIQ_ELEMENT_T\<close>: an address (\<open>None\<close> is \<open>NULL\<close>), as the bytes found there, and a size.\<close>

record element =
  el_data :: "(nat \<Rightarrow> u8) option"
  el_size :: u32

text \<open>\<open>vchiq_copy_from_user\<close> copies and returns 0; there is no user memory in this kernel.\<close>

definition vchiq_copy_from_user :: "nat \<Rightarrow> (nat \<Rightarrow> u8) option \<Rightarrow> u32 \<Rightarrow> memory \<Rightarrow> bool \<times> memory" where
  "vchiq_copy_from_user dst src n m = (True, memcpy dst (the src) (unat n) m)"

fun copy_elements :: "nat \<Rightarrow> element list \<Rightarrow> memory \<Rightarrow> bool \<times> memory" where
  "copy_elements dst [] m = (True, m)"
| "copy_elements dst (e # es) m =
     (if el_size e \<noteq> 0
      then (case vchiq_copy_from_user dst (el_data e) (el_size e) m of
              (False, m') \<Rightarrow> (False, m')
            | (True, m') \<Rightarrow> copy_elements (dst + unat (el_size e)) es m')
      else copy_elements dst es m)"

text \<open>\<open>QMFLAGS_IS_BLOCKING\<close>, \<open>QMFLAGS_NO_MUTEX_LOCK\<close>, \<open>QMFLAGS_NO_MUTEX_UNLOCK\<close>\<close>

record qmflags =
  qm_is_blocking :: bool
  qm_no_mutex_lock :: bool
  qm_no_mutex_unlock :: bool

abbreviation (input) "qm_nonblocking \<equiv> \<lparr>qm_is_blocking = False, qm_no_mutex_lock = False, qm_no_mutex_unlock = False\<rparr>"
abbreviation (input) "qm_blocking \<equiv> \<lparr>qm_is_blocking = True, qm_no_mutex_lock = False, qm_no_mutex_unlock = False\<rparr>"
abbreviation (input) "qm_keep_mutex \<equiv> \<lparr>qm_is_blocking = False, qm_no_mutex_lock = False, qm_no_mutex_unlock = True\<rparr>"
abbreviation (input) "qm_have_mutex \<equiv> \<lparr>qm_is_blocking = False, qm_no_mutex_lock = True, qm_no_mutex_unlock = False\<rparr>"

definition vchiq_set_service_state :: "nat \<Rightarrow> srvstate \<Rightarrow> 'p vchiq \<Rightarrow> 'p vchiq" where
  "vchiq_set_service_state p newstate = upd_service p (srvstate_update (\<lambda>_. newstate))"

section \<open>Quotas\<close>

text \<open>The queue index of the slot in which a message of the given stride would end.\<close>

definition tx_end_index :: "u32 \<Rightarrow> 'p vchiq \<Rightarrow> u32" where
  "tx_end_index stride s = slot_queue_index (local_tx_pos s + stride - 1)"

text \<open>The wait for the quota of slots with data messages; the result is the final \<open>tx_end_index\<close>.\<close>

partial_function (option) qm_data_quota ::
  "u32 \<Rightarrow> u32 \<Rightarrow> 'p vchiq sched \<Rightarrow> 'p vchiq \<Rightarrow> (u32 \<times> 'p vchiq \<times> 'p vchiq sched) option" where
  "qm_data_quota stride tx_end fs s =
     (if tx_end \<noteq> previous_data_index s \<and> data_use_count s = data_quota s
      then do {
        let s = s\<lparr>st_stats := st_data_stalls_update (\<lambda>n. n + 1) (st_stats s)\<rparr>;
        let s = mutex_release slot_mutex_update s;
        (s, fs) \<leftarrow> sem_down data_quota_event data_quota_event_update fs s;
        (s, fs) \<leftarrow> mutex_acquire slot_mutex slot_mutex_update fs s;
        let tx_end = tx_end_index stride s;
        if tx_end = previous_data_index s \<or> data_use_count s < data_quota s
        then Some (tx_end, s\<lparr>data_quota_event := sem_up (data_quota_event s)\<rparr>, fs)
        else qm_data_quota stride tx_end fs s
      }
      else Some (tx_end, s, fs))"

definition quota_full :: "u32 \<Rightarrow> service_quota \<Rightarrow> bool" where
  "quota_full tx_end q \<longleftrightarrow>
     message_use_count q = message_quota q \<or>
     (tx_end \<noteq> previous_tx_index q \<and> slot_use_count q = slot_quota q)"

text \<open>The wait for the service's own quota; a status if the service is closed meanwhile.\<close>

partial_function (option) qm_service_quota ::
  "nat \<Rightarrow> u32 \<Rightarrow> u32 \<Rightarrow> 'p vchiq sched \<Rightarrow> 'p vchiq \<Rightarrow> (vchiq_status option \<times> 'p vchiq \<times> 'p vchiq sched) option" where
  "qm_service_quota p stride tx_end fs s =
     (if quota_full tx_end (service_quotas s p)
      then do {
        let s = upd_stats p (quota_stalls_update (\<lambda>n. n + 1)) s;
        let s = mutex_release slot_mutex_update s;
        (s, fs) \<leftarrow> sem_down (\<lambda>s. quota_event (service_quotas s p)) (\<lambda>f. upd_quota p (quota_event_update f)) fs s;
        if closing (the (services s p)) then Some (Some VCHIQ_ERROR, s, fs)
        else do {
          (s, fs) \<leftarrow> mutex_acquire slot_mutex slot_mutex_update fs s;
          if srvstate (the (services s p)) \<noteq> SRV_OPEN
          then Some (Some VCHIQ_ERROR, mutex_release slot_mutex_update s, fs)
          else qm_service_quota p stride (tx_end_index stride s) fs s
        }
      }
      else Some (None, s, fs))"

text \<open>The checks before a data message; \<open>None\<close> in the status is: go on, the mutex is held.\<close>

definition qm_data_checks ::
  "nat \<Rightarrow> u32 \<Rightarrow> 'p vchiq sched \<Rightarrow> 'p vchiq \<Rightarrow> (vchiq_status option \<times> 'p vchiq \<times> 'p vchiq sched) option" where
  "qm_data_checks p stride fs s =
     (if closing (the (services s p))
      then Some (Some VCHIQ_ERROR, mutex_release slot_mutex_update s, fs)
      else do {
        (tx_end, s, fs) \<leftarrow> qm_data_quota stride (tx_end_index stride s) fs s;
        qm_service_quota p stride tx_end fs s
      })"

text \<open>The accounting of a data message that has been placed in the stream.\<close>

definition qm_data_account :: "nat \<Rightarrow> 'p vchiq \<Rightarrow> 'p vchiq" where
  "qm_data_account p s =
     (let s = upd_quota p (message_use_count_update (\<lambda>n. n + 1)) s;
          tx_end = slot_queue_index (local_tx_pos s - 1);
          s = (if tx_end \<noteq> previous_data_index s
               then s\<lparr>previous_data_index := tx_end, data_use_count := data_use_count s + 1\<rparr> else s)
      in if tx_end \<noteq> previous_tx_index (service_quotas s p)
         then upd_quota p (slot_use_count_update (\<lambda>n. n + 1) \<circ> previous_tx_index_update (\<lambda>_. tx_end)) s
         else s)"

text \<open>The body of the message, its accounting and its header; \<open>False\<close> if the copy fails.\<close>

definition qm_write :: "nat option \<Rightarrow> u32 \<Rightarrow> element list \<Rightarrow> u32 \<Rightarrow> nat \<Rightarrow> 'p vchiq \<Rightarrow> bool \<times> 'p vchiq" where
  "qm_write service msgid elements n header s =
     (let (ok, s) =
        (if msg_type msgid = MSG_DATA
         then let p = the service; (ok, m) = copy_elements (header + HEADER_SIZE) elements (mem s)
              in if \<not> ok
                 then (False, upd_stats p (error_count_update (\<lambda>c. c + 1)) (s\<lparr>mem := m\<rparr>))
                 else let s = qm_data_account p (s\<lparr>mem := m\<rparr>)
                      in (True, upd_stats p (ctrl_tx_bytes_update (\<lambda>c. c + ucast n) \<circ> ctrl_tx_count_update (\<lambda>c. c + 1)) s)
         else let s = (if n \<noteq> 0
                       then s\<lparr>mem := memcpy (header + HEADER_SIZE) (the (el_data (hd elements)))
                                       (unat (el_size (hd elements))) (mem s)\<rparr>
                       else s)
              in (True, s\<lparr>st_stats := st_ctrl_tx_count_update (\<lambda>c. c + 1) (st_stats s)\<rparr>))
      in if \<not> ok then (False, s)
         else (True, s\<lparr>mem := set_hdr_size header n (set_hdr_msgid header msgid (mem s))\<rparr>))"

text \<open>Publish the message: the peer sees the new \<open>tx_pos\<close>.\<close>

definition qm_publish :: "nat option \<Rightarrow> u32 \<Rightarrow> bool \<Rightarrow> 'p vchiq \<Rightarrow> 'p vchiq" where
  "qm_publish service msgid keep_mutex s =
     (let s = local_update (tx_pos_update (\<lambda>_. local_tx_pos s)) s;
          s = (case service of
                 Some p \<Rightarrow> if msg_type msgid = MSG_CLOSE then vchiq_set_service_state p SRV_CLOSESENT s else s
               | None \<Rightarrow> s);
          s = (if \<not> keep_mutex then mutex_release slot_mutex_update s else s)
      in remote_event_signal trigger trigger_update s)"

definition queue_message ::
  "nat option \<Rightarrow> u32 \<Rightarrow> element list \<Rightarrow> u32 \<Rightarrow> qmflags \<Rightarrow> 'p vchiq sched \<Rightarrow> 'p vchiq
    \<Rightarrow> (vchiq_status \<times> 'p vchiq \<times> 'p vchiq sched) option" where
  "queue_message service msgid elements n flags fs s = do {
     let stride = calc_stride n;
     (s, fs) \<leftarrow> (if \<not> qm_no_mutex_lock flags then mutex_acquire slot_mutex slot_mutex_update fs s else Some (s, fs));
     (early, s, fs) \<leftarrow>
       (if msg_type msgid = MSG_DATA
        then if service = None \<or> qm_no_mutex_lock flags \<or> qm_no_mutex_unlock flags then None
             else qm_data_checks (the service) stride fs s
        else Some (None, s, fs));
     (case early of
        Some status \<Rightarrow> Some (status, s, fs)
      | None \<Rightarrow> do {
          (header, s, fs) \<leftarrow> reserve_space stride (qm_is_blocking flags) fs s;
          (case header of
             None \<Rightarrow>
               let s = (case service of
                          Some p \<Rightarrow> upd_stats p (slot_stalls_update (\<lambda>c. c + 1)) s | None \<Rightarrow> s);
                   s = (if \<not> qm_no_mutex_lock flags then mutex_release slot_mutex_update s else s)
               in Some (VCHIQ_RETRY, s, fs)
           | Some h \<Rightarrow>
               (case qm_write service msgid elements n h s of
                  (False, s) \<Rightarrow> Some (VCHIQ_ERROR, mutex_release slot_mutex_update s, fs)
                | (True, s) \<Rightarrow> Some (VCHIQ_SUCCESS, qm_publish service msgid (qm_no_mutex_unlock flags) s, fs)))
        })
   }"

section \<open>Synchronous messages\<close>

text \<open>\<open>SLOT_DATA_FROM_INDEX(state, local->slot_sync)\<close>; the mutex stays taken from a PAUSE to
  the RESUME.\<close>

definition qms_write :: "nat option \<Rightarrow> u32 \<Rightarrow> element list \<Rightarrow> u32 \<Rightarrow> nat \<Rightarrow> 'p vchiq \<Rightarrow> bool \<times> 'p vchiq" where
  "qms_write service msgid elements n header s =
     (let (ok, s) =
        (case service of
           Some p \<Rightarrow>
             let (ok, m) = copy_elements (header + HEADER_SIZE) elements (mem s)
             in if \<not> ok
                then (False, upd_stats p (error_count_update (\<lambda>c. c + 1)) (s\<lparr>mem := m\<rparr>))
                else (True, upd_stats p (ctrl_tx_bytes_update (\<lambda>c. c + ucast n) \<circ> ctrl_tx_count_update (\<lambda>c. c + 1))
                              (s\<lparr>mem := m\<rparr>))
         | None \<Rightarrow>
             let s = (if n \<noteq> 0
                      then s\<lparr>mem := memcpy (header + HEADER_SIZE) (the (el_data (hd elements)))
                                      (unat (el_size (hd elements))) (mem s)\<rparr>
                      else s)
             in (True, s\<lparr>st_stats := st_ctrl_tx_count_update (\<lambda>c. c + 1) (st_stats s)\<rparr>))
      in if \<not> ok then (False, s)
         else (True, s\<lparr>mem := set_hdr_msgid header msgid (set_hdr_size header n (mem s))\<rparr>))"

definition queue_message_sync ::
  "nat option \<Rightarrow> u32 \<Rightarrow> element list \<Rightarrow> u32 \<Rightarrow> 'p vchiq sched \<Rightarrow> 'p vchiq
    \<Rightarrow> (vchiq_status \<times> 'p vchiq \<times> 'p vchiq sched) option" where
  "queue_message_sync service msgid elements n fs s = do {
     (s, fs) \<leftarrow> (if msg_type msgid \<noteq> MSG_RESUME then mutex_acquire sync_mutex sync_mutex_update fs s else Some (s, fs));
     (s, fs) \<leftarrow> remote_event_wait sync_release sync_release_update fs s;
     (case qms_write service msgid elements n (slot_data (slot_sync (local s))) s of
        (False, s) \<Rightarrow> Some (VCHIQ_ERROR, mutex_release sync_mutex_update s, fs)
      | (True, s) \<Rightarrow>
          let s = remote_event_signal sync_trigger sync_trigger_update s;
              s = (if msg_type msgid \<noteq> MSG_PAUSE then mutex_release sync_mutex_update s else s)
          in Some (VCHIQ_SUCCESS, s, fs))
   }"

end
