(* ===== verification/Vchiq_Arm.thy ===== *)
theory Vchiq_Arm
  imports Vchiq_Send
begin

text \<open>
  vchiq_arm.c and the platform hooks of vchiq_2835_arm.c: the use counts of the services
  and of the VideoCore, and the suspend and resume state machines they drive.
  \<open>susp_res_lock\<close> is never held across a yield, so it is left out.
\<close>

section \<open>State\<close>

datatype suspend_status = VC_SUSPEND_FORCE_CANCELED | VC_SUSPEND_REJECTED | VC_SUSPEND_FAILED
  | VC_SUSPEND_IDLE | VC_SUSPEND_REQUESTED | VC_SUSPEND_IN_PROGRESS | VC_SUSPEND_SUSPENDED

datatype resume_status = VC_RESUME_FAILED | VC_RESUME_IDLE | VC_RESUME_REQUESTED
  | VC_RESUME_IN_PROGRESS | VC_RESUME_RESUMED

fun suspend_val :: "suspend_status \<Rightarrow> int" where
  "suspend_val VC_SUSPEND_FORCE_CANCELED = - 3"
| "suspend_val VC_SUSPEND_REJECTED = - 2"
| "suspend_val VC_SUSPEND_FAILED = - 1"
| "suspend_val VC_SUSPEND_IDLE = 0"
| "suspend_val VC_SUSPEND_REQUESTED = 1"
| "suspend_val VC_SUSPEND_IN_PROGRESS = 2"
| "suspend_val VC_SUSPEND_SUSPENDED = 3"

fun resume_val :: "resume_status \<Rightarrow> int" where
  "resume_val VC_RESUME_FAILED = - 1"
| "resume_val VC_RESUME_IDLE = 0"
| "resume_val VC_RESUME_REQUESTED = 1"
| "resume_val VC_RESUME_IN_PROGRESS = 2"
| "resume_val VC_RESUME_RESUMED = 3"

datatype use_type = USE_TYPE_SERVICE | USE_TYPE_SERVICE_NO_RESUME | USE_TYPE_VCHIQ

text \<open>\<open>struct completion\<close> is a counter; \<open>complete_all\<close> sets it to half its range.\<close>

type_synonym completion = nat

definition complete_all :: completion where
  "complete_all = 2147483647"

text \<open>\<open>PAGELIST_T\<close>: the pages of a bulk transfer's buffer, in runs of consecutive pages.\<close>

record pagelist =
  pl_length :: u32
  pl_type :: u16
  pl_offset :: u16
  pl_addrs :: "u32 list"

text \<open>\<open>VCHIQ_ARM_STATE_T\<close>, and the page lists allocated by address.\<close>

record arm_state =
  ka_evt :: completion
  ka_use_count :: int
  ka_use_ack_count :: nat
  ka_release_count :: int
  vc_suspend_complete :: completion
  vc_resume_complete :: completion
  vc_suspend_state :: suspend_status
  vc_resume_state :: resume_status
  wake_address :: u32
  suspend_timer_running :: bool
  videocore_use_count :: int
  peer_use_count :: int
  resume_blocked :: bool
  resume_blocker :: completion
  blocked_count :: int
  blocked_blocker :: completion
  autosuspend_override :: int
  first_connect :: bool
  ka_thread :: bool
  pagelists :: "ptr \<Rightarrow> pagelist option"

type_synonym vstate = "arm_state vchiq"

definition upd_arm :: "(arm_state \<Rightarrow> arm_state) \<Rightarrow> vstate \<Rightarrow> vstate" where
  "upd_arm f s = plat_update f s"

section \<open>The two state machines\<close>

function (sequential) set_suspend_state :: "suspend_status \<Rightarrow> arm_state \<Rightarrow> arm_state"
  and set_resume_state :: "resume_status \<Rightarrow> arm_state \<Rightarrow> arm_state" where
  "set_suspend_state new_state a =
     (let a = a\<lparr>vc_suspend_state := new_state\<rparr>
      in case new_state of
           VC_SUSPEND_FORCE_CANCELED \<Rightarrow> a\<lparr>vc_suspend_complete := complete_all\<rparr>
         | VC_SUSPEND_REJECTED \<Rightarrow> a\<lparr>vc_suspend_complete := complete_all\<rparr>
         | VC_SUSPEND_FAILED \<Rightarrow>
             a\<lparr>vc_suspend_complete := complete_all, vc_resume_state := VC_RESUME_RESUMED,
               vc_resume_complete := complete_all\<rparr>
         | VC_SUSPEND_IDLE \<Rightarrow> a\<lparr>vc_suspend_complete := 0\<rparr>
         | VC_SUSPEND_REQUESTED \<Rightarrow> a
         | VC_SUSPEND_IN_PROGRESS \<Rightarrow> set_resume_state VC_RESUME_IDLE a
         | VC_SUSPEND_SUSPENDED \<Rightarrow> a\<lparr>vc_suspend_complete := complete_all\<rparr>)"
| "set_resume_state new_state a =
     (let a = a\<lparr>vc_resume_state := new_state\<rparr>
      in case new_state of
           VC_RESUME_FAILED \<Rightarrow> a
         | VC_RESUME_IDLE \<Rightarrow> a\<lparr>vc_resume_complete := 0\<rparr>
         | VC_RESUME_REQUESTED \<Rightarrow> a
         | VC_RESUME_IN_PROGRESS \<Rightarrow> a
         | VC_RESUME_RESUMED \<Rightarrow> set_suspend_state VC_SUSPEND_IDLE (a\<lparr>vc_resume_complete := complete_all\<rparr>))"
  by pat_completeness auto
termination
  by (relation "measure (\<lambda>x. case x of
      Inl (n, _) \<Rightarrow> of_bool (n = VC_SUSPEND_IN_PROGRESS) | Inr (n, _) \<Rightarrow> of_bool (n = VC_RESUME_RESUMED))") auto

text \<open>\<open>vchiq_platform_videocore_wanted\<close> is constantly 1 here: there is no automatic suspend.\<close>

definition platform_videocore_wanted :: bool where
  "platform_videocore_wanted = True"

definition vchiq_videocore_wanted :: "arm_state \<Rightarrow> bool" where
  "vchiq_videocore_wanted a =
     (if blocked_count a \<noteq> 0 then True
      else if videocore_use_count a = 0 then (if resume_blocked a then False else platform_videocore_wanted)
      else True)"

definition vchiq_arm_init_state :: "arm_state \<Rightarrow> arm_state" where
  "vchiq_arm_init_state a =
     (let a = a\<lparr>ka_evt := 0, ka_use_count := 0, ka_use_ack_count := 0, ka_release_count := 0,
                vc_suspend_complete := 0, vc_resume_complete := 0\<rparr>;
          a = set_resume_state VC_RESUME_RESUMED a
      in a\<lparr>resume_blocker := complete_all, blocked_blocker := complete_all, suspend_timer_running := False,
           first_connect := False\<rparr>)"

definition need_resume :: "arm_state \<Rightarrow> bool" where
  "need_resume a \<longleftrightarrow>
     suspend_val (vc_suspend_state a) > suspend_val VC_SUSPEND_IDLE \<and>
     resume_val (vc_resume_state a) < resume_val VC_RESUME_REQUESTED \<and> vchiq_videocore_wanted a"

definition stop_suspend_timer :: "arm_state \<Rightarrow> arm_state" where
  "stop_suspend_timer a = (if suspend_timer_running a then a\<lparr>suspend_timer_running := False\<rparr> else a)"

definition unblock_resume :: "arm_state \<Rightarrow> arm_state" where
  "unblock_resume a = a\<lparr>resume_blocker := complete_all, resume_blocked := False\<rparr>"

text \<open>\<open>vchiq_arm_vcsuspend\<close>: ask the slot handler to suspend, unless that is under way.\<close>

definition vchiq_arm_vcsuspend :: "vstate \<Rightarrow> vstate" where
  "vchiq_arm_vcsuspend s =
     (let request = (\<lambda>s. request_poll None POLL_TERMINATE (upd_arm (set_suspend_state VC_SUSPEND_REQUESTED) s))
      in case vc_suspend_state (plat s) of
           VC_SUSPEND_REQUESTED \<Rightarrow> s
         | VC_SUSPEND_IN_PROGRESS \<Rightarrow> s
         | VC_SUSPEND_IDLE \<Rightarrow> request s
         | _ \<Rightarrow> request (upd_arm (set_suspend_state VC_SUSPEND_IDLE) s))"

text \<open>\<open>vchiq_platform_suspend\<close> and \<open>vchiq_platform_resume\<close> do nothing on this platform.\<close>

definition vchiq_platform_check_suspend :: "vstate \<Rightarrow> vstate" where
  "vchiq_platform_check_suspend s =
     (if vc_suspend_state (plat s) = VC_SUSPEND_REQUESTED \<and> vc_resume_state (plat s) = VC_RESUME_RESUMED
      then upd_arm (set_suspend_state VC_SUSPEND_IN_PROGRESS) s else s)"

definition vchiq_check_suspend :: "vstate \<Rightarrow> vstate" where
  "vchiq_check_suspend s =
     (if vc_suspend_state (plat s) \<noteq> VC_SUSPEND_SUSPENDED \<and> first_connect (plat s) \<and>
         \<not> vchiq_videocore_wanted (plat s)
      then vchiq_arm_vcsuspend s else s)"

definition vchiq_check_resume :: "vstate \<Rightarrow> bool \<times> vstate" where
  "vchiq_check_resume s =
     (if need_resume (plat s)
      then (True, request_poll None POLL_TERMINATE (upd_arm (set_resume_state VC_RESUME_REQUESTED) s))
      else (False, s))"

definition vchiq_arm_allow_resume :: "vstate sched \<Rightarrow> vstate \<Rightarrow> (int \<times> vstate \<times> vstate sched) option" where
  "vchiq_arm_allow_resume fs s = do {
     let (resume, s) = vchiq_check_resume (upd_arm unblock_resume s);
     (s, fs) \<leftarrow>
       (if resume
        then sem_down (\<lambda>s. vc_resume_complete (plat s)) (\<lambda>f. upd_arm (vc_resume_complete_update f)) fs s
        else Some (s, fs));
     Some (if vc_suspend_state (plat s) = VC_SUSPEND_SUSPENDED then - 1 else 0, s, fs)
   }"

definition vchiq_platform_check_resume :: "vstate \<Rightarrow> vstate" where
  "vchiq_platform_check_resume s =
     (if wake_address (plat s) = 0 then s
      else if vc_resume_state (plat s) = VC_RESUME_IN_PROGRESS then s
      else if vc_resume_state (plat s) = VC_RESUME_REQUESTED
      then upd_arm (set_resume_state VC_RESUME_IN_PROGRESS) s else s)"

section \<open>Use counts\<close>

text \<open>Messages about the use of this side by the other: \<open>vchiq_send_remote_use\<close> and the like.\<close>

definition send_remote :: "u32 \<Rightarrow> vstate sched \<Rightarrow> vstate \<Rightarrow> (vchiq_status \<times> vstate \<times> vstate sched) option" where
  "send_remote type fs s =
     (if conn_state s \<noteq> DISCONNECTED
      then queue_message None (make_msg type 0 0) [] 0 qm_nonblocking fs s
      else Some (VCHIQ_RETRY, s, fs))"

definition vchiq_send_remote_use ::
  "vstate sched \<Rightarrow> vstate \<Rightarrow> (vchiq_status \<times> vstate \<times> vstate sched) option" where
  "vchiq_send_remote_use = send_remote MSG_REMOTE_USE"

definition vchiq_send_remote_release ::
  "vstate sched \<Rightarrow> vstate \<Rightarrow> (vchiq_status \<times> vstate \<times> vstate sched) option" where
  "vchiq_send_remote_release = send_remote MSG_REMOTE_RELEASE"

definition vchiq_send_remote_use_active ::
  "vstate sched \<Rightarrow> vstate \<Rightarrow> (vchiq_status \<times> vstate \<times> vstate sched) option" where
  "vchiq_send_remote_use_active = send_remote MSG_REMOTE_USE_ACTIVE"

text \<open>The wait in \<open>vchiq_use_internal\<close> while a forced suspend blocks resuming.\<close>

partial_function (option) use_wait_unblocked :: "vstate sched \<Rightarrow> vstate \<Rightarrow> (vstate \<times> vstate sched) option" where
  "use_wait_unblocked fs s =
     (if resume_blocked (plat s)
      then if vc_suspend_state (plat s) = VC_SUSPEND_IDLE
           then Some (upd_arm (set_suspend_state VC_SUSPEND_FORCE_CANCELED) s, fs)
           else if resume_blocker (plat s) \<noteq> 0
           then use_wait_unblocked fs (upd_arm (resume_blocker_update (\<lambda>n. n - 1)) s)
           else do {
             let s = upd_arm (blocked_count_update (\<lambda>n. n + 1)) s;
             (s, fs) \<leftarrow> sem_down (\<lambda>s. resume_blocker (plat s)) (\<lambda>f. upd_arm (resume_blocker_update f)) fs s;
             let s = upd_arm (blocked_count_update (\<lambda>n. n - 1)) s;
             use_wait_unblocked fs
               (if blocked_count (plat s) = 0 then upd_arm (blocked_blocker_update (\<lambda>_. complete_all)) s else s)
           }
      else Some (s, fs))"

fun use_acknowledge :: "nat \<Rightarrow> vstate sched \<Rightarrow> vstate \<Rightarrow> (vstate \<times> vstate sched) option" where
  "use_acknowledge 0 fs s = Some (s, fs)"
| "use_acknowledge (Suc n) fs s = do {
     (status, s, fs) \<leftarrow> vchiq_send_remote_use_active fs s;
     if status = VCHIQ_SUCCESS then use_acknowledge n fs s
     else Some (upd_arm (ka_use_ack_count_update (\<lambda>c. c + Suc n)) s, fs)
   }"

definition entity_use_count :: "nat option \<Rightarrow> vstate \<Rightarrow> int" where
  "entity_use_count service s =
     (case service of Some p \<Rightarrow> service_use_count (the (services s p)) | None \<Rightarrow> peer_use_count (plat s))"

definition upd_entity_use_count :: "nat option \<Rightarrow> (int \<Rightarrow> int) \<Rightarrow> vstate \<Rightarrow> vstate" where
  "upd_entity_use_count service f =
     (case service of Some p \<Rightarrow> upd_service p (service_use_count_update f) | None \<Rightarrow> upd_arm (peer_use_count_update f))"

definition vchiq_use_internal ::
  "nat option \<Rightarrow> use_type \<Rightarrow> vstate sched \<Rightarrow> vstate \<Rightarrow> (vchiq_status \<times> vstate \<times> vstate sched) option" where
  "vchiq_use_internal service use_type fs s =
     (if use_type \<noteq> USE_TYPE_VCHIQ \<and> service = None then Some (VCHIQ_ERROR, s, fs)
      else do {
        let entity = (if use_type = USE_TYPE_VCHIQ then None else service);
        (s, fs) \<leftarrow> use_wait_unblocked fs s;
        let s = upd_arm stop_suspend_timer s;
        let s = upd_arm (videocore_use_count_update (\<lambda>n. n + 1)) s;
        let s = upd_entity_use_count entity (\<lambda>n. n + 1) s;
        let s = (if suspend_val (vc_suspend_state (plat s)) \<le> suspend_val VC_SUSPEND_REQUESTED
                 then upd_arm (set_suspend_state VC_SUSPEND_IDLE) s else s);
        let s = (if use_type \<noteq> USE_TYPE_SERVICE_NO_RESUME \<and> need_resume (plat s)
                 then request_poll None POLL_TERMINATE (upd_arm (set_resume_state VC_RESUME_REQUESTED) s) else s);
        (s, fs) \<leftarrow>
          (if vc_resume_complete (plat s) \<noteq> 0
           then Some (upd_arm (vc_resume_complete_update (\<lambda>n. n - 1)) s, fs)
           else sem_down (\<lambda>s. vc_resume_complete (plat s)) (\<lambda>f. upd_arm (vc_resume_complete_update f)) fs s);
        let acks = ka_use_ack_count (plat s);
        (s, fs) \<leftarrow> use_acknowledge acks fs (upd_arm (ka_use_ack_count_update (\<lambda>_. 0)) s);
        Some (VCHIQ_SUCCESS, s, fs)
      })"

text \<open>
  \<open>vchiq_release_internal\<close>: the statements that decrement \<open>videocore_use_count\<close> and the
  entity's count are commented out in the source. The suspend timer is not used on this
  platform.
\<close>

definition vchiq_release_internal :: "nat option \<Rightarrow> vstate \<Rightarrow> vchiq_status \<times> vstate" where
  "vchiq_release_internal service s =
     (if videocore_use_count (plat s) = 0 \<or> entity_use_count service s = 0 then (VCHIQ_ERROR, s)
      else if \<not> vchiq_videocore_wanted (plat s) then (VCHIQ_SUCCESS, vchiq_arm_vcsuspend s)
      else (VCHIQ_SUCCESS, s))"

definition vchiq_use_service_internal ::
  "nat \<Rightarrow> vstate sched \<Rightarrow> vstate \<Rightarrow> (vchiq_status \<times> vstate \<times> vstate sched) option" where
  "vchiq_use_service_internal p = vchiq_use_internal (Some p) USE_TYPE_SERVICE"

definition vchiq_release_service_internal :: "nat \<Rightarrow> vstate \<Rightarrow> vchiq_status \<times> vstate" where
  "vchiq_release_service_internal p = vchiq_release_internal (Some p)"

definition vchiq_check_service :: "nat \<Rightarrow> vstate \<Rightarrow> vchiq_status" where
  "vchiq_check_service p s =
     (if service_use_count (the (services s p)) \<noteq> 0 then VCHIQ_SUCCESS else VCHIQ_ERROR)"

section \<open>The other side's use, and the connection\<close>

definition vchiq_on_remote_use :: "vstate \<Rightarrow> vstate" where
  "vchiq_on_remote_use = upd_arm (\<lambda>a. a\<lparr>ka_use_count := ka_use_count a + 1, ka_evt := ka_evt a + 1\<rparr>)"

definition vchiq_on_remote_release :: "vstate \<Rightarrow> vstate" where
  "vchiq_on_remote_release = upd_arm (\<lambda>a. a\<lparr>ka_release_count := ka_release_count a + 1, ka_evt := ka_evt a + 1\<rparr>)"

text \<open>On the first connection the keepalive thread is created.\<close>

definition vchiq_platform_conn_state_changed :: "vstate \<Rightarrow> vstate" where
  "vchiq_platform_conn_state_changed s =
     (if conn_state s = CONNECTED \<and> \<not> first_connect (plat s)
      then upd_arm (\<lambda>a. a\<lparr>first_connect := True, ka_thread := True\<rparr>) s else s)"

definition vchiq_set_conn_state :: "connstate \<Rightarrow> vstate \<Rightarrow> vstate" where
  "vchiq_set_conn_state newstate s = vchiq_platform_conn_state_changed (s\<lparr>conn_state := newstate\<rparr>)"

end
