(* ===== verification/Vchiq_Stream.thy ===== *)
theory Vchiq_Stream
  imports Vchiq_Send
begin

text \<open>
  The transmit stream as its reader sees it: a sequence of messages, each inside one slot.
  The theory shows that \<open>queue_message\<close> appends exactly the message it is given (after a
  padding message where a slot is too full), leaves every unread message alone, never
  meets its \<open>BUG_ON\<close>, and predicts correctly which slot the message will end in.
\<close>

section \<open>Addresses of stream positions\<close>

lemma div_mod_plus:
  fixes k :: nat
  assumes "k mod c + i < c"
  shows "(k + i) div c = k div c" "(k + i) mod c = k mod c + i"
proof -
  have "i < c" using assms by simp
  then show "(k + i) div c = k div c" using assms by (subst div_add1_eq) simp
  have "(k + i) mod c = (k mod c + i) mod c" by (simp only: mod_add_left_eq)
  then show "(k + i) mod c = k mod c + i" using assms by simp
qed

lemma div_mod_multiple:
  fixes k :: nat
  assumes "k mod c = 0"
  shows "(k + i) div c = k div c + i div c" "(k + i) mod c = i mod c"
proof -
  show "(k + i) div c = k div c + i div c" using assms by (subst div_add1_eq) simp
  have "(k + i) mod c = (k mod c + i) mod c" by (simp only: mod_add_left_eq)
  then show "(k + i) mod c = i mod c" using assms by simp
qed

lemma div_mod_eqD:
  fixes i j :: nat
  assumes "i div c = j div c" "i mod c = j mod c"
  shows "i = j"
  using assms by (metis div_mult_mod_eq)

text \<open>The address of position \<open>k\<close> of the stream; the positions are those of \<open>tx_pos\<close>
  without its wrap-around, which the 64 entries of the queue make harmless.\<close>

definition naddr :: "shared_state \<Rightarrow> nat \<Rightarrow> nat" where
  "naddr sh k = slot_queue sh (k div 4096 mod 64) * 4096 + k mod 4096"

definition addr :: "shared_state \<Rightarrow> u32 \<Rightarrow> nat" where
  "addr sh p = slot_data (slot_at sh (slot_queue_index p)) + slot_offset p"

lemma slot_offset_mod: "slot_offset p = unat p mod 4096"
proof -
  have "unat (p AND (4096 - 1)) = unat p mod 2 ^ 12" by (rule unat_and_mask) simp
  then show ?thesis by (simp add: slot_offset_def)
qed

lemma unat_slot_queue_index: "unat (slot_queue_index p) = unat p div 4096"
  by (simp add: slot_queue_index_def unat_div)

lemma slot_at_mod: "slot_at sh idx = slot_queue sh (unat idx mod 64)"
proof -
  have "unat (idx AND (64 - 1)) = unat idx mod 2 ^ 6" by (rule unat_and_mask) simp
  then show ?thesis by (simp add: slot_at_def)
qed

lemma addr_naddr: "addr sh p = naddr sh (unat p)"
  by (simp add: addr_def naddr_def slot_data_def slot_at_mod unat_slot_queue_index slot_offset_mod)

lemma naddr_mod: "naddr sh (k mod 2 ^ 32) = naddr sh k"
proof -
  have "k mod 2 ^ 32 div 4096 mod 64 = k div 4096 mod 64"
  proof -
    have "k mod (4096 * 64) div 4096 = k div 4096 mod 64" for k :: nat
      unfolding mod_mult2_eq by simp
    then have 1: "k div 4096 mod 64 = k mod 2 ^ 18 div 4096" for k :: nat by simp
    show ?thesis unfolding 1 using mod_mod_pow2_le [of 18 32 k] by simp
  qed
  moreover have "k mod 2 ^ 32 mod 4096 = k mod 4096"
    using mod_mod_pow2_le [of 12 32 k] by simp
  ultimately show ?thesis by (simp only: naddr_def)
qed

lemma unat_plus_of_nat: "unat (p + of_nat j :: u32) = (unat p + j) mod 2 ^ 32"
  by (simp add: unat_word_ariths unat_of_nat mod_simps)

lemma addr_plus: "addr sh (p + of_nat j) = naddr sh (unat p + j)"
  by (simp only: addr_naddr unat_plus_of_nat naddr_mod)

lemma naddr_plus:
  assumes "k mod 4096 + i < 4096"
  shows "naddr sh (k + i) = naddr sh k + i"
  unfolding naddr_def div_mod_plus [OF assms] by simp

text \<open>Distinct positions of a window of distinct slots have distinct addresses.\<close>

definition window :: "shared_state \<Rightarrow> nat \<Rightarrow> nat \<Rightarrow> bool" where
  "window sh first n \<longleftrightarrow> n \<le> 64 \<and> inj_on (\<lambda>i. slot_queue sh ((first + i) mod 64)) {..<n}"

lemma naddr_inj:
  assumes "window sh (base div 4096) n" "base mod 4096 = 0" "i < n * 4096" "j < n * 4096"
    "naddr sh (base + i) = naddr sh (base + j)"
  shows "i = j"
proof -
  note split = div_mod_multiple [OF assms(2)]
  have eq: "slot_queue sh ((base div 4096 + i div 4096) mod 64) * 4096 + i mod 4096 =
      slot_queue sh ((base div 4096 + j div 4096) mod 64) * 4096 + j mod 4096"
    using assms(5) by (simp only: naddr_def split)
  then have m: "i mod 4096 = j mod 4096"
    by (drule_tac arg_cong [where f = "\<lambda>x. x mod 4096"]) simp
  with eq have q: "slot_queue sh ((base div 4096 + i div 4096) mod 64) =
      slot_queue sh ((base div 4096 + j div 4096) mod 64)" by simp
  have "i div 4096 < n" "j div 4096 < n" using assms(3,4) by (auto intro: less_mult_imp_div_less)
  then have "i div 4096 = j div 4096"
    using assms(1) q by (auto simp: window_def dest: inj_onD)
  then show ?thesis using m by (rule div_mod_eqD)
qed

section \<open>Messages in the stream\<close>

definition bytes_at :: "memory \<Rightarrow> nat \<Rightarrow> nat \<Rightarrow> u8 list" where
  "bytes_at m a n = map (\<lambda>i. m (a + i)) [0..<n]"

text \<open>The messages in the \<open>d\<close> bytes of the stream from position \<open>k\<close>: identifier and data.
  \<open>None\<close> if a message is cut or does not lie in one slot.\<close>

definition stride_at :: "memory \<Rightarrow> shared_state \<Rightarrow> nat \<Rightarrow> nat" where
  "stride_at m sh k = unat (calc_stride (hdr_size m (naddr sh k)))"

definition msg_fits :: "memory \<Rightarrow> shared_state \<Rightarrow> nat \<Rightarrow> nat \<Rightarrow> bool" where
  "msg_fits m sh k d \<longleftrightarrow>
     8 \<le> stride_at m sh k \<and> stride_at m sh k \<le> d \<and> k mod 4096 + stride_at m sh k \<le> 4096 \<and>
     unat (hdr_size m (naddr sh k)) + 8 \<le> stride_at m sh k"

definition msg_at :: "memory \<Rightarrow> shared_state \<Rightarrow> nat \<Rightarrow> u32 \<times> u8 list" where
  "msg_at m sh k = (hdr_msgid m (naddr sh k), bytes_at m (naddr sh k + 8) (unat (hdr_size m (naddr sh k))))"

function stream :: "memory \<Rightarrow> shared_state \<Rightarrow> nat \<Rightarrow> nat \<Rightarrow> (u32 \<times> u8 list) list option" where
  "stream m sh k d =
     (if d = 0 then Some []
      else if msg_fits m sh k d
      then map_option (Cons (msg_at m sh k)) (stream m sh (k + stride_at m sh k) (d - stride_at m sh k))
      else None)"
  by pat_completeness auto
termination
  by (relation "measure (\<lambda>(m, sh, k, d). d)") (auto simp: msg_fits_def)

declare stream.simps [simp del]

lemma stream_0 [simp]: "stream m sh k 0 = Some []"
  by (subst stream.simps) simp

lemma stream_bad: "d \<noteq> 0 \<Longrightarrow> \<not> msg_fits m sh k d \<Longrightarrow> stream m sh k d = None"
  by (subst stream.simps) simp

lemma stream_next: "d \<noteq> 0 \<Longrightarrow> msg_fits m sh k d \<Longrightarrow>
    stream m sh k d = map_option (Cons (msg_at m sh k)) (stream m sh (k + stride_at m sh k) (d - stride_at m sh k))"
  by (subst stream.simps) simp

lemma msg_cong:
  assumes "\<And>j. j < d \<Longrightarrow> m (naddr sh (k + j)) = m' (naddr sh (k + j))"
  shows "msg_fits m sh k d = msg_fits m' sh k d"
    and "msg_fits m sh k d \<Longrightarrow> msg_at m sh k = msg_at m' sh k \<and> stride_at m sh k = stride_at m' sh k"
proof -
  let ?h = "naddr sh k"
  have agree: "m (?h + i) = m' (?h + i)" if "i < d" "k mod 4096 + i < 4096" for i
    using assms [of i] naddr_plus [of k i sh] that by simp
  have hdr: "hdr_msgid m ?h = hdr_msgid m' ?h \<and> hdr_size m ?h = hdr_size m' ?h"
    if "8 \<le> d" "k mod 4096 + 8 \<le> 4096"
  proof
    show "hdr_msgid m ?h = hdr_msgid m' ?h"
      unfolding hdr_msgid_def by (rule load32_cong) (use that in \<open>simp add: agree\<close>)
    show "hdr_size m ?h = hdr_size m' ?h"
      unfolding hdr_size_def by (rule load32_cong) (use that in \<open>simp add: agree add.assoc\<close>)
  qed
  then show fits: "msg_fits m sh k d = msg_fits m' sh k d"
    by (fastforce simp: msg_fits_def stride_at_def)
  assume f: "msg_fits m sh k d"
  then have eq: "hdr_msgid m ?h = hdr_msgid m' ?h" "hdr_size m ?h = hdr_size m' ?h"
    using hdr by (auto simp: msg_fits_def)
  moreover have "bytes_at m (?h + 8) (unat (hdr_size m ?h)) = bytes_at m' (?h + 8) (unat (hdr_size m ?h))"
    unfolding bytes_at_def
  proof (rule map_cong [OF refl])
    fix i assume "i \<in> set [0..<unat (hdr_size m ?h)]"
    then have "8 + i < d" "k mod 4096 + (8 + i) < 4096" using f by (auto simp: msg_fits_def)
    then show "m (?h + 8 + i) = m' (?h + 8 + i)" using agree [of "8 + i"] by (simp only: add.assoc)
  qed
  ultimately show "msg_at m sh k = msg_at m' sh k \<and> stride_at m sh k = stride_at m' sh k"
    by (simp add: msg_at_def stride_at_def)
qed

lemma stream_cong:
  assumes "\<And>j. j < d \<Longrightarrow> m (naddr sh (k + j)) = m' (naddr sh (k + j))"
  shows "stream m sh k d = stream m' sh k d"
  using assms
proof (induction m sh k d rule: stream.induct)
  case (1 m sh k d)
  note c = msg_cong [where m = m and m' = m' and sh = sh and k = k and d = d, OF 1(2)]
  show ?case
  proof (cases "d \<noteq> 0 \<and> msg_fits m sh k d")
    case True
    then have d: "d \<noteq> 0" and f: "msg_fits m sh k d" by auto
    have "stream m sh (k + stride_at m sh k) (d - stride_at m sh k) =
        stream m' sh (k + stride_at m sh k) (d - stride_at m sh k)"
      by (rule 1(1) [OF d f]) (use 1(2) in \<open>simp add: add.assoc\<close>)
    then show ?thesis using c f d by (simp add: stream_next)
  next
    case False
    then show ?thesis using c(1) by (cases "d = 0") (simp_all add: stream_bad)
  qed
qed

lemma stream_append:
  assumes "stream m sh k d = Some ms" "stream m sh (k + d) d' = Some ms'"
  shows "stream m sh k (d + d') = Some (ms @ ms')"
  using assms
proof (induction m sh k d arbitrary: ms rule: stream.induct)
  case (1 m sh k d)
  show ?case
  proof (cases "d = 0")
    case True
    with 1(2,3) show ?thesis by simp
  next
    case False
    let ?st = "stride_at m sh k"
    have f: "msg_fits m sh k d"
    proof (rule ccontr)
      assume "\<not> msg_fits m sh k d"
      from stream_bad [OF False this] 1(2) show False by simp
    qed
    have "map_option (Cons (msg_at m sh k)) (stream m sh (k + ?st) (d - ?st)) = Some ms"
      by (rule trans [OF stream_next [OF False f, symmetric] 1(2)])
    then obtain ms1 where ms1: "stream m sh (k + ?st) (d - ?st) = Some ms1" "ms = msg_at m sh k # ms1"
      by blast
    have le: "?st \<le> d" using f by (simp add: msg_fits_def)
    then have eq: "k + ?st + (d - ?st) = k + d" "d + d' - ?st = d - ?st + d'" by simp_all
    have "stream m sh (k + ?st) (d - ?st + d') = Some (ms1 @ ms')"
      by (rule 1(1) [OF False f ms1(1)]) (subst eq(1), rule 1(3))
    then have "stream m sh (k + ?st) (d + d' - ?st) = Some (ms1 @ ms')" unfolding eq(2) .
    moreover have "msg_fits m sh k (d + d')" using f by (simp add: msg_fits_def)
    ultimately show ?thesis using stream_next [of "d + d'" m sh k] False ms1(2) by simp
  qed
qed

lemma stream_one:
  assumes "hdr_size m (naddr sh k) = n" "unat (calc_stride n) = st" "8 \<le> st"
    "k mod 4096 + st \<le> 4096" "unat n + 8 \<le> st"
  shows "stream m sh k st = Some [msg_at m sh k]"
proof -
  have "stride_at m sh k = st" using assms by (simp add: stride_at_def)
  then have "msg_fits m sh k st" using assms by (simp add: msg_fits_def)
  then show ?thesis using assms(3) \<open>stride_at m sh k = st\<close> by (simp add: stream_next)
qed

text \<open>Writing a message leaves the messages before it alone.\<close>

lemma stream_frame:
  assumes win: "window sh (k div 4096) w" and room: "k mod 4096 + d + n \<le> w * 4096"
    and fits: "(k + d) mod 4096 + n \<le> 4096"
    and same: "\<And>a. a < naddr sh (k + d) \<or> naddr sh (k + d) + n \<le> a \<Longrightarrow> m' a = m a"
  shows "stream m' sh k d = stream m sh k d"
proof (rule stream_cong)
  fix j assume j: "j < d"
  let ?b = "k mod 4096" and ?base = "k div 4096 * 4096"
  have base: "?base mod 4096 = 0" by simp
  have win': "window sh (?base div 4096) w" using win by simp
  have at: "naddr sh (?base + (?b + i)) = naddr sh (k + i)" for i
    by (simp only: add.assoc [symmetric] div_mult_mod_eq)
  have "naddr sh (k + j) < naddr sh (k + d) \<or> naddr sh (k + d) + n \<le> naddr sh (k + j)"
  proof (rule ccontr)
    assume "\<not> ?thesis"
    then have le: "naddr sh (k + d) \<le> naddr sh (k + j)" and less: "naddr sh (k + j) < naddr sh (k + d) + n"
      by linarith+
    obtain i where i: "naddr sh (k + j) = naddr sh (k + d) + i" using le_Suc_ex [OF le] by blast
    then have "i < n" using less by linarith
    then have "(k + d) mod 4096 + i < 4096" using fits by linarith
    then have "naddr sh (k + j) = naddr sh (k + (d + i))"
      unfolding i using naddr_plus [of "k + d" i sh] by (simp only: add.assoc)
    then have "naddr sh (?base + (?b + j)) = naddr sh (?base + (?b + (d + i)))" unfolding at .
    then have "?b + j = ?b + (d + i)"
      by (rule naddr_inj [OF win' base, rotated 2]) (use j \<open>i < n\<close> room in linarith)+
    then show False using j by linarith
  qed
  then show "m' (naddr sh (k + j)) = m (naddr sh (k + j))" by (rule same)
qed

section \<open>The sender's invariant\<close>

text \<open>
  \<open>tx_state r d w s\<close>: the reader is at position \<open>r\<close>, the next message goes \<open>d\<close> bytes further,
  and the \<open>w\<close> slots from the reader's on are distinct, the last of them the last free one.
  \<open>slots_used\<close> counts those among them that the unread messages reach into.
\<close>

definition slots_used :: "u32 \<Rightarrow> nat \<Rightarrow> nat" where
  "slots_used r d = (unat r mod 4096 + d + 4095) div 4096"

definition tx_state :: "u32 \<Rightarrow> nat \<Rightarrow> 'p vchiq \<Rightarrow> bool" where
  "tx_state r d s \<longleftrightarrow>
     local_tx_pos s = r + of_nat d \<and> unat r mod 8 = 0 \<and> d mod 8 = 0 \<and>
     window (local s) (unat r div 4096) (slots_used r d + slot_available_event s) \<and>
     slot_queue_available s * 4096 =
       r - of_nat (unat r mod 4096) + of_nat ((slots_used r d + slot_available_event s) * 4096) \<and>
     ((unat r + d) mod 4096 \<noteq> 0 \<longrightarrow>
        tx_data s = Some (slot_data (slot_queue (local s) ((unat r + d) div 4096 mod 64))))"

definition tx_inv :: "u32 \<Rightarrow> (u32 \<times> u8 list) list \<Rightarrow> 'p vchiq \<Rightarrow> bool" where
  "tx_inv r ms s \<longleftrightarrow>
     (\<exists>d. tx_state r d s \<and> tx_pos (local s) = local_tx_pos s \<and>
          stream (mem s) (local s) (unat r) d = Some ms)"

lemma sint_small: "unat (w :: u32) < 2 ^ 31 \<Longrightarrow> sint w = int (unat w)"
proof -
  assume "unat w < 2 ^ 31"
  then have "int (unat w) < int (2 ^ 31)" by (simp only: of_nat_less_iff)
  moreover have "int (2 ^ 31) = 2 ^ 31" by simp
  moreover have "uint w = int (unat w)" by (rule uint_nat)
  ultimately have "- (2 ^ 31) \<le> uint w \<and> uint w < 2 ^ 31" by linarith
  then have "signed_take_bit (LENGTH(32) - Suc 0) (uint w) = uint w"
    by (intro signed_take_bit_int_eq_self) simp_all
  then show ?thesis using \<open>uint w = int (unat w)\<close> by (simp only: sint_uint)
qed

lemma unat_of_nat_small: "n < 2 ^ 32 \<Longrightarrow> unat (of_nat n :: u32) = n"
  by (simp add: unat_of_nat)

lemma pos_offset: "slot_offset (r + of_nat d) = (unat r + d) mod 4096"
  using mod_mod_pow2_le [of 12 32 "unat r + d"] by (simp add: slot_offset_mod unat_plus_of_nat)

lemma mask_offset: "p AND 4095 = of_nat (slot_offset p)"
  by (simp add: slot_offset_def)

lemma mod8_mod4096: "a mod 8 = 0 \<Longrightarrow> a mod 4096 mod 8 = (0::nat)"
  using mod_mod_pow2_le [of 3 12 a] by simp

lemma slots_used_bounds:
  "unat r mod 4096 + d \<le> slots_used r d * 4096" "slots_used r d * 4096 < unat r mod 4096 + d + 4096"
proof -
  let ?n = "unat r mod 4096 + d + 4095"
  have "?n div 4096 * 4096 + ?n mod 4096 = ?n" by (rule div_mult_mod_eq)
  moreover have "?n mod 4096 < 4096" by simp
  ultimately show "unat r mod 4096 + d \<le> slots_used r d * 4096"
    "slots_used r d * 4096 < unat r mod 4096 + d + 4096"
    unfolding slots_used_def by linarith+
qed

lemma slots_used_eqI:
  assumes "unat r mod 4096 + d \<le> u * 4096" "u * 4096 < unat r mod 4096 + d + 4096"
  shows "slots_used r d = u"
proof -
  have "slots_used r d * 4096 < u * 4096 + 4096" "u * 4096 < slots_used r d * 4096 + 4096"
    using slots_used_bounds [of r d] assms by linarith+
  then show ?thesis by linarith
qed

text \<open>Reading back a header that has just been written.\<close>

lemma hdr_written:
  "hdr_msgid (set_hdr_size h n (set_hdr_msgid h w m)) h = w"
  "hdr_size (set_hdr_size h n (set_hdr_msgid h w m)) h = n"
proof -
  have "load32 (store32 (h + 4) n (store32 h w m)) h = load32 (store32 h w m) h"
    by (rule load32_cong) (simp add: store32_other)
  then show "hdr_msgid (set_hdr_size h n (set_hdr_msgid h w m)) h = w"
    by (simp add: hdr_msgid_def set_hdr_msgid_def set_hdr_size_def load32_store32_same)
  show "hdr_size (set_hdr_size h n (set_hdr_msgid h w m)) h = n"
    by (simp add: hdr_size_def set_hdr_size_def load32_store32_same)
qed

lemma set_hdr_other:
  "a < h \<or> h + 8 \<le> a \<Longrightarrow> set_hdr_size h n (set_hdr_msgid h w m) a = m a"
  by (auto simp: set_hdr_size_def set_hdr_msgid_def store32_other)

section \<open>Reserving space keeps the invariant\<close>

abbreviation (input) tx_offset :: "u32 \<Rightarrow> nat \<Rightarrow> nat" where
  "tx_offset r d \<equiv> (unat r + d) mod 4096"

lemma tx_offset_mod8: "unat r mod 8 = 0 \<Longrightarrow> d mod 8 = 0 \<Longrightarrow> tx_offset r d mod 8 = 0"
  by (intro mod8_mod4096) presburger

lemma tx_offset_small: "unat r mod 8 = 0 \<Longrightarrow> d mod 8 = 0 \<Longrightarrow> tx_offset r d \<le> 4088"
proof -
  assume "unat r mod 8 = 0" "d mod 8 = 0"
  then have "tx_offset r d mod 8 = 0" by (rule tx_offset_mod8)
  then obtain q where q: "tx_offset r d = 8 * q" by (metis mod_0_imp_dvd dvdE)
  moreover have "tx_offset r d < 4096" by simp
  ultimately have "q < 512" by simp
  then show ?thesis unfolding q by simp
qed

lemma slot_space_word:
  "4096 - ((r + of_nat d) AND 4095) = (of_nat (4096 - tx_offset r d) :: u32)"
proof -
  have "tx_offset r d \<le> 4096" by (rule less_imp_le) simp
  then show ?thesis
    by (simp only: mask_offset pos_offset of_nat_diff) simp
qed

lemma stride_mult8:
  assumes "n mod 8 = 0" "8 \<le> n" "n \<le> 4096"
  shows "unat (calc_stride (of_nat (n - 8))) = n"
proof -
  have u: "unat (of_nat (n - 8) :: u32) = n - 8" by (rule unat_of_nat_small) (use assms in simp)
  then have "unat (calc_stride (of_nat (n - 8))) = (n - 8 + 15) div 8 * 8"
    using unat_calc_stride [of "of_nat (n - 8)"] assms by simp
  also have "\<dots> = n" using assms(1,2) by presburger
  finally show ?thesis .
qed

text \<open>The position after the padding: the next slot boundary.\<close>

lemma boundary_after_pad:
  assumes "unat r mod 8 = 0" "d mod 8 = 0" "tx_offset r d \<noteq> 0"
  shows "tx_offset r (d + (4096 - tx_offset r d)) = 0" "slots_used r (d + (4096 - tx_offset r d)) = slots_used r d"
    "unat r mod 4096 + (d + (4096 - tx_offset r d)) = slots_used r d * 4096"
proof -
  define b where "b = unat r mod 4096"
  define k where "k = tx_offset r d"
  have k: "k < 4096" "0 < k" using assms(3) by (simp_all add: k_def)
  have "k = (b + d) mod 4096" unfolding k_def b_def by (simp only: mod_add_left_eq)
  then obtain q where q: "b + d = q * 4096 + k" using div_mult_mod_eq [of "b + d" 4096] by metis
  then have eq: "b + (d + (4096 - k)) = (q + 1) * 4096" using k(1) by simp
  have used: "slots_used r d = q + 1"
    by (rule slots_used_eqI; fold b_def) (use q k in simp)+
  have "slots_used r (d + (4096 - k)) = q + 1"
    by (rule slots_used_eqI; fold b_def) (use eq in simp)+
  then show "slots_used r (d + (4096 - tx_offset r d)) = slots_used r d"
    "unat r mod 4096 + (d + (4096 - tx_offset r d)) = slots_used r d * 4096"
    unfolding k_def [symmetric] b_def [symmetric] used using eq by simp_all
  have "tx_offset r (d + (4096 - k)) = (b + (d + (4096 - k))) mod 4096"
    unfolding b_def by (simp only: mod_add_left_eq)
  then show "tx_offset r (d + (4096 - tx_offset r d)) = 0" unfolding k_def [symmetric] eq by simp
qed

definition next_start :: "u32 \<Rightarrow> nat \<Rightarrow> nat \<Rightarrow> nat" where
  "next_start r d n = (if tx_offset r d + n \<le> 4096 then d else d + (4096 - tx_offset r d))"

definition msg_size_ok :: "nat \<Rightarrow> bool" where
  "msg_size_ok n \<longleftrightarrow> 8 \<le> n \<and> n \<le> 4096 \<and> n mod 8 = 0"

lemma tx_stateD:
  assumes "tx_state r d s"
  shows "local_tx_pos s = r + of_nat d" "unat r mod 8 = 0" "d mod 8 = 0"
    "window (local s) (unat r div 4096) (slots_used r d + slot_available_event s)"
    "slot_queue_available s * 4096 =
       r - of_nat (unat r mod 4096) + of_nat ((slots_used r d + slot_available_event s) * 4096)"
    "tx_offset r d \<noteq> 0 \<Longrightarrow> tx_data s = Some (slot_data (slot_queue (local s) ((unat r + d) div 4096 mod 64)))"
  using assms by (simp_all add: tx_state_def)

lemma tx_header:
  assumes "tx_state r d s" "tx_offset r d \<noteq> 0"
  shows "the (tx_data s) + slot_offset (local_tx_pos s) = naddr (local s) (unat r + d)"
  using tx_stateD(1,6) [OF assms(1)] assms(2) by (simp add: pos_offset naddr_def slot_data_def)

lemma slot_space_sint:
  "sint (4096 - ((r + of_nat d) AND 4095) :: u32) = int (4096 - tx_offset r d)"
proof -
  have "unat (of_nat (4096 - tx_offset r d) :: u32) = 4096 - tx_offset r d"
    by (rule unat_of_nat_small) simp
  then show ?thesis unfolding slot_space_word by (subst sint_small) simp_all
qed

lemma sint_of_nat_small: "n \<le> 4096 \<Longrightarrow> sint (of_nat n :: u32) = int n"
  using unat_of_nat_small [of n] by (subst sint_small) simp_all

lemma reserve_pad_spec:
  assumes st: "tx_state r d s" and ms: "stream (mem s) (local s) (unat r) d = Some ms" and n: "msg_size_ok n"
  shows "\<exists>m pads. reserve_pad (of_nat n) s = (r + of_nat (next_start r d n), s\<lparr>mem := m\<rparr>) \<and>
    stream m (local s) (unat r) (next_start r d n) = Some (ms @ pads) \<and>
    length pads \<le> 1 \<and> (\<forall>p\<in>set pads. fst p = MSGID_PADDING)"
proof -
  define k where "k = tx_offset r d"
  note t = tx_stateD [OF st]
  have kn: "sint (of_nat n :: u32) > sint (4096 - ((r + of_nat d) AND 4095) :: u32) \<longleftrightarrow> \<not> k + n \<le> 4096"
  proof -
    have "k < 4096" by (simp add: k_def)
    then show ?thesis
      using n slot_space_sint [of r d] sint_of_nat_small [of n] unfolding msg_size_ok_def k_def by linarith
  qed
  show ?thesis
  proof (cases "k + n \<le> 4096")
    case True
    then have "reserve_pad (of_nat n) s = (r + of_nat (next_start r d n), s\<lparr>mem := mem s\<rparr>)"
      using kn t(1) by (simp add: reserve_pad_def next_start_def k_def)
    then show ?thesis
      using ms True by (intro exI [of _ "mem s"] exI [of _ "[]"]) (simp add: next_start_def k_def)
  next
    case False
    then have k0: "k \<noteq> 0" using n by (auto simp: msg_size_ok_def)
    then have o0: "tx_offset r d \<noteq> 0" by (simp add: k_def)
    have k: "k \<le> 4088" unfolding k_def by (rule tx_offset_small [OF t(2,3)])
    have k8: "k mod 8 = 0" unfolding k_def by (rule tx_offset_mod8 [OF t(2,3)])
    let ?h = "naddr (local s) (unat r + d)" and ?gap = "4096 - k"
    define m where "m = set_hdr_size ?h (of_nat (?gap - 8)) (set_hdr_msgid ?h MSGID_PADDING (mem s))"
    have gap: "?gap mod 8 = 0" "8 \<le> ?gap" "?gap \<le> 4096" using k k8 by presburger+
    have ns: "next_start r d n = d + ?gap" using False by (simp add: next_start_def k_def)
    have space: "4096 - ((r + of_nat d) AND 4095) = (of_nat ?gap :: u32)"
      unfolding k_def by (rule slot_space_word)
    then have minus8: "4096 - ((r + of_nat d) AND 4095) - 8 = (of_nat (?gap - 8) :: u32)"
      using gap(2) by (simp add: of_nat_diff)
    have "reserve_pad (of_nat n) s = (r + of_nat (next_start r d n), s\<lparr>mem := m\<rparr>)"
      using kn False tx_header [OF st o0] space minus8 unfolding reserve_pad_def Let_def t(1) ns m_def by simp
    moreover have "stream m (local s) (unat r) (d + ?gap) = Some (ms @ [msg_at m (local s) (unat r + d)])"
    proof (rule stream_append)
      have "unat r mod 4096 + d + ?gap \<le> (slots_used r d + slot_available_event s) * 4096"
        using boundary_after_pad(3) [OF t(2,3) o0] by (simp add: k_def)
      moreover have "(unat r + d) mod 4096 + ?gap \<le> 4096" using k by (simp add: k_def)
      ultimately have "stream m (local s) (unat r) d = stream (mem s) (local s) (unat r) d"
        by (rule stream_frame [OF t(4)]) (use gap(2) in \<open>auto simp: m_def intro!: set_hdr_other\<close>)
      then show "stream m (local s) (unat r) d = Some ms" using ms by simp
      show "stream m (local s) (unat r + d) ?gap = Some [msg_at m (local s) (unat r + d)]"
      proof (rule stream_one)
        show "hdr_size m ?h = of_nat (?gap - 8)" by (simp only: m_def hdr_written)
        show "unat (calc_stride (of_nat (?gap - 8))) = ?gap" using gap by (rule stride_mult8)
        show "(unat r + d) mod 4096 + ?gap \<le> 4096" using k by (simp add: k_def)
        have "unat (of_nat (?gap - 8) :: u32) = ?gap - 8" by (rule unat_of_nat_small) simp
        then show "unat (of_nat (?gap - 8) :: u32) + 8 \<le> ?gap" using gap(2) by simp
      qed (use gap(2) in simp)
    qed
    moreover have "fst (msg_at m (local s) (unat r + d)) = MSGID_PADDING"
      unfolding msg_at_def fst_conv m_def by (rule hdr_written)
    ultimately show ?thesis unfolding ns by (intro exI conjI) auto
  qed
qed

lemma next_start_props:
  assumes "unat r mod 8 = 0" "d mod 8 = 0" "msg_size_ok n"
  shows "next_start r d n mod 8 = 0" "slots_used r (next_start r d n) = slots_used r d"
    "tx_offset r (next_start r d n) + n \<le> 4096" "d \<le> next_start r d n"
proof -
  define k where "k = tx_offset r d"
  have k8: "k mod 8 = 0" unfolding k_def by (rule tx_offset_mod8 [OF assms(1,2)])
  have kl: "k < 4096" by (simp add: k_def)
  show "d \<le> next_start r d n" unfolding next_start_def k_def [symmetric] by simp
  show "slots_used r (next_start r d n) = slots_used r d"
  proof (cases "k + n \<le> 4096")
    case True
    then show ?thesis by (simp add: next_start_def k_def)
  next
    case False
    then have "k \<noteq> 0" using assms(3) by (auto simp: msg_size_ok_def)
    then show ?thesis
      using boundary_after_pad(2) [OF assms(1,2)] False by (simp add: next_start_def k_def)
  qed
  show "tx_offset r (next_start r d n) + n \<le> 4096"
  proof (cases "k + n \<le> 4096")
    case True
    then show ?thesis by (simp add: next_start_def k_def)
  next
    case False
    then have "k \<noteq> 0" using assms(3) by (auto simp: msg_size_ok_def)
    then show ?thesis
      using boundary_after_pad(1) [OF assms(1,2)] False assms(3) by (simp add: next_start_def k_def msg_size_ok_def)
  qed
  show "next_start r d n mod 8 = 0"
  proof (cases "k + n \<le> 4096")
    case True
    then show ?thesis using assms(2) by (simp add: next_start_def k_def)
  next
    case False
    have "(4096 - k) mod 8 = 0" using k8 kl by presburger
    then have "(d + (4096 - k)) mod 8 = 0" using assms(2) by presburger
    then show ?thesis using False by (simp add: next_start_def k_def)
  qed
qed

lemma at_boundary:
  assumes "tx_offset r d = 0"
  shows "unat r mod 4096 + d = slots_used r d * 4096"
proof -
  define b where "b = unat r mod 4096"
  have "(b + d) mod 4096 = 0" unfolding b_def using assms by (simp only: mod_add_left_eq)
  then obtain q where q: "b + d = q * 4096" using div_mult_mod_eq [of "b + d" 4096] by (metis add_0_right)
  have "slots_used r d = q" by (rule slots_used_eqI; fold b_def) (use q in simp)+
  then show ?thesis using q by (simp add: b_def)
qed

text \<open>A message of \<open>n\<close> bytes placed at a position where it fits.\<close>

lemma slots_used_within:
  assumes "tx_offset r d + n \<le> 4096" "0 < n"
  shows "slots_used r (d + n) = slots_used r d + of_bool (tx_offset r d = 0)"
proof -
  define b where "b = unat r mod 4096"
  define k where "k = tx_offset r d"
  have "k = (b + d) mod 4096" unfolding k_def b_def by (simp only: mod_add_left_eq)
  then obtain q where q: "b + d = q * 4096 + k" using div_mult_mod_eq [of "b + d" 4096] by metis
  have kn: "k + n \<le> 4096" "k < 4096" using assms(1) by (simp_all add: k_def)
  have "slots_used r (d + n) = q + 1"
    by (rule slots_used_eqI; fold b_def) (use q kn assms(2) in simp)+
  moreover have "slots_used r d = (if k = 0 then q else q + 1)"
    by (rule slots_used_eqI; fold b_def) (use q kn in auto)
  ultimately show ?thesis by (simp add: k_def)
qed

text \<open>\<open>BUG_ON(tx_pos == slot_queue_available * VCHIQ_SLOT_SIZE)\<close> is never met while there is a
  free slot.\<close>

lemma not_at_available:
  assumes "unat r mod 4096 + d = u * 4096" "0 < c" "u + c \<le> 64"
  shows "r + of_nat d \<noteq> (r - of_nat (unat r mod 4096) + of_nat ((u + c) * 4096) :: u32)"
proof
  define b where "b = unat r mod 4096"
  assume "r + of_nat d = (r - of_nat (unat r mod 4096) + of_nat ((u + c) * 4096) :: u32)"
  then have eq: "r + of_nat d = (r - of_nat b + of_nat ((u + c) * 4096) :: u32)" by (simp only: b_def)
  have "of_nat (b + d) = (r + of_nat d) - (r - of_nat b :: u32)" by simp
  also have "\<dots> = of_nat ((u + c) * 4096)" unfolding eq by (rule add_diff_cancel_left')
  finally have "unat (of_nat (u * 4096) :: u32) = unat (of_nat ((u + c) * 4096) :: u32)"
    unfolding b_def assms(1) by (rule arg_cong)
  moreover have "unat (of_nat (u * 4096) :: u32) = u * 4096"
    by (rule unat_of_nat_small) (use assms(3) in simp)
  moreover have "unat (of_nat ((u + c) * 4096) :: u32) = (u + c) * 4096"
    by (rule unat_of_nat_small) (use assms(3) in simp)
  ultimately have "u * 4096 = (u + c) * 4096" by (simp only:)
  then show False using assms(2) by simp
qed

lemma pos_boundary: "(r + of_nat d) AND 4095 = (0 :: u32) \<longleftrightarrow> tx_offset r d = 0"
  using pos_offset [of r d] unat_eq_zero [of "(r + of_nat d) AND 4095"] by (simp only: slot_offset_def)

lemma slot_at_boundary:
  assumes "tx_offset r d = 0"
  shows "slot_data (slot_at sh (slot_queue_index (r + of_nat d))) =
    slot_data (slot_queue sh ((unat r + d) div 4096 mod 64))"
  using addr_plus [of sh r d] assms by (simp add: addr_def naddr_def pos_offset slot_data_def)

lemma reserve_slot_now:
  assumes "tx_offset r d = 0" "slot_available_event s = Suc c"
    and "r + of_nat d \<noteq> slot_queue_available s * 4096"
  shows "reserve_slot (r + of_nat d) blk fs s =
    Some (True, s\<lparr>slot_available_event := c,
      tx_data := Some (slot_data (slot_queue (local s) ((unat r + d) div 4096 mod 64)))\<rparr>, fs)"
  using assms slot_at_boundary [OF assms(1), of "local s"]
  by (simp add: reserve_slot_def sem_trylock_def)

text \<open>What the reservation leaves: everything but the memory, the credit and the position.\<close>

definition reserve_frame :: "'p vchiq \<Rightarrow> 'p vchiq \<Rightarrow> bool" where
  "reserve_frame s s' \<longleftrightarrow>
     s' = s\<lparr>mem := mem s', slot_available_event := slot_available_event s', tx_data := tx_data s',
            local_tx_pos := local_tx_pos s'\<rparr>"

definition only_padding :: "(u32 \<times> u8 list) list \<Rightarrow> bool" where
  "only_padding pads \<longleftrightarrow> length pads \<le> 1 \<and> (\<forall>p\<in>set pads. fst p = MSGID_PADDING)"

lemma reserve_space_ok:
  assumes st: "tx_state r d s" and ms: "stream (mem s) (local s) (unat r) d = Some ms" and n: "msg_size_ok n"
    and credit: "tx_offset r (next_start r d n) = 0 \<Longrightarrow> slot_available_event s \<noteq> 0"
  shows "\<exists>s' pads. reserve_space (of_nat n) blk fs s =
      Some (Some (naddr (local s) (unat r + next_start r d n)), s', fs) \<and>
    tx_state r (next_start r d n + n) s' \<and> reserve_frame s s' \<and>
    stream (mem s') (local s) (unat r) (next_start r d n) = Some (ms @ pads) \<and> only_padding pads"
proof -
  let ?d = "next_start r d n"
  note t = tx_stateD [OF st]
  note d' = next_start_props [OF t(2,3) n]
  have n0: "0 < n" using n by (simp add: msg_size_ok_def)
  have n8: "(?d + n) mod 8 = 0" using d'(1) n unfolding msg_size_ok_def by presburger
  note used = slots_used_within [OF d'(3) n0, unfolded d'(2)]
  obtain m pads where m: "reserve_pad (of_nat n) s = (r + of_nat ?d, s\<lparr>mem := m\<rparr>)"
    "stream m (local s) (unat r) ?d = Some (ms @ pads)" and pads: "only_padding pads"
    using reserve_pad_spec [OF st ms n] by (auto simp: only_padding_def)
  have same_slot: "(unat r + (?d + n)) div 4096 = (unat r + ?d) div 4096"
    if "tx_offset r (?d + n) \<noteq> 0"
  proof -
    have "tx_offset r ?d + n < 4096"
    proof (rule ccontr)
      assume "\<not> ?thesis"
      then have "tx_offset r ?d + n = 4096" using d'(3) by linarith
      then have "tx_offset r (?d + n) = 0"
        by (metis add.assoc mod_add_left_eq mod_self)
      with that show False by simp
    qed
    then show ?thesis using div_mod_plus(1) [of "unat r + ?d" 4096 n] by (simp add: add.assoc)
  qed
  show ?thesis
  proof (cases "tx_offset r ?d = 0")
    case True
    obtain c where c: "slot_available_event s = Suc c" using credit [OF True] by (cases "slot_available_event s") auto
    have win: "slots_used r d + slot_available_event s \<le> 64" using t(4) by (simp add: window_def)
    have ne: "r + of_nat ?d \<noteq> slot_queue_available s * 4096"
      unfolding t(5) by (rule not_at_available [OF at_boundary [OF True, unfolded d'(2)] _ win]) (simp add: c)
    let ?s = "s\<lparr>mem := m, slot_available_event := c,
      tx_data := Some (slot_data (slot_queue (local s) ((unat r + ?d) div 4096 mod 64))),
      local_tx_pos := r + of_nat (?d + n)\<rparr>"
    have "reserve_slot (r + of_nat ?d) blk fs (s\<lparr>mem := m\<rparr>) =
        Some (True, s\<lparr>mem := m, slot_available_event := c,
          tx_data := Some (slot_data (slot_queue (local s) ((unat r + ?d) div 4096 mod 64)))\<rparr>, fs)"
      using reserve_slot_now [OF True, of "s\<lparr>mem := m\<rparr>" c] c ne by simp
    then have "reserve_space (of_nat n) blk fs s = Some (Some (naddr (local s) (unat r + ?d)), ?s, fs)"
      unfolding reserve_space_def m(1)
      using True by (simp add: pos_boundary pos_offset naddr_def slot_data_def add.assoc)
    moreover have "tx_state r (?d + n) ?s"
      using t n8 used True c same_slot by (simp add: tx_state_def)
    ultimately show ?thesis using m(2) pads by (intro exI [of _ ?s] exI [of _ pads]) (simp add: reserve_frame_def)
  next
    case False
    have d_eq: "?d = d"
    proof (cases "tx_offset r d + n \<le> 4096")
      case True
      then show ?thesis by (simp add: next_start_def)
    next
      case overfull: False
      then have "?d = d + (4096 - tx_offset r d)" by (simp only: next_start_def if_False)
      moreover have "tx_offset r d \<noteq> 0" using overfull n by (auto simp: msg_size_ok_def)
      ultimately have "tx_offset r ?d = 0" using boundary_after_pad(1) [OF t(2,3)] by (simp only: not_False_eq_True)
      with False show ?thesis by simp
    qed
    let ?s = "s\<lparr>mem := m, local_tx_pos := r + of_nat (?d + n)\<rparr>"
    have td: "tx_data s = Some (slot_data (slot_queue (local s) ((unat r + ?d) div 4096 mod 64)))"
      using t(6) False d_eq by simp
    then have "reserve_space (of_nat n) blk fs s = Some (Some (naddr (local s) (unat r + ?d)), ?s, fs)"
      unfolding reserve_space_def m(1)
      using False by (simp add: pos_boundary pos_offset naddr_def slot_data_def add.assoc)
    moreover have "tx_state r (?d + n) ?s"
      using t n8 used False td same_slot by (simp add: tx_state_def)
    ultimately show ?thesis using m(2) pads by (intro exI [of _ ?s] exI [of _ pads]) (simp add: reserve_frame_def)
  qed
qed

text \<open>The stream depends on the slot queue only.\<close>

lemma stream_queue:
  assumes "slot_queue sh = slot_queue sh'"
  shows "stream m sh k d = stream m sh' k d"
proof -
  have addr: "naddr sh k = naddr sh' k" for k using assms by (simp add: naddr_def)
  have fits: "msg_fits m sh k d = msg_fits m sh' k d" "msg_at m sh k = msg_at m sh' k"
    "stride_at m sh k = stride_at m sh' k" for k d
    by (simp_all add: msg_fits_def msg_at_def stride_at_def addr)
  show ?thesis
  proof (induction d arbitrary: k rule: less_induct)
    case (less d)
    show ?case
    proof (cases "d \<noteq> 0 \<and> msg_fits m sh' k d")
      case True
      then have "d - stride_at m sh' k < d" by (auto simp: msg_fits_def)
      then show ?thesis using True fits less by (simp add: stream_next)
    next
      case False
      then show ?thesis using fits by (cases "d = 0") (simp_all add: stream_bad)
    qed
  qed
qed

text \<open>Without a free slot the stream is flushed up to the boundary, and a call that may not
  block fails.\<close>

lemma reserve_space_full:
  assumes st: "tx_state r d s" and ms: "stream (mem s) (local s) (unat r) d = Some ms" and n: "msg_size_ok n"
    and full: "tx_offset r (next_start r d n) = 0" "slot_available_event s = 0"
  shows "\<exists>s' pads. reserve_space (of_nat n) False fs s = Some (None, s', fs) \<and>
    tx_inv r (ms @ pads) s' \<and> only_padding pads \<and>
    services s' = services s \<and> service_quotas s' = service_quotas s \<and> slot_mutex s' = slot_mutex s"
proof -
  let ?d = "next_start r d n"
  note t = tx_stateD [OF st]
  note d' = next_start_props [OF t(2,3) n]
  obtain m pads where m: "reserve_pad (of_nat n) s = (r + of_nat ?d, s\<lparr>mem := m\<rparr>)"
    "stream m (local s) (unat r) ?d = Some (ms @ pads)" and pads: "only_padding pads"
    using reserve_pad_spec [OF st ms n] by (auto simp: only_padding_def)
  let ?p = "r + of_nat ?d"
  define s' where "s' = remote_event_signal trigger trigger_update
     (local_update (tx_pos_update (\<lambda>_. ?p))
       (s\<lparr>mem := m, st_stats := st_slot_stalls_update (\<lambda>n. n + 1) (st_stats s), local_tx_pos := ?p\<rparr>))"
  have "reserve_space (of_nat n) False fs s = Some (None, s', fs)"
    unfolding reserve_space_def m(1)
    using full by (simp add: pos_boundary reserve_slot_def sem_trylock_def s'_def)
  moreover have "tx_inv r (ms @ pads) s'"
  proof -
    have "window (local s') i w = window (local s) i w" for i w
      by (simp add: window_def s'_def remote_event_signal_def)
    then have "tx_state r ?d s'"
      using t d' full by (simp add: tx_state_def s'_def remote_event_signal_def)
    then show ?thesis
      using m(2) stream_queue [of "local s'" "local s" m] unfolding tx_inv_def
      by (intro exI [of _ ?d]) (simp add: s'_def remote_event_signal_def)
  qed
  moreover have "services s' = services s" "service_quotas s' = service_quotas s" "slot_mutex s' = slot_mutex s"
    by (simp_all add: s'_def remote_event_signal_def)
  ultimately show ?thesis using pads by blast
qed

section \<open>Sending a message\<close>

definition el_bytes :: "element \<Rightarrow> u8 list" where
  "el_bytes e = map (the (el_data e)) [0..<unat (el_size e)]"

definition payload :: "element list \<Rightarrow> u8 list" where
  "payload es = concat (map el_bytes es)"

lemma length_payload: "length (payload es) = (\<Sum>e\<leftarrow>es. unat (el_size e))"
  by (simp add: payload_def length_concat comp_def el_bytes_def)

lemma memcpy_append:
  "memcpy (dst + length xs) (nth ys) n (memcpy dst (nth xs) (length xs) m) =
   memcpy dst (nth (xs @ ys)) (length xs + n) m"
  by (rule ext) (auto simp: memcpy_def nth_append)

lemma memcpy_cong: "(\<And>i. i < n \<Longrightarrow> f i = g i) \<Longrightarrow> memcpy dst f n m = memcpy dst g n m"
  by (rule ext) (auto simp: memcpy_def)

lemma memcpy_0: "memcpy dst f 0 m = m"
  by (rule ext) (auto simp: memcpy_def)

lemma copy_elements_payload:
  "copy_elements dst es m = (True, memcpy dst (nth (payload es)) (length (payload es)) m)"
proof (induction es arbitrary: dst m)
  case Nil
  show ?case by (simp add: payload_def memcpy_0)
next
  case (Cons e es)
  have len: "length (el_bytes e) = unat (el_size e)" by (simp add: el_bytes_def)
  have p: "payload (e # es) = el_bytes e @ payload es" by (simp add: payload_def)
  have "memcpy dst (the (el_data e)) (unat (el_size e)) m =
      memcpy dst (nth (el_bytes e)) (length (el_bytes e)) m"
    unfolding len by (rule memcpy_cong) (simp add: el_bytes_def)
  then have "copy_elements dst (e # es) m = copy_elements (dst + length (el_bytes e)) es
      (memcpy dst (nth (el_bytes e)) (length (el_bytes e)) m)"
    by (auto simp: vchiq_copy_from_user_def len memcpy_0)
  then show ?case unfolding Cons.IH p memcpy_append by simp
qed

lemma bytes_at_memcpy: "bytes_at (memcpy dst (nth xs) (length xs) m) dst (length xs) = xs"
  by (rule nth_equalityI) (simp_all add: bytes_at_def memcpy_def)

lemma stride_of_size:
  assumes "unat n \<le> MAX_MSG_SIZE"
  shows "msg_size_ok (unat (calc_stride n))" "unat n + 8 \<le> unat (calc_stride n)"
    "unat (calc_stride n) < unat n + 16"
proof -
  have st: "unat (calc_stride n) = (unat n + 15) div 8 * 8" by (rule unat_calc_stride) (use assms in simp)
  have "(unat n + 15) div 8 * 8 + (unat n + 15) mod 8 = unat n + 15" by (rule div_mult_mod_eq)
  moreover have "(unat n + 15) mod 8 < 8" by simp
  ultimately have b: "unat n + 8 \<le> (unat n + 15) div 8 * 8" "(unat n + 15) div 8 * 8 < unat n + 16"
    by linarith+
  then show "unat n + 8 \<le> unat (calc_stride n)" "unat (calc_stride n) < unat n + 16" unfolding st .
  have "(unat n + 15) div 8 \<le> 512" using assms by simp
  then show "msg_size_ok (unat (calc_stride n))" using b by (simp add: st msg_size_ok_def)
qed

lemma tx_state_cong:
  assumes "local_tx_pos s' = local_tx_pos s" "slot_queue (local s') = slot_queue (local s)"
    "slot_available_event s' = slot_available_event s" "slot_queue_available s' = slot_queue_available s"
    "tx_data s' = tx_data s"
  shows "tx_state r d s' = tx_state r d s"
  using assms by (simp add: tx_state_def window_def)

text \<open>The elements of a message: those of a data message, or at most one.\<close>

definition elements_ok :: "u32 \<Rightarrow> element list \<Rightarrow> u32 \<Rightarrow> bool" where
  "elements_ok msgid es n \<longleftrightarrow> unat n \<le> MAX_MSG_SIZE \<and> (\<Sum>e\<leftarrow>es. unat (el_size e)) = unat n \<and>
     (msg_type msgid = MSG_DATA \<or> length es \<le> 1)"

lemma qm_write_mem:
  assumes ok: "elements_ok msgid es n"
  shows "fst (qm_write service msgid es n h s)"
    "mem (snd (qm_write service msgid es n h s)) =
       set_hdr_size h n (set_hdr_msgid h msgid (memcpy (h + 8) (nth (payload es)) (unat n) (mem s)))"
proof -
  have len: "length (payload es) = unat n" using ok by (simp add: elements_ok_def length_payload)
  have one: "memcpy a (the (el_data (hd es))) (unat (el_size (hd es))) m = memcpy a (nth (payload es)) (unat n) m"
    if nd: "msg_type msgid \<noteq> MSG_DATA" and n: "n \<noteq> 0" for a m
  proof -
    have "es \<noteq> []" using ok n by (auto simp: elements_ok_def unat_eq_zero)
    then obtain e where es: "es = [e]" using ok nd by (cases es) (auto simp: elements_ok_def)
    then have "unat (el_size e) = unat n" using ok by (simp add: elements_ok_def)
    then show ?thesis using es by (auto simp: payload_def el_bytes_def intro!: memcpy_cong)
  qed
  have "mem (qm_data_account p t) = mem t" for p and t :: "'a vchiq"
    by (simp add: qm_data_account_def upd_quota_def Let_def)
  then show "fst (qm_write service msgid es n h s)"
    "mem (snd (qm_write service msgid es n h s)) =
       set_hdr_size h n (set_hdr_msgid h msgid (memcpy (h + 8) (nth (payload es)) (unat n) (mem s)))"
    by (auto simp: qm_write_def copy_elements_payload len Let_def upd_stats_def upd_service_def one memcpy_0)
qed

text \<open>The fields of the stream that writing and accounting leave alone.\<close>

lemma qm_write_frame:
  "local_tx_pos (snd (qm_write service msgid es n h s)) = local_tx_pos s"
  "local (snd (qm_write service msgid es n h s)) = local s"
  "slot_available_event (snd (qm_write service msgid es n h s)) = slot_available_event s"
  "slot_queue_available (snd (qm_write service msgid es n h s)) = slot_queue_available s"
  "tx_data (snd (qm_write service msgid es n h s)) = tx_data s"
  "slot_mutex (snd (qm_write service msgid es n h s)) = slot_mutex s"
  by (auto simp: qm_write_def copy_elements_payload Let_def upd_stats_def upd_service_def
      qm_data_account_def upd_quota_def)

lemma qm_publish_frame:
  "local_tx_pos (qm_publish service msgid keep s) = local_tx_pos s"
  "slot_queue (local (qm_publish service msgid keep s)) = slot_queue (local s)"
  "tx_pos (local (qm_publish service msgid keep s)) = local_tx_pos s"
  "slot_available_event (qm_publish service msgid keep s) = slot_available_event s"
  "slot_queue_available (qm_publish service msgid keep s) = slot_queue_available s"
  "tx_data (qm_publish service msgid keep s) = tx_data s"
  "mem (qm_publish service msgid keep s) = mem s"
  "slot_mutex (qm_publish service msgid keep s) = (keep \<and> slot_mutex s)"
  "fired (trigger (remote (qm_publish service msgid keep s)))"
  by (auto simp: qm_publish_def Let_def remote_event_signal_def mutex_release_def signal_event_def
      vchiq_set_service_state_def upd_service_def split: option.splits)

lemma qm_publish_local: "local (qm_publish service msgid keep s) = local s\<lparr>tx_pos := local_tx_pos s\<rparr>"
  by (auto simp: qm_publish_def Let_def remote_event_signal_def mutex_release_def
      vchiq_set_service_state_def upd_service_def split: option.splits)

lemma write_appends:
  assumes st: "tx_state r (d + unat (calc_stride n)) s"
    and ms: "stream (mem s) (local s) (unat r) d = Some ms"
    and fits: "tx_offset r d + unat (calc_stride n) \<le> 4096"
    and ok: "elements_ok msgid es n"
  shows "tx_inv r (ms @ [(msgid, payload es)])
    (qm_publish service msgid keep (snd (qm_write service msgid es n (naddr (local s) (unat r + d)) s)))"
proof -
  let ?h = "naddr (local s) (unat r + d)" and ?n = "unat (calc_stride n)"
  let ?s = "snd (qm_write service msgid es n ?h s)"
  let ?m = "memcpy (?h + 8) (nth (payload es)) (unat n) (mem s)"
  have size: "unat n \<le> MAX_MSG_SIZE" using ok by (simp add: elements_ok_def)
  note stride = stride_of_size [OF size]
  have n8: "8 \<le> ?n" using stride(1) by (simp add: msg_size_ok_def)
  have len: "length (payload es) = unat n" using ok by (simp add: elements_ok_def length_payload)
  have mem: "mem ?s = set_hdr_size ?h n (set_hdr_msgid ?h msgid ?m)" by (rule qm_write_mem [OF ok])
  note t = tx_stateD [OF st]
  have "stream (mem ?s) (local s) (unat r) (d + ?n) = Some (ms @ [msg_at (mem ?s) (local s) (unat r + d)])"
  proof (rule stream_append)
    have "unat r mod 4096 + d + ?n \<le> (slots_used r (d + ?n) + slot_available_event s) * 4096"
      using slots_used_bounds(1) [of r "d + ?n"] by simp
    then have "stream (mem ?s) (local s) (unat r) d = stream (mem s) (local s) (unat r) d"
    proof (rule stream_frame [OF t(4) _ fits])
      fix a assume "a < ?h \<or> ?h + ?n \<le> a"
      then have "a < ?h \<or> ?h + 8 \<le> a" "a < ?h + 8 \<or> ?h + 8 + unat n \<le> a" using stride(2) by linarith+
      then show "mem ?s a = mem s a" unfolding mem by (simp add: set_hdr_other memcpy_other)
    qed
    then show "stream (mem ?s) (local s) (unat r) d = Some ms" using ms by simp
    show "stream (mem ?s) (local s) (unat r + d) ?n = Some [msg_at (mem ?s) (local s) (unat r + d)]"
      by (rule stream_one [where n = n]) (simp_all only: mem hdr_written fits n8 stride(2))
  qed
  moreover have "msg_at (mem ?s) (local s) (unat r + d) = (msgid, payload es)"
  proof -
    have "bytes_at (mem ?s) (?h + 8) (unat n) = bytes_at ?m (?h + 8) (unat n)"
      unfolding bytes_at_def mem by (auto intro!: set_hdr_other)
    also have "\<dots> = payload es" using bytes_at_memcpy [of "?h + 8" "payload es"] by (simp only: len)
    finally show ?thesis by (simp add: msg_at_def mem hdr_written)
  qed
  ultimately have "stream (mem ?s) (local s) (unat r) (d + ?n) = Some (ms @ [(msgid, payload es)])" by simp
  moreover have "tx_state r (d + ?n) (qm_publish service msgid keep ?s)"
    using st by (subst tx_state_cong) (simp_all add: qm_publish_frame qm_write_frame)
  ultimately show ?thesis
    unfolding tx_inv_def
    using stream_queue [of "local (qm_publish service msgid keep ?s)" "local s" "mem ?s"]
    by (intro exI [of _ "d + ?n"]) (simp add: qm_publish_frame qm_write_frame)
qed

text \<open>The service may send now: it is open for messages and within its quotas.\<close>

definition may_send :: "nat option \<Rightarrow> u32 \<Rightarrow> u32 \<Rightarrow> 'p vchiq \<Rightarrow> bool" where
  "may_send service msgid n s \<longleftrightarrow>
     (msg_type msgid = MSG_DATA \<longrightarrow>
        (\<exists>p. service = Some p \<and> \<not> closing (the (services s p)) \<and>
           \<not> quota_full (tx_end_index (calc_stride n) s) (service_quotas s p)) \<and>
        \<not> (tx_end_index (calc_stride n) s \<noteq> previous_data_index s \<and> data_use_count s = data_quota s))"

definition mutex_ready :: "u32 \<Rightarrow> qmflags \<Rightarrow> 'p vchiq \<Rightarrow> bool" where
  "mutex_ready msgid flags s \<longleftrightarrow> slot_mutex s = qm_no_mutex_lock flags \<and>
     (msg_type msgid = MSG_DATA \<longrightarrow> \<not> qm_no_mutex_lock flags \<and> \<not> qm_no_mutex_unlock flags)"

lemma data_quota_pass:
  "\<not> (tx_end \<noteq> previous_data_index s \<and> data_use_count s = data_quota s) \<Longrightarrow>
    qm_data_quota stride tx_end fs s = Some (tx_end, s, fs)"
  by (subst qm_data_quota.simps) (simp only: if_False)

lemma service_quota_pass:
  "\<not> quota_full tx_end (service_quotas s p) \<Longrightarrow> qm_service_quota p stride tx_end fs s = Some (None, s, fs)"
  by (subst qm_service_quota.simps) simp

lemma data_checks_pass:
  assumes "may_send (Some p) msgid n s" "msg_type msgid = MSG_DATA"
  shows "qm_data_checks p (calc_stride n) fs s = Some (None, s, fs)"
  using assms by (auto simp: may_send_def qm_data_checks_def data_quota_pass service_quota_pass)

text \<open>What \<open>queue_message\<close> does up to the reservation, when it need not wait.\<close>

lemma queue_message_reserves:
  assumes ready: "mutex_ready msgid flags s" and clear: "may_send service msgid n s"
  defines "s1 \<equiv> s\<lparr>slot_mutex := True\<rparr>"
  shows "queue_message service msgid es n flags fs s = do {
     (header, s, fs) \<leftarrow> reserve_space (calc_stride n) (qm_is_blocking flags) fs s1;
     (case header of
        None \<Rightarrow>
          let s = (case service of
                     Some p \<Rightarrow> upd_stats p (slot_stalls_update (\<lambda>c. c + 1)) s | None \<Rightarrow> s);
              s = (if \<not> qm_no_mutex_lock flags then mutex_release slot_mutex_update s else s)
          in Some (VCHIQ_RETRY, s, fs)
      | Some h \<Rightarrow>
          (case qm_write service msgid es n h s of
             (False, s) \<Rightarrow> Some (VCHIQ_ERROR, mutex_release slot_mutex_update s, fs)
           | (True, s) \<Rightarrow> Some (VCHIQ_SUCCESS, qm_publish service msgid (qm_no_mutex_unlock flags) s, fs)))
   }"
proof -
  have lock: "(if \<not> qm_no_mutex_lock flags then mutex_acquire slot_mutex slot_mutex_update fs s else Some (s, fs)) = Some (s1, fs)"
    using ready by (auto simp: mutex_ready_def mutex_acquire_now s1_def)
  have clear1: "may_send service msgid n s1" using clear by (simp add: may_send_def s1_def tx_end_index_def)
  have checks: "(if msg_type msgid = MSG_DATA
        then if service = None \<or> qm_no_mutex_lock flags \<or> qm_no_mutex_unlock flags then None
             else qm_data_checks (the service) (calc_stride n) fs s1
        else Some (None, s1, fs)) = Some (None, s1, fs)"
  proof (cases "msg_type msgid = MSG_DATA")
    case True
    then obtain p where "service = Some p" using clear by (auto simp: may_send_def)
    then show ?thesis
      using True ready data_checks_pass [of p msgid n s1 fs] clear1 by (simp add: mutex_ready_def)
  qed simp
  show ?thesis
    unfolding queue_message_def Let_def [of "calc_stride n"] lock Option.bind.bind_lunit case_prod_conv checks option.case by (rule refl)
qed

lemma reserve_frameD:
  assumes "reserve_frame s s'"
  shows "local s' = local s" "slot_mutex s' = slot_mutex s" "services s' = services s"
    "service_quotas s' = service_quotas s" "remote s' = remote s"
    "data_use_count s' = data_use_count s" "previous_data_index s' = previous_data_index s"
    "data_quota s' = data_quota s" "slot_queue_available s' = slot_queue_available s"
proof -
  note eq = assms [unfolded reserve_frame_def]
  from arg_cong [OF eq, of local] show "local s' = local s" by simp
  from arg_cong [OF eq, of slot_mutex] show "slot_mutex s' = slot_mutex s" by simp
  from arg_cong [OF eq, of services] show "services s' = services s" by simp
  from arg_cong [OF eq, of service_quotas] show "service_quotas s' = service_quotas s" by simp
  from arg_cong [OF eq, of remote] show "remote s' = remote s" by simp
  from arg_cong [OF eq, of data_use_count] show "data_use_count s' = data_use_count s" by simp
  from arg_cong [OF eq, of previous_data_index] show "previous_data_index s' = previous_data_index s" by simp
  from arg_cong [OF eq, of data_quota] show "data_quota s' = data_quota s" by simp
  from arg_cong [OF eq, of slot_queue_available] show "slot_queue_available s' = slot_queue_available s" by simp
qed

lemma tx_invE:
  assumes "tx_inv r ms s"
  obtains d where "tx_state r d s" "tx_pos (local s) = local_tx_pos s" "stream (mem s) (local s) (unat r) d = Some ms"
  using assms by (auto simp: tx_inv_def)

text \<open>There is room: the message fits behind the last one, or there is a free slot.\<close>

definition has_room :: "u32 \<Rightarrow> 'p vchiq \<Rightarrow> bool" where
  "has_room n s \<longleftrightarrow> slot_available_event s \<noteq> 0 \<or>
     (slot_offset (local_tx_pos s) \<noteq> 0 \<and> slot_offset (local_tx_pos s) + unat (calc_stride n) \<le> 4096)"

lemma has_room_boundary:
  assumes "has_room n s" "tx_state r d s"
  shows "tx_offset r (next_start r d (unat (calc_stride n))) = 0 \<Longrightarrow> slot_available_event s \<noteq> 0"
  using assms by (auto simp: has_room_def tx_state_def pos_offset next_start_def split: if_splits)

lemma send_appends:
  assumes inv: "tx_inv r ms s" and ready: "mutex_ready msgid flags s" and clear: "may_send service msgid n s"
    and ok: "elements_ok msgid es n" and room: "has_room n s"
  shows "\<exists>s' pads. queue_message service msgid es n flags fs s = Some (VCHIQ_SUCCESS, s', fs) \<and>
    tx_inv r (ms @ pads @ [(msgid, payload es)]) s' \<and> only_padding pads \<and>
    slot_mutex s' = qm_no_mutex_unlock flags \<and> fired (trigger (remote s')) \<and>
    local s' = local s\<lparr>tx_pos := local_tx_pos s'\<rparr> \<and> slot_queue_available s' = slot_queue_available s"
proof -
  obtain d where d: "tx_state r d s" "tx_pos (local s) = local_tx_pos s"
    "stream (mem s) (local s) (unat r) d = Some ms" using inv by (rule tx_invE)
  let ?s = "s\<lparr>slot_mutex := True\<rparr>" and ?n = "unat (calc_stride n)"
  have size: "unat n \<le> MAX_MSG_SIZE" using ok by (simp add: elements_ok_def)
  note stride = stride_of_size [OF size]
  have d': "tx_state r d ?s" "stream (mem ?s) (local ?s) (unat r) d = Some ms"
    using d by (simp_all add: tx_state_def)
  have "tx_offset r (next_start r d ?n) = 0 \<Longrightarrow> slot_available_event ?s \<noteq> 0"
    using has_room_boundary [OF room d(1)] by simp
  then obtain s1 pads where s1: "reserve_space (of_nat ?n) (qm_is_blocking flags) fs ?s =
      Some (Some (naddr (local s) (unat r + next_start r d ?n)), s1, fs)"
    "tx_state r (next_start r d ?n + ?n) s1" "reserve_frame ?s s1"
    "stream (mem s1) (local s) (unat r) (next_start r d ?n) = Some (ms @ pads)" "only_padding pads"
    using reserve_space_ok [OF d' stride(1), of "qm_is_blocking flags" fs] by auto
  have frame: "local s1 = local s" "slot_mutex s1" "slot_queue_available s1 = slot_queue_available s"
    using reserve_frameD [OF s1(3)] by simp_all
  have fits: "tx_offset r (next_start r d ?n) + ?n \<le> 4096"
    by (rule next_start_props(3) [OF tx_stateD(2,3) [OF d(1)] stride(1)])
  let ?h = "naddr (local s) (unat r + next_start r d ?n)"
  obtain s2 where s2: "qm_write service msgid es n ?h s1 = (True, s2)"
    using qm_write_mem(1) [OF ok, of service ?h s1] by (metis prod.collapse)
  let ?s3 = "qm_publish service msgid (qm_no_mutex_unlock flags) s2"
  have "queue_message service msgid es n flags fs s = Some (VCHIQ_SUCCESS, ?s3, fs)"
    using s1(1) s2 by (subst queue_message_reserves [OF ready clear]) simp
  moreover have "tx_inv r ((ms @ pads) @ [(msgid, payload es)]) ?s3"
    using write_appends [OF s1(2) _ fits ok, of "ms @ pads" service "qm_no_mutex_unlock flags"] s1(4) frame(1) s2 by simp
  moreover have "slot_mutex ?s3 = qm_no_mutex_unlock flags" "fired (trigger (remote ?s3))"
    using frame(2) qm_write_frame(6) [of service msgid es n ?h s1] s2 by (simp_all add: qm_publish_frame)
  moreover have "local ?s3 = local s\<lparr>tx_pos := local_tx_pos ?s3\<rparr>" "slot_queue_available ?s3 = slot_queue_available s"
    using frame qm_write_frame(2,4) [of service msgid es n ?h s1] s2 by (simp_all add: qm_publish_frame qm_publish_local)
  ultimately show ?thesis using s1(5) by auto
qed

end
