(* ===== verification/Vchiq_Init.thy ===== *)
theory Vchiq_Init
  imports Vchiq_Arm Vchiq_Stream "HOL-Library.Signed_Division"
begin

text \<open>
  vchiq_core.c: laying out the shared slots (\<open>vchiq_init_slots\<close>) and initialising a side
  (\<open>vchiq_init_state\<close>); vchiq_2835_arm.c: \<open>vchiq_platform_init_state\<close>. The lemmas show the
  layout, the checks of the configuration and that a fresh state has an empty stream.
\<close>

section \<open>Slot zero\<close>

text \<open>
  \<open>VCHIQ_SLOT_ZERO_T\<close>: its first 32 bytes are bytes of the slot memory, which starts at it;
  the two halves are records. Its size is that of a 32-bit build with the debug counters on.
\<close>

record slot_zero =
  sz_mem :: memory
  sz_master :: shared_state
  sz_slave :: shared_state

abbreviation (input) "SLOT_ZERO_SIZE \<equiv> (1288 :: nat)"
abbreviation (input) "VCHIQ_MAGIC \<equiv> (0x56434849 :: u32)"
abbreviation (input) "VCHIQ_VERSION \<equiv> (8 :: u16)"
abbreviation (input) "VCHIQ_VERSION_MIN \<equiv> (3 :: u16)"
abbreviation (input) "MAX_STATES \<equiv> (1 :: nat)"

definition store16 :: "nat \<Rightarrow> u16 \<Rightarrow> memory \<Rightarrow> memory" where
  "store16 a w m = m(a := ucast w, a + 1 := ucast (drop_bit 8 w))"

definition sz_magic :: "memory \<Rightarrow> u32" where "sz_magic m = load32 m 0"
definition sz_version :: "memory \<Rightarrow> u16" where "sz_version m = load16 m 4"
definition sz_version_min :: "memory \<Rightarrow> u16" where "sz_version_min m = load16 m 6"

definition zero_event :: remote_event where
  "zero_event = \<lparr>armed = False, fired = False, event = 0\<rparr>"

definition zero_shared :: shared_state where
  "zero_shared = \<lparr>sh_initialised = False, slot_first = 0, slot_last = 0, slot_sync = 0, trigger = zero_event,
     tx_pos = 0, recycle = zero_event, slot_queue_recycle = 0, sync_trigger = zero_event,
     sync_release = zero_event, slot_queue = (\<lambda>_. 0)\<rparr>"

text \<open>The offset of slot zero from \<open>mem_base\<close>: up to the next multiple of a slot.\<close>

definition mem_align :: "u32 \<Rightarrow> u32" where
  "mem_align mem_base = (4096 - mem_base) AND 4095"

definition slot_zero_header :: "memory \<Rightarrow> memory" where
  "slot_zero_header m =
     store32 20 64 (store32 16 128 (store32 12 4096 (store32 8 (of_nat SLOT_ZERO_SIZE)
       (store16 6 VCHIQ_VERSION_MIN (store16 4 VCHIQ_VERSION (store32 0 VCHIQ_MAGIC
         (memcpy 0 (\<lambda>_. 0) SLOT_ZERO_SIZE m)))))))"

text \<open>\<open>m\<close> is the memory from slot zero on; the result is the address of slot zero and slot zero.\<close>

definition vchiq_init_slots :: "u32 \<Rightarrow> int \<Rightarrow> memory \<Rightarrow> (u32 \<times> slot_zero) option" where
  "vchiq_init_slots mem_base mem_size m =
     (let align = mem_align mem_base;
          first_data_slot = 1;
          num_slots = (mem_size - int (unat align)) sdiv 4096 - first_data_slot
      in if num_slots < 4 then None
         else Some (mem_base + align,
           \<lparr>sz_mem = slot_zero_header m,
            sz_master = zero_shared\<lparr>slot_sync := nat first_data_slot, slot_first := nat (first_data_slot + 1),
              slot_last := nat (first_data_slot + num_slots sdiv 2 - 1)\<rparr>,
            sz_slave = zero_shared\<lparr>slot_sync := nat (first_data_slot + num_slots sdiv 2),
              slot_first := nat (first_data_slot + num_slots sdiv 2 + 1),
              slot_last := nat (first_data_slot + num_slots - 1)\<rparr>\<rparr>))"

section \<open>Initialising a side\<close>

definition config_ok :: "memory \<Rightarrow> bool" where
  "config_ok m \<longleftrightarrow>
     sz_magic m = VCHIQ_MAGIC \<and> \<not> sint (sz_version m) < 3 \<and> \<not> 8 < sint (sz_version_min m) \<and>
     load32 m 8 = of_nat SLOT_ZERO_SIZE \<and> load32 m 12 = 4096 \<and> load32 m 16 = 128 \<and> load32 m 20 = 64"

text \<open>The version both sides speak.\<close>

definition settle_version :: "memory \<Rightarrow> memory" where
  "settle_version m = (if 8 < sint (sz_version m) then store16 4 VCHIQ_VERSION m else m)"

text \<open>Every slot of the side goes into its queue, as long as the queue has an entry for it.\<close>

fun fill_queue :: "nat list \<Rightarrow> nat \<Rightarrow> shared_state \<Rightarrow> (nat \<times> shared_state) option" where
  "fill_queue [] n sh = Some (n, sh)"
| "fill_queue (i # is) n sh =
     (if n < MAX_SLOTS_PER_SIDE then fill_queue is (n + 1) (slot_queue_update (\<lambda>q. q(n := i)) sh) else None)"

definition zero_quota :: service_quota where
  "zero_quota = \<lparr>slot_quota = 0, slot_use_count = 0, message_quota = 0, message_use_count = 0,
     quota_event = 0, previous_tx_index = 0\<rparr>"

definition zero_state_stats :: state_stats where
  "zero_state_stats = \<lparr>st_slot_stalls = 0, st_data_stalls = 0, st_ctrl_tx_count = 0, st_ctrl_rx_count = 0, st_error_count = 0\<rparr>"

definition create_events :: "shared_state \<Rightarrow> shared_state" where
  "create_events = trigger_update remote_event_create \<circ> recycle_update remote_event_create \<circ>
     sync_trigger_update remote_event_create \<circ> sync_release_update remote_event_create"

text \<open>The state after \<open>memset\<close>: \<open>n\<close> slots are free. The last five fields are those of the
  file-scope variables and of the memory around the state.\<close>

definition fresh_state ::
  "nat \<Rightarrow> bool \<Rightarrow> shared_state \<Rightarrow> shared_state \<Rightarrow> nat \<Rightarrow> memory \<Rightarrow> 'p vchiq \<Rightarrow> 'p vchiq" where
  "fresh_state ident master loc rem n m old =
     (let slots = word_of_nat n :: u32; quota = ucast (slots div 2) :: u16
      in \<lparr>state_id = ident, conn_state = DISCONNECTED, is_master = master, version_common = 0,
          local = loc, remote = rem, mem = m,
          default_slot_quota = quota, default_message_quota = min (quota * 256) (- 1),
          connect = 0, state_mutex = False, tx_data = None, rx_data = None, rx_info = 0,
          slot_mutex = False, recycle_mutex = False, sync_mutex = False, bulk_transfer_mutex = False,
          rx_pos = 0, local_tx_pos = 0, slot_queue_available = slots, poll_needed = False,
          previous_data_index = - 1, data_use_count = 0, data_quota = ucast (slots - 1),
          poll_services = (\<lambda>_. 0), unused_service = 0, slot_available_event = n, data_quota_event = 0,
          deferred_bulks = 0, st_stats = zero_state_stats, services = (\<lambda>_. None), service_quotas = (\<lambda>_. zero_quota),
          slot_infos = (\<lambda>_. \<lparr>use_count = 0, release_count = 0\<rparr>),
          handle_seq = handle_seq old, pause_bulks_count = pause_bulks_count old, waiters = waiters old,
          doorbells = doorbells old, plat = plat old\<rparr>)"

text \<open>\<open>vchiq_platform_init_state\<close> allocates a cleared platform state; the page lists are the heap's.\<close>

definition zero_arm :: "(ptr \<Rightarrow> pagelist option) \<Rightarrow> arm_state" where
  "zero_arm heap = \<lparr>ka_evt = 0, ka_use_count = 0, ka_use_ack_count = 0, ka_release_count = 0,
     vc_suspend_complete = 0, vc_resume_complete = 0, vc_suspend_state = VC_SUSPEND_IDLE,
     vc_resume_state = VC_RESUME_IDLE, wake_address = 0, suspend_timer_running = False,
     videocore_use_count = 0, peer_use_count = 0, resume_blocked = False, resume_blocker = 0,
     blocked_count = 0, blocked_blocker = 0, autosuspend_override = 0, first_connect = False,
     ka_thread = False, pagelists = heap\<rparr>"

definition vchiq_platform_init_state :: "vstate \<Rightarrow> vstate" where
  "vchiq_platform_init_state s = upd_arm (\<lambda>a. vchiq_arm_init_state (zero_arm (pagelists a))) s"

text \<open>
  \<open>ident\<close> is the static counter of states; \<open>spawned k\<close> says that \<open>kthread_create\<close> made the
  \<open>k\<close>-th of the three threads. A rejected slot zero comes back (\<open>Inl\<close>), else the state does.
  \<open>None\<close> is a write past the end of \<open>slot_queue\<close>, or the \<open>BUG_ON\<close> of a second state.
\<close>

definition vchiq_init_state ::
  "nat \<Rightarrow> (nat \<Rightarrow> bool) \<Rightarrow> slot_zero \<Rightarrow> bool \<Rightarrow> vstate \<Rightarrow> (vchiq_status \<times> (slot_zero + vstate)) option" where
  "vchiq_init_state ident spawned z master old =
     (if \<not> config_ok (sz_mem z) then Some (VCHIQ_ERROR, Inl z)
      else
        let z = sz_mem_update settle_version z;
            (loc, rem) = (if master then (sz_master z, sz_slave z) else (sz_slave z, sz_master z))
        in if sh_initialised loc then Some (VCHIQ_ERROR, Inl z)
        else do {
          (n, loc) \<leftarrow> fill_queue [slot_first loc..<slot_last loc + 1] 0 loc;
          let loc = (create_events loc)\<lparr>tx_pos := 0, slot_queue_recycle := word_of_nat n\<rparr>;
          let m = set_hdr_msgid (slot_data (slot_sync loc)) MSGID_PADDING (sz_mem z);
          let loc = sync_release_update remote_event_signal_local loc;
          let s = vchiq_platform_init_state (fresh_state ident master loc rem n m old);
          if \<not> (spawned 0 \<and> spawned 1 \<and> spawned 2) then Some (VCHIQ_ERROR, Inr s)
          else if ident \<ge> MAX_STATES then None
          else Some (VCHIQ_SUCCESS, Inr (local_update (sh_initialised_update (\<lambda>_. True)) s))
        })"

section \<open>The layout of the slots\<close>

lemma sdiv_pos: "0 \<le> k \<Longrightarrow> 0 < l \<Longrightarrow> (k :: int) sdiv l = k div l"
  by (cases "k = 0") (simp_all add: signed_divide_int_def sgn_if)

lemma sdiv_nonpos: "k < 0 \<Longrightarrow> 0 < l \<Longrightarrow> (k :: int) sdiv l \<le> 0"
  by (simp add: signed_divide_int_def sgn_if pos_imp_zdiv_nonneg_iff)

lemma mem_align_props:
  "unat (mem_align b) < 4096" "(b + mem_align b) AND 4095 = 0"
proof -
  have mask: "(4095 :: u32) = mask 12" by (simp add: mask_eq_exp_minus_1)
  have and_mod: "unat (x AND 4095) = unat x mod 4096" for x :: u32
    using slot_offset_mod [of x] by (simp add: slot_offset_def)
  show "unat (mem_align b) < 4096" by (simp add: mem_align_def and_mod)
  have "unat (b + mem_align b) mod 4096 = (unat b + unat (4096 - b)) mod 4096"
  proof -
    have "unat (b + mem_align b) mod 4096 = (unat b + unat (mem_align b)) mod 4096"
      using mod_mod_pow2_le [of 12 32 "unat b + unat (mem_align b)"] by (simp add: unat_word_ariths)
    then show ?thesis by (simp add: mem_align_def and_mod mod_simps)
  qed
  also have "\<dots> = 0"
  proof -
    have "(unat b + unat (4096 - b)) mod 2 ^ 32 = unat (b + (4096 - b))" by (simp only: unat_word_ariths) simp
    then have "(unat b + unat (4096 - b)) mod 2 ^ 32 = 4096" by simp
    then show ?thesis using mod_mod_pow2_le [of 12 32 "unat b + unat (4096 - b)"] by simp
  qed
  finally have "unat (b + mem_align b) mod 4096 = 0" .
  then show "(b + mem_align b) AND 4095 = 0"
    by (metis and_mod unat_eq_zero)
qed

lemma slot_zero_header_config: "config_ok (slot_zero_header m)"
  by (simp add: config_ok_def sz_magic_def sz_version_def sz_version_min_def slot_zero_header_def
      load32_def load16_def store32_def store16_def memcpy_def)

text \<open>
  C4. \<open>vchiq_init_slots\<close> gives each side a slot for synchronous messages and at least one
  stream slot; the ranges of the two sides are disjoint, follow slot zero and lie inside the
  memory, slot zero is aligned to a slot, and its header passes the checks that
  \<open>vchiq_init_state\<close> makes. It fails only when the memory holds less than five slots.
\<close>

theorem init_slots_layout:
  "case vchiq_init_slots base n m of
     None \<Rightarrow> (n - uint (mem_align base)) sdiv 4096 < 5
   | Some (a, z) \<Rightarrow> a AND 4095 = 0 \<and> config_ok (sz_mem z) \<and>
        slot_sync (sz_master z) = 1 \<and> slot_first (sz_master z) = 2 \<and> 2 \<le> slot_last (sz_master z) \<and>
        slot_sync (sz_slave z) = slot_last (sz_master z) + 1 \<and>
        slot_first (sz_slave z) = slot_sync (sz_slave z) + 1 \<and> slot_first (sz_slave z) \<le> slot_last (sz_slave z) \<and>
        uint (mem_align base) + int (slot_last (sz_slave z) + 1) * 4096 \<le> n \<and>
        \<not> sh_initialised (sz_master z) \<and> \<not> sh_initialised (sz_slave z)"
proof (cases "vchiq_init_slots base n m")
  case None
  then show ?thesis by (simp add: vchiq_init_slots_def Let_def split: if_splits)
next
  case (Some az)
  then obtain a z where some: "vchiq_init_slots base n m = Some (a, z)" by (cases az) auto
  let ?d = "n - uint (mem_align base)"
  let ?k = "?d sdiv 4096 - 1"
  have k: "4 \<le> ?k" using some by (simp add: vchiq_init_slots_def Let_def split: if_splits)
  then have "0 \<le> ?d" using sdiv_nonpos [of ?d 4096] by (cases "?d < 0") auto
  then have div: "?d sdiv 4096 = ?d div 4096" by (simp add: sdiv_pos)
  have half: "?k sdiv 2 = ?k div 2" using k by (simp add: sdiv_pos)
  have z: "a = base + mem_align base" "sz_mem z = slot_zero_header m"
    "slot_sync (sz_master z) = 1" "slot_first (sz_master z) = 2"
    "slot_last (sz_master z) = nat (?k div 2)" "slot_sync (sz_slave z) = nat (1 + ?k div 2)"
    "slot_first (sz_slave z) = nat (2 + ?k div 2)" "slot_last (sz_slave z) = nat ?k"
    "\<not> sh_initialised (sz_master z)" "\<not> sh_initialised (sz_slave z)"
    using some k by (auto simp: vchiq_init_slots_def Let_def half zero_shared_def algebra_simps)
  have bounds: "2 \<le> q div 2 \<and> 2 + q div 2 \<le> q" if "4 \<le> q" for q :: int
    using that by presburger
  obtain q h where q: "?k = q" and h: "q div 2 = h" by blast
  have hq: "2 \<le> h" "2 + h \<le> q" using bounds [of q] k by (simp_all add: q h)
  have "(q + 1) * 4096 \<le> ?d"
  proof -
    have "?d div 4096 * 4096 \<le> ?d" by simp
    then show ?thesis using q [symmetric] by (simp add: div)
  qed
  then show ?thesis
    unfolding some using z [unfolded q h] hq
    by (simp add: mem_align_props slot_zero_header_config nat_add_distrib nat_le_iff le_nat_iff)
qed

section \<open>The initial state\<close>

lemma fill_queue_spec:
  "n + length is \<le> 64 \<Longrightarrow> fill_queue is n sh =
     Some (n + length is, slot_queue_update (\<lambda>q i. if n \<le> i \<and> i < n + length is then is ! (i - n) else q i) sh)"
proof (induction "is" arbitrary: n sh)
  case Nil
  have "(\<lambda>q i. if n \<le> i \<and> i < n then [] ! (i - n) else q i) = (\<lambda>q. q)" by (intro ext) auto
  then have "slot_queue_update (\<lambda>q i. if n \<le> i \<and> i < n then [] ! (i - n) else q i) sh = sh" by (cases sh) auto
  then show ?case by simp
next
  case (Cons a "is")
  have "(\<lambda>i. if Suc n \<le> i \<and> i < Suc (n + length is) then is ! (i - Suc n) else (q(n := a)) i) =
    (\<lambda>i. if n \<le> i \<and> i < Suc (n + length is) then (a # is) ! (i - n) else q i)" for q
    by (rule ext) (auto simp: nth_Cons' )
  then show ?case using Cons.prems Cons.IH [of "Suc n" "slot_queue_update (\<lambda>q. q(n := a)) sh"]
    by (cases sh) (simp add: comp_def)
qed

lemma fill_queue_overflow: "n \<le> 64 \<Longrightarrow> 64 < n + length is \<Longrightarrow> fill_queue is n sh = None"
  by (induction "is" arbitrary: n sh) auto

text \<open>The fields that the initialisation of a side leaves.\<close>

definition starts_up :: "shared_state \<Rightarrow> bool" where
  "starts_up loc \<longleftrightarrow> \<not> sh_initialised loc \<and> slot_first loc \<le> slot_last loc \<and> slot_last loc < slot_first loc + 64"

definition all_slots_free :: "shared_state \<Rightarrow> vstate \<Rightarrow> bool" where
  "all_slots_free loc s \<longleftrightarrow>
     (let n = slot_last loc + 1 - slot_first loc
      in slot_available_event s = n \<and> slot_queue_available s = of_nat n \<and> slot_queue_recycle (local s) = of_nat n \<and>
         (\<forall>i<n. slot_queue (local s) i = slot_first loc + i))"

definition idle :: "vstate \<Rightarrow> bool" where
  "idle s \<longleftrightarrow> conn_state s = DISCONNECTED \<and> (\<forall>p. services s p = None) \<and> unused_service s = 0 \<and>
     \<not> slot_mutex s \<and> \<not> recycle_mutex s \<and> \<not> sync_mutex s \<and> \<not> bulk_transfer_mutex s \<and> \<not> state_mutex s \<and>
     local_tx_pos s = 0 \<and> tx_pos (local s) = 0 \<and> rx_pos s = 0 \<and> rx_data s = None \<and> connect s = 0 \<and> (\<forall>p. service_quotas s p = zero_quota) \<and>
     data_use_count s = 0 \<and> vc_suspend_state (plat s) = VC_SUSPEND_IDLE \<and> vc_resume_state (plat s) = VC_RESUME_RESUMED \<and>
     vc_resume_complete (plat s) \<noteq> 0 \<and> \<not> resume_blocked (plat s) \<and> videocore_use_count (plat s) = 0"

lemma init_state_ok:
  assumes "config_ok (sz_mem z)" "starts_up (if master then sz_master z else sz_slave z)" "ident = 0" "\<And>k. spawned k"
  defines "loc \<equiv> if master then sz_master z else sz_slave z"
  obtains s where "vchiq_init_state ident spawned z master old = Some (VCHIQ_SUCCESS, Inr s)"
    "tx_inv 0 [] s" "all_slots_free loc s" "idle s" "sh_initialised (local s)"
    "remote s = (if master then sz_slave z else sz_master z)" "is_master s = master"
    "mem s = set_hdr_msgid (slot_data (slot_sync loc)) MSGID_PADDING (settle_version (sz_mem z))"
proof -
  let ?rem = "if master then sz_slave z else sz_master z"
  let ?n = "slot_last loc + 1 - slot_first loc"
  let ?q = "\<lambda>i. if i < ?n then slot_first loc + i else slot_queue loc i"
  have n: "0 < ?n" "?n \<le> 64" using assms(2) by (auto simp: loc_def starts_up_def)
  have "slot_queue_update (\<lambda>q i. if 0 \<le> i \<and> i < 0 + length [slot_first loc..<slot_last loc + 1]
      then [slot_first loc..<slot_last loc + 1] ! (i - 0) else q i) loc = loc\<lparr>slot_queue := ?q\<rparr>"
    by (cases loc) (auto simp: fun_eq_iff simp del: upt_Suc)
  then have fill: "fill_queue [slot_first loc..<slot_last loc + 1] 0 loc = Some (?n, loc\<lparr>slot_queue := ?q\<rparr>)"
    using fill_queue_spec [of 0 "[slot_first loc..<slot_last loc + 1]" loc] n by simp
  let ?loc = "sync_release_update remote_event_signal_local
    ((create_events (loc\<lparr>slot_queue := ?q\<rparr>))\<lparr>tx_pos := 0, slot_queue_recycle := word_of_nat ?n\<rparr>)"
  let ?m = "set_hdr_msgid (slot_data (slot_sync loc)) MSGID_PADDING (settle_version (sz_mem z))"
  let ?s = "local_update (sh_initialised_update (\<lambda>_. True))
    (vchiq_platform_init_state (fresh_state ident master ?loc ?rem ?n ?m old))"
  have sync: "slot_sync (create_events sh) = slot_sync sh" for sh
    by (simp add: create_events_def)
  have not_init: "\<not> sh_initialised loc" using assms(2) by (simp add: loc_def starts_up_def)
  have pick: "(if master then (sz_master (sz_mem_update settle_version z), sz_slave (sz_mem_update settle_version z))
      else (sz_slave (sz_mem_update settle_version z), sz_master (sz_mem_update settle_version z))) = (loc, ?rem)"
    by (simp add: loc_def)
  have run: "vchiq_init_state ident spawned z master old = Some (VCHIQ_SUCCESS, Inr ?s)"
    unfolding vchiq_init_state_def Let_def pick prod.case
    using assms(1,3,4) by (simp add: not_init fill [unfolded Suc_eq_plus1 [symmetric]] sync del: upt_Suc)
  have "window (local ?s) 0 ?n"
    using n(2) by (auto simp: window_def inj_on_def vchiq_platform_init_state_def upd_arm_def fresh_state_def create_events_def Let_def)
  then have tx: "tx_state 0 0 ?s"
    by (simp add: tx_state_def slots_used_def vchiq_platform_init_state_def upd_arm_def fresh_state_def Let_def)
  have inv: "tx_inv 0 [] ?s"
    unfolding tx_inv_def
    by (rule exI [of _ 0], intro conjI tx)
      (simp_all add: vchiq_platform_init_state_def upd_arm_def fresh_state_def Let_def)
  have free: "all_slots_free loc ?s"
    by (simp add: all_slots_free_def vchiq_platform_init_state_def upd_arm_def fresh_state_def create_events_def Let_def)
  have idle: "idle ?s"
    by (simp add: idle_def vchiq_platform_init_state_def upd_arm_def fresh_state_def vchiq_arm_init_state_def
        zero_arm_def complete_all_def Let_def)
  show thesis
    by (rule that [OF run inv free idle])
      (simp_all add: vchiq_platform_init_state_def upd_arm_def fresh_state_def Let_def)
qed

text \<open>
  C5. Initialising a side of a valid, unused slot zero with one to 64 slots succeeds: all
  its slots are free and queued in order, its stream is well-formed and empty, no mutex is
  held, there is no service, and the VideoCore counts as resumed.
\<close>

theorem init_state_empty_stream:
  assumes "config_ok (sz_mem z)" "starts_up (if master then sz_master z else sz_slave z)"
  shows "\<exists>s. vchiq_init_state 0 (\<lambda>_. True) z master old = Some (VCHIQ_SUCCESS, Inr s) \<and>
    tx_inv 0 [] s \<and> all_slots_free (if master then sz_master z else sz_slave z) s \<and> idle s \<and>
    sh_initialised (local s) \<and> remote s = (if master then sz_slave z else sz_master z)"
  by (rule init_state_ok [OF assms refl, of "\<lambda>_. True" old]) auto

text \<open>
  \<open>vchiq_init_state\<close> refuses a slot zero exactly when its configuration is wrong or the
  side is initialised already. It does not check the number of slots: with more than 64 it
  writes past the end of \<open>slot_queue\<close> (the result \<open>None\<close>; the other cause is a second state).
\<close>

theorem init_state_outcomes:
  "(let loc = if master then sz_master z else sz_slave z in
    ((\<exists>z'. vchiq_init_state ident spawned z master old = Some (VCHIQ_ERROR, Inl z')) \<longleftrightarrow>
      \<not> (config_ok (sz_mem z) \<and> \<not> sh_initialised loc)) \<and>
    (vchiq_init_state ident spawned z master old = None \<longleftrightarrow>
      config_ok (sz_mem z) \<and> \<not> sh_initialised loc \<and>
      (slot_first loc + 64 \<le> slot_last loc \<or> (spawned 0 \<and> spawned 1 \<and> spawned 2 \<and> ident \<noteq> 0))))"
proof -
  define loc where "loc = (if master then sz_master z else sz_slave z)"
  have pick: "(if master then (sz_master (sz_mem_update settle_version z), sz_slave (sz_mem_update settle_version z))
      else (sz_slave (sz_mem_update settle_version z), sz_master (sz_mem_update settle_version z))) =
      (loc, if master then sz_slave z else sz_master z)"
    by (simp add: loc_def)
  show ?thesis
  proof (cases "slot_first loc + 64 \<le> slot_last loc")
    case True
    then have "fill_queue [slot_first loc..<slot_last loc + 1] 0 loc = None"
      by (intro fill_queue_overflow) (simp_all del: upt_Suc)
    then show ?thesis
      using True unfolding vchiq_init_state_def Let_def pick prod.case loc_def [symmetric]
      by (auto simp del: upt_Suc)
  next
    case False
    then obtain n loc' where "fill_queue [slot_first loc..<slot_last loc + 1] 0 loc = Some (n, loc')"
      using fill_queue_spec [of 0 "[slot_first loc..<slot_last loc + 1]" loc] by (auto simp del: upt_Suc)
    then show ?thesis
      using False unfolding vchiq_init_state_def Let_def pick prod.case loc_def [symmetric]
      by (auto simp del: upt_Suc)
  qed
qed

text \<open>The slot memory of \<open>vchiq_platform_init\<close> and the state of the ARM side on it.\<close>

definition boot_slots :: slot_zero where
  "boot_slots = snd (the (vchiq_init_slots 0 (65 * 4096) (\<lambda>_. 0)))"

definition before_boot :: vstate where
  "before_boot = undefined\<lparr>handle_seq := 0, pause_bulks_count := 0, waiters := \<lambda>_. \<lparr>w_bulk = None, w_event = 0, w_actual = 0\<rparr>,
     doorbells := 0, plat := zero_arm (\<lambda>_. None)\<rparr>"

definition boot_state :: vstate where
  "boot_state = projr (snd (the (vchiq_init_state 0 (\<lambda>_. True) boot_slots False before_boot)))"

lemma boot_slots_props:
  "vchiq_init_slots 0 (65 * 4096) (\<lambda>_. 0) = Some (0, boot_slots)"
  "config_ok (sz_mem boot_slots)" "starts_up (sz_slave boot_slots)" "starts_up (sz_master boot_slots)"
  "slot_first (sz_slave boot_slots) = 34" "slot_last (sz_slave boot_slots) = 64" "slot_sync (sz_slave boot_slots) = 33"
  by (simp_all add: boot_slots_def vchiq_init_slots_def mem_align_def Let_def signed_divide_int_def
      slot_zero_header_config starts_up_def zero_shared_def)

lemma boot_state_props:
  "vchiq_init_state 0 (\<lambda>_. True) boot_slots False before_boot = Some (VCHIQ_SUCCESS, Inr boot_state)"
  "tx_inv 0 [] boot_state" "all_slots_free (sz_slave boot_slots) boot_state" "idle boot_state" "\<not> is_master boot_state"
proof -
  obtain s where s: "vchiq_init_state 0 (\<lambda>_. True) boot_slots False before_boot = Some (VCHIQ_SUCCESS, Inr s)"
    "tx_inv 0 [] s" "all_slots_free (sz_slave boot_slots) s" "idle s" "\<not> is_master s"
    using init_state_ok [of boot_slots False 0 "\<lambda>_. True" before_boot] boot_slots_props by auto
  then have "boot_state = s" by (simp add: boot_state_def)
  then show "vchiq_init_state 0 (\<lambda>_. True) boot_slots False before_boot = Some (VCHIQ_SUCCESS, Inr boot_state)"
    "tx_inv 0 [] boot_state" "all_slots_free (sz_slave boot_slots) boot_state" "idle boot_state" "\<not> is_master boot_state"
    using s by simp_all
qed

lemma init_state_empty_stream_witness:
  "\<exists>s. vchiq_init_state 0 (\<lambda>_. True) boot_slots False before_boot = Some (VCHIQ_SUCCESS, Inr s) \<and>
    tx_inv 0 [] s \<and> slot_available_event s = 31"
  using init_state_empty_stream [of boot_slots False before_boot] boot_slots_props
  by (auto simp: all_slots_free_def)

end
