(* ===== verification/Vchiq_Service.thy ===== *)
theory Vchiq_Service
  imports Vchiq_Arm
begin

text \<open>
  vchiq_core.c: the table of services. Finding, locking and unlocking a service (a service
  is freed when its last reference goes), creating one, and its options.
  The code of the clients, reached through the callback and the \<open>userdata_term\<close> pointers
  of a service, is the parameter \<open>ops\<close>.
\<close>

record vchiq_ops =
  op_callback :: "ptr \<Rightarrow> vchiq_reason \<Rightarrow> nat option \<Rightarrow> u32 \<Rightarrow> ptr \<Rightarrow> vstate \<Rightarrow> vchiq_status \<times> vstate"
  op_userdata_term :: "ptr \<Rightarrow> ptr \<Rightarrow> vstate \<Rightarrow> vstate"

section \<open>References\<close>

text \<open>\<open>handle_to_service\<close>: there is one state, so only the port of the handle matters.\<close>

definition handle_port :: "u32 \<Rightarrow> nat" where
  "handle_port h = unat (h AND 4095)"

definition handle_to_service :: "u32 \<Rightarrow> vstate \<Rightarrow> service option" where
  "handle_to_service h s = services s (handle_port h)"

text \<open>Take a reference on the service at a port if it satisfies a test; \<open>None\<close> stops at
  \<open>BUG_ON(service->ref_count == 0)\<close>.\<close>

definition find_service :: "(service \<Rightarrow> bool) \<Rightarrow> nat \<Rightarrow> vstate \<Rightarrow> (nat option \<times> vstate) option" where
  "find_service test p s =
     (case services s p of
        None \<Rightarrow> Some (None, s)
      | Some sv \<Rightarrow>
          if test sv
          then if ref_count sv = 0 then None
               else Some (Some p, upd_service p (ref_count_update (\<lambda>n. n + 1)) s)
          else Some (None, s))"

definition find_service_by_handle :: "u32 \<Rightarrow> vstate \<Rightarrow> (nat option \<times> vstate) option" where
  "find_service_by_handle h = find_service (\<lambda>sv. srvstate sv \<noteq> SRV_FREE \<and> handle sv = h) (handle_port h)"

definition find_service_by_port :: "nat \<Rightarrow> vstate \<Rightarrow> (nat option \<times> vstate) option" where
  "find_service_by_port p s =
     (if p \<le> MAX_SERVICES - 1 then find_service (\<lambda>sv. srvstate sv \<noteq> SRV_FREE) p s else Some (None, s))"

definition find_service_for_instance :: "ptr \<Rightarrow> u32 \<Rightarrow> vstate \<Rightarrow> (nat option \<times> vstate) option" where
  "find_service_for_instance inst h =
     find_service (\<lambda>sv. srvstate sv \<noteq> SRV_FREE \<and> handle sv = h \<and> instance_of sv = inst) (handle_port h)"

definition find_closed_service_for_instance :: "ptr \<Rightarrow> u32 \<Rightarrow> vstate \<Rightarrow> (nat option \<times> vstate) option" where
  "find_closed_service_for_instance inst h =
     find_service (\<lambda>sv. (srvstate sv = SRV_FREE \<or> srvstate sv = SRV_CLOSED) \<and> handle sv = h \<and> instance_of sv = inst)
       (handle_port h)"

text \<open>The result carries the new index, from which the next call goes on.\<close>

function next_service_by_instance :: "ptr \<Rightarrow> nat \<Rightarrow> vstate \<Rightarrow> (nat option \<times> nat \<times> vstate) option" where
  "next_service_by_instance inst idx s =
     (if idx < unused_service s
      then case services s idx of
             Some sv \<Rightarrow>
               if srvstate sv \<noteq> SRV_FREE \<and> instance_of sv = inst
               then if ref_count sv = 0 then None
                    else Some (Some idx, idx + 1, upd_service idx (ref_count_update (\<lambda>n. n + 1)) s)
               else next_service_by_instance inst (idx + 1) s
           | None \<Rightarrow> next_service_by_instance inst (idx + 1) s
      else Some (None, idx, s))"
  by pat_completeness auto
termination
  by (relation "measure (\<lambda>(inst, idx, s). unused_service s - idx)") auto

declare next_service_by_instance.simps [simp del]

definition lock_service :: "nat \<Rightarrow> vstate \<Rightarrow> vstate option" where
  "lock_service p s =
     (case services s p of
        None \<Rightarrow> None
      | Some sv \<Rightarrow> if ref_count sv = 0 then None else Some (upd_service p (ref_count_update (\<lambda>n. n + 1)) s))"

definition unlock_service :: "vchiq_ops \<Rightarrow> nat \<Rightarrow> vstate \<Rightarrow> vstate option" where
  "unlock_service ops p s =
     (case services s p of
        None \<Rightarrow> None
      | Some sv \<Rightarrow>
          if ref_count sv = 0 then None
          else if ref_count sv - 1 = 0
          then if srvstate sv \<noteq> SRV_FREE then None
               else let s = s\<lparr>services := (services s)(localport sv := None)\<rparr>
                    in Some (if userdata_term sv \<noteq> NULL then op_userdata_term ops (userdata_term sv) (userdata sv) s else s)
          else Some (upd_service p (ref_count_update (\<lambda>n. n - 1)) s))"

definition vchiq_get_client_id :: "vchiq_ops \<Rightarrow> u32 \<Rightarrow> vstate \<Rightarrow> (u32 \<times> vstate) option" where
  "vchiq_get_client_id ops h s = do {
     (service, s) \<leftarrow> find_service_by_handle h s;
     (case service of
        Some p \<Rightarrow> do {
          let id = client_id (the (services s p));
          s \<leftarrow> unlock_service ops p s;
          Some (id, s)
        }
      | None \<Rightarrow> Some (0, s))
   }"

definition vchiq_get_service_userdata :: "u32 \<Rightarrow> vstate \<Rightarrow> ptr" where
  "vchiq_get_service_userdata h s = (case handle_to_service h s of Some sv \<Rightarrow> userdata sv | None \<Rightarrow> NULL)"

definition vchiq_get_service_fourcc :: "u32 \<Rightarrow> vstate \<Rightarrow> u32" where
  "vchiq_get_service_fourcc h s = (case handle_to_service h s of Some sv \<Rightarrow> fourcc sv | None \<Rightarrow> 0)"

section \<open>Marking a service, calling it back\<close>

text \<open>\<open>closing\<close> is set; passing through the mutexes waits for those who have not seen it.\<close>

definition mark_service_closing_internal ::
  "nat \<Rightarrow> bool \<Rightarrow> vstate sched \<Rightarrow> vstate \<Rightarrow> (vstate \<times> vstate sched) option" where
  "mark_service_closing_internal p sh_thread fs s = do {
     let s = upd_service p (closing_update (\<lambda>_. True)) s;
     (s, fs) \<leftarrow> mutex_acquire recycle_mutex recycle_mutex_update fs s;
     let s = mutex_release recycle_mutex_update s;
     (s, fs) \<leftarrow>
       (if \<not> sh_thread \<or> conn_state s \<noteq> PAUSE_SENT
        then do {
          (s, fs) \<leftarrow> mutex_acquire slot_mutex slot_mutex_update fs s;
          Some (mutex_release slot_mutex_update s, fs)
        }
        else Some (s, fs));
     Some (upd_quota (localport (the (services s p))) (quota_event_update sem_up) s, fs)
   }"

definition mark_service_closing :: "nat \<Rightarrow> vstate sched \<Rightarrow> vstate \<Rightarrow> (vstate \<times> vstate sched) option" where
  "mark_service_closing p = mark_service_closing_internal p False"

definition make_service_callback ::
  "vchiq_ops \<Rightarrow> nat \<Rightarrow> vchiq_reason \<Rightarrow> nat option \<Rightarrow> ptr \<Rightarrow> vstate \<Rightarrow> vchiq_status \<times> vstate" where
  "make_service_callback ops p reason header bulk_userdata s =
     (let sv = the (services s p);
          (status, s) = op_callback ops (callback sv) reason header (handle sv) bulk_userdata s
      in (if status = VCHIQ_ERROR then VCHIQ_SUCCESS else status, s))"

text \<open>The first service, from \<open>i\<close> on, that satisfies a test.\<close>

function search_services :: "(service \<Rightarrow> bool) \<Rightarrow> nat \<Rightarrow> vstate \<Rightarrow> nat option" where
  "search_services test i s =
     (if i < unused_service s
      then (case services s i of
              Some sv \<Rightarrow> if test sv then Some i else search_services test (i + 1) s
            | None \<Rightarrow> search_services test (i + 1) s)
      else None)"
  by pat_completeness auto
termination
  by (relation "measure (\<lambda>(test, i, s). unused_service s - i)") auto

declare search_services.simps [simp del]

definition listens :: "u32 \<Rightarrow> service \<Rightarrow> bool" where
  "listens fcc sv \<longleftrightarrow>
     public_fourcc sv = fcc \<and>
     (srvstate sv = SRV_LISTENING \<or> (srvstate sv = SRV_OPEN \<and> remoteport sv = PORT_FREE))"

definition get_listening_service :: "u32 \<Rightarrow> vstate \<Rightarrow> (nat option \<times> vstate) option" where
  "get_listening_service fcc s =
     (case search_services (listens fcc) 0 s of
        Some p \<Rightarrow> map_option (\<lambda>s. (Some p, s)) (lock_service p s)
      | None \<Rightarrow> Some (None, s))"

definition get_connected_service :: "nat \<Rightarrow> vstate \<Rightarrow> (nat option \<times> vstate) option" where
  "get_connected_service port s =
     (case search_services (\<lambda>sv. srvstate sv = SRV_OPEN \<and> remoteport sv = port) 0 s of
        Some p \<Rightarrow> map_option (\<lambda>s. (Some p, s)) (lock_service p s)
      | None \<Rightarrow> Some (None, s))"

section \<open>Creating a service\<close>

record service_params =
  sp_fourcc :: u32
  sp_callback :: ptr
  sp_userdata :: ptr
  sp_version :: u16
  sp_version_min :: u16

text \<open>\<open>init_bulk_queue\<close> sets the indices; the bulks keep what the memory held.\<close>

definition init_bulk_queue :: "bulk_queue \<Rightarrow> bulk_queue" where
  "init_bulk_queue q = q\<lparr>local_insert := 0, remote_insert := 0, process := 0, remote_notify := 0, remove := 0\<rparr>"

definition zero_stats :: service_stats where
  "zero_stats = \<lparr>quota_stalls = 0, slot_stalls = 0, bulk_stalls = 0, error_count = 0, ctrl_tx_count = 0,
     ctrl_rx_count = 0, bulk_tx_count = 0, bulk_rx_count = 0, bulk_aborted_count = 0,
     ctrl_tx_bytes = 0, ctrl_rx_bytes = 0, bulk_tx_bytes = 0, bulk_rx_bytes = 0\<rparr>"

text \<open>\<open>raw\<close> is the memory that \<open>kmalloc\<close> returned.\<close>

definition new_service :: "service \<Rightarrow> service_params \<Rightarrow> srvstate \<Rightarrow> ptr \<Rightarrow> ptr \<Rightarrow> service" where
  "new_service raw params st inst term = raw\<lparr>
     fourcc := sp_fourcc params, callback := sp_callback params, userdata := sp_userdata params,
     handle := 0, ref_count := 1, srvstate := SRV_FREE, userdata_term := term,
     localport := PORT_FREE, remoteport := PORT_FREE,
     public_fourcc := (if st = SRV_OPENING then FOURCC_INVALID else sp_fourcc params),
     client_id := 0, auto_close := 1, sync := 0, closing := False, trace := 0, poll_flags := 0,
     version := sp_version params, version_min := sp_version_min params,
     instance_of := inst, service_use_count := 0,
     bulk_tx := init_bulk_queue (bulk_tx raw), bulk_rx := init_bulk_queue (bulk_rx raw),
     remove_event := 0, bulk_remove_event := 0, bulk_mutex := False, stats := zero_stats\<rparr>"

text \<open>The first free entry below \<open>unused_service\<close> (a client); \<open>dflt\<close> if there is none.\<close>

function first_free :: "nat option \<Rightarrow> nat \<Rightarrow> vstate \<Rightarrow> nat option" where
  "first_free dflt i s =
     (if i < unused_service s then if services s i = None then Some i else first_free dflt (i + 1) s else dflt)"
  by pat_completeness auto
termination
  by (relation "measure (\<lambda>(dflt, i, s). unused_service s - i)") auto

declare first_free.simps [simp del]

text \<open>A server searches downwards from entry \<open>i - 1\<close>; \<open>None\<close> if another server has its fourcc.\<close>

fun server_entry :: "service_params \<Rightarrow> ptr \<Rightarrow> nat \<Rightarrow> nat option \<Rightarrow> vstate \<Rightarrow> nat option" where
  "server_entry params inst 0 found s = found"
| "server_entry params inst (Suc i) found s =
     (case services s i of
        None \<Rightarrow> server_entry params inst i (Some i) s
      | Some sv \<Rightarrow>
          if public_fourcc sv = sp_fourcc params \<and> (instance_of sv \<noteq> inst \<or> callback sv \<noteq> sp_callback params)
          then None
          else server_entry params inst i found s)"

definition service_entry :: "service_params \<Rightarrow> srvstate \<Rightarrow> ptr \<Rightarrow> vstate \<Rightarrow> nat option" where
  "service_entry params st inst s =
     (let unused = (if unused_service s < MAX_SERVICES then Some (unused_service s) else None)
      in if st = SRV_OPENING then first_free unused 0 s
         else server_entry params inst (unused_service s) unused s)"

definition enter_service :: "service \<Rightarrow> nat \<Rightarrow> vstate \<Rightarrow> vstate" where
  "enter_service sv p s =
     (let seq = (if handle_seq s = 0 then of_nat MAX_SERVICES else handle_seq s);
          h = seq OR of_nat (state_id s * MAX_SERVICES) OR of_nat p
      in s\<lparr>handle_seq := seq + of_nat MAX_SERVICES,
           services := (services s)(p := Some (sv\<lparr>localport := p, handle := h\<rparr>)),
           unused_service := (if p = unused_service s then unused_service s + 1 else unused_service s)\<rparr>)"

definition vchiq_add_service_internal ::
  "service option \<Rightarrow> service_params \<Rightarrow> srvstate \<Rightarrow> ptr \<Rightarrow> ptr \<Rightarrow> vstate sched \<Rightarrow> vstate
    \<Rightarrow> (nat option \<times> vstate \<times> vstate sched) option" where
  "vchiq_add_service_internal alloc params st inst term fs s =
     (case alloc of
        None \<Rightarrow> Some (None, s, fs)
      | Some raw \<Rightarrow> do {
          let sv = new_service raw params st inst term;
          (s, fs) \<leftarrow> mutex_acquire state_mutex state_mutex_update fs s;
          (case service_entry params st inst s of
             None \<Rightarrow> Some (None, mutex_release state_mutex_update s, fs)
           | Some p \<Rightarrow>
               let s = mutex_release state_mutex_update (enter_service sv p s);
                   s = upd_quota p (\<lambda>q. q\<lparr>slot_quota := default_slot_quota s,
                         message_quota := default_message_quota s\<rparr>) s;
                   s = (if slot_use_count (service_quotas s p) = 0
                        then upd_quota p (previous_tx_index_update (\<lambda>_. slot_queue_index (local_tx_pos s) - 1)) s
                        else s)
               in Some (Some p, vchiq_set_service_state p st s, fs))
        })"

section \<open>Options and queries\<close>

datatype service_option = OPTION_AUTOCLOSE | OPTION_SLOT_QUOTA | OPTION_MESSAGE_QUOTA
  | OPTION_SYNCHRONOUS | OPTION_TRACE

text \<open>\<open>v\<close> is an \<open>int\<close>; a quota is an unsigned short, a flag a char.\<close>

definition set_option :: "service_option \<Rightarrow> int \<Rightarrow> nat \<Rightarrow> vstate \<Rightarrow> vchiq_status \<times> vstate" where
  "set_option opt v p s =
     (let sv = the (services s p); q = service_quotas s (localport sv) in
      case opt of
        OPTION_AUTOCLOSE \<Rightarrow> (VCHIQ_SUCCESS, upd_service p (auto_close_update (\<lambda>_. word_of_int v)) s)
      | OPTION_SLOT_QUOTA \<Rightarrow>
          (let v = (if v = 0 then uint (default_slot_quota s) else v) in
           if v \<ge> uint (slot_use_count q) \<and> v < 65535
           then (VCHIQ_SUCCESS,
                 let s = upd_quota (localport sv) (slot_quota_update (\<lambda>_. word_of_int v)) s
                 in if v \<ge> uint (slot_use_count q) \<and> message_quota q \<ge> message_use_count q
                    then upd_quota (localport sv) (quota_event_update sem_up) s else s)
           else (VCHIQ_ERROR, s))
      | OPTION_MESSAGE_QUOTA \<Rightarrow>
          (let v = (if v = 0 then uint (default_message_quota s) else v) in
           if v \<ge> uint (message_use_count q) \<and> v < 65535
           then (VCHIQ_SUCCESS,
                 let s = upd_quota (localport sv) (message_quota_update (\<lambda>_. word_of_int v)) s
                 in if v \<ge> uint (message_use_count q) \<and> slot_quota q \<ge> slot_use_count q
                    then upd_quota (localport sv) (quota_event_update sem_up) s else s)
           else (VCHIQ_ERROR, s))
      | OPTION_SYNCHRONOUS \<Rightarrow>
          if srvstate sv = SRV_HIDDEN \<or> srvstate sv = SRV_LISTENING
          then (VCHIQ_SUCCESS, upd_service p (sync_update (\<lambda>_. word_of_int v)) s)
          else (VCHIQ_ERROR, s)
      | OPTION_TRACE \<Rightarrow> (VCHIQ_SUCCESS, upd_service p (trace_update (\<lambda>_. word_of_int v)) s))"

definition vchiq_set_service_option ::
  "vchiq_ops \<Rightarrow> u32 \<Rightarrow> service_option option \<Rightarrow> int \<Rightarrow> vstate \<Rightarrow> (vchiq_status \<times> vstate) option" where
  "vchiq_set_service_option ops h opt v s = do {
     (service, s) \<leftarrow> find_service_by_handle h s;
     (case service of
        None \<Rightarrow> Some (VCHIQ_ERROR, s)
      | Some p \<Rightarrow> do {
          let (status, s) = (case opt of Some opt \<Rightarrow> set_option opt v p s | None \<Rightarrow> (VCHIQ_ERROR, s));
          s \<leftarrow> unlock_service ops p s;
          Some (status, s)
        })
   }"

definition vchiq_get_peer_version :: "vchiq_ops \<Rightarrow> u32 \<Rightarrow> bool \<Rightarrow> vstate \<Rightarrow> (vchiq_status \<times> u16 option \<times> vstate) option" where
  "vchiq_get_peer_version ops h has_buffer s = do {
     (service, s) \<leftarrow> find_service_by_handle h s;
     (case service of
        None \<Rightarrow> Some (VCHIQ_ERROR, None, s)
      | Some p \<Rightarrow> do {
          let ok = (vchiq_check_service p s = VCHIQ_SUCCESS \<and> has_buffer);
          let v = peer_version (the (services s p));
          s \<leftarrow> unlock_service ops p s;
          Some (if ok then VCHIQ_SUCCESS else VCHIQ_ERROR, if ok then Some v else None, s)
        })
   }"

text \<open>\<open>VCHIQ_CONFIG_T\<close> as its 20 bytes; a client with a shorter structure gets a prefix. The
  comparison with \<open>sizeof\<close> is unsigned.\<close>

definition le_bytes :: "nat \<Rightarrow> u32 \<Rightarrow> u8 list" where
  "le_bytes n w = map (\<lambda>i. ucast (drop_bit (8 * i) w)) [0..<n]"

definition vchiq_config :: "u8 list" where
  "vchiq_config = le_bytes 4 (of_nat MAX_MSG_SIZE) @ le_bytes 4 (of_nat MAX_MSG_SIZE) @
     le_bytes 4 (of_nat NUM_SERVICE_BULKS) @ le_bytes 4 (of_nat MAX_SERVICES) @ le_bytes 2 8 @ le_bytes 2 3"

definition vchiq_get_config :: "u32 \<Rightarrow> vchiq_status \<times> u8 list" where
  "vchiq_get_config config_size =
     (if config_size > 20 then (VCHIQ_ERROR, []) else (VCHIQ_SUCCESS, take (unat config_size) vchiq_config))"

end
