(* ===== verification/Vchiq_Bulk.thy ===== *)
theory Vchiq_Bulk
  imports Vchiq_Service
begin

text \<open>
  Bulk transfers: the page lists that describe their buffers (vchiq_2835_arm.c) and the
  queues of vchiq_core.c. A queue holds up to four bulks; its five counters run without
  bound (they wrap at 2^32) and each bulk passes through them in the order
  \<open>local_insert\<close>/\<open>remote_insert\<close>, \<open>process\<close>, \<open>remote_notify\<close>, \<open>remove\<close>.
\<close>

section \<open>Page lists\<close>

abbreviation (input) "PAGE_SIZE \<equiv> (4096 :: nat)"
abbreviation (input) "PAGELIST_WRITE \<equiv> (0 :: u16)"
abbreviation (input) "PAGELIST_READ \<equiv> (1 :: u16)"

text \<open>\<open>VCHIQ_ARM_ADDRESS\<close> adds \<open>GPU_MEM_BASE\<close>, the cached alias on the Raspberry Pi 1.\<close>

definition gpu_mem_base :: u32 where
  "gpu_mem_base = 0x40000000"

definition arm_address :: "u32 \<Rightarrow> u32" where
  "arm_address x = x + gpu_mem_base"

definition page_of :: "u32 \<Rightarrow> nat \<Rightarrow> u32" where
  "page_of buf i = (buf + of_nat (i * PAGE_SIZE)) AND NOT 4095"

text \<open>Group the pages into runs: the low 12 bits of an entry count the following pages.\<close>

fun group_pages :: "u32 \<Rightarrow> u32 \<Rightarrow> u32 \<Rightarrow> u32 list \<Rightarrow> u32 list" where
  "group_pages base_addr next_addr run [] = [base_addr + run]"
| "group_pages base_addr next_addr run (addr # rest) =
     (if addr = next_addr \<and> run < 4095
      then group_pages base_addr (next_addr + 4096) (run + 1) rest
      else (base_addr + run) # group_pages addr (addr + 4096) 0 rest)"

text \<open>\<open>uninit\<close> is what \<open>pages[0]\<close> holds when there is no page (an empty buffer on a page
  boundary). The cache maintenance is left out.\<close>

definition create_pagelist :: "u32 \<Rightarrow> u32 \<Rightarrow> u16 \<Rightarrow> u32 \<Rightarrow> pagelist" where
  "create_pagelist buf count type uninit =
     (let offset = buf AND 4095;
          num_pages = unat ((count + offset + 4096 - 1) div 4096);
          pages = map (page_of buf) [0..<num_pages];
          first = arm_address (case pages of [] \<Rightarrow> uninit | p # _ \<Rightarrow> p)
      in \<lparr>pl_length = count, pl_type = type, pl_offset = ucast offset,
          pl_addrs = group_pages first (first + 4096) 0 (map arm_address (tl pages))\<rparr>)"

text \<open>\<open>vchiq_prepare_bulk_data\<close>: \<open>alloc\<close> is the result of \<open>kmalloc\<close>.\<close>

definition vchiq_prepare_bulk_data ::
  "ptr option \<Rightarrow> u32 \<Rightarrow> u32 \<Rightarrow> ptr \<Rightarrow> u32 \<Rightarrow> bulk_dir \<Rightarrow> bulk \<Rightarrow> (ptr \<Rightarrow> pagelist option)
    \<Rightarrow> vchiq_status \<times> bulk \<times> (ptr \<Rightarrow> pagelist option)" where
  "vchiq_prepare_bulk_data alloc uninit memhandle offset n dir b heap =
     (case alloc of
        None \<Rightarrow> (VCHIQ_ERROR, b, heap)
      | Some a \<Rightarrow>
          (VCHIQ_SUCCESS,
           b\<lparr>b_handle := memhandle, b_data := unat (arm_address (of_nat a)), b_remote_data := a\<rparr>,
           heap(a \<mapsto> create_pagelist (of_nat offset) n
                        (if dir = BULK_RECEIVE then PAGELIST_READ else PAGELIST_WRITE) uninit)))"

text \<open>\<open>vchiq_complete_bulk\<close> and \<open>free_pagelist\<close>\<close>

definition vchiq_complete_bulk :: "bulk \<Rightarrow> (ptr \<Rightarrow> pagelist option) \<Rightarrow> ptr \<Rightarrow> pagelist option" where
  "vchiq_complete_bulk b heap =
     (if b_remote_data b \<noteq> NULL \<and> b_actual b \<noteq> 0 then heap(b_remote_data b := None) else heap)"

section \<open>Queues\<close>

definition bulk_index :: "u32 \<Rightarrow> nat" where
  "bulk_index x = unat (x AND 3)"

definition bq :: "bulk_dir \<Rightarrow> service \<Rightarrow> bulk_queue" where
  "bq dir sv = (case dir of BULK_TRANSMIT \<Rightarrow> bulk_tx sv | BULK_RECEIVE \<Rightarrow> bulk_rx sv)"

definition bq_update :: "bulk_dir \<Rightarrow> (bulk_queue \<Rightarrow> bulk_queue) \<Rightarrow> service \<Rightarrow> service" where
  "bq_update dir f sv = (case dir of BULK_TRANSMIT \<Rightarrow> bulk_tx_update f sv | BULK_RECEIVE \<Rightarrow> bulk_rx_update f sv)"

definition queue_of :: "nat \<Rightarrow> bulk_dir \<Rightarrow> vstate \<Rightarrow> bulk_queue" where
  "queue_of p dir s = bq dir (the (services s p))"

definition upd_queue :: "nat \<Rightarrow> bulk_dir \<Rightarrow> (bulk_queue \<Rightarrow> bulk_queue) \<Rightarrow> vstate \<Rightarrow> vstate" where
  "upd_queue p dir f = upd_service p (bq_update dir f)"

definition upd_bulk :: "nat \<Rightarrow> (bulk \<Rightarrow> bulk) \<Rightarrow> bulk_queue \<Rightarrow> bulk_queue" where
  "upd_bulk i f q = q\<lparr>bulks := (bulks q)(i := f (bulks q i))\<rparr>"

definition poll_notify :: "bulk_dir \<Rightarrow> poll_type" where
  "poll_notify dir = (case dir of BULK_TRANSMIT \<Rightarrow> POLL_TXNOTIFY | BULK_RECEIVE \<Rightarrow> POLL_RXNOTIFY)"

section \<open>Notification\<close>

text \<open>The four bytes of an \<open>int\<close> as an element.\<close>

definition int_bytes :: "u32 list \<Rightarrow> nat \<Rightarrow> u8" where
  "int_bytes ws i = ucast (drop_bit (8 * (i mod 4)) (ws ! (i div 4)))"

text \<open>The master tells its peer about every processed bulk.\<close>

partial_function (option) notify_remote ::
  "nat \<Rightarrow> bulk_dir \<Rightarrow> vstate sched \<Rightarrow> vstate \<Rightarrow> (vchiq_status \<times> vstate \<times> vstate sched) option" where
  "notify_remote p dir fs s =
     (let q = queue_of p dir s; sv = the (services s p) in
      if remote_notify q \<noteq> process q
      then do {
        let b = bulks q (bulk_index (remote_notify q));
        let msgtype = (if b_dir b = BULK_TRANSMIT then MSG_BULK_RX_DONE else MSG_BULK_TX_DONE);
        (status, s, fs) \<leftarrow>
          (if b_remote_data b \<noteq> NULL
           then queue_message None (make_msg msgtype (localport sv) (remoteport sv))
                  [\<lparr>el_data = Some (int_bytes [b_actual b]), el_size = 4\<rparr>] 4 qm_nonblocking fs s
           else Some (VCHIQ_SUCCESS, s, fs));
        if status \<noteq> VCHIQ_SUCCESS then Some (status, s, fs)
        else notify_remote p dir fs (upd_queue p dir (remote_notify_update (\<lambda>n. n + 1)) s)
      }
      else Some (VCHIQ_SUCCESS, s, fs))"

definition count_bulk :: "bulk \<Rightarrow> service_stats \<Rightarrow> service_stats" where
  "count_bulk b st =
     (if b_actual b \<noteq> BULK_ACTUAL_ABORTED
      then (if b_dir b = BULK_TRANSMIT
            then st\<lparr>bulk_tx_count := bulk_tx_count st + 1, bulk_tx_bytes := bulk_tx_bytes st + scast (b_actual b)\<rparr>
            else st\<lparr>bulk_rx_count := bulk_rx_count st + 1, bulk_rx_bytes := bulk_rx_bytes st + scast (b_actual b)\<rparr>)
      else st\<lparr>bulk_aborted_count := bulk_aborted_count st + 1\<rparr>)"

definition bulk_reason :: "bulk \<Rightarrow> vchiq_reason" where
  "bulk_reason b =
     (if b_dir b = BULK_TRANSMIT
      then (if b_actual b = BULK_ACTUAL_ABORTED then BULK_TRANSMIT_ABORTED else BULK_TRANSMIT_DONE)
      else (if b_actual b = BULK_ACTUAL_ABORTED then BULK_RECEIVE_ABORTED else BULK_RECEIVE_DONE))"

text \<open>Tell the client about one bulk: a waiter, a callback, or nobody.\<close>

definition notify_client :: "vchiq_ops \<Rightarrow> nat \<Rightarrow> bulk \<Rightarrow> vchiq_status \<Rightarrow> vstate \<Rightarrow> vchiq_status \<times> vstate" where
  "notify_client ops p b status s =
     (if b_data b \<noteq> NULL \<and> instance_of (the (services s p)) \<noteq> NULL
      then let s = upd_stats p (count_bulk b) s
           in case b_mode b of
                BULK_MODE_BLOCKING \<Rightarrow>
                  (status,
                   if b_userdata b \<noteq> NULL
                   then s\<lparr>waiters := (waiters s)(b_userdata b := (waiters s (b_userdata b))
                          \<lparr>w_actual := b_actual b, w_event := sem_up (w_event (waiters s (b_userdata b)))\<rparr>)\<rparr>
                   else s)
              | BULK_MODE_CALLBACK \<Rightarrow> make_service_callback ops p (bulk_reason b) None (b_userdata b) s
              | _ \<Rightarrow> (status, s)
      else (status, s))"

partial_function (option) notify_local ::
  "vchiq_ops \<Rightarrow> nat \<Rightarrow> bulk_dir \<Rightarrow> vchiq_status \<Rightarrow> vstate \<Rightarrow> (vchiq_status \<times> vstate) option" where
  "notify_local ops p dir status s =
     (let q = queue_of p dir s in
      if remove q \<noteq> remote_notify q
      then let (status, s) = notify_client ops p (bulks q (bulk_index (remove q))) status s
           in if status = VCHIQ_RETRY then Some (status, s)
              else notify_local ops p dir status
                     (upd_service p (bulk_remove_event_update sem_up) (upd_queue p dir (remove_update (\<lambda>n. n + 1)) s))
      else Some (status, s))"

definition notify_bulks ::
  "vchiq_ops \<Rightarrow> nat \<Rightarrow> bulk_dir \<Rightarrow> bool \<Rightarrow> vstate sched \<Rightarrow> vstate \<Rightarrow> (vchiq_status \<times> vstate \<times> vstate sched) option" where
  "notify_bulks ops p dir retry_poll fs s = do {
     (status, s, fs) \<leftarrow>
       (if is_master s then notify_remote p dir fs s
        else Some (VCHIQ_SUCCESS, upd_queue p dir (\<lambda>q. q\<lparr>remote_notify := process q\<rparr>) s, fs));
     (status, s) \<leftarrow>
       (if status = VCHIQ_SUCCESS
        then do {
          (status, s) \<leftarrow> notify_local ops p dir status s;
          Some (if \<not> retry_poll then VCHIQ_SUCCESS else status, s)
        }
        else Some (status, s));
     Some (status, if status = VCHIQ_RETRY then request_poll (Some p) (poll_notify dir) s else s, fs)
   }"

section \<open>Resolving and aborting\<close>

text \<open>Only the master transfers bulks; on this side \<open>vchiq_transfer_bulk\<close> is \<open>BUG()\<close>.\<close>

definition vchiq_transfer_bulk :: "bulk \<Rightarrow> vstate \<Rightarrow> vstate option" where
  "vchiq_transfer_bulk b s = None"

definition complete_current :: "nat \<Rightarrow> bulk_dir \<Rightarrow> nat \<Rightarrow> vstate \<Rightarrow> vstate" where
  "complete_current p dir i s =
     upd_arm (pagelists_update (vchiq_complete_bulk (bulks (queue_of p dir s) i))) s"

partial_function (option) resolve_bulks ::
  "nat \<Rightarrow> bulk_dir \<Rightarrow> vstate sched \<Rightarrow> vstate \<Rightarrow> (nat \<times> vstate \<times> vstate sched) option" where
  "resolve_bulks p dir fs s =
     (let q = queue_of p dir s in
      if process q \<noteq> local_insert q \<and> process q \<noteq> remote_insert q
      then do {
        let i = bulk_index (process q);
        (s, fs) \<leftarrow> mutex_acquire bulk_transfer_mutex bulk_transfer_mutex_update fs s;
        s \<leftarrow> vchiq_transfer_bulk (bulks q i) s;
        let s = mutex_release bulk_transfer_mutex_update s;
        let s = upd_queue p dir (process_update (\<lambda>n. n + 1)) (complete_current p dir i s);
        (resolved, s, fs) \<leftarrow> resolve_bulks p dir fs s;
        Some (resolved + 1, s, fs)
      }
      else Some (0, s, fs))"

text \<open>One round of \<open>abort_outstanding_bulks\<close>: match the bulk of one side with a dummy.\<close>

definition abort_round :: "bulk_dir \<Rightarrow> bulk_queue \<times> (ptr \<Rightarrow> pagelist option) \<Rightarrow> bulk_queue \<times> (ptr \<Rightarrow> pagelist option)" where
  "abort_round dir = (\<lambda>(q, heap).
     let i = bulk_index (process q);
         q = (if process q = remote_insert q
              then (upd_bulk i (\<lambda>b. b\<lparr>b_remote_data := NULL, b_remote_size := 0\<rparr>) q)\<lparr>remote_insert := remote_insert q + 1\<rparr>
              else q)
     in if process q \<noteq> local_insert q
        then (q\<lparr>process := process q + 1\<rparr>, vchiq_complete_bulk (bulks q i) heap)
        else ((upd_bulk i (\<lambda>b. b\<lparr>b_data := NULL, b_size := 0, b_actual := BULK_ACTUAL_ABORTED, b_dir := dir\<rparr>) q)
                \<lparr>local_insert := local_insert q + 1, process := process q + 1\<rparr>, heap))"

function abort_loop :: "bulk_dir \<Rightarrow> bulk_queue \<times> (ptr \<Rightarrow> pagelist option) \<Rightarrow> bulk_queue \<times> (ptr \<Rightarrow> pagelist option)" where
  "abort_loop dir qh =
     (if process (fst qh) \<noteq> local_insert (fst qh) \<or> process (fst qh) \<noteq> remote_insert (fst qh)
      then abort_loop dir (abort_round dir qh) else qh)"
  by pat_completeness auto
termination
proof (relation "measure (\<lambda>(dir, q, h). unat (local_insert q - process q) + unat (remote_insert q - process q))")
  show "wf (measure (\<lambda>(dir :: bulk_dir, q, h :: ptr \<Rightarrow> pagelist option).
      unat (local_insert q - process q) + unat (remote_insert q - process q)))" by simp
next
  fix dir :: bulk_dir and qh :: "bulk_queue \<times> (ptr \<Rightarrow> pagelist option)"
  obtain q h where qh: "qh = (q, h)" by (cases qh)
  assume "process (fst qh) \<noteq> local_insert (fst qh) \<or> process (fst qh) \<noteq> remote_insert (fst qh)"
  then have ne: "process q \<noteq> local_insert q \<or> process q \<noteq> remote_insert q" by (simp add: qh)
  have pos: "0 < unat (a - b)" if "a \<noteq> b" for a b :: u32 using that by (simp add: unat_gt_0)
  have less: "unat (a - (b + 1)) < unat (a - b)" if "a \<noteq> b" for a b :: u32
    using unat_diff_Suc [OF that] pos [OF that] by simp
  have same: "unat ((a + 1) - (b + 1)) = unat (a - b)" for a b :: u32 by simp
  show "((dir, abort_round dir qh), dir, qh) \<in> measure (\<lambda>(dir, q, h).
      unat (local_insert q - process q) + unat (remote_insert q - process q))"
    using ne less [of "local_insert q" "process q"] less [of "remote_insert q" "process q"]
    by (auto simp: qh abort_round_def upd_bulk_def Let_def same)
qed

declare abort_loop.simps [simp del]

definition abort_outstanding_bulks :: "nat \<Rightarrow> bulk_dir \<Rightarrow> vstate \<Rightarrow> vstate" where
  "abort_outstanding_bulks p dir s =
     (let (q, heap) = abort_loop dir (queue_of p dir s, pagelists (plat s))
      in upd_arm (pagelists_update (\<lambda>_. heap)) (upd_queue p dir (\<lambda>_. q) s))"

definition do_abort_bulks :: "vchiq_ops \<Rightarrow> nat \<Rightarrow> vstate sched \<Rightarrow> vstate \<Rightarrow> (bool \<times> vstate \<times> vstate sched) option" where
  "do_abort_bulks ops p fs s = do {
     (s, fs) \<leftarrow> mutex_acquire (\<lambda>s. bulk_mutex (the (services s p))) (\<lambda>f. upd_service p (bulk_mutex_update f)) fs s;
     let s = abort_outstanding_bulks p BULK_TRANSMIT s;
     let s = abort_outstanding_bulks p BULK_RECEIVE s;
     let s = mutex_release (\<lambda>f. upd_service p (bulk_mutex_update f)) s;
     (status, s, fs) \<leftarrow> notify_bulks ops p BULK_TRANSMIT False fs s;
     (status, s, fs) \<leftarrow>
       (if status = VCHIQ_SUCCESS then notify_bulks ops p BULK_RECEIVE False fs s else Some (status, s, fs));
     Some (status = VCHIQ_SUCCESS, s, fs)
   }"

section \<open>Pausing and resuming all bulks\<close>

definition pause_bulks :: "vstate sched \<Rightarrow> vstate \<Rightarrow> (vstate \<times> vstate sched) option" where
  "pause_bulks fs s =
     (let n = pause_bulks_count s + 1; s = s\<lparr>pause_bulks_count := n\<rparr>
      in if n \<noteq> 1 then Some (s\<lparr>pause_bulks_count := 1\<rparr>, fs)
         else mutex_acquire bulk_transfer_mutex bulk_transfer_mutex_update fs s)"

definition resume_service ::
  "vchiq_ops \<Rightarrow> nat \<Rightarrow> vstate sched \<Rightarrow> vstate \<Rightarrow> (vstate \<times> vstate sched) option" where
  "resume_service ops p fs s =
     (case services s p of
        None \<Rightarrow> Some (s, fs)
      | Some sv \<Rightarrow>
          if srvstate sv \<noteq> SRV_OPEN then Some (s, fs)
          else do {
            (s, fs) \<leftarrow> mutex_acquire (\<lambda>s. bulk_mutex (the (services s p))) (\<lambda>f. upd_service p (bulk_mutex_update f)) fs s;
            (resolved_rx, s, fs) \<leftarrow> resolve_bulks p BULK_RECEIVE fs s;
            (resolved_tx, s, fs) \<leftarrow> resolve_bulks p BULK_TRANSMIT fs s;
            let s = mutex_release (\<lambda>f. upd_service p (bulk_mutex_update f)) s;
            (_, s, fs) \<leftarrow> (if resolved_rx \<noteq> 0 then notify_bulks ops p BULK_RECEIVE True fs s else Some (VCHIQ_SUCCESS, s, fs));
            (_, s, fs) \<leftarrow> (if resolved_tx \<noteq> 0 then notify_bulks ops p BULK_TRANSMIT True fs s else Some (VCHIQ_SUCCESS, s, fs));
            Some (s, fs)
          })"

partial_function (option) resume_services ::
  "vchiq_ops \<Rightarrow> nat \<Rightarrow> vstate sched \<Rightarrow> vstate \<Rightarrow> (vstate \<times> vstate sched) option" where
  "resume_services ops i fs s =
     (if i < unused_service s
      then do { (s, fs) \<leftarrow> resume_service ops i fs s; resume_services ops (i + 1) fs s }
      else Some (s, fs))"

definition resume_bulks :: "vchiq_ops \<Rightarrow> vstate sched \<Rightarrow> vstate \<Rightarrow> (vstate \<times> vstate sched) option" where
  "resume_bulks ops fs s =
     (let n = pause_bulks_count s - 1; s = s\<lparr>pause_bulks_count := n\<rparr>
      in if n \<noteq> 0 then Some (s\<lparr>pause_bulks_count := 0\<rparr>, fs)
         else let s = mutex_release bulk_transfer_mutex_update s
              in if deferred_bulks s = 0 then Some (s, fs)
                 else do {
                   (s, fs) \<leftarrow> resume_services ops 0 fs s;
                   Some (s\<lparr>deferred_bulks := 0\<rparr>, fs)
                 })"

section \<open>A client's bulk transfer\<close>

text \<open>The end of \<open>vchiq_bulk_transfer\<close>: a blocking client waits for its bulk.\<close>

definition bulk_wait :: "ptr option \<Rightarrow> (nat \<times> bulk_dir \<times> nat) option \<Rightarrow> vstate sched \<Rightarrow> vstate
    \<Rightarrow> (vchiq_status \<times> vstate \<times> vstate sched) option" where
  "bulk_wait waiter b fs s =
     (case waiter of
        None \<Rightarrow> Some (VCHIQ_SUCCESS, s, fs)
      | Some w \<Rightarrow> do {
          let s = s\<lparr>waiters := (waiters s)(w := (waiters s w)\<lparr>w_bulk := b\<rparr>)\<rparr>;
          (s, fs) \<leftarrow> sem_down (\<lambda>s. w_event (waiters s w))
                       (\<lambda>f s. s\<lparr>waiters := (waiters s)(w := w_event_update f (waiters s w))\<rparr>) fs s;
          Some (if w_actual (waiters s w) = BULK_ACTUAL_ABORTED then VCHIQ_ERROR else VCHIQ_SUCCESS, s, fs)
        })"

text \<open>Wait for a free entry of the queue, with \<open>bulk_mutex\<close> taken before and after.\<close>

definition bulk_queue_full :: "bulk_queue \<Rightarrow> bool" where
  "bulk_queue_full q \<longleftrightarrow> local_insert q = remove q + of_nat NUM_SERVICE_BULKS"

partial_function (option) bulk_wait_room ::
  "nat \<Rightarrow> bulk_dir \<Rightarrow> vstate sched \<Rightarrow> vstate \<Rightarrow> (vstate \<times> vstate sched) option" where
  "bulk_wait_room p dir fs s =
     (if bulk_queue_full (queue_of p dir s)
      then do {
        let s = mutex_release (\<lambda>f. upd_service p (bulk_mutex_update f)) s;
        (s, fs) \<leftarrow> sem_down (\<lambda>s. bulk_remove_event (the (services s p)))
                     (\<lambda>f. upd_service p (bulk_remove_event_update f)) fs s;
        (s, fs) \<leftarrow> mutex_acquire (\<lambda>s. bulk_mutex (the (services s p))) (\<lambda>f. upd_service p (bulk_mutex_update f)) fs s;
        bulk_wait_room p dir fs s
      }
      else Some (s, fs))"

text \<open>With both mutexes held: hand the bulk to the peer (or, on the master, to the resolver).\<close>

definition bulk_submit ::
  "nat \<Rightarrow> bulk_dir \<Rightarrow> nat \<Rightarrow> vstate sched \<Rightarrow> vstate \<Rightarrow> (vchiq_status \<times> vstate \<times> vstate sched) option" where
  "bulk_submit p dir i fs s =
     (let sv = the (services s p) in
      if srvstate sv \<noteq> SRV_OPEN then Some (VCHIQ_ERROR, s, fs)
      else if is_master s
      then do {
        let s = upd_queue p dir (local_insert_update (\<lambda>n. n + 1)) s;
        (resolved, s, fs) \<leftarrow> resolve_bulks p dir fs s;
        Some (VCHIQ_SUCCESS, if resolved \<noteq> 0 then request_poll (Some p) (poll_notify dir) s else s, fs)
      }
      else do {
        let b = bulks (queue_of p dir s) i;
        let msgtype = (if dir = BULK_TRANSMIT then MSG_BULK_TX else MSG_BULK_RX);
        (status, s, fs) \<leftarrow>
          queue_message None (make_msg msgtype (localport sv) (remoteport sv))
            [\<lparr>el_data = Some (int_bytes [of_nat (b_data b), b_size b]), el_size = 8\<rparr>] 8
            \<lparr>qm_is_blocking = True, qm_no_mutex_lock = True, qm_no_mutex_unlock = True\<rparr> fs s;
        if status \<noteq> VCHIQ_SUCCESS then Some (status, s, fs)
        else Some (VCHIQ_SUCCESS, upd_queue p dir (local_insert_update (\<lambda>n. n + 1)) s, fs)
      })"

text \<open>The transfer proper, on a service that has been found and checked.\<close>

definition bulk_enqueue ::
  "ptr option \<Rightarrow> u32 \<Rightarrow> nat \<Rightarrow> u32 \<Rightarrow> ptr \<Rightarrow> u32 \<Rightarrow> ptr \<Rightarrow> bulk_mode \<Rightarrow> bulk_dir \<Rightarrow> vstate sched \<Rightarrow> vstate
    \<Rightarrow> (vchiq_status \<times> nat \<times> vstate \<times> vstate sched) option" where
  "bulk_enqueue alloc uninit p memhandle offset n ud mode dir fs s = do {
     (s, fs) \<leftarrow> mutex_acquire (\<lambda>s. bulk_mutex (the (services s p))) (\<lambda>f. upd_service p (bulk_mutex_update f)) fs s;
     let s = (if bulk_queue_full (queue_of p dir s) then upd_stats p (bulk_stalls_update (\<lambda>c. c + 1)) s else s);
     (s, fs) \<leftarrow> bulk_wait_room p dir fs s;
     let i = bulk_index (local_insert (queue_of p dir s));
     let b = (bulks (queue_of p dir s) i)
               \<lparr>b_mode := mode, b_dir := dir, b_userdata := ud, b_size := n, b_actual := BULK_ACTUAL_ABORTED\<rparr>;
     let (status, b, heap) = vchiq_prepare_bulk_data alloc uninit memhandle offset n dir b (pagelists (plat s));
     let s = upd_arm (pagelists_update (\<lambda>_. heap)) (upd_queue p dir (upd_bulk i (\<lambda>_. b)) s);
     if status \<noteq> VCHIQ_SUCCESS
     then Some (VCHIQ_ERROR, i, mutex_release (\<lambda>f. upd_service p (bulk_mutex_update f)) s, fs)
     else do {
       (s, fs) \<leftarrow> mutex_acquire slot_mutex slot_mutex_update fs s;
       (status, s, fs) \<leftarrow> bulk_submit p dir i fs s;
       let s = mutex_release slot_mutex_update s;
       let s = (if status \<noteq> VCHIQ_SUCCESS then complete_current p dir i s else s);
       Some (status, i, mutex_release (\<lambda>f. upd_service p (bulk_mutex_update f)) s, fs)
     }
   }"

definition vchiq_bulk_transfer ::
  "vchiq_ops \<Rightarrow> ptr option \<Rightarrow> u32 \<Rightarrow> u32 \<Rightarrow> u32 \<Rightarrow> ptr \<Rightarrow> u32 \<Rightarrow> ptr \<Rightarrow> bulk_mode \<Rightarrow> bulk_dir \<Rightarrow> vstate sched \<Rightarrow> vstate
    \<Rightarrow> (vchiq_status \<times> vstate \<times> vstate sched) option" where
  "vchiq_bulk_transfer ops alloc uninit h memhandle offset n ud mode dir fs s = do {
     (service, s) \<leftarrow> find_service_by_handle h s;
     (case service of
        None \<Rightarrow> Some (VCHIQ_ERROR, s, fs)
      | Some p \<Rightarrow>
          if srvstate (the (services s p)) \<noteq> SRV_OPEN \<or> (memhandle = 0 \<and> offset = NULL) \<or>
             vchiq_check_service p s \<noteq> VCHIQ_SUCCESS
          then do { s \<leftarrow> unlock_service ops p s; Some (VCHIQ_ERROR, s, fs) }
          else if mode = BULK_MODE_WAITING
          then do {
            let b = w_bulk (waiters s ud);
            s \<leftarrow> unlock_service ops p s;
            bulk_wait (Some ud) b fs s
          }
          else do {
            let s = (if mode = BULK_MODE_BLOCKING
                     then s\<lparr>waiters := (waiters s)(ud := \<lparr>w_bulk = None, w_event = 0, w_actual = 0\<rparr>)\<rparr> else s);
            (status, i, s, fs) \<leftarrow> bulk_enqueue alloc uninit p memhandle offset n ud mode dir fs s;
            s \<leftarrow> unlock_service ops p s;
            if status \<noteq> VCHIQ_SUCCESS then Some (status, s, fs)
            else bulk_wait (if mode = BULK_MODE_BLOCKING then Some ud else None) (Some (p, dir, i)) fs s
          })
   }"

end
