(* ===== verification/Vchiq_Close.thy ===== *)
theory Vchiq_Close
  imports Vchiq_Bulk
begin

text \<open>
  vchiq_core.c: opening and closing services, and the connection itself. A service is
  closed by a CLOSE message in each direction; the states \<open>CLOSESENT\<close> and \<open>CLOSERECVD\<close>
  record which of the two has happened. Calls made on the slot handler's thread do the
  work themselves, others leave it to the handler and wait for \<open>remove_event\<close>.
\<close>

section \<open>Opening\<close>

definition open_payload :: "service \<Rightarrow> u32 \<Rightarrow> nat \<Rightarrow> u8" where
  "open_payload sv client =
     int_bytes [fourcc sv, client, ucast (version sv) OR push_bit 16 (ucast (version_min sv))]"

definition vchiq_open_service_internal ::
  "nat \<Rightarrow> u32 \<Rightarrow> vstate sched \<Rightarrow> vstate \<Rightarrow> (vchiq_status \<times> vstate \<times> vstate sched) option" where
  "vchiq_open_service_internal p client fs s = do {
     let payload = open_payload (the (services s p)) client;
     let s = upd_service p (client_id_update (\<lambda>_. client)) s;
     (_, s, fs) \<leftarrow> vchiq_use_service_internal p fs s;
     (status, s, fs) \<leftarrow>
       queue_message None (make_msg MSG_OPEN (localport (the (services s p))) 0)
         [\<lparr>el_data = Some payload, el_size = 12\<rparr>] 12 qm_blocking fs s;
     if status = VCHIQ_SUCCESS
     then do {
       (s, fs) \<leftarrow> sem_down (\<lambda>s. remove_event (the (services s p))) (\<lambda>f. upd_service p (remove_event_update f)) fs s;
       let st = srvstate (the (services s p));
       if st \<noteq> SRV_OPEN \<and> st \<noteq> SRV_OPENSYNC
       then Some (VCHIQ_ERROR,
              snd (vchiq_release_service_internal p (upd_stats p (error_count_update (\<lambda>c. c + 1)) s)), fs)
       else Some (VCHIQ_SUCCESS, s, fs)
     }
     else Some (status, s, fs)
   }"

section \<open>Freeing\<close>

definition vchiq_free_service_internal :: "vchiq_ops \<Rightarrow> nat \<Rightarrow> vstate \<Rightarrow> vstate option" where
  "vchiq_free_service_internal ops p s =
     (if srvstate (the (services s p)) \<in> {SRV_OPENING, SRV_CLOSED, SRV_HIDDEN, SRV_LISTENING, SRV_CLOSEWAIT}
      then unlock_service ops p
             (upd_service p (remove_event_update sem_up) (vchiq_set_service_state p SRV_FREE s))
      else Some s)"

text \<open>Release the claimed messages for a port in one slot.\<close>

partial_function (option) release_port_messages ::
  "nat \<Rightarrow> nat \<Rightarrow> u32 \<Rightarrow> u32 \<Rightarrow> vstate sched \<Rightarrow> vstate \<Rightarrow> (vstate \<times> vstate sched) option" where
  "release_port_messages port i pos stop fs s =
     (if pos < stop
      then do {
        let header = slot_data i + unat pos;
        let msgid = hdr_msgid (mem s) header;
        (s, fs) \<leftarrow>
          (if msg_dstport msgid = port \<and> msgid AND MSGID_CLAIMED \<noteq> 0
           then release_slot i (Some header) None fs s else Some (s, fs));
        release_port_messages port i (pos + calc_stride (hdr_size (mem s) header)) stop fs s
      }
      else Some (s, fs))"

function release_slots_messages ::
  "nat \<Rightarrow> nat \<Rightarrow> nat \<Rightarrow> vstate sched \<Rightarrow> vstate \<Rightarrow> (vstate \<times> vstate sched) option" where
  "release_slots_messages port i hi fs s =
     (if i \<le> hi
      then do {
        (s, fs) \<leftarrow>
          (if release_count (slot_infos s i) \<noteq> use_count (slot_infos s i)
           then release_port_messages port i 0
                  (if rx_data s = Some (slot_data i) then of_nat (slot_offset (rx_pos s)) else 4096) fs s
           else Some (s, fs));
        release_slots_messages port (i + 1) hi fs s
      }
      else Some (s, fs))"
  by pat_completeness auto
termination
  by (relation "measure (\<lambda>(port, i, hi, fs, s). Suc hi - i)") auto

declare release_slots_messages.simps [simp del]

definition release_service_messages :: "nat \<Rightarrow> vstate sched \<Rightarrow> vstate \<Rightarrow> (vstate \<times> vstate sched) option" where
  "release_service_messages p fs s =
     (let sv = the (services s p) in
      if sync sv \<noteq> 0
      then let header = slot_data (slot_sync (remote s))
           in Some (if msg_dstport (hdr_msgid (mem s) header) = localport sv
                    then release_message_sync header s else s, fs)
      else release_slots_messages (localport sv) (slot_first (remote s)) (slot_last (remote s)) fs s)"

section \<open>Closing\<close>

fun release_uses :: "nat \<Rightarrow> nat \<Rightarrow> vstate \<Rightarrow> vstate" where
  "release_uses 0 p s = s"
| "release_uses (Suc n) p s = release_uses n p (snd (vchiq_release_service_internal p s))"

definition is_server :: "service \<Rightarrow> bool" where
  "is_server sv \<longleftrightarrow> public_fourcc sv \<noteq> FOURCC_INVALID"

definition clear_peer :: "nat \<Rightarrow> vstate \<Rightarrow> vstate" where
  "clear_peer p = upd_service p (\<lambda>sv. sv\<lparr>client_id := 0, remoteport := PORT_FREE\<rparr>)"

definition close_newstate :: "nat \<Rightarrow> vstate \<Rightarrow> vstate" where
  "close_newstate p s =
     (let sv = the (services s p)
      in if is_server sv
         then (if auto_close sv \<noteq> 0 then vchiq_set_service_state p SRV_LISTENING (clear_peer p s)
               else vchiq_set_service_state p SRV_CLOSEWAIT s)
         else vchiq_set_service_state p SRV_CLOSED s)"

definition close_finish :: "vchiq_ops \<Rightarrow> bool \<Rightarrow> nat \<Rightarrow> vstate \<Rightarrow> vstate option" where
  "close_finish ops server p s =
     (let s = release_uses (nat (service_use_count (the (services s p)))) p s;
          s = clear_peer p s;
          st = srvstate (the (services s p))
      in if st = SRV_CLOSED then vchiq_free_service_internal ops p s
         else if st \<noteq> SRV_CLOSEWAIT
         then Some (upd_service p (remove_event_update sem_up)
                     (if server then upd_service p (closing_update (\<lambda>_. False)) s else s))
         else Some s)"

definition close_service_complete :: "vchiq_ops \<Rightarrow> nat \<Rightarrow> srvstate \<Rightarrow> vstate \<Rightarrow> (vchiq_status \<times> vstate) option" where
  "close_service_complete ops p failstate s =
     (let sv = the (services s p); server = is_server sv in
      if srvstate sv \<notin> {SRV_OPEN, SRV_CLOSESENT, SRV_CLOSERECVD, SRV_LISTENING} then Some (VCHIQ_ERROR, s)
      else let s = (if srvstate sv = SRV_LISTENING then s else close_newstate p s);
               (status, s) = make_service_callback ops p SERVICE_CLOSED None NULL s
           in if status \<noteq> VCHIQ_RETRY
              then map_option (\<lambda>s. (status, s)) (close_finish ops server p s)
              else Some (status, vchiq_set_service_state p failstate s))"

text \<open>The cases of \<open>vchiq_close_service_internal\<close>.\<close>

definition close_inactive :: "vchiq_ops \<Rightarrow> nat \<Rightarrow> bool \<Rightarrow> vstate \<Rightarrow> (vchiq_status \<times> vstate) option" where
  "close_inactive ops p close_recvd s =
     (let sv = the (services s p) in
      if close_recvd then Some (VCHIQ_SUCCESS, s)
      else if is_server sv
      then (let (status, s) =
              (if srvstate sv = SRV_LISTENING then (VCHIQ_ERROR, s)
               else (VCHIQ_SUCCESS,
                     let s = clear_peer p s
                     in if srvstate sv = SRV_CLOSEWAIT then vchiq_set_service_state p SRV_LISTENING s else s))
            in Some (status, upd_service p (remove_event_update sem_up) s))
      else map_option (\<lambda>s. (VCHIQ_SUCCESS, s)) (vchiq_free_service_internal ops p s))"

definition close_msg :: "service \<Rightarrow> u32" where
  "close_msg sv = make_msg MSG_CLOSE (localport sv) (msg_dstport (of_nat (remoteport sv)))"

definition close_opening ::
  "nat \<Rightarrow> bool \<Rightarrow> vstate sched \<Rightarrow> vstate \<Rightarrow> (vchiq_status \<times> vstate \<times> vstate sched) option" where
  "close_opening p close_recvd fs s =
     (if close_recvd
      then Some (VCHIQ_SUCCESS,
             upd_service p (remove_event_update sem_up) (vchiq_set_service_state p SRV_CLOSEWAIT s), fs)
      else queue_message (Some p) (close_msg (the (services s p))) [] 0 qm_nonblocking fs s)"

definition close_unlock :: "nat \<Rightarrow> vstate \<Rightarrow> vstate" where
  "close_unlock p s =
     (let s = mutex_release slot_mutex_update s
      in if sync (the (services s p)) \<noteq> 0 then mutex_release sync_mutex_update s else s)"

definition close_open ::
  "vchiq_ops \<Rightarrow> nat \<Rightarrow> bool \<Rightarrow> vstate sched \<Rightarrow> vstate \<Rightarrow> (vchiq_status \<times> vstate \<times> vstate sched) option" where
  "close_open ops p close_recvd fs s = do {
     (status, s, fs) \<leftarrow>
       (if is_master s \<or> close_recvd
        then do {
          (ok, s, fs) \<leftarrow> do_abort_bulks ops p fs s;
          Some (if ok then VCHIQ_SUCCESS else VCHIQ_RETRY, s, fs)
        }
        else Some (VCHIQ_SUCCESS, s, fs));
     (s, fs) \<leftarrow> release_service_messages p fs s;
     (status, s, fs) \<leftarrow>
       (if status = VCHIQ_SUCCESS
        then queue_message (Some p) (close_msg (the (services s p))) [] 0 qm_keep_mutex fs s
        else Some (status, s, fs));
     if status = VCHIQ_SUCCESS
     then if \<not> close_recvd
          then Some (status, close_unlock p (vchiq_set_service_state p SRV_CLOSESENT s), fs)
          else do {
            let s = close_unlock p (vchiq_set_service_state p SRV_CLOSERECVD s);
            (status, s) \<leftarrow> close_service_complete ops p SRV_CLOSERECVD s;
            Some (status, s, fs)
          }
     else Some (status,
            if srvstate (the (services s p)) = SRV_OPENSYNC then mutex_release sync_mutex_update s else s, fs)
   }"

definition close_sent ::
  "vchiq_ops \<Rightarrow> nat \<Rightarrow> bool \<Rightarrow> vstate sched \<Rightarrow> vstate \<Rightarrow> (vchiq_status \<times> vstate \<times> vstate sched) option" where
  "close_sent ops p close_recvd fs s =
     (if \<not> close_recvd then Some (VCHIQ_SUCCESS, s, fs)
      else do {
        (ok, s, fs) \<leftarrow> (if \<not> is_master s then do_abort_bulks ops p fs s else Some (True, s, fs));
        if \<not> ok then Some (VCHIQ_RETRY, s, fs)
        else do {
          (status, s) \<leftarrow> close_service_complete ops p SRV_CLOSERECVD s;
          Some (status, s, fs)
        }
      })"

definition close_received :: "vchiq_ops \<Rightarrow> nat \<Rightarrow> bool \<Rightarrow> vstate \<Rightarrow> (vchiq_status \<times> vstate) option" where
  "close_received ops p close_recvd s =
     close_service_complete ops p SRV_CLOSERECVD
       (if \<not> close_recvd \<and> is_server (the (services s p)) then vchiq_set_service_state p SRV_LISTENING s else s)"

definition vchiq_close_service_internal ::
  "vchiq_ops \<Rightarrow> nat \<Rightarrow> bool \<Rightarrow> vstate sched \<Rightarrow> vstate \<Rightarrow> (vchiq_status \<times> vstate \<times> vstate sched) option" where
  "vchiq_close_service_internal ops p close_recvd fs s =
     (let with_fs = map_option (\<lambda>(status, s). (status, s, fs)) in
      case srvstate (the (services s p)) of
        SRV_CLOSED \<Rightarrow> with_fs (close_inactive ops p close_recvd s)
      | SRV_HIDDEN \<Rightarrow> with_fs (close_inactive ops p close_recvd s)
      | SRV_LISTENING \<Rightarrow> with_fs (close_inactive ops p close_recvd s)
      | SRV_CLOSEWAIT \<Rightarrow> with_fs (close_inactive ops p close_recvd s)
      | SRV_OPENING \<Rightarrow> close_opening p close_recvd fs s
      | SRV_OPENSYNC \<Rightarrow> do {
          (s, fs) \<leftarrow> mutex_acquire sync_mutex sync_mutex_update fs s;
          close_open ops p close_recvd fs s
        }
      | SRV_OPEN \<Rightarrow> close_open ops p close_recvd fs s
      | SRV_CLOSESENT \<Rightarrow> close_sent ops p close_recvd fs s
      | SRV_CLOSERECVD \<Rightarrow> with_fs (close_received ops p close_recvd s)
      | SRV_FREE \<Rightarrow> Some (VCHIQ_SUCCESS, s, fs))"

definition vchiq_terminate_service_internal ::
  "nat \<Rightarrow> vstate sched \<Rightarrow> vstate \<Rightarrow> (vstate \<times> vstate sched) option" where
  "vchiq_terminate_service_internal p fs s = do {
     (s, fs) \<leftarrow> mark_service_closing p fs s;
     Some (request_poll (Some p) POLL_REMOVE s, fs)
   }"

text \<open>The wait for the slot handler to bring the service into one of the given states.\<close>

partial_function (option) wait_removed ::
  "srvstate set \<Rightarrow> nat \<Rightarrow> vstate sched \<Rightarrow> vstate \<Rightarrow> (vstate \<times> vstate sched) option" where
  "wait_removed done p fs s = do {
     (s, fs) \<leftarrow> sem_down (\<lambda>s. remove_event (the (services s p))) (\<lambda>f. upd_service p (remove_event_update f)) fs s;
     if srvstate (the (services s p)) \<in> done then Some (s, fs) else wait_removed done p fs s
   }"

text \<open>\<open>on_handler\<close>: the caller is the slot handler's thread.\<close>

definition vchiq_close_service ::
  "vchiq_ops \<Rightarrow> bool \<Rightarrow> u32 \<Rightarrow> vstate sched \<Rightarrow> vstate \<Rightarrow> (vchiq_status \<times> vstate \<times> vstate sched) option" where
  "vchiq_close_service ops on_handler h fs s = do {
     (service, s) \<leftarrow> find_service_by_handle h s;
     (case service of
        None \<Rightarrow> Some (VCHIQ_ERROR, s, fs)
      | Some p \<Rightarrow>
          if srvstate (the (services s p)) \<in> {SRV_FREE, SRV_LISTENING, SRV_HIDDEN}
          then do { s \<leftarrow> unlock_service ops p s; Some (VCHIQ_ERROR, s, fs) }
          else do {
            (s, fs) \<leftarrow> mark_service_closing p fs s;
            (status, s, fs) \<leftarrow>
              (if on_handler
               then do {
                 (status, s, fs) \<leftarrow> vchiq_close_service_internal ops p False fs s;
                 if status = VCHIQ_RETRY then None else Some (status, s, fs)
               }
               else Some (VCHIQ_SUCCESS, request_poll (Some p) POLL_TERMINATE s, fs));
            (s, fs) \<leftarrow> wait_removed {SRV_FREE, SRV_LISTENING, SRV_OPEN} p fs s;
            let status = (if status = VCHIQ_SUCCESS \<and> srvstate (the (services s p)) \<notin> {SRV_FREE, SRV_LISTENING}
                          then VCHIQ_ERROR else status);
            s \<leftarrow> unlock_service ops p s;
            Some (status, s, fs)
          })
   }"

definition vchiq_remove_service ::
  "vchiq_ops \<Rightarrow> bool \<Rightarrow> u32 \<Rightarrow> vstate sched \<Rightarrow> vstate \<Rightarrow> (vchiq_status \<times> vstate \<times> vstate sched) option" where
  "vchiq_remove_service ops on_handler h fs s = do {
     (service, s) \<leftarrow> find_service_by_handle h s;
     (case service of
        None \<Rightarrow> Some (VCHIQ_ERROR, s, fs)
      | Some p \<Rightarrow>
          if srvstate (the (services s p)) = SRV_FREE
          then do { s \<leftarrow> unlock_service ops p s; Some (VCHIQ_ERROR, s, fs) }
          else do {
            (s, fs) \<leftarrow> mark_service_closing p fs s;
            (status, s, fs) \<leftarrow>
              (if srvstate (the (services s p)) = SRV_HIDDEN \<or> on_handler
               then do {
                 let s = upd_service p (public_fourcc_update (\<lambda>_. FOURCC_INVALID)) s;
                 (status, s, fs) \<leftarrow> vchiq_close_service_internal ops p False fs s;
                 if status = VCHIQ_RETRY then None else Some (status, s, fs)
               }
               else Some (VCHIQ_SUCCESS, request_poll (Some p) POLL_REMOVE s, fs));
            (s, fs) \<leftarrow> wait_removed {SRV_FREE, SRV_OPEN} p fs s;
            let status = (if status = VCHIQ_SUCCESS \<and> srvstate (the (services s p)) \<noteq> SRV_FREE
                          then VCHIQ_ERROR else status);
            s \<leftarrow> unlock_service ops p s;
            Some (status, s, fs)
          })
   }"

section \<open>The connection\<close>

partial_function (option) unhide_services :: "vchiq_ops \<Rightarrow> ptr \<Rightarrow> nat \<Rightarrow> vstate \<Rightarrow> vstate option" where
  "unhide_services ops inst i s = do {
     (service, i, s) \<leftarrow> next_service_by_instance inst i s;
     (case service of
        None \<Rightarrow> Some s
      | Some p \<Rightarrow> do {
          let s = (if srvstate (the (services s p)) = SRV_HIDDEN then vchiq_set_service_state p SRV_LISTENING s else s);
          s \<leftarrow> unlock_service ops p s;
          unhide_services ops inst i s
        })
   }"

definition vchiq_connect_internal ::
  "vchiq_ops \<Rightarrow> ptr \<Rightarrow> vstate sched \<Rightarrow> vstate \<Rightarrow> (vchiq_status \<times> vstate \<times> vstate sched) option" where
  "vchiq_connect_internal ops inst fs s = do {
     s \<leftarrow> unhide_services ops inst 0 s;
     (status, s, fs) \<leftarrow>
       (if conn_state s = DISCONNECTED
        then do {
          (status, s, fs) \<leftarrow> queue_message None (make_msg MSG_CONNECT 0 0) [] 0 qm_blocking fs s;
          if status = VCHIQ_RETRY then Some (VCHIQ_RETRY, s, fs)
          else Some (VCHIQ_SUCCESS, vchiq_set_conn_state CONNECTING s, fs)
        }
        else Some (VCHIQ_SUCCESS, s, fs));
     if status = VCHIQ_RETRY then Some (VCHIQ_RETRY, s, fs)
     else if conn_state s = CONNECTING
     then do {
       (s, fs) \<leftarrow> sem_down connect connect_update fs s;
       let s = vchiq_set_conn_state CONNECTED s;
       Some (VCHIQ_SUCCESS, s\<lparr>connect := sem_up (connect s)\<rparr>, fs)
     }
     else Some (VCHIQ_SUCCESS, s, fs)
   }"

partial_function (option) remove_services ::
  "vchiq_ops \<Rightarrow> bool \<Rightarrow> ptr \<Rightarrow> nat \<Rightarrow> vstate sched \<Rightarrow> vstate \<Rightarrow> (vstate \<times> vstate sched) option" where
  "remove_services ops on_handler inst i fs s = do {
     (service, i, s) \<leftarrow> next_service_by_instance inst i s;
     (case service of
        None \<Rightarrow> Some (s, fs)
      | Some p \<Rightarrow> do {
          (_, s, fs) \<leftarrow> vchiq_remove_service ops on_handler (handle (the (services s p))) fs s;
          s \<leftarrow> unlock_service ops p s;
          remove_services ops on_handler inst i fs s
        })
   }"

definition vchiq_shutdown_internal ::
  "vchiq_ops \<Rightarrow> bool \<Rightarrow> ptr \<Rightarrow> vstate sched \<Rightarrow> vstate \<Rightarrow> (vchiq_status \<times> vstate \<times> vstate sched) option" where
  "vchiq_shutdown_internal ops on_handler inst fs s = do {
     (s, fs) \<leftarrow> remove_services ops on_handler inst 0 fs s;
     Some (VCHIQ_SUCCESS, s, fs)
   }"

definition count_state_error :: "vstate \<Rightarrow> vstate" where
  "count_state_error s = s\<lparr>st_stats := st_error_count_update (\<lambda>c. c + 1) (st_stats s)\<rparr>"

definition vchiq_pause_internal :: "vstate \<Rightarrow> vchiq_status \<times> vstate" where
  "vchiq_pause_internal s =
     (if conn_state s = CONNECTED
      then (VCHIQ_SUCCESS, request_poll None POLL_TERMINATE (vchiq_set_conn_state PAUSING s))
      else (VCHIQ_ERROR, count_state_error s))"

definition vchiq_resume_internal :: "vstate \<Rightarrow> vchiq_status \<times> vstate" where
  "vchiq_resume_internal s =
     (if conn_state s = PAUSED
      then (VCHIQ_SUCCESS, request_poll None POLL_TERMINATE (vchiq_set_conn_state RESUMING s))
      else (VCHIQ_ERROR, count_state_error s))"

section \<open>A client's messages\<close>

text \<open>The total size, which wraps at 2^32; \<open>None\<close> when an element without data has a size.\<close>

fun total_size :: "element list \<Rightarrow> u32 \<Rightarrow> u32 option" where
  "total_size [] n = Some n"
| "total_size (e # es) n =
     (if el_size e \<noteq> 0
      then if el_data e = None then None else total_size es (n + el_size e)
      else total_size es n)"

definition vchiq_queue_message ::
  "vchiq_ops \<Rightarrow> u32 \<Rightarrow> element list \<Rightarrow> vstate sched \<Rightarrow> vstate \<Rightarrow> (vchiq_status \<times> vstate \<times> vstate sched) option" where
  "vchiq_queue_message ops h elements fs s = do {
     (service, s) \<leftarrow> find_service_by_handle h s;
     (case service of
        None \<Rightarrow> Some (VCHIQ_ERROR, s, fs)
      | Some p \<Rightarrow> do {
          let sv = the (services s p);
          let msgid = make_msg MSG_DATA (localport sv) (remoteport sv);
          (status, s, fs) \<leftarrow>
            (if vchiq_check_service p s \<noteq> VCHIQ_SUCCESS then Some (VCHIQ_ERROR, s, fs)
             else case total_size elements 0 of
                None \<Rightarrow> Some (VCHIQ_ERROR, upd_stats p (error_count_update (\<lambda>c. c + 1)) s, fs)
              | Some n \<Rightarrow>
                  if n > of_nat MAX_MSG_SIZE
                  then Some (VCHIQ_ERROR, upd_stats p (error_count_update (\<lambda>c. c + 1)) s, fs)
                  else case srvstate sv of
                    SRV_OPEN \<Rightarrow> queue_message (Some p) msgid elements n qm_blocking fs s
                  | SRV_OPENSYNC \<Rightarrow> queue_message_sync (Some p) msgid elements n fs s
                  | _ \<Rightarrow> Some (VCHIQ_ERROR, s, fs));
          s \<leftarrow> unlock_service ops p s;
          Some (status, s, fs)
        })
   }"

definition vchiq_release_message ::
  "vchiq_ops \<Rightarrow> u32 \<Rightarrow> nat \<Rightarrow> vstate sched \<Rightarrow> vstate \<Rightarrow> (vstate \<times> vstate sched) option" where
  "vchiq_release_message ops h header fs s = do {
     (service, s) \<leftarrow> find_service_by_handle h s;
     (case service of
        None \<Rightarrow> Some (s, fs)
      | Some p \<Rightarrow> do {
          let i = slot_index_from_data header;
          (s, fs) \<leftarrow>
            (if slot_first (remote s) \<le> i \<and> i \<le> slot_last (remote s)
             then if hdr_msgid (mem s) header AND MSGID_CLAIMED \<noteq> 0
                  then release_slot i (Some header) (Some p) fs s else Some (s, fs)
             else Some (if i = slot_sync (remote s) then release_message_sync header s else s, fs));
          s \<leftarrow> unlock_service ops p s;
          Some (s, fs)
        })
   }"

end
