(* ===== verification/Vchiq_Transmit.thy ===== *)
theory Vchiq_Transmit
  imports Vchiq_Init Vchiq_Close
begin

text \<open>
  What sending a message guarantees: \<open>queue_message\<close> appends to the stream (Vchiq_Stream),
  reports a full stream, refuses a service that is being closed, and keeps the quotas.
\<close>

section \<open>Identifiers and strides\<close>

lemma bit_push_1: "bit (push_bit k 1 :: u32) n \<longleftrightarrow> n = k \<and> n < 32"
  by (auto simp: bit_simps)

lemma claimed_bit: "bit MSGID_CLAIMED n \<longleftrightarrow> n = 30" "bit (0x40 :: u32) n \<longleftrightarrow> n = 6"
proof -
  have "MSGID_CLAIMED = push_bit 30 1" "(0x40 :: u32) = push_bit 6 1" by (simp_all add: push_bit_eq_mult)
  then show "bit MSGID_CLAIMED n \<longleftrightarrow> n = 30" "bit (0x40 :: u32) n \<longleftrightarrow> n = 6"
    by (auto simp only: bit_push_1)
qed

lemma mask_bit: "bit (0xfff :: u32) n \<longleftrightarrow> n < 12"
proof -
  have "(0xfff :: u32) = mask 12" by (simp add: mask_eq_exp_minus_1)
  then have "bit (0xfff :: u32) n \<longleftrightarrow> bit (mask 12 :: u32) n" by (rule arg_cong)
  also have "\<dots> \<longleftrightarrow> n < 12" unfolding bit_mask_iff by (auto simp: possible_bit_def)
  finally show ?thesis .
qed

lemma claim_parts:
  fixes c e f m :: u32
  assumes "\<And>n. bit c n \<longleftrightarrow> n = 30" "\<And>n. bit e n \<longleftrightarrow> n = 6" "\<And>n. bit f n \<longleftrightarrow> n < 12"
  shows "drop_bit 24 (m OR c) = drop_bit 24 m OR e"
    "drop_bit 12 (m OR c) AND f = drop_bit 12 m AND f" "(m OR c) AND f = m AND f"
    "drop_bit 24 m AND e = 0 \<Longrightarrow> (m OR c) AND NOT c = m \<and> m AND c = 0"
    "(m OR c) AND c = c"
proof -
  show "drop_bit 24 (m OR c) = drop_bit 24 m OR e"
    by (rule bit_word_eqI) (auto simp: bit_drop_bit_eq bit_or_iff assms)
  show "drop_bit 12 (m OR c) AND f = drop_bit 12 m AND f" "(m OR c) AND f = m AND f"
    by (rule bit_word_eqI; auto simp: bit_drop_bit_eq bit_or_iff bit_and_iff assms)+
  show "(m OR c) AND c = c" by (rule bit_word_eqI) (auto simp: bit_or_iff bit_and_iff)
  assume "drop_bit 24 m AND e = 0"
  then have "bit (drop_bit 24 m AND e) 6 = bit (0 :: u32) 6" by simp
  then have "\<not> bit m 30" by (simp add: bit_drop_bit_eq bit_and_iff assms)
  then show "(m OR c) AND NOT c = m \<and> m AND c = 0"
    by (intro conjI bit_word_eqI) (auto simp: bit_or_iff bit_and_iff bit_not_iff assms possible_bit_def)
qed

lemmas claim_parts' = claim_parts [OF claimed_bit mask_bit]

lemma type_claimed: "msg_type (m OR MSGID_CLAIMED) = msg_type m OR 0x40"
  unfolding msg_type_def by (rule claim_parts'(1))

lemma ports_claimed:
  "msg_srcport (m OR MSGID_CLAIMED) = msg_srcport m" "msg_dstport (m OR MSGID_CLAIMED) = msg_dstport m"
  unfolding msg_srcport_def msg_dstport_def claim_parts'(2,3) by (rule refl)+

lemma unclaim:
  assumes "msg_type m AND 0x40 = 0"
  shows "(m OR MSGID_CLAIMED) AND NOT MSGID_CLAIMED = m" "m AND MSGID_CLAIMED = 0"
  using claim_parts'(4) assms unfolding msg_type_def by blast+

lemma small_type:
  assumes "type < 16"
  shows "type AND 0x40 = (0 :: u32)"
proof (rule bit_word_eqI)
  fix n
  have "unat type < 2 ^ 4" using assms by (simp add: word_less_nat_alt)
  then have "\<not> bit type 6" using bit_word_less [of type 6 4] by auto
  then show "bit (type AND 0x40) n = bit 0 n" by (simp only: bit_and_iff claimed_bit) auto
qed

text \<open>
  A message identifier gives back the type and the two ports it was made of. Marking
  it as claimed changes the type to one that no message has, leaves the ports, and is undone
  by clearing the mark.
\<close>

theorem msgid_roundtrip:
  assumes "type < 16" "srcport < 4096" "dstport < 4096"
  defines "m \<equiv> make_msg type srcport dstport"
  shows "msg_type m = type \<and> msg_srcport m = srcport \<and> msg_dstport m = dstport \<and>
    msg_type (m OR MSGID_CLAIMED) = type + 0x40 \<and> msg_srcport (m OR MSGID_CLAIMED) = srcport \<and>
    msg_dstport (m OR MSGID_CLAIMED) = dstport \<and> (m OR MSGID_CLAIMED) AND NOT MSGID_CLAIMED = m"
proof -
  have "type < 256" using assms(1) by (simp add: word_less_nat_alt)
  note parts = make_msg_parts [OF this assms(2,3), folded m_def]
  have z: "type AND 0x40 = 0" by (rule small_type [OF assms(1)])
  then have "type OR 0x40 = type + 0x40" by (metis disjunctive_add_eq_or)
  then show ?thesis using parts unclaim(1) [of m] z by (simp add: type_claimed ports_claimed)
qed

lemma msgid_roundtrip_witness:
  "msg_type (make_msg MSG_DATA 7 4095 OR MSGID_CLAIMED) = 0x45 \<and> msg_dstport (make_msg MSG_DATA 7 4095) = 4095"
  using msgid_roundtrip [of MSG_DATA 7 4095] by simp

text \<open>
  The stride of a message is the smallest multiple of the header size that holds the
  header and the data; a message of at most \<open>VCHIQ_MAX_MSG_SIZE\<close> bytes fits in a slot, and
  what remains of the slot behind it is empty or has room for a header.
\<close>

theorem calc_stride_bounds:
  assumes "unat n \<le> MAX_MSG_SIZE"
  shows "unat (calc_stride n) mod 8 = 0 \<and> unat n + 8 \<le> unat (calc_stride n) \<and>
    unat (calc_stride n) < unat n + 16 \<and> unat (calc_stride n) \<le> SLOT_SIZE"
proof -
  have "unat (calc_stride n) = (unat n + 15) div 8 * 8" using assms by (intro unat_calc_stride) simp
  moreover have "x div 8 * 8 \<le> x \<and> x < x div 8 * 8 + 8" for x :: nat by presburger
  ultimately show ?thesis using assms by presburger
qed

lemma calc_stride_bounds_witness: "unat (calc_stride 13) mod 8 = 0 \<and> unat (calc_stride 13) = 24"
  using calc_stride_bounds [of 13] by (auto simp: calc_stride_def)

section \<open>Sending\<close>


lemma boot_ready:
  "mutex_ready (make_msg MSG_CONNECT 0 0) qm_blocking boot_state" "may_send None (make_msg MSG_CONNECT 0 0) 0 boot_state"
  "elements_ok (make_msg MSG_CONNECT 0 0) [] 0" "has_room 0 boot_state"
  using boot_state_props(3,4) boot_slots_props(5,6)
  by (simp_all add: mutex_ready_def idle_def may_send_def elements_ok_def has_room_def all_slots_free_def make_msg_parts)


text \<open>
  When the stream is full and the call may not block, \<open>queue_message\<close> returns
  \<open>VCHIQ_RETRY\<close>: the messages in the stream stay, at most a padding message follows them,
  and the slot mutex is as it was before the call.
\<close>

theorem queue_message_full:
  assumes inv: "tx_inv r ms s" and ready: "mutex_ready msgid flags s" and clear: "may_send service msgid n s"
    and size: "unat n \<le> MAX_MSG_SIZE" and full: "\<not> has_room n s" and flags: "\<not> qm_is_blocking flags"
  shows "\<exists>s' pads. queue_message service msgid es n flags fs s = Some (VCHIQ_RETRY, s', fs) \<and>
    tx_inv r (ms @ pads) s' \<and> only_padding pads \<and> slot_mutex s' = slot_mutex s"
proof -
  obtain d where d: "tx_state r d s" "tx_pos (local s) = local_tx_pos s"
    "stream (mem s) (local s) (unat r) d = Some ms" using inv by (rule tx_invE)
  let ?s = "s\<lparr>slot_mutex := True\<rparr>" and ?n = "unat (calc_stride n)"
  note stride = stride_of_size [OF size]
  have d': "tx_state r d ?s" "stream (mem ?s) (local ?s) (unat r) d = Some ms"
    using d by (simp_all add: tx_state_def)
  have offset: "slot_offset (local_tx_pos s) = tx_offset r d"
    using tx_stateD(1) [OF d(1)] by (simp add: pos_offset)
  have empty: "slot_available_event ?s = 0" using full by (simp add: has_room_def)
  have boundary: "tx_offset r (next_start r d ?n) = 0"
  proof (cases "tx_offset r d = 0")
    case True
    then show ?thesis using stride(1) by (simp add: next_start_def msg_size_ok_def)
  next
    case False
    then have "\<not> tx_offset r d + ?n \<le> 4096" using full unfolding has_room_def offset by blast
    then have "next_start r d ?n = d + (4096 - tx_offset r d)" by (simp only: next_start_def if_False)
    then show ?thesis using boundary_after_pad(1) [OF tx_stateD(2,3) [OF d(1)] False] by (simp only:)
  qed
  obtain s1 pads where s1: "reserve_space (calc_stride n) False fs ?s = Some (None, s1, fs)"
    "tx_inv r (ms @ pads) s1" "only_padding pads" "slot_mutex s1"
    using reserve_space_full [OF d' stride(1) boundary empty, of fs] by auto
  let ?s2 = "case service of Some p \<Rightarrow> upd_stats p (slot_stalls_update (\<lambda>c. c + 1)) s1 | None \<Rightarrow> s1"
  let ?s3 = "if \<not> qm_no_mutex_lock flags then mutex_release slot_mutex_update ?s2 else ?s2"
  have "queue_message service msgid es n flags fs s = Some (VCHIQ_RETRY, ?s3, fs)"
    using s1(1) flags by (subst queue_message_reserves [OF ready clear]) (simp add: Let_def)
  moreover have "tx_inv r (ms @ pads) ?s3"
    using s1(2) by (auto simp: tx_inv_def tx_state_def upd_stats_def upd_service_def mutex_release_def split: option.split)
  moreover have "slot_mutex ?s3 = slot_mutex s"
    using s1(4) ready by (auto simp: mutex_ready_def upd_stats_def upd_service_def mutex_release_def split: option.split)
  ultimately show ?thesis using s1(3) by blast
qed

text \<open>The state when the other side has freed nothing: no slot is available.\<close>

definition full_state :: vstate where
  "full_state = boot_state\<lparr>slot_available_event := 0, slot_queue_available := 0\<rparr>"

lemma full_state_inv: "tx_inv 0 [] full_state"
proof -
  have "tx_state 0 0 full_state"
    using boot_state_props(4) by (simp add: tx_state_def full_state_def idle_def slots_used_def window_def)
  then show ?thesis
    using boot_state_props(4) unfolding tx_inv_def
    by (intro exI [of _ 0]) (simp add: full_state_def idle_def)
qed

lemma queue_message_full_witness:
  "\<exists>s' pads. queue_message None (make_msg MSG_REMOTE_USE 0 0) [] 0 qm_nonblocking [] full_state = Some (VCHIQ_RETRY, s', []) \<and>
    tx_inv 0 pads s' \<and> only_padding pads"
proof -
  have "mutex_ready (make_msg MSG_REMOTE_USE 0 0) qm_nonblocking full_state"
    "may_send None (make_msg MSG_REMOTE_USE 0 0) 0 full_state" "\<not> has_room 0 full_state"
    using boot_state_props(4)
    by (simp_all add: mutex_ready_def idle_def full_state_def may_send_def make_msg_parts has_room_def slot_offset_def)
  from queue_message_full [OF full_state_inv this(1,2) _ this(3), of "[]" "[]"]
  show ?thesis by auto
qed

section \<open>Quotas\<close>

text \<open>No service uses more messages or slots than its quotas.\<close>

definition counts_ok :: "'p vchiq \<Rightarrow> bool" where
  "counts_ok s \<longleftrightarrow> (\<forall>p. message_use_count (service_quotas s p) \<le> message_quota (service_quotas s p) \<and>
     slot_use_count (service_quotas s p) \<le> slot_quota (service_quotas s p))"

text \<open>What the other tasks may do while a sender waits: they keep the quotas, and while the
  slot mutex is taken they move neither the stream nor the quotas, and only return credit.\<close>

definition quota_rely :: "('p vchiq \<Rightarrow> 'p vchiq) \<Rightarrow> bool" where
  "quota_rely f \<longleftrightarrow> (\<forall>s.
     (counts_ok s \<longrightarrow> counts_ok (f s)) \<and>
     (slot_mutex s \<longrightarrow> slot_mutex (f s) \<and> local_tx_pos (f s) = local_tx_pos s \<and>
       (\<forall>p. let q = service_quotas s p; q' = service_quotas (f s) p
            in message_quota q' = message_quota q \<and> slot_quota q' = slot_quota q \<and>
               previous_tx_index q' = previous_tx_index q \<and>
               message_use_count q' \<le> message_use_count q \<and> slot_use_count q' \<le> slot_use_count q)))"

text \<open>The message and the slot that a sender is about to take are within its quotas.\<close>

definition cleared :: "nat \<Rightarrow> u32 \<Rightarrow> 'p vchiq \<Rightarrow> bool" where
  "cleared p tx_end s \<longleftrightarrow> slot_mutex s \<and> counts_ok s \<and>
     message_use_count (service_quotas s p) < message_quota (service_quotas s p) \<and>
     (tx_end \<noteq> previous_tx_index (service_quotas s p) \<longrightarrow>
        slot_use_count (service_quotas s p) < slot_quota (service_quotas s p))"

lemma cleared_rely:
  assumes "quota_rely f" "cleared p tx_end s"
  shows "cleared p tx_end (f s) \<and> local_tx_pos (f s) = local_tx_pos s"
proof -
  have m: "slot_mutex s" "counts_ok s" using assms(2) by (simp_all add: cleared_def)
  then have "slot_mutex (f s)" "counts_ok (f s)" "local_tx_pos (f s) = local_tx_pos s"
    using assms(1) by (simp_all add: quota_rely_def)
  moreover have "message_quota (service_quotas (f s) p) = message_quota (service_quotas s p)"
    "slot_quota (service_quotas (f s) p) = slot_quota (service_quotas s p)"
    "previous_tx_index (service_quotas (f s) p) = previous_tx_index (service_quotas s p)"
    "message_use_count (service_quotas (f s) p) \<le> message_use_count (service_quotas s p)"
    "slot_use_count (service_quotas (f s) p) \<le> slot_use_count (service_quotas s p)"
    using assms(1) m(1) by (simp_all add: quota_rely_def Let_def)
  ultimately show ?thesis using assms(2) by (auto simp: cleared_def intro: order.strict_trans1)
qed


lemma counts_ok_frame: "service_quotas s' = service_quotas s \<Longrightarrow> counts_ok s' = counts_ok s"
  by (simp add: counts_ok_def)

lemma counts_ok_upd [simp]:
  "counts_ok (upd_stats p f s) = counts_ok s" "counts_ok (slot_mutex_update g s) = counts_ok s"
  "counts_ok (mutex_release slot_mutex_update s) = counts_ok s"
  "counts_ok (upd_quota p (quota_event_update h) s) = counts_ok s"
  "counts_ok (data_quota_event_update h s) = counts_ok s"
  by (auto simp: counts_ok_def upd_stats_def upd_service_def mutex_release_def upd_quota_def)

lemma rely_counts: "quota_rely f \<Longrightarrow> counts_ok s \<Longrightarrow> counts_ok (f s)"
  by (simp add: quota_rely_def)

text \<open>Waits that start and end with the quotas kept.\<close>

lemma relock_counts:
  assumes "mutex_acquire slot_mutex slot_mutex_update fs s = Some (t, gs)" "counts_ok s" "\<forall>f\<in>set fs. quota_rely f"
  shows "counts_ok t \<and> slot_mutex t \<and> set gs \<subseteq> set fs"
proof -
  have "counts_ok t \<and> set gs \<subseteq> set fs \<and> (\<exists>u. t = slot_mutex_update (\<lambda>_. True) u)"
    by (rule mutex_acquire_inv [where I = counts_ok, OF assms(1,2)]) (use assms(3) in \<open>auto intro: rely_counts\<close>)
  then show ?thesis by auto
qed

lemma down_counts:
  assumes "sem_down get upd fs s = Some (t, gs)" "counts_ok s" "\<forall>f\<in>set fs. quota_rely f"
    and "\<And>g x. counts_ok x \<Longrightarrow> counts_ok (upd g x)"
  shows "counts_ok t \<and> set gs \<subseteq> set fs"
  using sem_down_inv [where I = counts_ok, OF assms(1,2)] assms(3,4) by (auto intro: rely_counts)

lemma not_full_cleared:
  assumes "\<not> quota_full tx_end (service_quotas s p)" "counts_ok s" "slot_mutex s"
  shows "cleared p tx_end s"
  using assms by (auto simp: quota_full_def cleared_def counts_ok_def order.strict_iff_order)

lemma service_quota_cleared:
  assumes "qm_service_quota p stride tx_end fs s = Some res"
    and "\<forall>f\<in>set fs. quota_rely f" "counts_ok s" "slot_mutex s" "tx_end = tx_end_index stride s"
  shows "case res of (early, t, gs) \<Rightarrow> set gs \<subseteq> set fs \<and> counts_ok t \<and>
    (early = None \<longrightarrow> cleared p (tx_end_index stride t) t)"
  using assms
proof (induction p stride tx_end fs s res rule: qm_service_quota.raw_induct [rotated, consumes 1, case_names step])
  case (step loop p stride tx_end fs s y)
  note IH = step(1) and run = step(2) and prems = step(3-)
  show ?case
  proof (cases "quota_full tx_end (service_quotas s p)")
    case False
    then have "y = (None, s, fs)" using run by simp
    then show ?thesis using not_full_cleared [OF False] prems by simp
  next
    case True
    let ?s1 = "mutex_release slot_mutex_update (upd_stats p (quota_stalls_update (\<lambda>n. n + 1)) s)"
    obtain s2 fs2 where w: "sem_down (\<lambda>s. quota_event (service_quotas s p)) (\<lambda>f. upd_quota p (quota_event_update f)) fs ?s1 = Some (s2, fs2)"
      and run2: "(if closing (the (services s2 p)) then Some (Some VCHIQ_ERROR, s2, fs2)
         else mutex_acquire slot_mutex slot_mutex_update fs2 s2 \<bind>
              (\<lambda>(s, fs). if srvstate (the (services s p)) \<noteq> SRV_OPEN
                 then Some (Some VCHIQ_ERROR, mutex_release slot_mutex_update s, fs)
                 else loop p stride (tx_end_index stride s) fs s)) = Some y"
      using run True by (auto simp: Let_def elim!: bind_SomeE)
    have s2: "counts_ok s2" "set fs2 \<subseteq> set fs"
      using down_counts [OF w _ prems(1)] prems(2) by simp_all
    show ?thesis
    proof (cases "closing (the (services s2 p))")
      case True
      then have "y = (Some VCHIQ_ERROR, s2, fs2)" using run2 by simp
      then show ?thesis using s2 by simp
    next
      case False
      then obtain s3 fs3 where m: "mutex_acquire slot_mutex slot_mutex_update fs2 s2 = Some (s3, fs3)"
        and run3: "(if srvstate (the (services s3 p)) \<noteq> SRV_OPEN
                 then Some (Some VCHIQ_ERROR, mutex_release slot_mutex_update s3, fs3)
                 else loop p stride (tx_end_index stride s3) fs3 s3) = Some y"
        using run2 by (auto elim!: bind_SomeE)
      have "\<forall>f\<in>set fs2. quota_rely f" using s2 prems(1) by blast
      note s3 = relock_counts [OF m s2(1) this]
      show ?thesis
      proof (cases "srvstate (the (services s3 p)) = SRV_OPEN")
        case False
        then have "y = (Some VCHIQ_ERROR, mutex_release slot_mutex_update s3, fs3)" using run3 by simp
        then show ?thesis using s2 s3 by auto
      next
        case True
        then have "loop p stride (tx_end_index stride s3) fs3 s3 = Some y" using run3 by simp
        then show ?thesis using IH s2 s3 prems(1) by fastforce
      qed
    qed
  qed
qed

lemma data_quota_counts:
  assumes "qm_data_quota stride tx_end fs s = Some res"
    and "\<forall>f\<in>set fs. quota_rely f" "counts_ok s" "slot_mutex s" "tx_end = tx_end_index stride s"
  shows "case res of (tx_end', t, gs) \<Rightarrow> set gs \<subseteq> set fs \<and> counts_ok t \<and> slot_mutex t \<and> tx_end' = tx_end_index stride t"
  using assms
proof (induction stride tx_end fs s res rule: qm_data_quota.raw_induct [rotated, consumes 1, case_names step])
  case (step loop stride tx_end fs s y)
  note IH = step(1) and run = step(2) and prems = step(3-)
  show ?case
  proof (cases "tx_end \<noteq> previous_data_index s \<and> data_use_count s = data_quota s")
    case False
    then have "y = (tx_end, s, fs)" using run unfolding if_not_P [OF False] by simp
    then show ?thesis using prems by simp
  next
    case True
    let ?s1 = "mutex_release slot_mutex_update (s\<lparr>st_stats := st_data_stalls_update (\<lambda>n. n + 1) (st_stats s)\<rparr>)"
    obtain s2 fs2 s3 fs3 where w: "sem_down data_quota_event data_quota_event_update fs ?s1 = Some (s2, fs2)"
      and m: "mutex_acquire slot_mutex slot_mutex_update fs2 s2 = Some (s3, fs3)"
      and run3: "(if tx_end_index stride s3 = previous_data_index s3 \<or> data_use_count s3 < data_quota s3
         then Some (tx_end_index stride s3, s3\<lparr>data_quota_event := sem_up (data_quota_event s3)\<rparr>, fs3)
         else loop stride (tx_end_index stride s3) fs3 s3) = Some y"
      using run True by (auto simp: Let_def elim!: bind_SomeE)
    have "counts_ok ?s1" using prems(2) by (simp add: counts_ok_def mutex_release_def)
    then have s2: "counts_ok s2" "set fs2 \<subseteq> set fs" using down_counts [OF w _ prems(1)] by simp_all
    have "\<forall>f\<in>set fs2. quota_rely f" using s2 prems(1) by blast
    note s3 = relock_counts [OF m s2(1) this]
    show ?thesis
    proof (cases "tx_end_index stride s3 = previous_data_index s3 \<or> data_use_count s3 < data_quota s3")
      case True
      then have "y = (tx_end_index stride s3, s3\<lparr>data_quota_event := sem_up (data_quota_event s3)\<rparr>, fs3)"
        using run3 by simp
      then show ?thesis using s2 s3 by (auto simp: tx_end_index_def counts_ok_def)
    next
      case False
      then have "loop stride (tx_end_index stride s3) fs3 s3 = Some y" using run3 by (simp only: if_False)
      then show ?thesis using IH s2 s3 prems(1) by fastforce
    qed
  qed
qed

text \<open>The slot predicted for the end of a message is the slot it ends in, padding or not.\<close>

lemma mod_div_slot: "a mod 2 ^ 32 div 4096 = a div 4096 mod (2 ^ 20 :: nat)"
proof -
  have "a mod (4096 * 2 ^ 20) div 4096 = a div 4096 mod (2 ^ 20 :: nat)" unfolding mod_mult2_eq by simp
  then show ?thesis by simp
qed

lemma queue_index_of_nat: "unat (slot_queue_index (pos + of_nat c)) = (unat pos + c) div 4096 mod 2 ^ 20"
  by (simp only: unat_slot_queue_index unat_plus_of_nat mod_div_slot)

lemma predicted_slot:
  assumes "0 < unat stride" "unat stride \<le> 4096"
  shows "slot_queue_index (fst (reserve_pad stride s) + stride - 1) = tx_end_index stride s"
proof (cases "sint stride > sint (4096 - (local_tx_pos s AND 4095))")
  case False
  then show ?thesis by (simp add: reserve_pad_def tx_end_index_def)
next
  case True
  define pos where "pos = local_tx_pos s"
  define k where "k = unat pos mod 4096"
  define c where "c = unat stride - 1"
  have k: "k < 4096" by (simp add: k_def)
  have and_k: "pos AND 4095 = of_nat k"
    using mask_offset [of pos] by (simp add: slot_offset_mod k_def)
  then have space: "4096 - (pos AND 4095) = (of_nat (4096 - k) :: u32)" using k by (simp add: of_nat_diff)
  have sints: "sint (of_nat (4096 - k) :: u32) = int (4096 - k)" "sint stride = int (unat stride)"
    by (rule sint_of_nat_small, simp) (rule sint_small, use assms(2) in simp)
  have gt: "4096 - k < unat stride" using True unfolding pos_def [symmetric] space sints of_nat_less_iff .
  have "stride - 1 = of_nat c"
    using assms(1) by (simp add: c_def of_nat_diff)
  then have stride: "x + stride - 1 = x + of_nat c" for x :: u32 by (metis add_diff_eq)
  have c: "4096 - k \<le> c" "c < 4096" using gt assms unfolding c_def by linarith+
  obtain q where q: "unat pos = 4096 * q + k" unfolding k_def using mult_div_mod_eq by metis
  have "unat (slot_queue_index (pos + of_nat (4096 - k) + of_nat c)) =
      unat (slot_queue_index (pos + of_nat (4096 - k + c)))" by (simp only: of_nat_add add.assoc)
  also have "\<dots> = (unat pos + (4096 - k + c)) div 4096 mod 2 ^ 20" by (rule queue_index_of_nat)
  also have "(unat pos + (4096 - k + c)) div 4096 = q + 1"
    using q k c(2) by (intro div_nat_eqI) auto
  also have "q + 1 = (unat pos + c) div 4096"
    using q k c by (intro div_nat_eqI [symmetric]) auto
  also have "(unat pos + c) div 4096 mod 2 ^ 20 = unat (slot_queue_index (pos + of_nat c))"
    by (rule queue_index_of_nat [symmetric])
  finally have "slot_queue_index (pos + of_nat (4096 - k) + of_nat c) = slot_queue_index (pos + of_nat c)"
    by (rule unsigned_word_eqI)
  then show ?thesis
    using True unfolding reserve_pad_def Let_def tx_end_index_def pos_def [symmetric] space
    by (simp add: stride)
qed

text \<open>An invariant of the mutex and the quotas that the other tasks keep holds across a reservation.\<close>

definition quota_invariant :: "('p vchiq \<Rightarrow> 'p vchiq) set \<Rightarrow> ('p vchiq \<Rightarrow> bool) \<Rightarrow> bool" where
  "quota_invariant tasks I \<longleftrightarrow>
     (\<forall>x y. slot_mutex y = slot_mutex x \<longrightarrow> service_quotas y = service_quotas x \<longrightarrow> I x \<longrightarrow> I y) \<and>
     (\<forall>f\<in>tasks. \<forall>x. I x \<longrightarrow> I (f x))"

lemma quota_invariantD:
  assumes "quota_invariant tasks I"
  shows "slot_mutex y = slot_mutex x \<Longrightarrow> service_quotas y = service_quotas x \<Longrightarrow> I x \<Longrightarrow> I y"
    "f \<in> tasks \<Longrightarrow> I x \<Longrightarrow> I (f x)"
  using assms unfolding quota_invariant_def by blast+

lemma quota_invariantI:
  assumes "\<And>x y. slot_mutex y = slot_mutex x \<Longrightarrow> service_quotas y = service_quotas x \<Longrightarrow> I y = I x"
    and "\<And>f x. f \<in> tasks \<Longrightarrow> I x \<Longrightarrow> I (f x)"
  shows "quota_invariant tasks I"
  unfolding quota_invariant_def using assms by metis

lemma cleared_invariant:
  assumes "\<forall>f\<in>set fs. quota_rely f"
  shows "quota_invariant (set fs) (cleared p e)"
proof (rule quota_invariantI)
  fix f and x :: "'a vchiq" assume "f \<in> set fs" "cleared p e x"
  then show "cleared p e (f x)" using assms cleared_rely by blast
qed (simp add: cleared_def counts_ok_def)

lemma counts_invariant:
  assumes "\<forall>f\<in>set fs. quota_rely f"
  shows "quota_invariant (set fs) counts_ok"
proof (rule quota_invariantI)
  fix f and x :: "'a vchiq" assume "f \<in> set fs" "counts_ok x"
  then show "counts_ok (f x)" using assms rely_counts by blast
qed (simp add: counts_ok_def)

lemma reserve_slot_keeps:
  assumes "reserve_slot pos blk fs s = Some (got, t, gs)" "I s" "quota_invariant (set fs) I"
  shows "I t \<and> set gs \<subseteq> set fs"
proof -
  let ?flush = "remote_event_signal trigger trigger_update (local_update (tx_pos_update (\<lambda>_. pos))
     (s\<lparr>st_stats := st_slot_stalls_update (\<lambda>n. n + 1) (st_stats s), local_tx_pos := pos\<rparr>))"
  note keep = quota_invariantD(1) [OF assms(3)]
  have frame: "I x \<Longrightarrow> I (x\<lparr>tx_data := d\<rparr>)" "I x \<Longrightarrow> I (x\<lparr>slot_available_event := c\<rparr>)"
    "I x \<Longrightarrow> I (slot_available_event_update g x)" for x c d g
    by (rule keep [rotated 2]; simp)+
  have flush: "I ?flush" by (rule keep [OF _ _ assms(2)]) (simp_all add: remote_event_signal_def)
  show ?thesis
  proof (cases "slot_available_event s = 0")
    case False
    then obtain d where "t = s\<lparr>slot_available_event := slot_available_event s - 1, tx_data := d\<rparr>" "gs = fs"
      using assms(1) by (auto simp: reserve_slot_def sem_trylock_def split: if_splits)
    moreover have "I (s\<lparr>slot_available_event := slot_available_event s - 1, tx_data := d\<rparr>)"
      by (rule frame(1) [OF frame(2) [OF assms(2)]])
    ultimately show ?thesis by blast
  next
    case full: True
    show ?thesis
    proof (cases blk)
      case False
      then show ?thesis using full assms(1) flush by (auto simp: reserve_slot_def sem_trylock_def Let_def split: if_splits)
    next
      case True
      then obtain u where u: "sem_down slot_available_event slot_available_event_update fs ?flush = Some (u, gs)"
        "t = u \<or> (\<exists>d. t = u\<lparr>tx_data := d\<rparr>)"
        using full assms(1) by (auto simp: reserve_slot_def sem_trylock_def Let_def bind_eq_Some_conv split: if_splits)
      have "I u \<and> set gs \<subseteq> set fs"
        by (rule sem_down_inv [where I = I, OF u(1) flush]) (use quota_invariantD(2) [OF assms(3)] frame(3) in blast)+
      then show ?thesis using u(2) frame(1) by blast
    qed
  qed
qed

lemma reserve_space_keeps:
  assumes run: "reserve_space stride blk fs s = Some (h, t, gs)" and "0 < unat stride" "unat stride \<le> 4096"
    and "I s" "quota_invariant (set fs) I"
  shows "set gs \<subseteq> set fs \<and> I t \<and>
    (h \<noteq> None \<longrightarrow> slot_queue_index (local_tx_pos t - 1) = tx_end_index stride s)"
proof -
  note keep = quota_invariantD(1) [OF assms(5)]
  obtain pos s1 where pad: "reserve_pad stride s = (pos, s1)" by (cases "reserve_pad stride s")
  have s1: "I s1"
    by (rule keep [OF _ _ assms(4)]) (use pad in \<open>auto simp: reserve_pad_def Let_def split: if_splits\<close>)
  have pos: "slot_queue_index (pos + stride - 1) = tx_end_index stride s"
    using predicted_slot [OF assms(2,3), of s] by (simp add: pad)
  obtain got s2 fs2 where r: "(if pos AND 4095 = 0 then reserve_slot pos blk fs s1 else Some (True, s1, fs)) = Some (got, s2, fs2)"
    and last: "(if \<not> got then Some (None, s2, fs2)
        else Some (Some (the (tx_data s2) + slot_offset pos), s2\<lparr>local_tx_pos := pos + stride\<rparr>, fs2)) = Some (h, t, gs)"
    using run by (auto simp: reserve_space_def pad bind_eq_Some_conv)
  have s2: "I s2 \<and> set fs2 \<subseteq> set fs"
    using r reserve_slot_keeps [where I = I, of pos blk fs s1 got s2 fs2] s1 assms(5) by (auto split: if_splits)
  have t: "I (s2\<lparr>local_tx_pos := pos + stride\<rparr>)" by (rule keep [of _ s2]) (use s2 in simp_all)
  show ?thesis
  proof (cases got)
    case True
    then have "t = s2\<lparr>local_tx_pos := pos + stride\<rparr>" "gs = fs2" using last by simp_all
    then show ?thesis using t s2 pos by simp
  next
    case False
    then show ?thesis using last s2 by simp
  qed
qed

lemma account_counts:
  assumes "cleared p (slot_queue_index (local_tx_pos s - 1)) s"
  shows "counts_ok (qm_data_account p s)"
proof -
  have up: "x + 1 \<le> y" if "x < y" for x y :: u16 using that by (simp add: inc_le)
  show ?thesis
    using assms up
    by (auto simp: qm_data_account_def Let_def cleared_def counts_ok_def upd_quota_def)
qed

text \<open>What \<open>queue_message\<close> does once the checks are over.\<close>

lemma write_counts:
  assumes "counts_ok s" and "msg_type msgid = MSG_DATA \<Longrightarrow> cleared (the service) (slot_queue_index (local_tx_pos s - 1)) s"
  shows "counts_ok (snd (qm_write service msgid es n h s))"
proof (cases "msg_type msgid = MSG_DATA")
  case True
  let ?s = "s\<lparr>mem := snd (copy_elements (h + HEADER_SIZE) es (mem s))\<rparr>"
  have "counts_ok (qm_data_account (the service) ?s)"
    using assms(2) True by (intro account_counts) (simp add: cleared_def counts_ok_def)
  moreover have "counts_ok ?s" "\<And>m. counts_ok (s\<lparr>mem := m\<rparr>) = counts_ok s"
    "\<And>m x :: 'a vchiq. counts_ok (x\<lparr>mem := m\<rparr>) = counts_ok x"
    using assms(1) by (simp_all add: counts_ok_def)
  ultimately show ?thesis using True by (auto simp: qm_write_def Let_def split: prod.split)
next
  case False
  then show ?thesis using assms(1) by (auto simp: qm_write_def Let_def counts_ok_def)
qed

lemma publish_counts: "counts_ok (qm_publish service msgid keep s) = counts_ok s"
  by (auto simp: qm_publish_def Let_def remote_event_signal_def vchiq_set_service_state_def upd_service_def
      counts_ok_def mutex_release_def split: option.split)

text \<open>The three stages of a call of \<open>queue_message\<close>: lock, checks, reservation and writing.\<close>

lemma queue_messageE:
  assumes "queue_message service msgid es n flags fs s = Some (status, t, gs)"
  obtains s1 fs1 early s2 fs2 where
    "(if \<not> qm_no_mutex_lock flags then mutex_acquire slot_mutex slot_mutex_update fs s else Some (s, fs)) = Some (s1, fs1)"
    "(if msg_type msgid = MSG_DATA
        then if service = None \<or> qm_no_mutex_lock flags \<or> qm_no_mutex_unlock flags then None
             else qm_data_checks (the service) (calc_stride n) fs1 s1
        else Some (None, s1, fs1)) = Some (early, s2, fs2)"
    "case early of
       Some st \<Rightarrow> status = st \<and> t = s2 \<and> gs = fs2
     | None \<Rightarrow> \<exists>h s3. reserve_space (calc_stride n) (qm_is_blocking flags) fs2 s2 = Some (h, s3, gs) \<and>
         service_quotas t = service_quotas (case h of None \<Rightarrow> s3 | Some h \<Rightarrow> snd (qm_write service msgid es n h s3))"
proof -
  let ?lock = "if \<not> qm_no_mutex_lock flags then mutex_acquire slot_mutex slot_mutex_update fs s else Some (s, fs)"
  let ?checks = "\<lambda>s fs. if msg_type msgid = MSG_DATA
        then if service = None \<or> qm_no_mutex_lock flags \<or> qm_no_mutex_unlock flags then None
             else qm_data_checks (the service) (calc_stride n) fs s
        else Some (None, s, fs)"
  from assms obtain s1 fs1 where 1: "?lock = Some (s1, fs1)"
    unfolding queue_message_def Let_def [of "calc_stride n"] by (elim bind_SomeE) (metis surj_pair)
  with assms obtain early s2 fs2 where 2: "?checks s1 fs1 = Some (early, s2, fs2)"
    unfolding queue_message_def Let_def [of "calc_stride n"] by (auto elim!: bind_SomeE)
  have sent: "service_quotas (qm_publish service msgid keep x) = service_quotas x" for keep and x :: "'a vchiq"
    by (auto simp: qm_publish_def Let_def remote_event_signal_def vchiq_set_service_state_def upd_service_def
        mutex_release_def split: option.split)
  show thesis
  proof (rule that [OF 1 2], cases early)
    case (Some st)
    then show "case early of
       Some st \<Rightarrow> status = st \<and> t = s2 \<and> gs = fs2
     | None \<Rightarrow> \<exists>h s3. reserve_space (calc_stride n) (qm_is_blocking flags) fs2 s2 = Some (h, s3, gs) \<and>
         service_quotas t = service_quotas (case h of None \<Rightarrow> s3 | Some h \<Rightarrow> snd (qm_write service msgid es n h s3))"
      using assms unfolding queue_message_def Let_def [of "calc_stride n"] 1 Option.bind.bind_lunit prod.case 2 by simp
  next
    case None
    note run = assms [unfolded queue_message_def Let_def [of "calc_stride n"] 1 Option.bind.bind_lunit prod.case 2 None option.case]
    then obtain h s3 fs3 where 3: "reserve_space (calc_stride n) (qm_is_blocking flags) fs2 s2 = Some (h, s3, fs3)"
      by (elim bind_SomeE) (metis surj_pair)
    note run = run [unfolded 3 Option.bind.bind_lunit prod.case]
    have "fs3 = gs \<and> service_quotas t = service_quotas (case h of None \<Rightarrow> s3 | Some h \<Rightarrow> snd (qm_write service msgid es n h s3))"
    proof (cases h)
      case None
      then show ?thesis using run
        by (auto simp: Let_def upd_stats_def upd_service_def mutex_release_def split: option.splits if_splits)
    next
      case (Some a)
      then show ?thesis using run
        by (cases "qm_write service msgid es n a s3"; cases "fst (qm_write service msgid es n a s3)")
          (auto simp: sent mutex_release_def)
    qed
    then show "case early of
       Some st \<Rightarrow> status = st \<and> t = s2 \<and> gs = fs2
     | None \<Rightarrow> \<exists>h s3. reserve_space (calc_stride n) (qm_is_blocking flags) fs2 s2 = Some (h, s3, gs) \<and>
         service_quotas t = service_quotas (case h of None \<Rightarrow> s3 | Some h \<Rightarrow> snd (qm_write service msgid es n h s3))"
      using None 3 by auto
  qed
qed

lemma data_checks_counts:
  assumes "qm_data_checks p stride fs s = Some (early, t, gs)"
    and "\<forall>f\<in>set fs. quota_rely f" "counts_ok s" "slot_mutex s"
  shows "set gs \<subseteq> set fs \<and> counts_ok t \<and> (early = None \<longrightarrow> cleared p (tx_end_index stride t) t)"
proof (cases "closing (the (services s p))")
  case True
  then show ?thesis using assms by (auto simp: qm_data_checks_def)
next
  case False
  then obtain e s1 fs1 where 1: "qm_data_quota stride (tx_end_index stride s) fs s = Some (e, s1, fs1)"
    and 2: "qm_service_quota p stride e fs1 s1 = Some (early, t, gs)"
    using assms(1) by (auto simp: qm_data_checks_def bind_eq_Some_conv)
  have s1: "set fs1 \<subseteq> set fs" "counts_ok s1" "slot_mutex s1" "e = tx_end_index stride s1"
    using data_quota_counts [OF 1 assms(2-4) refl] by simp_all
  have "\<forall>f\<in>set fs1. quota_rely f" using s1(1) assms(2) by blast
  then show ?thesis using service_quota_cleared [OF 2 _ s1(2-4)] s1(1) by auto
qed

text \<open>
  C7. A service stays within its message and slot quotas: whatever the other tasks do while
  the sender waits (as long as they keep the quotas and leave the stream to the holder of
  the slot mutex), every \<open>queue_message\<close> that returns leaves all services within theirs.
\<close>

theorem queue_message_within_quota:
  assumes run: "queue_message service msgid es n flags fs s = Some (status, t, gs)"
    and counts: "counts_ok s" and rely: "\<forall>f\<in>set fs. quota_rely f"
    and size: "unat n \<le> MAX_MSG_SIZE" and lock: "qm_no_mutex_lock flags \<Longrightarrow> slot_mutex s"
  shows "counts_ok t \<and> set gs \<subseteq> set fs"
proof -
  have stride: "0 < unat (calc_stride n)" "unat (calc_stride n) \<le> 4096"
    using stride_of_size(1) [OF size] by (simp_all add: msg_size_ok_def)
  from run show ?thesis
  proof (rule queue_messageE)
    fix s1 fs1 early s2 fs2
    assume 1: "(if \<not> qm_no_mutex_lock flags then mutex_acquire slot_mutex slot_mutex_update fs s else Some (s, fs)) = Some (s1, fs1)"
      and 2: "(if msg_type msgid = MSG_DATA
        then if service = None \<or> qm_no_mutex_lock flags \<or> qm_no_mutex_unlock flags then None
             else qm_data_checks (the service) (calc_stride n) fs1 s1
        else Some (None, s1, fs1)) = Some (early, s2, fs2)"
      and 3: "case early of
       Some st \<Rightarrow> status = st \<and> t = s2 \<and> gs = fs2
     | None \<Rightarrow> \<exists>h s3. reserve_space (calc_stride n) (qm_is_blocking flags) fs2 s2 = Some (h, s3, gs) \<and>
         service_quotas t = service_quotas (case h of None \<Rightarrow> s3 | Some h \<Rightarrow> snd (qm_write service msgid es n h s3))"
    have s1: "counts_ok s1" "slot_mutex s1" "set fs1 \<subseteq> set fs"
      using 1 relock_counts [of fs s s1 fs1] counts rely lock by (auto split: if_splits)
    have rely1: "\<forall>f\<in>set fs1. quota_rely f" using s1(3) rely by blast
    have s2: "counts_ok s2" "set fs2 \<subseteq> set fs"
      "msg_type msgid = MSG_DATA \<Longrightarrow> early = None \<Longrightarrow> cleared (the service) (tx_end_index (calc_stride n) s2) s2"
      using 2 data_checks_counts [of "the service" "calc_stride n" fs1 s1 early s2 fs2] s1 rely1
      by (auto split: if_splits)
    have rely2: "\<forall>f\<in>set fs2. quota_rely f" using s2(2) rely by blast
    show ?thesis
    proof (cases early)
      case (Some st)
      then show ?thesis using 3 s2 by simp
    next
      case None
      then obtain h s3 where r: "reserve_space (calc_stride n) (qm_is_blocking flags) fs2 s2 = Some (h, s3, gs)"
        and t: "service_quotas t = service_quotas (case h of None \<Rightarrow> s3 | Some h \<Rightarrow> snd (qm_write service msgid es n h s3))"
        using 3 by auto
      have c3: "set gs \<subseteq> set fs2 \<and> counts_ok s3"
        using reserve_space_keeps [OF r stride s2(1) counts_invariant [OF rely2]] by blast
      have "cleared (the service) (slot_queue_index (local_tx_pos s3 - 1)) s3" if "msg_type msgid = MSG_DATA" "h \<noteq> None"
        using reserve_space_keeps [OF r stride s2(3) [OF that(1) None] cleared_invariant [OF rely2]] that(2) by simp
      then have "counts_ok (case h of None \<Rightarrow> s3 | Some h \<Rightarrow> snd (qm_write service msgid es n h s3))"
        using c3 by (auto intro!: write_counts split: option.split)
      then show ?thesis using counts_ok_frame [OF t] c3 s2(2) by auto
    qed
  qed
qed

section \<open>An open service\<close>

text \<open>Port 0 is open and connected to port 7 of the other side.\<close>

definition demo_service :: service where
  "demo_service = (new_service undefined \<lparr>sp_fourcc = 0x64656d6f, sp_callback = 16, sp_userdata = 32,
       sp_version = 2, sp_version_min = 1\<rparr> SRV_OPENING 64 0)
     \<lparr>srvstate := SRV_OPEN, localport := 0, remoteport := 7, handle := 4096\<rparr>"

definition demo_quota :: service_quota where
  "demo_quota = \<lparr>slot_quota = 15, slot_use_count = 0, message_quota = 3840, message_use_count = 0,
     quota_event = 0, previous_tx_index = - 1\<rparr>"

definition open_state :: vstate where
  "open_state = boot_state\<lparr>conn_state := CONNECTED, services := [0 \<mapsto> demo_service], unused_service := 1,
     service_quotas := (\<lambda>_. demo_quota), previous_data_index := - 1, data_quota := 30\<rparr>"

lemma demo_service_simps [simp]:
  "srvstate demo_service = SRV_OPEN" "localport demo_service = 0" "remoteport demo_service = 7"
  "handle demo_service = 4096" "closing demo_service = False" "ref_count demo_service = 1"
  "callback demo_service = 16" "instance_of demo_service = 64" "sync demo_service = 0"
  by (simp_all add: demo_service_def new_service_def)

lemma open_state_simps [simp]:
  "services open_state = [0 \<mapsto> demo_service]" "service_quotas open_state = (\<lambda>_. demo_quota)"
  "previous_data_index open_state = - 1" "data_quota open_state = 30" "data_use_count open_state = 0"
  "slot_mutex open_state = False" "recycle_mutex open_state = False" "local_tx_pos open_state = 0" "slot_available_event open_state = 31"
  "slot_queue_available open_state = 31" "conn_state open_state = CONNECTED" "unused_service open_state = 1"
  "rx_pos open_state = 0" "rx_data open_state = None" "is_master open_state = False" "plat open_state = plat boot_state"
  using boot_state_props(3,4,5) boot_slots_props(5,6) by (simp_all add: open_state_def idle_def all_slots_free_def)

lemma open_state_inv: "tx_inv 0 [] open_state"
  using boot_state_props(2) by (simp add: tx_inv_def tx_state_def open_state_def)

lemma demo_may_send:
  assumes "unat (calc_stride n) \<le> 4096" "0 < unat (calc_stride n)"
  shows "may_send (Some 0) (make_msg MSG_DATA 0 7) n open_state"
proof -
  have "unat (calc_stride n - 1) < 4096" using assms by (subst unat_minus_one) (auto simp: unat_gt_0)
  then have "unat (slot_queue_index (calc_stride n - 1)) = 0" by (simp add: unat_slot_queue_index)
  then have "tx_end_index (calc_stride n) open_state = 0" by (simp add: tx_end_index_def unat_eq_zero)
  then show ?thesis by (simp add: may_send_def quota_full_def demo_quota_def)
qed

lemma open_counts: "counts_ok open_state"
  by (simp add: counts_ok_def demo_quota_def)

lemma credit_rely: "quota_rely (pfq_message_credit p)"
proof -
  have down: "x - 1 \<le> x" "x \<le> y \<Longrightarrow> x - 1 \<le> y" if "0 < x" for x y :: u16
    using that by (auto simp: word_gt_0 word_le_nat_alt unat_minus_one)
  show ?thesis
    by (auto simp: quota_rely_def counts_ok_def pfq_message_credit_def Let_def upd_quota_def down)
qed

lemma queue_message_within_quota_witness:
  "\<exists>t. queue_message (Some 0) (make_msg MSG_DATA 0 7) [] 0 qm_blocking [pfq_message_credit 0] open_state =
     Some (VCHIQ_SUCCESS, t, [pfq_message_credit 0]) \<and> counts_ok t"
proof -
  have ready: "mutex_ready (make_msg MSG_DATA 0 7) qm_blocking open_state" "may_send (Some 0) (make_msg MSG_DATA 0 7) 0 open_state"
    "elements_ok (make_msg MSG_DATA 0 7) [] 0" "has_room 0 open_state"
    by (simp_all add: mutex_ready_def elements_ok_def has_room_def demo_may_send calc_stride_def)
  then obtain t where "queue_message (Some 0) (make_msg MSG_DATA 0 7) [] 0 qm_blocking [pfq_message_credit 0] open_state =
     Some (VCHIQ_SUCCESS, t, [pfq_message_credit 0])"
    using send_appends [OF open_state_inv ready, of "[pfq_message_credit 0]"] by auto
  with queue_message_within_quota [OF this open_counts] credit_rely show ?thesis by auto
qed

text \<open>
  A state in which the service of port 0 has used its one message, the stream is eight bytes
  before the end of its slot, and that slot is the only one with data messages that the
  quota allows. \<open>other_task\<close> sends a control message, and the recycle thread returns a
  credit to the service.
\<close>

definition stalled_state :: vstate where
  "stalled_state = open_state\<lparr>local_tx_pos := 4088, tx_data := Some 139264, previous_data_index := 0,
     data_use_count := 1, data_quota := 1,
     service_quotas := (\<lambda>_. \<lparr>slot_quota = 15, slot_use_count = 1, message_quota = 1, message_use_count = 1,
       quota_event = 0, previous_tx_index = 0\<rparr>)\<rparr>"

definition other_task :: "vstate \<Rightarrow> vstate" where
  "other_task s =
     (case queue_message None (make_msg MSG_REMOTE_USE 0 0) [] 0 qm_nonblocking [] s of
        Some (_, t, _) \<Rightarrow> pfq_message_credit 0 t
      | None \<Rightarrow> s)"

lemma other_task_effect:
  assumes "\<not> slot_mutex s" "local_tx_pos s = 4088"
  shows "local_tx_pos (other_task s) = 4096" "\<not> slot_mutex (other_task s)" "services (other_task s) = services s"
    "service_quotas (other_task s) = service_quotas (pfq_message_credit 0 s)"
    "previous_data_index (other_task s) = previous_data_index s" "data_use_count (other_task s) = data_use_count s"
    "data_quota (other_task s) = data_quota s" "slot_available_event (other_task s) = slot_available_event s"
    "slot_queue_available (other_task s) = slot_queue_available s"
proof -
  let ?m = "make_msg MSG_REMOTE_USE 0 0"
  have "mutex_ready ?m qm_nonblocking s" "may_send None ?m 0 s"
    using assms(1) by (simp_all add: mutex_ready_def may_send_def make_msg_parts)
  note run = queue_message_reserves [OF this]
  have "queue_message None ?m [] 0 qm_nonblocking [] s =
    Some (VCHIQ_SUCCESS, qm_publish None ?m False (snd (qm_write None ?m [] 0 (the (tx_data s) + 4088)
      (s\<lparr>slot_mutex := True, local_tx_pos := 4096\<rparr>))), [])"
    by (subst run) (simp add: reserve_space_def reserve_pad_def assms(2) calc_stride_def slot_offset_def qm_write_def
        make_msg_parts Let_def)
  note eq = other_task_def [of s, unfolded this option.case prod.case]
  show "local_tx_pos (other_task s) = 4096" "\<not> slot_mutex (other_task s)" "services (other_task s) = services s"
    "service_quotas (other_task s) = service_quotas (pfq_message_credit 0 s)"
    "previous_data_index (other_task s) = previous_data_index s" "data_use_count (other_task s) = data_use_count s"
    "data_quota (other_task s) = data_quota s" "slot_available_event (other_task s) = slot_available_event s"
    "slot_queue_available (other_task s) = slot_queue_available s"
    unfolding eq
    by (simp_all add: pfq_message_credit_def Let_def upd_quota_def qm_publish_def qm_write_def make_msg_parts
        remote_event_signal_def mutex_release_def)
qed


end
