(* ===== verification/Vchiq_Parse.thy ===== *)
theory Vchiq_Parse
  imports Vchiq_Close
begin

text \<open>
  vchiq_core.c: the three threads. The slot handler serves poll requests and reads the
  messages of the other side (\<open>parse_rx_slots\<close>, one definition per message type), the
  recycle thread returns freed slots to the pool, the sync thread serves the synchronous
  slot. Each thread is an endless loop; a definition \<open>..._step\<close> is one turn of it.
\<close>

section \<open>OPEN\<close>

definition reply_close :: "u32 \<Rightarrow> vstate sched \<Rightarrow> vstate \<Rightarrow> (bool \<times> vstate \<times> vstate sched) option" where
  "reply_close msgid fs s = do {
     (status, s, fs) \<leftarrow> queue_message None (make_msg MSG_CLOSE 0 (msg_srcport msgid)) [] 0 qm_nonblocking fs s;
     Some (status \<noteq> VCHIQ_RETRY, s, fs)
   }"

text \<open>Acknowledge the OPEN of a listening service; \<open>False\<close> when there was no room to do so.\<close>

definition send_openack :: "nat \<Rightarrow> nat \<Rightarrow> vstate sched \<Rightarrow> vstate \<Rightarrow> (bool \<times> vstate \<times> vstate sched) option" where
  "send_openack p remport fs s = do {
     let s = (if sint (version_common s) < 8 then upd_service p (sync_update (\<lambda>_. 0)) s else s);
     let sv = the (services s p);
     let msgid = make_msg MSG_OPENACK (localport sv) remport;
     let body = [\<lparr>el_data = Some (int_bytes [ucast (version sv)]), el_size = 2\<rparr>];
     (status, s, fs) \<leftarrow>
       (if sync sv \<noteq> 0 \<and> sint (version_common s) \<ge> 8
        then queue_message_sync None msgid body 2 fs s
        else queue_message None msgid body 2 qm_nonblocking fs s);
     if status = VCHIQ_RETRY then Some (False, s, fs)
     else Some (True,
            vchiq_set_service_state p (if sync (the (services s p)) \<noteq> 0 then SRV_OPENSYNC else SRV_OPEN) s, fs)
   }"

definition version_mismatch :: "service \<Rightarrow> u16 \<Rightarrow> u16 \<Rightarrow> bool" where
  "version_mismatch sv ver ver_min \<longleftrightarrow> sint (version sv) < sint ver_min \<or> sint ver < sint (version_min sv)"

text \<open>The rest of an OPEN once the service is open: \<open>bail_not_ready\<close> if the client is not ready.\<close>

definition open_connect ::
  "vchiq_ops \<Rightarrow> nat \<Rightarrow> nat \<Rightarrow> u32 \<Rightarrow> vstate sched \<Rightarrow> vstate \<Rightarrow> (bool \<times> vstate \<times> vstate sched) option" where
  "open_connect ops p remport client fs s = do {
     let s = upd_service p (\<lambda>sv. sv\<lparr>remoteport := remport, client_id := client\<rparr>) s;
     let (status, s) = make_service_callback ops p SERVICE_OPENED None NULL s;
     let ok = (status \<noteq> VCHIQ_RETRY);
     let s = (if ok then s else upd_service p (remoteport_update (\<lambda>_. PORT_FREE)) s);
     s \<leftarrow> unlock_service ops p s;
     Some (ok, s, fs)
   }"

definition parse_open :: "vchiq_ops \<Rightarrow> nat \<Rightarrow> vstate sched \<Rightarrow> vstate \<Rightarrow> (bool \<times> vstate \<times> vstate sched) option" where
  "parse_open ops header fs s =
     (let msgid = hdr_msgid (mem s) header; remport = msg_srcport msgid in
      if hdr_size (mem s) header \<ge> 12
      then do {
        let fcc = load32 (mem s) (header + 8);
        let client = load32 (mem s) (header + 12);
        let ver = load16 (mem s) (header + 16);
        let ver_min = load16 (mem s) (header + 18);
        (service, s) \<leftarrow> get_listening_service fcc s;
        (case service of
           None \<Rightarrow> reply_close msgid fs s
         | Some p \<Rightarrow>
             if version_mismatch (the (services s p)) ver ver_min
             then do { s \<leftarrow> unlock_service ops p s; reply_close msgid fs s }
             else do {
               let s = upd_service p (peer_version_update (\<lambda>_. ver)) s;
               (ok, s, fs) \<leftarrow>
                 (if srvstate (the (services s p)) = SRV_LISTENING then send_openack p remport fs s
                  else Some (True, s, fs));
               if \<not> ok then do { s \<leftarrow> unlock_service ops p s; Some (False, s, fs) }
               else open_connect ops p remport client fs s
             })
      }
      else reply_close msgid fs s)"

section \<open>The other messages\<close>

definition rx_openack :: "nat \<Rightarrow> nat \<Rightarrow> nat \<Rightarrow> vstate \<Rightarrow> vstate" where
  "rx_openack p header remport s =
     (let s = (if hdr_size (mem s) header \<ge> 2
               then upd_service p (peer_version_update (\<lambda>_. load16 (mem s) (header + 8))) s else s)
      in if srvstate (the (services s p)) = SRV_OPENING
         then upd_service p (remove_event_update sem_up)
                (vchiq_set_service_state p SRV_OPEN (upd_service p (remoteport_update (\<lambda>_. remport)) s))
         else s)"

definition rx_close ::
  "vchiq_ops \<Rightarrow> nat \<Rightarrow> vstate sched \<Rightarrow> vstate \<Rightarrow> (bool \<times> vstate \<times> vstate sched) option" where
  "rx_close ops p fs s = do {
     (s, fs) \<leftarrow> mark_service_closing_internal p True fs s;
     (status, s, fs) \<leftarrow> vchiq_close_service_internal ops p True fs s;
     Some (status \<noteq> VCHIQ_RETRY, s, fs)
   }"

definition rx_data_msg :: "vchiq_ops \<Rightarrow> nat \<Rightarrow> nat \<Rightarrow> nat \<Rightarrow> vstate \<Rightarrow> bool \<times> vstate" where
  "rx_data_msg ops p header remport s =
     (let sv = the (services s p); msgid = hdr_msgid (mem s) header; n = hdr_size (mem s) header in
      if remoteport sv = remport \<and> srvstate sv = SRV_OPEN
      then let s = claim_slot (rx_info s) (s\<lparr>mem := set_hdr_msgid header (msgid OR MSGID_CLAIMED) (mem s)\<rparr>);
               (status, s) = make_service_callback ops p MESSAGE_AVAILABLE (Some header) NULL s
           in if status = VCHIQ_RETRY then (False, s)
              else (True, upd_stats p (ctrl_rx_bytes_update (\<lambda>c. c + ucast n) \<circ> ctrl_rx_count_update (\<lambda>c. c + 1)) s)
      else (True, count_state_error s))"

definition rx_connect :: "vstate \<Rightarrow> vstate" where
  "rx_connect s = s\<lparr>version_common := load16 (mem s) 4, connect := sem_up (connect s)\<rparr>"

text \<open>A bulk request from the other side (this side is the master).\<close>

definition rx_bulk ::
  "vchiq_ops \<Rightarrow> bulk_dir \<Rightarrow> nat \<Rightarrow> nat \<Rightarrow> nat \<Rightarrow> vstate sched \<Rightarrow> vstate \<Rightarrow> (vstate \<times> vstate sched) option" where
  "rx_bulk ops dir p header remport fs s =
     (let sv = the (services s p) in
      if remoteport sv = remport \<and> srvstate sv = SRV_OPEN
      then do {
        (s, fs) \<leftarrow> mutex_acquire (\<lambda>s. bulk_mutex (the (services s p))) (\<lambda>f. upd_service p (bulk_mutex_update f)) fs s;
        let i = bulk_index (remote_insert (queue_of p dir s));
        let s = upd_queue p dir (\<lambda>q. (upd_bulk i (\<lambda>b. b\<lparr>b_remote_data := unat (load32 (mem s) (header + 8)),
                   b_remote_size := load32 (mem s) (header + 12)\<rparr>) q)\<lparr>remote_insert := remote_insert q + 1\<rparr>) s;
        (resolved, s, fs) \<leftarrow>
          (if pause_bulks_count s \<noteq> 0 then Some (0, s\<lparr>deferred_bulks := deferred_bulks s + 1\<rparr>, fs)
           else if conn_state s = CONNECTED then resolve_bulks p dir fs s
           else Some (0, s, fs));
        let s = mutex_release (\<lambda>f. upd_service p (bulk_mutex_update f)) s;
        (_, s, fs) \<leftarrow> (if resolved \<noteq> 0 then notify_bulks ops p dir True fs s else Some (VCHIQ_SUCCESS, s, fs));
        Some (s, fs)
      }
      else Some (s, fs))"

text \<open>The completion of a bulk that this side requested.\<close>

definition bulk_done :: "nat \<Rightarrow> bulk_dir \<Rightarrow> u32 \<Rightarrow> vstate \<Rightarrow> vstate" where
  "bulk_done p dir actual s =
     (let i = bulk_index (remote_insert (queue_of p dir s));
          s = upd_queue p dir (\<lambda>q. (upd_bulk i (b_actual_update (\<lambda>_. actual)) q)\<lparr>remote_insert := remote_insert q + 1\<rparr>) s;
          s = complete_current p dir i s
      in upd_queue p dir (process_update (\<lambda>n. n + 1)) s)"

definition rx_bulk_done ::
  "vchiq_ops \<Rightarrow> bulk_dir \<Rightarrow> nat \<Rightarrow> nat \<Rightarrow> nat \<Rightarrow> vstate sched \<Rightarrow> vstate \<Rightarrow> (vstate \<times> vstate sched) option" where
  "rx_bulk_done ops dir p header remport fs s =
     (let sv = the (services s p) in
      if remoteport sv = remport \<and> srvstate sv \<noteq> SRV_FREE
      then do {
        (s, fs) \<leftarrow> mutex_acquire (\<lambda>s. bulk_mutex (the (services s p))) (\<lambda>f. upd_service p (bulk_mutex_update f)) fs s;
        let q = queue_of p dir s;
        if sint (remote_insert q - local_insert q) \<ge> 0
        then Some (mutex_release (\<lambda>f. upd_service p (bulk_mutex_update f)) s, fs)
        else if process q = local_insert q \<or> process q \<noteq> remote_insert q then None
        else do {
          let s = bulk_done p dir (load32 (mem s) (header + 8)) s;
          let s = mutex_release (\<lambda>f. upd_service p (bulk_mutex_update f)) s;
          (_, s, fs) \<leftarrow> notify_bulks ops p dir True fs s;
          Some (s, fs)
        }
      }
      else Some (s, fs))"

definition rx_pause :: "vstate sched \<Rightarrow> vstate \<Rightarrow> (bool \<times> vstate \<times> vstate sched) option" where
  "rx_pause fs s =
     (if conn_state s = PAUSED then Some (True, s, fs)
      else do {
        (ok, s, fs) \<leftarrow>
          (if conn_state s \<noteq> PAUSE_SENT
           then do {
             (status, s, fs) \<leftarrow> queue_message None (make_msg MSG_PAUSE 0 0) [] 0 qm_keep_mutex fs s;
             if status = VCHIQ_RETRY then Some (False, s, fs)
             else do {
               (s, fs) \<leftarrow> (if is_master s then pause_bulks fs s else Some (s, fs));
               Some (True, s, fs)
             }
           }
           else Some (True, s, fs));
        Some (ok, if ok then vchiq_set_conn_state PAUSED s else s, fs)
      })"

definition rx_resume :: "vchiq_ops \<Rightarrow> vstate sched \<Rightarrow> vstate \<Rightarrow> (vstate \<times> vstate sched) option" where
  "rx_resume ops fs s = do {
     let s = mutex_release slot_mutex_update s;
     (s, fs) \<leftarrow> (if is_master s then resume_bulks ops fs s else Some (s, fs));
     Some (vchiq_set_conn_state CONNECTED s, fs)
   }"

section \<open>Reading the slots\<close>

definition service_msg :: "u32 \<Rightarrow> bool" where
  "service_msg type \<longleftrightarrow>
     type \<in> {MSG_OPENACK, MSG_CLOSE, MSG_DATA, MSG_BULK_RX, MSG_BULK_TX, MSG_BULK_RX_DONE, MSG_BULK_TX_DONE}"

text \<open>The service a message is for; \<open>False\<close> when the message must be skipped.\<close>

definition rx_find_service ::
  "vchiq_ops \<Rightarrow> u32 \<Rightarrow> nat \<Rightarrow> nat \<Rightarrow> vstate \<Rightarrow> (bool \<times> nat option \<times> vstate) option" where
  "rx_find_service ops type locport remport s =
     (if service_msg type
      then do {
        (service, s) \<leftarrow> find_service_by_port locport s;
        let unfit = (case service of
               None \<Rightarrow> True
             | Some p \<Rightarrow> remoteport (the (services s p)) \<noteq> remport \<and> remoteport (the (services s p)) \<noteq> PORT_FREE);
        (service, s) \<leftarrow>
          (if unfit \<and> locport = 0 \<and> type = MSG_CLOSE
           then do {
             s \<leftarrow> (case service of Some p \<Rightarrow> unlock_service ops p s | None \<Rightarrow> Some s);
             get_connected_service remport s
           }
           else Some (service, s));
        Some (service \<noteq> None, service, s)
      }
      else Some (True, None, s))"

text \<open>Start a slot: its \<open>use_count\<close> of one is released at the end of the slot.\<close>

definition rx_open_slot :: "vstate \<Rightarrow> vstate" where
  "rx_open_slot s =
     (if rx_data s = None
      then let i = slot_at (remote s) (slot_queue_index (rx_pos s))
           in upd_slot_info i (\<lambda>_. \<lparr>use_count = 1, release_count = 0\<rparr>) (s\<lparr>rx_data := Some (slot_data i), rx_info := i\<rparr>)
      else s)"

definition rx_dispatch ::
  "vchiq_ops \<Rightarrow> nat option \<Rightarrow> nat \<Rightarrow> u32 \<Rightarrow> nat \<Rightarrow> vstate sched \<Rightarrow> vstate \<Rightarrow> (bool \<times> vstate \<times> vstate sched) option" where
  "rx_dispatch ops service header type remport fs s =
     (let p = the service; ok = map_option (\<lambda>(s, fs). (True, s, fs)) in
      if type = MSG_OPEN then parse_open ops header fs s
      else if type = MSG_OPENACK then Some (True, rx_openack p header remport s, fs)
      else if type = MSG_CLOSE then rx_close ops p fs s
      else if type = MSG_DATA then (let (done, s) = rx_data_msg ops p header remport s in Some (done, s, fs))
      else if type = MSG_CONNECT then Some (True, rx_connect s, fs)
      else if type = MSG_BULK_RX then ok (rx_bulk ops BULK_TRANSMIT p header remport fs s)
      else if type = MSG_BULK_TX then ok (rx_bulk ops BULK_RECEIVE p header remport fs s)
      else if type = MSG_BULK_RX_DONE then ok (rx_bulk_done ops BULK_RECEIVE p header remport fs s)
      else if type = MSG_BULK_TX_DONE then ok (rx_bulk_done ops BULK_TRANSMIT p header remport fs s)
      else if type = MSG_PADDING then Some (True, s, fs)
      else if type = MSG_PAUSE then rx_pause fs s
      else if type = MSG_RESUME then ok (rx_resume ops fs s)
      else if type = MSG_REMOTE_USE then Some (True, vchiq_on_remote_use s, fs)
      else if type = MSG_REMOTE_RELEASE then Some (True, vchiq_on_remote_release s, fs)
      else Some (True, s, fs))"

text \<open>Step over a message; at the end of its slot drop the handler's own claim.\<close>

definition rx_advance :: "u32 \<Rightarrow> vstate sched \<Rightarrow> vstate \<Rightarrow> (vstate \<times> vstate sched) option" where
  "rx_advance n fs s =
     (let s = s\<lparr>rx_pos := rx_pos s + calc_stride n\<rparr> in
      if rx_pos s AND 4095 = 0
      then do {
        (s, fs) \<leftarrow> release_slot (rx_info s) None None fs s;
        Some (s\<lparr>rx_data := None\<rparr>, fs)
      }
      else Some (s, fs))"

definition unlock_opt :: "vchiq_ops \<Rightarrow> nat option \<Rightarrow> vstate \<Rightarrow> vstate option" where
  "unlock_opt ops service s = (case service of Some p \<Rightarrow> unlock_service ops p s | None \<Rightarrow> Some s)"

text \<open>One message: \<open>False\<close> when the handler stops at it (\<open>bail_not_ready\<close>).\<close>

definition rx_message :: "vchiq_ops \<Rightarrow> vstate sched \<Rightarrow> vstate \<Rightarrow> (bool \<times> vstate \<times> vstate sched) option" where
  "rx_message ops fs s = do {
     let s = rx_open_slot s;
     let header = the (rx_data s) + slot_offset (rx_pos s);
     let msgid = hdr_msgid (mem s) header;
     let n = hdr_size (mem s) header;
     let type = msg_type msgid;
     let s = (if type \<noteq> MSG_DATA then s\<lparr>st_stats := st_ctrl_rx_count_update (\<lambda>c. c + 1) (st_stats s)\<rparr> else s);
     (known, service, s) \<leftarrow> rx_find_service ops type (msg_dstport msgid) (msg_srcport msgid) s;
     (ok, s, fs) \<leftarrow> (if known then rx_dispatch ops service header type (msg_srcport msgid) fs s else Some (True, s, fs));
     s \<leftarrow> unlock_opt ops service s;
     if \<not> ok then Some (False, s, fs)
     else do {
       (s, fs) \<leftarrow> rx_advance n fs s;
       Some (True, s, fs)
     }
   }"

partial_function (option) parse_until :: "vchiq_ops \<Rightarrow> u32 \<Rightarrow> vstate sched \<Rightarrow> vstate \<Rightarrow> (vstate \<times> vstate sched) option" where
  "parse_until ops end_pos fs s =
     (if rx_pos s \<noteq> end_pos
      then do {
        (ok, s, fs) \<leftarrow> rx_message ops fs s;
        if ok then parse_until ops end_pos fs s else Some (s, fs)
      }
      else Some (s, fs))"

definition parse_rx_slots :: "vchiq_ops \<Rightarrow> vstate sched \<Rightarrow> vstate \<Rightarrow> (vstate \<times> vstate sched) option" where
  "parse_rx_slots ops fs s = parse_until ops (tx_pos (remote s)) fs s"

section \<open>Polling services\<close>

definition poll_close :: "vchiq_ops \<Rightarrow> poll_type \<Rightarrow> nat \<Rightarrow> vstate sched \<Rightarrow> vstate \<Rightarrow> (vstate \<times> vstate sched) option" where
  "poll_close ops t p fs s = do {
     (status, s, fs) \<leftarrow> vchiq_close_service_internal ops p False fs s;
     Some (if status \<noteq> VCHIQ_SUCCESS then request_poll (Some p) t s else s, fs)
   }"

definition poll_service :: "vchiq_ops \<Rightarrow> nat \<Rightarrow> vstate sched \<Rightarrow> vstate \<Rightarrow> (vstate \<times> vstate sched) option" where
  "poll_service ops p fs s = do {
     let flags = poll_flags (the (services s p));
     let s = upd_service p (poll_flags_update (\<lambda>_. 0)) s;
     (s, fs) \<leftarrow>
       (if flags AND poll_bit POLL_REMOVE \<noteq> 0
        then poll_close ops POLL_REMOVE p fs (upd_service p (public_fourcc_update (\<lambda>_. FOURCC_INVALID)) s)
        else if flags AND poll_bit POLL_TERMINATE \<noteq> 0 then poll_close ops POLL_TERMINATE p fs s
        else Some (s, fs));
     (_, s, fs) \<leftarrow>
       (if flags AND poll_bit POLL_TXNOTIFY \<noteq> 0 then notify_bulks ops p BULK_TRANSMIT True fs s
        else Some (VCHIQ_SUCCESS, s, fs));
     (_, s, fs) \<leftarrow>
       (if flags AND poll_bit POLL_RXNOTIFY \<noteq> 0 then notify_bulks ops p BULK_RECEIVE True fs s
        else Some (VCHIQ_SUCCESS, s, fs));
     s \<leftarrow> unlock_service ops p s;
     Some (s, fs)
   }"

fun poll_bits :: "vchiq_ops \<Rightarrow> u32 \<Rightarrow> nat \<Rightarrow> nat list \<Rightarrow> vstate sched \<Rightarrow> vstate \<Rightarrow> (vstate \<times> vstate sched) option" where
  "poll_bits ops flags grp [] fs s = Some (s, fs)"
| "poll_bits ops flags grp (i # is) fs s =
     (if bit flags i
      then do {
        (service, s) \<leftarrow> find_service_by_port (grp * 32 + i) s;
        (s, fs) \<leftarrow> (case service of None \<Rightarrow> Some (s, fs) | Some p \<Rightarrow> poll_service ops p fs s);
        poll_bits ops flags grp is fs s
      }
      else poll_bits ops flags grp is fs s)"

text \<open>\<open>BITSET_SIZE(state->unused_service)\<close> is evaluated before every group.\<close>

partial_function (option) poll_groups ::
  "vchiq_ops \<Rightarrow> nat \<Rightarrow> vstate sched \<Rightarrow> vstate \<Rightarrow> (vstate \<times> vstate sched) option" where
  "poll_groups ops grp fs s =
     (if grp < (unused_service s + 31) div 32
      then do {
        let flags = poll_services s grp;
        let s = s\<lparr>poll_services := (poll_services s)(grp := 0)\<rparr>;
        (s, fs) \<leftarrow> poll_bits ops flags grp [0..<32] fs s;
        poll_groups ops (grp + 1) fs s
      }
      else Some (s, fs))"

definition poll_all_services :: "vchiq_ops \<Rightarrow> vstate sched \<Rightarrow> vstate \<Rightarrow> (vstate \<times> vstate sched) option" where
  "poll_all_services ops = poll_groups ops 0"

section \<open>The threads\<close>

text \<open>The part of the slot handler that runs when \<open>poll_needed\<close> is set.\<close>

definition handler_poll :: "vchiq_ops \<Rightarrow> vstate sched \<Rightarrow> vstate \<Rightarrow> (vstate \<times> vstate sched) option" where
  "handler_poll ops fs s =
     (let s = (vchiq_platform_check_suspend s)\<lparr>poll_needed := False\<rparr> in
      case conn_state s of
        CONNECTED \<Rightarrow> poll_all_services ops fs s
      | PAUSING \<Rightarrow> do {
          (s, fs) \<leftarrow> (if is_master s then pause_bulks fs s else Some (s, fs));
          (status, s, fs) \<leftarrow> queue_message None (make_msg MSG_PAUSE 0 0) [] 0 qm_keep_mutex fs s;
          if status \<noteq> VCHIQ_RETRY then Some (vchiq_set_conn_state PAUSE_SENT s, fs)
          else do {
            (s, fs) \<leftarrow> (if is_master s then resume_bulks ops fs s else Some (s, fs));
            Some (s\<lparr>poll_needed := True\<rparr>, fs)
          }
        }
      | RESUMING \<Rightarrow> do {
          (status, s, fs) \<leftarrow> queue_message None (make_msg MSG_RESUME 0 0) [] 0 qm_have_mutex fs s;
          if status \<noteq> VCHIQ_RETRY
          then do {
            (s, fs) \<leftarrow> (if is_master s then resume_bulks ops fs s else Some (s, fs));
            Some (vchiq_set_conn_state CONNECTED s, fs)
          }
          else None
        }
      | _ \<Rightarrow> Some (s, fs))"

definition slot_handler_step :: "vchiq_ops \<Rightarrow> vstate sched \<Rightarrow> vstate \<Rightarrow> (vstate \<times> vstate sched) option" where
  "slot_handler_step ops fs s = do {
     (s, fs) \<leftarrow> remote_event_wait trigger trigger_update fs s;
     (s, fs) \<leftarrow> (if poll_needed s then handler_poll ops fs s else Some (s, fs));
     parse_rx_slots ops fs s
   }"

definition recycle_step :: "vstate sched \<Rightarrow> vstate \<Rightarrow> (vstate \<times> vstate sched) option" where
  "recycle_step fs s = do {
     (s, fs) \<leftarrow> remote_event_wait recycle recycle_update fs s;
     s \<leftarrow> process_free_queue s;
     Some (s, fs)
   }"

definition sync_openack :: "nat \<Rightarrow> nat \<Rightarrow> nat \<Rightarrow> vstate \<Rightarrow> vstate" where
  "sync_openack p header remport s =
     (let s = (if hdr_size (mem s) header \<ge> 2
               then upd_service p (peer_version_update (\<lambda>_. load16 (mem s) (header + 8))) s else s);
          s = (if srvstate (the (services s p)) = SRV_OPENING
               then upd_service p (\<lambda>sv. sv\<lparr>sync := 1, remove_event := sem_up (remove_event sv)\<rparr>)
                      (vchiq_set_service_state p SRV_OPENSYNC (upd_service p (remoteport_update (\<lambda>_. remport)) s))
               else s)
      in release_message_sync header s)"

definition sync_step :: "vchiq_ops \<Rightarrow> vstate sched \<Rightarrow> vstate \<Rightarrow> (vstate \<times> vstate sched) option" where
  "sync_step ops fs s = do {
     let header = slot_data (slot_sync (remote s));
     (s, fs) \<leftarrow> remote_event_wait sync_trigger sync_trigger_update fs s;
     let msgid = hdr_msgid (mem s) header;
     let remport = msg_srcport msgid;
     (service, s) \<leftarrow> find_service_by_port (msg_dstport msgid) s;
     (case service of
        None \<Rightarrow> Some (release_message_sync header s, fs)
      | Some p \<Rightarrow> do {
          let sv = the (services s p);
          let s =
            (if msg_type msgid = MSG_OPENACK then sync_openack p header remport s
             else if msg_type msgid = MSG_DATA
             then (if remoteport sv = remport \<and> srvstate sv = SRV_OPENSYNC
                   then snd (make_service_callback ops p MESSAGE_AVAILABLE (Some header) NULL s) else s)
             else release_message_sync header s);
          s \<leftarrow> unlock_service ops p s;
          Some (s, fs)
        })
   }"

end
