(* ===== verification/Vchiq_Deliver.thy ===== *)
theory Vchiq_Deliver
  imports Vchiq_Transmit Vchiq_Parse
begin

text \<open>
  The receiving side: \<open>parse_rx_slots\<close> reads the stream that the other side's
  \<open>queue_message\<close> wrote, hands every data message to its service in order and once, and
  stops at the other side's \<open>tx_pos\<close>.
\<close>

section \<open>The reader's view of the stream\<close>

text \<open>
  \<open>rx_state k d w ms s\<close>: the reader is at stream position \<open>k\<close> (without wrap-around), the
  \<open>d\<close> bytes from there hold the messages \<open>ms\<close>, the \<open>w\<close> slots from the reader's on are
  distinct, and the place where the next recycled slot is entered is outside of them.
\<close>

definition rx_slot :: "nat \<Rightarrow> 'p vchiq \<Rightarrow> nat" where
  "rx_slot k s = slot_queue (remote s) (k div 4096 mod 64)"

definition rx_state :: "nat \<Rightarrow> nat \<Rightarrow> nat \<Rightarrow> (u32 \<times> u8 list) list \<Rightarrow> 'p vchiq \<Rightarrow> bool" where
  "rx_state k d w ms s \<longleftrightarrow>
     rx_pos s = of_nat k \<and> window (remote s) (k div 4096) w \<and> k mod 4096 + d \<le> w * 4096 \<and>
     stream (mem s) (remote s) k d = Some ms \<and>
     (if k mod 4096 = 0 then rx_data s = None else rx_data s = Some (slot_data (rx_slot k s)) \<and> rx_info s = rx_slot k s) \<and>
     (\<exists>c. unat (slot_queue_recycle (remote s)) mod 64 = c mod 64 \<and> k div 4096 + w \<le> c \<and> c \<le> k div 4096 + 64)"

lemma stream_sh_cong:
  assumes "\<And>j. j < d \<Longrightarrow> naddr sh (k + j) = naddr sh' (k + j)"
  shows "stream m sh k d = stream m sh' k d"
  using assms
proof (induction d arbitrary: k rule: less_induct)
  case (less d)
  show ?case
  proof (cases "d = 0")
    case False
    then have at: "naddr sh k = naddr sh' k" using less.prems [of 0] by simp
    then have eq: "msg_fits m sh k d = msg_fits m sh' k d" "msg_at m sh k = msg_at m sh' k" "stride_at m sh k = stride_at m sh' k"
      by (simp_all add: msg_fits_def msg_at_def stride_at_def)
    show ?thesis
    proof (cases "msg_fits m sh' k d")
      case True
      then have "8 \<le> stride_at m sh' k" "stride_at m sh' k \<le> d" by (auto simp: msg_fits_def)
      then have "stream m sh (k + stride_at m sh' k) (d - stride_at m sh' k) =
          stream m sh' (k + stride_at m sh' k) (d - stride_at m sh' k)"
        by (intro less.IH) (use False less.prems in \<open>simp_all add: add.assoc\<close>)
      then show ?thesis using eq True False by (simp add: stream_next)
    next
      case bad: False
      then show ?thesis using eq False by (simp add: stream_bad)
    qed
  qed simp
qed

lemma stream_ConsD:
  assumes "stream m sh k d = Some (a # ms)"
  shows "d \<noteq> 0" "msg_fits m sh k d" "a = msg_at m sh k"
    "stream m sh (k + stride_at m sh k) (d - stride_at m sh k) = Some ms"
proof -
  show d: "d \<noteq> 0" using assms by (cases "d = 0") auto
  show f: "msg_fits m sh k d" using stream_bad [OF d, of m sh k] assms by (cases "msg_fits m sh k d") auto
  show "a = msg_at m sh k" "stream m sh (k + stride_at m sh k) (d - stride_at m sh k) = Some ms"
    using assms stream_next [OF d f] by auto
qed

text \<open>The bytes of a slot window are at distinct addresses.\<close>

lemma naddr_window_inj:
  assumes "window sh (k div 4096) w" "k mod 4096 + i < w * 4096" "k mod 4096 + j < w * 4096"
    "naddr sh (k + i) = naddr sh (k + j)"
  shows "i = j"
proof -
  let ?base = "k div 4096 * 4096"
  have base: "?base mod 4096 = 0" "window sh (?base div 4096) w" using assms(1) by simp_all
  have at: "naddr sh (?base + (k mod 4096 + i)) = naddr sh (k + i)" for i
    by (simp only: add.assoc [symmetric] div_mult_mod_eq)
  have "k mod 4096 + i = k mod 4096 + j"
    by (rule naddr_inj [OF base(2,1) assms(2,3)]) (simp only: at assms(4))
  then show ?thesis by simp
qed

text \<open>Marking a message that has been read leaves the rest of the stream alone.\<close>

lemma stream_behind:
  assumes win: "window sh (k div 4096) w" and room: "k mod 4096 + (st + d) \<le> w * 4096"
    and st: "8 \<le> st" "k mod 4096 + st \<le> 4096"
    and same: "\<And>a. a < naddr sh k \<or> naddr sh k + 8 \<le> a \<Longrightarrow> m' a = m a"
  shows "stream m' sh (k + st) d = stream m sh (k + st) d"
proof (rule stream_cong)
  fix j assume j: "j < d"
  have "naddr sh (k + st + j) < naddr sh k \<or> naddr sh k + 8 \<le> naddr sh (k + st + j)"
  proof (rule ccontr)
    assume "\<not> ?thesis"
    then obtain i where i: "naddr sh (k + st + j) = naddr sh k + i" "i < 8"
      by (metis add_less_cancel_left le_add_diff_inverse linorder_not_less)
    then have "naddr sh (k + (st + j)) = naddr sh (k + i)"
      using naddr_plus [of k i sh] st by (simp add: add.assoc)
    then have "st + j = i" by (rule naddr_window_inj [OF win, rotated 2]) (use j room st i in linarith)+
    then show False using st i(2) by simp
  qed
  then show "m' (naddr sh (k + st + j)) = m (naddr sh (k + st + j))" by (rule same)
qed

section \<open>The end of a message\<close>

lemma and_63: "unat (x AND 63 :: u32) = unat x mod 64"
proof -
  have "unat (x AND (64 - 1)) = unat x mod 2 ^ 6" by (rule unat_and_mask) simp
  then show ?thesis by simp
qed

lemma unat_inc_mod64: "unat (x + 1 :: u32) mod 64 = (unat x + 1) mod 64"
  using mod_mod_pow2_le [of 6 32 "unat x + 1"] by (simp add: unat_word_ariths)

lemma of_nat_mask: "(of_nat k :: u32) AND 4095 = of_nat (k mod 4096)"
  using mask_offset [of "of_nat k"] mod_mod_pow2_le [of 12 32 k] by (simp add: slot_offset_mod unat_of_nat)

lemma of_nat_boundary: "(of_nat k :: u32) AND 4095 = 0 \<longleftrightarrow> k mod 4096 = 0"
proof -
  have "unat (of_nat (k mod 4096) :: u32) = k mod 4096" by (rule unat_of_nat_small) (simp add: less_le_trans [of _ 4096])
  then show ?thesis unfolding of_nat_mask by (metis unat_eq_zero)
qed

lemma slot_offset_of_nat: "slot_offset (of_nat k) = k mod 4096"
  using mod_mod_pow2_le [of 12 32 k] by (simp add: slot_offset_mod unat_of_nat)

lemma mod64_ne:
  fixes a b :: nat
  assumes "a < b" "b < a + 64"
  shows "a mod 64 \<noteq> b mod 64"
proof
  assume "a mod 64 = b mod 64"
  then have "64 dvd b - a" using assms(1) mod_eq_dvd_iff_nat [of a b 64] by simp
  then have "64 \<le> b - a" by (rule dvd_imp_le) (use assms in simp)
  then show False using assms by simp
qed

text \<open>Entering a recycled slot behind the window changes nothing inside it.\<close>

lemma naddr_recycled:
  assumes "k div 4096 + w \<le> c" "c \<le> k div 4096 + 63" "k mod 4096 + j < w * 4096"
    and "slot_queue sh' = (slot_queue sh)(c mod 64 := i)"
  shows "naddr sh' (k + j) = naddr sh (k + j)"
proof -
  have "(k + j) div 4096 = k div 4096 + (k mod 4096 + j) div 4096"
    using div_mod_multiple(1) [of "k div 4096 * 4096" 4096 "k mod 4096 + j"] by (simp add: add.assoc [symmetric])
  moreover have "(k mod 4096 + j) div 4096 < w" using assms(3) by (intro less_mult_imp_div_less) simp
  ultimately have "(k + j) div 4096 < c" "c < (k + j) div 4096 + 64"
    using assms(1,2) by linarith+
  then have "(k + j) div 4096 mod 64 \<noteq> c mod 64" by (intro mod64_ne)
  then show ?thesis using assms(4) by (simp add: naddr_def)
qed

lemma window_recycled:
  assumes "window sh first w" "first + w \<le> c" "c \<le> first + 63"
    and "slot_queue sh' = (slot_queue sh)(c mod 64 := i)"
  shows "window sh' first w"
proof -
  have "slot_queue sh' ((first + j) mod 64) = slot_queue sh ((first + j) mod 64)" if "j < w" for j
    using mod64_ne [of "first + j" c] assms(2-4) that by simp
  then show ?thesis using assms(1) by (simp add: window_def inj_on_def)
qed

text \<open>The parts of the state that the end of a message leaves alone.\<close>

definition rx_frame :: "vstate \<Rightarrow> vstate \<Rightarrow> bool" where
  "rx_frame s t \<longleftrightarrow> waiters t = waiters s \<and> services t = services s \<and> mem t = mem s \<and>
     tx_pos (remote t) = tx_pos (remote s) \<and> \<not> recycle_mutex t"

lemma release_end_of_slot:
  assumes "\<not> recycle_mutex u"
  shows "\<exists>t. release_slot i None None fs u = Some (t, fs) \<and> rx_frame u t \<and> rx_pos t = rx_pos u \<and>
    ((slot_queue (remote t) = slot_queue (remote u) \<and> slot_queue_recycle (remote t) = slot_queue_recycle (remote u)) \<or>
     (slot_queue (remote t) = (slot_queue (remote u))(unat (slot_queue_recycle (remote u)) mod 64 := i) \<and>
      slot_queue_recycle (remote t) = slot_queue_recycle (remote u) + 1))"
proof -
  let ?t = "mutex_release recycle_mutex_update (release_count_up i (u\<lparr>recycle_mutex := True\<rparr>))"
  have "release_slot i None None fs u = Some (?t, fs)"
    using assms by (simp add: release_slot_def mutex_acquire_now release_slot_body_def service_closing_def)
  moreover have "rx_frame u ?t \<and> rx_pos ?t = rx_pos u \<and>
    ((slot_queue (remote ?t) = slot_queue (remote u) \<and> slot_queue_recycle (remote ?t) = slot_queue_recycle (remote u)) \<or>
     (slot_queue (remote ?t) = (slot_queue (remote u))(unat (slot_queue_recycle (remote u)) mod 64 := i) \<and>
      slot_queue_recycle (remote ?t) = slot_queue_recycle (remote u) + 1))"
    by (simp add: rx_frame_def release_count_up_def recycle_slot_def upd_slot_info_def mutex_release_def
        remote_event_signal_def Let_def and_63)
  ultimately show ?thesis by blast
qed

lemma window_shift: "window sh first w \<Longrightarrow> 0 < w \<Longrightarrow> window sh (first + 1) (w - 1)"
proof -
  assume w: "window sh first w" "0 < w"
  have inj: "inj_on (\<lambda>i. slot_queue sh ((first + i) mod 64)) {..<w}" using w(1) by (simp add: window_def)
  have "inj_on (\<lambda>i. slot_queue sh ((first + 1 + i) mod 64)) {..<w - 1}"
  proof (rule inj_onI)
    fix x y assume xy: "x \<in> {..<w - 1}" "y \<in> {..<w - 1}"
      "slot_queue sh ((first + 1 + x) mod 64) = slot_queue sh ((first + 1 + y) mod 64)"
    have "Suc x = Suc y" by (rule inj_onD [OF inj]) (use xy in simp_all)
    then show "x = y" by simp
  qed
  moreover have "w \<le> 64" using w(1) by (simp add: window_def)
  then have "w - 1 \<le> 64" by simp
  ultimately show ?thesis by (simp add: window_def)
qed

lemma advance_state:
  assumes pos: "rx_pos u = of_nat k" and st: "st = unat (calc_stride n)" "8 \<le> st" "st \<le> d" "k mod 4096 + st \<le> 4096"
    and win: "window (remote u) (k div 4096) w" "k mod 4096 + d \<le> w * 4096"
    and rest: "stream (mem u) (remote u) (k + st) (d - st) = Some ms"
    and data: "rx_data u = Some (slot_data (rx_slot k u))" "rx_info u = rx_slot k u"
    and recycled: "unat (slot_queue_recycle (remote u)) mod 64 = c mod 64" "k div 4096 + w \<le> c" "c \<le> k div 4096 + 64"
    and free: "\<not> recycle_mutex u"
  shows "\<exists>t w'. rx_advance n fs u = Some (t, fs) \<and> rx_state (k + st) (d - st) w' ms t \<and> rx_frame u t"
proof -
  have next_pos: "rx_pos u + calc_stride n = of_nat (k + st)" by (simp add: pos st(1))
  let ?u = "u\<lparr>rx_pos := of_nat (k + st)\<rparr>"
  show ?thesis
  proof (cases "k mod 4096 + st = 4096")
    case False
    then have less: "k mod 4096 + st < 4096" using st(4) by simp
    note split = div_mod_plus [OF less]
    have off: "(k + st) mod 4096 \<noteq> 0" using split(2) st(2) by simp
    have "rx_advance n fs u = Some (?u, fs)"
      unfolding rx_advance_def next_pos Let_def using off by (simp add: of_nat_boundary del: of_nat_add)
    moreover have "rx_state (k + st) (d - st) w ms ?u"
      unfolding rx_state_def using off win rest data recycled split st(2,3)
      by (auto simp: rx_slot_def)
    moreover have "rx_frame u ?u" using free by (simp add: rx_frame_def)
    ultimately show ?thesis by blast
  next
    case True
    have div: "(k + st) div 4096 = k div 4096 + 1" and off: "(k + st) mod 4096 = 0"
    proof -
      have "k div 4096 * 4096 + k mod 4096 = k" by (rule div_mult_mod_eq)
      then have "k + st = k div 4096 * 4096 + (k mod 4096 + st)" by (simp only: add.assoc [symmetric])
      then have "k + st = (k div 4096 + 1) * 4096" by (simp only: True add_mult_distrib mult_1)
      then show "(k + st) div 4096 = k div 4096 + 1" "(k + st) mod 4096 = 0" by simp_all
    qed
    have w: "0 < w" using win(2) st(2,3) by (cases w) auto
    have room: "(k + st) mod 4096 + (d - st) \<le> (w - 1) * 4096"
      using win(2) True w off by (cases w) simp_all
    have shifted: "window (remote u) ((k + st) div 4096) (w - 1)"
      using window_shift [OF win(1) w] by (simp add: div)
    obtain t where t: "release_slot (rx_info u) None None fs ?u = Some (t, fs)" "rx_frame ?u t" "rx_pos t = of_nat (k + st)"
      "(slot_queue (remote t) = slot_queue (remote u) \<and> slot_queue_recycle (remote t) = slot_queue_recycle (remote u)) \<or>
       (slot_queue (remote t) = (slot_queue (remote u))(unat (slot_queue_recycle (remote u)) mod 64 := rx_info u) \<and>
        slot_queue_recycle (remote t) = slot_queue_recycle (remote u) + 1)"
      using release_end_of_slot [of ?u "rx_info u" fs] free by auto
    have step: "rx_advance n fs u = Some (t\<lparr>rx_data := None\<rparr>, fs)"
      unfolding rx_advance_def next_pos Let_def using off t(1) by (simp add: of_nat_boundary del: of_nat_add)
    have frame: "rx_frame u (t\<lparr>rx_data := None\<rparr>)" using t(2) by (simp add: rx_frame_def)
    have mem: "mem t = mem u" using t(2) by (simp add: rx_frame_def)
    have "\<exists>c'. unat (slot_queue_recycle (remote t)) mod 64 = c' mod 64 \<and> (k + st) div 4096 + (w - 1) \<le> c' \<and> c' \<le> (k + st) div 4096 + 64 \<and>
      window (remote t) ((k + st) div 4096) (w - 1) \<and> stream (mem t) (remote t) (k + st) (d - st) = Some ms"
      using t(4)
    proof
      assume same: "slot_queue (remote t) = slot_queue (remote u) \<and> slot_queue_recycle (remote t) = slot_queue_recycle (remote u)"
      then show ?thesis
        using recycled w shifted rest stream_queue [of "remote t" "remote u"] div mem
        by (intro exI [of _ c]) (auto simp: window_def)
    next
      assume entered: "slot_queue (remote t) = (slot_queue (remote u))(unat (slot_queue_recycle (remote u)) mod 64 := rx_info u) \<and>
        slot_queue_recycle (remote t) = slot_queue_recycle (remote u) + 1"
      have bounds: "(k + st) div 4096 + (w - 1) \<le> c" "c \<le> (k + st) div 4096 + 63"
        using recycled w div by simp_all
      have q: "slot_queue (remote t) = (slot_queue (remote u))(c mod 64 := rx_info u)" using entered recycled(1) by simp
      have "naddr (remote t) (k + st + j) = naddr (remote u) (k + st + j)" if "j < d - st" for j
        by (rule naddr_recycled [OF bounds _ q]) (use room that in linarith)
      then have "stream (mem t) (remote t) (k + st) (d - st) = Some ms"
        using stream_sh_cong [of "d - st" "remote t" "k + st" "remote u"] rest mem by simp
      moreover have "window (remote t) ((k + st) div 4096) (w - 1)" by (rule window_recycled [OF shifted bounds q])
      moreover have "unat (slot_queue_recycle (remote t)) mod 64 = (c + 1) mod 64"
        using entered recycled(1) unat_inc_mod64 by (metis mod_add_left_eq)
      ultimately show ?thesis using bounds by (intro exI [of _ "c + 1"]) auto
    qed
    then have "rx_state (k + st) (d - st) (w - 1) ms (t\<lparr>rx_data := None\<rparr>)"
      unfolding rx_state_def using t(3) room off by auto
    then show ?thesis using step frame by blast
  qed
qed


section \<open>One message\<close>

text \<open>What delivery depends on in the services.\<close>

definition rx_view :: "vstate \<Rightarrow> nat \<Rightarrow> (srvstate \<times> nat \<times> nat \<times> u32) option" where
  "rx_view s p = map_option (\<lambda>sv. (srvstate sv, remoteport sv, ref_count sv, handle sv)) (services s p)"

text \<open>The message is padding, or data for an open service that is connected to its sender.\<close>

definition deliverable :: "vstate \<Rightarrow> u32 \<times> u8 list \<Rightarrow> bool" where
  "deliverable s m \<longleftrightarrow>
     msg_type (fst m) = MSG_PADDING \<or>
     msg_type (fst m) = MSG_DATA \<and>
       (\<exists>rc h. 0 < rc \<and> rx_view s (msg_dstport (fst m)) = Some (SRV_OPEN, msg_srcport (fst m), rc, h))"

text \<open>What the client gets to see: the handle of its service and the data.\<close>

type_synonym client_fun = "u32 \<Rightarrow> u8 list \<Rightarrow> (ptr \<Rightarrow> bulk_waiter) \<Rightarrow> ptr \<Rightarrow> bulk_waiter"

definition hand_over :: "client_fun \<Rightarrow> vstate \<Rightarrow> u32 \<times> u8 list \<Rightarrow> (ptr \<Rightarrow> bulk_waiter) \<Rightarrow> ptr \<Rightarrow> bulk_waiter" where
  "hand_over client s m W =
     (if msg_type (fst m) = MSG_DATA
      then (case rx_view s (msg_dstport (fst m)) of Some (_, _, _, h) \<Rightarrow> client h (snd m) W | None \<Rightarrow> W)
      else W)"

definition accepts :: "vchiq_ops \<Rightarrow> client_fun \<Rightarrow> bool" where
  "accepts ops client \<longleftrightarrow>
     (\<forall>cb h hd s. op_callback ops cb MESSAGE_AVAILABLE (Some h) hd NULL s =
        (VCHIQ_SUCCESS, s\<lparr>waiters := client hd (bytes_at (mem s) (h + 8) (unat (hdr_size (mem s) h))) (waiters s)\<rparr>))"

lemma dstport_small: "msg_dstport w \<le> 4095"
proof -
  have "unat (w AND (4096 - 1)) = unat w mod 2 ^ 12" by (rule unat_and_mask) simp
  then show ?thesis by (simp add: msg_dstport_def)
qed

lemma header_address: "slot_at sh (slot_queue_index (of_nat k)) = slot_queue sh (k div 4096 mod 64)"
proof -
  have "addr sh (of_nat k) = naddr sh k"
    using naddr_mod [of sh k] by (simp only: addr_naddr unat_of_nat len_num1 len_bit0 mult_1_right len_of_numeral_defs) simp
  then have "slot_at sh (slot_queue_index (of_nat k)) * 4096 + k mod 4096 = slot_queue sh (k div 4096 mod 64) * 4096 + k mod 4096"
    by (simp only: addr_def naddr_def slot_data_def slot_offset_of_nat)
  then show ?thesis by simp
qed

lemma claimed_other: "a < h \<or> h + 4 \<le> a \<Longrightarrow> set_hdr_msgid h w m a = m a"
  by (simp only: set_hdr_msgid_def store32_other)

lemma claimed_header:
  "hdr_size (set_hdr_msgid h w m) h = hdr_size m h"
  "bytes_at (set_hdr_msgid h w m) (h + 8) n = bytes_at m (h + 8) n"
  unfolding hdr_size_def bytes_at_def by (rule load32_cong, simp add: claimed_other) (simp add: claimed_other)

text \<open>Padding only moves the reader on.\<close>

lemma rx_state_open:
  assumes "rx_state k d w ms s" "ms \<noteq> []"
  shows "rx_open_slot s = s\<lparr>rx_data := Some (slot_data (rx_slot k s)), rx_info := rx_slot k s,
      slot_infos := slot_infos (rx_open_slot s)\<rparr>"
  using assms header_address [of "remote s" k]
  by (auto simp: rx_state_def rx_open_slot_def rx_slot_def upd_slot_info_def Let_def split: if_splits)

text \<open>What \<open>rx_message\<close> does with a deliverable message before it steps over it.\<close>

definition rx_handled :: "client_fun \<Rightarrow> u32 \<times> u8 list \<Rightarrow> nat \<Rightarrow> vstate \<Rightarrow> vstate \<Rightarrow> bool" where
  "rx_handled client m h s u \<longleftrightarrow>
     rx_view u = rx_view s \<and> waiters u = hand_over client s m (waiters s) \<and> remote u = remote s \<and>
     rx_pos u = rx_pos s \<and> rx_data u = rx_data s \<and> rx_info u = rx_info s \<and> recycle_mutex u = recycle_mutex s \<and>
     (\<forall>a. a < h \<or> h + 4 \<le> a \<longrightarrow> mem u a = mem s a)"

lemma rx_data_handled:
  assumes acc: "accepts ops client" and m: "m = (hdr_msgid (mem s) h, bytes_at (mem s) (h + 8) (unat (hdr_size (mem s) h)))"
    and type: "msg_type (fst m) = MSG_DATA"
    and sv: "services s p = Some sv" "p = msg_dstport (fst m)" "srvstate sv = SRV_OPEN" "remoteport sv = msg_srcport (fst m)" "0 < ref_count sv"
  shows "\<exists>u. (do {
      (known, service, s) \<leftarrow> rx_find_service ops MSG_DATA p (msg_srcport (fst m)) s;
      (ok, s, fs) \<leftarrow> (if known then rx_dispatch ops service h MSG_DATA (msg_srcport (fst m)) fs s else Some (True, s, fs));
      s \<leftarrow> unlock_opt ops service s;
      Some (ok, s, fs) }) = Some (True, u, fs) \<and> rx_handled client m h s u"
proof -
  define s1 where "s1 = upd_service p (ref_count_update (\<lambda>n. n + 1)) s"
  define s2 where "s2 = claim_slot (rx_info s1) (s1\<lparr>mem := set_hdr_msgid h (fst m OR MSGID_CLAIMED) (mem s1)\<rparr>)"
  define s3 where "s3 = s2\<lparr>waiters := client (handle sv) (snd m) (waiters s2)\<rparr>"
  define s4 where "s4 = upd_stats p (ctrl_rx_bytes_update (\<lambda>c. c + ucast (hdr_size (mem s) h)) \<circ> ctrl_rx_count_update (\<lambda>c. c + 1)) s3"
  define u where "u = upd_service p (ref_count_update (\<lambda>n. n - 1)) s4"
  have find: "rx_find_service ops MSG_DATA p (msg_srcport (fst m)) s = Some (True, Some p, s1)"
    using sv dstport_small [of "fst m"]
    by (simp add: rx_find_service_def service_msg_def find_service_by_port_def find_service_def s1_def upd_service_def)
  have s1: "services s1 p = Some (sv\<lparr>ref_count := ref_count sv + 1\<rparr>)" "mem s1 = mem s"
    using sv(1) by (simp_all add: s1_def upd_service_def)
  have s2: "services s2 = services s1" "mem s2 = set_hdr_msgid h (fst m OR MSGID_CLAIMED) (mem s)" "waiters s2 = waiters s"
    by (simp_all add: s2_def claim_slot_def upd_slot_info_def s1) (simp add: s1_def upd_service_def)
  have id: "hdr_msgid (mem s) h = fst m" by (simp add: m)
  have s2_alt: "s2 = claim_slot (rx_info s1) (s1\<lparr>mem := set_hdr_msgid h (fst m OR MSGID_CLAIMED) (mem s1)\<rparr>)"
    by (rule s2_def)
  have call: "make_service_callback ops p MESSAGE_AVAILABLE (Some h) NULL s2 = (VCHIQ_SUCCESS, s3)"
    using acc by (simp add: make_service_callback_def accepts_def s1 s2 claimed_header s3_def m)
  have "rx_data_msg ops p h (msg_srcport (fst m)) s1 = (True, s4)"
    unfolding rx_data_msg_def Let_def s2_alt [symmetric] id [folded s1(2)]
    by (simp add: call s1 s4_def sv(3,4))
  then have disp: "rx_dispatch ops (Some p) h MSG_DATA (msg_srcport (fst m)) fs s1 = Some (True, s4, fs)"
    by (simp add: rx_dispatch_def)
  have s4: "\<exists>st. services s4 p = Some (sv\<lparr>ref_count := ref_count sv + 1, stats := st\<rparr>)"
    by (cases sv) (simp add: s4_def upd_stats_def upd_service_def s3_def s2 s1)
  then have unlock: "unlock_opt ops (Some p) s4 = Some u"
    using sv by (auto simp: unlock_opt_def unlock_service_def u_def)
  have "rx_view u = rx_view s"
    using sv(1) s4 by (auto simp: fun_eq_iff rx_view_def u_def s4_def upd_stats_def upd_service_def s3_def s2 s1_def)
  moreover have "waiters u = hand_over client s m (waiters s)"
    using sv type by (simp add: hand_over_def rx_view_def u_def s4_def upd_stats_def upd_service_def s3_def s2)
  moreover have "\<forall>a. a < h \<or> h + 4 \<le> a \<longrightarrow> mem u a = mem s a"
    by (auto simp: u_def s4_def upd_stats_def upd_service_def s3_def s2 claimed_other)
  moreover have "remote u = remote s \<and> rx_pos u = rx_pos s \<and> rx_data u = rx_data s \<and> rx_info u = rx_info s \<and> recycle_mutex u = recycle_mutex s"
    by (simp add: u_def s4_def upd_stats_def upd_service_def s3_def s2_def claim_slot_def upd_slot_info_def s1_def)
  ultimately show ?thesis by (intro exI [of _ u]) (simp add: find disp unlock rx_handled_def)
qed

lemma rx_padding_handled: "msg_type (fst m) = MSG_PADDING \<Longrightarrow> rx_handled client m h s s"
  by (simp add: rx_handled_def hand_over_def)

lemma rx_message_step:
  assumes acc: "accepts ops client" and st: "rx_state k d w (m # ms) s" and del: "deliverable s m" and free: "\<not> recycle_mutex s"
  shows "\<exists>t k' d' w'. rx_message ops fs s = Some (True, t, fs) \<and> rx_state k' d' w' ms t \<and> k' + d' = k + d \<and> d' < d \<and>
    rx_view t = rx_view s \<and> waiters t = hand_over client s m (waiters s) \<and>
    tx_pos (remote t) = tx_pos (remote s) \<and> \<not> recycle_mutex t"
proof -
  have pos: "rx_pos s = of_nat k" and win: "window (remote s) (k div 4096) w" "k mod 4096 + d \<le> w * 4096"
    and ms: "stream (mem s) (remote s) k d = Some (m # ms)"
    using st by (simp_all add: rx_state_def)
  note cons = stream_ConsD [OF ms]
  let ?h = "naddr (remote s) k"
  let ?n = "hdr_size (mem s) ?h"
  let ?st = "stride_at (mem s) (remote s) k"
  have fits: "8 \<le> ?st" "?st \<le> d" "k mod 4096 + ?st \<le> 4096" using cons(2) by (simp_all add: msg_fits_def)
  define s1 where "s1 = rx_open_slot s"
  have s1: "s1 = s\<lparr>rx_data := Some (slot_data (rx_slot k s)), rx_info := rx_slot k s, slot_infos := slot_infos s1\<rparr>"
    unfolding s1_def by (rule rx_state_open [OF st]) simp
  have m: "m = (hdr_msgid (mem s) ?h, bytes_at (mem s) (?h + 8) (unat ?n))" using cons(3) by (simp add: msg_at_def)
  have s1f: "services s1 = services s" "waiters s1 = waiters s" "remote s1 = remote s" "mem s1 = mem s" "rx_pos s1 = rx_pos s"
    "rx_data s1 = Some (slot_data (rx_slot k s))" "rx_info s1 = rx_slot k s" "recycle_mutex s1 = recycle_mutex s"
    by (subst s1, simp)+
  have h: "the (rx_data s1) + slot_offset (rx_pos s1) = ?h" "hdr_msgid (mem s) ?h = fst m" "mem s1 = mem s"
    by (simp_all only: s1f m fst_conv) (simp add: pos slot_offset_of_nat naddr_def slot_data_def rx_slot_def)
  define s2 where "s2 = (if msg_type (fst m) \<noteq> MSG_DATA
    then s1\<lparr>st_stats := st_ctrl_rx_count_update (\<lambda>c. c + 1) (st_stats s1)\<rparr> else s1)"
  have s2: "services s2 = services s" "waiters s2 = waiters s" "remote s2 = remote s" "mem s2 = mem s" "rx_pos s2 = of_nat k"
    "rx_data s2 = Some (slot_data (rx_slot k s))" "rx_info s2 = rx_slot k s" "\<not> recycle_mutex s2"
    using free pos by (simp_all add: s2_def s1f)
  have "\<exists>u. (do {
      (known, service, s) \<leftarrow> rx_find_service ops (msg_type (fst m)) (msg_dstport (fst m)) (msg_srcport (fst m)) s2;
      (ok, s, fs) \<leftarrow> (if known then rx_dispatch ops service ?h (msg_type (fst m)) (msg_srcport (fst m)) fs s else Some (True, s, fs));
      s \<leftarrow> unlock_opt ops service s;
      Some (ok, s, fs) }) = Some (True, u, fs) \<and> rx_handled client m ?h s2 u"
    using del unfolding deliverable_def
  proof
    assume "msg_type (fst m) = MSG_PADDING"
    then show ?thesis
      by (auto simp: rx_find_service_def service_msg_def rx_dispatch_def unlock_opt_def rx_padding_handled)
  next
    assume "msg_type (fst m) = MSG_DATA \<and>
       (\<exists>rc h. 0 < rc \<and> rx_view s (msg_dstport (fst m)) = Some (SRV_OPEN, msg_srcport (fst m), rc, h))"
    then obtain sv where type: "msg_type (fst m) = MSG_DATA" and sv: "services s2 (msg_dstport (fst m)) = Some sv"
      "srvstate sv = SRV_OPEN" "remoteport sv = msg_srcport (fst m)" "0 < ref_count sv"
      by (auto simp: rx_view_def s2)
    show ?thesis unfolding type
      by (rule rx_data_handled [OF acc _ type sv(1) refl sv(2-4)]) (simp add: m s2)
  qed
  then obtain u where u: "(do {
      (known, service, s) \<leftarrow> rx_find_service ops (msg_type (fst m)) (msg_dstport (fst m)) (msg_srcport (fst m)) s2;
      (ok, s, fs) \<leftarrow> (if known then rx_dispatch ops service ?h (msg_type (fst m)) (msg_srcport (fst m)) fs s else Some (True, s, fs));
      s \<leftarrow> unlock_opt ops service s;
      Some (ok, s, fs) }) = Some (True, u, fs)" "rx_handled client m ?h s2 u" by blast
  have run: "rx_message ops fs s = do { (s, fs) \<leftarrow> rx_advance ?n fs u; Some (True, s, fs) }"
    using u(1) unfolding rx_message_def s1_def [symmetric] Let_def h s2_def [symmetric]
    by (auto simp: bind_eq_Some_conv split: prod.splits)
  note handled = u(2) [unfolded rx_handled_def s2]
  have sh: "remote u = remote s" using handled by simp
  have "stream (mem u) (remote s) (k + ?st) (d - ?st) = stream (mem s) (remote s) (k + ?st) (d - ?st)"
    by (rule stream_behind [OF win(1)]) (use handled fits win(2) in auto)
  then have rest: "stream (mem u) (remote u) (k + ?st) (d - ?st) = Some ms" using cons(4) sh by simp
  obtain c where c: "unat (slot_queue_recycle (remote u)) mod 64 = c mod 64" "k div 4096 + w \<le> c" "c \<le> k div 4096 + 64"
    using st sh by (auto simp: rx_state_def)
  have slot: "rx_data u = Some (slot_data (rx_slot k u))" "rx_info u = rx_slot k u"
    using handled sh by (simp_all add: rx_slot_def)
  have pos_u: "rx_pos u = of_nat k" and free_u: "\<not> recycle_mutex u" using handled s2(8) by simp_all
  have stride: "?st = unat (calc_stride ?n)" by (simp add: stride_at_def)
  have win_u: "window (remote u) (k div 4096) w" using win sh by simp
  obtain t w' where t: "rx_advance ?n fs u = Some (t, fs)" "rx_state (k + ?st) (d - ?st) w' ms t" "rx_frame u t"
    using advance_state [OF pos_u stride fits win_u win(2) rest slot c free_u] by blast
  have "rx_view s2 = rx_view s" by (rule ext) (simp add: rx_view_def s2)
  moreover have "hand_over client s2 m W = hand_over client s m W" for W
    using \<open>rx_view s2 = rx_view s\<close> by (simp add: hand_over_def)
  moreover have "rx_view t = rx_view u" using t(3) by (auto simp: rx_view_def rx_frame_def)
  ultimately show ?thesis using handled t run fits
    by (intro exI [of _ t] exI [of _ "k + ?st"] exI [of _ "d - ?st"] exI [of _ w']) (auto simp: rx_frame_def)
qed

section \<open>The whole stream\<close>

lemma rx_state_bound: "rx_state k d w ms s \<Longrightarrow> d < 2 ^ 32"
proof -
  assume "rx_state k d w ms s"
  then have "d \<le> w * 4096" "w \<le> 64" by (auto simp: rx_state_def window_def)
  then have "d \<le> 64 * 4096" by (meson mult_le_mono1 order_trans)
  then show ?thesis by simp
qed

lemma of_nat_plus_ne: "0 < d \<Longrightarrow> d < 2 ^ 32 \<Longrightarrow> (of_nat k :: u32) \<noteq> of_nat (k + d)"
  using unat_of_nat_small [of d] by (metis add_cancel_right_right less_not_refl of_nat_add unat_0)

lemma stream_Nil_0: "stream m sh k d = Some [] \<Longrightarrow> d = 0"
  using stream_bad [of d m sh k] stream_next [of d m sh k] by (cases "msg_fits m sh k d"; cases "d = 0") auto

lemma parse_until_delivers:
  assumes "accepts ops client" "rx_state k d w ms s" "\<forall>m\<in>set ms. deliverable s m" "\<not> recycle_mutex s"
  shows "\<exists>t w'. parse_until ops (of_nat (k + d)) fs s = Some (t, fs) \<and> rx_state (k + d) 0 w' [] t \<and>
    rx_view t = rx_view s \<and> waiters t = fold (hand_over client s) ms (waiters s) \<and>
    tx_pos (remote t) = tx_pos (remote s) \<and> \<not> recycle_mutex t"
  using assms(2-)
proof (induction ms arbitrary: k d w s)
  case Nil
  then have d: "d = 0" by (auto simp: rx_state_def dest: stream_Nil_0)
  have "parse_until ops (of_nat (k + d)) fs s = Some (s, fs)"
    using Nil.prems(1) d by (subst parse_until.simps) (simp add: rx_state_def)
  then show ?case using Nil.prems d by auto
next
  case (Cons m ms)
  obtain t k' d' w' where t: "rx_message ops fs s = Some (True, t, fs)" "rx_state k' d' w' ms t" "k' + d' = k + d" "d' < d"
    "rx_view t = rx_view s" "waiters t = hand_over client s m (waiters s)" "tx_pos (remote t) = tx_pos (remote s)" "\<not> recycle_mutex t"
    using rx_message_step [OF assms(1) Cons.prems(1) _ Cons.prems(3)] Cons.prems(2) by (metis list.set_intros(1))
  have same: "deliverable t = deliverable s" "hand_over client t = hand_over client s"
    by (intro ext; simp add: deliverable_def hand_over_def t(5))+
  have "\<exists>u w''. parse_until ops (of_nat (k' + d')) fs t = Some (u, fs) \<and> rx_state (k' + d') 0 w'' [] u \<and>
    rx_view u = rx_view t \<and> waiters u = fold (hand_over client t) ms (waiters t) \<and>
    tx_pos (remote u) = tx_pos (remote t) \<and> \<not> recycle_mutex u"
    by (rule Cons.IH [OF t(2) _ t(8)]) (use Cons.prems(2) same in simp)
  moreover have "rx_pos s \<noteq> of_nat (k + d)"
    using of_nat_plus_ne [OF _ rx_state_bound [OF Cons.prems(1)], of k] t(4) Cons.prems(1) by (simp add: rx_state_def del: of_nat_add)
  then have "parse_until ops (of_nat (k + d)) fs s = parse_until ops (of_nat (k + d)) fs t"
    using t(1) by (subst parse_until.simps) (simp del: of_nat_add)
  ultimately show ?case using t same by (simp del: of_nat_add)
qed


section \<open>From one side to the other\<close>

text \<open>
  \<open>reads r s u\<close>: the side \<open>u\<close> reads the stream of the side \<open>s\<close> from position \<open>r\<close> on. Both see the
  same half of slot zero and the same slots; the slots that \<open>u\<close> has given back and \<open>s\<close> has not
  taken yet (\<open>e\<close> of them) are behind those that \<open>s\<close> owns or has filled.
\<close>

definition reads :: "u32 \<Rightarrow> vstate \<Rightarrow> vstate \<Rightarrow> bool" where
  "reads r s u \<longleftrightarrow> remote u = local s \<and> mem u = mem s \<and> rx_pos u = r \<and> \<not> recycle_mutex u \<and>
     (if unat r mod 4096 = 0 then rx_data u = None
      else rx_data u = Some (slot_data (rx_slot (unat r) u)) \<and> rx_info u = rx_slot (unat r) u) \<and>
     (\<exists>e. slot_queue_recycle (local s) = slot_queue_available s + of_nat e \<and>
        slots_used r (unat (tx_pos (local s) - r)) + slot_available_event s + e \<le> 64)"

lemma index_mod64:
  assumes "(a :: u32) * 4096 = of_nat (n * 4096)"
  shows "unat a mod 64 = n mod 64"
proof -
  have scale: "x * 4096 mod (2 ^ 20 * 4096) = x mod 2 ^ 20 * 4096" for x :: nat
    by (rule mult_mod_left [symmetric])
  have "unat (a * 4096) = unat (of_nat (n * 4096) :: u32)" using assms by simp
  then have "unat a * 4096 mod (2 ^ 20 * 4096) = n * 4096 mod (2 ^ 20 * 4096)"
    by (simp add: unat_word_ariths unat_of_nat del: of_nat_mult)
  then have "unat a mod 2 ^ 20 * 4096 = n mod 2 ^ 20 * 4096" by (simp only: scale)
  then have "unat a mod 2 ^ 20 = n mod 2 ^ 20" by simp
  then have "unat a mod 2 ^ 20 mod 2 ^ 6 = n mod 2 ^ 20 mod 2 ^ 6" by simp
  then show ?thesis using mod_mod_pow2_le [of 6 20] by simp
qed

lemma mod64_plus_of_nat: "unat (a :: u32) mod 64 = n mod 64 \<Longrightarrow> unat (a + of_nat e) mod 64 = (n + e) mod 64"
proof -
  assume "unat a mod 64 = n mod 64"
  then have "(unat a + e) mod 64 = (n + e) mod 64" by (metis mod_add_left_eq)
  moreover have "unat (a + of_nat e) mod 2 ^ 6 = (unat a + e) mod 2 ^ 6"
    using mod_mod_pow2_le [of 6 32 "unat a + e"] by (simp add: unat_plus_of_nat)
  ultimately show ?thesis by simp
qed

lemma tx_invD:
  assumes "tx_inv r ms s"
  defines "d \<equiv> unat (tx_pos (local s) - r)"
  defines "w \<equiv> slots_used r d + slot_available_event s"
  shows "tx_pos (local s) = r + of_nat d" "stream (mem s) (local s) (unat r) d = Some ms"
    "window (local s) (unat r div 4096) w" "unat r mod 4096 + d \<le> w * 4096" "w \<le> 64"
    "slot_queue_available s * 4096 = of_nat ((unat r div 4096 + w) * 4096)"
proof -
  obtain d' where d': "tx_state r d' s" "tx_pos (local s) = local_tx_pos s" "stream (mem s) (local s) (unat r) d' = Some ms"
    using assms(1) by (rule tx_invE)
  have win: "window (local s) (unat r div 4096) (slots_used r d' + slot_available_event s)" using d'(1) by (simp add: tx_state_def)
  have room: "unat r mod 4096 + d' \<le> slots_used r d' * 4096" using slots_used_bounds(1) [of r d'] by simp
  have "slots_used r d' \<le> 64" using win by (simp add: window_def)
  then have "slots_used r d' * 4096 \<le> 64 * 4096" by (rule mult_le_mono1)
  then have small: "d' < 2 ^ 32" using room by simp
  have pos: "local_tx_pos s = r + of_nat d'" using d'(1) by (simp add: tx_state_def)
  then have d: "d = d'" using d'(2) unat_of_nat_small [OF small] by (simp add: d_def)
  have "r - of_nat (unat r mod 4096) = of_nat (unat r div 4096 * 4096)"
  proof -
    have "r = of_nat (unat r div 4096 * 4096 + unat r mod 4096)" by (simp only: div_mult_mod_eq) simp
    then show ?thesis by (metis add_diff_cancel_right' of_nat_add)
  qed
  then show "slot_queue_available s * 4096 = of_nat ((unat r div 4096 + w) * 4096)"
    using d'(1) unfolding w_def d by (simp only: tx_state_def of_nat_add [symmetric] add_mult_distrib)
  show "tx_pos (local s) = r + of_nat d" "stream (mem s) (local s) (unat r) d = Some ms"
    "window (local s) (unat r div 4096) w" "unat r mod 4096 + d \<le> w * 4096" "w \<le> 64"
    using d'(2,3) pos win room by (simp_all add: d w_def window_def)
qed

lemma reads_rx_state:
  assumes inv: "tx_inv r ms s" and reads: "reads r s u"
  obtains d w where "rx_state (unat r) d w ms u" "tx_pos (remote u) = of_nat (unat r + d)"
proof -
  define d w where "d = unat (tx_pos (local s) - r)" and "w = slots_used r d + slot_available_event s"
  note tx = tx_invD [OF inv, folded d_def, folded w_def]
  obtain e where e: "slot_queue_recycle (local s) = slot_queue_available s + of_nat e" "w + e \<le> 64"
    using reads by (auto simp: reads_def d_def w_def)
  have "unat (slot_queue_recycle (local s)) mod 64 = (unat r div 4096 + w + e) mod 64"
    unfolding e(1) by (intro mod64_plus_of_nat index_mod64 tx(6))
  then have "rx_state (unat r) d w ms u"
    using reads e(2) tx(2-4) by (auto simp: rx_state_def reads_def intro!: exI [of _ "unat r div 4096 + w + e"])
  moreover have "tx_pos (remote u) = of_nat (unat r + d)" using reads tx(1) by (simp add: reads_def)
  ultimately show thesis by (rule that)
qed

lemma stream_crosses_aux:
  assumes "accepts ops client" and "tx_inv r ms s" and "reads r s u" and "\<forall>m\<in>set ms. deliverable u m"
  shows "\<exists>v. parse_rx_slots ops fs u = Some (v, fs) \<and> rx_pos v = tx_pos (remote v) \<and>
    waiters v = fold (hand_over client u) ms (waiters u) \<and> rx_view v = rx_view u"
proof -
  obtain d w where "rx_state (unat r) d w ms u" "tx_pos (remote u) = of_nat (unat r + d)"
    using reads_rx_state [OF assms(2,3)] by blast
  moreover have "\<not> recycle_mutex u" using assms(3) by (simp add: reads_def)
  ultimately obtain v w' where "parse_until ops (of_nat (unat r + d)) fs u = Some (v, fs)" "rx_state (unat r + d) 0 w' [] v"
    "rx_view v = rx_view u" "waiters v = fold (hand_over client u) ms (waiters u)" "tx_pos (remote v) = tx_pos (remote u)"
    using parse_until_delivers [OF assms(1) _ assms(4)] by blast
  with \<open>tx_pos (remote u) = of_nat (unat r + d)\<close> show ?thesis
    by (intro exI [of _ v]) (simp add: parse_rx_slots_def rx_state_def)
qed

text \<open>The reader sees the message that the writer has just published.\<close>

lemma reads_after:
  assumes inv: "tx_inv r ms s" "tx_inv r ms' t" and reads: "reads r s u"
    and frame: "local t = local s\<lparr>tx_pos := local_tx_pos t\<rparr>" "slot_queue_available t = slot_queue_available s"
  shows "reads r t (u\<lparr>remote := local t, mem := mem t\<rparr>)"
proof -
  define w where "w s = slots_used r (unat (tx_pos (local s) - r)) + slot_available_event s" for s :: vstate
  have w: "w s \<le> 64" "w t \<le> 64" using tx_invD(5) [OF inv(1)] tx_invD(5) [OF inv(2)] by (simp_all add: w_def)
  have "(of_nat ((unat r div 4096 + w s) * 4096) :: u32) = of_nat ((unat r div 4096 + w t) * 4096)"
    using tx_invD(6) [OF inv(1)] tx_invD(6) [OF inv(2)] frame(2) by (simp only: w_def)
  then have "(of_nat (w s * 4096) :: u32) = of_nat (w t * 4096)"
    by (simp only: add_mult_distrib of_nat_add add_left_cancel)
  moreover have "w s * 4096 \<le> 64 * 4096" "w t * 4096 \<le> 64 * 4096" using w by (intro mult_le_mono1; simp)+
  then have "w s * 4096 < 2 ^ 32" "w t * 4096 < 2 ^ 32" by simp_all
  ultimately have "w s * 4096 = w t * 4096" by (metis unat_of_nat_small)
  then have "w s = w t" by simp
  moreover obtain e where "slot_queue_recycle (local s) = slot_queue_available s + of_nat e" "w s + e \<le> 64"
    using reads by (auto simp: reads_def w_def)
  moreover have "slot_queue_recycle (local t) = slot_queue_recycle (local s)" "slot_queue (local t) = slot_queue (local s)"
    by (subst frame(1), simp)+
  ultimately show ?thesis using reads frame(2) by (auto simp: reads_def w_def rx_slot_def)
qed


text \<open>
  A client that adds up what it gets, and the other side of \<open>open_state\<close>, whose service 7 is
  connected to service 0.
\<close>

definition sum_client :: client_fun where
  "sum_client h bs W = W(0 := (W 0)\<lparr>w_actual := w_actual (W 0) + (\<Sum>b\<leftarrow>bs. ucast b)\<rparr>)"

definition sum_ops :: vchiq_ops where
  "sum_ops = \<lparr>op_callback = (\<lambda>cb reason header h ud s.
       (VCHIQ_SUCCESS,
        case header of
          Some a \<Rightarrow> s\<lparr>waiters := sum_client h (bytes_at (mem s) (a + 8) (unat (hdr_size (mem s) a))) (waiters s)\<rparr>
        | None \<Rightarrow> s)),
     op_userdata_term = (\<lambda>f ud s. s)\<rparr>"

definition other_side :: vstate where
  "other_side = open_state\<lparr>remote := local open_state, services := [7 \<mapsto> demo_service\<lparr>localport := 7, remoteport := 0\<rparr>]\<rparr>"

lemma sum_accepts: "accepts sum_ops sum_client"
  by (simp add: accepts_def sum_ops_def)

lemma other_side_reads: "reads 0 open_state other_side"
proof -
  have "local open_state = local boot_state" "tx_pos (local boot_state) = 0" "slot_queue_recycle (local boot_state) = 31"
    using boot_state_props(3,4) boot_slots_props(5,6) by (simp_all add: open_state_def idle_def all_slots_free_def)
  then show ?thesis by (auto simp: reads_def other_side_def slots_used_def intro: exI [of _ 0])
qed

lemma demo_send_ready:
  "mutex_ready (make_msg MSG_DATA 0 7) qm_blocking open_state" "may_send (Some 0) (make_msg MSG_DATA 0 7) 3 open_state"
  "has_room 3 open_state"
proof -
  show "may_send (Some 0) (make_msg MSG_DATA 0 7) 3 open_state" by (rule demo_may_send) (simp_all add: calc_stride_def)
qed (simp_all add: mutex_ready_def has_room_def)

definition three_bytes :: element where
  "three_bytes = \<lparr>el_data = Some (nth [10, 20, 30]), el_size = 3\<rparr>"

lemma three_bytes_ok: "elements_ok (make_msg MSG_DATA 0 7) [three_bytes] 3" "payload [three_bytes] = [10, 20, 30]"
  by (simp_all add: elements_ok_def three_bytes_def payload_def el_bytes_def upt_conv_Cons)



end
