(* ===== verification/Vchiq_Recycle.thy ===== *)
theory Vchiq_Recycle
  imports Vchiq_Transmit
begin

text \<open>
  The way of a slot back to its owner: every message that a client holds claims its slot,
  the slot handler holds one claim more, and the release of the last claim enters the slot
  into the owner's queue, from which \<open>process_free_queue\<close> returns the credits.
\<close>

section \<open>Releasing the claims of a slot\<close>

text \<open>Requests to release: a header for \<open>vchiq_release_message\<close>, \<open>None\<close> for the slot handler.\<close>

fun release_all :: "nat \<Rightarrow> nat option list \<Rightarrow> 'p vchiq sched \<Rightarrow> 'p vchiq \<Rightarrow> ('p vchiq \<times> 'p vchiq sched) option" where
  "release_all i [] fs s = Some (s, fs)"
| "release_all i (r # rs) fs s = do { (s, fs) \<leftarrow> release_slot i r None fs s; release_all i rs fs s }"

text \<open>
  \<open>claims i N Q H s\<close>: of the \<open>N\<close> claims on slot \<open>i\<close> those in \<open>Q\<close> are pending; \<open>H\<close> are the
  headers of its claimed messages, which do not overlap.
\<close>

definition claims :: "nat \<Rightarrow> nat \<Rightarrow> nat option set \<Rightarrow> nat set \<Rightarrow> 'p vchiq \<Rightarrow> bool" where
  "claims i N Q H s \<longleftrightarrow> \<not> recycle_mutex s \<and> finite Q \<and> card Q \<le> N \<and> N < 2 ^ 15 \<and>
     slot_infos s i = \<lparr>use_count = of_nat N, release_count = of_nat (N - card Q)\<rparr> \<and>
     (\<forall>h\<in>H. \<forall>h'\<in>H. h \<noteq> h' \<longrightarrow> h + 4 \<le> h' \<or> h' + 4 \<le> h) \<and>
     (\<forall>h\<in>H. (hdr_msgid (mem s) h AND MSGID_CLAIMED = 0) \<longleftrightarrow> Some h \<notin> Q)"

lemma claimed_cleared: "(w AND NOT c) AND c = (0 :: u32)"
  by (rule bit_word_eqI) (simp add: bit_simps)

lemma sint_of_nat16: "n < 2 ^ 15 \<Longrightarrow> sint (of_nat n :: u16) = int n"
proof -
  assume n: "n < 2 ^ 15"
  then have "unat (of_nat n :: u16) = n" by (simp add: unat_of_nat)
  then have "uint (of_nat n :: u16) = int n" by (simp add: uint_nat del: of_nat_eq_iff)
  moreover have "signed_take_bit 15 (int n) = int n" by (rule signed_take_bit_int_eq_self) (use n in simp_all)
  ultimately show ?thesis by (simp add: sint_uint)
qed

text \<open>Counting a release: the last one enters the slot.\<close>

lemma release_counts:
  assumes "slot_infos s i = \<lparr>use_count = of_nat N, release_count = of_nat (N - Suc q)\<rparr>" "Suc q \<le> N" "N < 2 ^ 15"
  shows "release_count_up i s =
    (let s = upd_slot_info i (\<lambda>_. \<lparr>use_count = of_nat N, release_count = of_nat (N - q)\<rparr>) s
     in if q = 0 then recycle_slot i s else s)"
proof -
  have "sint (release_count (slot_infos s i)) + 1 = int (N - q)"
    using assms by (simp add: sint_of_nat16 del: of_nat_diff of_nat_Suc)
  moreover have "int (N - q) = sint (use_count (slot_infos s i)) \<longleftrightarrow> q = 0"
    using assms by (auto simp: sint_of_nat16)
  ultimately show ?thesis
    using assms(1) by (simp add: release_count_up_def Let_def upd_slot_info_def del: of_nat_diff)
qed

lemma recycle_slot_frame:
  "slot_infos (recycle_slot i s) = slot_infos s" "recycle_mutex (recycle_slot i s) = recycle_mutex s" "mem (recycle_slot i s) = mem s"
  by (simp_all add: recycle_slot_def remote_event_signal_def Let_def)

text \<open>What the owner of the slots sees of a release.\<close>

definition entered :: "nat \<Rightarrow> 'p vchiq \<Rightarrow> 'p vchiq \<Rightarrow> bool" where
  "entered i s t \<longleftrightarrow>
     slot_queue_recycle (remote t) = slot_queue_recycle (remote s) + 1 \<and>
     slot_queue (remote t) = (slot_queue (remote s))(unat (slot_queue_recycle (remote s) AND 63) := i) \<and>
     fired (recycle (remote t))"

lemma release_step:
  assumes claims: "claims i N Q H s" and r: "r \<in> insert None (Some ` H)" "r = None \<Longrightarrow> None \<in> Q"
  shows "\<exists>t. release_slot i r None fs s = Some (t, fs) \<and> claims i N (Q - {r}) H t \<and>
    (if r \<in> Q \<and> Q - {r} = {} then entered i s t else remote t = remote s)"
proof -
  let ?b = "release_slot_body i r False (s\<lparr>recycle_mutex := True\<rparr>)"
  have run: "release_slot i r None fs s = Some (mutex_release recycle_mutex_update ?b, fs)"
    using claims by (simp add: release_slot_def claims_def mutex_acquire_now service_closing_def)
  show ?thesis
  proof (cases "r \<in> Q")
    case False
    then obtain h where h: "r = Some h" "h \<in> H" using r by auto
    then have "?b = s\<lparr>recycle_mutex := True\<rparr>" using claims False by (simp add: claims_def release_slot_body_def)
    then have "mutex_release recycle_mutex_update ?b = s" using claims by (simp add: mutex_release_def claims_def)
    then show ?thesis using run claims False by simp
  next
    case True
    define m where "m = (case r of None \<Rightarrow> mem s | Some h \<Rightarrow> set_hdr_msgid h (hdr_msgid (mem s) h AND NOT MSGID_CLAIMED) (mem s))"
    define q where "q = card (Q - {r})"
    have fin: "finite Q" and card: "card Q = Suc q"
      using claims True card_Suc_Diff1 [of Q r] by (simp_all add: claims_def q_def)
    have "?b = release_count_up i (s\<lparr>recycle_mutex := True, mem := m\<rparr>)"
      using True r claims by (auto simp: release_slot_body_def m_def claims_def Let_def split: option.split)
    also have "\<dots> = (let s = upd_slot_info i (\<lambda>_. \<lparr>use_count = of_nat N, release_count = of_nat (N - q)\<rparr>) (s\<lparr>recycle_mutex := True, mem := m\<rparr>)
        in if q = 0 then recycle_slot i s else s)"
      using claims card by (intro release_counts) (simp_all add: claims_def)
    finally have b: "?b = \<dots>" .
    let ?t = "mutex_release recycle_mutex_update ?b"
    have t: "\<not> recycle_mutex ?t" "mem ?t = m" "slot_infos ?t i = \<lparr>use_count = of_nat N, release_count = of_nat (N - q)\<rparr>"
      "if q = 0 then entered i s ?t else remote ?t = remote s"
      unfolding b Let_def by (auto simp: mutex_release_def recycle_slot_frame upd_slot_info_def entered_def recycle_slot_def
          remote_event_signal_def signal_event_def Let_def)
    have other: "hdr_msgid m h = hdr_msgid (mem s) h" if "h \<in> H" "r \<noteq> Some h" for h
    proof (cases r)
      case (Some h')
      then have "h + 4 \<le> h' \<or> h' + 4 \<le> h" using claims that r by (auto simp: claims_def)
      then show ?thesis using Some by (auto simp: m_def hdr_msgid_def set_hdr_msgid_def intro!: load32_cong store32_other)
    qed (simp add: m_def)
    have "(hdr_msgid m h AND MSGID_CLAIMED = 0) \<longleftrightarrow> Some h \<notin> Q - {r}" if "h \<in> H" for h
    proof (cases "r = Some h")
      case True
      then have "hdr_msgid m h = hdr_msgid (mem s) h AND NOT MSGID_CLAIMED"
        by (simp add: m_def hdr_msgid_def set_hdr_msgid_def load32_store32_same)
      then have "hdr_msgid m h AND MSGID_CLAIMED = 0" by (simp only: claimed_cleared)
      then show ?thesis using True by auto
    next
      case False
      then show ?thesis using other [OF that False] claims that by (auto simp: claims_def)
    qed
    then have "claims i N (Q - {r}) H ?t"
      using claims t card by (simp add: claims_def q_def)
    moreover have "q = 0 \<longleftrightarrow> Q - {r} = {}" using fin by (simp add: q_def)
    ultimately show ?thesis using run t(4) True by auto
  qed
qed

lemma release_all_once:
  assumes "claims i N Q H s" "set rs \<subseteq> insert None (Some ` H)" "count_list rs None \<le> (if None \<in> Q then 1 else 0)"
  shows "\<exists>t. release_all i rs fs s = Some (t, fs) \<and> claims i N (Q - set rs) H t \<and>
    (if Q \<noteq> {} \<and> Q \<subseteq> set rs then entered i s t else remote t = remote s)"
  using assms
proof (induction rs arbitrary: Q s)
  case (Cons r rs)
  have r: "r \<in> insert None (Some ` H)" "r = None \<Longrightarrow> None \<in> Q" using Cons.prems(2,3) by (auto split: if_splits)
  obtain t where t: "release_slot i r None fs s = Some (t, fs)" "claims i N (Q - {r}) H t"
    "if r \<in> Q \<and> Q - {r} = {} then entered i s t else remote t = remote s"
    using release_step [OF Cons.prems(1) r] by blast
  have "count_list rs None \<le> (if None \<in> Q - {r} then 1 else 0)" using Cons.prems(3) by (auto split: if_splits)
  then obtain u where u: "release_all i rs fs t = Some (u, fs)" "claims i N (Q - {r} - set rs) H u"
    "if Q - {r} \<noteq> {} \<and> Q - {r} \<subseteq> set rs then entered i t u else remote u = remote t"
    using Cons.IH [OF t(2)] Cons.prems(2) by auto
  have "Q - {r} - set rs = Q - set (r # rs)" by auto
  moreover have "if Q \<noteq> {} \<and> Q \<subseteq> set (r # rs) then entered i s u else remote u = remote s"
    using t(3) u(3) by (auto simp: entered_def split: if_splits)
  ultimately show ?case using t(1) u(1,2) by auto
qed (use assms in \<open>auto\<close>)

text \<open>
  C11. A slot goes back to its owner exactly once: for any sequence of releases of the
  messages of a slot and at most one release by the slot handler, in any order and with
  repetitions, the slot is entered into the owner's queue and the owner's event fired if all
  pending claims are among them, and the owner's half of slot zero does not change otherwise.
\<close>

theorem slot_recycled_once:
  assumes "claims i N Q H s" and "set rs \<subseteq> insert None (Some ` H)" and "count_list rs None \<le> (if None \<in> Q then 1 else 0)"
  shows "\<exists>t. release_all i rs fs s = Some (t, fs) \<and> claims i N (Q - set rs) H t \<and>
    (if Q \<noteq> {} \<and> Q \<subseteq> set rs then entered i s t else remote t = remote s)"
  using assms by (rule release_all_once)

text \<open>Slot 34 with the handler's claim and those of two messages.\<close>

definition claimed_state :: vstate where
  "claimed_state = upd_slot_info 34 (\<lambda>_. \<lparr>use_count = 3, release_count = 0\<rparr>)
     (open_state\<lparr>mem := store32 139264 (MSGID_CLAIMED OR make_msg MSG_DATA 0 7)
        (store32 139280 (MSGID_CLAIMED OR make_msg MSG_DATA 0 7) (\<lambda>_. 0))\<rparr>)"

lemma claimed_marked: "(MSGID_CLAIMED OR w) AND MSGID_CLAIMED \<noteq> 0"
proof -
  have "bit ((MSGID_CLAIMED OR w) AND MSGID_CLAIMED) 30"
    by (simp add: bit_simps bit_numeral_rec)
  then show ?thesis by (metis bit_0_eq bot_apply bot_bool_def)
qed

lemma claimed_state_claims: "claims 34 3 {None, Some 139264, Some 139280} {139264, 139280} claimed_state"
proof -
  have "load32 (store32 139264 a (store32 139280 b m)) 139280 = b" for a b m
  proof -
    have "load32 (store32 139264 a (store32 139280 b m)) 139280 = load32 (store32 139280 b m) 139280"
      by (rule load32_cong) (simp add: store32_other)
    then show ?thesis by (simp add: load32_store32_same)
  qed
  then show ?thesis using claimed_marked [of "make_msg 5 0 7"]
    by (simp add: claims_def claimed_state_def upd_slot_info_def hdr_msgid_def load32_store32_same)
qed

lemma slot_recycled_once_witness:
  "\<exists>t u. release_all 34 [Some 139280, None, Some 139280] [] claimed_state = Some (t, []) \<and> remote t = remote claimed_state \<and>
    release_all 34 [Some 139280, None, Some 139280, Some 139264] [] claimed_state = Some (u, []) \<and> entered 34 claimed_state u"
  using slot_recycled_once [OF claimed_state_claims, of "[Some 139280, None, Some 139280]" "[]"]
    slot_recycled_once [OF claimed_state_claims, of "[Some 139280, None, Some 139280, Some 139264]" "[]"]
  by auto

text \<open>
  A message that the slot handler passes on adds one pending claim to its slot: marking
  its header and \<open>claim_slot\<close> keep the accounts of the slot, as \<open>parse_rx_slots\<close> does for data.
\<close>

theorem claim_adds_pending:
  assumes "claims i N Q H s" and "Suc N < 2 ^ 15" and "h \<notin> H" and "\<forall>h'\<in>H. h + 4 \<le> h' \<or> h' + 4 \<le> h" and "Some h \<notin> Q"
  shows "claims i (Suc N) (insert (Some h) Q) (insert h H)
    (claim_slot i (s\<lparr>mem := set_hdr_msgid h (w OR MSGID_CLAIMED) (mem s)\<rparr>))"
proof -
  have "hdr_msgid (set_hdr_msgid h (w OR MSGID_CLAIMED) (mem s)) h' = hdr_msgid (mem s) h'" if "h' \<in> H" for h'
    using assms(4) that by (auto simp: hdr_msgid_def set_hdr_msgid_def intro!: load32_cong store32_other)
  moreover have "hdr_msgid (set_hdr_msgid h (w OR MSGID_CLAIMED) (mem s)) h AND MSGID_CLAIMED \<noteq> 0"
    using claimed_marked [of w] by (simp add: hdr_msgid_def set_hdr_msgid_def load32_store32_same or.commute)
  ultimately show ?thesis
    using assms by (auto simp: claims_def claim_slot_def upd_slot_info_def card_insert_if add.commute)
qed

lemma claim_adds_pending_witness:
  "claims 34 4 {None, Some 139264, Some 139280, Some 139296} {139264, 139280, 139296}
    (claim_slot 34 (claimed_state\<lparr>mem := set_hdr_msgid 139296 (5 OR MSGID_CLAIMED) (mem claimed_state)\<rparr>))"
  using claim_adds_pending [OF claimed_state_claims, of 139296 5] by (simp add: insert_commute)

section \<open>Returning the credits\<close>

text \<open>\<open>process_free_queue\<close> changes the quotas, the data counters and the free slots, no more.\<close>

definition no_credits :: "'p vchiq \<Rightarrow> 'p vchiq" where
  "no_credits s = s\<lparr>service_quotas := (\<lambda>_. zero_quota), data_use_count := 0, data_quota_event := 0,
     slot_queue_available := 0, slot_available_event := 0\<rparr>"

definition pfq_frame :: "'p vchiq \<Rightarrow> 'p vchiq \<Rightarrow> bool" where
  "pfq_frame s t \<longleftrightarrow> no_credits t = no_credits s"

lemma pfq_frame_refl [simp]: "pfq_frame s s"
  by (simp add: pfq_frame_def)

lemma pfq_frame_trans: "pfq_frame s t \<Longrightarrow> pfq_frame t u \<Longrightarrow> pfq_frame s u"
  by (simp add: pfq_frame_def)

lemma pfq_frameD:
  assumes "pfq_frame s t"
  shows "mem t = mem s" "local t = local s" "local_tx_pos t = local_tx_pos s" "tx_data t = tx_data s"
    "services t = services s" "remote t = remote s"
proof -
  note eq = assms [unfolded pfq_frame_def]
  show "mem t = mem s" using arg_cong [OF eq, of mem] by (simp add: no_credits_def)
  show "local t = local s" using arg_cong [OF eq, of local] by (simp add: no_credits_def)
  show "local_tx_pos t = local_tx_pos s" using arg_cong [OF eq, of local_tx_pos] by (simp add: no_credits_def)
  show "tx_data t = tx_data s" using arg_cong [OF eq, of tx_data] by (simp add: no_credits_def)
  show "services t = services s" using arg_cong [OF eq, of services] by (simp add: no_credits_def)
  show "remote t = remote s" using arg_cong [OF eq, of remote] by (simp add: no_credits_def)
qed

lemma pfq_header_frame:
  assumes "pfq_header h sf df s = (sf', df', t)"
  shows "pfq_frame s t" "slot_queue_available t = slot_queue_available s" "slot_available_event t = slot_available_event s"
  using assms
  by (auto simp: pfq_header_def pfq_message_credit_def pfq_slot_credit_def upd_quota_def pfq_frame_def no_credits_def Let_def
      split: if_splits)

lemma pfq_data_credit_frame:
  "pfq_frame s (pfq_data_credit df s)" "slot_queue_available (pfq_data_credit df s) = slot_queue_available s"
  "slot_available_event (pfq_data_credit df s) = slot_available_event s"
  by (simp_all add: pfq_data_credit_def pfq_frame_def no_credits_def Let_def)

text \<open>No header of the slot has a size for which its stride is zero or wraps around.\<close>

definition slot_sane :: "memory \<Rightarrow> nat \<Rightarrow> bool" where
  "slot_sane m data \<longleftrightarrow> (\<forall>pos<4096. unat (hdr_size m (data + pos)) < 4294959104)"

lemma stride_steps:
  assumes "unat n < 4294959104" "unat pos < 4096"
  shows "unat pos < unat (pos + calc_stride n)"
proof -
  have st: "unat (calc_stride n) = (unat n + 15) div 8 * 8" by (rule unat_calc_stride) (use assms in simp)
  define k where "k = (unat n + 15) div 8 * 8"
  have "k + (unat n + 15) mod 8 = unat n + 15" unfolding k_def by (rule div_mult_mod_eq)
  moreover have "(unat n + 15) mod 8 < 8" by simp
  ultimately have k: "unat n + 8 \<le> k" "k \<le> unat n + 15" by linarith+
  have "unat pos + k < 2 ^ 32" using k(2) assms by simp
  then have "unat (pos + calc_stride n) = unat pos + k"
    using unat_add_small [of pos "calc_stride n"] by (simp add: st k_def)
  then show ?thesis using k(1) by simp
qed

lemma pfq_messages_returns:
  assumes "slot_sane (mem s) data"
  shows "\<exists>df' t. pfq_messages data pos sf df s = Some (df', t) \<and> pfq_frame s t \<and>
    slot_queue_available t = slot_queue_available s \<and> slot_available_event t = slot_available_event s"
  using assms
proof (induction "4096 - unat pos" arbitrary: pos sf df s rule: less_induct)
  case less
  show ?case
  proof (cases "pos < 4096")
    case True
    then have pos: "unat pos < 4096" by (simp add: word_less_nat_alt)
    obtain sf' df' t where h: "pfq_header (data + unat pos) sf df s = (sf', df', t)" by (metis surj_pair)
    note f = pfq_header_frame [OF h]
    have mem: "mem t = mem s" using pfq_frameD(1) [OF f(1)] .
    let ?next = "pos + calc_stride (hdr_size (mem s) (data + unat pos))"
    have "unat (hdr_size (mem s) (data + unat pos)) < 4294959104" using less.prems pos by (simp add: slot_sane_def)
    then have "unat pos < unat ?next" using pos by (rule stride_steps)
    then have "4096 - unat ?next < 4096 - unat pos" using pos by simp
    then obtain df'' u where "pfq_messages data ?next sf' df' t = Some (df'', u)" "pfq_frame t u"
      "slot_queue_available u = slot_queue_available t" "slot_available_event u = slot_available_event t"
      using less.hyps [of ?next t sf' df'] less.prems mem by auto
    then show ?thesis
      using True h mem f pfq_frame_trans [OF f(1)] by (subst pfq_messages.simps) simp
  next
    case False
    then show ?thesis by (subst pfq_messages.simps) simp
  qed
qed

lemma pfq_slots_returns:
  assumes "slot_queue_recycle (local s) = slot_queue_available s + of_nat e" "e < 2 ^ 32"
    and "\<forall>j<e. slot_sane (mem s) (slot_data (slot_at (local s) (slot_queue_available s + of_nat j)))"
  shows "\<exists>t. pfq_slots (slot_queue_available s) s = Some t \<and> pfq_frame s t \<and>
    slot_queue_available t = slot_queue_recycle (local s) \<and> slot_available_event t = slot_available_event s + e"
  using assms
proof (induction e arbitrary: s)
  case 0
  then show ?case by (subst pfq_slots.simps) simp
next
  case (Suc e)
  let ?a = "slot_queue_available s"
  have ne: "?a \<noteq> slot_queue_recycle (local s)"
  proof
    assume "?a = slot_queue_recycle (local s)"
    then have "of_nat (Suc e) = (0 :: u32)" using Suc.prems(1) by (simp only: add_cancel_right_right)
    then show False using unat_of_nat_small [OF Suc.prems(2)] by (simp only: unat_0)
  qed
  have "slot_sane (mem s) (slot_data (slot_at (local s) ?a))" using Suc.prems(3) [rule_format, of 0] by simp
  then obtain df t where m: "pfq_messages (slot_data (slot_at (local s) ?a)) 0 (\<lambda>_. False) False s = Some (df, t)" "pfq_frame s t"
      "slot_queue_available t = ?a" "slot_available_event t = slot_available_event s"
    using pfq_messages_returns by blast
  define u where "u = (pfq_data_credit df t)\<lparr>slot_queue_available := ?a + 1,
      slot_available_event := sem_up (slot_available_event (pfq_data_credit df t))\<rparr>"
  have u: "pfq_frame s u" "slot_queue_available u = ?a + 1" "slot_available_event u = slot_available_event s + 1"
  proof -
    have "no_credits u = no_credits (pfq_data_credit df t)" by (simp add: u_def no_credits_def)
    then show "pfq_frame s u" using pfq_frame_trans [OF m(2) pfq_data_credit_frame(1), of df] by (simp add: pfq_frame_def)
    show "slot_queue_available u = ?a + 1" by (simp add: u_def)
    show "slot_available_event u = slot_available_event s + 1" using m(4) by (simp add: u_def sem_up_def pfq_data_credit_frame)
  qed
  note same = pfq_frameD(1,2) [OF u(1)]
  have run: "pfq_slots ?a s = pfq_slots (slot_queue_available u) u"
    using ne m(1) by (subst pfq_slots.simps) (simp add: u_def Let_def)
  have "\<exists>v. pfq_slots (slot_queue_available u) u = Some v \<and> pfq_frame u v \<and>
    slot_queue_available v = slot_queue_recycle (local u) \<and> slot_available_event v = slot_available_event u + e"
  proof (rule Suc.IH)
    show "slot_queue_recycle (local u) = slot_queue_available u + of_nat e" using Suc.prems(1) u(2) same by simp
    show "\<forall>j<e. slot_sane (mem u) (slot_data (slot_at (local u) (slot_queue_available u + of_nat j)))"
    proof (intro allI impI)
      fix j assume "j < e"
      then have "slot_sane (mem s) (slot_data (slot_at (local s) (?a + of_nat (Suc j))))" using Suc.prems(3) by blast
      then show "slot_sane (mem u) (slot_data (slot_at (local u) (slot_queue_available u + of_nat j)))"
        using same u(2) by (simp add: add.assoc)
    qed
  qed (use Suc.prems(2) in simp)
  then obtain v where v: "pfq_slots (slot_queue_available u) u = Some v" "pfq_frame u v"
    "slot_queue_available v = slot_queue_recycle (local u)" "slot_available_event v = slot_available_event u + e" by blast
  show ?case using run v(1,3,4) u(3) same(2) pfq_frame_trans [OF u(1) v(2)] by (intro exI [of _ v]) simp
qed


text \<open>The other side has read the first slot and given it back, full of headers of size 0.\<close>

definition given_back :: vstate where
  "given_back = open_state\<lparr>local := (local open_state)\<lparr>tx_pos := 4096, slot_queue_recycle := 32,
       slot_queue := (slot_queue (local open_state))(31 := 34)\<rparr>,
     local_tx_pos := 4096, slot_available_event := 30, mem := (\<lambda>_. 0)\<rparr>"

lemma given_back_sane: "\<forall>j<1. slot_sane (mem given_back) (slot_data (slot_at (local given_back) (slot_queue_available given_back + of_nat j)))"
  by (simp add: given_back_def slot_sane_def hdr_size_def load32_def)

lemma given_back_window: "n \<le> 31 \<Longrightarrow> window (local given_back) 1 n"
proof -
  have "slot_queue (local open_state) i = 34 + i" if "i < 31" for i
    using boot_state_props(3) boot_slots_props(5,6) that by (simp add: open_state_def all_slots_free_def)
  then have "slot_queue (local given_back) ((1 + i) mod 64) = (if i = 30 then 34 else 35 + i)" if "i < 31" for i
    using that by (auto simp: given_back_def)
  then show "n \<le> 31 \<Longrightarrow> window (local given_back) 1 n" by (auto simp: window_def inj_on_def)
qed

lemma given_back_inv: "tx_inv 4096 [] given_back"
  using given_back_window [of 30]
  by (intro tx_inv_def [THEN iffD2] exI [of _ 0]) (simp add: tx_state_def slots_used_def given_back_def)




end
