(* ===== verification/Vchiq_Power.thy ===== *)
theory Vchiq_Power
  imports Vchiq_Transmit
begin

text \<open>
  The rest of vchiq_arm.c: the calls that name a service by its handle, the keepalive
  thread, the forced suspend; and what use counts and the two state machines guarantee.
\<close>

section \<open>Use and release by handle\<close>

definition use_by_handle ::
  "vchiq_ops \<Rightarrow> use_type \<Rightarrow> u32 \<Rightarrow> vstate sched \<Rightarrow> vstate \<Rightarrow> (vchiq_status \<times> vstate \<times> vstate sched) option" where
  "use_by_handle ops use_type h fs s = do {
     (service, s) \<leftarrow> find_service_by_handle h s;
     (case service of
        None \<Rightarrow> Some (VCHIQ_ERROR, s, fs)
      | Some p \<Rightarrow> do {
          (ret, s, fs) \<leftarrow> vchiq_use_internal (Some p) use_type fs s;
          s \<leftarrow> unlock_service ops p s;
          Some (ret, s, fs)
        })
   }"

definition vchiq_use_service_no_resume ::
  "vchiq_ops \<Rightarrow> u32 \<Rightarrow> vstate sched \<Rightarrow> vstate \<Rightarrow> (vchiq_status \<times> vstate \<times> vstate sched) option" where
  "vchiq_use_service_no_resume ops = use_by_handle ops USE_TYPE_SERVICE_NO_RESUME"

definition vchiq_use_service ::
  "vchiq_ops \<Rightarrow> u32 \<Rightarrow> vstate sched \<Rightarrow> vstate \<Rightarrow> (vchiq_status \<times> vstate \<times> vstate sched) option" where
  "vchiq_use_service ops = use_by_handle ops USE_TYPE_SERVICE"

definition vchiq_release_service :: "vchiq_ops \<Rightarrow> u32 \<Rightarrow> vstate \<Rightarrow> (vchiq_status \<times> vstate) option" where
  "vchiq_release_service ops h s = do {
     (service, s) \<leftarrow> find_service_by_handle h s;
     (case service of
        None \<Rightarrow> Some (VCHIQ_ERROR, s)
      | Some p \<Rightarrow> do {
          let (ret, s) = vchiq_release_internal (Some p) s;
          s \<leftarrow> unlock_service ops p s;
          Some (ret, s)
        })
   }"

section \<open>The keepalive thread\<close>

text \<open>
  One turn of its loop: wait for \<open>ka_evt\<close>, take the counters, and use and release the
  keepalive service that often. The emulation's wait cannot be interrupted.
\<close>

fun keepalive_uses :: "vchiq_ops \<Rightarrow> u32 \<Rightarrow> nat \<Rightarrow> vstate sched \<Rightarrow> vstate \<Rightarrow> (vstate \<times> vstate sched) option" where
  "keepalive_uses ops h 0 fs s = Some (s, fs)"
| "keepalive_uses ops h (Suc n) fs s = do {
     (_, s, fs) \<leftarrow> vchiq_use_service ops h fs (upd_arm (ka_use_ack_count_update (\<lambda>c. c + 1)) s);
     keepalive_uses ops h n fs s
   }"

fun keepalive_releases :: "vchiq_ops \<Rightarrow> u32 \<Rightarrow> nat \<Rightarrow> vstate \<Rightarrow> vstate option" where
  "keepalive_releases ops h 0 s = Some s"
| "keepalive_releases ops h (Suc n) s = do {
     (_, s) \<leftarrow> vchiq_release_service ops h s;
     keepalive_releases ops h n s
   }"

text \<open>The counters are only ever incremented elsewhere, so that they are not negative here.\<close>

definition keepalive_turn :: "vchiq_ops \<Rightarrow> u32 \<Rightarrow> vstate sched \<Rightarrow> vstate \<Rightarrow> (vstate \<times> vstate sched) option" where
  "keepalive_turn ops h fs s = do {
     (s, fs) \<leftarrow> sem_down (\<lambda>s. ka_evt (plat s)) (\<lambda>f. upd_arm (ka_evt_update f)) fs s;
     let rc = ka_release_count (plat s);
     let uc = ka_use_count (plat s);
     let s = upd_arm (\<lambda>a. a\<lparr>ka_release_count := 0, ka_use_count := 0\<rparr>) s;
     (s, fs) \<leftarrow> keepalive_uses ops h (nat uc) fs s;
     s \<leftarrow> keepalive_releases ops h (nat rc) s;
     Some (s, fs)
   }"

section \<open>Forced suspend\<close>

text \<open>
  A wait with a timeout: \<open>n\<close> is the number of yields before the deadline, which the clock
  decides. The result tells whether the completion was taken.
\<close>

fun timed_wait ::
  "(vstate \<Rightarrow> completion) \<Rightarrow> ((completion \<Rightarrow> completion) \<Rightarrow> vstate \<Rightarrow> vstate) \<Rightarrow> nat \<Rightarrow> vstate sched \<Rightarrow> vstate
    \<Rightarrow> (bool \<times> vstate \<times> vstate sched) option" where
  "timed_wait get upd n fs s =
     (if get s \<noteq> 0 then Some (True, upd (\<lambda>c. c - 1) s, fs)
      else case n of
             0 \<Rightarrow> Some (False, s, fs)
           | Suc n \<Rightarrow> (case fs of [] \<Rightarrow> None | f # fs \<Rightarrow> timed_wait get upd n fs (f s)))"

declare timed_wait.simps [simp del]

text \<open>The loop of \<open>block_resume\<close>; \<open>k\<close> more waits are allowed, \<open>clock\<close> gives their deadlines.\<close>

fun block_resume_wait :: "nat \<Rightarrow> (nat \<Rightarrow> nat) \<Rightarrow> vstate sched \<Rightarrow> vstate \<Rightarrow> (vchiq_status \<times> vstate \<times> vstate sched) option" where
  "block_resume_wait k clock fs s =
     (if vc_resume_state (plat s) \<noteq> VC_RESUME_RESUMED \<and> resume_val (vc_resume_state (plat s)) > resume_val VC_RESUME_IDLE
      then case k of
             0 \<Rightarrow> Some (VCHIQ_ERROR, s, fs)
           | Suc k \<Rightarrow> do {
               (ok, s, fs) \<leftarrow> timed_wait (\<lambda>s. vc_resume_complete (plat s)) (\<lambda>f. upd_arm (vc_resume_complete_update f)) (clock (Suc k)) fs s;
               if ok then block_resume_wait k clock fs s else Some (VCHIQ_ERROR, s, fs)
             }
      else Some (VCHIQ_SUCCESS, upd_arm (\<lambda>a. a\<lparr>resume_blocker := 0, resume_blocked := True\<rparr>) s, fs))"

declare block_resume_wait.simps [simp del]

definition block_resume :: "(nat \<Rightarrow> nat) \<Rightarrow> vstate sched \<Rightarrow> vstate \<Rightarrow> (vchiq_status \<times> vstate \<times> vstate sched) option" where
  "block_resume clock fs s = do {
     (ok, s, fs) \<leftarrow>
       (if blocked_count (plat s) \<noteq> 0
        then timed_wait (\<lambda>s. blocked_blocker (plat s)) (\<lambda>f. upd_arm (blocked_blocker_update f)) (clock 0) fs
               (upd_arm (blocked_blocker_update (\<lambda>_. 0)) s)
        else Some (True, s, fs));
     if \<not> ok then Some (VCHIQ_ERROR, s, fs) else block_resume_wait 2 clock fs s
   }"

text \<open>How \<open>vchiq_arm_force_suspend\<close> starts the suspend.\<close>

definition force_start :: "vstate \<Rightarrow> vstate" where
  "force_start s =
     (if suspend_val (vc_suspend_state (plat s)) \<le> suspend_val VC_SUSPEND_IDLE
      then let s = upd_arm stop_suspend_timer s
           in if \<not> vchiq_videocore_wanted (plat s) then vchiq_arm_vcsuspend s
              else if autosuspend_override (plat s) < 8 then s
              else vchiq_arm_vcsuspend s
      else s)"

text \<open>Its wait, repeated once if the suspend is under way.\<close>

definition force_timeout :: "vstate \<Rightarrow> vstate" where
  "force_timeout = upd_arm (autosuspend_override_update (\<lambda>n. n + 1))"

definition force_wait :: "(nat \<Rightarrow> nat) \<Rightarrow> vstate sched \<Rightarrow> vstate \<Rightarrow> (bool \<times> vstate \<times> vstate sched) option" where
  "force_wait clock fs s =
     (let wait = timed_wait (\<lambda>s. vc_suspend_complete (plat s)) (\<lambda>f. upd_arm (vc_suspend_complete_update f))
      in do {
        (done, s, fs) \<leftarrow> wait (clock 3) fs s;
        if done then Some (True, s, fs)
        else if suspend_val (vc_suspend_state (plat s)) > suspend_val VC_SUSPEND_IDLE
        then do {
          (done, s, fs) \<leftarrow> wait (clock 4) fs s;
          Some (if done then (True, s, fs) else (False, force_timeout s, fs))
        }
        else Some (False, force_timeout s, fs)
      })"

definition vchiq_arm_force_suspend ::
  "(nat \<Rightarrow> nat) \<Rightarrow> vstate sched \<Rightarrow> vstate \<Rightarrow> (vchiq_status \<times> vstate \<times> vstate sched) option" where
  "vchiq_arm_force_suspend clock fs s = do {
     (status, s, fs) \<leftarrow> block_resume clock fs s;
     if status \<noteq> VCHIQ_SUCCESS then Some (status, s, fs)
     else if vc_suspend_state (plat s) = VC_SUSPEND_SUSPENDED then Some (VCHIQ_SUCCESS, s, fs)
     else do {
       (done, s, fs) \<leftarrow> force_wait clock fs (force_start s);
       if \<not> done then Some (VCHIQ_RETRY, upd_arm unblock_resume s, fs)
       else if vc_suspend_state (plat s) \<noteq> VC_SUSPEND_SUSPENDED
       then let s = (if suspend_val (vc_suspend_state (plat s)) < suspend_val VC_SUSPEND_IDLE
                     then upd_arm (set_suspend_state VC_SUSPEND_IDLE) s else s)
            in Some (VCHIQ_RETRY, upd_arm unblock_resume s, fs)
       else Some (VCHIQ_SUCCESS, s, fs)
     }
   }"

text \<open>The timer of the automatic suspend has run out.\<close>

definition suspend_timer_callback :: "vstate \<Rightarrow> vstate" where
  "suspend_timer_callback s = vchiq_check_suspend s"

section \<open>A state that depends on the platform layer only\<close>

lemma timed_wait_inv:
  assumes "timed_wait get upd n fs s = Some (ok, t, gs)" "I s" "\<And>f x. f \<in> set fs \<Longrightarrow> I x \<Longrightarrow> I (f x)" "\<And>g x. I x \<Longrightarrow> I (upd g x)"
  shows "I t \<and> set gs \<subseteq> set fs"
  using assms(1-3)
proof (induction n arbitrary: fs s)
  case 0
  then show ?case using assms(4) by (subst (asm) timed_wait.simps) (auto split: if_splits)
next
  case (Suc n)
  show ?case
  proof (cases "get s \<noteq> 0")
    case True
    then show ?thesis using Suc.prems assms(4) by (subst (asm) timed_wait.simps) auto
  next
    case False
    then obtain f fs' where fs: "fs = f # fs'" "timed_wait get upd n fs' (f s) = Some (ok, t, gs)"
      using Suc.prems(1) by (subst (asm) timed_wait.simps) (auto split: list.splits)
    have "I t \<and> set gs \<subseteq> set fs'" by (rule Suc.IH [OF fs(2)]) (use Suc.prems(2,3) fs(1) in auto)
    then show ?thesis using fs by auto
  qed
qed

text \<open>A control message leaves the platform layer alone, but for what others do while it waits.\<close>

lemma reserve_space_plat:
  assumes "reserve_space stride False fs s = Some (h, t, gs)"
  shows "plat t = plat s \<and> gs = fs"
  using assms
  by (auto simp: reserve_space_def reserve_pad_def reserve_slot_def sem_trylock_def Let_def remote_event_signal_def
      bind_eq_Some_conv split: if_splits)

lemma control_message_keeps:
  fixes s t :: vstate
  assumes run: "queue_message None m [] 0 qm_nonblocking fs s = Some (status, t, gs)" "msg_type m \<noteq> MSG_DATA"
    and "I (plat s)" "\<And>f x. f \<in> set fs \<Longrightarrow> I (plat x) \<Longrightarrow> I (plat (f x))"
  shows "I (plat t) \<and> set gs \<subseteq> set fs"
proof -
  obtain s1 fs1 where lock: "mutex_acquire slot_mutex slot_mutex_update fs s = Some (s1, fs1)"
    and rest: "reserve_space (calc_stride 0) False fs1 s1 \<noteq> None"
    using run by (auto simp: queue_message_def bind_eq_Some_conv)
  have s1: "I (plat s1) \<and> set fs1 \<subseteq> set fs"
    using mutex_acquire_inv [where I = "\<lambda>x. I (plat x)", OF lock assms(3)] assms(4) by simp
  obtain h s2 fs2 where r: "reserve_space (calc_stride 0) False fs1 s1 = Some (h, s2, fs2)" using rest by auto
  note keep = reserve_space_plat [OF r]
  have written: "plat (snd (qm_write None m [] 0 a x)) = plat x" "fst (qm_write None m [] 0 a x)" for a and x :: vstate
    using run(2) by (simp_all add: qm_write_def Let_def)
  have published: "plat (qm_publish None m False x) = plat x" for x :: vstate
    by (simp add: qm_publish_def Let_def remote_event_signal_def mutex_release_def)
  have written': "plat y = plat x" if "qm_write None m [] 0 a x = (ok, y)" for a ok and x y :: vstate
    using written(1) [of a x] that by simp
  obtain ok y where y: "qm_write None m [] 0 (the h) s2 = (ok, y)" by (metis surj_pair)
  have "plat t = plat s2 \<and> gs = fs2"
    using run(1) run(2) lock r published written' [OF y] y
    by (cases h; cases ok) (auto simp: queue_message_def mutex_release_def Let_def)
  then show ?thesis using s1 keep by auto
qed

lemma send_remote_keeps:
  assumes "send_remote m fs s = Some (status, t, gs)" "m < 256" "m \<noteq> MSG_DATA"
    and "I (plat s)" "\<And>f x. f \<in> set fs \<Longrightarrow> I (plat x) \<Longrightarrow> I (plat (f x))"
  shows "I (plat t) \<and> set gs \<subseteq> set fs"
  using assms control_message_keeps [where I = I, of "make_msg m 0 0" fs s status t gs]
  by (auto simp: send_remote_def make_msg_parts split: if_splits)

lemma use_acknowledge_keeps:
  assumes "use_acknowledge n fs s = Some (t, gs)" "I (plat s)" "\<And>f x. f \<in> set fs \<Longrightarrow> I (plat x) \<Longrightarrow> I (plat (f x))"
    and "\<And>a g. I a \<Longrightarrow> I (ka_use_ack_count_update g a)"
  shows "I (plat t) \<and> set gs \<subseteq> set fs"
  using assms(1-3)
proof (induction n arbitrary: fs s)
  case (Suc n)
  obtain status s1 fs1 where send: "vchiq_send_remote_use_active fs s = Some (status, s1, fs1)"
    and rest: "(if status = VCHIQ_SUCCESS then use_acknowledge n fs1 s1
      else Some (upd_arm (ka_use_ack_count_update (\<lambda>c. c + Suc n)) s1, fs1)) = Some (t, gs)"
    using Suc.prems(1) by (auto simp: bind_eq_Some_conv)
  have s1: "I (plat s1) \<and> set fs1 \<subseteq> set fs"
    using send_remote_keeps [where I = I, of MSG_REMOTE_USE_ACTIVE fs s status s1 fs1] send Suc.prems(2,3)
    by (simp add: vchiq_send_remote_use_active_def)
  show ?case
  proof (cases "status = VCHIQ_SUCCESS")
    case True
    then have "I (plat t) \<and> set gs \<subseteq> set fs1" using rest s1 Suc.prems(3) by (intro Suc.IH) auto
    then show ?thesis using s1 by auto
  next
    case False
    then show ?thesis using rest s1 assms(4) by (auto simp: upd_arm_def)
  qed
qed simp

section \<open>Runs of the power management\<close>

text \<open>
  \<open>power_run s t\<close>: from \<open>s\<close> the program gets to \<open>t\<close> by calls that use and release the
  VideoCore, the hooks that the slot handler and the connection call, and steps that leave
  the platform layer alone. While a use waits, the other tasks make such runs as well.
  \<open>vchiq_arm_force_suspend\<close> is not among the calls: nothing in the program calls it.
\<close>

inductive power_run :: "vstate \<Rightarrow> vstate \<Rightarrow> bool" where
  refl: "power_run s s"
| use: "power_run s t \<Longrightarrow> vchiq_use_internal service use_type fs t = Some (status, u, gs) \<Longrightarrow>
    \<forall>f\<in>set fs. \<forall>x. power_run x (f x) \<Longrightarrow> power_run s u"
| release: "power_run s t \<Longrightarrow> power_run s (snd (vchiq_release_internal service t))"
| remote_use: "power_run s t \<Longrightarrow> power_run s (vchiq_on_remote_use t)"
| remote_release: "power_run s t \<Longrightarrow> power_run s (vchiq_on_remote_release t)"
| keepalive_count: "power_run s t \<Longrightarrow> power_run s (upd_arm (ka_use_ack_count_update (\<lambda>c. c + 1)) t)"
| keepalive_take: "power_run s t \<Longrightarrow> power_run s (upd_arm (\<lambda>a. a\<lparr>ka_release_count := 0, ka_use_count := 0\<rparr>) t)"
| check_suspend: "power_run s t \<Longrightarrow> power_run s (vchiq_check_suspend t)"
| slot_handler: "power_run s t \<Longrightarrow> power_run s (vchiq_platform_check_suspend t)"
| check_resume: "power_run s t \<Longrightarrow> power_run s (vchiq_platform_check_resume t)"
| connection: "power_run s t \<Longrightarrow> power_run s (vchiq_set_conn_state c t)"
| elsewhere: "power_run s t \<Longrightarrow> plat u = plat t \<Longrightarrow> power_run s u"

text \<open>The VideoCore is up and nobody is suspending it.\<close>

definition awake :: "arm_state \<Rightarrow> bool" where
  "awake a \<longleftrightarrow> \<not> resume_blocked a \<and> blocked_count a = 0 \<and> vc_suspend_state a = VC_SUSPEND_IDLE \<and>
     vc_resume_state a = VC_RESUME_RESUMED \<and> wake_address a = 0"

lemma awake_wanted: "awake a \<Longrightarrow> vchiq_videocore_wanted a"
  by (simp add: awake_def vchiq_videocore_wanted_def platform_videocore_wanted_def)

lemma awake_upd [simp]:
  "awake (ka_use_ack_count_update g a) = awake a" "awake (vc_resume_complete_update k a) = awake a"
  "awake (a\<lparr>videocore_use_count := n\<rparr>) = awake a" "awake (a\<lparr>peer_use_count := n\<rparr>) = awake a"
  by (simp_all add: awake_def)

text \<open>A use of the awake VideoCore.\<close>

definition used :: "nat option \<Rightarrow> use_type \<Rightarrow> vstate \<Rightarrow> vstate" where
  "used service use_type s =
     upd_arm (set_suspend_state VC_SUSPEND_IDLE)
       (upd_entity_use_count (if use_type = USE_TYPE_VCHIQ then None else service) (\<lambda>n. n + 1)
         (upd_arm (videocore_use_count_update (\<lambda>n. n + 1)) (upd_arm stop_suspend_timer s)))"

lemma used_awake:
  assumes "awake (plat s)"
  shows "awake (plat (used service use_type s))" "videocore_use_count (plat (used service use_type s)) = videocore_use_count (plat s) + 1"
    "vc_resume_complete (plat (used service use_type s)) = vc_resume_complete (plat s)"
    "ka_use_ack_count (plat (used service use_type s)) = ka_use_ack_count (plat s)"
  using assms
  by (auto simp: used_def awake_def upd_arm_def upd_entity_use_count_def upd_service_def stop_suspend_timer_def Let_def
      split: option.split)

lemma use_internal_awake:
  assumes "awake (plat s)" "use_type = USE_TYPE_VCHIQ \<or> service \<noteq> None"
  shows "vchiq_use_internal service use_type fs s = do {
     let s = used service use_type s;
     (s, fs) \<leftarrow> sem_down (\<lambda>s. vc_resume_complete (plat s)) (\<lambda>f. upd_arm (vc_resume_complete_update f)) fs s;
     (s, fs) \<leftarrow> use_acknowledge (ka_use_ack_count (plat s)) fs (upd_arm (ka_use_ack_count_update (\<lambda>_. 0)) s);
     Some (VCHIQ_SUCCESS, s, fs)
   }"
proof -
  define e where "e = (if use_type = USE_TYPE_VCHIQ then None else service)"
  define x where "x = upd_entity_use_count e (\<lambda>n. n + 1) (upd_arm (videocore_use_count_update (\<lambda>n. n + 1)) (upd_arm stop_suspend_timer s))"
  have used: "used service use_type s = upd_arm (set_suspend_state VC_SUSPEND_IDLE) x" by (simp add: used_def x_def e_def)
  have "\<not> resume_blocked (plat s)" using assms(1) by (simp add: awake_def)
  then have wait: "use_wait_unblocked fs s = Some (s, fs)" by (subst use_wait_unblocked.simps) simp
  have "vc_suspend_state (plat x) = VC_SUSPEND_IDLE"
    using assms(1) by (auto simp: x_def awake_def upd_arm_def upd_entity_use_count_def upd_service_def stop_suspend_timer_def split: option.split)
  then have low: "suspend_val (vc_suspend_state (plat x)) \<le> suspend_val VC_SUSPEND_REQUESTED" by simp
  have up: "\<not> need_resume (plat (used service use_type s))"
    using used_awake(1) [OF assms(1), of service use_type] by (simp add: need_resume_def awake_def)
  have known: "\<not> (use_type \<noteq> USE_TYPE_VCHIQ \<and> service = None)" using assms(2) by blast
  show ?thesis
    unfolding vchiq_use_internal_def if_not_P [OF known] e_def [symmetric] wait Option.bind.bind_lunit prod.case Let_def x_def [symmetric]
      if_P [OF low] used [symmetric]
    using up by (cases "vc_resume_complete (plat (used service use_type s)) = 0") (simp_all add: sem_down_now)
qed

text \<open>What a run keeps: the VideoCore awake, and no use count falls.\<close>

lemma power_run_keeps:
  "power_run s t \<Longrightarrow> awake (plat s) \<Longrightarrow> awake (plat t) \<and> videocore_use_count (plat s) \<le> videocore_use_count (plat t)"
proof (induction rule: power_run.induct)
  case (use s t service use_type fs status u gs)
  then have t: "awake (plat t)" "videocore_use_count (plat s) \<le> videocore_use_count (plat t)" by simp_all
  define c where "c = videocore_use_count (plat s)"
  define I where "I a = (awake a \<and> c \<le> videocore_use_count a)" for a
  have rely: "I (plat (f x))" if "f \<in> set fs" "I (plat x)" for f x
  proof -
    have "power_run x (f x)" "awake (plat x) \<longrightarrow> awake (plat (f x)) \<and> videocore_use_count (plat x) \<le> videocore_use_count (plat (f x))"
      using use that by blast+
    then show ?thesis using that(2) by (auto simp: I_def)
  qed
  show ?case
  proof (cases "use_type = USE_TYPE_VCHIQ \<or> service \<noteq> None")
    case False
    then have "u = t" using use.hyps(2) by (simp add: vchiq_use_internal_def)
    then show ?thesis using t by simp
  next
    case True
    obtain v fs' where v: "sem_down (\<lambda>s. vc_resume_complete (plat s)) (\<lambda>f. upd_arm (vc_resume_complete_update f)) fs
        (used service use_type t) = Some (v, fs')"
      and ack: "use_acknowledge (ka_use_ack_count (plat v)) fs' (upd_arm (ka_use_ack_count_update (\<lambda>_. 0)) v) = Some (u, gs)"
      using use.hyps(2) unfolding use_internal_awake [OF t(1) True]
      by (auto simp: bind_eq_Some_conv)
    have "I (plat (used service use_type t))" using used_awake [OF t(1)] t(2) by (simp add: I_def c_def)
    then have "I (plat v) \<and> set fs' \<subseteq> set fs"
      by (rule sem_down_inv [where I = "\<lambda>x. I (plat x)", OF v]) (use rely in \<open>auto simp: I_def upd_arm_def\<close>)
    then have "I (plat u) \<and> set gs \<subseteq> set fs'"
      using rely by (intro use_acknowledge_keeps [where I = I, OF ack]) (auto simp: I_def upd_arm_def)
    then show ?thesis by (simp add: I_def c_def)
  qed
next
  case (release s t service)
  then show ?case using awake_wanted [of "plat t"] by (simp add: vchiq_release_internal_def)
next
  case (check_suspend s t)
  then show ?case using awake_wanted [of "plat t"] by (simp add: vchiq_check_suspend_def)
qed (simp_all add: vchiq_on_remote_use_def vchiq_on_remote_release_def upd_arm_def awake_def vchiq_platform_check_suspend_def
    vchiq_platform_check_resume_def vchiq_set_conn_state_def vchiq_platform_conn_state_changed_def)

lemma init_awake:
  assumes "vchiq_init_state ident spawned z master old = Some (status, Inr s)"
  shows "awake (plat s)" "vc_resume_complete (plat s) = complete_all" "ka_use_ack_count (plat s) = 0"
    "videocore_use_count (plat s) = 0" "vc_suspend_complete (plat s) = 0"
proof -
  have "\<exists>a :: arm_state. plat s = vchiq_arm_init_state (zero_arm (pagelists a))"
    using assms
    by (auto simp: vchiq_init_state_def Let_def bind_eq_Some_conv vchiq_platform_init_state_def upd_arm_def split: if_splits prod.splits; intro exI refl)
  then obtain a :: arm_state where "plat s = vchiq_arm_init_state (zero_arm (pagelists a))" by blast
  then show "awake (plat s)" "vc_resume_complete (plat s) = complete_all" "ka_use_ack_count (plat s) = 0"
    "videocore_use_count (plat s) = 0" "vc_suspend_complete (plat s) = 0"
    by (simp_all add: vchiq_arm_init_state_def zero_arm_def awake_def Let_def)
qed

lemmas boot_power = init_awake [OF boot_state_props(1)]


text \<open>A run: the peer's use, a service's use of the VideoCore, two releases.\<close>

definition used_state :: vstate where
  "used_state = (let s = vchiq_on_remote_use boot_state;
       s = (case vchiq_use_internal None USE_TYPE_VCHIQ [] s of Some (_, t, _) \<Rightarrow> t | None \<Rightarrow> s);
       s = snd (vchiq_release_internal None s)
     in snd (vchiq_release_internal None s))"

lemma used_state_run: "power_run boot_state used_state"
proof -
  let ?s = "vchiq_on_remote_use boot_state"
  have s: "power_run boot_state ?s" by (rule power_run.remote_use [OF power_run.refl])
  have "power_run boot_state (case vchiq_use_internal None USE_TYPE_VCHIQ [] ?s of Some (_, t, _) \<Rightarrow> t | None \<Rightarrow> ?s)"
  proof (cases "vchiq_use_internal None USE_TYPE_VCHIQ [] ?s")
    case (Some r)
    then obtain st t gs where r: "vchiq_use_internal None USE_TYPE_VCHIQ [] ?s = Some (st, t, gs)" by (metis surj_pair)
    have "power_run boot_state t" by (rule power_run.use [OF s r]) simp
    then show ?thesis by (simp add: r)
  qed (simp add: s)
  then show ?thesis unfolding used_state_def Let_def by (rule power_run.release [THEN power_run.release])
qed


text \<open>
  Use counts never fall: \<open>vchiq_release_internal\<close> does not decrement them (the statements are
  commented out), so that after any run the VideoCore's count is at least what it was.
\<close>

theorem use_counts_never_fall:
  assumes "power_run s t" and "awake (plat s)"
  shows "videocore_use_count (plat s) \<le> videocore_use_count (plat t)"
  using power_run_keeps [OF assms] by blast

lemma use_counts_never_fall_witness:
  "videocore_use_count (plat (vchiq_on_remote_use boot_state)) = 0 \<and> 0 \<le> videocore_use_count (plat used_state)"
  using use_counts_never_fall [OF used_state_run boot_power(1)] boot_power(4)
  by (simp add: vchiq_on_remote_use_def upd_arm_def)

text \<open>
  A use of the awake VideoCore does not wait while completions are left and no
  acknowledgement is due: it returns \<open>VCHIQ_SUCCESS\<close> at once and counts one use.
\<close>

theorem use_returns_at_once:
  assumes "awake (plat s)" and "vc_resume_complete (plat s) \<noteq> 0" and "ka_use_ack_count (plat s) = 0"
    and "use_type = USE_TYPE_VCHIQ \<or> service \<noteq> None"
  shows "\<exists>t. vchiq_use_internal service use_type fs s = Some (VCHIQ_SUCCESS, t, fs) \<and> awake (plat t) \<and>
    videocore_use_count (plat t) = videocore_use_count (plat s) + 1 \<and>
    vc_resume_complete (plat t) = vc_resume_complete (plat s) - 1"
  using used_awake [OF assms(1), of service use_type] assms(2,3)
  unfolding use_internal_awake [OF assms(1,4)]
  by (simp add: sem_down_now upd_arm_def)

lemma use_returns_at_once_witness:
  "\<exists>t. vchiq_use_internal None USE_TYPE_VCHIQ [] boot_state = Some (VCHIQ_SUCCESS, t, []) \<and>
     awake (plat t) \<and> videocore_use_count (plat t) = 1"
  using use_returns_at_once [OF boot_power(1), of USE_TYPE_VCHIQ None "[]"] boot_power by (auto simp: complete_all_def)

section \<open>The outcome of a forced suspend\<close>

lemma block_resume_wait_outcome:
  assumes "block_resume_wait k clock fs s = Some (status, t, gs)"
  shows "(status = VCHIQ_SUCCESS \<and> resume_blocked (plat t) \<or> status = VCHIQ_ERROR) \<and> set gs \<subseteq> set fs"
  using assms
proof (induction k arbitrary: fs s)
  case 0
  then show ?case by (subst (asm) block_resume_wait.simps) (auto simp: upd_arm_def split: if_splits)
next
  case (Suc k)
  show ?case
  proof (cases "vc_resume_state (plat s) \<noteq> VC_RESUME_RESUMED \<and> resume_val (vc_resume_state (plat s)) > resume_val VC_RESUME_IDLE")
    case False
    then show ?thesis using Suc.prems by (subst (asm) block_resume_wait.simps) (auto simp: upd_arm_def split: if_splits)
  next
    case True
    obtain ok u fs' where u: "timed_wait (\<lambda>s. vc_resume_complete (plat s)) (\<lambda>f. upd_arm (vc_resume_complete_update f)) (clock (Suc k)) fs s = Some (ok, u, fs')"
      and rest: "(if ok then block_resume_wait k clock fs' u else Some (VCHIQ_ERROR, u, fs')) = Some (status, t, gs)"
      using Suc.prems True by (subst (asm) block_resume_wait.simps) (auto simp: bind_eq_Some_conv)
    have "set fs' \<subseteq> set fs" using timed_wait_inv [where I = "\<lambda>_. True", OF u] by simp
    then show ?thesis using rest Suc.IH [of fs' u] by (auto split: if_splits)
  qed
qed

lemma block_resume_outcome:
  assumes "block_resume clock fs s = Some (status, t, gs)"
  shows "(status = VCHIQ_SUCCESS \<and> resume_blocked (plat t) \<or> status = VCHIQ_ERROR) \<and> set gs \<subseteq> set fs"
proof -
  obtain ok u fs' where u: "(if blocked_count (plat s) \<noteq> 0
      then timed_wait (\<lambda>s. blocked_blocker (plat s)) (\<lambda>f. upd_arm (blocked_blocker_update f)) (clock 0) fs
        (upd_arm (blocked_blocker_update (\<lambda>_. 0)) s)
      else Some (True, s, fs)) = Some (ok, u, fs')"
    and rest: "(if \<not> ok then Some (VCHIQ_ERROR, u, fs') else block_resume_wait 2 clock fs' u) = Some (status, t, gs)"
    using assms by (auto simp: block_resume_def bind_eq_Some_conv)
  have "set fs' \<subseteq> set fs" using u timed_wait_inv [where I = "\<lambda>_. True"] by (auto split: if_splits)
  then show ?thesis using rest block_resume_wait_outcome by (fastforce split: if_splits)
qed

lemma force_start_blocked: "resume_blocked (plat (force_start s)) = resume_blocked (plat s)"
  by (auto simp: force_start_def vchiq_arm_vcsuspend_def request_poll_def upd_arm_def stop_suspend_timer_def upd_service_def Let_def
      split: suspend_status.split)

lemma force_wait_blocked:
  assumes "force_wait clock fs s = Some (ok, t, gs)" "resume_blocked (plat s)"
    and "\<forall>f\<in>set fs. \<forall>x. resume_blocked (plat x) \<longrightarrow> resume_blocked (plat (f x))"
  shows "resume_blocked (plat t)"
proof -
  have wait: "resume_blocked (plat y) \<and> set hs' \<subseteq> set hs"
    if "timed_wait (\<lambda>s. vc_suspend_complete (plat s)) (\<lambda>f. upd_arm (vc_suspend_complete_update f)) n hs x = Some (b, y, hs')"
      "resume_blocked (plat x)" "set hs \<subseteq> set fs" for n hs x b y hs'
    by (rule timed_wait_inv [where I = "\<lambda>s. resume_blocked (plat s)", OF that(1)]) (use that assms(3) in \<open>auto simp: upd_arm_def\<close>)
  obtain b u fs' where u: "timed_wait (\<lambda>s. vc_suspend_complete (plat s)) (\<lambda>f. upd_arm (vc_suspend_complete_update f)) (clock 3) fs s = Some (b, u, fs')"
    using assms(1) by (auto simp: force_wait_def Let_def bind_eq_Some_conv)
  have "resume_blocked (plat u) \<and> set fs' \<subseteq> set fs" using wait [OF u assms(2)] by simp
  then show ?thesis
    using assms(1) u wait [of "clock 4" fs' u]
    by (auto simp: force_wait_def Let_def bind_eq_Some_conv force_timeout_def upd_arm_def split: if_splits)
qed

text \<open>
  C15. Whatever the other tasks do meanwhile, as long as they do not unblock resuming: when
  \<open>vchiq_arm_force_suspend\<close> returns \<open>VCHIQ_SUCCESS\<close> the VideoCore is suspended and resuming is
  blocked; \<open>VCHIQ_RETRY\<close> leaves resuming unblocked.
\<close>

theorem force_suspend_outcome:
  assumes "vchiq_arm_force_suspend clock fs s = Some (status, t, gs)"
    and "\<forall>f\<in>set fs. \<forall>x. resume_blocked (plat x) \<longrightarrow> resume_blocked (plat (f x))"
  shows "(status = VCHIQ_SUCCESS \<longrightarrow> vc_suspend_state (plat t) = VC_SUSPEND_SUSPENDED \<and> resume_blocked (plat t)) \<and>
    (status = VCHIQ_RETRY \<longrightarrow> \<not> resume_blocked (plat t))"
proof -
  obtain st u fs' where u: "block_resume clock fs s = Some (st, u, fs')"
    using assms(1) by (auto simp: vchiq_arm_force_suspend_def bind_eq_Some_conv)
  note block = block_resume_outcome [OF u]
  show ?thesis
  proof (cases "st \<noteq> VCHIQ_SUCCESS \<or> vc_suspend_state (plat u) = VC_SUSPEND_SUSPENDED")
    case True
    then show ?thesis using assms(1) u block by (auto simp: vchiq_arm_force_suspend_def)
  next
    case False
    then obtain ok v gs' where v: "force_wait clock fs' (force_start u) = Some (ok, v, gs')"
      using assms(1) u by (auto simp: vchiq_arm_force_suspend_def bind_eq_Some_conv)
    have "resume_blocked (plat (force_start u))" using False block by (auto simp: force_start_blocked)
    then have "resume_blocked (plat v)" using force_wait_blocked [OF v] block assms(2) by blast
    then show ?thesis
      using assms(1) u v False
      by (auto simp: vchiq_arm_force_suspend_def upd_arm_def unblock_resume_def Let_def split: if_splits)
  qed
qed

text \<open>The VideoCore suspends while the caller waits; or nothing happens until the deadline.\<close>

definition vc_suspends :: "vstate \<Rightarrow> vstate" where
  "vc_suspends = upd_arm (set_suspend_state VC_SUSPEND_SUSPENDED)"

lemma force_suspend_runs:
  "\<exists>t. vchiq_arm_force_suspend (\<lambda>_. 1) [vc_suspends] boot_state = Some (VCHIQ_SUCCESS, t, [])"
  "\<exists>t. vchiq_arm_force_suspend (\<lambda>_. 1) [id, id] boot_state = Some (VCHIQ_RETRY, t, [])"
proof -
  define s1 where "s1 = upd_arm (\<lambda>a. a\<lparr>resume_blocker := 0, resume_blocked := True\<rparr>) boot_state"
  define s2 where "s2 = force_start s1"
  have block: "block_resume clock fs boot_state = Some (VCHIQ_SUCCESS, s1, fs)" for clock fs
    using boot_power(1) by (simp add: block_resume_def block_resume_wait.simps [of 2] awake_def s1_def)
  have s1: "vc_suspend_state (plat s1) = VC_SUSPEND_IDLE" "vc_suspend_complete (plat s1) = 0" "resume_blocked (plat s1)"
     "videocore_use_count (plat s1) = 0" "blocked_count (plat s1) = 0"
    using boot_power by (simp_all add: s1_def upd_arm_def awake_def)
  then have s2: "vc_suspend_state (plat s2) = VC_SUSPEND_REQUESTED" "vc_suspend_complete (plat s2) = 0"
    by (simp_all add: s2_def force_start_def stop_suspend_timer_def vchiq_videocore_wanted_def vchiq_arm_vcsuspend_def
        request_poll_def upd_arm_def Let_def)
  show "\<exists>t. vchiq_arm_force_suspend (\<lambda>_. 1) [vc_suspends] boot_state = Some (VCHIQ_SUCCESS, t, [])"
    using s1 s2 by (simp add: vchiq_arm_force_suspend_def block s2_def [symmetric] force_wait_def timed_wait.simps vc_suspends_def
        upd_arm_def complete_all_def Let_def)
  show "\<exists>t. vchiq_arm_force_suspend (\<lambda>_. 1) [id, id] boot_state = Some (VCHIQ_RETRY, t, [])"
    using s1 s2 by (simp add: vchiq_arm_force_suspend_def block s2_def [symmetric] force_wait_def timed_wait.simps)
qed

lemma force_suspend_outcome_witness:
  "\<exists>t u. vchiq_arm_force_suspend (\<lambda>_. 1) [vc_suspends] boot_state = Some (VCHIQ_SUCCESS, t, []) \<and> resume_blocked (plat t) \<and>
     vchiq_arm_force_suspend (\<lambda>_. 1) [id, id] boot_state = Some (VCHIQ_RETRY, u, []) \<and> \<not> resume_blocked (plat u)"
proof -
  obtain t u where t: "vchiq_arm_force_suspend (\<lambda>_. 1) [vc_suspends] boot_state = Some (VCHIQ_SUCCESS, t, [])"
    and u: "vchiq_arm_force_suspend (\<lambda>_. 1) [id, id] boot_state = Some (VCHIQ_RETRY, u, [])"
    using force_suspend_runs by blast
  then show ?thesis
    using force_suspend_outcome [OF t] force_suspend_outcome [OF u] by (auto simp: vc_suspends_def upd_arm_def)
qed

end
