(* ===== verification/Vchiq_Pagelist.thy ===== *)
theory Vchiq_Pagelist
  imports Vchiq_Transmit
begin

text \<open>
  What the page lists of bulk transfers say: reading the runs of a list back gives the pages
  of the buffer, in order.
\<close>

section \<open>Page arithmetic\<close>

lemma mask_4095: "(4095 :: u32) = mask 12"
  by (simp add: mask_eq_exp_minus_1)

lemma page_split:
  fixes x y :: u32
  assumes "x AND 4095 = 0" "y \<le> 4095"
  shows "(x + y) AND NOT 4095 = x" "(x + y) AND 4095 = y"
proof -
  have "unat (y AND (4096 - 1)) = unat y mod 2 ^ 12" by (rule unat_and_mask) simp
  moreover have "unat y < 4096" using assms(2) by (simp add: word_le_nat_alt)
  ultimately have "unat (y AND 4095) = unat y" by simp
  then have y: "y AND mask 12 = y" unfolding mask_4095 by (rule unsigned_word_eqI)
  have low: "\<not> bit x n" if "n < 12" for n
  proof -
    have "bit (x AND mask 12) n = bit (0 :: u32) n" using assms(1) by (simp only: mask_4095)
    then show ?thesis using that by (simp add: bit_simps)
  qed
  have high: "\<not> bit y n" if "12 \<le> n" for n
    using arg_cong [OF y, of "\<lambda>w. bit w n"] that by (simp add: bit_simps)
  have apart: "bit x n \<longleftrightarrow> bit x n \<and> \<not> n < 12" "bit y n \<longleftrightarrow> bit y n \<and> n < 12" for n
    using low [of n] high [of n] by (cases "n < 12"; auto)+
  have "x AND y = 0" by (rule bit_word_eqI) (use apart in \<open>auto simp: bit_simps\<close>)
  then have sum: "x + y = x OR y" by (rule disjunctive_add_eq_or)
  show "(x + y) AND NOT 4095 = x" "(x + y) AND 4095 = y"
    unfolding sum mask_4095 by (rule bit_word_eqI; use apart in \<open>auto simp: bit_simps\<close>)+
qed

lemma page_aligned_iff: "(x :: u32) AND 4095 = 0 \<longleftrightarrow> unat x mod 4096 = 0"
proof -
  have "unat (x AND (4096 - 1)) = unat x mod 2 ^ 12" by (rule unat_and_mask) simp
  then have "unat (x AND 4095) = unat x mod 4096" by simp
  then show ?thesis by (metis unat_eq_zero)
qed

lemma page_aligned_add: "(x :: u32) AND 4095 = 0 \<Longrightarrow> y AND 4095 = 0 \<Longrightarrow> (x + y) AND 4095 = 0"
proof -
  assume "x AND 4095 = 0" "y AND 4095 = 0"
  then have "(unat x + unat y) mod 2 ^ 12 = 0" by (simp add: page_aligned_iff mod_add_eq [symmetric])
  then have "(unat x + unat y) mod 2 ^ 32 mod 2 ^ 12 = 0" using mod_mod_pow2_le [of 12 32 "unat x + unat y"] by simp
  then show ?thesis unfolding page_aligned_iff by (simp add: unat_word_ariths)
qed

section \<open>Reading the runs back\<close>

definition expand_run :: "u32 \<Rightarrow> u32 list" where
  "expand_run a = map (\<lambda>k. (a AND NOT 4095) + of_nat (k * 4096)) [0..<unat (a AND 4095) + 1]"

definition expand_runs :: "u32 list \<Rightarrow> u32 list" where
  "expand_runs as = concat (map expand_run as)"

lemma expand_run_parts:
  assumes "x AND 4095 = 0" "n \<le> 4095"
  shows "expand_run (x + of_nat n) = map (\<lambda>k. x + of_nat (k * 4096)) [0..<n + 1]"
proof -
  have n: "unat (of_nat n :: u32) = n" by (rule unat_of_nat_small) (use assms(2) in simp)
  then have "(of_nat n :: u32) \<le> 4095" using assms(2) by (simp add: word_le_nat_alt)
  note page_split [OF assms(1) this]
  then show ?thesis by (simp add: expand_run_def n del: upt_Suc)
qed

lemma expand_group_pages:
  assumes "x AND 4095 = 0" "n \<le> 4095" "next = x + of_nat (Suc n * 4096)" "\<forall>a\<in>set as. a AND 4095 = 0"
  shows "expand_runs (group_pages x next (of_nat n) as) = map (\<lambda>k. x + of_nat (k * 4096)) [0..<n + 1] @ as"
  using assms
proof (induction as arbitrary: x "next" n)
  case Nil
  then show ?case using expand_run_parts [OF Nil.prems(1,2)] by (simp add: expand_runs_def del: upt_Suc)
next
  case (Cons a as)
  have n: "unat (of_nat n :: u32) = n" by (rule unat_of_nat_small) (use Cons.prems(2) in simp)
  show ?case
  proof (cases "a = next \<and> (of_nat n :: u32) < 4095")
    case True
    then have "Suc n \<le> 4095" using n by (simp add: word_less_nat_alt)
    then have "expand_runs (group_pages x (next + 4096) (of_nat (Suc n)) as) =
        map (\<lambda>k. x + of_nat (k * 4096)) [0..<Suc n + 1] @ as"
      by (intro Cons.IH) (use Cons.prems in \<open>simp_all add: algebra_simps\<close>)
    moreover have "a = x + of_nat (Suc n * 4096)" using True Cons.prems(3) by simp
    moreover have "group_pages x next (of_nat n) (a # as) = group_pages x (next + 4096) (of_nat (Suc n)) as"
      using True by (simp add: add.commute)
    ultimately show ?thesis by simp
  next
    case False
    have "expand_runs (group_pages a (a + 4096) (of_nat 0) as) = map (\<lambda>k. a + of_nat (k * 4096)) [0..<0 + 1] @ as"
      by (intro Cons.IH) (use Cons.prems in simp_all)
    then have "expand_runs (group_pages a (a + 4096) (of_nat 0) as) = a # as" by simp
    moreover have "group_pages x next (of_nat n) (a # as) = (x + of_nat n) # group_pages a (a + 4096) (of_nat 0) as"
      using False by auto
    ultimately show ?thesis
      using expand_run_parts [OF Cons.prems(1,2)] by (simp add: expand_runs_def del: upt_Suc)
  qed
qed

section \<open>The pages of a buffer\<close>

lemma page_aligned: "page_of buf i AND 4095 = 0" "arm_address (page_of buf i) AND 4095 = 0"
proof -
  show p: "page_of buf i AND 4095 = 0"
    unfolding page_of_def mask_4095 by (rule bit_word_eqI) (auto simp: bit_simps)
  show "arm_address (page_of buf i) AND 4095 = 0"
    unfolding arm_address_def by (rule page_aligned_add [OF p]) (simp add: gpu_mem_base_def)
qed

text \<open>The byte at offset \<open>j\<close> of the buffer is in page \<open>(offset + j) div 4096\<close>.\<close>

lemma byte_page: "(buf + of_nat j) AND NOT 4095 = page_of buf ((unat (buf AND 4095) + j) div 4096)"
proof -
  define base where "base = buf AND NOT 4095"
  define off where "off = buf AND 4095"
  let ?i = "(unat off + j) div 4096" and ?m = "(unat off + j) mod 4096"
  have "base AND off = 0" unfolding base_def off_def by (rule bit_word_eqI) (auto simp: bit_simps)
  then have "base + off = base OR off" by (rule disjunctive_add_eq_or)
  also have "\<dots> = buf" unfolding base_def off_def by (rule bit_word_eqI) (auto simp: bit_simps)
  finally have buf: "buf = base + off" by simp
  have base: "base AND 4095 = 0" unfolding base_def mask_4095 by (rule bit_word_eqI) (auto simp: bit_simps)
  have aligned: "(base + of_nat (i * 4096)) AND 4095 = 0" for i
  proof (rule page_aligned_add [OF base])
    have "i * 4096 mod 2 ^ 32 mod 2 ^ 12 = i * 4096 mod 2 ^ 12" by (rule mod_mod_pow2_le) simp
    then show "(of_nat (i * 4096) :: u32) AND 4095 = 0" unfolding page_aligned_iff by (simp add: unat_of_nat del: of_nat_mult)
  qed
  have off: "off \<le> 4095" unfolding off_def by (rule word_and_le1)
  have m: "(of_nat ?m :: u32) \<le> 4095" by (simp add: word_le_nat_alt unat_of_nat)
  have "buf + of_nat j = base + of_nat (unat off + j)" by (simp add: buf)
  also have "\<dots> = base + of_nat (?i * 4096 + ?m)" by (simp only: div_mult_mod_eq)
  also have "\<dots> = (base + of_nat (?i * 4096)) + of_nat ?m" by (simp only: of_nat_add add.assoc)
  finally have "(buf + of_nat j) AND NOT 4095 = base + of_nat (?i * 4096)"
    using page_split(1) [OF aligned m] by simp
  moreover have "page_of buf ?i = base + of_nat (?i * 4096)"
  proof -
    have "buf + of_nat (?i * 4096) = (base + of_nat (?i * 4096)) + off" by (simp only: buf add.assoc add.commute [of off])
    then show ?thesis unfolding page_of_def using page_split(1) [OF aligned off] by (simp only:)
  qed
  ultimately show ?thesis by (simp add: off_def)
qed

text \<open>
  C16. The page list of a buffer describes exactly its pages: reading its runs back gives the
  bus addresses of the pages from the first byte of the buffer to the last, in order, and
  byte \<open>j\<close> of the buffer is at its place in them.
\<close>

theorem create_pagelist_covers:
  assumes "0 < unat count + unat (buf AND 4095)" and "unat count + 8190 < 2 ^ 32"
  shows "let pl = create_pagelist buf count ty uninit; ps = expand_runs (pl_addrs pl); off = unat (buf AND 4095) in
    ps = map (\<lambda>i. arm_address (page_of buf i)) [0..<(unat count + off + 4095) div 4096] \<and>
    (\<forall>j<unat count. ps ! ((off + j) div 4096) = arm_address ((buf + of_nat j) AND NOT 4095)) \<and>
    unat (pl_offset pl) = off \<and> pl_length pl = count"
proof -
  define off where "off = buf AND 4095"
  define n where "n = (unat count + unat off + 4095) div 4096"
  have off: "unat off \<le> 4095" using word_and_le1 [of buf 4095] by (simp add: off_def word_le_nat_alt)
  have "unat (count + off + 4096 - 1) = unat count + unat off + 4095"
  proof -
    have "count + off + 4096 - 1 = of_nat (unat count + unat off + 4095)" by simp
    then show ?thesis using off assms(2) by (simp only: unat_of_nat_small)
  qed
  then have num: "unat ((count + off + 4096 - 1) div 4096) = n" by (simp add: unat_div n_def)
  have "0 < n" using assms(1) off by (auto simp: n_def off_def div_greater_zero_iff Suc_le_eq)
  then have pages: "map (page_of buf) [0..<n] = page_of buf 0 # map (page_of buf) [1..<n]"
    by (simp add: upt_conv_Cons)
  let ?x = "arm_address (page_of buf 0)" and ?rest = "map (\<lambda>i. arm_address (page_of buf i)) [1..<n]"
  have addrs: "pl_addrs (create_pagelist buf count ty uninit) = group_pages ?x (?x + 4096) (of_nat 0) ?rest"
    unfolding create_pagelist_def Let_def off_def [symmetric] num pages by (simp add: comp_def)
  have "expand_runs (group_pages ?x (?x + 4096) (of_nat 0) ?rest) = map (\<lambda>k. ?x + of_nat (k * 4096)) [0..<0 + 1] @ ?rest"
    by (rule expand_group_pages) (auto simp: page_aligned)
  also have "\<dots> = ?x # ?rest" by simp
  also have "\<dots> = map (\<lambda>i. arm_address (page_of buf i)) [0..<n]"
    using \<open>0 < n\<close> by (simp add: upt_conv_Cons)
  finally have ps: "expand_runs (pl_addrs (create_pagelist buf count ty uninit)) = map (\<lambda>i. arm_address (page_of buf i)) [0..<n]"
    by (simp only: addrs)
  have byte: "map (\<lambda>i. arm_address (page_of buf i)) [0..<n] ! ((unat off + j) div 4096) = arm_address ((buf + of_nat j) AND NOT 4095)"
    if "j < unat count" for j
  proof -
    have "unat off + j + 4096 \<le> unat count + unat off + 4095" using that by simp
    then have "(unat off + j + 4096) div 4096 \<le> n" unfolding n_def by (rule div_le_mono)
    then have "(unat off + j) div 4096 < n" by simp
    then show ?thesis using byte_page [of buf j] by (simp add: off_def)
  qed
  have "unat (ucast off :: u16) = unat off"
    using off by (simp add: unsigned_ucast_eq take_bit_nat_eq_self)
  then show ?thesis
    using ps byte unfolding Let_def n_def off_def by (simp add: create_pagelist_def Let_def)
qed

lemma create_pagelist_covers_witness:
  "expand_runs (pl_addrs (create_pagelist 0x10FF0 8192 PAGELIST_READ 0)) = [0x40010000, 0x40011000, 0x40012000] \<and>
    length (pl_addrs (create_pagelist 0x10FF0 8192 PAGELIST_READ 0)) = 1"
  using create_pagelist_covers [of 8192 "0x10FF0" PAGELIST_READ 0]
  by (simp add: Let_def upt_conv_Cons arm_address_def page_of_def gpu_mem_base_def create_pagelist_def)

text \<open>
  An empty buffer on a page boundary has no page, and its page list is then made of what
  the uninitialised first entry of the array of pages holds.
\<close>

theorem create_pagelist_empty:
  "pl_addrs (create_pagelist (of_nat (k * 4096)) 0 ty uninit) = [arm_address uninit]"
proof -
  have "k * 4096 mod 2 ^ 32 mod 2 ^ 12 = k * 4096 mod 2 ^ 12" by (rule mod_mod_pow2_le) simp
  then have "(of_nat (k * 4096) :: u32) AND 4095 = 0" unfolding page_aligned_iff by (simp add: unat_of_nat del: of_nat_mult)
  then have "unat ((0 + ((of_nat (k * 4096) :: u32) AND 4095) + 4096 - 1) div 4096) = 0" by simp
  then show ?thesis unfolding create_pagelist_def Let_def by (simp del: of_nat_mult)
qed

section \<open>Aborting\<close>

lemma abort_step:
  assumes "process q = remote_insert q"
  shows "process q \<noteq> local_insert q \<Longrightarrow> abort_loop dir (q, h) =
    abort_loop dir ((upd_bulk (bulk_index (process q)) (\<lambda>b. b\<lparr>b_remote_data := NULL, b_remote_size := 0\<rparr>) q)
      \<lparr>remote_insert := remote_insert q + 1, process := process q + 1\<rparr>, h)"
  using assms by (subst abort_loop.simps) (simp add: abort_round_def upd_bulk_def vchiq_complete_bulk_def Let_def)

lemma abort_drains:
  assumes "process q = remote_insert q" "unat (local_insert q - process q) = n"
  shows "let (q', h') = abort_loop dir (q, h) in
    process q' = local_insert q \<and> remote_insert q' = local_insert q \<and> local_insert q' = local_insert q \<and>
    remove q' = remove q \<and> h' = h \<and> (\<forall>i. b_actual (bulks q' i) = b_actual (bulks q i))"
  using assms
proof (induction n arbitrary: q)
  case 0
  then have "process q = local_insert q" by (simp add: unat_eq_zero)
  then show ?case using 0 by (subst abort_loop.simps) simp
next
  case (Suc n)
  let ?q = "(upd_bulk (bulk_index (process q)) (\<lambda>b. b\<lparr>b_remote_data := NULL, b_remote_size := 0\<rparr>) q)
      \<lparr>remote_insert := remote_insert q + 1, process := process q + 1\<rparr>"
  have ne: "process q \<noteq> local_insert q" using Suc.prems(2) by auto
  have "let (q', h') = abort_loop dir (?q, h) in
    process q' = local_insert ?q \<and> remote_insert q' = local_insert ?q \<and> local_insert q' = local_insert ?q \<and>
    remove q' = remove ?q \<and> h' = h \<and> (\<forall>i. b_actual (bulks q' i) = b_actual (bulks ?q i))"
    by (rule Suc.IH) (use Suc.prems unat_diff_Suc [of "local_insert q" "process q"] ne in \<open>auto simp: upd_bulk_def\<close>)
  then show ?case using abort_step [OF Suc.prems(1) ne, of dir h] by (auto simp: upd_bulk_def Let_def split: prod.splits)
qed

text \<open>
  \<open>abort_outstanding_bulks\<close> ends with the queue drained and leaks: the bulks that the other
  side has not completed (on this side all the outstanding ones) lose their \<open>remote_data\<close>
  before \<open>vchiq_complete_bulk\<close> looks at it, so that no page list is freed.
\<close>

theorem abort_leaks:
  assumes "process q = remote_insert q"
  shows "let (q', h') = abort_loop dir (q, h) in
    process q' = local_insert q \<and> remote_insert q' = local_insert q \<and> local_insert q' = local_insert q \<and>
    remove q' = remove q \<and> h' = h \<and> (\<forall>i. b_actual (bulks q' i) = b_actual (bulks q i))"
  by (rule abort_drains [OF assms refl])

text \<open>A receive queue with one outstanding bulk, whose page list is at address 64.\<close>

definition waiting_bulk :: bulk where
  "waiting_bulk = \<lparr>b_mode = BULK_MODE_BLOCKING, b_dir = BULK_RECEIVE, b_userdata = 8, b_handle = 0, b_data = 1073741888,
     b_size = 100, b_remote_data = 64, b_remote_size = 0, b_actual = BULK_ACTUAL_ABORTED\<rparr>"

definition waiting_queue :: bulk_queue where
  "waiting_queue = \<lparr>local_insert = 8, remote_insert = 7, process = 7, remote_notify = 7, remove = 7, bulks = (\<lambda>_. waiting_bulk)\<rparr>"

lemma abort_leaks_witness:
  "snd (abort_loop BULK_RECEIVE (waiting_queue, [64 \<mapsto> create_pagelist 4096 100 PAGELIST_READ 0])) 64 \<noteq> None \<and>
   vchiq_complete_bulk waiting_bulk [64 \<mapsto> create_pagelist 4096 100 PAGELIST_READ 0] 64 = None"
  using abort_leaks [of waiting_queue BULK_RECEIVE "[64 \<mapsto> create_pagelist 4096 100 PAGELIST_READ 0]"]
  by (auto simp: waiting_queue_def waiting_bulk_def vchiq_complete_bulk_def Let_def split: prod.splits)

end
