(* ===== verification/Vchiq_Retry.thy ===== *)
theory Vchiq_Retry
  imports Vchiq_Deliver
begin

text \<open>
  What becomes of a data message whose callback answers \<open>VCHIQ_RETRY\<close>.
\<close>

definition refuses :: "vchiq_ops \<Rightarrow> bool" where
  "refuses ops \<longleftrightarrow> (\<forall>cb h hd s. op_callback ops cb MESSAGE_AVAILABLE (Some h) hd NULL s = (VCHIQ_RETRY, s))"

text \<open>The reader stays at the message, which is marked as claimed.\<close>

lemma rx_refused:
  assumes ref: "refuses ops" and st: "rx_state k d w (m # ms) s" and free: "\<not> recycle_mutex s"
    and type: "msg_type (fst m) = MSG_DATA"
    and sv: "services s p = Some sv" "p = msg_dstport (fst m)" "srvstate sv = SRV_OPEN" "remoteport sv = msg_srcport (fst m)" "0 < ref_count sv"
  shows "\<exists>t. rx_message ops fs s = Some (False, t, fs) \<and> waiters t = waiters s \<and> remote t = remote s \<and> rx_pos t = rx_pos s \<and>
    rx_data t = Some (slot_data (rx_slot k s)) \<and> rx_info t = rx_slot k s \<and> \<not> recycle_mutex t \<and>
    mem t = set_hdr_msgid (naddr (remote s) k) (fst m OR MSGID_CLAIMED) (mem s)"
proof -
  have pos: "rx_pos s = of_nat k" using st by (simp add: rx_state_def)
  have ms: "stream (mem s) (remote s) k d = Some (m # ms)" using st by (simp add: rx_state_def)
  let ?h = "naddr (remote s) k"
  define s1 where "s1 = rx_open_slot s"
  have s1: "s1 = s\<lparr>rx_data := Some (slot_data (rx_slot k s)), rx_info := rx_slot k s, slot_infos := slot_infos s1\<rparr>"
    unfolding s1_def by (rule rx_state_open [OF st]) simp
  have s1f: "services s1 = services s" "waiters s1 = waiters s" "remote s1 = remote s" "mem s1 = mem s" "rx_pos s1 = rx_pos s"
    "rx_data s1 = Some (slot_data (rx_slot k s))" "rx_info s1 = rx_slot k s" "recycle_mutex s1 = recycle_mutex s"
    by (subst s1, simp)+
  have m: "hdr_msgid (mem s) ?h = fst m" using stream_ConsD(3) [OF ms] by (simp add: msg_at_def)
  have h: "the (rx_data s1) + slot_offset (rx_pos s1) = ?h"
    by (simp add: s1f pos slot_offset_of_nat naddr_def slot_data_def rx_slot_def)
  define s2 where "s2 = upd_service p (ref_count_update (\<lambda>n. n + 1)) s1"
  have s2: "services s2 p = Some (sv\<lparr>ref_count := ref_count sv + 1\<rparr>)" "mem s2 = mem s"
    using sv(1) by (simp_all add: s2_def upd_service_def s1f)
  define s3 where "s3 = claim_slot (rx_info s2) (s2\<lparr>mem := set_hdr_msgid ?h (fst m OR MSGID_CLAIMED) (mem s2)\<rparr>)"
  have s3: "services s3 = services s2" by (simp add: s3_def claim_slot_def upd_slot_info_def)
  define t where "t = upd_service p (ref_count_update (\<lambda>n. n - 1)) s3"
  have find: "rx_find_service ops MSG_DATA p (msg_srcport (fst m)) s1 = Some (True, Some p, s2)"
    using sv dstport_small [of "fst m"]
    by (simp add: rx_find_service_def service_msg_def find_service_by_port_def find_service_def s2_def upd_service_def s1f)
  have call: "make_service_callback ops p MESSAGE_AVAILABLE (Some ?h) NULL s3 = (VCHIQ_RETRY, s3)"
    using ref by (simp add: make_service_callback_def refuses_def)
  have "rx_data_msg ops p ?h (msg_srcport (fst m)) s2 = (False, s3)"
    unfolding rx_data_msg_def Let_def s3_def [symmetric] m [folded s2(2)] by (simp add: call s2 sv(3,4))
  then have disp: "rx_dispatch ops (Some p) ?h MSG_DATA (msg_srcport (fst m)) fs s2 = Some (False, s3, fs)"
    by (simp add: rx_dispatch_def)
  have unlock: "unlock_opt ops (Some p) s3 = Some t"
    using sv(5) by (simp add: unlock_opt_def unlock_service_def t_def s3 s2)
  have "rx_message ops fs s = Some (False, t, fs)"
    unfolding rx_message_def s1_def [symmetric] Let_def h s1f(4) m type sv(2) [symmetric]
    by (simp add: find disp unlock)
  moreover have "waiters t = waiters s \<and> remote t = remote s \<and> rx_pos t = rx_pos s \<and>
    rx_data t = Some (slot_data (rx_slot k s)) \<and> rx_info t = rx_slot k s \<and> \<not> recycle_mutex t \<and>
    mem t = set_hdr_msgid ?h (fst m OR MSGID_CLAIMED) (mem s)"
    using free by (simp add: t_def s3_def claim_slot_def upd_slot_info_def s2_def upd_service_def s1f)
  ultimately show ?thesis by blast
qed

text \<open>A claimed message has a type that no message has, and is stepped over.\<close>

lemma claimed_type: "msg_type w = MSG_DATA \<Longrightarrow> msg_type (w OR MSGID_CLAIMED) = 0x45"
  by (simp add: type_claimed)

lemma rx_claimed_skipped:
  assumes "rx_data t = Some a" "the (rx_data t) + slot_offset (rx_pos t) = h" "msg_type (hdr_msgid (mem t) h) = 0x45"
  shows "rx_message ops fs t = do {
     (s, fs) \<leftarrow> rx_advance (hdr_size (mem t) h) fs (t\<lparr>st_stats := st_ctrl_rx_count_update (\<lambda>c. c + 1) (st_stats t)\<rparr>);
     Some (True, s, fs) }"
  using assms
  by (simp add: rx_message_def rx_open_slot_def rx_find_service_def service_msg_def rx_dispatch_def unlock_opt_def Let_def)

text \<open>
  C17. A data message whose callback answers \<open>VCHIQ_RETRY\<close> is lost: \<open>parse_rx_slots\<close> stops at it,
  but has marked its header as claimed, and when it comes back it takes the mark for a
  message type it does not know and steps over the message without calling anybody.
\<close>

theorem retry_loses_message:
  assumes "refuses ops" and "rx_state k d w (m # ms) s" and "\<not> recycle_mutex s" and "msg_type (fst m) = MSG_DATA"
    and "rx_view s (msg_dstport (fst m)) = Some (SRV_OPEN, msg_srcport (fst m), rc, handl)" and "0 < rc"
  shows "\<exists>t u k' d' w'. rx_message ops fs s = Some (False, t, fs) \<and> rx_message ops' fs t = Some (True, u, fs) \<and>
    rx_state k' d' w' ms u \<and> k' + d' = k + d \<and> waiters u = waiters s"
proof -
  obtain sv where sv: "services s (msg_dstport (fst m)) = Some sv" "srvstate sv = SRV_OPEN" "remoteport sv = msg_srcport (fst m)" "0 < ref_count sv"
    using assms(5,6) by (auto simp: rx_view_def)
  let ?h = "naddr (remote s) k"
  obtain t where t: "rx_message ops fs s = Some (False, t, fs)" "waiters t = waiters s" "remote t = remote s" "rx_pos t = rx_pos s"
    "rx_data t = Some (slot_data (rx_slot k s))" "rx_info t = rx_slot k s" "\<not> recycle_mutex t"
    "mem t = set_hdr_msgid ?h (fst m OR MSGID_CLAIMED) (mem s)"
    using rx_refused [OF assms(1-4) sv(1) refl sv(2-4), of fs] by blast
  have pos: "rx_pos s = of_nat k" and win: "window (remote s) (k div 4096) w" "k mod 4096 + d \<le> w * 4096"
    and ms: "stream (mem s) (remote s) k d = Some (m # ms)"
    using assms(2) by (simp_all add: rx_state_def)
  note cons = stream_ConsD [OF ms]
  let ?st = "stride_at (mem s) (remote s) k" and ?n = "hdr_size (mem s) ?h"
  have fits: "8 \<le> ?st" "?st \<le> d" "k mod 4096 + ?st \<le> 4096" using cons(2) by (simp_all add: msg_fits_def)
  have h: "the (rx_data t) + slot_offset (rx_pos t) = ?h"
    by (simp add: t pos slot_offset_of_nat naddr_def slot_data_def rx_slot_def)
  have size: "hdr_size (mem t) ?h = ?n" by (simp add: t claimed_header)
  have "hdr_msgid (mem t) ?h = fst m OR MSGID_CLAIMED" by (simp add: t hdr_msgid_def set_hdr_msgid_def load32_store32_same)
  then have "msg_type (hdr_msgid (mem t) ?h) = 0x45" using claimed_type [OF assms(4)] by simp
  note skip = rx_claimed_skipped [OF t(5) h this, of ops' fs]
  define u where "u = t\<lparr>st_stats := st_ctrl_rx_count_update (\<lambda>c. c + 1) (st_stats t)\<rparr>"
  have "stream (mem u) (remote s) (k + ?st) (d - ?st) = stream (mem s) (remote s) (k + ?st) (d - ?st)"
    by (rule stream_behind [OF win(1)]) (use fits win(2) in \<open>auto simp: u_def t claimed_other\<close>)
  then have rest: "stream (mem u) (remote u) (k + ?st) (d - ?st) = Some ms" using cons(4) by (simp add: u_def t)
  obtain c where c: "unat (slot_queue_recycle (remote u)) mod 64 = c mod 64" "k div 4096 + w \<le> c" "c \<le> k div 4096 + 64"
    using assms(2) by (auto simp: rx_state_def u_def t)
  have pos_u: "rx_pos u = of_nat k" and win_u: "window (remote u) (k div 4096) w" and free_u: "\<not> recycle_mutex u"
    and slot: "rx_data u = Some (slot_data (rx_slot k u))" "rx_info u = rx_slot k u"
    using pos win(1) t(7) by (simp_all add: u_def t rx_slot_def)
  have stride: "?st = unat (calc_stride ?n)" by (simp add: stride_at_def)
  obtain v w' where v: "rx_advance ?n fs u = Some (v, fs)" "rx_state (k + ?st) (d - ?st) w' ms v" "rx_frame u v"
    using advance_state [OF pos_u stride fits win_u win(2) rest slot c free_u] by blast
  have "rx_message ops' fs t = Some (True, v, fs)" unfolding skip size u_def [symmetric] using v(1) by simp
  moreover have "waiters v = waiters s" using v(3) by (simp add: rx_frame_def u_def t(2))
  ultimately show ?thesis using t(1) v(2) fits
    by (intro exI [of _ t] exI [of _ v] exI [of _ "k + ?st"] exI [of _ "d - ?st"] exI [of _ w']) simp
qed

definition refusing_ops :: vchiq_ops where
  "refusing_ops = \<lparr>op_callback = (\<lambda>cb reason header h ud s. (VCHIQ_RETRY, s)), op_userdata_term = (\<lambda>f ud s. s)\<rparr>"

text \<open>The accepting client never sees the message that was refused once.\<close>

lemma retry_loses_message_witness:
  "\<exists>s t u. rx_message refusing_ops [] s = Some (False, t, []) \<and> rx_message sum_ops [] t = Some (True, u, []) \<and> waiters u = waiters s"
proof -
  let ?m = "make_msg MSG_DATA 0 7"
  define s where "s = other_side\<lparr>mem := set_hdr_size 139264 0 (set_hdr_msgid 139264 ?m (\<lambda>_. 0))\<rparr>"
  have "local open_state = local boot_state" by (simp add: open_state_def)
  have q: "slot_queue (local open_state) i = 34 + i" if "i < 31" for i
    using boot_state_props(3) boot_slots_props(5,6) that by (simp add: open_state_def all_slots_free_def)
  have cycle: "slot_queue_recycle (local open_state) = 31"
    using boot_state_props(3) boot_slots_props(5,6) by (simp add: open_state_def all_slots_free_def)
  have remote: "remote s = local open_state" by (simp add: s_def other_side_def)
  have at: "naddr (remote s) 0 = 139264" using q [of 0] by (simp add: remote naddr_def)
  have hdr: "hdr_msgid (mem s) 139264 = ?m" "hdr_size (mem s) 139264 = 0" by (simp_all add: s_def hdr_written)
  have stride: "stride_at (mem s) (remote s) 0 = 8" by (simp add: stride_at_def at hdr calc_stride_def)
  have "stream (mem s) (remote s) 0 8 = Some [(?m, [])]"
    by (subst stream_next) (simp_all add: msg_fits_def stride at hdr msg_at_def bytes_at_def)
  moreover have "window (remote s) 0 31" using q by (auto simp: remote window_def inj_on_def)
  ultimately have "rx_state 0 8 31 [(?m, [])] s"
    using cycle by (auto simp: rx_state_def remote s_def other_side_def intro: exI [of _ 31])
  moreover have "rx_view s 7 = Some (SRV_OPEN, 0, 1, 4096)" by (simp add: s_def rx_view_def other_side_def)
  moreover have "refuses refusing_ops" by (simp add: refuses_def refusing_ops_def)
  moreover have "\<not> recycle_mutex s" by (simp add: s_def other_side_def)
  ultimately show ?thesis
    using retry_loses_message [of refusing_ops 0 8 31 "(?m, [])" "[]" s 1 4096 "[]" sum_ops] by (auto simp: make_msg_parts)
qed

end
