(* ===== verification/Vchiq_Table.thy ===== *)
theory Vchiq_Table
  imports Vchiq_Transmit
begin

text \<open>
  The table of services: ports, handles and references, and the bounds on the options.
\<close>

section \<open>Well-formed tables\<close>

definition table_ok :: "vstate \<Rightarrow> bool" where
  "table_ok s \<longleftrightarrow> state_id s = 0 \<and> unused_service s \<le> MAX_SERVICES \<and> unat (handle_seq s) mod 4096 = 0 \<and>
     (\<forall>p sv. services s p = Some sv \<longrightarrow>
        p < unused_service s \<and> localport sv = p \<and> handle_port (handle sv) = p \<and> 0 < ref_count sv)"

lemma service_table_okD:
  "table_ok s \<Longrightarrow> services s p = Some sv \<Longrightarrow> p < MAX_SERVICES \<and> localport sv = p \<and> handle_port (handle sv) = p \<and> 0 < ref_count sv"
  unfolding table_ok_def by fastforce

lemma first_free_props:
  assumes "first_free dflt i s = Some p"
  shows "(i \<le> p \<and> p < unused_service s \<and> services s p = None \<and> (\<forall>j. i \<le> j \<longrightarrow> j < p \<longrightarrow> services s j \<noteq> None)) \<or>
    (dflt = Some p \<and> (\<forall>j. i \<le> j \<longrightarrow> j < unused_service s \<longrightarrow> services s j \<noteq> None))"
  using assms
proof (induction dflt i s rule: first_free.induct)
  case (1 dflt i s)
  show ?case
  proof (cases "i < unused_service s \<and> services s i \<noteq> None")
    case True
    then have "first_free dflt (i + 1) s = Some p" using "1.prems" by (subst (asm) first_free.simps) auto
    then show ?thesis using "1.IH" True by (metis Suc_eq_plus1 Suc_leD le_antisym not_less_eq_eq)
  next
    case False
    then show ?thesis using "1.prems" by (subst (asm) first_free.simps) (auto split: if_splits)
  qed
qed

lemma server_entry_props:
  assumes "server_entry params inst i found s = Some p"
  shows "(p < i \<and> services s p = None \<or> found = Some p) \<and>
    (\<forall>j<i. \<forall>sv. services s j = Some sv \<longrightarrow> public_fourcc sv = sp_fourcc params \<longrightarrow>
       instance_of sv = inst \<and> callback sv = sp_callback params)"
  using assms
  by (induction i arbitrary: found) (auto simp: less_Suc_eq split: option.splits if_splits)

lemma service_entry_props:
  assumes "service_entry params st inst s = Some p" "table_ok s"
  shows "services s p = None" "p < MAX_SERVICES" "p \<le> unused_service s"
proof -
  have "services s (unused_service s) = None" using assms(2) unfolding table_ok_def by (metis less_irrefl not_None_eq)
  moreover have "unused_service s \<le> MAX_SERVICES" using assms(2) by (simp add: table_ok_def)
  ultimately have "services s p = None \<and> p < MAX_SERVICES \<and> p \<le> unused_service s"
    using assms(1) first_free_props [of _ 0 s p] server_entry_props [of params inst "unused_service s" _ s p]
    by (fastforce simp: service_entry_def Let_def split: if_splits)
  then show "services s p = None" "p < MAX_SERVICES" "p \<le> unused_service s" by simp_all
qed

text \<open>The handle of a port: a sequence number above, the port below.\<close>

lemma handle_port_seq:
  assumes "unat seq mod 4096 = 0" "p < 4096"
  shows "handle_port (seq OR of_nat (0 * MAX_SERVICES) OR of_nat p) = p"
proof -
  have seq: "seq AND 4095 = 0"
  proof -
    have "unat (seq AND (4096 - 1)) = unat seq mod 2 ^ 12" by (rule unat_and_mask) simp
    then have "unat (seq AND 4095) = 0" using assms(1) by simp
    then show ?thesis by (metis unat_eq_zero)
  qed
  have p: "unat ((of_nat p :: u32) AND (4096 - 1)) = unat (of_nat p :: u32) mod 2 ^ 12" by (rule unat_and_mask) simp
  have "(seq OR of_nat p) AND 4095 = (seq AND 4095) OR (of_nat p AND 4095)" by (rule bit_word_eqI) (auto simp: bit_simps)
  then show ?thesis using seq p assms(2) by (simp add: handle_port_def unat_of_nat)
qed

lemma seq_step: "unat (seq :: u32) mod 4096 = 0 \<Longrightarrow> unat (seq + of_nat MAX_SERVICES) mod 4096 = 0"
  using mod_mod_pow2_le [of 12 32 "unat seq + 4096"] by (simp add: unat_word_ariths)

section \<open>Adding a service\<close>

lemma enter_service_keeps:
  assumes "table_ok s" "services s p = None" "p < MAX_SERVICES" "p \<le> unused_service s" "0 < ref_count sv"
  shows "table_ok (enter_service sv p s)" "services (enter_service sv p s) p = Some (sv\<lparr>localport := p, handle :=
      (if handle_seq s = 0 then of_nat MAX_SERVICES else handle_seq s) OR of_nat p\<rparr>)"
    "\<forall>q. q \<noteq> p \<longrightarrow> services (enter_service sv p s) q = services s q"
proof -
  define seq where "seq = (if handle_seq s = 0 then of_nat MAX_SERVICES else handle_seq s)"
  have zero: "state_id s = 0" using assms(1) by (simp add: table_ok_def)
  have seq: "unat seq mod 4096 = 0" using assms(1) by (simp add: seq_def table_ok_def)
  show "services (enter_service sv p s) p = Some (sv\<lparr>localport := p, handle :=
      (if handle_seq s = 0 then of_nat MAX_SERVICES else handle_seq s) OR of_nat p\<rparr>)"
    by (simp add: enter_service_def Let_def zero)
  show "\<forall>q. q \<noteq> p \<longrightarrow> services (enter_service sv p s) q = services s q" by (simp add: enter_service_def Let_def)
  have "handle_port (seq OR of_nat p) = p" using handle_port_seq [OF seq] assms(3) by simp
  moreover have "unat (seq + of_nat MAX_SERVICES) mod 4096 = 0" by (rule seq_step [OF seq])
  ultimately show "table_ok (enter_service sv p s)"
    using assms unfolding table_ok_def enter_service_def Let_def seq_def [symmetric] zero
    by (auto simp: less_Suc_eq zero)
qed

lemma table_ok_cong:
  assumes "state_id t = state_id s" "unused_service t = unused_service s" "handle_seq t = handle_seq s" "services t = services s"
  shows "table_ok t = table_ok s"
  using assms by (simp add: table_ok_def)

lemma table_ok_upd:
  assumes "table_ok s" "\<And>sv. localport (f sv) = localport sv \<and> handle (f sv) = handle sv \<and> (0 < ref_count sv \<longrightarrow> 0 < ref_count (f sv))"
  shows "table_ok (upd_service p f s)"
  using assms by (auto simp: table_ok_def upd_service_def split: if_splits)


lemma boot_table: "table_ok boot_state"
proof -
  have "handle_seq s = handle_seq old \<and> state_id s = 0" if "vchiq_init_state 0 spawned z False old = Some (VCHIQ_SUCCESS, Inr s)" for spawned z old s
    using that by (auto simp: vchiq_init_state_def Let_def bind_eq_Some_conv vchiq_platform_init_state_def upd_arm_def fresh_state_def
        split: if_splits prod.splits)
  from this [OF boot_state_props(1)] have "handle_seq boot_state = 0" "state_id boot_state = 0" by (simp_all add: before_boot_def)
  then show ?thesis using boot_state_props(4) by (simp add: table_ok_def idle_def)
qed

definition demo_params :: service_params where
  "demo_params = \<lparr>sp_fourcc = 0x64656d6f, sp_callback = 16, sp_userdata = 32, sp_version = 2, sp_version_min = 1\<rparr>"


section \<open>References\<close>

text \<open>
  A reference that is taken is given back: each of the lookups that find a service counts
  one reference on it and changes nothing else, and \<open>unlock_service\<close> then restores the state.
\<close>

theorem reference_roundtrip:
  "(find_service_by_handle h s = Some (Some p, t) \<or> find_service_by_port q s = Some (Some p, t) \<or>
    get_listening_service fcc s = Some (Some p, t) \<or> lock_service p s = Some t) \<longrightarrow>
   t = upd_service p (ref_count_update (\<lambda>n. n + 1)) s \<and> unlock_service ops p t = Some s"
proof
  assume found: "find_service_by_handle h s = Some (Some p, t) \<or> find_service_by_port q s = Some (Some p, t) \<or>
    get_listening_service fcc s = Some (Some p, t) \<or> lock_service p s = Some t"
  have "\<exists>sv. services s p = Some sv \<and> ref_count sv \<noteq> 0 \<and> t = upd_service p (ref_count_update (\<lambda>n. n + 1)) s"
    using found
    by (auto simp: find_service_by_handle_def find_service_by_port_def find_service_def get_listening_service_def lock_service_def
        split: option.splits if_splits)
  then obtain sv where sv: "services s p = Some sv" "ref_count sv \<noteq> 0" "t = upd_service p (ref_count_update (\<lambda>n. n + 1)) s" by blast
  have "upd_service p (ref_count_update (\<lambda>n. n - 1)) t = s"
    using sv(1) unfolding sv(3) upd_service_def by (cases s; cases sv) (auto simp: fun_eq_iff)
  then show "t = upd_service p (ref_count_update (\<lambda>n. n + 1)) s \<and> unlock_service ops p t = Some s"
    using sv by (simp add: unlock_service_def) (simp add: upd_service_def)
qed

lemma reference_roundtrip_witness:
  "\<forall>ops. \<exists>t. find_service_by_port 0 open_state = Some (Some 0, t) \<and> unlock_service ops 0 t = Some open_state"
  using reference_roundtrip [of 0 open_state 0 _ 0 0]
  by (simp add: find_service_by_port_def find_service_def)

section \<open>Options\<close>

lemma of_int_ge:
  "uint (c :: u16) \<le> v \<Longrightarrow> v < 65535 \<Longrightarrow> c \<le> word_of_int v \<and> uint (word_of_int v :: u16) = v"
proof -
  assume v: "uint c \<le> v" "v < 65535"
  have "0 \<le> v" using v(1) uint_ge_0 [of c] by (rule order.trans [rotated])
  then have "uint (word_of_int v :: u16) = v" using v(2) by (simp add: uint_word_of_int)
  then show ?thesis using v(1) by (simp add: word_le_def)
qed

text \<open>
  Options keep the quotas: no value of \<open>vchiq_set_service_option\<close>, negative ones and those
  beyond 16 bits included, sets a quota below what is in use or other than it was asked for,
  and a refused option changes nothing.
\<close>

theorem set_option_keeps_quotas:
  assumes "counts_ok s" and "set_option opt v p s = (status, t)"
  shows "counts_ok t \<and> (status = VCHIQ_ERROR \<longrightarrow> t = s) \<and>
    (status = VCHIQ_SUCCESS \<longrightarrow> opt = OPTION_SLOT_QUOTA \<longrightarrow> v \<noteq> 0 \<longrightarrow>
       uint (slot_quota (service_quotas t (localport (the (services s p))))) = v) \<and>
    (status = VCHIQ_SUCCESS \<longrightarrow> opt = OPTION_MESSAGE_QUOTA \<longrightarrow> v \<noteq> 0 \<longrightarrow>
       uint (message_quota (service_quotas t (localport (the (services s p))))) = v)"
proof (cases opt)
  case OPTION_SLOT_QUOTA
  define l where "l = localport (the (services s p))"
  define w where "w = (if v = 0 then uint (default_slot_quota s) else v)"
  show ?thesis
  proof (cases "w \<ge> uint (slot_use_count (service_quotas s l)) \<and> w < 65535")
    case True
    then have "slot_use_count (service_quotas s l) \<le> word_of_int w \<and> uint (word_of_int w :: u16) = w" using of_int_ge by blast
    then show ?thesis using assms True unfolding OPTION_SLOT_QUOTA set_option_def Let_def l_def [symmetric] w_def [symmetric] option.case
      by (auto simp: counts_ok_def upd_quota_def w_def split: if_splits)
  next
    case False
    then show ?thesis using assms unfolding OPTION_SLOT_QUOTA set_option_def Let_def l_def [symmetric] w_def [symmetric]
      by auto
  qed
next
  case OPTION_MESSAGE_QUOTA
  define l where "l = localport (the (services s p))"
  define w where "w = (if v = 0 then uint (default_message_quota s) else v)"
  show ?thesis
  proof (cases "w \<ge> uint (message_use_count (service_quotas s l)) \<and> w < 65535")
    case True
    then have "message_use_count (service_quotas s l) \<le> word_of_int w \<and> uint (word_of_int w :: u16) = w" using of_int_ge by blast
    then show ?thesis using assms True unfolding OPTION_MESSAGE_QUOTA set_option_def Let_def l_def [symmetric] w_def [symmetric]
      by (auto simp: counts_ok_def upd_quota_def w_def split: if_splits)
  next
    case False
    then show ?thesis using assms unfolding OPTION_MESSAGE_QUOTA set_option_def Let_def l_def [symmetric] w_def [symmetric]
      by auto
  qed
qed (use assms in \<open>auto simp: set_option_def Let_def upd_service_def counts_ok_def split: if_splits\<close>)

lemma set_option_keeps_quotas_witness:
  "\<exists>t. set_option OPTION_SLOT_QUOTA 20 0 open_state = (VCHIQ_SUCCESS, t) \<and> uint (slot_quota (service_quotas t 0)) = 20 \<and> counts_ok t"
  using set_option_keeps_quotas [OF open_counts, of OPTION_SLOT_QUOTA 20 0]
  by (simp add: set_option_def Let_def demo_quota_def)

end
