(* ===== verification/Vchiq_Kern.thy ===== *)
theory Vchiq_Kern
  imports Vchiq_Close
begin

text \<open>
  circle/addon/vc4/vchiq/vchiq_kern_lib.c, the interface of VCHIQ for clients in the same address
  space, and vchiq_connected.c. While a call waits inside the core, \<open>fs\<close> is what the other tasks do
  to the core; the instances are read and written only before and after that wait.
\<close>

section \<open>Instances\<close>

text \<open>
  \<open>struct vchiq_instance_struct\<close>: the list of the waiters that threads left behind, each with the
  pid of its thread. A \<open>struct bulk_waiter_node\<close> has the address of the waiter it contains.
\<close>

record vchiq_instance =
  connected :: bool
  bulk_waiter_list :: "(u32 \<times> ptr) list"

record klib =
  core :: vstate
  instances :: "ptr \<Rightarrow> vchiq_instance option"

definition upd_instance :: "ptr \<Rightarrow> (vchiq_instance \<Rightarrow> vchiq_instance) \<Rightarrow> klib \<Rightarrow> klib" where
  "upd_instance i f s = s\<lparr>instances := (instances s)(i := map_option f (instances s i))\<rparr>"

definition VCHIQ_INIT_RETRIES :: nat where "VCHIQ_INIT_RETRIES = 10"

text \<open>The loop of \<open>vchiq_initialise\<close>; \<open>ready i\<close> is what \<open>vchiq_get_state\<close> finds at try \<open>i\<close>.\<close>

function first_ready :: "(nat \<Rightarrow> bool) \<Rightarrow> nat \<Rightarrow> nat" where
  "first_ready ready i =
     (if i < VCHIQ_INIT_RETRIES then if ready i then i else first_ready ready (i + 1) else i)"
  by pat_completeness auto
termination
  by (relation "measure (\<lambda>(ready, i). VCHIQ_INIT_RETRIES - i)") auto

declare first_ready.simps [simp del]

text \<open>\<open>kz\<close> is the result of \<open>kzalloc\<close>. The instance is written out only on success.\<close>

definition vchiq_initialise :: "(nat \<Rightarrow> bool) \<Rightarrow> ptr option \<Rightarrow> klib \<Rightarrow> vchiq_status \<times> ptr option \<times> klib" where
  "vchiq_initialise ready kz s =
     (if first_ready ready 0 = VCHIQ_INIT_RETRIES then (VCHIQ_ERROR, None, s)
      else case kz of
        None \<Rightarrow> (VCHIQ_ERROR, None, s)
      | Some i \<Rightarrow> (VCHIQ_SUCCESS, Some i, s\<lparr>instances := (instances s)(i \<mapsto> \<lparr>connected = False, bulk_waiter_list = []\<rparr>)\<rparr>))"

definition vchiq_shutdown ::
  "vchiq_ops \<Rightarrow> bool \<Rightarrow> ptr \<Rightarrow> vstate sched \<Rightarrow> klib \<Rightarrow> (vchiq_status \<times> klib \<times> vstate sched) option" where
  "vchiq_shutdown ops on_handler i fs s = do {
     (c, fs) \<leftarrow> mutex_acquire state_mutex state_mutex_update fs (core s);
     (status, c, fs) \<leftarrow> vchiq_shutdown_internal ops on_handler i fs c;
     let s = s\<lparr>core := mutex_release state_mutex_update c\<rparr>;
     Some (status, if status = VCHIQ_SUCCESS then s\<lparr>instances := (instances s)(i := None)\<rparr> else s, fs)
   }"

definition vchiq_is_connected :: "ptr \<Rightarrow> klib \<Rightarrow> bool" where
  "vchiq_is_connected i s = connected (the (instances s i))"

definition vchiq_connect ::
  "vchiq_ops \<Rightarrow> ptr \<Rightarrow> vstate sched \<Rightarrow> klib \<Rightarrow> (vchiq_status \<times> klib \<times> vstate sched) option" where
  "vchiq_connect ops i fs s = do {
     (c, fs) \<leftarrow> mutex_acquire state_mutex state_mutex_update fs (core s);
     (status, c, fs) \<leftarrow> vchiq_connect_internal ops i fs c;
     let s = (if status = VCHIQ_SUCCESS then upd_instance i (connected_update (\<lambda>_. True)) s else s);
     Some (status, s\<lparr>core := mutex_release state_mutex_update c\<rparr>, fs)
   }"

section \<open>Services\<close>

definition VCHIQ_SERVICE_HANDLE_INVALID :: u32 where "VCHIQ_SERVICE_HANDLE_INVALID = 0"

text \<open>\<open>alloc\<close> is the memory that the core gets for the service.\<close>

definition vchiq_add_service ::
  "service option \<Rightarrow> ptr \<Rightarrow> service_params \<Rightarrow> vstate sched \<Rightarrow> klib \<Rightarrow> (vchiq_status \<times> u32 \<times> klib \<times> vstate sched) option" where
  "vchiq_add_service alloc i params fs s = do {
     (service, c, fs) \<leftarrow> vchiq_add_service_internal alloc params
       (if vchiq_is_connected i s then SRV_LISTENING else SRV_HIDDEN) i NULL fs (core s);
     let s = s\<lparr>core := c\<rparr>;
     (case service of
        Some p \<Rightarrow> Some (VCHIQ_SUCCESS, handle (the (services c p)), s, fs)
      | None \<Rightarrow> Some (VCHIQ_ERROR, VCHIQ_SERVICE_HANDLE_INVALID, s, fs))
   }"

definition vchiq_open_service ::
  "vchiq_ops \<Rightarrow> bool \<Rightarrow> u32 \<Rightarrow> service option \<Rightarrow> ptr \<Rightarrow> service_params \<Rightarrow> vstate sched \<Rightarrow> klib
    \<Rightarrow> (vchiq_status \<times> u32 \<times> klib \<times> vstate sched) option" where
  "vchiq_open_service ops on_handler pid alloc i params fs s =
     (if \<not> vchiq_is_connected i s then Some (VCHIQ_ERROR, VCHIQ_SERVICE_HANDLE_INVALID, s, fs)
      else do {
        (service, c, fs) \<leftarrow> vchiq_add_service_internal alloc params SRV_OPENING i NULL fs (core s);
        (case service of
           None \<Rightarrow> Some (VCHIQ_ERROR, VCHIQ_SERVICE_HANDLE_INVALID, s\<lparr>core := c\<rparr>, fs)
         | Some p \<Rightarrow> do {
             let h = handle (the (services c p));
             (status, c, fs) \<leftarrow> vchiq_open_service_internal p pid fs c;
             if status = VCHIQ_SUCCESS then Some (status, h, s\<lparr>core := c\<rparr>, fs)
             else do {
               (_, c, fs) \<leftarrow> vchiq_remove_service ops on_handler (handle (the (services c p))) fs c;
               Some (status, VCHIQ_SERVICE_HANDLE_INVALID, s\<lparr>core := c\<rparr>, fs)
             }
           })
      })"

section \<open>Bulk transfers\<close>

definition VCHI_MEM_HANDLE_INVALID :: u32 where "VCHI_MEM_HANDLE_INVALID = 0"

text \<open>Run a core call on the core of the library.\<close>

definition on_core ::
  "(vstate \<Rightarrow> ('a \<times> vstate \<times> vstate sched) option) \<Rightarrow> klib \<Rightarrow> ('a \<times> klib \<times> vstate sched) option" where
  "on_core f s = map_option (\<lambda>(r, c, fs). (r, s\<lparr>core := c\<rparr>, fs)) (f (core s))"

text \<open>\<open>pl\<close> and \<open>uninit\<close> are the memory that the core gets for the page list.\<close>

definition vchiq_queue_bulk_transmit ::
  "vchiq_ops \<Rightarrow> ptr option \<Rightarrow> u32 \<Rightarrow> u32 \<Rightarrow> ptr \<Rightarrow> u32 \<Rightarrow> ptr \<Rightarrow> vstate sched \<Rightarrow> klib \<Rightarrow> (vchiq_status \<times> klib \<times> vstate sched) option" where
  "vchiq_queue_bulk_transmit ops pl uninit h data n ud fs =
     on_core (vchiq_bulk_transfer ops pl uninit h VCHI_MEM_HANDLE_INVALID data n ud BULK_MODE_CALLBACK BULK_TRANSMIT fs)"

definition vchiq_queue_bulk_receive ::
  "vchiq_ops \<Rightarrow> ptr option \<Rightarrow> u32 \<Rightarrow> u32 \<Rightarrow> ptr \<Rightarrow> u32 \<Rightarrow> ptr \<Rightarrow> vstate sched \<Rightarrow> klib \<Rightarrow> (vchiq_status \<times> klib \<times> vstate sched) option" where
  "vchiq_queue_bulk_receive ops pl uninit h data n ud fs =
     on_core (vchiq_bulk_transfer ops pl uninit h VCHI_MEM_HANDLE_INVALID data n ud BULK_MODE_CALLBACK BULK_RECEIVE fs)"

text \<open>Take the waiter that this thread left behind off the list.\<close>

fun take_waiter :: "u32 \<Rightarrow> (u32 \<times> ptr) list \<Rightarrow> ptr option \<times> (u32 \<times> ptr) list" where
  "take_waiter pid [] = (None, [])"
| "take_waiter pid ((q, w) # ws) =
     (if q = pid then (Some w, ws) else let (r, ws') = take_waiter pid ws in (r, (q, w) # ws'))"

definition clear_userdata :: "nat \<times> bulk_dir \<times> nat \<Rightarrow> vstate \<Rightarrow> vstate" where
  "clear_userdata = (\<lambda>(p, dir, i). upd_queue p dir (upd_bulk i (b_userdata_update (\<lambda>_. NULL))))"

text \<open>An outstanding transfer of this thread that is not the one retried is no longer signalled.\<close>

definition cancel_other :: "ptr \<Rightarrow> u32 \<Rightarrow> ptr \<Rightarrow> vstate \<Rightarrow> vstate" where
  "cancel_other data n w s =
     (case w_bulk (waiters s w) of
        None \<Rightarrow> s
      | Some (p, dir, i) \<Rightarrow>
          let b = bulks (queue_of p dir s) i
          in if b_data b \<noteq> data \<or> b_size b \<noteq> n then clear_userdata (p, dir, i) s else s)"

text \<open>\<open>kz\<close> is the result of \<open>kzalloc\<close> for a new waiter.\<close>

definition vchiq_blocking_bulk_transfer ::
  "vchiq_ops \<Rightarrow> ptr option \<Rightarrow> u32 \<Rightarrow> ptr option \<Rightarrow> u32 \<Rightarrow> u32 \<Rightarrow> ptr \<Rightarrow> u32 \<Rightarrow> bulk_dir \<Rightarrow> vstate sched \<Rightarrow> klib
    \<Rightarrow> (vchiq_status \<times> klib \<times> vstate sched) option" where
  "vchiq_blocking_bulk_transfer ops pl uninit kz pid h data n dir fs s = do {
     (service, c) \<leftarrow> find_service_by_handle h (core s);
     (case service of
        None \<Rightarrow> Some (VCHIQ_ERROR, s\<lparr>core := c\<rparr>, fs)
      | Some p \<Rightarrow> do {
          let i = instance_of (the (services c p));
          c \<leftarrow> unlock_service ops p c;
          let (old, rest) = take_waiter pid (bulk_waiter_list (the (instances s i)));
          let s = upd_instance i (bulk_waiter_list_update (\<lambda>_. rest)) s;
          let c = (case old of Some w \<Rightarrow> cancel_other data n w c | None \<Rightarrow> c);
          let (node, c) =
            (case old of
               Some w \<Rightarrow> (Some w, c)
             | None \<Rightarrow> (kz, case kz of Some w \<Rightarrow> c\<lparr>waiters := (waiters c)(w := \<lparr>w_bulk = None, w_event = 0, w_actual = 0\<rparr>)\<rparr> | None \<Rightarrow> c));
          (case node of
             None \<Rightarrow> Some (VCHIQ_ERROR, s\<lparr>core := c\<rparr>, fs)
           | Some w \<Rightarrow> do {
               (status, c, fs) \<leftarrow> vchiq_bulk_transfer ops pl uninit h VCHI_MEM_HANDLE_INVALID data n w BULK_MODE_BLOCKING dir fs c;
               let bulk = w_bulk (waiters c w);
               if status \<noteq> VCHIQ_RETRY \<or> bulk = None
               then Some (status, s\<lparr>core := (case bulk of Some b \<Rightarrow> clear_userdata b c | None \<Rightarrow> c)\<rparr>, fs)
               else Some (status, (upd_instance i (bulk_waiter_list_update (Cons (pid, w))) s)\<lparr>core := c\<rparr>, fs)
             })
        })
   }"

definition bulk_by_mode ::
  "vchiq_ops \<Rightarrow> ptr option \<Rightarrow> u32 \<Rightarrow> ptr option \<Rightarrow> u32 \<Rightarrow> bulk_dir \<Rightarrow> u32 \<Rightarrow> ptr \<Rightarrow> u32 \<Rightarrow> ptr \<Rightarrow> bulk_mode \<Rightarrow> vstate sched \<Rightarrow> klib
    \<Rightarrow> (vchiq_status \<times> klib \<times> vstate sched) option" where
  "bulk_by_mode ops pl uninit kz pid dir h data n ud mode fs s =
     (case mode of
        BULK_MODE_NOCALLBACK \<Rightarrow> on_core (vchiq_bulk_transfer ops pl uninit h VCHI_MEM_HANDLE_INVALID data n ud mode dir fs) s
      | BULK_MODE_CALLBACK \<Rightarrow> on_core (vchiq_bulk_transfer ops pl uninit h VCHI_MEM_HANDLE_INVALID data n ud mode dir fs) s
      | BULK_MODE_BLOCKING \<Rightarrow> vchiq_blocking_bulk_transfer ops pl uninit kz pid h data n dir fs s
      | BULK_MODE_WAITING \<Rightarrow> Some (VCHIQ_ERROR, s, fs))"

definition vchiq_bulk_transmit ::
  "vchiq_ops \<Rightarrow> ptr option \<Rightarrow> u32 \<Rightarrow> ptr option \<Rightarrow> u32 \<Rightarrow> u32 \<Rightarrow> ptr \<Rightarrow> u32 \<Rightarrow> ptr \<Rightarrow> bulk_mode \<Rightarrow> vstate sched \<Rightarrow> klib
    \<Rightarrow> (vchiq_status \<times> klib \<times> vstate sched) option" where
  "vchiq_bulk_transmit ops pl uninit kz pid = bulk_by_mode ops pl uninit kz pid BULK_TRANSMIT"

definition vchiq_bulk_receive ::
  "vchiq_ops \<Rightarrow> ptr option \<Rightarrow> u32 \<Rightarrow> ptr option \<Rightarrow> u32 \<Rightarrow> u32 \<Rightarrow> ptr \<Rightarrow> u32 \<Rightarrow> ptr \<Rightarrow> bulk_mode \<Rightarrow> vstate sched \<Rightarrow> klib
    \<Rightarrow> (vchiq_status \<times> klib \<times> vstate sched) option" where
  "vchiq_bulk_receive ops pl uninit kz pid = bulk_by_mode ops pl uninit kz pid BULK_RECEIVE"

section \<open>Connected callbacks\<close>

text \<open>
  vchiq_connected.c: callbacks registered before the connection is up are kept, ten at most, and
  called when it is; later ones are called at once. \<open>call\<close> is what a callback does to the state \<open>'s\<close>
  of the program.
\<close>

definition MAX_CALLBACKS :: nat where "MAX_CALLBACKS = 10"

record connected_state =
  g_connected :: bool
  g_deferred_callback :: "ptr list"

definition vchiq_add_connected_callback :: "(ptr \<Rightarrow> 's \<Rightarrow> 's) \<Rightarrow> ptr \<Rightarrow> connected_state \<times> 's \<Rightarrow> connected_state \<times> 's" where
  "vchiq_add_connected_callback call cb = (\<lambda>(g, s).
     if g_connected g then (g, call cb s)
     else if length (g_deferred_callback g) \<ge> MAX_CALLBACKS then (g, s)
     else (g\<lparr>g_deferred_callback := g_deferred_callback g @ [cb]\<rparr>, s))"

definition vchiq_call_connected_callbacks :: "(ptr \<Rightarrow> 's \<Rightarrow> 's) \<Rightarrow> connected_state \<times> 's \<Rightarrow> connected_state \<times> 's" where
  "vchiq_call_connected_callbacks call = (\<lambda>(g, s).
     (\<lparr>g_connected = True, g_deferred_callback = []\<rparr>, fold call (g_deferred_callback g) s))"

section \<open>Properties\<close>

text \<open>
  When a blocking transfer ends, the entry of the bulk queue that it used loses its user data, even if
  the entry belongs to a transfer of another thread by then: completing that one wakes nobody.
\<close>

lemma blocking_bulk_clears_entry:
  assumes "vchiq_blocking_bulk_transfer ops pl uninit (Some w) pid h data n dir fs s = Some (status, t, gs)"
    "take_waiter pid (bulk_waiter_list (the (instances s (instance_of (the (services (core s) (handle_port h))))))) = (None, rest)"
    "status \<noteq> VCHIQ_RETRY" "w_bulk (waiters (core t) w) = Some (p, d, i)" "services (core t) p = Some sv"
    "find_service_by_handle h (core s) = Some (Some (handle_port h), c)"
    "instance_of (the (services c (handle_port h))) = instance_of (the (services (core s) (handle_port h)))"
  shows "b_userdata (bulks (queue_of p d (core t)) i) = NULL"
proof -
  obtain c' gs' where c': "core t = (case w_bulk (waiters c' w) of Some b \<Rightarrow> clear_userdata b c' | None \<Rightarrow> c')"
    using assms(1,2,3,6,7) by (auto simp: vchiq_blocking_bulk_transfer_def Let_def split: bind_splits if_splits)
  have w: "waiters (clear_userdata b c') = waiters c'" for b
    by (simp add: clear_userdata_def upd_queue_def upd_service_def split: prod.split)
  then have b: "w_bulk (waiters c' w) = Some (p, d, i)" using assms(4) c' by (auto split: option.splits)
  then have t: "core t = clear_userdata (p, d, i) c'" using c' by simp
  then obtain sv' where "services c' p = Some sv'" using assms(5) by (auto simp: clear_userdata_def upd_queue_def upd_service_def)
  then show ?thesis
    by (cases d) (simp_all add: t clear_userdata_def upd_queue_def upd_service_def upd_bulk_def queue_of_def bq_def bq_update_def)
qed

text \<open>What happens to connected callbacks: registrations, and the connection.\<close>

datatype connected_event = Register ptr | Connect

fun connected_run :: "(ptr \<Rightarrow> 's \<Rightarrow> 's) \<Rightarrow> connected_event list \<Rightarrow> connected_state \<times> 's \<Rightarrow> connected_state \<times> 's" where
  "connected_run call [] gs = gs"
| "connected_run call (Register cb # es) gs = connected_run call es (vchiq_add_connected_callback call cb gs)"
| "connected_run call (Connect # es) gs = connected_run call es (vchiq_call_connected_callbacks call gs)"

fun registered :: "connected_event list \<Rightarrow> ptr list" where
  "registered [] = []"
| "registered (Register cb # es) = cb # registered es"
| "registered (Connect # es) = registered es"

lemma connected_later:
  assumes "g_connected g" "g_deferred_callback g = []"
  shows "\<exists>g'. connected_run call es (g, s) = (g', fold call (registered es) s)"
  using assms
proof (induction es arbitrary: g s)
  case Nil
  then show ?case by simp
next
  case (Cons e es)
  then show ?case by (cases e) (auto simp: vchiq_add_connected_callback_def vchiq_call_connected_callbacks_def)
qed

lemma connected_before:
  assumes "\<not> g_connected g" "length (g_deferred_callback g) \<le> MAX_CALLBACKS" "Connect \<notin> set es"
  shows "connected_run call es (g, s) = (g\<lparr>g_deferred_callback := take MAX_CALLBACKS (g_deferred_callback g @ registered es)\<rparr>, s)"
  using assms
proof (induction es arbitrary: g)
  case Nil
  then show ?case by simp
next
  case (Cons e es)
  then obtain cb where e: "e = Register cb" by (cases e) auto
  show ?case
  proof (cases "length (g_deferred_callback g) \<ge> MAX_CALLBACKS")
    case True
    then show ?thesis using Cons e by (simp add: vchiq_add_connected_callback_def)
  next
    case False
    then have "MAX_CALLBACKS - length (g_deferred_callback g) = Suc (MAX_CALLBACKS - Suc (length (g_deferred_callback g)))" by simp
    then show ?thesis using Cons e False by (simp add: vchiq_add_connected_callback_def)
  qed
qed

lemma connected_run_append: "connected_run call (es @ fs) gs = connected_run call fs (connected_run call es gs)"
  by (induction call es gs rule: connected_run.induct) auto

text \<open>
  C29. Every connected callback is called once and in the order of registration, when the connection
  comes up or at its registration if that is later; of those registered before the connection the
  first ten, the others never.
\<close>

theorem connected_callbacks_once:
  assumes "es = before @ Connect # after" "Connect \<notin> set before"
  shows "snd (connected_run (\<lambda>cb log. log @ [cb]) es (\<lparr>g_connected = False, g_deferred_callback = []\<rparr>, [])) =
    take 10 (registered before) @ registered after"
proof -
  let ?log = "\<lambda>cb log. log @ [cb]"
  have log: "fold ?log xs ys = ys @ xs" for xs ys :: "ptr list" by (induction xs arbitrary: ys) simp_all
  let ?g = "\<lparr>g_connected = True, g_deferred_callback = []\<rparr>"
  have "connected_run ?log es (\<lparr>g_connected = False, g_deferred_callback = []\<rparr>, []) =
      connected_run ?log after (?g, take 10 (registered before))"
    using assms connected_before [of "\<lparr>g_connected = False, g_deferred_callback = []\<rparr>" before ?log "[]"]
    by (simp add: connected_run_append vchiq_call_connected_callbacks_def MAX_CALLBACKS_def log)
  then show ?thesis using connected_later [of ?g ?log after "take 10 (registered before)"] by (auto simp: log)
qed

lemma connected_callbacks_once_witness:
  "snd (connected_run (\<lambda>cb log. log @ [cb]) [Register 1, Register 2, Connect, Register 3]
     (\<lparr>g_connected = False, g_deferred_callback = []\<rparr>, [])) = [1, 2, 3]"
  using connected_callbacks_once [of _ "[Register 1, Register 2]" "[Register 3]", OF refl] by simp

end
