(* ===== verification/Vchi_Shim.thy ===== *)
theory Vchi_Shim
  imports Vchiu_Queue Vchiq_Kern Vchiq_Power
begin

text \<open>
  circle/addon/vc4/vchiq/vchiq_shim.c: the VCHI interface on top of VCHIQ. A VCHI service owns a
  queue (Vchiu_Queue) into which the callback on the slot handler's thread puts the headers of
  messages and from which the client takes them. A call that waits for its queue takes in \<open>ws\<close> what the
  other tasks do to the whole state meanwhile; during a call of the core, \<open>fs\<close> is what they do to the
  core (such a call neither reads nor writes the queues).
\<close>

section \<open>State\<close>

text \<open>\<open>SHIM_SERVICE_T\<close>, by address\<close>

record shim_service =
  sv_handle :: u32
  sv_queue :: vchiu_queue
  sv_callback :: ptr
  sv_param :: ptr

record vchi =
  lib :: klib
  shims :: "ptr \<Rightarrow> shim_service option"

abbreviation vcore :: "vchi \<Rightarrow> vstate" where
  "vcore s \<equiv> core (lib s)"

definition set_core :: "vstate \<Rightarrow> vchi \<Rightarrow> vchi" where
  "set_core c s = s\<lparr>lib := (lib s)\<lparr>core := c\<rparr>\<rparr>"

definition upd_shim :: "ptr \<Rightarrow> (shim_service \<Rightarrow> shim_service) \<Rightarrow> vchi \<Rightarrow> vchi" where
  "upd_shim p f s = s\<lparr>shims := (shims s)(p := map_option f (shims s p))\<rparr>"

abbreviation upd_shim_queue :: "ptr \<Rightarrow> (vchiu_queue \<Rightarrow> vchiu_queue) \<Rightarrow> vchi \<Rightarrow> vchi" where
  "upd_shim_queue p f \<equiv> upd_shim p (sv_queue_update f)"

fun vchiq_status_to_vchi :: "vchiq_status \<Rightarrow> int" where
  "vchiq_status_to_vchi VCHIQ_ERROR = - 1"
| "vchiq_status_to_vchi VCHIQ_SUCCESS = 0"
| "vchiq_status_to_vchi VCHIQ_RETRY = 1"

definition VCHI_FLAGS_NONE :: u32 where "VCHI_FLAGS_NONE = 0"
definition VCHI_FLAGS_BLOCK_UNTIL_OP_COMPLETE :: u32 where "VCHI_FLAGS_BLOCK_UNTIL_OP_COMPLETE = 1"
definition VCHI_FLAGS_CALLBACK_WHEN_OP_COMPLETE :: u32 where "VCHI_FLAGS_CALLBACK_WHEN_OP_COMPLETE = 2"
definition VCHI_FLAGS_BLOCK_UNTIL_QUEUED :: u32 where "VCHI_FLAGS_BLOCK_UNTIL_QUEUED = 4"
definition VCHI_FLAGS_BLOCK_UNTIL_DATA_READ :: u32 where "VCHI_FLAGS_BLOCK_UNTIL_DATA_READ = 16"

datatype vchi_reason = VCHI_CALLBACK_MSG_AVAILABLE | VCHI_CALLBACK_BULK_SENT | VCHI_CALLBACK_BULK_RECEIVED
  | VCHI_CALLBACK_SERVICE_CLOSED | VCHI_CALLBACK_BULK_TRANSMIT_ABORTED | VCHI_CALLBACK_BULK_RECEIVE_ABORTED

text \<open>Run a call of the library or of the core on its part of the state.\<close>

definition on_lib :: "(klib \<Rightarrow> ('a \<times> klib \<times> 'f) option) \<Rightarrow> vchi \<Rightarrow> ('a \<times> vchi \<times> 'f) option" where
  "on_lib f s = map_option (\<lambda>(r, l, fs). (r, s\<lparr>lib := l\<rparr>, fs)) (f (lib s))"

definition on_vcore :: "(vstate \<Rightarrow> ('a \<times> vstate \<times> 'f) option) \<Rightarrow> vchi \<Rightarrow> ('a \<times> vchi \<times> 'f) option" where
  "on_vcore f s = map_option (\<lambda>(r, c, fs). (r, set_core c s, fs)) (f (vcore s))"

section \<open>The queue of a service\<close>

text \<open>The wait loops of \<open>vchiu_queue_pop\<close> and \<open>vchiu_queue_push\<close>, over the whole state.\<close>

partial_function (option) shim_pop_wait :: "ptr \<Rightarrow> vchi sched \<Rightarrow> vchi \<Rightarrow> (vchi \<times> vchi sched) option" where
  [code]: "shim_pop_wait p ws s = do {
     sv \<leftarrow> shims s p;
     if vchiu_queue_is_empty (sv_queue sv)
     then do {
       (s, ws) \<leftarrow> sem_down (\<lambda>s. q_push (sv_queue (the (shims s p)))) (\<lambda>f. upd_shim_queue p (q_push_update f)) ws s;
       shim_pop_wait p ws s
     }
     else Some (s, ws)
   }"

partial_function (option) shim_push_wait :: "ptr \<Rightarrow> vchi sched \<Rightarrow> vchi \<Rightarrow> (vchi \<times> vchi sched) option" where
  [code]: "shim_push_wait p ws s = do {
     sv \<leftarrow> shims s p;
     if vchiu_queue_is_full (sv_queue sv)
     then do {
       (s, ws) \<leftarrow> sem_down (\<lambda>s. q_pop (sv_queue (the (shims s p)))) (\<lambda>f. upd_shim_queue p (q_pop_update f)) ws s;
       shim_push_wait p ws s
     }
     else Some (s, ws)
   }"

definition shim_pop :: "ptr \<Rightarrow> vchi sched \<Rightarrow> vchi \<Rightarrow> (ptr \<times> vchi \<times> vchi sched) option" where
  "shim_pop p ws s = do {
     (s, ws) \<leftarrow> shim_pop_wait p ws s;
     sv \<leftarrow> shims s p;
     Some (fst (queue_take (sv_queue sv)), upd_shim_queue p (\<lambda>q. snd (queue_take q)) s, ws)
   }"

definition shim_peek :: "ptr \<Rightarrow> vchi sched \<Rightarrow> vchi \<Rightarrow> (ptr \<times> vchi \<times> vchi sched) option" where
  "shim_peek p ws s = do {
     (s, ws) \<leftarrow> shim_pop_wait p ws s;
     sv \<leftarrow> shims s p;
     Some (queue_head (sv_queue sv), upd_shim_queue p (q_push_update sem_up) s, ws)
   }"

definition shim_push :: "ptr \<Rightarrow> ptr \<Rightarrow> vchi sched \<Rightarrow> vchi \<Rightarrow> (vchi \<times> vchi sched) option" where
  "shim_push p header ws s = do {
     sv \<leftarrow> shims s p;
     if \<not> q_initialized (sv_queue sv) then Some (s, ws)
     else do {
       (s, ws) \<leftarrow> shim_push_wait p ws s;
       Some (upd_shim_queue p (queue_store header) s, ws)
     }
   }"

text \<open>
  \<open>vchiq_release_message\<close>, for \<open>NULL\<close> too: the slot index computed from \<open>NULL\<close> is far above the slots
  of the other side, so that the service is only looked up.
\<close>

definition release_header ::
  "vchiq_ops \<Rightarrow> u32 \<Rightarrow> nat option \<Rightarrow> vstate sched \<Rightarrow> vchi \<Rightarrow> (vchi \<times> vstate sched) option" where
  "release_header ops h header fs s =
     (case header of
        Some m \<Rightarrow> do { (c, fs) \<leftarrow> vchiq_release_message ops h m fs (vcore s); Some (set_core c s, fs) }
      | None \<Rightarrow> do {
          (service, c) \<leftarrow> find_service_by_handle h (vcore s);
          c \<leftarrow> (case service of Some p \<Rightarrow> unlock_service ops p c | None \<Rightarrow> Some c);
          Some (set_core c s, fs)
        })"

section \<open>Messages\<close>

text \<open>A call without a blocking flag on an empty queue\<close>

definition nothing_there :: "u32 \<Rightarrow> shim_service \<Rightarrow> bool" where
  "nothing_there flags sv \<longleftrightarrow> flags = VCHI_FLAGS_NONE \<and> vchiu_queue_is_empty (sv_queue sv)"

definition vchi_msg_peek ::
  "ptr \<Rightarrow> u32 \<Rightarrow> vchi sched \<Rightarrow> vchi \<Rightarrow> (int \<times> (ptr \<times> u32) option \<times> vchi \<times> vchi sched) option" where
  "vchi_msg_peek p flags ws s = do {
     sv \<leftarrow> shims s p;
     if nothing_there flags sv then Some (- 1, None, s, ws)
     else do {
       (header, s, ws) \<leftarrow> shim_peek p ws s;
       Some (0, Some (header + HEADER_SIZE, hdr_size (mem (vcore s)) header), s, ws)
     }
   }"

definition vchi_msg_remove ::
  "vchiq_ops \<Rightarrow> ptr \<Rightarrow> vchi sched \<Rightarrow> vstate sched \<Rightarrow> vchi \<Rightarrow> (int \<times> vchi \<times> vchi sched \<times> vstate sched) option" where
  "vchi_msg_remove ops p ws fs s = do {
     (header, s, ws) \<leftarrow> shim_pop p ws s;
     sv \<leftarrow> shims s p;
     (s, fs) \<leftarrow> release_header ops (sv_handle sv) (Some header) fs s;
     Some (0, s, ws, fs)
   }"

definition vchi_msg_dequeue ::
  "vchiq_ops \<Rightarrow> ptr \<Rightarrow> u32 \<Rightarrow> u32 \<Rightarrow> vchi sched \<Rightarrow> vstate sched \<Rightarrow> vchi
    \<Rightarrow> (int \<times> (u8 list \<times> u32) option \<times> vchi \<times> vchi sched \<times> vstate sched) option" where
  "vchi_msg_dequeue ops p max_data_size flags ws fs s = do {
     sv \<leftarrow> shims s p;
     if nothing_there flags sv then Some (- 1, None, s, ws, fs)
     else do {
       (header, s, ws) \<leftarrow> shim_pop p ws s;
       sv \<leftarrow> shims s p;
       let n = hdr_size (mem (vcore s)) header;
       let bytes = bytes_at (mem (vcore s)) (header + HEADER_SIZE) (unat (if n < max_data_size then n else max_data_size));
       (s, fs) \<leftarrow> release_header ops (sv_handle sv) (Some header) fs s;
       Some (0, Some (bytes, n), s, ws, fs)
     }
   }"

text \<open>\<open>VCHI_HELD_MSG_T\<close>: the handle of the service and the header\<close>

definition vchi_msg_hold ::
  "ptr \<Rightarrow> u32 \<Rightarrow> vchi sched \<Rightarrow> vchi \<Rightarrow> (int \<times> (ptr \<times> u32 \<times> u32 \<times> nat) option \<times> vchi \<times> vchi sched) option" where
  "vchi_msg_hold p flags ws s = do {
     sv \<leftarrow> shims s p;
     if nothing_there flags sv then Some (- 1, None, s, ws)
     else do {
       (header, s, ws) \<leftarrow> shim_pop p ws s;
       sv \<leftarrow> shims s p;
       Some (0, Some (header + HEADER_SIZE, hdr_size (mem (vcore s)) header, sv_handle sv, header), s, ws)
     }
   }"

definition vchi_held_msg_release ::
  "vchiq_ops \<Rightarrow> u32 \<times> nat \<Rightarrow> vstate sched \<Rightarrow> vchi \<Rightarrow> (int \<times> vchi \<times> vstate sched) option" where
  "vchi_held_msg_release ops m fs s = do {
     (s, fs) \<leftarrow> release_header ops (fst m) (Some (snd m)) fs s;
     Some (0, s, fs)
   }"

text \<open>The retry loops: \<open>msleep\<close> yields, here to the next of the other tasks.\<close>

partial_function (option) retry_call ::
  "(vstate sched \<Rightarrow> vchi \<Rightarrow> (vchiq_status \<times> vchi \<times> vstate sched) option) \<Rightarrow> vstate sched \<Rightarrow> vchi
    \<Rightarrow> (vchiq_status \<times> vchi \<times> vstate sched) option" where
  [code]: "retry_call f fs s = do {
     (status, s, fs) \<leftarrow> f fs s;
     if status = VCHIQ_RETRY
     then (case fs of [] \<Rightarrow> None | g # fs' \<Rightarrow> retry_call f fs' (set_core (g (vcore s)) s))
     else Some (status, s, fs)
   }"

definition vchi_msg_queue ::
  "vchiq_ops \<Rightarrow> ptr \<Rightarrow> (nat \<Rightarrow> u8) option \<Rightarrow> u32 \<Rightarrow> vstate sched \<Rightarrow> vchi \<Rightarrow> (int \<times> vchi \<times> vstate sched) option" where
  "vchi_msg_queue ops p data n fs s = do {
     sv \<leftarrow> shims s p;
     (status, s, fs) \<leftarrow>
       retry_call (\<lambda>fs. on_vcore (vchiq_queue_message ops (sv_handle sv) [\<lparr>el_data = data, el_size = n\<rparr>] fs)) fs s;
     Some (vchiq_status_to_vchi status, s, fs)
   }"

definition vchi_msg_queuev ::
  "vchiq_ops \<Rightarrow> ptr \<Rightarrow> element list \<Rightarrow> vstate sched \<Rightarrow> vchi \<Rightarrow> (int \<times> vchi \<times> vstate sched) option" where
  "vchi_msg_queuev ops p vector fs s = do {
     sv \<leftarrow> shims s p;
     (status, s, fs) \<leftarrow> on_vcore (vchiq_queue_message ops (sv_handle sv) vector fs) s;
     Some (vchiq_status_to_vchi status, s, fs)
   }"

section \<open>Bulk transfers\<close>

text \<open>\<open>None\<close> is an unsupported combination of flags.\<close>

definition receive_mode :: "u32 \<Rightarrow> bulk_mode option" where
  "receive_mode flags =
     (if flags = VCHI_FLAGS_CALLBACK_WHEN_OP_COMPLETE OR VCHI_FLAGS_BLOCK_UNTIL_QUEUED then Some BULK_MODE_CALLBACK
      else if flags = VCHI_FLAGS_BLOCK_UNTIL_OP_COMPLETE then Some BULK_MODE_BLOCKING
      else if flags = VCHI_FLAGS_BLOCK_UNTIL_QUEUED \<or> flags = VCHI_FLAGS_NONE then Some BULK_MODE_NOCALLBACK
      else None)"

definition transmit_mode :: "u32 \<Rightarrow> bulk_mode option" where
  "transmit_mode flags =
     (if flags = VCHI_FLAGS_CALLBACK_WHEN_OP_COMPLETE OR VCHI_FLAGS_BLOCK_UNTIL_QUEUED then Some BULK_MODE_CALLBACK
      else if flags = VCHI_FLAGS_BLOCK_UNTIL_DATA_READ \<or> flags = VCHI_FLAGS_BLOCK_UNTIL_OP_COMPLETE then Some BULK_MODE_BLOCKING
      else if flags = VCHI_FLAGS_BLOCK_UNTIL_QUEUED \<or> flags = VCHI_FLAGS_NONE then Some BULK_MODE_NOCALLBACK
      else None)"

text \<open>\<open>pl\<close>, \<open>uninit\<close>, \<open>kz\<close> and \<open>pid\<close> are as in Vchiq_Kern; \<open>ud\<close> is \<open>bulk_handle\<close>.\<close>

definition vchi_bulk_queue_receive ::
  "vchiq_ops \<Rightarrow> ptr option \<Rightarrow> u32 \<Rightarrow> ptr option \<Rightarrow> u32 \<Rightarrow> ptr \<Rightarrow> ptr \<Rightarrow> u32 \<Rightarrow> u32 \<Rightarrow> ptr \<Rightarrow> vstate sched \<Rightarrow> vchi
    \<Rightarrow> (int \<times> vchi \<times> vstate sched) option" where
  "vchi_bulk_queue_receive ops pl uninit kz pid p data n flags ud fs s = do {
     sv \<leftarrow> shims s p;
     (case receive_mode flags of
        None \<Rightarrow> Some (vchiq_status_to_vchi VCHIQ_ERROR, s, fs)
      | Some mode \<Rightarrow> do {
          (status, s, fs) \<leftarrow>
            retry_call (\<lambda>fs. on_lib (vchiq_bulk_receive ops pl uninit kz pid (sv_handle sv) data n ud mode fs)) fs s;
          Some (vchiq_status_to_vchi status, s, fs)
        })
   }"

definition vchi_bulk_queue_transmit ::
  "vchiq_ops \<Rightarrow> ptr option \<Rightarrow> u32 \<Rightarrow> ptr option \<Rightarrow> u32 \<Rightarrow> ptr \<Rightarrow> ptr \<Rightarrow> u32 \<Rightarrow> u32 \<Rightarrow> ptr \<Rightarrow> vstate sched \<Rightarrow> vchi
    \<Rightarrow> (int \<times> vchi \<times> vstate sched) option" where
  "vchi_bulk_queue_transmit ops pl uninit kz pid p data n flags ud fs s = do {
     sv \<leftarrow> shims s p;
     (case transmit_mode flags of
        None \<Rightarrow> Some (vchiq_status_to_vchi VCHIQ_ERROR, s, fs)
      | Some mode \<Rightarrow> do {
          (status, s, fs) \<leftarrow>
            retry_call (\<lambda>fs. on_lib (vchiq_bulk_transmit ops pl uninit kz pid (sv_handle sv) data n ud mode fs)) fs s;
          Some (vchiq_status_to_vchi status, s, fs)
        })
   }"

section \<open>The callback\<close>

text \<open>
  \<open>client\<close> is the callback of the VCHI client: its address, its parameter, the reason and the
  bulk handle. The callback of VCHIQ passes no header except for a message.
\<close>

type_synonym vchi_client = "ptr \<Rightarrow> ptr \<Rightarrow> vchi_reason \<Rightarrow> ptr \<Rightarrow> vchi \<Rightarrow> vchi"

fun shim_reason :: "vchiq_reason \<Rightarrow> ptr \<Rightarrow> (vchi_reason \<times> ptr) option" where
  "shim_reason MESSAGE_AVAILABLE ud = Some (VCHI_CALLBACK_MSG_AVAILABLE, NULL)"
| "shim_reason BULK_TRANSMIT_DONE ud = Some (VCHI_CALLBACK_BULK_SENT, ud)"
| "shim_reason BULK_RECEIVE_DONE ud = Some (VCHI_CALLBACK_BULK_RECEIVED, ud)"
| "shim_reason SERVICE_CLOSED ud = Some (VCHI_CALLBACK_SERVICE_CLOSED, NULL)"
| "shim_reason SERVICE_OPENED ud = None"
| "shim_reason BULK_TRANSMIT_ABORTED ud = Some (VCHI_CALLBACK_BULK_TRANSMIT_ABORTED, ud)"
| "shim_reason BULK_RECEIVE_ABORTED ud = Some (VCHI_CALLBACK_BULK_RECEIVE_ABORTED, ud)"

definition shim_callback ::
  "vchi_client \<Rightarrow> vchiq_ops \<Rightarrow> vchiq_reason \<Rightarrow> nat option \<Rightarrow> u32 \<Rightarrow> ptr \<Rightarrow> vchi sched \<Rightarrow> vstate sched \<Rightarrow> vchi
    \<Rightarrow> (vchiq_status \<times> vchi \<times> vchi sched \<times> vstate sched) option" where
  "shim_callback client ops reason header h bulk_user ws fs s = do {
     let p = vchiq_get_service_userdata h (vcore s);
     sv \<leftarrow> shims s p;
     let tell = (\<lambda>s. case shim_reason reason bulk_user of
                       Some (r, ud) \<Rightarrow> client (sv_callback sv) (sv_param sv) r ud s | None \<Rightarrow> s);
     if sv_callback sv \<noteq> NULL \<and> reason = MESSAGE_AVAILABLE
     then do {
       m \<leftarrow> header;
       (s, ws) \<leftarrow> shim_push p m ws s;
       Some (VCHIQ_SUCCESS, tell s, ws, fs)
     }
     else do {
       let s = (if sv_callback sv \<noteq> NULL then tell s else s);
       sv \<leftarrow> shims s p;
       (s, fs) \<leftarrow> release_header ops (sv_handle sv) header fs s;
       Some (VCHIQ_SUCCESS, s, ws, fs)
     }
   }"

section \<open>Connection and services\<close>

text \<open>
  The instance that \<open>vchi_initialise\<close> writes out when it fails is whatever its local variable held
  (\<open>junk\<close>).
\<close>

definition vchi_initialise :: "(nat \<Rightarrow> bool) \<Rightarrow> ptr option \<Rightarrow> ptr \<Rightarrow> vchi \<Rightarrow> int \<times> ptr \<times> vchi" where
  "vchi_initialise ready kz junk s =
     (let (status, inst, l) = vchiq_initialise ready kz (lib s)
      in (vchiq_status_to_vchi status, case inst of Some i \<Rightarrow> i | None \<Rightarrow> junk, s\<lparr>lib := l\<rparr>))"

definition vchi_connect :: "vchiq_ops \<Rightarrow> ptr \<Rightarrow> vstate sched \<Rightarrow> vchi \<Rightarrow> (int \<times> vchi \<times> vstate sched) option" where
  "vchi_connect ops i fs s = do {
     (status, s, fs) \<leftarrow> on_lib (vchiq_connect ops i fs) s;
     Some (vchiq_status_to_vchi status, s, fs)
   }"

definition vchi_disconnect :: "vchiq_ops \<Rightarrow> bool \<Rightarrow> ptr \<Rightarrow> vstate sched \<Rightarrow> vchi \<Rightarrow> (int \<times> vchi \<times> vstate sched) option" where
  "vchi_disconnect ops on_handler i fs s = do {
     (status, s, fs) \<leftarrow> on_lib (vchiq_shutdown ops on_handler i fs) s;
     Some (vchiq_status_to_vchi status, s, fs)
   }"

record service_creation =
  sc_version :: u16
  sc_version_min :: u16
  sc_service_id :: u32
  sc_callback :: ptr
  sc_param :: ptr

text \<open>\<open>kz\<close> and \<open>qmem\<close> are the results of \<open>kzalloc\<close> for the service and for its queue.\<close>

definition service_alloc :: "ptr option \<Rightarrow> bool \<Rightarrow> service_creation \<Rightarrow> vchi \<Rightarrow> ptr option \<times> vchi" where
  "service_alloc kz qmem creation s =
     (case kz of
        None \<Rightarrow> (None, s)
      | Some p \<Rightarrow>
          let (q, ok) = vchiu_queue_init qmem 64
          in if ok \<noteq> 0
             then (Some p, s\<lparr>shims := (shims s)(p \<mapsto> \<lparr>sv_handle = 0, sv_queue = q, sv_callback = sc_callback creation,
                                                  sv_param = sc_param creation\<rparr>)\<rparr>)
             else (None, s))"

definition service_free :: "ptr \<Rightarrow> vchi \<Rightarrow> vchi" where
  "service_free p s = s\<lparr>shims := (shims s)(p := None)\<rparr>"

text \<open>\<open>cb\<close> is the address of \<open>shim_callback\<close>.\<close>

definition shim_params :: "ptr \<Rightarrow> ptr \<Rightarrow> service_creation \<Rightarrow> service_params" where
  "shim_params cb p creation = \<lparr>sp_fourcc = sc_service_id creation, sp_callback = cb, sp_userdata = p,
     sp_version = sc_version creation, sp_version_min = sc_version_min creation\<rparr>"

text \<open>The end of opening or creating: the handle is kept, or the service is freed. The result is the
  VCHI status and the handle of the VCHI service, \<open>NULL\<close> if there is none.\<close>

definition service_result :: "ptr \<Rightarrow> vchiq_status \<Rightarrow> u32 \<Rightarrow> vchi \<Rightarrow> int \<times> ptr \<times> vchi" where
  "service_result p status h s =
     (let s = upd_shim p (sv_handle_update (\<lambda>_. h)) s
      in if status \<noteq> VCHIQ_SUCCESS then (- 1, NULL, service_free p s) else (0, p, s))"

definition vchi_service_open ::
  "vchiq_ops \<Rightarrow> bool \<Rightarrow> u32 \<Rightarrow> ptr \<Rightarrow> service option \<Rightarrow> ptr option \<Rightarrow> bool \<Rightarrow> ptr \<Rightarrow> service_creation \<Rightarrow> vstate sched \<Rightarrow> vchi
    \<Rightarrow> (int \<times> ptr \<times> vchi \<times> vstate sched) option" where
  "vchi_service_open ops on_handler pid cb alloc kz qmem i creation fs s =
     (case service_alloc kz qmem creation s of
        (None, s) \<Rightarrow> Some (- 1, NULL, s, fs)
      | (Some p, s) \<Rightarrow> do {
          (status, h, l, fs) \<leftarrow> vchiq_open_service ops on_handler pid alloc i (shim_params cb p creation) fs (lib s);
          let (r, out, s) = service_result p status h (s\<lparr>lib := l\<rparr>);
          Some (r, out, s, fs)
        })"

definition vchi_service_create ::
  "ptr \<Rightarrow> service option \<Rightarrow> ptr option \<Rightarrow> bool \<Rightarrow> ptr \<Rightarrow> service_creation \<Rightarrow> vstate sched \<Rightarrow> vchi
    \<Rightarrow> (int \<times> ptr \<times> vchi \<times> vstate sched) option" where
  "vchi_service_create cb alloc kz qmem i creation fs s =
     (case service_alloc kz qmem creation s of
        (None, s) \<Rightarrow> Some (- 1, NULL, s, fs)
      | (Some p, s) \<Rightarrow> do {
          (status, h, l, fs) \<leftarrow> vchiq_add_service alloc i (shim_params cb p creation) fs (lib s);
          let (r, out, s) = service_result p status h (s\<lparr>lib := l\<rparr>);
          Some (r, out, s, fs)
        })"

definition vchi_service_close ::
  "vchiq_ops \<Rightarrow> bool \<Rightarrow> ptr \<Rightarrow> vstate sched \<Rightarrow> vchi \<Rightarrow> (int \<times> vchi \<times> vstate sched) option" where
  "vchi_service_close ops on_handler p fs s =
     (if p = NULL then Some (- 1, s, fs)
      else do {
        sv \<leftarrow> shims s p;
        (status, s, fs) \<leftarrow> on_vcore (vchiq_close_service ops on_handler (sv_handle sv) fs) s;
        Some (vchiq_status_to_vchi status, if status = VCHIQ_SUCCESS then service_free p s else s, fs)
      })"

definition vchi_service_destroy ::
  "vchiq_ops \<Rightarrow> bool \<Rightarrow> ptr \<Rightarrow> vstate sched \<Rightarrow> vchi \<Rightarrow> (int \<times> vchi \<times> vstate sched) option" where
  "vchi_service_destroy ops on_handler p fs s =
     (if p = NULL then Some (- 1, s, fs)
      else do {
        sv \<leftarrow> shims s p;
        (status, s, fs) \<leftarrow> on_vcore (vchiq_remove_service ops on_handler (sv_handle sv) fs) s;
        Some (vchiq_status_to_vchi status, if status = VCHIQ_SUCCESS then service_free p s else s, fs)
      })"

definition VCHI_SERVICE_OPTION_TRACE :: nat where "VCHI_SERVICE_OPTION_TRACE = 1"
definition VCHI_SERVICE_OPTION_SYNCHRONOUS :: nat where "VCHI_SERVICE_OPTION_SYNCHRONOUS = 2"

definition vchi_option :: "nat \<Rightarrow> service_option option" where
  "vchi_option n = (if n = VCHI_SERVICE_OPTION_TRACE then Some OPTION_TRACE
     else if n = VCHI_SERVICE_OPTION_SYNCHRONOUS then Some OPTION_SYNCHRONOUS else None)"

definition vchi_service_set_option :: "vchiq_ops \<Rightarrow> ptr \<Rightarrow> nat \<Rightarrow> int \<Rightarrow> vchi \<Rightarrow> (int \<times> vchi) option" where
  "vchi_service_set_option ops p opt v s =
     (if p = NULL \<or> vchi_option opt = None then Some (- 1, s)
      else do {
        sv \<leftarrow> shims s p;
        (status, c) \<leftarrow> vchiq_set_service_option ops (sv_handle sv) (vchi_option opt) v (vcore s);
        Some (vchiq_status_to_vchi status, set_core c s)
      })"

definition vchi_get_peer_version :: "vchiq_ops \<Rightarrow> ptr \<Rightarrow> bool \<Rightarrow> vchi \<Rightarrow> (int \<times> u16 option \<times> vchi) option" where
  "vchi_get_peer_version ops p has_buffer s =
     (if p = NULL then Some (- 1, None, s)
      else do {
        sv \<leftarrow> shims s p;
        (status, v, c) \<leftarrow> vchiq_get_peer_version ops (sv_handle sv) has_buffer (vcore s);
        Some (vchiq_status_to_vchi status, v, set_core c s)
      })"

definition vchi_service_use :: "vchiq_ops \<Rightarrow> ptr \<Rightarrow> vstate sched \<Rightarrow> vchi \<Rightarrow> (int \<times> vchi \<times> vstate sched) option" where
  "vchi_service_use ops p fs s =
     (if p = NULL then Some (- 1, s, fs)
      else do {
        sv \<leftarrow> shims s p;
        (status, s, fs) \<leftarrow> on_vcore (vchiq_use_service ops (sv_handle sv) fs) s;
        Some (vchiq_status_to_vchi status, s, fs)
      })"

definition vchi_service_release :: "vchiq_ops \<Rightarrow> ptr \<Rightarrow> vchi \<Rightarrow> (int \<times> vchi) option" where
  "vchi_service_release ops p s =
     (if p = NULL then Some (- 1, s)
      else do {
        sv \<leftarrow> shims s p;
        (status, c) \<leftarrow> vchiq_release_service ops (sv_handle sv) (vcore s);
        Some (vchiq_status_to_vchi status, set_core c s)
      })"

section \<open>Buffers\<close>

definition vchi_readbuf_uint32 :: "memory \<Rightarrow> nat \<Rightarrow> u32" where
  "vchi_readbuf_uint32 m a = ucast (m a) OR push_bit 8 (ucast (m (a + 1))) OR
     push_bit 16 (ucast (m (a + 2))) OR push_bit 24 (ucast (m (a + 3)))"

definition vchi_writebuf_uint32 :: "nat \<Rightarrow> u32 \<Rightarrow> memory \<Rightarrow> memory" where
  "vchi_writebuf_uint32 a v m = m(a := ucast (drop_bit 0 v AND 255), a + 1 := ucast (drop_bit 8 v AND 255),
     a + 2 := ucast (drop_bit 16 v AND 255), a + 3 := ucast (drop_bit 24 v AND 255))"

definition vchi_readbuf_uint16 :: "memory \<Rightarrow> nat \<Rightarrow> u16" where
  "vchi_readbuf_uint16 m a = ucast (m a) OR push_bit 8 (ucast (m (a + 1)))"

definition vchi_writebuf_uint16 :: "nat \<Rightarrow> u16 \<Rightarrow> memory \<Rightarrow> memory" where
  "vchi_writebuf_uint16 a v m = m(a := ucast (drop_bit 0 v AND 255), a + 1 := ucast (drop_bit 8 v AND 255))"

end
