(* ===== verification/Vchi_Messages.thy ===== *)
theory Vchi_Messages
  imports Vchi_Shim
begin

text \<open>
  What VCHI (Vchi_Shim) promises its clients about messages: each is handed out once, in the order
  of arrival, and goes back to the core once. The proofs see the queue of a service only through
  the laws of the locale \<open>fifo\<close> (interpretation \<open>vchiu\<close>).
\<close>

section \<open>The queue of a service\<close>

lemma shim_state [simp]:
  "vcore (upd_shim p f s) = vcore s" "shims (upd_shim p f s) = (shims s)(p := map_option f (shims s p))"
  "shims (set_core c s) = shims s" "vcore (set_core c s) = c"
  by (simp_all add: upd_shim_def set_core_def)

definition shim_contents :: "ptr \<Rightarrow> vchi \<Rightarrow> ptr list" where
  "shim_contents p s = (case shims s p of Some sv \<Rightarrow> queue_contents (sv_queue sv) | None \<Rightarrow> [])"

definition shim_ok :: "ptr \<Rightarrow> u32 \<Rightarrow> vchi \<Rightarrow> bool" where
  "shim_ok p h s \<longleftrightarrow> (\<exists>sv. shims s p = Some sv \<and> queue_inv (sv_queue sv) \<and> sv_handle sv = h \<and> sv_callback sv \<noteq> NULL)"

lemma shim_okE:
  assumes "shim_ok p h s"
  obtains sv where "shims s p = Some sv" "queue_inv (sv_queue sv)" "sv_handle sv = h" "sv_callback sv \<noteq> NULL"
    "shim_contents p s = queue_contents (sv_queue sv)"
  using assms by (auto simp: shim_ok_def shim_contents_def)

lemma queue_sems_only:
  "queue_contents (q_push_update f q) = queue_contents q" "queue_inv (q_push_update f q) = queue_inv q"
  "queue_contents (q_pop_update f q) = queue_contents q" "queue_inv (q_pop_update f q) = queue_inv q"
  by (simp_all add: queue_contents_def queue_inv_def split: option.split)

lemma sem_down_alone: "sem_down get upd [] s = (if get s \<noteq> 0 then Some (upd (\<lambda>c. c - 1) s, []) else None)"
  by (simp add: sem_down_def)

text \<open>A change of the semaphores alone\<close>

definition same_queue :: "ptr \<Rightarrow> vchi \<Rightarrow> vchi \<Rightarrow> bool" where
  "same_queue p s t \<longleftrightarrow> shim_contents p t = shim_contents p s \<and> vcore t = vcore s \<and> (\<forall>h. shim_ok p h s \<longrightarrow> shim_ok p h t)"

lemma same_queue_sem:
  "same_queue p s (upd_shim_queue p (q_push_update f) s)" "same_queue p s (upd_shim_queue p (q_pop_update f) s)"
  by (auto simp: same_queue_def shim_contents_def shim_ok_def queue_sems_only split: option.split)

lemma same_queue_trans: "same_queue p s t \<Longrightarrow> same_queue p t u \<Longrightarrow> same_queue p s u"
  by (simp add: same_queue_def)

lemma shim_pop_wait_alone:
  "shim_pop_wait p [] s = Some (t, ws) \<Longrightarrow> same_queue p s t \<and> shim_contents p t \<noteq> [] \<and> ws = []"
proof (induction "q_push (sv_queue (the (shims s p)))" arbitrary: s rule: less_induct)
  case less
  obtain sv where sv: "shims s p = Some sv" using less.prems by (subst (asm) shim_pop_wait.simps) (auto split: bind_splits)
  let ?u = "upd_shim_queue p (q_push_update (\<lambda>c. c - 1)) s"
  show ?case
  proof (cases "vchiu_queue_is_empty (sv_queue sv)")
    case True
    then have q: "q_push (sv_queue sv) \<noteq> 0" and u: "shim_pop_wait p [] ?u = Some (t, ws)"
      using less.prems sv by (subst (asm) shim_pop_wait.simps, auto simp: sem_down_alone split: if_splits)+
    have "q_push (sv_queue (the (shims ?u p))) < q_push (sv_queue (the (shims s p)))" using q sv by simp
    from less.hyps [OF this u] show ?thesis using same_queue_trans same_queue_sem(1) by blast
  next
    case False
    then have "t = s \<and> ws = []" using less.prems sv by (subst (asm) shim_pop_wait.simps) auto
    then show ?thesis using False sv by (simp add: same_queue_def shim_contents_def queue_empty_iff)
  qed
qed

lemma shim_push_wait_alone:
  "shim_push_wait p [] s = Some (t, ws) \<Longrightarrow> same_queue p s t \<and> \<not> vchiu_queue_is_full (sv_queue (the (shims t p))) \<and> ws = []"
proof (induction "q_pop (sv_queue (the (shims s p)))" arbitrary: s rule: less_induct)
  case less
  obtain sv where sv: "shims s p = Some sv" using less.prems by (subst (asm) shim_push_wait.simps) (auto split: bind_splits)
  let ?u = "upd_shim_queue p (q_pop_update (\<lambda>c. c - 1)) s"
  show ?case
  proof (cases "vchiu_queue_is_full (sv_queue sv)")
    case True
    then have q: "q_pop (sv_queue sv) \<noteq> 0" and u: "shim_push_wait p [] ?u = Some (t, ws)"
      using less.prems sv by (subst (asm) shim_push_wait.simps, auto simp: sem_down_alone split: if_splits)+
    have "q_pop (sv_queue (the (shims ?u p))) < q_pop (sv_queue (the (shims s p)))" using q sv by simp
    from less.hyps [OF this u] show ?thesis using same_queue_trans same_queue_sem(2) by blast
  next
    case False
    then have "t = s \<and> ws = []" using less.prems sv by (subst (asm) shim_push_wait.simps) auto
    then show ?thesis using False sv by (simp add: same_queue_def)
  qed
qed

text \<open>Without other tasks to wait for, a pop gives the head of the queue.\<close>

lemma shim_pop_alone:
  assumes "shim_ok p h s" "shim_pop p [] s = Some (m, t, ws)"
  shows "shim_ok p h t \<and> shim_contents p s = m # shim_contents p t \<and> vcore t = vcore s \<and> ws = []"
proof -
  obtain u where u: "shim_pop_wait p [] s = Some (u, ws)" using assms(2) by (auto simp: shim_pop_def split: bind_splits)
  note w = shim_pop_wait_alone [OF u]
  then have "shim_ok p h u" using assms(1) by (auto simp: same_queue_def)
  then obtain sv where sv: "shims u p = Some sv" "queue_inv (sv_queue sv)" "sv_handle sv = h" "sv_callback sv \<noteq> NULL"
    "shim_contents p u = queue_contents (sv_queue sv)" by (rule shim_okE)
  then have ne: "queue_contents (sv_queue sv) \<noteq> []" using w by simp
  have t: "m = fst (queue_take (sv_queue sv))" "t = upd_shim_queue p (\<lambda>q. snd (queue_take q)) u"
    using assms(2) u sv(1) by (auto simp: shim_pop_def)
  then have "shim_contents p t = queue_contents (snd (queue_take (sv_queue sv)))" "shim_ok p h t"
    using sv vchiu.deq_inv [OF sv(2) ne] by (simp_all add: shim_contents_def shim_ok_def)
  then show ?thesis using vchiu.deq_contents [OF sv(2) ne] w t sv by (simp add: same_queue_def)
qed

lemma shim_peek_alone:
  assumes "shim_ok p h s" "shim_peek p [] s = Some (m, t, ws)"
  shows "shim_ok p h t \<and> (\<exists>ms. shim_contents p s = m # ms) \<and> shim_contents p t = shim_contents p s \<and> vcore t = vcore s \<and> ws = []"
proof -
  obtain u where u: "shim_pop_wait p [] s = Some (u, ws)" using assms(2) by (auto simp: shim_peek_def split: bind_splits)
  note w = shim_pop_wait_alone [OF u]
  then have ok: "shim_ok p h u" using assms(1) by (auto simp: same_queue_def)
  then obtain sv where sv: "shims u p = Some sv" "queue_inv (sv_queue sv)" "shim_contents p u = queue_contents (sv_queue sv)" by (rule shim_okE)
  then have "queue_contents (sv_queue sv) = queue_head (sv_queue sv) # queue_contents (snd (queue_take (sv_queue sv)))"
    using vchiu.deq_contents [OF sv(2)] w by (simp add: queue_take_def)
  moreover have "m = queue_head (sv_queue sv)" "t = upd_shim_queue p (q_push_update sem_up) u"
    using assms(2) u sv(1) by (auto simp: shim_peek_def)
  ultimately have "t = upd_shim_queue p (q_push_update sem_up) u" "shim_contents p u = m # queue_contents (snd (queue_take (sv_queue sv)))"
    using sv(3) by simp_all
  then show ?thesis using w ok same_queue_sem(1) [of p u sem_up] unfolding same_queue_def by metis
qed

lemma shim_push_alone:
  assumes "shim_ok p h s" "shim_push p m [] s = Some (t, ws)"
  shows "shim_ok p h t \<and> shim_contents p t = shim_contents p s @ [m] \<and> vcore t = vcore s \<and> ws = []"
proof -
  obtain sv where "shims s p = Some sv" "q_initialized (sv_queue sv)" using assms(1) by (auto simp: shim_ok_def queue_inv_def)
  then obtain u where u: "shim_push_wait p [] s = Some (u, ws)" "t = upd_shim_queue p (queue_store m) u"
    using assms(2) by (auto simp: shim_push_def split: bind_splits)
  note w = shim_push_wait_alone [OF u(1)]
  then have "shim_ok p h u" using assms(1) by (auto simp: same_queue_def)
  then obtain sv where sv: "shims u p = Some sv" "queue_inv (sv_queue sv)" "sv_handle sv = h" "sv_callback sv \<noteq> NULL"
    "shim_contents p u = queue_contents (sv_queue sv)" by (rule shim_okE)
  then have room: "0 < queue_room (sv_queue sv)" using w queue_full_iff by simp
  show ?thesis
    using w u(2) sv vchiu.enq_contents [OF sv(2) room] vchiu.enq_inv [OF sv(2) room]
    by (simp add: shim_contents_def shim_ok_def same_queue_def)
qed

section \<open>Histories of a service\<close>

text \<open>
  What happens to the service at \<open>p\<close> with handle \<open>h\<close>: a message arrives (its client's callback only
  wakes a task), or the client calls. An event gives the headers it takes off the queue and those
  it gives back to the core.
\<close>

datatype vchi_action = Arrive nat | Dequeue u32 | Remove | Hold | Peek | Release nat

definition queue_first :: "ptr \<Rightarrow> int \<Rightarrow> vchi \<Rightarrow> ptr list" where
  "queue_first p r s = (if r = 0 then [hd (shim_contents p s)] else [])"

fun vchi_event :: "vchiq_ops \<Rightarrow> ptr \<Rightarrow> u32 \<Rightarrow> vchi_action \<Rightarrow> vchi \<Rightarrow> (ptr list \<times> ptr list \<times> vchi) option" where
  "vchi_event ops p h (Arrive m) s =
     (if vchiq_get_service_userdata h (vcore s) \<noteq> p then None
      else do {
        (_, t, _, _) \<leftarrow> shim_callback (\<lambda>_ _ _ _ s. s) ops MESSAGE_AVAILABLE (Some m) h NULL [] [] s;
        Some ([], [], t)
      })"
| "vchi_event ops p h (Dequeue n) s = do {
     (r, _, t, _, _) \<leftarrow> vchi_msg_dequeue ops p n VCHI_FLAGS_NONE [] [] s;
     Some (queue_first p r s, queue_first p r s, t)
   }"
| "vchi_event ops p h Remove s = do {
     (r, t, _, _) \<leftarrow> vchi_msg_remove ops p [] [] s;
     Some (queue_first p r s, queue_first p r s, t)
   }"
| "vchi_event ops p h Hold s = do {
     (r, _, t, _) \<leftarrow> vchi_msg_hold p VCHI_FLAGS_NONE [] s;
     Some (queue_first p r s, [], t)
   }"
| "vchi_event ops p h Peek s = do {
     (_, _, t, _) \<leftarrow> vchi_msg_peek p VCHI_FLAGS_NONE [] s;
     Some ([], [], t)
   }"
| "vchi_event ops p h (Release m) s = do {
     (_, t, _) \<leftarrow> vchi_held_msg_release ops (h, m) [] s;
     Some ([], [m], t)
   }"

fun vchi_run :: "vchiq_ops \<Rightarrow> ptr \<Rightarrow> u32 \<Rightarrow> vchi_action list \<Rightarrow> vchi \<Rightarrow> (ptr list \<times> ptr list \<times> vchi) option" where
  "vchi_run ops p h [] s = Some ([], [], s)"
| "vchi_run ops p h (e # es) s = do {
     (out, rel, s) \<leftarrow> vchi_event ops p h e s;
     (outs, rels, s) \<leftarrow> vchi_run ops p h es s;
     Some (out @ outs, rel @ rels, s)
   }"

fun arrivals :: "vchi_action list \<Rightarrow> ptr list" where
  "arrivals [] = []"
| "arrivals (Arrive m # es) = m # arrivals es"
| "arrivals (_ # es) = arrivals es"

text \<open>The core after the given headers have been released.\<close>

fun release_messages :: "vchiq_ops \<Rightarrow> u32 \<Rightarrow> ptr list \<Rightarrow> vstate \<Rightarrow> vstate option" where
  "release_messages ops h [] c = Some c"
| "release_messages ops h (m # ms) c = do {
     (c, fs) \<leftarrow> vchiq_release_message ops h m [] c;
     release_messages ops h ms c
   }"

lemma release_messages_append:
  "release_messages ops h (ms @ ns) c = release_messages ops h ms c \<bind> release_messages ops h ns"
  by (induction ms arbitrary: c) (auto split: bind_splits)

text \<open>What one event does.\<close>

definition event_spec :: "vchiq_ops \<Rightarrow> ptr \<Rightarrow> u32 \<Rightarrow> ptr list \<Rightarrow> vchi \<Rightarrow> ptr list \<Rightarrow> ptr list \<Rightarrow> vchi \<Rightarrow> bool" where
  "event_spec ops p h arr s out rel t \<longleftrightarrow>
     shim_ok p h t \<and> shim_contents p s @ arr = out @ shim_contents p t \<and> release_messages ops h rel (vcore s) = Some (vcore t)"

lemma release_header_spec:
  assumes "release_header ops h (Some m) [] s = Some (t, fs)" "shim_ok p h s"
  shows "shim_ok p h t \<and> shim_contents p t = shim_contents p s \<and> release_messages ops h [m] (vcore s) = Some (vcore t)"
  using assms by (auto simp: release_header_def shim_ok_def shim_contents_def split: bind_splits)

text \<open>Taking a message and releasing it\<close>

lemma pop_and_release:
  assumes ok: "shim_ok p h s" and pop: "shim_pop p [] s = Some (m, u, ws)" and sv: "shims u p = Some sv"
    and rel: "release_header ops (sv_handle sv) (Some m) [] u = Some (t, fs)"
  shows "event_spec ops p h [] s (queue_first p 0 s) (queue_first p 0 s) t"
proof -
  note u = shim_pop_alone [OF ok pop]
  then have "sv_handle sv = h" using sv by (auto simp: shim_ok_def)
  then show ?thesis using release_header_spec [OF rel, of p] u by (auto simp: event_spec_def queue_first_def simp del: release_messages.simps)
qed

lemma event_none: "shim_ok p h s \<Longrightarrow> r \<noteq> 0 \<Longrightarrow> event_spec ops p h [] s (queue_first p r s) (queue_first p r s) s"
  by (simp add: event_spec_def queue_first_def)

lemma dequeue_spec:
  assumes ok: "shim_ok p h s" and ev: "vchi_msg_dequeue ops p n flags [] [] s = Some (r, out, t, ws, fs)"
  shows "event_spec ops p h [] s (queue_first p r s) (queue_first p r s) t"
proof -
  obtain sv where sv: "shims s p = Some sv" using ok by (rule shim_okE)
  show ?thesis
  proof (cases "nothing_there flags sv")
    case True
    then have "r = - 1" "t = s" using ev sv by (simp_all add: vchi_msg_dequeue_def)
    then show ?thesis using event_none [OF ok, of "- 1"] by simp
  next
    case False
    then obtain m u vs sv' where "shim_pop p [] s = Some (m, u, vs)" "shims u p = Some sv'"
      "release_header ops (sv_handle sv') (Some m) [] u = Some (t, fs)" "r = 0"
      using ev sv by (auto simp: vchi_msg_dequeue_def Let_def split: bind_splits)
    then show ?thesis using pop_and_release [OF ok] by blast
  qed
qed

lemma remove_spec:
  assumes ok: "shim_ok p h s" and ev: "vchi_msg_remove ops p [] [] s = Some (r, t, ws, fs)"
  shows "event_spec ops p h [] s (queue_first p r s) (queue_first p r s) t"
proof -
  obtain m u vs sv' where "shim_pop p [] s = Some (m, u, vs)" "shims u p = Some sv'"
    "release_header ops (sv_handle sv') (Some m) [] u = Some (t, fs)" "r = 0"
    using ev by (auto simp: vchi_msg_remove_def split: bind_splits)
  then show ?thesis using pop_and_release [OF ok] by blast
qed

lemma hold_spec:
  assumes ok: "shim_ok p h s" and ev: "vchi_msg_hold p flags [] s = Some (r, out, t, ws)"
  shows "event_spec ops p h [] s (queue_first p r s) [] t"
proof -
  obtain sv where sv: "shims s p = Some sv" using ok by (rule shim_okE)
  show ?thesis
  proof (cases "nothing_there flags sv")
    case True
    then have "r = - 1" "t = s" using ev sv by (simp_all add: vchi_msg_hold_def)
    then show ?thesis using ok by (simp add: event_spec_def queue_first_def)
  next
    case False
    then obtain m where m: "shim_pop p [] s = Some (m, t, ws)" "r = 0"
      using ev sv by (auto simp: vchi_msg_hold_def split: bind_splits)
    then show ?thesis using shim_pop_alone [OF ok m(1)] by (simp add: event_spec_def queue_first_def)
  qed
qed

lemma peek_spec:
  assumes ok: "shim_ok p h s" and ev: "vchi_msg_peek p flags [] s = Some (r, out, t, ws)"
  shows "event_spec ops p h [] s [] [] t"
proof -
  obtain sv where sv: "shims s p = Some sv" using ok by (rule shim_okE)
  show ?thesis
  proof (cases "nothing_there flags sv")
    case True
    then have "t = s" using ev sv by (simp add: vchi_msg_peek_def)
    then show ?thesis using ok by (simp add: event_spec_def)
  next
    case False
    then obtain m where m: "shim_peek p [] s = Some (m, t, ws)"
      using ev sv by (auto simp: vchi_msg_peek_def split: bind_splits)
    then show ?thesis using shim_peek_alone [OF ok m] by (simp add: event_spec_def)
  qed
qed

lemma arrive_spec:
  assumes ok: "shim_ok p h s" and ev: "vchi_event ops p h (Arrive m) s = Some (out, rel, t)"
  shows "event_spec ops p h [m] s out rel t"
proof -
  obtain sv where sv: "shims s p = Some sv" "sv_callback sv \<noteq> NULL" using ok by (rule shim_okE)
  obtain ws where "shim_push p m [] s = Some (t, ws)" "out = []" "rel = []"
    using ev sv by (auto simp: shim_callback_def Let_def split: bind_splits if_splits)
  then show ?thesis using shim_push_alone [OF ok] by (auto simp: event_spec_def)
qed

lemma vchi_event_spec:
  assumes ok: "shim_ok p h s" and ev: "vchi_event ops p h e s = Some (out, rel, t)"
  shows "event_spec ops p h (arrivals [e]) s out rel t"
proof (cases e)
  case (Arrive m)
  then show ?thesis using arrive_spec [OF ok] ev by simp
next
  case (Release m)
  then show ?thesis using ev release_header_spec [OF _ ok]
    by (auto simp: vchi_held_msg_release_def event_spec_def split: bind_splits)
qed (use ev dequeue_spec [OF ok] remove_spec [OF ok] hold_spec [OF ok] peek_spec [OF ok] in \<open>auto split: bind_splits\<close>)

section \<open>Properties\<close>


lemma bytes_at_take: "take k (bytes_at m a n) = bytes_at m a (min n k)"
  by (cases "k \<le> n") (simp_all add: bytes_at_def take_map min_def take_upt)

text \<open>
  Dequeuing gives the client the first message of the queue: its size and as many of its bytes
  as the buffer of the client holds; the message leaves the queue and is released.
\<close>

theorem vchi_dequeue_data:
  assumes "shim_ok p h s" "shim_contents p s = m # ms" "vchi_msg_dequeue ops p n flags [] [] s = Some (r, out, t, ws, fs)"
  shows "r = 0 \<and> out = Some (take (unat n) (bytes_at (mem (vcore s)) (m + 8) (unat (hdr_size (mem (vcore s)) m))), hdr_size (mem (vcore s)) m) \<and>
    shim_contents p t = ms \<and> vchiq_release_message ops h m [] (vcore s) = Some (vcore t, fs)"
proof -
  obtain sv where sv: "shims s p = Some sv" "shim_contents p s = queue_contents (sv_queue sv)" using assms(1) by (rule shim_okE)
  then have "queue_contents (sv_queue sv) \<noteq> []" using assms(2) by (metis list.distinct(1))
  then have "\<not> nothing_there flags sv" by (simp add: nothing_there_def queue_empty_iff)
  from this obtain m' u vs sv' where pop: "shim_pop p [] s = Some (m', u, vs)" and sv': "shims u p = Some sv'"
    and rel: "release_header ops (sv_handle sv') (Some m') [] u = Some (t, fs)" and r: "r = 0"
    and out: "out = Some (bytes_at (mem (vcore u)) (m' + 8) (unat (if hdr_size (mem (vcore u)) m' < n then hdr_size (mem (vcore u)) m' else n)),
      hdr_size (mem (vcore u)) m')"
    using assms(3) sv(1) by (auto simp: vchi_msg_dequeue_def Let_def split: bind_splits)
  note u = shim_pop_alone [OF assms(1) pop]
  then have "m' = m" "shim_contents p u = ms" "vcore u = vcore s" "sv_handle sv' = h" using assms(2) sv' by (auto simp: shim_ok_def)
  moreover have "unat (if a < n then a else n) = min (unat a) (unat n)" for a :: u32
    by (simp add: min_def word_less_nat_alt)
  then have "out = Some (take (unat n) (bytes_at (mem (vcore u)) (m' + 8) (unat (hdr_size (mem (vcore u)) m'))), hdr_size (mem (vcore u)) m')"
    unfolding out bytes_at_take by (simp only:)
  ultimately show ?thesis using r release_header_spec [OF rel, of p] rel u
    by (auto simp: release_header_def split: bind_splits)
qed


text \<open>
  The service 0 of \<open>open_state\<close> as a VCHI service, with a claimed message of three bytes in slot 2 of
  the other side.
\<close>

definition vchi_open :: vchi where
  "vchi_open = \<lparr>lib = \<lparr>core = open_state\<lparr>
      mem := store32 8192 (MSGID_CLAIMED OR make_msg MSG_DATA 7 0) (store32 8196 3 ((\<lambda>_. 0)(8200 := 10, 8201 := 20, 8202 := 30))),
      remote := (local open_state)\<lparr>slot_first := 2, slot_last := 32, slot_sync := 1\<rparr>,
      slot_infos := (\<lambda>_. \<lparr>use_count = 2, release_count = 0\<rparr>), services := [0 \<mapsto> demo_service\<lparr>userdata := 80\<rparr>]\<rparr>, instances = [64 \<mapsto> \<lparr>connected = True, bulk_waiter_list = []\<rparr>]\<rparr>,
    shims = [80 \<mapsto> \<lparr>sv_handle = 4096, sv_queue = fst (vchiu_queue_init True 64), sv_callback = 48, sv_param = 0\<rparr>]\<rparr>"

definition vchi_got :: vchi where
  "vchi_got = upd_shim_queue 80 (queue_store 8192) vchi_open"

lemma vchi_open_ok: "shim_ok 80 4096 vchi_open" "shim_contents 80 vchi_open = []"
  using init_inv [of 64] by (simp_all add: shim_ok_def shim_contents_def vchi_open_def is_pow2_def)

lemma vchi_open_message:
  "hdr_msgid (mem (vcore vchi_open)) 8192 = MSGID_CLAIMED OR make_msg MSG_DATA 7 0" "hdr_size (mem (vcore vchi_open)) 8192 = 3"
  "bytes_at (mem (vcore vchi_open)) 8200 2 = [10, 20]"
proof -
  show "hdr_msgid (mem (vcore vchi_open)) 8192 = MSGID_CLAIMED OR make_msg MSG_DATA 7 0"
    by (simp add: vchi_open_def hdr_msgid_def load32_store32_same)
  have "load32 (store32 8192 w m) 8196 = load32 m 8196" for w m by (rule load32_cong) (simp add: store32_def)
  then show "hdr_size (mem (vcore vchi_open)) 8192 = 3" by (simp add: vchi_open_def hdr_size_def load32_store32_same)
  show "bytes_at (mem (vcore vchi_open)) 8200 2 = [10, 20]"
    by (simp add: vchi_open_def bytes_at_def store32_def upt_conv_Cons)
qed

lemma vchi_arrive: "vchi_event ops 80 4096 (Arrive 8192) vchi_open = Some ([], [], vchi_got)"
proof -
  have q: "\<not> vchiu_queue_is_full (fst (vchiu_queue_init True 64))" "q_initialized (fst (vchiu_queue_init True 64))"
    by (simp_all add: vchiu_queue_is_full_def vchiu_queue_init_def)
  then have "shim_push_wait 80 [] vchi_open = Some (vchi_open, [])"
    by (subst shim_push_wait.simps) (simp add: vchi_open_def)
  then have "shim_push 80 8192 [] vchi_open = Some (vchi_got, [])"
    using q by (simp add: shim_push_def vchi_got_def) (simp add: vchi_open_def)
  moreover have "vchiq_get_service_userdata 4096 (vcore vchi_open) = 80"
    by (simp add: vchiq_get_service_userdata_def handle_to_service_def handle_port_def vchi_open_def)
  ultimately show ?thesis by (simp add: shim_callback_def) (simp add: vchi_open_def)
qed

lemma vchi_got_ok: "shim_ok 80 4096 vchi_got" "shim_contents 80 vchi_got = [8192]" "vcore vchi_got = vcore vchi_open"
  using vchi_event_spec [OF vchi_open_ok(1) vchi_arrive, unfolded event_spec_def] vchi_open_ok(2) by (simp_all add: vchi_got_def)

text \<open>The release of the message\<close>

lemma vchi_release: "\<exists>c. vchiq_release_message ops 4096 8192 [] (vcore vchi_open) = Some (c, [])"
  by (simp add: vchi_open_def vchiq_release_message_def find_service_by_handle_def find_service_def handle_port_def
    slot_index_from_data_def unlock_service_def upd_service_def release_slot_def mutex_acquire_def mutex_release_def
    release_slot_body_def release_count_up_def Let_def upd_slot_info_def recycle_slot_def hdr_msgid_def load32_store32_same
    make_msg_def service_closing_def)

lemma vchi_dequeued: "\<exists>t. vchi_msg_dequeue ops 80 2 VCHI_FLAGS_NONE [] [] vchi_got = Some (0, Some ([10, 20], 3), t, [], [])"
proof -
  obtain sv where sv: "shims vchi_got 80 = Some sv" "sv_handle sv = 4096" "shim_contents 80 vchi_got = queue_contents (sv_queue sv)"
    using vchi_got_ok(1) by (rule shim_okE)
  then have e: "\<not> vchiu_queue_is_empty (sv_queue sv)" using vchi_got_ok(2) queue_empty_iff [of "sv_queue sv"] by (metis list.distinct(1))
  then have "shim_pop_wait 80 [] vchi_got = Some (vchi_got, [])" using sv by (subst shim_pop_wait.simps) simp
  then obtain m u where u: "shim_pop 80 [] vchi_got = Some (m, u, [])" using sv by (simp add: shim_pop_def)
  note p = shim_pop_alone [OF vchi_got_ok(1) u]
  then have m: "m = 8192" and c: "vcore u = vcore vchi_open" using vchi_got_ok by simp_all
  obtain sv' where sv': "shims u 80 = Some sv'" "sv_handle sv' = 4096" using p by (auto elim: shim_okE)
  obtain d where d: "vchiq_release_message ops 4096 8192 [] (vcore vchi_open) = Some (d, [])" using vchi_release by blast
  show ?thesis
    using e sv sv' u m c d vchi_open_message by (simp add: vchi_msg_dequeue_def nothing_there_def Let_def release_header_def)
qed


lemma vchi_dequeue_data_witness:
  "\<forall>ops. \<exists>t. vchi_msg_dequeue ops 80 2 VCHI_FLAGS_NONE [] [] vchi_got = Some (0, Some ([10, 20], 3), t, [], []) \<and> shim_contents 80 t = []" (is "\<forall>ops. ?P ops")
proof
  fix ops
  obtain t where t: "vchi_msg_dequeue ops 80 2 VCHI_FLAGS_NONE [] [] vchi_got = Some (0, Some ([10, 20], 3), t, [], [])"
    using vchi_dequeued by blast
  with vchi_dequeue_data [OF vchi_got_ok(1,2) t] show "?P ops" by blast
qed


end
