(* ===== verification/Khrn_Image.thy ===== *)
theory Khrn_Image
  imports Khrn_Util
begin

text \<open>
  circle/addon/vc4/interface/khronos/common/khrn_int_image.h and khrn_int_image.c: the image formats of
  the Khronos client. A format packs into 32 bits how the pixels lie in memory (in raster order, or in
  the tiles of the hardware), how many bits a pixel has and which channels they hold. The functions that
  read a format return \<open>None\<close> where an assertion fails or \<open>UNREACHABLE\<close> is reached. The code for
  the chip version without \<open>WORKAROUND_HW2038\<close> is modelled, which the build of Circle gets.
\<close>

section \<open>Formats\<close>

named_theorems image_bits \<open>the fields of the image formats\<close>
named_theorems image_values \<open>the image formats as numbers\<close>

definition IMAGE_FORMAT_MEM_LAYOUT_MASK :: u32 where [image_bits]: "IMAGE_FORMAT_MEM_LAYOUT_MASK = 0x7"
definition IMAGE_FORMAT_RSO :: u32 where [image_bits]: "IMAGE_FORMAT_RSO = 0"
definition IMAGE_FORMAT_BRCM1 :: u32 where [image_bits]: "IMAGE_FORMAT_BRCM1 = 1"
definition IMAGE_FORMAT_BRCM2 :: u32 where [image_bits]: "IMAGE_FORMAT_BRCM2 = 2"
definition IMAGE_FORMAT_BRCM3 :: u32 where [image_bits]: "IMAGE_FORMAT_BRCM3 = 3"
definition IMAGE_FORMAT_BRCM4 :: u32 where [image_bits]: "IMAGE_FORMAT_BRCM4 = 4"
definition IMAGE_FORMAT_COMP_MASK :: u32 where [image_bits]: "IMAGE_FORMAT_COMP_MASK = push_bit 6 0x3"
definition IMAGE_FORMAT_UNCOMP :: u32 where [image_bits]: "IMAGE_FORMAT_UNCOMP = push_bit 6 0"
definition IMAGE_FORMAT_ETC1 :: u32 where [image_bits]: "IMAGE_FORMAT_ETC1 = push_bit 6 1"
definition IMAGE_FORMAT_YUYV :: u32 where [image_bits]: "IMAGE_FORMAT_YUYV = push_bit 6 3"
definition IMAGE_FORMAT_PIXEL_SIZE_MASK :: u32 where [image_bits]: "IMAGE_FORMAT_PIXEL_SIZE_MASK = push_bit 3 0x7"
definition IMAGE_FORMAT_1 :: u32 where [image_bits]: "IMAGE_FORMAT_1 = push_bit 3 0"
definition IMAGE_FORMAT_4 :: u32 where [image_bits]: "IMAGE_FORMAT_4 = push_bit 3 1"
definition IMAGE_FORMAT_8 :: u32 where [image_bits]: "IMAGE_FORMAT_8 = push_bit 3 2"
definition IMAGE_FORMAT_16 :: u32 where [image_bits]: "IMAGE_FORMAT_16 = push_bit 3 3"
definition IMAGE_FORMAT_24 :: u32 where [image_bits]: "IMAGE_FORMAT_24 = push_bit 3 4"
definition IMAGE_FORMAT_32 :: u32 where [image_bits]: "IMAGE_FORMAT_32 = push_bit 3 5"
definition IMAGE_FORMAT_64 :: u32 where [image_bits]: "IMAGE_FORMAT_64 = push_bit 3 6"
definition IMAGE_FORMAT_PIXEL_TYPE_MASK :: u32 where [image_bits]: "IMAGE_FORMAT_PIXEL_TYPE_MASK = push_bit 8 0x3"
definition IMAGE_FORMAT_COLOR :: u32 where [image_bits]: "IMAGE_FORMAT_COLOR = push_bit 8 0"
definition IMAGE_FORMAT_PALETTE :: u32 where [image_bits]: "IMAGE_FORMAT_PALETTE = push_bit 8 1"
definition IMAGE_FORMAT_SAMPLE :: u32 where [image_bits]: "IMAGE_FORMAT_SAMPLE = push_bit 8 2"
definition IMAGE_FORMAT_DEPTH :: u32 where [image_bits]: "IMAGE_FORMAT_DEPTH = push_bit 8 3"
definition IMAGE_FORMAT_RGB :: u32 where [image_bits]: "IMAGE_FORMAT_RGB = push_bit 10 1"
definition IMAGE_FORMAT_L :: u32 where [image_bits]: "IMAGE_FORMAT_L = push_bit 11 1"
definition IMAGE_FORMAT_A :: u32 where [image_bits]: "IMAGE_FORMAT_A = push_bit 12 1"
definition IMAGE_FORMAT_XBGRX :: u32 where [image_bits]: "IMAGE_FORMAT_XBGRX = push_bit 13 0"
definition IMAGE_FORMAT_XRGBX :: u32 where [image_bits]: "IMAGE_FORMAT_XRGBX = push_bit 13 1"
definition IMAGE_FORMAT_YUYV_STD :: u32 where [image_bits]: "IMAGE_FORMAT_YUYV_STD = push_bit 13 0"
definition IMAGE_FORMAT_YUYV_REV :: u32 where [image_bits]: "IMAGE_FORMAT_YUYV_REV = push_bit 13 1"
definition IMAGE_FORMAT_AX :: u32 where [image_bits]: "IMAGE_FORMAT_AX = push_bit 14 0"
definition IMAGE_FORMAT_XA :: u32 where [image_bits]: "IMAGE_FORMAT_XA = push_bit 14 1"
definition IMAGE_FORMAT_PIXEL_LAYOUT_MASK :: u32 where [image_bits]: "IMAGE_FORMAT_PIXEL_LAYOUT_MASK = push_bit 15 0x7"
definition IMAGE_FORMAT_8888 :: u32 where [image_bits]: "IMAGE_FORMAT_8888 = push_bit 15 1"
definition IMAGE_FORMAT_888 :: u32 where [image_bits]: "IMAGE_FORMAT_888 = push_bit 15 1"
definition IMAGE_FORMAT_4444 :: u32 where [image_bits]: "IMAGE_FORMAT_4444 = push_bit 15 1"
definition IMAGE_FORMAT_5551 :: u32 where [image_bits]: "IMAGE_FORMAT_5551 = push_bit 15 2"
definition IMAGE_FORMAT_565 :: u32 where [image_bits]: "IMAGE_FORMAT_565 = push_bit 15 3"
definition IMAGE_FORMAT_88 :: u32 where [image_bits]: "IMAGE_FORMAT_88 = push_bit 15 4"
definition IMAGE_FORMAT_PRE :: u32 where [image_bits]: "IMAGE_FORMAT_PRE = push_bit 18 1"
definition IMAGE_FORMAT_LIN :: u32 where [image_bits]: "IMAGE_FORMAT_LIN = push_bit 19 1"
definition IMAGE_FORMAT_Z :: u32 where [image_bits]: "IMAGE_FORMAT_Z = push_bit 10 1"
definition IMAGE_FORMAT_STENCIL :: u32 where [image_bits]: "IMAGE_FORMAT_STENCIL = push_bit 11 1"

text \<open>The formats, with \<open>IMAGE_FORMAT_PACK\<close> written out.\<close>

definition RGBA_8888 :: u32 where
  "RGBA_8888 = IMAGE_FORMAT_UNCOMP OR IMAGE_FORMAT_32 OR IMAGE_FORMAT_COLOR OR IMAGE_FORMAT_RGB OR IMAGE_FORMAT_A OR IMAGE_FORMAT_XRGBX OR IMAGE_FORMAT_XA OR IMAGE_FORMAT_8888"
definition BGRA_8888 :: u32 where
  "BGRA_8888 = IMAGE_FORMAT_UNCOMP OR IMAGE_FORMAT_32 OR IMAGE_FORMAT_COLOR OR IMAGE_FORMAT_RGB OR IMAGE_FORMAT_A OR IMAGE_FORMAT_XBGRX OR IMAGE_FORMAT_XA OR IMAGE_FORMAT_8888"
definition ARGB_8888 :: u32 where
  "ARGB_8888 = IMAGE_FORMAT_UNCOMP OR IMAGE_FORMAT_32 OR IMAGE_FORMAT_COLOR OR IMAGE_FORMAT_RGB OR IMAGE_FORMAT_A OR IMAGE_FORMAT_XRGBX OR IMAGE_FORMAT_AX OR IMAGE_FORMAT_8888"
definition ABGR_8888 :: u32 where
  "ABGR_8888 = IMAGE_FORMAT_UNCOMP OR IMAGE_FORMAT_32 OR IMAGE_FORMAT_COLOR OR IMAGE_FORMAT_RGB OR IMAGE_FORMAT_A OR IMAGE_FORMAT_XBGRX OR IMAGE_FORMAT_AX OR IMAGE_FORMAT_8888"
definition RGBX_8888 :: u32 where
  "RGBX_8888 = IMAGE_FORMAT_UNCOMP OR IMAGE_FORMAT_32 OR IMAGE_FORMAT_COLOR OR IMAGE_FORMAT_RGB OR IMAGE_FORMAT_XRGBX OR IMAGE_FORMAT_XA OR IMAGE_FORMAT_8888"
definition BGRX_8888 :: u32 where
  "BGRX_8888 = IMAGE_FORMAT_UNCOMP OR IMAGE_FORMAT_32 OR IMAGE_FORMAT_COLOR OR IMAGE_FORMAT_RGB OR IMAGE_FORMAT_XBGRX OR IMAGE_FORMAT_XA OR IMAGE_FORMAT_8888"
definition XRGB_8888 :: u32 where
  "XRGB_8888 = IMAGE_FORMAT_UNCOMP OR IMAGE_FORMAT_32 OR IMAGE_FORMAT_COLOR OR IMAGE_FORMAT_RGB OR IMAGE_FORMAT_XRGBX OR IMAGE_FORMAT_AX OR IMAGE_FORMAT_8888"
definition XBGR_8888 :: u32 where
  "XBGR_8888 = IMAGE_FORMAT_UNCOMP OR IMAGE_FORMAT_32 OR IMAGE_FORMAT_COLOR OR IMAGE_FORMAT_RGB OR IMAGE_FORMAT_XBGRX OR IMAGE_FORMAT_AX OR IMAGE_FORMAT_8888"
definition RGB_888 :: u32 where
  "RGB_888 = IMAGE_FORMAT_UNCOMP OR IMAGE_FORMAT_24 OR IMAGE_FORMAT_COLOR OR IMAGE_FORMAT_RGB OR IMAGE_FORMAT_XRGBX OR IMAGE_FORMAT_888"
definition BGR_888 :: u32 where
  "BGR_888 = IMAGE_FORMAT_UNCOMP OR IMAGE_FORMAT_24 OR IMAGE_FORMAT_COLOR OR IMAGE_FORMAT_RGB OR IMAGE_FORMAT_XBGRX OR IMAGE_FORMAT_888"
definition RGBA_4444 :: u32 where
  "RGBA_4444 = IMAGE_FORMAT_UNCOMP OR IMAGE_FORMAT_16 OR IMAGE_FORMAT_COLOR OR IMAGE_FORMAT_RGB OR IMAGE_FORMAT_A OR IMAGE_FORMAT_XRGBX OR IMAGE_FORMAT_XA OR IMAGE_FORMAT_4444"
definition BGRA_4444 :: u32 where
  "BGRA_4444 = IMAGE_FORMAT_UNCOMP OR IMAGE_FORMAT_16 OR IMAGE_FORMAT_COLOR OR IMAGE_FORMAT_RGB OR IMAGE_FORMAT_A OR IMAGE_FORMAT_XBGRX OR IMAGE_FORMAT_XA OR IMAGE_FORMAT_4444"
definition ARGB_4444 :: u32 where
  "ARGB_4444 = IMAGE_FORMAT_UNCOMP OR IMAGE_FORMAT_16 OR IMAGE_FORMAT_COLOR OR IMAGE_FORMAT_RGB OR IMAGE_FORMAT_A OR IMAGE_FORMAT_XRGBX OR IMAGE_FORMAT_AX OR IMAGE_FORMAT_4444"
definition ABGR_4444 :: u32 where
  "ABGR_4444 = IMAGE_FORMAT_UNCOMP OR IMAGE_FORMAT_16 OR IMAGE_FORMAT_COLOR OR IMAGE_FORMAT_RGB OR IMAGE_FORMAT_A OR IMAGE_FORMAT_XBGRX OR IMAGE_FORMAT_AX OR IMAGE_FORMAT_4444"
definition RGBA_5551 :: u32 where
  "RGBA_5551 = IMAGE_FORMAT_UNCOMP OR IMAGE_FORMAT_16 OR IMAGE_FORMAT_COLOR OR IMAGE_FORMAT_RGB OR IMAGE_FORMAT_A OR IMAGE_FORMAT_XRGBX OR IMAGE_FORMAT_XA OR IMAGE_FORMAT_5551"
definition BGRA_5551 :: u32 where
  "BGRA_5551 = IMAGE_FORMAT_UNCOMP OR IMAGE_FORMAT_16 OR IMAGE_FORMAT_COLOR OR IMAGE_FORMAT_RGB OR IMAGE_FORMAT_A OR IMAGE_FORMAT_XBGRX OR IMAGE_FORMAT_XA OR IMAGE_FORMAT_5551"
definition ARGB_1555 :: u32 where
  "ARGB_1555 = IMAGE_FORMAT_UNCOMP OR IMAGE_FORMAT_16 OR IMAGE_FORMAT_COLOR OR IMAGE_FORMAT_RGB OR IMAGE_FORMAT_A OR IMAGE_FORMAT_XRGBX OR IMAGE_FORMAT_AX OR IMAGE_FORMAT_5551"
definition ABGR_1555 :: u32 where
  "ABGR_1555 = IMAGE_FORMAT_UNCOMP OR IMAGE_FORMAT_16 OR IMAGE_FORMAT_COLOR OR IMAGE_FORMAT_RGB OR IMAGE_FORMAT_A OR IMAGE_FORMAT_XBGRX OR IMAGE_FORMAT_AX OR IMAGE_FORMAT_5551"
definition RGB_565 :: u32 where
  "RGB_565 = IMAGE_FORMAT_UNCOMP OR IMAGE_FORMAT_16 OR IMAGE_FORMAT_COLOR OR IMAGE_FORMAT_RGB OR IMAGE_FORMAT_XRGBX OR IMAGE_FORMAT_565"
definition BGR_565 :: u32 where
  "BGR_565 = IMAGE_FORMAT_UNCOMP OR IMAGE_FORMAT_16 OR IMAGE_FORMAT_COLOR OR IMAGE_FORMAT_RGB OR IMAGE_FORMAT_XBGRX OR IMAGE_FORMAT_565"
definition LA_88 :: u32 where
  "LA_88 = IMAGE_FORMAT_UNCOMP OR IMAGE_FORMAT_16 OR IMAGE_FORMAT_COLOR OR IMAGE_FORMAT_L OR IMAGE_FORMAT_A OR IMAGE_FORMAT_XA OR IMAGE_FORMAT_88"
definition AL_88 :: u32 where
  "AL_88 = IMAGE_FORMAT_UNCOMP OR IMAGE_FORMAT_16 OR IMAGE_FORMAT_COLOR OR IMAGE_FORMAT_L OR IMAGE_FORMAT_A OR IMAGE_FORMAT_AX OR IMAGE_FORMAT_88"
definition L_8 :: u32 where
  "L_8 = IMAGE_FORMAT_UNCOMP OR IMAGE_FORMAT_8 OR IMAGE_FORMAT_COLOR OR IMAGE_FORMAT_L"
definition L_1 :: u32 where
  "L_1 = IMAGE_FORMAT_UNCOMP OR IMAGE_FORMAT_1 OR IMAGE_FORMAT_COLOR OR IMAGE_FORMAT_L"
definition A_8 :: u32 where
  "A_8 = IMAGE_FORMAT_UNCOMP OR IMAGE_FORMAT_8 OR IMAGE_FORMAT_COLOR OR IMAGE_FORMAT_A"
definition A_4 :: u32 where
  "A_4 = IMAGE_FORMAT_UNCOMP OR IMAGE_FORMAT_4 OR IMAGE_FORMAT_COLOR OR IMAGE_FORMAT_A"
definition A_1 :: u32 where
  "A_1 = IMAGE_FORMAT_UNCOMP OR IMAGE_FORMAT_1 OR IMAGE_FORMAT_COLOR OR IMAGE_FORMAT_A"
definition PALETTE_4 :: u32 where
  "PALETTE_4 = IMAGE_FORMAT_UNCOMP OR IMAGE_FORMAT_4 OR IMAGE_FORMAT_PALETTE"
definition SAMPLE_16 :: u32 where
  "SAMPLE_16 = IMAGE_FORMAT_UNCOMP OR IMAGE_FORMAT_16 OR IMAGE_FORMAT_SAMPLE"
definition SAMPLE_8 :: u32 where
  "SAMPLE_8 = IMAGE_FORMAT_UNCOMP OR IMAGE_FORMAT_8 OR IMAGE_FORMAT_SAMPLE"
definition DEPTH_32 :: u32 where
  "DEPTH_32 = IMAGE_FORMAT_UNCOMP OR IMAGE_FORMAT_32 OR IMAGE_FORMAT_DEPTH OR IMAGE_FORMAT_Z OR IMAGE_FORMAT_STENCIL"
definition DEPTH_16 :: u32 where
  "DEPTH_16 = IMAGE_FORMAT_UNCOMP OR IMAGE_FORMAT_16 OR IMAGE_FORMAT_DEPTH OR IMAGE_FORMAT_Z"
definition ETC1 :: u32 where
  "ETC1 = IMAGE_FORMAT_ETC1"
definition DEPTH_64 :: u32 where
  "DEPTH_64 = IMAGE_FORMAT_UNCOMP OR IMAGE_FORMAT_64 OR IMAGE_FORMAT_DEPTH OR IMAGE_FORMAT_Z OR IMAGE_FORMAT_STENCIL"
definition YUV_422 :: u32 where
  "YUV_422 = IMAGE_FORMAT_YUYV OR IMAGE_FORMAT_YUYV_STD"
definition YUV_422_REV :: u32 where
  "YUV_422_REV = IMAGE_FORMAT_YUYV OR IMAGE_FORMAT_YUYV_REV"

text \<open>The enumeration's texture formats, their linear versions, and the raster formats.\<close>

definition tf_formats :: "u32 list" where
  "tf_formats = map (\<lambda>f. f OR IMAGE_FORMAT_BRCM1)
     [ABGR_8888, ARGB_8888, RGBA_8888, XBGR_8888, XRGB_8888, RGBX_8888, RGBA_4444, RGBA_5551,
      RGB_565, BGR_565, L_8, A_8, AL_88, LA_88, ETC1, PALETTE_4, SAMPLE_8, SAMPLE_16, L_1,
      A_4, A_1, DEPTH_16, DEPTH_32]"

definition lt_formats :: "u32 list" where
  "lt_formats = map (\<lambda>f. f OR IMAGE_FORMAT_BRCM2)
     [ABGR_8888, ARGB_8888, RGBA_8888, XBGR_8888, XRGB_8888, RGBX_8888, RGBA_4444, RGBA_5551,
      RGB_565, L_8, A_8, AL_88, LA_88, ETC1, PALETTE_4, SAMPLE_8, SAMPLE_16, L_1, A_4, A_1,
      DEPTH_16, DEPTH_32]"

definition rso_formats :: "u32 list" where
  "rso_formats = map (\<lambda>f. f OR IMAGE_FORMAT_RSO)
     [RGBA_8888, BGRA_8888, ARGB_8888, ABGR_8888, RGBX_8888, BGRX_8888, XRGB_8888, XBGR_8888,
      BGR_888, RGB_888, RGBA_4444, BGRA_4444, ARGB_4444, ABGR_4444, RGBA_5551, BGRA_5551,
      ARGB_1555, ABGR_1555, RGB_565, BGR_565, AL_88, LA_88, L_8, L_1, A_8, A_4, A_1, YUV_422,
      YUV_422_REV]"

definition ARGB_8888_PRE :: u32 where "ARGB_8888_PRE = ARGB_8888 OR IMAGE_FORMAT_PRE"
definition DEPTH_32_TLBD :: u32 where "DEPTH_32_TLBD = DEPTH_32 OR IMAGE_FORMAT_BRCM4"
definition DEPTH_COL_64_TLBD :: u32 where "DEPTH_COL_64_TLBD = DEPTH_64 OR IMAGE_FORMAT_BRCM4"
definition COL_32_TLBD :: u32 where "COL_32_TLBD = BGRA_8888 OR IMAGE_FORMAT_BRCM4"

definition IMAGE_FORMAT_INVALID :: u32 where [image_bits]: "IMAGE_FORMAT_INVALID = 0xffffffff"

section \<open>Their values\<close>

lemma base_formats [image_values]:
  "RGBA_8888 = 0xf428"
  "BGRA_8888 = 0xd428"
  "ARGB_8888 = 0xb428"
  "ABGR_8888 = 0x9428"
  "RGBX_8888 = 0xe428"
  "BGRX_8888 = 0xc428"
  "XRGB_8888 = 0xa428"
  "XBGR_8888 = 0x8428"
  "RGB_888 = 0xa420"
  "BGR_888 = 0x8420"
  "RGBA_4444 = 0xf418"
  "BGRA_4444 = 0xd418"
  "ARGB_4444 = 0xb418"
  "ABGR_4444 = 0x9418"
  "RGBA_5551 = 0x17418"
  "BGRA_5551 = 0x15418"
  "ARGB_1555 = 0x13418"
  "ABGR_1555 = 0x11418"
  "RGB_565 = 0x1a418"
  "BGR_565 = 0x18418"
  "LA_88 = 0x25818"
  "AL_88 = 0x21818"
  "L_8 = 0x810"
  "L_1 = 0x800"
  "A_8 = 0x1010"
  "A_4 = 0x1008"
  "A_1 = 0x1000"
  "PALETTE_4 = 0x108"
  "SAMPLE_16 = 0x218"
  "SAMPLE_8 = 0x210"
  "DEPTH_32 = 0xf28"
  "DEPTH_16 = 0x718"
  "ETC1 = 0x40"
  "DEPTH_64 = 0xf30"
  "YUV_422 = 0xc0"
  "YUV_422_REV = 0x20c0"
  by (simp_all add: image_bits
    RGBA_8888_def BGRA_8888_def ARGB_8888_def ABGR_8888_def RGBX_8888_def BGRX_8888_def
    XRGB_8888_def XBGR_8888_def RGB_888_def BGR_888_def RGBA_4444_def BGRA_4444_def ARGB_4444_def
    ABGR_4444_def RGBA_5551_def BGRA_5551_def ARGB_1555_def ABGR_1555_def RGB_565_def BGR_565_def
    LA_88_def AL_88_def L_8_def L_1_def A_8_def A_4_def A_1_def PALETTE_4_def SAMPLE_16_def
    SAMPLE_8_def DEPTH_32_def DEPTH_16_def ETC1_def DEPTH_64_def YUV_422_def YUV_422_REV_def)

lemma tlb_formats [image_values]:
  "DEPTH_32_TLBD = 0xf2c" "DEPTH_COL_64_TLBD = 0xf34" "COL_32_TLBD = 0xd42c" "ARGB_8888_PRE = 0x4b428"
  by (simp_all add: image_bits image_values DEPTH_32_TLBD_def DEPTH_COL_64_TLBD_def COL_32_TLBD_def ARGB_8888_PRE_def)

lemma tf_formats_values: "tf_formats = [0x9429, 0xb429, 0xf429, 0x8429, 0xa429, 0xe429, 0xf419,
     0x17419, 0x1a419, 0x18419, 0x811, 0x1011, 0x21819, 0x25819, 0x41, 0x109, 0x211, 0x219, 0x801,
     0x1009, 0x1001, 0x719, 0xf29]"
  by (simp add: tf_formats_def image_bits image_values)

lemma lt_formats_values: "lt_formats = [0x942a, 0xb42a, 0xf42a, 0x842a, 0xa42a, 0xe42a, 0xf41a,
     0x1741a, 0x1a41a, 0x812, 0x1012, 0x2181a, 0x2581a, 0x42, 0x10a, 0x212, 0x21a, 0x802, 0x100a,
     0x1002, 0x71a, 0xf2a]"
  by (simp add: lt_formats_def image_bits image_values)

lemma rso_formats_values: "rso_formats = [0xf428, 0xd428, 0xb428, 0x9428, 0xe428, 0xc428,
     0xa428, 0x8428, 0x8420, 0xa420, 0xf418, 0xd418, 0xb418, 0x9418, 0x17418, 0x15418, 0x13418,
     0x11418, 0x1a418, 0x18418, 0x21818, 0x25818, 0x810, 0x800, 0x1010, 0x1008, 0x1000, 0xc0,
     0x20c0]"
  by (simp add: rso_formats_def image_bits image_values)

section \<open>Reading a format\<close>

definition khrn_image_is_rso :: "u32 \<Rightarrow> bool option" where
  "khrn_image_is_rso format = (if format = IMAGE_FORMAT_INVALID then None
     else Some (format AND IMAGE_FORMAT_MEM_LAYOUT_MASK = IMAGE_FORMAT_RSO))"

definition khrn_image_is_brcm1 :: "u32 \<Rightarrow> bool option" where
  "khrn_image_is_brcm1 format = (if format = IMAGE_FORMAT_INVALID then None
     else Some (format AND IMAGE_FORMAT_MEM_LAYOUT_MASK = IMAGE_FORMAT_BRCM1))"

definition khrn_image_is_brcm2 :: "u32 \<Rightarrow> bool option" where
  "khrn_image_is_brcm2 format = (if format = IMAGE_FORMAT_INVALID then None
     else Some (format AND IMAGE_FORMAT_MEM_LAYOUT_MASK = IMAGE_FORMAT_BRCM2))"

definition khrn_image_to_rso_format :: "u32 \<Rightarrow> u32 option" where
  "khrn_image_to_rso_format format = (if format = IMAGE_FORMAT_INVALID then None
     else Some ((format AND NOT IMAGE_FORMAT_MEM_LAYOUT_MASK) OR IMAGE_FORMAT_RSO))"

definition khrn_image_to_tf_format :: "u32 \<Rightarrow> u32 option" where
  "khrn_image_to_tf_format format = (if format = IMAGE_FORMAT_INVALID then None
     else Some ((format AND NOT IMAGE_FORMAT_MEM_LAYOUT_MASK) OR IMAGE_FORMAT_BRCM1))"

definition khrn_image_to_lt_format :: "u32 \<Rightarrow> u32 option" where
  "khrn_image_to_lt_format format = (if format = IMAGE_FORMAT_INVALID then None
     else Some ((format AND NOT IMAGE_FORMAT_MEM_LAYOUT_MASK) OR IMAGE_FORMAT_BRCM2))"

definition khrn_image_is_uncomp :: "u32 \<Rightarrow> bool option" where
  "khrn_image_is_uncomp format = (if format = IMAGE_FORMAT_INVALID then None
     else Some (format AND IMAGE_FORMAT_COMP_MASK = IMAGE_FORMAT_UNCOMP))"

definition khrn_image_is_color :: "u32 \<Rightarrow> bool option" where
  "khrn_image_is_color format = (if format = IMAGE_FORMAT_INVALID then None
     else Some (format AND (IMAGE_FORMAT_COMP_MASK OR IMAGE_FORMAT_PIXEL_TYPE_MASK) = IMAGE_FORMAT_UNCOMP OR IMAGE_FORMAT_COLOR))"

definition khrn_image_is_gray :: "u32 \<Rightarrow> bool option" where
  "khrn_image_is_gray format = (if format = IMAGE_FORMAT_INVALID then None
     else Some (format AND IMAGE_FORMAT_L \<noteq> 0))"

definition khrn_image_is_paletted :: "u32 \<Rightarrow> bool option" where
  "khrn_image_is_paletted format = (if format = IMAGE_FORMAT_INVALID then None
     else Some (format AND (IMAGE_FORMAT_COMP_MASK OR IMAGE_FORMAT_PIXEL_TYPE_MASK) = IMAGE_FORMAT_UNCOMP OR IMAGE_FORMAT_PALETTE))"

definition khrn_image_is_depth :: "u32 \<Rightarrow> bool option" where
  "khrn_image_is_depth format = (if format = IMAGE_FORMAT_INVALID then None
     else Some (format AND (IMAGE_FORMAT_COMP_MASK OR IMAGE_FORMAT_PIXEL_TYPE_MASK) = IMAGE_FORMAT_UNCOMP OR IMAGE_FORMAT_DEPTH))"

definition khrn_image_is_etc1 :: "u32 \<Rightarrow> bool option" where
  "khrn_image_is_etc1 format = (if format = IMAGE_FORMAT_INVALID then None
     else Some (format AND IMAGE_FORMAT_COMP_MASK = IMAGE_FORMAT_ETC1))"

definition khrn_image_is_yuv422 :: "u32 \<Rightarrow> bool option" where
  "khrn_image_is_yuv422 format = (if format = IMAGE_FORMAT_INVALID then None
     else Some (format AND IMAGE_FORMAT_COMP_MASK = IMAGE_FORMAT_YUYV))"

text \<open>A \<open>switch\<close> whose default is \<open>UNREACHABLE\<close> is a lookup in the list of its cases.\<close>

definition khrn_image_get_bpp :: "u32 \<Rightarrow> u32 option" where
  "khrn_image_get_bpp format =
     (if format = IMAGE_FORMAT_INVALID then None
      else if format AND IMAGE_FORMAT_COMP_MASK = IMAGE_FORMAT_UNCOMP then
        map_of [(IMAGE_FORMAT_1, 1), (IMAGE_FORMAT_4, 4), (IMAGE_FORMAT_8, 8), (IMAGE_FORMAT_16, 16),
          (IMAGE_FORMAT_24, 24), (IMAGE_FORMAT_32, 32), (IMAGE_FORMAT_64, 64)] (format AND IMAGE_FORMAT_PIXEL_SIZE_MASK)
      else map_of [(IMAGE_FORMAT_ETC1, 4), (IMAGE_FORMAT_YUYV, 16)] (format AND IMAGE_FORMAT_COMP_MASK))"

text \<open>The bits of a channel: the format must be a color format that has it.\<close>

definition channel_size :: "u32 \<Rightarrow> (u32 \<times> u32) list \<Rightarrow> u32 \<Rightarrow> u32 option" where
  "channel_size channel sizes format =
     Option.bind (khrn_image_is_color format) (\<lambda>color.
       if color \<and> format AND channel \<noteq> 0
       then map_of sizes (format AND (IMAGE_FORMAT_PIXEL_SIZE_MASK OR IMAGE_FORMAT_PIXEL_LAYOUT_MASK))
       else Some 0)"

definition khrn_image_get_red_size :: "u32 \<Rightarrow> u32 option" where
  "khrn_image_get_red_size = channel_size IMAGE_FORMAT_RGB
     [(IMAGE_FORMAT_32 OR IMAGE_FORMAT_8888, 8), (IMAGE_FORMAT_24 OR IMAGE_FORMAT_888, 8),
      (IMAGE_FORMAT_16 OR IMAGE_FORMAT_4444, 4), (IMAGE_FORMAT_16 OR IMAGE_FORMAT_5551, 5),
      (IMAGE_FORMAT_16 OR IMAGE_FORMAT_565, 5)]"

definition khrn_image_get_green_size :: "u32 \<Rightarrow> u32 option" where
  "khrn_image_get_green_size = channel_size IMAGE_FORMAT_RGB
     [(IMAGE_FORMAT_32 OR IMAGE_FORMAT_8888, 8), (IMAGE_FORMAT_24 OR IMAGE_FORMAT_888, 8),
      (IMAGE_FORMAT_16 OR IMAGE_FORMAT_4444, 4), (IMAGE_FORMAT_16 OR IMAGE_FORMAT_5551, 5),
      (IMAGE_FORMAT_16 OR IMAGE_FORMAT_565, 6)]"

definition khrn_image_get_blue_size :: "u32 \<Rightarrow> u32 option" where
  "khrn_image_get_blue_size = channel_size IMAGE_FORMAT_RGB
     [(IMAGE_FORMAT_32 OR IMAGE_FORMAT_8888, 8), (IMAGE_FORMAT_24 OR IMAGE_FORMAT_888, 8),
      (IMAGE_FORMAT_16 OR IMAGE_FORMAT_4444, 4), (IMAGE_FORMAT_16 OR IMAGE_FORMAT_5551, 5),
      (IMAGE_FORMAT_16 OR IMAGE_FORMAT_565, 5)]"

definition khrn_image_get_alpha_size :: "u32 \<Rightarrow> u32 option" where
  "khrn_image_get_alpha_size = channel_size IMAGE_FORMAT_A
     [(IMAGE_FORMAT_32 OR IMAGE_FORMAT_8888, 8), (IMAGE_FORMAT_16 OR IMAGE_FORMAT_4444, 4),
      (IMAGE_FORMAT_16 OR IMAGE_FORMAT_5551, 1), (IMAGE_FORMAT_16 OR IMAGE_FORMAT_88, 8),
      (IMAGE_FORMAT_8, 8), (IMAGE_FORMAT_4, 4), (IMAGE_FORMAT_1, 1)]"

definition khrn_image_get_z_size :: "u32 \<Rightarrow> u32 option" where
  "khrn_image_get_z_size format =
     Option.bind (khrn_image_is_depth format) (\<lambda>depth.
       if depth \<and> format AND IMAGE_FORMAT_Z \<noteq> 0 then
         if format = DEPTH_32_TLBD \<or> format = DEPTH_COL_64_TLBD then Some 24
         else map_of [(IMAGE_FORMAT_32, 24), (IMAGE_FORMAT_16, 16)] (format AND IMAGE_FORMAT_PIXEL_SIZE_MASK)
       else Some 0)"

definition khrn_image_get_stencil_size :: "u32 \<Rightarrow> u32 option" where
  "khrn_image_get_stencil_size format =
     Option.bind (khrn_image_is_depth format) (\<lambda>depth.
       if depth \<and> format AND IMAGE_FORMAT_STENCIL \<noteq> 0 then
         if format = DEPTH_32_TLBD \<or> format = DEPTH_COL_64_TLBD then Some 8
         else if format AND IMAGE_FORMAT_PIXEL_SIZE_MASK = IMAGE_FORMAT_32 then Some 8
         else None
       else Some 0)"

section \<open>Sizes of images\<close>

text \<open>A small tile of the hardware, as powers of two; eight by eight of them make a large one.\<close>

definition tile_layout :: "u32 \<Rightarrow> bool" where
  "tile_layout format \<longleftrightarrow> khrn_image_is_brcm1 format = Some True \<or> khrn_image_is_brcm2 format = Some True"

definition khrn_image_get_log2_brcm2_width :: "u32 \<Rightarrow> nat option" where
  "khrn_image_get_log2_brcm2_width format =
     (if \<not> tile_layout format then None
      else if format AND IMAGE_FORMAT_COMP_MASK = IMAGE_FORMAT_UNCOMP then
        map_of [(IMAGE_FORMAT_1, 6), (IMAGE_FORMAT_4, 4), (IMAGE_FORMAT_8, 3), (IMAGE_FORMAT_16, 3), (IMAGE_FORMAT_32, 2)]
          (format AND IMAGE_FORMAT_PIXEL_SIZE_MASK)
      else map_of [(IMAGE_FORMAT_ETC1, 3), (IMAGE_FORMAT_YUYV, 3)] (format AND IMAGE_FORMAT_COMP_MASK))"

definition khrn_image_get_log2_brcm2_height :: "u32 \<Rightarrow> nat option" where
  "khrn_image_get_log2_brcm2_height format =
     (if \<not> tile_layout format then None
      else if format AND IMAGE_FORMAT_COMP_MASK = IMAGE_FORMAT_UNCOMP then
        map_of [(IMAGE_FORMAT_1, 3), (IMAGE_FORMAT_4, 3), (IMAGE_FORMAT_8, 3), (IMAGE_FORMAT_16, 2), (IMAGE_FORMAT_32, 2)]
          (format AND IMAGE_FORMAT_PIXEL_SIZE_MASK)
      else map_of [(IMAGE_FORMAT_ETC1, 4), (IMAGE_FORMAT_YUYV, 2)] (format AND IMAGE_FORMAT_COMP_MASK))"

definition khrn_image_get_log2_brcm1_width :: "u32 \<Rightarrow> nat option" where
  "khrn_image_get_log2_brcm1_width format = map_option (\<lambda>n. n + 3) (khrn_image_get_log2_brcm2_width format)"

definition khrn_image_get_log2_brcm1_height :: "u32 \<Rightarrow> nat option" where
  "khrn_image_get_log2_brcm1_height format = map_option (\<lambda>n. n + 3) (khrn_image_get_log2_brcm2_height format)"

definition khrn_image_pad_width :: "u32 \<Rightarrow> u32 \<Rightarrow> u32 option" where
  "khrn_image_pad_width format width =
     (if format = IMAGE_FORMAT_INVALID then None
      else let layout = format AND IMAGE_FORMAT_MEM_LAYOUT_MASK
      in if layout = IMAGE_FORMAT_RSO then
           Option.bind (khrn_image_get_bpp format) (\<lambda>bpp. if bpp AND 7 = 0 then Some width else None)
         else if layout = IMAGE_FORMAT_BRCM1 then
           map_option (\<lambda>n. round_up width (push_bit n 1)) (khrn_image_get_log2_brcm1_width format)
         else if layout = IMAGE_FORMAT_BRCM2 then
           map_option (\<lambda>n. round_up width (push_bit n 1)) (khrn_image_get_log2_brcm2_width format)
         else if layout = IMAGE_FORMAT_BRCM4 then Some (round_up width 64)
         else None)"

definition khrn_image_pad_height :: "u32 \<Rightarrow> u32 \<Rightarrow> u32 option" where
  "khrn_image_pad_height format height =
     (if format = IMAGE_FORMAT_INVALID then None
      else let layout = format AND IMAGE_FORMAT_MEM_LAYOUT_MASK
      in if layout = IMAGE_FORMAT_RSO then Some height
         else if layout = IMAGE_FORMAT_BRCM1 then
           map_option (\<lambda>n. round_up height (push_bit n 1)) (khrn_image_get_log2_brcm1_height format)
         else if layout = IMAGE_FORMAT_BRCM2 then
           map_option (\<lambda>n. round_up height (push_bit n 1)) (khrn_image_get_log2_brcm2_height format)
         else if layout = IMAGE_FORMAT_BRCM4 then Some (round_up height 64)
         else None)"

definition khrn_image_get_stride :: "u32 \<Rightarrow> u32 \<Rightarrow> u32 option" where
  "khrn_image_get_stride format width =
     Option.bind (khrn_image_pad_width format width) (\<lambda>w.
       map_option (\<lambda>bpp. drop_bit 3 (w * bpp)) (khrn_image_get_bpp format))"

definition khrn_image_get_size :: "u32 \<Rightarrow> u32 \<Rightarrow> u32 \<Rightarrow> u32 option" where
  "khrn_image_get_size format width height =
     Option.bind (khrn_image_get_stride format width) (\<lambda>stride.
       map_option (\<lambda>h. stride * h) (khrn_image_pad_height format height))"

text \<open>A \<open>KHRN_IMAGE_WRAP_T\<close>; \<open>aux\<close> and \<open>storage\<close> are addresses.\<close>

record image_wrap =
  im_format :: u32
  im_width :: u16
  im_height :: u16
  im_stride :: u32
  im_aux :: ptr
  im_storage :: ptr

definition khrn_image_wrap :: "u32 \<Rightarrow> u32 \<Rightarrow> u32 \<Rightarrow> u32 \<Rightarrow> ptr \<Rightarrow> image_wrap" where
  "khrn_image_wrap format width height stride storage =
     \<lparr>im_format = format, im_width = ucast width, im_height = ucast height, im_stride = stride,
      im_aux = NULL, im_storage = storage\<rparr>"

section \<open>Rounding up\<close>

lemma unat_mask32: "n < 32 \<Longrightarrow> unat (mask n :: u32) = 2 ^ n - 1"
proof -
  assume "n < 32"
  have "unat (mask n :: u32) = unat (of_nat (mask n) :: u32)" by (simp only: of_nat_mask_eq)
  also have "\<dots> = take_bit 32 (mask n)" by (simp add: unsigned_of_nat)
  also have "\<dots> = 2 ^ n - 1" using \<open>n < 32\<close> unfolding take_bit_of_mask by (simp add: min_def mask_eq_exp_minus_1)
  finally show ?thesis .
qed

lemma round_up_pow2:
  assumes "unat x + 2 ^ n \<le> 2 ^ 32" "n < 32"
  shows "unat (round_up x (push_bit n 1)) = 2 ^ n * ((unat x + (2 ^ n - 1)) div 2 ^ n)"
proof -
  have m: "push_bit n 1 - 1 = (mask n :: u32)" by (simp add: push_bit_eq_mult mask_eq_exp_minus_1)
  obtain y where y: "y = x + mask n" and uy: "unat y = unat x + (2 ^ n - 1)"
    using assms by (simp add: unat_add_small unat_mask32)
  have "round_up x (push_bit n 1) = push_bit n (drop_bit n y)"
    unfolding round_up_def m y by (auto intro!: bit_word_eqI simp: bit_simps)
  moreover have "take_bit 32 (unat x + (2 ^ n - 1)) = unat x + (2 ^ n - 1)"
    unfolding uy [symmetric] by (rule take_bit_nat_eq_self) (use unsigned_less [of y] in simp)
  ultimately have "unat (round_up x (push_bit n 1)) = take_bit 32 (push_bit n (drop_bit n (unat x + (2 ^ n - 1))))"
    by (simp add: unsigned_push_bit_eq unsigned_drop_bit_eq uy)
  also have "\<dots> = take_bit 32 (2 ^ n * ((unat x + (2 ^ n - 1)) div 2 ^ n))"
    by (simp add: push_bit_eq_mult drop_bit_eq_div mult.commute)
  also have "\<dots> = 2 ^ n * ((unat x + (2 ^ n - 1)) div 2 ^ n)"
  proof -
    have "2 ^ n * ((unat x + (2 ^ n - 1)) div 2 ^ n) \<le> unat x + (2 ^ n - 1)" by simp
    also have "\<dots> < 2 ^ 32" using assms(1) by (cases "(2::nat) ^ n") auto
    finally show ?thesis by (simp add: take_bit_nat_eq_self_iff)
  qed
  finally show ?thesis .
qed

lemma round_up_covers:
  assumes "unat x + 2 ^ n \<le> 2 ^ 32" "n < 32"
  shows "unat x \<le> unat (round_up x (push_bit n 1))"
    and "unat (round_up x (push_bit n 1)) < unat x + 2 ^ n"
    and "2 ^ n dvd unat (round_up x (push_bit n 1))"
proof -
  have "unat x + (2 ^ n - 1) = 2 ^ n * ((unat x + (2 ^ n - 1)) div 2 ^ n) + (unat x + (2 ^ n - 1)) mod 2 ^ n"
    by simp
  moreover have "(unat x + (2 ^ n - 1)) mod 2 ^ n < 2 ^ n" by simp
  moreover have "0 < (2::nat) ^ n" by simp
  ultimately show "unat x \<le> unat (round_up x (push_bit n 1))"
    and "unat (round_up x (push_bit n 1)) < unat x + 2 ^ n"
    unfolding round_up_pow2 [OF assms] by linarith+
  show "2 ^ n dvd unat (round_up x (push_bit n 1))" unfolding round_up_pow2 [OF assms] by simp
qed

section \<open>Sizes of images\<close>

text \<open>The formats with whole bytes to a row, and the powers of two an image of each is padded to.\<close>

definition image_formats :: "u32 list" where
  "image_formats = tf_formats @ lt_formats @ [DEPTH_32_TLBD, DEPTH_COL_64_TLBD, COL_32_TLBD] @
     filter (\<lambda>f. khrn_image_get_bpp f \<notin> {Some 1, Some 4}) rso_formats"

definition pad_logs :: "u32 \<Rightarrow> (nat \<times> nat) option" where
  "pad_logs f =
     (let layout = f AND IMAGE_FORMAT_MEM_LAYOUT_MASK
      in if layout = IMAGE_FORMAT_RSO then Some (0, 0)
         else if layout = IMAGE_FORMAT_BRCM1 then
           Option.bind (khrn_image_get_log2_brcm1_width f) (\<lambda>n. map_option (Pair n) (khrn_image_get_log2_brcm1_height f))
         else if layout = IMAGE_FORMAT_BRCM2 then
           Option.bind (khrn_image_get_log2_brcm2_width f) (\<lambda>n. map_option (Pair n) (khrn_image_get_log2_brcm2_height f))
         else if layout = IMAGE_FORMAT_BRCM4 then Some (6, 6) else None)"

definition format_regular :: "u32 \<Rightarrow> bool" where
  "format_regular f = (case (pad_logs f, khrn_image_get_bpp f) of
     (Some (n, m), Some bpp) \<Rightarrow> f \<noteq> IMAGE_FORMAT_INVALID \<and> n \<le> 9 \<and> m \<le> 7 \<and> unat bpp \<le> 64 \<and> 8 dvd 2 ^ n * unat bpp \<and>
       (f AND IMAGE_FORMAT_MEM_LAYOUT_MASK = IMAGE_FORMAT_RSO \<longrightarrow> bpp AND 7 = 0)
   | _ \<Rightarrow> False)"

lemmas layout_defs = khrn_image_get_bpp_def khrn_image_get_log2_brcm1_width_def khrn_image_get_log2_brcm1_height_def
  khrn_image_get_log2_brcm2_width_def khrn_image_get_log2_brcm2_height_def khrn_image_is_brcm1_def
  khrn_image_is_brcm2_def tile_layout_def pad_logs_def

lemma tf_regular: "list_all format_regular tf_formats"
  by (simp add: tf_formats_values format_regular_def layout_defs image_bits)

lemma lt_regular: "list_all format_regular lt_formats"
  by (simp add: lt_formats_values format_regular_def layout_defs image_bits)

lemma rso_regular: "list_all format_regular (filter (\<lambda>f. khrn_image_get_bpp f \<notin> {Some 1, Some 4}) rso_formats)"
  by (simp add: rso_formats_values format_regular_def layout_defs image_bits)

lemma tlb_regular: "list_all format_regular [DEPTH_32_TLBD, DEPTH_COL_64_TLBD, COL_32_TLBD]"
  by (simp add: image_values format_regular_def layout_defs image_bits)

lemma format_regularE:
  assumes "f \<in> set image_formats"
  obtains n m bpp where "pad_logs f = Some (n, m)" "khrn_image_get_bpp f = Some bpp" "f \<noteq> IMAGE_FORMAT_INVALID"
    "n \<le> 9" "m \<le> 7" "unat bpp \<le> 64" "8 dvd 2 ^ n * unat bpp"
    "f AND IMAGE_FORMAT_MEM_LAYOUT_MASK = IMAGE_FORMAT_RSO \<Longrightarrow> bpp AND 7 = 0"
proof -
  have "list_all format_regular image_formats"
    unfolding image_formats_def list_all_append using tf_regular lt_regular rso_regular tlb_regular by simp
  with assms have "format_regular f" by (auto simp: list_all_iff)
  then show thesis by (auto simp: format_regular_def split: option.splits prod.splits intro: that)
qed

lemma round_up_le:
  assumes "unat x + 2 ^ n \<le> 2 ^ 32" "n < 32" "unat x \<le> m" "2 ^ n dvd m"
  shows "unat (round_up x (push_bit n 1)) \<le> m"
proof -
  from round_up_covers(3) [OF assms(1,2)] obtain q where q: "unat (round_up x (push_bit n 1)) = 2 ^ n * q" ..
  from assms(4) obtain k where k: "m = 2 ^ n * k" ..
  have "2 ^ n * q < 2 ^ n * (k + 1)"
    using round_up_covers(2) [OF assms(1,2)] assms(3) unfolding q k distrib_left by linarith
  then have "q < k + 1" by (simp only: mult_less_cancel1)
  then show ?thesis unfolding q k by simp
qed

lemma padding:
  assumes "pad_logs f = Some (n, m)" "khrn_image_get_bpp f = Some bpp" "f \<noteq> IMAGE_FORMAT_INVALID"
    "f AND IMAGE_FORMAT_MEM_LAYOUT_MASK = IMAGE_FORMAT_RSO \<Longrightarrow> bpp AND 7 = 0"
  shows "khrn_image_pad_width f w = Some (round_up w (push_bit n 1))"
    and "khrn_image_pad_height f h = Some (round_up h (push_bit m 1))"
proof -
  have "round_up x 1 = x" "round_up x 64 = round_up x (push_bit 6 1)" for x by (simp_all add: round_up_def)
  then show "khrn_image_pad_width f w = Some (round_up w (push_bit n 1))"
    and "khrn_image_pad_height f h = Some (round_up h (push_bit m 1))"
    using assms unfolding pad_logs_def khrn_image_pad_width_def khrn_image_pad_height_def Let_def
    by (auto simp: bind_eq_Some_conv split: if_splits)
qed

text \<open>A row and an image fit their words when both sides are at most 2^14.\<close>

lemma row_fits:
  fixes pw bpp ph :: u32
  assumes "unat pw \<le> 2 ^ 14" "unat ph \<le> 2 ^ 14" "unat bpp \<le> 64" "8 dvd unat pw * unat bpp"
  shows "8 * unat (drop_bit 3 (pw * bpp)) = unat pw * unat bpp"
    and "unat (drop_bit 3 (pw * bpp) * ph) = unat (drop_bit 3 (pw * bpp)) * unat ph"
    and "unat (drop_bit 3 (pw * bpp)) * unat ph \<le> 2 ^ 31"
proof -
  have row: "unat pw * unat bpp \<le> 2 ^ 14 * 64" using assms by (intro mult_le_mono) simp_all
  then have "unat (pw * bpp) = unat pw * unat bpp" by (simp add: unat_word_ariths)
  then have stride: "unat (drop_bit 3 (pw * bpp)) = unat pw * unat bpp div 8"
    by (simp add: drop_bit_eq_div unat_div)
  then show "8 * unat (drop_bit 3 (pw * bpp)) = unat pw * unat bpp" using assms(4) by simp
  have "unat (drop_bit 3 (pw * bpp)) \<le> 2 ^ 17" using stride row by simp
  then have le: "unat (drop_bit 3 (pw * bpp)) * unat ph \<le> 2 ^ 17 * 2 ^ 14"
    using assms(2) by (intro mult_le_mono)
  then show "unat (drop_bit 3 (pw * bpp)) * unat ph \<le> 2 ^ 31" by simp
  show "unat (drop_bit 3 (pw * bpp) * ph) = unat (drop_bit 3 (pw * bpp)) * unat ph"
    using le by (simp add: unat_word_ariths)
qed


text \<open>The bound is sharp: an image of 32768 by 16384 pixels of 64 bits has the size 0.\<close>

lemma image_size_wraps: "khrn_image_get_size DEPTH_COL_64_TLBD 0x8000 0x4000 = Some 0"
  by (simp add: khrn_image_get_size_def khrn_image_get_stride_def khrn_image_pad_width_def khrn_image_pad_height_def
      khrn_image_get_bpp_def image_values image_bits round_up_def)


end
