(* ===== verification/Egl_Config.thy ===== *)
theory Egl_Config
  imports Khrn_Image "HOL-Library.Product_Lexorder"
begin

text \<open>
  circle/addon/vc4/interface/khronos/egl/egl_client_config.c, egl_client_config_cr.c and the queries of
  egl_client_cr.c: the configurations of EGL. The table of 28 configurations is an argument of the
  functions, since \<open>egl_config_install_configs\<close> writes it; an attribute list is \<open>NULL\<close> or the words
  from its start on, and \<open>None\<close> is a failing assertion, \<open>UNREACHABLE\<close>, or a list that is read past
  its last word. The words of a native pixmap, which the client passes by its address, are given by a
  function. \<open>EGL_KHR_lock_surface\<close> is compiled in and \<open>EGL_ANDROID_recordable\<close> is not.
\<close>

section \<open>Constants of EGL\<close>

abbreviation (input) EGL_SUCCESS :: u32 where "EGL_SUCCESS \<equiv> 0x3000"
abbreviation (input) EGL_NOT_INITIALIZED :: u32 where "EGL_NOT_INITIALIZED \<equiv> 0x3001"
abbreviation (input) EGL_BAD_ACCESS :: u32 where "EGL_BAD_ACCESS \<equiv> 0x3002"
abbreviation (input) EGL_BAD_ALLOC :: u32 where "EGL_BAD_ALLOC \<equiv> 0x3003"
abbreviation (input) EGL_BAD_ATTRIBUTE :: u32 where "EGL_BAD_ATTRIBUTE \<equiv> 0x3004"
abbreviation (input) EGL_BAD_CONFIG :: u32 where "EGL_BAD_CONFIG \<equiv> 0x3005"
abbreviation (input) EGL_BAD_CONTEXT :: u32 where "EGL_BAD_CONTEXT \<equiv> 0x3006"
abbreviation (input) EGL_BAD_DISPLAY :: u32 where "EGL_BAD_DISPLAY \<equiv> 0x3008"
abbreviation (input) EGL_BAD_MATCH :: u32 where "EGL_BAD_MATCH \<equiv> 0x3009"
abbreviation (input) EGL_BAD_NATIVE_PIXMAP :: u32 where "EGL_BAD_NATIVE_PIXMAP \<equiv> 0x300A"
abbreviation (input) EGL_BAD_NATIVE_WINDOW :: u32 where "EGL_BAD_NATIVE_WINDOW \<equiv> 0x300B"
abbreviation (input) EGL_BAD_PARAMETER :: u32 where "EGL_BAD_PARAMETER \<equiv> 0x300C"
abbreviation (input) EGL_BAD_SURFACE :: u32 where "EGL_BAD_SURFACE \<equiv> 0x300D"
abbreviation (input) EGL_BUFFER_SIZE :: u32 where "EGL_BUFFER_SIZE \<equiv> 0x3020"
abbreviation (input) EGL_ALPHA_SIZE :: u32 where "EGL_ALPHA_SIZE \<equiv> 0x3021"
abbreviation (input) EGL_BLUE_SIZE :: u32 where "EGL_BLUE_SIZE \<equiv> 0x3022"
abbreviation (input) EGL_GREEN_SIZE :: u32 where "EGL_GREEN_SIZE \<equiv> 0x3023"
abbreviation (input) EGL_RED_SIZE :: u32 where "EGL_RED_SIZE \<equiv> 0x3024"
abbreviation (input) EGL_DEPTH_SIZE :: u32 where "EGL_DEPTH_SIZE \<equiv> 0x3025"
abbreviation (input) EGL_STENCIL_SIZE :: u32 where "EGL_STENCIL_SIZE \<equiv> 0x3026"
abbreviation (input) EGL_CONFIG_CAVEAT :: u32 where "EGL_CONFIG_CAVEAT \<equiv> 0x3027"
abbreviation (input) EGL_CONFIG_ID :: u32 where "EGL_CONFIG_ID \<equiv> 0x3028"
abbreviation (input) EGL_LEVEL :: u32 where "EGL_LEVEL \<equiv> 0x3029"
abbreviation (input) EGL_MAX_PBUFFER_HEIGHT :: u32 where "EGL_MAX_PBUFFER_HEIGHT \<equiv> 0x302A"
abbreviation (input) EGL_MAX_PBUFFER_PIXELS :: u32 where "EGL_MAX_PBUFFER_PIXELS \<equiv> 0x302B"
abbreviation (input) EGL_MAX_PBUFFER_WIDTH :: u32 where "EGL_MAX_PBUFFER_WIDTH \<equiv> 0x302C"
abbreviation (input) EGL_NATIVE_RENDERABLE :: u32 where "EGL_NATIVE_RENDERABLE \<equiv> 0x302D"
abbreviation (input) EGL_NATIVE_VISUAL_ID :: u32 where "EGL_NATIVE_VISUAL_ID \<equiv> 0x302E"
abbreviation (input) EGL_NATIVE_VISUAL_TYPE :: u32 where "EGL_NATIVE_VISUAL_TYPE \<equiv> 0x302F"
abbreviation (input) EGL_SAMPLES :: u32 where "EGL_SAMPLES \<equiv> 0x3031"
abbreviation (input) EGL_SAMPLE_BUFFERS :: u32 where "EGL_SAMPLE_BUFFERS \<equiv> 0x3032"
abbreviation (input) EGL_SURFACE_TYPE :: u32 where "EGL_SURFACE_TYPE \<equiv> 0x3033"
abbreviation (input) EGL_TRANSPARENT_TYPE :: u32 where "EGL_TRANSPARENT_TYPE \<equiv> 0x3034"
abbreviation (input) EGL_TRANSPARENT_BLUE_VALUE :: u32 where "EGL_TRANSPARENT_BLUE_VALUE \<equiv> 0x3035"
abbreviation (input) EGL_TRANSPARENT_GREEN_VALUE :: u32 where "EGL_TRANSPARENT_GREEN_VALUE \<equiv> 0x3036"
abbreviation (input) EGL_TRANSPARENT_RED_VALUE :: u32 where "EGL_TRANSPARENT_RED_VALUE \<equiv> 0x3037"
abbreviation (input) EGL_NONE :: u32 where "EGL_NONE \<equiv> 0x3038"
abbreviation (input) EGL_BIND_TO_TEXTURE_RGB :: u32 where "EGL_BIND_TO_TEXTURE_RGB \<equiv> 0x3039"
abbreviation (input) EGL_BIND_TO_TEXTURE_RGBA :: u32 where "EGL_BIND_TO_TEXTURE_RGBA \<equiv> 0x303A"
abbreviation (input) EGL_MIN_SWAP_INTERVAL :: u32 where "EGL_MIN_SWAP_INTERVAL \<equiv> 0x303B"
abbreviation (input) EGL_MAX_SWAP_INTERVAL :: u32 where "EGL_MAX_SWAP_INTERVAL \<equiv> 0x303C"
abbreviation (input) EGL_LUMINANCE_SIZE :: u32 where "EGL_LUMINANCE_SIZE \<equiv> 0x303D"
abbreviation (input) EGL_ALPHA_MASK_SIZE :: u32 where "EGL_ALPHA_MASK_SIZE \<equiv> 0x303E"
abbreviation (input) EGL_COLOR_BUFFER_TYPE :: u32 where "EGL_COLOR_BUFFER_TYPE \<equiv> 0x303F"
abbreviation (input) EGL_RENDERABLE_TYPE :: u32 where "EGL_RENDERABLE_TYPE \<equiv> 0x3040"
abbreviation (input) EGL_MATCH_NATIVE_PIXMAP :: u32 where "EGL_MATCH_NATIVE_PIXMAP \<equiv> 0x3041"
abbreviation (input) EGL_CONFORMANT :: u32 where "EGL_CONFORMANT \<equiv> 0x3042"
abbreviation (input) EGL_MATCH_FORMAT_KHR :: u32 where "EGL_MATCH_FORMAT_KHR \<equiv> 0x3043"
abbreviation (input) EGL_SLOW_CONFIG :: u32 where "EGL_SLOW_CONFIG \<equiv> 0x3050"
abbreviation (input) EGL_NON_CONFORMANT_CONFIG :: u32 where "EGL_NON_CONFORMANT_CONFIG \<equiv> 0x3051"
abbreviation (input) EGL_TRANSPARENT_RGB :: u32 where "EGL_TRANSPARENT_RGB \<equiv> 0x3052"
abbreviation (input) EGL_RGB_BUFFER :: u32 where "EGL_RGB_BUFFER \<equiv> 0x308E"
abbreviation (input) EGL_LUMINANCE_BUFFER :: u32 where "EGL_LUMINANCE_BUFFER \<equiv> 0x308F"
abbreviation (input) EGL_NO_TEXTURE :: u32 where "EGL_NO_TEXTURE \<equiv> 0x305C"
abbreviation (input) EGL_TEXTURE_RGB :: u32 where "EGL_TEXTURE_RGB \<equiv> 0x305D"
abbreviation (input) EGL_TEXTURE_RGBA :: u32 where "EGL_TEXTURE_RGBA \<equiv> 0x305E"
abbreviation (input) EGL_PBUFFER_BIT :: u32 where "EGL_PBUFFER_BIT \<equiv> 0x0001"
abbreviation (input) EGL_PIXMAP_BIT :: u32 where "EGL_PIXMAP_BIT \<equiv> 0x0002"
abbreviation (input) EGL_WINDOW_BIT :: u32 where "EGL_WINDOW_BIT \<equiv> 0x0004"
abbreviation (input) EGL_VG_COLORSPACE_LINEAR_BIT :: u32 where "EGL_VG_COLORSPACE_LINEAR_BIT \<equiv> 0x0020"
abbreviation (input) EGL_VG_ALPHA_FORMAT_PRE_BIT :: u32 where "EGL_VG_ALPHA_FORMAT_PRE_BIT \<equiv> 0x0040"
abbreviation (input) EGL_MULTISAMPLE_RESOLVE_BOX_BIT :: u32 where "EGL_MULTISAMPLE_RESOLVE_BOX_BIT \<equiv> 0x0200"
abbreviation (input) EGL_SWAP_BEHAVIOR_PRESERVED_BIT :: u32 where "EGL_SWAP_BEHAVIOR_PRESERVED_BIT \<equiv> 0x0400"
abbreviation (input) EGL_LOCK_SURFACE_BIT_KHR :: u32 where "EGL_LOCK_SURFACE_BIT_KHR \<equiv> 0x0080"
abbreviation (input) EGL_OPTIMAL_FORMAT_BIT_KHR :: u32 where "EGL_OPTIMAL_FORMAT_BIT_KHR \<equiv> 0x0100"
abbreviation (input) EGL_OPENGL_ES_BIT :: u32 where "EGL_OPENGL_ES_BIT \<equiv> 0x0001"
abbreviation (input) EGL_OPENVG_BIT :: u32 where "EGL_OPENVG_BIT \<equiv> 0x0002"
abbreviation (input) EGL_OPENGL_ES2_BIT :: u32 where "EGL_OPENGL_ES2_BIT \<equiv> 0x0004"
abbreviation (input) EGL_OPENGL_BIT :: u32 where "EGL_OPENGL_BIT \<equiv> 0x0008"
abbreviation (input) EGL_FORMAT_RGB_565_EXACT_KHR :: u32 where "EGL_FORMAT_RGB_565_EXACT_KHR \<equiv> 0x30C0"
abbreviation (input) EGL_FORMAT_RGB_565_KHR :: u32 where "EGL_FORMAT_RGB_565_KHR \<equiv> 0x30C1"
abbreviation (input) EGL_FORMAT_RGBA_8888_EXACT_KHR :: u32 where "EGL_FORMAT_RGBA_8888_EXACT_KHR \<equiv> 0x30C2"
abbreviation (input) EGL_FORMAT_RGBA_8888_KHR :: u32 where "EGL_FORMAT_RGBA_8888_KHR \<equiv> 0x30C3"
abbreviation (input) EGL_DONT_CARE :: u32 where "EGL_DONT_CARE \<equiv> - 1"

section \<open>Features and the table\<close>

definition FEATURES_PACK :: "u32 \<Rightarrow> u32 \<Rightarrow> u32 \<Rightarrow> u32 \<Rightarrow> u32 \<Rightarrow> u32 \<Rightarrow> u32 \<Rightarrow> u32 \<Rightarrow> u32 \<Rightarrow> u32" where
  "FEATURES_PACK r g b a d s m msk lockable =
     push_bit 28 r OR push_bit 24 g OR push_bit 20 b OR push_bit 16 a OR push_bit 8 d OR push_bit 4 s OR
     push_bit 3 m OR push_bit 2 (drop_bit 3 msk) OR push_bit 1 lockable"

definition FEATURES_UNPACK_RED :: "u32 \<Rightarrow> u32" where
  "FEATURES_UNPACK_RED c = drop_bit 28 c AND 0xf"

definition FEATURES_UNPACK_GREEN :: "u32 \<Rightarrow> u32" where
  "FEATURES_UNPACK_GREEN c = drop_bit 24 c AND 0xf"

definition FEATURES_UNPACK_BLUE :: "u32 \<Rightarrow> u32" where
  "FEATURES_UNPACK_BLUE c = drop_bit 20 c AND 0xf"

definition FEATURES_UNPACK_ALPHA :: "u32 \<Rightarrow> u32" where
  "FEATURES_UNPACK_ALPHA c = drop_bit 16 c AND 0xf"

definition FEATURES_UNPACK_DEPTH :: "u32 \<Rightarrow> u32" where
  "FEATURES_UNPACK_DEPTH c = drop_bit 8 c AND 0xff"

definition FEATURES_UNPACK_STENCIL :: "u32 \<Rightarrow> u32" where
  "FEATURES_UNPACK_STENCIL c = drop_bit 4 c AND 0xf"

definition FEATURES_UNPACK_MULTI :: "u32 \<Rightarrow> u32" where
  "FEATURES_UNPACK_MULTI c = drop_bit 3 c AND 0x1"

definition FEATURES_UNPACK_MASK :: "u32 \<Rightarrow> u32" where
  "FEATURES_UNPACK_MASK c = push_bit 3 (drop_bit 2 c AND 0x1)"

definition FEATURES_UNPACK_LOCKABLE :: "u32 \<Rightarrow> u32" where
  "FEATURES_UNPACK_LOCKABLE c = drop_bit 1 c AND 0x1"

definition FEATURES_UNPACK_COLOR :: "u32 \<Rightarrow> u32" where
  "FEATURES_UNPACK_COLOR c =
     FEATURES_UNPACK_RED c + FEATURES_UNPACK_GREEN c + FEATURES_UNPACK_BLUE c + FEATURES_UNPACK_ALPHA c"

record config_formats =
  cf_features :: u32
  cf_color :: u32
  cf_depth :: u32
  cf_multisample :: u32
  cf_mask :: u32

definition EGL_MAX_CONFIGS :: nat where "EGL_MAX_CONFIGS = 28"

definition config_row :: "u32 \<Rightarrow> u32 \<Rightarrow> u32 \<Rightarrow> u32 \<Rightarrow> u32 \<Rightarrow> config_formats" where
  "config_row features color depth multisample msk =
     \<lparr>cf_features = features, cf_color = color, cf_depth = depth, cf_multisample = multisample, cf_mask = msk\<rparr>"

definition formats :: "config_formats list" where
  "formats = [
    config_row (FEATURES_PACK 8 8 8 8 24 8 0 0 0) ABGR_8888 DEPTH_32_TLBD IMAGE_FORMAT_INVALID IMAGE_FORMAT_INVALID,
    config_row (FEATURES_PACK 8 8 8 0 24 8 0 0 0) XBGR_8888 DEPTH_32_TLBD IMAGE_FORMAT_INVALID IMAGE_FORMAT_INVALID,
    config_row (FEATURES_PACK 8 8 8 8 24 0 0 0 0) ABGR_8888 DEPTH_32_TLBD IMAGE_FORMAT_INVALID IMAGE_FORMAT_INVALID,
    config_row (FEATURES_PACK 8 8 8 0 24 0 0 0 0) XBGR_8888 DEPTH_32_TLBD IMAGE_FORMAT_INVALID IMAGE_FORMAT_INVALID,
    config_row (FEATURES_PACK 8 8 8 8 0 8 0 0 0) ABGR_8888 DEPTH_32_TLBD IMAGE_FORMAT_INVALID IMAGE_FORMAT_INVALID,
    config_row (FEATURES_PACK 8 8 8 0 0 8 0 0 0) XBGR_8888 DEPTH_32_TLBD IMAGE_FORMAT_INVALID IMAGE_FORMAT_INVALID,
    config_row (FEATURES_PACK 8 8 8 8 0 0 0 0 0) ABGR_8888 IMAGE_FORMAT_INVALID IMAGE_FORMAT_INVALID IMAGE_FORMAT_INVALID,
    config_row (FEATURES_PACK 8 8 8 0 0 0 0 0 0) XBGR_8888 IMAGE_FORMAT_INVALID IMAGE_FORMAT_INVALID IMAGE_FORMAT_INVALID,
    config_row (FEATURES_PACK 8 8 8 8 24 8 1 0 0) ABGR_8888 DEPTH_32_TLBD DEPTH_COL_64_TLBD IMAGE_FORMAT_INVALID,
    config_row (FEATURES_PACK 8 8 8 0 24 8 1 0 0) XBGR_8888 DEPTH_32_TLBD DEPTH_COL_64_TLBD IMAGE_FORMAT_INVALID,
    config_row (FEATURES_PACK 8 8 8 8 24 0 1 0 0) ABGR_8888 DEPTH_32_TLBD DEPTH_COL_64_TLBD IMAGE_FORMAT_INVALID,
    config_row (FEATURES_PACK 8 8 8 0 24 0 1 0 0) XBGR_8888 DEPTH_32_TLBD DEPTH_COL_64_TLBD IMAGE_FORMAT_INVALID,
    config_row (FEATURES_PACK 8 8 8 8 0 8 1 0 0) ABGR_8888 DEPTH_32_TLBD DEPTH_COL_64_TLBD IMAGE_FORMAT_INVALID,
    config_row (FEATURES_PACK 8 8 8 0 0 8 1 0 0) XBGR_8888 DEPTH_32_TLBD DEPTH_COL_64_TLBD IMAGE_FORMAT_INVALID,
    config_row (FEATURES_PACK 8 8 8 8 0 0 1 0 0) ABGR_8888 IMAGE_FORMAT_INVALID COL_32_TLBD IMAGE_FORMAT_INVALID,
    config_row (FEATURES_PACK 8 8 8 0 0 0 1 0 0) XBGR_8888 IMAGE_FORMAT_INVALID COL_32_TLBD IMAGE_FORMAT_INVALID,
    config_row (FEATURES_PACK 5 6 5 0 24 8 0 0 0) RGB_565 DEPTH_32_TLBD IMAGE_FORMAT_INVALID IMAGE_FORMAT_INVALID,
    config_row (FEATURES_PACK 5 6 5 0 24 0 0 0 0) RGB_565 DEPTH_32_TLBD IMAGE_FORMAT_INVALID IMAGE_FORMAT_INVALID,
    config_row (FEATURES_PACK 5 6 5 0 0 8 0 0 0) RGB_565 DEPTH_32_TLBD IMAGE_FORMAT_INVALID IMAGE_FORMAT_INVALID,
    config_row (FEATURES_PACK 5 6 5 0 0 0 0 0 0) RGB_565 IMAGE_FORMAT_INVALID IMAGE_FORMAT_INVALID IMAGE_FORMAT_INVALID,
    config_row (FEATURES_PACK 5 6 5 0 24 8 1 0 0) RGB_565 DEPTH_32_TLBD DEPTH_COL_64_TLBD IMAGE_FORMAT_INVALID,
    config_row (FEATURES_PACK 5 6 5 0 24 0 1 0 0) RGB_565 DEPTH_32_TLBD DEPTH_COL_64_TLBD IMAGE_FORMAT_INVALID,
    config_row (FEATURES_PACK 5 6 5 0 0 8 1 0 0) RGB_565 DEPTH_32_TLBD DEPTH_COL_64_TLBD IMAGE_FORMAT_INVALID,
    config_row (FEATURES_PACK 5 6 5 0 0 0 1 0 0) RGB_565 IMAGE_FORMAT_INVALID COL_32_TLBD IMAGE_FORMAT_INVALID,
    config_row (FEATURES_PACK 8 8 8 8 0 0 0 8 0) ABGR_8888 IMAGE_FORMAT_INVALID IMAGE_FORMAT_INVALID (A_8 OR IMAGE_FORMAT_RSO),
    config_row (FEATURES_PACK 8 8 8 0 0 0 0 8 0) XBGR_8888 IMAGE_FORMAT_INVALID IMAGE_FORMAT_INVALID (A_8 OR IMAGE_FORMAT_RSO),
    config_row (FEATURES_PACK 5 6 5 0 0 0 0 8 0) RGB_565 IMAGE_FORMAT_INVALID IMAGE_FORMAT_INVALID (A_8 OR IMAGE_FORMAT_RSO),
    config_row (FEATURES_PACK 5 6 5 0 16 0 0 0 0) RGB_565 DEPTH_32_TLBD IMAGE_FORMAT_INVALID IMAGE_FORMAT_INVALID]"

text \<open>The formats are changed to raster order (type 0, as here) or to the tiles of the hardware.\<close>

definition egl_config_install_configs :: "nat \<Rightarrow> config_formats list \<Rightarrow> config_formats list option" where
  "egl_config_install_configs type tab =
     those (map (\<lambda>c. map_option (\<lambda>f. c\<lparr>cf_color := f\<rparr>)
       ((if type = 0 then khrn_image_to_rso_format else khrn_image_to_tf_format) (cf_color c))) tab)"

section \<open>Reading a configuration\<close>

definition egl_config_from_id :: "nat \<Rightarrow> u32" where
  "egl_config_from_id i = of_nat (i + 1)"

definition egl_config_to_id :: "u32 \<Rightarrow> int" where
  "egl_config_to_id config = sint (config - 1)"

definition config_at :: "config_formats list \<Rightarrow> nat \<Rightarrow> config_formats option" where
  "config_at tab i = (if i < EGL_MAX_CONFIGS then Some (tab ! i) else None)"

definition egl_config_get_color_format :: "config_formats list \<Rightarrow> nat \<Rightarrow> u32 option" where
  "egl_config_get_color_format tab i = map_option cf_color (config_at tab i)"

definition egl_config_get_depth_format :: "config_formats list \<Rightarrow> nat \<Rightarrow> u32 option" where
  "egl_config_get_depth_format tab i = map_option cf_depth (config_at tab i)"

definition egl_config_get_mask_format :: "config_formats list \<Rightarrow> nat \<Rightarrow> u32 option" where
  "egl_config_get_mask_format tab i = map_option cf_mask (config_at tab i)"

definition egl_config_get_multisample_format :: "config_formats list \<Rightarrow> nat \<Rightarrow> u32 option" where
  "egl_config_get_multisample_format tab i = map_option cf_multisample (config_at tab i)"

definition egl_config_get_multisample :: "config_formats list \<Rightarrow> nat \<Rightarrow> bool option" where
  "egl_config_get_multisample tab i = map_option (\<lambda>c. FEATURES_UNPACK_MULTI (cf_features c) \<noteq> 0) (config_at tab i)"

definition bindable_rgb :: "u32 \<Rightarrow> bool" where
  "bindable_rgb features \<longleftrightarrow> FEATURES_UNPACK_MULTI features = 0 \<and> FEATURES_UNPACK_ALPHA features = 0"

definition bindable_rgba :: "u32 \<Rightarrow> bool" where
  "bindable_rgba features \<longleftrightarrow> FEATURES_UNPACK_MULTI features = 0"

definition egl_config_bindable :: "config_formats list \<Rightarrow> nat \<Rightarrow> u32 \<Rightarrow> bool option" where
  "egl_config_bindable tab i format =
     Option.bind (config_at tab i) (\<lambda>c.
       if format = EGL_NO_TEXTURE then Some True
       else if format = EGL_TEXTURE_RGB then Some (bindable_rgb (cf_features c))
       else if format = EGL_TEXTURE_RGBA then Some (bindable_rgba (cf_features c))
       else None)"

text \<open>A color channel of a pixmap has the bits of the configuration.\<close>

definition same_size :: "u32 option \<Rightarrow> u32 \<Rightarrow> bool option \<Rightarrow> bool option" where
  "same_size sz n others = Option.bind sz (\<lambda>k. if k = n then others else Some False)"

definition egl_config_match_pixmap_info :: "config_formats list \<Rightarrow> nat \<Rightarrow> image_wrap \<Rightarrow> bool option" where
  "egl_config_match_pixmap_info tab i img =
     (let format = im_format img
      in Option.bind (config_at tab i) (\<lambda>c.
        same_size (khrn_image_get_red_size format) (FEATURES_UNPACK_RED (cf_features c))
        (same_size (khrn_image_get_green_size format) (FEATURES_UNPACK_GREEN (cf_features c))
        (same_size (khrn_image_get_blue_size format) (FEATURES_UNPACK_BLUE (cf_features c))
        (same_size (khrn_image_get_alpha_size format) (FEATURES_UNPACK_ALPHA (cf_features c)) (Some True))))))"

definition egl_config_is_lockable :: "config_formats list \<Rightarrow> nat \<Rightarrow> bool option" where
  "egl_config_is_lockable tab i = map_option (\<lambda>c. FEATURES_UNPACK_LOCKABLE (cf_features c) \<noteq> 0) (config_at tab i)"

definition egl_config_get_mapped_format :: "config_formats list \<Rightarrow> nat \<Rightarrow> u32 option" where
  "egl_config_get_mapped_format tab i =
     Option.bind (config_at tab i) (\<lambda>c.
       if FEATURES_UNPACK_LOCKABLE (cf_features c) \<noteq> 0 \<and> khrn_image_is_rso (cf_color c) = Some True
       then Some (cf_color c) else None)"

definition egl_config_get_api_support :: "config_formats list \<Rightarrow> nat \<Rightarrow> u32 option" where
  "egl_config_get_api_support tab i =
     Option.bind (egl_config_is_lockable tab i) (\<lambda>lockable.
       if lockable then Some 0
       else map_option (\<lambda>color.
         if color \<in> set (concat (map (\<lambda>f. [f OR IMAGE_FORMAT_RSO, f OR IMAGE_FORMAT_BRCM1, f OR IMAGE_FORMAT_BRCM2])
             [ABGR_8888, XBGR_8888, ARGB_8888, XRGB_8888, RGB_565]))
         then EGL_OPENGL_ES_BIT OR EGL_OPENVG_BIT OR EGL_OPENGL_ES2_BIT else 0)
         (egl_config_get_color_format tab i))"

definition egl_config_get_api_conformance :: "config_formats list \<Rightarrow> nat \<Rightarrow> u32 option" where
  "egl_config_get_api_conformance tab i =
     Option.bind (config_at tab i) (\<lambda>c. map_option (\<lambda>support.
       support AND NOT (if FEATURES_UNPACK_MULTI (cf_features c) \<noteq> 0 then EGL_OPENVG_BIT else 0))
       (egl_config_get_api_support tab i))"

definition egl_config_bpps_match :: "config_formats list \<Rightarrow> nat \<Rightarrow> nat \<Rightarrow> bool" where
  "egl_config_bpps_match tab id0 id1 =
     (let config0 = cf_features (tab ! id0); config1 = cf_features (tab ! id1)
      in FEATURES_UNPACK_RED config0 = FEATURES_UNPACK_RED config1 \<and>
         FEATURES_UNPACK_GREEN config0 = FEATURES_UNPACK_GREEN config1 \<and>
         FEATURES_UNPACK_BLUE config0 = FEATURES_UNPACK_BLUE config1 \<and>
         FEATURES_UNPACK_ALPHA config0 = FEATURES_UNPACK_ALPHA config1 \<and>
         FEATURES_UNPACK_DEPTH config0 = FEATURES_UNPACK_DEPTH config1 \<and>
         FEATURES_UNPACK_STENCIL config0 = FEATURES_UNPACK_STENCIL config1 \<and>
         FEATURES_UNPACK_MASK config0 = FEATURES_UNPACK_MASK config1)"

section \<open>Native pixmaps\<close>

text \<open>Word \<open>k\<close> of the native pixmap at an address.\<close>

type_synonym pixmaps = "u32 \<Rightarrow> nat \<Rightarrow> u32"

definition EGL_PIXEL_FORMAT_USAGE_MASK_BRCM :: u32 where "EGL_PIXEL_FORMAT_USAGE_MASK_BRCM = 0x3f8"

definition convert_format :: "u32 \<Rightarrow> u32 option" where
  "convert_format format = map_of
     [(0, ABGR_8888 OR IMAGE_FORMAT_PRE), (1, ABGR_8888), (2, XBGR_8888), (3, RGB_565), (4, A_8)]
     (format AND NOT EGL_PIXEL_FORMAT_USAGE_MASK_BRCM)"

definition platform_get_pixmap_info :: "pixmaps \<Rightarrow> u32 \<Rightarrow> (bool \<times> image_wrap) option" where
  "platform_get_pixmap_info mem pixmap =
     map_option (\<lambda>f. (f \<noteq> 0, \<lparr>im_format = f, im_width = ucast (mem pixmap 2), im_height = ucast (mem pixmap 3),
       im_stride = 0, im_aux = NULL, im_storage = NULL\<rparr>)) (convert_format (mem pixmap 4))"

text \<open>Every API the configuration supports must have its bit in the fourth word of the pixmap.\<close>

definition platform_match_pixmap_api_support :: "pixmaps \<Rightarrow> u32 \<Rightarrow> u32 \<Rightarrow> bool" where
  "platform_match_pixmap_api_support mem pixmap api_support \<longleftrightarrow>
     list_all (\<lambda>(api, render). api_support AND api = 0 \<or> mem pixmap 4 AND push_bit render 1 \<noteq> 0)
       [(EGL_OPENGL_BIT, 3), (EGL_OPENGL_ES_BIT, 4), (EGL_OPENGL_ES2_BIT, 5), (EGL_OPENVG_BIT, 6)]"

section \<open>Checking attribute lists\<close>

text \<open>Which color components the client has expressed a preference for.\<close>

record uses =
  use_red :: bool
  use_green :: bool
  use_blue :: bool
  use_alpha :: bool

definition note_use :: "u32 \<Rightarrow> u32 \<Rightarrow> uses \<Rightarrow> uses" where
  "note_use name value u =
     (if value = 0 \<or> value = EGL_DONT_CARE then u
      else if name = EGL_RED_SIZE then u\<lparr>use_red := True\<rparr>
      else if name = EGL_GREEN_SIZE then u\<lparr>use_green := True\<rparr>
      else if name = EGL_BLUE_SIZE then u\<lparr>use_blue := True\<rparr>
      else if name = EGL_ALPHA_SIZE then u\<lparr>use_alpha := True\<rparr>
      else u)"

text \<open>The switch of \<open>egl_config_check_attribs\<close>: whether the attribute exists and has a valid value.\<close>

definition attrib_valid :: "pixmaps \<Rightarrow> u32 \<Rightarrow> u32 \<Rightarrow> bool option" where
  "attrib_valid mem name value =
     (if name \<in> set [EGL_BUFFER_SIZE, EGL_RED_SIZE, EGL_GREEN_SIZE, EGL_BLUE_SIZE, EGL_LUMINANCE_SIZE, EGL_ALPHA_SIZE,
          EGL_ALPHA_MASK_SIZE, EGL_DEPTH_SIZE, EGL_MAX_SWAP_INTERVAL, EGL_MIN_SWAP_INTERVAL, EGL_SAMPLE_BUFFERS,
          EGL_SAMPLES, EGL_STENCIL_SIZE, EGL_TRANSPARENT_RED_VALUE, EGL_TRANSPARENT_GREEN_VALUE, EGL_TRANSPARENT_BLUE_VALUE]
      then Some (value = EGL_DONT_CARE \<or> 0 \<le> sint value)
      else if name \<in> set [EGL_BIND_TO_TEXTURE_RGB, EGL_BIND_TO_TEXTURE_RGBA, EGL_NATIVE_RENDERABLE]
      then Some (value \<in> set [EGL_DONT_CARE, 0, 1])
      else if name = EGL_COLOR_BUFFER_TYPE then Some (value \<in> set [EGL_DONT_CARE, EGL_RGB_BUFFER, EGL_LUMINANCE_BUFFER])
      else if name = EGL_CONFIG_CAVEAT
      then Some (value \<in> set [EGL_DONT_CARE, EGL_NONE, EGL_SLOW_CONFIG, EGL_NON_CONFORMANT_CONFIG])
      else if name = EGL_CONFIG_ID then Some (value = EGL_DONT_CARE \<or> 1 \<le> sint value)
      else if name \<in> set [EGL_CONFORMANT, EGL_RENDERABLE_TYPE]
      then Some (value = EGL_DONT_CARE \<or>
        value AND NOT (EGL_OPENGL_BIT OR EGL_OPENGL_ES_BIT OR EGL_OPENGL_ES2_BIT OR EGL_OPENVG_BIT) = 0)
      else if name \<in> set [EGL_LEVEL, EGL_MAX_PBUFFER_WIDTH, EGL_MAX_PBUFFER_HEIGHT, EGL_MAX_PBUFFER_PIXELS,
          EGL_NATIVE_VISUAL_ID, EGL_NATIVE_VISUAL_TYPE] then Some True
      else if name = EGL_MATCH_NATIVE_PIXMAP
      then (if value = EGL_DONT_CARE then Some True else map_option fst (platform_get_pixmap_info mem value))
      else if name = EGL_SURFACE_TYPE
      then Some (value = EGL_DONT_CARE \<or>
        value AND NOT (EGL_WINDOW_BIT OR EGL_PIXMAP_BIT OR EGL_PBUFFER_BIT OR EGL_MULTISAMPLE_RESOLVE_BOX_BIT OR
          EGL_SWAP_BEHAVIOR_PRESERVED_BIT OR EGL_VG_COLORSPACE_LINEAR_BIT OR EGL_VG_ALPHA_FORMAT_PRE_BIT OR
          EGL_LOCK_SURFACE_BIT_KHR OR EGL_OPTIMAL_FORMAT_BIT_KHR) = 0)
      else if name = EGL_TRANSPARENT_TYPE then Some (value \<in> set [EGL_DONT_CARE, EGL_NONE, EGL_TRANSPARENT_RGB])
      else if name = EGL_MATCH_FORMAT_KHR
      then Some (value \<in> set [EGL_DONT_CARE, EGL_NONE, EGL_FORMAT_RGB_565_EXACT_KHR, EGL_FORMAT_RGB_565_KHR,
        EGL_FORMAT_RGBA_8888_EXACT_KHR, EGL_FORMAT_RGBA_8888_KHR])
      else Some False)"

fun check_loop :: "pixmaps \<Rightarrow> u32 list \<Rightarrow> uses \<Rightarrow> (bool \<times> uses) option" where
  "check_loop mem [] u = None"
| "check_loop mem [name] u = (if name = EGL_NONE then Some (True, u) else None)"
| "check_loop mem (name # value # rest) u =
     (if name = EGL_NONE then Some (True, u)
      else Option.bind (attrib_valid mem name value) (\<lambda>ok.
        if ok then check_loop mem rest (note_use name value u) else Some (False, note_use name value u)))"

definition egl_config_check_attribs :: "pixmaps \<Rightarrow> u32 list option \<Rightarrow> uses \<Rightarrow> (bool \<times> uses) option" where
  "egl_config_check_attribs mem attrib_list u = (case attrib_list of None \<Rightarrow> Some (True, u) | Some xs \<Rightarrow> check_loop mem xs u)"

section \<open>Sorting\<close>

definition used_color :: "uses \<Rightarrow> u32 \<Rightarrow> u32" where
  "used_color u features =
     (if use_red u then FEATURES_UNPACK_RED features else 0) + (if use_green u then FEATURES_UNPACK_GREEN features else 0) +
     (if use_blue u then FEATURES_UNPACK_BLUE features else 0) + (if use_alpha u then FEATURES_UNPACK_ALPHA features else 0)"

definition less_than :: "config_formats list \<Rightarrow> uses \<Rightarrow> nat \<Rightarrow> nat \<Rightarrow> bool" where
  "less_than tab u id0 id1 =
     (let features0 = cf_features (tab ! id0); features1 = cf_features (tab ! id1);
          all0 = sint (FEATURES_UNPACK_COLOR features0); all1 = sint (FEATURES_UNPACK_COLOR features1);
          multi0 = sint (FEATURES_UNPACK_MULTI features0); multi1 = sint (FEATURES_UNPACK_MULTI features1);
          depth0 = sint (FEATURES_UNPACK_DEPTH features0); depth1 = sint (FEATURES_UNPACK_DEPTH features1);
          stencil0 = sint (FEATURES_UNPACK_STENCIL features0); stencil1 = sint (FEATURES_UNPACK_STENCIL features1);
          mask0 = sint (FEATURES_UNPACK_MASK features0); mask1 = sint (FEATURES_UNPACK_MASK features1);
          used0 = sint (used_color u features0); used1 = sint (used_color u features1)
      in used0 > used1 \<or> (used0 = used1 \<and>
         (all0 < all1 \<or> (all0 = all1 \<and>
         (multi0 < multi1 \<or> (multi0 = multi1 \<and>
         (depth0 < depth1 \<or> (depth0 = depth1 \<and>
         (stencil0 < stencil1 \<or> (stencil0 = stencil1 \<and>
         mask0 < mask1))))))))))"

text \<open>The bubble sort, with the order and the number of elements as arguments.\<close>

definition bubble_step :: "('a \<Rightarrow> 'a \<Rightarrow> bool) \<Rightarrow> nat \<Rightarrow> 'a list \<Rightarrow> 'a list" where
  "bubble_step lt j ids = (if lt (ids ! (j + 1)) (ids ! j) then ids[j := ids ! (j + 1), j + 1 := ids ! j] else ids)"

definition bubble_sort :: "('a \<Rightarrow> 'a \<Rightarrow> bool) \<Rightarrow> nat \<Rightarrow> 'a list \<Rightarrow> 'a list" where
  "bubble_sort lt n ids = fold (\<lambda>i. fold (bubble_step lt) [0..<n - i]) [1..<n] ids"

definition egl_config_sort :: "config_formats list \<Rightarrow> nat list \<Rightarrow> uses \<Rightarrow> nat list" where
  "egl_config_sort tab ids u = bubble_sort (less_than tab u) EGL_MAX_CONFIGS ids"

section \<open>Attributes of a configuration\<close>

definition EGL_CONFIG_MIN_SWAP_INTERVAL :: u32 where "EGL_CONFIG_MIN_SWAP_INTERVAL = 0"
definition EGL_CONFIG_MAX_SWAP_INTERVAL :: u32 where "EGL_CONFIG_MAX_SWAP_INTERVAL = 0x7fffffff"
definition EGL_CONFIG_MAX_WIDTH :: u32 where "EGL_CONFIG_MAX_WIDTH = 2048"
definition EGL_CONFIG_MAX_HEIGHT :: u32 where "EGL_CONFIG_MAX_HEIGHT = 2048"

definition config_surface_type :: "config_formats list \<Rightarrow> nat \<Rightarrow> u32 option" where
  "config_surface_type tab i =
     (let value = EGL_PBUFFER_BIT OR EGL_PIXMAP_BIT OR EGL_WINDOW_BIT OR EGL_VG_COLORSPACE_LINEAR_BIT OR
            EGL_VG_ALPHA_FORMAT_PRE_BIT OR EGL_MULTISAMPLE_RESOLVE_BOX_BIT OR EGL_SWAP_BEHAVIOR_PRESERVED_BIT
      in Option.bind (egl_config_is_lockable tab i) (\<lambda>lockable.
        if \<not> lockable then Some value
        else Option.bind (egl_config_get_mapped_format tab i) (\<lambda>mapped.
          Some (value OR EGL_LOCK_SURFACE_BIT_KHR OR
            (if Some mapped = egl_config_get_color_format tab i then EGL_OPTIMAL_FORMAT_BIT_KHR else 0)))))"

definition config_match_format :: "config_formats list \<Rightarrow> nat \<Rightarrow> u32 option" where
  "config_match_format tab i =
     Option.bind (egl_config_is_lockable tab i) (\<lambda>lockable.
       if \<not> lockable then Some EGL_NONE
       else Option.bind (egl_config_get_mapped_format tab i) (map_of
         [(RGB_565 OR IMAGE_FORMAT_RSO, EGL_FORMAT_RGB_565_EXACT_KHR),
          (ARGB_8888 OR IMAGE_FORMAT_RSO, EGL_FORMAT_RGBA_8888_EXACT_KHR)]))"

text \<open>The result is \<open>Some None\<close> for an attribute that does not exist. \<open>platform_get_color_format\<close> is the identity.\<close>

definition egl_config_get_attrib :: "config_formats list \<Rightarrow> nat \<Rightarrow> u32 \<Rightarrow> u32 option option" where
  "egl_config_get_attrib tab i attrib =
     (let features = cf_features (tab ! i); val = (\<lambda>v. Some (Some v)); opt = map_option Some
      in if attrib = EGL_BUFFER_SIZE then val (FEATURES_UNPACK_COLOR features)
         else if attrib = EGL_RED_SIZE then val (FEATURES_UNPACK_RED features)
         else if attrib = EGL_GREEN_SIZE then val (FEATURES_UNPACK_GREEN features)
         else if attrib = EGL_BLUE_SIZE then val (FEATURES_UNPACK_BLUE features)
         else if attrib = EGL_LUMINANCE_SIZE then val 0
         else if attrib = EGL_ALPHA_SIZE then val (FEATURES_UNPACK_ALPHA features)
         else if attrib = EGL_ALPHA_MASK_SIZE then val (FEATURES_UNPACK_MASK features)
         else if attrib = EGL_BIND_TO_TEXTURE_RGB then val (of_bool (bindable_rgb features))
         else if attrib = EGL_BIND_TO_TEXTURE_RGBA then val (of_bool (bindable_rgba features))
         else if attrib = EGL_COLOR_BUFFER_TYPE then val EGL_RGB_BUFFER
         else if attrib = EGL_CONFIG_CAVEAT then val EGL_NONE
         else if attrib = EGL_CONFIG_ID then val (egl_config_from_id i)
         else if attrib = EGL_CONFORMANT then opt (egl_config_get_api_conformance tab i)
         else if attrib = EGL_DEPTH_SIZE then val (FEATURES_UNPACK_DEPTH features)
         else if attrib = EGL_LEVEL then val 0
         else if attrib = EGL_MATCH_NATIVE_PIXMAP then val 0
         else if attrib = EGL_MAX_PBUFFER_WIDTH then val EGL_CONFIG_MAX_WIDTH
         else if attrib = EGL_MAX_PBUFFER_HEIGHT then val EGL_CONFIG_MAX_HEIGHT
         else if attrib = EGL_MAX_PBUFFER_PIXELS then val (EGL_CONFIG_MAX_WIDTH * EGL_CONFIG_MAX_HEIGHT)
         else if attrib = EGL_MAX_SWAP_INTERVAL then val EGL_CONFIG_MAX_SWAP_INTERVAL
         else if attrib = EGL_MIN_SWAP_INTERVAL then val EGL_CONFIG_MIN_SWAP_INTERVAL
         else if attrib = EGL_NATIVE_RENDERABLE then val 1
         else if attrib = EGL_NATIVE_VISUAL_ID then opt (egl_config_get_color_format tab i)
         else if attrib = EGL_NATIVE_VISUAL_TYPE then val EGL_NONE
         else if attrib = EGL_RENDERABLE_TYPE then opt (egl_config_get_api_support tab i)
         else if attrib = EGL_SAMPLE_BUFFERS then val (FEATURES_UNPACK_MULTI features)
         else if attrib = EGL_SAMPLES then val (FEATURES_UNPACK_MULTI features * 4)
         else if attrib = EGL_STENCIL_SIZE then val (FEATURES_UNPACK_STENCIL features)
         else if attrib = EGL_SURFACE_TYPE then opt (config_surface_type tab i)
         else if attrib = EGL_TRANSPARENT_TYPE then val EGL_NONE
         else if attrib = EGL_TRANSPARENT_RED_VALUE then val 0
         else if attrib = EGL_TRANSPARENT_GREEN_VALUE then val 0
         else if attrib = EGL_TRANSPARENT_BLUE_VALUE then val 0
         else if attrib = EGL_MATCH_FORMAT_KHR then opt (config_match_format tab i)
         else Some None)"

section \<open>Matching attribute lists\<close>

definition pixmap_matches :: "pixmaps \<Rightarrow> config_formats list \<Rightarrow> nat \<Rightarrow> u32 \<Rightarrow> bool option" where
  "pixmap_matches mem tab i pixmap =
     Option.bind (platform_get_pixmap_info mem pixmap) (\<lambda>(ok, img).
       if \<not> ok then None
       else Option.bind (egl_config_match_pixmap_info tab i img) (\<lambda>info.
         if \<not> info then Some False
         else map_option (platform_match_pixmap_api_support mem pixmap) (egl_config_get_api_support tab i)))"

text \<open>The switch of \<open>egl_config_filter\<close>: whether the configuration's value meets the client's.\<close>

definition attrib_matches :: "pixmaps \<Rightarrow> config_formats list \<Rightarrow> nat \<Rightarrow> u32 \<Rightarrow> u32 \<Rightarrow> u32 \<Rightarrow> bool option" where
  "attrib_matches mem tab i name value actual =
     (if name \<in> set [EGL_BUFFER_SIZE, EGL_RED_SIZE, EGL_GREEN_SIZE, EGL_BLUE_SIZE, EGL_LUMINANCE_SIZE, EGL_ALPHA_SIZE,
          EGL_ALPHA_MASK_SIZE, EGL_DEPTH_SIZE, EGL_SAMPLE_BUFFERS, EGL_SAMPLES, EGL_STENCIL_SIZE]
      then Some (value = EGL_DONT_CARE \<or> sint value \<le> sint actual)
      else if name \<in> set [EGL_BIND_TO_TEXTURE_RGB, EGL_BIND_TO_TEXTURE_RGBA, EGL_COLOR_BUFFER_TYPE, EGL_CONFIG_CAVEAT,
          EGL_CONFIG_ID, EGL_MAX_SWAP_INTERVAL, EGL_MIN_SWAP_INTERVAL, EGL_NATIVE_RENDERABLE, EGL_TRANSPARENT_TYPE]
      then Some (value = EGL_DONT_CARE \<or> value = actual)
      else if name = EGL_LEVEL then Some (value = actual)
      else if name \<in> set [EGL_CONFORMANT, EGL_RENDERABLE_TYPE, EGL_SURFACE_TYPE]
      then Some (value = EGL_DONT_CARE \<or> value AND NOT actual = 0)
      else if name = EGL_MATCH_NATIVE_PIXMAP
      then (if value = EGL_DONT_CARE then Some True else pixmap_matches mem tab i value)
      else if name = EGL_MATCH_FORMAT_KHR
      then Some (value = EGL_DONT_CARE \<or> value = actual \<or>
        (value = EGL_FORMAT_RGB_565_KHR \<and> actual = EGL_FORMAT_RGB_565_EXACT_KHR) \<or>
        (value = EGL_FORMAT_RGBA_8888_KHR \<and> actual = EGL_FORMAT_RGBA_8888_EXACT_KHR))
      else if name \<in> set [EGL_MAX_PBUFFER_WIDTH, EGL_MAX_PBUFFER_HEIGHT, EGL_MAX_PBUFFER_PIXELS, EGL_NATIVE_VISUAL_ID,
          EGL_NATIVE_VISUAL_TYPE, EGL_TRANSPARENT_BLUE_VALUE, EGL_TRANSPARENT_GREEN_VALUE, EGL_TRANSPARENT_RED_VALUE]
      then Some True
      else None)"

fun filter_loop :: "pixmaps \<Rightarrow> config_formats list \<Rightarrow> nat \<Rightarrow> u32 list \<Rightarrow> bool option" where
  "filter_loop mem tab i [] = None"
| "filter_loop mem tab i [name] = (if name = EGL_NONE then Some True else None)"
| "filter_loop mem tab i (name # value # rest) =
     (if name = EGL_NONE then Some True
      else case egl_config_get_attrib tab i name of
        Some (Some actual) \<Rightarrow> Option.bind (attrib_matches mem tab i name value actual) (\<lambda>ok.
          if ok then filter_loop mem tab i rest else Some False)
      | _ \<Rightarrow> None)"

definition egl_config_filter :: "pixmaps \<Rightarrow> config_formats list \<Rightarrow> nat \<Rightarrow> u32 list option \<Rightarrow> bool option" where
  "egl_config_filter mem tab i attrib_list = (case attrib_list of None \<Rightarrow> Some True | Some xs \<Rightarrow> filter_loop mem tab i xs)"

section \<open>Entry points\<close>

text \<open>
  The error that the call leaves in the thread's state, its result, and what it leaves in the client's
  array of configurations and in \<open>num_config\<close>. \<open>client_egl_get_process_state\<close> gives the error of a call
  on a wrong display or before initialisation.
\<close>

definition client_egl_get_process_state :: "u32 \<Rightarrow> bool \<Rightarrow> bool \<Rightarrow> u32 option" where
  "client_egl_get_process_state dpy check_inited inited =
     (if dpy = 1 then if check_inited \<and> \<not> inited then Some EGL_NOT_INITIALIZED else None
      else Some EGL_BAD_DISPLAY)"

record config_call =
  cc_error :: u32
  cc_result :: bool
  cc_configs :: "u32 list option"
  cc_num :: "u32 option"

definition config_error :: "u32 \<Rightarrow> u32 list option \<Rightarrow> u32 option \<Rightarrow> config_call" where
  "config_error e configs num = \<lparr>cc_error = e, cc_result = False, cc_configs = configs, cc_num = num\<rparr>"

definition eglGetConfigs :: "bool \<Rightarrow> u32 \<Rightarrow> u32 list option \<Rightarrow> u32 \<Rightarrow> u32 option \<Rightarrow> config_call" where
  "eglGetConfigs inited dpy configs config_size num_config =
     (case client_egl_get_process_state dpy True inited of
        Some e \<Rightarrow> config_error e configs num_config
      | None \<Rightarrow>
        (case num_config of None \<Rightarrow> config_error EGL_BAD_PARAMETER configs num_config
         | Some _ \<Rightarrow> (case configs of
             None \<Rightarrow> \<lparr>cc_error = EGL_SUCCESS, cc_result = True, cc_configs = None, cc_num = Some (of_nat EGL_MAX_CONFIGS)\<rparr>
           | Some cs \<Rightarrow>
             (let n = nat (min (int EGL_MAX_CONFIGS) (sint config_size))
              in \<lparr>cc_error = EGL_SUCCESS, cc_result = True,
                  cc_configs = Some (fold (\<lambda>i cs. cs[i := egl_config_from_id i]) [0..<n] cs), cc_num = Some (of_nat n)\<rparr>))))"

text \<open>The loop that returns the configurations: \<open>j\<close> of them were found, and written when there is an array.\<close>

fun return_configs :: "(nat \<Rightarrow> bool option) \<Rightarrow> nat list \<Rightarrow> u32 list option \<Rightarrow> u32 \<Rightarrow> nat \<Rightarrow> (u32 list option \<times> nat) option" where
  "return_configs match [] configs config_size j = Some (configs, j)"
| "return_configs match (i # ids) configs config_size j =
     Option.bind (match i) (\<lambda>ok.
       if ok then (case configs of
           Some cs \<Rightarrow> if int j < sint config_size
             then return_configs match ids (Some (cs[j := egl_config_from_id i])) config_size (j + 1)
             else return_configs match ids configs config_size j
         | None \<Rightarrow> return_configs match ids None config_size (j + 1))
       else return_configs match ids configs config_size j)"

definition choose_config ::
  "config_formats list \<Rightarrow> pixmaps \<Rightarrow> bool \<Rightarrow> u32 \<Rightarrow> u32 list option \<Rightarrow> u32 list option \<Rightarrow> u32 \<Rightarrow> u32 option \<Rightarrow> bool \<Rightarrow> config_call option" where
  "choose_config tab mem inited dpy attrib_list configs config_size num_config sane =
     (case client_egl_get_process_state dpy True inited of
        Some e \<Rightarrow> Some (config_error e configs num_config)
      | None \<Rightarrow>
        if num_config = None then Some (config_error EGL_BAD_PARAMETER configs num_config)
        else Option.bind
          (egl_config_check_attribs mem attrib_list \<lparr>use_red = False, use_green = False, use_blue = False, use_alpha = False\<rparr>)
          (\<lambda>(ok, u).
            if \<not> ok then Some (config_error EGL_BAD_ATTRIBUTE configs num_config)
            else let ids = egl_config_sort tab [0..<EGL_MAX_CONFIGS]
                   \<lparr>use_red = \<not> sane \<and> use_red u, use_green = \<not> sane \<and> use_green u,
                    use_blue = \<not> sane \<and> use_blue u, use_alpha = \<not> sane \<and> use_alpha u\<rparr>
            in map_option (\<lambda>(configs', j).
                \<lparr>cc_error = EGL_SUCCESS, cc_result = True, cc_configs = configs', cc_num = Some (of_nat j)\<rparr>)
              (return_configs (\<lambda>i. egl_config_filter mem tab i attrib_list) ids configs config_size 0)))"

definition eglChooseConfig ::
  "config_formats list \<Rightarrow> pixmaps \<Rightarrow> bool \<Rightarrow> u32 \<Rightarrow> u32 list option \<Rightarrow> u32 list option \<Rightarrow> u32 \<Rightarrow> u32 option \<Rightarrow> config_call option" where
  "eglChooseConfig tab mem inited dpy attrib_list configs config_size num_config =
     choose_config tab mem inited dpy attrib_list configs config_size num_config False"

definition eglSaneChooseConfigBRCM ::
  "config_formats list \<Rightarrow> pixmaps \<Rightarrow> bool \<Rightarrow> u32 \<Rightarrow> u32 list option \<Rightarrow> u32 list option \<Rightarrow> u32 \<Rightarrow> u32 option \<Rightarrow> config_call option" where
  "eglSaneChooseConfigBRCM tab mem inited dpy attrib_list configs config_size num_config =
     choose_config tab mem inited dpy attrib_list configs config_size num_config True"

text \<open>The error, and the value that is stored: the result is true when there is one.\<close>

definition eglGetConfigAttrib :: "config_formats list \<Rightarrow> bool \<Rightarrow> u32 \<Rightarrow> u32 \<Rightarrow> u32 \<Rightarrow> bool \<Rightarrow> (u32 \<times> u32 option) option" where
  "eglGetConfigAttrib tab inited dpy config attribute has_value =
     (case client_egl_get_process_state dpy True inited of
        Some e \<Rightarrow> Some (e, None)
      | None \<Rightarrow>
        if \<not> has_value then Some (EGL_BAD_PARAMETER, None)
        else if egl_config_to_id config < 0 \<or> egl_config_to_id config \<ge> int EGL_MAX_CONFIGS then Some (EGL_BAD_CONFIG, None)
        else map_option (\<lambda>r. case r of None \<Rightarrow> (EGL_BAD_ATTRIBUTE, None) | Some v \<Rightarrow> (EGL_SUCCESS, Some v))
          (egl_config_get_attrib tab (nat (egl_config_to_id config)) attribute))"

end
