(* ===== verification/Egl_Objects.thy ===== *)
theory Egl_Objects
  imports Egl_Config Khrn_Map
begin

text \<open>
  circle/addon/vc4/interface/khronos/egl/egl_client_context.c, egl_client_surface.c and the state of
  common/khrn_client.[ch]: the contexts and surfaces of EGL, which live at addresses. An object that is
  freed is gone from its address, and \<open>None\<close> is an access to one that is gone, a failing assertion, or a
  division by zero. What the platform and the server answer (allocations and the old contents of the
  memory, semaphores, replies) are arguments. The calls that reach the server are logged.
\<close>

section \<open>Constants\<close>

abbreviation (input) EGL_HEIGHT :: u32 where "EGL_HEIGHT \<equiv> 0x3056"
abbreviation (input) EGL_WIDTH :: u32 where "EGL_WIDTH \<equiv> 0x3057"
abbreviation (input) EGL_LARGEST_PBUFFER :: u32 where "EGL_LARGEST_PBUFFER \<equiv> 0x3058"
abbreviation (input) EGL_DRAW :: u32 where "EGL_DRAW \<equiv> 0x3059"
abbreviation (input) EGL_READ :: u32 where "EGL_READ \<equiv> 0x305A"
abbreviation (input) EGL_TEXTURE_2D :: u32 where "EGL_TEXTURE_2D \<equiv> 0x305F"
abbreviation (input) EGL_TEXTURE_FORMAT :: u32 where "EGL_TEXTURE_FORMAT \<equiv> 0x3080"
abbreviation (input) EGL_TEXTURE_TARGET :: u32 where "EGL_TEXTURE_TARGET \<equiv> 0x3081"
abbreviation (input) EGL_MIPMAP_TEXTURE :: u32 where "EGL_MIPMAP_TEXTURE \<equiv> 0x3082"
abbreviation (input) EGL_MIPMAP_LEVEL :: u32 where "EGL_MIPMAP_LEVEL \<equiv> 0x3083"
abbreviation (input) EGL_BACK_BUFFER :: u32 where "EGL_BACK_BUFFER \<equiv> 0x3084"
abbreviation (input) EGL_SINGLE_BUFFER :: u32 where "EGL_SINGLE_BUFFER \<equiv> 0x3085"
abbreviation (input) EGL_RENDER_BUFFER :: u32 where "EGL_RENDER_BUFFER \<equiv> 0x3086"
abbreviation (input) EGL_VG_COLORSPACE :: u32 where "EGL_VG_COLORSPACE \<equiv> 0x3087"
abbreviation (input) EGL_VG_ALPHA_FORMAT :: u32 where "EGL_VG_ALPHA_FORMAT \<equiv> 0x3088"
abbreviation (input) EGL_VG_COLORSPACE_sRGB :: u32 where "EGL_VG_COLORSPACE_sRGB \<equiv> 0x3089"
abbreviation (input) EGL_VG_COLORSPACE_LINEAR :: u32 where "EGL_VG_COLORSPACE_LINEAR \<equiv> 0x308A"
abbreviation (input) EGL_VG_ALPHA_FORMAT_NONPRE :: u32 where "EGL_VG_ALPHA_FORMAT_NONPRE \<equiv> 0x308B"
abbreviation (input) EGL_VG_ALPHA_FORMAT_PRE :: u32 where "EGL_VG_ALPHA_FORMAT_PRE \<equiv> 0x308C"
abbreviation (input) EGL_HORIZONTAL_RESOLUTION :: u32 where "EGL_HORIZONTAL_RESOLUTION \<equiv> 0x3090"
abbreviation (input) EGL_VERTICAL_RESOLUTION :: u32 where "EGL_VERTICAL_RESOLUTION \<equiv> 0x3091"
abbreviation (input) EGL_PIXEL_ASPECT_RATIO :: u32 where "EGL_PIXEL_ASPECT_RATIO \<equiv> 0x3092"
abbreviation (input) EGL_SWAP_BEHAVIOR :: u32 where "EGL_SWAP_BEHAVIOR \<equiv> 0x3093"
abbreviation (input) EGL_BUFFER_PRESERVED :: u32 where "EGL_BUFFER_PRESERVED \<equiv> 0x3094"
abbreviation (input) EGL_BUFFER_DESTROYED :: u32 where "EGL_BUFFER_DESTROYED \<equiv> 0x3095"
abbreviation (input) EGL_OPENVG_IMAGE :: u32 where "EGL_OPENVG_IMAGE \<equiv> 0x3096"
abbreviation (input) EGL_CONTEXT_CLIENT_TYPE :: u32 where "EGL_CONTEXT_CLIENT_TYPE \<equiv> 0x3097"
abbreviation (input) EGL_CONTEXT_CLIENT_VERSION :: u32 where "EGL_CONTEXT_CLIENT_VERSION \<equiv> 0x3098"
abbreviation (input) EGL_MULTISAMPLE_RESOLVE :: u32 where "EGL_MULTISAMPLE_RESOLVE \<equiv> 0x3099"
abbreviation (input) EGL_MULTISAMPLE_RESOLVE_DEFAULT :: u32 where "EGL_MULTISAMPLE_RESOLVE_DEFAULT \<equiv> 0x309A"
abbreviation (input) EGL_MULTISAMPLE_RESOLVE_BOX :: u32 where "EGL_MULTISAMPLE_RESOLVE_BOX \<equiv> 0x309B"
abbreviation (input) EGL_OPENGL_ES_API :: u32 where "EGL_OPENGL_ES_API \<equiv> 0x30A0"
abbreviation (input) EGL_OPENVG_API :: u32 where "EGL_OPENVG_API \<equiv> 0x30A1"
abbreviation (input) EGL_DISPLAY_SCALING :: u32 where "EGL_DISPLAY_SCALING \<equiv> 10000"

definition PLATFORM_WIN_NONE :: u32 where "PLATFORM_WIN_NONE = 0xffffffff"

definition KHRN_NO_SEMAPHORE :: u32 where "KHRN_NO_SEMAPHORE = 0xffffffff"

section \<open>State\<close>

datatype context_type = OPENGL_ES_11 | OPENGL_ES_20 | OPENVG

datatype surface_type = WINDOW | PBUFFER | PIXMAP

datatype colorspace = SRGB | LINEAR

datatype alphaformat = NONPRE | PRE

text \<open>
  An \<open>EGL_CONTEXT_T\<close>. \<open>cx_callbacks\<close> is whether the render and flush callbacks of its client state are
  set (they are set and cleared together); the rest of the client state is not modelled.
\<close>

record egl_context =
  cx_name :: u32
  cx_display :: u32
  cx_configname :: u32
  cx_type :: context_type
  cx_renderbuffer :: u32
  cx_servercontext :: u32
  cx_thread :: nat
  cx_is_current :: bool
  cx_is_destroyed :: bool
  cx_callbacks :: bool

text \<open>An \<open>EGL_SURFACE_T\<close>, without its semaphore.\<close>

record egl_surface =
  sf_name :: u32
  sf_type :: surface_type
  sf_colorspace :: colorspace
  sf_alphaformat :: alphaformat
  sf_config :: u32
  sf_base_width :: u32
  sf_base_height :: u32
  sf_buffers :: u32
  sf_width :: u32
  sf_height :: u32
  sf_serverbuffer :: u32
  sf_context_binding_count :: u32
  sf_thread :: nat
  sf_is_locked :: bool
  sf_mapped_buffer :: ptr
  sf_is_destroyed :: bool
  sf_swap_behavior :: u32
  sf_multisample_resolve :: u32
  sf_win :: ptr
  sf_swap_interval :: u32
  sf_internal_handle :: u32
  sf_largest_pbuffer :: bool
  sf_mipmap_texture :: bool
  sf_mipmap_level :: u32
  sf_texture_format :: u32
  sf_texture_target :: u32
  sf_pixmap :: u32
  sf_pixmap_server_handle :: "u32 \<times> u32"
  sf_server_owned :: bool

text \<open>\<open>EGL_CURRENT_T\<close>: what is current in a thread for one of the two APIs.\<close>

record egl_current =
  cur_context :: ptr
  cur_draw :: ptr
  cur_read :: ptr

record egl_thread =
  t_error :: u32
  t_bound_api :: u32
  t_opengl :: egl_current
  t_openvg :: egl_current

text \<open>The calls to the server, with the thread where its state matters.\<close>

datatype server_call =
    CallCreateContext context_type u32 context_type
  | CallDestroyVG u32
  | CallDestroyGL u32
  | CallCreateSurface "u32 list" surface_type
  | CallCreateWrappedSurface "u32 list"
  | CallCreatePbufferFromVGImage "u32 list"
  | CallDestroySurface u32
  | CallSelectMipmap u32 u32
  | CallFlush bool bool
  | CallMakeCurrent nat u32 u32 u32 u32 u32 u32
  | CallTryUnload

record egl_state =
  es_formats :: "config_formats list"
  es_threads :: "nat \<Rightarrow> egl_thread"
  es_inited :: bool
  es_context_current_count :: u32
  es_contexts :: "ptr gmap"
  es_surfaces :: "ptr gmap"
  es_next_surface :: u32
  es_next_context :: u32
  es_ctx :: "ptr \<Rightarrow> egl_context option"
  es_surf :: "ptr \<Rightarrow> egl_surface option"
  es_log :: "server_call list"

definition log_call :: "server_call \<Rightarrow> egl_state \<Rightarrow> egl_state" where
  "log_call c s = s\<lparr>es_log := es_log s @ [c]\<rparr>"

definition set_error :: "nat \<Rightarrow> u32 \<Rightarrow> egl_state \<Rightarrow> egl_state" where
  "set_error t e s = s\<lparr>es_threads := (es_threads s)(t := (es_threads s t)\<lparr>t_error := e\<rparr>)\<rparr>"

definition upd_ctx :: "ptr \<Rightarrow> (egl_context \<Rightarrow> egl_context) \<Rightarrow> egl_state \<Rightarrow> egl_state option" where
  "upd_ctx p f s = map_option (\<lambda>c. s\<lparr>es_ctx := (es_ctx s)(p \<mapsto> f c)\<rparr>) (es_ctx s p)"

definition upd_surf :: "ptr \<Rightarrow> (egl_surface \<Rightarrow> egl_surface) \<Rightarrow> egl_state \<Rightarrow> egl_state option" where
  "upd_surf p f s = map_option (\<lambda>x. s\<lparr>es_surf := (es_surf s)(p \<mapsto> f x)\<rparr>) (es_surf s p)"

section \<open>Contexts\<close>

text \<open>
  The versions of a context's attribute list: the result and the version. A list that is read past its
  last word is \<open>None\<close>.
\<close>

fun context_attribs_loop :: "u32 \<Rightarrow> u32 list \<Rightarrow> u32 \<Rightarrow> (bool \<times> u32) option" where
  "context_attribs_loop max_version [] version = None"
| "context_attribs_loop max_version [name] version =
     (if name = EGL_CONTEXT_CLIENT_VERSION then None else Some (name = EGL_NONE, version))"
| "context_attribs_loop max_version (name # v # rest) version =
     (if name = EGL_CONTEXT_CLIENT_VERSION
      then if sint v < 1 \<or> sint v > sint max_version then Some (False, version)
           else context_attribs_loop max_version rest v
      else Some (name = EGL_NONE, version))"

definition egl_context_check_attribs :: "u32 list option \<Rightarrow> u32 \<Rightarrow> u32 \<Rightarrow> (bool \<times> u32) option" where
  "egl_context_check_attribs attrib_list max_version version =
     (case attrib_list of None \<Rightarrow> Some (True, version) | Some xs \<Rightarrow> context_attribs_loop max_version xs version)"

text \<open>
  What the creation of a context gets: the memory with its old contents, whether the shared state (of
  OpenVG) and the client state are allocated, whether the client state of OpenGL ES is initialised, and
  the context that the server replies.
\<close>

record context_env =
  ce_memory :: "(ptr \<times> egl_context) option"
  ce_shared :: bool
  ce_state :: bool
  ce_init :: bool
  ce_server :: u32

definition egl_context_create ::
  "context_env \<Rightarrow> egl_context option \<Rightarrow> u32 \<Rightarrow> u32 \<Rightarrow> u32 \<Rightarrow> context_type \<Rightarrow> egl_state \<Rightarrow> ptr option \<times> egl_state" where
  "egl_context_create env share name dpy configname ty s =
     (case ce_memory env of
        None \<Rightarrow> (None, s)
      | Some (p, raw) \<Rightarrow>
        let c = raw\<lparr>cx_name := name, cx_display := dpy, cx_configname := configname, cx_type := ty,
              cx_renderbuffer := EGL_NONE, cx_is_current := False, cx_is_destroyed := False\<rparr>;
            call = log_call (case share of None \<Rightarrow> CallCreateContext ty 0 ty
              | Some sh \<Rightarrow> CallCreateContext ty (cx_servercontext sh) (cx_type sh)) s;
            created = (if ce_server env = 0 then (None, call)
              else (Some p, call\<lparr>es_ctx := (es_ctx call)(p \<mapsto> c\<lparr>cx_servercontext := ce_server env\<rparr>)\<rparr>))
        in case ty of
             OPENVG \<Rightarrow>
               if (share = None \<and> \<not> ce_shared env) \<or> \<not> ce_state env then (None, s)
               else if ce_server env = 0 then (None, call)
               else (Some p, call\<lparr>es_ctx := (es_ctx call)(p \<mapsto> c\<lparr>cx_servercontext := ce_server env, cx_callbacks := False\<rparr>)\<rparr>)
           | _ \<Rightarrow>
               if \<not> ce_state env then (None, s)
               else if ce_init env then created
               else (Some p, s\<lparr>es_ctx := (es_ctx s)(p \<mapsto> c)\<rparr>))"

definition egl_context_term :: "ptr \<Rightarrow> egl_state \<Rightarrow> egl_state option" where
  "egl_context_term p s =
     Option.bind (es_ctx s p) (\<lambda>c.
       if cx_is_current c \<or> \<not> cx_is_destroyed c then None
       else Some (log_call ((case cx_type c of OPENVG \<Rightarrow> CallDestroyVG | _ \<Rightarrow> CallDestroyGL) (cx_servercontext c)) s))"

definition free_context :: "ptr \<Rightarrow> egl_state \<Rightarrow> egl_state" where
  "free_context p s = s\<lparr>es_ctx := (es_ctx s)(p := None)\<rparr>"

definition egl_context_maybe_free :: "ptr \<Rightarrow> egl_state \<Rightarrow> egl_state option" where
  "egl_context_maybe_free p s =
     Option.bind (es_ctx s p) (\<lambda>c.
       if \<not> cx_is_destroyed c \<or> cx_is_current c then Some s
       else map_option (free_context p) (egl_context_term p s))"

definition egl_context_get_attrib :: "egl_context \<Rightarrow> u32 \<Rightarrow> u32 option" where
  "egl_context_get_attrib c attrib =
     (if attrib = EGL_CONFIG_ID then Some (cx_configname c)
      else if attrib = EGL_CONTEXT_CLIENT_TYPE
      then Some (case cx_type c of OPENVG \<Rightarrow> EGL_OPENVG_API | _ \<Rightarrow> EGL_OPENGL_ES_API)
      else if attrib = EGL_CONTEXT_CLIENT_VERSION
      then Some (case cx_type c of OPENGL_ES_20 \<Rightarrow> 2 | _ \<Rightarrow> 1)
      else if attrib = EGL_RENDER_BUFFER then Some (cx_renderbuffer c)
      else None)"

definition egl_context_set_callbacks :: "ptr \<Rightarrow> bool \<Rightarrow> egl_state \<Rightarrow> egl_state option" where
  "egl_context_set_callbacks p b s = upd_ctx p (\<lambda>c. c\<lparr>cx_callbacks := b\<rparr>) s"

section \<open>Attributes of surfaces\<close>

record surface_attribs =
  sa_linear :: bool
  sa_premult :: bool
  sa_single :: bool
  sa_width :: u32
  sa_height :: u32
  sa_largest_pbuffer :: bool
  sa_texture_format :: u32
  sa_texture_target :: u32
  sa_mipmap_texture :: bool

definition default_attribs :: surface_attribs where
  "default_attribs = \<lparr>sa_linear = False, sa_premult = False, sa_single = False, sa_width = 0, sa_height = 0,
     sa_largest_pbuffer = False, sa_texture_format = EGL_NO_TEXTURE, sa_texture_target = EGL_NO_TEXTURE,
     sa_mipmap_texture = False\<rparr>"

text \<open>The switch of \<open>egl_surface_check_attribs\<close>; the caller ignores what it passes no pointer for.\<close>

definition surface_attrib :: "surface_type \<Rightarrow> u32 \<Rightarrow> u32 \<Rightarrow> surface_attribs \<Rightarrow> surface_attribs option" where
  "surface_attrib ty name v a =
     (if name = EGL_VG_COLORSPACE then
        if v = EGL_VG_COLORSPACE_LINEAR then Some (a\<lparr>sa_linear := True\<rparr>)
        else if v = EGL_VG_COLORSPACE_sRGB then Some a else None
      else if name = EGL_VG_ALPHA_FORMAT then
        if v = EGL_VG_ALPHA_FORMAT_PRE then Some (a\<lparr>sa_premult := True\<rparr>)
        else if v = EGL_VG_ALPHA_FORMAT_NONPRE then Some a else None
      else if name = EGL_RENDER_BUFFER then
        if ty \<noteq> WINDOW then None
        else if v = EGL_SINGLE_BUFFER then Some (a\<lparr>sa_single := True\<rparr>)
        else if v = EGL_BACK_BUFFER then Some a else None
      else if ty \<noteq> PBUFFER then None
      else if name = EGL_WIDTH then if sint v < 0 then None else Some (a\<lparr>sa_width := v\<rparr>)
      else if name = EGL_HEIGHT then if sint v < 0 then None else Some (a\<lparr>sa_height := v\<rparr>)
      else if name = EGL_LARGEST_PBUFFER then if v \<notin> {0, 1} then None else Some (a\<lparr>sa_largest_pbuffer := (v \<noteq> 0)\<rparr>)
      else if name = EGL_TEXTURE_FORMAT then
        if v \<notin> {EGL_NO_TEXTURE, EGL_TEXTURE_RGB, EGL_TEXTURE_RGBA} then None else Some (a\<lparr>sa_texture_format := v\<rparr>)
      else if name = EGL_TEXTURE_TARGET then
        if v \<notin> {EGL_NO_TEXTURE, EGL_TEXTURE_2D} then None else Some (a\<lparr>sa_texture_target := v\<rparr>)
      else if name = EGL_MIPMAP_TEXTURE then if v \<notin> {0, 1} then None else Some (a\<lparr>sa_mipmap_texture := (v \<noteq> 0)\<rparr>)
      else None)"

fun surface_attribs_loop :: "surface_type \<Rightarrow> u32 list \<Rightarrow> surface_attribs \<Rightarrow> surface_attribs option option" where
  "surface_attribs_loop ty [] a = None"
| "surface_attribs_loop ty [name] a = (if name = EGL_NONE then Some (Some a) else None)"
| "surface_attribs_loop ty (name # v # rest) a =
     (if name = EGL_NONE then Some (Some a)
      else case surface_attrib ty name v a of None \<Rightarrow> Some None | Some a' \<Rightarrow> surface_attribs_loop ty rest a')"

text \<open>\<open>Some None\<close> is the result \<open>false\<close>.\<close>

definition egl_surface_check_attribs :: "surface_type \<Rightarrow> u32 list option \<Rightarrow> surface_attribs option option" where
  "egl_surface_check_attribs ty attrib_list =
     (case attrib_list of None \<Rightarrow> Some (Some default_attribs) | Some xs \<Rightarrow> surface_attribs_loop ty xs default_attribs)"

section \<open>Surfaces\<close>

text \<open>
  What the creation of a surface gets: the memory with its old contents, whether the semaphore of the
  buffers is created, and what the server replies.
\<close>

record surface_env =
  se_memory :: "(ptr \<times> egl_surface) option"
  se_semaphore :: bool
  se_width :: u32
  se_height :: u32
  se_server :: u32

text \<open>What the caller asks for.\<close>

record surface_request =
  sr_type :: surface_type
  sr_colorspace :: colorspace
  sr_alphaformat :: alphaformat
  sr_buffers :: u32
  sr_width :: u32
  sr_height :: u32
  sr_config :: u32
  sr_win :: ptr
  sr_serverwin :: u32
  sr_largest_pbuffer :: bool
  sr_texture_compatibility :: bool
  sr_mipmap_texture :: bool
  sr_texture_format :: u32
  sr_texture_target :: u32
  sr_pixmap :: u32
  sr_pixmap_server_handle :: "(u32 \<times> u32) option"

text \<open>The formats and bits of a configuration that go to the server.\<close>

definition config_buffers :: "config_formats list \<Rightarrow> u32 \<Rightarrow> (u32 \<times> u32 \<times> u32 \<times> u32 \<times> u32 \<times> u32) option" where
  "config_buffers tab config =
     (let i = nat (egl_config_to_id config)
      in Option.bind (config_at tab i) (\<lambda>c.
        if cf_color c = IMAGE_FORMAT_INVALID then None
        else Some (cf_color c, cf_depth c, cf_mask c, cf_multisample c,
          FEATURES_UNPACK_DEPTH (cf_features c), FEATURES_UNPACK_STENCIL (cf_features c))))"

definition surface_color :: "surface_request \<Rightarrow> u32 \<Rightarrow> u32" where
  "surface_color r color =
     (let color = (if sr_texture_compatibility r then (color AND NOT IMAGE_FORMAT_MEM_LAYOUT_MASK) OR IMAGE_FORMAT_BRCM1 else color);
          color = (if sr_alphaformat r = PRE then color OR IMAGE_FORMAT_PRE else color)
      in if sr_colorspace r = LINEAR then color OR IMAGE_FORMAT_LIN else color)"

definition new_surface :: "egl_surface \<Rightarrow> u32 \<Rightarrow> surface_request \<Rightarrow> egl_surface" where
  "new_surface raw name r = raw\<lparr>sf_name := name, sf_type := sr_type r, sf_colorspace := sr_colorspace r,
     sf_alphaformat := sr_alphaformat r, sf_config := sr_config r, sf_win := sr_win r, sf_width := sr_width r,
     sf_height := sr_height r, sf_swap_interval := 1, sf_base_width := sr_width r, sf_base_height := sr_height r,
     sf_internal_handle := sr_serverwin r, sf_largest_pbuffer := sr_largest_pbuffer r,
     sf_mipmap_texture := sr_mipmap_texture r, sf_mipmap_level := 0, sf_texture_format := sr_texture_format r,
     sf_texture_target := sr_texture_target r, sf_pixmap := sr_pixmap r,
     sf_pixmap_server_handle := (case sr_pixmap_server_handle r of None \<Rightarrow> (0, - 1) | Some h \<Rightarrow> h),
     sf_server_owned := False,
     sf_swap_behavior := (if sr_buffers r > 1 then EGL_BUFFER_DESTROYED else EGL_BUFFER_PRESERVED),
     sf_multisample_resolve := EGL_MULTISAMPLE_RESOLVE_DEFAULT, sf_context_binding_count := 0,
     sf_is_destroyed := False, sf_is_locked := False, sf_mapped_buffer := NULL, sf_buffers := sr_buffers r\<rparr>"

definition store_surface :: "ptr \<Rightarrow> egl_surface \<Rightarrow> egl_state \<Rightarrow> ptr option \<times> egl_state" where
  "store_surface p x s = (if sf_serverbuffer x = 0 then (None, s) else (Some p, s\<lparr>es_surf := (es_surf s)(p \<mapsto> x)\<rparr>))"

definition egl_surface_create :: "surface_env \<Rightarrow> u32 \<Rightarrow> surface_request \<Rightarrow> egl_state \<Rightarrow> (ptr option \<times> egl_state) option" where
  "egl_surface_create env name r s =
     (if \<not> ((sr_width r \<le> EGL_CONFIG_MAX_WIDTH \<and> sr_height r \<le> EGL_CONFIG_MAX_HEIGHT) \<or> sr_largest_pbuffer r) then None
      else case se_memory env of None \<Rightarrow> Some (None, s)
      | Some (p, raw) \<Rightarrow>
        Option.bind (config_buffers (es_formats s) (sr_config r)) (\<lambda>(color, depth, msk, multi, depth_bits, stencil_bits).
          let x = new_surface raw name r
          in case sr_pixmap_server_handle r of
               Some (h0, h1) \<Rightarrow>
                 if sr_type r \<noteq> PIXMAP then None
                 else Some (store_surface p (x\<lparr>sf_serverbuffer := se_server env\<rparr>)
                   (log_call (CallCreateWrappedSurface [h0, h1, depth, msk, multi, depth_bits, stencil_bits]) s))
             | None \<Rightarrow>
                 let sem_name = (if sr_buffers r > 1 then name else KHRN_NO_SEMAPHORE)
                 in if sem_name = KHRN_NO_SEMAPHORE \<or> (sr_buffers r > 1 \<and> se_semaphore env)
                    then Some (store_surface p
                      (x\<lparr>sf_width := se_width env, sf_height := se_height env, sf_serverbuffer := se_server env\<rparr>)
                      (log_call (CallCreateSurface [sr_serverwin r, sr_buffers r, sr_width r, sr_height r, surface_color r color,
                        depth, msk, multi, of_bool (sr_largest_pbuffer r), of_bool (sr_mipmap_texture r), depth_bits,
                        stencil_bits, sem_name] (sr_type r)) s))
                    else Some (None, s)))"

text \<open>
  The surface of a VGImage: the server replies its buffer, or an error, its size and its format. The
  surface or the error, and the state.
\<close>

record image_env =
  ie_memory :: "(ptr \<times> egl_surface) option"
  ie_results :: "u32 list"

definition egl_surface_from_vg_image ::
  "image_env \<Rightarrow> u32 \<Rightarrow> u32 \<Rightarrow> u32 \<Rightarrow> surface_attribs \<Rightarrow> egl_state \<Rightarrow> ((u32 + ptr) \<times> egl_state) option" where
  "egl_surface_from_vg_image env vg_handle name config a s =
     (case ie_memory env of None \<Rightarrow> Some (Inl EGL_BAD_ALLOC, s)
      | Some (p, raw) \<Rightarrow>
        Option.bind (config_buffers (es_formats s) config) (\<lambda>(color, depth, msk, multi, depth_bits, stencil_bits).
          let s' = log_call (CallCreatePbufferFromVGImage [vg_handle, color, depth, msk, multi, of_bool (sa_mipmap_texture a),
                depth_bits, stencil_bits]) s;
              results = ie_results env;
              format = results ! 4;
              x = raw\<lparr>sf_name := name, sf_type := PBUFFER, sf_config := config, sf_win := NULL, sf_swap_interval := 1,
                sf_largest_pbuffer := sa_largest_pbuffer a, sf_mipmap_texture := sa_mipmap_texture a, sf_mipmap_level := 0,
                sf_texture_format := sa_texture_format a, sf_texture_target := sa_texture_target a, sf_pixmap := 0,
                sf_pixmap_server_handle := (0, - 1), sf_server_owned := False, sf_context_binding_count := 0,
                sf_is_destroyed := False, sf_is_locked := False, sf_mapped_buffer := NULL, sf_buffers := 1,
                sf_serverbuffer := results ! 0, sf_width := results ! 2, sf_height := results ! 3,
                sf_colorspace := (if format AND IMAGE_FORMAT_LIN \<noteq> 0 then LINEAR else SRGB),
                sf_alphaformat := (if format AND IMAGE_FORMAT_PRE \<noteq> 0 then PRE else NONPRE)\<rparr>
          in Some (if results ! 0 = 0 then (Inl (results ! 1), s') else (Inr p, s'\<lparr>es_surf := (es_surf s')(p \<mapsto> x)\<rparr>))))"

definition egl_surface_free :: "ptr \<Rightarrow> egl_state \<Rightarrow> egl_state option" where
  "egl_surface_free p s =
     Option.bind (es_surf s p) (\<lambda>x.
       Some (log_call (CallDestroySurface (sf_serverbuffer x)) (s\<lparr>es_surf := (es_surf s)(p := None)\<rparr>)))"

definition egl_surface_get_render_buffer :: "egl_surface \<Rightarrow> u32" where
  "egl_surface_get_render_buffer x = (case sf_type x of
     WINDOW \<Rightarrow> if sf_buffers x = 1 then EGL_SINGLE_BUFFER else EGL_BACK_BUFFER
   | PBUFFER \<Rightarrow> EGL_BACK_BUFFER
   | PIXMAP \<Rightarrow> EGL_SINGLE_BUFFER)"

text \<open>The value of an attribute; \<open>Some None\<close> leaves the client's value as it is, \<open>None\<close> is the result \<open>false\<close>.\<close>

definition egl_surface_get_attrib :: "egl_surface \<Rightarrow> u32 \<Rightarrow> u32 option option" where
  "egl_surface_get_attrib x attrib =
     (let pbuffer = (\<lambda>v. Some (if sf_type x = PBUFFER then Some v else None))
      in if attrib = EGL_VG_ALPHA_FORMAT
         then Some (Some (if sf_alphaformat x = NONPRE then EGL_VG_ALPHA_FORMAT_NONPRE else EGL_VG_ALPHA_FORMAT_PRE))
         else if attrib = EGL_VG_COLORSPACE
         then Some (Some (if sf_colorspace x = SRGB then EGL_VG_COLORSPACE_sRGB else EGL_VG_COLORSPACE_LINEAR))
         else if attrib = EGL_CONFIG_ID then Some (Some (sf_config x))
         else if attrib = EGL_HEIGHT then Some (Some (sf_height x))
         else if attrib \<in> {EGL_HORIZONTAL_RESOLUTION, EGL_VERTICAL_RESOLUTION} then Some (Some (- 1))
         else if attrib = EGL_LARGEST_PBUFFER then pbuffer (of_bool (sf_largest_pbuffer x))
         else if attrib = EGL_MIPMAP_TEXTURE then pbuffer (of_bool (sf_mipmap_texture x))
         else if attrib = EGL_MIPMAP_LEVEL then pbuffer (sf_mipmap_level x)
         else if attrib = EGL_PIXEL_ASPECT_RATIO then Some (Some EGL_DISPLAY_SCALING)
         else if attrib = EGL_RENDER_BUFFER then Some (Some (egl_surface_get_render_buffer x))
         else if attrib = EGL_SWAP_BEHAVIOR then Some (Some (sf_swap_behavior x))
         else if attrib = EGL_MULTISAMPLE_RESOLVE then Some (Some (sf_multisample_resolve x))
         else if attrib = EGL_TEXTURE_FORMAT then pbuffer (sf_texture_format x)
         else if attrib = EGL_TEXTURE_TARGET then pbuffer (sf_texture_target x)
         else if attrib = EGL_WIDTH then Some (Some (sf_width x))
         else None)"

definition egl_surface_set_attrib :: "ptr \<Rightarrow> u32 \<Rightarrow> u32 \<Rightarrow> egl_state \<Rightarrow> (u32 \<times> egl_state) option" where
  "egl_surface_set_attrib p attrib v s =
     Option.bind (es_surf s p) (\<lambda>x.
       if attrib = EGL_MIPMAP_LEVEL then
         (if sf_type x = PBUFFER
          then map_option (Pair EGL_SUCCESS) (upd_surf p (\<lambda>x. x\<lparr>sf_mipmap_level := v\<rparr>)
            (log_call (CallSelectMipmap (sf_serverbuffer x) v) s))
          else Some (EGL_SUCCESS, s))
       else if attrib = EGL_SWAP_BEHAVIOR then
         (if v \<in> {EGL_BUFFER_PRESERVED, EGL_BUFFER_DESTROYED}
          then map_option (Pair EGL_SUCCESS) (upd_surf p (\<lambda>x. x\<lparr>sf_swap_behavior := v\<rparr>) s)
          else Some (EGL_BAD_PARAMETER, s))
       else if attrib = EGL_MULTISAMPLE_RESOLVE then
         (if v \<in> {EGL_MULTISAMPLE_RESOLVE_DEFAULT, EGL_MULTISAMPLE_RESOLVE_BOX}
          then map_option (Pair EGL_SUCCESS) (upd_surf p (\<lambda>x. x\<lparr>sf_multisample_resolve := v\<rparr>) s)
          else Some (EGL_BAD_PARAMETER, s))
       else Some (EGL_BAD_ATTRIBUTE, s))"

definition egl_surface_maybe_free :: "ptr \<Rightarrow> egl_state \<Rightarrow> egl_state option" where
  "egl_surface_maybe_free p s =
     Option.bind (es_surf s p) (\<lambda>x.
       if \<not> sf_is_destroyed x \<or> sf_context_binding_count x \<noteq> 0 then Some s else egl_surface_free p s)"

end
