(* ===== verification/Egl_Client.thy ===== *)
theory Egl_Client
  imports Egl_Objects
begin

text \<open>
  circle/addon/vc4/interface/khronos/egl/egl_client.c and common/khrn_client.c, khrn_client_cr.c: the
  entry points of EGL that create, bind and destroy contexts and surfaces. Every one runs under the
  client lock, so that a call of a thread is one step; threads are numbers. A call gives its result and
  the state; \<open>None\<close> is an access to a freed object, a failing assertion or a division by zero.
\<close>

section \<open>The state of the process and of threads\<close>

definition no_current :: egl_current where
  "no_current = \<lparr>cur_context = NULL, cur_draw = NULL, cur_read = NULL\<rparr>"

definition client_thread_state_init :: egl_thread where
  "client_thread_state_init = \<lparr>t_error = EGL_SUCCESS, t_bound_api = EGL_OPENGL_ES_API,
     t_opengl = no_current, t_openvg = no_current\<rparr>"

definition convert_gltype :: "context_type \<Rightarrow> u32 option" where
  "convert_gltype ty = (case ty of OPENGL_ES_11 \<Rightarrow> Some 1 | OPENGL_ES_20 \<Rightarrow> Some 2 | OPENVG \<Rightarrow> None)"

text \<open>The server's names of an object; 0 for none.\<close>

definition ctx_server :: "egl_state \<Rightarrow> ptr \<Rightarrow> u32 option" where
  "ctx_server s p = (if p = NULL then Some 0 else map_option cx_servercontext (es_ctx s p))"

definition surf_server :: "egl_state \<Rightarrow> ptr \<Rightarrow> u32 option" where
  "surf_server s p = (if p = NULL then Some 0 else map_option sf_serverbuffer (es_surf s p))"

definition client_send_make_current :: "nat \<Rightarrow> egl_state \<Rightarrow> egl_state option" where
  "client_send_make_current t s =
     (let gl = t_opengl (es_threads s t); vg = t_openvg (es_threads s t)
      in Option.bind (if cur_context gl = NULL then Some 0
             else Option.bind (es_ctx s (cur_context gl)) (\<lambda>c. convert_gltype (cx_type c))) (\<lambda>gltype.
         Option.bind (ctx_server s (cur_context gl)) (\<lambda>servergl.
         Option.bind (surf_server s (cur_draw gl)) (\<lambda>servergldraw.
         Option.bind (surf_server s (cur_read gl)) (\<lambda>serverglread.
         Option.bind (ctx_server s (cur_context vg)) (\<lambda>servervg.
         Option.bind (surf_server s (cur_draw vg)) (\<lambda>servervgsurf.
           Some (log_call (CallMakeCurrent t gltype servergl servergldraw serverglread servervg servervgsurf) s))))))))"

definition client_try_unload_server :: "egl_state \<Rightarrow> egl_state" where
  "client_try_unload_server s = (if es_context_current_count s \<noteq> 0 \<or> es_inited s then s else log_call CallTryUnload s)"

text \<open>
  The two maps that are modelled: \<open>a1\<close> and \<open>a2\<close> are the allocations of their storage, \<open>others\<close> is whether
  the maps of windows and syncs are created. A map that is terminated again is not looked at.
\<close>

definition client_process_state_init :: "map_alloc \<Rightarrow> map_alloc \<Rightarrow> bool \<Rightarrow> egl_state \<Rightarrow> (bool \<times> egl_state) option" where
  "client_process_state_init a1 a2 others s =
     (let install = (\<lambda>s. map_option (\<lambda>tab. (True, s\<lparr>es_formats := tab\<rparr>)) (egl_config_install_configs 0 (es_formats s)))
      in if es_inited s then install s
         else case khrn_map_init a1 64 (es_contexts s) of
           (False, _) \<Rightarrow> Some (False, s)
         | (True, contexts) \<Rightarrow> (case khrn_map_init a2 64 (es_surfaces s) of
             (False, _) \<Rightarrow> Some (False, s\<lparr>es_contexts := contexts\<rparr>)
           | (True, surfaces) \<Rightarrow>
               if \<not> others then Some (False, s\<lparr>es_contexts := contexts, es_surfaces := surfaces\<rparr>)
               else install (s\<lparr>es_contexts := contexts, es_surfaces := surfaces, es_next_surface := 1,
                 es_next_context := 1, es_inited := True\<rparr>)))"

definition callback_destroy_context :: "ptr gmap \<Rightarrow> u32 \<Rightarrow> ptr \<Rightarrow> egl_state option \<Rightarrow> ptr gmap \<times> egl_state option" where
  "callback_destroy_context m key p s =
     (m, Option.bind s (\<lambda>s. Option.bind (es_ctx s p) (\<lambda>c.
        if key \<noteq> cx_name c \<or> cx_is_destroyed c then None
        else Option.bind (upd_ctx p (\<lambda>c. c\<lparr>cx_is_destroyed := True\<rparr>) s) (egl_context_maybe_free p))))"

definition callback_destroy_surface :: "ptr gmap \<Rightarrow> u32 \<Rightarrow> ptr \<Rightarrow> egl_state option \<Rightarrow> ptr gmap \<times> egl_state option" where
  "callback_destroy_surface m key p s =
     (m, Option.bind s (\<lambda>s. Option.bind (es_surf s p) (\<lambda>x.
        if key \<noteq> sf_name x then None
        else Option.bind (upd_surf p (\<lambda>x. x\<lparr>sf_is_destroyed := True\<rparr>) s) (egl_surface_maybe_free p))))"

definition client_process_state_term :: "egl_state \<Rightarrow> egl_state option" where
  "client_process_state_term s =
     (if \<not> es_inited s then Some s
      else Option.bind (snd (khrn_map_iterate callback_destroy_context (es_contexts s) (Some s))) (\<lambda>s.
        map_option (\<lambda>s. s\<lparr>es_inited := False\<rparr>)
          (snd (khrn_map_iterate callback_destroy_surface (es_surfaces s) (Some s)))))"

text \<open>Lookups: the object, if there is one, and the thread's error.\<close>

definition client_egl_get_context :: "nat \<Rightarrow> u32 \<Rightarrow> egl_state \<Rightarrow> (ptr option \<times> egl_state) option" where
  "client_egl_get_context t name s =
     Option.bind (khrn_map_lookup (es_contexts s) name) (\<lambda>v. case v of
       Val p \<Rightarrow> Option.bind (es_ctx s p) (\<lambda>c. if cx_is_destroyed c then None else Some (Some p, s))
     | _ \<Rightarrow> Some (None, set_error t EGL_BAD_CONTEXT s))"

definition client_egl_get_locked_surface :: "nat \<Rightarrow> u32 \<Rightarrow> egl_state \<Rightarrow> (ptr option \<times> egl_state) option" where
  "client_egl_get_locked_surface t name s =
     Option.bind (khrn_map_lookup (es_surfaces s) name) (\<lambda>v. case v of
       Val p \<Rightarrow> Option.bind (es_surf s p) (\<lambda>x. if sf_is_destroyed x then None else Some (Some p, s))
     | _ \<Rightarrow> Some (None, set_error t EGL_BAD_SURFACE s))"

definition client_egl_get_surface :: "nat \<Rightarrow> u32 \<Rightarrow> egl_state \<Rightarrow> (ptr option \<times> egl_state) option" where
  "client_egl_get_surface t name s =
     Option.bind (client_egl_get_locked_surface t name s) (\<lambda>(r, s). case r of
       None \<Rightarrow> Some (None, s)
     | Some p \<Rightarrow> Option.bind (es_surf s p) (\<lambda>x.
         if sf_is_locked x then Some (None, set_error t EGL_BAD_ACCESS s) else Some (Some p, s)))"

section \<open>Binding\<close>

text \<open>Which of the two current records of a thread: OpenVG's or that of OpenGL ES.\<close>

definition get_current :: "bool \<Rightarrow> nat \<Rightarrow> egl_state \<Rightarrow> egl_current" where
  "get_current vg t s = (if vg then t_openvg (es_threads s t) else t_opengl (es_threads s t))"

definition upd_current :: "bool \<Rightarrow> nat \<Rightarrow> (egl_current \<Rightarrow> egl_current) \<Rightarrow> egl_state \<Rightarrow> egl_state" where
  "upd_current vg t f s = s\<lparr>es_threads := (es_threads s)(t :=
     (if vg then (es_threads s t)\<lparr>t_openvg := f (t_openvg (es_threads s t))\<rparr>
      else (es_threads s t)\<lparr>t_opengl := f (t_opengl (es_threads s t))\<rparr>))\<rparr>"

definition release_context :: "bool \<Rightarrow> nat \<Rightarrow> egl_state \<Rightarrow> egl_state option" where
  "release_context vg t s =
     (let p = cur_context (get_current vg t s)
      in if p = NULL then Some s
         else Option.bind (es_ctx s p) (\<lambda>c.
           if \<not> cx_is_current c then None
           else Option.bind (upd_ctx p (\<lambda>c. c\<lparr>cx_is_current := False, cx_renderbuffer := EGL_NONE\<rparr>) s) (\<lambda>s.
             Option.bind (egl_context_set_callbacks p False s) (\<lambda>s.
             Option.bind (egl_context_maybe_free p (upd_current vg t (\<lambda>k. k\<lparr>cur_context := NULL\<rparr>) s)) (\<lambda>s.
               if es_context_current_count s > 0
               then Some (s\<lparr>es_context_current_count := es_context_current_count s - 1\<rparr>) else None)))))"

text \<open>The same for the surface that is bound for drawing and for the one that is bound for reading.\<close>

definition release_surface ::
  "(egl_current \<Rightarrow> ptr) \<Rightarrow> (egl_current \<Rightarrow> egl_current) \<Rightarrow> bool \<Rightarrow> nat \<Rightarrow> egl_state \<Rightarrow> egl_state option" where
  "release_surface sel clear vg t s =
     (let p = sel (get_current vg t s)
      in if p = NULL then Some s
         else Option.bind (es_surf s p) (\<lambda>x.
           if \<not> sf_context_binding_count x > 0 then None
           else Option.bind (upd_surf p (\<lambda>x. x\<lparr>sf_context_binding_count := sf_context_binding_count x - 1\<rparr>) s) (\<lambda>s.
             egl_surface_maybe_free p (upd_current vg t clear s))))"

definition egl_current_release :: "bool \<Rightarrow> nat \<Rightarrow> egl_state \<Rightarrow> egl_state option" where
  "egl_current_release vg t s =
     Option.bind (release_context vg t s) (\<lambda>s.
     Option.bind (release_surface cur_draw (\<lambda>k. k\<lparr>cur_draw := NULL\<rparr>) vg t s)
       (release_surface cur_read (\<lambda>k. k\<lparr>cur_read := NULL\<rparr>) vg t))"

definition context_and_surface_are_compatible :: "config_formats list \<Rightarrow> egl_context \<Rightarrow> egl_surface \<Rightarrow> bool option" where
  "context_and_surface_are_compatible tab c x =
     (let api_type = (case cx_type c of OPENGL_ES_11 \<Rightarrow> EGL_OPENGL_ES_BIT | OPENGL_ES_20 \<Rightarrow> EGL_OPENGL_ES2_BIT | OPENVG \<Rightarrow> EGL_OPENVG_BIT);
          ci = nat (egl_config_to_id (cx_configname c)); si = nat (egl_config_to_id (sf_config x))
      in if egl_config_bpps_match tab ci si
         then map_option (\<lambda>support. support AND api_type \<noteq> 0) (egl_config_get_api_support tab si)
         else Some False)"

text \<open>The new binding, once it is known to be allowed.\<close>

definition bind_current :: "bool \<Rightarrow> nat \<Rightarrow> ptr \<Rightarrow> ptr \<Rightarrow> ptr \<Rightarrow> egl_state \<Rightarrow> egl_state option" where
  "bind_current vg t p dr rd s =
     Option.bind (egl_current_release vg t s) (\<lambda>s.
     Option.bind (es_surf s dr) (\<lambda>x.
     Option.bind (upd_ctx p (\<lambda>c. c\<lparr>cx_is_current := True, cx_thread := t, cx_renderbuffer := egl_surface_get_render_buffer x\<rparr>) s) (\<lambda>s.
     Option.bind (upd_surf dr (\<lambda>x. x\<lparr>sf_thread := t, sf_context_binding_count := sf_context_binding_count x + 1\<rparr>) s) (\<lambda>s.
     Option.bind (upd_surf rd (\<lambda>x. x\<lparr>sf_thread := t, sf_context_binding_count := sf_context_binding_count x + 1\<rparr>) s) (\<lambda>s.
       Some ((upd_current vg t (\<lambda>_. \<lparr>cur_context = p, cur_draw = dr, cur_read = rd\<rparr>) s)
         \<lparr>es_context_current_count := es_context_current_count s + 1\<rparr>))))))"

definition egl_current_set :: "bool \<Rightarrow> nat \<Rightarrow> ptr \<Rightarrow> ptr \<Rightarrow> ptr \<Rightarrow> egl_state \<Rightarrow> (bool \<times> egl_state) option" where
  "egl_current_set vg t p dr rd s =
     Option.bind (es_ctx s p) (\<lambda>c. Option.bind (es_surf s dr) (\<lambda>x. Option.bind (es_surf s rd) (\<lambda>y.
     Option.bind
       (if cx_is_current c \<and> cx_thread c \<noteq> t then Some (False, set_error t EGL_BAD_ACCESS s)
        else if sf_context_binding_count x \<noteq> 0 \<and> sf_thread x \<noteq> t then Some (False, set_error t EGL_BAD_ACCESS s)
        else if sf_context_binding_count y \<noteq> 0 \<and> sf_thread y \<noteq> t then Some (False, set_error t EGL_BAD_ACCESS s)
        else Option.bind (context_and_surface_are_compatible (es_formats s) c x) (\<lambda>ok.
          if \<not> ok then Some (False, set_error t EGL_BAD_MATCH s)
          else Option.bind (context_and_surface_are_compatible (es_formats s) c y) (\<lambda>ok.
            if \<not> ok then Some (False, set_error t EGL_BAD_MATCH s)
            else map_option (Pair True) (bind_current vg t p dr rd s))))
       (\<lambda>(r, s). Option.bind (es_surf s dr) (\<lambda>x.
         map_option (Pair r) (egl_context_set_callbacks p (sf_type x = PIXMAP) s))))))"

section \<open>Pixmaps\<close>

definition KHDISPATCH_WORKSPACE_SIZE :: int where "KHDISPATCH_WORKSPACE_SIZE = 1024 * 1024"

text \<open>
  \<open>set_color_data\<close> and \<open>get_color_data\<close> move an image in batches of as many lines as fit the workspace:
  the batches with their offsets. \<open>platform_get_pixmap_info\<close> leaves the stride 0.
\<close>

function color_batches :: "int \<Rightarrow> int \<Rightarrow> int \<Rightarrow> (int \<times> int) list" where
  "color_batches lns h off =
     (if 0 < h \<and> 0 < lns then (min lns h, off) # color_batches lns (h - min lns h) (off + min lns h) else [])"
  by auto
termination by (relation "measure (\<lambda>(lns, h, off). nat h)") auto

definition set_color_data :: "image_wrap \<Rightarrow> (int \<times> int) list option" where
  "set_color_data img =
     (let line_size = \<bar>sint (im_stride img)\<bar>
      in if line_size = 0 then None
         else Option.bind (khrn_image_is_brcm1 (im_format img)) (\<lambda>tiled.
           let lns = KHDISPATCH_WORKSPACE_SIZE div line_size;
               lns = (if tiled then lns AND NOT 63 else lns)
           in if lns > 0 then Some (color_batches lns (int (unat (im_height img))) 0) else None))"

definition client_pixmap :: "egl_surface \<Rightarrow> bool" where
  "client_pixmap x \<longleftrightarrow> sf_type x = PIXMAP \<and> sf_pixmap_server_handle x = (0, - 1)"

text \<open>\<open>platform_retrieve_pixmap_completed\<close> is a failing assertion on this platform.\<close>

definition send_pixmap :: "pixmaps \<Rightarrow> ptr \<Rightarrow> egl_state \<Rightarrow> egl_state option" where
  "send_pixmap mem p s =
     (if p = NULL then Some s
      else Option.bind (es_surf s p) (\<lambda>x.
        if \<not> client_pixmap x \<or> sf_server_owned x then Some s
        else Option.bind (platform_get_pixmap_info mem (sf_pixmap x)) (\<lambda>(ok, img).
          if \<not> ok then Some s
          else Option.bind (set_color_data img) (\<lambda>_. upd_surf p (\<lambda>x. x\<lparr>sf_server_owned := True\<rparr>) s))))"

definition retrieve_pixmap :: "pixmaps \<Rightarrow> ptr \<Rightarrow> egl_state \<Rightarrow> egl_state option" where
  "retrieve_pixmap mem p s =
     (if p = NULL then Some s
      else Option.bind (es_surf s p) (\<lambda>x.
        if \<not> client_pixmap x \<or> \<not> sf_server_owned x then Some s
        else Option.bind (platform_get_pixmap_info mem (sf_pixmap x)) (\<lambda>(ok, img).
          if \<not> ok then Some s else None)))"

definition egl_gl_render_callback :: "pixmaps \<Rightarrow> nat \<Rightarrow> egl_state \<Rightarrow> egl_state option" where
  "egl_gl_render_callback mem t s = send_pixmap mem (cur_draw (t_opengl (es_threads s t))) s"

definition egl_vg_render_callback :: "pixmaps \<Rightarrow> nat \<Rightarrow> egl_state \<Rightarrow> egl_state option" where
  "egl_vg_render_callback mem t s = send_pixmap mem (cur_draw (t_openvg (es_threads s t))) s"

definition egl_gl_flush_callback :: "pixmaps \<Rightarrow> nat \<Rightarrow> egl_state \<Rightarrow> egl_state option" where
  "egl_gl_flush_callback mem t s = retrieve_pixmap mem (cur_draw (t_opengl (es_threads s t))) s"

definition egl_vg_flush_callback :: "pixmaps \<Rightarrow> nat \<Rightarrow> egl_state \<Rightarrow> egl_state option" where
  "egl_vg_flush_callback mem t s = retrieve_pixmap mem (cur_draw (t_openvg (es_threads s t))) s"

definition bound_vg :: "nat \<Rightarrow> egl_state \<Rightarrow> bool" where
  "bound_vg t s \<longleftrightarrow> t_bound_api (es_threads s t) = EGL_OPENVG_API"

definition bound_gl :: "nat \<Rightarrow> egl_state \<Rightarrow> bool" where
  "bound_gl t s \<longleftrightarrow> t_bound_api (es_threads s t) = EGL_OPENGL_ES_API"

definition flush_current_api :: "pixmaps \<Rightarrow> nat \<Rightarrow> egl_state \<Rightarrow> egl_state option" where
  "flush_current_api mem t s =
     (if bound_gl t s then egl_gl_flush_callback mem t else egl_vg_flush_callback mem t)
       (log_call (CallFlush (bound_gl t s) (bound_vg t s)) s)"

section \<open>Entry points\<close>

text \<open>A call on a display: it ends with the error of the display, or goes on.\<close>

definition with_display :: "nat \<Rightarrow> u32 \<Rightarrow> bool \<Rightarrow> 'r \<Rightarrow> egl_state \<Rightarrow> (egl_state \<Rightarrow> ('r \<times> egl_state) option) \<Rightarrow> ('r \<times> egl_state) option" where
  "with_display t dpy check_inited fail s k =
     (case client_egl_get_process_state dpy check_inited (es_inited s) of
        Some e \<Rightarrow> Some (fail, set_error t e s)
      | None \<Rightarrow> k s)"

definition eglInitialize :: "map_alloc \<Rightarrow> map_alloc \<Rightarrow> bool \<Rightarrow> nat \<Rightarrow> u32 \<Rightarrow> egl_state \<Rightarrow> (bool \<times> egl_state) option" where
  "eglInitialize a1 a2 others t dpy s = with_display t dpy False False s (\<lambda>s.
     map_option (\<lambda>(ok, s). (ok, set_error t (if ok then EGL_SUCCESS else EGL_NOT_INITIALIZED) s))
       (client_process_state_init a1 a2 others s))"

definition eglTerminate :: "nat \<Rightarrow> u32 \<Rightarrow> egl_state \<Rightarrow> (bool \<times> egl_state) option" where
  "eglTerminate t dpy s = with_display t dpy False False s (\<lambda>s.
     map_option (\<lambda>s. (True, client_try_unload_server (set_error t EGL_SUCCESS s))) (client_process_state_term s))"

definition eglBindAPI :: "nat \<Rightarrow> u32 \<Rightarrow> egl_state \<Rightarrow> (bool \<times> egl_state) option" where
  "eglBindAPI t api s =
     Some (if api = EGL_OPENVG_API \<or> api = EGL_OPENGL_ES_API
       then (True, set_error t EGL_SUCCESS (s\<lparr>es_threads := (es_threads s)(t := (es_threads s t)\<lparr>t_bound_api := api\<rparr>)\<rparr>))
       else (False, set_error t EGL_BAD_PARAMETER s))"

definition context_type_of :: "bool \<Rightarrow> u32 \<Rightarrow> context_type" where
  "context_type_of vg version = (if vg then OPENVG else if version = 1 then OPENGL_ES_11 else OPENGL_ES_20)"

text \<open>The part of \<open>eglCreateContext\<close> after the context to share with is known.\<close>

definition insert_context :: "context_env \<Rightarrow> map_alloc \<Rightarrow> nat \<Rightarrow> u32 \<Rightarrow> u32 \<Rightarrow> context_type \<Rightarrow> egl_context option \<Rightarrow> egl_state \<Rightarrow> (u32 \<times> egl_state) option" where
  "insert_context env alloc t dpy config ty share s =
     (case egl_context_create env share (es_next_context s) dpy config ty s of
        (None, s) \<Rightarrow> Some (0, set_error t EGL_BAD_ALLOC s)
      | (Some p, s) \<Rightarrow>
        Option.bind (khrn_map_insert alloc (es_contexts s) (es_next_context s) p) (\<lambda>(ok, contexts).
          if ok then Some (es_next_context s, set_error t EGL_SUCCESS
            (s\<lparr>es_contexts := contexts, es_next_context := es_next_context s + 1\<rparr>))
          else map_option (\<lambda>s. (0, free_context p s))
            (egl_context_term p (set_error t EGL_BAD_ALLOC (s\<lparr>es_contexts := contexts\<rparr>)))))"

definition valid_config :: "u32 \<Rightarrow> bool" where
  "valid_config config \<longleftrightarrow> 1 \<le> sint config \<and> sint config \<le> int EGL_MAX_CONFIGS"

definition eglCreateContext ::
  "context_env \<Rightarrow> map_alloc \<Rightarrow> nat \<Rightarrow> u32 \<Rightarrow> u32 \<Rightarrow> u32 \<Rightarrow> u32 list option \<Rightarrow> egl_state \<Rightarrow> (u32 \<times> egl_state) option" where
  "eglCreateContext env alloc t dpy config share_ctx attrib_list s = with_display t dpy True 0 s (\<lambda>s.
     if \<not> valid_config config then Some (0, set_error t EGL_BAD_CONFIG s)
     else Option.bind (egl_context_check_attribs attrib_list (if bound_gl t s then 2 else 1) 1) (\<lambda>(ok, version).
       if \<not> ok then Some (0, set_error t EGL_BAD_ATTRIBUTE s)
       else Option.bind (egl_config_get_api_support (es_formats s) (nat (egl_config_to_id config))) (\<lambda>support.
         if support AND (if bound_vg t s then EGL_OPENVG_BIT else if version = 1 then EGL_OPENGL_ES_BIT else EGL_OPENGL_ES2_BIT) = 0
         then Some (0, set_error t EGL_BAD_CONFIG s)
         else let ty = context_type_of (bound_vg t s) version
           in if share_ctx = 0 then insert_context env alloc t dpy config ty None s
           else Option.bind (client_egl_get_context t share_ctx s) (\<lambda>(r, s). case r of
             None \<Rightarrow> Some (0, set_error t EGL_BAD_CONTEXT s)
           | Some p \<Rightarrow> Option.bind (es_ctx s p) (\<lambda>c.
               if (cx_type c = OPENVG) \<noteq> bound_vg t s then Some (0, set_error t EGL_BAD_MATCH s)
               else insert_context env alloc t dpy config ty (Some c) s)))))"

definition eglDestroyContext :: "nat \<Rightarrow> u32 \<Rightarrow> u32 \<Rightarrow> egl_state \<Rightarrow> (bool \<times> egl_state) option" where
  "eglDestroyContext t dpy ctx s = with_display t dpy True False s (\<lambda>s.
     Option.bind (client_egl_get_context t ctx (set_error t EGL_SUCCESS s)) (\<lambda>(r, s). case r of
       None \<Rightarrow> Some (False, s)
     | Some p \<Rightarrow> Option.bind (upd_ctx p (\<lambda>c. c\<lparr>cx_is_destroyed := True\<rparr>) s) (\<lambda>s.
         Option.bind (khrn_map_delete (es_contexts s) ctx) (\<lambda>(_, contexts).
           map_option (Pair True) (egl_context_maybe_free p (s\<lparr>es_contexts := contexts\<rparr>))))))"

text \<open>The part that the creation of every surface ends with: the new surface gets the next name.\<close>

definition insert_surface :: "map_alloc \<Rightarrow> nat \<Rightarrow> ptr \<Rightarrow> egl_state \<Rightarrow> (u32 \<times> egl_state) option" where
  "insert_surface alloc t p s =
     Option.bind (khrn_map_insert alloc (es_surfaces s) (es_next_surface s) p) (\<lambda>(ok, surfaces).
       if ok then Some (es_next_surface s, set_error t EGL_SUCCESS
         (s\<lparr>es_surfaces := surfaces, es_next_surface := es_next_surface s + 1\<rparr>))
       else map_option (Pair 0) (egl_surface_free p (set_error t EGL_BAD_ALLOC (s\<lparr>es_surfaces := surfaces\<rparr>))))"

definition create_surface :: "surface_env \<Rightarrow> map_alloc \<Rightarrow> nat \<Rightarrow> surface_request \<Rightarrow> egl_state \<Rightarrow> (u32 \<times> egl_state) option" where
  "create_surface env alloc t r s =
     Option.bind (egl_surface_create env (es_next_surface s) r s) (\<lambda>(p, s). case p of
       None \<Rightarrow> Some (0, set_error t EGL_BAD_ALLOC s)
     | Some p \<Rightarrow> insert_surface alloc t p s)"

text \<open>The window of the client: its element, its size and the option to use two buffers.\<close>

record window_env =
  we_handle :: u32
  we_width :: u32
  we_height :: u32
  we_swapchain_count :: u32
  we_double_buffer :: bool

definition eglCreateWindowSurface ::
  "surface_env \<Rightarrow> map_alloc \<Rightarrow> window_env \<Rightarrow> nat \<Rightarrow> u32 \<Rightarrow> u32 \<Rightarrow> ptr \<Rightarrow> u32 list option \<Rightarrow> egl_state \<Rightarrow> (u32 \<times> egl_state) option" where
  "eglCreateWindowSurface env alloc w t dpy config win attrib_list s = with_display t dpy True 0 s (\<lambda>s.
     if \<not> valid_config config then Some (0, set_error t EGL_BAD_CONFIG s)
     else if we_handle w = PLATFORM_WIN_NONE then Some (0, set_error t EGL_BAD_NATIVE_WINDOW s)
     else Option.bind (egl_surface_check_attribs WINDOW attrib_list) (\<lambda>r. case r of
       None \<Rightarrow> Some (0, set_error t EGL_BAD_ATTRIBUTE s)
     | Some a \<Rightarrow>
       let num_buffers = (if we_swapchain_count w > 0 then we_swapchain_count w else if we_double_buffer w then 2 else 3)
       in if we_width w = 0 \<or> we_width w > EGL_CONFIG_MAX_WIDTH \<or> we_height w = 0 \<or> we_height w > EGL_CONFIG_MAX_HEIGHT
          then Some (0, set_error t EGL_BAD_NATIVE_WINDOW s)
          else create_surface env alloc t
            \<lparr>sr_type = WINDOW, sr_colorspace = (if sa_linear a then LINEAR else SRGB),
             sr_alphaformat = (if sa_premult a then PRE else NONPRE), sr_buffers = (if sa_single a then 1 else num_buffers),
             sr_width = we_width w, sr_height = we_height w, sr_config = config, sr_win = win, sr_serverwin = we_handle w,
             sr_largest_pbuffer = False, sr_texture_compatibility = False, sr_mipmap_texture = False,
             sr_texture_format = EGL_NO_TEXTURE, sr_texture_target = EGL_NO_TEXTURE, sr_pixmap = 0,
             sr_pixmap_server_handle = None\<rparr> s))"

definition eglCreatePbufferSurface ::
  "surface_env \<Rightarrow> map_alloc \<Rightarrow> nat \<Rightarrow> u32 \<Rightarrow> u32 \<Rightarrow> u32 list option \<Rightarrow> egl_state \<Rightarrow> (u32 \<times> egl_state) option" where
  "eglCreatePbufferSurface env alloc t dpy config attrib_list s = with_display t dpy True 0 s (\<lambda>s.
     if \<not> valid_config config then Some (0, set_error t EGL_BAD_CONFIG s)
     else Option.bind (egl_surface_check_attribs PBUFFER attrib_list) (\<lambda>r. case r of
       None \<Rightarrow> Some (0, set_error t EGL_BAD_ATTRIBUTE s)
     | Some a \<Rightarrow>
       if (sa_texture_format a \<noteq> EGL_NO_TEXTURE \<and> (sa_width a = 0 \<or> sa_height a = 0)) \<or>
          (sa_texture_format a = EGL_NO_TEXTURE) \<noteq> (sa_texture_target a = EGL_NO_TEXTURE)
       then Some (0, set_error t EGL_BAD_MATCH s)
       else Option.bind (egl_config_bindable (es_formats s) (nat (egl_config_to_id config)) (sa_texture_format a)) (\<lambda>bindable.
         if \<not> bindable then Some (0, set_error t EGL_BAD_MATCH s)
         else if (sint (sa_width a) > sint EGL_CONFIG_MAX_WIDTH \<or> sint (sa_height a) > sint EGL_CONFIG_MAX_HEIGHT) \<and>
           \<not> sa_largest_pbuffer a then Some (0, set_error t EGL_BAD_ALLOC s)
         else create_surface env alloc t
            \<lparr>sr_type = PBUFFER, sr_colorspace = (if sa_linear a then LINEAR else SRGB),
             sr_alphaformat = (if sa_premult a then PRE else NONPRE), sr_buffers = 1,
             sr_width = sa_width a, sr_height = sa_height a, sr_config = config, sr_win = NULL, sr_serverwin = PLATFORM_WIN_NONE,
             sr_largest_pbuffer = sa_largest_pbuffer a, sr_texture_compatibility = True, sr_mipmap_texture = sa_mipmap_texture a,
             sr_texture_format = sa_texture_format a, sr_texture_target = sa_texture_target a, sr_pixmap = 0,
             sr_pixmap_server_handle = None\<rparr> s)))"

definition eglCreatePbufferFromClientBuffer ::
  "image_env \<Rightarrow> map_alloc \<Rightarrow> nat \<Rightarrow> u32 \<Rightarrow> u32 \<Rightarrow> u32 \<Rightarrow> u32 \<Rightarrow> u32 list option \<Rightarrow> egl_state \<Rightarrow> (u32 \<times> egl_state) option" where
  "eglCreatePbufferFromClientBuffer env alloc t dpy buftype buffer config attrib_list s = with_display t dpy True 0 s (\<lambda>s.
     if buftype \<noteq> EGL_OPENVG_IMAGE then Some (0, set_error t EGL_BAD_PARAMETER s)
     else if \<not> valid_config config then Some (0, set_error t EGL_BAD_CONFIG s)
     else Option.bind (egl_surface_check_attribs PBUFFER attrib_list) (\<lambda>r. case r of
       None \<Rightarrow> Some (0, set_error t EGL_BAD_ATTRIBUTE s)
     | Some a \<Rightarrow>
       if (sa_texture_format a = EGL_NO_TEXTURE) \<noteq> (sa_texture_target a = EGL_NO_TEXTURE)
       then Some (0, set_error t EGL_BAD_MATCH s)
       else Option.bind (egl_config_bindable (es_formats s) (nat (egl_config_to_id config)) (sa_texture_format a)) (\<lambda>bindable.
         if \<not> bindable then Some (0, set_error t EGL_BAD_MATCH s)
         else Option.bind (egl_surface_from_vg_image env buffer (es_next_surface s) config a s) (\<lambda>(r, s). case r of
           Inl e \<Rightarrow> Some (0, set_error t e s)
         | Inr p \<Rightarrow> insert_surface alloc t p s))))"

text \<open>
  A pixmap may back one surface only: pixmaps of the server are compared by their handles, those of the
  client by their address.
\<close>

definition callback_check_duplicate_pixmap ::
  "egl_state \<Rightarrow> u32 \<Rightarrow> u32 \<times> u32 \<Rightarrow> ptr gmap \<Rightarrow> u32 \<Rightarrow> ptr \<Rightarrow> bool option \<Rightarrow> ptr gmap \<times> bool option" where
  "callback_check_duplicate_pixmap s pixmap handle m key p dup =
     (m, Option.bind dup (\<lambda>dup. Option.bind (es_surf s p) (\<lambda>x.
        if key \<noteq> sf_name x then None
        else Some (dup \<or> (sf_type x = PIXMAP \<and>
          (if handle \<noteq> (0, - 1) then sf_pixmap_server_handle x = handle
           else sf_pixmap_server_handle x = (0, - 1) \<and> sf_pixmap x = pixmap))))))"

definition platform_get_pixmap_server_handle :: "pixmaps \<Rightarrow> u32 \<Rightarrow> u32 \<times> u32" where
  "platform_get_pixmap_server_handle mem pixmap = (mem pixmap 0, mem pixmap 1)"

text \<open>Whether a pixmap does not suit the configuration and the attributes.\<close>

definition pixmap_mismatch ::
  "pixmaps \<Rightarrow> config_formats list \<Rightarrow> nat \<Rightarrow> u32 \<Rightarrow> image_wrap \<Rightarrow> u32 \<times> u32 \<Rightarrow> surface_attribs \<Rightarrow> bool option" where
  "pixmap_mismatch mem tab i pixmap img handle a =
     Option.bind (egl_config_match_pixmap_info tab i img) (\<lambda>info.
       if \<not> info then Some True
       else Option.bind (egl_config_get_api_support tab i) (\<lambda>support.
         Some (\<not> platform_match_pixmap_api_support mem pixmap support \<or>
           (snd handle \<noteq> - 1 \<and>
             ((im_format img AND IMAGE_FORMAT_LIN \<noteq> 0) \<noteq> sa_linear a \<or> (im_format img AND IMAGE_FORMAT_PRE \<noteq> 0) \<noteq> sa_premult a)))))"

definition eglCreatePixmapSurface ::
  "surface_env \<Rightarrow> map_alloc \<Rightarrow> pixmaps \<Rightarrow> nat \<Rightarrow> u32 \<Rightarrow> u32 \<Rightarrow> u32 \<Rightarrow> u32 list option \<Rightarrow> egl_state \<Rightarrow> (u32 \<times> egl_state) option" where
  "eglCreatePixmapSurface env alloc mem t dpy config pixmap attrib_list s = with_display t dpy True 0 s (\<lambda>s.
     if \<not> valid_config config then Some (0, set_error t EGL_BAD_CONFIG s)
     else Option.bind (egl_surface_check_attribs PIXMAP attrib_list) (\<lambda>r. case r of
       None \<Rightarrow> Some (0, set_error t EGL_BAD_ATTRIBUTE s)
     | Some a \<Rightarrow> Option.bind (platform_get_pixmap_info mem pixmap) (\<lambda>(ok, img).
       let handle = platform_get_pixmap_server_handle mem pixmap; i = nat (egl_config_to_id config)
       in if \<not> ok then Some (0, set_error t EGL_BAD_NATIVE_PIXMAP s)
          else if ucast (im_width img) > EGL_CONFIG_MAX_WIDTH \<or> ucast (im_height img) > EGL_CONFIG_MAX_HEIGHT
          then Some (0, set_error t EGL_BAD_NATIVE_WINDOW s)
          else Option.bind (pixmap_mismatch mem (es_formats s) i pixmap img handle a) (\<lambda>mismatch.
            if mismatch then Some (0, set_error t EGL_BAD_MATCH s)
            else Option.bind (snd (khrn_map_iterate (callback_check_duplicate_pixmap s pixmap handle) (es_surfaces s) (Some False))) (\<lambda>dup.
              if dup then Some (0, set_error t EGL_BAD_ALLOC s)
              else create_surface env alloc t
                \<lparr>sr_type = PIXMAP, sr_colorspace = (if sa_linear a then LINEAR else SRGB),
                 sr_alphaformat = (if sa_premult a then PRE else NONPRE), sr_buffers = 1,
                 sr_width = ucast (im_width img), sr_height = ucast (im_height img), sr_config = config, sr_win = NULL,
                 sr_serverwin = PLATFORM_WIN_NONE, sr_largest_pbuffer = False, sr_texture_compatibility = False,
                 sr_mipmap_texture = False, sr_texture_format = EGL_NO_TEXTURE, sr_texture_target = EGL_NO_TEXTURE,
                 sr_pixmap = pixmap,
                 sr_pixmap_server_handle = (if handle = (0, - 1) then None else Some handle)\<rparr> s)))))"

definition eglDestroySurface :: "nat \<Rightarrow> u32 \<Rightarrow> u32 \<Rightarrow> egl_state \<Rightarrow> (bool \<times> egl_state) option" where
  "eglDestroySurface t dpy surf s = with_display t dpy True False s (\<lambda>s.
     Option.bind (client_egl_get_surface t surf (set_error t EGL_SUCCESS s)) (\<lambda>(r, s). case r of
       None \<Rightarrow> Some (False, s)
     | Some p \<Rightarrow> Option.bind (upd_surf p (\<lambda>x. x\<lparr>sf_is_destroyed := True\<rparr>) s) (\<lambda>s.
         Option.bind (khrn_map_delete (es_surfaces s) surf) (\<lambda>(_, surfaces).
           map_option (Pair True) (egl_surface_maybe_free p (s\<lparr>es_surfaces := surfaces\<rparr>))))))"

definition eglSurfaceAttrib :: "nat \<Rightarrow> u32 \<Rightarrow> u32 \<Rightarrow> u32 \<Rightarrow> u32 \<Rightarrow> egl_state \<Rightarrow> (bool \<times> egl_state) option" where
  "eglSurfaceAttrib t dpy surf attribute v s = with_display t dpy True False s (\<lambda>s.
     Option.bind (client_egl_get_surface t surf (set_error t EGL_SUCCESS s)) (\<lambda>(r, s). case r of
       None \<Rightarrow> Some (False, s)
     | Some p \<Rightarrow> map_option (\<lambda>(e, s). (e = EGL_SUCCESS, set_error t e s)) (egl_surface_set_attrib p attribute v s)))"

definition eglMakeCurrent :: "pixmaps \<Rightarrow> nat \<Rightarrow> u32 \<Rightarrow> u32 \<Rightarrow> u32 \<Rightarrow> u32 \<Rightarrow> egl_state \<Rightarrow> (bool \<times> egl_state) option" where
  "eglMakeCurrent mem t dpy dr rd ctx s =
     (if dr = 0 \<and> rd = 0 \<and> ctx = 0 then with_display t dpy False False s (\<lambda>s.
        Option.bind (flush_current_api mem t s) (\<lambda>s.
        Option.bind (egl_current_release (bound_vg t s) t s) (\<lambda>s.
        Option.bind (client_send_make_current t s) (\<lambda>s.
          Some (True, set_error t EGL_SUCCESS (client_try_unload_server s))))))
      else if dr = 0 \<or> rd = 0 \<or> ctx = 0 then Some (False, set_error t EGL_BAD_MATCH s)
      else with_display t dpy True False s (\<lambda>s.
        Option.bind (client_egl_get_context t ctx s) (\<lambda>(r, s). case r of
          None \<Rightarrow> Some (False, s)
        | Some p \<Rightarrow>
          Option.bind (client_egl_get_surface t dr s) (\<lambda>(x, s).
          Option.bind (client_egl_get_surface t rd s) (\<lambda>(y, s).
            case (x, y) of
              (Some x, Some y) \<Rightarrow> Option.bind (es_ctx s p) (\<lambda>c.
                if cx_type c = OPENVG \<and> dr \<noteq> rd then Some (False, set_error t EGL_BAD_MATCH s)
                else Option.bind (egl_current_set (cx_type c = OPENVG) t p x y s) (\<lambda>(ok, s).
                  if \<not> ok then Some (False, s)
                  else Option.bind (client_send_make_current t s) (\<lambda>s. Some (True, set_error t EGL_SUCCESS s))))
            | _ \<Rightarrow> Some (False, s))))))"

definition eglReleaseThread :: "nat \<Rightarrow> egl_state \<Rightarrow> (bool \<times> egl_state) option" where
  "eglReleaseThread t s =
     Option.bind (egl_current_release False t s) (\<lambda>s.
     Option.bind (egl_current_release True t s) (\<lambda>s.
       Some (True, set_error t EGL_SUCCESS (client_try_unload_server s))))"

text \<open>Queries of what is current; the result is 0 for nothing.\<close>

definition eglGetCurrentContext :: "nat \<Rightarrow> egl_state \<Rightarrow> (u32 \<times> egl_state) option" where
  "eglGetCurrentContext t s =
     (let p = cur_context (get_current (bound_vg t s) t s)
      in map_option (\<lambda>n. (n, set_error t EGL_SUCCESS s)) (if p = NULL then Some 0 else map_option cx_name (es_ctx s p)))"

definition eglGetCurrentSurface :: "nat \<Rightarrow> u32 \<Rightarrow> egl_state \<Rightarrow> (u32 \<times> egl_state) option" where
  "eglGetCurrentSurface t readdraw s =
     (let k = get_current (bound_vg t s) t s;
          p = (if readdraw = EGL_READ then cur_read k else if readdraw = EGL_DRAW then cur_draw k else NULL)
      in map_option (\<lambda>n. (n, set_error t (if readdraw \<in> {EGL_READ, EGL_DRAW} then EGL_SUCCESS else EGL_BAD_PARAMETER) s))
        (if p = NULL then Some 0 else map_option sf_name (es_surf s p)))"

definition eglGetCurrentDisplay :: "nat \<Rightarrow> egl_state \<Rightarrow> (u32 \<times> egl_state) option" where
  "eglGetCurrentDisplay t s =
     (let p = cur_context (get_current (bound_vg t s) t s)
      in map_option (\<lambda>n. (n, set_error t EGL_SUCCESS s)) (if p = NULL then Some 0 else map_option cx_display (es_ctx s p)))"

definition eglQueryContext :: "nat \<Rightarrow> u32 \<Rightarrow> u32 \<Rightarrow> u32 \<Rightarrow> bool \<Rightarrow> egl_state \<Rightarrow> (u32 option \<times> egl_state) option" where
  "eglQueryContext t dpy ctx attribute has_value s = with_display t dpy True None s (\<lambda>s.
     if \<not> has_value then Some (None, set_error t EGL_BAD_PARAMETER s)
     else Option.bind (client_egl_get_context t ctx (set_error t EGL_SUCCESS s)) (\<lambda>(r, s). case r of
       None \<Rightarrow> Some (None, s)
     | Some p \<Rightarrow> Option.bind (es_ctx s p) (\<lambda>c. case egl_context_get_attrib c attribute of
         None \<Rightarrow> Some (None, set_error t EGL_BAD_ATTRIBUTE s)
       | Some v \<Rightarrow> Some (Some v, s))))"

end
