(* ===== verification/Egl_Bindings.thy ===== *)
theory Egl_Bindings
  imports Egl_Client
begin

text \<open>
  The invariant of the contexts and surfaces of EGL (Egl_Objects, Egl_Client): what a map, a heap of
  objects and the bindings of the threads have to do with each other, and how destroying, releasing and
  binding an object keeps it. Contexts and surfaces are treated apart; a context is bound for one API by
  one thread, a surface up to four times by one thread.
\<close>

section \<open>Contexts\<close>

text \<open>
  \<open>cm\<close> is the map of names, \<open>h\<close> the heap, \<open>cur vg t\<close> what thread \<open>t\<close> has current for OpenVG or OpenGL ES,
  \<open>n\<close> the count of current contexts. Thread states take more than 4080 bytes of 32-bit addresses each.
\<close>

definition MAX_THREADS :: nat where "MAX_THREADS = 2 ^ 20"

definition ctx_inv :: "(u32 \<Rightarrow> ptr option) \<Rightarrow> (ptr \<Rightarrow> egl_context option) \<Rightarrow> (bool \<Rightarrow> nat \<Rightarrow> ptr) \<Rightarrow> u32 \<Rightarrow> bool" where
  "ctx_inv cm h cur n \<longleftrightarrow>
     (\<forall>k p. cm k = Some p \<longrightarrow> (\<exists>c. h p = Some c \<and> cx_name c = k \<and> \<not> cx_is_destroyed c)) \<and>
     (\<forall>p c. h p = Some c \<longrightarrow> p \<noteq> 0 \<and> valid_config (cx_configname c) \<and> (\<not> cx_is_destroyed c \<longrightarrow> cm (cx_name c) = Some p) \<and>
       (cx_is_destroyed c \<longrightarrow> cx_is_current c) \<and> (cx_is_current c \<longrightarrow> cur (cx_type c = OPENVG) (cx_thread c) = p)) \<and>
     (\<forall>vg t. cur vg t \<noteq> 0 \<longrightarrow> t < MAX_THREADS \<and>
       (\<exists>c. h (cur vg t) = Some c \<and> cx_is_current c \<and> cx_thread c = t \<and> (cx_type c = OPENVG) = vg)) \<and>
     n = of_nat (card {(vg, t). cur vg t \<noteq> 0})"

lemma ctx_invD:
  assumes "ctx_inv cm h cur n"
  shows "cm k = Some p \<Longrightarrow> \<exists>c. h p = Some c \<and> cx_name c = k \<and> \<not> cx_is_destroyed c"
    and "h p = Some c \<Longrightarrow> p \<noteq> 0 \<and> valid_config (cx_configname c) \<and> (\<not> cx_is_destroyed c \<longrightarrow> cm (cx_name c) = Some p) \<and>
      (cx_is_destroyed c \<longrightarrow> cx_is_current c) \<and> (cx_is_current c \<longrightarrow> cur (cx_type c = OPENVG) (cx_thread c) = p)"
    and "cur vg t \<noteq> 0 \<Longrightarrow> t < MAX_THREADS \<and>
      (\<exists>c. h (cur vg t) = Some c \<and> cx_is_current c \<and> cx_thread c = t \<and> (cx_type c = OPENVG) = vg)"
    and "n = of_nat (card {(vg, t). cur vg t \<noteq> 0})"
  using assms unfolding ctx_inv_def by auto

lemma ctx_invI:
  assumes "\<And>k p. cm k = Some p \<Longrightarrow> \<exists>c. h p = Some c \<and> cx_name c = k \<and> \<not> cx_is_destroyed c"
    and "\<And>p c. h p = Some c \<Longrightarrow> p \<noteq> 0 \<and> valid_config (cx_configname c) \<and> (\<not> cx_is_destroyed c \<longrightarrow> cm (cx_name c) = Some p) \<and>
      (cx_is_destroyed c \<longrightarrow> cx_is_current c) \<and> (cx_is_current c \<longrightarrow> cur (cx_type c = OPENVG) (cx_thread c) = p)"
    and "\<And>vg t. cur vg t \<noteq> 0 \<Longrightarrow> t < MAX_THREADS \<and>
      (\<exists>c. h (cur vg t) = Some c \<and> cx_is_current c \<and> cx_thread c = t \<and> (cx_type c = OPENVG) = vg)"
    and "n = of_nat (card {(vg, t). cur vg t \<noteq> 0})"
  shows "ctx_inv cm h cur n"
  unfolding ctx_inv_def using assms by blast

text \<open>The bindings are finite, and their number fits its word.\<close>

lemma bindings_bounded:
  assumes "ctx_inv cm h cur n"
  shows "finite {(vg, t). cur vg t \<noteq> 0}" "card {(vg, t). cur vg t \<noteq> 0} \<le> 2 * MAX_THREADS"
proof -
  have sub: "{(vg, t). cur vg t \<noteq> 0} \<subseteq> UNIV \<times> {..<MAX_THREADS}" using ctx_invD(3) [OF assms] by auto
  have fin: "finite (UNIV \<times> {..<MAX_THREADS} :: (bool \<times> nat) set)" by simp
  show "finite {(vg, t). cur vg t \<noteq> 0}" by (rule finite_subset [OF sub fin])
  show "card {(vg, t). cur vg t \<noteq> 0} \<le> 2 * MAX_THREADS"
    using card_mono [OF fin sub] by (simp add: card_cartesian_product)
qed

definition unbind :: "bool \<Rightarrow> nat \<Rightarrow> (bool \<Rightarrow> nat \<Rightarrow> ptr) \<Rightarrow> bool \<Rightarrow> nat \<Rightarrow> ptr" where
  "unbind vg t cur = (\<lambda>v u. if v = vg \<and> u = t then 0 else cur v u)"

definition bind :: "bool \<Rightarrow> nat \<Rightarrow> ptr \<Rightarrow> (bool \<Rightarrow> nat \<Rightarrow> ptr) \<Rightarrow> bool \<Rightarrow> nat \<Rightarrow> ptr" where
  "bind vg t p cur = (\<lambda>v u. if v = vg \<and> u = t then p else cur v u)"

text \<open>A destroyed context leaves the map, and the heap too unless it is current.\<close>

lemma ctx_destroy:
  assumes "ctx_inv cm h cur n" "cm k = Some p" "h p = Some c"
  shows "ctx_inv (cm(k := None)) (h(p := if cx_is_current c then Some (c\<lparr>cx_is_destroyed := True\<rparr>) else None)) cur n"
proof (rule ctx_invI)
  note d = ctx_invD [OF assms(1)]
  have c: "cx_name c = k" "\<not> cx_is_destroyed c" using d(1) [OF assms(2)] assms(3) by auto
  let ?h = "h(p := if cx_is_current c then Some (c\<lparr>cx_is_destroyed := True\<rparr>) else None)"
  show "\<exists>c. ?h q = Some c \<and> cx_name c = j \<and> \<not> cx_is_destroyed c" if "(cm(k := None)) j = Some q" for j q
  proof -
    from that have "j \<noteq> k" "cm j = Some q" by (auto split: if_splits)
    with d(1) [OF this(2)] c assms(3) show ?thesis by (auto split: if_splits)
  qed
  show "q \<noteq> 0 \<and> valid_config (cx_configname b) \<and> (\<not> cx_is_destroyed b \<longrightarrow> (cm(k := None)) (cx_name b) = Some q) \<and>
      (cx_is_destroyed b \<longrightarrow> cx_is_current b) \<and> (cx_is_current b \<longrightarrow> cur (cx_type b = OPENVG) (cx_thread b) = q)"
    if "?h q = Some b" for q b
  proof (cases "q = p")
    case True
    then show ?thesis using that d(2) [OF assms(3)] by (auto split: if_splits)
  next
    case False
    then have q: "h q = Some b" using that by simp
    then have "cx_name b \<noteq> k \<or> cx_is_destroyed b" using d(2) [OF q] assms(2) False by auto
    then show ?thesis using d(2) [OF q] by auto
  qed
  show "t < MAX_THREADS \<and> (\<exists>c. ?h (cur vg t) = Some c \<and> cx_is_current c \<and> cx_thread c = t \<and> (cx_type c = OPENVG) = vg)"
    if "cur vg t \<noteq> 0" for vg t
    using d(3) [OF that] assms(3) by auto
  show "n = of_nat (card {(vg, t). cur vg t \<noteq> 0})" by (rule d(4))
qed

text \<open>A released context is no longer current, and is gone if it was destroyed.\<close>

lemma ctx_release:
  assumes "ctx_inv cm h cur n" "cur vg t = p" "p \<noteq> 0" "h p = Some c"
  shows "0 < n" and "cx_is_current c"
    and "ctx_inv cm (h(p := if cx_is_destroyed c then None else Some (c\<lparr>cx_is_current := False, cx_renderbuffer := r, cx_callbacks := b\<rparr>)))
      (unbind vg t cur) (n - 1)"
proof -
  note d = ctx_invD [OF assms(1)]
  have c: "cx_is_current c" "cx_thread c = t" "(cx_type c = OPENVG) = vg" using d(3) [of vg t] assms(2-4) by auto
  then show "cx_is_current c" by simp
  note fin = bindings_bounded [OF assms(1)]
  have mem: "(vg, t) \<in> {(vg, t). cur vg t \<noteq> 0}" using assms(2,3) by simp
  then have pos: "0 < card {(vg, t). cur vg t \<noteq> 0}" using fin(1) by (auto simp: card_gt_0_iff)
  moreover have "card {(vg, t). cur vg t \<noteq> 0} < 2 ^ 32" using fin(2) by (simp add: MAX_THREADS_def)
  ultimately have "unat n = card {(vg, t). cur vg t \<noteq> 0}"
    unfolding d(4) by (simp add: unat_of_nat)
  with pos show "0 < n" by (simp add: word_less_nat_alt)
  have "{(v, u). unbind vg t cur v u \<noteq> 0} = {(vg, t). cur vg t \<noteq> 0} - {(vg, t)}" by (auto simp: unbind_def)
  then have card: "card {(v, u). unbind vg t cur v u \<noteq> 0} = card {(vg, t). cur vg t \<noteq> 0} - 1"
    using mem fin(1) by simp
  let ?h = "h(p := if cx_is_destroyed c then None else Some (c\<lparr>cx_is_current := False, cx_renderbuffer := r, cx_callbacks := b\<rparr>))"
  show "ctx_inv cm ?h (unbind vg t cur) (n - 1)"
  proof (rule ctx_invI)
    show "\<exists>c. ?h q = Some c \<and> cx_name c = j \<and> \<not> cx_is_destroyed c" if "cm j = Some q" for j q
      using d(1) [OF that] assms(4) by (cases "q = p") auto
    show "q \<noteq> 0 \<and> valid_config (cx_configname a) \<and> (\<not> cx_is_destroyed a \<longrightarrow> cm (cx_name a) = Some q) \<and>
        (cx_is_destroyed a \<longrightarrow> cx_is_current a) \<and> (cx_is_current a \<longrightarrow> unbind vg t cur (cx_type a = OPENVG) (cx_thread a) = q)"
      if "?h q = Some a" for q a
    proof (cases "q = p")
      case True
      then show ?thesis using that d(2) [OF assms(4)] by (auto split: if_splits)
    next
      case False
      then show ?thesis using that d(2) [of q a] assms(2) by (auto simp: unbind_def)
    qed
    show "u < MAX_THREADS \<and> (\<exists>c. ?h (unbind vg t cur v u) = Some c \<and> cx_is_current c \<and> cx_thread c = u \<and> (cx_type c = OPENVG) = v)"
      if "unbind vg t cur v u \<noteq> 0" for v u
    proof -
      from that have neq: "\<not> (v = vg \<and> u = t)" and cur: "unbind vg t cur v u = cur v u" "cur v u \<noteq> 0"
        by (auto simp: unbind_def split: if_splits)
      from d(3) [OF cur(2)] neq c assms(4) have "cur v u \<noteq> p" by auto
      with d(3) [OF cur(2)] show ?thesis unfolding cur(1) by simp
    qed
    show "n - 1 = of_nat (card {(v, u). unbind vg t cur v u \<noteq> 0})"
      unfolding card d(4) using pos by (simp add: of_nat_diff)
  qed
qed

text \<open>A context that is current nowhere may be bound where nothing is.\<close>

lemma ctx_bind:
  assumes "ctx_inv cm h cur n" "cur vg t = 0" "h p = Some c" "\<not> cx_is_current c" "(cx_type c = OPENVG) = vg" "t < MAX_THREADS"
  shows "ctx_inv cm (h(p \<mapsto> c\<lparr>cx_is_current := True, cx_thread := t, cx_renderbuffer := r\<rparr>)) (bind vg t p cur) (n + 1)"
proof -
  note d = ctx_invD [OF assms(1)]
  have p: "p \<noteq> 0" using d(2) [OF assms(3)] by simp
  have "{(v, u). bind vg t p cur v u \<noteq> 0} = insert (vg, t) {(vg, t). cur vg t \<noteq> 0}"
  proof (rule set_eqI)
    fix x :: "bool \<times> nat"
    obtain v u where x: "x = (v, u)" by (cases x)
    show "x \<in> {(v, u). bind vg t p cur v u \<noteq> 0} \<longleftrightarrow> x \<in> insert (vg, t) {(vg, t). cur vg t \<noteq> 0}"
      using p unfolding x by (cases "(v, u) = (vg, t)") (simp add: bind_def, auto simp: bind_def)
  qed
  then have card: "card {(v, u). bind vg t p cur v u \<noteq> 0} = Suc (card {(vg, t). cur vg t \<noteq> 0})"
    using card_insert_disjoint [OF bindings_bounded(1) [OF assms(1)], of "(vg, t)"] assms(2) by simp
  let ?h = "h(p \<mapsto> c\<lparr>cx_is_current := True, cx_thread := t, cx_renderbuffer := r\<rparr>)"
  show ?thesis
  proof (rule ctx_invI)
    show "\<exists>c. ?h q = Some c \<and> cx_name c = j \<and> \<not> cx_is_destroyed c" if "cm j = Some q" for j q
      using d(1) [OF that] assms(3) by (cases "q = p") auto
    show "q \<noteq> 0 \<and> valid_config (cx_configname a) \<and> (\<not> cx_is_destroyed a \<longrightarrow> cm (cx_name a) = Some q) \<and>
        (cx_is_destroyed a \<longrightarrow> cx_is_current a) \<and> (cx_is_current a \<longrightarrow> bind vg t p cur (cx_type a = OPENVG) (cx_thread a) = q)"
      if "?h q = Some a" for q a
    proof (cases "q = p")
      case True
      then show ?thesis using that d(2) [OF assms(3)] assms(5) by (auto simp: bind_def)
    next
      case False
      then show ?thesis using that d(2) [of q a] assms(2) by (auto simp: bind_def)
    qed
    show "u < MAX_THREADS \<and> (\<exists>c. ?h (bind vg t p cur v u) = Some c \<and> cx_is_current c \<and> cx_thread c = u \<and> (cx_type c = OPENVG) = v)"
      if "bind vg t p cur v u \<noteq> 0" for v u
    proof (cases "v = vg \<and> u = t")
      case True
      then show ?thesis using assms(5,6) by (simp add: bind_def)
    next
      case False
      then have cur: "bind vg t p cur v u = cur v u" "cur v u \<noteq> 0" using that by (auto simp: bind_def)
      from d(3) [OF cur(2)] assms(3,4) have "cur v u \<noteq> p" by auto
      with d(3) [OF cur(2)] show ?thesis unfolding cur(1) by simp
    qed
    show "n + 1 = of_nat (card {(v, u). bind vg t p cur v u \<noteq> 0})" unfolding card d(4) by simp
  qed
qed

text \<open>A new context at a free address.\<close>

lemma ctx_create:
  assumes "ctx_inv cm h cur n" "h p = None" "p \<noteq> 0" "valid_config (cx_configname c)" "\<not> cx_is_destroyed c"
    "\<not> cx_is_current c" "cm (cx_name c) = None"
  shows "ctx_inv (cm(cx_name c \<mapsto> p)) (h(p \<mapsto> c)) cur n"
proof (rule ctx_invI)
  note d = ctx_invD [OF assms(1)]
  show "\<exists>a. (h(p \<mapsto> c)) q = Some a \<and> cx_name a = j \<and> \<not> cx_is_destroyed a" if "(cm(cx_name c \<mapsto> p)) j = Some q" for j q
    using that d(1) [of j q] assms by (auto split: if_splits)
  show "q \<noteq> 0 \<and> valid_config (cx_configname a) \<and> (\<not> cx_is_destroyed a \<longrightarrow> (cm(cx_name c \<mapsto> p)) (cx_name a) = Some q) \<and>
      (cx_is_destroyed a \<longrightarrow> cx_is_current a) \<and> (cx_is_current a \<longrightarrow> cur (cx_type a = OPENVG) (cx_thread a) = q)"
    if "(h(p \<mapsto> c)) q = Some a" for q a
    using that d(2) [of q a] assms by (auto split: if_splits)
  show "u < MAX_THREADS \<and> (\<exists>a. (h(p \<mapsto> c)) (cur v u) = Some a \<and> cx_is_current a \<and> cx_thread a = u \<and> (cx_type a = OPENVG) = v)"
    if "cur v u \<noteq> 0" for v u
    using d(3) [OF that] assms(2) by auto
  show "n = of_nat (card {(vg, t). cur vg t \<noteq> 0})" by (rule d(4))
qed

text \<open>Fields that the invariant does not speak of may change.\<close>

lemma ctx_update:
  assumes "ctx_inv cm h cur n" "h p = Some c"
  shows "ctx_inv cm (h(p \<mapsto> c\<lparr>cx_callbacks := b\<rparr>)) cur n"
proof (rule ctx_invI)
  note d = ctx_invD [OF assms(1)]
  let ?h = "h(p \<mapsto> c\<lparr>cx_callbacks := b\<rparr>)"
  show "\<exists>a. ?h q = Some a \<and> cx_name a = j \<and> \<not> cx_is_destroyed a" if "cm j = Some q" for j q
    using d(1) [OF that] assms(2) by (cases "q = p") auto
  show "q \<noteq> 0 \<and> valid_config (cx_configname a) \<and> (\<not> cx_is_destroyed a \<longrightarrow> cm (cx_name a) = Some q) \<and>
      (cx_is_destroyed a \<longrightarrow> cx_is_current a) \<and> (cx_is_current a \<longrightarrow> cur (cx_type a = OPENVG) (cx_thread a) = q)"
    if "?h q = Some a" for q a
    using that d(2) [of q] assms(2) by (cases "q = p") auto
  show "u < MAX_THREADS \<and> (\<exists>a. ?h (cur v u) = Some a \<and> cx_is_current a \<and> cx_thread a = u \<and> (cx_type a = OPENVG) = v)"
    if "cur v u \<noteq> 0" for v u
    using d(3) [OF that] assms(2) by auto
  show "n = of_nat (card {(vg, t). cur vg t \<noteq> 0})" by (rule d(4))
qed

section \<open>Surfaces\<close>

text \<open>
  \<open>bs rd vg t\<close> is the surface that thread \<open>t\<close> has bound for reading or drawing with OpenVG or OpenGL ES;
  a surface counts these bindings.
\<close>

definition refs :: "(bool \<Rightarrow> bool \<Rightarrow> nat \<Rightarrow> ptr) \<Rightarrow> ptr \<Rightarrow> nat \<Rightarrow> nat" where
  "refs bs p t = of_bool (bs False False t = p) + of_bool (bs True False t = p) +
     of_bool (bs False True t = p) + of_bool (bs True True t = p)"

definition surf_inv :: "(u32 \<Rightarrow> ptr option) \<Rightarrow> (ptr \<Rightarrow> egl_surface option) \<Rightarrow> (bool \<Rightarrow> bool \<Rightarrow> nat \<Rightarrow> ptr) \<Rightarrow> bool" where
  "surf_inv sm h bs \<longleftrightarrow>
     (\<forall>k p. sm k = Some p \<longrightarrow> (\<exists>x. h p = Some x \<and> sf_name x = k \<and> \<not> sf_is_destroyed x)) \<and>
     (\<forall>p x. h p = Some x \<longrightarrow> p \<noteq> 0 \<and> valid_config (sf_config x) \<and> \<not> sf_server_owned x \<and>
       (\<not> sf_is_destroyed x \<longrightarrow> sm (sf_name x) = Some p) \<and> (sf_is_destroyed x \<longrightarrow> sf_context_binding_count x \<noteq> 0) \<and>
       (\<forall>t. refs bs p t = (if t = sf_thread x then unat (sf_context_binding_count x) else 0))) \<and>
     (\<forall>rd vg t. bs rd vg t \<noteq> 0 \<longrightarrow> h (bs rd vg t) \<noteq> None)"

lemma surf_invD:
  assumes "surf_inv sm h bs"
  shows "sm k = Some p \<Longrightarrow> \<exists>x. h p = Some x \<and> sf_name x = k \<and> \<not> sf_is_destroyed x"
    and "h p = Some x \<Longrightarrow> p \<noteq> 0 \<and> valid_config (sf_config x) \<and> \<not> sf_server_owned x \<and>
       (\<not> sf_is_destroyed x \<longrightarrow> sm (sf_name x) = Some p) \<and> (sf_is_destroyed x \<longrightarrow> sf_context_binding_count x \<noteq> 0)"
    and "h p = Some x \<Longrightarrow> refs bs p t = (if t = sf_thread x then unat (sf_context_binding_count x) else 0)"
    and "bs rd vg t \<noteq> 0 \<Longrightarrow> h (bs rd vg t) \<noteq> None"
  using assms unfolding surf_inv_def by auto

lemma surf_invI:
  assumes "\<And>k p. sm k = Some p \<Longrightarrow> \<exists>x. h p = Some x \<and> sf_name x = k \<and> \<not> sf_is_destroyed x"
    and "\<And>p x. h p = Some x \<Longrightarrow> p \<noteq> 0 \<and> valid_config (sf_config x) \<and> \<not> sf_server_owned x \<and>
       (\<not> sf_is_destroyed x \<longrightarrow> sm (sf_name x) = Some p) \<and> (sf_is_destroyed x \<longrightarrow> sf_context_binding_count x \<noteq> 0)"
    and "\<And>p x t. h p = Some x \<Longrightarrow> refs bs p t = (if t = sf_thread x then unat (sf_context_binding_count x) else 0)"
    and "\<And>rd vg t. bs rd vg t \<noteq> 0 \<Longrightarrow> h (bs rd vg t) \<noteq> None"
  shows "surf_inv sm h bs"
  unfolding surf_inv_def using assms by blast

lemma refs_pos: "0 < refs bs p t \<longleftrightarrow> (\<exists>rd vg. bs rd vg t = p)"
  by (simp add: refs_def ex_bool_eq) auto

lemma refs_le: "refs bs p t \<le> 4"
  by (simp add: refs_def)

text \<open>Changing one binding changes the counts of the surface that is left and of the one that is bound.\<close>

definition rebind :: "bool \<Rightarrow> bool \<Rightarrow> nat \<Rightarrow> ptr \<Rightarrow> (bool \<Rightarrow> bool \<Rightarrow> nat \<Rightarrow> ptr) \<Rightarrow> bool \<Rightarrow> bool \<Rightarrow> nat \<Rightarrow> ptr" where
  "rebind rd vg t q bs = (\<lambda>r v u. if r = rd \<and> v = vg \<and> u = t then q else bs r v u)"

lemma refs_rebind:
  "refs (rebind rd vg t q bs) p u + of_bool (u = t \<and> bs rd vg t = p) = refs bs p u + of_bool (u = t \<and> q = p)"
  by (cases rd; cases vg; cases "u = t") (simp_all add: refs_def rebind_def)

lemma surf_destroy:
  assumes "surf_inv sm h bs" "sm k = Some p" "h p = Some x"
  shows "surf_inv (sm(k := None)) (h(p := if sf_context_binding_count x \<noteq> 0 then Some (x\<lparr>sf_is_destroyed := True\<rparr>) else None)) bs"
proof (rule surf_invI)
  note d = surf_invD [OF assms(1)]
  have x: "sf_name x = k" "\<not> sf_is_destroyed x" using d(1) [OF assms(2)] assms(3) by auto
  let ?h = "h(p := if sf_context_binding_count x \<noteq> 0 then Some (x\<lparr>sf_is_destroyed := True\<rparr>) else None)"
  show "\<exists>y. ?h q = Some y \<and> sf_name y = j \<and> \<not> sf_is_destroyed y" if "(sm(k := None)) j = Some q" for j q
  proof -
    from that have "j \<noteq> k" "sm j = Some q" by (auto split: if_splits)
    with d(1) [OF this(2)] x assms(3) show ?thesis by (auto split: if_splits)
  qed
  show "q \<noteq> 0 \<and> valid_config (sf_config y) \<and> \<not> sf_server_owned y \<and>
      (\<not> sf_is_destroyed y \<longrightarrow> (sm(k := None)) (sf_name y) = Some q) \<and> (sf_is_destroyed y \<longrightarrow> sf_context_binding_count y \<noteq> 0)"
    if "?h q = Some y" for q y
  proof (cases "q = p")
    case True
    then show ?thesis using that d(2) [OF assms(3)] by (auto split: if_splits)
  next
    case False
    then have q: "h q = Some y" using that by simp
    then have "sf_name y \<noteq> k \<or> sf_is_destroyed y" using d(2) [OF q] assms(2) False by auto
    then show ?thesis using d(2) [OF q] by auto
  qed
  show "refs bs q t = (if t = sf_thread y then unat (sf_context_binding_count y) else 0)" if "?h q = Some y" for q y t
  proof (cases "q = p")
    case True
    then have "sf_thread y = sf_thread x \<and> sf_context_binding_count y = sf_context_binding_count x"
      using that by (auto split: if_splits)
    then show ?thesis using d(3) [OF assms(3), of t] True by simp
  next
    case False
    then show ?thesis using d(3) [of q y t] that by simp
  qed
  show "?h (bs rd vg t) \<noteq> None" if "bs rd vg t \<noteq> 0" for rd vg t
  proof (cases "bs rd vg t = p")
    case True
    then have "0 < refs bs p t" unfolding refs_pos by auto
    then have "sf_context_binding_count x \<noteq> 0" using d(3) [OF assms(3), of t] by (auto split: if_splits)
    then show ?thesis using True by simp
  next
    case False
    then show ?thesis using d(4) [OF that] by simp
  qed
qed

lemma surf_release:
  assumes "surf_inv sm h bs" "bs rd vg t = p" "p \<noteq> 0" "h p = Some x"
  shows "0 < sf_context_binding_count x"
    and "surf_inv sm (h(p := if sf_is_destroyed x \<and> sf_context_binding_count x - 1 = 0 then None
      else Some (x\<lparr>sf_context_binding_count := sf_context_binding_count x - 1\<rparr>))) (rebind rd vg t 0 bs)"
proof -
  note d = surf_invD [OF assms(1)]
  have "0 < refs bs p t" unfolding refs_pos using assms(2) by auto
  then have t: "t = sf_thread x" and n: "unat (sf_context_binding_count x) \<noteq> 0"
    using d(3) [OF assms(4), of t] by (auto split: if_splits)
  then have nz: "sf_context_binding_count x \<noteq> 0" by auto
  then show "0 < sf_context_binding_count x" by (simp add: word_neq_0_conv)
  from nz have dec: "unat (sf_context_binding_count x - 1) = unat (sf_context_binding_count x) - 1" by (rule unat_minus_one)
  let ?h = "h(p := if sf_is_destroyed x \<and> sf_context_binding_count x - 1 = 0 then None
      else Some (x\<lparr>sf_context_binding_count := sf_context_binding_count x - 1\<rparr>))"
  have refs: "refs (rebind rd vg t 0 bs) q u = refs bs q u - of_bool (u = t \<and> p = q)" if "q \<noteq> 0" for q u
    using refs_rebind [of rd vg t 0 bs q u] that assms(2) by auto
  show "surf_inv sm ?h (rebind rd vg t 0 bs)"
  proof (rule surf_invI)
    show "\<exists>y. ?h q = Some y \<and> sf_name y = j \<and> \<not> sf_is_destroyed y" if "sm j = Some q" for j q
      using d(1) [OF that] assms(4) by (cases "q = p") auto
    show "q \<noteq> 0 \<and> valid_config (sf_config y) \<and> \<not> sf_server_owned y \<and>
        (\<not> sf_is_destroyed y \<longrightarrow> sm (sf_name y) = Some q) \<and> (sf_is_destroyed y \<longrightarrow> sf_context_binding_count y \<noteq> 0)"
      if "?h q = Some y" for q y
      using that d(2) [OF assms(4)] d(2) [of q y] by (cases "q = p") (auto split: if_splits)
    show "refs (rebind rd vg t 0 bs) q u = (if u = sf_thread y then unat (sf_context_binding_count y) else 0)"
      if "?h q = Some y" for q y u
    proof (cases "q = p")
      case True
      then have "y = x\<lparr>sf_context_binding_count := sf_context_binding_count x - 1\<rparr>" using that by (auto split: if_splits)
      then show ?thesis using refs [OF assms(3), of u] d(3) [OF assms(4), of u] t True by (simp add: dec)
    next
      case False
      then have "h q = Some y" using that by simp
      then show ?thesis using refs [of q u] d(2) [of q y] d(3) [of q y u] False by auto
    qed
    show "?h (rebind rd vg t 0 bs r v u) \<noteq> None" if "rebind rd vg t 0 bs r v u \<noteq> 0" for r v u
    proof (cases "rebind rd vg t 0 bs r v u = p")
      case True
      then have "0 < refs (rebind rd vg t 0 bs) p u" unfolding refs_pos by auto
      then have pos: "0 < refs bs p u - of_bool (u = t)" using refs [OF assms(3), of u] by simp
      then have "u = t" using d(3) [OF assms(4), of u] t by (auto split: if_splits)
      then have "1 < unat (sf_context_binding_count x)" using pos d(3) [OF assms(4), of u] t by simp
      then have "unat (sf_context_binding_count x - 1) \<noteq> 0" using dec by simp
      then have "sf_context_binding_count x - 1 \<noteq> 0" by auto
      then show ?thesis using True by simp
    next
      case False
      moreover from that have "rebind rd vg t 0 bs r v u = bs r v u" by (auto simp: rebind_def split: if_splits)
      ultimately show ?thesis using that d(4) by simp
    qed
  qed
qed

text \<open>A surface that no other thread has bound may be bound where nothing is.\<close>

lemma surf_bind:
  assumes "surf_inv sm h bs" "bs rd vg t = 0" "h p = Some x" "sf_context_binding_count x = 0 \<or> sf_thread x = t"
  shows "surf_inv sm (h(p \<mapsto> x\<lparr>sf_thread := t, sf_context_binding_count := sf_context_binding_count x + 1\<rparr>)) (rebind rd vg t p bs)"
proof -
  note d = surf_invD [OF assms(1)]
  have p: "p \<noteq> 0" using d(2) [OF assms(3)] by simp
  have "unat (sf_context_binding_count x) \<le> 4"
    using d(3) [OF assms(3), of "sf_thread x"] refs_le [of bs p "sf_thread x"] by simp
  then have inc: "unat (sf_context_binding_count x + 1) = unat (sf_context_binding_count x) + 1"
    by (simp add: unat_add_small)
  then have nz: "sf_context_binding_count x + 1 \<noteq> 0" by (metis unat_0 add_is_0 one_neq_zero)
  let ?h = "h(p \<mapsto> x\<lparr>sf_thread := t, sf_context_binding_count := sf_context_binding_count x + 1\<rparr>)"
  have refs: "refs (rebind rd vg t p bs) q u = refs bs q u + of_bool (u = t \<and> p = q)" if "q \<noteq> 0" for q u
    using refs_rebind [of rd vg t p bs q u] that assms(2) by auto
  show ?thesis
  proof (rule surf_invI)
    show "\<exists>y. ?h q = Some y \<and> sf_name y = j \<and> \<not> sf_is_destroyed y" if "sm j = Some q" for j q
      using d(1) [OF that] assms(3) by (cases "q = p") auto
    show "q \<noteq> 0 \<and> valid_config (sf_config y) \<and> \<not> sf_server_owned y \<and>
        (\<not> sf_is_destroyed y \<longrightarrow> sm (sf_name y) = Some q) \<and> (sf_is_destroyed y \<longrightarrow> sf_context_binding_count y \<noteq> 0)"
      if "?h q = Some y" for q y
      using that d(2) [OF assms(3)] d(2) [of q y] nz by (cases "q = p") auto
    show "refs (rebind rd vg t p bs) q u = (if u = sf_thread y then unat (sf_context_binding_count y) else 0)"
      if "?h q = Some y" for q y u
    proof (cases "q = p")
      case True
      then show ?thesis using that refs [OF p, of u] d(3) [OF assms(3), of u] assms(4) inc by auto
    next
      case False
      then have "h q = Some y" using that by simp
      then show ?thesis using refs [of q u] d(2) [of q y] d(3) [of q y u] False by auto
    qed
    show "?h (rebind rd vg t p bs r v u) \<noteq> None" if "rebind rd vg t p bs r v u \<noteq> 0" for r v u
      using that d(4) [of r v u] by (auto simp: rebind_def split: if_splits)
  qed
qed

lemma surf_create:
  assumes "surf_inv sm h bs" "h p = None" "p \<noteq> 0" "valid_config (sf_config x)" "\<not> sf_is_destroyed x"
    "sf_context_binding_count x = 0" "\<not> sf_server_owned x" "sm (sf_name x) = None"
  shows "surf_inv (sm(sf_name x \<mapsto> p)) (h(p \<mapsto> x)) bs"
proof (rule surf_invI)
  note d = surf_invD [OF assms(1)]
  show "\<exists>y. (h(p \<mapsto> x)) q = Some y \<and> sf_name y = j \<and> \<not> sf_is_destroyed y" if "(sm(sf_name x \<mapsto> p)) j = Some q" for j q
    using that d(1) [of j q] assms by (auto split: if_splits)
  show "q \<noteq> 0 \<and> valid_config (sf_config y) \<and> \<not> sf_server_owned y \<and>
      (\<not> sf_is_destroyed y \<longrightarrow> (sm(sf_name x \<mapsto> p)) (sf_name y) = Some q) \<and> (sf_is_destroyed y \<longrightarrow> sf_context_binding_count y \<noteq> 0)"
    if "(h(p \<mapsto> x)) q = Some y" for q y
    using that d(2) [of q y] assms by (auto split: if_splits)
  show "refs bs q t = (if t = sf_thread y then unat (sf_context_binding_count y) else 0)" if "(h(p \<mapsto> x)) q = Some y" for q y t
  proof (cases "q = p")
    case True
    have "\<not> 0 < refs bs p t" unfolding refs_pos using d(4) [of _ _ t] assms(2,3) by metis
    then show ?thesis using True that assms(6) by auto
  next
    case False
    then show ?thesis using that d(3) [of q y t] by simp
  qed
  show "(h(p \<mapsto> x)) (bs rd vg t) \<noteq> None" if "bs rd vg t \<noteq> 0" for rd vg t
    using d(4) [OF that] by simp
qed

lemma surf_update:
  assumes "surf_inv sm h bs" "h p = Some x" "sf_name y = sf_name x" "sf_config y = sf_config x"
    "sf_is_destroyed y = sf_is_destroyed x" "sf_context_binding_count y = sf_context_binding_count x"
    "sf_thread y = sf_thread x" "sf_server_owned y = sf_server_owned x"
  shows "surf_inv sm (h(p \<mapsto> y)) bs"
proof (rule surf_invI)
  note d = surf_invD [OF assms(1)]
  show "\<exists>z. (h(p \<mapsto> y)) q = Some z \<and> sf_name z = j \<and> \<not> sf_is_destroyed z" if "sm j = Some q" for j q
  proof (cases "q = p")
    case True
    then show ?thesis using d(1) [OF that] assms(2,3,5) by simp
  next
    case False
    then show ?thesis using d(1) [OF that] by simp
  qed
  show "q \<noteq> 0 \<and> valid_config (sf_config z) \<and> \<not> sf_server_owned z \<and>
      (\<not> sf_is_destroyed z \<longrightarrow> sm (sf_name z) = Some q) \<and> (sf_is_destroyed z \<longrightarrow> sf_context_binding_count z \<noteq> 0)"
    if "(h(p \<mapsto> y)) q = Some z" for q z
  proof (cases "q = p")
    case True
    then have "z = y" using that by simp
    then show ?thesis using d(2) [OF assms(2)] True by (simp add: assms(3-8))
  next
    case False
    then show ?thesis using d(2) [of q z] that by simp
  qed
  show "refs bs q t = (if t = sf_thread z then unat (sf_context_binding_count z) else 0)" if "(h(p \<mapsto> y)) q = Some z" for q z t
  proof (cases "q = p")
    case True
    then show ?thesis using that d(3) [OF assms(2), of t] assms(6,7) by simp
  next
    case False
    then show ?thesis using d(3) [of q z t] that by simp
  qed
  show "(h(p \<mapsto> y)) (bs rd vg t) \<noteq> None" if "bs rd vg t \<noteq> 0" for rd vg t
    using d(4) [OF that] by simp
qed

end
