(* ===== verification/Egl_Release.thy ===== *)
theory Egl_Release
  imports Egl_Bindings Egl_Choose
begin

text \<open>
  The invariant of the EGL state (Egl_Client), on the views that Egl_Bindings speaks of, and the two
  parts of \<open>eglMakeCurrent\<close> (egl_client.c): releasing what a thread has current for an API, and binding a
  context and its surfaces. No assertion of theirs fails and no freed object is touched.
\<close>

section \<open>Views of the state\<close>

definition cur :: "egl_state \<Rightarrow> bool \<Rightarrow> nat \<Rightarrow> ptr" where
  "cur s vg t = cur_context (get_current vg t s)"

definition bound :: "egl_state \<Rightarrow> bool \<Rightarrow> bool \<Rightarrow> nat \<Rightarrow> ptr" where
  "bound s rd vg t = (if rd then cur_read (get_current vg t s) else cur_draw (get_current vg t s))"

definition ctx_map :: "egl_state \<Rightarrow> u32 \<Rightarrow> ptr option" where
  "ctx_map s = (if es_inited s then gmap_map (es_contexts s) else Map.empty)"

definition surf_map :: "egl_state \<Rightarrow> u32 \<Rightarrow> ptr option" where
  "surf_map s = (if es_inited s then gmap_map (es_surfaces s) else Map.empty)"

definition ctx_part :: "egl_state \<Rightarrow> bool" where
  "ctx_part s \<longleftrightarrow> ctx_inv (ctx_map s) (es_ctx s) (cur s) (es_context_current_count s)"

definition surf_part :: "egl_state \<Rightarrow> bool" where
  "surf_part s \<longleftrightarrow> surf_inv (surf_map s) (es_surf s) (bound s)"

text \<open>What a thread has current for an API is a context with both surfaces, or nothing.\<close>

definition sync :: "(bool \<Rightarrow> nat \<Rightarrow> ptr) \<Rightarrow> (bool \<Rightarrow> bool \<Rightarrow> nat \<Rightarrow> ptr) \<Rightarrow> bool" where
  "sync c b \<longleftrightarrow> (\<forall>rd vg t. (b rd vg t = 0) = (c vg t = 0))"

definition maps_part :: "egl_state \<Rightarrow> bool" where
  "maps_part s \<longleftrightarrow> es_formats s = formats \<and>
     (es_inited s \<longrightarrow> (\<exists>r. gmap_good r (es_contexts s)) \<and> (\<exists>r. gmap_good r (es_surfaces s))) \<and>
     (\<forall>k. ctx_map s k \<noteq> None \<longrightarrow> k < es_next_context s) \<and> (\<forall>k. surf_map s k \<noteq> None \<longrightarrow> k < es_next_surface s)"

definition egl_inv :: "egl_state \<Rightarrow> bool" where
  "egl_inv s \<longleftrightarrow> maps_part s \<and> ctx_part s \<and> surf_part s \<and> sync (cur s) (bound s)"

text \<open>What the operations on bindings leave alone.\<close>

definition rest :: "egl_state \<Rightarrow> config_formats list \<times> bool \<times> ptr gmap \<times> ptr gmap \<times> u32 \<times> u32" where
  "rest s = (es_formats s, es_inited s, es_contexts s, es_surfaces s, es_next_surface s, es_next_context s)"

lemma rest_maps:
  assumes "rest s' = rest s"
  shows "ctx_map s' = ctx_map s" "surf_map s' = surf_map s" "maps_part s' = maps_part s"
  using assms by (simp_all add: rest_def ctx_map_def surf_map_def maps_part_def)

named_theorems egl_views

lemma get_current_views [egl_views]:
  "get_current vg t (set_error u e s) = get_current vg t s"
  "get_current vg t (log_call x s) = get_current vg t s"
  "get_current vg t (s\<lparr>es_ctx := h\<rparr>) = get_current vg t s"
  "get_current vg t (s\<lparr>es_surf := k\<rparr>) = get_current vg t s"
  "get_current vg t (s\<lparr>es_context_current_count := n\<rparr>) = get_current vg t s"
  "get_current vg t (s\<lparr>es_contexts := m\<rparr>) = get_current vg t s"
  "get_current vg t (s\<lparr>es_surfaces := m\<rparr>) = get_current vg t s"
  "get_current vg t (s\<lparr>es_next_context := n\<rparr>) = get_current vg t s"
  "get_current vg t (s\<lparr>es_next_surface := n\<rparr>) = get_current vg t s"
  "get_current vg t (s\<lparr>es_inited := i\<rparr>) = get_current vg t s"
  "get_current vg t (s\<lparr>es_formats := tab\<rparr>) = get_current vg t s"
  "get_current vg t (s\<lparr>es_log := l\<rparr>) = get_current vg t s"
  "get_current vg t (upd_current v u f s) = (if v = vg \<and> u = t then f (get_current vg t s) else get_current vg t s)"
  by (auto simp: get_current_def set_error_def log_call_def upd_current_def)

lemma cur_views [egl_views]:
  "cur (set_error u e s) = cur s" "cur (log_call x s) = cur s"
  "cur (s\<lparr>es_ctx := h\<rparr>) = cur s" "cur (s\<lparr>es_surf := k\<rparr>) = cur s"
  "cur (s\<lparr>es_context_current_count := n\<rparr>) = cur s"
  "cur (s\<lparr>es_contexts := m\<rparr>) = cur s" "cur (s\<lparr>es_surfaces := m\<rparr>) = cur s"
  "cur (s\<lparr>es_next_context := n\<rparr>) = cur s" "cur (s\<lparr>es_next_surface := n\<rparr>) = cur s"
  "cur (s\<lparr>es_inited := i\<rparr>) = cur s" "cur (s\<lparr>es_formats := tab\<rparr>) = cur s" "cur (s\<lparr>es_log := l\<rparr>) = cur s"
  by (simp_all add: cur_def fun_eq_iff egl_views)

lemma bound_views [egl_views]:
  "bound (set_error u e s) = bound s" "bound (log_call x s) = bound s"
  "bound (s\<lparr>es_ctx := h\<rparr>) = bound s" "bound (s\<lparr>es_surf := k\<rparr>) = bound s"
  "bound (s\<lparr>es_context_current_count := n\<rparr>) = bound s"
  "bound (s\<lparr>es_contexts := m\<rparr>) = bound s" "bound (s\<lparr>es_surfaces := m\<rparr>) = bound s"
  "bound (s\<lparr>es_next_context := n\<rparr>) = bound s" "bound (s\<lparr>es_next_surface := n\<rparr>) = bound s"
  "bound (s\<lparr>es_inited := i\<rparr>) = bound s" "bound (s\<lparr>es_formats := tab\<rparr>) = bound s" "bound (s\<lparr>es_log := l\<rparr>) = bound s"
  by (simp_all add: bound_def fun_eq_iff egl_views)

lemma current_fields [egl_views]:
  "cur_context (get_current vg t s) = cur s vg t"
  "cur_draw (get_current vg t s) = bound s False vg t"
  "cur_read (get_current vg t s) = bound s True vg t"
  by (simp_all add: cur_def bound_def)

lemma upd_current_views [egl_views]:
  "cur (upd_current vg t (\<lambda>k. k\<lparr>cur_context := 0\<rparr>) s) = unbind vg t (cur s)"
  "bound (upd_current vg t (\<lambda>k. k\<lparr>cur_context := p\<rparr>) s) = bound s"
  "cur (upd_current vg t (\<lambda>k. k\<lparr>cur_draw := p\<rparr>) s) = cur s"
  "bound (upd_current vg t (\<lambda>k. k\<lparr>cur_draw := p\<rparr>) s) = rebind False vg t p (bound s)"
  "cur (upd_current vg t (\<lambda>k. k\<lparr>cur_read := p\<rparr>) s) = cur s"
  "bound (upd_current vg t (\<lambda>k. k\<lparr>cur_read := p\<rparr>) s) = rebind True vg t p (bound s)"
  "cur (upd_current vg t (\<lambda>_. \<lparr>cur_context = p, cur_draw = q, cur_read = r\<rparr>) s) = bind vg t p (cur s)"
  "bound (upd_current vg t (\<lambda>_. \<lparr>cur_context = p, cur_draw = q, cur_read = r\<rparr>) s) =
     rebind True vg t r (rebind False vg t q (bound s))"
  by (auto simp: cur_def bound_def unbind_def bind_def rebind_def fun_eq_iff get_current_views)

lemma other_views [egl_views]:
  "es_ctx (set_error u e s) = es_ctx s" "es_surf (set_error u e s) = es_surf s"
  "es_ctx (log_call x s) = es_ctx s" "es_surf (log_call x s) = es_surf s"
  "es_ctx (upd_current vg t f s) = es_ctx s" "es_surf (upd_current vg t f s) = es_surf s"
  "es_context_current_count (set_error u e s) = es_context_current_count s"
  "es_context_current_count (log_call x s) = es_context_current_count s"
  "es_context_current_count (upd_current vg t f s) = es_context_current_count s"
  "rest (set_error u e s) = rest s" "rest (log_call x s) = rest s" "rest (upd_current vg t f s) = rest s"
  "rest (s\<lparr>es_ctx := h\<rparr>) = rest s" "rest (s\<lparr>es_surf := k\<rparr>) = rest s" "rest (s\<lparr>es_context_current_count := n\<rparr>) = rest s"
  by (simp_all add: set_error_def log_call_def upd_current_def rest_def)

lemma inv_views [egl_views]:
  "egl_inv (set_error u e s) = egl_inv s" "egl_inv (log_call x s) = egl_inv s"
  by (simp_all add: egl_inv_def ctx_part_def surf_part_def egl_views rest_maps [of "set_error u e s" s] rest_maps [of "log_call x s" s])

section \<open>Releasing\<close>

text \<open>
  What the binding of contexts and of surfaces may do to the others: an object that is not destroyed
  stays where it is.
\<close>

definition ctx_stay :: "egl_state \<Rightarrow> egl_state \<Rightarrow> bool" where
  "ctx_stay s s' \<longleftrightarrow> (\<forall>p c. es_ctx s p = Some c \<and> \<not> cx_is_destroyed c \<longrightarrow>
     (\<exists>c'. es_ctx s' p = Some c' \<and> \<not> cx_is_destroyed c' \<and> cx_type c' = cx_type c \<and> cx_configname c' = cx_configname c \<and>
       (cx_is_current c' \<longrightarrow> cx_is_current c \<and> cx_thread c' = cx_thread c)))"

definition surf_stay :: "egl_state \<Rightarrow> egl_state \<Rightarrow> bool" where
  "surf_stay s s' \<longleftrightarrow> (\<forall>p x. es_surf s p = Some x \<and> \<not> sf_is_destroyed x \<longrightarrow>
     (\<exists>k. es_surf s' p = Some (x\<lparr>sf_context_binding_count := k\<rparr>) \<and> k \<le> sf_context_binding_count x))"

lemma surf_stay_refl: "surf_stay s s"
  unfolding surf_stay_def
proof (intro allI impI)
  fix p x
  assume "es_surf s p = Some x \<and> \<not> sf_is_destroyed x"
  then show "\<exists>k. es_surf s p = Some (x\<lparr>sf_context_binding_count := k\<rparr>) \<and> k \<le> sf_context_binding_count x"
    by (intro exI [of _ "sf_context_binding_count x"]) simp
qed

lemma surf_stay_update:
  assumes "es_surf s p = Some x" "k \<le> sf_context_binding_count x"
    and "es_surf s' = (es_surf s)(p := if sf_is_destroyed x \<and> gone then None else Some (x\<lparr>sf_context_binding_count := k\<rparr>))"
  shows "surf_stay s s'"
  unfolding surf_stay_def
proof (intro allI impI)
  fix q y
  assume y: "es_surf s q = Some y \<and> \<not> sf_is_destroyed y"
  show "\<exists>k. es_surf s' q = Some (y\<lparr>sf_context_binding_count := k\<rparr>) \<and> k \<le> sf_context_binding_count y"
  proof (cases "q = p")
    case True
    then show ?thesis using y assms by auto
  next
    case False
    then show ?thesis using y assms(3) by (intro exI [of _ "sf_context_binding_count y"]) simp
  qed
qed

lemma surf_stay_trans:
  assumes "surf_stay s s'" "surf_stay s' s''"
  shows "surf_stay s s''"
  unfolding surf_stay_def
proof (intro allI impI)
  fix p x
  assume "es_surf s p = Some x \<and> \<not> sf_is_destroyed x"
  then obtain k where k: "es_surf s' p = Some (x\<lparr>sf_context_binding_count := k\<rparr>)" "k \<le> sf_context_binding_count x"
    and d: "\<not> sf_is_destroyed x"
    using assms(1) by (auto simp: surf_stay_def)
  from assms(2) k(1) d obtain l where "es_surf s'' p = Some (x\<lparr>sf_context_binding_count := l\<rparr>)" "l \<le> k"
    by (auto simp: surf_stay_def dest!: spec [of _ p])
  with k(2) show "\<exists>k. es_surf s'' p = Some (x\<lparr>sf_context_binding_count := k\<rparr>) \<and> k \<le> sf_context_binding_count x"
    using order_trans by blast
qed

lemma release_context_spec:
  assumes "ctx_part s"
  shows "\<exists>s'. release_context vg t s = Some s' \<and> ctx_part s' \<and> cur s' = unbind vg t (cur s) \<and> ctx_stay s s' \<and>
    es_surf s' = es_surf s \<and> bound s' = bound s \<and> rest s' = rest s"
proof (cases "cur s vg t = 0")
  case True
  then have "unbind vg t (cur s) = cur s" by (auto simp: unbind_def fun_eq_iff)
  with True assms show ?thesis by (auto simp: release_context_def ctx_stay_def egl_views)
next
  case False
  note inv = assms [unfolded ctx_part_def]
  obtain c where c: "es_ctx s (cur s vg t) = Some c" using ctx_invD(3) [OF inv False] by blast
  note r = ctx_release [OF inv refl False c]
  let ?c = "c\<lparr>cx_is_current := False, cx_renderbuffer := EGL_NONE, cx_callbacks := False\<rparr>"
  let ?h = "(es_ctx s)(cur s vg t := if cx_is_destroyed c then None else Some ?c)"
  have "\<exists>s'. release_context vg t s = Some s' \<and> es_ctx s' = ?h \<and> cur s' = unbind vg t (cur s) \<and>
      es_context_current_count s' = es_context_current_count s - 1 \<and> es_surf s' = es_surf s \<and> bound s' = bound s \<and> rest s' = rest s"
    using c r(1,2) False
    by (simp add: release_context_def upd_ctx_def egl_context_set_callbacks_def egl_context_maybe_free_def
        egl_context_term_def free_context_def egl_views Let_def)
  then obtain s' where s': "release_context vg t s = Some s'" "es_ctx s' = ?h" "cur s' = unbind vg t (cur s)"
    "es_context_current_count s' = es_context_current_count s - 1" "es_surf s' = es_surf s" "bound s' = bound s" "rest s' = rest s"
    by blast
  have "ctx_part s'" using r(3) unfolding ctx_part_def s'(2-4) rest_maps(1) [OF s'(7)] .
  moreover have "ctx_stay s s'" using c by (auto simp: ctx_stay_def s'(2))
  ultimately show ?thesis using s' by blast
qed

lemma release_surface_spec:
  assumes "surf_part s"
    and "\<And>k. sel k = (if rd then cur_read k else cur_draw k)"
    and clear: "\<And>s. bound (upd_current vg t clear s) = rebind rd vg t 0 (bound s)" "\<And>s. cur (upd_current vg t clear s) = cur s"
  shows "\<exists>s'. release_surface sel clear vg t s = Some s' \<and> surf_part s' \<and> bound s' = rebind rd vg t 0 (bound s) \<and> surf_stay s s' \<and>
    es_ctx s' = es_ctx s \<and> es_context_current_count s' = es_context_current_count s \<and> cur s' = cur s \<and> rest s' = rest s"
proof (cases "bound s rd vg t = 0")
  case True
  then have "rebind rd vg t 0 (bound s) = bound s" by (auto simp: rebind_def fun_eq_iff)
  with True assms(1,2) show ?thesis by (auto simp: release_surface_def surf_stay_refl egl_views)
next
  case False
  note inv = assms(1) [unfolded surf_part_def]
  obtain x where x: "es_surf s (bound s rd vg t) = Some x" using surf_invD(4) [OF inv False] by auto
  note r = surf_release [OF inv refl False x]
  let ?x = "x\<lparr>sf_context_binding_count := sf_context_binding_count x - 1\<rparr>"
  let ?h = "(es_surf s)(bound s rd vg t := if sf_is_destroyed x \<and> sf_context_binding_count x - 1 = 0 then None else Some ?x)"
  have sel: "sel (get_current vg t s) = bound s rd vg t" by (simp add: assms(2) bound_def)
  have b: "bound (upd_current vg t clear (s\<lparr>es_surf := k\<rparr>)) = rebind rd vg t 0 (bound s)"
    "cur (upd_current vg t clear (s\<lparr>es_surf := k\<rparr>)) = cur s" for k
    by (simp_all add: clear egl_views)
  have "\<exists>s'. release_surface sel clear vg t s = Some s' \<and> es_surf s' = ?h \<and> bound s' = rebind rd vg t 0 (bound s) \<and>
      es_ctx s' = es_ctx s \<and> es_context_current_count s' = es_context_current_count s \<and> cur s' = cur s \<and> rest s' = rest s"
    using x r(1) False
    by (simp add: release_surface_def sel upd_surf_def egl_surface_maybe_free_def egl_surface_free_def egl_views b Let_def)
  then obtain s' where s': "release_surface sel clear vg t s = Some s'" "es_surf s' = ?h" "bound s' = rebind rd vg t 0 (bound s)"
    "es_ctx s' = es_ctx s" "es_context_current_count s' = es_context_current_count s" "cur s' = cur s" "rest s' = rest s"
    by blast
  have "surf_part s'" using r(2) unfolding surf_part_def s'(2,3) rest_maps(2) [OF s'(7)] .
  moreover have "sf_context_binding_count x - 1 \<le> sf_context_binding_count x"
    using r(1) by (simp add: word_le_nat_alt unat_minus_one)
  then have "surf_stay s s'" by (rule surf_stay_update [OF x _ s'(2)])
  ultimately show ?thesis using s' by blast
qed


lemma part_cong:
  assumes "rest s' = rest s"
  shows "es_ctx s' = es_ctx s \<Longrightarrow> es_context_current_count s' = es_context_current_count s \<Longrightarrow> cur s' = cur s \<Longrightarrow> ctx_part s' = ctx_part s"
    and "es_surf s' = es_surf s \<Longrightarrow> bound s' = bound s \<Longrightarrow> surf_part s' = surf_part s"
  by (simp_all add: ctx_part_def surf_part_def rest_maps [OF assms])

lemma egl_current_release_spec:
  assumes "egl_inv s"
  shows "\<exists>s'. egl_current_release vg t s = Some s' \<and> egl_inv s' \<and> ctx_stay s s' \<and> surf_stay s s' \<and>
    cur s' = unbind vg t (cur s) \<and> bound s' = rebind True vg t 0 (rebind False vg t 0 (bound s)) \<and> rest s' = rest s"
proof -
  have i: "maps_part s" "ctx_part s" "surf_part s" "sync (cur s) (bound s)" using assms by (simp_all add: egl_inv_def)
  obtain s1 where s1: "release_context vg t s = Some s1" "ctx_part s1" "cur s1 = unbind vg t (cur s)" "ctx_stay s s1"
    "es_surf s1 = es_surf s" "bound s1 = bound s" "rest s1 = rest s"
    using release_context_spec [OF i(2)] by blast
  have surf1: "surf_part s1" using i(3) part_cong(2) [OF s1(7,5,6)] by simp
  obtain s2 where s2: "release_surface cur_draw (\<lambda>k. k\<lparr>cur_draw := NULL\<rparr>) vg t s1 = Some s2" "surf_part s2"
    "bound s2 = rebind False vg t 0 (bound s1)" "surf_stay s1 s2" "es_ctx s2 = es_ctx s1"
    "es_context_current_count s2 = es_context_current_count s1" "cur s2 = cur s1" "rest s2 = rest s1"
    using release_surface_spec [where sel = cur_draw and rd = False and clear = "\<lambda>k. k\<lparr>cur_draw := NULL\<rparr>", OF surf1] by (auto simp: egl_views)
  obtain s3 where s3: "release_surface cur_read (\<lambda>k. k\<lparr>cur_read := NULL\<rparr>) vg t s2 = Some s3" "surf_part s3"
    "bound s3 = rebind True vg t 0 (bound s2)" "surf_stay s2 s3" "es_ctx s3 = es_ctx s2"
    "es_context_current_count s3 = es_context_current_count s2" "cur s3 = cur s2" "rest s3 = rest s2"
    using release_surface_spec [where sel = cur_read and rd = True and clear = "\<lambda>k. k\<lparr>cur_read := NULL\<rparr>", OF s2(2)] by (auto simp: egl_views)
  have r: "rest s3 = rest s" using s1(7) s2(8) s3(8) by simp
  have c: "cur s3 = unbind vg t (cur s)" using s1(3) s2(7) s3(7) by simp
  have b: "bound s3 = rebind True vg t 0 (rebind False vg t 0 (bound s))" using s1(6) s2(3) s3(3) by simp
  have "ctx_part s3" using s1(2) part_cong(1) [OF s2(8,5,6,7)] part_cong(1) [OF s3(8,5,6,7)] by simp
  moreover have "sync (cur s3) (bound s3)" using i(4) unfolding c b sync_def by (auto simp: rebind_def unbind_def)
  ultimately have "egl_inv s3" using i(1) s3(2) rest_maps(3) [OF r] by (simp add: egl_inv_def)
  moreover have "ctx_stay s s3" using s1(4) by (simp add: ctx_stay_def s3(5) s2(5))
  moreover have "surf_stay s s1" using surf_stay_refl [of s] by (simp add: surf_stay_def s1(5))
  then have "surf_stay s s3" by (rule surf_stay_trans [OF surf_stay_trans [OF _ s2(4)] s3(4)])
  ultimately show ?thesis using s1(1) s2(1) s3(1) r c b by (simp add: egl_current_release_def)
qed

section \<open>Binding\<close>

lemma valid_config_index:
  assumes "valid_config config"
  shows "nat (egl_config_to_id config) < EGL_MAX_CONFIGS" "0 \<le> egl_config_to_id config"
proof -
  have c: "1 \<le> sint config" "sint config \<le> 28" using assms by (simp_all add: valid_config_def EGL_MAX_CONFIGS_def)
  have "config - 1 = word_of_int (sint config - 1)" by simp
  then have "egl_config_to_id config = signed_take_bit 31 (sint config - 1)"
    unfolding egl_config_to_id_def by (simp only: sint_sbintrunc') simp
  also have "\<dots> = sint config - 1" using c by (intro signed_take_bit_int_eq_self) simp_all
  finally show "nat (egl_config_to_id config) < EGL_MAX_CONFIGS" "0 \<le> egl_config_to_id config"
    using c by (simp_all add: EGL_MAX_CONFIGS_def)
qed

lemma compatible_defined:
  assumes "valid_config (cx_configname c)" "valid_config (sf_config x)"
  shows "context_and_surface_are_compatible formats c x \<noteq> None"
  using installed_support [OF install_rso valid_config_index(1) [OF assms(2)]]
  by (auto simp: context_and_surface_are_compatible_def Let_def)


text \<open>What is released stays bindable: the context is current nowhere, the surfaces at most in this thread.\<close>

lemma bind_current_spec:
  assumes "egl_inv s" "t < MAX_THREADS"
    and p: "es_ctx s p = Some c" "\<not> cx_is_destroyed c" "\<not> cx_is_current c \<or> cx_thread c = t" "(cx_type c = OPENVG) = vg"
    and x: "es_surf s dr = Some x" "\<not> sf_is_destroyed x" "sf_context_binding_count x = 0 \<or> sf_thread x = t"
    and y: "es_surf s rd = Some y" "\<not> sf_is_destroyed y" "sf_context_binding_count y = 0 \<or> sf_thread y = t"
  shows "\<exists>s'. bind_current vg t p dr rd s = Some s' \<and> egl_inv s' \<and> cur s' = bind vg t p (cur s) \<and>
    bound s' = rebind True vg t rd (rebind False vg t dr (bound s)) \<and> rest s' = rest s \<and>
    es_ctx s' p \<noteq> None \<and> es_surf s' dr \<noteq> None"
proof -
  obtain s1 where s1: "egl_current_release vg t s = Some s1" "egl_inv s1" "ctx_stay s s1" "surf_stay s s1"
    "cur s1 = unbind vg t (cur s)" "bound s1 = rebind True vg t 0 (rebind False vg t 0 (bound s))" "rest s1 = rest s"
    using egl_current_release_spec [OF assms(1)] by blast
  have i: "maps_part s1" "ctx_part s1" "surf_part s1" "sync (cur s1) (bound s1)" using s1(2) by (simp_all add: egl_inv_def)
  note ci = i(2) [unfolded ctx_part_def] and si = i(3) [unfolded surf_part_def]
  obtain c1 where c1: "es_ctx s1 p = Some c1" "cx_type c1 = cx_type c"
    "cx_is_current c1 \<longrightarrow> cx_is_current c \<and> cx_thread c1 = cx_thread c"
    using s1(3) p(1,2) by (auto simp: ctx_stay_def)
  have p0: "p \<noteq> 0" using ctx_invD(2) [OF ci c1(1)] by simp
  have free: "cur s1 vg t = 0" "bound s1 False vg t = 0" "bound s1 True vg t = 0"
    unfolding s1(5,6) by (simp_all add: unbind_def rebind_def)
  have nc: "\<not> cx_is_current c1"
  proof
    assume cur: "cx_is_current c1"
    then have "cx_thread c1 = t" using c1(3) p(3) by auto
    then have "cur s1 vg t = p" using ctx_invD(2) [OF ci c1(1)] cur c1(2) p(4) by simp
    with free(1) p0 show False by simp
  qed
  have ty: "(cx_type c1 = OPENVG) = vg" using c1(2) p(4) by simp
  obtain k where k: "es_surf s1 dr = Some (x\<lparr>sf_context_binding_count := k\<rparr>)" "k \<le> sf_context_binding_count x"
    using s1(4) x(1,2) by (auto simp: surf_stay_def)
  obtain l where l: "es_surf s1 rd = Some (y\<lparr>sf_context_binding_count := l\<rparr>)" "l \<le> sf_context_binding_count y"
    using s1(4) y(1,2) by (auto simp: surf_stay_def)
  let ?x = "x\<lparr>sf_thread := t, sf_context_binding_count := k + 1\<rparr>"
  let ?h = "(es_surf s1)(dr \<mapsto> ?x)"
  have kl: "k = 0 \<or> sf_thread x = t" "l = 0 \<or> sf_thread y = t" using k(2) l(2) x(3) y(3) by auto
  have b1: "surf_inv (surf_map s1) ?h (rebind False vg t dr (bound s1))"
    using surf_bind [OF si free(2) k(1)] kl(1) by simp
  obtain z where z: "?h rd = Some z" "sf_context_binding_count z = 0 \<or> sf_thread z = t" using l(1) kl(2) by (cases "rd = dr") auto
  let ?z = "z\<lparr>sf_thread := t, sf_context_binding_count := sf_context_binding_count z + 1\<rparr>"
  have b2: "surf_inv (surf_map s1) (?h(rd \<mapsto> ?z)) (rebind True vg t rd (rebind False vg t dr (bound s1)))"
    by (rule surf_bind [OF b1 _ z]) (simp add: rebind_def free(3))
  let ?r = "egl_surface_get_render_buffer (x\<lparr>sf_context_binding_count := k\<rparr>)"
  let ?c = "c1\<lparr>cx_is_current := True, cx_thread := t, cx_renderbuffer := ?r\<rparr>"
  note b3 = ctx_bind [OF ci free(1) c1(1) nc ty assms(2), of ?r]
  have "\<exists>s'. bind_current vg t p dr rd s = Some s' \<and> es_ctx s' = (es_ctx s1)(p \<mapsto> ?c) \<and> es_surf s' = ?h(rd \<mapsto> ?z) \<and>
      cur s' = bind vg t p (cur s1) \<and> bound s' = rebind True vg t rd (rebind False vg t dr (bound s1)) \<and>
      es_context_current_count s' = es_context_current_count s1 + 1 \<and> rest s' = rest s1"
    using c1(1) k(1) z(1)
    by (auto simp: bind_current_def s1(1) upd_ctx_def upd_surf_def egl_views)
  then obtain s' where s': "bind_current vg t p dr rd s = Some s'" "es_ctx s' = (es_ctx s1)(p \<mapsto> ?c)" "es_surf s' = ?h(rd \<mapsto> ?z)"
    "cur s' = bind vg t p (cur s1)" "bound s' = rebind True vg t rd (rebind False vg t dr (bound s1))"
    "es_context_current_count s' = es_context_current_count s1 + 1" "rest s' = rest s1" by blast
  have nz: "dr \<noteq> 0" "rd \<noteq> 0" using surf_invD(2) [OF si k(1)] surf_invD(2) [OF si l(1)] by simp_all
  have "sync (cur s') (bound s')"
    using i(4) p0 nz unfolding s'(4,5) sync_def by (auto simp: bind_def rebind_def)
  moreover have "ctx_part s'" using b3 unfolding ctx_part_def s'(2,4,6) rest_maps(1) [OF s'(7)] .
  moreover have "surf_part s'" using b2 unfolding surf_part_def s'(3,5) rest_maps(2) [OF s'(7)] .
  ultimately have "egl_inv s'" using i(1) rest_maps(3) [OF s'(7)] by (simp add: egl_inv_def)
  moreover have "bind vg t p (cur s1) = bind vg t p (cur s)"
    unfolding s1(5) by (simp add: bind_def unbind_def fun_eq_iff)
  moreover have "rebind True vg t rd (rebind False vg t dr (bound s1)) = rebind True vg t rd (rebind False vg t dr (bound s))"
    unfolding s1(6) by (auto simp: rebind_def fun_eq_iff)
  ultimately show ?thesis using s' s1(7) by simp
qed

end
