(* ===== verification/Egl_Current.thy ===== *)
theory Egl_Current
  imports Egl_Release
begin

text \<open>
  Every call of the EGL client (Egl_Client) on a valid state returns and leaves a valid state.
\<close>

definition fine :: "('r \<times> egl_state) option \<Rightarrow> bool" where
  "fine r \<longleftrightarrow> (\<exists>x s. r = Some (x, s) \<and> egl_inv s)"

lemma fine_Some [simp]: "fine (Some (x, s)) \<longleftrightarrow> egl_inv s"
  by (simp add: fine_def)

lemma fine_map [simp]: "fine (map_option (Pair x) r) \<longleftrightarrow> (\<exists>s. r = Some s \<and> egl_inv s)"
  by (auto simp: fine_def)

lemma fine_bind:
  assumes "fine r" "\<And>x s. r = Some (x, s) \<Longrightarrow> egl_inv s \<Longrightarrow> fine (f (x, s))"
  shows "fine (Option.bind r f)"
  using assms by (auto simp: fine_def)

lemma with_display_fine:
  assumes "egl_inv s" "(check \<longrightarrow> es_inited s) \<Longrightarrow> fine (k s)"
  shows "fine (with_display t dpy check fail s k)"
  using assms by (auto simp: with_display_def client_egl_get_process_state_def egl_views)

lemma egl_invD:
  assumes "egl_inv s"
  shows "maps_part s" "ctx_part s" "surf_part s" "sync (cur s) (bound s)"
    and "es_formats s = formats"
  using assms by (simp_all add: egl_inv_def maps_part_def)

section \<open>Lookups\<close>

lemma lookup_ctx:
  assumes "egl_inv s" "es_inited s"
  shows "khrn_map_lookup (es_contexts s) k = Some (case ctx_map s k of None \<Rightarrow> VNone | Some p \<Rightarrow> Val p)"
proof -
  obtain r where "gmap_good r (es_contexts s)" using assms by (auto simp: egl_inv_def maps_part_def)
  then show ?thesis using assms(2) lookup_spec [of "es_contexts s" k] by (simp add: gmap_good_def ctx_map_def)
qed

lemma lookup_surf:
  assumes "egl_inv s" "es_inited s"
  shows "khrn_map_lookup (es_surfaces s) k = Some (case surf_map s k of None \<Rightarrow> VNone | Some p \<Rightarrow> Val p)"
proof -
  obtain r where "gmap_good r (es_surfaces s)" using assms by (auto simp: egl_inv_def maps_part_def)
  then show ?thesis using assms(2) lookup_spec [of "es_surfaces s" k] by (simp add: gmap_good_def surf_map_def)
qed

lemma get_context_spec:
  assumes "egl_inv s" "es_inited s"
  obtains (none) "client_egl_get_context t k s = Some (None, set_error t EGL_BAD_CONTEXT s)" "ctx_map s k = None"
  | (found) p c where "client_egl_get_context t k s = Some (Some p, s)" "ctx_map s k = Some p"
      "es_ctx s p = Some c" "cx_name c = k" "\<not> cx_is_destroyed c" "p \<noteq> 0" "valid_config (cx_configname c)"
proof (cases "ctx_map s k")
  case None
  then show thesis using none lookup_ctx [OF assms, of k] by (simp add: client_egl_get_context_def)
next
  case (Some p)
  note inv = egl_invD(2) [OF assms(1), unfolded ctx_part_def]
  obtain c where c: "es_ctx s p = Some c" "cx_name c = k" "\<not> cx_is_destroyed c" using ctx_invD(1) [OF inv Some] by blast
  then have "client_egl_get_context t k s = Some (Some p, s)"
    using Some lookup_ctx [OF assms, of k] by (simp add: client_egl_get_context_def)
  then show thesis using found [OF _ Some c] ctx_invD(2) [OF inv c(1)] by blast
qed

lemma get_surface_spec:
  assumes "egl_inv s" "es_inited s"
  obtains (none) e where "client_egl_get_surface t k s = Some (None, set_error t e s)"
  | (found) p x where "client_egl_get_surface t k s = Some (Some p, s)" "surf_map s k = Some p"
      "es_surf s p = Some x" "sf_name x = k" "\<not> sf_is_destroyed x" "p \<noteq> 0" "valid_config (sf_config x)"
proof (cases "surf_map s k")
  case None
  then show thesis using none lookup_surf [OF assms, of k]
    by (simp add: client_egl_get_surface_def client_egl_get_locked_surface_def)
next
  case (Some p)
  note inv = egl_invD(3) [OF assms(1), unfolded surf_part_def]
  obtain x where x: "es_surf s p = Some x" "sf_name x = k" "\<not> sf_is_destroyed x" using surf_invD(1) [OF inv Some] by blast
  show thesis
  proof (cases "sf_is_locked x")
    case True
    then show thesis using none x Some lookup_surf [OF assms, of k]
      by (simp add: client_egl_get_surface_def client_egl_get_locked_surface_def)
  next
    case False
    then have "client_egl_get_surface t k s = Some (Some p, s)"
      using x Some lookup_surf [OF assms, of k] by (simp add: client_egl_get_surface_def client_egl_get_locked_surface_def)
    then show thesis using found [OF _ Some x] surf_invD(2) [OF inv x(1)] by blast
  qed
qed

section \<open>Messages to the server\<close>

lemma send_make_current_spec:
  assumes "egl_inv s"
  shows "\<exists>x. client_send_make_current t s = Some (log_call x s)"
proof -
  note ci = egl_invD(2) [OF assms, unfolded ctx_part_def] and si = egl_invD(3) [OF assms, unfolded surf_part_def]
  have c: "\<exists>n. ctx_server s (cur s vg t) = Some n" for vg
    using ctx_invD(3) [OF ci, of vg t] by (auto simp: ctx_server_def)
  have b: "\<exists>n. surf_server s (bound s rd vg t) = Some n" for rd vg
    using surf_invD(4) [OF si, of rd vg t] by (auto simp: surf_server_def)
  have g: "\<exists>n. (if cur s False t = NULL then Some 0
      else Option.bind (es_ctx s (cur s False t)) (\<lambda>c. convert_gltype (cx_type c))) = Some n"
    using ctx_invD(3) [OF ci, of False t] by (auto simp: convert_gltype_def split: context_type.splits)
  have f: "cur_context (t_opengl (es_threads s t)) = cur s False t" "cur_draw (t_opengl (es_threads s t)) = bound s False False t"
    "cur_read (t_opengl (es_threads s t)) = bound s True False t" "cur_context (t_openvg (es_threads s t)) = cur s True t"
    "cur_draw (t_openvg (es_threads s t)) = bound s False True t" "cur_read (t_openvg (es_threads s t)) = bound s True True t"
    by (simp_all add: cur_def bound_def get_current_def)
  obtain n1 n2 n3 n4 n5 n6 where n:
    "(if cur s False t = NULL then Some 0
      else Option.bind (es_ctx s (cur s False t)) (\<lambda>c. convert_gltype (cx_type c))) = Some n1"
    "ctx_server s (cur s False t) = Some n2" "surf_server s (bound s False False t) = Some n3"
    "surf_server s (bound s True False t) = Some n4" "ctx_server s (cur s True t) = Some n5"
    "surf_server s (bound s False True t) = Some n6"
    using g c b by metis
  show ?thesis unfolding client_send_make_current_def Let_def f n by auto
qed

lemma flush_spec:
  assumes "egl_inv s"
  shows "\<exists>x. flush_current_api mem t s = Some (log_call x s)"
proof -
  note si = egl_invD(3) [OF assms, unfolded surf_part_def]
  have "retrieve_pixmap mem (bound s False vg t) (log_call x s) = Some (log_call x s)" for vg x
  proof (cases "bound s False vg t = 0")
    case False
    then obtain y where "es_surf s (bound s False vg t) = Some y" using surf_invD(4) [OF si False] by blast
    with surf_invD(2) [OF si this] False show ?thesis by (simp add: retrieve_pixmap_def egl_views)
  qed (simp add: retrieve_pixmap_def)
  moreover have "cur_draw (t_opengl (es_threads (log_call x s) t)) = bound s False False t"
    "cur_draw (t_openvg (es_threads (log_call x s) t)) = bound s False True t" for x
    by (simp_all add: bound_def get_current_def log_call_def)
  ultimately show ?thesis
    by (auto simp: flush_current_api_def egl_gl_flush_callback_def egl_vg_flush_callback_def)
qed

lemma unload_inv [egl_views]: "egl_inv (client_try_unload_server s) = egl_inv s"
  by (simp add: client_try_unload_server_def egl_views)

section \<open>Making current\<close>

lemma set_callbacks_spec:
  assumes "egl_inv s" "es_ctx s p \<noteq> None"
  shows "\<exists>s'. egl_context_set_callbacks p b s = Some s' \<and> egl_inv s' \<and> cur s' = cur s \<and> bound s' = bound s \<and> rest s' = rest s"
proof -
  obtain c where c: "es_ctx s p = Some c" using assms(2) by auto
  let ?s = "s\<lparr>es_ctx := (es_ctx s)(p \<mapsto> c\<lparr>cx_callbacks := b\<rparr>)\<rparr>"
  have r: "rest ?s = rest s" by (simp add: egl_views)
  have "ctx_part ?s"
    using ctx_update [OF egl_invD(2) [OF assms(1), unfolded ctx_part_def] c, of b]
    by (simp add: ctx_part_def rest_maps [OF r] egl_views)
  moreover have "surf_part ?s = surf_part s" by (rule part_cong(2) [OF r]) (simp_all add: egl_views)
  ultimately have "egl_inv ?s" using assms(1) by (simp add: egl_inv_def rest_maps [OF r] egl_views)
  then show ?thesis using c r by (auto simp: egl_context_set_callbacks_def upd_ctx_def egl_views)
qed

lemma egl_current_set_spec:
  assumes "egl_inv s" "t < MAX_THREADS"
    and p: "es_ctx s p = Some c" "\<not> cx_is_destroyed c" "(cx_type c = OPENVG) = vg"
    and x: "es_surf s dr = Some x" "\<not> sf_is_destroyed x" and y: "es_surf s rd = Some y" "\<not> sf_is_destroyed y"
  shows "\<exists>ok s'. egl_current_set vg t p dr rd s = Some (ok, s') \<and> egl_inv s' \<and> rest s' = rest s \<and>
    (if ok then cur s' = bind vg t p (cur s) \<and> bound s' = rebind True vg t rd (rebind False vg t dr (bound s))
     else cur s' = cur s \<and> bound s' = bound s)"
proof -
  let ?check = "if cx_is_current c \<and> cx_thread c \<noteq> t then Some (False, set_error t EGL_BAD_ACCESS s)
        else if sf_context_binding_count x \<noteq> 0 \<and> sf_thread x \<noteq> t then Some (False, set_error t EGL_BAD_ACCESS s)
        else if sf_context_binding_count y \<noteq> 0 \<and> sf_thread y \<noteq> t then Some (False, set_error t EGL_BAD_ACCESS s)
        else Option.bind (context_and_surface_are_compatible (es_formats s) c x) (\<lambda>ok.
          if \<not> ok then Some (False, set_error t EGL_BAD_MATCH s)
          else Option.bind (context_and_surface_are_compatible (es_formats s) c y) (\<lambda>ok.
            if \<not> ok then Some (False, set_error t EGL_BAD_MATCH s)
            else map_option (Pair True) (bind_current vg t p dr rd s)))"
  let ?post = "\<lambda>ok s'. egl_inv s' \<and> rest s' = rest s \<and> es_ctx s' p \<noteq> None \<and> es_surf s' dr \<noteq> None \<and>
    (if ok then cur s' = bind vg t p (cur s) \<and> bound s' = rebind True vg t rd (rebind False vg t dr (bound s))
     else cur s' = cur s \<and> bound s' = bound s)"
  note ci = egl_invD(2) [OF assms(1), unfolded ctx_part_def] and si = egl_invD(3) [OF assms(1), unfolded surf_part_def]
  have fail: "?post False (set_error t e s)" for e using assms(1) p(1) x(1) by (simp add: egl_views)
  have "\<exists>ok s'. ?check = Some (ok, s') \<and> ?post ok s'"
  proof (cases "(cx_is_current c \<and> cx_thread c \<noteq> t) \<or> (sf_context_binding_count x \<noteq> 0 \<and> sf_thread x \<noteq> t) \<or>
      (sf_context_binding_count y \<noteq> 0 \<and> sf_thread y \<noteq> t)")
    case True
    then have "?check = Some (False, set_error t EGL_BAD_ACCESS s)" by auto
    with fail show ?thesis by blast
  next
    case False
    have v: "valid_config (cx_configname c)" "valid_config (sf_config x)" "valid_config (sf_config y)"
      using ctx_invD(2) [OF ci p(1)] surf_invD(2) [OF si x(1)] surf_invD(2) [OF si y(1)] by simp_all
    obtain ok1 ok2 where ok: "context_and_surface_are_compatible (es_formats s) c x = Some ok1"
      "context_and_surface_are_compatible (es_formats s) c y = Some ok2"
      using compatible_defined v egl_invD(5) [OF assms(1)] by fastforce
    have check: "?check = (if ok1 \<and> ok2 then map_option (Pair True) (bind_current vg t p dr rd s)
        else Some (False, set_error t EGL_BAD_MATCH s))"
      using False ok by auto
    show ?thesis
    proof (cases "ok1 \<and> ok2")
      case True
      obtain s' where "bind_current vg t p dr rd s = Some s'" "?post True s'"
        using bind_current_spec [OF assms(1,2) p(1,2) _ p(3) x _ y] False by auto
      with True show ?thesis unfolding check by auto
    next
      case False
      with fail show ?thesis unfolding check by auto
    qed
  qed
  then obtain ok s1 where s1: "?check = Some (ok, s1)" "?post ok s1" by blast
  obtain z where z: "es_surf s1 dr = Some z" using s1(2) by auto
  obtain s' where s': "egl_context_set_callbacks p (sf_type z = PIXMAP) s1 = Some s'" "egl_inv s'" "cur s' = cur s1"
    "bound s' = bound s1" "rest s' = rest s1"
    using set_callbacks_spec [of s1 p "sf_type z = PIXMAP"] s1(2) by blast
  have "egl_current_set vg t p dr rd s = Some (ok, s')"
    unfolding egl_current_set_def p(1) x(1) y(1) Option.bind.simps s1(1) by (simp add: z s'(1))
  then show ?thesis using s' s1(2) by auto
qed


text \<open>
  The outcome of \<open>eglMakeCurrent\<close>: when it fails every binding is what it was; else the thread has bound
  what the client names, for the API of the context, or nothing for the API the thread has chosen.
\<close>

definition made_current :: "nat \<Rightarrow> u32 \<Rightarrow> u32 \<Rightarrow> u32 \<Rightarrow> egl_state \<Rightarrow> bool \<Rightarrow> egl_state \<Rightarrow> bool" where
  "made_current t dr rd ctx s ok s' \<longleftrightarrow>
     (if \<not> ok then cur s' = cur s \<and> bound s' = bound s
      else if ctx = 0 then cur s' = unbind (bound_vg t s) t (cur s) \<and>
        bound s' = rebind True (bound_vg t s) t 0 (rebind False (bound_vg t s) t 0 (bound s))
      else \<exists>p c x y. ctx_map s ctx = Some p \<and> es_ctx s p = Some c \<and> surf_map s dr = Some x \<and> surf_map s rd = Some y \<and>
        cur s' = bind (cx_type c = OPENVG) t p (cur s) \<and>
        bound s' = rebind True (cx_type c = OPENVG) t y (rebind False (cx_type c = OPENVG) t x (bound s)))"

lemma made_current_fail: "made_current t dr rd ctx s False (set_error t e s)"
  by (simp add: made_current_def egl_views)

lemma make_current_bind:
  assumes "egl_inv s" "es_inited s" "t < MAX_THREADS"
    and p: "ctx_map s ctx = Some p" "es_ctx s p = Some c" "\<not> cx_is_destroyed c" "ctx \<noteq> 0"
    and x: "surf_map s dr = Some q" "es_surf s q = Some x" "\<not> sf_is_destroyed x"
    and y: "surf_map s rd = Some r" "es_surf s r = Some y" "\<not> sf_is_destroyed y"
  shows "\<exists>ok s'. (if cx_type c = OPENVG \<and> dr \<noteq> rd then Some (False, set_error t EGL_BAD_MATCH s)
      else Option.bind (egl_current_set (cx_type c = OPENVG) t p q r s) (\<lambda>(ok, s).
        if \<not> ok then Some (False, s)
        else Option.bind (client_send_make_current t s) (\<lambda>s. Some (True, set_error t EGL_SUCCESS s)))) = Some (ok, s') \<and>
    egl_inv s' \<and> made_current t dr rd ctx s ok s'"
proof (cases "cx_type c = OPENVG \<and> dr \<noteq> rd")
  case True
  then show ?thesis using assms(1) made_current_fail by (auto simp: egl_views)
next
  case False
  obtain ok s1 where s1: "egl_current_set (cx_type c = OPENVG) t p q r s = Some (ok, s1)" "egl_inv s1"
    "if ok then cur s1 = bind (cx_type c = OPENVG) t p (cur s) \<and>
       bound s1 = rebind True (cx_type c = OPENVG) t r (rebind False (cx_type c = OPENVG) t q (bound s))
     else cur s1 = cur s \<and> bound s1 = bound s"
    using egl_current_set_spec [OF assms(1,3) p(2,3) refl x(2,3) y(2,3)] by blast
  obtain m where m: "client_send_make_current t s1 = Some (log_call m s1)" using send_make_current_spec [OF s1(2)] by blast
  show ?thesis
  proof (cases ok)
    case True
    have "made_current t dr rd ctx s True (set_error t EGL_SUCCESS (log_call m s1))"
      unfolding made_current_def using p(1,2,4) x(1) y(1) s1(3) True by (auto simp: egl_views)
    then show ?thesis using False s1 m True by (auto simp: egl_views)
  next
    case nok: False
    then have "made_current t dr rd ctx s False s1" using s1(3) by (simp add: made_current_def)
    then show ?thesis using False s1 nok by auto
  qed
qed

lemma get_surface_after_error:
  assumes "egl_inv s" "es_inited s"
  shows "\<exists>r s'. client_egl_get_surface t k (set_error t e s) = Some (r, s') \<and> egl_inv s' \<and> cur s' = cur s \<and> bound s' = bound s"
proof -
  have i: "egl_inv (set_error t e s)" "es_inited (set_error t e s)" using assms by (simp add: egl_views) (simp add: set_error_def assms)
  show ?thesis
  proof (cases rule: get_surface_spec [OF i, of t k])
    case (1 e')
    then show ?thesis using assms(1) by (simp add: egl_views)
  next
    case (2 p x)
    then show ?thesis using assms(1) by (simp add: egl_views)
  qed
qed

lemma make_current_spec:
  assumes "egl_inv s" "t < MAX_THREADS"
  shows "\<exists>ok s'. eglMakeCurrent mem t dpy dr rd ctx s = Some (ok, s') \<and> egl_inv s' \<and> made_current t dr rd ctx s ok s'"
proof -
  have fail: "\<exists>ok s'. Some (False, set_error t e s) = Some (ok, s') \<and> egl_inv s' \<and> made_current t dr rd ctx s ok s'" for e
    using assms(1) made_current_fail by (auto simp: egl_views)
  consider (release) "dr = 0 \<and> rd = 0 \<and> ctx = 0" | (mixed) "dr = 0 \<or> rd = 0 \<or> ctx = 0" "\<not> (dr = 0 \<and> rd = 0 \<and> ctx = 0)"
    | (bind) "dr \<noteq> 0" "rd \<noteq> 0" "ctx \<noteq> 0" by blast
  then show ?thesis
  proof cases
    case release
    obtain x where x: "flush_current_api mem t s = Some (log_call x s)" using flush_spec [OF assms(1)] by blast
    have v: "bound_vg t (log_call x s) = bound_vg t s" by (simp add: bound_vg_def log_call_def)
    have inv: "egl_inv (log_call x s)" using assms(1) by (simp add: egl_views)
    obtain s1 where s1: "egl_current_release (bound_vg t s) t (log_call x s) = Some s1" "egl_inv s1"
      "cur s1 = unbind (bound_vg t s) t (cur (log_call x s))"
      "bound s1 = rebind True (bound_vg t s) t 0 (rebind False (bound_vg t s) t 0 (bound (log_call x s)))"
      using egl_current_release_spec [OF inv] by blast
    obtain m where m: "client_send_make_current t s1 = Some (log_call m s1)" using send_make_current_spec [OF s1(2)] by blast
    let ?s = "set_error t EGL_SUCCESS (client_try_unload_server (log_call m s1))"
    have "made_current t dr rd ctx s True ?s"
      using s1(3,4) release by (simp add: made_current_def client_try_unload_server_def egl_views)
    moreover have "egl_inv ?s" using s1(2) by (simp add: egl_views)
    ultimately show ?thesis using release x s1(1) m v fail
      by (auto simp: eglMakeCurrent_def with_display_def split: option.splits)
  next
    case mixed
    then show ?thesis using fail by (auto simp: eglMakeCurrent_def)
  next
    case bind
    show ?thesis
    proof (cases "client_egl_get_process_state dpy True (es_inited s)")
      case (Some e)
      then show ?thesis using bind fail by (simp add: eglMakeCurrent_def with_display_def)
    next
      case None
      then have i: "es_inited s" by (auto simp: client_egl_get_process_state_def split: if_splits)
      show ?thesis
      proof (cases rule: get_context_spec [OF assms(1) i, of t ctx])
        case none: 1
        then show ?thesis using bind None fail by (simp add: eglMakeCurrent_def with_display_def)
      next
        case c: (2 p c)
        show ?thesis
        proof (cases rule: get_surface_spec [OF assms(1) i, of t dr])
          case (1 e)
          obtain r s' where s': "client_egl_get_surface t rd (set_error t e s) = Some (r, s')" "egl_inv s'"
            "made_current t dr rd ctx s False s'"
            using get_surface_after_error [OF assms(1) i] by (fastforce simp: made_current_def)
          then show ?thesis using bind None c(1,3) 1 by (auto simp: eglMakeCurrent_def with_display_def intro: exI [of _ False])
        next
          case x: (2 q x)
          show ?thesis
          proof (cases rule: get_surface_spec [OF assms(1) i, of t rd])
            case (1 e)
            then show ?thesis using bind None c x fail by (simp add: eglMakeCurrent_def with_display_def)
          next
            case y: (2 r y)
            show ?thesis using make_current_bind [OF assms(1) i assms(2) c(2,3,5) bind(3) x(2,3,5) y(2,3,5)]
              using bind None c(1,3) x(1) y(1) by (simp add: eglMakeCurrent_def with_display_def)
          qed
        qed
      qed
    qed
  qed
qed

end
