(* ===== verification/Egl_Calls.thy ===== *)
theory Egl_Calls
  imports Egl_Current
begin

text \<open>
  Creating and destroying contexts and surfaces, initialisation and termination (Egl_Client): each call
  returns on a valid state and leaves one. The calls assume what the platform promises (a new object is at
  a free address) and what the client must do (attribute lists end, pixmaps have a format).
\<close>

section \<open>Contexts\<close>

lemma name_below_next: "k < n \<or> k = n \<Longrightarrow> n \<noteq> - 1 \<Longrightarrow> k < (n + 1 :: u32)"
proof -
  assume k: "k < n \<or> k = n" and n: "n \<noteq> - 1"
  have "n + 1 \<noteq> 0" using n by (metis add_eq_0_iff2 eq_neg_iff_add_eq_0)
  then have "unat (n + 1) = unat n + 1" by (metis Suc_eq_plus1 add.commute unatSuc)
  then show ?thesis using k by (auto simp: word_less_nat_alt)
qed

text \<open>What the operations on contexts leave alone, and those on surfaces.\<close>

definition ctx_frame :: "egl_state \<Rightarrow> egl_state \<Rightarrow> bool" where
  "ctx_frame s s' \<longleftrightarrow> es_formats s' = es_formats s \<and> es_inited s' = es_inited s \<and> es_surfaces s' = es_surfaces s \<and>
     es_next_surface s' = es_next_surface s \<and> es_surf s' = es_surf s \<and> cur s' = cur s \<and> bound s' = bound s \<and>
     es_context_current_count s' = es_context_current_count s"

definition surf_frame :: "egl_state \<Rightarrow> egl_state \<Rightarrow> bool" where
  "surf_frame s s' \<longleftrightarrow> es_formats s' = es_formats s \<and> es_inited s' = es_inited s \<and> es_contexts s' = es_contexts s \<and>
     es_next_context s' = es_next_context s \<and> es_ctx s' = es_ctx s \<and> cur s' = cur s \<and> bound s' = bound s \<and>
     es_context_current_count s' = es_context_current_count s"

lemma field_views [egl_views]:
  "es_formats (set_error t e s) = es_formats s" "es_formats (log_call x s) = es_formats s"
  "es_inited (set_error t e s) = es_inited s" "es_inited (log_call x s) = es_inited s"
  "es_contexts (set_error t e s) = es_contexts s" "es_contexts (log_call x s) = es_contexts s"
  "es_surfaces (set_error t e s) = es_surfaces s" "es_surfaces (log_call x s) = es_surfaces s"
  "es_next_context (set_error t e s) = es_next_context s" "es_next_context (log_call x s) = es_next_context s"
  "es_next_surface (set_error t e s) = es_next_surface s" "es_next_surface (log_call x s) = es_next_surface s"
  by (simp_all add: set_error_def log_call_def)

lemma inv_ctxI:
  assumes "egl_inv s" "es_inited s" "ctx_frame s s'" "gmap_good r (es_contexts s')"
    and "ctx_inv (gmap_map (es_contexts s')) (es_ctx s') (cur s) (es_context_current_count s)"
    and "\<And>k. gmap_map (es_contexts s') k \<noteq> None \<Longrightarrow> k < es_next_context s'"
  shows "egl_inv s'"
  using assms unfolding egl_inv_def maps_part_def ctx_part_def surf_part_def ctx_map_def surf_map_def ctx_frame_def by auto

lemma inv_surfI:
  assumes "egl_inv s" "es_inited s" "surf_frame s s'" "gmap_good r (es_surfaces s')"
    and "surf_inv (gmap_map (es_surfaces s')) (es_surf s') (bound s)"
    and "\<And>k. gmap_map (es_surfaces s') k \<noteq> None \<Longrightarrow> k < es_next_surface s'"
  shows "egl_inv s'"
  using assms unfolding egl_inv_def maps_part_def ctx_part_def surf_part_def ctx_map_def surf_map_def surf_frame_def by auto

lemma insert_available:
  assumes "gmap_good r m" "\<forall>n. alloc n \<noteq> None"
  shows "\<exists>m'. khrn_map_insert alloc m k v = Some (True, m') \<and> gmap_good r m' \<and> gmap_map m' = (gmap_map m)(k \<mapsto> v)"
proof -
  obtain b m' where m': "khrn_map_insert alloc m k v = Some (b, m')" "gmap_good r m'"
    "gmap_map m' = (if b then (gmap_map m)(k \<mapsto> v) else gmap_map m)"
    using insert_law [OF assms(1)] by blast
  moreover have b
    using insert_depth_spec [of m 0 alloc k v] assms m'(1) by (auto simp: gmap_good_def khrn_map_insert_def numeral_2_eq_2)
  ultimately show ?thesis by auto
qed

lemma context_create_cases:
  obtains (fails) x where "egl_context_create env share name dpy config ty s \<in> {(None, s), (None, log_call x s)}"
  | (creates) p raw c s0 x where "ce_memory env = Some (p, raw)" "s0 \<in> {s, log_call x s}"
      "egl_context_create env share name dpy config ty s = (Some p, s0\<lparr>es_ctx := (es_ctx s)(p \<mapsto> c)\<rparr>)"
      "cx_name c = name" "cx_configname c = config" "\<not> cx_is_current c" "\<not> cx_is_destroyed c"
proof (cases "ce_memory env")
  case None
  then show thesis using fails by (simp add: egl_context_create_def)
next
  case (Some m)
  obtain p raw where m: "m = (p, raw)" by (cases m)
  let ?r = "egl_context_create env share name dpy config ty s"
  let ?x = "case share of None \<Rightarrow> CallCreateContext ty 0 ty | Some sh \<Rightarrow> CallCreateContext ty (cx_servercontext sh) (cx_type sh)"
  show thesis
  proof (cases "fst ?r")
    case None
    then have "?r \<in> {(None, s), (None, log_call ?x s)}"
      using Some m by (cases share) (auto simp: egl_context_create_def Let_def split: context_type.splits if_splits)
    then show thesis by (rule fails)
  next
    case (Some q)
    let ?c = "raw\<lparr>cx_name := name, cx_display := dpy, cx_configname := config, cx_type := ty,
              cx_renderbuffer := EGL_NONE, cx_is_current := False, cx_is_destroyed := False\<rparr>"
    have "\<exists>s0 c. ?r = (Some p, s0\<lparr>es_ctx := (es_ctx s)(p \<mapsto> c)\<rparr>) \<and> s0 \<in> {s, log_call ?x s} \<and>
        cx_name c = name \<and> cx_configname c = config \<and> \<not> cx_is_current c \<and> \<not> cx_is_destroyed c"
    proof (cases "ty = OPENVG")
      case True
      have "?r = (Some p, (log_call ?x s)\<lparr>es_ctx := (es_ctx s)(p \<mapsto> ?c\<lparr>cx_servercontext := ce_server env, cx_callbacks := False\<rparr>)\<rparr>)"
        using Some \<open>ce_memory env = Some m\<close> m True
        by (cases share) (simp_all add: egl_context_create_def Let_def egl_views split: if_splits)
      then show ?thesis by (intro exI conjI) (assumption, simp_all)
    next
      case False
      have "?r = (Some p, (if ce_init env then log_call ?x s else s)\<lparr>es_ctx := (es_ctx s)(p \<mapsto> (if ce_init env then ?c\<lparr>cx_servercontext := ce_server env\<rparr> else ?c))\<rparr>)"
        using Some \<open>ce_memory env = Some m\<close> m False
        by (cases ty; cases share) (simp_all add: egl_context_create_def Let_def egl_views split: if_splits)
      then show ?thesis by (intro exI conjI) (assumption, simp_all)
    qed
    then show thesis using creates \<open>ce_memory env = Some m\<close> m by blast
  qed
qed

text \<open>The memory of a new object is free, and the storage of the map can grow.\<close>

definition context_env_ok :: "context_env \<Rightarrow> egl_state \<Rightarrow> bool" where
  "context_env_ok env s \<longleftrightarrow> (case ce_memory env of None \<Rightarrow> True | Some (p, _) \<Rightarrow> p \<noteq> 0 \<and> es_ctx s p = None)"

lemma insert_context_fine:
  assumes "egl_inv s" "es_inited s" "context_env_ok env s" "valid_config config"
    "\<forall>n. alloc n \<noteq> None" "es_next_context s \<noteq> - 1"
  shows "fine (insert_context env alloc t dpy config ty share s)"
proof (cases rule: context_create_cases [of env share "es_next_context s" dpy config ty s])
  case (fails x)
  then show ?thesis using assms(1) by (auto simp: insert_context_def egl_views)
next
  case (creates p raw c s0 x)
  have p: "p \<noteq> 0" "es_ctx s p = None" using assms(3) creates(1) by (simp_all add: context_env_ok_def)
  obtain r where r: "gmap_good r (es_contexts s)" using assms(1,2) by (auto simp: egl_inv_def maps_part_def)
  let ?n = "es_next_context s"
  obtain m' where m': "khrn_map_insert alloc (es_contexts s) ?n p = Some (True, m')" "gmap_good r m'"
    "gmap_map m' = (gmap_map (es_contexts s))(?n \<mapsto> p)"
    using insert_available [OF r assms(5)] by blast
  have below: "k < ?n" if "gmap_map (es_contexts s) k \<noteq> None" for k
    using assms(1,2) that by (auto simp: egl_inv_def maps_part_def ctx_map_def)
  have ci: "ctx_inv (gmap_map (es_contexts s)) (es_ctx s) (cur s) (es_context_current_count s)"
    using assms(1,2) by (simp add: egl_inv_def ctx_part_def ctx_map_def)
  have "gmap_map (es_contexts s) ?n = None" by (rule ccontr) (use below [of ?n] in simp)
  then have ci': "ctx_inv (gmap_map m') ((es_ctx s)(p \<mapsto> c)) (cur s) (es_context_current_count s)"
    using ctx_create [OF ci p(2,1), of c] creates(4-7) assms(4) m'(3) by simp
  let ?s = "set_error t EGL_SUCCESS (s0\<lparr>es_ctx := (es_ctx s)(p \<mapsto> c), es_contexts := m', es_next_context := ?n + 1\<rparr>)"
  have "k < ?n + 1" if "gmap_map m' k \<noteq> None" for k
    using that m'(3) below by (intro name_below_next [OF _ assms(6)]) (auto split: if_splits)
  then have "egl_inv ?s"
    by (intro inv_ctxI [OF assms(1,2), of _ r]) (use creates(2) m'(2) ci' in \<open>auto simp: ctx_frame_def egl_views\<close>)
  moreover have "insert_context env alloc t dpy config ty share s = Some (?n, ?s)"
    using creates(2,3) m'(1) by (auto simp: insert_context_def log_call_def)
  ultimately show ?thesis by simp
qed


text \<open>Attribute lists end with \<open>EGL_NONE\<close> where a name is read.\<close>

fun terminated :: "u32 list \<Rightarrow> bool" where
  "terminated [] = False"
| "terminated [name] = (name = EGL_NONE)"
| "terminated (name # v # others) = (name = EGL_NONE \<or> terminated others)"

definition attribs_ok :: "u32 list option \<Rightarrow> bool" where
  "attribs_ok attrib_list = (case attrib_list of None \<Rightarrow> True | Some xs \<Rightarrow> terminated xs)"

lemma context_attribs_defined:
  assumes "attribs_ok attrib_list"
  obtains ok version where "egl_context_check_attribs attrib_list n m = Some (ok, version)"
proof -
  have "terminated xs \<Longrightarrow> context_attribs_loop n xs v \<noteq> None" for xs v
    by (induction n xs v rule: context_attribs_loop.induct) auto
  then have "egl_context_check_attribs attrib_list n m \<noteq> None"
    using assms by (cases attrib_list) (simp_all add: attribs_ok_def egl_context_check_attribs_def)
  then show thesis using that by auto
qed

lemma surface_attribs_defined:
  assumes "attribs_ok attrib_list"
  obtains r where "egl_surface_check_attribs ty attrib_list = Some r"
proof -
  have "terminated xs \<Longrightarrow> surface_attribs_loop ty xs a \<noteq> None" for xs a
    by (induction ty xs a rule: surface_attribs_loop.induct) (auto split: option.splits)
  then have "egl_surface_check_attribs ty attrib_list \<noteq> None"
    using assms by (cases attrib_list) (simp_all add: attribs_ok_def egl_surface_check_attribs_def)
  then show thesis using that by auto
qed

lemma create_context_fine:
  assumes "egl_inv s" "context_env_ok env s" "\<forall>n. alloc n \<noteq> None" "es_next_context s \<noteq> - 1" "attribs_ok attrib_list"
  shows "fine (eglCreateContext env alloc t dpy config share_ctx attrib_list s)"
  unfolding eglCreateContext_def
proof (rule with_display_fine [OF assms(1)])
  assume i: "True \<longrightarrow> es_inited s"
  then have i: "es_inited s" by simp
  obtain ok version where a: "egl_context_check_attribs attrib_list (if bound_gl t s then 2 else 1) 1 = Some (ok, version)"
    by (rule context_attribs_defined [OF assms(5)])
  let ?ty = "context_type_of (bound_vg t s) version"
  have fail: "fine (Some (0 :: u32, set_error t e s))" for e using assms(1) by (simp add: egl_views)
  have share: "fine (Option.bind (client_egl_get_context t share_ctx s) (\<lambda>(r, s). case r of
      None \<Rightarrow> Some (0, set_error t EGL_BAD_CONTEXT s)
    | Some p \<Rightarrow> Option.bind (es_ctx s p) (\<lambda>c.
        if (cx_type c = OPENVG) \<noteq> bound_vg t s then Some (0, set_error t EGL_BAD_MATCH s)
        else insert_context env alloc t dpy config ?ty (Some c) s)))" if "valid_config config"
  proof (cases rule: get_context_spec [OF assms(1) i, of t share_ctx])
    case 1
    then show ?thesis using assms(1) by (simp add: egl_views)
  next
    case (2 p c)
    then show ?thesis using assms(1) insert_context_fine [OF assms(1) i assms(2) that assms(3,4)] by (simp add: egl_views)
  qed
  show "fine (if \<not> valid_config config then Some (0, set_error t EGL_BAD_CONFIG s)
     else Option.bind (egl_context_check_attribs attrib_list (if bound_gl t s then 2 else 1) 1) (\<lambda>(ok, version).
       if \<not> ok then Some (0, set_error t EGL_BAD_ATTRIBUTE s)
       else Option.bind (egl_config_get_api_support (es_formats s) (nat (egl_config_to_id config))) (\<lambda>support.
         if support AND (if bound_vg t s then EGL_OPENVG_BIT else if version = 1 then EGL_OPENGL_ES_BIT else EGL_OPENGL_ES2_BIT) = 0
         then Some (0, set_error t EGL_BAD_CONFIG s)
         else let ty = context_type_of (bound_vg t s) version
           in if share_ctx = 0 then insert_context env alloc t dpy config ty None s
           else Option.bind (client_egl_get_context t share_ctx s) (\<lambda>(r, s). case r of
             None \<Rightarrow> Some (0, set_error t EGL_BAD_CONTEXT s)
           | Some p \<Rightarrow> Option.bind (es_ctx s p) (\<lambda>c.
               if (cx_type c = OPENVG) \<noteq> bound_vg t s then Some (0, set_error t EGL_BAD_MATCH s)
               else insert_context env alloc t dpy config ty (Some c) s)))))"
  proof (cases "valid_config config")
    case True
    obtain n where "egl_config_get_api_support (es_formats s) (nat (egl_config_to_id config)) = Some n"
      using installed_support [OF install_rso valid_config_index(1) [OF True]] egl_invD(5) [OF assms(1)] by metis
    then show ?thesis using True a fail share [OF True] insert_context_fine [OF assms(1) i assms(2) True assms(3,4)]
      by (simp add: Let_def)
  qed (use fail in simp)
qed

lemma destroy_context_fine:
  assumes "egl_inv s"
  shows "fine (eglDestroyContext t dpy ctx s)"
  unfolding eglDestroyContext_def
proof (rule with_display_fine [OF assms])
  assume "True \<longrightarrow> es_inited s"
  let ?s = "set_error t EGL_SUCCESS s"
  have s: "egl_inv ?s" "es_inited ?s" using assms \<open>True \<longrightarrow> es_inited s\<close> by (simp_all add: egl_views)
  show "fine (Option.bind (client_egl_get_context t ctx ?s) (\<lambda>(r, s). case r of
       None \<Rightarrow> Some (False, s)
     | Some p \<Rightarrow> Option.bind (upd_ctx p (\<lambda>c. c\<lparr>cx_is_destroyed := True\<rparr>) s) (\<lambda>s.
         Option.bind (khrn_map_delete (es_contexts s) ctx) (\<lambda>(_, contexts).
           map_option (Pair True) (egl_context_maybe_free p (s\<lparr>es_contexts := contexts\<rparr>))))))"
  proof (cases rule: get_context_spec [OF s, of t ctx])
    case 1
    then show ?thesis using assms by (simp add: egl_views)
  next
    case (2 p c)
    obtain r where r: "gmap_good r (es_contexts ?s)" using s by (auto simp: egl_inv_def maps_part_def)
    obtain m' where m': "khrn_map_delete (es_contexts ?s) ctx = Some (gmap_map (es_contexts ?s) ctx \<noteq> None, m')" "gmap_good r m'"
      "gmap_map m' = (gmap_map (es_contexts ?s))(ctx := None)"
      using kmap.del_law [OF r] by blast
    have ci: "ctx_inv (gmap_map (es_contexts ?s)) (es_ctx ?s) (cur ?s) (es_context_current_count ?s)"
      using s by (simp add: egl_inv_def ctx_part_def ctx_map_def)
    have "gmap_map (es_contexts ?s) ctx = Some p" using 2(2) s(2) by (simp add: ctx_map_def)
    note ci' = ctx_destroy [OF ci this 2(3)]
    have below: "k < es_next_context ?s" if "gmap_map m' k \<noteq> None" for k
      using s that m'(3) by (auto simp: egl_inv_def maps_part_def ctx_map_def split: if_splits)
    let ?h = "(es_ctx ?s)(p := if cx_is_current c then Some (c\<lparr>cx_is_destroyed := True\<rparr>) else None)"
    have "\<exists>s'. egl_context_maybe_free p (?s\<lparr>es_ctx := (es_ctx ?s)(p \<mapsto> c\<lparr>cx_is_destroyed := True\<rparr>), es_contexts := m'\<rparr>) = Some s' \<and>
        ctx_frame ?s s' \<and> es_ctx s' = ?h \<and> es_contexts s' = m' \<and> es_next_context s' = es_next_context ?s"
      by (cases "cx_is_current c")
        (simp_all add: egl_context_maybe_free_def egl_context_term_def free_context_def ctx_frame_def egl_views)
    then obtain s' where s': "egl_context_maybe_free p (?s\<lparr>es_ctx := (es_ctx ?s)(p \<mapsto> c\<lparr>cx_is_destroyed := True\<rparr>), es_contexts := m'\<rparr>) = Some s'"
      "ctx_frame ?s s'" "es_ctx s' = ?h" "es_contexts s' = m'" "es_next_context s' = es_next_context ?s" by blast
    have "egl_inv s'"
      by (rule inv_ctxI [OF s s'(2), of r]) (use s'(3-5) m'(2,3) ci' below in auto)
    then show ?thesis using 2(1,3) m'(1) s'(1) by (simp add: upd_ctx_def)
  qed
qed

end
