(* ===== verification/Egl_Surfaces.thy ===== *)
theory Egl_Surfaces
  imports Egl_Calls
begin

text \<open>
  Creating, changing and destroying surfaces (Egl_Client): each call returns on a valid state and leaves
  one, whether or not the storage of the map can grow.
\<close>

section \<open>Creation\<close>

definition free_surface_memory :: "(ptr \<times> egl_surface) option \<Rightarrow> egl_state \<Rightarrow> bool" where
  "free_surface_memory memory s \<longleftrightarrow> (case memory of None \<Rightarrow> True | Some (p, _) \<Rightarrow> p \<noteq> 0 \<and> es_surf s p = None)"

text \<open>What is created: bound nowhere, under the name it was given.\<close>

definition fresh_surface :: "u32 \<Rightarrow> u32 \<Rightarrow> egl_surface \<Rightarrow> bool" where
  "fresh_surface name config x \<longleftrightarrow> sf_name x = name \<and> sf_config x = config \<and> \<not> sf_is_destroyed x \<and>
     sf_context_binding_count x = 0 \<and> \<not> sf_server_owned x"

lemma config_buffers_defined:
  assumes "valid_config config"
  shows "config_buffers formats config \<noteq> None"
proof -
  have "list_all (\<lambda>f. f \<noteq> IMAGE_FORMAT_INVALID) (map cf_color formats)"
    by (simp add: formats_def config_row_def image_values image_bits)
  then have "cf_color (formats ! i) \<noteq> IMAGE_FORMAT_INVALID" if "i < EGL_MAX_CONFIGS" for i
    using that by (simp add: list.pred_map list_all_length length_formats)
  then show ?thesis using valid_config_index(1) [OF assms] by (simp add: config_buffers_def config_at_def Let_def)
qed

lemma insert_surface_fine:
  assumes "egl_inv s" "es_inited s" "es_next_surface s \<noteq> - 1" "p \<noteq> 0" "es_surf s p = None"
    and s1: "surf_frame s s1" "es_surf s1 = (es_surf s)(p \<mapsto> x)" "es_surfaces s1 = es_surfaces s" "es_next_surface s1 = es_next_surface s"
    and x: "fresh_surface (es_next_surface s) config x" "valid_config config"
  shows "fine (insert_surface alloc t p s1)"
proof -
  obtain r where r: "gmap_good r (es_surfaces s)" using assms(1,2) by (auto simp: egl_inv_def maps_part_def)
  let ?n = "es_next_surface s"
  obtain b m' where m': "khrn_map_insert alloc (es_surfaces s) ?n p = Some (b, m')" "gmap_good r m'"
    "gmap_map m' = (if b then (gmap_map (es_surfaces s))(?n \<mapsto> p) else gmap_map (es_surfaces s))"
    using insert_law [OF r] by blast
  have below: "k < ?n" if "gmap_map (es_surfaces s) k \<noteq> None" for k
    using assms(1,2) that by (auto simp: egl_inv_def maps_part_def surf_map_def)
  have si: "surf_inv (gmap_map (es_surfaces s)) (es_surf s) (bound s)"
    using assms(1,2) by (simp add: egl_inv_def surf_part_def surf_map_def)
  show ?thesis
  proof (cases b)
    case True
    have "gmap_map (es_surfaces s) ?n = None" by (rule ccontr) (use below [of ?n] in simp)
    then have si': "surf_inv (gmap_map m') ((es_surf s)(p \<mapsto> x)) (bound s)"
      using surf_create [OF si assms(5,4), of x] x m'(3) True by (simp add: fresh_surface_def)
    let ?s = "set_error t EGL_SUCCESS (s1\<lparr>es_surfaces := m', es_next_surface := ?n + 1\<rparr>)"
    have "k < ?n + 1" if "gmap_map m' k \<noteq> None" for k
      using that m'(3) below True by (intro name_below_next [OF _ assms(3)]) (auto split: if_splits)
    then have "egl_inv ?s"
      by (intro inv_surfI [OF assms(1,2), of _ r]) (use s1 m'(2) si' in \<open>auto simp: surf_frame_def egl_views\<close>)
    then show ?thesis using s1(3,4) m'(1) True by (simp add: insert_surface_def)
  next
    case False
    let ?s = "log_call (CallDestroySurface (sf_serverbuffer x))
      ((set_error t EGL_BAD_ALLOC (s1\<lparr>es_surfaces := m'\<rparr>))\<lparr>es_surf := (es_surf s1)(p := None)\<rparr>)"
    have "es_surf ?s = es_surf s" using s1(2) assms(5) by (simp add: egl_views fun_upd_idem)
    then have "egl_inv ?s"
      by (intro inv_surfI [OF assms(1,2), of _ r])
        (use s1 m'(2,3) si below False in \<open>auto simp: surf_frame_def egl_views\<close>)
    then show ?thesis using s1(2-4) m'(1) False by (simp add: insert_surface_def egl_surface_free_def egl_views)
  qed
qed

lemma surface_create_cases:
  assumes "es_formats s = formats" "valid_config (sr_config r)" "sr_pixmap_server_handle r \<noteq> None \<longrightarrow> sr_type r = PIXMAP"
    and "(sr_width r \<le> EGL_CONFIG_MAX_WIDTH \<and> sr_height r \<le> EGL_CONFIG_MAX_HEIGHT) \<or> sr_largest_pbuffer r"
  shows "(\<exists>s'. egl_surface_create env name r s = Some (None, s') \<and> (s' = s \<or> (\<exists>c. s' = log_call c s))) \<or>
    (\<exists>p raw x s0. se_memory env = Some (p, raw) \<and> egl_surface_create env name r s = Some (Some p, s0\<lparr>es_surf := (es_surf s)(p \<mapsto> x)\<rparr>) \<and>
      (s0 = s \<or> (\<exists>c. s0 = log_call c s)) \<and> fresh_surface name (sr_config r) x)"
proof (cases "se_memory env")
  case None
  then show ?thesis using assms(4) by (simp add: egl_surface_create_def)
next
  case (Some m)
  obtain p raw where m: "m = (p, raw)" by (cases m)
  obtain color depth msk multi db sb where b: "config_buffers (es_formats s) (sr_config r) = Some (color, depth, msk, multi, db, sb)"
    using config_buffers_defined [OF assms(2)] assms(1) by (metis not_None_eq prod_cases6)
  have fresh: "fresh_surface name (sr_config r) (new_surface raw name r\<lparr>sf_serverbuffer := n\<rparr>)"
    "fresh_surface name (sr_config r) (new_surface raw name r\<lparr>sf_width := w, sf_height := h, sf_serverbuffer := n\<rparr>)" for n w h
    by (simp_all add: fresh_surface_def new_surface_def)
  have store: "(\<exists>s'. store_surface p x (log_call c s) = (None, s') \<and> (s' = s \<or> (\<exists>c. s' = log_call c s))) \<or>
      (\<exists>s0. store_surface p x (log_call c s) = (Some p, s0\<lparr>es_surf := (es_surf s)(p \<mapsto> x)\<rparr>) \<and> (s0 = s \<or> (\<exists>c. s0 = log_call c s)))" for x c
    by (auto simp: store_surface_def egl_views)
  show ?thesis
  proof (cases "sr_pixmap_server_handle r")
    case None
    then show ?thesis using Some m b assms(4) fresh(2) store by (simp add: egl_surface_create_def Let_def) blast
  next
    case (Some h)
    obtain h0 h1 where "h = (h0, h1)" by (cases h)
    with Some show ?thesis using \<open>se_memory env = Some m\<close> m b assms(3,4) fresh(1) store
      by (simp add: egl_surface_create_def Let_def) blast
  qed
qed

lemma create_surface_fine:
  assumes "egl_inv s" "es_inited s" "es_next_surface s \<noteq> - 1" "free_surface_memory (se_memory env) s"
    and r: "valid_config (sr_config r)" "sr_pixmap_server_handle r \<noteq> None \<longrightarrow> sr_type r = PIXMAP"
      "(sr_width r \<le> EGL_CONFIG_MAX_WIDTH \<and> sr_height r \<le> EGL_CONFIG_MAX_HEIGHT) \<or> sr_largest_pbuffer r"
  shows "fine (create_surface env alloc t r s)"
proof -
  consider (none) s' where "egl_surface_create env (es_next_surface s) r s = Some (None, s')" "s' = s \<or> (\<exists>c. s' = log_call c s)"
  | (some) p raw x s0 where "se_memory env = Some (p, raw)"
      "egl_surface_create env (es_next_surface s) r s = Some (Some p, s0\<lparr>es_surf := (es_surf s)(p \<mapsto> x)\<rparr>)"
      "s0 = s \<or> (\<exists>c. s0 = log_call c s)" "fresh_surface (es_next_surface s) (sr_config r) x"
    using surface_create_cases [OF egl_invD(5) [OF assms(1)] r, of env "es_next_surface s"] by blast
  then show ?thesis
  proof cases
    case none
    then show ?thesis using assms(1) by (auto simp: create_surface_def egl_views)
  next
    case some
    let ?s = "s0\<lparr>es_surf := (es_surf s)(p \<mapsto> x)\<rparr>"
    have "p \<noteq> 0" "es_surf s p = None" using assms(4) some(1) by (simp_all add: free_surface_memory_def)
    moreover have "surf_frame s ?s" "es_surf ?s = (es_surf s)(p \<mapsto> x)" "es_surfaces ?s = es_surfaces s" "es_next_surface ?s = es_next_surface s"
      using some(3) by (auto simp: surf_frame_def egl_views)
    ultimately have "fine (insert_surface alloc t p ?s)" using insert_surface_fine [OF assms(1-3)] some(4) r(1) by blast
    then show ?thesis using some(2) by (simp add: create_surface_def)
  qed
qed

text \<open>The entry points. The sizes of a pixel buffer are not negative once its attributes are checked.\<close>

lemma surface_attribs_sizes:
  assumes "egl_surface_check_attribs ty attrib_list = Some (Some a)"
  shows "0 \<le> sint (sa_width a) \<and> 0 \<le> sint (sa_height a)"
proof -
  have step: "surface_attrib ty name v b = Some b' \<Longrightarrow> 0 \<le> sint (sa_width b) \<and> 0 \<le> sint (sa_height b) \<Longrightarrow>
      0 \<le> sint (sa_width b') \<and> 0 \<le> sint (sa_height b')" for ty name v b b'
    unfolding surface_attrib_def by (simp split: if_splits) (auto split: if_splits)
  have "surface_attribs_loop ty xs b = Some (Some a) \<Longrightarrow> 0 \<le> sint (sa_width b) \<and> 0 \<le> sint (sa_height b) \<Longrightarrow>
      0 \<le> sint (sa_width a) \<and> 0 \<le> sint (sa_height a)" for xs b
    by (induction ty xs b rule: surface_attribs_loop.induct) (auto split: if_splits option.splits dest: step)
  then show ?thesis using assms
    by (cases attrib_list) (auto simp: egl_surface_check_attribs_def default_attribs_def)
qed


lemma sint_le_word:
  assumes "0 \<le> sint (w :: u32)" "\<not> sint w > sint m" "0 \<le> sint m"
  shows "w \<le> m"
proof -
  have "uint v = sint v" if "0 \<le> sint v" for v :: u32
    using that sint_lt [of v] by (simp add: uint_sint take_bit_int_eq_self)
  then show ?thesis using assms by (simp add: word_le_def)
qed

lemma create_window_fine:
  assumes "egl_inv s" "es_next_surface s \<noteq> - 1" "free_surface_memory (se_memory env) s" "attribs_ok attrib_list"
  shows "fine (eglCreateWindowSurface env alloc w t dpy config win attrib_list s)"
  unfolding eglCreateWindowSurface_def
proof (rule with_display_fine [OF assms(1)], goal_cases)
  case 1
  then have i: "es_inited s" by simp
  obtain r where r: "egl_surface_check_attribs WINDOW attrib_list = Some r" by (rule surface_attribs_defined [OF assms(4)])
  have fail: "fine (Some (0 :: u32, set_error t e s))" for e using assms(1) by (simp add: egl_views)
  note create = create_surface_fine [OF assms(1) i assms(2,3)]
  show ?case
    using r fail by (cases r) (auto simp: Let_def intro!: create)
qed

definition texture_ok :: "surface_attribs \<Rightarrow> bool" where
  "texture_ok a \<longleftrightarrow> sa_texture_format a \<in> {EGL_NO_TEXTURE, EGL_TEXTURE_RGB, EGL_TEXTURE_RGBA}"

lemma surface_attribs_texture:
  assumes "egl_surface_check_attribs ty attrib_list = Some (Some a)"
  shows "texture_ok a"
proof -
  have step: "surface_attrib ty name v b = Some b' \<Longrightarrow> texture_ok b \<Longrightarrow> texture_ok b'" for ty name v b b'
    unfolding surface_attrib_def by (simp del: insert_iff split: if_splits) (simp_all only: texture_ok_def, auto)
  have "surface_attribs_loop ty xs b = Some (Some a) \<Longrightarrow> texture_ok b \<Longrightarrow> texture_ok a" for ty xs b
    by (induction ty xs b rule: surface_attribs_loop.induct) (auto split: if_splits option.splits dest: step)
  moreover have "texture_ok default_attribs" by (simp add: texture_ok_def default_attribs_def)
  ultimately show ?thesis using assms by (cases attrib_list) (auto simp: egl_surface_check_attribs_def)
qed

lemma bindable_defined:
  assumes "valid_config config" "egl_surface_check_attribs PBUFFER attrib_list = Some (Some a)"
  obtains b where "egl_config_bindable formats (nat (egl_config_to_id config)) (sa_texture_format a) = Some b"
  using surface_attribs_texture [OF assms(2)] valid_config_index(1) [OF assms(1)] that
  by (auto simp: egl_config_bindable_def config_at_def texture_ok_def)

lemma create_pbuffer_fine:
  assumes "egl_inv s" "es_next_surface s \<noteq> - 1" "free_surface_memory (se_memory env) s" "attribs_ok attrib_list"
  shows "fine (eglCreatePbufferSurface env alloc t dpy config attrib_list s)"
  unfolding eglCreatePbufferSurface_def
proof (rule with_display_fine [OF assms(1)], goal_cases)
  case 1
  then have i: "es_inited s" by simp
  obtain r where r: "egl_surface_check_attribs PBUFFER attrib_list = Some r" by (rule surface_attribs_defined [OF assms(4)])
  have fail: "fine (Some (0 :: u32, set_error t e s))" for e using assms(1) by (simp add: egl_views)
  show ?case
  proof (cases "valid_config config \<and> r \<noteq> None")
    case True
    then obtain a where v: "valid_config config" and a: "r = Some a" by auto
    obtain b where b: "egl_config_bindable (es_formats s) (nat (egl_config_to_id config)) (sa_texture_format a) = Some b"
      using bindable_defined [OF v, of attrib_list a] r a egl_invD(5) [OF assms(1)] by metis
    have size: "sa_width a \<le> EGL_CONFIG_MAX_WIDTH \<and> sa_height a \<le> EGL_CONFIG_MAX_HEIGHT"
      if "\<not> (sint (sa_width a) > sint EGL_CONFIG_MAX_WIDTH \<or> sint (sa_height a) > sint EGL_CONFIG_MAX_HEIGHT)"
      using surface_attribs_sizes [of PBUFFER attrib_list a] r a that
      by (auto intro!: sint_le_word simp: EGL_CONFIG_MAX_WIDTH_def EGL_CONFIG_MAX_HEIGHT_def)
    show ?thesis using r a b v fail size
      by (auto intro!: create_surface_fine [OF assms(1) i assms(2,3)])
  qed (use r fail in auto)
qed


lemma from_image_cases:
  assumes "es_formats s = formats" "valid_config config"
  shows "(\<exists>e s'. egl_surface_from_vg_image env buffer name config a s = Some (Inl e, s') \<and> (s' = s \<or> (\<exists>c. s' = log_call c s))) \<or>
    (\<exists>p raw x c. ie_memory env = Some (p, raw) \<and>
      egl_surface_from_vg_image env buffer name config a s = Some (Inr p, (log_call c s)\<lparr>es_surf := (es_surf s)(p \<mapsto> x)\<rparr>) \<and>
      fresh_surface name config x)"
proof (cases "ie_memory env")
  case None
  then show ?thesis by (simp add: egl_surface_from_vg_image_def)
next
  case (Some m)
  obtain p raw where m: "m = (p, raw)" by (cases m)
  obtain color depth msk multi db sb where b: "config_buffers (es_formats s) config = Some (color, depth, msk, multi, db, sb)"
    using config_buffers_defined [OF assms(2)] assms(1) by (metis not_None_eq prod_cases6)
  show ?thesis
  proof (cases "ie_results env ! 0 = 0")
    case True
    then show ?thesis using Some m b by (simp add: egl_surface_from_vg_image_def Let_def) blast
  next
    case False
    then show ?thesis using Some m b
      by (cases "sa_mipmap_texture a"; simp add: egl_surface_from_vg_image_def Let_def egl_views split del: if_split)
        (intro exI conjI, rule refl, simp add: fresh_surface_def)+
  qed
qed

lemma create_from_image_fine:
  assumes "egl_inv s" "es_next_surface s \<noteq> - 1" "free_surface_memory (ie_memory env) s" "attribs_ok attrib_list"
  shows "fine (eglCreatePbufferFromClientBuffer env alloc t dpy buftype buffer config attrib_list s)"
  unfolding eglCreatePbufferFromClientBuffer_def
proof (rule with_display_fine [OF assms(1)], goal_cases)
  case 1
  then have i: "es_inited s" by simp
  obtain r where r: "egl_surface_check_attribs PBUFFER attrib_list = Some r" by (rule surface_attribs_defined [OF assms(4)])
  have fail: "fine (Some (0 :: u32, set_error t e s))" for e using assms(1) by (simp add: egl_views)
  show ?case
  proof (cases "valid_config config \<and> r \<noteq> None")
    case True
    then obtain a where v: "valid_config config" and a: "r = Some a" by auto
    obtain b where b: "egl_config_bindable (es_formats s) (nat (egl_config_to_id config)) (sa_texture_format a) = Some b"
      using bindable_defined [OF v, of attrib_list a] r a egl_invD(5) [OF assms(1)] by metis
    let ?r = "egl_surface_from_vg_image env buffer (es_next_surface s) config a s"
    have "fine (Option.bind ?r (\<lambda>(r, s). case r of Inl e \<Rightarrow> Some (0, set_error t e s) | Inr p \<Rightarrow> insert_surface alloc t p s))"
    proof -
      consider (none) e s' where "?r = Some (Inl e, s')" "s' = s \<or> (\<exists>c. s' = log_call c s)"
      | (some) p raw x c where "ie_memory env = Some (p, raw)"
          "?r = Some (Inr p, (log_call c s)\<lparr>es_surf := (es_surf s)(p \<mapsto> x)\<rparr>)" "fresh_surface (es_next_surface s) config x"
        using from_image_cases [OF egl_invD(5) [OF assms(1)] v, of env buffer "es_next_surface s" a] by blast
      then show ?thesis
      proof cases
        case none
        then show ?thesis using assms(1) by (auto simp: egl_views)
      next
        case some
        let ?s = "(log_call c s)\<lparr>es_surf := (es_surf s)(p \<mapsto> x)\<rparr>"
        have "p \<noteq> 0" "es_surf s p = None" using assms(3) some(1) by (simp_all add: free_surface_memory_def)
        moreover have "surf_frame s ?s" "es_surf ?s = (es_surf s)(p \<mapsto> x)" "es_surfaces ?s = es_surfaces s"
          "es_next_surface ?s = es_next_surface s" by (auto simp: surf_frame_def egl_views)
        ultimately have "fine (insert_surface alloc t p ?s)" using insert_surface_fine [OF assms(1) i assms(2)] some(3) v by blast
        then show ?thesis using some(2) by simp
      qed
    qed
    then show ?thesis using r a b v fail by simp
  qed (use r fail in auto)
qed

section \<open>Iteration over the surfaces\<close>

text \<open>A callback that leaves the map alone is folded over its bindings.\<close>

lemma iterate_from_fold:
  assumes "length (m_storage m) = c" "\<And>k v d. func m k v d = (m, g k v d)"
  shows "iterate_from func c i m d = (m, fold (\<lambda>(k, v). g k v) (bindings (drop i (m_storage m))) d)"
proof (induction "c - i" arbitrary: i d)
  case 0
  then show ?case using assms(1) by (subst iterate_from.simps) (simp add: bindings_def)
next
  case (Suc n)
  then have i: "i < c" "n = c - Suc i" by auto
  then have "drop i (m_storage m) = m_storage m ! i # drop (Suc i) (m_storage m)" using assms(1) by (intro drop_conv) simp
  then show ?case using Suc(1) [OF i(2)] i(1)
    by (subst iterate_from.simps) (auto simp: bindings_def assms(2) split: mval.splits)
qed

lemma iterate_fold:
  assumes "gmap_inv m" "\<And>k v d. func m k v d = (m, g k v d)"
  shows "khrn_map_iterate func m d = (m, fold (\<lambda>(k, v). g k v) (bindings (m_storage m)) d)"
  using iterate_from_fold [of m "m_capacity m" func g 0 d] table_okD(3) [OF gmap_invD(1) [OF assms(1)]] assms(2)
  by (simp add: khrn_map_iterate_def)

lemma bindings_map:
  assumes "gmap_inv m"
  shows "distinct (map fst (bindings (m_storage m)))" "map_of (bindings (m_storage m)) = gmap_map m"
  using live_keys_distinct [OF table_okD(2) [OF gmap_invD(1) [OF assms]]]
  by (simp_all add: bindings_def comp_def gmap_map_def storage_map_def)

lemma duplicate_defined:
  assumes "egl_inv s" "es_inited s"
  obtains b where "snd (khrn_map_iterate (callback_check_duplicate_pixmap s pixmap handle) (es_surfaces s) (Some False)) = Some b"
proof -
  let ?g = "\<lambda>key p dup. Option.bind dup (\<lambda>dup. Option.bind (es_surf s p) (\<lambda>x.
        if key \<noteq> sf_name x then None
        else Some (dup \<or> (sf_type x = PIXMAP \<and>
          (if handle \<noteq> (0, - 1) then sf_pixmap_server_handle x = handle
           else sf_pixmap_server_handle x = (0, - 1) \<and> sf_pixmap x = pixmap)))))"
  obtain r where r: "gmap_inv (es_surfaces s)" using assms by (auto simp: egl_inv_def maps_part_def gmap_good_def)
  note b = bindings_map [OF r]
  have si: "surf_inv (gmap_map (es_surfaces s)) (es_surf s) (bound s)"
    using assms by (simp add: egl_inv_def surf_part_def surf_map_def)
  have "set kvs \<subseteq> set (bindings (m_storage (es_surfaces s))) \<Longrightarrow> \<exists>b'. fold (\<lambda>(k, v). ?g k v) kvs (Some b) = Some b'" for kvs b
  proof (induction kvs arbitrary: b)
    case (Cons kv kvs)
    obtain k p where kv: "kv = (k, p)" by (cases kv)
    then have "gmap_map (es_surfaces s) k = Some p" using Cons.prems b map_of_is_SomeI by fastforce
    from surf_invD(1) [OF si this] kv Cons show ?case by auto
  qed simp
  then obtain b' where "fold (\<lambda>(k, v). ?g k v) (bindings (m_storage (es_surfaces s))) (Some False) = Some b'" by blast
  moreover have "khrn_map_iterate (callback_check_duplicate_pixmap s pixmap handle) (es_surfaces s) (Some False) =
      (es_surfaces s, fold (\<lambda>(k, v). ?g k v) (bindings (m_storage (es_surfaces s))) (Some False))"
    by (rule iterate_fold [OF r]) (simp add: callback_check_duplicate_pixmap_def)
  ultimately show thesis using that by simp
qed


text \<open>A pixmap has one of the formats that the platform knows.\<close>

definition pixmap_ok :: "pixmaps \<Rightarrow> u32 \<Rightarrow> bool" where
  "pixmap_ok mem pixmap \<longleftrightarrow> convert_format (mem pixmap 4) \<noteq> None"

lemma pixmap_mismatch_defined:
  assumes "platform_get_pixmap_info mem pixmap = Some (ok, img)" "valid_config config"
  obtains b where "pixmap_mismatch mem formats (nat (egl_config_to_id config)) pixmap img handle a = Some b"
proof -
  note i = valid_config_index(1) [OF assms(2)]
  obtain n where "egl_config_get_api_support formats (nat (egl_config_to_id config)) = Some n"
    using installed_support [OF install_rso i] by blast
  moreover have "convert_format (mem pixmap 4) = Some (im_format img)"
    using assms(1) by (auto simp: platform_get_pixmap_info_def)
  note convert_format_channels [OF this]
  ultimately have "pixmap_mismatch mem formats (nat (egl_config_to_id config)) pixmap img handle a \<noteq> None"
    using i by (auto simp: pixmap_mismatch_def egl_config_match_pixmap_info_def same_size_def config_at_def Let_def)
  then show thesis using that by auto
qed

lemma create_pixmap_fine:
  assumes "egl_inv s" "es_next_surface s \<noteq> - 1" "free_surface_memory (se_memory env) s" "attribs_ok attrib_list" "pixmap_ok mem pixmap"
  shows "fine (eglCreatePixmapSurface env alloc mem t dpy config pixmap attrib_list s)"
  unfolding eglCreatePixmapSurface_def
proof (rule with_display_fine [OF assms(1)], goal_cases)
  case 1
  then have i: "es_inited s" by simp
  obtain r where r: "egl_surface_check_attribs PIXMAP attrib_list = Some r" by (rule surface_attribs_defined [OF assms(4)])
  obtain ok img where img: "platform_get_pixmap_info mem pixmap = Some (ok, img)"
    using assms(5) by (auto simp: pixmap_ok_def platform_get_pixmap_info_def)
  let ?handle = "platform_get_pixmap_server_handle mem pixmap"
  obtain dup where dup: "snd (khrn_map_iterate (callback_check_duplicate_pixmap s pixmap ?handle) (es_surfaces s) (Some False)) = Some dup"
    by (rule duplicate_defined [OF assms(1) i])
  have fail: "fine (Some (0 :: u32, set_error t e s))" for e using assms(1) by (simp add: egl_views)
  show ?case
  proof (cases "valid_config config \<and> r \<noteq> None")
    case True
    then obtain a where v: "valid_config config" and a: "r = Some a" by auto
    obtain b where b: "pixmap_mismatch mem (es_formats s) (nat (egl_config_to_id config)) pixmap img ?handle a = Some b"
      using pixmap_mismatch_defined [OF img v, of ?handle a] egl_invD(5) [OF assms(1)] by metis
    show ?thesis using r a b v fail img dup
      by (auto simp: Let_def intro!: create_surface_fine [OF assms(1) i assms(2,3)])
  qed (use r fail in auto)
qed

section \<open>Changing and destroying\<close>

lemma surface_attrib_fine:
  assumes "egl_inv s"
  shows "fine (eglSurfaceAttrib t dpy surf attribute v s)"
  unfolding eglSurfaceAttrib_def
proof (rule with_display_fine [OF assms], goal_cases)
  case 1
  let ?s = "set_error t EGL_SUCCESS s"
  have s: "egl_inv ?s" "es_inited ?s" using assms 1 by (simp_all add: egl_views)
  show ?case
  proof (cases rule: get_surface_spec [OF s, of t surf])
    case (1 e)
    then show ?thesis using assms by (simp add: egl_views)
  next
    case (2 p x)
    note si = egl_invD(3) [OF s(1), unfolded surf_part_def]
    obtain r where r: "gmap_good r (es_surfaces ?s)" using s by (auto simp: egl_inv_def maps_part_def)
    have upd: "egl_inv (s1\<lparr>es_surf := (es_surf ?s)(p \<mapsto> y)\<rparr>)"
      if "s1 = ?s \<or> (\<exists>c. s1 = log_call c ?s)" "surf_inv (surf_map ?s) ((es_surf ?s)(p \<mapsto> y)) (bound ?s)" for s1 y
      by (intro inv_surfI [OF s, of _ r])
        (use that r s in \<open>auto simp: surf_frame_def egl_views surf_map_def egl_inv_def maps_part_def\<close>)
    have fields: "surf_inv (surf_map ?s) ((es_surf ?s)(p \<mapsto> x\<lparr>sf_mipmap_level := v\<rparr>)) (bound ?s)"
      "surf_inv (surf_map ?s) ((es_surf ?s)(p \<mapsto> x\<lparr>sf_swap_behavior := v\<rparr>)) (bound ?s)"
      "surf_inv (surf_map ?s) ((es_surf ?s)(p \<mapsto> x\<lparr>sf_multisample_resolve := v\<rparr>)) (bound ?s)"
      by (rule surf_update [OF si 2(3)]; simp)+
    have "\<exists>e s'. egl_surface_set_attrib p attribute v ?s = Some (e, s') \<and> egl_inv s'"
      using 2(3) s(1) upd [OF _ fields(1)] upd [OF _ fields(2)] upd [OF _ fields(3)]
      by (auto simp: egl_surface_set_attrib_def upd_surf_def egl_views)
    then show ?thesis using 2(1) by (auto simp: fine_def egl_views)
  qed
qed

lemma destroy_surface_fine:
  assumes "egl_inv s"
  shows "fine (eglDestroySurface t dpy surf s)"
  unfolding eglDestroySurface_def
proof (rule with_display_fine [OF assms], goal_cases)
  case 1
  let ?s = "set_error t EGL_SUCCESS s"
  have s: "egl_inv ?s" "es_inited ?s" using assms 1 by (simp_all add: egl_views)
  show ?case
  proof (cases rule: get_surface_spec [OF s, of t surf])
    case (1 e)
    then show ?thesis using assms by (simp add: egl_views)
  next
    case (2 p x)
    obtain r where r: "gmap_good r (es_surfaces ?s)" using s by (auto simp: egl_inv_def maps_part_def)
    obtain m' where m': "khrn_map_delete (es_surfaces ?s) surf = Some (gmap_map (es_surfaces ?s) surf \<noteq> None, m')" "gmap_good r m'"
      "gmap_map m' = (gmap_map (es_surfaces ?s))(surf := None)"
      using kmap.del_law [OF r] by blast
    have si: "surf_inv (gmap_map (es_surfaces ?s)) (es_surf ?s) (bound ?s)"
      using s by (simp add: egl_inv_def surf_part_def surf_map_def)
    have "gmap_map (es_surfaces ?s) surf = Some p" using 2(2) s(2) by (simp add: surf_map_def)
    note si' = surf_destroy [OF si this 2(3)]
    have below: "k < es_next_surface ?s" if "gmap_map m' k \<noteq> None" for k
      using s that m'(3) by (auto simp: egl_inv_def maps_part_def surf_map_def split: if_splits)
    let ?h = "(es_surf ?s)(p := if sf_context_binding_count x \<noteq> 0 then Some (x\<lparr>sf_is_destroyed := True\<rparr>) else None)"
    let ?r = "egl_surface_maybe_free p (?s\<lparr>es_surf := (es_surf ?s)(p \<mapsto> x\<lparr>sf_is_destroyed := True\<rparr>), es_surfaces := m'\<rparr>)"
    have "\<exists>s'. ?r = Some s' \<and> surf_frame ?s s' \<and> es_surf s' = ?h \<and> es_surfaces s' = m' \<and> es_next_surface s' = es_next_surface ?s"
      by (cases "sf_context_binding_count x = 0")
        (simp_all add: egl_surface_maybe_free_def egl_surface_free_def surf_frame_def egl_views)
    then obtain s' where s': "?r = Some s'" "surf_frame ?s s'" "es_surf s' = ?h" "es_surfaces s' = m'"
      "es_next_surface s' = es_next_surface ?s" by blast
    have "egl_inv s'"
      by (rule inv_surfI [OF s s'(2), of r]) (use s'(3-5) m'(2,3) si' below in auto)
    then show ?thesis using 2(1,3) m'(1) s'(1) by (simp add: upd_surf_def)
  qed
qed

end
