(* ===== verification/Egl_Steps.thy ===== *)
theory Egl_Steps
  imports Egl_Surfaces
begin

text \<open>
  Initialisation and termination of EGL, the calls of all threads as a step relation on the state
  (Egl_Client), and what holds of every state they reach.
\<close>

section \<open>Initialisation and termination\<close>

lemma initialized:
  assumes "egl_inv s" "\<not> es_inited s"
    and "khrn_map_init a1 64 (es_contexts s) = (True, m1)" "khrn_map_init a2 64 (es_surfaces s) = (True, m2)"
  shows "egl_inv (s\<lparr>es_contexts := m1, es_surfaces := m2, es_next_surface := 1, es_next_context := 1, es_inited := True\<rparr>)"
proof -
  have e: "ctx_map s = Map.empty" "surf_map s = Map.empty" using assms(2) by (simp_all add: ctx_map_def surf_map_def)
  have g: "gmap_good (m_refs (es_contexts s)) m1" "gmap_map m1 = Map.empty"
    "gmap_good (m_refs (es_surfaces s)) m2" "gmap_map m2 = Map.empty"
    by (rule init_good [OF assms(3), of 6], simp, simp)+ (rule init_good [OF assms(4), of 6], simp, simp)+
  let ?s = "s\<lparr>es_contexts := m1, es_surfaces := m2, es_next_surface := 1, es_next_context := 1, es_inited := True\<rparr>"
  have m: "ctx_map ?s = Map.empty" "surf_map ?s = Map.empty" using g by (simp_all add: ctx_map_def surf_map_def)
  have "maps_part ?s" using egl_invD(5) [OF assms(1)] g unfolding maps_part_def m by auto
  then show ?thesis
    using egl_invD(2-4) [OF assms(1)] unfolding egl_inv_def ctx_part_def surf_part_def m e by (simp add: egl_views)
qed

lemma init_spec:
  assumes "egl_inv s"
  shows "\<exists>ok s'. client_process_state_init a1 a2 others s = Some (ok, s') \<and> egl_inv s'"
proof -
  have inst: "egl_config_install_configs 0 (es_formats s) = Some (es_formats s)"
    using install_rso egl_invD(5) [OF assms] by simp
  show ?thesis
  proof (cases "es_inited s")
    case True
    then show ?thesis using assms inst by (auto simp: client_process_state_init_def intro: exI [of _ True])
  next
    case False
    obtain b1 m1 b2 m2 where m: "khrn_map_init a1 64 (es_contexts s) = (b1, m1)" "khrn_map_init a2 64 (es_surfaces s) = (b2, m2)"
      by (metis prod.collapse)
    have off: "egl_inv (s\<lparr>es_contexts := m1\<rparr>)" "egl_inv (s\<lparr>es_contexts := m1, es_surfaces := m2\<rparr>)"
      using assms False by (simp_all add: egl_inv_def maps_part_def ctx_part_def surf_part_def ctx_map_def surf_map_def egl_views)
    show ?thesis
    proof (cases "b1 \<and> b2 \<and> others")
      case True
      then show ?thesis using False m inst initialized [OF assms False, of a1 m1 a2 m2]
        by (intro exI [of _ True]) (simp add: client_process_state_init_def)
    next
      case init: False
      then show ?thesis using assms off False m
        by (intro exI [of _ False]) (cases b1; cases b2; simp add: client_process_state_init_def)
    qed
  qed
qed

lemma initialize_fine:
  assumes "egl_inv s"
  shows "fine (eglInitialize a1 a2 others t dpy s)"
proof -
  obtain ok s' where "client_process_state_init a1 a2 others s = Some (ok, s')" "egl_inv s'" using init_spec [OF assms] by blast
  then show ?thesis unfolding eglInitialize_def by (intro with_display_fine [OF assms]) (simp add: egl_views)
qed

lemma frames_trans:
  "ctx_frame s s' \<Longrightarrow> ctx_frame s' s'' \<Longrightarrow> ctx_frame s s''" "surf_frame s s' \<Longrightarrow> surf_frame s' s'' \<Longrightarrow> surf_frame s s''"
  by (simp_all add: ctx_frame_def surf_frame_def)

definition destroy_context_step :: "u32 \<Rightarrow> ptr \<Rightarrow> egl_state option \<Rightarrow> egl_state option" where
  "destroy_context_step key p s = snd (callback_destroy_context undefined key p s)"

definition destroy_surface_step :: "u32 \<Rightarrow> ptr \<Rightarrow> egl_state option \<Rightarrow> egl_state option" where
  "destroy_surface_step key p s = snd (callback_destroy_surface undefined key p s)"

text \<open>Every context of the map is destroyed: it goes, or stays until it is released.\<close>

lemma destroy_all_contexts:
  assumes "distinct (map fst kvs)" "ctx_inv (map_of kvs) (es_ctx s) (cur s) (es_context_current_count s)"
  shows "\<exists>s'. fold (\<lambda>(k, p). destroy_context_step k p) kvs (Some s) = Some s' \<and> ctx_frame s s' \<and>
    ctx_inv Map.empty (es_ctx s') (cur s) (es_context_current_count s) \<and> es_next_context s' = es_next_context s"
  using assms
proof (induction kvs arbitrary: s)
  case Nil
  then show ?case by (simp add: ctx_frame_def)
next
  case (Cons kv kvs)
  obtain k p where kv: "kv = (k, p)" by (cases kv)
  then have k: "map_of (kv # kvs) k = Some p" by simp
  obtain c where c: "es_ctx s p = Some c" "cx_name c = k" "\<not> cx_is_destroyed c" using ctx_invD(1) [OF Cons.prems(2) k] by blast
  let ?h = "(es_ctx s)(p := if cx_is_current c then Some (c\<lparr>cx_is_destroyed := True\<rparr>) else None)"
  have "map_of kvs k = None" using Cons.prems(1) kv by (simp add: map_of_eq_None_iff)
  then have "(map_of (kv # kvs))(k := None) = map_of kvs" by (auto simp: fun_eq_iff kv)
  note ci = ctx_destroy [OF Cons.prems(2) k c(1), unfolded this]
  have "\<exists>s1. destroy_context_step k p (Some s) = Some s1 \<and> ctx_frame s s1 \<and> es_ctx s1 = ?h \<and> es_next_context s1 = es_next_context s"
    using c by (cases "cx_is_current c")
      (simp_all add: destroy_context_step_def callback_destroy_context_def upd_ctx_def egl_context_maybe_free_def
        egl_context_term_def free_context_def ctx_frame_def egl_views)
  then obtain s1 where s1: "destroy_context_step k p (Some s) = Some s1" "ctx_frame s s1" "es_ctx s1 = ?h"
    "es_next_context s1 = es_next_context s" by blast
  have same: "cur s1 = cur s" "es_context_current_count s1 = es_context_current_count s" using s1(2) by (simp_all add: ctx_frame_def)
  have "ctx_inv (map_of kvs) (es_ctx s1) (cur s1) (es_context_current_count s1)" using ci by (simp add: s1(3) same)
  then obtain s' where "fold (\<lambda>(k, p). destroy_context_step k p) kvs (Some s1) = Some s'" "ctx_frame s1 s'"
    "ctx_inv Map.empty (es_ctx s') (cur s1) (es_context_current_count s1)" "es_next_context s' = es_next_context s1"
    using Cons.IH [of s1] Cons.prems(1) by auto
  then show ?case using s1(1,2,4) frames_trans(1) [of s s1 s'] by (simp add: kv same)
qed

lemma destroy_all_surfaces:
  assumes "distinct (map fst kvs)" "surf_inv (map_of kvs) (es_surf s) (bound s)"
  shows "\<exists>s'. fold (\<lambda>(k, p). destroy_surface_step k p) kvs (Some s) = Some s' \<and> surf_frame s s' \<and>
    surf_inv Map.empty (es_surf s') (bound s) \<and> es_next_surface s' = es_next_surface s"
  using assms
proof (induction kvs arbitrary: s)
  case Nil
  then show ?case by (simp add: surf_frame_def)
next
  case (Cons kv kvs)
  obtain k p where kv: "kv = (k, p)" by (cases kv)
  then have k: "map_of (kv # kvs) k = Some p" by simp
  obtain x where x: "es_surf s p = Some x" "sf_name x = k" "\<not> sf_is_destroyed x" using surf_invD(1) [OF Cons.prems(2) k] by blast
  let ?h = "(es_surf s)(p := if sf_context_binding_count x \<noteq> 0 then Some (x\<lparr>sf_is_destroyed := True\<rparr>) else None)"
  have "map_of kvs k = None" using Cons.prems(1) kv by (simp add: map_of_eq_None_iff)
  then have "(map_of (kv # kvs))(k := None) = map_of kvs" by (auto simp: fun_eq_iff kv)
  note si = surf_destroy [OF Cons.prems(2) k x(1), unfolded this]
  have "\<exists>s1. destroy_surface_step k p (Some s) = Some s1 \<and> surf_frame s s1 \<and> es_surf s1 = ?h \<and> es_next_surface s1 = es_next_surface s"
    using x by (cases "sf_context_binding_count x = 0")
      (simp_all add: destroy_surface_step_def callback_destroy_surface_def upd_surf_def egl_surface_maybe_free_def
        egl_surface_free_def surf_frame_def egl_views)
  then obtain s1 where s1: "destroy_surface_step k p (Some s) = Some s1" "surf_frame s s1" "es_surf s1 = ?h"
    "es_next_surface s1 = es_next_surface s" by blast
  have same: "bound s1 = bound s" using s1(2) by (simp add: surf_frame_def)
  have "surf_inv (map_of kvs) (es_surf s1) (bound s1)" using si by (simp add: s1(3) same)
  then obtain s' where "fold (\<lambda>(k, p). destroy_surface_step k p) kvs (Some s1) = Some s'" "surf_frame s1 s'"
    "surf_inv Map.empty (es_surf s') (bound s1)" "es_next_surface s' = es_next_surface s1"
    using Cons.IH [of s1] Cons.prems(1) by auto
  then show ?case using s1(1,2,4) frames_trans(2) [of s s1 s'] by (simp add: kv same)
qed

lemma terminate_spec:
  assumes "egl_inv s"
  shows "\<exists>s'. client_process_state_term s = Some s' \<and> egl_inv s' \<and> \<not> es_inited s' \<and> cur s' = cur s \<and> bound s' = bound s"
proof (cases "es_inited s")
  case False
  then show ?thesis using assms by (simp add: client_process_state_term_def)
next
  case True
  have g: "gmap_inv (es_contexts s)" "gmap_inv (es_surfaces s)"
    using assms True by (auto simp: egl_inv_def maps_part_def gmap_good_def)
  note b1 = bindings_map [OF g(1)] and b2 = bindings_map [OF g(2)]
  have "ctx_inv (map_of (bindings (m_storage (es_contexts s)))) (es_ctx s) (cur s) (es_context_current_count s)"
    using assms True by (simp add: b1(2) egl_inv_def ctx_part_def ctx_map_def)
  then obtain s1 where s1: "fold (\<lambda>(k, p). destroy_context_step k p) (bindings (m_storage (es_contexts s))) (Some s) = Some s1"
    "ctx_frame s s1" "ctx_inv Map.empty (es_ctx s1) (cur s) (es_context_current_count s)"
    using destroy_all_contexts [OF b1(1)] by blast
  have same1: "es_surfaces s1 = es_surfaces s" "es_surf s1 = es_surf s" "bound s1 = bound s" "cur s1 = cur s"
    "es_context_current_count s1 = es_context_current_count s" "es_formats s1 = es_formats s"
    using s1(2) by (simp_all add: ctx_frame_def)
  have "surf_inv (map_of (bindings (m_storage (es_surfaces s)))) (es_surf s1) (bound s1)"
    using assms True by (simp add: b2(2) same1 egl_inv_def surf_part_def surf_map_def)
  then obtain s2 where s2: "fold (\<lambda>(k, p). destroy_surface_step k p) (bindings (m_storage (es_surfaces s))) (Some s1) = Some s2"
    "surf_frame s1 s2" "surf_inv Map.empty (es_surf s2) (bound s1)"
    using destroy_all_surfaces [OF b2(1)] by blast
  have i1: "snd (khrn_map_iterate callback_destroy_context (es_contexts s) (Some s)) = Some s1"
    using iterate_fold [OF g(1), of callback_destroy_context destroy_context_step "Some s"] s1(1)
    by (simp add: callback_destroy_context_def destroy_context_step_def)
  have i2: "snd (khrn_map_iterate callback_destroy_surface (es_surfaces s1) (Some s1)) = Some s2"
    using iterate_fold [OF g(2), of callback_destroy_surface destroy_surface_step "Some s1"] s2(1) same1(1)
    by (simp add: callback_destroy_surface_def destroy_surface_step_def)
  have same2: "es_ctx s2 = es_ctx s1" "cur s2 = cur s1" "bound s2 = bound s1" "es_context_current_count s2 = es_context_current_count s1"
    "es_formats s2 = es_formats s1" using s2(2) by (simp_all add: surf_frame_def)
  have "egl_inv (s2\<lparr>es_inited := False\<rparr>)"
    using assms s1(3) s2(3) unfolding egl_inv_def
    by (simp add: maps_part_def ctx_part_def surf_part_def ctx_map_def surf_map_def same1 same2 egl_views)
  then show ?thesis using True i1 i2 same1 same2 by (simp add: client_process_state_term_def egl_views)
qed


lemma terminate_fine:
  assumes "egl_inv s"
  shows "fine (eglTerminate t dpy s)"
proof -
  obtain s' where "client_process_state_term s = Some s'" "egl_inv s'" using terminate_spec [OF assms] by blast
  then show ?thesis unfolding eglTerminate_def by (intro with_display_fine [OF assms]) (auto simp: egl_views fine_def)
qed

section \<open>The other calls\<close>

lemma bind_api_fine:
  assumes "egl_inv s"
  shows "fine (eglBindAPI t api s)"
proof -
  let ?s = "s\<lparr>es_threads := (es_threads s)(t := (es_threads s t)\<lparr>t_bound_api := api\<rparr>)\<rparr>"
  have "get_current vg u ?s = get_current vg u s" for vg u by (auto simp: get_current_def)
  then have v: "cur ?s = cur s" "bound ?s = bound s" by (simp_all add: cur_def bound_def fun_eq_iff)
  have "rest ?s = rest s" by (simp add: rest_def)
  note r = rest_maps [OF this] part_cong [OF this]
  have "egl_inv ?s = egl_inv s" unfolding egl_inv_def v by (simp add: r v)
  then show ?thesis using assms by (simp add: eglBindAPI_def egl_views)
qed

lemma release_thread_fine:
  assumes "egl_inv s"
  shows "fine (eglReleaseThread t s)"
proof -
  obtain s1 where s1: "egl_current_release False t s = Some s1" "egl_inv s1" using egl_current_release_spec [OF assms] by blast
  obtain s2 where "egl_current_release True t s1 = Some s2" "egl_inv s2" using egl_current_release_spec [OF s1(2)] by blast
  then show ?thesis using s1(1) by (simp add: eglReleaseThread_def egl_views)
qed

lemma queries_fine:
  assumes "egl_inv s"
  shows "fine (eglGetCurrentContext t s)" "fine (eglGetCurrentSurface t readdraw s)" "fine (eglGetCurrentDisplay t s)"
    "fine (eglQueryContext t dpy ctx attribute has_value s)"
proof -
  note ci = egl_invD(2) [OF assms, unfolded ctx_part_def] and si = egl_invD(3) [OF assms, unfolded surf_part_def]
  have c: "cur s vg t = 0 \<or> (\<exists>c. es_ctx s (cur s vg t) = Some c)" for vg using ctx_invD(3) [OF ci, of vg t] by auto
  have b: "bound s rd vg t = 0 \<or> (\<exists>x. es_surf s (bound s rd vg t) = Some x)" for rd vg using surf_invD(4) [OF si, of rd vg t] by auto
  show "fine (eglGetCurrentContext t s)" "fine (eglGetCurrentDisplay t s)"
    using c [of "bound_vg t s"] assms by (auto simp: eglGetCurrentContext_def eglGetCurrentDisplay_def fine_def egl_views Let_def)
  show "fine (eglGetCurrentSurface t readdraw s)"
    using b [of False "bound_vg t s"] b [of True "bound_vg t s"] assms by (auto simp: eglGetCurrentSurface_def fine_def egl_views Let_def)
  show "fine (eglQueryContext t dpy ctx attribute has_value s)"
    unfolding eglQueryContext_def
  proof (rule with_display_fine [OF assms], goal_cases)
    case 1
    let ?s = "set_error t EGL_SUCCESS s"
    have s: "egl_inv ?s" "es_inited ?s" using assms 1 by (simp_all add: egl_views)
    show ?case
    proof (cases rule: get_context_spec [OF s, of t ctx])
      case 1
      then show ?thesis using assms by (simp add: egl_views)
    next
      case (2 p c)
      then show ?thesis using assms by (simp add: egl_views split: option.split)
    qed
  qed
qed

section \<open>The step relation\<close>

datatype egl_op =
    OpInitialize map_alloc map_alloc bool u32
  | OpTerminate u32
  | OpBindAPI u32
  | OpCreateContext context_env map_alloc u32 u32 u32 "u32 list option"
  | OpDestroyContext u32 u32
  | OpCreateWindow surface_env map_alloc window_env u32 u32 ptr "u32 list option"
  | OpCreatePbuffer surface_env map_alloc u32 u32 "u32 list option"
  | OpCreateFromBuffer image_env map_alloc u32 u32 u32 u32 "u32 list option"
  | OpCreatePixmap surface_env map_alloc pixmaps u32 u32 u32 "u32 list option"
  | OpDestroySurface u32 u32
  | OpSurfaceAttrib u32 u32 u32 u32
  | OpMakeCurrent pixmaps u32 u32 u32 u32
  | OpReleaseThread
  | OpGetCurrentContext
  | OpGetCurrentSurface u32
  | OpGetCurrentDisplay
  | OpQueryContext u32 u32 u32 bool

fun egl_step :: "nat \<Rightarrow> egl_op \<Rightarrow> egl_state \<Rightarrow> egl_state option" where
  "egl_step t (OpInitialize a1 a2 others dpy) s = map_option snd (eglInitialize a1 a2 others t dpy s)"
| "egl_step t (OpTerminate dpy) s = map_option snd (eglTerminate t dpy s)"
| "egl_step t (OpBindAPI api) s = map_option snd (eglBindAPI t api s)"
| "egl_step t (OpCreateContext env alloc dpy config share attrs) s =
     map_option snd (eglCreateContext env alloc t dpy config share attrs s)"
| "egl_step t (OpDestroyContext dpy ctx) s = map_option snd (eglDestroyContext t dpy ctx s)"
| "egl_step t (OpCreateWindow env alloc w dpy config win attrs) s =
     map_option snd (eglCreateWindowSurface env alloc w t dpy config win attrs s)"
| "egl_step t (OpCreatePbuffer env alloc dpy config attrs) s =
     map_option snd (eglCreatePbufferSurface env alloc t dpy config attrs s)"
| "egl_step t (OpCreateFromBuffer env alloc dpy buftype buffer config attrs) s =
     map_option snd (eglCreatePbufferFromClientBuffer env alloc t dpy buftype buffer config attrs s)"
| "egl_step t (OpCreatePixmap env alloc mem dpy config pixmap attrs) s =
     map_option snd (eglCreatePixmapSurface env alloc mem t dpy config pixmap attrs s)"
| "egl_step t (OpDestroySurface dpy surf) s = map_option snd (eglDestroySurface t dpy surf s)"
| "egl_step t (OpSurfaceAttrib dpy surf attribute v) s = map_option snd (eglSurfaceAttrib t dpy surf attribute v s)"
| "egl_step t (OpMakeCurrent mem dpy dr rd ctx) s = map_option snd (eglMakeCurrent mem t dpy dr rd ctx s)"
| "egl_step t OpReleaseThread s = map_option snd (eglReleaseThread t s)"
| "egl_step t OpGetCurrentContext s = map_option snd (eglGetCurrentContext t s)"
| "egl_step t (OpGetCurrentSurface readdraw) s = map_option snd (eglGetCurrentSurface t readdraw s)"
| "egl_step t OpGetCurrentDisplay s = map_option snd (eglGetCurrentDisplay t s)"
| "egl_step t (OpQueryContext dpy ctx attribute has_value) s = map_option snd (eglQueryContext t dpy ctx attribute has_value s)"

text \<open>What a call may rely on.\<close>

definition new_surface_ok :: "(ptr \<times> egl_surface) option \<Rightarrow> u32 list option \<Rightarrow> egl_state \<Rightarrow> bool" where
  "new_surface_ok memory attrs s \<longleftrightarrow> free_surface_memory memory s \<and> attribs_ok attrs \<and> es_next_surface s \<noteq> - 1"

fun op_ok :: "egl_op \<Rightarrow> egl_state \<Rightarrow> bool" where
  "op_ok (OpCreateContext env alloc dpy config share attrs) s \<longleftrightarrow>
     context_env_ok env s \<and> (\<forall>n. alloc n \<noteq> None) \<and> attribs_ok attrs \<and> es_next_context s \<noteq> - 1"
| "op_ok (OpCreateWindow env alloc w dpy config win attrs) s \<longleftrightarrow> new_surface_ok (se_memory env) attrs s"
| "op_ok (OpCreatePbuffer env alloc dpy config attrs) s \<longleftrightarrow> new_surface_ok (se_memory env) attrs s"
| "op_ok (OpCreateFromBuffer env alloc dpy buftype buffer config attrs) s \<longleftrightarrow> new_surface_ok (ie_memory env) attrs s"
| "op_ok (OpCreatePixmap env alloc mem dpy config pixmap attrs) s \<longleftrightarrow>
     new_surface_ok (se_memory env) attrs s \<and> pixmap_ok mem pixmap"
| "op_ok _ s \<longleftrightarrow> True"

definition egl_ok :: "nat \<Rightarrow> egl_op \<Rightarrow> egl_state \<Rightarrow> bool" where
  "egl_ok t op s \<longleftrightarrow> t < MAX_THREADS \<and> op_ok op s"

lemma step_keeps:
  assumes "egl_inv s" "egl_ok t op s"
  shows "\<exists>s'. egl_step t op s = Some s' \<and> egl_inv s'"
proof -
  have f: "fine r \<Longrightarrow> \<exists>s'. map_option snd r = Some s' \<and> egl_inv s'" for r :: "('r \<times> egl_state) option"
    by (auto simp: fine_def)
  have t: "t < MAX_THREADS" and ok: "op_ok op s" using assms(2) by (simp_all add: egl_ok_def)
  show ?thesis
  proof (cases op)
    case (OpMakeCurrent mem dpy dr rd ctx)
    then show ?thesis using make_current_spec [OF assms(1) t, of mem dpy dr rd ctx] by fastforce
  qed (use ok in \<open>auto simp only: egl_step.simps op_ok.simps new_surface_ok_def intro!: f initialize_fine terminate_fine
      bind_api_fine create_context_fine destroy_context_fine create_window_fine create_pbuffer_fine create_from_image_fine
      create_pixmap_fine destroy_surface_fine surface_attrib_fine release_thread_fine queries_fine assms(1)\<close>)
qed

text \<open>The state of a process before its first call, and those that calls of any threads lead to.\<close>

definition egl_start :: "egl_state \<Rightarrow> bool" where
  "egl_start s \<longleftrightarrow> es_formats s = formats \<and> es_threads s = (\<lambda>_. client_thread_state_init) \<and> \<not> es_inited s \<and>
     es_context_current_count s = 0 \<and> es_ctx s = Map.empty \<and> es_surf s = Map.empty"

inductive egl_reach :: "egl_state \<Rightarrow> bool" where
  start: "egl_start s \<Longrightarrow> egl_reach s"
| step: "egl_reach s \<Longrightarrow> egl_ok t op s \<Longrightarrow> egl_step t op s = Some s' \<Longrightarrow> egl_reach s'"

lemma start_inv:
  assumes "egl_start s"
  shows "egl_inv s"
proof -
  have g: "get_current vg t s = no_current" for vg t
    using assms by (simp add: egl_start_def get_current_def client_thread_state_init_def)
  have "cur s = (\<lambda>_ _. 0)" "bound s = (\<lambda>_ _ _. 0)" by (simp_all add: cur_def bound_def g no_current_def fun_eq_iff)
  then show ?thesis using assms
    by (simp add: egl_start_def egl_inv_def maps_part_def ctx_part_def surf_part_def ctx_map_def surf_map_def ctx_inv_def
        surf_inv_def sync_def)
qed

lemma reach_inv: "egl_reach s \<Longrightarrow> egl_inv s"
  by (induction rule: egl_reach.induct) (use start_inv step_keeps in fastforce)+

end
