(* ===== verification/Egl_Properties.thy ===== *)
theory Egl_Properties
  imports Egl_Steps
begin

text \<open>
  What holds of every state that calls of EGL lead to (Egl_Steps), with a run that reaches a state in which
  a context is current.
\<close>

section \<open>A run\<close>

text \<open>
  Thread 3 initialises EGL, creates a context of OpenGL ES 2 and a pixel buffer and makes them current.
\<close>

definition demo_alloc :: map_alloc where "demo_alloc = (\<lambda>_. Some (\<lambda>_. 0))"

definition demo_context :: egl_context where
  "demo_context = \<lparr>cx_name = 0, cx_display = 0, cx_configname = 0, cx_type = OPENVG, cx_renderbuffer = 0, cx_servercontext = 0,
     cx_thread = 0, cx_is_current = False, cx_is_destroyed = False, cx_callbacks = True\<rparr>"

definition demo_context_env :: context_env where
  "demo_context_env = \<lparr>ce_memory = Some (4096, demo_context), ce_shared = True, ce_state = True, ce_init = True, ce_server = 7\<rparr>"

definition demo_gmap0 :: "ptr gmap" where
  "demo_gmap0 = \<lparr>m_entries = 0, m_deletes = 0, m_storage = map (\<lambda>_. \<lparr>e_key = 0, e_value = VNone\<rparr>) [0..<64], m_capacity = 64,
     m_refs = (\<lambda>_. 0)\<rparr>"

definition demo_gmap1 :: "ptr \<Rightarrow> ptr gmap" where
  "demo_gmap1 p = demo_gmap0\<lparr>m_entries := 1, m_storage := (m_storage demo_gmap0)[1 := \<lparr>e_key = 1, e_value = Val p\<rparr>],
     m_refs := (\<lambda>_. 0)(p := 1)\<rparr>"

lemma demo_gmap:
  "m_entries demo_gmap0 = 0" "m_deletes demo_gmap0 = 0" "m_capacity demo_gmap0 = 64" "m_refs demo_gmap0 = (\<lambda>_. 0)"
  "length (m_storage demo_gmap0) = 64" "i < 64 \<Longrightarrow> m_storage demo_gmap0 ! i = \<lparr>e_key = 0, e_value = VNone\<rparr>"
  by (simp_all add: demo_gmap0_def)

lemma demo_insert: "khrn_map_insert alloc demo_gmap0 1 p = Some (True, demo_gmap1 p)"
proof -
  have h: "map_hash 1 64 = 1" by (simp add: map_hash_def)
  have "get_entry (m_storage demo_gmap0) 64 1 = Some None"
    unfolding get_entry_def h by (subst get_entry_from.simps) (simp add: demo_gmap)
  moreover have "get_free_entry (m_storage demo_gmap0) 64 1 = Some 1"
    unfolding get_free_entry_def h by (subst get_free_entry_from.simps) (simp add: demo_gmap)
  ultimately show ?thesis
    by (simp add: khrn_map_insert_def numeral_2_eq_2 demo_gmap place_entry_def acquire_value_def demo_gmap1_def)
qed

lemma demo_gmap_lookup: "khrn_map_lookup (demo_gmap1 p) 1 = Some (Val p)"
proof -
  have h: "map_hash 1 64 = 1" by (simp add: map_hash_def)
  have "get_entry (m_storage (demo_gmap1 p)) 64 1 = Some (Some 1)"
    unfolding get_entry_def h by (subst get_entry_from.simps) (simp add: demo_gmap demo_gmap1_def)
  then show ?thesis by (simp add: khrn_map_lookup_def demo_gmap demo_gmap1_def)
qed

definition egl_demo_state :: "ptr gmap \<Rightarrow> ptr gmap \<Rightarrow> u32 \<Rightarrow> u32 \<Rightarrow> egl_state" where
  "egl_demo_state m1 m2 n1 n2 = \<lparr>es_formats = formats, es_threads = (\<lambda>_. client_thread_state_init), es_inited = True,
     es_context_current_count = 0, es_contexts = m1, es_surfaces = m2, es_next_surface = n2, es_next_context = n1,
     es_ctx = Map.empty, es_surf = Map.empty, es_log = []\<rparr>"

definition egl_demo0 :: egl_state where "egl_demo0 = (egl_demo_state demo_gmap0 demo_gmap0 0 0)\<lparr>es_inited := False\<rparr>"

definition demo_surface_env :: surface_env where
  "demo_surface_env = \<lparr>se_memory = Some (8192, undefined), se_semaphore = True, se_width = 16, se_height = 16, se_server = 9\<rparr>"

lemma same_error: "t_error (es_threads s t) = e \<Longrightarrow> set_error t e s = s"
  by (simp add: set_error_def fun_upd_idem)

definition egl_demo1 :: egl_state where "egl_demo1 = egl_demo_state demo_gmap0 demo_gmap0 1 1"

lemma demo_step1: "egl_step 3 (OpInitialize demo_alloc demo_alloc True 1) egl_demo0 = Some egl_demo1"
proof -
  have i: "khrn_map_init demo_alloc 64 demo_gmap0 = (True, demo_gmap0)"
    by (simp add: khrn_map_init_def demo_alloc_def demo_gmap0_def)
  show ?thesis
    using install_rso
    by (simp add: egl_demo1_def egl_demo0_def egl_demo_state_def eglInitialize_def with_display_def client_egl_get_process_state_def
        client_process_state_init_def i same_error client_thread_state_init_def)
qed

definition egl_demo2 :: egl_state where
  "egl_demo2 = (log_call (CallCreateContext OPENGL_ES_20 0 OPENGL_ES_20) egl_demo1)\<lparr>es_contexts := demo_gmap1 4096, es_next_context := 2,
     es_ctx := [4096 \<mapsto> demo_context\<lparr>cx_name := 1, cx_display := 1, cx_configname := 1, cx_type := OPENGL_ES_20,
       cx_renderbuffer := EGL_NONE, cx_servercontext := 7\<rparr>]\<rparr>"

lemma demo_support: "egl_config_get_api_support formats 0 = Some 7"
  by (simp add: egl_config_get_api_support_def egl_config_is_lockable_def egl_config_get_color_format_def config_at_def EGL_MAX_CONFIGS_def
     formats_def config_row_def FEATURES_UNPACK_LOCKABLE_def FEATURES_PACK_def image_values image_bits)

lemma demo_config: "egl_config_to_id 1 = 0" "valid_config 1"
  by (simp_all add: egl_config_to_id_def valid_config_def EGL_MAX_CONFIGS_def)

lemma demo_step2:
  "egl_step 3 (OpCreateContext demo_context_env demo_alloc 1 1 0 (Some [EGL_CONTEXT_CLIENT_VERSION, 2, EGL_NONE])) egl_demo1 = Some egl_demo2"
  by (simp add: egl_demo2_def egl_demo1_def egl_demo_state_def eglCreateContext_def with_display_def client_egl_get_process_state_def demo_config
      bound_gl_def bound_vg_def client_thread_state_init_def egl_context_check_attribs_def demo_support insert_context_def
      egl_context_create_def demo_context_env_def demo_context_def context_type_of_def demo_insert log_call_def set_error_def fun_upd_idem)

definition demo_request :: surface_request where
  "demo_request = \<lparr>sr_type = PBUFFER, sr_colorspace = SRGB, sr_alphaformat = NONPRE, sr_buffers = 1, sr_width = 16, sr_height = 16,
     sr_config = 1, sr_win = NULL, sr_serverwin = PLATFORM_WIN_NONE, sr_largest_pbuffer = False, sr_texture_compatibility = True,
     sr_mipmap_texture = False, sr_texture_format = EGL_NO_TEXTURE, sr_texture_target = EGL_NO_TEXTURE, sr_pixmap = 0,
     sr_pixmap_server_handle = None\<rparr>"

lemma demo_buffers: "\<exists>c d. config_buffers formats 1 = Some (c, d)"
  using config_buffers_defined [OF demo_config(2)] by (metis not_None_eq surj_pair)

lemma demo_bindable: "egl_config_bindable formats 0 EGL_NO_TEXTURE = Some True"
  by (simp add: egl_config_bindable_def config_at_def EGL_MAX_CONFIGS_def)

definition egl_demo3 :: "server_call list \<Rightarrow> egl_state" where
  "egl_demo3 l = egl_demo2\<lparr>es_surfaces := demo_gmap1 8192, es_next_surface := 2, es_surf := [8192 \<mapsto> (new_surface undefined 1 demo_request)
     \<lparr>sf_width := 16, sf_height := 16, sf_serverbuffer := 9\<rparr>], es_log := l\<rparr>"

lemma demo_step3:
  "\<exists>l. egl_step 3 (OpCreatePbuffer demo_surface_env demo_alloc 1 1 (Some [EGL_WIDTH, 16, EGL_HEIGHT, 16, EGL_NONE])) egl_demo2 = Some (egl_demo3 l)"
proof -
  obtain c d m u db sb where b: "config_buffers formats 1 = Some (c, d, m, u, db, sb)" using demo_buffers by (metis surj_pair)
  show ?thesis
    by (simp add: egl_demo3_def egl_demo2_def egl_demo1_def egl_demo_state_def eglCreatePbufferSurface_def with_display_def
        client_egl_get_process_state_def demo_config client_thread_state_init_def egl_surface_check_attribs_def surface_attrib_def
        default_attribs_def demo_bindable b EGL_CONFIG_MAX_WIDTH_def EGL_CONFIG_MAX_HEIGHT_def create_surface_def
        egl_surface_create_def demo_surface_env_def store_surface_def insert_surface_def demo_insert log_call_def set_error_def
        fun_upd_idem Let_def KHRN_NO_SEMAPHORE_def new_surface_def demo_request_def)
qed

lemma demo_step4: "\<exists>s. egl_step 3 (OpMakeCurrent (\<lambda>_ _. 0) 1 1 1 1) (egl_demo3 l) = Some s \<and>
    cur s False 3 = 4096 \<and> bound s True False 3 = 8192 \<and> es_inited s \<and> es_contexts s = demo_gmap1 4096 \<and>
    es_surfaces s = demo_gmap1 8192 \<and> (\<exists>x. es_surf s 8192 = Some x \<and> \<not> sf_is_locked x) \<and>
    (\<exists>c. es_ctx s 4096 = Some c \<and> cx_is_current c \<and> cx_thread c = 3 \<and> cx_type c = OPENGL_ES_20)"
proof -
  have c: "context_and_surface_are_compatible formats c x = Some True" if "cx_configname c = 1" "sf_config x = 1" "cx_type c = OPENGL_ES_20" for c x
    using that by (simp add: context_and_surface_are_compatible_def demo_config demo_support egl_config_bpps_match_def Let_def)
  show ?thesis
    by (simp add: egl_demo3_def egl_demo2_def egl_demo1_def egl_demo_state_def eglMakeCurrent_def with_display_def
        client_egl_get_process_state_def client_thread_state_init_def demo_gmap_lookup client_egl_get_context_def client_egl_get_surface_def
        client_egl_get_locked_surface_def new_surface_def demo_request_def demo_context_def log_call_def egl_current_set_def c
        bind_current_def egl_current_release_def release_context_def release_surface_def no_current_def get_current_def
        upd_ctx_def upd_surf_def upd_current_def egl_context_set_callbacks_def client_send_make_current_def ctx_server_def surf_server_def
        convert_gltype_def set_error_def Let_def cur_def bound_def)
qed

lemma demo_surface_ok:
  "egl_ok 3 (OpCreatePbuffer demo_surface_env demo_alloc 1 1 (Some [EGL_WIDTH, 16, EGL_HEIGHT, 16, EGL_NONE])) egl_demo2"
  by (simp add: egl_ok_def MAX_THREADS_def new_surface_ok_def free_surface_memory_def demo_surface_env_def attribs_ok_def egl_demo2_def
      egl_demo1_def egl_demo_state_def log_call_def)

lemma demo_start: "egl_start egl_demo0"
  by (simp add: egl_start_def egl_demo0_def egl_demo_state_def)

lemma demo_reach: "egl_reach egl_demo1" "egl_reach egl_demo2"
  and demo_bound: "\<exists>s. egl_reach s \<and> cur s False 3 = 4096 \<and> bound s True False 3 = 8192 \<and> es_inited s \<and>
    es_contexts s = demo_gmap1 4096 \<and> es_surfaces s = demo_gmap1 8192 \<and> (\<exists>x. es_surf s 8192 = Some x \<and> \<not> sf_is_locked x) \<and>
    (\<exists>c. es_ctx s 4096 = Some c \<and> cx_is_current c \<and> cx_thread c = 3 \<and> cx_type c = OPENGL_ES_20)"
proof -
  show r1: "egl_reach egl_demo1"
    by (rule egl_reach.step [OF egl_reach.start [OF demo_start] _ demo_step1]) (simp add: egl_ok_def MAX_THREADS_def)
  show r2: "egl_reach egl_demo2"
    by (rule egl_reach.step [OF r1 _ demo_step2])
      (simp add: egl_ok_def MAX_THREADS_def context_env_ok_def demo_context_env_def demo_alloc_def attribs_ok_def egl_demo1_def egl_demo_state_def)
  obtain l where l: "egl_step 3 (OpCreatePbuffer demo_surface_env demo_alloc 1 1 (Some [EGL_WIDTH, 16, EGL_HEIGHT, 16, EGL_NONE])) egl_demo2 =
      Some (egl_demo3 l)" using demo_step3 by blast
  have r3: "egl_reach (egl_demo3 l)" by (rule egl_reach.step [OF r2 demo_surface_ok l])
  show "\<exists>s. egl_reach s \<and> cur s False 3 = 4096 \<and> bound s True False 3 = 8192 \<and> es_inited s \<and>
    es_contexts s = demo_gmap1 4096 \<and> es_surfaces s = demo_gmap1 8192 \<and> (\<exists>x. es_surf s 8192 = Some x \<and> \<not> sf_is_locked x) \<and>
    (\<exists>c. es_ctx s 4096 = Some c \<and> cx_is_current c \<and> cx_thread c = 3 \<and> cx_type c = OPENGL_ES_20)"
    using demo_step4 [of l] egl_reach.step [OF r3, of 3 "OpMakeCurrent (\<lambda>_ _. 0) 1 1 1 1"] by (auto simp: egl_ok_def MAX_THREADS_def)
qed

section \<open>Properties\<close>



lemma refs_card:
  assumes "\<And>t. t \<noteq> u \<Longrightarrow> refs bs p t = 0"
  shows "card {(rd, vg, t). bs rd vg t = p} = refs bs p u"
proof -
  have "{(rd, vg, t). bs rd vg t = p} = (\<lambda>(rd, vg). (rd, vg, u)) ` {(rd, vg). bs rd vg u = p}"
  proof (rule set_eqI, clarify)
    fix rd vg t
    have "bs rd vg t = p \<Longrightarrow> t = u" using assms [of t] refs_pos [of bs p t] by (cases "t = u") auto
    then show "((rd, vg, t) \<in> {(rd, vg, t). bs rd vg t = p}) = ((rd, vg, t) \<in> (\<lambda>(rd, vg). (rd, vg, u)) ` {(rd, vg). bs rd vg u = p})"
      by (auto simp: image_iff)
  qed
  moreover have "inj_on (\<lambda>(rd, vg). (rd, vg, u)) A" for A :: "(bool \<times> bool) set" by (auto simp: inj_on_def)
  ultimately have "card {(rd, vg, t). bs rd vg t = p} = card {x \<in> UNIV. case x of (rd, vg) \<Rightarrow> bs rd vg u = p}"
    by (simp add: card_image)
  also have "\<dots> = (\<Sum>x\<in>UNIV. of_bool (case x of (rd, vg) \<Rightarrow> bs rd vg u = p))"
    by (simp add: sum_of_bool_eq)
  also have "(UNIV :: (bool \<times> bool) set) = {(False, False), (True, False), (False, True), (True, True)}" by auto
  finally show ?thesis by (simp add: refs_def)
qed

text \<open>
  C38. In every state that calls lead to, a context is current for at most one thread and for its own API,
  the count of current contexts and the binding counts of the surfaces are exact, and an object that is
  destroyed lives on exactly as long as it is bound.
\<close>

theorem egl_bindings_consistent:
  assumes "egl_reach s"
  shows "(\<forall>vg t. cur s vg t \<noteq> 0 \<longrightarrow> (\<exists>c. es_ctx s (cur s vg t) = Some c \<and> (cx_type c = OPENVG) = vg \<and> cx_thread c = t)) \<and>
    (\<forall>p c. es_ctx s p = Some c \<longrightarrow> cx_is_current c = (\<exists>vg t. cur s vg t = p) \<and> (cx_is_destroyed c \<longrightarrow> cx_is_current c)) \<and>
    es_context_current_count s = of_nat (card {(vg, t). cur s vg t \<noteq> 0}) \<and>
    (\<forall>rd vg t. bound s rd vg t \<noteq> 0 \<longrightarrow> es_surf s (bound s rd vg t) \<noteq> None) \<and>
    (\<forall>p x. es_surf s p = Some x \<longrightarrow> unat (sf_context_binding_count x) = card {(rd, vg, t). bound s rd vg t = p} \<and>
       (sf_is_destroyed x \<longrightarrow> (\<exists>rd vg t. bound s rd vg t = p)))"
proof (intro conjI allI impI)
  note inv = reach_inv [OF assms]
  note ci = egl_invD(2) [OF inv, unfolded ctx_part_def] and si = egl_invD(3) [OF inv, unfolded surf_part_def]
  show "\<exists>c. es_ctx s (cur s vg t) = Some c \<and> (cx_type c = OPENVG) = vg \<and> cx_thread c = t" if "cur s vg t \<noteq> 0" for vg t
    using ctx_invD(3) [OF ci that] by blast
  show "cx_is_current c = (\<exists>vg t. cur s vg t = p)" if "es_ctx s p = Some c" for p c
    using ctx_invD(2) [OF ci that] ctx_invD(3) [OF ci] that by (metis option.inject)
  show "cx_is_current c" if "es_ctx s p = Some c" "cx_is_destroyed c" for p c using ctx_invD(2) [OF ci that(1)] that(2) by simp
  show "es_context_current_count s = of_nat (card {(vg, t). cur s vg t \<noteq> 0})" by (rule ctx_invD(4) [OF ci])
  show "es_surf s (bound s rd vg t) \<noteq> None" if "bound s rd vg t \<noteq> 0" for rd vg t by (rule surf_invD(4) [OF si that])
  show count: "unat (sf_context_binding_count x) = card {(rd, vg, t). bound s rd vg t = p}" if "es_surf s p = Some x" for p x
    using refs_card [of "sf_thread x" "bound s" p] surf_invD(3) [OF si that] by simp
  show "\<exists>rd vg t. bound s rd vg t = p" if "es_surf s p = Some x" "sf_is_destroyed x" for p x
  proof -
    have "0 < refs (bound s) p (sf_thread x)"
      using surf_invD(2) [OF si that(1)] surf_invD(3) [OF si that(1), of "sf_thread x"] that(2) by (simp add: unat_gt_0)
    then show ?thesis unfolding refs_pos by blast
  qed
qed

lemma egl_bindings_consistent_witness:
  "\<exists>s. cur s False 3 = 4096 \<and> bound s True False 3 = 8192 \<and>
    (\<forall>vg t. cur s vg t \<noteq> 0 \<longrightarrow> (\<exists>c. es_ctx s (cur s vg t) = Some c \<and> (cx_type c = OPENVG) = vg \<and> cx_thread c = t)) \<and>
    (\<forall>p c. es_ctx s p = Some c \<longrightarrow> cx_is_current c = (\<exists>vg t. cur s vg t = p) \<and> (cx_is_destroyed c \<longrightarrow> cx_is_current c)) \<and>
    es_context_current_count s = of_nat (card {(vg, t). cur s vg t \<noteq> 0}) \<and>
    (\<forall>rd vg t. bound s rd vg t \<noteq> 0 \<longrightarrow> es_surf s (bound s rd vg t) \<noteq> None) \<and>
    (\<forall>p x. es_surf s p = Some x \<longrightarrow> unat (sf_context_binding_count x) = card {(rd, vg, t). bound s rd vg t = p} \<and>
       (sf_is_destroyed x \<longrightarrow> (\<exists>rd vg t. bound s rd vg t = p)))"
  using demo_bound egl_bindings_consistent by blast

text \<open>
  C39. \<open>eglMakeCurrent\<close> binds exactly what it is asked to, or nothing: when it fails every binding of every
  thread is what it was; when it succeeds the calling thread has the named context and surfaces current for
  the API of the context (or nothing, for the API it has bound), and no other binding changes.
\<close>

theorem egl_make_current_exact:
  assumes "egl_reach s" "t < MAX_THREADS"
  shows "\<exists>ok s'. eglMakeCurrent mem t dpy dr rd ctx s = Some (ok, s') \<and>
    (if \<not> ok then cur s' = cur s \<and> bound s' = bound s
     else if ctx = 0 then cur s' = unbind (bound_vg t s) t (cur s) \<and>
       bound s' = rebind True (bound_vg t s) t 0 (rebind False (bound_vg t s) t 0 (bound s))
     else \<exists>p c x y. ctx_map s ctx = Some p \<and> es_ctx s p = Some c \<and> surf_map s dr = Some x \<and> surf_map s rd = Some y \<and>
       cur s' = bind (cx_type c = OPENVG) t p (cur s) \<and>
       bound s' = rebind True (cx_type c = OPENVG) t y (rebind False (cx_type c = OPENVG) t x (bound s)))"
  using make_current_spec [OF reach_inv [OF assms(1)] assms(2), of mem dpy dr rd ctx] unfolding made_current_def by blast

lemma egl_make_current_exact_witness:
  "\<exists>s. cur s False 3 = 4096 \<and> (\<exists>ok s'. eglMakeCurrent (\<lambda>_ _. 0) 3 1 0 0 0 s = Some (ok, s') \<and>
    (if \<not> ok then cur s' = cur s \<and> bound s' = bound s
     else if (0 :: u32) = 0 then cur s' = unbind (bound_vg 3 s) 3 (cur s) \<and>
       bound s' = rebind True (bound_vg 3 s) 3 0 (rebind False (bound_vg 3 s) 3 0 (bound s))
     else \<exists>p c x y. ctx_map s 0 = Some p \<and> es_ctx s p = Some c \<and> surf_map s 0 = Some x \<and> surf_map s 0 = Some y \<and>
       cur s' = bind (cx_type c = OPENVG) 3 p (cur s) \<and>
       bound s' = rebind True (cx_type c = OPENVG) 3 y (rebind False (cx_type c = OPENVG) 3 x (bound s))))"
proof -
  obtain s where "egl_reach s" "cur s False 3 = 4096" using demo_bound by blast
  then show ?thesis using egl_make_current_exact [of s 3 "\<lambda>_ _. 0" 1 0 0 0] by (intro exI [of _ s] conjI) (simp_all only: MAX_THREADS_def, simp)
qed

text \<open>
  C40. Making a context current that another thread has current fails with \<open>EGL_BAD_ACCESS\<close> and changes no
  binding; but the callbacks of that context, which the other thread renders with, are set or cleared
  after the surface that was refused.
\<close>

theorem egl_make_current_elsewhere:
  assumes "egl_reach s" "t < MAX_THREADS" "es_inited s" "ctx \<noteq> 0" "dr \<noteq> 0"
    and "ctx_map s ctx = Some p" "es_ctx s p = Some c" "cx_is_current c" "cx_thread c \<noteq> t"
    and "surf_map s dr = Some q" "es_surf s q = Some x" "\<not> sf_is_locked x"
  shows "\<exists>s'. eglMakeCurrent mem t 1 dr dr ctx s = Some (False, s') \<and> t_error (es_threads s' t) = EGL_BAD_ACCESS \<and>
    cur s' = cur s \<and> bound s' = bound s \<and> es_surf s' = es_surf s \<and>
    es_ctx s' = (es_ctx s)(p \<mapsto> c\<lparr>cx_callbacks := (sf_type x = PIXMAP)\<rparr>)"
proof -
  note inv = reach_inv [OF assms(1)]
  note si = egl_invD(3) [OF inv, unfolded surf_part_def] and ci = egl_invD(2) [OF inv, unfolded ctx_part_def]
  have live: "\<not> sf_is_destroyed x" "\<not> cx_is_destroyed c"
    using surf_invD(1) [OF si assms(10)] ctx_invD(1) [OF ci assms(6)] assms(7,11) by auto
  have get: "client_egl_get_context t ctx s = Some (Some p, s)" "client_egl_get_surface t dr s = Some (Some q, s)"
    using lookup_ctx [OF inv assms(3), of ctx] lookup_surf [OF inv assms(3), of dr] assms(6,7,10-12) live
    by (simp_all add: client_egl_get_context_def client_egl_get_surface_def client_egl_get_locked_surface_def)
  have denied: "egl_current_set vg t p q q s = Some (False, (set_error t EGL_BAD_ACCESS s)
      \<lparr>es_ctx := (es_ctx s)(p \<mapsto> c\<lparr>cx_callbacks := (sf_type x = PIXMAP)\<rparr>)\<rparr>)" for vg
    using assms(7-9,11) by (simp add: egl_current_set_def egl_context_set_callbacks_def upd_ctx_def egl_views)
  show ?thesis
    using assms(3-5,7) by (simp add: eglMakeCurrent_def with_display_def client_egl_get_process_state_def get denied egl_views)
      (simp add: set_error_def)
qed

lemma egl_make_current_elsewhere_witness:
  "\<exists>s p c (x :: egl_surface). cx_thread c = 3 \<and> (\<exists>s'. eglMakeCurrent (\<lambda>_ _. 0) 5 1 1 1 1 s = Some (False, s') \<and>
    t_error (es_threads s' 5) = EGL_BAD_ACCESS \<and> cur s' = cur s \<and> bound s' = bound s \<and> es_surf s' = es_surf s \<and>
    es_ctx s' = (es_ctx s)(p \<mapsto> c\<lparr>cx_callbacks := (sf_type x = PIXMAP)\<rparr>))"
proof -
  obtain s c x where s: "egl_reach s" "es_inited s" "es_contexts s = demo_gmap1 4096" "es_surfaces s = demo_gmap1 8192"
    "es_surf s 8192 = Some x" "\<not> sf_is_locked x" "es_ctx s 4096 = Some c" "cx_is_current c" "cx_thread c = 3"
    using demo_bound by blast
  have m: "ctx_map s 1 = Some 4096" "surf_map s 1 = Some 8192"
    using lookup_ctx [OF reach_inv [OF s(1)] s(2), of 1] lookup_surf [OF reach_inv [OF s(1)] s(2), of 1] demo_gmap_lookup
    unfolding s(3,4) by (auto split: option.splits)
  have "\<exists>s'. eglMakeCurrent (\<lambda>_ _. 0) 5 1 1 1 1 s = Some (False, s') \<and>
    t_error (es_threads s' 5) = EGL_BAD_ACCESS \<and> cur s' = cur s \<and> bound s' = bound s \<and> es_surf s' = es_surf s \<and>
    es_ctx s' = (es_ctx s)(4096 \<mapsto> c\<lparr>cx_callbacks := (sf_type x = PIXMAP)\<rparr>)"
    by (rule egl_make_current_elsewhere [OF s(1) _ s(2) _ _ m(1) s(7,8) _ m(2) s(5,6)]) (simp_all add: MAX_THREADS_def s(9))
  with s(9) show ?thesis by blast
qed

text \<open>
  When the map of contexts cannot grow, the assertion of \<open>egl_context_term\<close> that the context is destroyed
  fails; and the colors of an image without a stride cannot be sent, by a division by zero.
\<close>

lemma insert_context_no_room:
  assumes "egl_context_create env share (es_next_context s) dpy config ty s = (Some p, s1)" "es_ctx s1 p = Some c"
    "\<not> cx_is_destroyed c" "khrn_map_insert alloc (es_contexts s1) (es_next_context s1) p = Some (False, m)"
  shows "insert_context env alloc t dpy config ty share s = None"
  using assms by (simp add: insert_context_def egl_context_term_def egl_views)

lemma set_color_data_no_stride: "im_stride img = 0 \<Longrightarrow> set_color_data img = None"
  by (simp add: set_color_data_def)

end
