(* ===== verification/Spec2Isabelle.thy ===== *)
theory Spec2Isabelle
  imports Oculus_Prelude Oculus_Sched Oculus_Memory Vchiu_Queue Vcos_Pool Vcos_Waiters Vcos_Message_Pools Khrn_Map Khrn_Util Khrn_Hash Khrn_Lookup Vchiq_Deliver Vchiq_Recycle Vchiq_Power Vchiq_Pagelist Vchiq_Retry Vchiq_Table Vchi_Messages Egl_Properties
begin

text \<open>
  A verification library for the VideoCore client stack of the Oculus firmware: the C code
  under circle/addon/vc4 with which the ARM side of a Raspberry Pi talks to its VideoCore.

  \<^bold>\<open>The program.\<close> VCHIQ (circle/addon/vc4/vchiq) carries messages and bulk transfers
  between the two processors. They share a memory of 4 KB slots; each side appends messages to a
  stream of its own slots (\<open>queue_message\<close>), rings the other side through remote events,
  and the other side's slot handler thread reads the stream (\<open>parse_rx_slots\<close>), calls the callback
  of the service each message is for, and claims the slot while a client holds the message. The
  recycle thread gives released slots back (\<open>process_free_queue\<close>). Quotas bound what one service may
  hold of the stream. Clients open services through vchiq_core.c and vchiq_arm.c keeps the VideoCore
  awake while they use it; the Khronos clients (circle/addon/vc4/interface/khronos) are such
  clients, with hash maps and a cache of vertex data of their own. All of it runs on the Linux
  emulation of circle/addon/linux, whose tasks switch only in the waiting loops of semaphores and
  mutexes.

  \<^bold>\<open>How the code is modelled.\<close> A struct is a record, an enum a datatype or a word constant, an
  integer a word of its width (sums wrap; signed sums are taken to wrap too, which the saturating
  helpers of khrn_int_util.h rely on), the shared slot memory and the caches bytes with
  little-endian loads and stores. A function is a definition of the same
  name on an explicit state; a BUG_ON, an assertion or a wild index is the result \<open>None\<close>; a wait
  takes the list of what the other tasks do at each of its yields (\<open>sched\<close> of Oculus_Sched) and is
  \<open>None\<close> when that list ends first. What the code gets from outside (callbacks of clients, results of
  memory allocation, answers of the server) are arguments, and the theorems hold for all of them
  unless they say otherwise.

  \<^bold>\<open>The theories.\<close>
  Foundations: Oculus_Prelude (types, rule collections, masked ring counters, cyclic probing),
  Oculus_Sched (semaphore.cpp, mutex.cpp, completion.cpp and invariants across waits), Oculus_Memory
  (bytes and words in memory).

  Vchiu_Queue: vchiq_util.c, the blocking ring between the slot handler and a client. The ring
  implements the locale \<open>fifo\<close> (interpretation \<open>vchiu\<close>) across the wrap of its counters, and the
  step relation \<open>qstep\<close> of its tasks loses no wake-up.

  VCHIQ, bottom up. Vchiq_Types: identifiers, headers and the state records of vchiq_core.h.
  Vchiq_Slots: remote events, \<open>reserve_space\<close>, \<open>process_free_queue\<close>, \<open>claim_slot\<close>, \<open>release_slot\<close>.
  Vchiq_Send: \<open>queue_message\<close> and its quota waits. Vchiq_Stream: the stream as the sequence of its
  messages and the sender's invariant. Vchiq_Arm and Vchiq_Power: vchiq_arm.c, use counts, the
  suspend and resume machines, the keepalive thread, the forced suspend. Vchiq_Service: the table of
  services, references, creation and options. Vchiq_Bulk: bulk queues and page lists. Vchiq_Close:
  opening, closing, connecting. Vchiq_Parse: \<open>parse_rx_slots\<close> and the three threads. Vchiq_Init:
  \<open>vchiq_init_slots\<close>, \<open>vchiq_init_state\<close>. The properties of these operations are in Vchiq_Init (the
  layout and the first state), Vchiq_Transmit (sending appends, a full stream, quotas),
  Vchiq_Deliver (receiving delivers what was sent; the composition of both sides), Vchiq_Recycle
  (slots come back once, credits return, \<open>process_free_queue\<close> ends), Vchiq_Power, Vchiq_Pagelist,
  Vchiq_Retry (a message whose callback answers VCHIQ_RETRY) and Vchiq_Table. On top of the core,
  Vchiq_Kern: vchiq_kern_lib.c (instances, bulk transfers in every mode with the waiters that threads
  leave behind) and vchiq_connected.c; Vchi_Shim: vchiq_shim.c, the VCHI interface of all clients of the
  VideoCore; Vchi_Messages: what VCHI promises about messages and opened services, by the laws of the
  locale \<open>fifo\<close>.

  Khronos client. Khrn_Map: khrn_int_generic_map.c refines finite maps (locale \<open>assoc_store\<close>,
  interpretation \<open>kmap\<close>). Khrn_Util: khrn_int_util.[ch]. Khrn_Hash: khrn_int_hash.c is one function of
  the bytes at every alignment. Khrn_Buddy and Khrn_Heap: the buddy heap of khrn_client_cache.c, its
  node invariant and its laws as the locale \<open>block_heap\<close> (interpretation \<open>buddy\<close>). Khrn_Cache and
  Khrn_Lookup: the cache on top of map, hash and heap; \<open>cache_run\<close> collects every history of it, its
  proofs use the laws of the two locales only.

  EGL, the part of the Khronos client with state of its own (khronos/egl and common/khrn_client.c).
  Khrn_Image: the image formats and their sizes. Egl_Config: the configurations and the functions that
  check, sort and filter them; Egl_Choose: the bubble sort is a stable sort by the key of the EGL
  specification, and eglChooseConfig returns what the specification asks for. Egl_Objects: contexts and
  surfaces (records \<open>egl_context\<close>, \<open>egl_surface\<close>, held by address in the state \<open>egl_state\<close>) and their
  creation, attributes and freeing. Egl_Client: the entry points of egl_client.c on the state of the
  process and of its threads. Every entry point holds the client lock, so each is one step; \<open>egl_step\<close>
  (Egl_Steps) interleaves the calls of any threads and \<open>egl_reach\<close> collects the states they lead to.
  Egl_Bindings states the invariant of contexts (\<open>ctx_inv\<close>) and of surfaces (\<open>surf_inv\<close>) against the
  bindings of all threads, Egl_Release, Egl_Current, Egl_Calls and Egl_Surfaces prove that releasing,
  binding, creating and destroying keep it, and Egl_Properties holds what follows for the client. What
  the platform gives a call is its argument and \<open>egl_ok\<close> says when it is sound: new memory is not in use,
  attribute lists are terminated, the map of contexts has room, a pixmap is of a known format, fewer than
  \<open>2 ^ 20\<close> threads. The calls to the server are a log.

  VCOS, the operating system layer under all of it (interface/vcos). Vcos_Blockpool and Vcos_Pool:
  vcos_generic_blockpool.c with its blocks in memory as 32-bit addresses; sizes wrap as in the code and
  \<open>sizes_fit\<close> says when they do not; \<open>pool_run\<close> collects the histories of a pool and \<open>pool_inv\<close> holds in
  all of them. Vcos_Event_Flags and Vcos_Waiters: vcos_generic_event_flags.c and the task timers of
  vcos_pthreads.c; \<open>ef_step\<close> interleaves the calls of any number of threads with expiring timers, and
  \<open>ef_inv\<close> says what the list of waiters and the semaphores of the threads know of each other.
  Vcos_Msgqueue: vcos_msgqueue.c. Vcos_Messages: \<open>msgq_run\<close> collects the histories of any number of
  queues with what was delivered to and taken from each, \<open>msgq_inv\<close> ties the linked lists and the
  semaphores to them. Vcos_Block_Store and Vcos_Message_Pools: the locale \<open>block_store\<close> (interpretation
  \<open>blockpool\<close> on the block pool) and the message pools on top of it.

  \<^bold>\<open>What is not modelled.\<close> The user-space device of vchiq_arm.c and the dumps (compiled out, or text
  for a log), the set-up of the hardware (vchiq_platform_init, interrupts), the marshalling of
  OpenGL ES and OpenVG calls and its transport, the entry points of EGL that only ask or forward
  (eglQuerySurface, eglSwapBuffers and the like) and its extensions, the services of vmcs_host, the helpers on floats, and everything
  outside circle/addon/vc4: the C++ Circle environment, device add-ons, samples and the vendored
  ffmpeg.wasm.
\<close>

end
